(* ===== verification/Prelude.thy ===== *)
theory Prelude
  imports Main "HOL-Library.Signed_Division"
begin

section \<open>Shared notions of the development\<close>

text \<open>
  This theory holds what every component uses:
  \<^item> the results of code that may fail: a \<open>fault\<close> or a value, with the sequencing
    combinators \<open>bindE\<close> and \<open>foldE\<close> and their invariant rules;
  \<^item> the counting loops of the source, \<open>for (int i = a; i < b; i++)\<close>, as the list
    \<open>int_range a b\<close>;
  \<^item> the fixed-width conversions of C++ (\<open>u32\<close>, \<open>s32\<close>, \<open>u64\<close>, \<open>s64\<close>) on mathematical
    integers and the truncating division \<open>sdiv\<close> and remainder \<open>smod\<close> of the library.
\<close>

named_theorems keeps_intros "rules for what holds of every result that is not a fault"

subsection \<open>Results of code that may fail\<close>

text \<open>
  \<open>LoggedError n\<close> is the exception that \<open>utl::Logger::error\<close> throws for message \<open>n\<close>;
  \<open>Critical n\<close> is \<open>utl::Logger::critical\<close>, which ends the process; \<open>ZExc\<close> is a thrown
  \<open>ZException\<close>; \<open>NullDeref\<close> and \<open>OutOfBounds\<close> are the undefined behaviour of a null
  dereference and of an array access outside its bounds; \<open>DivZero\<close> is a division by
  zero; \<open>NoReturn\<close> is a loop that does not end; \<open>Abort\<close> is \<open>std::abort\<close> or a failed
  \<open>assert\<close>.
\<close>

datatype fault =
    LoggedError nat
  | Critical nat
  | ZExc string
  | NullDeref
  | OutOfBounds
  | DivZero
  | NoReturn
  | Abort

type_synonym 'a result = "fault + 'a"

definition bindE :: "'a result \<Rightarrow> ('a \<Rightarrow> 'b result) \<Rightarrow> 'b result" where
  "bindE m f = (case m of Inl e \<Rightarrow> Inl e | Inr a \<Rightarrow> f a)"

lemma bindE_simps [simp]:
  "bindE (Inl e) f = Inl e"
  "bindE (Inr a) f = f a"
  by (simp_all add: bindE_def)

lemma bindE_Inr_iff: "bindE m f = Inr b \<longleftrightarrow> (\<exists>a. m = Inr a \<and> f a = Inr b)"
  by (cases m) auto

lemma bindE_Inl_iff: "bindE m f = Inl e \<longleftrightarrow> m = Inl e \<or> (\<exists>a. m = Inr a \<and> f a = Inl e)"
  by (cases m) auto

lemma bindE_InrE [elim!]:
  assumes "bindE m f = Inr b"
  obtains a where "m = Inr a" "f a = Inr b"
  using assms by (auto simp: bindE_Inr_iff)

lemma bindE_cong [fundef_cong]:
  assumes "m = m'" and "\<And>a. m' = Inr a \<Longrightarrow> f a = f' a"
  shows "bindE m f = bindE m' f'"
  using assms by (cases m') auto

text \<open>A loop over the elements of a container; the first fault leaves the loop.\<close>

fun foldE :: "('a \<Rightarrow> 's \<Rightarrow> 's result) \<Rightarrow> 'a list \<Rightarrow> 's \<Rightarrow> 's result" where
  "foldE f [] s = Inr s"
| "foldE f (x # xs) s = bindE (f x s) (foldE f xs)"

lemma foldE_append: "foldE f (xs @ ys) s = bindE (foldE f xs s) (foldE f ys)"
proof (induction xs arbitrary: s)
  case (Cons x xs)
  then show ?case by (cases "f x s") auto
qed simp

text \<open>The loop rule: what every step keeps holds after the loop.\<close>

lemma foldE_invariant:
  assumes "foldE f xs s = Inr s'" and "P s"
    and "\<And>x s s'. x \<in> set xs \<Longrightarrow> P s \<Longrightarrow> f x s = Inr s' \<Longrightarrow> P s'"
  shows "P s'"
  using assms
proof (induction xs arbitrary: s)
  case (Cons x xs)
  from Cons.prems(1) obtain t where t: "f x s = Inr t" "foldE f xs t = Inr s'" by auto
  have "P t" using Cons.prems(2,3) t(1) by auto
  then show ?case using Cons.IH [OF t(2)] Cons.prems(3) by auto
qed simp

text \<open>The loop rule for totality: under an invariant no step faults, so the loop does not.\<close>

lemma foldE_total:
  assumes "P s" and "\<And>x s. x \<in> set xs \<Longrightarrow> P s \<Longrightarrow> \<exists>s'. f x s = Inr s' \<and> P s'"
  shows "\<exists>s'. foldE f xs s = Inr s' \<and> P s'"
  using assms
proof (induction xs arbitrary: s)
  case (Cons x xs)
  then obtain t where "f x s = Inr t" "P t" by (meson list.set_intros(1))
  with Cons show ?case by (metis bindE_simps(2) foldE.simps(2) list.set_intros(2))
qed simp

lemma foldE_cong [fundef_cong]:
  assumes "xs = ys" "s = t" and "\<And>x s. x \<in> set ys \<Longrightarrow> f x s = g x s"
  shows "foldE f xs s = foldE g ys t"
  unfolding assms(1,2) using assms(3)
proof (induction ys arbitrary: t)
  case (Cons y ys)
  then show ?case by (cases "g y t") auto
qed simp

text \<open>
  Partial correctness: \<open>keeps P m\<close> says that a result of \<open>m\<close> that is not a fault satisfies
  \<open>P\<close>. The rules follow the structure of the program.
\<close>

definition keeps :: "('a \<Rightarrow> bool) \<Rightarrow> 'a result \<Rightarrow> bool" where
  "keeps P m \<longleftrightarrow> (\<forall>s. m = Inr s \<longrightarrow> P s)"

lemma keepsD: "keeps P m \<Longrightarrow> m = Inr s \<Longrightarrow> P s"
  by (simp add: keeps_def)

lemma keeps_Inr [keeps_intros]: "P s \<Longrightarrow> keeps P (Inr s)"
  by (simp add: keeps_def)

lemma keeps_Inl [keeps_intros]: "keeps P (Inl e)"
  by (simp add: keeps_def)

lemma keeps_bindE: "keeps Q m \<Longrightarrow> (\<And>a. Q a \<Longrightarrow> keeps P (f a)) \<Longrightarrow> keeps P (bindE m f)"
  by (auto simp: keeps_def)

lemma keeps_bindE_same [keeps_intros]:
  "keeps P m \<Longrightarrow> (\<And>a. P a \<Longrightarrow> keeps P (f a)) \<Longrightarrow> keeps P (bindE m f)"
  by (rule keeps_bindE)

lemma keeps_foldE [keeps_intros]:
  "P s \<Longrightarrow> (\<And>x s. x \<in> set xs \<Longrightarrow> P s \<Longrightarrow> keeps P (f x s)) \<Longrightarrow> keeps P (foldE f xs s)"
  unfolding keeps_def using foldE_invariant by metis

lemma keeps_if [keeps_intros]:
  "(b \<Longrightarrow> keeps P m) \<Longrightarrow> (\<not> b \<Longrightarrow> keeps P n) \<Longrightarrow> keeps P (if b then m else n)"
  by simp

subsection \<open>Counting loops\<close>

definition int_range :: "int \<Rightarrow> int \<Rightarrow> int list" where
  "int_range a b = [a..b - 1]"

lemma set_int_range [simp]: "set (int_range a b) = {a..<b}"
  by (auto simp: int_range_def)

lemma distinct_int_range [simp]: "distinct (int_range a b)"
  by (simp add: int_range_def)

lemma int_range_empty [simp]: "b \<le> a \<Longrightarrow> int_range a b = []"
  by (simp add: int_range_def)

lemma int_range_step: "a < b \<Longrightarrow> int_range a b = a # int_range (a + 1) b"
  by (simp add: int_range_def upto_rec1)

lemma length_int_range [simp]: "length (int_range a b) = nat (b - a)"
  by (simp add: int_range_def)

subsection \<open>Fixed-width integers\<close>

text \<open>
  The value that a conversion to an unsigned or signed type of 32 or 64 bits keeps of a
  mathematical integer (two's complement).
\<close>

definition u32 :: "int \<Rightarrow> int" where "u32 x = x mod 4294967296"
definition s32 :: "int \<Rightarrow> int" where "s32 x = (x + 2147483648) mod 4294967296 - 2147483648"
definition u64 :: "int \<Rightarrow> int" where "u64 x = x mod 18446744073709551616"
definition s64 :: "int \<Rightarrow> int" where
  "s64 x = (x + 9223372036854775808) mod 18446744073709551616 - 9223372036854775808"

abbreviation INT_MAX :: int where "INT_MAX \<equiv> 2147483647"
abbreviation INT_MIN :: int where "INT_MIN \<equiv> - 2147483648"

definition fits32 :: "int \<Rightarrow> bool" where
  "fits32 x \<longleftrightarrow> INT_MIN \<le> x \<and> x \<le> INT_MAX"

lemma u32_id: "0 \<le> x \<Longrightarrow> x < 4294967296 \<Longrightarrow> u32 x = x"
  by (simp add: u32_def)

lemma s32_id: "fits32 x \<Longrightarrow> s32 x = x"
  by (simp add: s32_def fits32_def)

lemma u64_id: "0 \<le> x \<Longrightarrow> x < 18446744073709551616 \<Longrightarrow> u64 x = x"
  by (simp add: u64_def)

lemma s64_id: "- 9223372036854775808 \<le> x \<Longrightarrow> x < 9223372036854775808 \<Longrightarrow> s64 x = x"
  by (simp add: s64_def)

lemma u32_range: "0 \<le> u32 x \<and> u32 x < 4294967296"
  by (simp add: u32_def)

subsection \<open>C++ division on non-negative operands\<close>

lemma sdiv_nonneg: "0 \<le> a \<Longrightarrow> 0 < b \<Longrightarrow> a sdiv b = a div (b::int)"
  by (cases "a = 0") (auto simp: signed_divide_int_def sgn_if)

lemma smod_nonneg: "0 \<le> a \<Longrightarrow> 0 < b \<Longrightarrow> a smod b = a mod (b::int)"
  by (cases "a = 0") (auto simp: signed_modulo_int_def sgn_if)

lemma sdiv_mult_cancel: "b \<noteq> 0 \<Longrightarrow> (a * b) sdiv b = (a::int)"
proof -
  assume "b \<noteq> 0"
  then have "\<bar>a * b\<bar> div \<bar>b\<bar> = \<bar>a\<bar>" by (simp add: abs_mult)
  with \<open>b \<noteq> 0\<close> show ?thesis
    by (auto simp: signed_divide_int_def sgn_if mult_less_0_iff zero_less_mult_iff)
qed

subsection \<open>Lists updated at an index\<close>

lemma list_update_nth_same [simp]: "i < length xs \<Longrightarrow> xs[i := f (xs ! i)] ! i = f (xs ! i)"
  by simp

lemma nth_list_update_if:
  "i < length xs \<Longrightarrow> xs[i := x] ! j = (if i = j then x else xs ! j)"
  by simp

end
