(* ===== verification/Odb_Geom.thy ===== *)
theory Odb_Geom
  imports Prelude
begin

section \<open>OpenDB geometry: points, rectangles and octilinear shapes\<close>

text \<open>
  \<open>odb/include/odb/geom.h\<close>. \<open>Point\<close> and \<open>Rect\<close> are the classes of the same name, with
  their fields as selectors; \<open>rect_init\<close> is the normalising constructor of \<open>Rect\<close>, and
  the constructor \<open>Rect\<close> itself corresponds to \<open>Rect::reset\<close>, which stores the fields as
  given. Coordinates are C++ \<open>int\<close>s, modelled as mathematical integers; where the code
  widens or narrows, the conversion is written out. The lemmas show the lattice laws of
  merging and intersecting, that \<open>closestPtInside\<close> is a nearest point, and for which
  coordinates \<open>crossProduct\<close> is exact in 64 bits.
\<close>

subsection \<open>Points\<close>

datatype Point = Point (getX: int) (getY: int)

definition point_default :: Point where "point_default = Point 0 0"

fun rotate90 :: "Point \<Rightarrow> Point" where "rotate90 (Point x y) = Point (- y) x"
fun rotate180 :: "Point \<Rightarrow> Point" where "rotate180 (Point x y) = Point (- x) (- y)"
fun rotate270 :: "Point \<Rightarrow> Point" where "rotate270 (Point x y) = Point y (- x)"

fun setX :: "int \<Rightarrow> Point \<Rightarrow> Point" where "setX x (Point _ y) = Point x y"
fun setY :: "int \<Rightarrow> Point \<Rightarrow> Point" where "setY y (Point x _) = Point x y"

text \<open>
  The operands are widened to \<open>int64\<close> first, so a difference of two \<open>int\<close>s is exact; the
  products and their difference are reduced to 64 bits by \<open>s64\<close>.
\<close>

fun crossProduct :: "Point \<Rightarrow> Point \<Rightarrow> Point \<Rightarrow> int" where
  "crossProduct (Point x0 y0) (Point x1 y1) (Point x2 y2) =
     s64 (s64 ((x1 - x0) * (y2 - y0)) - s64 ((x2 - x0) * (y1 - y0)))"

definition rotation :: "Point \<Rightarrow> Point \<Rightarrow> Point \<Rightarrow> int" where
  "rotation p0 p1 p2 =
     (let cp = crossProduct p0 p1 p2 in if cp = 0 then 0 else if cp < 0 then - 1 else 1)"

fun squaredDistance :: "Point \<Rightarrow> Point \<Rightarrow> int" where
  "squaredDistance (Point x0 y0) (Point x1 y1) =
     (let dx = x1 - x0; dy = y1 - y0 in u64 (s64 (s64 (dx * dx) + s64 (dy * dy))))"

fun manhattanDistance :: "Point \<Rightarrow> Point \<Rightarrow> int" where
  "manhattanDistance (Point x0 y0) (Point x1 y1) =
     (let dx = x1 - x0; dx = (if dx < 0 then - dx else dx);
          dy = y1 - y0; dy = (if dy < 0 then - dy else dy)
      in u64 (dx + dy))"

text \<open>\<open>Point::operator<\<close>, and \<open>operator>=\<close> as its negation.\<close>

fun point_less :: "Point \<Rightarrow> Point \<Rightarrow> bool" where
  "point_less (Point x y) (Point rx ry) =
     (if x < rx then True else if x > rx then False else y < ry)"

definition point_ge :: "Point \<Rightarrow> Point \<Rightarrow> bool" where
  "point_ge p q \<longleftrightarrow> \<not> point_less p q"

instantiation Point :: linorder
begin

definition less_Point :: "Point \<Rightarrow> Point \<Rightarrow> bool" where
  "less_Point = point_less"

definition less_eq_Point :: "Point \<Rightarrow> Point \<Rightarrow> bool" where
  "less_eq_Point p q \<longleftrightarrow> point_ge q p"

instance
proof
  fix p q r :: Point
  show "(p < q) = (p \<le> q \<and> \<not> q \<le> p)"
    by (cases p; cases q) (auto simp: less_Point_def less_eq_Point_def point_ge_def)
  show "p \<le> p"
    by (cases p) (auto simp: less_eq_Point_def point_ge_def)
  show "p \<le> q \<Longrightarrow> q \<le> r \<Longrightarrow> p \<le> r"
    by (cases p; cases q; cases r) (auto simp: less_eq_Point_def point_ge_def split: if_splits)
  show "p \<le> q \<Longrightarrow> q \<le> p \<Longrightarrow> p = q"
    by (cases p; cases q) (auto simp: less_eq_Point_def point_ge_def split: if_splits)
  show "p \<le> q \<or> q \<le> p"
    by (cases p; cases q) (auto simp: less_eq_Point_def point_ge_def)
qed

end

subsection \<open>Rectangles\<close>

datatype Rect = Rect (xMin: int) (yMin: int) (xMax: int) (yMax: int)

definition rect_default :: Rect where "rect_default = Rect 0 0 0 0"

definition rect_init :: "int \<Rightarrow> int \<Rightarrow> int \<Rightarrow> int \<Rightarrow> Rect" where
  "rect_init x1 y1 x2 y2 =
     (let (xlo, xhi) = (if x1 < x2 then (x1, x2) else (x2, x1));
          (ylo, yhi) = (if y1 < y2 then (y1, y2) else (y2, y1))
      in Rect xlo ylo xhi yhi)"

definition rect_of_points :: "Point \<Rightarrow> Point \<Rightarrow> Rect" where
  "rect_of_points p1 p2 =
     (let x1 = getX p1; y1 = getY p1; x2 = getX p2; y2 = getY p2;
          (xlo, xhi) = (if x1 < x2 then (x1, x2) else (x2, x1));
          (ylo, yhi) = (if y1 < y2 then (y1, y2) else (y2, y1))
      in Rect xlo ylo xhi yhi)"

definition mergeInit :: Rect where
  "mergeInit = Rect INT_MAX INT_MAX INT_MIN INT_MIN"

definition isInverted :: "Rect \<Rightarrow> bool" where
  "isInverted r \<longleftrightarrow> xMin r > xMax r \<or> yMin r > yMax r"

text \<open>\<open>dx\<close> and \<open>dy\<close> are converted to \<open>uint\<close>.\<close>

definition rect_dx :: "Rect \<Rightarrow> int" where "rect_dx r = u32 (xMax r - xMin r)"
definition rect_dy :: "Rect \<Rightarrow> int" where "rect_dy r = u32 (yMax r - yMin r)"

definition minDXDY :: "Rect \<Rightarrow> int" where
  "minDXDY r = (if rect_dx r < rect_dy r then rect_dx r else rect_dy r)"
definition maxDXDY :: "Rect \<Rightarrow> int" where
  "maxDXDY r = (if rect_dx r > rect_dy r then rect_dx r else rect_dy r)"
definition rect_getDir :: "Rect \<Rightarrow> int" where
  "rect_getDir r =
     (if rect_dx r < rect_dy r then 0 else if rect_dx r > rect_dy r then 1 else - 1)"

fun set_xlo :: "int \<Rightarrow> Rect \<Rightarrow> Rect" where "set_xlo x (Rect _ b c d) = Rect x b c d"
fun set_ylo :: "int \<Rightarrow> Rect \<Rightarrow> Rect" where "set_ylo y (Rect a _ c d) = Rect a y c d"
fun set_xhi :: "int \<Rightarrow> Rect \<Rightarrow> Rect" where "set_xhi x (Rect a b _ d) = Rect a b x d"
fun set_yhi :: "int \<Rightarrow> Rect \<Rightarrow> Rect" where "set_yhi y (Rect a b c _) = Rect a b c y"

text \<open>In \<open>moveTo\<close> the sum with the unsigned width is unsigned, and stored as an \<open>int\<close>.\<close>

definition moveTo :: "int \<Rightarrow> int \<Rightarrow> Rect \<Rightarrow> Rect" where
  "moveTo x y r = Rect x y (s32 (u32 (x + rect_dx r))) (s32 (u32 (y + rect_dy r)))"

definition moveDelta :: "int \<Rightarrow> int \<Rightarrow> Rect \<Rightarrow> Rect" where
  "moveDelta dx dy r = Rect (xMin r + dx) (yMin r + dy) (xMax r + dx) (yMax r + dy)"

definition rect_ll :: "Rect \<Rightarrow> Point" where "rect_ll r = Point (xMin r) (yMin r)"
definition rect_ul :: "Rect \<Rightarrow> Point" where "rect_ul r = Point (xMin r) (yMax r)"
definition rect_ur :: "Rect \<Rightarrow> Point" where "rect_ur r = Point (xMax r) (yMax r)"
definition rect_lr :: "Rect \<Rightarrow> Point" where "rect_lr r = Point (xMax r) (yMin r)"
definition rect_low :: "Rect \<Rightarrow> Point" where "rect_low r = Point (xMin r) (yMin r)"
definition rect_high :: "Rect \<Rightarrow> Point" where "rect_high r = Point (xMax r) (yMax r)"

definition rect_getPoints :: "Rect \<Rightarrow> Point list" where
  "rect_getPoints r = [rect_ll r, rect_lr r, rect_ur r, rect_ul r, rect_ll r]"

definition intersects_pt :: "Rect \<Rightarrow> Point \<Rightarrow> bool" where
  "intersects_pt r p \<longleftrightarrow>
     \<not> (getX p < xMin r \<or> getX p > xMax r \<or> getY p < yMin r \<or> getY p > yMax r)"

definition intersects :: "Rect \<Rightarrow> Rect \<Rightarrow> bool" where
  "intersects r s \<longleftrightarrow>
     \<not> (xMax s < xMin r \<or> xMin s > xMax r \<or> yMax s < yMin r \<or> yMin s > yMax r)"

definition overlaps_pt :: "Rect \<Rightarrow> Point \<Rightarrow> bool" where
  "overlaps_pt r p \<longleftrightarrow>
     \<not> (getX p \<le> xMin r \<or> getX p \<ge> xMax r \<or> getY p \<le> yMin r \<or> getY p \<ge> yMax r)"

definition overlaps :: "Rect \<Rightarrow> Rect \<Rightarrow> bool" where
  "overlaps r s \<longleftrightarrow>
     \<not> (xMax s \<le> xMin r \<or> xMin s \<ge> xMax r \<or> yMax s \<le> yMin r \<or> yMin s \<ge> yMax r)"

definition rect_contains :: "Rect \<Rightarrow> Rect \<Rightarrow> bool" where
  "rect_contains r s \<longleftrightarrow>
     xMin r \<le> xMin s \<and> yMin r \<le> yMin s \<and> xMax r \<ge> xMax s \<and> yMax r \<ge> yMax s"

definition rect_inside :: "Rect \<Rightarrow> Rect \<Rightarrow> bool" where
  "rect_inside r s \<longleftrightarrow>
     xMin r < xMin s \<and> yMin r < yMin s \<and> xMax r > xMax s \<and> yMax r > yMax s"

definition closestPtInside :: "Rect \<Rightarrow> Point \<Rightarrow> Point" where
  "closestPtInside r pt =
     Point (min (max (getX pt) (xMin r)) (xMax r)) (min (max (getY pt) (yMin r)) (yMax r))"

definition rect_merge :: "Rect \<Rightarrow> Rect \<Rightarrow> Rect" where
  "rect_merge r s =
     Rect (min (xMin r) (xMin s)) (min (yMin r) (yMin s))
          (max (xMax r) (xMax s)) (max (yMax r) (yMax s))"

definition bloat :: "int \<Rightarrow> Rect \<Rightarrow> Rect" where
  "bloat margin r = Rect (xMin r - margin) (yMin r - margin) (xMax r + margin) (yMax r + margin)"

definition intersection :: "Rect \<Rightarrow> Rect \<Rightarrow> Rect" where
  "intersection r s =
     (if \<not> intersects r s then Rect 0 0 0 0
      else Rect (max (xMin r) (xMin s)) (max (yMin r) (yMin s))
                (min (xMax r) (xMax s)) (min (yMax r) (yMax s)))"

text \<open>\<open>Rect::intersect\<close> asserts that the rectangles meet.\<close>

definition rect_intersect :: "Rect \<Rightarrow> Rect \<Rightarrow> Rect result" where
  "rect_intersect r s =
     (if intersects r s
      then Inr (Rect (max (xMin r) (xMin s)) (max (yMin r) (yMin s))
                     (min (xMax r) (xMax s)) (min (yMax r) (yMax s)))
      else Inl Abort)"

definition rect_area :: "Rect \<Rightarrow> int" where "rect_area r = u64 (rect_dx r * rect_dy r)"
definition rect_margin :: "Rect \<Rightarrow> int" where
  "rect_margin r = u64 (rect_dx r + rect_dx r + rect_dy r + rect_dy r)"

fun rect_less :: "Rect \<Rightarrow> Rect \<Rightarrow> bool" where
  "rect_less (Rect a b c d) (Rect ra rb rc rd) =
     (if a < ra then True else if a > ra then False
      else if b < rb then True else if b > rb then False
      else if c < rc then True else if c > rc then False
      else d < rd)"

instantiation Rect :: linorder
begin

definition less_Rect :: "Rect \<Rightarrow> Rect \<Rightarrow> bool" where
  "less_Rect = rect_less"

text \<open>\<open>operator<=\<close> is \<open>!(*this > r)\<close> and \<open>operator>\<close> is \<open>r < *this\<close>.\<close>

definition less_eq_Rect :: "Rect \<Rightarrow> Rect \<Rightarrow> bool" where
  "less_eq_Rect r s \<longleftrightarrow> \<not> rect_less s r"

instance
proof
  fix p q r :: Rect
  show "(p < q) = (p \<le> q \<and> \<not> q \<le> p)"
    by (cases p; cases q) (auto simp: less_Rect_def less_eq_Rect_def)
  show "p \<le> p"
    by (cases p) (auto simp: less_eq_Rect_def)
  show "p \<le> q \<Longrightarrow> q \<le> r \<Longrightarrow> p \<le> r"
    by (cases p; cases q; cases r) (auto simp: less_eq_Rect_def split: if_splits)
  show "p \<le> q \<Longrightarrow> q \<le> p \<Longrightarrow> p = q"
    by (cases p; cases q) (auto simp: less_eq_Rect_def split: if_splits)
  show "p \<le> q \<or> q \<le> p"
    by (cases p; cases q) (auto simp: less_eq_Rect_def)
qed

end

subsection \<open>Octilinear shapes\<close>

datatype Oct = Oct (center_high: Point) (center_low: Point) (oct_A: int)

datatype OCT_DIR = RIGHT | LEFT | UNKNOWN

definition oct_init :: "Point \<Rightarrow> Point \<Rightarrow> int \<Rightarrow> Oct" where
  "oct_init p1 p2 width =
     (if getY p1 > getY p2 then Oct p1 p2 (width sdiv 2) else Oct p2 p1 (width sdiv 2))"

definition oct_getDir :: "Oct \<Rightarrow> OCT_DIR" where
  "oct_getDir s =
     (if center_low s = center_high s then UNKNOWN
      else if getX (center_high s) > getX (center_low s) then RIGHT else LEFT)"

definition oct_getWidth :: "Oct \<Rightarrow> int" where "oct_getWidth s = oct_A s * 2"

definition oct_dx :: "Oct \<Rightarrow> int" where
  "oct_dx s =
     (case oct_getDir s of
        RIGHT \<Rightarrow> \<bar>getX (center_high s) + oct_A s - getX (center_low s) + oct_A s\<bar>
      | LEFT \<Rightarrow> \<bar>getX (center_low s) + oct_A s - getX (center_high s) + oct_A s\<bar>
      | UNKNOWN \<Rightarrow> 0)"

definition oct_dy :: "Oct \<Rightarrow> int" where
  "oct_dy s = \<bar>getY (center_high s) + oct_A s - getY (center_low s) + oct_A s\<bar>"

definition oct_xMin :: "Oct \<Rightarrow> int" where
  "oct_xMin s =
     (case oct_getDir s of
        RIGHT \<Rightarrow> getX (center_low s) - oct_A s
      | LEFT \<Rightarrow> getX (center_high s) - oct_A s
      | UNKNOWN \<Rightarrow> 0)"

definition oct_yMin :: "Oct \<Rightarrow> int" where "oct_yMin s = getY (center_low s) - oct_A s"

definition oct_xMax :: "Oct \<Rightarrow> int" where
  "oct_xMax s =
     (case oct_getDir s of
        RIGHT \<Rightarrow> getX (center_high s) + oct_A s
      | LEFT \<Rightarrow> getX (center_low s) + oct_A s
      | UNKNOWN \<Rightarrow> 0)"

definition oct_yMax :: "Oct \<Rightarrow> int" where "oct_yMax s = getY (center_high s) + oct_A s"

text \<open>The virtual class \<open>GeomShape\<close>: \<open>Rect::merge\<close> also takes any shape.\<close>

datatype GeomShape = ShapeRect Rect | ShapeOct Oct

definition shape_bbox :: "GeomShape \<Rightarrow> Rect" where
  "shape_bbox g =
     (case g of
        ShapeRect r \<Rightarrow> Rect (xMin r) (yMin r) (xMax r) (yMax r)
      | ShapeOct s \<Rightarrow> Rect (oct_xMin s) (oct_yMin s) (oct_xMax s) (oct_yMax s))"

definition rect_merge_shape :: "Rect \<Rightarrow> GeomShape \<Rightarrow> Rect" where
  "rect_merge_shape r g =
     (let b = shape_bbox g in
      Rect (min (xMin r) (xMin b)) (min (yMin r) (yMin b))
           (max (xMax r) (xMax b)) (max (yMax r) (yMax b)))"

subsection \<open>Lemmas\<close>

lemma rect_eqI:
  "xMin r = xMin s \<Longrightarrow> yMin r = yMin s \<Longrightarrow> xMax r = xMax s \<Longrightarrow> yMax r = yMax s \<Longrightarrow> r = s"
  by (cases r; cases s) simp

lemma rect_init_sel [simp]:
  "xMin (rect_init a b c d) = min a c" "xMax (rect_init a b c d) = max a c"
  "yMin (rect_init a b c d) = min b d" "yMax (rect_init a b c d) = max b d"
  by (auto simp: rect_init_def min_def max_def)

lemma rect_of_points_eq: "rect_of_points p q = rect_init (getX p) (getY p) (getX q) (getY q)"
  by (simp add: rect_of_points_def rect_init_def)

lemma rect_init_not_inverted: "\<not> isInverted (rect_init a b c d)"
  by (simp add: isInverted_def)

lemma merge_assoc_comm:
  "rect_merge r s = rect_merge s r"
  "rect_merge (rect_merge r s) t = rect_merge r (rect_merge s t)"
  by (auto simp: rect_merge_def min.commute max.commute min.assoc max.assoc)

lemma dx_exact:
  assumes "xMin r \<le> xMax r" "fits32 (xMin r)" "fits32 (xMax r)"
  shows "rect_dx r = xMax r - xMin r"
  using assms by (auto simp: rect_dx_def fits32_def intro!: u32_id)

lemma dy_exact:
  assumes "yMin r \<le> yMax r" "fits32 (yMin r)" "fits32 (yMax r)"
  shows "rect_dy r = yMax r - yMin r"
  using assms by (auto simp: rect_dy_def fits32_def intro!: u32_id)

lemma manhattan_exact:
  assumes "fits32 (getX p)" "fits32 (getY p)" "fits32 (getX q)" "fits32 (getY q)"
  shows "manhattanDistance p q = \<bar>getX q - getX p\<bar> + \<bar>getY q - getY p\<bar>"
proof -
  have "0 \<le> \<bar>getX q - getX p\<bar> + \<bar>getY q - getY p\<bar>" by simp
  moreover have "\<bar>getX q - getX p\<bar> + \<bar>getY q - getY p\<bar> < 18446744073709551616"
    using assms unfolding fits32_def by linarith
  ultimately show ?thesis
    by (cases p; cases q) (auto simp: Let_def abs_if u64_id)
qed

lemma mult_bound:
  assumes "\<bar>a\<bar> \<le> M" "\<bar>b\<bar> \<le> (M::int)"
  shows "\<bar>a * b\<bar> \<le> M * M"
  using assms by (simp add: abs_mult mult_mono)

lemma crossProduct_exact:
  assumes "\<And>p. p \<in> {p0, p1, p2} \<Longrightarrow> \<bar>getX p\<bar> < 1073741824 \<and> \<bar>getY p\<bar> < 1073741824"
  shows "crossProduct p0 p1 p2 =
    (getX p1 - getX p0) * (getY p2 - getY p0) - (getX p2 - getX p0) * (getY p1 - getY p0)"
proof -
  let ?M = "2147483646 :: int"
  have c: "\<bar>getX p0\<bar> < 1073741824" "\<bar>getY p0\<bar> < 1073741824" "\<bar>getX p1\<bar> < 1073741824"
    "\<bar>getY p1\<bar> < 1073741824" "\<bar>getX p2\<bar> < 1073741824" "\<bar>getY p2\<bar> < 1073741824"
    using assms by auto
  have a: "\<bar>(getX p1 - getX p0) * (getY p2 - getY p0)\<bar> \<le> ?M * ?M"
    by (rule mult_bound) (use c in linarith)+
  have b: "\<bar>(getX p2 - getX p0) * (getY p1 - getY p0)\<bar> \<le> ?M * ?M"
    by (rule mult_bound) (use c in linarith)+
  from a b show ?thesis
    by (cases p0; cases p1; cases p2) (simp add: s64_id)
qed

subsection \<open>Properties\<close>

text \<open>Two rectangles that meet have an intersection, and it holds exactly the points of
  both; rectangles that do not meet make \<open>intersect\<close> fail its assertion.\<close>

lemma rect_intersect_points:
  "rect_intersect r s =
     (if intersects r s then Inr (intersection r s) else Inl Abort)
   \<and> (intersects r s \<longrightarrow>
        intersects_pt (intersection r s) p = (intersects_pt r p \<and> intersects_pt s p))"
  by (auto simp: rect_intersect_def intersection_def intersects_pt_def)

text \<open>\<open>merge\<close> is the least rectangle that contains both, and \<open>mergeInit\<close> is its
  neutral element for rectangles with \<open>int\<close> coordinates.\<close>

theorem rect_merge_least:
  "rect_contains (rect_merge r s) r \<and> rect_contains (rect_merge r s) s
   \<and> (rect_contains t r \<and> rect_contains t s \<longrightarrow> rect_contains t (rect_merge r s))
   \<and> ((\<forall>v \<in> {xMin r, yMin r, xMax r, yMax r}. fits32 v) \<longrightarrow> rect_merge mergeInit r = r)"
  by (auto simp: rect_contains_def rect_merge_def mergeInit_def fits32_def intro: rect_eqI)

theorem rect_merge_least_witness:
  "rect_contains (Rect 0 0 9 9) (rect_merge (Rect 1 1 2 2) (Rect 3 4 5 6))
   \<and> rect_merge mergeInit (Rect 1 1 2 2) = Rect 1 1 2 2"
  using rect_merge_least [of "Rect 1 1 2 2" "Rect 3 4 5 6" "Rect 0 0 9 9"]
  by (simp add: rect_contains_def fits32_def)

text \<open>The point that \<open>closestPtInside\<close> returns lies in the rectangle and no point of the
  rectangle is nearer in Manhattan distance.\<close>

theorem closestPtInside_nearest:
  assumes "\<not> isInverted r" "intersects_pt r q"
    and "\<forall>v \<in> {xMin r, yMin r, xMax r, yMax r, getX p, getY p}. fits32 v"
  shows "intersects_pt r (closestPtInside r p)
    \<and> manhattanDistance p (closestPtInside r p) \<le> manhattanDistance p q"
proof -
  let ?c = "closestPtInside r p"
  have q: "fits32 (getX q)" "fits32 (getY q)"
    using assms by (auto simp: intersects_pt_def fits32_def)
  have c: "fits32 (getX ?c)" "fits32 (getY ?c)"
    using assms(3) by (auto simp: closestPtInside_def fits32_def)
  have "\<bar>getX ?c - getX p\<bar> \<le> \<bar>getX q - getX p\<bar>" "\<bar>getY ?c - getY p\<bar> \<le> \<bar>getY q - getY p\<bar>"
    using assms(1,2) by (auto simp: closestPtInside_def intersects_pt_def isInverted_def)
  moreover have "intersects_pt r ?c"
    using assms(1) by (auto simp: closestPtInside_def intersects_pt_def isInverted_def)
  ultimately show ?thesis
    using manhattan_exact [of p ?c] manhattan_exact [of p q] assms(3) q c by auto
qed

theorem closestPtInside_nearest_witness:
  "intersects_pt (Rect 0 0 10 10) (closestPtInside (Rect 0 0 10 10) (Point 15 4))
   \<and> manhattanDistance (Point 15 4) (closestPtInside (Rect 0 0 10 10) (Point 15 4))
     \<le> manhattanDistance (Point 15 4) (Point 3 3)"
  by (rule closestPtInside_nearest)
    (simp_all add: isInverted_def intersects_pt_def fits32_def)

text \<open>For coordinates below \<open>2 ^ 30\<close> in absolute value \<open>rotation\<close> is the sign of the
  exact cross product; at the corners of the \<open>int\<close> range the 64-bit product wraps, and a
  counter-clockwise turn is reported as clockwise.\<close>

theorem rotation_exact:
  assumes "\<forall>p \<in> {p0, p1, p2}. \<bar>getX p\<bar> < 1073741824 \<and> \<bar>getY p\<bar> < 1073741824"
  shows "rotation p0 p1 p2 =
      sgn ((getX p1 - getX p0) * (getY p2 - getY p0) - (getX p2 - getX p0) * (getY p1 - getY p0))
    \<and> rotation (Point INT_MIN INT_MIN) (Point INT_MAX INT_MIN) (Point INT_MAX INT_MAX) = - 1"
proof -
  have "crossProduct p0 p1 p2 =
    (getX p1 - getX p0) * (getY p2 - getY p0) - (getX p2 - getX p0) * (getY p1 - getY p0)"
    by (rule crossProduct_exact) (use assms in blast)
  moreover have
    "rotation (Point INT_MIN INT_MIN) (Point INT_MAX INT_MIN) (Point INT_MAX INT_MAX) = - 1"
    by (simp add: rotation_def s64_def)
  ultimately show ?thesis by (simp add: rotation_def Let_def sgn_if)
qed

theorem rotation_exact_witness: "rotation (Point 0 0) (Point 10 0) (Point 10 10) = 1"
  using rotation_exact [of "Point 0 0" "Point 10 0" "Point 10 10"] by simp

end
