(* ===== verification/Odb_Types.thy ===== *)
theory Odb_Types
  imports Prelude
begin

section \<open>OpenDB enumerations and their names\<close>

text \<open>
  \<open>odb/include/odb/dbTypes.h\<close> and \<open>odb/src/db/dbTypes.cpp\<close>: the enumerations that the
  placer reads, with the constructors from a name (\<open>..._of_string\<close>, a chain of
  case-insensitive comparisons that ends in a default), the names (\<open>..._getString\<close>) and
  the classification predicates. A value of an enumeration that another one also has
  carries a prefix (\<open>PS_COVER\<close> is a placement status, \<open>MT_COVER\<close> a master type). The
  locale \<open>name_codec\<close> states what a parser and a printer of names owe each other; it is
  interpreted on every enumeration here.
\<close>

subsection \<open>Comparing names\<close>

definition tolower :: "char \<Rightarrow> char" where
  "tolower c =
     (let n = (of_char c :: nat) in if 65 \<le> n \<and> n \<le> 90 then char_of (n + 32) else c)"

definition strcasecmp :: "string \<Rightarrow> string \<Rightarrow> bool" where
  \<comment> \<open>the test \<open>strcasecmp(s, t) == 0\<close>\<close>
  "strcasecmp s t \<longleftrightarrow> map tolower s = map tolower t"

definition isdigit :: "char \<Rightarrow> bool" where
  "isdigit c \<longleftrightarrow> (let n = (of_char c :: nat) in 48 \<le> n \<and> n \<le> 57)"

text \<open>
  The constructors from a name compare it with one literal after the other, in the order of
  the table, and fall through to a default: \<open>first_match s table d\<close> is that chain of
  \<open>if (strcasecmp(s, literal) == 0) _value = v; else ...\<close>.
\<close>

fun first_match :: "string \<Rightarrow> (string \<times> 'a) list \<Rightarrow> 'a \<Rightarrow> 'a" where
  "first_match s [] d = d"
| "first_match s ((n, v) # rest) d = (if strcasecmp s n then v else first_match s rest d)"

text \<open>\<open>dbIdValidation::isId\<close>; a null pointer is \<open>None\<close>.\<close>

fun isId_chars :: "string \<Rightarrow> bool" where
  "isId_chars [] = True"
| "isId_chars (c # cs) = (if \<not> isdigit c then False else isId_chars cs)"

definition isId :: "string option \<Rightarrow> bool" where
  "isId s = (case s of None \<Rightarrow> False | Some cs \<Rightarrow> isId_chars cs)"

lemma strcasecmp_refl [simp]: "strcasecmp s s"
  by (simp add: strcasecmp_def)

lemma strcasecmp_sym: "strcasecmp s t = strcasecmp t s"
  by (auto simp: strcasecmp_def)

lemma strcasecmp_trans: "strcasecmp s t \<Longrightarrow> strcasecmp t u \<Longrightarrow> strcasecmp s u"
  by (simp add: strcasecmp_def)

lemma first_match_any_case: "strcasecmp s t \<Longrightarrow> first_match s tab d = first_match t tab d"
  by (induction tab) (auto simp: strcasecmp_def)

lemma first_match_none:
  "list_all (\<lambda>(n, v). n = shown v) tab \<Longrightarrow> (\<And>v. \<not> strcasecmp s (shown v))
   \<Longrightarrow> first_match s tab d = d"
  by (induction tab) auto

text \<open>
  The interface of an enumeration's names: a name in any mixture of cases is parsed to its
  value, and what is no name of a value is parsed to the default.
\<close>

locale name_codec =
  fixes parse :: "string \<Rightarrow> 'a"
    and shown :: "'a \<Rightarrow> string"
    and dflt :: 'a
  assumes parse_any_case: "strcasecmp s (shown v) \<Longrightarrow> parse s = v"
    and parse_other: "(\<And>v. \<not> strcasecmp s (shown v)) \<Longrightarrow> parse s = dflt"
begin

lemma parse_shown: "parse (shown v) = v"
  by (rule parse_any_case) simp

lemma shown_inj: "strcasecmp (shown v) (shown w) \<Longrightarrow> v = w"
  using parse_any_case parse_shown by metis

lemma parse_iff:
  "parse s = v \<longleftrightarrow> strcasecmp s (shown v) \<or> (v = dflt \<and> (\<forall>w. \<not> strcasecmp s (shown w)))"
proof
  assume "parse s = v"
  then show "strcasecmp s (shown v) \<or> (v = dflt \<and> (\<forall>w. \<not> strcasecmp s (shown w)))"
    using parse_any_case parse_other by metis
next
  assume "strcasecmp s (shown v) \<or> (v = dflt \<and> (\<forall>w. \<not> strcasecmp s (shown w)))"
  then show "parse s = v"
    using parse_any_case parse_other by metis
qed

end

subsection \<open>Orientations\<close>

datatype dbOrientType =
    R0 | R90 | R180 | R270 | MY | MYR90 | MX | MXR90

definition orient_of_string :: "string \<Rightarrow> dbOrientType" where
  "orient_of_string s = first_match s
     [(''R0'', R0), (''R90'', R90), (''R180'', R180), (''R270'', R270), (''MY'', MY),
      (''MYR90'', MYR90), (''MX'', MX), (''MXR90'', MXR90)]
     R0"

fun orient_getString :: "dbOrientType \<Rightarrow> string" where
  "orient_getString R0 = ''R0''"
| "orient_getString R90 = ''R90''"
| "orient_getString R180 = ''R180''"
| "orient_getString R270 = ''R270''"
| "orient_getString MY = ''MY''"
| "orient_getString MYR90 = ''MYR90''"
| "orient_getString MX = ''MX''"
| "orient_getString MXR90 = ''MXR90''"

fun flipX :: "dbOrientType \<Rightarrow> dbOrientType" where
  "flipX R0 = MX"
| "flipX R90 = MYR90"
| "flipX R180 = MY"
| "flipX R270 = MXR90"
| "flipX MY = R180"
| "flipX MYR90 = R90"
| "flipX MX = R0"
| "flipX MXR90 = R270"

fun flipY :: "dbOrientType \<Rightarrow> dbOrientType" where
  "flipY R0 = MY"
| "flipY R90 = MXR90"
| "flipY R180 = MX"
| "flipY R270 = MYR90"
| "flipY MY = R0"
| "flipY MYR90 = R270"
| "flipY MX = R180"
| "flipY MXR90 = R90"

subsection \<open>Groups and I/O directions\<close>

datatype dbGroupType =
    PHYSICAL_CLUSTER | VOLTAGE_DOMAIN

definition grouptype_of_string :: "string \<Rightarrow> dbGroupType" where
  "grouptype_of_string s = first_match s
     [(''PHYSICAL_CLUSTER'', PHYSICAL_CLUSTER), (''VOLTAGE_DOMAIN'', VOLTAGE_DOMAIN)]
     PHYSICAL_CLUSTER"

fun grouptype_getString :: "dbGroupType \<Rightarrow> string" where
  "grouptype_getString PHYSICAL_CLUSTER = ''PHYSICAL_CLUSTER''"
| "grouptype_getString VOLTAGE_DOMAIN = ''VOLTAGE_DOMAIN''"

datatype dbIoType =
    IO_INPUT | IO_OUTPUT | IO_INOUT | IO_FEEDTHRU

definition iotype_of_string :: "string \<Rightarrow> dbIoType" where
  "iotype_of_string s = first_match s
     [(''INPUT'', IO_INPUT), (''OUTPUT'', IO_OUTPUT), (''INOUT'', IO_INOUT),
      (''FEEDTHRU'', IO_FEEDTHRU)]
     IO_INPUT"

fun iotype_getString :: "dbIoType \<Rightarrow> string" where
  "iotype_getString IO_INPUT = ''INPUT''"
| "iotype_getString IO_OUTPUT = ''OUTPUT''"
| "iotype_getString IO_INOUT = ''INOUT''"
| "iotype_getString IO_FEEDTHRU = ''FEEDTHRU''"

subsection \<open>Signal types\<close>

datatype dbSigType =
    SIG_SIGNAL | SIG_POWER | SIG_GROUND | SIG_CLOCK | SIG_ANALOG | SIG_RESET | SIG_SCAN
    | SIG_TIEOFF

definition sigtype_of_string :: "string \<Rightarrow> dbSigType" where
  "sigtype_of_string s = first_match s
     [(''SIGNAL'', SIG_SIGNAL), (''POWER'', SIG_POWER), (''GROUND'', SIG_GROUND),
      (''CLOCK'', SIG_CLOCK), (''ANALOG'', SIG_ANALOG), (''ANALOG'', SIG_ANALOG),
      (''RESET'', SIG_RESET), (''SCAN'', SIG_SCAN), (''TIEOFF'', SIG_TIEOFF)]
     SIG_SIGNAL"

fun sigtype_getString :: "dbSigType \<Rightarrow> string" where
  "sigtype_getString SIG_SIGNAL = ''SIGNAL''"
| "sigtype_getString SIG_POWER = ''POWER''"
| "sigtype_getString SIG_GROUND = ''GROUND''"
| "sigtype_getString SIG_CLOCK = ''CLOCK''"
| "sigtype_getString SIG_ANALOG = ''ANALOG''"
| "sigtype_getString SIG_RESET = ''RESET''"
| "sigtype_getString SIG_SCAN = ''SCAN''"
| "sigtype_getString SIG_TIEOFF = ''TIEOFF''"

definition sigtype_isSupply :: "dbSigType \<Rightarrow> bool" where
  "sigtype_isSupply t \<longleftrightarrow> t \<in> {SIG_POWER, SIG_GROUND}"

subsection \<open>Source types\<close>

text \<open>Where an instance comes from; their names are in \<open>Odb_Enums\<close>.\<close>

datatype dbSourceType =
    SRC_NONE | SRC_NETLIST | SRC_DIST | SRC_USER | SRC_TIMING | SRC_TEST

subsection \<open>Placement status\<close>

datatype dbPlacementStatus =
    PS_NONE | PS_UNPLACED | PS_SUGGESTED | PS_PLACED | PS_LOCKED | PS_FIRM | PS_COVER

definition status_of_string :: "string \<Rightarrow> dbPlacementStatus" where
  "status_of_string s = first_match s
     [(''NONE'', PS_NONE), (''UNPLACED'', PS_UNPLACED), (''SUGGESTED'', PS_SUGGESTED),
      (''PLACED'', PS_PLACED), (''LOCKED'', PS_LOCKED), (''FIRM'', PS_FIRM), (''COVER'',
      PS_COVER)]
     PS_NONE"

fun status_getString :: "dbPlacementStatus \<Rightarrow> string" where
  "status_getString PS_NONE = ''NONE''"
| "status_getString PS_UNPLACED = ''UNPLACED''"
| "status_getString PS_SUGGESTED = ''SUGGESTED''"
| "status_getString PS_PLACED = ''PLACED''"
| "status_getString PS_LOCKED = ''LOCKED''"
| "status_getString PS_FIRM = ''FIRM''"
| "status_getString PS_COVER = ''COVER''"

definition status_isPlaced :: "dbPlacementStatus \<Rightarrow> bool" where
  "status_isPlaced t \<longleftrightarrow> t \<in> {PS_PLACED, PS_LOCKED, PS_FIRM, PS_COVER}"

definition status_isFixed :: "dbPlacementStatus \<Rightarrow> bool" where
  "status_isFixed t \<longleftrightarrow> t \<in> {PS_LOCKED, PS_FIRM, PS_COVER}"

subsection \<open>Master types\<close>

datatype dbMasterType =
    MT_NONE | MT_COVER | MT_COVER_BUMP | MT_RING | MT_BLOCK | MT_BLOCK_BLACKBOX
    | MT_BLOCK_SOFT | MT_PAD | MT_PAD_INPUT | MT_PAD_OUTPUT | MT_PAD_INOUT
    | MT_PAD_POWER | MT_PAD_SPACER | MT_PAD_AREAIO | MT_CORE | MT_CORE_FEEDTHRU
    | MT_CORE_TIEHIGH | MT_CORE_TIELOW | MT_CORE_SPACER | MT_CORE_ANTENNACELL
    | MT_CORE_WELLTAP | MT_ENDCAP | MT_ENDCAP_PRE | MT_ENDCAP_POST | MT_ENDCAP_TOPLEFT
    | MT_ENDCAP_TOPRIGHT | MT_ENDCAP_BOTTOMLEFT | MT_ENDCAP_BOTTOMRIGHT

definition mastertype_of_string :: "string \<Rightarrow> dbMasterType" where
  "mastertype_of_string s = first_match s
     [(''NONE'', MT_NONE), (''COVER'', MT_COVER), (''COVER BUMP'', MT_COVER_BUMP),
      (''RING'', MT_RING), (''BLOCK'', MT_BLOCK), (''BLOCK BLACKBOX'',
      MT_BLOCK_BLACKBOX), (''BLOCK SOFT'', MT_BLOCK_SOFT), (''PAD'', MT_PAD),
      (''PAD INPUT'', MT_PAD_INPUT), (''PAD OUTPUT'', MT_PAD_OUTPUT), (''PAD INOUT'',
      MT_PAD_INOUT), (''PAD POWER'', MT_PAD_POWER), (''PAD SPACER'', MT_PAD_SPACER),
      (''PAD AREAIO'', MT_PAD_AREAIO), (''CORE'', MT_CORE), (''CORE FEEDTHRU'',
      MT_CORE_FEEDTHRU), (''CORE TIEHIGH'', MT_CORE_TIEHIGH), (''CORE TIELOW'',
      MT_CORE_TIELOW), (''CORE SPACER'', MT_CORE_SPACER), (''CORE ANTENNACELL'',
      MT_CORE_ANTENNACELL), (''CORE WELLTAP'', MT_CORE_WELLTAP), (''ENDCAP'',
      MT_ENDCAP), (''ENDCAP PRE'', MT_ENDCAP_PRE), (''ENDCAP POST'', MT_ENDCAP_POST),
      (''ENDCAP TOPLEFT'', MT_ENDCAP_TOPLEFT), (''ENDCAP TOPRIGHT'',
      MT_ENDCAP_TOPRIGHT), (''ENDCAP BOTTOMLEFT'', MT_ENDCAP_BOTTOMLEFT),
      (''ENDCAP BOTTOMRIGHT'', MT_ENDCAP_BOTTOMRIGHT)]
     MT_NONE"

fun mastertype_getString :: "dbMasterType \<Rightarrow> string" where
  "mastertype_getString MT_NONE = ''NONE''"
| "mastertype_getString MT_COVER = ''COVER''"
| "mastertype_getString MT_COVER_BUMP = ''COVER BUMP''"
| "mastertype_getString MT_RING = ''RING''"
| "mastertype_getString MT_BLOCK = ''BLOCK''"
| "mastertype_getString MT_BLOCK_BLACKBOX = ''BLOCK BLACKBOX''"
| "mastertype_getString MT_BLOCK_SOFT = ''BLOCK SOFT''"
| "mastertype_getString MT_PAD = ''PAD''"
| "mastertype_getString MT_PAD_INPUT = ''PAD INPUT''"
| "mastertype_getString MT_PAD_OUTPUT = ''PAD OUTPUT''"
| "mastertype_getString MT_PAD_INOUT = ''PAD INOUT''"
| "mastertype_getString MT_PAD_POWER = ''PAD POWER''"
| "mastertype_getString MT_PAD_SPACER = ''PAD SPACER''"
| "mastertype_getString MT_PAD_AREAIO = ''PAD AREAIO''"
| "mastertype_getString MT_CORE = ''CORE''"
| "mastertype_getString MT_CORE_FEEDTHRU = ''CORE FEEDTHRU''"
| "mastertype_getString MT_CORE_TIEHIGH = ''CORE TIEHIGH''"
| "mastertype_getString MT_CORE_TIELOW = ''CORE TIELOW''"
| "mastertype_getString MT_CORE_SPACER = ''CORE SPACER''"
| "mastertype_getString MT_CORE_ANTENNACELL = ''CORE ANTENNACELL''"
| "mastertype_getString MT_CORE_WELLTAP = ''CORE WELLTAP''"
| "mastertype_getString MT_ENDCAP = ''ENDCAP''"
| "mastertype_getString MT_ENDCAP_PRE = ''ENDCAP PRE''"
| "mastertype_getString MT_ENDCAP_POST = ''ENDCAP POST''"
| "mastertype_getString MT_ENDCAP_TOPLEFT = ''ENDCAP TOPLEFT''"
| "mastertype_getString MT_ENDCAP_TOPRIGHT = ''ENDCAP TOPRIGHT''"
| "mastertype_getString MT_ENDCAP_BOTTOMLEFT = ''ENDCAP BOTTOMLEFT''"
| "mastertype_getString MT_ENDCAP_BOTTOMRIGHT = ''ENDCAP BOTTOMRIGHT''"

definition mt_isBlock :: "dbMasterType \<Rightarrow> bool" where
  "mt_isBlock t \<longleftrightarrow>
     t \<in> {MT_BLOCK, MT_BLOCK_BLACKBOX, MT_BLOCK_SOFT}"

definition mt_isCore :: "dbMasterType \<Rightarrow> bool" where
  "mt_isCore t \<longleftrightarrow>
     t \<in> {MT_CORE, MT_CORE_FEEDTHRU, MT_CORE_TIEHIGH, MT_CORE_TIELOW, MT_CORE_SPACER,
            MT_CORE_ANTENNACELL, MT_CORE_WELLTAP}"

definition mt_isPad :: "dbMasterType \<Rightarrow> bool" where
  "mt_isPad t \<longleftrightarrow>
     t \<in> {MT_PAD, MT_PAD_INPUT, MT_PAD_OUTPUT, MT_PAD_INOUT, MT_PAD_POWER, MT_PAD_SPACER,
            MT_PAD_AREAIO}"

definition mt_isEndCap :: "dbMasterType \<Rightarrow> bool" where
  "mt_isEndCap t \<longleftrightarrow>
     t \<in> {MT_ENDCAP, MT_ENDCAP_PRE, MT_ENDCAP_POST, MT_ENDCAP_TOPLEFT, MT_ENDCAP_TOPRIGHT,
            MT_ENDCAP_BOTTOMLEFT, MT_ENDCAP_BOTTOMRIGHT}"

definition mt_isCover :: "dbMasterType \<Rightarrow> bool" where
  "mt_isCover t \<longleftrightarrow>
     t \<in> {MT_COVER, MT_COVER_BUMP}"

subsection \<open>Layer types and row directions\<close>

datatype dbTechLayerType =
    LT_ROUTING | LT_CUT | LT_MASTERSLICE | LT_OVERLAP | LT_IMPLANT | LT_NONE

datatype dbRowDir = HORIZONTAL | VERTICAL

subsection \<open>The names of every enumeration form a codec\<close>

lemma orient_parse_any_case: "strcasecmp s (orient_getString v) \<Longrightarrow> orient_of_string s = v"
  unfolding orient_of_string_def by (subst first_match_any_case, assumption)
    (cases v; simp add: strcasecmp_def tolower_def)

lemma orient_parse_other: "(\<And>v. \<not> strcasecmp s (orient_getString v)) \<Longrightarrow> orient_of_string s = R0"
  unfolding orient_of_string_def
  by (rule first_match_none [where shown = orient_getString]) simp_all

interpretation orient_codec: name_codec orient_of_string orient_getString R0
  by unfold_locales (rule orient_parse_any_case orient_parse_other; assumption)+

lemma grouptype_parse_any_case: "strcasecmp s (grouptype_getString v) \<Longrightarrow> grouptype_of_string s = v"
  unfolding grouptype_of_string_def by (subst first_match_any_case, assumption)
    (cases v; simp add: strcasecmp_def tolower_def)

lemma grouptype_parse_other: "(\<And>v. \<not> strcasecmp s (grouptype_getString v)) \<Longrightarrow> grouptype_of_string s = PHYSICAL_CLUSTER"
  unfolding grouptype_of_string_def
  by (rule first_match_none [where shown = grouptype_getString]) simp_all

interpretation grouptype_codec: name_codec grouptype_of_string grouptype_getString PHYSICAL_CLUSTER
  by unfold_locales (rule grouptype_parse_any_case grouptype_parse_other; assumption)+

lemma iotype_parse_any_case: "strcasecmp s (iotype_getString v) \<Longrightarrow> iotype_of_string s = v"
  unfolding iotype_of_string_def by (subst first_match_any_case, assumption)
    (cases v; simp add: strcasecmp_def tolower_def)

lemma iotype_parse_other: "(\<And>v. \<not> strcasecmp s (iotype_getString v)) \<Longrightarrow> iotype_of_string s = IO_INPUT"
  unfolding iotype_of_string_def
  by (rule first_match_none [where shown = iotype_getString]) simp_all

interpretation iotype_codec: name_codec iotype_of_string iotype_getString IO_INPUT
  by unfold_locales (rule iotype_parse_any_case iotype_parse_other; assumption)+

lemma sigtype_parse_any_case: "strcasecmp s (sigtype_getString v) \<Longrightarrow> sigtype_of_string s = v"
  unfolding sigtype_of_string_def by (subst first_match_any_case, assumption)
    (cases v; simp add: strcasecmp_def tolower_def)

lemma sigtype_parse_other: "(\<And>v. \<not> strcasecmp s (sigtype_getString v)) \<Longrightarrow> sigtype_of_string s = SIG_SIGNAL"
  unfolding sigtype_of_string_def
  by (rule first_match_none [where shown = sigtype_getString]) simp_all

interpretation sigtype_codec: name_codec sigtype_of_string sigtype_getString SIG_SIGNAL
  by unfold_locales (rule sigtype_parse_any_case sigtype_parse_other; assumption)+

lemma status_parse_any_case: "strcasecmp s (status_getString v) \<Longrightarrow> status_of_string s = v"
  unfolding status_of_string_def by (subst first_match_any_case, assumption)
    (cases v; simp add: strcasecmp_def tolower_def)

lemma status_parse_other: "(\<And>v. \<not> strcasecmp s (status_getString v)) \<Longrightarrow> status_of_string s = PS_NONE"
  unfolding status_of_string_def
  by (rule first_match_none [where shown = status_getString]) simp_all

interpretation status_codec: name_codec status_of_string status_getString PS_NONE
  by unfold_locales (rule status_parse_any_case status_parse_other; assumption)+

lemma mastertype_parse_any_case: "strcasecmp s (mastertype_getString v) \<Longrightarrow> mastertype_of_string s = v"
  unfolding mastertype_of_string_def by (subst first_match_any_case, assumption)
    (cases v; simp add: strcasecmp_def tolower_def)

lemma mastertype_parse_other: "(\<And>v. \<not> strcasecmp s (mastertype_getString v)) \<Longrightarrow> mastertype_of_string s = MT_NONE"
  unfolding mastertype_of_string_def
  by (rule first_match_none [where shown = mastertype_getString]) simp_all

interpretation mastertype_codec: name_codec mastertype_of_string mastertype_getString MT_NONE
  by unfold_locales (rule mastertype_parse_any_case mastertype_parse_other; assumption)+

end
