(* ===== verification/Odb_Transform.thy ===== *)
theory Odb_Transform
  imports Odb_Geom Odb_Types
begin

section \<open>OpenDB transforms: the eight orientations and an offset\<close>

text \<open>
  \<open>odb/include/odb/dbTransform.h\<close> and \<open>odb/src/db/dbTransform.cpp\<close>. A transform turns
  or mirrors a point and then moves it. \<open>orientMul_table\<close> is the table of the source, read
  at the numbers of the two orientations; the lemmas show that it is the table of the
  composition of the eight maps, that \<open>concat\<close> composes transforms, that \<open>invert\<close>
  inverts them, and that \<open>flipX\<close> and \<open>flipY\<close> are products of that table.
\<close>

subsection \<open>The operations\<close>

datatype dbTransform = Transform (t_orient: dbOrientType) (t_offset: Point)

definition transform_default :: dbTransform where
  "transform_default = Transform R0 (Point 0 0)"
definition transform_of_offset :: "Point \<Rightarrow> dbTransform" where
  "transform_of_offset p = Transform R0 p"
definition transform_of_orient :: "dbOrientType \<Rightarrow> dbTransform" where
  "transform_of_orient o' = Transform o' (Point 0 0)"

definition orientMul_table :: "dbOrientType list list" where
  "orientMul_table =
     [[R0, R90, R180, R270, MY, MYR90, MX, MXR90],
      [R90, R180, R270, R0, MXR90, MY, MYR90, MX],
      [R180, R270, R0, R90, MX, MXR90, MY, MYR90],
      [R270, R0, R90, R180, MYR90, MX, MXR90, MY],
      [MY, MYR90, MX, MXR90, R0, R90, R180, R270],
      [MYR90, MX, MXR90, MY, R270, R0, R90, R180],
      [MX, MXR90, MY, MYR90, R180, R270, R0, R90],
      [MXR90, MY, MYR90, MX, R90, R180, R270, R0]]"

fun orient_index :: "dbOrientType \<Rightarrow> nat" where
  "orient_index R0 = 0"
| "orient_index R90 = 1"
| "orient_index R180 = 2"
| "orient_index R270 = 3"
| "orient_index MY = 4"
| "orient_index MYR90 = 5"
| "orient_index MX = 6"
| "orient_index MXR90 = 7"

definition orientMul :: "dbOrientType \<Rightarrow> dbOrientType \<Rightarrow> dbOrientType" where
  "orientMul a b = orientMul_table ! orient_index a ! orient_index b"

text \<open>The switch of \<open>dbTransform::apply(Point&)\<close>, before the offset is added.\<close>

fun orient_apply :: "dbOrientType \<Rightarrow> Point \<Rightarrow> Point" where
  "orient_apply R0 p = p"
| "orient_apply R90 p = rotate90 p"
| "orient_apply R180 p = rotate180 p"
| "orient_apply R270 p = rotate270 p"
| "orient_apply MY p = setX (- getX p) p"
| "orient_apply MYR90 p = rotate90 (setX (- getX p) p)"
| "orient_apply MX p = setY (- getY p) p"
| "orient_apply MXR90 p = rotate90 (setY (- getY p) p)"

definition transform_apply :: "dbTransform \<Rightarrow> Point \<Rightarrow> Point" where
  "transform_apply t p =
     (let q = orient_apply (t_orient t) p
      in Point (getX q + getX (t_offset t)) (getY q + getY (t_offset t)))"

definition transform_apply_rect :: "dbTransform \<Rightarrow> Rect \<Rightarrow> Rect" where
  "transform_apply_rect t r =
     (let ll = transform_apply t (rect_ll r); ur = transform_apply t (rect_ur r)
      in rect_init (getX ll) (getY ll) (getX ur) (getY ur))"

definition transform_concat :: "dbTransform \<Rightarrow> dbTransform \<Rightarrow> dbTransform" where
  "transform_concat s t =
     Transform (orientMul (t_orient s) (t_orient t)) (transform_apply t (t_offset s))"

fun invert_orient :: "dbOrientType \<Rightarrow> Point \<Rightarrow> dbTransform" where
  "invert_orient R0 off = Transform R0 off"
| "invert_orient R90 off = Transform R270 (rotate270 off)"
| "invert_orient R180 off = Transform R180 (rotate180 off)"
| "invert_orient R270 off = Transform R90 (rotate90 off)"
| "invert_orient MY off = Transform MY (setX (- getX off) off)"
| "invert_orient MYR90 off = Transform MYR90 (rotate90 (setX (- getX off) off))"
| "invert_orient MX off = Transform MX (setY (- getY off) off)"
| "invert_orient MXR90 off = Transform MXR90 (rotate90 (setY (- getY off) off))"

definition transform_invert :: "dbTransform \<Rightarrow> dbTransform" where
  "transform_invert t =
     invert_orient (t_orient t) (Point (- getX (t_offset t)) (- getY (t_offset t)))"

subsection \<open>The group of orientations\<close>

lemma orient_apply_orientMul:
  "orient_apply (orientMul a b) p = orient_apply b (orient_apply a p)"
  by (cases a; cases b; cases p) (simp_all add: orientMul_def orientMul_table_def)

lemma orient_apply_add:
  "getX (orient_apply a (Point (x + u) (y + v))) =
     getX (orient_apply a (Point x y)) + getX (orient_apply a (Point u v))"
  "getY (orient_apply a (Point (x + u) (y + v))) =
     getY (orient_apply a (Point x y)) + getY (orient_apply a (Point u v))"
  by (cases a; simp)+

lemma orient_apply_inj: "(\<And>p. orient_apply a p = orient_apply b p) \<Longrightarrow> a = b"
proof -
  assume "\<And>p. orient_apply a p = orient_apply b p"
  then have "orient_apply a (Point 1 2) = orient_apply b (Point 1 2)" .
  then show "a = b" by (cases a; cases b) simp_all
qed

text \<open>
  An action of a multiplication on a set of maps that is faithful: associativity, a unit
  and the cancellation laws of the multiplication follow from those of the maps.
\<close>

locale faithful_action =
  fixes act :: "'g \<Rightarrow> 'p \<Rightarrow> 'p" and mult :: "'g \<Rightarrow> 'g \<Rightarrow> 'g" and one :: 'g
    and inverse :: "'g \<Rightarrow> 'g"
  assumes act_mult: "act (mult a b) p = act b (act a p)"
    and act_one: "act one p = p"
    and act_inverse: "act (inverse a) (act a p) = p"
    and faithful: "(\<And>p. act a p = act b p) \<Longrightarrow> a = b"
begin

lemma mult_assoc: "mult (mult a b) c = mult a (mult b c)"
  by (rule faithful) (simp add: act_mult)

lemma mult_one_left: "mult one a = a"
  by (rule faithful) (simp add: act_mult act_one)

lemma mult_one_right: "mult a one = a"
  by (rule faithful) (simp add: act_mult act_one)

lemma mult_inverse_right: "mult a (inverse a) = one"
  by (rule faithful) (simp add: act_mult act_one act_inverse)

lemma mult_inverse_left: "mult (inverse a) a = one"
proof -
  have "mult (inverse a) a = mult (mult (inverse a) a) (mult (inverse a) (inverse (inverse a)))"
    by (simp add: mult_inverse_right mult_one_right)
  also have "\<dots> = mult (inverse a) (mult (mult a (inverse a)) (inverse (inverse a)))"
    by (simp only: mult_assoc)
  also have "\<dots> = one" by (simp add: mult_inverse_right mult_one_left)
  finally show ?thesis .
qed

lemma act_inverse_right: "act a (act (inverse a) p) = p"
  by (metis act_mult act_one mult_inverse_left)

end

definition orient_inverse :: "dbOrientType \<Rightarrow> dbOrientType" where
  "orient_inverse a = t_orient (invert_orient a (Point 0 0))"

interpretation orient_action: faithful_action orient_apply orientMul R0 orient_inverse
proof
  show "orient_apply (orientMul a b) p = orient_apply b (orient_apply a p)" for a b p
    by (rule orient_apply_orientMul)
  show "orient_apply R0 p = p" for p by simp
  show "orient_apply (orient_inverse a) (orient_apply a p) = p" for a p
    by (cases a; cases p) (simp_all add: orient_inverse_def)
  show "(\<And>p. orient_apply a p = orient_apply b p) \<Longrightarrow> a = b" for a b
    by (rule orient_apply_inj)
qed

interpretation transform_action:
  faithful_action transform_apply transform_concat transform_default transform_invert
proof
  fix a b :: dbTransform and p :: Point
  obtain x y where p: "p = Point x y" by (cases p)
  obtain oa u v where a: "a = Transform oa (Point u v)" by (metis Point.exhaust dbTransform.exhaust)
  show "transform_apply (transform_concat a b) p = transform_apply b (transform_apply a p)"
    by (cases "orient_apply oa p")
      (simp add: a transform_apply_def transform_concat_def Let_def orient_apply_orientMul
        orient_apply_add)
  show "transform_apply transform_default p = p"
    by (simp add: transform_apply_def transform_default_def p)
  show "transform_apply (transform_invert a) (transform_apply a p) = p"
    by (cases oa) (simp_all add: a p transform_apply_def transform_invert_def)
next
  fix a b :: dbTransform
  assume eq: "\<And>p. transform_apply a p = transform_apply b p"
  obtain oa u v where a: "a = Transform oa (Point u v)" by (metis Point.exhaust dbTransform.exhaust)
  obtain ob s t where b: "b = Transform ob (Point s t)" by (metis Point.exhaust dbTransform.exhaust)
  have z: "orient_apply w (Point 0 0) = Point 0 0" for w by (cases w) simp_all
  from eq [of "Point 0 0"] have uv: "u = s" "v = t" by (simp_all add: transform_apply_def a b z)
  have "orient_apply oa p = orient_apply ob p" for p
    using eq [of p] by (cases "orient_apply oa p"; cases "orient_apply ob p")
      (simp add: transform_apply_def a b uv)
  then have "oa = ob" by (rule orient_apply_inj)
  with uv show "a = b" by (simp add: a b)
qed

lemma transform_apply_rect_point:
  assumes "\<not> isInverted r"
  shows "intersects_pt (transform_apply_rect t r) (transform_apply t p) = intersects_pt r p"
proof -
  obtain x y where p: "p = Point x y" by (cases p)
  obtain a b c d where r: "r = Rect a b c d" by (cases r)
  from assms have "a \<le> c" "b \<le> d" by (auto simp: isInverted_def r)
  then show ?thesis
    by (cases "t_orient t")
      (auto simp: p r intersects_pt_def transform_apply_rect_def transform_apply_def Let_def
        rect_ll_def rect_ur_def)
qed

subsection \<open>Properties\<close>

text \<open>The table \<open>orientMul\<close> is the composition of orientations as maps of points, and
  with it the orientations form a group whose unit is \<open>R0\<close> and whose inverse is the
  orientation that \<open>invert\<close> computes.\<close>

theorem orientMul_group:
  "orient_apply (orientMul a b) p = orient_apply b (orient_apply a p)
   \<and> orientMul (orientMul a b) c = orientMul a (orientMul b c)
   \<and> orientMul a R0 = a \<and> orientMul R0 a = a
   \<and> orientMul a (orient_inverse a) = R0 \<and> orientMul (orient_inverse a) a = R0"
  by (intro conjI orient_action.act_mult orient_action.mult_assoc orient_action.mult_one_right
    orient_action.mult_one_left orient_action.mult_inverse_right orient_action.mult_inverse_left)

text \<open>\<open>concat\<close> is composition: applying \<open>s.concat(t)\<close> is applying \<open>s\<close> and then
  \<open>t\<close>; and it is associative.\<close>

theorem transform_concat_apply:
  "transform_apply (transform_concat s t) p = transform_apply t (transform_apply s p)
   \<and> transform_concat (transform_concat s t) u = transform_concat s (transform_concat t u)"
  by (intro conjI transform_action.act_mult transform_action.mult_assoc)

text \<open>C24: \<open>invert\<close> gives the inverse on both sides, so a point moved into the frame of an
  instance and back is unchanged, and concatenation with the inverse is the identity.\<close>

theorem transform_invert_roundtrip:
  "transform_apply (transform_invert t) (transform_apply t p) = p
   \<and> transform_apply t (transform_apply (transform_invert t) p) = p
   \<and> transform_concat t (transform_invert t) = transform_default
   \<and> transform_invert (transform_invert t) = t"
proof (intro conjI)
  show "transform_invert (transform_invert t) = t"
    by (metis transform_action.mult_assoc transform_action.mult_inverse_right
      transform_action.mult_one_left transform_action.mult_one_right)
qed (rule transform_action.act_inverse transform_action.act_inverse_right
  transform_action.mult_inverse_right)+

text \<open>C25: applied to a rectangle, a transform gives the rectangle of exactly the transformed
  points, although only two corners are transformed.\<close>

theorem transform_rect_exact:
  assumes "\<not> isInverted r"
  shows "intersects_pt (transform_apply_rect t r) q
    = intersects_pt r (transform_apply (transform_invert t) q)"
  using transform_apply_rect_point [OF assms, of t "transform_apply (transform_invert t) q"]
  by (simp add: transform_action.act_inverse_right)

theorem transform_rect_exact_witness:
  "intersects_pt (transform_apply_rect (Transform MYR90 (Point 3 4)) (Rect 0 0 2 5)) (Point 0 3)
    = intersects_pt (Rect 0 0 2 5)
        (transform_apply (transform_invert (Transform MYR90 (Point 3 4))) (Point 0 3))"
  by (rule transform_rect_exact) (simp add: isInverted_def)

text \<open>\<open>flipX\<close> and \<open>flipY\<close> are the products with the mirrors \<open>MX\<close> and \<open>MY\<close>: they
  mirror the already oriented object, and flipping twice changes nothing.\<close>

theorem flip_orientMul:
  "flipX a = orientMul a MX \<and> flipY a = orientMul a MY
   \<and> flipX (flipX a) = a \<and> flipY (flipY a) = a \<and> flipX (flipY a) = flipY (flipX a)"
  by (cases a) (simp_all add: orientMul_def orientMul_table_def)

end
