(* ===== verification/Odb_Design.thy ===== *)
theory Odb_Design
  imports Odb_Transform
begin

section \<open>The design database as the placer sees it\<close>

text \<open>
  The objects of \<open>odb/src/db\<close> that detailed placement reads and writes: masters, instances,
  rows, regions, nets and the block that owns them. A pointer to an object is its index in
  the list of the block; a field that the placer never touches is left out, and so are the
  callbacks and the journal, which observe changes and do not influence them. The
  operations are those of \<open>dbInst.cpp\<close>, \<open>dbMaster.cpp\<close>, \<open>dbRow.cpp\<close>, \<open>dbITerm.cpp\<close>,
  \<open>dbBPin.cpp\<close>, \<open>dbNet.cpp\<close> and \<open>dbBlock.cpp\<close>. The invariant \<open>inst_wf\<close> says that the stored
  bounding box of an instance is the placement boundary of its master under the transform
  of the instance; the operations that move an instance keep it.
\<close>

subsection \<open>Objects\<close>

text \<open>A terminal of a master: its signal type and, for every pin, its boxes.\<close>

record dbMTerm =
  mterm_sig :: dbSigType
  mterm_pins :: "Rect list list"

record dbMaster =
  m_type :: dbMasterType
  m_x :: int
  m_y :: int
  m_width :: int
  m_height :: int
  m_obstructions :: "(dbTechLayerType \<times> Rect) list"
  m_mterms :: "dbMTerm list"

text \<open>The net of every instance terminal stands at the index of its master terminal.\<close>

record dbInst =
  i_name :: string
  i_master :: nat
  i_x :: int
  i_y :: int
  i_orient :: dbOrientType
  i_status :: dbPlacementStatus
  i_source :: dbSourceType
  i_bbox :: Rect
  i_iterms :: "nat option list"

record dbRow =
  row_x :: int
  row_y :: int
  row_orient :: dbOrientType
  row_dir :: dbRowDir
  row_site_cnt :: int
  row_spacing :: int
  site_w :: int
  site_h :: int

record dbRegion =
  region_name :: string
  region_parent :: "nat option"
  region_boundaries :: "Rect list"
  region_insts :: "nat list"

text \<open>
  A net: its instance terminals (instance and terminal index), for every block terminal the
  pins with status and boxes, and for every special wire its boxes.
\<close>

record dbNet =
  n_sig :: dbSigType
  n_special :: bool
  n_iterms :: "(nat \<times> nat) list"
  n_bterms :: "(dbPlacementStatus \<times> Rect list) list list"
  n_swires :: "Rect list list"

record dbBlock =
  b_masters :: "dbMaster list"
  b_inst_hdrs :: "nat list"
  b_insts :: "dbInst list"
  b_rows :: "dbRow list"
  b_regions :: "dbRegion list"
  b_nets :: "dbNet list"
  b_die_area :: Rect

definition inst_of :: "dbBlock \<Rightarrow> nat \<Rightarrow> dbInst" where
  "inst_of b i = b_insts b ! i"

definition master_of :: "dbBlock \<Rightarrow> nat \<Rightarrow> dbMaster" where
  \<comment> \<open>\<open>dbInst::getMaster\<close>\<close>
  "master_of b i = b_masters b ! i_master (inst_of b i)"

definition upd_inst :: "nat \<Rightarrow> (dbInst \<Rightarrow> dbInst) \<Rightarrow> dbBlock \<Rightarrow> dbBlock" where
  "upd_inst i f b = b\<lparr>b_insts := (b_insts b)[i := f (inst_of b i)]\<rparr>"

subsection \<open>Masters\<close>

definition getPlacementBoundary :: "dbMaster \<Rightarrow> Rect" where
  "getPlacementBoundary m =
     transform_apply_rect (transform_of_offset (Point (- m_x m) (- m_y m)))
       (rect_init 0 0 (m_width m) (m_height m))"

definition isCoreAutoPlaceable :: "dbMaster \<Rightarrow> bool" where
  "isCoreAutoPlaceable m \<longleftrightarrow>
     m_type m \<in> {MT_CORE, MT_CORE_FEEDTHRU, MT_CORE_TIEHIGH, MT_CORE_TIELOW, MT_CORE_SPACER,
       MT_CORE_WELLTAP, MT_CORE_ANTENNACELL, MT_BLOCK, MT_BLOCK_BLACKBOX, MT_BLOCK_SOFT,
       MT_ENDCAP, MT_ENDCAP_PRE, MT_ENDCAP_POST, MT_ENDCAP_TOPLEFT, MT_ENDCAP_TOPRIGHT,
       MT_ENDCAP_BOTTOMLEFT, MT_ENDCAP_BOTTOMRIGHT}"

subsection \<open>Instances\<close>

definition getLocation :: "dbInst \<Rightarrow> int \<times> int" where
  "getLocation i = (xMin (i_bbox i), yMin (i_bbox i))"

definition getTransform :: "dbInst \<Rightarrow> dbTransform" where
  "getTransform i = Transform (i_orient i) (Point (i_x i) (i_y i))"

definition setInstBBox :: "dbMaster \<Rightarrow> dbInst \<Rightarrow> dbInst" where
  "setInstBBox m i =
     i\<lparr>i_bbox := transform_apply_rect (Transform (i_orient i) (Point (i_x i) (i_y i)))
                  (getPlacementBoundary m)\<rparr>"

definition setOrigin :: "dbMaster \<Rightarrow> int \<Rightarrow> int \<Rightarrow> dbInst \<Rightarrow> dbInst" where
  "setOrigin m x y i =
     (if i_x i = x \<and> i_y i = y then i else setInstBBox m (i\<lparr>i_x := x, i_y := y\<rparr>))"

definition setLocation :: "dbMaster \<Rightarrow> int \<Rightarrow> int \<Rightarrow> dbInst \<Rightarrow> dbInst" where
  "setLocation m x y i =
     (let bbox = transform_apply_rect (transform_of_orient (i_orient i)) (getPlacementBoundary m)
      in setOrigin m (x - xMin bbox) (y - yMin bbox) i)"

definition setOrient :: "dbMaster \<Rightarrow> dbOrientType \<Rightarrow> dbInst \<Rightarrow> dbInst" where
  "setOrient m ori i =
     (if ori = i_orient i then i else setInstBBox m (i\<lparr>i_orient := ori\<rparr>))"

definition setLocationOrient :: "dbMaster \<Rightarrow> dbOrientType \<Rightarrow> dbInst \<Rightarrow> dbInst" where
  "setLocationOrient m ori i =
     (let (x, y) = getLocation i in setLocation m x y (setOrient m ori i))"

definition inst_isFixed :: "dbInst \<Rightarrow> bool" where
  "inst_isFixed i = status_isFixed (i_status i)"

definition inst_isPlaced :: "dbInst \<Rightarrow> bool" where
  "inst_isPlaced i = status_isPlaced (i_status i)"

text \<open>
  \<open>dbInst::create\<close>: \<open>None\<close> when the name is taken. The new instance has orientation \<open>R0\<close>,
  status and source type \<open>NONE\<close>, its origin at (0, 0) and the box of the master's width and height.
\<close>

definition inst_create :: "dbBlock \<Rightarrow> nat \<Rightarrow> string \<Rightarrow> (dbBlock \<times> nat) option" where
  "inst_create b m name =
     (let b = (if m \<in> set (b_inst_hdrs b) then b else b\<lparr>b_inst_hdrs := b_inst_hdrs b @ [m]\<rparr>)
      in if (\<exists>i \<in> set (b_insts b). i_name i = name) then None
         else Some (b\<lparr>b_insts := b_insts b @
                [\<lparr>i_name = name, i_master = m, i_x = 0, i_y = 0, i_orient = R0,
                  i_status = PS_NONE, i_source = SRC_NONE,
                  i_bbox = rect_init 0 0 (m_width (b_masters b ! m)) (m_height (b_masters b ! m)),
                  i_iterms = replicate (length (m_mterms (b_masters b ! m))) None\<rparr>]\<rparr>,
               length (b_insts b)))"

subsection \<open>Rows and the core area\<close>

definition row_getBBox :: "dbRow \<Rightarrow> Rect" where
  "row_getBBox r =
     (if row_site_cnt r = 0 then rect_init 0 0 0 0
      else
        let r' = transform_apply_rect (transform_of_orient (row_orient r))
                   (rect_init 0 0 (site_w r) (site_h r));
            dx = s32 (rect_dx r'); dy = s32 (rect_dy r')
        in if row_dir r = HORIZONTAL
           then rect_init (row_x r) (row_y r)
                  (row_x r + (row_site_cnt r - 1) * row_spacing r + dx) (row_y r + dy)
           else rect_init (row_x r) (row_y r)
                  (row_x r + dx) (row_y r + (row_site_cnt r - 1) * row_spacing r + dy))"

definition getCoreArea :: "dbBlock \<Rightarrow> Rect" where
  "getCoreArea b =
     (if b_rows b \<noteq> [] then fold (\<lambda>row rect. rect_merge rect (row_getBBox row)) (b_rows b) mergeInit
      else b_die_area b)"

subsection \<open>Terminals and nets\<close>

text \<open>
  \<open>dbITerm::getAvgXY\<close> sums the corners of the transformed boxes in a \<open>double\<close>, divides by
  their number and truncates. The sums are integers that a \<open>double\<close> holds exactly while
  they are below \<open>2 ^ 53\<close>, and a quotient of such an integer by a smaller one is rounded to
  an integer only if it is one, so the result is the truncating division.
\<close>

definition iterm_boxes :: "dbBlock \<Rightarrow> nat \<Rightarrow> nat \<Rightarrow> Rect list" where
  "iterm_boxes b i k =
     map (transform_apply_rect (getTransform (inst_of b i)))
       (concat (mterm_pins (m_mterms (master_of b i) ! k)))"

definition getAvgXY :: "dbBlock \<Rightarrow> nat \<Rightarrow> nat \<Rightarrow> (int \<times> int) option" where
  "getAvgXY b i k =
     (let boxes = iterm_boxes b i k;
          xx = sum_list (map (\<lambda>r. xMin r + xMax r) boxes);
          yy = sum_list (map (\<lambda>r. yMin r + yMax r) boxes);
          nn = 2 * int (length boxes)
      in if nn = 0 then None else Some (xx sdiv nn, yy sdiv nn))"

definition bpin_getBBox :: "Rect list \<Rightarrow> Rect" where
  "bpin_getBBox boxes = fold (\<lambda>r bbox. rect_merge bbox r) boxes mergeInit"

definition box_center :: "Rect \<Rightarrow> Point" where
  "box_center r = Point ((xMin r + xMax r) sdiv 2) ((yMin r + yMax r) sdiv 2)"

definition iterm_point :: "dbBlock \<Rightarrow> nat \<times> nat \<Rightarrow> Point" where
  \<comment> \<open>the point that \<open>getTermBBox\<close> merges for an instance terminal\<close>
  "iterm_point b it =
     (case getAvgXY b (fst it) (snd it) of
        Some (x, y) \<Rightarrow> Point x y
      | None \<Rightarrow> box_center (i_bbox (inst_of b (fst it))))"

definition bterm_points :: "dbNet \<Rightarrow> Point list" where
  \<comment> \<open>the points that \<open>getTermBBox\<close> merges for the block terminals\<close>
  "bterm_points n =
     concat (map (\<lambda>bpins. map (\<lambda>(st, boxes). box_center (bpin_getBBox boxes))
                    (filter (\<lambda>(st, boxes). status_isPlaced st) bpins)) (n_bterms n))"

definition merge_pt :: "Point \<Rightarrow> Rect \<Rightarrow> Rect" where
  "merge_pt p r = rect_merge r (rect_init (getX p) (getY p) (getX p) (getY p))"

definition getTermBBox :: "dbBlock \<Rightarrow> dbNet \<Rightarrow> Rect" where
  "getTermBBox b n =
     (let net_box = fold (\<lambda>it r. merge_pt (iterm_point b it) r) (n_iterms n) mergeInit
      in fold merge_pt (bterm_points n) net_box)"

subsection \<open>Lemmas\<close>

definition inst_wf :: "dbMaster \<Rightarrow> dbInst \<Rightarrow> bool" where
  "inst_wf m i \<longleftrightarrow> i_bbox i = transform_apply_rect (getTransform i) (getPlacementBoundary m)"

lemma setInstBBox_wf [simp]: "inst_wf m (setInstBBox m i)"
  by (simp add: inst_wf_def setInstBBox_def getTransform_def)

lemma setOrigin_wf: "inst_wf m i \<Longrightarrow> inst_wf m (setOrigin m x y i)"
  by (simp add: setOrigin_def)

lemma setOrient_wf: "inst_wf m i \<Longrightarrow> inst_wf m (setOrient m ori i)"
  by (simp add: setOrient_def)

lemma setLocation_wf: "inst_wf m i \<Longrightarrow> inst_wf m (setLocation m x y i)"
  by (simp add: setLocation_def Let_def setOrigin_wf)

lemma setOrigin_sel [simp]:
  "i_x (setOrigin m x y i) = x" "i_y (setOrigin m x y i) = y"
  "i_orient (setOrigin m x y i) = i_orient i" "i_status (setOrigin m x y i) = i_status i"
  "i_master (setOrigin m x y i) = i_master i" "i_name (setOrigin m x y i) = i_name i"
  "i_iterms (setOrigin m x y i) = i_iterms i" "i_source (setOrigin m x y i) = i_source i"
  by (auto simp: setOrigin_def setInstBBox_def)

lemma setOrient_sel [simp]:
  "i_x (setOrient m ori i) = i_x i" "i_y (setOrient m ori i) = i_y i"
  "i_orient (setOrient m ori i) = ori" "i_status (setOrient m ori i) = i_status i"
  "i_master (setOrient m ori i) = i_master i" "i_name (setOrient m ori i) = i_name i"
  "i_iterms (setOrient m ori i) = i_iterms i" "i_source (setOrient m ori i) = i_source i"
  by (auto simp: setOrient_def setInstBBox_def)

lemma setLocation_sel [simp]:
  "i_orient (setLocation m x y i) = i_orient i" "i_status (setLocation m x y i) = i_status i"
  "i_master (setLocation m x y i) = i_master i" "i_name (setLocation m x y i) = i_name i"
  "i_iterms (setLocation m x y i) = i_iterms i" "i_source (setLocation m x y i) = i_source i"
  by (simp_all add: setLocation_def Let_def)

text \<open>A new instance comes last, with a name that was free.\<close>

lemma inst_create_Some:
  assumes "inst_create b m nm = Some (b', i)"
  obtains hdrs where "b' = b\<lparr>b_inst_hdrs := hdrs, b_insts := b_insts b @
        [\<lparr>i_name = nm, i_master = m, i_x = 0, i_y = 0, i_orient = R0, i_status = PS_NONE, i_source = SRC_NONE,
          i_bbox = rect_init 0 0 (m_width (b_masters b ! m)) (m_height (b_masters b ! m)),
          i_iterms = replicate (length (m_mterms (b_masters b ! m))) None\<rparr>]\<rparr>"
    "i = length (b_insts b)" "nm \<notin> i_name ` set (b_insts b)"
proof (cases "m \<in> set (b_inst_hdrs b)")
  case True
  then show ?thesis using assms that [of "b_inst_hdrs b"] by (auto simp: inst_create_def Let_def split: if_splits)
next
  case False
  then show ?thesis using assms that [of "b_inst_hdrs b @ [m]"] by (auto simp: inst_create_def Let_def split: if_splits)
qed

text \<open>The offset of a transform moves the rectangle it gives.\<close>

lemma transform_rect_offset:
  "xMin (transform_apply_rect (Transform a (Point u v)) r) =
     xMin (transform_apply_rect (transform_of_orient a) r) + u"
  "yMin (transform_apply_rect (Transform a (Point u v)) r) =
     yMin (transform_apply_rect (transform_of_orient a) r) + v"
  by (simp_all add: transform_apply_rect_def transform_apply_def transform_of_orient_def Let_def)

lemma getLocation_setLocation:
  assumes "inst_wf m i"
  shows "getLocation (setLocation m x y i) = (x, y)"
proof -
  have "inst_wf m (setLocation m x y i)" using assms by (rule setLocation_wf)
  then show ?thesis
    by (simp add: inst_wf_def getTransform_def getLocation_def setLocation_def Let_def
      transform_rect_offset)
qed

text \<open>A well-formed instance is determined by its location, orientation and the other fields.\<close>

lemma inst_eq_by_location:
  assumes "inst_wf m i" "inst_wf m j" "getLocation i = getLocation j"
    and "i_orient i = i_orient j" "i_status i = i_status j" "i_master i = i_master j"
    and "i_name i = i_name j" "i_iterms i = i_iterms j" "i_source i = i_source j"
  shows "i = (j :: dbInst)"
proof -
  have "i_x i = i_x j" "i_y i = i_y j"
    using assms(1-4) by (auto simp: inst_wf_def getLocation_def getTransform_def transform_rect_offset)
  moreover from this have "i_bbox i = i_bbox j"
    using assms(1,2,4) by (simp add: inst_wf_def getTransform_def)
  ultimately show ?thesis using assms by simp
qed

lemma setLocationOrient_facts:
  assumes "inst_wf m i"
  shows "getLocation (setLocationOrient m ori i) = getLocation i"
    and "i_orient (setLocationOrient m ori i) = ori"
    and "inst_wf m (setLocationOrient m ori i)"
proof -
  have w: "inst_wf m (setOrient m ori i)" using assms by (rule setOrient_wf)
  show "getLocation (setLocationOrient m ori i) = getLocation i"
    using getLocation_setLocation [OF w] by (simp add: setLocationOrient_def split: prod.split)
  show "i_orient (setLocationOrient m ori i) = ori"
    by (simp add: setLocationOrient_def split: prod.split)
  show "inst_wf m (setLocationOrient m ori i)"
    using setLocation_wf [OF w] by (simp add: setLocationOrient_def split: prod.split)
qed

lemma setLocationOrient_sel [simp]:
  "i_status (setLocationOrient m ori i) = i_status i"
  "i_master (setLocationOrient m ori i) = i_master i"
  "i_name (setLocationOrient m ori i) = i_name i"
  "i_iterms (setLocationOrient m ori i) = i_iterms i" "i_source (setLocationOrient m ori i) = i_source i"
  by (simp_all add: setLocationOrient_def split: prod.split)

lemma setLocationOrient_undo:
  assumes "inst_wf m i"
  shows "setLocationOrient m (i_orient i) (setLocationOrient m ori i) = i"
  using setLocationOrient_facts [OF assms, of ori]
    setLocationOrient_facts [OF setLocationOrient_facts(3) [OF assms, of ori], of "i_orient i"]
    assms
  by (intro inst_eq_by_location [of m]) auto

lemma rect_contains_trans: "rect_contains r s \<Longrightarrow> rect_contains s t \<Longrightarrow> rect_contains r t"
  by (auto simp: rect_contains_def)

lemma rect_contains_pt: "rect_contains r s \<Longrightarrow> intersects_pt s p \<Longrightarrow> intersects_pt r p"
  by (auto simp: rect_contains_def intersects_pt_def)

lemma merge_pt_grows: "rect_contains (merge_pt p r) r \<and> intersects_pt (merge_pt p r) p"
  by (auto simp: merge_pt_def rect_merge_def rect_contains_def intersects_pt_def)

lemma fold_merge_pt_grows: "rect_contains (fold merge_pt ps r) r"
proof (induction ps arbitrary: r)
  case Nil
  then show ?case by (simp add: rect_contains_def)
next
  case (Cons p ps)
  show ?case
    using Cons [of "merge_pt p r"] merge_pt_grows rect_contains_trans by auto
qed

lemma fold_merge_pt_covers: "p \<in> set ps \<Longrightarrow> intersects_pt (fold merge_pt ps r) p"
proof (induction ps arbitrary: r)
  case (Cons q ps)
  then show ?case
    using fold_merge_pt_grows [of ps "merge_pt q r"] merge_pt_grows rect_contains_pt by auto
qed simp

lemma fold_merge_pt_least:
  "rect_contains t r \<Longrightarrow> (\<And>p. p \<in> set ps \<Longrightarrow> intersects_pt t p) \<Longrightarrow> rect_contains t (fold merge_pt ps r)"
proof (induction ps arbitrary: r)
  case (Cons p ps)
  have "intersects_pt t p" using Cons.prems by simp
  with Cons.prems(1) have "rect_contains t (merge_pt p r)"
    by (auto simp: merge_pt_def rect_merge_def rect_contains_def intersects_pt_def)
  with Cons show ?case by simp
qed simp

lemma getTermBBox_points:
  "getTermBBox b n = fold merge_pt (map (iterm_point b) (n_iterms n) @ bterm_points n) mergeInit"
  by (simp add: getTermBBox_def fold_map comp_def)

end
