(* ===== verification/Dpl_State.thy ===== *)
theory Dpl_State
  imports Complex_Main Odb_Design
begin

section \<open>The state of the detailed placer and its small functions\<close>

text \<open>
  \<open>dpl/include/dpl/Opendp.h\<close> and \<open>dpl/src/Opendp.cpp\<close>. The record \<open>Opendp\<close> holds the fields
  of the class. A \<open>Cell*\<close> is the index of the cell in \<open>cells\<close>, or \<open>DummyCell\<close> for the
  address of \<open>dummy_cell_\<close>; a \<open>Group*\<close> is the index of the group. Functions that take a
  \<open>const Cell*\<close> and only read it take the cell itself. The pixel grid is the memory behind
  \<open>Pixel** grid_\<close>: a map from coordinates, of which those inside \<open>row_site_count\<close> by
  \<open>row_count\<close> are allocated; a \<open>Pixel*\<close> is a coordinate pair, and \<open>gridPixel\<close> decides
  whether it is null.

  Integers of the source are mathematical integers here (a placement that overflows a
  32-bit coordinate is outside the model), except where the code narrows or multiplies
  unsigned values on purpose: \<open>Cell::area\<close> and \<open>cellAreaGreater\<close> keep their widths.
  Divisors are a site width or a row height; the theorems assume them positive.
\<close>

subsection \<open>Integer division helpers\<close>

text \<open>
  \<open>divRound\<close> and \<open>divCeil\<close> compute the quotient in a \<open>double\<close> and round it. For 32-bit
  operands a quotient that is not an integer (or not a half integer) differs from the next
  one by at least \<open>1 / (2 * divisor)\<close>, far more than the rounding error, so the results are
  the exact ones; \<open>std::round\<close> rounds halves away from zero.
\<close>

definition divRound :: "int \<Rightarrow> int \<Rightarrow> int" where
  "divRound a b = sgn (a * b) * ((2 * \<bar>a\<bar> + \<bar>b\<bar>) div (2 * \<bar>b\<bar>))"

definition divCeil :: "int \<Rightarrow> int \<Rightarrow> int" where
  "divCeil a b = - ((- a) div b)"

definition divFloor :: "int \<Rightarrow> int \<Rightarrow> int" where
  "divFloor a b = a sdiv b"

subsection \<open>The state\<close>

datatype Power = P_undefined | VDD | VSS

record Macro =
  is_multi_row :: bool
  top_power :: Power

record Cell =
  db_inst :: nat
  cell_x :: int
  cell_y :: int
  cell_orient :: dbOrientType
  cell_width :: int
  cell_height :: int
  is_placed :: bool
  hold :: bool
  cell_group :: "nat option"
  cell_region :: "Rect option"

text \<open>The \<open>double\<close> of a group's utilisation: an exact quotient, or a special value.\<close>

datatype dbl = Fin rat | PInf | NInf | NaN

record Group =
  g_name :: string
  g_regions :: "Rect list"
  g_cells :: "nat list"
  g_boundary :: Rect
  g_util :: dbl

datatype cell_ptr = DummyCell | CellAt nat

record Pixel =
  pixel_cell :: "cell_ptr option"
  pixel_group :: "nat option"
  pixel_util :: rat
  is_valid :: bool
  is_hopeless :: bool

type_synonym grid_pt = "int \<times> int"

record Opendp =
  block :: dbBlock
  pad_left :: int
  pad_right :: int
  inst_padding_map :: "(nat \<times> int \<times> int) list"
  master_padding_map :: "(nat \<times> int \<times> int) list"
  cells :: "Cell list"
  groups :: "Group list"
  db_master_map :: "nat \<Rightarrow> Macro option"
  db_inst_map :: "nat \<Rightarrow> nat option"
  core :: Rect
  initial_power :: Power
  row0_orient_is_r0 :: bool
  row0_top_power_is_vdd :: bool
  macro_top_power :: Power
  row_height :: int
  site_width :: int
  row_count :: int
  row_site_count :: int
  have_multi_row_cells :: bool
  max_displacement_x :: int
  max_displacement_y :: int
  grid :: "grid_pt \<Rightarrow> Pixel"
  gap_fillers :: "nat list list"
  filler_count :: int
  hpwl_before :: int
  displacement_avg :: int
  displacement_sum :: int
  displacement_max :: int

abbreviation bin_search_width :: int where "bin_search_width \<equiv> 10"

definition cell_default :: Cell where
  \<comment> \<open>\<open>Cell::Cell()\<close>\<close>
  "cell_default =
     \<lparr>db_inst = 0, cell_x = 0, cell_y = 0, cell_orient = R0, cell_width = 0, cell_height = 0,
      is_placed = False, hold = False, cell_group = None, cell_region = None\<rparr>"

definition pixel_default :: Pixel where
  \<comment> \<open>a pixel as \<open>initGrid\<close> resets it\<close>
  "pixel_default =
     \<lparr>pixel_cell = None, pixel_group = None, pixel_util = 0, is_valid = False,
      is_hopeless = True\<rparr>"

abbreviation cell_of :: "Opendp \<Rightarrow> nat \<Rightarrow> Cell" where
  "cell_of st c \<equiv> cells st ! c"

definition upd_cell :: "nat \<Rightarrow> (Cell \<Rightarrow> Cell) \<Rightarrow> Opendp \<Rightarrow> Opendp" where
  "upd_cell c f st = st\<lparr>cells := (cells st)[c := f (cells st ! c)]\<rparr>"

definition upd_pixel :: "grid_pt \<Rightarrow> (Pixel \<Rightarrow> Pixel) \<Rightarrow> Opendp \<Rightarrow> Opendp" where
  "upd_pixel p f st = st\<lparr>grid := (grid st)(p := f (grid st p))\<rparr>"

abbreviation cell_inst :: "Opendp \<Rightarrow> Cell \<Rightarrow> dbInst" where
  "cell_inst st cl \<equiv> inst_of (block st) (db_inst cl)"

abbreviation cell_master :: "Opendp \<Rightarrow> Cell \<Rightarrow> dbMaster" where
  "cell_master st cl \<equiv> master_of (block st) (db_inst cl)"

definition inGroup :: "Cell \<Rightarrow> bool" where
  "inGroup cl \<longleftrightarrow> cell_group cl \<noteq> None"

text \<open>
  \<open>Cell::area\<close> returns an \<open>int64_t\<close>, but the product of the two \<open>uint\<close>s is taken in 32 bits;
  \<open>cellAreaGreater\<close> then stores it in an \<open>int\<close>. Instances are created with increasing
  identifiers, so the comparison of \<open>getId\<close> is that of the indices.
\<close>

definition cell_area :: "Opendp \<Rightarrow> Cell \<Rightarrow> int" where
  "cell_area st cl = u32 (m_width (cell_master st cl) * m_height (cell_master st cl))"

definition cellAreaGreater :: "Opendp \<Rightarrow> Cell \<Rightarrow> Cell \<Rightarrow> bool" where
  "cellAreaGreater st c1 c2 =
     (let area1 = s32 (cell_area st c1); area2 = s32 (cell_area st c2)
      in area1 > area2 \<or> (area1 = area2 \<and> db_inst c1 < db_inst c2))"

definition isFixed :: "Opendp \<Rightarrow> Cell \<Rightarrow> bool" where
  "isFixed st cl = inst_isFixed (cell_inst st cl)"

fun isFixed_ptr :: "Opendp \<Rightarrow> cell_ptr \<Rightarrow> bool" where
  "isFixed_ptr st DummyCell = True"
| "isFixed_ptr st (CellAt c) = isFixed st (cell_of st c)"

text \<open>
  The lookups assert that the master is in the map. Where the assertion would fail the model has the
  value-initialised \<open>Macro\<close>, so a statement that nothing fails needs \<open>masters_known\<close>, under which no lookup
  misses: \<open>importDb\<close> establishes it and no operation of the placer changes the map
  (\<open>importDb_masters_known\<close>, \<open>masters_known_same_design\<close>).
\<close>

definition macro_of :: "Opendp \<Rightarrow> Cell \<Rightarrow> Macro" where
  "macro_of st cl =
     (case db_master_map st (i_master (cell_inst st cl)) of
        Some m \<Rightarrow> m
      | None \<Rightarrow> \<lparr>is_multi_row = False, top_power = P_undefined\<rparr>)"

definition masters_known :: "Opendp \<Rightarrow> bool" where
  \<comment> \<open>the assertions of \<open>isMultiRow\<close> and \<open>topPower\<close> hold for every cell\<close>
  "masters_known st \<longleftrightarrow> (\<forall>cl \<in> set (cells st). db_master_map st (i_master (cell_inst st cl)) \<noteq> None)"

definition isMultiRow :: "Opendp \<Rightarrow> Cell \<Rightarrow> bool" where
  "isMultiRow st cl = is_multi_row (macro_of st cl)"

definition topPower :: "Opendp \<Rightarrow> Cell \<Rightarrow> Power" where
  "topPower st cl = top_power (macro_of st cl)"

subsection \<open>Padding\<close>

definition setPaddingGlobal :: "int \<Rightarrow> int \<Rightarrow> Opendp \<Rightarrow> Opendp" where
  "setPaddingGlobal left right st = st\<lparr>pad_left := left, pad_right := right\<rparr>"

fun map_assign :: "'k \<Rightarrow> 'v \<Rightarrow> ('k \<times> 'v) list \<Rightarrow> ('k \<times> 'v) list" where
  \<comment> \<open>\<open>m[k] = v\<close> on a \<open>std::map\<close>\<close>
  "map_assign k v [] = [(k, v)]"
| "map_assign k v ((k', v') # m) = (if k' = k then (k, v) # m else (k', v') # map_assign k v m)"

definition setPadding_inst :: "nat \<Rightarrow> int \<Rightarrow> int \<Rightarrow> Opendp \<Rightarrow> Opendp" where
  "setPadding_inst inst left right st =
     st\<lparr>inst_padding_map := map_assign inst (left, right) (inst_padding_map st)\<rparr>"

definition setPadding_master :: "nat \<Rightarrow> int \<Rightarrow> int \<Rightarrow> Opendp \<Rightarrow> Opendp" where
  "setPadding_master master left right st =
     st\<lparr>master_padding_map := map_assign master (left, right) (master_padding_map st)\<rparr>"

definition havePadding :: "Opendp \<Rightarrow> bool" where
  "havePadding st \<longleftrightarrow>
     pad_left st > 0 \<or> pad_right st > 0 \<or> master_padding_map st \<noteq> [] \<or> inst_padding_map st \<noteq> []"

definition isPaddedType :: "Opendp \<Rightarrow> nat \<Rightarrow> bool" where
  "isPaddedType st inst \<longleftrightarrow>
     m_type (master_of (block st) inst) \<in> {MT_CORE, MT_CORE_ANTENNACELL, MT_CORE_FEEDTHRU,
       MT_CORE_TIEHIGH, MT_CORE_TIELOW, MT_CORE_WELLTAP, MT_ENDCAP, MT_ENDCAP_PRE,
       MT_ENDCAP_POST}"

definition isStdCell :: "Opendp \<Rightarrow> Cell \<Rightarrow> bool" where
  "isStdCell st cl \<longleftrightarrow>
     m_type (cell_master st cl) \<in> {MT_CORE, MT_CORE_ANTENNACELL, MT_CORE_FEEDTHRU,
       MT_CORE_TIEHIGH, MT_CORE_TIELOW, MT_CORE_SPACER, MT_CORE_WELLTAP}"

definition isBlock :: "Opendp \<Rightarrow> Cell \<Rightarrow> bool" where
  "isBlock st cl \<longleftrightarrow> m_type (cell_master st cl) = MT_BLOCK"

definition padLeft_inst :: "Opendp \<Rightarrow> nat \<Rightarrow> int" where
  "padLeft_inst st inst =
     (if isPaddedType st inst then
        (case map_of (inst_padding_map st) inst of
           Some p \<Rightarrow> fst p
         | None \<Rightarrow>
             (case map_of (master_padding_map st) (i_master (inst_of (block st) inst)) of
                Some p \<Rightarrow> fst p
              | None \<Rightarrow> pad_left st))
      else 0)"

definition padRight_inst :: "Opendp \<Rightarrow> nat \<Rightarrow> int" where
  "padRight_inst st inst =
     (if isPaddedType st inst then
        (case map_of (inst_padding_map st) inst of
           Some p \<Rightarrow> snd p
         | None \<Rightarrow>
             (case map_of (master_padding_map st) (i_master (inst_of (block st) inst)) of
                Some p \<Rightarrow> snd p
              | None \<Rightarrow> pad_right st))
      else 0)"

definition padLeft :: "Opendp \<Rightarrow> Cell \<Rightarrow> int" where "padLeft st cl = padLeft_inst st (db_inst cl)"
definition padRight :: "Opendp \<Rightarrow> Cell \<Rightarrow> int" where "padRight st cl = padRight_inst st (db_inst cl)"

definition paddedWidth :: "Opendp \<Rightarrow> Cell \<Rightarrow> int" where
  "paddedWidth st cl = cell_width cl + (padLeft st cl + padRight st cl) * site_width st"

definition paddedArea :: "Opendp \<Rightarrow> Cell \<Rightarrow> int" where
  "paddedArea st cl = s32 (paddedWidth st cl * cell_height cl)"

subsection \<open>Grid coordinates\<close>

definition gridPaddedWidth :: "Opendp \<Rightarrow> Cell \<Rightarrow> int" where
  "gridPaddedWidth st cl = divCeil (paddedWidth st cl) (site_width st)"

definition gridHeight :: "Opendp \<Rightarrow> Cell \<Rightarrow> int" where
  "gridHeight st cl = divCeil (cell_height cl) (row_height st)"

definition gridNearestWidth :: "Opendp \<Rightarrow> Cell \<Rightarrow> int" where
  "gridNearestWidth st cl = divRound (paddedWidth st cl) (site_width st)"

definition gridNearestHeight :: "Opendp \<Rightarrow> Cell \<Rightarrow> int" where
  "gridNearestHeight st cl = divRound (cell_height cl) (row_height st)"

definition gridX :: "Opendp \<Rightarrow> int \<Rightarrow> int" where "gridX st x = x sdiv site_width st"
definition gridEndX :: "Opendp \<Rightarrow> int \<Rightarrow> int" where "gridEndX st x = divCeil x (site_width st)"
definition gridY :: "Opendp \<Rightarrow> int \<Rightarrow> int" where "gridY st y = y sdiv row_height st"
definition gridEndY :: "Opendp \<Rightarrow> int \<Rightarrow> int" where "gridEndY st y = divCeil y (row_height st)"

definition gridEndX_core :: "Opendp \<Rightarrow> int" where "gridEndX_core st = gridEndX st (rect_dx (core st))"
definition gridEndY_core :: "Opendp \<Rightarrow> int" where "gridEndY_core st = gridEndY st (rect_dy (core st))"

definition cellX :: "Opendp \<Rightarrow> Cell \<Rightarrow> int" where
  \<comment> \<open>\<open>gridX(const Cell*)\<close>\<close>
  "cellX st cl = gridX st (cell_x cl)"

definition gridPaddedX :: "Opendp \<Rightarrow> Cell \<Rightarrow> int" where
  "gridPaddedX st cl = gridX st (cell_x cl - padLeft st cl * site_width st)"

definition cellY :: "Opendp \<Rightarrow> Cell \<Rightarrow> int" where
  \<comment> \<open>\<open>gridY(const Cell*)\<close>\<close>
  "cellY st cl = gridY st (cell_y cl)"

definition gridPaddedEndX :: "Opendp \<Rightarrow> Cell \<Rightarrow> int" where
  "gridPaddedEndX st cl =
     divCeil (cell_x cl + cell_width cl + padRight st cl * site_width st) (site_width st)"

definition cellEndX :: "Opendp \<Rightarrow> Cell \<Rightarrow> int" where
  \<comment> \<open>\<open>gridEndX(const Cell*)\<close>\<close>
  "cellEndX st cl = divCeil (cell_x cl + cell_width cl) (site_width st)"

definition cellEndY :: "Opendp \<Rightarrow> Cell \<Rightarrow> int" where
  \<comment> \<open>\<open>gridEndY(const Cell*)\<close>\<close>
  "cellEndY st cl = divCeil (cell_y cl + cell_height cl) (row_height st)"

definition setGridPaddedLoc :: "Opendp \<Rightarrow> int \<Rightarrow> int \<Rightarrow> Cell \<Rightarrow> Cell" where
  "setGridPaddedLoc st x y cl =
     cl\<lparr>cell_x := (x + padLeft st cl) * site_width st, cell_y := y * row_height st\<rparr>"

definition gridPixel :: "Opendp \<Rightarrow> int \<Rightarrow> int \<Rightarrow> grid_pt option" where
  "gridPixel st x y =
     (if x \<ge> 0 \<and> x < row_site_count st \<and> y \<ge> 0 \<and> y < row_count st then Some (x, y) else None)"

subsection \<open>Rows, locations and displacement\<close>

definition rowTopPower :: "Opendp \<Rightarrow> int \<Rightarrow> Power" where
  "rowTopPower st row =
     (if (if row0_top_power_is_vdd st then row else row + 1) smod 2 = 0 then VDD else VSS)"

definition rowOrient :: "Opendp \<Rightarrow> int \<Rightarrow> dbOrientType" where
  "rowOrient st row =
     (if (if row0_orient_is_r0 st then row else row + 1) smod 2 = 0 then R0 else MX)"

definition initialLocation :: "Opendp \<Rightarrow> Cell \<Rightarrow> bool \<Rightarrow> Point" where
  "initialLocation st cl padded =
     (let (loc_x, loc_y) = getLocation (cell_inst st cl);
          loc_x = loc_x - xMin (core st);
          loc_x = (if padded then loc_x - padLeft st cl * site_width st else loc_x);
          loc_y = loc_y - yMin (core st)
      in Point loc_x loc_y)"

definition disp :: "Opendp \<Rightarrow> Cell \<Rightarrow> int" where
  "disp st cl =
     (let init = initialLocation st cl False
      in \<bar>getX init - cell_x cl\<bar> + \<bar>getY init - cell_y cl\<bar>)"

definition findDisplacementStats :: "Opendp \<Rightarrow> Opendp" where
  "findDisplacementStats st =
     (let st = st\<lparr>displacement_avg := 0, displacement_sum := 0, displacement_max := 0\<rparr>;
          st = fold (\<lambda>cl st.
                 let displacement = disp st cl;
                     st = st\<lparr>displacement_sum := displacement_sum st + displacement\<rparr>
                 in if displacement > displacement_max st
                    then st\<lparr>displacement_max := displacement\<rparr> else st) (cells st) st
      in if length (cells st) \<noteq> 0
         then st\<lparr>displacement_avg := displacement_sum st sdiv int (length (cells st))\<rparr>
         else st\<lparr>displacement_avg := 0\<rparr>)"

definition isSupply :: "dbNet \<Rightarrow> bool" where
  "isSupply net \<longleftrightarrow> n_sig net = SIG_POWER \<or> n_sig net = SIG_GROUND"

text \<open>\<open>dx\<close> and \<open>dy\<close> are \<open>uint\<close>s, and so is their sum.\<close>

definition hpwl_net :: "dbBlock \<Rightarrow> dbNet \<Rightarrow> int" where
  "hpwl_net b net =
     (if isSupply net then 0
      else let bbox = getTermBBox b net in u32 (rect_dx bbox + rect_dy bbox))"

definition hpwl_block :: "dbBlock \<Rightarrow> int" where
  \<comment> \<open>\<open>Opendp::hpwl()\<close>\<close>
  "hpwl_block b = fold (\<lambda>net hpwl_sum. hpwl_sum + hpwl_net b net) (b_nets b) 0"

text \<open>Write the placed locations back; an instance is moved only if its place changed.\<close>

definition updateDbInstLocations :: "Opendp \<Rightarrow> Opendp" where
  "updateDbInstLocations st =
     fold (\<lambda>cl st.
       if \<not> isFixed st cl \<and> isStdCell st cl then
         (let i = db_inst cl; m = cell_master st cl;
              st = (if i_orient (inst_of (block st) i) \<noteq> cell_orient cl
                    then st\<lparr>block := upd_inst i (setOrient m (cell_orient cl)) (block st)\<rparr>
                    else st);
              x = xMin (core st) + cell_x cl; y = yMin (core st) + cell_y cl;
              (inst_x, inst_y) = getLocation (inst_of (block st) i)
          in if x \<noteq> inst_x \<or> y \<noteq> inst_y
             then st\<lparr>block := upd_inst i (setLocation m x y) (block st)\<rparr>
             else st)
       else st) (cells st) st"

end
