(* ===== verification/Dpl_Import.thy ===== *)
theory Dpl_Import
  imports Dpl_State
begin

section \<open>Importing the design\<close>

text \<open>
  \<open>dpl/src/dbToOpendp.cpp\<close>: \<open>importDb\<close> reads rows, masters, instances, regions and power
  straps into the state of the placer. \<open>examineRows\<close> fixes the site grid, \<open>makeMacros\<close>
  classifies the masters, \<open>makeCells\<close> makes one cell for every placeable instance,
  \<open>makeGroups\<close> one group for every region with a parent, \<open>findRowPower\<close> looks for the
  lowest power strap. Only the two warnings of \<open>reportImportWarnings\<close> are left out.
\<close>

subsection \<open>The steps of the import\<close>

fun swapWidthHeight :: "dbOrientType \<Rightarrow> bool" where
  "swapWidthHeight R90 = True"
| "swapWidthHeight MXR90 = True"
| "swapWidthHeight R270 = True"
| "swapWidthHeight MYR90 = True"
| "swapWidthHeight R0 = False"
| "swapWidthHeight R180 = False"
| "swapWidthHeight MY = False"
| "swapWidthHeight MX = False"

definition deleteGrid :: "Opendp \<Rightarrow> Opendp" where
  \<comment> \<open>no pixel is read again before \<open>initGrid\<close> resets them all\<close>
  "deleteGrid st = st\<lparr>grid := (\<lambda>_. pixel_default)\<rparr>"

definition importClear :: "Opendp \<Rightarrow> Opendp" where
  "importClear st =
     (deleteGrid (st\<lparr>db_master_map := (\<lambda>_. None), cells := [], groups := [],
        db_inst_map := (\<lambda>_. None)\<rparr>))\<lparr>have_multi_row_cells := False\<rparr>"

definition find_ymax :: "dbMTerm \<Rightarrow> int" where
  "find_ymax mterm = fold (\<lambda>mpin ymax. fold (\<lambda>box ymax. max ymax (yMax box)) mpin ymax)
     (mterm_pins mterm) 0"

definition find_supply_terms :: "dbMaster \<Rightarrow> dbMTerm option \<times> dbMTerm option" where
  "find_supply_terms master =
     fold (\<lambda>mterm (pwr, gnd).
       if mterm_sig mterm = SIG_POWER then (Some mterm, gnd)
       else if mterm_sig mterm = SIG_GROUND then (pwr, Some mterm)
       else (pwr, gnd)) (m_mterms master) (None, None)"

definition defineTopPower :: "nat \<Rightarrow> Opendp \<Rightarrow> Opendp" where
  "defineTopPower mi st =
     (let master = b_masters (block st) ! mi in
      case find_supply_terms master of
        (Some pwr, Some gnd) \<Rightarrow>
          (let master_height = m_height master;
               multi_row = (master_height \<noteq> row_height st \<and> master_height smod row_height st = 0);
               power_y_max = find_ymax pwr;
               gnd_y_max = find_ymax gnd;
               top = (if power_y_max > gnd_y_max then VDD else VSS);
               st = st\<lparr>db_master_map := (db_master_map st)(mi \<mapsto>
                         \<lparr>is_multi_row = multi_row, top_power = top\<rparr>)\<rparr>
           in if \<not> multi_row then st\<lparr>macro_top_power := top\<rparr> else st)
      | _ \<Rightarrow> st)"

definition master_map_touch :: "nat \<Rightarrow> Opendp \<Rightarrow> Opendp" where
  \<comment> \<open>\<open>db_master_map_[master]\<close>, which inserts a value-initialised entry if there is none\<close>
  "master_map_touch mi st =
     (case db_master_map st mi of
        Some _ \<Rightarrow> st
      | None \<Rightarrow> st\<lparr>db_master_map := (db_master_map st)(mi \<mapsto>
                  \<lparr>is_multi_row = False, top_power = P_undefined\<rparr>)\<rparr>)"

definition makeMacros :: "Opendp \<Rightarrow> Opendp" where
  "makeMacros st =
     fold (\<lambda>mi st. defineTopPower mi (master_map_touch mi st)) (b_inst_hdrs (block st))
       (st\<lparr>macro_top_power := P_undefined\<rparr>)"

definition bottom_row_step :: "dbRow \<Rightarrow> int \<times> dbRow option \<Rightarrow> int \<times> dbRow option" where
  "bottom_row_step row acc =
     (case acc of (bottom_row_y, bottom_row) \<Rightarrow>
        if row_y row < bottom_row_y then (row_y row, Some row) else (bottom_row_y, bottom_row))"

definition examineRows :: "Opendp \<Rightarrow> Opendp result" where
  "examineRows st =
     (let rows = b_rows (block st) in
      if rows \<noteq> [] then
        (let st = st\<lparr>row_height := site_h (last rows), site_width := site_w (last rows)\<rparr>;
             (_, bottom_row) = fold bottom_row_step rows (INT_MAX, None);
             st = st\<lparr>row_site_count := divFloor (s32 (rect_dx (core st))) (site_width st),
                     row_count := divFloor (s32 (rect_dy (core st))) (row_height st)\<rparr>
         in case bottom_row of
              None \<Rightarrow> Inl NullDeref
            | Some row \<Rightarrow> Inr (st\<lparr>row0_orient_is_r0 := (row_orient row = R0)\<rparr>))
      else Inl (LoggedError 12))"

definition getBbox :: "Opendp \<Rightarrow> nat \<Rightarrow> Rect" where
  "getBbox st i =
     (let inst = inst_of (block st) i; master = master_of (block st) i;
          (loc_x, loc_y) = getLocation inst;
          loc_x = loc_x - xMin (core st); loc_y = loc_y - yMin (core st);
          (width, height) =
            (if swapWidthHeight (i_orient inst) then (m_height master, m_width master)
             else (m_width master, m_height master))
      in rect_init loc_x loc_y (loc_x + width) (loc_y + height))"

definition make_cell :: "Opendp \<Rightarrow> nat \<Rightarrow> Cell" where
  \<comment> \<open>the cell that \<open>makeCells\<close> fills in for an instance\<close>
  "make_cell st i =
     (let bbox = getBbox st i;
          cl = cell_default\<lparr>db_inst := i, cell_width := rect_dx bbox, cell_height := rect_dy bbox,
                 cell_x := xMin bbox, cell_y := yMin bbox,
                 cell_orient := i_orient (inst_of (block st) i)\<rparr>
      in cl\<lparr>is_placed := isFixed st cl\<rparr>)"

definition makeCells :: "Opendp \<Rightarrow> Opendp" where
  "makeCells st =
     fold (\<lambda>i st.
       if isCoreAutoPlaceable (master_of (block st) i) then
         (let mi = i_master (inst_of (block st) i);
              st = st\<lparr>db_inst_map := (db_inst_map st)(i \<mapsto> length (cells st)),
                      cells := cells st @ [make_cell st i]\<rparr>;
              st = master_map_touch mi st
          in case db_master_map st mi of
               Some m \<Rightarrow> if is_multi_row m then st\<lparr>have_multi_row_cells := True\<rparr> else st
             | None \<Rightarrow> st)
       else st) [0..<length (b_insts (block st))] st"

text \<open>
  \<open>db_inst_map_[db_inst]\<close> yields a null pointer for an instance without a cell, which
  \<open>makeGroups\<close> dereferences.
\<close>

definition group_region_step :: "Opendp \<Rightarrow> Rect \<Rightarrow> Group \<Rightarrow> Group result" where
  "group_region_step st boundary gr =
     bindE (rect_intersect boundary (core st)) (\<lambda>box.
       let box = moveDelta (- xMin (core st)) (- yMin (core st)) box
       in Inr (gr\<lparr>g_regions := g_regions gr @ [box],
                     g_boundary := rect_merge (g_boundary gr) box\<rparr>))"

definition group_inst_step :: "nat \<Rightarrow> nat \<Rightarrow> Opendp \<Rightarrow> Opendp result" where
  "group_inst_step g i st =
     (case db_inst_map st i of
        None \<Rightarrow> Inl NullDeref
      | Some c \<Rightarrow>
          Inr (upd_cell c (\<lambda>cl. cl\<lparr>cell_group := Some g\<rparr>)
            (st\<lparr>groups := (groups st)[g := (groups st ! g)\<lparr>g_cells := g_cells (groups st ! g) @ [c]\<rparr>]\<rparr>)))"

definition make_group :: "dbRegion \<Rightarrow> Opendp \<Rightarrow> Opendp result" where
  "make_group region st =
     (case region_parent region of
        None \<Rightarrow> Inr st
      | Some parent \<Rightarrow>
          bindE (foldE (group_region_step st)
                   (region_boundaries (b_regions (block st) ! parent))
                   \<lparr>g_name = region_name region, g_regions = [], g_cells = [],
                    g_boundary = mergeInit, g_util = Fin 0\<rparr>)
            (\<lambda>gr.
              let g = length (groups st); st = st\<lparr>groups := groups st @ [gr]\<rparr>
              in foldE (group_inst_step g) (region_insts region) st))"

definition makeGroups :: "Opendp \<Rightarrow> Opendp result" where
  "makeGroups st = foldE make_group (b_regions (block st)) st"

definition min_vdd_y :: "dbBlock \<Rightarrow> int option" where
  \<comment> \<open>\<open>Some y\<close> when \<open>found_vdd\<close>\<close>
  "min_vdd_y b =
     fold (\<lambda>net acc.
       if n_special net \<and> n_sig net = SIG_POWER then
         fold (\<lambda>swire acc.
           fold (\<lambda>sbox acc.
             Some (min (case acc of None \<Rightarrow> INT_MAX | Some y \<Rightarrow> y) (yMin sbox))) swire acc)
           (n_swires net) acc
       else acc) (b_nets b) None"

definition findRowPower :: "Opendp \<Rightarrow> Opendp" where
  "findRowPower st =
     (let st = st\<lparr>initial_power := P_undefined\<rparr> in
      case min_vdd_y (block st) of
        Some y \<Rightarrow>
          st\<lparr>initial_power := (if divRound y (row_height st) smod 2 = 0 then VDD else VSS)\<rparr>
      | None \<Rightarrow> st)"

definition importDb :: "Opendp \<Rightarrow> Opendp result" where
  "importDb st =
     (let st = st\<lparr>core := getCoreArea (block st)\<rparr>; st = importClear st in
      bindE (examineRows st) (\<lambda>st.
      bindE (makeGroups (makeCells (makeMacros st))) (\<lambda>st.
        let st = findRowPower st;
            row_power = (if initial_power st = P_undefined then macro_top_power st
                         else initial_power st)
        in Inr (st\<lparr>row0_top_power_is_vdd := (row_power = VDD)\<rparr>))))"

end
