(* ===== verification/Dpl_Grid.thy ===== *)
theory Dpl_Grid
  imports Dpl_Import
begin

section \<open>The pixel grid\<close>

text \<open>
  \<open>dpl/src/Grid.cpp\<close>: the grid of sites, which pixels a cell covers, the preparation of the
  pixels for fixed cells and groups, and \<open>erasePixel\<close> and \<open>paintPixel\<close>, the only two
  operations that move a cell on or off the grid.
\<close>

subsection \<open>Pixels\<close>

definition grid_points :: "int \<Rightarrow> int \<Rightarrow> int \<Rightarrow> int \<Rightarrow> grid_pt list" where
  \<comment> \<open>the loop nest \<open>for x in [x0, x1) for y in [y0, y1)\<close>\<close>
  "grid_points x0 x1 y0 y1 = List.product (int_range x0 x1) (int_range y0 y1)"

definition on_pixel :: "grid_pt option \<Rightarrow> (grid_pt \<Rightarrow> Opendp \<Rightarrow> Opendp) \<Rightarrow> Opendp \<Rightarrow> Opendp result" where
  \<comment> \<open>an access through a \<open>Pixel*\<close>\<close>
  "on_pixel p f st = (case p of None \<Rightarrow> Inl NullDeref | Some q \<Rightarrow> Inr (f q st))"

definition mark_valid :: "int \<Rightarrow> int \<Rightarrow> Opendp \<Rightarrow> Opendp result" where
  \<comment> \<open>\<open>grid_[y_row][x].is_valid = true\<close>, an access without a bounds check\<close>
  "mark_valid y_row x st =
     (if x \<ge> 0 \<and> x < row_site_count st \<and> y_row \<ge> 0 \<and> y_row < row_count st
      then Inr (upd_pixel (x, y_row) (\<lambda>px. px\<lparr>is_valid := True\<rparr>) st)
      else Inl OutOfBounds)"

definition init_row :: "dbRow \<Rightarrow> Opendp \<Rightarrow> Opendp result" where
  "init_row row st =
     (let x_start = (row_x row - xMin (core st)) sdiv site_width st;
          x_end = x_start + row_site_cnt row;
          y_row = (row_y row - yMin (core st)) sdiv row_height st
      in bindE (foldE (mark_valid y_row) (int_range x_start x_end) st) (\<lambda>st.
          let safety = 20;
              xl = max 0 (x_start - max_displacement_x st + safety);
              xh = min (row_site_count st) (x_end + max_displacement_x st - safety);
              yl = max 0 (y_row - max_displacement_y st + safety);
              yh = min (row_count st) (y_row + max_displacement_y st - safety)
          in Inr (fold (\<lambda>(y, x). upd_pixel (x, y) (\<lambda>px. px\<lparr>is_hopeless := False\<rparr>))
                    (grid_points yl yh xl xh) st)))"

definition initGrid :: "Opendp \<Rightarrow> Opendp result" where
  "initGrid st =
     foldE init_row (b_rows (block st))
       (st\<lparr>grid := (\<lambda>(x, y). if x \<ge> 0 \<and> x < row_site_count st \<and> y \<ge> 0 \<and> y < row_count st
                            then pixel_default else grid st (x, y))\<rparr>)"

text \<open>The pixels of a cell, in the order in which \<open>visitCellPixels\<close> visits them.\<close>

definition visited_pixels :: "Opendp \<Rightarrow> Cell \<Rightarrow> bool \<Rightarrow> grid_pt list" where
  "visited_pixels st cl padded =
     (let inst = cell_inst st cl;
          obstructions = map snd (filter (\<lambda>(t, _). t = LT_OVERLAP)
            (m_obstructions (cell_master st cl)));
          obs_points = (\<lambda>obs.
            let rect = transform_apply_rect (getTransform inst) obs in
            grid_points (gridX st (xMin rect - xMin (core st)))
              (gridEndX st (xMax rect - xMin (core st)))
              (gridY st (yMin rect - yMin (core st)))
              (gridEndY st (yMax rect - yMin (core st))));
          points =
            (if obstructions \<noteq> [] then concat (map obs_points obstructions)
             else grid_points (if padded then gridPaddedX st cl else cellX st cl)
                    (if padded then gridPaddedEndX st cl else cellEndX st cl)
                    (cellY st cl) (cellEndY st cl))
      in filter (\<lambda>(x, y). gridPixel st x y \<noteq> None) points)"

definition visitCellPixels ::
    "Opendp \<Rightarrow> Cell \<Rightarrow> bool \<Rightarrow> (grid_pt \<Rightarrow> 's \<Rightarrow> 's) \<Rightarrow> 's \<Rightarrow> 's" where
  "visitCellPixels st cl padded visitor s = fold visitor (visited_pixels st cl padded) s"

definition setGridCell :: "nat \<Rightarrow> grid_pt \<Rightarrow> Opendp \<Rightarrow> Opendp" where
  "setGridCell c p = upd_pixel p (\<lambda>px. px\<lparr>pixel_cell := Some (CellAt c), pixel_util := 1\<rparr>)"

definition setFixedGridCells :: "Opendp \<Rightarrow> Opendp" where
  "setFixedGridCells st =
     fold (\<lambda>c st. if isFixed st (cell_of st c)
                  then visitCellPixels st (cell_of st c) True (setGridCell c) st else st)
       [0..<length (cells st)] st"

subsection \<open>Groups on the grid\<close>

definition rect_isInside :: "Rect \<Rightarrow> Rect \<Rightarrow> bool" where
  \<comment> \<open>the static \<open>isInside(const Rect&, const Rect&)\<close>\<close>
  "rect_isInside cell box \<longleftrightarrow>
     xMin cell \<ge> xMin box \<and> xMax cell \<le> xMax box \<and> yMin cell \<ge> yMin box \<and> yMax cell \<le> yMax box"

definition rect_checkOverlap :: "Rect \<Rightarrow> Rect \<Rightarrow> bool" where
  \<comment> \<open>the static \<open>checkOverlap(const Rect&, const Rect&)\<close>\<close>
  "rect_checkOverlap cell box \<longleftrightarrow>
     xMin box < xMax cell \<and> xMax box > xMin cell \<and> yMin box < yMax cell \<and> yMax box > yMin cell"

definition isInside :: "Opendp \<Rightarrow> Cell \<Rightarrow> Rect \<Rightarrow> bool" where
  "isInside st cl rect =
     (let init = initialLocation st cl False; x = getX init; y = getY init
      in x \<ge> xMin rect \<and> x + cell_width cl \<le> xMax rect
         \<and> y \<ge> yMin rect \<and> y + cell_height cl \<le> yMax rect)"

definition dbl_div :: "int \<Rightarrow> int \<Rightarrow> dbl" where
  \<comment> \<open>the quotient of two integers as \<open>double\<close>s, rounding left aside\<close>
  "dbl_div a b =
     (if b \<noteq> 0 then Fin (of_int a / of_int b)
      else if a > 0 then PInf else if a < 0 then NInf else NaN)"

definition assign_region :: "nat \<Rightarrow> nat \<Rightarrow> Opendp \<Rightarrow> Opendp result" where
  "assign_region g c st =
     (let regions = g_regions (groups st ! g);
          cl = fold (\<lambda>rect cl. if isInside st cl rect then cl\<lparr>cell_region := Some rect\<rparr> else cl)
                 regions (cell_of st c)
      in case cell_region cl of
           Some _ \<Rightarrow> Inr (upd_cell c (\<lambda>_. cl) st)
         | None \<Rightarrow>
             (case regions of
                [] \<Rightarrow> Inl OutOfBounds
              | r0 # _ \<Rightarrow> Inr (upd_cell c (\<lambda>_. cl\<lparr>cell_region := Some r0\<rparr>) st)))"

definition groupAssignCellRegions :: "Opendp \<Rightarrow> Opendp result" where
  "groupAssignCellRegions st =
     foldE (\<lambda>g st.
       let site_count = length (filter (\<lambda>p. is_valid (grid st p) \<and> pixel_group (grid st p) = Some g)
             (grid_points 0 (row_site_count st) 0 (row_count st)));
           site_area = int site_count * site_width st * row_height st;
           area = sum_list (map (\<lambda>c. cell_area st (cell_of st c)) (g_cells (groups st ! g)))
       in bindE (foldE (assign_region g) (g_cells (groups st ! g)) st) (\<lambda>st.
            Inr (st\<lparr>groups := (groups st)[g := (groups st ! g)\<lparr>g_util := dbl_div area site_area\<rparr>]\<rparr>)))
       [0..<length (groups st)] st"

definition block_pixel :: "Pixel \<Rightarrow> Pixel" where
  \<comment> \<open>a site that straddles a region boundary is given to the dummy cell\<close>
  "block_pixel px = px\<lparr>pixel_util := 0, pixel_cell := Some DummyCell, is_valid := False\<rparr>"

definition groupInitPixels2 :: "Opendp \<Rightarrow> Opendp" where
  "groupInitPixels2 st =
     fold (\<lambda>(x, y) st.
       let sub = rect_init (x * site_width st) (y * row_height st)
                   ((x + 1) * site_width st) ((y + 1) * row_height st)
       in fold (\<lambda>gr st.
            fold (\<lambda>rect st.
              if \<not> rect_isInside sub rect \<and> rect_checkOverlap sub rect
              then upd_pixel (x, y) block_pixel st else st) (g_regions gr) st)
            (groups st) st)
       (grid_points 0 (row_site_count st) 0 (row_count st)) st"

definition add_util :: "rat \<Rightarrow> grid_pt \<Rightarrow> Opendp \<Rightarrow> Opendp" where
  "add_util u p = upd_pixel p (\<lambda>px. px\<lparr>pixel_util := pixel_util px + u\<rparr>)"

definition group_util_row :: "Rect \<Rightarrow> int \<Rightarrow> Opendp \<Rightarrow> Opendp result" where
  "group_util_row rect k st =
     (let sw = site_width st;
          col_start = divCeil (xMin rect) sw; col_end = divFloor (xMax rect) sw
      in bindE (foldE (\<lambda>l st. on_pixel (gridPixel st l k) (add_util 1) st)
                 (int_range col_start col_end) st) (\<lambda>st.
         bindE (if xMin rect smod sw \<noteq> 0
                then on_pixel (gridPixel st col_start k)
                       (add_util (- (of_int (xMin rect smod sw) / of_int sw))) st
                else Inr st) (\<lambda>st.
           if xMax rect smod sw \<noteq> 0
           then on_pixel (gridPixel st (col_end - 1) k)
                  (add_util (- (of_int ((sw - xMax rect) smod sw) / of_int sw))) st
           else Inr st)))"

definition group_pixel :: "nat \<Rightarrow> grid_pt \<Rightarrow> Opendp \<Rightarrow> Opendp" where
  "group_pixel g p st =
     (if pixel_util (grid st p) = 1
      then upd_pixel p (\<lambda>px. px\<lparr>pixel_group := Some g, is_valid := True, pixel_util := 1\<rparr>) st
      else if pixel_util (grid st p) > 0 \<and> pixel_util (grid st p) < 1
      then upd_pixel p block_pixel st
      else st)"

definition group_rows :: "Rect \<Rightarrow> Opendp \<Rightarrow> int list" where
  "group_rows rect st =
     int_range (divCeil (yMin rect) (row_height st)) (divFloor (yMax rect) (row_height st))"

definition groupInitPixels :: "Opendp \<Rightarrow> Opendp result" where
  "groupInitPixels st =
     (let st = fold (\<lambda>p. upd_pixel p (\<lambda>px. px\<lparr>pixel_util := 0\<rparr>))
                 (grid_points 0 (row_site_count st) 0 (row_count st)) st
      in foldE (\<lambda>g st.
           bindE (foldE (\<lambda>rect st. foldE (group_util_row rect) (group_rows rect st) st)
                    (g_regions (groups st ! g)) st) (\<lambda>st.
           foldE (\<lambda>rect st.
             foldE (\<lambda>k st.
               foldE (\<lambda>l st. on_pixel (gridPixel st l k) (group_pixel g) st)
                 (int_range (divCeil (xMin rect) (site_width st))
                    (divFloor (xMax rect) (site_width st))) st)
               (group_rows rect st) st)
             (g_regions (groups st ! g)) st))
           [0..<length (groups st)] st)"

subsection \<open>Erasing and painting a cell\<close>

definition erase_point :: "grid_pt \<Rightarrow> Opendp \<Rightarrow> Opendp result" where
  "erase_point p st =
     on_pixel (gridPixel st (fst p) (snd p))
       (\<lambda>q. upd_pixel q (\<lambda>px. px\<lparr>pixel_cell := None, pixel_util := 0\<rparr>)) st"

definition erasePixel :: "nat \<Rightarrow> Opendp \<Rightarrow> Opendp result" where
  "erasePixel c st =
     (let cl = cell_of st c in
      if \<not> (isFixed st cl \<or> \<not> is_placed cl) then
        bindE (foldE erase_point
                 (grid_points (gridPaddedX st cl) (gridPaddedEndX st cl) (cellY st cl) (cellEndY st cl))
                 st)
          (\<lambda>st. Inr (upd_cell c (\<lambda>cl. cl\<lparr>is_placed := False, hold := False\<rparr>) st))
      else Inr st)"

definition paint_point :: "nat \<Rightarrow> grid_pt \<Rightarrow> Opendp \<Rightarrow> Opendp result" where
  "paint_point c p st =
     (case gridPixel st (fst p) (snd p) of
        None \<Rightarrow> Inl NullDeref
      | Some q \<Rightarrow>
          if pixel_cell (grid st q) \<noteq> None then Inl (LoggedError 13)
          else Inr (upd_pixel q (\<lambda>px. px\<lparr>pixel_cell := Some (CellAt c), pixel_util := 1\<rparr>) st))"

definition paint_orient :: "nat \<Rightarrow> int \<Rightarrow> Opendp \<Rightarrow> Opendp" where
  \<comment> \<open>the choice of the orientation at the end of \<open>paintPixel\<close>\<close>
  "paint_orient c grid_y st =
     (let cl = cell_of st c; grid_height = gridHeight st cl in
      if have_multi_row_cells st then
        (if grid_height smod 2 = 1 then
           (if rowTopPower st grid_y \<noteq> topPower st cl
            then upd_cell c (\<lambda>cl. cl\<lparr>cell_orient := MX\<rparr>) st
            else upd_cell c (\<lambda>cl. cl\<lparr>cell_orient := R0\<rparr>) st)
         else st)
      else upd_cell c (\<lambda>cl. cl\<lparr>cell_orient := rowOrient st grid_y\<rparr>) st)"

definition paintPixel :: "nat \<Rightarrow> int \<Rightarrow> int \<Rightarrow> Opendp \<Rightarrow> Opendp result" where
  "paintPixel c grid_x grid_y st =
     (let cl = cell_of st c in
      if is_placed cl then Inl Abort
      else
        let x_end = grid_x + gridPaddedWidth st cl;
            y_end = grid_y + gridHeight st cl;
            st = upd_cell c (\<lambda>cl. (setGridPaddedLoc st grid_x grid_y cl)\<lparr>is_placed := True\<rparr>) st
        in bindE (foldE (paint_point c) (grid_points grid_x x_end grid_y y_end) st)
             (\<lambda>st. Inr (paint_orient c grid_y st)))"

end
