(* ===== verification/Dpl_Search.thy ===== *)
theory Dpl_Search
  imports Dpl_Grid
begin

section \<open>Legal points and the diamond search\<close>

text \<open>
  The functions of \<open>dpl/src/Place.cpp\<close> that only read the state: where a cell may start
  (\<open>legalPt\<close> and its helpers) and the search for free sites around a point
  (\<open>diamondSearch\<close>, \<open>binSearch\<close>, \<open>checkPixels\<close>).
\<close>

subsection \<open>A cell and a rectangle\<close>

definition cell_checkOverlap :: "Opendp \<Rightarrow> Cell \<Rightarrow> Rect \<Rightarrow> bool" where
  \<comment> \<open>\<open>checkOverlap(const Cell*, const Rect*)\<close>\<close>
  "cell_checkOverlap st cl rect =
     (let init = initialLocation st cl False; x = getX init; y = getY init
      in x + cell_width cl > xMin rect \<and> x < xMax rect
         \<and> y + cell_height cl > yMin rect \<and> y < yMax rect)"

definition nearestPt :: "Opendp \<Rightarrow> Cell \<Rightarrow> Rect \<Rightarrow> Point" where
  "nearestPt st cl rect =
     (let init = initialLocation st cl False; x = getX init; y = getY init;
          w = cell_width cl; h = cell_height cl
      in if cell_checkOverlap st cl rect then
           let (dist_x, temp_x) =
                 (if \<bar>x + w - xMin rect\<bar> > \<bar>xMax rect - x\<bar>
                  then (\<bar>xMax rect - x\<bar>, xMax rect)
                  else (\<bar>x - xMin rect\<bar>, xMin rect - w));
               (dist_y, temp_y) =
                 (if \<bar>y + h - yMin rect\<bar> > \<bar>yMax rect - y\<bar>
                  then (\<bar>yMax rect - y\<bar>, yMax rect)
                  else (\<bar>y - yMin rect\<bar>, yMin rect - h))
           in if dist_x < dist_y then Point temp_x y else Point x temp_y
         else
           let temp_x = (if x < xMin rect then xMin rect
                         else if x + w > xMax rect then xMax rect - w else x);
               temp_y = (if y < yMin rect then yMin rect
                         else if y + h > yMax rect then yMax rect - h else y)
           in Point temp_x temp_y)"

definition distToRect :: "Opendp \<Rightarrow> Cell \<Rightarrow> Rect \<Rightarrow> int" where
  "distToRect st cl rect =
     (let init = initialLocation st cl True; x = getX init; y = getY init;
          dist_x = (if x < xMin rect then xMin rect - x
                    else if x + cell_width cl > xMax rect then x + cell_width cl - xMax rect
                    else 0);
          dist_y = (if y < yMin rect then yMin rect - y
                    else if y + cell_height cl > yMax rect then y + cell_height cl - yMax rect
                    else 0)
      in dist_y + dist_x)"

definition rectDist_pt :: "Opendp \<Rightarrow> Cell \<Rightarrow> Rect \<Rightarrow> int \<times> int" where
  \<comment> \<open>\<open>rectDist\<close> with the return values \<open>x\<close> and \<open>y\<close>: the nearest corner\<close>
  "rectDist_pt st cl rect =
     (let init = initialLocation st cl False in
      (if getX init > (xMin rect + xMax rect) sdiv 2 then xMax rect else xMin rect,
       if getY init > (yMin rect + yMax rect) sdiv 2 then yMax rect else yMin rect))"

definition rectDist :: "Opendp \<Rightarrow> Cell \<Rightarrow> Rect \<Rightarrow> int" where
  "rectDist st cl rect =
     (let (x, y) = rectDist_pt st cl rect; init = initialLocation st cl False
      in \<bar>getX init - x\<bar> + \<bar>getY init - y\<bar>)"

definition distChange :: "Opendp \<Rightarrow> Cell \<Rightarrow> int \<Rightarrow> int \<Rightarrow> int" where
  "distChange st cl x y =
     (let init = initialLocation st cl False;
          cell_dist = \<bar>cell_x cl - getX init\<bar> + \<bar>cell_y cl - getY init\<bar>;
          pt_dist = \<bar>getX init - x\<bar> + \<bar>getY init - y\<bar>
      in pt_dist - cell_dist)"

definition cellFitsInCore :: "Opendp \<Rightarrow> Cell \<Rightarrow> bool" where
  "cellFitsInCore st cl \<longleftrightarrow>
     gridPaddedWidth st cl \<le> row_site_count st \<and> gridHeight st cl \<le> row_count st"

subsection \<open>Legal points\<close>

definition legalPt :: "Opendp \<Rightarrow> Cell \<Rightarrow> Point \<Rightarrow> Point" where
  "legalPt st cl pt =
     (let core_x = min (max 0 (getX pt)) (row_site_count st * site_width st - cell_width cl);
          core_y = min (max 0 (getY pt)) (row_count st * row_height st - cell_height cl);
          grid_x = divRound core_x (site_width st);
          grid_y = divRound core_y (row_height st)
      in Point (grid_x * site_width st) (grid_y * row_height st))"

definition legalGridPt :: "Opendp \<Rightarrow> Cell \<Rightarrow> Point \<Rightarrow> Point" where
  "legalGridPt st cl pt =
     (let legal = legalPt st cl pt in Point (gridX st (getX legal)) (gridY st (getY legal)))"

definition nearestBlockEdge :: "Opendp \<Rightarrow> Cell \<Rightarrow> Point \<Rightarrow> Rect \<Rightarrow> Point" where
  "nearestBlockEdge st cl legal_pt block_bbox =
     (let legal_x = getX legal_pt; legal_y = getY legal_pt;
          x_min_dist = \<bar>legal_x - xMin block_bbox\<bar>;
          x_max_dist = \<bar>xMax block_bbox - (legal_x + cell_width cl)\<bar>;
          y_min_dist = \<bar>legal_y - yMin block_bbox\<bar>;
          y_max_dist = \<bar>yMax block_bbox - (legal_y + cell_height cl)\<bar>
      in if x_min_dist < x_max_dist \<and> x_min_dist < y_min_dist \<and> x_min_dist < y_max_dist
         then legalPt st cl (Point (xMin block_bbox - cell_width cl) legal_y)
         else if x_max_dist \<le> x_min_dist \<and> x_max_dist \<le> y_min_dist \<and> x_max_dist \<le> y_max_dist
         then legalPt st cl (Point (xMax block_bbox) legal_y)
         else if y_min_dist \<le> x_min_dist \<and> y_min_dist \<le> x_max_dist \<and> y_min_dist \<le> y_max_dist
         then legalPt st cl (Point legal_x
                (divFloor (yMin block_bbox) (row_height st) * row_height st - cell_height cl))
         else legalPt st cl (Point legal_x
                (divCeil (yMax block_bbox) (row_height st) * row_height st)))"

text \<open>
  The four loops of \<open>moveHopeless\<close> stop at the first valid pixel to the left, right,
  below and above; the first one sets the best distance, the others improve on it.
\<close>

definition hopeless_closer :: "grid_pt option \<Rightarrow> int \<Rightarrow> grid_pt \<times> int \<Rightarrow> grid_pt \<times> int" where
  "hopeless_closer found d best =
     (case found of
        None \<Rightarrow> best
      | Some p \<Rightarrow> if d < snd best then (p, d) else best)"

definition moveHopeless :: "Opendp \<Rightarrow> int \<Rightarrow> int \<Rightarrow> grid_pt" where
  "moveHopeless st grid_x grid_y =
     (let valid = (\<lambda>p. is_valid (grid st p));
          left = find valid (map (\<lambda>x. (x, grid_y)) (rev (int_range 0 grid_x)));
          right = find valid (map (\<lambda>x. (x, grid_y)) (int_range (grid_x + 1) (row_site_count st)));
          below = find valid (map (\<lambda>y. (grid_x, y)) (rev (int_range 0 grid_y)));
          above = find valid (map (\<lambda>y. (grid_x, y)) (int_range (grid_y + 1) (row_count st)));
          best = ((grid_x, grid_y), INT_MAX);
          best = (case left of None \<Rightarrow> best | Some p \<Rightarrow> (p, (grid_x - fst p) * site_width st));
          best = hopeless_closer right ((fst (the right) - grid_x) * site_width st) best;
          best = hopeless_closer below ((grid_y - snd (the below)) * row_height st) best;
          best = hopeless_closer above ((snd (the above) - grid_y) * row_height st) best
      in if snd best \<noteq> INT_MAX then fst best else (grid_x, grid_y))"

text \<open>
  \<open>isBlock\<close> reads the instance of the cell it is given, and the dummy cell has none: the
  model has the null dereference as a fault.
\<close>

definition move_off_block :: "Opendp \<Rightarrow> Cell \<Rightarrow> cell_ptr option \<Rightarrow> Point \<Rightarrow> Point result" where
  \<comment> \<open>"Move std cells off of macros"\<close>
  "move_off_block st cl block_cell legal_pt =
     (case block_cell of
        None \<Rightarrow> Inr legal_pt
      | Some DummyCell \<Rightarrow> Inl NullDeref
      | Some (CellAt b) \<Rightarrow>
          (let blk = cell_of st b;
               block_bbox = rect_init (cell_x blk) (cell_y blk)
                 (cell_x blk + cell_width blk) (cell_y blk + cell_height blk);
               legal_x = getX legal_pt; legal_y = getY legal_pt
           in if isBlock st blk
                 \<and> legal_x + cell_width cl \<ge> xMin block_bbox \<and> legal_x \<le> xMax block_bbox
                 \<and> legal_y + cell_height cl \<ge> yMin block_bbox \<and> legal_y \<le> yMax block_bbox
              then Inr (nearestBlockEdge st cl legal_pt block_bbox)
              else Inr legal_pt))"

definition legalPt_cell :: "Opendp \<Rightarrow> Cell \<Rightarrow> bool \<Rightarrow> Point result" where
  \<comment> \<open>\<open>legalPt(const Cell*, bool padded)\<close>\<close>
  "legalPt_cell st cl padded =
     (if isFixed st cl then Inl (Critical 26)
      else
        let init = initialLocation st cl padded;
            legal_pt = legalPt st cl init;
            pixel = gridPixel st (gridX st (getX legal_pt)) (gridY st (getY legal_pt))
        in case pixel of
             None \<Rightarrow> Inr legal_pt
           | Some p \<Rightarrow>
               bindE (move_off_block st cl (pixel_cell (grid st p)) legal_pt) (\<lambda>legal_pt.
                 let grid_x = gridX st (getX legal_pt); grid_y = gridY st (getY legal_pt)
                 in case gridPixel st grid_x grid_y of
                      None \<Rightarrow> Inl NullDeref
                    | Some q \<Rightarrow>
                        if is_hopeless (grid st q) then
                          (let (grid_x, grid_y) = moveHopeless st grid_x grid_y
                           in Inr (Point (grid_x * site_width st) (grid_y * row_height st)))
                        else Inr legal_pt))"

definition legalGridPt_cell :: "Opendp \<Rightarrow> Cell \<Rightarrow> bool \<Rightarrow> Point result" where
  \<comment> \<open>\<open>legalGridPt(const Cell*, bool padded)\<close>\<close>
  "legalGridPt_cell st cl padded =
     bindE (legalPt_cell st cl padded) (\<lambda>pt. Inr (Point (gridX st (getX pt)) (gridY st (getY pt))))"

subsection \<open>The search\<close>

datatype PixelPt = PixelPt (pp_pixel: "grid_pt option") (pp_pt: Point)

definition pixelPt_none :: PixelPt where
  "pixelPt_none = PixelPt None point_default"

definition pixel_free :: "Opendp \<Rightarrow> Cell \<Rightarrow> grid_pt \<Rightarrow> bool" where
  \<comment> \<open>the body of the loops of \<open>checkPixels\<close>\<close>
  "pixel_free st cl p =
     (case gridPixel st (fst p) (snd p) of
        None \<Rightarrow> False
      | Some q \<Rightarrow>
          (let px = grid st q in
           \<not> (pixel_cell px \<noteq> None \<or> \<not> is_valid px
              \<or> (inGroup cl \<and> pixel_group px \<noteq> cell_group cl)
              \<or> (\<not> inGroup cl \<and> pixel_group px \<noteq> None))))"

definition checkPixels :: "Opendp \<Rightarrow> Cell \<Rightarrow> int \<Rightarrow> int \<Rightarrow> int \<Rightarrow> int \<Rightarrow> bool" where
  "checkPixels st cl x y x_end y_end =
     (if x_end > row_site_count st then False
      else list_all (\<lambda>(y1, x1). pixel_free st cl (x1, y1)) (grid_points y y_end x x_end))"

definition bin_offsets :: "int \<Rightarrow> int \<Rightarrow> int list" where
  \<comment> \<open>the order in which \<open>binSearch\<close> tries the sites of a bin\<close>
  "bin_offsets x bin_x =
     (if x > bin_x then rev (int_range 0 bin_search_width) else int_range 0 bin_search_width)"

definition binSearch :: "Opendp \<Rightarrow> int \<Rightarrow> Cell \<Rightarrow> int \<Rightarrow> int \<Rightarrow> PixelPt" where
  "binSearch st x cl bin_x bin_y =
     (let x_end = bin_x + gridPaddedWidth st cl;
          height = gridHeight st cl;
          y_end = bin_y + height
      in if y_end > row_count st
            \<or> (height smod 2 = 0 \<and> rowTopPower st bin_y = topPower st cl)
         then pixelPt_none
         else case find (\<lambda>i. checkPixels st cl (bin_x + i) bin_y (x_end + i) y_end)
                     (bin_offsets x bin_x) of
                Some i \<Rightarrow> PixelPt (gridPixel st (bin_x + i) bin_y) (Point (bin_x + i) bin_y)
              | None \<Rightarrow> pixelPt_none)"

text \<open>The limits of a search: \<open>x_min\<close>, \<open>y_min\<close>, \<open>x_max\<close>, \<open>y_max\<close>.\<close>

definition diamond_limits :: "Opendp \<Rightarrow> Cell \<Rightarrow> int \<Rightarrow> int \<Rightarrow> int \<times> int \<times> int \<times> int" where
  "diamond_limits st cl x y =
     (let x_min = x - max_displacement_x st; y_min = y - max_displacement_y st;
          x_max = x + max_displacement_x st; y_max = y + max_displacement_y st;
          (x_min, y_min, x_max, y_max) =
            (case cell_group cl of
               None \<Rightarrow> (x_min, y_min, x_max, y_max)
             | Some g \<Rightarrow>
                 (let b = g_boundary (groups st ! g);
                      grid_boundary = rect_init (divCeil (xMin b) (site_width st))
                        (divCeil (yMin b) (row_height st)) (xMax b sdiv site_width st)
                        (yMax b sdiv row_height st);
                      mn = closestPtInside grid_boundary (Point x_min y_min);
                      mx = closestPtInside grid_boundary (Point x_max y_max)
                  in (getX mn, getY mn, getX mx, getY mx)))
      in (max 0 x_min, max 0 y_min, min (row_site_count st) x_max, min (row_count st) y_max))"

definition diamondSearchSide ::
    "Opendp \<Rightarrow> Cell \<Rightarrow> int \<Rightarrow> int \<Rightarrow> int \<times> int \<times> int \<times> int \<Rightarrow> int \<Rightarrow> int
     \<Rightarrow> PixelPt \<times> int \<Rightarrow> PixelPt \<times> int" where
  "diamondSearchSide st cl x y limits x_offset y_offset best =
     (case limits of (x_min, y_min, x_max, y_max) \<Rightarrow>
      case best of (best_pt, best_dist) \<Rightarrow>
      let bin_x = min x_max (max x_min (x + x_offset * bin_search_width));
          bin_y = min y_max (max y_min (y + y_offset));
          avail_pt = binSearch st x cl bin_x bin_y
      in if pp_pixel avail_pt \<noteq> None then
           let avail_dist = \<bar>x - getX (pp_pt avail_pt)\<bar> * site_width st
                 + \<bar>y - getY (pp_pt avail_pt)\<bar> * row_height st
           in if pp_pixel best_pt = None \<or> avail_dist < best_dist
              then (avail_pt, avail_dist) else (best_pt, best_dist)
         else (best_pt, best_dist))"

definition left_offsets :: "int \<Rightarrow> (int \<times> int) list" where
  \<comment> \<open>the offsets of the left side of ring \<open>i\<close>, before the test against the limits\<close>
  "left_offsets i = map (\<lambda>j. (- ((j + 1) sdiv 2),
       if j smod 2 = 1 then - ((i * 2 - j) sdiv 2) else (i * 2 - j) sdiv 2)) (int_range 1 (i * 2))"

definition right_offsets :: "int \<Rightarrow> (int \<times> int) list" where
  "right_offsets i = map (\<lambda>j. ((j - 1) sdiv 2,
       if j smod 2 = 1 then - (((i + 1) * 2 - j) sdiv 2) else ((i + 1) * 2 - j) sdiv 2))
       (int_range 1 ((i + 1) * 2))"

definition diamond_ring ::
    "Opendp \<Rightarrow> Cell \<Rightarrow> int \<Rightarrow> int \<Rightarrow> int \<times> int \<times> int \<times> int \<Rightarrow> int \<Rightarrow> PixelPt" where
  \<comment> \<open>the best site of ring \<open>i\<close>\<close>
  "diamond_ring st cl x y limits i =
     fst (fold (\<lambda>(x_offset, y_offset) best.
            if \<bar>x_offset\<bar> < max_displacement_x st \<and> \<bar>y_offset\<bar> < max_displacement_y st
            then diamondSearchSide st cl x y limits x_offset y_offset best else best)
          (left_offsets i @ right_offsets i) (pixelPt_none, 0))"

fun diamond_rings ::
    "Opendp \<Rightarrow> Cell \<Rightarrow> int \<Rightarrow> int \<Rightarrow> int \<times> int \<times> int \<times> int \<Rightarrow> int list \<Rightarrow> PixelPt" where
  "diamond_rings st cl x y limits [] = pixelPt_none"
| "diamond_rings st cl x y limits (i # is) =
     (let best_pt = diamond_ring st cl x y limits i
      in if pp_pixel best_pt \<noteq> None then best_pt else diamond_rings st cl x y limits is)"

definition diamondSearch :: "Opendp \<Rightarrow> Cell \<Rightarrow> int \<Rightarrow> int \<Rightarrow> PixelPt" where
  "diamondSearch st cl x y =
     (let avail_pt = binSearch st x cl x y
      in if pp_pixel avail_pt \<noteq> None then avail_pt
         else diamond_rings st cl x y (diamond_limits st cl x y)
                (int_range 1 (max (max_displacement_y st) (max_displacement_x st))))"

end
