(* ===== verification/Dpl_Moves.thy ===== *)
theory Dpl_Moves
  imports Dpl_Search
begin

section \<open>Moves of single cells\<close>

text \<open>
  The operations of \<open>dpl/src/Place.cpp\<close> that change the placement of a cell: \<open>mapMove\<close>
  (search and paint), \<open>shiftMove\<close> (erase the surroundings, place, place the erased cells
  again), \<open>swapCells\<close> and \<open>refineMove\<close>. A Boolean result of the source is paired with the
  new state.
\<close>

definition mapMove_at :: "nat \<Rightarrow> Point \<Rightarrow> Opendp \<Rightarrow> (bool \<times> Opendp) result" where
  \<comment> \<open>\<open>mapMove(Cell*, Point)\<close>\<close>
  "mapMove_at c grid_pt st =
     (let pixel_pt = diamondSearch st (cell_of st c) (getX grid_pt) (getY grid_pt)
      in if pp_pixel pixel_pt \<noteq> None
         then bindE (paintPixel c (getX (pp_pt pixel_pt)) (getY (pp_pt pixel_pt)) st)
                (\<lambda>st. Inr (True, st))
         else Inr (False, st))"

definition mapMove :: "nat \<Rightarrow> Opendp \<Rightarrow> (bool \<times> Opendp) result" where
  \<comment> \<open>\<open>mapMove(Cell*)\<close>\<close>
  "mapMove c st =
     bindE (legalGridPt_cell st (cell_of st c) True) (\<lambda>init. mapMove_at c init st)"

definition mapMove_or :: "fault \<Rightarrow> nat \<Rightarrow> Opendp \<Rightarrow> Opendp result" where
  \<comment> \<open>\<open>if (!mapMove(cell)) error\<close>\<close>
  "mapMove_or e c st =
     bindE (mapMove c st) (\<lambda>(ok, st). if ok then Inr st else Inl e)"

text \<open>
  The cells around a cell are collected in a \<open>std::set<Cell*>\<close>, which iterates in the order
  of the addresses: the order of the cells in their vector.
\<close>

definition region_cells :: "Opendp \<Rightarrow> Cell \<Rightarrow> Point \<Rightarrow> nat list" where
  "region_cells st cl grid_pt =
     (let grid_x = getX grid_pt; grid_y = getY grid_pt;
          boundary_margin = 3;
          margin_width = gridPaddedWidth st cl * boundary_margin
      in sort (remdups (concat (map (\<lambda>(x, y).
           case gridPixel st x y of
             None \<Rightarrow> []
           | Some p \<Rightarrow>
               (case pixel_cell (grid st p) of
                  Some (CellAt a) \<Rightarrow> if \<not> isFixed_ptr st (CellAt a) then [a] else []
                | _ \<Rightarrow> []))
           (grid_points (grid_x - margin_width) (grid_x + margin_width)
              (grid_y - boundary_margin) (grid_y + boundary_margin))))))"

definition shiftMove :: "nat \<Rightarrow> Opendp \<Rightarrow> Opendp result" where
  "shiftMove c st =
     (let cl = cell_of st c in
      bindE (legalGridPt_cell st cl True) (\<lambda>grid_pt.
        let around = filter (\<lambda>a. inGroup cl = inGroup (cell_of st a)) (region_cells st cl grid_pt)
        in bindE (foldE erasePixel around st) (\<lambda>st.
           bindE (mapMove_or (LoggedError 18) c st) (\<lambda>st.
           foldE (mapMove_or (LoggedError 19)) around st))))"

definition swapCells :: "nat \<Rightarrow> nat \<Rightarrow> Opendp \<Rightarrow> (bool \<times> Opendp) result" where
  "swapCells c1 c2 st =
     (let cl1 = cell_of st c1; cl2 = cell_of st c2 in
      if c1 \<noteq> c2 \<and> \<not> hold cl1 \<and> \<not> hold cl2
         \<and> cell_width cl1 = cell_width cl2 \<and> cell_height cl1 = cell_height cl2
         \<and> \<not> isFixed st cl1 \<and> \<not> isFixed st cl2 then
        let dist_change = distChange st cl1 (cell_x cl2) (cell_y cl2)
              + distChange st cl2 (cell_x cl1) (cell_y cl1)
        in if dist_change < 0 then
             let grid_x1 = gridPaddedX st cl2; grid_y1 = cellY st cl2;
                 grid_x2 = gridPaddedX st cl1; grid_y2 = cellY st cl1
             in bindE (erasePixel c1 st) (\<lambda>st.
                bindE (erasePixel c2 st) (\<lambda>st.
                bindE (paintPixel c1 grid_x1 grid_y1 st) (\<lambda>st.
                bindE (paintPixel c2 grid_x2 grid_y2 st) (\<lambda>st. Inr (True, st)))))
           else Inr (False, st)
      else Inr (False, st))"

definition refineMove :: "nat \<Rightarrow> Opendp \<Rightarrow> (bool \<times> Opendp) result" where
  "refineMove c st =
     (let cl = cell_of st c in
      bindE (legalGridPt_cell st cl True) (\<lambda>grid_pt.
        let grid_x = getX grid_pt; grid_y = getY grid_pt;
            pixel_pt = diamondSearch st cl grid_x grid_y;
            px = getX (pp_pt pixel_pt); py = getY (pp_pt pixel_pt)
        in if pp_pixel pixel_pt \<noteq> None then
             if \<bar>grid_x - px\<bar> > max_displacement_x st \<or> \<bar>grid_y - py\<bar> > max_displacement_y st
             then Inr (False, st)
             else
               let dist_change = distChange st cl (px * site_width st) (py * row_height st)
               in if dist_change < 0 then
                    bindE (erasePixel c st) (\<lambda>st.
                    bindE (paintPixel c px py st) (\<lambda>st. Inr (True, st)))
                  else Inr (False, st)
           else Inr (False, st)))"

end
