(* ===== verification/Cxx_Library.thy ===== *)
theory Cxx_Library
  imports Prelude "HOL-Library.Multiset"
begin

section \<open>The C++ library\<close>

text \<open>
  What the tools use of the standard library: the contract of \<open>std::sort\<close>, \<open>std::to_string\<close> and \<open>std::map\<close>.
\<close>

subsection \<open>The interface of \<open>std::sort\<close>\<close>

text \<open>
  The placer sorts cells with \<open>std::sort\<close>, whose order among equivalent elements is not
  specified. The definitions that sort therefore take the sorting function as an argument;
  the locale \<open>std_sort\<close> states what the standard promises for a strict weak order: a
  permutation in which no element is less than an earlier one. \<open>insertion_sort\<close> is one
  function that keeps the promise, used to run the model on concrete designs.
\<close>

type_synonym 'a sorter = "('a \<Rightarrow> 'a \<Rightarrow> bool) \<Rightarrow> 'a list \<Rightarrow> 'a list"

definition strict_weak :: "('a \<Rightarrow> 'a \<Rightarrow> bool) \<Rightarrow> bool" where
  "strict_weak lt \<longleftrightarrow>
     (\<forall>a. \<not> lt a a) \<and> (\<forall>a b c. lt a b \<longrightarrow> lt b c \<longrightarrow> lt a c)
     \<and> (\<forall>a b c. \<not> lt a b \<longrightarrow> \<not> lt b c \<longrightarrow> \<not> lt a c)"

locale std_sort =
  fixes srt :: "'a sorter"
  assumes mset_srt: "mset (srt lt xs) = mset xs"
    and sorted_srt: "strict_weak lt \<Longrightarrow> sorted_wrt (\<lambda>a b. \<not> lt b a) (srt lt xs)"
begin

lemma set_srt: "set (srt lt xs) = set xs"
  using mset_srt by (rule mset_eq_setD)

lemma distinct_srt: "distinct (srt lt xs) = distinct xs"
  using mset_srt [of lt xs] by (rule mset_eq_imp_distinct_iff)

lemma length_srt: "length (srt lt xs) = length xs"
  using mset_srt [of lt xs] by (rule mset_eq_length)

end

fun insert_by :: "('a \<Rightarrow> 'a \<Rightarrow> bool) \<Rightarrow> 'a \<Rightarrow> 'a list \<Rightarrow> 'a list" where
  "insert_by lt x [] = [x]"
| "insert_by lt x (y # ys) = (if lt y x then y # insert_by lt x ys else x # y # ys)"

fun insertion_sort :: "('a \<Rightarrow> 'a \<Rightarrow> bool) \<Rightarrow> 'a list \<Rightarrow> 'a list" where
  "insertion_sort lt [] = []"
| "insertion_sort lt (x # xs) = insert_by lt x (insertion_sort lt xs)"

lemma mset_insert_by: "mset (insert_by lt x ys) = add_mset x (mset ys)"
  by (induction ys) auto

lemma set_insert_by: "set (insert_by lt x ys) = insert x (set ys)"
  by (induction ys) auto

lemma sorted_insert_by:
  assumes "strict_weak lt" "sorted_wrt (\<lambda>a b. \<not> lt b a) ys"
  shows "sorted_wrt (\<lambda>a b. \<not> lt b a) (insert_by lt x ys)"
  using assms(2)
proof (induction ys)
  case (Cons y ys)
  show ?case
  proof (cases "lt y x")
    case True
    then have "\<not> lt x y" using assms(1) unfolding strict_weak_def by blast
    with True Cons show ?thesis by (auto simp: set_insert_by)
  next
    case False
    moreover have "\<not> lt z x" if "z \<in> set ys" for z
      using that Cons.prems False assms(1) unfolding strict_weak_def by (metis list.set_intros(2) sorted_wrt.simps(2))
    ultimately show ?thesis using Cons.prems by auto
  qed
qed simp

interpretation insertion: std_sort insertion_sort
proof
  show "mset (insertion_sort lt xs) = mset xs" for lt :: "'a \<Rightarrow> 'a \<Rightarrow> bool" and xs
    by (induction xs) (auto simp: mset_insert_by)
  show "sorted_wrt (\<lambda>a b. \<not> lt b a) (insertion_sort lt xs)" if "strict_weak lt"
    for lt :: "'a \<Rightarrow> 'a \<Rightarrow> bool" and xs
    using that by (induction xs) (auto intro: sorted_insert_by)
qed

subsection \<open>\<open>std::to_string\<close>\<close>

text \<open>
  The decimal digits of a number that is not negative, as the tools append them to names. Different numbers
  have different digits, so that names made from a prefix and a counter are distinct.
\<close>

definition digit_char :: "nat \<Rightarrow> char" where
  "digit_char d = char_of (48 + d)"

fun to_string :: "nat \<Rightarrow> string" where
  "to_string n = (if n < 10 then [digit_char n] else to_string (n div 10) @ [digit_char (n mod 10)])"

declare to_string.simps [simp del]

lemma to_string_nil [simp]: "to_string n \<noteq> []" "[] \<noteq> to_string n"
  by (subst to_string.simps, simp)+

lemma digit_char_inject: "m < 10 \<Longrightarrow> n < 10 \<Longrightarrow> digit_char m = digit_char n \<longleftrightarrow> m = n"
  by (auto simp: digit_char_def dest!: arg_cong [where f = "of_char :: char \<Rightarrow> nat"])

lemma to_string_digit: "m < 10 \<Longrightarrow> to_string m = [digit_char m]"
  by (subst to_string.simps) simp

lemma to_string_step: "\<not> m < 10 \<Longrightarrow> to_string m = to_string (m div 10) @ [digit_char (m mod 10)]"
  by (subst to_string.simps) simp

lemma to_string_inject [simp]: "to_string m = to_string n \<longleftrightarrow> m = n"
proof (induction m arbitrary: n rule: to_string.induct)
  case (1 m)
  consider "m < 10" "n < 10" | "m < 10" "\<not> n < 10" | "\<not> m < 10" "n < 10" | "\<not> m < 10" "\<not> n < 10" by blast
  then show ?case
  proof cases
    case 4
    have "m div 10 = n div 10 \<and> m mod 10 = n mod 10 \<longleftrightarrow> m = n" by (metis div_mult_mod_eq)
    then show ?thesis using 4 1 by (simp add: to_string_step digit_char_inject)
  qed (auto simp: to_string_digit to_string_step digit_char_inject)
qed

subsection \<open>\<open>std::map\<close>\<close>

text \<open>
  A \<open>std::map\<close> as the list of its entries in the order of iteration, which is that of the keys.
  \<open>map_mod k d f m\<close> is an assignment through \<open>m[k]\<close>: the element of \<open>k\<close>, made from \<open>d\<close> when there is
  none, is changed by \<open>f\<close>. \<open>map_insert\<close> is the member \<open>insert\<close>, which changes nothing when the key is
  present. \<open>group_by\<close> is the loop by which the tools collect elements under a key.
\<close>

fun map_mod :: "'k::linorder \<Rightarrow> 'v \<Rightarrow> ('v \<Rightarrow> 'v) \<Rightarrow> ('k \<times> 'v) list \<Rightarrow> ('k \<times> 'v) list" where
  "map_mod k d f [] = [(k, f d)]"
| "map_mod k d f ((k', v) # m) =
     (if k < k' then (k, f d) # (k', v) # m
      else if k = k' then (k, f v) # m
      else (k', v) # map_mod k d f m)"

definition map_insert :: "'k::linorder \<Rightarrow> 'v \<Rightarrow> ('k \<times> 'v) list \<Rightarrow> ('k \<times> 'v) list" where
  "map_insert k v m = map_mod k v (\<lambda>x. x) m"

definition group_by :: "('a \<Rightarrow> 'k::linorder) \<Rightarrow> 'a list \<Rightarrow> ('k \<times> 'a list) list" where
  "group_by key xs = fold (\<lambda>x. map_mod (key x) [] (\<lambda>l. l @ [x])) xs []"

definition keys_sorted :: "('k::linorder \<times> 'v) list \<Rightarrow> bool" where
  "keys_sorted m \<longleftrightarrow> sorted_wrt (<) (map fst m)"

lemma keys_sorted_simps [simp]:
  "keys_sorted []"
  "keys_sorted ((k, v) # m) \<longleftrightarrow> (\<forall>k' \<in> fst ` set m. k < k') \<and> keys_sorted m"
  by (auto simp: keys_sorted_def)

lemma keys_map_mod: "fst ` set (map_mod k d f m) = insert k (fst ` set m)"
  by (induction k d f m rule: map_mod.induct) auto

lemma keys_sorted_mod: "keys_sorted m \<Longrightarrow> keys_sorted (map_mod k d f m)"
proof (induction k d f m rule: map_mod.induct)
  case (2 k d f k' v m)
  then show ?case by (auto simp: keys_map_mod)
qed simp

lemma map_of_mod:
  "keys_sorted m \<Longrightarrow>
     map_of (map_mod k d f m) = (map_of m)(k \<mapsto> f (case map_of m k of None \<Rightarrow> d | Some v \<Rightarrow> v))"
proof (induction k d f m rule: map_mod.induct)
  case (2 k d f k' v m)
  have "k < k' \<Longrightarrow> map_of ((k', v) # m) k = None"
    using "2.prems" by (force simp: map_of_eq_None_iff)
  then show ?case using 2 by (auto simp: fun_eq_iff)
qed simp

lemma keys_distinct: "keys_sorted m \<Longrightarrow> distinct (map fst m)"
  by (simp add: keys_sorted_def strict_sorted_iff)

lemma map_of_sorted_mem: "keys_sorted m \<Longrightarrow> map_of m k = Some v \<longleftrightarrow> (k, v) \<in> set m"
  by (simp add: keys_distinct map_of_eq_Some_iff)

lemma map_insert_same: "keys_sorted m \<Longrightarrow> k \<in> fst ` set m \<Longrightarrow> map_insert k v m = m"
proof (induction m)
  case (Cons a m)
  then show ?case by (cases a) (auto simp: map_insert_def)
qed simp

lemma map_of_insert:
  "keys_sorted m \<Longrightarrow> map_of (map_insert k v m) = (if map_of m k = None then (map_of m)(k \<mapsto> v) else map_of m)"
  by (auto simp: map_insert_def map_of_mod fun_eq_iff)

lemma keys_sorted_insert: "keys_sorted m \<Longrightarrow> keys_sorted (map_insert k v m)"
  by (simp add: map_insert_def keys_sorted_mod)

text \<open>Grouping: every key of an element has the elements with that key, in their order.\<close>

lemma group_fold:
  assumes "keys_sorted m"
  shows "keys_sorted (fold (\<lambda>x. map_mod (key x) [] (\<lambda>l. l @ [x])) xs m)
     \<and> map_of (fold (\<lambda>x. map_mod (key x) [] (\<lambda>l. l @ [x])) xs m) k
       = (if filter (\<lambda>x. key x = k) xs = [] then map_of m k
          else Some ((case map_of m k of None \<Rightarrow> [] | Some l \<Rightarrow> l) @ filter (\<lambda>x. key x = k) xs))"
  using assms
proof (induction xs arbitrary: m)
  case (Cons x xs)
  from Cons.IH [OF keys_sorted_mod [OF Cons.prems]] show ?case
    by (auto simp: map_of_mod [OF Cons.prems] split: option.splits)
qed simp

lemma group_by_sorted: "keys_sorted (group_by key xs)"
  unfolding group_by_def by (rule conjunct1 [OF group_fold]) simp

lemma map_of_group_by:
  "map_of (group_by key xs) k = (if k \<in> key ` set xs then Some (filter (\<lambda>x. key x = k) xs) else None)"
  using group_fold [of "[]" key xs k] by (auto simp: group_by_def filter_empty_conv)

lemma group_by_mem:
  "(k, l) \<in> set (group_by key xs) \<longleftrightarrow> k \<in> key ` set xs \<and> l = filter (\<lambda>x. key x = k) xs"
  using map_of_sorted_mem [OF group_by_sorted, of key xs k l, symmetric] by (auto simp: map_of_group_by split: if_splits)

lemma keys_group_by: "fst ` set (group_by key xs) = key ` set xs"
  by (auto simp: image_iff Bex_def group_by_mem)

end
