(* ===== verification/Dpl_Place.thy ===== *)
theory Dpl_Place
  imports Dpl_Moves Cxx_Library
begin

section \<open>Placing all cells\<close>

text \<open>
  The drivers of \<open>dpl/src/Place.cpp\<close> and \<open>dpl/src/Opendp.cpp\<close>: \<open>place\<close> for the cells
  outside of groups, \<open>placeGroups\<close> and its steps for the groups, \<open>detailedPlacement\<close> for
  the whole run. Sorting is the argument \<open>srt\<close> (the interface \<open>std_sort\<close>); the numbers that
  \<open>rand()\<close> returns after \<open>srand(rand_seed_)\<close> are the argument \<open>rnd\<close>.
\<close>

subsection \<open>Cells outside of groups\<close>

definition place_candidates :: "Opendp \<Rightarrow> nat list" where
  "place_candidates st =
     filter (\<lambda>c. \<not> (isFixed st (cell_of st c) \<or> inGroup (cell_of st c) \<or> is_placed (cell_of st c)))
       [0..<length (cells st)]"

definition place_cell :: "nat \<Rightarrow> Opendp \<Rightarrow> Opendp result" where
  \<comment> \<open>\<open>if (!mapMove(cell)) shiftMove(cell)\<close>\<close>
  "place_cell c st = bindE (mapMove c st) (\<lambda>(ok, st). if ok then Inr st else shiftMove c st)"

definition place_pass :: "bool \<Rightarrow> nat list \<Rightarrow> Opendp \<Rightarrow> Opendp result" where
  "place_pass multi sorted_cells st =
     foldE (\<lambda>c st. if isMultiRow st (cell_of st c) = multi \<and> cellFitsInCore st (cell_of st c)
                   then place_cell c st else Inr st) sorted_cells st"

definition place :: "nat sorter \<Rightarrow> Opendp \<Rightarrow> Opendp result" where
  "place srt st =
     (let cands = place_candidates st in
      if \<exists>c \<in> set cands. \<not> cellFitsInCore st (cell_of st c) then Inl (LoggedError 15)
      else
        let sorted_cells = srt (\<lambda>a b. cellAreaGreater st (cell_of st a) (cell_of st b)) cands
        in bindE (if have_multi_row_cells st then place_pass True sorted_cells st else Inr st)
             (place_pass False sorted_cells))"

subsection \<open>Cells of groups\<close>

text \<open>Put a cell at the legal point nearest to a point and hold it there.\<close>

definition hold_at :: "nat \<Rightarrow> Point \<Rightarrow> Opendp \<Rightarrow> Opendp result" where
  "hold_at c nearest st =
     bindE (mapMove_at c (legalGridPt st (cell_of st c) nearest) st) (\<lambda>(ok, st).
       Inr (if ok then upd_cell c (\<lambda>cl. cl\<lparr>hold := True\<rparr>) st else st))"

definition prePlace :: "Opendp \<Rightarrow> Opendp result" where
  "prePlace st =
     foldE (\<lambda>c st.
       let cl = cell_of st c in
       if \<not> inGroup cl \<and> \<not> is_placed cl then
         (case fold (\<lambda>gr acc. fold (\<lambda>rect acc. if cell_checkOverlap st cl rect then Some rect else acc)
                        (g_regions gr) acc) (groups st) None of
            Some rect \<Rightarrow> hold_at c (nearestPt st cl rect) st
          | None \<Rightarrow> Inr st)
       else Inr st)
     [0..<length (cells st)] st"

definition nearest_region :: "Opendp \<Rightarrow> Cell \<Rightarrow> Rect list \<Rightarrow> bool \<times> Rect option" where
  \<comment> \<open>\<open>in_group\<close> and \<open>nearest_rect\<close> after the loop of \<open>prePlaceGroups\<close>\<close>
  "nearest_region st cl regions =
     (let (_, in_group, nearest_rect) =
        fold (\<lambda>rect (best, in_group, nearest_rect).
          let in_group = (if isInside st cl rect then True else in_group);
              rect_dist = distToRect st cl rect
          in if rect_dist < best then (rect_dist, in_group, Some rect)
             else (best, in_group, nearest_rect)) regions (INT_MAX, False, None)
      in (in_group, nearest_rect))"

definition prePlaceGroups :: "Opendp \<Rightarrow> Opendp result" where
  "prePlaceGroups st =
     foldE (\<lambda>gr st.
       foldE (\<lambda>c st.
         let cl = cell_of st c in
         if \<not> (isFixed st cl \<or> is_placed cl) then
           (case nearest_region st cl (g_regions gr) of
              (True, _) \<Rightarrow> Inr st
            | (False, None) \<Rightarrow> Inl NullDeref
            | (False, Some rect) \<Rightarrow> hold_at c (nearestPt st cl rect) st)
         else Inr st) (g_cells gr) st)
       (groups st) st"

fun group_pass :: "bool \<Rightarrow> nat list \<Rightarrow> Opendp \<Rightarrow> (bool \<times> Opendp) result" where
  \<comment> \<open>one of the two loops of \<open>placeGroups2\<close>, which a failed move leaves\<close>
  "group_pass multi [] st = Inr (True, st)"
| "group_pass multi (c # cs) st =
     (let cl = cell_of st c in
      if \<not> isFixed st cl \<and> \<not> is_placed cl then
        (if \<not> inGroup cl then Inl Abort
         else if isMultiRow st cl = multi then
           bindE (mapMove c st) (\<lambda>(ok, st). if ok then group_pass multi cs st else Inr (False, st))
         else group_pass multi cs st)
      else group_pass multi cs st)"

definition brickPlace1 :: "nat sorter \<Rightarrow> Group \<Rightarrow> Opendp \<Rightarrow> Opendp result" where
  "brickPlace1 srt gr st =
     (let boundary = g_boundary gr;
          sorted_cells = srt (\<lambda>a b. rectDist st (cell_of st a) boundary
                                    < rectDist st (cell_of st b) boundary) (g_cells gr)
      in foldE (\<lambda>c st.
           let cl = cell_of st c; (x, y) = rectDist_pt st cl boundary
           in bindE (mapMove_at c (legalGridPt st cl (Point x y)) st)
                (\<lambda>(ok, st). if ok then Inr st else Inl (LoggedError 16))) sorted_cells st)"

definition region_dist :: "Opendp \<Rightarrow> nat \<Rightarrow> int" where
  \<comment> \<open>the key of \<open>brickPlace2\<close>; every cell of a group has a region by then\<close>
  "region_dist st c =
     (case cell_region (cell_of st c) of None \<Rightarrow> 0 | Some r \<Rightarrow> rectDist st (cell_of st c) r)"

definition brickPlace2 :: "nat sorter \<Rightarrow> Group \<Rightarrow> Opendp \<Rightarrow> Opendp result" where
  "brickPlace2 srt gr st =
     (let sorted_cells = srt (\<lambda>a b. region_dist st a < region_dist st b) (g_cells gr)
      in foldE (\<lambda>c st.
           let cl = cell_of st c in
           if \<not> hold cl then
             (case cell_region cl of
                None \<Rightarrow> Inl NullDeref
              | Some region \<Rightarrow>
                  (let (x, y) = rectDist_pt st cl region
                   in bindE (mapMove_at c (legalGridPt st cl (Point x y)) st)
                        (\<lambda>(ok, st). if ok then Inr st else Inl (LoggedError 17))))
           else Inr st) sorted_cells st)"

definition util_above_95 :: "dbl \<Rightarrow> bool" where
  "util_above_95 u = (case u of Fin q \<Rightarrow> q > 95 / 100 | PInf \<Rightarrow> True | NInf \<Rightarrow> False | NaN \<Rightarrow> False)"

definition placeGroup2 :: "nat sorter \<Rightarrow> nat \<Rightarrow> Opendp \<Rightarrow> Opendp result" where
  \<comment> \<open>the body of the loop of \<open>placeGroups2\<close>\<close>
  "placeGroup2 srt g st =
     (let gr = groups st ! g;
          group_cells = srt (\<lambda>a b. cellAreaGreater st (cell_of st a) (cell_of st b))
            (filter (\<lambda>c. \<not> isFixed st (cell_of st c) \<and> \<not> is_placed (cell_of st c)) (g_cells gr))
      in bindE (group_pass True group_cells st) (\<lambda>(multi_pass, st).
         bindE (if multi_pass then group_pass False group_cells st else Inr (True, st))
           (\<lambda>(single_pass, st).
         if \<not> single_pass \<or> \<not> multi_pass then
           bindE (foldE erasePixel (g_cells gr) st) (\<lambda>st.
             if util_above_95 (g_util gr) then brickPlace1 srt gr st else brickPlace2 srt gr st)
         else Inr st)))"

definition placeGroups2 :: "nat sorter \<Rightarrow> Opendp \<Rightarrow> Opendp result" where
  "placeGroups2 srt st = foldE (placeGroup2 srt) [0..<length (groups st)] st"

definition count_moves ::
    "('a \<Rightarrow> Opendp \<Rightarrow> (bool \<times> Opendp) result) \<Rightarrow> 'a list \<Rightarrow> Opendp \<Rightarrow> (int \<times> Opendp) result" where
  \<comment> \<open>a loop that counts the moves that succeed\<close>
  "count_moves move xs st =
     foldE (\<lambda>x (n, st). bindE (move x st) (\<lambda>(ok, st). Inr (if ok then n + 1 else n, st))) xs (0, st)"

definition refine_unheld :: "nat \<Rightarrow> Opendp \<Rightarrow> (bool \<times> Opendp) result" where
  "refine_unheld c st = (if \<not> hold (cell_of st c) then refineMove c st else Inr (False, st))"

text \<open>
  The loops run while \<open>i < size * 0.05\<close> and \<open>i < size * 0.02\<close> in \<open>double\<close>s; the products
  are rounded to integers exactly when they are integers, so the number of rounds is the
  size divided by 20 or 50, rounded up.
\<close>

definition groupRefine :: "nat sorter \<Rightarrow> Group \<Rightarrow> Opendp \<Rightarrow> (int \<times> Opendp) result" where
  "groupRefine srt gr st =
     (let sort_by_disp = srt (\<lambda>a b. disp st (cell_of st a) > disp st (cell_of st b)) (g_cells gr)
      in count_moves refine_unheld
           (take (nat (divCeil (int (length sort_by_disp)) 20)) sort_by_disp) st)"

definition anneal_pairs :: "(nat \<Rightarrow> nat) \<Rightarrow> nat list \<Rightarrow> (nat \<times> nat) list" where
  \<comment> \<open>the pairs that \<open>rand\<close> picks\<close>
  "anneal_pairs rnd cs =
     map (\<lambda>i. (cs ! (rnd (2 * i) mod length cs), cs ! (rnd (2 * i + 1) mod length cs)))
       [0..<100 * length cs]"

definition anneal_group :: "(nat \<Rightarrow> nat) \<Rightarrow> Group \<Rightarrow> Opendp \<Rightarrow> (int \<times> Opendp) result" where
  "anneal_group rnd gr st =
     count_moves (\<lambda>(a, b). swapCells a b) (anneal_pairs rnd (g_cells gr)) st"

definition anneal :: "(nat \<Rightarrow> nat) \<Rightarrow> Opendp \<Rightarrow> (int \<times> Opendp) result" where
  "anneal rnd st =
     count_moves (\<lambda>(a, b). swapCells a b) (anneal_pairs rnd [0..<length (cells st)]) st"

definition refine :: "nat sorter \<Rightarrow> Opendp \<Rightarrow> (int \<times> Opendp) result" where
  "refine srt st =
     (let cands = filter (\<lambda>c. \<not> (isFixed st (cell_of st c) \<or> hold (cell_of st c)
                                 \<or> inGroup (cell_of st c))) [0..<length (cells st)];
          sorted_cells = srt (\<lambda>a b. disp st (cell_of st a) > disp st (cell_of st b)) cands
      in count_moves refine_unheld
           (take (nat (divCeil (int (length sorted_cells)) 50)) sorted_cells) st)"

fun improve_group ::
    "nat sorter \<Rightarrow> (nat \<Rightarrow> nat) \<Rightarrow> nat \<Rightarrow> nat \<Rightarrow> Opendp \<Rightarrow> Opendp result" where
  \<comment> \<open>the passes of \<open>placeGroups\<close> over one group, three at most\<close>
  "improve_group srt rnd g 0 st = Inr st"
| "improve_group srt rnd g (Suc passes) st =
     bindE (groupRefine srt (groups st ! g) st) (\<lambda>(refine_count, st).
     bindE (anneal_group rnd (groups st ! g) st) (\<lambda>(anneal_count, st).
       if refine_count < 10 \<or> anneal_count < 100 then Inr st
       else improve_group srt rnd g passes st))"

definition placeGroups :: "nat sorter \<Rightarrow> (nat \<Rightarrow> nat) \<Rightarrow> Opendp \<Rightarrow> Opendp result" where
  "placeGroups srt rnd st =
     bindE (groupAssignCellRegions st) (\<lambda>st.
     bindE (prePlaceGroups st) (\<lambda>st.
     bindE (prePlace st) (\<lambda>st.
     bindE (placeGroups2 srt st) (\<lambda>st.
       foldE (\<lambda>g. improve_group srt rnd g 3) [0..<length (groups st)] st))))"

subsection \<open>The whole run\<close>

definition detailedPlacement_grid :: "nat sorter \<Rightarrow> (nat \<Rightarrow> nat) \<Rightarrow> Opendp \<Rightarrow> Opendp result" where
  \<comment> \<open>the private \<open>detailedPlacement()\<close>\<close>
  "detailedPlacement_grid srt rnd st =
     bindE (initGrid st) (\<lambda>st.
     bindE (groupInitPixels (groupInitPixels2 (setFixedGridCells st))) (\<lambda>st.
     bindE (if groups st \<noteq> [] then placeGroups srt rnd st else Inr st) (place srt)))"

definition set_displacement :: "int \<Rightarrow> int \<Rightarrow> Opendp \<Rightarrow> Opendp" where
  "set_displacement dx dy st =
     (if dx = 0 \<or> dy = 0
      then st\<lparr>max_displacement_x := 500, max_displacement_y := 100\<rparr>
      else st\<lparr>max_displacement_x := dx, max_displacement_y := dy\<rparr>)"

definition detailedPlacement ::
    "nat sorter \<Rightarrow> (nat \<Rightarrow> nat) \<Rightarrow> int \<Rightarrow> int \<Rightarrow> Opendp \<Rightarrow> Opendp result" where
  "detailedPlacement srt rnd dx dy st =
     bindE (importDb st) (\<lambda>st.
       let st = set_displacement dx dy st; st = st\<lparr>hpwl_before := hpwl_block (block st)\<rparr>
       in bindE (detailedPlacement_grid srt rnd st) (\<lambda>st.
            Inr (updateDbInstLocations (findDisplacementStats st))))"

end
