(* ===== verification/Dpl_Frame.thy ===== *)
theory Dpl_Frame
  imports Dpl_Place
begin

section \<open>What the moves leave unchanged\<close>

text \<open>
  A move of a cell changes pixels and the location, orientation and flags of cells, and
  nothing else. Two states of one design (\<open>same_design\<close>) agree in all but the location and
  the flags of the cells, the owners of the pixels and the utilisation of the groups; the
  functions of the state that do not look at these are the same in both. The lemmas on \<open>divCeil\<close> and \<open>divRound\<close> that the grid computations
  need stand first.
\<close>

subsection \<open>Rounding divisions\<close>

lemma divCeil_mult_add: "0 < b \<Longrightarrow> divCeil (a * b + c) b = a + divCeil c b"
proof -
  assume "0 < b"
  have "- (a * b + c) = - c + (- a) * b" by (simp add: algebra_simps)
  moreover have "(- c + (- a) * b) div b = - a + (- c) div b"
    using \<open>0 < b\<close> by (intro div_mult_self1) simp
  ultimately show ?thesis by (simp only: divCeil_def minus_add_distrib minus_minus)
qed

lemma divCeil_mult: "0 < b \<Longrightarrow> divCeil (a * b) b = a"
  using divCeil_mult_add [of b a 0] by (simp add: divCeil_def)

lemma divCeil_ge: "0 < b \<Longrightarrow> a \<le> divCeil a b * b"
proof -
  assume b: "0 < b"
  have "(- a) div b * b \<le> - a" using b by (simp add: minus_mod_eq_div_mult [symmetric])
  then show ?thesis by (simp add: divCeil_def)
qed

lemma divCeil_less: "0 < b \<Longrightarrow> divCeil a b * b < a + b"
proof -
  assume b: "0 < b"
  have "- a - b < (- a) div b * b"
    using b pos_mod_bound [of b "- a"] by (simp add: minus_mod_eq_div_mult [symmetric])
  then show ?thesis by (simp add: divCeil_def)
qed

lemma divCeil_le_iff: "0 < b \<Longrightarrow> divCeil a b \<le> n \<longleftrightarrow> a \<le> n * b"
proof
  assume b: "0 < b" and "divCeil a b \<le> n"
  then have "divCeil a b * b \<le> n * b" by (simp add: mult_right_mono)
  with divCeil_ge [OF b, of a] show "a \<le> n * b" by linarith
next
  assume b: "0 < b" and "a \<le> n * b"
  with divCeil_less [OF b, of a] have "divCeil a b * b < (n + 1) * b" by (simp add: algebra_simps)
  with b have "divCeil a b < n + 1" by (simp add: mult_less_cancel_right)
  then show "divCeil a b \<le> n" by simp
qed

lemma less_divCeil_iff: "0 < b \<Longrightarrow> n < divCeil a b \<longleftrightarrow> n * b < a"
  using divCeil_le_iff [of b a n] by linarith

lemma divRound_nonneg: "0 \<le> a \<Longrightarrow> 0 < b \<Longrightarrow> divRound a b = (2 * a + b) div (2 * b)"
  by (cases "a = 0") (auto simp: divRound_def sgn_if div_pos_pos_trivial)

lemma divRound_mult: "0 < b \<Longrightarrow> divRound (a * b) b = a"
proof -
  assume b: "0 < b"
  have "(2 * \<bar>a * b\<bar> + b) div (2 * b) = \<bar>a\<bar>"
  proof -
    have "2 * \<bar>a * b\<bar> + b = b + \<bar>a\<bar> * (2 * b)" using b by (simp add: abs_mult)
    then have "(2 * \<bar>a * b\<bar> + b) div (2 * b) = \<bar>a\<bar> + b div (2 * b)"
      using b by (simp only: div_mult_self1)
    with b show ?thesis by (simp add: div_pos_pos_trivial)
  qed
  with b show ?thesis
    by (auto simp: divRound_def sgn_if mult_less_0_iff zero_less_mult_iff)
qed

lemma divRound_range:
  assumes "0 < b" "0 \<le> a" "a \<le> n * b - w" "b < 2 * w"
  shows "0 \<le> divRound a b" "divRound a b < n"
proof -
  have e: "divRound a b = (2 * a + b) div (2 * b)" using assms by (simp add: divRound_nonneg)
  show "0 \<le> divRound a b" using assms by (simp add: e div_int_pos_iff)
  have "2 * a + b < n * (2 * b)" using assms by (simp add: algebra_simps)
  moreover have "(2 * a + b) div (2 * b) * (2 * b) \<le> 2 * a + b"
    using assms(1) pos_mod_sign [of "2 * b" "2 * a + b"] div_mult_mod_eq [of "2 * a + b" "2 * b"]
    by linarith
  ultimately have "(2 * a + b) div (2 * b) * (2 * b) < n * (2 * b)" by linarith
  then show "divRound a b < n"
    using assms(1) unfolding e by (simp only: mult_less_cancel_right_pos)
qed

lemma divRound_near:
  assumes "0 < b" "0 \<le> a"
  shows "\<bar>2 * (divRound a b * b - a)\<bar> \<le> b"
proof -
  let ?q = "(2 * a + b) div (2 * b)"
  have "?q * (2 * b) \<le> 2 * a + b" "2 * a + b < ?q * (2 * b) + 2 * b"
    using assms div_mult_mod_eq [of "2 * a + b" "2 * b"] pos_mod_bound [of "2 * b" "2 * a + b"]
      pos_mod_sign [of "2 * b" "2 * a + b"] by linarith+
  then show ?thesis using assms by (simp add: divRound_nonneg algebra_simps abs_le_iff)
qed

subsection \<open>States of one design\<close>

definition cell_static :: "Cell \<Rightarrow> Cell" where
  "cell_static cl =
     cl\<lparr>cell_x := 0, cell_y := 0, cell_orient := R0, is_placed := False, hold := False,
        cell_region := None\<rparr>"

definition same_design :: "Opendp \<Rightarrow> Opendp \<Rightarrow> bool" where
  "same_design st st' \<longleftrightarrow>
     (\<exists>C G L. st' = st\<lparr>cells := C, grid := G, groups := L\<rparr>
        \<and> map cell_static C = map cell_static (cells st)
        \<and> map g_cells L = map g_cells (groups st)
        \<and> (\<forall>p. is_valid (G p) = is_valid (grid st p)
               \<and> pixel_group (G p) = pixel_group (grid st p)
               \<and> is_hopeless (G p) = is_hopeless (grid st p)))"

lemma same_designE:
  assumes "same_design st st'"
  obtains C G L where "st' = st\<lparr>cells := C, grid := G, groups := L\<rparr>"
    "map cell_static C = map cell_static (cells st)" "map g_cells L = map g_cells (groups st)"
    "\<And>p. is_valid (G p) = is_valid (grid st p)" "\<And>p. pixel_group (G p) = pixel_group (grid st p)"
    "\<And>p. is_hopeless (G p) = is_hopeless (grid st p)"
  using assms unfolding same_design_def by blast

lemma same_design_refl [simp]: "same_design st st"
  unfolding same_design_def by (intro exI [of _ "cells st"] exI [of _ "grid st"] exI [of _ "groups st"]) simp

lemma same_design_trans: "same_design st st' \<Longrightarrow> same_design st' st'' \<Longrightarrow> same_design st st''"
proof (elim same_designE)
  fix C G L Ca Ga La
  assume "st' = st\<lparr>cells := C, grid := G, groups := L\<rparr>"
    "st'' = st'\<lparr>cells := Ca, grid := Ga, groups := La\<rparr>"
    "map g_cells L = map g_cells (groups st)" "map g_cells La = map g_cells (groups st')"
    "map cell_static C = map cell_static (cells st)" "map cell_static Ca = map cell_static (cells st')"
    "\<And>p. is_valid (G p) = is_valid (grid st p)" "\<And>p. is_valid (Ga p) = is_valid (grid st' p)"
    "\<And>p. pixel_group (G p) = pixel_group (grid st p)"
    "\<And>p. pixel_group (Ga p) = pixel_group (grid st' p)"
    "\<And>p. is_hopeless (G p) = is_hopeless (grid st p)"
    "\<And>p. is_hopeless (Ga p) = is_hopeless (grid st' p)"
  then show ?thesis
    unfolding same_design_def by (intro exI [of _ Ca] exI [of _ Ga] exI [of _ La]) simp
qed

lemma same_design_pixel:
  assumes "same_design st st'"
  shows "is_valid (grid st' p) = is_valid (grid st p)"
    "pixel_group (grid st' p) = pixel_group (grid st p)"
    "is_hopeless (grid st' p) = is_hopeless (grid st p)"
  by (rule same_designE [OF assms], simp)+

lemma same_design_static:
  "same_design st st' \<Longrightarrow> map cell_static (cells st') = map cell_static (cells st)"
  by (auto elim: same_designE)

lemma same_design_length: "same_design st st' \<Longrightarrow> length (cells st') = length (cells st)"
  using same_design_static map_eq_imp_length_eq by blast

lemma same_design_cell:
  assumes "same_design st st'" "c < length (cells st)"
  shows "cell_static (cell_of st' c) = cell_static (cell_of st c)"
  using assms same_design_length [OF assms(1)] same_design_static [OF assms(1)] by (metis nth_map)

lemma cell_static_eqD:
  assumes "cell_static a = cell_static b"
  shows "db_inst a = db_inst b" "cell_width a = cell_width b" "cell_height a = cell_height b"
    "cell_group a = cell_group b"
proof -
  have "db_inst (cell_static a) = db_inst (cell_static b)"
    "cell_width (cell_static a) = cell_width (cell_static b)"
    "cell_height (cell_static a) = cell_height (cell_static b)"
    "cell_group (cell_static a) = cell_group (cell_static b)" using assms by simp_all
  then show "db_inst a = db_inst b" "cell_width a = cell_width b" "cell_height a = cell_height b"
    "cell_group a = cell_group b"
    by (simp_all add: cell_static_def)
qed

text \<open>The fields of the state itself.\<close>

lemma same_design_fields:
  assumes "same_design st st'"
  shows "block st' = block st" "core st' = core st"
    "row_height st' = row_height st" "site_width st' = site_width st"
    "row_count st' = row_count st" "row_site_count st' = row_site_count st"
    "have_multi_row_cells st' = have_multi_row_cells st"
    "max_displacement_x st' = max_displacement_x st"
    "max_displacement_y st' = max_displacement_y st"
  using assms by (auto elim: same_designE)

text \<open>The functions of a cell that do not look at its location or at the grid.\<close>

lemma same_design_inst_funs:
  assumes "same_design st st'"
  shows "padLeft st' = padLeft st" "padRight st' = padRight st" "isFixed st' = isFixed st"
    "macro_of st' = macro_of st" "initialLocation st' = initialLocation st"
    "isBlock st' = isBlock st" "isStdCell st' = isStdCell st"
proof -
  note defs = fun_eq_iff padLeft_def padRight_def padLeft_inst_def padRight_inst_def
    isPaddedType_def isFixed_def macro_of_def initialLocation_def isBlock_def isStdCell_def
  obtain C G L where e: "st' = st\<lparr>cells := C, grid := G, groups := L\<rparr>" using assms by (auto elim: same_designE)
  show "padLeft st' = padLeft st" "padRight st' = padRight st" "isFixed st' = isFixed st"
    "macro_of st' = macro_of st"
    "isBlock st' = isBlock st" "isStdCell st' = isStdCell st"
    unfolding e by (simp_all add: defs cong: option.case_cong)
  then show "initialLocation st' = initialLocation st"
    unfolding e by (simp add: fun_eq_iff initialLocation_def Let_def split: prod.splits)
qed

lemma same_design_funs:
  assumes "same_design st st'"
  shows "paddedWidth st' = paddedWidth st" "gridPaddedWidth st' = gridPaddedWidth st"
    "gridHeight st' = gridHeight st" "isMultiRow st' = isMultiRow st" "topPower st' = topPower st"
    "rowTopPower st' = rowTopPower st" "rowOrient st' = rowOrient st"
    "gridPixel st' = gridPixel st" "gridX st' = gridX st" "gridY st' = gridY st"
    "legalPt st' = legalPt st" "disp st' = disp st" "distChange st' = distChange st"
proof -
  obtain C G L where e: "st' = st\<lparr>cells := C, grid := G, groups := L\<rparr>" using assms by (auto elim: same_designE)
  note defs = fun_eq_iff paddedWidth_def gridPaddedWidth_def gridHeight_def isMultiRow_def
    topPower_def rowTopPower_def rowOrient_def gridPixel_def gridX_def gridY_def legalPt_def
    disp_def distChange_def
  note funs = same_design_inst_funs [OF assms]
  show "paddedWidth st' = paddedWidth st" "gridPaddedWidth st' = gridPaddedWidth st"
    "gridHeight st' = gridHeight st" "isMultiRow st' = isMultiRow st" "topPower st' = topPower st"
    "rowTopPower st' = rowTopPower st" "rowOrient st' = rowOrient st"
    "gridPixel st' = gridPixel st" "gridX st' = gridX st" "gridY st' = gridY st"
    "legalPt st' = legalPt st" "disp st' = disp st" "distChange st' = distChange st"
    by (simp_all add: defs funs) (simp_all add: e)
qed

lemma same_design_grid_funs:
  assumes "same_design st st'"
  shows "gridPaddedX st' = gridPaddedX st" "gridPaddedEndX st' = gridPaddedEndX st"
    "cellY st' = cellY st" "cellEndY st' = cellEndY st" "cellFitsInCore st' = cellFitsInCore st"
  using assms
  by (simp_all add: fun_eq_iff gridPaddedX_def gridPaddedEndX_def cellY_def cellEndY_def
      cellFitsInCore_def same_design_fields same_design_inst_funs same_design_funs)

lemmas same_design_simps =
  same_design_fields same_design_inst_funs same_design_funs same_design_grid_funs

text \<open>They depend on the fixed fields of the cell only.\<close>

lemma cell_static_funs:
  assumes "cell_static a = cell_static b"
  shows "padLeft st a = padLeft st b" "padRight st a = padRight st b"
    "isFixed st a = isFixed st b" "paddedWidth st a = paddedWidth st b"
    "gridPaddedWidth st a = gridPaddedWidth st b" "gridHeight st a = gridHeight st b"
    "isMultiRow st a = isMultiRow st b" "topPower st a = topPower st b"
    "isBlock st a = isBlock st b" "inGroup a = inGroup b"
    "cellFitsInCore st a = cellFitsInCore st b" "legalPt st a = legalPt st b"
  using cell_static_eqD [OF assms]
  by (simp_all add: fun_eq_iff padLeft_def padRight_def isFixed_def paddedWidth_def
      gridPaddedWidth_def gridHeight_def isMultiRow_def topPower_def macro_of_def
      isBlock_def inGroup_def cellFitsInCore_def legalPt_def)

lemma cell_static_initialLocation:
  assumes "cell_static a = cell_static b"
  shows "initialLocation st a = initialLocation st b"
  using cell_static_eqD [OF assms] cell_static_funs [OF assms]
  by (simp add: fun_eq_iff initialLocation_def Let_def split: prod.splits)

lemma upd_pixel_sel [simp]:
  "cells (upd_pixel p f st) = cells st" "block (upd_pixel p f st) = block st"
  "row_count (upd_pixel p f st) = row_count st"
  "row_site_count (upd_pixel p f st) = row_site_count st"
  "site_width (upd_pixel p f st) = site_width st" "row_height (upd_pixel p f st) = row_height st"
  "core (upd_pixel p f st) = core st" "groups (upd_pixel p f st) = groups st"
  "gridPixel (upd_pixel p f st) = gridPixel st"
  by (simp_all add: upd_pixel_def gridPixel_def fun_eq_iff)

lemma upd_cell_sel [simp]:
  "grid (upd_cell c f st) = grid st" "block (upd_cell c f st) = block st"
  "row_count (upd_cell c f st) = row_count st"
  "row_site_count (upd_cell c f st) = row_site_count st"
  "site_width (upd_cell c f st) = site_width st" "row_height (upd_cell c f st) = row_height st"
  "core (upd_cell c f st) = core st" "groups (upd_cell c f st) = groups st"
  "gridPixel (upd_cell c f st) = gridPixel st"
  "length (cells (upd_cell c f st)) = length (cells st)"
  by (simp_all add: upd_cell_def gridPixel_def fun_eq_iff)

lemma cell_of_upd_cell:
  "c < length (cells st) \<Longrightarrow>
   cell_of (upd_cell c f st) a = (if a = c then f (cell_of st c) else cell_of st a)"
  by (simp add: upd_cell_def)

lemma grid_upd_pixel: "grid (upd_pixel p f st) q = (if q = p then f (grid st p) else grid st q)"
  by (simp add: upd_pixel_def)

lemma same_design_upd_pixel:
  assumes "\<And>px. is_valid (f px) = is_valid px" "\<And>px. pixel_group (f px) = pixel_group px"
    "\<And>px. is_hopeless (f px) = is_hopeless px"
  shows "same_design st (upd_pixel p f st)"
  unfolding same_design_def upd_pixel_def
  by (intro exI [of _ "cells st"] exI [of _ "(grid st)(p := f (grid st p))"]
      exI [of _ "groups st"]) (simp add: assms)

lemma same_design_upd_cell:
  assumes "\<And>cl. cell_static (f cl) = cell_static cl"
  shows "same_design st (upd_cell c f st)"
proof -
  have "map cell_static ((cells st)[c := f (cell_of st c)]) = map cell_static (cells st)"
  proof (cases "c < length (cells st)")
    case True
    then have "(map cell_static (cells st))[c := cell_static (cell_of st c)] = map cell_static (cells st)"
      by (metis list_update_id nth_map)
    then show ?thesis by (simp add: map_update assms)
  qed (simp add: list_update_beyond)
  then show ?thesis
    unfolding same_design_def upd_cell_def
    by (intro exI [of _ "(cells st)[c := f (cell_of st c)]"] exI [of _ "grid st"]
        exI [of _ "groups st"]) simp
qed

end
