(* ===== verification/Dpl_Legal.thy ===== *)
theory Dpl_Legal
  imports Dpl_Frame
begin

section \<open>Placed cells own their sites\<close>

text \<open>
  The invariant of the grid: a placed cell lies on site and row boundaries and owns exactly
  the pixels of its padded footprint (\<open>owned\<close>), and every other owner of a pixel is a fixed
  cell or the dummy cell (\<open>owners_ok\<close>); together \<open>grid_ok\<close>. On top of it \<open>sites_ok\<close>: the
  pixels of a placed cell are valid sites of the cell's own group. \<open>paintPixel\<close> and
  \<open>erasePixel\<close> have an explicit result (\<open>painted\<close>, \<open>erased\<close>), which keeps both.
\<close>

subsection \<open>Pixels of a box\<close>

definition in_grid :: "Opendp \<Rightarrow> grid_pt \<Rightarrow> bool" where
  "in_grid st p \<longleftrightarrow> 0 \<le> fst p \<and> fst p < row_site_count st \<and> 0 \<le> snd p \<and> snd p < row_count st"

definition grid_box :: "int \<Rightarrow> int \<Rightarrow> int \<Rightarrow> int \<Rightarrow> grid_pt set" where
  "grid_box x y w h = {x..<x + w} \<times> {y..<y + h}"

lemma gridPixel_in_grid: "gridPixel st (fst p) (snd p) = (if in_grid st p then Some p else None)"
  by (simp add: gridPixel_def in_grid_def)

lemma set_grid_points: "set (grid_points x0 x1 y0 y1) = {x0..<x1} \<times> {y0..<y1}"
  by (simp add: grid_points_def)

lemma distinct_grid_points: "distinct (grid_points x0 x1 y0 y1)"
  by (simp add: grid_points_def distinct_product)

definition map_pixels :: "grid_pt set \<Rightarrow> (Pixel \<Rightarrow> Pixel) \<Rightarrow> Opendp \<Rightarrow> Opendp" where
  "map_pixels P f st = st\<lparr>grid := (\<lambda>p. if p \<in> P then f (grid st p) else grid st p)\<rparr>"

lemma map_pixels_sel [simp]:
  "grid (map_pixels P f st) p = (if p \<in> P then f (grid st p) else grid st p)"
  "cells (map_pixels P f st) = cells st"
  "in_grid (map_pixels P f st) = in_grid st"
  by (simp_all add: map_pixels_def in_grid_def fun_eq_iff)

lemma map_pixels_empty [simp]: "map_pixels {} f st = st"
  by (simp add: map_pixels_def)

lemma map_pixels_insert:
  "p \<notin> P \<Longrightarrow> map_pixels P f (upd_pixel p f st) = map_pixels (insert p P) f st"
  by (auto simp: map_pixels_def upd_pixel_def fun_eq_iff)

lemma map_pixels_insert_idem:
  "f (f (grid st p)) = f (grid st p) \<Longrightarrow>
   map_pixels P f (upd_pixel p f st) = map_pixels (insert p P) f st"
  by (auto simp: map_pixels_def upd_pixel_def fun_eq_iff)

lemma fold_upd_pixel:
  assumes "\<And>px. f (f px) = f px"
  shows "fold (\<lambda>p. upd_pixel p f) ps st = map_pixels (set ps) f st"
  by (induction ps arbitrary: st) (simp_all add: map_pixels_insert_idem assms)

definition clear_pixel :: "Pixel \<Rightarrow> Pixel" where
  "clear_pixel px = px\<lparr>pixel_cell := None, pixel_util := 0\<rparr>"

definition own_pixel :: "nat \<Rightarrow> Pixel \<Rightarrow> Pixel" where
  "own_pixel c px = px\<lparr>pixel_cell := Some (CellAt c), pixel_util := 1\<rparr>"

lemma clear_pixel_sel [simp]:
  "pixel_cell (clear_pixel px) = None" "is_valid (clear_pixel px) = is_valid px"
  "pixel_group (clear_pixel px) = pixel_group px" "is_hopeless (clear_pixel px) = is_hopeless px"
  "clear_pixel (clear_pixel px) = clear_pixel px"
  by (simp_all add: clear_pixel_def)

lemma own_pixel_sel [simp]:
  "pixel_cell (own_pixel c px) = Some (CellAt c)" "is_valid (own_pixel c px) = is_valid px"
  "pixel_group (own_pixel c px) = pixel_group px" "is_hopeless (own_pixel c px) = is_hopeless px"
  "own_pixel c (own_pixel c px) = own_pixel c px"
  by (simp_all add: own_pixel_def)

lemma foldE_erase_point:
  assumes "\<forall>p \<in> set ps. in_grid st p"
  shows "foldE erase_point ps st = Inr (map_pixels (set ps) clear_pixel st)"
  using assms
proof (induction ps arbitrary: st)
  case (Cons p ps)
  have "erase_point p st = Inr (upd_pixel p clear_pixel st)"
    using Cons.prems by (simp add: erase_point_def gridPixel_in_grid on_pixel_def clear_pixel_def [abs_def])
  moreover have "\<forall>q \<in> set ps. in_grid (upd_pixel p clear_pixel st) q"
    using Cons.prems by (simp add: in_grid_def)
  ultimately show ?case
    using Cons.IH by (simp add: map_pixels_insert_idem)
qed simp

lemma paint_point_eq:
  "paint_point c p st =
     (if \<not> in_grid st p then Inl NullDeref
      else if pixel_cell (grid st p) \<noteq> None then Inl (LoggedError 13)
      else Inr (upd_pixel p (own_pixel c) st))"
  by (simp add: paint_point_def gridPixel_in_grid own_pixel_def [abs_def])

lemma foldE_paint_point:
  "foldE (paint_point c) ps st = Inr st' \<longleftrightarrow>
   distinct ps \<and> (\<forall>p \<in> set ps. in_grid st p \<and> pixel_cell (grid st p) = None)
   \<and> st' = map_pixels (set ps) (own_pixel c) st"
proof (induction ps arbitrary: st)
  case (Cons p ps)
  show ?case
  proof (cases "in_grid st p \<and> pixel_cell (grid st p) = None")
    case True
    let ?t = "upd_pixel p (own_pixel c) st"
    have "in_grid ?t = in_grid st" by (simp add: in_grid_def fun_eq_iff)
    moreover have "map_pixels (set ps) (own_pixel c) ?t = map_pixels (insert p (set ps)) (own_pixel c) st"
      by (simp add: map_pixels_insert_idem)
    moreover have "(\<forall>q \<in> set ps. pixel_cell (grid ?t q) = None) \<longleftrightarrow>
        p \<notin> set ps \<and> (\<forall>q \<in> set ps. pixel_cell (grid st q) = None)"
      by (auto simp: grid_upd_pixel)
    ultimately show ?thesis
      using True Cons.IH [of ?t] by (auto simp: paint_point_eq)
  next
    case False
    then show ?thesis by (auto simp: paint_point_eq)
  qed
qed auto

subsection \<open>The invariant\<close>

definition footprint :: "Opendp \<Rightarrow> Cell \<Rightarrow> grid_pt set" where
  "footprint st cl =
     {gridPaddedX st cl..<gridPaddedEndX st cl} \<times> {cellY st cl..<cellEndY st cl}"

definition aligned :: "Opendp \<Rightarrow> Cell \<Rightarrow> bool" where
  "aligned st cl \<longleftrightarrow> cell_x cl mod site_width st = 0 \<and> cell_y cl mod row_height st = 0"

definition owned :: "Opendp \<Rightarrow> nat \<Rightarrow> bool" where
  "owned st c \<longleftrightarrow>
     (let cl = cell_of st c in
      aligned st cl
      \<and> (\<forall>p \<in> footprint st cl. in_grid st p \<and> pixel_cell (grid st p) = Some (CellAt c)))"

definition movable :: "Opendp \<Rightarrow> nat \<Rightarrow> bool" where
  "movable st c \<longleftrightarrow> c < length (cells st) \<and> \<not> isFixed st (cell_of st c)"

definition owners_ok :: "Opendp \<Rightarrow> bool" where
  "owners_ok st \<longleftrightarrow>
     (\<forall>p c. in_grid st p \<longrightarrow> pixel_cell (grid st p) = Some (CellAt c) \<longrightarrow>
        c < length (cells st)
        \<and> (isFixed st (cell_of st c)
           \<or> (is_placed (cell_of st c) \<and> p \<in> footprint st (cell_of st c))))"

definition grid_ok :: "Opendp \<Rightarrow> bool" where
  "grid_ok st \<longleftrightarrow>
     0 < site_width st \<and> 0 < row_height st \<and> owners_ok st
     \<and> (\<forall>c. movable st c \<longrightarrow> is_placed (cell_of st c) \<longrightarrow> owned st c)"

definition sites_ok :: "Opendp \<Rightarrow> bool" where
  "sites_ok st \<longleftrightarrow>
     (\<forall>c. movable st c \<longrightarrow> is_placed (cell_of st c) \<longrightarrow>
        (\<forall>p \<in> footprint st (cell_of st c).
           is_valid (grid st p) \<and> pixel_group (grid st p) = cell_group (cell_of st c)))"

text \<open>Under the invariant no two placed cells share a site.\<close>

lemma grid_ok_disjoint:
  assumes "grid_ok st" "movable st a" "movable st b" "a \<noteq> b"
    and "is_placed (cell_of st a)" "is_placed (cell_of st b)"
  shows "footprint st (cell_of st a) \<inter> footprint st (cell_of st b) = {}"
proof -
  have "owned st a" "owned st b" using assms by (auto simp: grid_ok_def)
  then show ?thesis using assms(4) unfolding owned_def by (auto simp: Let_def)
qed

lemma grid_ok_owner:
  assumes "grid_ok st" "in_grid st p" "pixel_cell (grid st p) = Some (CellAt c)"
  shows "c < length (cells st)"
    "movable st c \<Longrightarrow> is_placed (cell_of st c) \<and> p \<in> footprint st (cell_of st c)"
  using assms unfolding grid_ok_def owners_ok_def movable_def by blast+

text \<open>A footprint depends on the location and the fixed fields of the cell.\<close>

lemma footprint_cong:
  assumes "same_design st st'" "cell_static a = cell_static b" "cell_x a = cell_x b"
    "cell_y a = cell_y b"
  shows "footprint st' a = footprint st b"
  using assms(3,4) cell_static_eqD [OF assms(2)] cell_static_funs [OF assms(2)]
    same_design_simps [OF assms(1)]
  by (simp add: footprint_def gridPaddedX_def gridPaddedEndX_def cellY_def cellEndY_def)

lemma footprint_eq:
  assumes "0 < site_width st" "0 < row_height st"
    and "cell_x cl = (gx + padLeft st cl) * site_width st" "cell_y cl = gy * row_height st"
  shows "footprint st cl = grid_box gx gy (gridPaddedWidth st cl) (gridHeight st cl)"
proof -
  have "gridPaddedX st cl = gx"
    using assms sdiv_mult_cancel [of "site_width st" gx]
    by (simp add: gridPaddedX_def gridX_def algebra_simps)
  moreover have "cell_x cl + cell_width cl + padRight st cl * site_width st
      = gx * site_width st + paddedWidth st cl"
    by (simp add: assms(3) paddedWidth_def algebra_simps)
  then have "gridPaddedEndX st cl = gx + gridPaddedWidth st cl"
    using divCeil_mult_add [OF assms(1), of gx]
    by (simp add: gridPaddedEndX_def gridPaddedWidth_def)
  moreover have "cellY st cl = gy"
    using assms sdiv_mult_cancel [of "row_height st" gy] by (simp add: cellY_def gridY_def)
  moreover have "cellEndY st cl = gy + gridHeight st cl"
    using divCeil_mult_add [OF assms(2), of gy] assms(4)
    by (simp add: cellEndY_def gridHeight_def)
  ultimately show ?thesis by (simp add: footprint_def grid_box_def)
qed

lemma footprint_aligned:
  assumes "0 < site_width st" "0 < row_height st" "aligned st cl"
  shows "footprint st cl = grid_box (gridPaddedX st cl) (cellY st cl) (gridPaddedWidth st cl) (gridHeight st cl)"
    "cell_x cl = (gridPaddedX st cl + padLeft st cl) * site_width st"
    "cell_y cl = cellY st cl * row_height st"
proof -
  obtain k where k: "cell_x cl = k * site_width st" using assms(3) by (metis aligned_def mod_eq_0_iff_dvd dvd_def mult.commute)
  obtain l where l: "cell_y cl = l * row_height st" using assms(3) by (metis aligned_def mod_eq_0_iff_dvd dvd_def mult.commute)
  have "gridPaddedX st cl = k - padLeft st cl"
    using assms(1) k sdiv_mult_cancel [of "site_width st" "k - padLeft st cl"]
    by (simp add: gridPaddedX_def gridX_def algebra_simps)
  then show x: "cell_x cl = (gridPaddedX st cl + padLeft st cl) * site_width st" using k by simp
  have "cellY st cl = l"
    using assms(2) l sdiv_mult_cancel [of "row_height st" l] by (simp add: cellY_def gridY_def)
  then show y: "cell_y cl = cellY st cl * row_height st" using l by simp
  show "footprint st cl = grid_box (gridPaddedX st cl) (cellY st cl) (gridPaddedWidth st cl) (gridHeight st cl)"
    by (rule footprint_eq [OF assms(1,2) x y])
qed

subsection \<open>Erasing and painting\<close>

definition erased :: "Opendp \<Rightarrow> nat \<Rightarrow> Opendp" where
  "erased st c =
     (map_pixels (footprint st (cell_of st c)) clear_pixel st)
       \<lparr>cells := (cells st)[c := (cell_of st c)\<lparr>is_placed := False, hold := False\<rparr>]\<rparr>"

definition painted_cell :: "Opendp \<Rightarrow> Cell \<Rightarrow> int \<Rightarrow> int \<Rightarrow> Cell" where
  "painted_cell st cl gx gy =
     (setGridPaddedLoc st gx gy cl)\<lparr>is_placed := True, cell_orient :=
        (if have_multi_row_cells st then
           if gridHeight st cl smod 2 = 1
           then if rowTopPower st gy \<noteq> topPower st cl then MX else R0
           else cell_orient cl
         else rowOrient st gy)\<rparr>"

definition paint_box :: "Opendp \<Rightarrow> nat \<Rightarrow> int \<Rightarrow> int \<Rightarrow> grid_pt set" where
  "paint_box st c gx gy =
     grid_box gx gy (gridPaddedWidth st (cell_of st c)) (gridHeight st (cell_of st c))"

definition painted :: "Opendp \<Rightarrow> nat \<Rightarrow> int \<Rightarrow> int \<Rightarrow> Opendp" where
  "painted st c gx gy =
     (map_pixels (paint_box st c gx gy) (own_pixel c) st)
       \<lparr>cells := (cells st)[c := painted_cell st (cell_of st c) gx gy]\<rparr>"

lemma erasePixel_skip: "isFixed st (cell_of st c) \<or> \<not> is_placed (cell_of st c) \<Longrightarrow> erasePixel c st = Inr st"
  by (auto simp: erasePixel_def Let_def)

lemma erasePixel_owned:
  assumes "movable st c" "is_placed (cell_of st c)" "owned st c"
  shows "erasePixel c st = Inr (erased st c)"
proof -
  let ?ps = "grid_points (gridPaddedX st (cell_of st c)) (gridPaddedEndX st (cell_of st c))
    (cellY st (cell_of st c)) (cellEndY st (cell_of st c))"
  have s: "set ?ps = footprint st (cell_of st c)" by (simp add: set_grid_points footprint_def)
  have "\<forall>p \<in> set ?ps. in_grid st p" using assms(3) unfolding s by (simp add: owned_def Let_def)
  from foldE_erase_point [OF this] show ?thesis
    using assms(1,2) unfolding s
    by (simp add: erasePixel_def Let_def movable_def erased_def upd_cell_def map_pixels_def)
qed

lemma setGridPaddedLoc_orient:
  "(setGridPaddedLoc st gx gy cl)\<lparr>is_placed := True, cell_orient := cell_orient cl\<rparr>
   = (setGridPaddedLoc st gx gy cl)\<lparr>is_placed := True\<rparr>"
  by (rule Cell.equality) (simp_all add: setGridPaddedLoc_def)

lemma paintPixel_iff:
  assumes "c < length (cells st)"
  shows "paintPixel c gx gy st = Inr st' \<longleftrightarrow>
     \<not> is_placed (cell_of st c)
     \<and> (\<forall>p \<in> paint_box st c gx gy. in_grid st p \<and> pixel_cell (grid st p) = None)
     \<and> st' = painted st c gx gy"
proof (cases "is_placed (cell_of st c)")
  case False
  let ?f = "\<lambda>cl. (setGridPaddedLoc st gx gy cl)\<lparr>is_placed := True\<rparr>"
  let ?t = "upd_cell c ?f st"
  let ?ps = "grid_points gx (gx + gridPaddedWidth st (cell_of st c))
    gy (gy + gridHeight st (cell_of st c))"
  have ps: "set ?ps = paint_box st c gx gy"
    by (simp add: set_grid_points paint_box_def grid_box_def)
  have t: "in_grid ?t = in_grid st" "grid ?t = grid st"
    by (simp_all add: in_grid_def fun_eq_iff)
  let ?u = "map_pixels (paint_box st c gx gy) (own_pixel c) ?t"
  have sd: "same_design st ?t"
    by (rule same_design_upd_cell) (simp add: cell_static_def setGridPaddedLoc_def)
  have h: "have_multi_row_cells ?u = have_multi_row_cells st" "rowTopPower ?u = rowTopPower st"
    "rowOrient ?u = rowOrient st" "topPower ?u = topPower st" "gridHeight ?u = gridHeight st"
    using same_design_simps [OF sd]
    by (simp_all add: map_pixels_def fun_eq_iff rowTopPower_def rowOrient_def topPower_def
        gridHeight_def macro_of_def upd_cell_def)
  have k: "cell_static (?f (cell_of st c)) = cell_static (cell_of st c)"
    by (simp add: cell_static_def setGridPaddedLoc_def)
  have c: "cell_of ?u c = ?f (cell_of st c)" using assms by (simp add: upd_cell_def)
  have "paint_orient c gy ?u = painted st c gx gy"
    using assms cell_static_funs [OF k]
    unfolding paint_orient_def Let_def h c
    by (auto simp: painted_def painted_cell_def map_pixels_def upd_cell_def setGridPaddedLoc_orient
        cong: if_cong intro!: Opendp.equality)
  then show ?thesis
    using False unfolding paintPixel_def Let_def
    by (auto simp: bindE_Inr_iff foldE_paint_point distinct_grid_points ps t)
qed (simp add: paintPixel_def)

lemma same_design_map_pixels:
  assumes "\<And>px. is_valid (f px) = is_valid px" "\<And>px. pixel_group (f px) = pixel_group px"
    "\<And>px. is_hopeless (f px) = is_hopeless px"
  shows "same_design st (map_pixels P f st)"
  unfolding same_design_def map_pixels_def
  by (intro exI [of _ "cells st"] exI [of _ "\<lambda>p. if p \<in> P then f (grid st p) else grid st p"]
      exI [of _ "groups st"]) (simp add: assms)

lemma same_design_cells:
  assumes "c < length (cells st)" "cell_static cl = cell_static (cell_of st c)"
  shows "same_design st (st\<lparr>cells := (cells st)[c := cl]\<rparr>)"
proof -
  have "map cell_static ((cells st)[c := cl]) = map cell_static (cells st)"
    using assms by (metis list_update_id map_update nth_map length_map)
  then show ?thesis
    unfolding same_design_def by (intro exI [of _ "(cells st)[c := cl]"] exI [of _ "grid st"] exI [of _ "groups st"]) simp
qed

lemma cell_static_painted [simp]: "cell_static (painted_cell st cl gx gy) = cell_static cl"
  by (simp add: cell_static_def painted_cell_def setGridPaddedLoc_def)

lemma painted_sel:
  "grid (painted st c gx gy) p =
     (if p \<in> paint_box st c gx gy then own_pixel c (grid st p) else grid st p)"
  "cells (painted st c gx gy) = (cells st)[c := painted_cell st (cell_of st c) gx gy]"
  by (simp_all add: painted_def)

lemma erased_sel:
  "grid (erased st c) p =
     (if p \<in> footprint st (cell_of st c) then clear_pixel (grid st p) else grid st p)"
  "cells (erased st c) = (cells st)[c := (cell_of st c)\<lparr>is_placed := False, hold := False\<rparr>]"
  by (simp_all add: erased_def)

lemma same_design_painted: "c < length (cells st) \<Longrightarrow> same_design st (painted st c gx gy)"
  using same_design_trans [OF same_design_map_pixels [of "own_pixel c" st "paint_box st c gx gy"]
      same_design_cells [of c _ "painted_cell st (cell_of st c) gx gy"]]
  by (simp add: painted_def)

lemma same_design_erased: "c < length (cells st) \<Longrightarrow> same_design st (erased st c)"
  using same_design_trans [OF same_design_map_pixels [of clear_pixel st "footprint st (cell_of st c)"]
      same_design_cells [of c _ "(cell_of st c)\<lparr>is_placed := False, hold := False\<rparr>"]]
  by (simp add: erased_def cell_static_def)

lemma in_grid_same_design: "same_design st st' \<Longrightarrow> in_grid st' = in_grid st"
  by (simp add: in_grid_def fun_eq_iff same_design_fields)

lemma movable_same_design:
  assumes "same_design st st'"
  shows "movable st' c = movable st c"
proof (cases "c < length (cells st)")
  case True
  then show ?thesis
    using cell_static_funs [OF same_design_cell [OF assms True]] same_design_length [OF assms]
      same_design_inst_funs [OF assms] by (simp add: movable_def)
qed (simp add: movable_def same_design_length [OF assms])

lemma aligned_painted:
  "aligned st (painted_cell st cl gx gy)"
  by (simp add: aligned_def painted_cell_def setGridPaddedLoc_def)

lemma footprint_painted:
  assumes "0 < site_width st" "0 < row_height st" "c < length (cells st)"
  shows "footprint st (painted_cell st (cell_of st c) gx gy) = paint_box st c gx gy"
  using assms(1,2) cell_static_funs [OF cell_static_painted [of st "cell_of st c" gx gy]]
  unfolding paint_box_def
  by (subst footprint_eq [of st _ gx gy])
    (simp_all add: painted_cell_def setGridPaddedLoc_def)

lemma footprint_same_design: "same_design st st' \<Longrightarrow> footprint st' cl = footprint st cl"
  by (rule footprint_cong) simp_all

lemma aligned_same_design: "same_design st st' \<Longrightarrow> aligned st' cl = aligned st cl"
  by (simp add: aligned_def same_design_fields)

lemma isFixed_same_design:
  "same_design st st' \<Longrightarrow> c < length (cells st) \<Longrightarrow>
   isFixed st' (cell_of st' c) = isFixed st (cell_of st c)"
  using cell_static_funs [OF same_design_cell] same_design_inst_funs by metis

text \<open>What is left to show after a move of one cell \<open>c\<close>.\<close>

lemma grid_ok_move:
  assumes ok: "grid_ok st" and c: "movable st c" and sd: "same_design st st'"
    and others: "\<And>a. a \<noteq> c \<Longrightarrow> cell_of st' a = cell_of st a"
    and keep: "\<And>a p. a \<noteq> c \<Longrightarrow> in_grid st p \<Longrightarrow>
          pixel_cell (grid st p) = Some (CellAt a) \<longleftrightarrow> pixel_cell (grid st' p) = Some (CellAt a)"
    and own: "is_placed (cell_of st' c) \<Longrightarrow> owned st' c"
    and owner: "\<And>p. in_grid st p \<Longrightarrow> pixel_cell (grid st' p) = Some (CellAt c) \<Longrightarrow>
          is_placed (cell_of st' c) \<and> p \<in> footprint st' (cell_of st' c)"
  shows "grid_ok st'"
proof -
  note same = same_design_length [OF sd] isFixed_same_design [OF sd] in_grid_same_design [OF sd]
    footprint_same_design [OF sd] aligned_same_design [OF sd] movable_same_design [OF sd]
  have "owners_ok st'"
    unfolding owners_ok_def
  proof (intro allI impI)
    fix p a assume p: "in_grid st' p" "pixel_cell (grid st' p) = Some (CellAt a)"
    then have g: "in_grid st p" by (simp add: same)
    show "a < length (cells st') \<and> (isFixed st' (cell_of st' a) \<or>
        is_placed (cell_of st' a) \<and> p \<in> footprint st' (cell_of st' a))"
    proof (cases "a = c")
      case True
      then show ?thesis using owner [OF g] p(2) c by (simp add: same movable_def)
    next
      case False
      then have "pixel_cell (grid st p) = Some (CellAt a)" using keep g p(2) by blast
      then have "a < length (cells st) \<and> (isFixed st (cell_of st a) \<or>
          is_placed (cell_of st a) \<and> p \<in> footprint st (cell_of st a))"
        using ok g unfolding grid_ok_def owners_ok_def by blast
      then show ?thesis using others [OF False] same_design_inst_funs(3) [OF sd] by (auto simp: same)
    qed
  qed
  moreover have "owned st' a" if a: "movable st' a" "is_placed (cell_of st' a)" for a
  proof (cases "a = c")
    case False
    then have "owned st a" using a ok others by (simp add: grid_ok_def same)
    then show ?thesis using others [OF False] keep [OF False] by (auto simp: owned_def Let_def same)
  qed (use own a in simp)
  ultimately show ?thesis using ok same_design_fields [OF sd] by (simp add: grid_ok_def)
qed

lemma grid_ok_erased:
  assumes "grid_ok st" "movable st c" "is_placed (cell_of st c)"
  shows "grid_ok (erased st c)"
proof (rule grid_ok_move [OF assms(1,2)])
  have c: "c < length (cells st)" "\<not> isFixed st (cell_of st c)" using assms(2) by (auto simp: movable_def)
  show "same_design st (erased st c)" using c(1) by (rule same_design_erased)
  show "cell_of (erased st c) a = cell_of st a" if "a \<noteq> c" for a
    using that by (simp add: erased_sel)
  have o: "owned st c" using assms by (simp add: grid_ok_def)
  show "pixel_cell (grid st p) = Some (CellAt a) \<longleftrightarrow>
      pixel_cell (grid (erased st c) p) = Some (CellAt a)" if "a \<noteq> c" for a p
    using that o by (auto simp: erased_sel owned_def Let_def)
  show "owned (erased st c) c" if "is_placed (cell_of (erased st c) c)"
    using that c(1) by (simp add: erased_sel)
  show "is_placed (cell_of (erased st c) c) \<and> p \<in> footprint (erased st c) (cell_of (erased st c) c)"
    if "in_grid st p" "pixel_cell (grid (erased st c) p) = Some (CellAt c)" for p
    using that grid_ok_owner(2) [OF assms(1) that(1) _ assms(2)] by (auto simp: erased_sel split: if_splits)
qed

lemma owned_painted:
  assumes "0 < site_width st" "0 < row_height st" "c < length (cells st)"
    and "\<forall>p \<in> paint_box st c gx gy. in_grid st p"
  shows "owned (painted st c gx gy) c"
    "footprint (painted st c gx gy) (cell_of (painted st c gx gy) c) = paint_box st c gx gy"
proof -
  have sd: "same_design st (painted st c gx gy)" using assms(3) by (rule same_design_painted)
  show f: "footprint (painted st c gx gy) (cell_of (painted st c gx gy) c) = paint_box st c gx gy"
    using assms(3) footprint_painted [OF assms(1-3)]
    by (simp add: footprint_same_design [OF sd] painted_sel)
  then show "owned (painted st c gx gy) c"
    using assms(3,4) aligned_same_design [OF sd] aligned_painted in_grid_same_design [OF sd]
    by (auto simp: owned_def Let_def painted_sel)
qed

lemma grid_ok_painted:
  assumes "grid_ok st" "movable st c" "\<not> is_placed (cell_of st c)"
    and "\<forall>p \<in> paint_box st c gx gy. in_grid st p \<and> pixel_cell (grid st p) = None"
  shows "grid_ok (painted st c gx gy)"
proof (rule grid_ok_move [OF assms(1,2)])
  have c: "c < length (cells st)" "\<not> isFixed st (cell_of st c)" using assms(2) by (auto simp: movable_def)
  have w: "0 < site_width st" "0 < row_height st" using assms(1) by (auto simp: grid_ok_def)
  show "same_design st (painted st c gx gy)" using c(1) by (rule same_design_painted)
  show "cell_of (painted st c gx gy) a = cell_of st a" if "a \<noteq> c" for a
    using that by (simp add: painted_sel)
  show "pixel_cell (grid st p) = Some (CellAt a) \<longleftrightarrow>
      pixel_cell (grid (painted st c gx gy) p) = Some (CellAt a)" if "a \<noteq> c" for a p
    using that assms(4) by (auto simp: painted_sel)
  show "owned (painted st c gx gy) c" using owned_painted [OF w c(1)] assms(4) by blast
  show "is_placed (cell_of (painted st c gx gy) c)
      \<and> p \<in> footprint (painted st c gx gy) (cell_of (painted st c gx gy) c)"
    if "in_grid st p" "pixel_cell (grid (painted st c gx gy) p) = Some (CellAt c)" for p
  proof -
    have "p \<in> paint_box st c gx gy"
      using that grid_ok_owner(2) [OF assms(1) that(1) _ assms(2)] assms(3)
      by (auto simp: painted_sel split: if_splits)
    then show ?thesis
      using owned_painted(2) [OF w c(1)] assms(4) c(1)
      by (simp add: painted_sel painted_cell_def)
  qed
qed

text \<open>The sites of the placed cells after a move.\<close>

lemma sites_ok_erased:
  assumes "sites_ok st" "movable st c"
  shows "sites_ok (erased st c)"
  unfolding sites_ok_def
proof (intro allI impI)
  fix a assume a: "movable (erased st c) a" "is_placed (cell_of (erased st c) a)"
  have c: "c < length (cells st)" using assms(2) by (simp add: movable_def)
  have sd: "same_design st (erased st c)" using c by (rule same_design_erased)
  note same = movable_same_design [OF sd] footprint_same_design [OF sd] same_design_pixel [OF sd]
  have "a \<noteq> c" using a(2) c by (auto simp: erased_sel)
  then have "cell_of (erased st c) a = cell_of st a" by (simp add: erased_sel)
  then show "\<forall>p \<in> footprint (erased st c) (cell_of (erased st c) a).
      is_valid (grid (erased st c) p)
      \<and> pixel_group (grid (erased st c) p) = cell_group (cell_of (erased st c) a)"
    using a assms(1) by (simp add: same sites_ok_def)
qed

lemma sites_ok_painted:
  assumes "sites_ok st" "movable st c" "0 < site_width st" "0 < row_height st"
    and "\<forall>p \<in> paint_box st c gx gy. is_valid (grid st p)
           \<and> pixel_group (grid st p) = cell_group (cell_of st c)"
  shows "sites_ok (painted st c gx gy)"
  unfolding sites_ok_def
proof (intro allI impI)
  fix a assume a: "movable (painted st c gx gy) a" "is_placed (cell_of (painted st c gx gy) a)"
  have c: "c < length (cells st)" using assms(2) by (simp add: movable_def)
  have sd: "same_design st (painted st c gx gy)" using c by (rule same_design_painted)
  note same = movable_same_design [OF sd] footprint_same_design [OF sd] same_design_pixel [OF sd]
  show "\<forall>p \<in> footprint (painted st c gx gy) (cell_of (painted st c gx gy) a).
      is_valid (grid (painted st c gx gy) p)
      \<and> pixel_group (grid (painted st c gx gy) p) = cell_group (cell_of (painted st c gx gy) a)"
  proof (cases "a = c")
    case True
    have "cell_group (painted_cell st (cell_of st c) gx gy) = cell_group (cell_of st c)"
      by (rule cell_static_eqD(4)) simp
    then show ?thesis
      using True assms(5) c footprint_painted [OF assms(3,4) c] by (simp add: same painted_sel)
  next
    case False
    then have "cell_of (painted st c gx gy) a = cell_of st a" by (simp add: painted_sel)
    then show ?thesis using a assms(1) by (simp add: same sites_ok_def)
  qed
qed

end
