(* ===== verification/Dpl_Search_Facts.thy ===== *)
theory Dpl_Search_Facts
  imports Dpl_Legal
begin

section \<open>What the search finds\<close>

text \<open>
  A position \<open>fits_at\<close> a cell when every pixel of the padded cell there is a free valid site
  of the cell's group, inside the grid, on a row with the right power. \<open>binSearch\<close> finds the
  first of ten such positions of a bin; what \<open>diamondSearch\<close> returns fits the cell and lies
  in the window of the maximal displacement. The legal point at which a search starts lies in
  the grid (\<open>legalPt_in_grid\<close>).
\<close>

definition fits_at :: "Opendp \<Rightarrow> Cell \<Rightarrow> int \<Rightarrow> int \<Rightarrow> bool" where
  "fits_at st cl gx gy \<longleftrightarrow>
     (\<forall>p \<in> grid_box gx gy (gridPaddedWidth st cl) (gridHeight st cl).
        in_grid st p \<and> pixel_cell (grid st p) = None \<and> is_valid (grid st p)
        \<and> pixel_group (grid st p) = cell_group cl)
     \<and> gx + gridPaddedWidth st cl \<le> row_site_count st \<and> gy + gridHeight st cl \<le> row_count st
     \<and> \<not> (gridHeight st cl smod 2 = 0 \<and> rowTopPower st gy = topPower st cl)"

lemma pixel_free_iff:
  "pixel_free st cl p \<longleftrightarrow>
     in_grid st p \<and> pixel_cell (grid st p) = None \<and> is_valid (grid st p)
     \<and> pixel_group (grid st p) = cell_group cl"
  by (cases "cell_group cl") (auto simp: pixel_free_def gridPixel_in_grid inGroup_def Let_def)

lemma checkPixels_iff:
  "checkPixels st cl gx gy (gx + w) (gy + h) \<longleftrightarrow>
     gx + w \<le> row_site_count st
     \<and> (\<forall>p \<in> grid_box gx gy w h.
          in_grid st p \<and> pixel_cell (grid st p) = None \<and> is_valid (grid st p)
          \<and> pixel_group (grid st p) = cell_group cl)"
  by (auto simp: checkPixels_def list_all_iff set_grid_points grid_box_def pixel_free_iff)

lemma set_bin_offsets: "set (bin_offsets x bin_x) = {0..<10}"
  by (simp add: bin_offsets_def)

lemma binSearch_found:
  assumes "pp_pixel (binSearch st x cl bx ry) \<noteq> None"
  obtains i where "0 \<le> i" "i < 10" "pp_pt (binSearch st x cl bx ry) = Point (bx + i) ry"
    "fits_at st cl (bx + i) ry"
proof -
  let ?ok = "\<lambda>i. checkPixels st cl (bx + i) ry (bx + gridPaddedWidth st cl + i) (ry + gridHeight st cl)"
  have y: "\<not> (ry + gridHeight st cl > row_count st
      \<or> (gridHeight st cl smod 2 = 0 \<and> rowTopPower st ry = topPower st cl))"
    using assms by (auto simp: binSearch_def Let_def pixelPt_none_def)
  with assms obtain i where i: "find ?ok (bin_offsets x bx) = Some i"
    by (auto simp: binSearch_def Let_def pixelPt_none_def split: option.splits)
  then have "?ok i" "i \<in> set (bin_offsets x bx)" by (auto simp: find_Some_iff)
  moreover have "bx + gridPaddedWidth st cl + i = bx + i + gridPaddedWidth st cl" by simp
  ultimately have "fits_at st cl (bx + i) ry"
    using y checkPixels_iff by (simp add: fits_at_def)
  moreover have "pp_pt (binSearch st x cl bx ry) = Point (bx + i) ry"
    using y i by (auto simp: binSearch_def Let_def)
  ultimately show thesis
    using that \<open>i \<in> set (bin_offsets x bx)\<close> by (simp add: set_bin_offsets)
qed

lemma binSearch_complete:
  assumes "fits_at st cl (bx + i) ry" "0 \<le> i" "i < 10"
    and "0 < gridPaddedWidth st cl" "0 < gridHeight st cl"
  shows "pp_pixel (binSearch st x cl bx ry) \<noteq> None"
proof -
  let ?ok = "\<lambda>i. checkPixels st cl (bx + i) ry (bx + gridPaddedWidth st cl + i) (ry + gridHeight st cl)"
  have e: "bx + gridPaddedWidth st cl + j = bx + j + gridPaddedWidth st cl" for j by simp
  have "?ok i" using assms(1) checkPixels_iff by (simp add: fits_at_def e)
  then have "find ?ok (bin_offsets x bx) \<noteq> None"
    using assms(2,3) by (auto simp: find_None_iff set_bin_offsets)
  then obtain j where j: "find ?ok (bin_offsets x bx) = Some j" by blast
  then have "?ok j" by (auto simp: find_Some_iff)
  then have "in_grid st (bx + j, ry)"
    using assms(4,5) unfolding e checkPixels_iff by (simp add: grid_box_def)
  then have "gridPixel st (bx + j) ry \<noteq> None" using gridPixel_in_grid [of st "(bx + j, ry)"] by simp
  with j assms(1) show ?thesis by (auto simp: binSearch_def fits_at_def Let_def)
qed

text \<open>
  A candidate of the search: what \<open>diamondSearch\<close> keeps as its best point satisfies every
  property that \<open>binSearch\<close> results at the bins of the window have.
\<close>

definition found_ok :: "(Point \<Rightarrow> bool) \<Rightarrow> PixelPt \<Rightarrow> bool" where
  "found_ok Q pt \<longleftrightarrow> (pp_pixel pt \<noteq> None \<longrightarrow> Q (pp_pt pt))"

definition in_window :: "int \<times> int \<times> int \<times> int \<Rightarrow> int \<Rightarrow> int \<Rightarrow> bool" where
  "in_window limits bx ry \<longleftrightarrow>
     (case limits of (x_min, y_min, x_max, y_max) \<Rightarrow>
        (bx = x_max \<or> x_min \<le> bx \<and> bx \<le> x_max) \<and> (ry = y_max \<or> y_min \<le> ry \<and> ry \<le> y_max))"

lemma diamondSearchSide_found:
  assumes "found_ok Q (fst best)"
    and "\<And>bx ry. in_window limits bx ry \<Longrightarrow> found_ok Q (binSearch st x cl bx ry)"
  shows "found_ok Q (fst (diamondSearchSide st cl x y limits xo yo best))"
proof -
  obtain x_min y_min x_max y_max where l: "limits = (x_min, y_min, x_max, y_max)" by (cases limits)
  have "in_window limits (min x_max (max x_min (x + xo * 10))) (min y_max (max y_min (y + yo)))"
    unfolding l in_window_def by auto
  from assms(2) [OF this] assms(1) show ?thesis
    by (cases best) (auto simp: l diamondSearchSide_def Let_def)
qed

lemma diamond_ring_found:
  assumes "\<And>bx ry. in_window limits bx ry \<Longrightarrow> found_ok Q (binSearch st x cl bx ry)"
  shows "found_ok Q (diamond_ring st cl x y limits i)"
proof -
  have "found_ok Q (fst (fold (\<lambda>(xo, yo) best.
      if \<bar>xo\<bar> < max_displacement_x st \<and> \<bar>yo\<bar> < max_displacement_y st
      then diamondSearchSide st cl x y limits xo yo best else best) os best))"
    if "found_ok Q (fst best)" for os best
    using that
  proof (induction os arbitrary: best)
    case (Cons o' os)
    then show ?case using diamondSearchSide_found [OF _ assms] by (cases o') auto
  qed simp
  then show ?thesis unfolding diamond_ring_def by (simp add: found_ok_def pixelPt_none_def)
qed

lemma diamond_rings_found:
  assumes "\<And>bx ry. in_window limits bx ry \<Longrightarrow> found_ok Q (binSearch st x cl bx ry)"
  shows "found_ok Q (diamond_rings st cl x y limits rs)"
proof (induction rs)
  case (Cons i rs)
  then show ?case using diamond_ring_found [OF assms, where y = y and i = i] by (simp add: Let_def)
qed (simp add: found_ok_def pixelPt_none_def)

lemma diamondSearch_found:
  assumes "found_ok Q (binSearch st x cl x y)"
    and "\<And>bx ry. in_window (diamond_limits st cl x y) bx ry \<Longrightarrow> found_ok Q (binSearch st x cl bx ry)"
  shows "found_ok Q (diamondSearch st cl x y)"
  using assms(1) diamond_rings_found [OF assms(2)] by (simp add: diamondSearch_def Let_def)

lemma diamondSearch_fits:
  assumes "pp_pixel (diamondSearch st cl x y) \<noteq> None"
  shows "fits_at st cl (getX (pp_pt (diamondSearch st cl x y))) (getY (pp_pt (diamondSearch st cl x y)))"
proof -
  have "found_ok (\<lambda>p. fits_at st cl (getX p) (getY p)) (binSearch st x cl bx ry)" for bx ry
    unfolding found_ok_def by (metis binSearch_found Point.sel)
  then show ?thesis using diamondSearch_found assms by (metis found_ok_def)
qed

lemma diamondSearch_window:
  assumes "pp_pixel (diamondSearch st cl x y) \<noteq> None" "cell_group cl = None"
    and "0 \<le> x" "x \<le> row_site_count st" "0 \<le> y" "y \<le> row_count st"
    and "0 \<le> max_displacement_x st" "0 \<le> max_displacement_y st"
  shows "x - max_displacement_x st \<le> getX (pp_pt (diamondSearch st cl x y))"
    "getX (pp_pt (diamondSearch st cl x y)) \<le> x + max_displacement_x st + 9"
    "\<bar>getY (pp_pt (diamondSearch st cl x y)) - y\<bar> \<le> max_displacement_y st"
proof -
  let ?Q = "\<lambda>p. x - max_displacement_x st \<le> getX p \<and> getX p \<le> x + max_displacement_x st + 9
      \<and> \<bar>getY p - y\<bar> \<le> max_displacement_y st"
  have b: "found_ok ?Q (binSearch st x cl bx ry)"
    if "x - max_displacement_x st \<le> bx" "bx \<le> x + max_displacement_x st"
      "\<bar>ry - y\<bar> \<le> max_displacement_y st" for bx ry
    unfolding found_ok_def
  proof
    assume "pp_pixel (binSearch st x cl bx ry) \<noteq> None"
    then obtain i where "0 \<le> i" "i < 10" "pp_pt (binSearch st x cl bx ry) = Point (bx + i) ry"
      by (rule binSearch_found)
    then show "?Q (pp_pt (binSearch st x cl bx ry))" using that by simp
  qed
  have "found_ok ?Q (diamondSearch st cl x y)"
  proof (rule diamondSearch_found)
    show "found_ok ?Q (binSearch st x cl x y)" using b assms by simp
    show "found_ok ?Q (binSearch st x cl bx ry)"
      if "in_window (diamond_limits st cl x y) bx ry" for bx ry
      using that assms by (intro b) (auto simp: in_window_def diamond_limits_def Let_def)
  qed
  then show "x - max_displacement_x st \<le> getX (pp_pt (diamondSearch st cl x y))"
    "getX (pp_pt (diamondSearch st cl x y)) \<le> x + max_displacement_x st + 9"
    "\<bar>getY (pp_pt (diamondSearch st cl x y)) - y\<bar> \<le> max_displacement_y st"
    using assms(1) by (simp_all add: found_ok_def)
qed

subsection \<open>Legal points\<close>

definition core_cell :: "Opendp \<Rightarrow> Cell \<Rightarrow> bool" where
  \<comment> \<open>a cell of at least half a site and half a row that fits in the core\<close>
  "core_cell st cl \<longleftrightarrow>
     site_width st < 2 * cell_width cl \<and> cell_width cl \<le> row_site_count st * site_width st
     \<and> row_height st < 2 * cell_height cl \<and> cell_height cl \<le> row_count st * row_height st"

lemma legalPt_grid:
  assumes "0 < site_width st" "0 < row_height st" "core_cell st cl"
  obtains gx gy where "legalPt st cl pt = Point (gx * site_width st) (gy * row_height st)"
    "0 \<le> gx" "gx < row_site_count st" "0 \<le> gy" "gy < row_count st"
    "gridX st (gx * site_width st) = gx" "gridY st (gy * row_height st) = gy"
proof -
  let ?x = "min (max 0 (getX pt)) (row_site_count st * site_width st - cell_width cl)"
  let ?y = "min (max 0 (getY pt)) (row_count st * row_height st - cell_height cl)"
  have "0 \<le> ?x" "0 \<le> ?y" using assms(3) by (auto simp: core_cell_def)
  moreover have "?x \<le> row_site_count st * site_width st - cell_width cl"
    "?y \<le> row_count st * row_height st - cell_height cl" by simp_all
  moreover have "site_width st < 2 * cell_width cl" "row_height st < 2 * cell_height cl"
    using assms(3) by (auto simp: core_cell_def)
  ultimately have x: "0 \<le> divRound ?x (site_width st)" "divRound ?x (site_width st) < row_site_count st"
    and y: "0 \<le> divRound ?y (row_height st)" "divRound ?y (row_height st) < row_count st"
    using divRound_range [OF assms(1)] divRound_range [OF assms(2)] by blast+
  show thesis
    using that [OF _ x y] assms(1,2) by (simp add: legalPt_def gridX_def gridY_def sdiv_mult_cancel)
qed

lemma legalPt_in_grid:
  assumes "0 < site_width st" "0 < row_height st" "core_cell st cl"
  shows "gridPixel st (gridX st (getX (legalPt st cl pt))) (gridY st (getY (legalPt st cl pt))) \<noteq> None"
  by (rule legalPt_grid [OF assms, of pt]) (simp add: gridPixel_def)

definition no_dummy :: "Opendp \<Rightarrow> bool" where
  "no_dummy st \<longleftrightarrow> (\<forall>p. in_grid st p \<longrightarrow> pixel_cell (grid st p) \<noteq> Some DummyCell)"

lemma nearestBlockEdge_legal: "\<exists>pt'. nearestBlockEdge st cl pt r = legalPt st cl pt'"
  unfolding nearestBlockEdge_def Let_def if_distrib [of "legalPt st cl", symmetric] by blast

lemma move_off_block_legal:
  assumes "move_off_block st cl bc (legalPt st cl pt) = Inr q"
  shows "\<exists>pt'. q = legalPt st cl pt'"
proof (cases bc)
  case None
  then show ?thesis using assms by (auto simp: move_off_block_def)
next
  case (Some p)
  show ?thesis
  proof (cases p)
    case (CellAt b)
    then have "q = legalPt st cl pt \<or> (\<exists>r. q = nearestBlockEdge st cl (legalPt st cl pt) r)"
      using assms Some unfolding move_off_block_def Let_def by (auto split: if_splits)
    then show ?thesis using nearestBlockEdge_legal by blast
  qed (use assms Some in \<open>simp add: move_off_block_def\<close>)
qed

text \<open>
  Without dummy cells on the grid the legal point of a movable cell always exists, and its
  site is in the grid.
\<close>

lemma legalGridPt_cell_total:
  assumes "0 < site_width st" "0 < row_height st" "core_cell st cl" "\<not> isFixed st cl" "no_dummy st"
  shows "\<exists>pt. legalGridPt_cell st cl padded = Inr pt"
proof -
  let ?pt = "legalPt st cl (initialLocation st cl padded)"
  let ?p = "(gridX st (getX ?pt), gridY st (getY ?pt))"
  have p: "gridPixel st (gridX st (getX ?pt)) (gridY st (getY ?pt)) = Some ?p" "in_grid st ?p"
    using legalPt_in_grid [OF assms(1-3), of "initialLocation st cl padded"]
      gridPixel_in_grid [of st ?p] by (auto split: if_splits)
  have "\<exists>q. move_off_block st cl (pixel_cell (grid st ?p)) ?pt = Inr q"
    using p(2) assms(5) by (auto simp: move_off_block_def no_dummy_def Let_def split: option.splits cell_ptr.splits)
  then obtain q where q: "move_off_block st cl (pixel_cell (grid st ?p)) ?pt = Inr q" by blast
  then obtain pt' where "q = legalPt st cl pt'" using move_off_block_legal by blast
  then have "gridPixel st (gridX st (getX q)) (gridY st (getY q)) \<noteq> None"
    using legalPt_in_grid [OF assms(1-3)] by simp
  then obtain r where "gridPixel st (gridX st (getX q)) (gridY st (getY q)) = Some r" by blast
  then show ?thesis
    using assms(4) p(1) q by (simp add: legalGridPt_cell_def legalPt_cell_def Let_def split: prod.splits)
qed

subsection \<open>Leaving a hopeless pixel\<close>

definition hop_dist :: "Opendp \<Rightarrow> int \<Rightarrow> int \<Rightarrow> grid_pt \<Rightarrow> int" where
  "hop_dist st x y p = \<bar>fst p - x\<bar> * site_width st + \<bar>snd p - y\<bar> * row_height st"

definition hop_target :: "Opendp \<Rightarrow> int \<Rightarrow> int \<Rightarrow> grid_pt \<Rightarrow> bool" where
  \<comment> \<open>another valid site of the row or column\<close>
  "hop_target st x y p \<longleftrightarrow>
     in_grid st p \<and> is_valid (grid st p) \<and> p \<noteq> (x, y) \<and> (fst p = x \<or> snd p = y)"

lemma find_down:
  assumes "P (f v)" "a \<le> v" "v < (b :: int)"
  shows "\<exists>u. v \<le> u \<and> u < b \<and> find P (map f (rev (int_range a b))) = Some (f u)"
  using assms
proof (induction "nat (b - v)" arbitrary: b)
  case (Suc n)
  have e: "rev (int_range a b) = (b - 1) # rev (int_range a (b - 1))"
    using Suc.prems upto_rec2 [of a "b - 1"] by (simp add: int_range_def)
  show ?case
  proof (cases "P (f (b - 1))")
    case True
    then show ?thesis using Suc.prems by (intro exI [of _ "b - 1"]) (simp add: e)
  next
    case False
    then have "v < b - 1" using Suc.prems by (cases "v = b - 1") auto
    moreover have "n = nat (b - 1 - v)" using Suc.hyps(2) by simp
    ultimately obtain u where "v \<le> u" "u < b - 1"
      "find P (map f (rev (int_range a (b - 1)))) = Some (f u)"
      using Suc.hyps(1) [of "b - 1"] Suc.prems by blast
    then show ?thesis using False by (intro exI [of _ u]) (simp add: e)
  qed
qed simp

lemma find_up:
  assumes "P (f v)" "a \<le> v" "v < (b :: int)"
  shows "\<exists>u. a \<le> u \<and> u \<le> v \<and> find P (map f (int_range a b)) = Some (f u)"
  using assms
proof (induction "nat (v - a)" arbitrary: a)
  case 0
  then show ?case by (intro exI [of _ v]) (simp add: int_range_step)
next
  case (Suc n)
  show ?case
  proof (cases "P (f a)")
    case True
    then show ?thesis using Suc.prems by (intro exI [of _ a]) (simp add: int_range_step)
  next
    case False
    then have "a < v" using Suc.prems by (cases "v = a") auto
    moreover have "n = nat (v - (a + 1))" using Suc.hyps(2) by simp
    ultimately obtain u where "a + 1 \<le> u" "u \<le> v"
      "find P (map f (int_range (a + 1) b)) = Some (f u)"
      using Suc.hyps(1) [of "a + 1"] Suc.prems by auto
    then show ?thesis using False \<open>a < v\<close> Suc.prems by (intro exI [of _ u]) (simp add: int_range_step)
  qed
qed

definition hop_best :: "Opendp \<Rightarrow> int \<Rightarrow> int \<Rightarrow> grid_pt \<times> int \<Rightarrow> bool" where
  "hop_best st x y best \<longleftrightarrow>
     best = ((x, y), INT_MAX)
     \<or> (hop_target st x y (fst best) \<and> snd best = hop_dist st x y (fst best))"

lemma hopeless_closer_best:
  assumes "hop_best st x y best"
    and "\<And>q. found = Some q \<Longrightarrow> hop_target st x y q \<and> d = hop_dist st x y q"
  shows "hop_best st x y (hopeless_closer found d best)"
    "snd (hopeless_closer found d best) \<le> snd best"
    "found = Some q \<Longrightarrow> snd (hopeless_closer found d best) \<le> hop_dist st x y q"
  using assms by (auto simp: hopeless_closer_def hop_best_def split: option.splits)

lemma hop_find:
  assumes "find (\<lambda>p. is_valid (grid st p)) (map f xs) = Some q"
    and "\<And>u. u \<in> set xs \<Longrightarrow> in_grid st (f u) \<and> f u \<noteq> (x, y) \<and> (fst (f u) = x \<or> snd (f u) = y)"
    and "\<And>u. u \<in> set xs \<Longrightarrow> g (f u) = hop_dist st x y (f u)"
  shows "hop_target st x y q \<and> g q = hop_dist st x y q"
proof -
  from assms(1) obtain i where "i < length xs" "is_valid (grid st (f (xs ! i)))" "q = f (xs ! i)"
    by (auto simp: find_Some_iff)
  then obtain u where "u \<in> set xs" "q = f u" "is_valid (grid st q)" using nth_mem by blast
  then show ?thesis using assms(2,3) by (simp add: hop_target_def)
qed

lemma moveHopeless_best:
  assumes xy: "in_grid st (x, y)" and w: "0 < site_width st" "0 < row_height st"
  shows "\<exists>best. hop_best st x y best
     \<and> moveHopeless st x y = (if snd best \<noteq> INT_MAX then fst best else (x, y))
     \<and> (\<forall>p. hop_target st x y p \<longrightarrow> snd best \<le> hop_dist st x y p)"
proof -
  let ?v = "\<lambda>p. is_valid (grid st p)"
  let ?L = "find ?v (map (\<lambda>u. (u, y)) (rev (int_range 0 x)))"
  let ?R = "find ?v (map (\<lambda>u. (u, y)) (int_range (x + 1) (row_site_count st)))"
  let ?B = "find ?v (map (\<lambda>u. (x, u)) (rev (int_range 0 y)))"
  let ?A = "find ?v (map (\<lambda>u. (x, u)) (int_range (y + 1) (row_count st)))"
  let ?b0 = "case ?L of None \<Rightarrow> ((x, y), INT_MAX) | Some p \<Rightarrow> (p, (x - fst p) * site_width st)"
  let ?b1 = "hopeless_closer ?R ((fst (the ?R) - x) * site_width st) ?b0"
  let ?b2 = "hopeless_closer ?B ((y - snd (the ?B)) * row_height st) ?b1"
  let ?b3 = "hopeless_closer ?A ((snd (the ?A) - y) * row_height st) ?b2"
  have L: "hop_target st x y q \<and> (x - fst q) * site_width st = hop_dist st x y q" if "?L = Some q" for q
    by (rule hop_find [OF that]) (use xy in \<open>auto simp: in_grid_def hop_dist_def\<close>)
  have R: "hop_target st x y q \<and> (fst q - x) * site_width st = hop_dist st x y q" if "?R = Some q" for q
    by (rule hop_find [OF that]) (use xy in \<open>auto simp: in_grid_def hop_dist_def\<close>)
  have B: "hop_target st x y q \<and> (y - snd q) * row_height st = hop_dist st x y q" if "?B = Some q" for q
    by (rule hop_find [OF that]) (use xy in \<open>auto simp: in_grid_def hop_dist_def\<close>)
  have A: "hop_target st x y q \<and> (snd q - y) * row_height st = hop_dist st x y q" if "?A = Some q" for q
    by (rule hop_find [OF that]) (use xy in \<open>auto simp: in_grid_def hop_dist_def\<close>)
  have h0: "hop_best st x y ?b0" using L by (auto simp: hop_best_def split: option.splits)
  have h1: "hop_best st x y ?b1" "snd ?b1 \<le> snd ?b0" "?R = Some q \<Longrightarrow> snd ?b1 \<le> hop_dist st x y q" for q
    using hopeless_closer_best [OF h0] R by auto
  have h2: "hop_best st x y ?b2" "snd ?b2 \<le> snd ?b1" "?B = Some q \<Longrightarrow> snd ?b2 \<le> hop_dist st x y q" for q
    using hopeless_closer_best [OF h1(1)] B by auto
  have h3: "hop_best st x y ?b3" "snd ?b3 \<le> snd ?b2" "?A = Some q \<Longrightarrow> snd ?b3 \<le> hop_dist st x y q" for q
    using hopeless_closer_best [OF h2(1)] A by auto
  have "snd ?b3 \<le> hop_dist st x y p" if p: "hop_target st x y p" for p
  proof -
    obtain px py where pe: "p = (px, py)" by (cases p)
    note pt = p [unfolded pe hop_target_def in_grid_def, simplified]
    consider "px < x" "py = y" | "x < px" "py = y" | "px = x" "py < y" | "px = x" "y < py"
      using pt by fastforce
    then show ?thesis
    proof cases
      case 1
      then obtain u where u: "px \<le> u" "u < x" "?L = Some (u, y)"
        using find_down [of ?v "\<lambda>u. (u, y)" px 0 x] pt by auto
      then have "snd ?b0 = (x - u) * site_width st" by simp
      moreover have "(x - u) * site_width st \<le> (x - px) * site_width st"
        using u(1) w by (intro mult_right_mono) auto
      ultimately show ?thesis using h1(2) h2(2) h3(2) 1 by (simp add: pe hop_dist_def)
    next
      case 2
      then obtain u where u: "x + 1 \<le> u" "u \<le> px" "?R = Some (u, y)"
        using find_up [of ?v "\<lambda>u. (u, y)" px "x + 1" "row_site_count st"] pt by auto
      have "(u - x) * site_width st \<le> (px - x) * site_width st"
        using u(2) w by (intro mult_right_mono) auto
      then show ?thesis using h1(3) [OF u(3)] h2(2) h3(2) 2 u(1) by (simp add: pe hop_dist_def)
    next
      case 3
      then obtain u where u: "py \<le> u" "u < y" "?B = Some (x, u)"
        using find_down [of ?v "\<lambda>u. (x, u)" py 0 y] pt by auto
      have "(y - u) * row_height st \<le> (y - py) * row_height st"
        using u(1) w by (intro mult_right_mono) auto
      then show ?thesis using h2(3) [OF u(3)] h3(2) 3 u(2) by (simp add: pe hop_dist_def)
    next
      case 4
      then obtain u where u: "y + 1 \<le> u" "u \<le> py" "?A = Some (x, u)"
        using find_up [of ?v "\<lambda>u. (x, u)" py "y + 1" "row_count st"] pt by auto
      have "(u - y) * row_height st \<le> (py - y) * row_height st"
        using u(2) w by (intro mult_right_mono) auto
      then show ?thesis using h3(3) [OF u(3)] 4 u(1) by (simp add: pe hop_dist_def)
    qed
  qed
  moreover have "moveHopeless st x y = (if snd ?b3 \<noteq> INT_MAX then fst ?b3 else (x, y))"
    unfolding moveHopeless_def Let_def by (rule refl)
  ultimately show ?thesis using h3(1) by blast
qed

end
