(* ===== verification/Dpl_Steps.thy ===== *)
theory Dpl_Steps
  imports Dpl_Search_Facts Dpl_Place
begin

section \<open>The placer as a step relation\<close>

text \<open>
  Every operation of the placer that changes the placement does so by steps of three kinds:
  a placed cell is taken off its sites, an unplaced cell is put on free sites, a cell is
  marked as held. \<open>grid_steps Q\<close> is the reachability relation of these steps, where \<open>Q\<close> says
  what a position needs beyond being free: \<open>any_site\<close> asks nothing, \<open>legal_site\<close> asks for
  valid sites of the cell's group. The relation is a device of the proofs and models no code of its own. The invariants follow by rule induction, once for all
  operations; the lemmas on the operations show that each of them is a sequence of steps.
\<close>

subsection \<open>Steps\<close>

definition free_box :: "Opendp \<Rightarrow> nat \<Rightarrow> int \<Rightarrow> int \<Rightarrow> bool" where
  "free_box st c gx gy \<longleftrightarrow>
     (\<forall>p \<in> paint_box st c gx gy. in_grid st p \<and> pixel_cell (grid st p) = None)"

definition any_site :: "Opendp \<Rightarrow> nat \<Rightarrow> int \<Rightarrow> int \<Rightarrow> bool" where
  "any_site st c gx gy \<longleftrightarrow> True"

definition legal_site :: "Opendp \<Rightarrow> nat \<Rightarrow> int \<Rightarrow> int \<Rightarrow> bool" where
  "legal_site st c gx gy \<longleftrightarrow>
     (\<forall>p \<in> paint_box st c gx gy.
        is_valid (grid st p) \<and> pixel_group (grid st p) = cell_group (cell_of st c))"

definition held :: "Opendp \<Rightarrow> nat \<Rightarrow> Opendp" where
  "held st c = upd_cell c (\<lambda>cl. cl\<lparr>hold := True\<rparr>) st"

inductive grid_step :: "(Opendp \<Rightarrow> nat \<Rightarrow> int \<Rightarrow> int \<Rightarrow> bool) \<Rightarrow> Opendp \<Rightarrow> Opendp \<Rightarrow> bool"
  for Q where
  step_erase: "movable st c \<Longrightarrow> is_placed (cell_of st c) \<Longrightarrow> grid_step Q st (erased st c)"
| step_paint: "movable st c \<Longrightarrow> \<not> is_placed (cell_of st c) \<Longrightarrow> free_box st c gx gy \<Longrightarrow> Q st c gx gy
    \<Longrightarrow> grid_step Q st (painted st c gx gy)"
| step_hold: "movable st c \<Longrightarrow> is_placed (cell_of st c) \<Longrightarrow> grid_step Q st (held st c)"

abbreviation grid_steps where "grid_steps Q \<equiv> (grid_step Q)\<^sup>*\<^sup>*"

inductive_cases grid_stepE: "grid_step Q st st'"

text \<open>The invariants of a step.\<close>

lemma held_sel:
  "grid (held st c) = grid st" "cells (held st c) = (cells st)[c := (cell_of st c)\<lparr>hold := True\<rparr>]"
  by (simp_all add: held_def upd_cell_def)

lemma same_design_held: "same_design st (held st c)"
  unfolding held_def by (rule same_design_upd_cell) (simp add: cell_static_def)

lemma footprint_hold: "footprint st (cl\<lparr>hold := True\<rparr>) = footprint st cl"
  by (rule footprint_cong) (simp_all add: cell_static_def)

lemma grid_ok_held:
  assumes "grid_ok st" "movable st c" "is_placed (cell_of st c)"
  shows "grid_ok (held st c)"
proof (rule grid_ok_move [OF assms(1,2) same_design_held])
  have c: "c < length (cells st)" using assms(2) by (simp add: movable_def)
  have f: "footprint (held st c) (cell_of (held st c) c) = footprint st (cell_of st c)"
    using c by (simp add: footprint_same_design [OF same_design_held] held_sel footprint_hold)
  have o: "owned st c" using assms by (simp add: grid_ok_def)
  show "owned (held st c) c"
    using o f c aligned_same_design [OF same_design_held] in_grid_same_design [OF same_design_held]
    by (simp add: owned_def Let_def held_sel aligned_def)
  show "is_placed (cell_of (held st c) c) \<and> p \<in> footprint (held st c) (cell_of (held st c) c)"
    if "in_grid st p" "pixel_cell (grid (held st c) p) = Some (CellAt c)" for p
    using that grid_ok_owner(2) [OF assms(1) that(1) _ assms(2)] c f assms(3) by (simp add: held_sel)
qed (auto simp: held_sel)

lemma sites_ok_held:
  assumes "sites_ok st"
  shows "sites_ok (held st c)"
  unfolding sites_ok_def
proof (intro allI impI)
  fix a assume a: "movable (held st c) a" "is_placed (cell_of (held st c) a)"
  note same = movable_same_design [OF same_design_held] footprint_same_design [OF same_design_held]
  have "movable st a" using a by (simp add: same)
  moreover have "is_placed (cell_of st a)" "cell_group (cell_of (held st c) a) = cell_group (cell_of st a)"
    "footprint st (cell_of (held st c) a) = footprint st (cell_of st a)"
    using a(2) \<open>movable st a\<close>
    by (cases "a = c"; simp add: held_sel movable_def footprint_hold)+
  ultimately show "\<forall>p \<in> footprint (held st c) (cell_of (held st c) a).
      is_valid (grid (held st c) p)
      \<and> pixel_group (grid (held st c) p) = cell_group (cell_of (held st c) a)"
    using assms by (simp add: same held_sel sites_ok_def)
qed

lemma grid_step_design: "grid_step Q st st' \<Longrightarrow> same_design st st'"
  by (erule grid_stepE) (simp_all add: same_design_erased same_design_painted same_design_held movable_def)

lemma grid_step_ok: "grid_step Q st st' \<Longrightarrow> grid_ok st \<Longrightarrow> grid_ok st'"
  by (erule grid_stepE) (simp_all add: grid_ok_erased grid_ok_painted grid_ok_held free_box_def)

lemma grid_step_sites:
  "grid_step legal_site st st' \<Longrightarrow> grid_ok st \<Longrightarrow> sites_ok st \<Longrightarrow> sites_ok st'"
  by (erule grid_stepE)
    (simp_all add: sites_ok_erased sites_ok_painted sites_ok_held legal_site_def grid_ok_def)

text \<open>Only movable cells move, and a step never makes a dummy cell.\<close>

lemma grid_step_fixed:
  assumes "grid_step Q st st'" "a < length (cells st)" "isFixed st (cell_of st a)"
  shows "cell_of st' a = cell_of st a"
  using assms by (elim grid_stepE) (auto simp: erased_sel painted_sel held_sel movable_def nth_list_update)

lemma grid_step_no_dummy:
  assumes "grid_step Q st st'" "no_dummy st"
  shows "no_dummy st'"
  using assms
  by (elim grid_stepE)
    (auto simp: no_dummy_def in_grid_def erased_sel painted_sel held_sel erased_def painted_def
      held_def map_pixels_def upd_cell_def split: if_splits)

lemma grid_steps_keep:
  assumes "grid_steps Q st st'" "grid_ok st"
  shows "grid_ok st' \<and> same_design st st' \<and> (no_dummy st \<longrightarrow> no_dummy st')"
  using assms
proof (induction rule: rtranclp_induct)
  case (step y z)
  then show ?case
    using grid_step_ok grid_step_design same_design_trans grid_step_no_dummy by metis
qed simp

lemma grid_steps_sites:
  assumes "grid_steps legal_site st st'" "grid_ok st" "sites_ok st"
  shows "sites_ok st'"
  using assms
proof (induction rule: rtranclp_induct)
  case (step y z)
  then show ?case using grid_steps_keep grid_step_sites by blast
qed simp

lemma grid_steps_fixed:
  assumes "grid_steps Q st st'" "a < length (cells st)" "isFixed st (cell_of st a)"
  shows "cell_of st' a = cell_of st a"
proof -
  have "cell_of st' a = cell_of st a \<and> same_design st st'"
    using assms(1)
  proof (induction rule: rtranclp_induct)
    case (step y z)
    then have sd: "same_design st y" by blast
    then have "a < length (cells y)" "isFixed y (cell_of y a)"
      using assms(2,3) isFixed_same_design [OF sd] same_design_length [OF sd] by auto
    then show ?case
      using step grid_step_fixed grid_step_design same_design_trans by metis
  qed simp
  then show ?thesis by blast
qed

lemma grid_step_weaken: "grid_step legal_site st st' \<Longrightarrow> grid_step any_site st st'"
  by (erule grid_stepE) (auto intro: grid_step.intros simp: any_site_def)

lemma grid_steps_weaken: "grid_steps legal_site st st' \<Longrightarrow> grid_steps any_site st st'"
  by (induction rule: rtranclp_induct) (auto intro: rtranclp.rtrancl_into_rtrancl grid_step_weaken)

subsection \<open>The moves are steps\<close>

lemma erasePixel_steps:
  assumes "grid_ok st" "c < length (cells st)"
  shows "\<exists>st'. erasePixel c st = Inr st' \<and> grid_steps Q st st'"
    "erasePixel c st = Inr st' \<Longrightarrow> movable st c \<Longrightarrow> \<not> is_placed (cell_of st' c)"
    "erasePixel c st = Inr st' \<Longrightarrow> a \<noteq> c \<Longrightarrow> cell_of st' a = cell_of st a"
proof -
  have "(movable st c \<and> is_placed (cell_of st c) \<and> erasePixel c st = Inr (erased st c))
      \<or> ((isFixed st (cell_of st c) \<or> \<not> is_placed (cell_of st c)) \<and> erasePixel c st = Inr st)"
    using assms erasePixel_owned [of st c] erasePixel_skip [of st c]
    by (cases "isFixed st (cell_of st c)"; cases "is_placed (cell_of st c)")
      (simp_all add: grid_ok_def movable_def)
  then show "\<exists>st'. erasePixel c st = Inr st' \<and> grid_steps Q st st'"
    "erasePixel c st = Inr st' \<Longrightarrow> movable st c \<Longrightarrow> \<not> is_placed (cell_of st' c)"
    "erasePixel c st = Inr st' \<Longrightarrow> a \<noteq> c \<Longrightarrow> cell_of st' a = cell_of st a"
    using assms(2) by (auto intro: r_into_rtranclp step_erase simp: erased_sel) (simp_all add: movable_def)
qed

lemma paintPixel_step:
  assumes "movable st c" "paintPixel c gx gy st = Inr st'"
  shows "st' = painted st c gx gy" "free_box st c gx gy" "\<not> is_placed (cell_of st c)"
  using assms paintPixel_iff by (auto simp: movable_def free_box_def)

lemma mapMove_at_result:
  assumes "movable st c" "\<not> is_placed (cell_of st c)"
  shows "mapMove_at c pt st = Inr (False, st)
     \<or> (\<exists>gx gy. mapMove_at c pt st = Inr (True, painted st c gx gy) \<and> free_box st c gx gy
          \<and> fits_at st (cell_of st c) gx gy)"
proof (cases "pp_pixel (diamondSearch st (cell_of st c) (getX pt) (getY pt)) = None")
  case False
  let ?p = "pp_pt (diamondSearch st (cell_of st c) (getX pt) (getY pt))"
  have f: "fits_at st (cell_of st c) (getX ?p) (getY ?p)" using diamondSearch_fits False by blast
  then have b: "free_box st c (getX ?p) (getY ?p)" by (auto simp: fits_at_def free_box_def paint_box_def)
  then have "paintPixel c (getX ?p) (getY ?p) st = Inr (painted st c (getX ?p) (getY ?p))"
    using assms by (simp add: paintPixel_iff movable_def free_box_def)
  then show ?thesis using False f b by (auto simp: mapMove_at_def Let_def)
qed (simp add: mapMove_at_def)

lemma fits_at_legal: "fits_at st (cell_of st c) gx gy \<Longrightarrow> legal_site st c gx gy"
  by (auto simp: fits_at_def legal_site_def paint_box_def)

definition placed_cells :: "Opendp \<Rightarrow> nat set" where
  "placed_cells st = {a. a < length (cells st) \<and> is_placed (cell_of st a)}"

lemma placed_cells_painted:
  "c < length (cells st) \<Longrightarrow> placed_cells (painted st c gx gy) = insert c (placed_cells st)"
  by (auto simp: placed_cells_def painted_sel painted_cell_def nth_list_update split: if_splits)

lemma placed_cells_erased: "placed_cells (erased st c) = placed_cells st - {c}"
  unfolding placed_cells_def erased_sel
  by (intro set_eqI, rename_tac a, case_tac "a = c") (auto simp: nth_list_update)

text \<open>The result of a search move: nothing has changed, or the cell sits on a legal site.\<close>

definition put :: "Opendp \<Rightarrow> nat \<Rightarrow> Opendp \<Rightarrow> bool" where
  "put st c st' \<longleftrightarrow> (\<exists>gx gy. st' = painted st c gx gy \<and> free_box st c gx gy
     \<and> fits_at st (cell_of st c) gx gy)"

lemma put_steps:
  assumes "put st c st'" "movable st c" "\<not> is_placed (cell_of st c)"
  shows "grid_steps legal_site st st'" "placed_cells st' = insert c (placed_cells st)"
    "a \<noteq> c \<Longrightarrow> cell_of st' a = cell_of st a"
  using assms fits_at_legal placed_cells_painted
  by (auto simp: put_def movable_def painted_sel intro!: r_into_rtranclp step_paint)

lemma mapMove_result:
  assumes "movable st c" "\<not> is_placed (cell_of st c)" "mapMove c st = Inr (ok, st')"
  shows "if ok then put st c st' else st' = st"
proof -
  obtain pt where "mapMove_at c pt st = Inr (ok, st')" using assms(3) by (auto simp: mapMove_def)
  then show ?thesis using mapMove_at_result [OF assms(1,2), of pt] by (auto simp: put_def)
qed

lemma mapMove_or_result:
  assumes "movable st c" "\<not> is_placed (cell_of st c)" "mapMove_or e c st = Inr st'"
  shows "put st c st'"
  using assms(3) mapMove_result [OF assms(1,2)] by (auto simp: mapMove_or_def split: if_splits)

text \<open>The hypotheses under which a search move does not fault.\<close>

definition placeable :: "Opendp \<Rightarrow> nat \<Rightarrow> bool" where
  "placeable st c \<longleftrightarrow> movable st c \<and> core_cell st (cell_of st c)"

lemma core_cell_same_design:
  assumes "same_design st st'" "c < length (cells st)"
  shows "core_cell st' (cell_of st' c) = core_cell st (cell_of st c)"
  using cell_static_eqD [OF same_design_cell [OF assms]] same_design_fields [OF assms(1)]
  by (simp add: core_cell_def)

lemma placeable_same_design: "same_design st st' \<Longrightarrow> placeable st' c = placeable st c"
  using core_cell_same_design movable_same_design by (auto simp: placeable_def movable_def)

lemma mapMove_total:
  assumes "placeable st c" "\<not> is_placed (cell_of st c)" "grid_ok st" "no_dummy st"
  shows "\<exists>ok st'. mapMove c st = Inr (ok, st')"
proof -
  obtain pt where "legalGridPt_cell st (cell_of st c) True = Inr pt"
    using legalGridPt_cell_total [of st "cell_of st c" True] assms
    by (auto simp: placeable_def movable_def grid_ok_def)
  then show ?thesis
    using mapMove_at_result [of st c pt] assms by (auto simp: mapMove_def placeable_def)
qed

subsection \<open>Loops over moves\<close>

lemma foldE_steps:
  assumes "foldE f xs st = Inr st'" "grid_ok st"
    and "\<And>x s s'. x \<in> set xs \<Longrightarrow> same_design st s \<Longrightarrow> grid_ok s \<Longrightarrow> f x s = Inr s' \<Longrightarrow> grid_steps Q s s'"
  shows "grid_steps Q st st'"
proof (rule foldE_invariant [OF assms(1), of "grid_steps Q st"])
  show "grid_steps Q st s'" if "x \<in> set xs" "grid_steps Q st s" "f x s = Inr s'" for x s s'
    using assms(3) [OF that(1) _ _ that(3)] grid_steps_keep [OF that(2) assms(2)] that(2) by auto
qed simp

lemma foldE_erase:
  assumes "grid_ok st" "\<forall>a \<in> set xs. movable st a"
  shows "\<exists>st'. foldE erasePixel xs st = Inr st' \<and> grid_steps Q st st'
     \<and> placed_cells st' = placed_cells st - set xs"
  using assms
proof (induction xs arbitrary: st)
  case (Cons x xs)
  then have x: "movable st x" "x < length (cells st)" by (auto simp: movable_def)
  obtain t where t: "erasePixel x st = Inr t" "grid_steps Q st t"
    using erasePixel_steps(1) [OF Cons.prems(1) x(2)] by blast
  have sd: "same_design st t" "grid_ok t" using grid_steps_keep [OF t(2) Cons.prems(1)] by auto
  have p: "placed_cells t = placed_cells st - {x}"
    using erasePixel_steps(2,3) [OF Cons.prems(1) x(2) t(1)] x same_design_length [OF sd(1)]
    by (auto simp: placed_cells_def) metis+
  obtain st' where "foldE erasePixel xs t = Inr st'" "grid_steps Q t st'"
    "placed_cells st' = placed_cells t - set xs"
    using Cons.IH [OF sd(2)] Cons.prems(2) movable_same_design [OF sd(1)] by auto
  then show ?case using t p by (auto intro: rtranclp_trans)
qed auto

lemma foldE_mapMove_or:
  assumes "foldE (mapMove_or e) xs st = Inr st'" "grid_ok st" "distinct xs"
    and "\<forall>a \<in> set xs. movable st a \<and> a \<notin> placed_cells st"
  shows "grid_steps legal_site st st' \<and> placed_cells st' = placed_cells st \<union> set xs"
  using assms
proof (induction xs arbitrary: st)
  case (Cons x xs)
  then obtain t where t: "mapMove_or e x st = Inr t" "foldE (mapMove_or e) xs t = Inr st'" by auto
  have x: "movable st x" "\<not> is_placed (cell_of st x)"
    using Cons.prems(4) by (auto simp: placed_cells_def movable_def)
  note p = put_steps [OF mapMove_or_result [OF x t(1)] x]
  have ok: "grid_ok t" "same_design st t" using grid_steps_keep [OF p(1) Cons.prems(2)] by auto
  have "\<forall>a \<in> set xs. movable t a \<and> a \<notin> placed_cells t"
    using Cons.prems(3,4) p(2) movable_same_design [OF ok(2)] by auto
  then show ?case
    using Cons.IH [OF t(2) ok(1)] Cons.prems(3) p(1,2) by (auto intro: rtranclp_trans)
qed simp

lemma foldE_mapMove_or_total:
  assumes "grid_ok st" "no_dummy st" "distinct xs"
    and "\<forall>a \<in> set xs. placeable st a \<and> a \<notin> placed_cells st"
  shows "(\<exists>st'. foldE (mapMove_or e) xs st = Inr st') \<or> foldE (mapMove_or e) xs st = Inl e"
  using assms
proof (induction xs arbitrary: st)
  case (Cons x xs)
  have x: "placeable st x" "movable st x" "\<not> is_placed (cell_of st x)"
    using Cons.prems(4) by (auto simp: placed_cells_def placeable_def movable_def)
  obtain ok t where m: "mapMove x st = Inr (ok, t)"
    using mapMove_total [OF x(1,3) Cons.prems(1,2)] by blast
  show ?case
  proof (cases ok)
    case True
    then have t: "mapMove_or e x st = Inr t" using m by (simp add: mapMove_or_def)
    note p = put_steps [OF mapMove_or_result [OF x(2,3) t] x(2,3)]
    have keep: "grid_ok t" "same_design st t" "no_dummy t"
      using grid_steps_keep [OF p(1) Cons.prems(1)] Cons.prems(2) by auto
    have "\<forall>a \<in> set xs. placeable t a \<and> a \<notin> placed_cells t"
      using Cons.prems(3,4) p(2) placeable_same_design [OF keep(2)] by auto
    then show ?thesis using Cons.IH [OF keep(1,3)] Cons.prems(3) t by simp
  qed (use m in \<open>simp add: mapMove_or_def\<close>)
qed simp

end
