(* ===== verification/Dpl_Legality.thy ===== *)
theory Dpl_Legality
  imports Dpl_Steps
begin

section \<open>Legality of the placement\<close>

text \<open>
  The moves and the drivers of \<open>Place.cpp\<close> on the step relation: \<open>shiftMove\<close>, \<open>swapCells\<close>,
  \<open>refineMove\<close> and the placement of groups are sequences of steps, and \<open>place\<close> leaves every
  cell outside of the groups on legal sites of its own. What can go wrong is stated too: the
  messages 15, 18 and 19 are the only failures of \<open>place\<close> on a grid without dummy cells.
\<close>

subsection \<open>Shifting cells\<close>

lemma region_cells_owner:
  assumes "a \<in> set (region_cells st cl pt)"
  shows "\<exists>p. in_grid st p \<and> pixel_cell (grid st p) = Some (CellAt a) \<and> \<not> isFixed st (cell_of st a)"
proof -
  from assms obtain x y where
    "a \<in> set (case gridPixel st x y of None \<Rightarrow> [] | Some p \<Rightarrow>
       (case pixel_cell (grid st p) of
          Some (CellAt a) \<Rightarrow> if \<not> isFixed_ptr st (CellAt a) then [a] else [] | _ \<Rightarrow> []))"
    unfolding region_cells_def Let_def by (auto simp del: set_int_range)
  then show ?thesis
    using gridPixel_in_grid [of st "(x, y)"]
    by (auto split: option.splits cell_ptr.splits if_splits)
qed

lemma distinct_region_cells: "distinct (region_cells st cl pt)"
  by (simp add: region_cells_def Let_def)

lemma region_cells_movable:
  assumes "grid_ok st" "a \<in> set (region_cells st cl pt)"
  shows "movable st a" "a \<in> placed_cells st"
proof -
  obtain p where p: "in_grid st p" "pixel_cell (grid st p) = Some (CellAt a)"
    "\<not> isFixed st (cell_of st a)" using region_cells_owner [OF assms(2)] by blast
  show m: "movable st a" using grid_ok_owner(1) [OF assms(1) p(1,2)] p(3) by (simp add: movable_def)
  show "a \<in> placed_cells st"
    using grid_ok_owner(2) [OF assms(1) p(1,2) m] m by (simp add: placed_cells_def movable_def)
qed

definition all_core :: "Opendp \<Rightarrow> bool" where
  "all_core st \<longleftrightarrow> (\<forall>a. movable st a \<longrightarrow> core_cell st (cell_of st a))"

lemma all_core_placeable: "all_core st \<Longrightarrow> movable st a \<Longrightarrow> placeable st a"
  by (simp add: all_core_def placeable_def)

lemma all_core_same_design:
  assumes "same_design st st'" "all_core st"
  shows "all_core st'"
  using assms(2) movable_same_design [OF assms(1)] core_cell_same_design [OF assms(1)]
  by (auto simp: all_core_def movable_def)

lemma shiftMove_result:
  assumes "grid_ok st" "movable st c" "\<not> is_placed (cell_of st c)" "shiftMove c st = Inr st'"
  shows "grid_steps legal_site st st' \<and> placed_cells st' = insert c (placed_cells st)"
proof -
  obtain pt where "legalGridPt_cell st (cell_of st c) True = Inr pt"
    using assms(4) by (auto simp: shiftMove_def Let_def)
  moreover define xs where
    "xs = filter (\<lambda>a. inGroup (cell_of st c) = inGroup (cell_of st a)) (region_cells st (cell_of st c) pt)"
  ultimately obtain u v where u: "foldE erasePixel xs st = Inr u"
    and v: "mapMove_or (LoggedError 18) c u = Inr v"
    and w: "foldE (mapMove_or (LoggedError 19)) xs v = Inr st'"
    using assms(4) by (auto simp: shiftMove_def Let_def)
  have xs: "\<forall>a \<in> set xs. movable st a \<and> a \<in> placed_cells st" "distinct xs"
    using region_cells_movable [OF assms(1)] distinct_region_cells by (auto simp: xs_def)
  have c: "c \<notin> placed_cells st" using assms(3) by (simp add: placed_cells_def)
  have su: "grid_steps legal_site st u" "placed_cells u = placed_cells st - set xs"
    using foldE_erase [OF assms(1), of xs legal_site] xs u by auto
  have ku: "grid_ok u" "same_design st u" using grid_steps_keep [OF su(1) assms(1)] by auto
  have cu: "movable u c" "\<not> is_placed (cell_of u c)"
    using assms(2) movable_same_design [OF ku(2)] su(2) c
    by (auto simp: placed_cells_def movable_def)
  note p = put_steps [OF mapMove_or_result [OF cu v] cu]
  have kv: "grid_ok v" "same_design u v" using grid_steps_keep [OF p(1) ku(1)] by auto
  have "\<forall>a \<in> set xs. movable v a \<and> a \<notin> placed_cells v"
    using xs(1) c movable_same_design [OF kv(2)] movable_same_design [OF ku(2)] p(2) su(2) by auto
  from foldE_mapMove_or [OF w kv(1) xs(2) this]
  show ?thesis using su p(1,2) xs(1) by (auto intro: rtranclp_trans)
qed

lemma shiftMove_total:
  assumes "grid_ok st" "no_dummy st" "all_core st" "movable st c" "\<not> is_placed (cell_of st c)"
  shows "(\<exists>st'. shiftMove c st = Inr st')
     \<or> shiftMove c st \<in> {Inl (LoggedError 18), Inl (LoggedError 19)}"
proof -
  obtain pt where pt: "legalGridPt_cell st (cell_of st c) True = Inr pt"
    using legalGridPt_cell_total [of st "cell_of st c" True] assms
    by (auto simp: all_core_def movable_def grid_ok_def)
  define xs where
    "xs = filter (\<lambda>a. inGroup (cell_of st c) = inGroup (cell_of st a)) (region_cells st (cell_of st c) pt)"
  have xs: "\<forall>a \<in> set xs. movable st a \<and> a \<in> placed_cells st" "distinct xs"
    using region_cells_movable [OF assms(1)] distinct_region_cells by (auto simp: xs_def)
  have c: "c \<notin> placed_cells st" using assms(5) by (simp add: placed_cells_def)
  obtain u where u: "foldE erasePixel xs st = Inr u" "grid_steps legal_site st u"
    "placed_cells u = placed_cells st - set xs"
    using foldE_erase [OF assms(1), of xs legal_site] xs by auto
  have e: "shiftMove c st = bindE (mapMove_or (LoggedError 18) c u) (foldE (mapMove_or (LoggedError 19)) xs)"
    using pt u(1) by (simp add: shiftMove_def Let_def xs_def)
  have ku: "grid_ok u" "same_design st u" "no_dummy u"
    using grid_steps_keep [OF u(2) assms(1)] assms(2) by auto
  have cu: "movable u c" "\<not> is_placed (cell_of u c)" "placeable u c"
    using assms(4) movable_same_design [OF ku(2)] u(3) c all_core_same_design [OF ku(2) assms(3)]
    by (auto simp: placed_cells_def movable_def all_core_def placeable_def)
  obtain ok v where m: "mapMove c u = Inr (ok, v)" using mapMove_total [OF cu(3,2) ku(1,3)] by blast
  show ?thesis
  proof (cases ok)
    case True
    then have v: "mapMove_or (LoggedError 18) c u = Inr v" using m by (simp add: mapMove_or_def)
    note p = put_steps [OF mapMove_or_result [OF cu(1,2) v] cu(1,2)]
    have kv: "grid_ok v" "same_design u v" "no_dummy v"
      using grid_steps_keep [OF p(1) ku(1)] ku(3) by auto
    have "placeable v a \<and> a \<notin> placed_cells v" if a: "a \<in> set xs" for a
    proof -
      have "placeable st a" using a xs(1) assms(3) all_core_placeable by blast
      then have "placeable v a"
        using placeable_same_design [OF ku(2)] placeable_same_design [OF kv(2)] by blast
      then show ?thesis using a xs(1) c p(2) u(3) by auto
    qed
    then have "(\<exists>st'. foldE (mapMove_or (LoggedError 19)) xs v = Inr st')
        \<or> foldE (mapMove_or (LoggedError 19)) xs v = Inl (LoggedError 19)"
      using foldE_mapMove_or_total [OF kv(1,3) xs(2)] by blast
    then show ?thesis unfolding e v by auto
  next
    case False
    then show ?thesis unfolding e using m by (simp add: mapMove_or_def)
  qed
qed

subsection \<open>Placing all cells\<close>

lemma place_cell_result:
  assumes "grid_ok st" "movable st c" "\<not> is_placed (cell_of st c)" "place_cell c st = Inr st'"
  shows "grid_steps legal_site st st' \<and> placed_cells st' = insert c (placed_cells st)"
proof -
  obtain ok t where t: "mapMove c st = Inr (ok, t)" "(if ok then Inr t else shiftMove c t) = Inr st'"
    using assms(4) by (auto simp: place_cell_def)
  show ?thesis
    using mapMove_result [OF assms(2,3) t(1)] put_steps [OF _ assms(2,3)] t(2)
      shiftMove_result [OF assms(1-3)] by (cases ok) auto
qed

lemma place_cell_total:
  assumes "grid_ok st" "no_dummy st" "all_core st" "movable st c" "\<not> is_placed (cell_of st c)"
  shows "(\<exists>st'. place_cell c st = Inr st')
     \<or> place_cell c st \<in> {Inl (LoggedError 18), Inl (LoggedError 19)}"
proof -
  obtain ok t where t: "mapMove c st = Inr (ok, t)"
    using mapMove_total [of st c] assms all_core_placeable by blast
  show ?thesis
    using mapMove_result [OF assms(4,5) t] shiftMove_total [OF assms] t
    by (cases ok) (auto simp: place_cell_def)
qed

definition pass_cell :: "bool \<Rightarrow> Opendp \<Rightarrow> nat \<Rightarrow> bool" where
  "pass_cell multi st c \<longleftrightarrow> isMultiRow st (cell_of st c) = multi \<and> cellFitsInCore st (cell_of st c)"

lemma pass_cell_same_design:
  assumes "same_design st st'" "c < length (cells st)"
  shows "pass_cell multi st' c = pass_cell multi st c"
  using cell_static_funs [OF same_design_cell [OF assms]] same_design_simps [OF assms(1)]
  by (simp add: pass_cell_def)

lemma place_pass_Cons:
  "place_pass multi (x # xs) st =
     (if pass_cell multi st x then bindE (place_cell x st) (place_pass multi xs)
      else place_pass multi xs st)"
  by (simp add: place_pass_def [abs_def] pass_cell_def)

lemma place_pass_result:
  assumes "place_pass multi xs st = Inr st'" "grid_ok st" "distinct xs"
    and "\<forall>a \<in> set xs. movable st a \<and> (pass_cell multi st a \<longrightarrow> a \<notin> placed_cells st)"
  shows "grid_steps legal_site st st'
     \<and> placed_cells st' = placed_cells st \<union> {a \<in> set xs. pass_cell multi st a}"
  using assms
proof (induction xs arbitrary: st)
  case (Cons x xs)
  show ?case
  proof (cases "pass_cell multi st x")
    case True
    then have x: "movable st x" "\<not> is_placed (cell_of st x)"
      using Cons.prems(4) by (auto simp: placed_cells_def movable_def)
    from True obtain t where t: "place_cell x st = Inr t" "place_pass multi xs t = Inr st'"
      using Cons.prems(1) by (auto simp: place_pass_Cons)
    note p = place_cell_result [OF Cons.prems(2) x t(1)]
    have k: "grid_ok t" "same_design st t" using grid_steps_keep [of legal_site st t] p Cons.prems(2) by auto
    have ps: "pass_cell multi t a = pass_cell multi st a" if "a \<in> set xs" for a
      using that Cons.prems(4) pass_cell_same_design [OF k(2)] by (auto simp: movable_def)
    have "\<forall>a \<in> set xs. movable t a \<and> (pass_cell multi t a \<longrightarrow> a \<notin> placed_cells t)"
      using Cons.prems(3,4) p movable_same_design [OF k(2)] ps by auto
    from Cons.IH [OF t(2) k(1) _ this] Cons.prems(3)
    have "grid_steps legal_site t st'"
      "placed_cells st' = placed_cells t \<union> {a \<in> set xs. pass_cell multi t a}" by auto
    then show ?thesis using p True ps by (auto intro: rtranclp_trans)
  next
    case False
    then show ?thesis using Cons by (auto simp: place_pass_Cons)
  qed
qed (simp add: place_pass_def)

lemma place_pass_total:
  assumes "grid_ok st" "no_dummy st" "all_core st" "distinct xs"
    and "\<forall>a \<in> set xs. movable st a \<and> (pass_cell multi st a \<longrightarrow> a \<notin> placed_cells st)"
  shows "(\<exists>st'. place_pass multi xs st = Inr st')
     \<or> place_pass multi xs st \<in> {Inl (LoggedError 18), Inl (LoggedError 19)}"
  using assms
proof (induction xs arbitrary: st)
  case (Cons x xs)
  show ?case
  proof (cases "pass_cell multi st x")
    case True
    then have x: "movable st x" "\<not> is_placed (cell_of st x)"
      using Cons.prems(5) by (auto simp: placed_cells_def movable_def)
    show ?thesis
    proof (cases "\<exists>t. place_cell x st = Inr t")
      case True
      then obtain t where t: "place_cell x st = Inr t" by blast
      note p = place_cell_result [OF Cons.prems(1) x t]
      have k: "grid_ok t" "same_design st t" "no_dummy t"
        using grid_steps_keep [of legal_site st t] p Cons.prems(1,2) by auto
      have ps: "pass_cell multi t a = pass_cell multi st a" if "a \<in> set xs" for a
        using that Cons.prems(5) pass_cell_same_design [OF k(2)] by (auto simp: movable_def)
      have "\<forall>a \<in> set xs. movable t a \<and> (pass_cell multi t a \<longrightarrow> a \<notin> placed_cells t)"
        using Cons.prems(4,5) p movable_same_design [OF k(2)] ps by auto
      from Cons.IH [OF k(1,3) all_core_same_design [OF k(2) Cons.prems(3)] _ this] Cons.prems(4)
      show ?thesis using t \<open>pass_cell multi st x\<close> by (simp add: place_pass_Cons)
    next
      case False
      then show ?thesis
        using place_cell_total [OF Cons.prems(1-3) x] \<open>pass_cell multi st x\<close>
        by (auto simp: place_pass_Cons)
    qed
  next
    case False
    then show ?thesis using Cons by (simp add: place_pass_Cons)
  qed
qed (simp add: place_pass_def)

text \<open>
  What \<open>importDb\<close> ensures: without multi-row cells there is one pass only.
\<close>

definition multi_known :: "Opendp \<Rightarrow> bool" where
  "multi_known st \<longleftrightarrow>
     have_multi_row_cells st \<or> (\<forall>c. movable st c \<longrightarrow> \<not> isMultiRow st (cell_of st c))"

lemma place_candidates_iff:
  "c \<in> set (place_candidates st) \<longleftrightarrow>
     movable st c \<and> \<not> inGroup (cell_of st c) \<and> c \<notin> placed_cells st"
  by (auto simp: place_candidates_def movable_def placed_cells_def)

lemma distinct_place_candidates: "distinct (place_candidates st)"
  by (simp add: place_candidates_def)

lemma place_passes:
  assumes "std_sort (srt :: nat sorter)"
  obtains xs where "set xs = set (place_candidates st)" "distinct xs"
    "place srt st =
       (if \<exists>c \<in> set xs. \<not> cellFitsInCore st (cell_of st c) then Inl (LoggedError 15)
        else bindE (if have_multi_row_cells st then place_pass True xs st else Inr st)
               (place_pass False xs))"
proof -
  define xs where
    "xs = srt (\<lambda>a b. cellAreaGreater st (cell_of st a) (cell_of st b)) (place_candidates st)"
  have "set xs = set (place_candidates st)" "distinct xs"
    using std_sort.set_srt [OF assms(1)] std_sort.distinct_srt [OF assms(1)]
      distinct_place_candidates by (auto simp: xs_def)
  then show thesis using that by (simp add: place_def Let_def xs_def)
qed

lemma first_pass:
  assumes "grid_ok st" "distinct xs" "\<forall>a \<in> set xs. movable st a \<and> a \<notin> placed_cells st"
    and "(if have_multi_row_cells st then place_pass True xs st else Inr st) = Inr u"
  shows "grid_steps legal_site st u"
    "placed_cells u =
       placed_cells st \<union> {a \<in> set xs. have_multi_row_cells st \<and> pass_cell True st a}"
    "\<forall>a \<in> set xs. movable u a \<and> (pass_cell False u a \<longrightarrow> a \<notin> placed_cells u)"
proof -
  show su: "grid_steps legal_site st u"
    and pu: "placed_cells u =
       placed_cells st \<union> {a \<in> set xs. have_multi_row_cells st \<and> pass_cell True st a}"
    using assms(4) place_pass_result [OF _ assms(1,2), of True u] assms(3)
    by (auto split: if_splits)
  have k: "same_design st u" using grid_steps_keep [OF su assms(1)] by blast
  have "pass_cell False u a = pass_cell False st a" if "a \<in> set xs" for a
    using that assms(3) pass_cell_same_design [OF k] by (auto simp: movable_def)
  then show "\<forall>a \<in> set xs. movable u a \<and> (pass_cell False u a \<longrightarrow> a \<notin> placed_cells u)"
    using assms(3) pu movable_same_design [OF k] by (auto simp: pass_cell_def)
qed

lemma place_result:
  assumes "std_sort (srt :: nat sorter)" "place srt st = Inr st'" "grid_ok st" "multi_known st"
  shows "grid_steps legal_site st st'
     \<and> placed_cells st' = placed_cells st \<union> set (place_candidates st)"
proof -
  obtain xs where xs: "set xs = set (place_candidates st)" "distinct xs"
    and e: "place srt st =
       (if \<exists>c \<in> set xs. \<not> cellFitsInCore st (cell_of st c) then Inl (LoggedError 15)
        else bindE (if have_multi_row_cells st then place_pass True xs st else Inr st)
               (place_pass False xs))" using place_passes [OF assms(1)] .
  have fit: "\<forall>c \<in> set xs. cellFitsInCore st (cell_of st c)"
    using e assms(2) by (cases "\<exists>c \<in> set xs. \<not> cellFitsInCore st (cell_of st c)") simp_all
  then have "bindE (if have_multi_row_cells st then place_pass True xs st else Inr st)
      (place_pass False xs) = Inr st'" using e assms(2) by simp
  then obtain u where u: "(if have_multi_row_cells st then place_pass True xs st else Inr st) = Inr u"
    and st': "place_pass False xs u = Inr st'" unfolding bindE_Inr_iff by blast
  have un: "\<forall>a \<in> set xs. movable st a \<and> a \<notin> placed_cells st"
    using xs(1) place_candidates_iff by blast
  note p = first_pass [OF assms(3) xs(2) un u]
  have k: "grid_ok u" "same_design st u" using grid_steps_keep [OF p(1) assms(3)] by auto
  note q = place_pass_result [OF st' k(1) xs(2) p(3)]
  have "pass_cell False u a = (\<not> isMultiRow st (cell_of st a))"
    "pass_cell True st a = isMultiRow st (cell_of st a)" if "a \<in> set xs" for a
    using that fit un pass_cell_same_design [OF k(2)] by (auto simp: pass_cell_def movable_def)
  then have "placed_cells st' = placed_cells st \<union> set xs"
    using q p(2) assms(4) un by (auto simp: multi_known_def)
  then show ?thesis using q p(1) xs(1) by (auto intro: rtranclp_trans)
qed

lemma place_faults:
  assumes "std_sort (srt :: nat sorter)" "place srt st = Inl e" "grid_ok st" "no_dummy st" "all_core st"
  shows "e \<in> {LoggedError 15, LoggedError 18, LoggedError 19}"
proof -
  obtain xs where xs: "set xs = set (place_candidates st)" "distinct xs"
    and e: "place srt st =
       (if \<exists>c \<in> set xs. \<not> cellFitsInCore st (cell_of st c) then Inl (LoggedError 15)
        else bindE (if have_multi_row_cells st then place_pass True xs st else Inr st)
               (place_pass False xs))" using place_passes [OF assms(1)] .
  have un: "\<forall>a \<in> set xs. movable st a \<and> a \<notin> placed_cells st"
    using xs(1) place_candidates_iff by blast
  let ?u = "if have_multi_row_cells st then place_pass True xs st else Inr st"
  consider "place srt st = Inl (LoggedError 15)" | "?u = Inl e"
    | u where "?u = Inr u" "place_pass False xs u = Inl e"
  proof (cases "\<exists>c \<in> set xs. \<not> cellFitsInCore st (cell_of st c)")
    case False
    then have "bindE ?u (place_pass False xs) = Inl e" using assms(2) e by simp
    then show ?thesis using that(2,3) unfolding bindE_Inl_iff by blast
  qed (use e that(1) in simp)
  then show ?thesis
  proof cases
    case 2
    then show ?thesis
      using place_pass_total [OF assms(3-5) xs(2), of True] un by (auto split: if_splits)
  next
    case 3
    note p = first_pass [OF assms(3) xs(2) un 3(1)]
    have k: "grid_ok u" "same_design st u" "no_dummy u"
      using grid_steps_keep [OF p(1) assms(3)] assms(4) by auto
    show ?thesis
      using place_pass_total [OF k(1,3) all_core_same_design [OF k(2) assms(5)] xs(2) p(3)] 3(2)
      by auto
  qed (use assms(2) in simp)
qed

end
