(* ===== verification/Dpl_Check.thy ===== *)
theory Dpl_Check
  imports Dpl_Grid
begin

section \<open>Checking a placement\<close>

text \<open>
  \<open>dpl/src/CheckPlacement.cpp\<close>: \<open>checkPlacement\<close> imports the design, resets the grid and
  looks at every cell: site alignment, power lines, rows, status and overlaps. Overlaps are
  found through the grid: the first cell that covers a pixel owns it, and a later cell is
  compared with the owners of its pixels only. The messages of the report are not modelled.
\<close>

definition isPlaced :: "Opendp \<Rightarrow> Cell \<Rightarrow> bool" where
  "isPlaced st cl = inst_isPlaced (cell_inst st cl)"

definition checkPowerLine :: "Opendp \<Rightarrow> Cell \<Rightarrow> bool" where
  "checkPowerLine st cl \<longleftrightarrow>
     (let height = gridHeight st cl;
          orient = i_orient (cell_inst st cl);
          grid_y = cellY st cl;
          top = topPower st cl
      in \<not> (height = 1 \<or> height = 3)
         \<and> ((height smod 2 = 0 \<and> top = rowTopPower st grid_y)
            \<or> (height smod 2 = 1
               \<and> ((top = rowTopPower st grid_y \<and> orient \<noteq> R0)
                  \<or> (top \<noteq> rowTopPower st grid_y \<and> orient \<noteq> MX)))))"

definition checkInRows :: "Opendp \<Rightarrow> Cell \<Rightarrow> bool" where
  "checkInRows st cl =
     list_all (\<lambda>(y, x). case gridPixel st x y of None \<Rightarrow> False | Some p \<Rightarrow> is_valid (grid st p))
       (grid_points (cellY st cl) (cellEndY st cl) (cellX st cl) (cellEndX st cl))"

definition isCrWtBlClass :: "Opendp \<Rightarrow> Cell \<Rightarrow> bool" where
  "isCrWtBlClass st cl \<longleftrightarrow>
     m_type (cell_master st cl) \<in> {MT_CORE, MT_CORE_ANTENNACELL, MT_CORE_FEEDTHRU,
       MT_CORE_TIEHIGH, MT_CORE_TIELOW, MT_CORE_WELLTAP, MT_BLOCK, MT_BLOCK_BLACKBOX,
       MT_BLOCK_SOFT}"

definition isWtClass :: "Opendp \<Rightarrow> Cell \<Rightarrow> bool" where
  "isWtClass st cl \<longleftrightarrow> m_type (cell_master st cl) = MT_CORE_WELLTAP"

definition isOverlapPadded :: "Opendp \<Rightarrow> Cell \<Rightarrow> Cell \<Rightarrow> bool" where
  "isOverlapPadded st c1 c2 \<longleftrightarrow>
     isCrWtBlClass st c1 \<and> isCrWtBlClass st c2 \<and> \<not> (isWtClass st c1 \<and> isWtClass st c2)"

definition overlap :: "Opendp \<Rightarrow> Cell \<Rightarrow> Cell \<Rightarrow> bool" where
  "overlap st c1 c2 =
     (if isBlock st c1 \<and> isBlock st c2 then False
      else
        let padded = (havePadding st \<and> isOverlapPadded st c1 c2);
            ll1 = initialLocation st c1 padded; ll2 = initialLocation st c2 padded;
            ur1 = (if padded then Point (getX ll1 + paddedWidth st c1) (getY ll1 + cell_height c1)
                   else Point (getX ll1 + cell_width c1) (getY ll1 + cell_height c1));
            ur2 = (if padded then Point (getX ll2 + paddedWidth st c2) (getY ll2 + cell_height c2)
                   else Point (getX ll2 + cell_width c2) (getY ll2 + cell_height c2))
        in getX ll1 < getX ur2 \<and> getX ur1 > getX ll2
           \<and> getY ll1 < getY ur2 \<and> getY ur1 > getY ll2)"

text \<open>
  The visitor of \<open>checkOverlap\<close>: it remembers the last owner that overlaps, and takes the
  pixels that have no owner yet. No cell is the dummy cell while a placement is checked,
  because groups are not painted then; \<open>overlap\<close> would dereference its null instance.
\<close>

definition overlap_visit ::
    "nat \<Rightarrow> grid_pt \<Rightarrow> (nat option \<times> Opendp) result \<Rightarrow> (nat option \<times> Opendp) result" where
  "overlap_visit c p acc =
     bindE acc (\<lambda>(overlap_cell, st).
       case pixel_cell (grid st p) of
         Some (CellAt o') \<Rightarrow>
           if o' \<noteq> c \<and> overlap st (cell_of st c) (cell_of st o')
           then Inr (Some o', st) else Inr (overlap_cell, st)
       | Some DummyCell \<Rightarrow> Inl NullDeref
       | None \<Rightarrow>
           Inr (overlap_cell, upd_pixel p (\<lambda>px. px\<lparr>pixel_cell := Some (CellAt c)\<rparr>) st))"

definition checkOverlap :: "nat \<Rightarrow> Opendp \<Rightarrow> (nat option \<times> Opendp) result" where
  "checkOverlap c st = visitCellPixels st (cell_of st c) True (overlap_visit c) (Inr (None, st))"

record Failures =
  placed_failures :: "nat list"
  in_rows_failures :: "nat list"
  overlap_failures :: "nat list"
  site_align_failures :: "nat list"
  power_line_failures :: "nat list"

definition no_failures :: Failures where
  "no_failures =
     \<lparr>placed_failures = [], in_rows_failures = [], overlap_failures = [],
      site_align_failures = [], power_line_failures = []\<rparr>"

definition check_cell :: "nat \<Rightarrow> Failures \<times> Opendp \<Rightarrow> (Failures \<times> Opendp) result" where
  \<comment> \<open>the body of the loop of \<open>checkPlacement\<close>\<close>
  "check_cell c acc =
     (case acc of (fs, st) \<Rightarrow>
      let cl = cell_of st c;
          fs = (if isStdCell st cl then
                  (let fs = (if cell_x cl smod site_width st \<noteq> 0 \<or> cell_y cl smod row_height st \<noteq> 0
                             then fs\<lparr>site_align_failures := site_align_failures fs @ [c]\<rparr> else fs);
                       fs = (if checkPowerLine st cl
                             then fs\<lparr>power_line_failures := power_line_failures fs @ [c]\<rparr> else fs)
                   in if \<not> checkInRows st cl
                      then fs\<lparr>in_rows_failures := in_rows_failures fs @ [c]\<rparr> else fs)
                else fs);
          fs = (if \<not> isPlaced st cl
                then fs\<lparr>placed_failures := placed_failures fs @ [c]\<rparr> else fs)
      in bindE (checkOverlap c st) (\<lambda>(found, st).
           Inr (if found \<noteq> None then fs\<lparr>overlap_failures := overlap_failures fs @ [c]\<rparr> else fs, st)))"

definition check_cells :: "Opendp \<Rightarrow> (Failures \<times> Opendp) result" where
  "check_cells st =
     bindE (initGrid st) (\<lambda>st. foldE check_cell [0..<length (cells st)] (no_failures, st))"

definition checkPlacement :: "Opendp \<Rightarrow> (Failures \<times> Opendp) result" where
  "checkPlacement st =
     bindE (importDb st) (\<lambda>st.
     bindE (check_cells st) (\<lambda>(fs, st).
       if length (power_line_failures fs) + length (placed_failures fs)
          + length (in_rows_failures fs) + length (overlap_failures fs)
          + length (site_align_failures fs) > 0
       then Inl (LoggedError 33) else Inr (fs, st)))"

end
