(* ===== verification/Dpl_Filler.thy ===== *)
theory Dpl_Filler
  imports Dpl_Grid Cxx_Library
begin

section \<open>Filler placement\<close>

text \<open>
  \<open>dpl/src/FillerPlacement.cpp\<close>: every maximal run of free valid sites of a row is filled
  with instances of filler masters, widest first. \<open>gapFillers\<close> chooses the masters for a
  gap and caches the choice; \<open>placeRowFillers\<close> walks over a row and creates the instances.
\<close>

subsection \<open>Choosing the masters for a gap\<close>

datatype fill_result = Filled "nat list" | Unfilled "nat list" int

text \<open>
  The inner loop of \<open>gapFillers\<close> for one master. A master that is narrower than a site has
  width 0 in sites, and then the loop does not end: it is the fault \<open>NoReturn\<close>.
\<close>

function fill_with ::
    "nat \<Rightarrow> int \<Rightarrow> int \<Rightarrow> bool \<Rightarrow> nat list \<Rightarrow> int \<Rightarrow> fill_result result" where
  "fill_with mi filler_width gap have_filler1 fillers width =
     (if width + filler_width \<le> gap \<and> (have_filler1 \<or> width + filler_width \<noteq> gap - 1) then
        (if width + filler_width = gap then Inr (Filled (fillers @ [mi]))
         else if filler_width \<le> 0 then Inl NoReturn
         else fill_with mi filler_width gap have_filler1 (fillers @ [mi]) (width + filler_width))
      else Inr (Unfilled fillers width))"
  by pat_completeness auto
termination
  by (relation "measure (\<lambda>(mi, fw, gap, h, fs, width). nat (gap - width))") auto

declare fill_with.simps [simp del]

fun fill_gap ::
    "dbBlock \<Rightarrow> int \<Rightarrow> int \<Rightarrow> bool \<Rightarrow> nat list \<Rightarrow> nat list \<Rightarrow> int \<Rightarrow> nat list result" where
  \<comment> \<open>the loop of \<open>gapFillers\<close> over the masters; \<open>[]\<close> when they do not fill the gap\<close>
  "fill_gap b sw gap have_filler1 [] fillers width = Inr []"
| "fill_gap b sw gap have_filler1 (mi # ms) fillers width =
     bindE (fill_with mi (m_width (b_masters b ! mi) sdiv sw) gap have_filler1 fillers width)
       (\<lambda>r. case r of
              Filled fs \<Rightarrow> Inr fs
            | Unfilled fs w \<Rightarrow> fill_gap b sw gap have_filler1 ms fs w)"

definition resize_to :: "nat \<Rightarrow> 'a list list \<Rightarrow> 'a list list" where
  "resize_to n xss = (if length xss < n then xss @ replicate (n - length xss) [] else xss)"

definition gapFillers :: "int \<Rightarrow> nat list \<Rightarrow> Opendp \<Rightarrow> (nat list \<times> Opendp) result" where
  "gapFillers gap filler_masters st =
     (let st = st\<lparr>gap_fillers := resize_to (nat (gap + 1)) (gap_fillers st)\<rparr>;
          fillers = gap_fillers st ! nat gap
      in if fillers = [] then
           (if filler_masters = [] then Inl OutOfBounds
            else
              let smallest_filler = last filler_masters;
                  have_filler1 = (m_width (b_masters (block st) ! smallest_filler) = site_width st)
              in bindE (fill_gap (block st) (site_width st) gap have_filler1 filler_masters [] 0)
                   (\<lambda>fs. Inr (fs, st\<lparr>gap_fillers := (gap_fillers st)[nat gap := fs]\<rparr>)))
         else Inr (fillers, st))"

subsection \<open>Names\<close>

definition filler_name :: "string \<Rightarrow> int \<Rightarrow> int \<Rightarrow> string" where
  "filler_name prefix row k = prefix @ to_string (nat row) @ ''_'' @ to_string (nat k)"

text \<open>
  \<open>gridInstName\<close> names the neighbours of a gap that cannot be filled. Its guard lets
  \<open>col = row_site_count\<close> through, where \<open>gridPixel\<close> returns a null pointer.
\<close>

definition gridInstName :: "Opendp \<Rightarrow> int \<Rightarrow> int \<Rightarrow> string result" where
  "gridInstName st row col =
     (if col < 0 then Inr ''core_left''
      else if col > row_site_count st then Inr ''core_right''
      else case gridPixel st col row of
             None \<Rightarrow> Inl NullDeref
           | Some p \<Rightarrow>
               (case pixel_cell (grid st p) of
                  Some (CellAt c) \<Rightarrow> Inr (i_name (cell_inst st (cell_of st c)))
                | Some DummyCell \<Rightarrow> Inl NullDeref
                | None \<Rightarrow> Inr ''?''))"

subsection \<open>Filling a row\<close>

definition site_open :: "Opendp \<Rightarrow> int \<Rightarrow> int \<Rightarrow> bool" where
  \<comment> \<open>a free valid site; the loops stay inside the row\<close>
  "site_open st row j \<longleftrightarrow> pixel_cell (grid st (j, row)) = None \<and> is_valid (grid st (j, row))"

function gap_end :: "Opendp \<Rightarrow> int \<Rightarrow> int \<Rightarrow> int" where
  "gap_end st row k =
     (if k < row_site_count st \<and> site_open st row k then gap_end st row (k + 1) else k)"
  by pat_completeness auto
termination
  by (relation "measure (\<lambda>(st, row, k). nat (row_site_count st - k))") auto

declare gap_end.simps [simp del]

definition place_filler ::
    "int \<Rightarrow> string \<Rightarrow> nat \<Rightarrow> int \<times> Opendp \<Rightarrow> (int \<times> Opendp) result" where
  \<comment> \<open>one filler instance at site \<open>k\<close> of the row, and the site after it\<close>
  "place_filler row prefix mi acc =
     (case acc of (k, st) \<Rightarrow>
      case inst_create (block st) mi (filler_name prefix row k) of
        None \<Rightarrow> Inl NullDeref
      | Some (b, i) \<Rightarrow>
          (let m = b_masters b ! mi;
               x = xMin (core st) + k * site_width st;
               y = yMin (core st) + row * row_height st;
               b = upd_inst i (\<lambda>inst. (setLocation m x y (setOrient m (rowOrient st row) inst))
                                        \<lparr>i_status := PS_PLACED, i_source := SRC_DIST\<rparr>) b
           in Inr (k + m_width m sdiv site_width st,
                   st\<lparr>block := b, filler_count := filler_count st + 1\<rparr>)))"

function placeRowFillers_from ::
    "int \<Rightarrow> string \<Rightarrow> nat list \<Rightarrow> int \<Rightarrow> Opendp \<Rightarrow> nat \<Rightarrow> Opendp result" where
  \<comment> \<open>the loop of \<open>placeRowFillers\<close> from site \<open>j\<close>; \<open>n\<close> is the number of sites left\<close>
  "placeRowFillers_from row prefix filler_masters j st 0 = Inr st"
| "placeRowFillers_from row prefix filler_masters j st (Suc n) =
     (if site_open st row j then
        (let k = gap_end st row j; gap = k - j in
         bindE (gapFillers gap filler_masters st) (\<lambda>(fillers, st).
           if fillers = [] then
             bindE (gridInstName st row (j - 1)) (\<lambda>_.
             bindE (gridInstName st row (k + 1)) (\<lambda>_. Inl (LoggedError 2)))
           else
             bindE (foldE (place_filler row prefix) fillers (j, st)) (\<lambda>(_, st).
               placeRowFillers_from row prefix filler_masters (j + gap) st (Suc n - nat (max 1 gap)))))
      else placeRowFillers_from row prefix filler_masters (j + 1) st n)"
  by pat_completeness auto
termination
  by (relation "measure (\<lambda>(row, prefix, ms, j, st, n). n)") auto

definition placeRowFillers :: "string \<Rightarrow> nat list \<Rightarrow> int \<Rightarrow> Opendp \<Rightarrow> Opendp result" where
  "placeRowFillers prefix filler_masters row st =
     placeRowFillers_from row prefix filler_masters 0 st (nat (row_site_count st))"

definition setGridCells :: "Opendp \<Rightarrow> Opendp" where
  "setGridCells st =
     fold (\<lambda>c st. visitCellPixels st (cell_of st c) False (setGridCell c) st)
       [0..<length (cells st)] st"

definition fillerPlacement :: "nat sorter \<Rightarrow> nat list \<Rightarrow> string \<Rightarrow> Opendp \<Rightarrow> Opendp result" where
  "fillerPlacement srt filler_masters prefix st =
     bindE (if cells st = [] then importDb st else Inr st) (\<lambda>st.
       let filler_masters = srt (\<lambda>a b. m_width (b_masters (block st) ! a)
                                        > m_width (b_masters (block st) ! b)) filler_masters;
           st = st\<lparr>gap_fillers := [], filler_count := 0\<rparr>
       in bindE (initGrid st) (\<lambda>st.
            foldE (placeRowFillers prefix filler_masters) (int_range 0 (row_count st))
              (setGridCells st)))"

end
