(* ===== verification/Dpl_Mirror.thy ===== *)
theory Dpl_Mirror
  imports Dpl_State Cxx_Library
begin

section \<open>Optimising the mirroring\<close>

text \<open>
  \<open>dpl/src/OptMirror.cpp\<close>: instances with a terminal on the bounding box of a net are
  mirrored about the Y axis when that does not lengthen the nets at their terminals.
\<close>

fun orientMirrorY :: "dbOrientType \<Rightarrow> dbOrientType" where
  "orientMirrorY R0 = MY"
| "orientMirrorY MX = R180"
| "orientMirrorY MY = R0"
| "orientMirrorY R180 = MX"
| "orientMirrorY R90 = MXR90"
| "orientMirrorY MXR90 = R90"
| "orientMirrorY R270 = MYR90"
| "orientMirrorY MYR90 = R270"

definition netbox_hpwl :: "Rect \<Rightarrow> int" where
  \<comment> \<open>\<open>NetBox::hpwl\<close>, a sum of two \<open>uint\<close>s\<close>
  "netbox_hpwl box = u32 (rect_dy box + rect_dx box)"

definition findNetBoxes :: "dbBlock \<Rightarrow> (nat \<times> Rect) list" where
  "findNetBoxes b =
     map (\<lambda>n. (n, getTermBBox b (b_nets b ! n)))
       (filter (\<lambda>n. \<not> isSupply (b_nets b ! n) \<and> \<not> n_special (b_nets b ! n)) [0..<length (b_nets b)])"

definition inst_isCore :: "dbBlock \<Rightarrow> nat \<Rightarrow> bool" where
  "inst_isCore b i = mt_isCore (m_type (master_of b i))"

definition on_box_edge :: "Rect \<Rightarrow> int \<times> int \<Rightarrow> bool" where
  "on_box_edge box p \<longleftrightarrow>
     fst p = xMin box \<or> fst p = xMax box \<or> snd p = yMin box \<or> snd p = yMax box"

definition candidate_step :: "dbBlock \<Rightarrow> Rect \<Rightarrow> nat \<times> nat \<Rightarrow> nat list \<Rightarrow> nat list" where
  "candidate_step b box it cands =
     (let i = fst it in
      if inst_isCore b i \<and> \<not> inst_isFixed (inst_of b i) then
        (case getAvgXY b i (snd it) of
           Some p \<Rightarrow> if on_box_edge box p \<and> i \<notin> set cands then cands @ [i] else cands
         | None \<Rightarrow> cands)
      else cands)"

definition findMirrorCandidates :: "dbBlock \<Rightarrow> (nat \<times> Rect) list \<Rightarrow> nat list" where
  "findMirrorCandidates b net_boxes =
     fold (\<lambda>(n, box) cands. fold (candidate_step b box) (n_iterms (b_nets b ! n)) cands)
       net_boxes []"

definition hpwl_inst :: "dbBlock \<Rightarrow> nat \<Rightarrow> int" where
  \<comment> \<open>\<open>hpwl(dbInst*)\<close>: a sum over the terminals, so a net counts once for every terminal\<close>
  "hpwl_inst b i =
     fold (\<lambda>t inst_hpwl.
       case t of None \<Rightarrow> inst_hpwl | Some n \<Rightarrow> inst_hpwl + hpwl_net b (b_nets b ! n))
       (i_iterms (inst_of b i)) 0"

definition mirror_inst :: "nat \<Rightarrow> int \<times> dbBlock \<Rightarrow> int \<times> dbBlock" where
  \<comment> \<open>the body of the loop of \<open>mirrorCandidates\<close>\<close>
  "mirror_inst i acc =
     (case acc of (mirror_count, b) \<Rightarrow>
      let hpwl_before = hpwl_inst b i;
          orient = i_orient (inst_of b i);
          orient_my = orientMirrorY orient;
          b' = upd_inst i (setLocationOrient (master_of b i) orient_my) b;
          hpwl_after = hpwl_inst b' i
      in if hpwl_after > hpwl_before
         then (mirror_count, upd_inst i (setLocationOrient (master_of b' i) orient) b')
         else (mirror_count + 1, b'))"

definition mirrorCandidates :: "nat list \<Rightarrow> dbBlock \<Rightarrow> int \<times> dbBlock" where
  "mirrorCandidates mirror_candidates b = fold mirror_inst mirror_candidates (0, b)"

definition optimizeMirroring :: "(nat \<times> Rect) sorter \<Rightarrow> dbBlock \<Rightarrow> int \<times> dbBlock" where
  "optimizeMirroring srt b =
     (let net_boxes = srt (\<lambda>n1 n2. netbox_hpwl (snd n1) > netbox_hpwl (snd n2)) (findNetBoxes b)
      in mirrorCandidates (findMirrorCandidates b net_boxes) b)"

end
