(* ===== verification/Dpl_Example.thy ===== *)
theory Dpl_Example
  imports Dpl_Legality Dpl_Check Dpl_Filler Dpl_Mirror
begin

section \<open>A small design\<close>

text \<open>
  Concrete states on which the theorems are applied. \<open>demo_state\<close> is a design before the
  import: one row of five sites of 10 by 20 units, a movable cell of two sites that starts on
  top of a fixed one. \<open>demo_grid\<close> is a placer in front of \<open>place\<close>: a row of six free sites
  and two movable cells of two sites; in \<open>demo_pair\<close> they are placed at each other's ends.
\<close>

definition demo_master :: "int \<Rightarrow> dbMaster" where
  "demo_master w =
     \<lparr>m_type = MT_CORE, m_x = 0, m_y = 0, m_width = w, m_height = 20, m_obstructions = [],
      m_mterms = []\<rparr>"

definition demo_inst :: "string \<Rightarrow> int \<Rightarrow> int \<Rightarrow> dbPlacementStatus \<Rightarrow> dbInst" where
  "demo_inst name x y status =
     \<lparr>i_name = name, i_master = 0, i_x = x, i_y = y, i_orient = R0, i_status = status, i_source = SRC_NONE,
      i_bbox = rect_init x y (x + 20) (y + 20), i_iterms = []\<rparr>"

definition demo_row :: "int \<Rightarrow> dbRow" where
  "demo_row sites =
     \<lparr>row_x = 100, row_y = 200, row_orient = R0, row_dir = HORIZONTAL, row_site_cnt = sites,
      row_spacing = 10, site_w = 10, site_h = 20\<rparr>"

definition demo_block :: "dbRow list \<Rightarrow> dbInst list \<Rightarrow> dbBlock" where
  "demo_block rows insts =
     \<lparr>b_masters = [demo_master 20, demo_master 10], b_inst_hdrs = [0, 1], b_insts = insts,
      b_rows = rows, b_regions = [], b_nets = [], b_die_area = rect_init 0 0 400 400\<rparr>"

definition demo_state :: Opendp where
  "demo_state =
     \<lparr>block = demo_block [demo_row 5] [demo_inst ''u1'' 113 203 PS_PLACED, demo_inst ''u2'' 100 200 PS_FIRM],
      pad_left = 0, pad_right = 0, inst_padding_map = [],
      master_padding_map = [], cells = [], groups = [], db_master_map = (\<lambda>_. None),
      db_inst_map = (\<lambda>_. None), core = rect_init 0 0 0 0, initial_power = P_undefined,
      row0_orient_is_r0 = False, row0_top_power_is_vdd = False, macro_top_power = P_undefined,
      row_height = 0, site_width = 0, row_count = 0, row_site_count = 0,
      have_multi_row_cells = False, max_displacement_x = 0, max_displacement_y = 0,
      grid = (\<lambda>_. pixel_default), gap_fillers = [], filler_count = 0, hpwl_before = 0,
      displacement_avg = 0, displacement_sum = 0, displacement_max = 0\<rparr>"

definition demo_pixel :: Pixel where
  "demo_pixel = pixel_default\<lparr>is_valid := True, is_hopeless := False\<rparr>"

definition demo_cell :: "nat \<Rightarrow> int \<Rightarrow> int \<Rightarrow> Cell" where
  "demo_cell i x y = cell_default\<lparr>db_inst := i, cell_x := x, cell_y := y, cell_width := 20, cell_height := 20\<rparr>"

definition demo_grid :: Opendp where
  "demo_grid =
     demo_state\<lparr>block := demo_block [demo_row 6] [demo_inst ''u1'' 103 203 PS_PLACED, demo_inst ''u2'' 138 204 PS_PLACED],
       cells := [demo_cell 0 3 3, demo_cell 1 38 4], core := rect_init 100 200 160 220,
       row_height := 20, site_width := 10, row_count := 1, row_site_count := 6,
       max_displacement_x := 500, max_displacement_y := 100,
       db_master_map := (\<lambda>_. Some \<lparr>is_multi_row = False, top_power = P_undefined\<rparr>),
       grid := (\<lambda>(x, y). if 0 \<le> x \<and> x < 6 \<and> y = 0 then demo_pixel else pixel_default)\<rparr>"

definition demo_pair :: Opendp where
  "demo_pair = painted (painted demo_grid 0 4 0) 1 0 0"

lemma demo_fields:
  "site_width demo_grid = 10" "row_height demo_grid = 20" "row_site_count demo_grid = 6"
  "row_count demo_grid = 1" "length (cells demo_grid) = 2" "have_multi_row_cells demo_grid = False"
  "cells demo_grid = [demo_cell 0 3 3, demo_cell 1 38 4]"
  by (simp_all add: demo_grid_def demo_state_def)

lemma demo_movable: "movable demo_grid c \<longleftrightarrow> c = 0 \<or> c = 1"
proof -
  have "\<not> isFixed demo_grid (cell_of demo_grid 0)" "\<not> isFixed demo_grid (cell_of demo_grid 1)"
    by code_simp+
  then show ?thesis by (auto simp: movable_def demo_fields less_Suc_eq numeral_2_eq_2)
qed

lemma demo_unplaced: "c < 2 \<Longrightarrow> \<not> is_placed (cell_of demo_grid c)"
  by (auto simp: demo_grid_def demo_cell_def cell_default_def less_Suc_eq numeral_2_eq_2)

lemma demo_pixels: "in_grid demo_grid p \<Longrightarrow> grid demo_grid p = demo_pixel"
  by (cases p) (auto simp: demo_grid_def in_grid_def)

lemma demo_pixel_sel:
  "pixel_cell demo_pixel = None" "is_valid demo_pixel" "pixel_group demo_pixel = None"
  by (simp_all add: demo_pixel_def pixel_default_def)

lemma demo_none_placed: "movable demo_grid c \<Longrightarrow> \<not> is_placed (cell_of demo_grid c)"
  using demo_unplaced by (auto simp: movable_def demo_fields(5))

lemma demo_grid_ok: "grid_ok demo_grid"
  using demo_none_placed
  by (simp add: grid_ok_def demo_fields(1,2) owners_ok_def demo_pixels demo_pixel_sel)

lemma demo_sites_ok: "sites_ok demo_grid"
  using demo_none_placed by (simp add: sites_ok_def)

lemma demo_no_dummy: "no_dummy demo_grid"
  by (simp add: no_dummy_def demo_pixels demo_pixel_sel)

lemma demo_all_core: "all_core demo_grid"
  unfolding all_core_def demo_movable core_cell_def by (auto simp: demo_fields demo_cell_def)

lemma demo_masters_known: "masters_known demo_grid"
  by (simp add: masters_known_def demo_grid_def demo_state_def)

lemma demo_multi_known: "multi_known demo_grid"
proof -
  have "\<not> isMultiRow demo_grid (cell_of demo_grid 0)" "\<not> isMultiRow demo_grid (cell_of demo_grid 1)"
    by code_simp+
  then show ?thesis by (auto simp: multi_known_def demo_movable)
qed

lemma demo_shape:
  assumes "c = 0 \<or> c = 1"
  shows "gridPaddedWidth demo_grid (cell_of demo_grid c) = 2" "gridHeight demo_grid (cell_of demo_grid c) = 1"
    "padLeft demo_grid (cell_of demo_grid c) = 0" "padRight demo_grid (cell_of demo_grid c) = 0"
    "cell_group (cell_of demo_grid c) = None"
proof -
  have "map (\<lambda>cl. (gridPaddedWidth demo_grid cl, gridHeight demo_grid cl, padLeft demo_grid cl,
      padRight demo_grid cl, cell_group cl)) (cells demo_grid) = [(2, 1, 0, 0, None), (2, 1, 0, 0, None)]"
    by code_simp
  then have "map (\<lambda>cl. (gridPaddedWidth demo_grid cl, gridHeight demo_grid cl, padLeft demo_grid cl,
      padRight demo_grid cl, cell_group cl)) (cells demo_grid) ! c = (2, 1, 0, 0, None)"
    using assms by auto
  then have "(gridPaddedWidth demo_grid (cell_of demo_grid c), gridHeight demo_grid (cell_of demo_grid c),
      padLeft demo_grid (cell_of demo_grid c), padRight demo_grid (cell_of demo_grid c),
      cell_group (cell_of demo_grid c)) = (2, 1, 0, 0, None)"
    using assms by (subst (asm) nth_map) (auto simp: demo_fields)
  then show "gridPaddedWidth demo_grid (cell_of demo_grid c) = 2" "gridHeight demo_grid (cell_of demo_grid c) = 1"
    "padLeft demo_grid (cell_of demo_grid c) = 0" "padRight demo_grid (cell_of demo_grid c) = 0"
    "cell_group (cell_of demo_grid c) = None" by simp_all
qed

text \<open>The two placed cells.\<close>

definition demo_one :: Opendp where "demo_one = painted demo_grid 0 4 0"

lemma demo_one_free:
  "\<forall>p \<in> paint_box demo_grid 0 4 0. in_grid demo_grid p \<and> pixel_cell (grid demo_grid p) = None"
  using demo_shape(1,2) [of 0]
  by (auto simp: paint_box_def grid_box_def in_grid_def demo_fields demo_pixels demo_pixel_sel)

lemma demo_one_design: "same_design demo_grid demo_one"
  unfolding demo_one_def by (rule same_design_painted) (simp add: demo_fields)

lemma demo_one_ok:
  "grid_ok demo_one" "movable demo_one c \<longleftrightarrow> c = 0 \<or> c = 1"
  "is_placed (cell_of demo_one 0)" "\<not> is_placed (cell_of demo_one 1)" "length (cells demo_one) = 2"
proof -
  show "grid_ok demo_one"
    unfolding demo_one_def
    by (rule grid_ok_painted [OF demo_grid_ok _ _ demo_one_free])
      (use demo_movable demo_unplaced in simp_all)
  show "movable demo_one c \<longleftrightarrow> c = 0 \<or> c = 1"
    using demo_movable movable_same_design [OF demo_one_design] by simp
  have c: "cells demo_one = (cells demo_grid)[0 := painted_cell demo_grid (cell_of demo_grid 0) 4 0]"
    by (simp add: demo_one_def painted_sel)
  show "is_placed (cell_of demo_one 0)"
    unfolding c by (simp add: demo_fields(5) painted_cell_def)
  show "\<not> is_placed (cell_of demo_one 1)"
    unfolding c using demo_unplaced [of 1] by simp
  show "length (cells demo_one) = 2"
    unfolding c by (simp add: demo_fields(5))
qed

lemma demo_pair_free:
  "\<forall>p \<in> paint_box demo_one 1 0 0. in_grid demo_one p \<and> pixel_cell (grid demo_one p) = None"
proof -
  have c: "cell_of demo_one (Suc 0) = cell_of demo_grid (Suc 0)" by (simp add: demo_one_def painted_sel)
  have "paint_box demo_one 1 0 0 = {0..<2} \<times> {0..<1}"
    using demo_shape(1,2) [of 1] same_design_funs [OF demo_one_design]
    by (simp add: paint_box_def grid_box_def c)
  moreover have "paint_box demo_grid 0 4 0 = {4..<6} \<times> {0..<1}"
    using demo_shape(1,2) [of 0] by (simp add: paint_box_def grid_box_def)
  ultimately show ?thesis
    using in_grid_same_design [OF demo_one_design]
    by (auto simp: in_grid_def demo_fields(3,4) demo_one_def painted_sel demo_pixels demo_pixel_sel)
qed

lemma demo_pair_design: "same_design demo_grid demo_pair"
  unfolding demo_pair_def demo_one_def [symmetric]
  using same_design_trans [OF demo_one_design same_design_painted] demo_one_ok(5) by simp

lemma demo_pair_ok:
  "grid_ok demo_pair" "movable demo_pair c \<longleftrightarrow> c = 0 \<or> c = 1"
  "is_placed (cell_of demo_pair 0)" "is_placed (cell_of demo_pair 1)"
proof -
  have e: "demo_pair = painted demo_one 1 0 0" by (simp add: demo_pair_def demo_one_def)
  show "grid_ok demo_pair"
    unfolding e
    by (rule grid_ok_painted [OF demo_one_ok(1) _ _ demo_pair_free])
      (use demo_one_ok(2,4) in simp_all)
  show "movable demo_pair c \<longleftrightarrow> c = 0 \<or> c = 1"
    using demo_movable movable_same_design [OF demo_pair_design] by simp
  have c: "cells demo_pair = (cells demo_one)[1 := painted_cell demo_one (cell_of demo_one 1) 0 0]"
    by (simp add: e painted_sel)
  show "is_placed (cell_of demo_pair 0)" unfolding c using demo_one_ok(3) by simp
  show "is_placed (cell_of demo_pair 1)"
    unfolding c using demo_one_ok(5) by (simp add: painted_cell_def)
qed

lemma demo_pair_shape:
  assumes "c = 0 \<or> c = 1"
  shows "padLeft demo_pair (cell_of demo_pair c) = 0" "padRight demo_pair (cell_of demo_pair c) = 0"
    "cell_group (cell_of demo_pair c) = None"
proof -
  have "c < length (cells demo_grid)" using assms by (auto simp: demo_fields(5))
  note st = same_design_cell [OF demo_pair_design this]
  show "padLeft demo_pair (cell_of demo_pair c) = 0" "padRight demo_pair (cell_of demo_pair c) = 0"
    "cell_group (cell_of demo_pair c) = None"
    using demo_shape(3-5) [OF assms] same_design_inst_funs(1,2) [OF demo_pair_design]
      cell_static_funs(1,2) [OF st] cell_static_eqD(4) [OF st] by simp_all
qed

text \<open>What the evaluation of a projection says of a result.\<close>

lemma map_sum_Inr: "map_sum id f m = Inr y \<Longrightarrow> \<exists>x. m = Inr x \<and> f x = y"
  by (cases m) auto

lemma insertion_nat: "std_sort (insertion_sort :: nat sorter)"
  by (rule insertion.std_sort_axioms)

end
