(* ===== verification/Dpl_Improve.thy ===== *)
theory Dpl_Improve
  imports Dpl_Example
begin

section \<open>Improving moves\<close>

text \<open>
  \<open>swapCells\<close> and \<open>refineMove\<close> only move cells when the displacement falls. Both keep the
  ownership of the grid; on cells of the same padding a swap exchanges the locations of the
  two cells, on cells without padding on the left a refinement brings the cell closer to its
  initial location.
\<close>

subsection \<open>Swapping two cells\<close>

lemma swapCells_moves:
  assumes "grid_ok st" "c1 < length (cells st)" "c2 < length (cells st)"
    and "swapCells c1 c2 st = Inr (True, st')"
  obtains s2 s3 where "grid_steps any_site st s2" "grid_step any_site s2 s3" "grid_step any_site s3 st'"
    "\<And>a. a \<noteq> c1 \<Longrightarrow> a \<noteq> c2 \<Longrightarrow> cell_of s2 a = cell_of st a" "same_design st s2"
    "placed_cells st' = insert c2 (insert c1 (placed_cells s2))"
proof -
  obtain s1 s2 s3 x1 y1 x2 y2 where e: "erasePixel c1 st = Inr s1" "erasePixel c2 s1 = Inr s2"
    "paintPixel c1 x1 y1 s2 = Inr s3" "paintPixel c2 x2 y2 s3 = Inr st'"
    and m: "movable st c1" "movable st c2"
    using assms(2-4) by (auto simp: swapCells_def Let_def movable_def split: if_splits)
  have p1: "grid_steps any_site st s1" using erasePixel_steps(1) [OF assms(1,2)] e(1) by auto
  have k1: "grid_ok s1" "same_design st s1" using grid_steps_keep [OF p1 assms(1)] by auto
  have l1: "c2 < length (cells s1)" using assms(3) same_design_length [OF k1(2)] by simp
  then have p2: "grid_steps any_site s1 s2"
    using erasePixel_steps(1) [OF k1(1), of c2 any_site] e(2) by auto
  have k2: "same_design s1 s2" using grid_steps_keep [OF p2 k1(1)] by auto
  have m2: "movable s2 c1" "movable s2 c2"
    using m movable_same_design [OF k1(2)] movable_same_design [OF k2] by auto
  note w1 = paintPixel_step [OF m2(1) e(3)]
  then have p3: "grid_step any_site s2 s3"
    using m2(1) by (auto intro!: step_paint simp: any_site_def)
  have m3: "movable s3 c2" using m2(2) movable_same_design [OF grid_step_design [OF p3]] by simp
  note w2 = paintPixel_step [OF m3 e(4)]
  then have p4: "grid_step any_site s3 st'"
    using m3 by (auto intro!: step_paint simp: any_site_def)
  have "cell_of s2 a = cell_of st a" if "a \<noteq> c1" "a \<noteq> c2" for a
    using erasePixel_steps(3) [OF assms(1,2) e(1) that(1)] erasePixel_steps(3) [OF k1(1) l1 e(2) that(2)]
    by simp
  moreover have "placed_cells st' = insert c2 (insert c1 (placed_cells s2))"
    using w1(1) w2(1) m2(1) m3 by (simp add: placed_cells_painted movable_def)
  ultimately show thesis
    using that p1 p2 p3 p4 same_design_trans [OF k1(2) k2] by (meson rtranclp_trans)
qed

lemma swapCells_steps:
  assumes "grid_ok st" "c1 < length (cells st)" "c2 < length (cells st)"
    and "swapCells c1 c2 st = Inr (ok, st')"
  shows "grid_steps any_site st st'" "placed_cells st \<subseteq> placed_cells st'"
proof -
  have "grid_steps any_site st st' \<and> placed_cells st \<subseteq> placed_cells st'"
  proof (cases ok)
    case True
    with assms(4) have "swapCells c1 c2 st = Inr (True, st')" by simp
    from swapCells_moves [OF assms(1-3) this]
    obtain s2 s3 where "grid_steps any_site st s2" "grid_step any_site s2 s3" "grid_step any_site s3 st'"
      and o: "\<And>a. a \<noteq> c1 \<Longrightarrow> a \<noteq> c2 \<Longrightarrow> cell_of s2 a = cell_of st a" and d: "same_design st s2"
      and p: "placed_cells st' = insert c2 (insert c1 (placed_cells s2))" by blast
    moreover have "placed_cells st \<subseteq> placed_cells st'"
      unfolding p using o same_design_length [OF d] by (auto simp: placed_cells_def)
    ultimately show ?thesis by (meson rtranclp.rtrancl_into_rtrancl)
  next
    case False
    then have "st' = st" using assms(4) by (auto simp: swapCells_def Let_def split: if_splits)
    then show ?thesis by simp
  qed
  then show "grid_steps any_site st st'" "placed_cells st \<subseteq> placed_cells st'" by auto
qed

text \<open>Two placed cells of one size and padding have the same shape on the grid.\<close>

lemma same_shape:
  assumes "cell_width a = cell_width b" "cell_height a = cell_height b"
    and "padLeft st a = padLeft st b" "padRight st a = padRight st b"
  shows "gridPaddedWidth st a = gridPaddedWidth st b" "gridHeight st a = gridHeight st b"
  using assms by (simp_all add: gridPaddedWidth_def paddedWidth_def gridHeight_def)

lemma erase_two:
  assumes ok: "grid_ok st" and m: "movable st c1" "movable st c2" "c1 \<noteq> c2"
    and p: "is_placed (cell_of st c1)" "is_placed (cell_of st c2)"
  defines "s2 \<equiv> erased (erased st c1) c2"
  shows "erasePixel c1 st = Inr (erased st c1)" "erasePixel c2 (erased st c1) = Inr s2"
    "same_design st s2"
    "cell_of s2 c1 = (cell_of st c1)\<lparr>is_placed := False, hold := False\<rparr>"
    "cell_of s2 c2 = (cell_of st c2)\<lparr>is_placed := False, hold := False\<rparr>"
    "\<And>a. a \<noteq> c1 \<Longrightarrow> a \<noteq> c2 \<Longrightarrow> cell_of s2 a = cell_of st a" "length (cells s2) = length (cells st)"
    "\<And>q. grid s2 q = (if q \<in> footprint st (cell_of st c1) \<union> footprint st (cell_of st c2)
       then clear_pixel (grid st q) else grid st q)"
proof -
  have c: "c1 < length (cells st)" "c2 < length (cells st)" using m by (auto simp: movable_def)
  have o: "owned st c1" "owned st c2" using ok m p by (auto simp: grid_ok_def)
  show e1: "erasePixel c1 st = Inr (erased st c1)" by (rule erasePixel_owned [OF m(1) p(1) o(1)])
  have d1: "same_design st (erased st c1)" using c by (simp add: same_design_erased)
  have k1: "grid_ok (erased st c1)" "movable (erased st c1) c2" "is_placed (cell_of (erased st c1) c2)"
    using grid_ok_erased [OF ok m(1) p(1)] movable_same_design [OF d1] m p by (auto simp: erased_sel)
  then have "owned (erased st c1) c2" by (simp add: grid_ok_def)
  then show "erasePixel c2 (erased st c1) = Inr s2"
    using k1 erasePixel_owned by (simp add: s2_def)
  have "same_design (erased st c1) s2"
    unfolding s2_def using c(2) same_design_length [OF d1] by (intro same_design_erased) simp
  then show "same_design st s2" using d1 same_design_trans by blast
  show "cell_of s2 c1 = (cell_of st c1)\<lparr>is_placed := False, hold := False\<rparr>"
    "cell_of s2 c2 = (cell_of st c2)\<lparr>is_placed := False, hold := False\<rparr>"
    "\<And>a. a \<noteq> c1 \<Longrightarrow> a \<noteq> c2 \<Longrightarrow> cell_of s2 a = cell_of st a" "length (cells s2) = length (cells st)"
    using m(3) c by (simp_all add: s2_def erased_sel)
  show "grid s2 q = (if q \<in> footprint st (cell_of st c1) \<union> footprint st (cell_of st c2)
      then clear_pixel (grid st q) else grid st q)" for q
    using m(3) footprint_same_design [OF d1] by (auto simp: s2_def erased_sel)
qed

lemma exchange_paint:
  assumes ok: "grid_ok st" and m: "movable st c1" "movable st c2" "c1 \<noteq> c2"
    and p: "is_placed (cell_of st c1)" "is_placed (cell_of st c2)"
    and shape: "gridPaddedWidth st (cell_of st c1) = gridPaddedWidth st (cell_of st c2)"
      "gridHeight st (cell_of st c1) = gridHeight st (cell_of st c2)"
    and pad: "padLeft st (cell_of st c1) = padLeft st (cell_of st c2)"
  defines "s2 \<equiv> erased (erased st c1) c2"
    and "x1 \<equiv> gridPaddedX st (cell_of st c2)" and "y1 \<equiv> cellY st (cell_of st c2)"
    and "x2 \<equiv> gridPaddedX st (cell_of st c1)" and "y2 \<equiv> cellY st (cell_of st c1)"
  defines "s3 \<equiv> painted s2 c1 x1 y1"
  shows "paintPixel c1 x1 y1 s2 = Inr s3" "paintPixel c2 x2 y2 s3 = Inr (painted s3 c2 x2 y2)"
    "paint_box s2 c1 x1 y1 = footprint st (cell_of st c2)"
    "paint_box s3 c2 x2 y2 = footprint st (cell_of st c1)"
    "same_design s2 s3"
    "cell_x (cell_of (painted s3 c2 x2 y2) c1) = cell_x (cell_of st c2)"
    "cell_y (cell_of (painted s3 c2 x2 y2) c1) = cell_y (cell_of st c2)"
    "cell_x (cell_of (painted s3 c2 x2 y2) c2) = cell_x (cell_of st c1)"
    "cell_y (cell_of (painted s3 c2 x2 y2) c2) = cell_y (cell_of st c1)"
    "\<And>a. a \<noteq> c1 \<Longrightarrow> a \<noteq> c2 \<Longrightarrow> cell_of (painted s3 c2 x2 y2) a = cell_of st a"
proof -
  have c: "c1 < length (cells st)" "c2 < length (cells st)" using m by (auto simp: movable_def)
  have w: "0 < site_width st" "0 < row_height st" using ok by (auto simp: grid_ok_def)
  have o: "owned st c1" "owned st c2" using ok m p by (auto simp: grid_ok_def)
  note two = erase_two [OF ok m p, folded s2_def]
  note d2 = two(3) and cells2 = two(4-7) and grid2 = two(8)
  have st2: "cell_static (cell_of s2 c1) = cell_static (cell_of st c1)"
    "cell_static (cell_of s2 c2) = cell_static (cell_of st c2)"
    using same_design_cell [OF d2] c by auto
  have f: "footprint st (cell_of st c) = grid_box (gridPaddedX st (cell_of st c)) (cellY st (cell_of st c))
      (gridPaddedWidth st (cell_of st c)) (gridHeight st (cell_of st c))"
    "cell_x (cell_of st c) = (gridPaddedX st (cell_of st c) + padLeft st (cell_of st c)) * site_width st"
    "cell_y (cell_of st c) = cellY st (cell_of st c) * row_height st" if "owned st c" for c
    using footprint_aligned [OF w] that by (auto simp: owned_def Let_def)
  show b1: "paint_box s2 c1 x1 y1 = footprint st (cell_of st c2)"
    using f(1) [OF o(2)] shape cell_static_funs [OF st2(1)] same_design_funs [OF d2]
    by (simp add: paint_box_def x1_def y1_def)
  have free2: "\<forall>q \<in> paint_box s2 c1 x1 y1. in_grid s2 q \<and> pixel_cell (grid s2 q) = None"
    using o(2) unfolding b1 by (auto simp: grid2 in_grid_same_design [OF d2] owned_def Let_def)
  then show "paintPixel c1 x1 y1 s2 = Inr s3"
    using c cells2(1,4) by (simp add: paintPixel_iff s3_def)
  show d23: "same_design s2 s3" unfolding s3_def using c cells2(4) by (simp add: same_design_painted)
  have d3: "same_design st s3" using d2 d23 by (rule same_design_trans)
  have cells3: "cell_of s3 c1 = painted_cell s2 (cell_of s2 c1) x1 y1" "cell_of s3 c2 = cell_of s2 c2"
    "\<And>a. a \<noteq> c1 \<Longrightarrow> cell_of s3 a = cell_of s2 a" "length (cells s3) = length (cells st)"
    using m(3) c cells2(4) by (simp_all add: s3_def painted_sel)
  have st3: "cell_static (cell_of s3 c2) = cell_static (cell_of st c2)"
    using same_design_cell [OF d3] c by auto
  show b2: "paint_box s3 c2 x2 y2 = footprint st (cell_of st c1)"
    using f(1) [OF o(1)] shape cell_static_funs [OF st3] same_design_funs [OF d3]
    by (simp add: paint_box_def x2_def y2_def)
  have "footprint st (cell_of st c1) \<inter> footprint st (cell_of st c2) = {}"
    by (rule grid_ok_disjoint [OF ok m p])
  then have free3: "\<forall>q \<in> paint_box s3 c2 x2 y2. in_grid s3 q \<and> pixel_cell (grid s3 q) = None"
    using o(1) unfolding b2
    by (auto simp: s3_def painted_sel b1 grid2 in_grid_same_design [OF d3, unfolded s3_def] owned_def Let_def)
  then show "paintPixel c2 x2 y2 s3 = Inr (painted s3 c2 x2 y2)"
    using c cells3(2,4) cells2(2) by (simp add: paintPixel_iff)
  have pads: "padLeft s2 (cell_of s2 c1) = padLeft st (cell_of st c2)"
    "padLeft s3 (cell_of s3 c2) = padLeft st (cell_of st c1)" "site_width s2 = site_width st"
    "site_width s3 = site_width st" "row_height s2 = row_height st" "row_height s3 = row_height st"
    using pad cell_static_funs [OF st2(1)] cell_static_funs [OF st3] same_design_simps [OF d2]
      same_design_simps [OF d3] by auto
  show "cell_x (cell_of (painted s3 c2 x2 y2) c1) = cell_x (cell_of st c2)"
    "cell_y (cell_of (painted s3 c2 x2 y2) c1) = cell_y (cell_of st c2)"
    using m(3) f(2,3) [OF o(2)] pads
    by (simp_all add: painted_sel cells3 painted_cell_def setGridPaddedLoc_def x1_def y1_def)
  show "cell_x (cell_of (painted s3 c2 x2 y2) c2) = cell_x (cell_of st c1)"
    "cell_y (cell_of (painted s3 c2 x2 y2) c2) = cell_y (cell_of st c1)"
    using m(3) c f(2,3) [OF o(1)] pads cells3(4)
    by (simp_all add: painted_sel painted_cell_def setGridPaddedLoc_def x2_def y2_def)
  show "cell_of (painted s3 c2 x2 y2) a = cell_of st a" if "a \<noteq> c1" "a \<noteq> c2" for a
    using that cells3(3) cells2(3) by (simp add: painted_sel)
qed

lemma swapCells_exchange_lemma:
  assumes "grid_ok st" "movable st c1" "movable st c2"
    and "is_placed (cell_of st c1)" "is_placed (cell_of st c2)"
    and "padLeft st (cell_of st c1) = padLeft st (cell_of st c2)"
      "padRight st (cell_of st c1) = padRight st (cell_of st c2)"
  shows "swapCells c1 c2 st = Inr (False, st) \<or>
     (\<exists>st'. swapCells c1 c2 st = Inr (True, st') \<and> c1 \<noteq> c2
        \<and> cell_x (cell_of st' c1) = cell_x (cell_of st c2) \<and> cell_y (cell_of st' c1) = cell_y (cell_of st c2)
        \<and> cell_x (cell_of st' c2) = cell_x (cell_of st c1) \<and> cell_y (cell_of st' c2) = cell_y (cell_of st c1)
        \<and> (\<forall>a. a \<noteq> c1 \<longrightarrow> a \<noteq> c2 \<longrightarrow> cell_of st' a = cell_of st a)
        \<and> distChange st (cell_of st c1) (cell_x (cell_of st c2)) (cell_y (cell_of st c2))
          + distChange st (cell_of st c2) (cell_x (cell_of st c1)) (cell_y (cell_of st c1)) < 0
        \<and> (sites_ok st \<longrightarrow> cell_group (cell_of st c1) = cell_group (cell_of st c2) \<longrightarrow> sites_ok st'))"
proof (cases "c1 \<noteq> c2 \<and> \<not> hold (cell_of st c1) \<and> \<not> hold (cell_of st c2)
    \<and> cell_width (cell_of st c1) = cell_width (cell_of st c2)
    \<and> cell_height (cell_of st c1) = cell_height (cell_of st c2)
    \<and> distChange st (cell_of st c1) (cell_x (cell_of st c2)) (cell_y (cell_of st c2))
      + distChange st (cell_of st c2) (cell_x (cell_of st c1)) (cell_y (cell_of st c1)) < 0")
  case True
  then have ne: "c1 \<noteq> c2" by simp
  have sh: "gridPaddedWidth st (cell_of st c1) = gridPaddedWidth st (cell_of st c2)"
    "gridHeight st (cell_of st c1) = gridHeight st (cell_of st c2)"
    using same_shape [OF _ _ assms(6,7)] True by blast+
  note two = erase_two [OF assms(1-3) ne assms(4,5)]
  note ex = exchange_paint [OF assms(1-3) ne assms(4,5) sh assms(6)]
  let ?s2 = "erased (erased st c1) c2"
  let ?s3 = "painted ?s2 c1 (gridPaddedX st (cell_of st c2)) (cellY st (cell_of st c2))"
  let ?s4 = "painted ?s3 c2 (gridPaddedX st (cell_of st c1)) (cellY st (cell_of st c1))"
  have "\<not> isFixed st (cell_of st c1)" "\<not> isFixed st (cell_of st c2)"
    using assms(2,3) by (auto simp: movable_def)
  then have "swapCells c1 c2 st =
      bindE (erasePixel c1 st) (\<lambda>s1. bindE (erasePixel c2 s1) (\<lambda>s2.
      bindE (paintPixel c1 (gridPaddedX st (cell_of st c2)) (cellY st (cell_of st c2)) s2) (\<lambda>s3.
      bindE (paintPixel c2 (gridPaddedX st (cell_of st c1)) (cellY st (cell_of st c1)) s3)
        (\<lambda>s4. Inr (True, s4)))))"
    using True unfolding swapCells_def Let_def by (simp only: if_True simp_thms)
  then have r: "swapCells c1 c2 st = Inr (True, ?s4)"
    by (simp only: two(1,2) ex(1,2) bindE_simps)
  have "sites_ok ?s4" if s: "sites_ok st" and g: "cell_group (cell_of st c1) = cell_group (cell_of st c2)"
  proof -
    have v: "is_valid (grid st p) \<and> pixel_group (grid st p) = cell_group (cell_of st c)"
      if "p \<in> footprint st (cell_of st c1) \<union> footprint st (cell_of st c2)" "c \<in> {c1, c2}" for p c
      using that s g assms(2-5) unfolding sites_ok_def by auto
    have d1: "same_design st (erased st c1)"
      using assms(2) by (simp add: same_design_erased movable_def)
    have m: "movable (erased st c1) c2" "movable ?s2 c1" "movable ?s3 c2"
      using assms(2,3) movable_same_design [OF d1] movable_same_design [OF two(3)]
        movable_same_design [OF ex(5)] by simp_all
    have w: "0 < site_width ?s2" "0 < row_height ?s2" "0 < site_width ?s3" "0 < row_height ?s3"
      using assms(1) same_design_fields [OF two(3)] same_design_fields [OF ex(5)]
      by (simp_all add: grid_ok_def)
    have g2: "cell_group (cell_of ?s2 c1) = cell_group (cell_of st c1)"
      "cell_group (cell_of ?s3 c2) = cell_group (cell_of st c2)"
      using two(4,5) ne by (simp_all add: painted_sel)
    have "sites_ok ?s2" using s assms(2) m(1) by (blast intro: sites_ok_erased)
    then have "sites_ok ?s3"
      by (rule sites_ok_painted [OF _ m(2) w(1,2)])
        (use v in \<open>auto simp: ex(3) g2 same_design_pixel [OF two(3)]\<close>)
    then show ?thesis
      by (rule sites_ok_painted [OF _ m(3) w(3,4)])
        (use v in \<open>auto simp: ex(4) g2 same_design_pixel [OF two(3)] same_design_pixel [OF ex(5)]\<close>)
  qed
  then show ?thesis using r ne ex(6-10) True by blast
next
  case False
  then have "swapCells c1 c2 st = Inr (False, st)" by (auto simp: swapCells_def Let_def)
  then show ?thesis by blast
qed

text \<open>The displacement of a cell depends on its location only.\<close>

lemma disp_at:
  assumes "same_design st st'" "c < length (cells st)"
  shows "disp st' (cell_of st' c) =
     \<bar>getX (initialLocation st (cell_of st c) False) - cell_x (cell_of st' c)\<bar>
     + \<bar>getY (initialLocation st (cell_of st c) False) - cell_y (cell_of st' c)\<bar>"
  using cell_static_initialLocation [OF same_design_cell [OF assms]] same_design_inst_funs [OF assms(1)]
  by (simp add: disp_def Let_def)

lemma disp_distChange:
  assumes "same_design st st'" "c < length (cells st)"
  shows "disp st' (cell_of st' c) =
     disp st (cell_of st c) + distChange st (cell_of st c) (cell_x (cell_of st' c)) (cell_y (cell_of st' c))"
  by (simp only: disp_at [OF assms]) (simp add: disp_def distChange_def Let_def abs_minus_commute)

subsection \<open>Moving one cell to a better place\<close>

lemma refineMove_result:
  assumes ok: "grid_ok st" and m: "movable st c" and r: "refineMove c st = Inr (b, st')"
  shows "if b then \<exists>gx gy. grid_steps legal_site st st' \<and> same_design st st'
              \<and> cell_x (cell_of st' c) = (gx + padLeft st (cell_of st c)) * site_width st
              \<and> cell_y (cell_of st' c) = gy * row_height st
              \<and> distChange st (cell_of st c) (gx * site_width st) (gy * row_height st) < 0
              \<and> placed_cells st' = insert c (placed_cells st)
              \<and> (\<forall>a. a \<noteq> c \<longrightarrow> cell_of st' a = cell_of st a)
         else st' = st"
proof (cases b)
  case True
  let ?cl = "cell_of st c"
  obtain pt where "legalGridPt_cell st ?cl True = Inr pt"
    using r by (auto simp: refineMove_def Let_def)
  moreover define gx gy where "gx = getX (pp_pt (diamondSearch st ?cl (getX pt) (getY pt)))"
    and "gy = getY (pp_pt (diamondSearch st ?cl (getX pt) (getY pt)))"
  ultimately obtain u where found: "pp_pixel (diamondSearch st ?cl (getX pt) (getY pt)) \<noteq> None"
    and d: "distChange st ?cl (gx * site_width st) (gy * row_height st) < 0"
    and u: "erasePixel c st = Inr u" and v: "paintPixel c gx gy u = Inr st'"
    using r True by (auto simp: refineMove_def Let_def split: if_splits)
  have c: "c < length (cells st)" using m by (simp add: movable_def)
  have f: "fits_at st ?cl gx gy" using diamondSearch_fits [OF found] by (simp add: gx_def gy_def)
  have s1: "grid_steps legal_site st u" using erasePixel_steps(1) [OF ok c, of legal_site] u by auto
  have k: "grid_ok u" "same_design st u" using grid_steps_keep [OF s1 ok] by auto
  have mu: "movable u c" "c < length (cells u)"
    using m movable_same_design [OF k(2)] same_design_length [OF k(2)] c by auto
  note w = paintPixel_step [OF mu(1) v]
  note st = same_design_cell [OF k(2) c]
  have "paint_box u c gx gy = paint_box st c gx gy"
    using cell_static_funs [OF st] same_design_funs [OF k(2)] by (simp add: paint_box_def)
  then have "legal_site u c gx gy"
    using fits_at_legal [OF f] cell_static_eqD [OF st] same_design_pixel [OF k(2)]
    by (simp add: legal_site_def)
  then have s2: "grid_step legal_site u st'" unfolding w(1) using mu(1) w(2,3) by (intro step_paint)
  then have s: "grid_steps legal_site st st'" using s1 by simp
  have sd: "same_design st st'" using grid_steps_keep [OF s ok] by blast
  have "placed_cells st' = insert c (placed_cells st)"
    using w(1) placed_cells_painted [OF mu(2)] erasePixel_steps(3) [OF ok c u] same_design_length [OF k(2)]
    by (auto simp: placed_cells_def)
  moreover have "cell_of st' a = cell_of st a" if "a \<noteq> c" for a
    using w(1) erasePixel_steps(3) [OF ok c u that] that by (simp add: painted_sel)
  moreover have "cell_x (cell_of st' c) = (gx + padLeft st ?cl) * site_width st"
    "cell_y (cell_of st' c) = gy * row_height st"
    using w(1) mu(2) cell_static_funs [OF st] same_design_simps [OF k(2)]
    by (simp_all add: painted_sel painted_cell_def setGridPaddedLoc_def)
  ultimately show ?thesis using True s sd d by auto
next
  case False
  then show ?thesis using r by (auto simp: refineMove_def Let_def split: if_splits)
qed

end
