(* ===== verification/Dpl_Run.thy ===== *)
theory Dpl_Run
  imports Dpl_Improve
begin

section \<open>The grid before and after the placement\<close>

text \<open>
  \<open>initGrid\<close>, \<open>setFixedGridCells\<close>, \<open>groupInitPixels2\<close> and \<open>groupInitPixels\<close> only write the
  grid (\<open>grid_only\<close>) and give pixels to fixed cells and the dummy cell at most
  (\<open>owners_fixed\<close>), so the placement starts with the invariant \<open>grid_ok\<close>.
\<close>

subsection \<open>Preparing the grid\<close>

definition owner_fixed :: "Opendp \<Rightarrow> cell_ptr option \<Rightarrow> bool" where
  "owner_fixed st q \<longleftrightarrow>
     (\<forall>c. q = Some (CellAt c) \<longrightarrow> c < length (cells st) \<and> isFixed st (cell_of st c))"

definition prepared :: "Opendp \<Rightarrow> Opendp \<Rightarrow> bool" where
  "prepared st0 st \<longleftrightarrow>
     (\<exists>G. st = st0\<lparr>grid := G\<rparr> \<and> (\<forall>p. in_grid st0 p \<longrightarrow> owner_fixed st0 (pixel_cell (G p))))"

lemma prepared_upd_pixel:
  assumes "prepared st0 st"
    and "\<And>px. owner_fixed st0 (pixel_cell px) \<Longrightarrow> owner_fixed st0 (pixel_cell (f px))"
  shows "prepared st0 (upd_pixel p f st)"
proof -
  obtain G where G: "st = st0\<lparr>grid := G\<rparr>" "\<forall>p. in_grid st0 p \<longrightarrow> owner_fixed st0 (pixel_cell (G p))"
    using assms(1) by (auto simp: prepared_def)
  have "upd_pixel p f st = st0\<lparr>grid := G(p := f (G p))\<rparr>" by (simp add: G(1) upd_pixel_def)
  moreover have "\<forall>q. in_grid st0 q \<longrightarrow> owner_fixed st0 (pixel_cell ((G(p := f (G p))) q))"
    using G(2) assms(2) by (metis fun_upd_apply)
  ultimately show ?thesis unfolding prepared_def by blast
qed

text \<open>The rule for loops that write pixels.\<close>

lemma prepared_fold:
  assumes "prepared st0 st" "\<And>x s. x \<in> set xs \<Longrightarrow> prepared st0 s \<Longrightarrow> prepared st0 (f x s)"
  shows "prepared st0 (fold f xs st)"
  using assms by (rule fold_invariant [of xs "\<lambda>x. x \<in> set xs", rotated])

lemma prepared_same:
  assumes "prepared st0 st"
  shows "cells st = cells st0" "groups st = groups st0" "isFixed st = isFixed st0"
    "in_grid st = in_grid st0" "row_site_count st = row_site_count st0" "row_count st = row_count st0"
    "site_width st = site_width st0" "row_height st = row_height st0" "block st = block st0"
  using assms by (auto simp: prepared_def isFixed_def in_grid_def fun_eq_iff)

lemma mark_valid_prepared: "prepared st0 st \<Longrightarrow> keeps (prepared st0) (mark_valid y x st)"
  by (auto simp: mark_valid_def intro!: keeps_intros prepared_upd_pixel)

lemma init_row_prepared:
  assumes "prepared st0 st"
  shows "keeps (prepared st0) (init_row row st)"
  unfolding init_row_def Let_def case_prod_unfold
  by (intro keeps_intros prepared_fold prepared_upd_pixel mark_valid_prepared assms) auto

lemma initGrid_prepared: "keeps (prepared st) (initGrid st)"
  unfolding initGrid_def
proof (intro keeps_intros init_row_prepared)
  show "prepared st (st\<lparr>grid := (\<lambda>(x, y). if x \<ge> 0 \<and> x < row_site_count st \<and> y \<ge> 0 \<and> y < row_count st
                          then pixel_default else grid st (x, y))\<rparr>)"
    unfolding prepared_def
    by (intro exI conjI, rule refl) (auto simp: in_grid_def owner_fixed_def pixel_default_def)
qed

lemma setFixedGridCells_prepared:
  assumes "prepared st0 st"
  shows "prepared st0 (setFixedGridCells st)"
  unfolding setFixedGridCells_def
proof (rule prepared_fold [OF assms])
  fix c s assume c: "c \<in> set [0..<length (cells st)]" and s: "prepared st0 s"
  show "prepared st0 (if isFixed s (cell_of s c)
      then visitCellPixels s (cell_of s c) True (setGridCell c) s else s)"
  proof (cases "isFixed s (cell_of s c)")
    case True
    then have "owner_fixed st0 (Some (CellAt c))"
      using c prepared_same [OF s] prepared_same [OF assms] by (simp add: owner_fixed_def)
    then have "prepared st0 (fold (setGridCell c) ps s)" for ps
      by (intro prepared_fold [OF s]) (auto simp: setGridCell_def intro: prepared_upd_pixel)
    then show ?thesis using True by (simp add: visitCellPixels_def)
  qed (use s in simp)
qed

lemma owner_fixed_simps [simp]: "owner_fixed st None" "owner_fixed st (Some DummyCell)"
  by (simp_all add: owner_fixed_def)

lemma groupInitPixels2_prepared:
  assumes "prepared st0 st"
  shows "prepared st0 (groupInitPixels2 st)"
proof -
  have b: "prepared st0 (if q then upd_pixel p block_pixel s else s)" if "prepared st0 s" for q p s
    using that by (auto simp: block_pixel_def intro: prepared_upd_pixel)
  show ?thesis
    unfolding groupInitPixels2_def Let_def case_prod_unfold
    by (intro prepared_fold [OF assms] prepared_fold b; assumption?)
qed

lemma on_pixel_prepared:
  assumes "\<And>q. prepared st0 (f q st)"
  shows "keeps (prepared st0) (on_pixel p f st)"
  using assms by (auto simp: on_pixel_def split: option.splits intro: keeps_intros)

lemma add_util_prepared: "prepared st0 st \<Longrightarrow> prepared st0 (add_util u p st)"
  by (auto simp: add_util_def intro: prepared_upd_pixel)

lemma group_pixel_prepared: "prepared st0 st \<Longrightarrow> prepared st0 (group_pixel g p st)"
  by (auto simp: group_pixel_def block_pixel_def intro: prepared_upd_pixel)

lemma group_util_row_prepared:
  assumes "prepared st0 st"
  shows "keeps (prepared st0) (group_util_row rect k st)"
  unfolding group_util_row_def Let_def
  by (intro keeps_intros on_pixel_prepared add_util_prepared assms)

lemma groupInitPixels_prepared:
  assumes "prepared st0 st"
  shows "keeps (prepared st0) (groupInitPixels st)"
  unfolding groupInitPixels_def Let_def
  by (intro keeps_intros on_pixel_prepared group_util_row_prepared group_pixel_prepared
      prepared_fold prepared_upd_pixel assms) auto

text \<open>Where the placement starts: no movable cell is placed, fixed cells count as placed.\<close>

definition imported :: "Opendp \<Rightarrow> bool" where
  "imported st \<longleftrightarrow>
     0 < site_width st \<and> 0 < row_height st \<and> multi_known st
     \<and> (\<forall>c < length (cells st). is_placed (cell_of st c) = isFixed st (cell_of st c))
     \<and> (\<forall>gr \<in> set (groups st). \<forall>c \<in> set (g_cells gr). c < length (cells st))"

lemma prepared_grid_ok:
  assumes "imported st0" "prepared st0 st"
  shows "grid_ok st" "sites_ok st" "imported st"
proof -
  note s = prepared_same [OF assms(2)]
  have m: "\<not> is_placed (cell_of st c)" if "movable st c" for c
    using that assms(1) by (simp add: imported_def movable_def s)
  show "grid_ok st"
    using assms m s unfolding grid_ok_def owners_ok_def imported_def
    by (auto simp: prepared_def owner_fixed_def in_grid_def isFixed_def)
  show "sites_ok st" using m by (simp add: sites_ok_def)
  have "multi_known st = multi_known st0"
    using assms(2)
    by (auto simp: prepared_def multi_known_def movable_def isMultiRow_def macro_of_def isFixed_def)
  then show "imported st" using assms(1) by (simp add: imported_def s)
qed

end
