(* ===== verification/Dpl_Groups.thy ===== *)
theory Dpl_Groups
  imports Dpl_Run
begin

section \<open>The placement of groups\<close>

text \<open>
  The drivers for groups and the improvement passes keep the ownership of the grid and never
  leave a cell unplaced that was placed before; after \<open>placeGroups\<close> every movable cell of a
  group is placed. \<open>run_ok st0 P st\<close> is the invariant of the run: the grid is consistent, the
  design is that of \<open>st0\<close>, the cells of \<open>P\<close> are placed, fixed cells count as placed and only
  placed cells are held.
\<close>

definition flags_ok :: "Opendp \<Rightarrow> bool" where
  "flags_ok st \<longleftrightarrow>
     (\<forall>c < length (cells st). (isFixed st (cell_of st c) \<longrightarrow> is_placed (cell_of st c))
        \<and> (hold (cell_of st c) \<longrightarrow> is_placed (cell_of st c)))"

definition upright_ok :: "Opendp \<Rightarrow> Opendp \<Rightarrow> bool" where
  \<comment> \<open>no cell is turned on its side\<close>
  "upright_ok st0 st \<longleftrightarrow>
     (\<forall>c < length (cells st0). swapWidthHeight (cell_orient (cell_of st c)) \<longrightarrow>
        swapWidthHeight (cell_orient (cell_of st0 c)))"

definition run_ok :: "Opendp \<Rightarrow> nat set \<Rightarrow> Opendp \<Rightarrow> bool" where
  "run_ok st0 P st \<longleftrightarrow>
     grid_ok st \<and> same_design st0 st \<and> P \<subseteq> placed_cells st \<and> flags_ok st \<and> upright_ok st0 st"

lemma run_okD:
  assumes "run_ok st0 P st"
  shows "grid_ok st" "same_design st0 st" "P \<subseteq> placed_cells st" "flags_ok st"
    "length (cells st) = length (cells st0)" "upright_ok st0 st"
  using assms same_design_length by (auto simp: run_ok_def)

lemma flags_ok_step:
  assumes "grid_step Q st st'" "flags_ok st"
  shows "flags_ok st'"
proof -
  have sd: "same_design st st'" using assms(1) by (rule grid_step_design)
  show ?thesis
    unfolding flags_ok_def
  proof (intro allI impI)
    fix a assume "a < length (cells st')"
    then have a: "a < length (cells st)" using same_design_length [OF sd] by simp
    have f: "isFixed st' (cell_of st' a) = isFixed st (cell_of st a)"
      using isFixed_same_design [OF sd a] .
    have "(isFixed st (cell_of st a) \<longrightarrow> is_placed (cell_of st a)) \<and> (hold (cell_of st a) \<longrightarrow> is_placed (cell_of st a))"
      using assms(2) a by (simp add: flags_ok_def)
    with assms(1) show "(isFixed st' (cell_of st' a) \<longrightarrow> is_placed (cell_of st' a))
        \<and> (hold (cell_of st' a) \<longrightarrow> is_placed (cell_of st' a))"
      unfolding f using a
      by (elim grid_stepE)
        (auto simp: erased_sel painted_sel held_sel painted_cell_def movable_def nth_list_update)
  qed
qed

lemma upright_ok_step:
  assumes "grid_step Q st st'" "upright_ok st0 st" "length (cells st) = length (cells st0)"
  shows "upright_ok st0 st'"
  unfolding upright_ok_def
proof (intro allI impI)
  fix a assume a: "a < length (cells st0)" and s: "swapWidthHeight (cell_orient (cell_of st' a))"
  have "swapWidthHeight (cell_orient (cell_of st a))"
    using assms(1)
  proof (cases rule: grid_step.cases)
    case (step_erase c)
    then show ?thesis using s a assms(3) by (cases "a = c") (simp_all add: erased_sel)
  next
    case (step_paint c gx gy)
    then show ?thesis
      using s a assms(3)
      by (cases "a = c") (auto simp: painted_sel painted_cell_def setGridPaddedLoc_def rowOrient_def split: if_splits)
  next
    case (step_hold c)
    then show ?thesis using s a assms(3) by (cases "a = c") (simp_all add: held_sel)
  qed
  then show "swapWidthHeight (cell_orient (cell_of st0 a))" using assms(2) a by (simp add: upright_ok_def)
qed

lemma run_ok_steps:
  assumes "grid_steps Q st st'" "run_ok st0 P st" "P' \<subseteq> placed_cells st'"
  shows "run_ok st0 P' st'"
proof -
  have "flags_ok st'"
    using assms(1) run_okD(4) [OF assms(2)]
    by (induction rule: rtranclp_induct) (auto intro: flags_ok_step)
  moreover have "upright_ok st0 st' \<and> length (cells st') = length (cells st0)"
    using assms(1) run_okD(5,6) [OF assms(2)]
    by (induction rule: rtranclp_induct)
      (auto intro: upright_ok_step dest: same_design_length [OF grid_step_design])
  ultimately show ?thesis
    using grid_steps_keep [OF assms(1) run_okD(1) [OF assms(2)]] run_okD(2) [OF assms(2)] assms(3)
    by (auto simp: run_ok_def intro: same_design_trans)
qed

lemma unplaced_movable:
  assumes "run_ok st0 P st" "c < length (cells st0)" "\<not> is_placed (cell_of st c)"
  shows "movable st c" "c \<notin> P"
  using assms run_okD [OF assms(1)]
  by (auto simp: flags_ok_def movable_def placed_cells_def)

lemma placed_cells_held: "placed_cells (held st c) = placed_cells st"
  by (cases "c < length (cells st)")
    (auto simp: placed_cells_def held_sel nth_list_update list_update_beyond split: if_splits)

subsection \<open>Moves of group cells\<close>

definition moved_ok :: "Opendp \<Rightarrow> nat set \<Rightarrow> nat \<Rightarrow> bool \<times> Opendp \<Rightarrow> bool" where
  "moved_ok st0 P c r \<longleftrightarrow>
     (if fst r then run_ok st0 (insert c P) (snd r) \<and> movable (snd r) c else run_ok st0 P (snd r))"

lemma run_ok_subset: "run_ok st0 P st \<Longrightarrow> P' \<subseteq> P \<Longrightarrow> run_ok st0 P' st"
  by (auto simp: run_ok_def)

lemma run_ok_put:
  assumes "run_ok st0 P st" "put st c st'" "movable st c" "\<not> is_placed (cell_of st c)"
  shows "moved_ok st0 P c (True, st')"
  using run_ok_steps [OF put_steps(1) [OF assms(2-4)] assms(1), of "insert c P"]
    put_steps(2) [OF assms(2-4)] run_okD(3) [OF assms(1)] assms(3)
    movable_same_design [of st st'] grid_steps_keep [OF put_steps(1) [OF assms(2-4)] run_okD(1) [OF assms(1)]]
  by (auto simp: moved_ok_def)

lemma mapMove_at_keeps:
  assumes "run_ok st0 P st" "c < length (cells st0)"
  shows "keeps (moved_ok st0 P c) (mapMove_at c pt st)"
proof (cases "is_placed (cell_of st c)")
  case True
  then have "mapMove_at c pt st = Inr (False, st) \<or> mapMove_at c pt st = Inl Abort"
    by (simp add: mapMove_at_def paintPixel_def Let_def)
  then show ?thesis using assms(1) by (auto simp: keeps_def moved_ok_def)
next
  case False
  note m = unplaced_movable(1) [OF assms False]
  from mapMove_at_result [OF m False, of pt]
  consider "mapMove_at c pt st = Inr (False, st)"
    | st' where "mapMove_at c pt st = Inr (True, st')" "put st c st'" by (auto simp: put_def)
  then show ?thesis
    using assms(1) run_ok_put [OF assms(1) _ m False]
    by cases (auto simp: keeps_def moved_ok_def)
qed

lemma mapMove_keeps:
  assumes "run_ok st0 P st" "c < length (cells st0)"
  shows "keeps (moved_ok st0 P c) (mapMove c st)"
  unfolding mapMove_def by (rule keeps_bindE [of "\<lambda>_. True"]) (auto simp: keeps_def mapMove_at_keeps assms
    intro: keepsD [OF mapMove_at_keeps [OF assms]])

lemma hold_at_keeps:
  assumes "run_ok st0 P st" "c < length (cells st0)"
  shows "keeps (run_ok st0 P) (hold_at c pt st)"
  unfolding hold_at_def
proof (rule keeps_bindE [OF mapMove_at_keeps [OF assms]])
  fix r assume r: "moved_ok st0 P c r"
  have "run_ok st0 P (held (snd r) c)" if "fst r"
  proof -
    have k: "run_ok st0 (insert c P) (snd r)" "movable (snd r) c" using r that by (auto simp: moved_ok_def)
    then have "is_placed (cell_of (snd r) c)" using run_okD(3) [OF k(1)] by (auto simp: placed_cells_def)
    then have "grid_steps any_site (snd r) (held (snd r) c)" using k(2) by (auto intro: step_hold)
    then show ?thesis
      by (rule run_ok_steps [OF _ k(1)]) (use run_okD(3) [OF k(1)] in \<open>auto simp: placed_cells_held\<close>)
  qed
  then show "keeps (run_ok st0 P) (case r of (ok, st) \<Rightarrow> Inr (if ok then upd_cell c (\<lambda>cl. cl\<lparr>hold := True\<rparr>) st else st))"
    using r by (cases r) (auto simp: moved_ok_def held_def intro: keeps_Inr)
qed

lemma erase_loop_keeps:
  assumes "run_ok st0 P st" "\<forall>c \<in> set xs. c < length (cells st0)"
  shows "keeps (run_ok st0 (P - set xs)) (foldE erasePixel xs st)"
  using assms
proof (induction xs arbitrary: st P)
  case (Cons x xs)
  have x: "x < length (cells st)" using Cons.prems run_okD(5) [OF Cons.prems(1)] by simp
  obtain t where t: "erasePixel x st = Inr t" "grid_steps any_site st t"
    using erasePixel_steps(1) [OF run_okD(1) [OF Cons.prems(1)] x] by blast
  have "same_design st t" using grid_steps_keep [OF t(2) run_okD(1) [OF Cons.prems(1)]] by blast
  then have "P - {x} \<subseteq> placed_cells t"
    using erasePixel_steps(3) [OF run_okD(1) [OF Cons.prems(1)] x t(1)] run_okD(3) [OF Cons.prems(1)]
      same_design_length [of st t] by (auto simp: placed_cells_def)
  then have "run_ok st0 (P - {x}) t" by (rule run_ok_steps [OF t(2) Cons.prems(1)])
  from Cons.IH [OF this] Cons.prems(2) have "keeps (run_ok st0 (P - {x} - set xs)) (foldE erasePixel xs t)" by simp
  moreover have "P - {x} - set xs = P - set (x # xs)" by auto
  ultimately show ?case using t(1) by simp
qed (auto intro: keeps_Inr)

text \<open>After the erasure no cell of the list is held: held cells are placed.\<close>

lemma refineMove_keeps:
  assumes "run_ok st0 P st" "c < length (cells st0)"
  shows "keeps (\<lambda>r. run_ok st0 P (snd r)) (refineMove c st)"
proof (cases "isFixed st (cell_of st c)")
  case True
  then show ?thesis by (simp add: keeps_def refineMove_def legalGridPt_cell_def legalPt_cell_def)
next
  case False
  then have m: "movable st c" using assms run_okD(5) by (simp add: movable_def)
  show ?thesis
    unfolding keeps_def
  proof (intro allI impI)
    fix r assume "refineMove c st = Inr r"
    then have r: "refineMove c st = Inr (fst r, snd r)" by simp
    from refineMove_result [OF run_okD(1) [OF assms(1)] m r]
    show "run_ok st0 P (snd r)"
      using run_ok_steps [OF _ assms(1), of legal_site "snd r" P] run_okD(3) [OF assms(1)] assms(1)
      by (cases "fst r") auto
  qed
qed

lemma swapCells_keeps:
  assumes "run_ok st0 P st" "c1 < length (cells st0)" "c2 < length (cells st0)"
  shows "keeps (\<lambda>r. run_ok st0 P (snd r)) (swapCells c1 c2 st)"
  unfolding keeps_def
proof (intro allI impI)
  fix r assume "swapCells c1 c2 st = Inr r"
  then have r: "swapCells c1 c2 st = Inr (fst r, snd r)" by simp
  note l = run_okD(5) [OF assms(1), symmetric]
  note s = swapCells_steps [OF run_okD(1) [OF assms(1)] assms(2,3) [unfolded l] r]
  show "run_ok st0 P (snd r)"
    by (rule run_ok_steps [OF s(1) assms(1)]) (use s(2) run_okD(3) [OF assms(1)] in blast)
qed

lemma count_moves_keeps:
  assumes "run_ok st0 P st"
    and "\<And>x s. x \<in> set xs \<Longrightarrow> run_ok st0 P s \<Longrightarrow> keeps (\<lambda>r. run_ok st0 P (snd r)) (move x s)"
  shows "keeps (\<lambda>r. run_ok st0 P (snd r)) (count_moves move xs st)"
  unfolding count_moves_def
proof (intro keeps_foldE)
  show "run_ok st0 P (snd (0 :: int, st))" using assms(1) by simp
  fix x and s :: "int \<times> Opendp" assume x: "x \<in> set xs" and s: "run_ok st0 P (snd s)"
  have "keeps (\<lambda>r. run_ok st0 P (snd r))
      (bindE (move x (snd s)) (\<lambda>(ok, st). Inr (if ok then fst s + 1 else fst s, st)))"
    by (rule keeps_bindE [OF assms(2) [OF x s]]) (auto intro: keeps_Inr)
  then show "keeps (\<lambda>r. run_ok st0 P (snd r))
      (case s of (n, st) \<Rightarrow> bindE (move x st) (\<lambda>(ok, st). Inr (if ok then n + 1 else n, st)))"
    by (simp add: case_prod_unfold)
qed

lemma keeps_weaken: "keeps P m \<Longrightarrow> (\<And>s. P s \<Longrightarrow> Q s) \<Longrightarrow> keeps Q m"
  by (auto simp: keeps_def)

subsection \<open>The drivers\<close>

definition group_cells_ok :: "Opendp \<Rightarrow> bool" where
  "group_cells_ok st \<longleftrightarrow> (\<forall>gr \<in> set (groups st). \<forall>c \<in> set (g_cells gr). c < length (cells st))"

lemma run_ok_group_cells:
  assumes "run_ok st0 P st"
  shows "map g_cells (groups st) = map g_cells (groups st0)" "group_cells_ok st = group_cells_ok st0"
proof -
  show m: "map g_cells (groups st) = map g_cells (groups st0)"
    using run_okD(2) [OF assms] by (auto elim: same_designE)
  have g: "group_cells_ok s = (\<forall>cs \<in> set (map g_cells (groups s)). \<forall>c \<in> set cs. c < length (cells s))" for s
    by (simp add: group_cells_ok_def)
  show "group_cells_ok st = group_cells_ok st0" unfolding g m run_okD(5) [OF assms] by (rule refl)
qed

lemma run_ok_g_cells:
  assumes "run_ok st0 P st" "group_cells_ok st0" "g < length (groups st0)"
  shows "g < length (groups st)" "g_cells (groups st ! g) = g_cells (groups st0 ! g)"
    "\<forall>c \<in> set (g_cells (groups st ! g)). c < length (cells st0)"
proof -
  note m = run_ok_group_cells(1) [OF assms(1)]
  show g: "g < length (groups st)" using m assms(3) by (metis length_map)
  show "g_cells (groups st ! g) = g_cells (groups st0 ! g)" using m g assms(3) by (metis nth_map)
  then show "\<forall>c \<in> set (g_cells (groups st ! g)). c < length (cells st0)"
    using assms(2,3) by (auto simp: group_cells_ok_def)
qed

lemma prePlace_keeps:
  assumes "run_ok st0 P st"
  shows "keeps (run_ok st0 P) (prePlace st)"
  unfolding prePlace_def Let_def
  using run_okD(5) [OF assms]
  by (intro keeps_foldE assms) (auto intro!: keeps_intros hold_at_keeps split: option.split)

lemma prePlaceGroups_keeps:
  assumes "run_ok st0 P st" "group_cells_ok st0"
  shows "keeps (run_ok st0 P) (prePlaceGroups st)"
  unfolding prePlaceGroups_def Let_def
proof (intro keeps_foldE assms(1))
  fix gr s c t assume "gr \<in> set (groups st)" "c \<in> set (g_cells gr)" and t: "run_ok st0 P t"
  then have "c < length (cells st0)"
    using assms(2) run_ok_group_cells(2) [OF assms(1)] run_okD(5) [OF assms(1)]
    by (auto simp: group_cells_ok_def)
  then show "keeps (run_ok st0 P)
      (if \<not> (isFixed t (cell_of t c) \<or> is_placed (cell_of t c))
       then case nearest_region t (cell_of t c) (g_regions gr) of
              (True, _) \<Rightarrow> Inr t
            | (False, None) \<Rightarrow> Inl NullDeref
            | (False, Some rect) \<Rightarrow> hold_at c (nearestPt t (cell_of t c) rect) t
       else Inr t)"
    using t by (auto intro!: keeps_intros hold_at_keeps split: prod.split bool.split option.split)
qed

lemma group_pass_keeps:
  assumes "run_ok st0 P st" "\<forall>c \<in> set cs. c < length (cells st0)"
  shows "keeps (\<lambda>r. run_ok st0 P (snd r) \<and> (fst r \<longrightarrow>
     {c \<in> set cs. isMultiRow st0 (cell_of st0 c) = multi \<and> \<not> isFixed st0 (cell_of st0 c)}
       \<subseteq> placed_cells (snd r)))
     (group_pass multi cs st)"
  using assms
proof (induction cs arbitrary: st P)
  case (Cons c cs)
  let ?cl = "cell_of st c"
  let ?A = "\<lambda>cs. {c \<in> set cs. isMultiRow st0 (cell_of st0 c) = multi \<and> \<not> isFixed st0 (cell_of st0 c)}"
  have c: "c < length (cells st0)" "c < length (cells st)"
    using Cons.prems run_okD(5) [OF Cons.prems(1)] by auto
  note sd = run_okD(2) [OF Cons.prems(1)]
  have e: "isMultiRow st ?cl = isMultiRow st0 (cell_of st0 c)" "isFixed st ?cl = isFixed st0 (cell_of st0 c)"
    using cell_static_funs [OF same_design_cell [OF sd c(1)]] same_design_funs [OF sd]
      same_design_inst_funs [OF sd] by simp_all
  have rest: "keeps (\<lambda>r. run_ok st0 P' (snd r) \<and> (fst r \<longrightarrow> ?A cs \<subseteq> placed_cells (snd r)))
      (group_pass multi cs s)" if "run_ok st0 P' s" for s P'
    using Cons.IH [OF that] Cons.prems(2) by simp
  consider "\<not> isFixed st ?cl" "\<not> is_placed ?cl" "inGroup ?cl" "isMultiRow st ?cl = multi"
    | "\<not> isFixed st ?cl" "\<not> is_placed ?cl" "\<not> inGroup ?cl"
    | "group_pass multi (c # cs) st = group_pass multi cs st" "isMultiRow st ?cl = multi \<longrightarrow> \<not> isFixed st ?cl \<longrightarrow> is_placed ?cl"
  proof (cases "\<not> isFixed st ?cl \<and> \<not> is_placed ?cl \<and> (inGroup ?cl \<longrightarrow> isMultiRow st ?cl = multi)")
    case False
    then have "group_pass multi (c # cs) st = group_pass multi cs st" by (auto simp: Let_def)
    moreover have "isMultiRow st ?cl = multi \<longrightarrow> \<not> isFixed st ?cl \<longrightarrow> is_placed ?cl" using False by blast
    ultimately show ?thesis by (rule that(3))
  qed (use that(1,2) in blast)
  then show ?case
  proof cases
    case 1
    have "keeps (\<lambda>r. run_ok st0 P (snd r) \<and> (fst r \<longrightarrow> ?A (c # cs) \<subseteq> placed_cells (snd r)))
        (bindE (mapMove c st) (\<lambda>(ok, st). if ok then group_pass multi cs st else Inr (False, st)))"
    proof (rule keeps_bindE [OF mapMove_keeps [OF Cons.prems(1) c(1)]], clarify)
      fix ok s assume "moved_ok st0 P c (ok, s)"
      then have m: "if ok then run_ok st0 (insert c P) s else run_ok st0 P s"
        by (auto simp: moved_ok_def)
      show "keeps (\<lambda>r. run_ok st0 P (snd r) \<and> (fst r \<longrightarrow> ?A (c # cs) \<subseteq> placed_cells (snd r)))
          (if ok then group_pass multi cs s else Inr (False, s))"
      proof (cases ok)
        case True
        then have "run_ok st0 (insert c P) s" using m by simp
        from rest [OF this] show ?thesis
          using True by (auto intro: keeps_weaken run_ok_subset dest: run_okD(3))
      qed (use m in \<open>auto intro: keeps_Inr\<close>)
    qed
    then show ?thesis using 1 by simp
  next
    case 3
    have "c \<in> placed_cells st" if "isMultiRow st0 (cell_of st0 c) = multi" "\<not> isFixed st0 (cell_of st0 c)"
      using 3(2) that e c by (simp add: placed_cells_def)
    then have "run_ok st0 (P \<union> ({c} \<inter> ?A [c])) st"
      using Cons.prems(1) by (auto simp: run_ok_def)
    from rest [OF this] show ?thesis
      unfolding 3(1) by (auto intro: keeps_weaken run_ok_subset dest: run_okD(3))
  qed (simp add: keeps_Inl)
qed (auto intro: keeps_Inr)

text \<open>A loop in which every pass places its cell places all of them.\<close>

lemma place_loop_keeps:
  assumes "run_ok st0 P st" "set cs \<subseteq> C"
    and "\<And>c s P. c \<in> set cs \<Longrightarrow> run_ok st0 P s \<Longrightarrow> keeps (run_ok st0 (insert c P)) (f c s)"
  shows "keeps (run_ok st0 (P \<union> set cs)) (foldE f cs st)"
  using assms
proof (induction cs arbitrary: st P)
  case (Cons c cs)
  have "keeps (run_ok st0 (P \<union> set (c # cs))) (bindE (f c st) (foldE f cs))"
  proof (rule keeps_bindE [OF Cons.prems(3)])
    show "c \<in> set (c # cs)" "run_ok st0 P st" using Cons.prems by simp_all
    fix s assume "run_ok st0 (insert c P) s"
    with Cons.IH [OF this] Cons.prems(2,3)
    show "keeps (run_ok st0 (P \<union> set (c # cs))) (foldE f cs s)" by simp
  qed
  then show ?case by simp
qed (auto intro: keeps_Inr)

lemma must_move_keeps:
  assumes "run_ok st0 P st" "c < length (cells st0)"
  shows "keeps (run_ok st0 (insert c P))
     (bindE (mapMove_at c pt st) (\<lambda>(ok, st). if ok then Inr st else Inl e))"
proof (rule keeps_bindE [OF mapMove_at_keeps [OF assms]], clarify)
  fix ok s assume "moved_ok st0 P c (ok, s)"
  then show "keeps (run_ok st0 (insert c P)) (if ok then Inr s else Inl e)"
    by (auto simp: moved_ok_def intro!: keeps_intros)
qed

lemma brickPlace1_keeps:
  assumes "std_sort (srt :: nat sorter)" "run_ok st0 P st" "\<forall>c \<in> set (g_cells gr). c < length (cells st0)"
  shows "keeps (run_ok st0 (P \<union> set (g_cells gr))) (brickPlace1 srt gr st)"
proof -
  define f where "f = (\<lambda>c st. let cl = cell_of st c; (x, y) = rectDist_pt st cl (g_boundary gr)
      in bindE (mapMove_at c (legalGridPt st cl (Point x y)) st)
           (\<lambda>(ok, st). if ok then Inr st else Inl (LoggedError 16)))"
  have f: "keeps (run_ok st0 (insert c Q)) (f c s)" if c: "c < length (cells st0)" and s: "run_ok st0 Q s" for c s Q
    using must_move_keeps [OF s c] by (simp add: f_def Let_def split: prod.split)
  have "keeps (run_ok st0 (P \<union> set cs)) (foldE f cs st)" if "set cs = set (g_cells gr)" for cs
    by (rule place_loop_keeps [OF assms(2) order_refl f]) (use that assms(3) in auto)
  then show ?thesis
    unfolding brickPlace1_def Let_def f_def [unfolded Let_def, symmetric]
    using std_sort.set_srt [OF assms(1)] by metis
qed

lemma brickPlace2_keeps:
  assumes "std_sort (srt :: nat sorter)" "run_ok st0 P st" "\<forall>c \<in> set (g_cells gr). c < length (cells st0)"
  shows "keeps (run_ok st0 (P \<union> set (g_cells gr))) (brickPlace2 srt gr st)"
proof -
  define f where "f = (\<lambda>c st. let cl = cell_of st c in
      if \<not> hold cl then
        (case cell_region cl of
           None \<Rightarrow> Inl NullDeref
         | Some region \<Rightarrow>
             (let (x, y) = rectDist_pt st cl region
              in bindE (mapMove_at c (legalGridPt st cl (Point x y)) st)
                   (\<lambda>(ok, st). if ok then Inr st else Inl (LoggedError 17))))
      else Inr st)"
  have f: "keeps (run_ok st0 (insert c Q)) (f c s)" if c: "c < length (cells st0)" and s: "run_ok st0 Q s" for c s Q
  proof (cases "hold (cell_of s c)")
    case True
    then have "c \<in> placed_cells s"
      using run_okD(4,5) [OF s] c by (simp add: flags_ok_def placed_cells_def)
    then have "run_ok st0 (insert c Q) s" using s by (auto simp: run_ok_def)
    then show ?thesis using True by (simp add: f_def keeps_Inr)
  next
    case False
    then show ?thesis
      using must_move_keeps [OF s c]
      by (auto simp: f_def Let_def keeps_Inl split: option.split prod.split)
  qed
  have "keeps (run_ok st0 (P \<union> set cs)) (foldE f cs st)" if "set cs = set (g_cells gr)" for cs
    by (rule place_loop_keeps [OF assms(2) order_refl f]) (use that assms(3) in auto)
  then show ?thesis
    unfolding brickPlace2_def Let_def f_def [unfolded Let_def, symmetric]
    using std_sort.set_srt [OF assms(1)] by metis
qed

lemma run_ok_extend: "run_ok st0 P st \<Longrightarrow> Q \<subseteq> placed_cells st \<Longrightarrow> run_ok st0 (P \<union> Q) st"
  by (simp add: run_ok_def)

lemma group_pass_extend:
  assumes "run_ok st0 P st" "\<forall>c \<in> set cs. c < length (cells st0)"
  shows "keeps (\<lambda>r. run_ok st0 (if fst r then P \<union> {c \<in> set cs. isMultiRow st0 (cell_of st0 c) = multi
       \<and> \<not> isFixed st0 (cell_of st0 c)} else P) (snd r)) (group_pass multi cs st)"
  using group_pass_keeps [OF assms, of multi] by (rule keeps_weaken) (auto intro: run_ok_extend)

definition group_retry :: "nat sorter \<Rightarrow> Group \<Rightarrow> Opendp \<Rightarrow> Opendp result" where
  \<comment> \<open>what \<open>placeGroup2\<close> does after a failed pass\<close>
  "group_retry srt gr st =
     bindE (foldE erasePixel (g_cells gr) st) (\<lambda>st.
       if util_above_95 (g_util gr) then brickPlace1 srt gr st else brickPlace2 srt gr st)"

lemma group_retry_keeps:
  assumes "std_sort (srt :: nat sorter)" "run_ok st0 P st" "\<forall>c \<in> set (g_cells gr). c < length (cells st0)"
  shows "keeps (run_ok st0 (P \<union> set (g_cells gr))) (group_retry srt gr st)"
  unfolding group_retry_def
proof (rule keeps_bindE [OF erase_loop_keeps [OF assms(2,3)]])
  fix t assume t: "run_ok st0 (P - set (g_cells gr)) t"
  have "P - set (g_cells gr) \<union> set (g_cells gr) = P \<union> set (g_cells gr)" by auto
  then show "keeps (run_ok st0 (P \<union> set (g_cells gr)))
      (if util_above_95 (g_util gr) then brickPlace1 srt gr t else brickPlace2 srt gr t)"
    using brickPlace1_keeps [OF assms(1) t assms(3)] brickPlace2_keeps [OF assms(1) t assms(3)] by simp
qed

lemma second_pass_keeps:
  assumes srt: "std_sort (srt :: nat sorter)" and gl: "\<forall>c \<in> set (g_cells gr). c < length (cells st0)"
    and xl: "\<forall>c \<in> set xs. c < length (cells st0)"
    and st: "run_ok st0 (if m then Q \<union> {c \<in> set xs. isMultiRow st0 (cell_of st0 c)
         \<and> \<not> isFixed st0 (cell_of st0 c)} else P) st"
    and PQ: "P \<subseteq> Q" and all: "P \<union> set (g_cells gr) \<subseteq> Q \<union> {c \<in> set xs. \<not> isFixed st0 (cell_of st0 c)}"
  shows "keeps (run_ok st0 (P \<union> set (g_cells gr)))
     (bindE (if m then group_pass False xs st else Inr (True, st)) (\<lambda>(sp, st).
        if \<not> sp \<or> \<not> m then group_retry srt gr st else Inr st))"
proof (cases m)
  case True
  let ?B = "{c \<in> set xs. isMultiRow st0 (cell_of st0 c) \<and> \<not> isFixed st0 (cell_of st0 c)}"
  let ?C = "{c \<in> set xs. isMultiRow st0 (cell_of st0 c) = False \<and> \<not> isFixed st0 (cell_of st0 c)}"
  have "run_ok st0 (Q \<union> ?B) st" using st True by simp
  note p2 = group_pass_extend [OF this xl, of False]
  have "keeps (run_ok st0 (P \<union> set (g_cells gr))) (if \<not> sp then group_retry srt gr s else Inr s)"
    if s: "run_ok st0 (if sp then Q \<union> ?B \<union> ?C else Q \<union> ?B) s" for sp s
  proof (cases sp)
    case True
    have "P \<union> set (g_cells gr) \<subseteq> Q \<union> ?B \<union> ?C" using all by auto
    then have "run_ok st0 (P \<union> set (g_cells gr)) s" using run_ok_subset s True by auto
    then show ?thesis using True by (simp add: keeps_Inr)
  next
    case False
    then have "run_ok st0 P s" using run_ok_subset [of st0 "Q \<union> ?B" s P] s PQ by auto
    then show ?thesis using False group_retry_keeps [OF srt _ gl] by simp
  qed
  then show ?thesis
    using True by (auto intro!: keeps_bindE [OF p2] split: prod.split)
next
  case False
  then show ?thesis using st group_retry_keeps [OF srt _ gl] by simp
qed

lemma placeGroup2_keeps:
  assumes srt: "std_sort (srt :: nat sorter)" and r: "run_ok st0 P st"
    and g: "group_cells_ok st0" "i < length (groups st0)"
  shows "keeps (run_ok st0 (P \<union> set (g_cells (groups st0 ! i)))) (placeGroup2 srt i st)"
proof -
  note gc = run_ok_g_cells [OF r g]
  let ?F = "filter (\<lambda>c. \<not> isFixed st (cell_of st c) \<and> \<not> is_placed (cell_of st c)) (g_cells (groups st ! i))"
  define xs where "xs = srt (\<lambda>a b. cellAreaGreater st (cell_of st a) (cell_of st b)) ?F"
  define gr where "gr = groups st ! i"
  define Q where "Q = P \<union> (set (g_cells gr) \<inter> placed_cells st)"
  have gg: "set (g_cells gr) = set (g_cells (groups st0 ! i))" "\<forall>c \<in> set (g_cells gr). c < length (cells st0)"
    using gc(2,3) by (auto simp: gr_def)
  have xs: "set xs = set ?F" using std_sort.set_srt [OF srt] by (simp add: xs_def)
  then have xl: "\<forall>c \<in> set xs. c < length (cells st0)" using gc(3) by auto
  have fx: "isFixed st (cell_of st c) = isFixed st0 (cell_of st0 c)" if "c < length (cells st0)" for c
    using that isFixed_same_design [OF run_okD(2) [OF r]] by auto
  have all: "P \<union> set (g_cells gr) \<subseteq> Q \<union> {c \<in> set xs. \<not> isFixed st0 (cell_of st0 c)}"
    using xs gg(2) fx run_okD(4,5) [OF r] by (auto simp: flags_ok_def placed_cells_def Q_def gr_def)
  have "run_ok st0 Q st" unfolding Q_def using r by (rule run_ok_extend) simp
  note p1 = group_pass_extend [OF this xl, of True]
  have "keeps (run_ok st0 (P \<union> set (g_cells gr)))
      (bindE (group_pass True xs st) (\<lambda>(m, st).
         bindE (if m then group_pass False xs st else Inr (True, st)) (\<lambda>(sp, st).
           if \<not> sp \<or> \<not> m then group_retry srt gr st else Inr st)))"
  proof (rule keeps_bindE [OF p1], clarify)
    fix m s assume "run_ok st0 (if fst (m, s) then Q \<union> {c \<in> set xs. isMultiRow st0 (cell_of st0 c) = True
        \<and> \<not> isFixed st0 (cell_of st0 c)} else Q) (snd (m, s))"
    then have "run_ok st0 (if m then Q \<union> {c \<in> set xs. isMultiRow st0 (cell_of st0 c)
        \<and> \<not> isFixed st0 (cell_of st0 c)} else P) s"
      using run_ok_subset [of st0 Q s P] by (auto simp: Q_def)
    then show "keeps (run_ok st0 (P \<union> set (g_cells gr)))
        (bindE (if m then group_pass False xs s else Inr (True, s)) (\<lambda>(sp, st).
           if \<not> sp \<or> \<not> m then group_retry srt gr st else Inr st))"
      using second_pass_keeps [OF srt gg(2) xl _ _ all] by (auto simp: Q_def)
  qed
  then have "keeps (run_ok st0 (P \<union> set (g_cells gr))) (placeGroup2 srt i st)"
    by (simp only: placeGroup2_def Let_def xs_def gr_def group_retry_def)
  then show ?thesis by (simp only: gg(1))
qed

lemma placeGroups2_keeps:
  assumes "std_sort (srt :: nat sorter)" "run_ok st0 P st" "group_cells_ok st0"
  shows "keeps (run_ok st0 (P \<union> (\<Union>g < length (groups st0). set (g_cells (groups st0 ! g)))))
     (placeGroups2 srt st)"
proof -
  have "keeps (run_ok st0 (P \<union> (\<Union>g \<in> set gs. set (g_cells (groups st0 ! g))))) (foldE (placeGroup2 srt) gs s)"
    if "run_ok st0 P s" "set gs \<subseteq> {..<length (groups st0)}" for gs s P
    using that
  proof (induction gs arbitrary: s P)
    case (Cons g gs)
    have p: "keeps (run_ok st0 (P \<union> set (g_cells (groups st0 ! g)))) (placeGroup2 srt g s)"
      using placeGroup2_keeps [OF assms(1) Cons.prems(1) assms(3)] Cons.prems(2) by simp
    have "keeps (run_ok st0 (P \<union> (\<Union>g \<in> set (g # gs). set (g_cells (groups st0 ! g)))))
        (foldE (placeGroup2 srt) gs t)" if "run_ok st0 (P \<union> set (g_cells (groups st0 ! g))) t" for t
      using Cons.IH [OF that] Cons.prems(2) by (simp add: Un_assoc)
    with keeps_bindE [OF p] have "keeps (run_ok st0 (P \<union> (\<Union>g \<in> set (g # gs). set (g_cells (groups st0 ! g)))))
        (bindE (placeGroup2 srt g s) (foldE (placeGroup2 srt) gs))" by blast
    then show ?case by simp
  qed (simp add: keeps_Inr)
  from this [OF assms(2), of "[0..<length (groups st0)]"]
  have "keeps (run_ok st0 (P \<union> (\<Union>g < length (groups st0). set (g_cells (groups st0 ! g)))))
      (foldE (placeGroup2 srt) [0..<length (groups st0)] st)" by (simp add: atLeast0LessThan)
  moreover have "length (groups st) = length (groups st0)"
    using run_ok_group_cells(1) [OF assms(2)] by (rule map_eq_imp_length_eq)
  ultimately show ?thesis by (simp add: placeGroups2_def)
qed

lemma refine_unheld_keeps:
  assumes "run_ok st0 P st" "c < length (cells st0)"
  shows "keeps (\<lambda>r. run_ok st0 P (snd r)) (refine_unheld c st)"
  using assms refineMove_keeps by (auto simp: refine_unheld_def intro!: keeps_intros)

lemma groupRefine_keeps:
  assumes "std_sort (srt :: nat sorter)" "run_ok st0 P st" "\<forall>c \<in> set (g_cells gr). c < length (cells st0)"
  shows "keeps (\<lambda>r. run_ok st0 P (snd r)) (groupRefine srt gr st)"
  unfolding groupRefine_def Let_def
  using std_sort.set_srt [OF assms(1)] assms(3)
  by (intro count_moves_keeps [OF assms(2)] refine_unheld_keeps) (auto dest!: in_set_takeD)

lemma anneal_group_keeps:
  assumes "run_ok st0 P st" "\<forall>c \<in> set (g_cells gr). c < length (cells st0)"
  shows "keeps (\<lambda>r. run_ok st0 P (snd r)) (anneal_group rnd gr st)"
  unfolding anneal_group_def
proof (rule count_moves_keeps [OF assms(1)])
  fix x s assume x: "x \<in> set (anneal_pairs rnd (g_cells gr))" and s: "run_ok st0 P s"
  from x obtain i where "i < 100 * length (g_cells gr)"
    "x = (g_cells gr ! (rnd (2 * i) mod length (g_cells gr)), g_cells gr ! (rnd (2 * i + 1) mod length (g_cells gr)))"
    by (auto simp: anneal_pairs_def)
  moreover have "g_cells gr ! (k mod length (g_cells gr)) \<in> set (g_cells gr)" for k
  proof -
    have "0 < length (g_cells gr)" using \<open>i < 100 * length (g_cells gr)\<close> by (cases "length (g_cells gr)") simp_all
    then show ?thesis by (intro nth_mem mod_less_divisor)
  qed
  ultimately have "fst x \<in> set (g_cells gr)" "snd x \<in> set (g_cells gr)" by simp_all
  then show "keeps (\<lambda>r. run_ok st0 P (snd r)) ((case x of (a, b) \<Rightarrow> swapCells a b) s)"
    using swapCells_keeps [OF s] assms(2) by (cases x) auto
qed

lemma improve_group_keeps:
  assumes "std_sort (srt :: nat sorter)" "run_ok st0 P st" "group_cells_ok st0" "i < length (groups st0)"
  shows "keeps (run_ok st0 P) (improve_group srt rnd i n st)"
  using assms(2)
proof (induction n arbitrary: st)
  case (Suc n)
  have g: "\<forall>c \<in> set (g_cells (groups s ! i)). c < length (cells st0)" if "run_ok st0 P s" for s
    using run_ok_g_cells(3) [OF that assms(3,4)] .
  have second: "keeps (run_ok st0 P) (bindE (anneal_group rnd (groups s ! i) s) (\<lambda>(k, s).
      if n1 < 10 \<or> k < 100 then Inr s else improve_group srt rnd i n s))" if "run_ok st0 P s" for s and n1 :: int
    by (rule keeps_bindE [OF anneal_group_keeps [OF that g [OF that]]])
      (auto intro!: keeps_intros Suc.IH)
  show ?case
    unfolding improve_group.simps
    by (rule keeps_bindE [OF groupRefine_keeps [OF assms(1) Suc.prems g [OF Suc.prems]]])
      (auto intro: second)
qed (simp add: keeps_Inr)

subsection \<open>The whole run\<close>

lemma fold_region: "\<exists>r. fold (\<lambda>rect cl. if isInside st cl rect then cl\<lparr>cell_region := Some rect\<rparr> else cl) rs cl
    = cl\<lparr>cell_region := r\<rparr>"
proof (induction rs arbitrary: cl)
  case Nil
  show ?case by (intro exI [of _ "cell_region cl"]) simp
next
  case (Cons r rs)
  have "\<exists>r'. (if isInside st cl r then cl\<lparr>cell_region := Some r\<rparr> else cl) = cl\<lparr>cell_region := r'\<rparr>"
    by (cases "isInside st cl r") (auto intro: exI [of _ "cell_region cl"])
  then obtain r' where r': "(if isInside st cl r then cl\<lparr>cell_region := Some r\<rparr> else cl) = cl\<lparr>cell_region := r'\<rparr>" ..
  from Cons.IH [of "cl\<lparr>cell_region := r'\<rparr>"] show ?case by (auto simp: r')
qed

lemma run_ok_unmoved:
  assumes "run_ok st0 P st" "same_design st st'" "grid st' = grid st"
    and "\<And>a. a < length (cells st) \<Longrightarrow> cell_x (cell_of st' a) = cell_x (cell_of st a)
       \<and> cell_y (cell_of st' a) = cell_y (cell_of st a)
       \<and> is_placed (cell_of st' a) = is_placed (cell_of st a) \<and> hold (cell_of st' a) = hold (cell_of st a)
       \<and> cell_orient (cell_of st' a) = cell_orient (cell_of st a)"
  shows "run_ok st0 P st'"
proof -
  note l = same_design_length [OF assms(2)]
  have f: "footprint st' (cell_of st' a) = footprint st (cell_of st a)" if "a < length (cells st)" for a
    using that assms(4) by (intro footprint_cong [OF assms(2)] same_design_cell [OF assms(2)]) auto
  note same = isFixed_same_design [OF assms(2)] in_grid_same_design [OF assms(2)] movable_same_design [OF assms(2)]
  have al: "aligned st' (cell_of st' a) = aligned st (cell_of st a)" if "a < length (cells st)" for a
    using that assms(4) by (simp add: aligned_def same_design_fields [OF assms(2)])
  have o: "owned st' a = owned st a" if "a < length (cells st)" for a
    using that by (simp add: owned_def Let_def f al same assms(3))
  have "owners_ok st'"
    using run_okD(1) [OF assms(1)] assms(4) f
    unfolding grid_ok_def owners_ok_def by (simp add: same assms(3) l)
  moreover have "owned st' c" if "movable st' c" "is_placed (cell_of st' c)" for c
    using that o assms(4) run_okD(1) [OF assms(1)] same by (auto simp: grid_ok_def movable_def)
  ultimately have "grid_ok st'"
    using run_okD(1) [OF assms(1)] same_design_fields [OF assms(2)] by (simp add: grid_ok_def)
  moreover have "placed_cells st' = placed_cells st" using assms(4) l by (auto simp: placed_cells_def)
  moreover have "flags_ok st'" using run_okD(4) [OF assms(1)] assms(4) l same by (simp add: flags_ok_def)
  moreover have "upright_ok st0 st'"
    using run_okD(5,6) [OF assms(1)] assms(4) by (simp add: upright_ok_def)
  ultimately show ?thesis
    using run_okD(2,3) [OF assms(1)] same_design_trans [OF _ assms(2)] by (simp add: run_ok_def)
qed

lemma assign_region_keeps:
  assumes "run_ok st0 P st" "c < length (cells st0)"
  shows "keeps (run_ok st0 P) (assign_region g c st)"
proof -
  have c: "c < length (cells st)" using assms run_okD(5) by simp
  have u: "run_ok st0 P (upd_cell c (\<lambda>_. (cell_of st c)\<lparr>cell_region := r\<rparr>) st)" for r
  proof (rule run_ok_unmoved [OF assms(1)])
    have "upd_cell c (\<lambda>_. (cell_of st c)\<lparr>cell_region := r\<rparr>) st = upd_cell c (\<lambda>cl. cl\<lparr>cell_region := r\<rparr>) st"
      by (simp add: upd_cell_def)
    then show "same_design st (upd_cell c (\<lambda>_. (cell_of st c)\<lparr>cell_region := r\<rparr>) st)"
      using same_design_upd_cell [of "\<lambda>cl. cl\<lparr>cell_region := r\<rparr>" st c] by (simp add: cell_static_def)
  qed (auto simp: cell_of_upd_cell c)
  obtain r where r: "fold (\<lambda>rect cl. if isInside st cl rect then cl\<lparr>cell_region := Some rect\<rparr> else cl)
      (g_regions (groups st ! g)) (cell_of st c) = (cell_of st c)\<lparr>cell_region := r\<rparr>"
    using fold_region by blast
  show ?thesis
    unfolding assign_region_def Let_def r
    using u by (auto intro!: keeps_intros split: option.split list.split)
qed

lemma groupAssignCellRegions_keeps:
  assumes "run_ok st0 P st" "group_cells_ok st0"
  shows "keeps (run_ok st0 P) (groupAssignCellRegions st)"
  unfolding groupAssignCellRegions_def Let_def
proof (intro keeps_foldE [where P = "run_ok st0 P"] keeps_bindE_same [where P = "run_ok st0 P"] assms(1))
  fix g s c t assume s: "run_ok st0 P s" "g \<in> set [0..<length (groups st)]" "c \<in> set (g_cells (groups s ! g))"
    and t: "run_ok st0 P t"
  have "length (groups st) = length (groups st0)"
    using run_ok_group_cells(1) [OF assms(1)] by (rule map_eq_imp_length_eq)
  then have "c < length (cells st0)" using run_ok_g_cells(3) [OF s(1) assms(2)] s(2,3) by simp
  then show "keeps (run_ok st0 P) (assign_region g c t)" by (rule assign_region_keeps [OF t])
next
  fix g s t u assume t: "run_ok st0 P t"
  have "same_design t (t\<lparr>groups := (groups t)[g := (groups t ! g)\<lparr>g_util := u\<rparr>]\<rparr>)"
    unfolding same_design_def
    by (intro exI [of _ "cells t"] exI [of _ "grid t"] exI [of _ "(groups t)[g := (groups t ! g)\<lparr>g_util := u\<rparr>]"])
      (cases "g < length (groups t)"; simp add: map_update list_update_same_conv list_update_beyond)
  then show "keeps (run_ok st0 P) (Inr (t\<lparr>groups := (groups t)[g := (groups t ! g)\<lparr>g_util := u\<rparr>]\<rparr>))"
    by (intro keeps_Inr run_ok_unmoved [OF t]) simp_all
qed (use assms in auto)

lemma keeps_place_groups:
  assumes "std_sort (srt :: nat sorter)" "run_ok st0 P st" "group_cells_ok st0"
  shows "keeps (run_ok st0 (P \<union> (\<Union>g < length (groups st0). set (g_cells (groups st0 ! g)))))
     (placeGroups srt rnd st)"
proof -
  let ?Q = "P \<union> (\<Union>g < length (groups st0). set (g_cells (groups st0 ! g)))"
  have last: "keeps (run_ok st0 ?Q) (foldE (\<lambda>g. improve_group srt rnd g 3) [0..<length (groups s)] s)"
    if "run_ok st0 ?Q s" for s
  proof (intro keeps_foldE that)
    fix g t assume "g \<in> set [0..<length (groups s)]" and t: "run_ok st0 ?Q t"
    moreover have "length (groups s) = length (groups st0)"
      using run_ok_group_cells(1) [OF that] by (rule map_eq_imp_length_eq)
    ultimately show "keeps (run_ok st0 ?Q) (improve_group srt rnd g 3 t)"
      using improve_group_keeps [OF assms(1) t assms(3)] by simp
  qed
  show ?thesis
    unfolding placeGroups_def
    by (rule keeps_bindE [OF groupAssignCellRegions_keeps [OF assms(2,3)]],
        rule keeps_bindE [OF prePlaceGroups_keeps [OF _ assms(3)]], assumption,
        rule keeps_bindE [OF prePlace_keeps], assumption,
        rule keeps_bindE [OF placeGroups2_keeps [OF assms(1) _ assms(3)]], assumption, rule last)
qed

text \<open>The cells that must be placed: those of a group and those of none.\<close>

definition grouped_ok :: "Opendp \<Rightarrow> bool" where
  "grouped_ok st \<longleftrightarrow> group_cells_ok st
     \<and> (\<forall>c < length (cells st). \<forall>g. cell_group (cell_of st c) = Some g \<longrightarrow>
          g < length (groups st) \<and> c \<in> set (g_cells (groups st ! g)))"

definition all_placed :: "Opendp \<Rightarrow> bool" where
  "all_placed st \<longleftrightarrow> (\<forall>c < length (cells st). is_placed (cell_of st c))"

lemma multi_known_same_design:
  assumes "same_design st st'" "multi_known st"
  shows "multi_known st'"
proof -
  have "isMultiRow st' (cell_of st' c) = isMultiRow st (cell_of st c)" if "movable st c" for c
    using that cell_static_funs(7) [OF same_design_cell [OF assms(1)]] same_design_funs(4) [OF assms(1)]
    by (simp add: movable_def)
  then show ?thesis
    using assms(2) same_design_fields [OF assms(1)]
    by (simp add: multi_known_def movable_same_design [OF assms(1)])
qed

text \<open>What a run does not change.\<close>

definition same_base :: "Opendp \<Rightarrow> Opendp \<Rightarrow> bool" where
  "same_base st st' \<longleftrightarrow>
     block st' = block st \<and> core st' = core st \<and> site_width st' = site_width st
     \<and> row_height st' = row_height st \<and> padLeft st' = padLeft st \<and> padRight st' = padRight st
     \<and> map cell_static (cells st') = map cell_static (cells st)"

lemma same_base_design: "same_design st st' \<Longrightarrow> same_base st st'"
  by (simp add: same_base_def same_design_fields same_design_inst_funs same_design_static)

lemma same_base_prepared:
  assumes "prepared st st'"
  shows "same_base st st'"
  using assms
  by (auto simp: same_base_def prepared_def padLeft_def padRight_def padLeft_inst_def padRight_inst_def
      isPaddedType_def fun_eq_iff cong: option.case_cong)

lemma same_base_trans: "same_base st st' \<Longrightarrow> same_base st' st'' \<Longrightarrow> same_base st st''"
  by (simp add: same_base_def)

definition run_result :: "Opendp \<Rightarrow> Opendp \<Rightarrow> bool" where
  "run_result st st' \<longleftrightarrow> grid_ok st' \<and> all_placed st' \<and> same_base st st' \<and> upright_ok st st'"

text \<open>The last step of a run: \<open>place\<close> puts down the cells that are in no group.\<close>

lemma place_rest_keeps:
  assumes "std_sort (srt :: nat sorter)" "grouped_ok st0" "multi_known st0"
    and s: "run_ok st0 (\<Union>g < length (groups st0). set (g_cells (groups st0 ! g))) s"
  shows "keeps (run_result st0) (place srt s)"
  unfolding keeps_def
proof (intro allI impI)
  fix st' assume p: "place srt s = Inr st'"
  note d = run_okD [OF s]
  note r = place_result [OF assms(1) p d(1) multi_known_same_design [OF d(2) assms(3)]]
  have k: "grid_ok st'" "same_design s st'" using grid_steps_keep [of legal_site s st'] r d(1) by auto
  have l: "length (cells st') = length (cells st0)" using same_design_length [OF k(2)] d(5) by simp
  have "is_placed (cell_of st' c)" if c: "c < length (cells st')" for c
  proof (rule ccontr)
    assume "\<not> is_placed (cell_of st' c)"
    then have n: "c \<notin> placed_cells s" "c \<notin> set (place_candidates s)" using r by (auto simp: placed_cells_def)
    then have "movable s c" using c l d(4,5) by (auto simp: flags_ok_def movable_def placed_cells_def)
    with n have "inGroup (cell_of s c)" using place_candidates_iff by blast
    moreover have "cell_group (cell_of s c) = cell_group (cell_of st0 c)"
      using cell_static_eqD(4) [OF same_design_cell [OF d(2)]] c l by simp
    ultimately show False
      using assms(2) c l n(1) d(3) by (fastforce simp: grouped_ok_def inGroup_def)
  qed
  moreover have "upright_ok st0 st'"
    using run_okD(6) [OF run_ok_steps [OF conjunct1 [OF r] s, of "{}"]] by simp
  ultimately show "run_result st0 st'"
    using k same_base_design [OF same_design_trans [OF d(2) k(2)]]
    by (simp add: run_result_def all_placed_def)
qed

lemma detailedPlacement_grid_keeps:
  assumes "std_sort (srt :: nat sorter)" "imported st" "grouped_ok st"
    and "\<forall>c < length (cells st). \<not> hold (cell_of st c)"
  shows "keeps (run_result st)
     (detailedPlacement_grid srt rnd st)"
  unfolding detailedPlacement_grid_def
proof (rule keeps_bindE [OF initGrid_prepared])
  fix s1 assume "prepared st s1"
  then have "prepared st (groupInitPixels2 (setFixedGridCells s1))"
    by (intro groupInitPixels2_prepared setFixedGridCells_prepared)
  note p2 = groupInitPixels_prepared [OF this]
  have s2: "run_ok s2 {} s2 \<and> grouped_ok s2 \<and> multi_known s2"
    if "prepared st s2" for s2
  proof -
    note same = prepared_same [OF that]
    have "flags_ok s2"
      using prepared_grid_ok(3) [OF assms(2) that] assms(4) by (simp add: flags_ok_def imported_def same)
    then show ?thesis
      using prepared_grid_ok [OF assms(2) that] assms(3)
      by (simp add: run_ok_def grouped_ok_def group_cells_ok_def imported_def upright_ok_def same)
  qed
  have "keeps (run_result st)
      (bindE (if groups s2 \<noteq> [] then placeGroups srt rnd s2 else Inr s2) (place srt))"
    if "prepared st s2" for s2
  proof -
    note i = s2 [OF that]
    let ?G = "\<Union>g < length (groups s2). set (g_cells (groups s2 ! g))"
    have "keeps (run_ok s2 ({} \<union> ?G)) (if groups s2 \<noteq> [] then placeGroups srt rnd s2 else Inr s2)"
      using keeps_place_groups [OF assms(1), of s2 "{}" s2 rnd] i
      by (auto simp: grouped_ok_def keeps_Inr)
    then have "keeps (run_result s2) (bindE (if groups s2 \<noteq> [] then placeGroups srt rnd s2 else Inr s2) (place srt))"
      by (rule keeps_bindE) (use place_rest_keeps [OF assms(1), of s2] i in auto)
    then show ?thesis
      by (rule keeps_weaken)
        (use same_base_trans [OF same_base_prepared [OF that]] prepared_same(1) [OF that] in
          \<open>auto simp: run_result_def upright_ok_def\<close>)
  qed
  then show "keeps (run_result st)
      (bindE (groupInitPixels (groupInitPixels2 (setFixedGridCells s1)))
        (\<lambda>st. bindE (if groups st \<noteq> [] then placeGroups srt rnd st else Inr st) (place srt)))"
    by (rule keeps_bindE [OF p2])
qed

end
