(* ===== verification/Dpl_Import_Facts.thy ===== *)
theory Dpl_Import_Facts
  imports Dpl_Groups
begin

section \<open>What the import establishes\<close>

text \<open>
  After \<open>importDb\<close> there is one cell for every instance whose master is placed automatically,
  in the order of the instances, with the size and location of the instance; a cell counts as
  placed exactly if its instance is fixed. Groups and cells refer to each other. These are
  the hypotheses with which the placement starts (\<open>imported\<close>, \<open>grouped_ok\<close>).
\<close>

definition placeable_insts :: "dbBlock \<Rightarrow> nat list" where
  "placeable_insts b = filter (\<lambda>i. isCoreAutoPlaceable (master_of b i)) [0..<length (b_insts b)]"

subsection \<open>Cells\<close>

definition cells_made :: "Opendp \<Rightarrow> nat list \<Rightarrow> Opendp \<Rightarrow> bool" where
  \<comment> \<open>the state after the instances of the list have been looked at\<close>
  "cells_made st0 is st \<longleftrightarrow>
     block st = block st0 \<and> core st = core st0 \<and> site_width st = site_width st0
     \<and> row_height st = row_height st0 \<and> groups st = groups st0
     \<and> row_count st = row_count st0 \<and> row_site_count st = row_site_count st0
     \<and> cells st = map (make_cell st0) (filter (\<lambda>i. isCoreAutoPlaceable (master_of (block st0) i)) is)
     \<and> (\<forall>i c. db_inst_map st i = Some c \<longrightarrow> c < length (cells st))
     \<and> (\<forall>cl \<in> set (cells st). isMultiRow st cl \<longrightarrow> have_multi_row_cells st) \<and> masters_known st"

lemma make_cell_cong:
  "block st = block st0 \<Longrightarrow> core st = core st0 \<Longrightarrow> make_cell st i = make_cell st0 i"
  by (simp add: make_cell_def getBbox_def isFixed_def Let_def)

lemma make_cell_sel [simp]:
  "db_inst (make_cell st i) = i" "cell_group (make_cell st i) = None" "\<not> hold (make_cell st i)"
  "is_placed (make_cell st i) = inst_isFixed (inst_of (block st) i)"
  by (simp_all add: make_cell_def cell_default_def Let_def isFixed_def)

definition touch_multi :: "nat \<Rightarrow> Opendp \<Rightarrow> Opendp" where
  \<comment> \<open>the end of the body of \<open>makeCells\<close>\<close>
  "touch_multi mi st =
     (let st = master_map_touch mi st
      in case db_master_map st mi of
           Some m \<Rightarrow> if is_multi_row m then st\<lparr>have_multi_row_cells := True\<rparr> else st
         | None \<Rightarrow> st)"

lemma touch_multi_sel [simp]:
  "block (touch_multi mi st) = block st" "core (touch_multi mi st) = core st"
  "site_width (touch_multi mi st) = site_width st" "row_height (touch_multi mi st) = row_height st"
  "groups (touch_multi mi st) = groups st" "cells (touch_multi mi st) = cells st"
  "row_count (touch_multi mi st) = row_count st"
  "row_site_count (touch_multi mi st) = row_site_count st"
  "db_inst_map (touch_multi mi st) = db_inst_map st"
  by (simp_all add: touch_multi_def master_map_touch_def Let_def split: option.split)

lemma touch_multi_isMultiRow [simp]: "isMultiRow (touch_multi mi st) cl = isMultiRow st cl"
  by (auto simp: touch_multi_def master_map_touch_def isMultiRow_def macro_of_def Let_def
      split: option.split)

lemma touch_multi_have:
  "have_multi_row_cells (touch_multi mi st) \<longleftrightarrow>
     have_multi_row_cells st \<or> (\<exists>m. db_master_map st mi = Some m \<and> is_multi_row m)"
  by (auto simp: touch_multi_def master_map_touch_def Let_def split: option.split)

lemma touch_multi_known:
  "db_master_map (touch_multi mi st) mi \<noteq> None"
  "db_master_map st i \<noteq> None \<Longrightarrow> db_master_map (touch_multi mi st) i \<noteq> None"
  by (auto simp: touch_multi_def master_map_touch_def Let_def split: option.split)

lemma makeCells_step:
  assumes "cells_made st0 is st"
  shows "cells_made st0 (is @ [i])
     (if isCoreAutoPlaceable (master_of (block st) i) then
         (let mi = i_master (inst_of (block st) i);
              st = st\<lparr>db_inst_map := (db_inst_map st)(i \<mapsto> length (cells st)),
                      cells := cells st @ [make_cell st i]\<rparr>;
              st = master_map_touch mi st
          in case db_master_map st mi of
               Some m \<Rightarrow> if is_multi_row m then st\<lparr>have_multi_row_cells := True\<rparr> else st
             | None \<Rightarrow> st)
       else st)"
proof (cases "isCoreAutoPlaceable (master_of (block st) i)")
  case True
  let ?mi = "i_master (inst_of (block st) i)"
  let ?t = "st\<lparr>db_inst_map := (db_inst_map st)(i \<mapsto> length (cells st)), cells := cells st @ [make_cell st i]\<rparr>"
  have m: "isMultiRow (st\<lparr>db_inst_map := f, cells := C\<rparr>) cl = isMultiRow st cl" for f C cl by (simp add: isMultiRow_def macro_of_def)
  have "isMultiRow st (make_cell st i) \<Longrightarrow> \<exists>m. db_master_map st ?mi = Some m \<and> is_multi_row m"
    by (auto simp: isMultiRow_def macro_of_def split: option.splits)
  moreover have "masters_known (touch_multi ?mi ?t)"
    using assms touch_multi_known [where st = ?t and mi = ?mi] by (auto simp: cells_made_def masters_known_def)
  ultimately have "cells_made st0 (is @ [i]) (touch_multi ?mi ?t)"
    using assms True make_cell_cong [of st st0 i]
    by (auto simp: cells_made_def m touch_multi_have intro: less_SucI split: if_splits)
  then show ?thesis using True by (simp add: touch_multi_def Let_def)
next
  case False
  then show ?thesis using assms by (auto simp: cells_made_def)
qed

lemma makeCells_made:
  assumes "cells st = []" "db_inst_map st = (\<lambda>_. None)"
  shows "cells_made st [0..<length (b_insts (block st))] (makeCells st)"
proof -
  have "cells_made st [0..<n] (fold (\<lambda>i st.
       if isCoreAutoPlaceable (master_of (block st) i) then
         (let mi = i_master (inst_of (block st) i);
              st = st\<lparr>db_inst_map := (db_inst_map st)(i \<mapsto> length (cells st)),
                      cells := cells st @ [make_cell st i]\<rparr>;
              st = master_map_touch mi st
          in case db_master_map st mi of
               Some m \<Rightarrow> if is_multi_row m then st\<lparr>have_multi_row_cells := True\<rparr> else st
             | None \<Rightarrow> st)
       else st) [0..<n] st)" for n
  proof (induction n)
    case 0
    then show ?case using assms by (simp add: cells_made_def masters_known_def)
  next
    case (Suc n)
    from makeCells_step [OF Suc, of n] show ?case by (simp del: Let_def)
  qed
  then show ?thesis unfolding makeCells_def by blast
qed

subsection \<open>Groups\<close>

definition groups_made :: "Opendp \<Rightarrow> Opendp \<Rightarrow> bool" where
  "groups_made st0 st \<longleftrightarrow>
     (\<exists>C L. st = st0\<lparr>cells := C, groups := L\<rparr>
        \<and> map (\<lambda>cl. cl\<lparr>cell_group := None\<rparr>) C = map (\<lambda>cl. cl\<lparr>cell_group := None\<rparr>) (cells st0))
     \<and> grouped_ok st"

lemma groups_madeD:
  assumes "groups_made st0 st"
  shows "db_inst_map st = db_inst_map st0" "length (cells st) = length (cells st0)" "grouped_ok st"
    "block st = block st0"
    "map (\<lambda>cl. cl\<lparr>cell_group := None\<rparr>) (cells st) = map (\<lambda>cl. cl\<lparr>cell_group := None\<rparr>) (cells st0)"
  using assms map_eq_imp_length_eq by (auto simp: groups_made_def)

lemma group_cells_ok_nth:
  "group_cells_ok st \<longleftrightarrow>
     (\<forall>k < length (groups st). \<forall>c \<in> set (g_cells (groups st ! k)). c < length (cells st))"
  by (simp add: group_cells_ok_def all_set_conv_all_nth)

lemma grouped_ok_join:
  assumes ok: "grouped_ok st" and c: "c < length (cells st)" and g: "g < length (groups st)"
    and C: "cells st' = (cells st)[c := (cells st ! c)\<lparr>cell_group := Some g\<rparr>]"
    and L: "groups st' = (groups st)[g := (groups st ! g)\<lparr>g_cells := g_cells (groups st ! g) @ [c]\<rparr>]"
  shows "grouped_ok st'"
proof -
  have l: "length (cells st') = length (cells st)" "length (groups st') = length (groups st)"
    by (simp_all add: C L)
  have sub: "set (g_cells (groups st ! k)) \<subseteq> set (g_cells (groups st' ! k))"
    "set (g_cells (groups st' ! k)) \<subseteq> insert c (set (g_cells (groups st ! k)))" if "k < length (groups st)" for k
    using that g by (cases "k = g"; auto simp: L)+
  have "\<forall>a < length (cells st'). \<forall>k. cell_group (cell_of st' a) = Some k \<longrightarrow>
      k < length (groups st') \<and> a \<in> set (g_cells (groups st' ! k))"
  proof (intro allI impI)
    fix a k assume a: "a < length (cells st')" and k: "cell_group (cell_of st' a) = Some k"
    show "k < length (groups st') \<and> a \<in> set (g_cells (groups st' ! k))"
    proof (cases "a = c")
      case True
      then show ?thesis using k c g by (simp add: C L)
    next
      case False
      then have "cell_group (cell_of st a) = Some k" using k by (simp add: C)
      then show ?thesis using ok a l sub(1) by (auto simp: grouped_ok_def)
    qed
  qed
  moreover have "group_cells_ok st'"
    using ok sub(2) c unfolding grouped_ok_def group_cells_ok_nth l by blast
  ultimately show ?thesis by (simp add: grouped_ok_def)
qed

lemma group_inst_step_made:
  assumes made: "groups_made st0 st" and map: "\<forall>i c. db_inst_map st0 i = Some c \<longrightarrow> c < length (cells st0)"
    and g: "g < length (groups st)"
  shows "keeps (\<lambda>st'. groups_made st0 st' \<and> length (groups st') = length (groups st)) (group_inst_step g i st)"
proof (cases "db_inst_map st i")
  case (Some c)
  then have c: "c < length (cells st)" using map groups_madeD [OF made] by simp
  let ?st = "upd_cell c (\<lambda>cl. cl\<lparr>cell_group := Some g\<rparr>)
    (st\<lparr>groups := (groups st)[g := (groups st ! g)\<lparr>g_cells := g_cells (groups st ! g) @ [c]\<rparr>]\<rparr>)"
  obtain C L where st: "st = st0\<lparr>cells := C, groups := L\<rparr>"
    "map (\<lambda>cl. cl\<lparr>cell_group := None\<rparr>) C = map (\<lambda>cl. cl\<lparr>cell_group := None\<rparr>) (cells st0)"
    using made by (auto simp: groups_made_def)
  let ?C = "C[c := (C ! c)\<lparr>cell_group := Some g\<rparr>]"
  let ?L = "L[g := (L ! g)\<lparr>g_cells := g_cells (L ! g) @ [c]\<rparr>]"
  have "?st = st0\<lparr>cells := ?C, groups := ?L\<rparr>" by (simp add: st(1) upd_cell_def)
  moreover have "map (\<lambda>cl. cl\<lparr>cell_group := None\<rparr>) ?C = map (\<lambda>cl. cl\<lparr>cell_group := None\<rparr>) (cells st0)"
  proof -
    have "map (\<lambda>cl. cl\<lparr>cell_group := None\<rparr>) ?C = (map (\<lambda>cl. cl\<lparr>cell_group := None\<rparr>) C)[c := (C ! c)\<lparr>cell_group := None\<rparr>]"
      by (simp add: map_update)
    also have "\<dots> = map (\<lambda>cl. cl\<lparr>cell_group := None\<rparr>) C"
      using c st(1) by (simp add: list_update_same_conv)
    finally show ?thesis using st(2) by simp
  qed
  moreover have "grouped_ok ?st"
    by (rule grouped_ok_join [OF groups_madeD(3) [OF made] c g]) (simp_all add: upd_cell_def)
  ultimately have "groups_made st0 ?st" unfolding groups_made_def by blast
  moreover have "group_inst_step g i st = Inr ?st" by (simp add: group_inst_step_def Some)
  moreover have "length (groups ?st) = length (groups st)" by simp
  ultimately show ?thesis by (simp only: keeps_Inr)
qed (simp add: group_inst_step_def keeps_Inl)

lemma make_group_made:
  assumes made: "groups_made st0 st" and map: "\<forall>i c. db_inst_map st0 i = Some c \<longrightarrow> c < length (cells st0)"
  shows "keeps (groups_made st0) (make_group region st)"
proof (cases "region_parent region")
  case (Some parent)
  have new: "groups_made st0 (st\<lparr>groups := groups st @ [gr]\<rparr>)" if "g_cells gr = []" for gr
  proof -
    obtain C L where st: "st = st0\<lparr>cells := C, groups := L\<rparr>"
      "map (\<lambda>cl. cl\<lparr>cell_group := None\<rparr>) C = map (\<lambda>cl. cl\<lparr>cell_group := None\<rparr>) (cells st0)"
      using made by (auto simp: groups_made_def)
    then have "st\<lparr>groups := groups st @ [gr]\<rparr> = st0\<lparr>cells := C, groups := L @ [gr]\<rparr>" by simp
    moreover have "grouped_ok (st\<lparr>groups := groups st @ [gr]\<rparr>)"
      using groups_madeD(3) [OF made] that
      by (auto simp: grouped_ok_def group_cells_ok_def nth_append)
    ultimately show ?thesis using st(2) unfolding groups_made_def by blast
  qed
  have r: "keeps (\<lambda>gr. g_cells gr = []) (foldE (group_region_step st) rs gr)" if "g_cells gr = []" for rs gr
    using that
    by (intro keeps_foldE) (auto simp: group_region_step_def intro!: keeps_bindE [of "\<lambda>_. True"] keeps_intros, auto simp: keeps_def Let_def)
  have insts: "keeps (groups_made st0) (foldE (group_inst_step (length (groups st))) is s)"
    if "groups_made st0 s" "length (groups st) < length (groups s)" for s "is"
  proof -
    have "keeps (\<lambda>s. groups_made st0 s \<and> length (groups st) < length (groups s))
        (foldE (group_inst_step (length (groups st))) is s)"
    proof (intro keeps_foldE)
      fix x t assume "groups_made st0 t \<and> length (groups st) < length (groups t)"
      then show "keeps (\<lambda>s. groups_made st0 s \<and> length (groups st) < length (groups s))
          (group_inst_step (length (groups st)) x t)"
        using keeps_weaken [OF group_inst_step_made [OF _ map]] by simp
    qed (use that in simp)
    then show ?thesis by (rule keeps_weaken) simp
  qed
  show ?thesis
    unfolding make_group_def Some option.case Let_def
    by (rule keeps_bindE [OF r]) (auto intro!: insts new)
qed (use made in \<open>simp add: make_group_def keeps_Inr\<close>)

lemma makeGroups_made:
  assumes "groups_made st0 st0" "\<forall>i c. db_inst_map st0 i = Some c \<longrightarrow> c < length (cells st0)"
  shows "keeps (groups_made st0) (makeGroups st0)"
  unfolding makeGroups_def by (intro keeps_foldE make_group_made assms)

subsection \<open>The whole import\<close>

lemma defineTopPower_sel [simp]:
  "block (defineTopPower mi st) = block st" "core (defineTopPower mi st) = core st"
  "cells (defineTopPower mi st) = cells st" "groups (defineTopPower mi st) = groups st"
  "db_inst_map (defineTopPower mi st) = db_inst_map st"
  "site_width (defineTopPower mi st) = site_width st"
  "row_height (defineTopPower mi st) = row_height st"
  "row_count (defineTopPower mi st) = row_count st"
  "row_site_count (defineTopPower mi st) = row_site_count st"
  by (auto simp: defineTopPower_def Let_def split: prod.split option.split)

lemma master_map_touch_sel [simp]:
  "block (master_map_touch mi st) = block st" "core (master_map_touch mi st) = core st"
  "cells (master_map_touch mi st) = cells st" "groups (master_map_touch mi st) = groups st"
  "db_inst_map (master_map_touch mi st) = db_inst_map st"
  "site_width (master_map_touch mi st) = site_width st"
  "row_height (master_map_touch mi st) = row_height st"
  "row_count (master_map_touch mi st) = row_count st"
  "row_site_count (master_map_touch mi st) = row_site_count st"
  by (simp_all add: master_map_touch_def split: option.split)

lemma makeMacros_sel:
  "block (makeMacros st) = block st \<and> core (makeMacros st) = core st
   \<and> cells (makeMacros st) = cells st \<and> groups (makeMacros st) = groups st
   \<and> db_inst_map (makeMacros st) = db_inst_map st \<and> site_width (makeMacros st) = site_width st
   \<and> row_height (makeMacros st) = row_height st \<and> row_count (makeMacros st) = row_count st
   \<and> row_site_count (makeMacros st) = row_site_count st"
  unfolding makeMacros_def
  by (rule fold_invariant [of _ "\<lambda>_. True"]) simp_all

text \<open>
  The result of an import: the cells of the placeable instances, up to their groups, on the
  grid that the last row and the core area define.
\<close>

definition import_result :: "dbBlock \<Rightarrow> Opendp \<Rightarrow> bool" where
  "import_result b st \<longleftrightarrow>
     block st = b \<and> core st = getCoreArea b \<and> b_rows b \<noteq> []
     \<and> site_width st = site_w (last (b_rows b)) \<and> row_height st = site_h (last (b_rows b))
     \<and> row_site_count st = divFloor (s32 (rect_dx (core st))) (site_width st)
     \<and> row_count st = divFloor (s32 (rect_dy (core st))) (row_height st)
     \<and> map (\<lambda>cl. cl\<lparr>cell_group := None\<rparr>) (cells st) = map (make_cell st) (placeable_insts b)
     \<and> grouped_ok st \<and> (\<forall>cl \<in> set (cells st). isMultiRow st cl \<longrightarrow> have_multi_row_cells st)
     \<and> masters_known st"

lemma findRowPower_sel:
  "\<exists>p. findRowPower st = st\<lparr>initial_power := p\<rparr>"
  by (auto simp: findRowPower_def Let_def split: option.split)

lemma make_cell_ungrouped: "(make_cell st i)\<lparr>cell_group := None\<rparr> = make_cell st i"
  by (rule Cell.equality) (simp_all add: make_cell_def cell_default_def Let_def)

lemma imported_groups:
  assumes m: "cells_made s2 [0..<length (b_insts b)] s3" and g: "groups_made s3 s4"
    and b: "block s2 = b" "core s2 = getCoreArea b" "b_rows b \<noteq> []"
      "site_width s2 = site_w (last (b_rows b))" "row_height s2 = site_h (last (b_rows b))"
      "row_site_count s2 = divFloor (s32 (rect_dx (core s2))) (site_width s2)"
      "row_count s2 = divFloor (s32 (rect_dy (core s2))) (row_height s2)"
  shows "import_result b ((findRowPower s4)\<lparr>row0_top_power_is_vdd := v\<rparr>)"
proof -
  let ?s5 = "(findRowPower s4)\<lparr>row0_top_power_is_vdd := v\<rparr>"
  obtain C L where s4: "s4 = s3\<lparr>cells := C, groups := L\<rparr>"
    "map (\<lambda>cl. cl\<lparr>cell_group := None\<rparr>) C = map (\<lambda>cl. cl\<lparr>cell_group := None\<rparr>) (cells s3)"
    using g by (auto simp: groups_made_def)
  obtain p where p: "findRowPower s4 = s4\<lparr>initial_power := p\<rparr>" using findRowPower_sel by blast
  have s5: "?s5 = s3\<lparr>cells := C, groups := L, initial_power := p, row0_top_power_is_vdd := v\<rparr>"
    using p by (simp add: s4(1))
  have "map (\<lambda>cl. cl\<lparr>cell_group := None\<rparr>) C = map (make_cell s2) (placeable_insts b)"
    using m b(1) by (simp add: s4(2) cells_made_def placeable_insts_def make_cell_ungrouped)
  then have c: "map (\<lambda>cl. cl\<lparr>cell_group := None\<rparr>) C = map (make_cell ?s5) (placeable_insts b)"
    using m make_cell_cong [of ?s5 s2] by (simp add: s5 cells_made_def)
  have "(isMultiRow s3 cl \<longrightarrow> have_multi_row_cells s3) \<and> db_master_map s3 (i_master (cell_inst s3 cl)) \<noteq> None"
    if "cl \<in> set C" for cl
  proof -
    have "cl\<lparr>cell_group := None\<rparr> \<in> set (map (\<lambda>cl. cl\<lparr>cell_group := None\<rparr>) (cells s3))"
      using that unfolding s4(2) [symmetric] by simp
    then obtain cl' where "cl' \<in> set (cells s3)" "cl\<lparr>cell_group := None\<rparr> = cl'\<lparr>cell_group := None\<rparr>"
      by auto
    moreover from arg_cong [OF this(2), of db_inst] have "db_inst cl = db_inst cl'" by simp
    then have "isMultiRow s3 cl = isMultiRow s3 cl'" "cell_inst s3 cl = cell_inst s3 cl'"
      by (simp_all add: isMultiRow_def macro_of_def)
    ultimately show ?thesis using m unfolding cells_made_def masters_known_def by metis
  qed
  moreover have "isMultiRow ?s5 cl = isMultiRow s3 cl" for cl
    by (simp add: s5 isMultiRow_def macro_of_def)
  moreover have "grouped_ok ?s5"
    unfolding s5 using groups_madeD(3) [OF g] by (simp add: s4(1) grouped_ok_def group_cells_ok_def)
  ultimately show ?thesis
    using m b c by (auto simp: import_result_def s5 cells_made_def masters_known_def)
qed

lemma importDb_result: "keeps (import_result (block st)) (importDb st)"
proof -
  let ?s0 = "importClear (st\<lparr>core := getCoreArea (block st)\<rparr>)"
  have ex: "keeps (\<lambda>s. block s = block st \<and> core s = getCoreArea (block st) \<and> cells s = []
      \<and> groups s = [] \<and> db_inst_map s = (\<lambda>_. None) \<and> b_rows (block st) \<noteq> []
      \<and> site_width s = site_w (last (b_rows (block st))) \<and> row_height s = site_h (last (b_rows (block st)))
      \<and> row_site_count s = divFloor (s32 (rect_dx (core s))) (site_width s)
      \<and> row_count s = divFloor (s32 (rect_dy (core s))) (row_height s)) (examineRows ?s0)"
    by (auto simp: examineRows_def importClear_def deleteGrid_def Let_def keeps_def
        split: prod.split option.splits if_splits)
  show ?thesis
    unfolding importDb_def Let_def
  proof (rule keeps_bindE [OF ex], elim conjE)
    fix s1 :: Opendp assume s1: "block s1 = block st" "core s1 = getCoreArea (block st)" "cells s1 = []"
      "groups s1 = []" "db_inst_map s1 = (\<lambda>_. None)" "b_rows (block st) \<noteq> []"
      "site_width s1 = site_w (last (b_rows (block st)))" "row_height s1 = site_h (last (b_rows (block st)))"
      "row_site_count s1 = divFloor (s32 (rect_dx (core s1))) (site_width s1)"
      "row_count s1 = divFloor (s32 (rect_dy (core s1))) (row_height s1)"
    let ?s2 = "makeMacros s1" and ?s3 = "makeCells (makeMacros s1)"
    have m: "cells_made ?s2 [0..<length (b_insts (block st))] ?s3"
      using makeCells_made [of ?s2] makeMacros_sel [of s1] s1 by simp
    have g0: "groups_made ?s3 ?s3"
      using m makeMacros_sel [of s1] s1
      unfolding groups_made_def
      by (intro conjI exI [of _ "cells ?s3"] exI [of _ "groups ?s3"])
        (auto simp: grouped_ok_def group_cells_ok_def cells_made_def)
    have g: "keeps (groups_made ?s3) (makeGroups ?s3)"
      by (rule makeGroups_made [OF g0]) (use m in \<open>unfold cells_made_def, blast\<close>)
    show "keeps (import_result (block st)) (bindE (makeGroups ?s3) (\<lambda>st. Inr ((findRowPower st)
        \<lparr>row0_top_power_is_vdd := ((if initial_power (findRowPower st) = P_undefined
            then macro_top_power (findRowPower st) else initial_power (findRowPower st)) = VDD)\<rparr>)))"
      by (rule keeps_bindE [OF g], rule keeps_Inr)
        (use m makeMacros_sel [of s1] s1 in \<open>auto intro: imported_groups\<close>)
  qed
qed

text \<open>
  The import leaves the placer ready for the placement, and the assertions on the map of the masters hold.
\<close>

lemma importDb_masters_known: "importDb st = Inr st' \<Longrightarrow> masters_known st'"
  using keepsD [OF importDb_result, of st st'] by (simp add: import_result_def)

lemma masters_known_same_design:
  assumes "same_design st st'" "masters_known st"
  shows "masters_known st'"
proof -
  have m: "db_master_map st' = db_master_map st" "block st' = block st"
    using assms(1) by (auto simp: same_design_def)
  have "db_master_map st (i_master (inst_of (block st) (db_inst (cell_of st' c)))) \<noteq> None" if "c < length (cells st)" for c
    using assms(2) nth_mem [OF that] cell_static_eqD(1) [OF same_design_cell [OF assms(1) that]]
    unfolding masters_known_def by simp
  then show ?thesis
    unfolding masters_known_def m Ball_set list_all_length same_design_length [OF assms(1)] by blast
qed

lemma import_result_cell:
  assumes "import_result b st" "c < length (cells st)"
  shows "db_inst (cell_of st c) = placeable_insts b ! c"
    "is_placed (cell_of st c) = isFixed st (cell_of st c)" "\<not> hold (cell_of st c)"
proof -
  have l: "length (cells st) = length (placeable_insts b)"
    using assms(1) unfolding import_result_def by (metis length_map)
  have e: "(cell_of st c)\<lparr>cell_group := None\<rparr> = make_cell st (placeable_insts b ! c)"
    using assms l unfolding import_result_def by (metis nth_map)
  show "db_inst (cell_of st c) = placeable_insts b ! c" using arg_cong [OF e, of db_inst] by simp
  then show "is_placed (cell_of st c) = isFixed st (cell_of st c)"
    using arg_cong [OF e, of is_placed] by (simp add: isFixed_def)
  show "\<not> hold (cell_of st c)" using arg_cong [OF e, of hold] by simp
qed

lemma import_result_imported:
  assumes "import_result b st" "0 < site_w (last (b_rows b))" "0 < site_h (last (b_rows b))"
  shows "imported st" "grouped_ok st" "\<forall>c < length (cells st). \<not> hold (cell_of st c)"
proof -
  show g: "grouped_ok st" using assms(1) by (simp add: import_result_def)
  show "\<forall>c < length (cells st). \<not> hold (cell_of st c)" using import_result_cell [OF assms(1)] by simp
  have "multi_known st"
    using assms(1) by (auto simp: import_result_def multi_known_def movable_def)
  then show "imported st"
    using assms g import_result_cell(2) [OF assms(1)]
    by (simp add: imported_def import_result_def grouped_ok_def group_cells_ok_def)
qed

end
