(* ===== verification/Dpl_Correct.thy ===== *)
theory Dpl_Correct
  imports Dpl_Import_Facts
begin

section \<open>Correctness of the placement\<close>

text \<open>
  The properties of the detailed placer, from the whole run down to single moves, and the
  concrete runs on which they are applied. The demo designs are those of \<open>Dpl_Example\<close>.
\<close>

subsection \<open>The whole run\<close>

lemma set_displacement_result:
  assumes "import_result b st"
  shows "import_result b (set_displacement dx dy st)"
proof -
  obtain x y where e: "set_displacement dx dy st = st\<lparr>max_displacement_x := x, max_displacement_y := y\<rparr>"
  proof (cases "dx = 0 \<or> dy = 0")
    case True
    then show ?thesis using that [of 100 500] by (simp add: set_displacement_def)
  next
    case False
    then show ?thesis using that [of dy dx] by (simp add: set_displacement_def)
  qed
  have "make_cell (st\<lparr>max_displacement_x := x, max_displacement_y := y\<rparr>) = make_cell st"
    by (rule ext, rule make_cell_cong) simp_all
  then show ?thesis
    using assms unfolding e import_result_def
    by (clarsimp simp: grouped_ok_def group_cells_ok_def isMultiRow_def macro_of_def masters_known_def)
qed

text \<open>
  C2: a run that ends without an error leaves every cell placed. The movable ones lie on site
  and row boundaries, inside the grid, and no two of them share a site, padding included.
\<close>

theorem run_places_all:
  assumes "std_sort (srt :: nat sorter)" "importDb st = Inr st1"
    and "0 < site_w (last (b_rows (block st)))" "0 < site_h (last (b_rows (block st)))"
    and "detailedPlacement_grid srt rnd (set_displacement dx dy st1) = Inr st2"
  shows "length (cells st2) = length (placeable_insts (block st))
     \<and> (\<forall>c < length (cells st2). is_placed (cell_of st2 c))
     \<and> (\<forall>c. movable st2 c \<longrightarrow> aligned st2 (cell_of st2 c) \<and> (\<forall>p \<in> footprint st2 (cell_of st2 c). in_grid st2 p))
     \<and> (\<forall>c d. movable st2 c \<longrightarrow> movable st2 d \<longrightarrow> c \<noteq> d \<longrightarrow>
          footprint st2 (cell_of st2 c) \<inter> footprint st2 (cell_of st2 d) = {})"
proof -
  let ?st1 = "set_displacement dx dy st1"
  have i: "import_result (block st) ?st1"
    using keepsD [OF importDb_result assms(2)] by (rule set_displacement_result)
  have "keeps (run_result ?st1) (detailedPlacement_grid srt rnd ?st1)"
    using import_result_imported [OF i assms(3,4)] by (intro detailedPlacement_grid_keeps [OF assms(1)])
  from keepsD [OF this assms(5)] have r: "grid_ok st2" "all_placed st2"
    "length (cells st2) = length (cells ?st1)"
    by (auto simp: run_result_def same_base_def dest: map_eq_imp_length_eq)
  have l: "length (cells st2) = length (placeable_insts (block st))"
    using r(3) i unfolding import_result_def by (metis length_map)
  have p: "\<forall>c < length (cells st2). is_placed (cell_of st2 c)" using r(2) by (simp add: all_placed_def)
  then have m: "is_placed (cell_of st2 c)" if "movable st2 c" for c using that by (simp add: movable_def)
  then have "owned st2 c" if "movable st2 c" for c using that r(1) by (simp add: grid_ok_def)
  then show ?thesis
    using l p grid_ok_disjoint [OF r(1)] m by (auto simp: owned_def Let_def)
qed

lemma demo_run:
  "map_sum id (\<lambda>st. map (\<lambda>c. (cell_x c, is_placed c)) (cells st))
     (bindE (importDb demo_state) (\<lambda>st. detailedPlacement_grid insertion_sort (\<lambda>_. 0) (set_displacement 30 30 st)))
   = Inr [(20, True), (0, True)]"
  by code_simp

theorem run_places_all_witness:
  "\<exists>st1 st2. importDb demo_state = Inr st1
     \<and> detailedPlacement_grid insertion_sort (\<lambda>_. 0) (set_displacement 30 30 st1) = Inr st2
     \<and> map (\<lambda>c. (cell_x c, is_placed c)) (cells st2) = [(20, True), (0, True)]
     \<and> (\<forall>c < length (cells st2). is_placed (cell_of st2 c))"
proof -
  obtain st1 st2 where 1: "importDb demo_state = Inr st1"
    and 2: "detailedPlacement_grid insertion_sort (\<lambda>_. 0) (set_displacement 30 30 st1) = Inr st2"
    and 3: "map (\<lambda>c. (cell_x c, is_placed c)) (cells st2) = [(20, True), (0, True)]"
    using map_sum_Inr [OF demo_run] by auto
  have "0 < site_w (last (b_rows (block demo_state)))" "0 < site_h (last (b_rows (block demo_state)))"
    by (simp_all add: demo_state_def demo_block_def demo_row_def)
  from run_places_all [OF insertion_nat 1 this 2] show ?thesis
    using 1 2 3 by (intro exI [of _ st1] exI [of _ st2]) simp
qed

subsection \<open>Placing the cells outside of the groups\<close>

text \<open>
  C3: \<open>place\<close> puts every unplaced movable cell that is in no group on sites; every placed cell
  then owns the sites under its padded outline and nothing else does, and the sites of all
  cells are valid and belong to the cell's own group if they did before.
\<close>

theorem place_legal:
  assumes "std_sort (srt :: nat sorter)" "grid_ok st" "multi_known st" "place srt st = Inr st'"
  shows "grid_ok st' \<and> placed_cells st' = placed_cells st \<union> set (place_candidates st)
     \<and> (sites_ok st \<longrightarrow> sites_ok st')
     \<and> (\<forall>a < length (cells st). isFixed st (cell_of st a) \<longrightarrow> cell_of st' a = cell_of st a)"
  using place_result [OF assms(1,4,2,3)] grid_steps_keep grid_steps_sites grid_steps_fixed assms(2)
  by blast

lemma demo_place:
  "map_sum id (\<lambda>st. map cell_x (cells st)) (place insertion_sort demo_grid) = Inr [0, 40]"
  by code_simp

theorem place_legal_witness:
  "\<exists>st'. place insertion_sort demo_grid = Inr st' \<and> map cell_x (cells st') = [0, 40]
     \<and> grid_ok st' \<and> sites_ok st'"
proof -
  obtain st' where "place insertion_sort demo_grid = Inr st'" "map cell_x (cells st') = [0, 40]"
    using map_sum_Inr [OF demo_place] by auto
  with place_legal [OF insertion_nat demo_grid_ok demo_multi_known this(1)] demo_sites_ok
  show ?thesis by auto
qed

text \<open>
  C7: on a grid without dummy cells, with movable cells of more than half a site and half a row that fit
  in the core, and whose masters are all in the map of the macros, so that the assertions of \<open>isMultiRow\<close>
  and \<open>topPower\<close> hold (the import puts them there), \<open>place\<close> always returns: no null pointer, no cell
  painted twice, no loop without end. It fails only with the messages for a cell that is larger than
  the grid (15), a cell for which there is no room (18) and a shifted cell that finds no new place (19).
\<close>

theorem place_failures:
  assumes "std_sort (srt :: nat sorter)" "grid_ok st" "no_dummy st" "all_core st"
    and "masters_known st" "place srt st = Inl e"
  shows "e \<in> {LoggedError 15, LoggedError 18, LoggedError 19}"
  by (rule place_faults [OF assms(1,6,2,3,4)])

text \<open>A padding of five sites makes the cells wider than the row.\<close>

lemma demo_wide: "map_sum id (\<lambda>_. ()) (place insertion_sort (demo_grid\<lparr>pad_left := 5\<rparr>)) = Inl (LoggedError 15)"
  by code_simp

lemma demo_wide_ok:
  "grid_ok (demo_grid\<lparr>pad_left := 5\<rparr>)" "no_dummy (demo_grid\<lparr>pad_left := 5\<rparr>)"
  "all_core (demo_grid\<lparr>pad_left := 5\<rparr>)" "masters_known (demo_grid\<lparr>pad_left := 5\<rparr>)"
proof -
  let ?st = "demo_grid\<lparr>pad_left := 5\<rparr>"
  have m: "movable ?st c = movable demo_grid c" "in_grid ?st = in_grid demo_grid" for c
    by (simp_all add: movable_def isFixed_def in_grid_def fun_eq_iff)
  show "grid_ok ?st"
    using demo_none_placed m
    by (simp add: grid_ok_def demo_fields(1,2) owners_ok_def demo_pixels demo_pixel_sel)
  show "no_dummy ?st" using demo_no_dummy m by (simp add: no_dummy_def)
  show "all_core ?st" using demo_all_core m by (simp add: all_core_def core_cell_def)
  show "masters_known ?st" using demo_masters_known by (simp add: masters_known_def)
qed

theorem place_failures_witness:
  "\<exists>e. place insertion_sort (demo_grid\<lparr>pad_left := 5\<rparr>) = Inl e
     \<and> e \<in> {LoggedError 15, LoggedError 18, LoggedError 19}"
proof -
  have "place insertion_sort (demo_grid\<lparr>pad_left := 5\<rparr>) = Inl (LoggedError 15)"
    using demo_wide by (cases "place insertion_sort (demo_grid\<lparr>pad_left := 5\<rparr>)") auto
  from place_failures [OF insertion_nat demo_wide_ok this] this show ?thesis by blast
qed

subsection \<open>Painting and erasing\<close>

text \<open>
  C20: erasing a cell that was just put on free sites gives all their owners back, and the cell
  itself is unplaced again; only the location of the cell remembers the trip.
\<close>

theorem paint_erase_roundtrip:
  assumes "grid_ok st" "movable st c" "paintPixel c gx gy st = Inr st1"
  shows "\<exists>st2. erasePixel c st1 = Inr st2 \<and> \<not> is_placed (cell_of st2 c)
     \<and> (\<forall>p. pixel_cell (grid st2 p) = pixel_cell (grid st p))
     \<and> (\<forall>a. a \<noteq> c \<longrightarrow> cell_of st2 a = cell_of st a)"
proof -
  note p = paintPixel_step [OF assms(2,3)]
  have c: "c < length (cells st)" using assms(2) by (simp add: movable_def)
  have w: "0 < site_width st" "0 < row_height st" using assms(1) by (auto simp: grid_ok_def)
  have f: "\<forall>q \<in> paint_box st c gx gy. in_grid st q \<and> pixel_cell (grid st q) = None"
    using p(2) by (simp add: free_box_def)
  have m: "movable st1 c" unfolding p(1) using assms(2) movable_same_design [OF same_design_painted [OF c]] by simp
  have o: "owned st1 c" "footprint st1 (cell_of st1 c) = paint_box st c gx gy"
    unfolding p(1) using owned_painted [OF w c] f by blast+
  have pl: "is_placed (cell_of st1 c)" unfolding p(1) using c by (simp add: painted_sel painted_cell_def)
  have e: "erasePixel c st1 = Inr (erased st1 c)" by (rule erasePixel_owned [OF m pl o(1)])
  have "c < length (cells st1)" using m by (simp add: movable_def)
  moreover have "pixel_cell (grid (erased st1 c) q) = pixel_cell (grid st q)" for q
    using f by (simp add: erased_sel o(2)) (simp add: p(1) painted_sel)
  moreover have "cell_of (erased st1 c) a = cell_of st a" if "a \<noteq> c" for a
    using that by (simp add: erased_sel) (simp add: p(1) painted_sel)
  ultimately show ?thesis using e by (simp add: erased_sel)
qed

theorem paint_erase_roundtrip_witness:
  "\<exists>st2. erasePixel 0 demo_one = Inr st2 \<and> \<not> is_placed (cell_of st2 0)
     \<and> (\<forall>p. pixel_cell (grid st2 p) = pixel_cell (grid demo_grid p))"
proof -
  have "paintPixel 0 4 0 demo_grid = Inr demo_one"
    using demo_one_free demo_unplaced by (simp add: paintPixel_iff demo_fields(5) demo_one_def)
  moreover have "movable demo_grid 0" by (simp add: demo_movable)
  ultimately show ?thesis using paint_erase_roundtrip [OF demo_grid_ok] by blast
qed

end
