(* ===== verification/Dpl_Move_Props.thy ===== *)
theory Dpl_Move_Props
  imports Dpl_Correct
begin

section \<open>Properties of the search and of single moves\<close>

text \<open>
  What the helper functions of \<open>Place.cpp\<close> promise: where a search may start, what it
  finds, how a cell leaves a hopeless pixel, and that swaps and refinements improve the
  placement.
\<close>

subsection \<open>Starting points\<close>

text \<open>
  C19: for a cell that fits in the core and is wider than half a site and higher than half a row,
  \<open>legalPt\<close> of any point is a corner of a site of the grid, and a point that lies in the core with
  room for the cell moves by half a site and half a row at most. (A narrower cell at the right edge
  is rounded to the column behind the last, one wider than the core to a negative column.)
\<close>

theorem legalPt_legal:
  assumes "0 < site_width st" "0 < row_height st" "core_cell st cl"
  shows "\<exists>gx gy. legalPt st cl pt = Point (gx * site_width st) (gy * row_height st)
     \<and> 0 \<le> gx \<and> gx < row_site_count st \<and> 0 \<le> gy \<and> gy < row_count st
     \<and> (0 \<le> getX pt \<longrightarrow> getX pt + cell_width cl \<le> row_site_count st * site_width st \<longrightarrow>
          \<bar>2 * (gx * site_width st - getX pt)\<bar> \<le> site_width st)
     \<and> (0 \<le> getY pt \<longrightarrow> getY pt + cell_height cl \<le> row_count st * row_height st \<longrightarrow>
          \<bar>2 * (gy * row_height st - getY pt)\<bar> \<le> row_height st)"
proof -
  obtain gx gy where g: "legalPt st cl pt = Point (gx * site_width st) (gy * row_height st)"
    "0 \<le> gx" "gx < row_site_count st" "0 \<le> gy" "gy < row_count st"
    by (rule legalPt_grid [OF assms, of pt])
  have "\<bar>2 * (gx * site_width st - getX pt)\<bar> \<le> site_width st"
    if "0 \<le> getX pt" "getX pt + cell_width cl \<le> row_site_count st * site_width st"
  proof -
    have e: "gx * site_width st = divRound (getX pt) (site_width st) * site_width st"
      using g(1) that by (auto simp: legalPt_def)
    show ?thesis unfolding e using divRound_near [OF assms(1) that(1)] .
  qed
  moreover have "\<bar>2 * (gy * row_height st - getY pt)\<bar> \<le> row_height st"
    if "0 \<le> getY pt" "getY pt + cell_height cl \<le> row_count st * row_height st"
  proof -
    have e: "gy * row_height st = divRound (getY pt) (row_height st) * row_height st"
      using g(1) that by (auto simp: legalPt_def)
    show ?thesis unfolding e using divRound_near [OF assms(2) that(1)] .
  qed
  ultimately show ?thesis using g by blast
qed

lemma demo_core: "core_cell demo_grid (cell_of demo_grid 0)"
  using demo_all_core demo_movable by (simp add: all_core_def)

theorem legalPt_legal_witness:
  "\<exists>gx gy. legalPt demo_grid (cell_of demo_grid 0) (Point 13 7) = Point (gx * 10) (gy * 20)
     \<and> \<bar>2 * (gx * 10 - 13)\<bar> \<le> (10 :: int)"
  using legalPt_legal [OF _ _ demo_core, of "Point 13 7"] by (auto simp: demo_fields demo_cell_def)

text \<open>
  On a grid without dummy cells, where every movable cell fits in the core and is wider than half a
  site and higher than half a row, the starting point of a movable cell always exists: the excursion
  of \<open>legalPt\<close> over blocks and hopeless pixels never leaves the grid. (A narrower cell at the right
  edge beside a block is sent to a column outside of the grid, whose pixel is null.)
\<close>

lemma legalGridPt_defined:
  assumes "grid_ok st" "no_dummy st" "all_core st" "movable st c"
  shows "\<exists>pt. legalGridPt_cell st (cell_of st c) padded = Inr pt"
  using assms legalGridPt_cell_total [of st "cell_of st c" padded]
  by (simp add: grid_ok_def all_core_def movable_def)

text \<open>
  \<open>moveHopeless\<close> finds the nearest way out. If the row or the column of a pixel has another
  valid site, the result is a valid site of that row or column, and none of them is closer.
\<close>

theorem moveHopeless_nearest:
  assumes "in_grid st (x, y)" "0 < site_width st" "0 < row_height st"
    and "row_site_count st * site_width st \<le> INT_MAX" "row_count st * row_height st \<le> INT_MAX"
    and "hop_target st x y p"
  shows "hop_target st x y (moveHopeless st x y)
     \<and> hop_dist st x y (moveHopeless st x y) \<le> hop_dist st x y p"
proof -
  obtain best where b: "hop_best st x y best"
    "moveHopeless st x y = (if snd best \<noteq> INT_MAX then fst best else (x, y))"
    "snd best \<le> hop_dist st x y p"
    using moveHopeless_best [OF assms(1-3)] assms(6) by blast
  have p: "in_grid st p" "fst p = x \<or> snd p = y" using assms(6) by (auto simp: hop_target_def)
  have "\<bar>fst p - x\<bar> * site_width st < row_site_count st * site_width st"
    using assms(1,2) p(1) by (intro mult_strict_right_mono) (auto simp: in_grid_def)
  moreover have "\<bar>snd p - y\<bar> * row_height st < row_count st * row_height st"
    using assms(1,3) p(1) by (intro mult_strict_right_mono) (auto simp: in_grid_def)
  ultimately have "hop_dist st x y p < INT_MAX"
    using p(2) assms(4,5) by (auto simp: hop_dist_def)
  then show ?thesis using b by (auto simp: hop_best_def)
qed

lemma demo_hop:
  "in_grid (upd_pixel (2, 0) (\<lambda>px. px\<lparr>is_valid := False\<rparr>) demo_grid) (2, 0)"
  "moveHopeless (upd_pixel (2, 0) (\<lambda>px. px\<lparr>is_valid := False\<rparr>) demo_grid) 2 0 = (1, 0)"
  by code_simp+

theorem moveHopeless_nearest_witness:
  "hop_target (upd_pixel (2, 0) (\<lambda>px. px\<lparr>is_valid := False\<rparr>) demo_grid) 2 0 (1, 0)"
proof -
  let ?st = "upd_pixel (2, 0) (\<lambda>px. px\<lparr>is_valid := False\<rparr>) demo_grid"
  have "hop_target ?st 2 0 (4, 0)"
    by (simp add: hop_target_def in_grid_def demo_fields grid_upd_pixel)
      (simp add: demo_grid_def demo_pixel_def)
  from moveHopeless_nearest [OF demo_hop(1) _ _ _ _ this] show ?thesis
    by (simp add: demo_hop(2) demo_fields)
qed

subsection \<open>The search\<close>

text \<open>
  C14: what \<open>diamondSearch\<close> returns fits the cell: every site under the padded outline is inside
  the grid, free, valid and of the cell's group, on a row of the right power. For a cell in no group and a
  starting point in the grid, the row is within the maximal displacement, the column too to the left, and
  up to nine sites further to the right: the last bin is searched to its end.
\<close>

theorem diamondSearch_sound:
  assumes "pp_pixel (diamondSearch st cl x y) \<noteq> None"
  shows "fits_at st cl (getX (pp_pt (diamondSearch st cl x y))) (getY (pp_pt (diamondSearch st cl x y)))
     \<and> (cell_group cl = None \<longrightarrow> 0 \<le> x \<longrightarrow> x \<le> row_site_count st \<longrightarrow> 0 \<le> y \<longrightarrow> y \<le> row_count st \<longrightarrow>
        0 \<le> max_displacement_x st \<longrightarrow> 0 \<le> max_displacement_y st \<longrightarrow>
          x - max_displacement_x st \<le> getX (pp_pt (diamondSearch st cl x y))
          \<and> getX (pp_pt (diamondSearch st cl x y)) \<le> x + max_displacement_x st + 9
          \<and> \<bar>getY (pp_pt (diamondSearch st cl x y)) - y\<bar> \<le> max_displacement_y st)"
  using diamondSearch_fits [OF assms] diamondSearch_window [OF assms] by blast

lemma demo_search: "diamondSearch demo_grid (cell_of demo_grid 0) 3 0 = PixelPt (Some (3, 0)) (Point 3 0)"
  by code_simp

theorem diamondSearch_sound_witness: "fits_at demo_grid (cell_of demo_grid 0) 3 0"
  using diamondSearch_sound [of demo_grid "cell_of demo_grid 0" 3 0] by (simp add: demo_search)

text \<open>
  C22: the search does not miss its first bin: if the cell fits at the starting site or at one of
  the nine sites to its right, it finds a place.
\<close>

theorem diamondSearch_complete:
  assumes "fits_at st cl (x + i) y" "0 \<le> i" "i < 10"
    and "0 < gridPaddedWidth st cl" "0 < gridHeight st cl"
  shows "pp_pixel (diamondSearch st cl x y) \<noteq> None"
  using binSearch_complete [OF assms, of x] by (simp add: diamondSearch_def Let_def)

theorem diamondSearch_complete_witness:
  "pp_pixel (diamondSearch demo_grid (cell_of demo_grid 0) 1 0) \<noteq> None"
proof (rule diamondSearch_complete)
  show "fits_at demo_grid (cell_of demo_grid 0) (1 + 2) 0"
    using diamondSearch_fits [of demo_grid "cell_of demo_grid 0" 3 0] by (simp add: demo_search)
qed (simp_all add: demo_shape(1,2) [of 0, simplified])

subsection \<open>Improving moves\<close>

text \<open>
  C15: on two placed movable cells of the same padding, when the masters of all cells are in the map of the
  macros, so that the assertion of \<open>topPower\<close> holds, \<open>swapCells\<close> never faults. Either nothing changes, or the cells exchange their locations, all others stay, their displacements together become
  smaller, and the cells still sit on valid sites of their group if they are of one group.
\<close>

theorem swapCells_exchange:
  assumes "grid_ok st" "movable st c1" "movable st c2"
    and "is_placed (cell_of st c1)" "is_placed (cell_of st c2)"
    and "padLeft st (cell_of st c1) = padLeft st (cell_of st c2)"
      "padRight st (cell_of st c1) = padRight st (cell_of st c2)"
    and "masters_known st"
  shows "swapCells c1 c2 st = Inr (False, st) \<or>
     (\<exists>st'. swapCells c1 c2 st = Inr (True, st') \<and> grid_ok st'
        \<and> cell_x (cell_of st' c1) = cell_x (cell_of st c2) \<and> cell_y (cell_of st' c1) = cell_y (cell_of st c2)
        \<and> cell_x (cell_of st' c2) = cell_x (cell_of st c1) \<and> cell_y (cell_of st' c2) = cell_y (cell_of st c1)
        \<and> (\<forall>a. a \<noteq> c1 \<longrightarrow> a \<noteq> c2 \<longrightarrow> cell_of st' a = cell_of st a)
        \<and> disp st' (cell_of st' c1) + disp st' (cell_of st' c2) < disp st (cell_of st c1) + disp st (cell_of st c2)
        \<and> (sites_ok st \<longrightarrow> cell_group (cell_of st c1) = cell_group (cell_of st c2) \<longrightarrow> sites_ok st'))"
proof -
  have c: "c1 < length (cells st)" "c2 < length (cells st)" using assms(2,3) by (auto simp: movable_def)
  consider "swapCells c1 c2 st = Inr (False, st)"
    | st' where "swapCells c1 c2 st = Inr (True, st')"
      "cell_x (cell_of st' c1) = cell_x (cell_of st c2)" "cell_y (cell_of st' c1) = cell_y (cell_of st c2)"
      "cell_x (cell_of st' c2) = cell_x (cell_of st c1)" "cell_y (cell_of st' c2) = cell_y (cell_of st c1)"
      "\<forall>a. a \<noteq> c1 \<longrightarrow> a \<noteq> c2 \<longrightarrow> cell_of st' a = cell_of st a"
      "distChange st (cell_of st c1) (cell_x (cell_of st c2)) (cell_y (cell_of st c2))
        + distChange st (cell_of st c2) (cell_x (cell_of st c1)) (cell_y (cell_of st c1)) < 0"
      "sites_ok st \<longrightarrow> cell_group (cell_of st c1) = cell_group (cell_of st c2) \<longrightarrow> sites_ok st'"
    using swapCells_exchange_lemma [OF assms(1-7)] by blast
  then show ?thesis
  proof cases
    case 2
    have k: "grid_ok st'" "same_design st st'"
      using grid_steps_keep [OF swapCells_steps(1) [OF assms(1) c 2(1)] assms(1)] by auto
    have "disp st' (cell_of st' c1) + disp st' (cell_of st' c2) < disp st (cell_of st c1) + disp st (cell_of st c2)"
      using 2(7) unfolding disp_distChange [OF k(2) c(1)] disp_distChange [OF k(2) c(2)] 2(2-5) by simp
    then show ?thesis using 2 k(1) by blast
  qed simp
qed

lemma demo_pair_known: "masters_known demo_pair"
  by (rule masters_known_same_design [OF demo_pair_design demo_masters_known])

lemma demo_swap: "map_sum id fst (swapCells 0 1 demo_pair) = Inr True"
  by code_simp

theorem swapCells_exchange_witness:
  "\<exists>st'. swapCells 0 1 demo_pair = Inr (True, st')
     \<and> cell_x (cell_of st' 0) = cell_x (cell_of demo_pair 1)
     \<and> disp st' (cell_of st' 0) + disp st' (cell_of st' 1)
       < disp demo_pair (cell_of demo_pair 0) + disp demo_pair (cell_of demo_pair 1)"
proof -
  obtain st' where s: "swapCells 0 1 demo_pair = Inr (True, st')" using map_sum_Inr [OF demo_swap] by auto
  have "movable demo_pair 0" "movable demo_pair 1" by (simp_all add: demo_pair_ok(2))
  from swapCells_exchange [OF demo_pair_ok(1) this demo_pair_ok(3,4) _ _ demo_pair_known] s
  show ?thesis using demo_pair_shape [of 0] demo_pair_shape [of 1] by auto
qed

text \<open>
  C16: a refinement that reports success moves one cell to sites that fit it, leaves the others
  where they are, and for a cell without padding on the left strictly reduces its displacement;
  one that reports failure changes nothing.
\<close>

theorem refineMove_improves:
  assumes "grid_ok st" "movable st c" "refineMove c st = Inr (b, st')"
  shows "(\<not> b \<longrightarrow> st' = st)
     \<and> (b \<longrightarrow> grid_ok st' \<and> is_placed (cell_of st' c) \<and> (sites_ok st \<longrightarrow> sites_ok st')
          \<and> (\<forall>a. a \<noteq> c \<longrightarrow> cell_of st' a = cell_of st a)
          \<and> (padLeft st (cell_of st c) = 0 \<longrightarrow> disp st' (cell_of st' c) < disp st (cell_of st c)))"
proof (cases b)
  case True
  have c: "c < length (cells st)" using assms(2) by (simp add: movable_def)
  obtain gx gy where r: "grid_steps legal_site st st'" "same_design st st'"
    "cell_x (cell_of st' c) = (gx + padLeft st (cell_of st c)) * site_width st"
    "cell_y (cell_of st' c) = gy * row_height st"
    "distChange st (cell_of st c) (gx * site_width st) (gy * row_height st) < 0"
    "placed_cells st' = insert c (placed_cells st)" "\<forall>a. a \<noteq> c \<longrightarrow> cell_of st' a = cell_of st a"
    using refineMove_result [OF assms] True by auto
  have "is_placed (cell_of st' c)" using r(6) by (auto simp: placed_cells_def)
  moreover have "padLeft st (cell_of st c) = 0 \<longrightarrow> disp st' (cell_of st' c) < disp st (cell_of st c)"
    using r(5) unfolding disp_distChange [OF r(2) c] r(3,4) by simp
  ultimately show ?thesis
    using True r(1,7) grid_steps_keep [OF r(1) assms(1)] grid_steps_sites [OF r(1) assms(1)] by simp
next
  case False
  then show ?thesis using refineMove_result [OF assms] by simp
qed

lemma demo_refine: "map_sum id fst (refineMove 0 demo_one) = Inr True"
  by code_simp

theorem refineMove_improves_witness:
  "\<exists>st'. refineMove 0 demo_one = Inr (True, st') \<and> grid_ok st' \<and> is_placed (cell_of st' 0)"
proof -
  obtain st' where s: "refineMove 0 demo_one = Inr (True, st')" using map_sum_Inr [OF demo_refine] by auto
  have "movable demo_one 0" by (simp add: demo_one_ok(2))
  from refineMove_improves [OF demo_one_ok(1) this s] s show ?thesis by blast
qed

end
