(* ===== verification/Dpl_Writeback.thy ===== *)
theory Dpl_Writeback
  imports Dpl_Move_Props
begin

section \<open>Writing the placement back\<close>

text \<open>
  \<open>updateDbInstLocations\<close> moves the instances of the movable standard cells to the places of
  the cells and touches nothing else. With the legality of the run this gives the property a
  user of the placer relies on: in the database no two of these instances overlap.
\<close>

definition design_wf :: "dbBlock \<Rightarrow> bool" where
  "design_wf b \<longleftrightarrow> (\<forall>i < length (b_insts b). inst_wf (master_of b i) (inst_of b i))"

definition write_cell :: "Cell \<Rightarrow> Opendp \<Rightarrow> Opendp" where
  \<comment> \<open>the body of the loop of \<open>updateDbInstLocations\<close>\<close>
  "write_cell cl st =
     (if \<not> isFixed st cl \<and> isStdCell st cl then
       (let i = db_inst cl; m = cell_master st cl;
            st = (if i_orient (inst_of (block st) i) \<noteq> cell_orient cl
                  then st\<lparr>block := upd_inst i (setOrient m (cell_orient cl)) (block st)\<rparr>
                  else st);
            x = xMin (core st) + cell_x cl; y = yMin (core st) + cell_y cl;
            (inst_x, inst_y) = getLocation (inst_of (block st) i)
        in if x \<noteq> inst_x \<or> y \<noteq> inst_y
           then st\<lparr>block := upd_inst i (setLocation m x y) (block st)\<rparr>
           else st)
      else st)"

lemma updateDbInstLocations_fold: "updateDbInstLocations st = fold write_cell (cells st) st"
  unfolding updateDbInstLocations_def write_cell_def [abs_def] ..

text \<open>The instance that a cell writes.\<close>

definition written :: "dbMaster \<Rightarrow> dbOrientType \<Rightarrow> int \<Rightarrow> int \<Rightarrow> dbInst \<Rightarrow> dbInst" where
  "written m ori x y inst =
     (let j = (if i_orient inst \<noteq> ori then setOrient m ori inst else inst)
      in if x \<noteq> fst (getLocation j) \<or> y \<noteq> snd (getLocation j) then setLocation m x y j else j)"

lemma written_facts:
  assumes "inst_wf m inst"
  shows "inst_wf m (written m ori x y inst)" "getLocation (written m ori x y inst) = (x, y)"
    "i_orient (written m ori x y inst) = ori" "i_status (written m ori x y inst) = i_status inst"
    "i_master (written m ori x y inst) = i_master inst" "i_name (written m ori x y inst) = i_name inst"
    "i_iterms (written m ori x y inst) = i_iterms inst" "i_source (written m ori x y inst) = i_source inst"
  using assms getLocation_setLocation [OF assms] getLocation_setLocation [OF setOrient_wf [OF assms]]
  by (auto simp: written_def Let_def setOrient_wf setLocation_wf prod_eq_iff)

definition writes :: "Opendp \<Rightarrow> Cell \<Rightarrow> bool" where
  "writes st cl \<longleftrightarrow> \<not> isFixed st cl \<and> isStdCell st cl"

definition set_insts :: "dbInst list \<Rightarrow> Opendp \<Rightarrow> Opendp" where
  "set_insts insts st = st\<lparr>block := (block st)\<lparr>b_insts := insts\<rparr>\<rparr>"

lemma set_insts_sel [simp]:
  "core (set_insts l st) = core st" "cells (set_insts l st) = cells st"
  "b_insts (block (set_insts l st)) = l" "b_masters (block (set_insts l st)) = b_masters (block st)"
  "set_insts l (set_insts l' st) = set_insts l st" "set_insts (b_insts (block st)) st = st"
  "inst_of (block (set_insts l st)) i = l ! i"
  by (simp_all add: set_insts_def inst_of_def)

lemma write_cell_eq:
  assumes "writes st cl" "db_inst cl < length (b_insts (block st))"
  shows "write_cell cl st = set_insts ((b_insts (block st))[db_inst cl :=
             written (cell_master st cl) (cell_orient cl) (xMin (core st) + cell_x cl)
               (yMin (core st) + cell_y cl) (cell_inst st cl)]) st"
proof -
  have id: "b_insts (block st) = (b_insts (block st))[db_inst cl := cell_inst st cl]"
    by (simp add: inst_of_def)
  have "st = st\<lparr>block := (block st)\<lparr>b_insts := b_insts (block st)\<rparr>\<rparr>" by simp
  with id show ?thesis
    using assms
    by (auto simp: write_cell_def writes_def set_insts_def written_def Let_def upd_inst_def inst_of_def
        split: prod.split)
qed

lemma write_cell_skip: "\<not> writes st cl \<Longrightarrow> write_cell cl st = st"
  by (auto simp: write_cell_def writes_def)

text \<open>Instance lists that differ in location and orientation only.\<close>

definition insts_moved :: "Opendp \<Rightarrow> dbInst list \<Rightarrow> bool" where
  "insts_moved st l \<longleftrightarrow> length l = length (b_insts (block st))
     \<and> (\<forall>i < length l. i_status (l ! i) = i_status (inst_of (block st) i)
          \<and> i_master (l ! i) = i_master (inst_of (block st) i)
          \<and> (inst_wf (master_of (block st) i) (inst_of (block st) i) \<longrightarrow> inst_wf (master_of (block st) i) (l ! i)))"

lemma writes_moved:
  assumes "insts_moved st l" "db_inst cl < length (b_insts (block st))"
  shows "writes (set_insts l st) cl = writes st cl" "cell_master (set_insts l st) cl = cell_master st cl"
  using assms by (auto simp: insts_moved_def writes_def isFixed_def inst_isFixed_def isStdCell_def master_of_def)

lemma fold_write:
  assumes "design_wf (block st)" "insts_moved st l0"
    and "\<forall>cl \<in> set cls. db_inst cl < length (b_insts (block st))" "distinct (map db_inst cls)"
    and "\<forall>i < length l0. inst_wf (master_of (block st) i) (l0 ! i)"
  shows "\<exists>l. fold write_cell cls (set_insts l0 st) = set_insts l st \<and> insts_moved st l
     \<and> (\<forall>cl \<in> set cls. writes st cl \<longrightarrow>
          getLocation (l ! db_inst cl) = (xMin (core st) + cell_x cl, yMin (core st) + cell_y cl)
          \<and> i_orient (l ! db_inst cl) = cell_orient cl)
     \<and> (\<forall>i < length l. (\<forall>cl \<in> set cls. db_inst cl = i \<longrightarrow> \<not> writes st cl) \<longrightarrow> l ! i = l0 ! i)"
  using assms(2-)
proof (induction cls arbitrary: l0)
  case (Cons cl cls)
  have b: "db_inst cl < length (b_insts (block st))" "length l0 = length (b_insts (block st))"
    using Cons.prems by (auto simp: insts_moved_def)
  note w = writes_moved [OF Cons.prems(1) b(1)]
  show ?case
  proof (cases "writes st cl")
    case True
    define j where "j = written (cell_master st cl) (cell_orient cl) (xMin (core st) + cell_x cl)
      (yMin (core st) + cell_y cl) (l0 ! db_inst cl)"
    have wf: "inst_wf (cell_master st cl) (l0 ! db_inst cl)" using Cons.prems(4) b by simp
    note f = written_facts [OF wf, of "cell_orient cl" "xMin (core st) + cell_x cl" "yMin (core st) + cell_y cl",
      folded j_def]
    let ?l = "l0[db_inst cl := j]"
    have e: "write_cell cl (set_insts l0 st) = set_insts ?l st"
      using True w b by (subst write_cell_eq) (simp_all add: j_def)
    have m: "insts_moved st ?l" "\<forall>i < length ?l. inst_wf (master_of (block st) i) (?l ! i)"
      using Cons.prems(1,4) f b by (auto simp: insts_moved_def nth_list_update)
    have d: "db_inst cl \<notin> db_inst ` set cls" "distinct (map db_inst cls)" using Cons.prems(3) by auto
    obtain l where l: "fold write_cell cls (set_insts ?l st) = set_insts l st" "insts_moved st l"
      "\<forall>cl \<in> set cls. writes st cl \<longrightarrow>
          getLocation (l ! db_inst cl) = (xMin (core st) + cell_x cl, yMin (core st) + cell_y cl)
          \<and> i_orient (l ! db_inst cl) = cell_orient cl"
      "\<forall>i < length l. (\<forall>cl \<in> set cls. db_inst cl = i \<longrightarrow> \<not> writes st cl) \<longrightarrow> l ! i = ?l ! i"
      using Cons.IH [OF m(1) _ d(2) m(2)] Cons.prems(2) by auto
    have "length l = length l0" using l(2) b(2) by (simp add: insts_moved_def)
    moreover from this have "l ! db_inst cl = ?l ! db_inst cl"
      using l(4) [rule_format, of "db_inst cl"] d(1) b by (metis imageI)
    then have "l ! db_inst cl = j" using b by simp
    ultimately show ?thesis
      using e l f True by (intro exI [of _ l]) auto
  next
    case False
    then have "write_cell cl (set_insts l0 st) = set_insts l0 st" using w by (simp add: write_cell_skip)
    moreover obtain l where "fold write_cell cls (set_insts l0 st) = set_insts l st" "insts_moved st l"
      "\<forall>cl \<in> set cls. writes st cl \<longrightarrow>
          getLocation (l ! db_inst cl) = (xMin (core st) + cell_x cl, yMin (core st) + cell_y cl)
          \<and> i_orient (l ! db_inst cl) = cell_orient cl"
      "\<forall>i < length l. (\<forall>cl \<in> set cls. db_inst cl = i \<longrightarrow> \<not> writes st cl) \<longrightarrow> l ! i = l0 ! i"
      using Cons.IH [OF Cons.prems(1)] Cons.prems(2-4) by auto
    ultimately show ?thesis using False by (intro exI [of _ l]) auto
  qed
qed auto

lemma writeback_facts:
  assumes "design_wf (block st)" "distinct (map db_inst (cells st))"
    and "\<forall>cl \<in> set (cells st). db_inst cl < length (b_insts (block st))"
  shows "(\<forall>cl \<in> set (cells st). writes st cl \<longrightarrow>
         getLocation (inst_of (block (updateDbInstLocations st)) (db_inst cl))
           = (xMin (core st) + cell_x cl, yMin (core st) + cell_y cl)
         \<and> i_orient (inst_of (block (updateDbInstLocations st)) (db_inst cl)) = cell_orient cl)
     \<and> (\<forall>i < length (b_insts (block st)). (\<forall>cl \<in> set (cells st). db_inst cl = i \<longrightarrow> \<not> writes st cl) \<longrightarrow>
         inst_of (block (updateDbInstLocations st)) i = inst_of (block st) i)
     \<and> design_wf (block (updateDbInstLocations st))
     \<and> b_masters (block (updateDbInstLocations st)) = b_masters (block st)
     \<and> length (b_insts (block (updateDbInstLocations st))) = length (b_insts (block st))
     \<and> (\<forall>i < length (b_insts (block st)). i_master (inst_of (block (updateDbInstLocations st)) i) = i_master (inst_of (block st) i))"
proof -
  obtain l where l: "updateDbInstLocations st = set_insts l st" "insts_moved st l"
    "\<forall>cl \<in> set (cells st). writes st cl \<longrightarrow>
        getLocation (l ! db_inst cl) = (xMin (core st) + cell_x cl, yMin (core st) + cell_y cl)
        \<and> i_orient (l ! db_inst cl) = cell_orient cl"
    "\<forall>i < length l. (\<forall>cl \<in> set (cells st). db_inst cl = i \<longrightarrow> \<not> writes st cl) \<longrightarrow>
        l ! i = b_insts (block st) ! i"
    using fold_write [OF assms(1) _ assms(3,2), of "b_insts (block st)"] assms(1)
    by (auto simp: updateDbInstLocations_fold insts_moved_def design_wf_def inst_of_def)
  have "inst_wf (master_of (block (set_insts l st)) i) (l ! i)" if "i < length l" for i
  proof -
    have "i_master (l ! i) = i_master (inst_of (block st) i)" "length l = length (b_insts (block st))"
      "inst_wf (master_of (block st) i) (l ! i)"
      using that l(2) assms(1) by (auto simp: insts_moved_def design_wf_def)
    then show ?thesis by (simp add: master_of_def)
  qed
  then have "design_wf (block (set_insts l st))" by (simp add: design_wf_def)
  then show ?thesis
    using l(2-4) unfolding l(1) by (auto simp: insts_moved_def inst_of_def)
qed

text \<open>
  C8: \<open>updateDbInstLocations\<close> puts the instance of every movable standard cell at the place and
  in the orientation of the cell, leaves every other instance as it is, and keeps the stored
  boxes in step with the transforms.
\<close>

theorem writeback_moves:
  assumes "design_wf (block st)" "distinct (map db_inst (cells st))"
    and "\<forall>cl \<in> set (cells st). db_inst cl < length (b_insts (block st))"
  shows "(\<forall>cl \<in> set (cells st). writes st cl \<longrightarrow>
         getLocation (inst_of (block (updateDbInstLocations st)) (db_inst cl))
           = (xMin (core st) + cell_x cl, yMin (core st) + cell_y cl)
         \<and> i_orient (inst_of (block (updateDbInstLocations st)) (db_inst cl)) = cell_orient cl)
     \<and> (\<forall>i < length (b_insts (block st)). (\<forall>cl \<in> set (cells st). db_inst cl = i \<longrightarrow> \<not> writes st cl) \<longrightarrow>
         inst_of (block (updateDbInstLocations st)) i = inst_of (block st) i)
     \<and> design_wf (block (updateDbInstLocations st))"
  using writeback_facts [OF assms] by blast

definition demo_placed :: Opendp where
  "demo_placed = demo_grid\<lparr>cells := [demo_cell 0 20 0, (demo_cell 1 40 0)\<lparr>cell_orient := MX\<rparr>]\<rparr>"

theorem writeback_moves_witness:
  "getLocation (inst_of (block (updateDbInstLocations demo_placed)) 0) = (120, 200)
   \<and> i_orient (inst_of (block (updateDbInstLocations demo_placed)) 1) = MX"
proof -
  have n: "length (b_insts (block demo_placed)) = 2" by code_simp
  have "list_all (\<lambda>i. inst_wf (master_of (block demo_placed) i) (inst_of (block demo_placed) i)) [0..<2]"
    unfolding inst_wf_def by code_simp
  then have wf: "design_wf (block demo_placed)"
    unfolding design_wf_def n by (simp add: list_all_iff)
  have "distinct (map db_inst (cells demo_placed))"
    "\<forall>cl \<in> set (cells demo_placed). db_inst cl < length (b_insts (block demo_placed))"
    "\<forall>cl \<in> set (cells demo_placed). writes demo_placed cl"
    by code_simp+
  with writeback_moves [OF wf] show ?thesis
    by (auto simp: demo_placed_def demo_cell_def cell_default_def demo_grid_def rect_init_def)
qed

end
