(* ===== verification/Dpl_Import_Props.thy ===== *)
theory Dpl_Import_Props
  imports Dpl_Writeback
begin

section \<open>Properties of the import and of the pixel grid\<close>

text \<open>
  What \<open>importDb\<close> makes of the database, when it succeeds, and which sites \<open>initGrid\<close> marks as
  valid.
\<close>

subsection \<open>The cells\<close>

lemma getBbox_sides:
  assumes "0 \<le> m_width (master_of (block st) i)" "m_width (master_of (block st) i) < 4294967296"
    and "0 \<le> m_height (master_of (block st) i)" "m_height (master_of (block st) i) < 4294967296"
  shows "xMin (getBbox st i) = fst (getLocation (inst_of (block st) i)) - xMin (core st)"
    and "yMin (getBbox st i) = snd (getLocation (inst_of (block st) i)) - yMin (core st)"
    and "rect_dx (getBbox st i) = (if swapWidthHeight (i_orient (inst_of (block st) i))
           then m_height (master_of (block st) i) else m_width (master_of (block st) i))"
    and "rect_dy (getBbox st i) = (if swapWidthHeight (i_orient (inst_of (block st) i))
           then m_width (master_of (block st) i) else m_height (master_of (block st) i))"
  using assms by (auto simp: getBbox_def Let_def rect_init_def rect_dx_def rect_dy_def u32_id
      split: prod.split)

lemma import_result_make_cell:
  assumes "import_result b st" "c < length (cells st)"
  shows "(cell_of st c)\<lparr>cell_group := None\<rparr> = make_cell st (placeable_insts b ! c)"
    and "length (cells st) = length (placeable_insts b)"
proof -
  show l: "length (cells st) = length (placeable_insts b)"
    using assms(1) unfolding import_result_def by (metis length_map)
  show "(cell_of st c)\<lparr>cell_group := None\<rparr> = make_cell st (placeable_insts b ! c)"
    using assms l unfolding import_result_def by (metis nth_map)
qed

lemma cell_of_ungrouped:
  assumes "cl\<lparr>cell_group := None\<rparr> = (cl' :: Cell)"
  shows "db_inst cl = db_inst cl'" "cell_x cl = cell_x cl'" "cell_y cl = cell_y cl'"
    "cell_orient cl = cell_orient cl'" "cell_width cl = cell_width cl'" "cell_height cl = cell_height cl'"
    "is_placed cl = is_placed cl'"
  using assms by auto

lemma importDb_cells:
  assumes "\<forall>m \<in> set (b_masters (block st)). 0 \<le> m_width m \<and> m_width m < 4294967296
             \<and> 0 \<le> m_height m \<and> m_height m < 4294967296"
    and "\<forall>i \<in> set (b_insts (block st)). i_master i < length (b_masters (block st))"
  shows "(b_rows (block st) = [] \<longrightarrow> importDb st = Inl (LoggedError 12))
     \<and> (\<forall>st'. importDb st = Inr st' \<longrightarrow>
          block st' = block st \<and> core st' = getCoreArea (block st)
        \<and> map db_inst (cells st') = placeable_insts (block st)
        \<and> (\<forall>cl \<in> set (cells st').
             Point (cell_x cl) (cell_y cl) = initialLocation st' cl False
           \<and> cell_orient cl = i_orient (cell_inst st' cl)
           \<and> (cell_width cl, cell_height cl) =
               (if swapWidthHeight (cell_orient cl) then (m_height (cell_master st' cl), m_width (cell_master st' cl))
                else (m_width (cell_master st' cl), m_height (cell_master st' cl)))
           \<and> is_placed cl = isFixed st' cl))"
proof (intro conjI impI allI)
  assume "b_rows (block st) = []"
  then show "importDb st = Inl (LoggedError 12)"
    by (simp add: importDb_def examineRows_def importClear_def deleteGrid_def Let_def)
next
  fix st' assume "importDb st = Inr st'"
  then have r: "import_result (block st) st'" by (rule keepsD [OF importDb_result])
  show b: "block st' = block st" "core st' = getCoreArea (block st)"
    using r by (auto simp: import_result_def)
  have l: "length (cells st') = length (placeable_insts (block st))"
    using r unfolding import_result_def by (metis length_map)
  then show "map db_inst (cells st') = placeable_insts (block st)"
    by (intro nth_equalityI) (simp_all add: import_result_cell [OF r])
  show "\<forall>cl \<in> set (cells st').
             Point (cell_x cl) (cell_y cl) = initialLocation st' cl False
           \<and> cell_orient cl = i_orient (cell_inst st' cl)
           \<and> (cell_width cl, cell_height cl) =
               (if swapWidthHeight (cell_orient cl) then (m_height (cell_master st' cl), m_width (cell_master st' cl))
                else (m_width (cell_master st' cl), m_height (cell_master st' cl)))
           \<and> is_placed cl = isFixed st' cl"
  proof
    fix cl assume "cl \<in> set (cells st')"
    then obtain c where c: "c < length (cells st')" "cl = cell_of st' c" by (auto simp: in_set_conv_nth)
    let ?i = "placeable_insts (block st) ! c"
    have e: "cl\<lparr>cell_group := None\<rparr> = make_cell st' ?i"
      using import_result_make_cell [OF r c(1)] c(2) by simp
    have i: "?i < length (b_insts (block st))"
      using nth_mem [of c "placeable_insts (block st)"] c(1) l by (auto simp: placeable_insts_def)
    then have "master_of (block st') ?i \<in> set (b_masters (block st'))"
      using assms(2) b(1) by (auto simp: master_of_def inst_of_def)
    with assms(1) b(1) have m: "0 \<le> m_width (master_of (block st') ?i)" "m_width (master_of (block st') ?i) < 4294967296"
      "0 \<le> m_height (master_of (block st') ?i)" "m_height (master_of (block st') ?i) < 4294967296"
      by auto
    show "Point (cell_x cl) (cell_y cl) = initialLocation st' cl False
           \<and> cell_orient cl = i_orient (cell_inst st' cl)
           \<and> (cell_width cl, cell_height cl) =
               (if swapWidthHeight (cell_orient cl) then (m_height (cell_master st' cl), m_width (cell_master st' cl))
                else (m_width (cell_master st' cl), m_height (cell_master st' cl)))
           \<and> is_placed cl = isFixed st' cl"
      using cell_of_ungrouped [OF e] getBbox_sides [OF m]
      by (simp add: make_cell_def Let_def isFixed_def initialLocation_def split: prod.split)
  qed
qed

text \<open>
  C12: after the import the cells are the placeable instances of the block, in order. A cell lies
  where its instance lies relative to the core area, has its orientation and the sides of its
  master (exchanged for a quarter turn), and counts as placed exactly if the instance is fixed.
  Without rows the import ends with message 12.
\<close>

theorem import_cells:
  assumes "\<forall>m \<in> set (b_masters (block st)). 0 \<le> m_width m \<and> m_width m < 4294967296
             \<and> 0 \<le> m_height m \<and> m_height m < 4294967296"
    and "\<forall>i \<in> set (b_insts (block st)). i_master i < length (b_masters (block st))"
  shows "(b_rows (block st) = [] \<longrightarrow> importDb st = Inl (LoggedError 12))
     \<and> (\<forall>st'. importDb st = Inr st' \<longrightarrow>
          block st' = block st \<and> core st' = getCoreArea (block st)
        \<and> map db_inst (cells st') = placeable_insts (block st)
        \<and> (\<forall>cl \<in> set (cells st').
             Point (cell_x cl) (cell_y cl) = initialLocation st' cl False
           \<and> cell_orient cl = i_orient (cell_inst st' cl)
           \<and> (cell_width cl, cell_height cl) =
               (if swapWidthHeight (cell_orient cl) then (m_height (cell_master st' cl), m_width (cell_master st' cl))
                else (m_width (cell_master st' cl), m_height (cell_master st' cl)))
           \<and> is_placed cl = isFixed st' cl))"
  by (rule importDb_cells [OF assms])

lemma demo_import: "map_sum id (\<lambda>st. map (\<lambda>c. (cell_x c, cell_y c)) (cells st)) (importDb demo_state) = Inr [(13, 3), (0, 0)]"
  by code_simp

theorem import_cells_witness:
  "\<exists>st'. importDb demo_state = Inr st' \<and> map db_inst (cells st') = placeable_insts (block demo_state)"
proof -
  obtain st' where s: "importDb demo_state = Inr st'" using map_sum_Inr [OF demo_import] by auto
  have "\<forall>m \<in> set (b_masters (block demo_state)). 0 \<le> m_width m \<and> m_width m < 4294967296
             \<and> 0 \<le> m_height m \<and> m_height m < 4294967296"
    "\<forall>i \<in> set (b_insts (block demo_state)). i_master i < length (b_masters (block demo_state))"
    by (simp_all add: demo_state_def demo_block_def demo_master_def demo_inst_def)
  from import_cells [OF this] s show ?thesis by auto
qed

subsection \<open>The pixel grid\<close>

text \<open>
  The sites of a row on the grid, and the pixels from which the search can reach them: the
  rectangle around the row that extends by the maximal displacement less the safety margin.
\<close>

definition row_covers :: "Opendp \<Rightarrow> dbRow \<Rightarrow> grid_pt \<Rightarrow> bool" where
  "row_covers st row p \<longleftrightarrow>
     (let x_start = (row_x row - xMin (core st)) sdiv site_width st
      in x_start \<le> fst p \<and> fst p < x_start + row_site_cnt row
         \<and> snd p = (row_y row - yMin (core st)) sdiv row_height st)"

definition row_near :: "Opendp \<Rightarrow> dbRow \<Rightarrow> grid_pt \<Rightarrow> bool" where
  "row_near st row p \<longleftrightarrow>
     (let x_start = (row_x row - xMin (core st)) sdiv site_width st;
          y_row = (row_y row - yMin (core st)) sdiv row_height st
      in x_start - max_displacement_x st + 20 \<le> fst p
         \<and> fst p < x_start + row_site_cnt row + max_displacement_x st - 20
         \<and> y_row - max_displacement_y st + 20 \<le> snd p
         \<and> snd p < y_row + max_displacement_y st - 20)"

lemma mark_valid_fold:
  "foldE (mark_valid y) xs st =
     (if \<forall>x \<in> set xs. in_grid st (x, y)
      then Inr (st\<lparr>grid := (\<lambda>p. if snd p = y \<and> fst p \<in> set xs then (grid st p)\<lparr>is_valid := True\<rparr> else grid st p)\<rparr>)
      else Inl OutOfBounds)"
proof (induction xs arbitrary: st)
  case (Cons x xs)
  let ?st = "upd_pixel (x, y) (\<lambda>px. px\<lparr>is_valid := True\<rparr>) st"
  have g: "in_grid ?st = in_grid st" by (simp add: in_grid_def upd_pixel_def fun_eq_iff)
  have "(\<lambda>p. if snd p = y \<and> fst p \<in> set xs then (grid ?st p)\<lparr>is_valid := True\<rparr> else grid ?st p)
      = (\<lambda>p. if snd p = y \<and> fst p \<in> set (x # xs) then (grid st p)\<lparr>is_valid := True\<rparr> else grid st p)"
    by (auto simp: upd_pixel_def fun_eq_iff)
  then have "?st\<lparr>grid := (\<lambda>p. if snd p = y \<and> fst p \<in> set xs then (grid ?st p)\<lparr>is_valid := True\<rparr> else grid ?st p)\<rparr>
      = st\<lparr>grid := (\<lambda>p. if snd p = y \<and> fst p \<in> set (x # xs) then (grid st p)\<lparr>is_valid := True\<rparr> else grid st p)\<rparr>"
    by (simp add: upd_pixel_def)
  moreover have "mark_valid y x st = (if in_grid st (x, y) then Inr ?st else Inl OutOfBounds)"
    by (auto simp: mark_valid_def in_grid_def)
  ultimately show ?case by (simp add: Cons g)
qed simp

lemma hopeless_fold:
  "fold (\<lambda>(y, x). upd_pixel (x, y) (\<lambda>px. px\<lparr>is_hopeless := False\<rparr>)) ps st =
     st\<lparr>grid := (\<lambda>p. if (snd p, fst p) \<in> set ps then (grid st p)\<lparr>is_hopeless := False\<rparr> else grid st p)\<rparr>"
proof (induction ps arbitrary: st)
  case (Cons q ps)
  obtain y x where q: "q = (y, x)" by (cases q)
  let ?st = "upd_pixel (x, y) (\<lambda>px. px\<lparr>is_hopeless := False\<rparr>) st"
  have "(\<lambda>p. if (snd p, fst p) \<in> set ps then (grid ?st p)\<lparr>is_hopeless := False\<rparr> else grid ?st p)
      = (\<lambda>p. if (snd p, fst p) \<in> set (q # ps) then (grid st p)\<lparr>is_hopeless := False\<rparr> else grid st p)"
    by (auto simp: upd_pixel_def fun_eq_iff q)
  then show ?case by (simp add: q Cons) (simp add: upd_pixel_def)
qed simp

definition row_pixels :: "Opendp \<Rightarrow> dbRow list \<Rightarrow> (grid_pt \<Rightarrow> Pixel) \<Rightarrow> grid_pt \<Rightarrow> Pixel" where
  \<comment> \<open>the pixels after the rows of the list\<close>
  "row_pixels st rows g p =
     (if in_grid st p then
        (g p)\<lparr>is_valid := is_valid (g p) \<or> (\<exists>row \<in> set rows. row_covers st row p),
             is_hopeless := is_hopeless (g p) \<and> (\<forall>row \<in> set rows. \<not> row_near st row p)\<rparr>
      else g p)"

lemma init_row_pixels:
  "init_row row (st\<lparr>grid := g\<rparr>) =
     (if \<exists>p. row_covers st row p \<and> \<not> in_grid st p then Inl OutOfBounds
      else Inr (st\<lparr>grid := row_pixels st [row] g\<rparr>))"
proof -
  let ?st = "st\<lparr>grid := g\<rparr>"
  let ?x = "(row_x row - xMin (core st)) sdiv site_width st"
  let ?y = "(row_y row - yMin (core st)) sdiv row_height st"
  have g: "in_grid ?st = in_grid st" by (simp add: in_grid_def fun_eq_iff)
  have ex: "(\<forall>x \<in> set (int_range ?x (?x + row_site_cnt row)). in_grid st (x, ?y))
      \<longleftrightarrow> \<not> (\<exists>p. row_covers st row p \<and> \<not> in_grid st p)"
    by (auto simp: row_covers_def Let_def)
  show ?thesis
  proof (cases "\<exists>p. row_covers st row p \<and> \<not> in_grid st p")
    case True
    then show ?thesis using ex by (simp add: init_row_def mark_valid_fold g Let_def)
  next
    case False
    let ?xl = "max 0 (?x - max_displacement_x st + 20)"
    let ?xh = "min (row_site_count st) (?x + row_site_cnt row + max_displacement_x st - 20)"
    let ?yl = "max 0 (?y - max_displacement_y st + 20)"
    let ?yh = "min (row_count st) (?y + max_displacement_y st - 20)"
    have near: "(snd p, fst p) \<in> set (grid_points ?yl ?yh ?xl ?xh) \<longleftrightarrow> in_grid st p \<and> row_near st row p" for p
      by (auto simp: grid_points_def row_near_def in_grid_def Let_def)
    have cov: "snd p = ?y \<and> fst p \<in> set (int_range ?x (?x + row_site_cnt row)) \<longleftrightarrow> in_grid st p \<and> row_covers st row p" for p
      using False by (cases p) (auto simp: row_covers_def Let_def)
    define G where "G p = (if snd p = ?y \<and> fst p \<in> set (int_range ?x (?x + row_site_cnt row))
      then (g p)\<lparr>is_valid := True\<rparr> else g p)" for p
    have mk: "foldE (mark_valid ?y) (int_range ?x (?x + row_site_cnt row)) ?st = Inr (st\<lparr>grid := G\<rparr>)"
      using False ex mark_valid_fold [of ?y "int_range ?x (?x + row_site_cnt row)" ?st]
      by (simp add: g G_def [abs_def] del: set_int_range cong: if_cong)
    have sel: "grid (st\<lparr>grid := a\<rparr>) = a" "st\<lparr>grid := a, grid := b\<rparr> = st\<lparr>grid := b\<rparr>" for a b by simp_all
    have e: "(\<lambda>p. if in_grid st p \<and> row_near st row p
        then (if in_grid st p \<and> row_covers st row p then (g p)\<lparr>is_valid := True\<rparr> else g p)\<lparr>is_hopeless := False\<rparr>
        else (if in_grid st p \<and> row_covers st row p then (g p)\<lparr>is_valid := True\<rparr> else g p))
      = row_pixels st [row] g"
      by (rule ext) (auto simp: row_pixels_def intro!: Pixel.equality)
    have hp: "fold (\<lambda>(y, x). upd_pixel (x, y) (\<lambda>px. px\<lparr>is_hopeless := False\<rparr>)) (grid_points ?yl ?yh ?xl ?xh)
        (st\<lparr>grid := G\<rparr>) = st\<lparr>grid := row_pixels st [row] g\<rparr>"
      unfolding hopeless_fold near G_def [abs_def] cov sel e ..
    show ?thesis
      using False mk hp by (simp add: init_row_def Let_def)
  qed
qed

lemma row_pixels_Cons: "row_pixels st (row # rows) g = row_pixels st rows (row_pixels st [row] g)"
  by (auto simp: row_pixels_def fun_eq_iff intro!: Pixel.equality)

lemma init_rows:
  "foldE init_row rows (st\<lparr>grid := g\<rparr>) =
     (if \<exists>row \<in> set rows. \<exists>p. row_covers st row p \<and> \<not> in_grid st p then Inl OutOfBounds
      else Inr (st\<lparr>grid := row_pixels st rows g\<rparr>))"
proof (induction rows arbitrary: g)
  case Nil
  have "row_pixels st [] g = g" by (auto simp: row_pixels_def fun_eq_iff)
  then show ?case by simp
next
  case (Cons row rows)
  show ?case
    by (simp add: init_row_pixels Cons row_pixels_Cons [of st row rows])
qed

lemma initGrid_result:
  "initGrid st =
     (if \<exists>row \<in> set (b_rows (block st)). \<exists>p. row_covers st row p \<and> \<not> in_grid st p then Inl OutOfBounds
      else Inr (st\<lparr>grid := (\<lambda>p. if in_grid st p then
        \<lparr>pixel_cell = None, pixel_group = None, pixel_util = 0,
         is_valid = (\<exists>row \<in> set (b_rows (block st)). row_covers st row p),
         is_hopeless = (\<forall>row \<in> set (b_rows (block st)). \<not> row_near st row p)\<rparr>
        else grid st p)\<rparr>))"
proof -
  have e: "(\<lambda>(x, y). if x \<ge> 0 \<and> x < row_site_count st \<and> y \<ge> 0 \<and> y < row_count st
      then pixel_default else grid st (x, y)) = (\<lambda>p. if in_grid st p then pixel_default else grid st p)"
    by (auto simp: in_grid_def fun_eq_iff)
  have "row_pixels st (b_rows (block st)) (\<lambda>p. if in_grid st p then pixel_default else grid st p)
     = (\<lambda>p. if in_grid st p then
        \<lparr>pixel_cell = None, pixel_group = None, pixel_util = 0,
         is_valid = (\<exists>row \<in> set (b_rows (block st)). row_covers st row p),
         is_hopeless = (\<forall>row \<in> set (b_rows (block st)). \<not> row_near st row p)\<rparr>
        else grid st p)"
    by (auto simp: row_pixels_def pixel_default_def fun_eq_iff)
  then show ?thesis unfolding initGrid_def e init_rows by simp
qed

text \<open>
  C13: \<open>initGrid\<close> fails exactly when a row reaches outside of the grid, by an access out of
  bounds. Otherwise every pixel of the grid is without owner and group, valid exactly if some
  row covers it, and hopeless exactly if no row is within reach; nothing else changes.
\<close>

theorem initGrid_pixels:
  "initGrid st =
     (if \<exists>row \<in> set (b_rows (block st)). \<exists>p. row_covers st row p \<and> \<not> in_grid st p then Inl OutOfBounds
      else Inr (st\<lparr>grid := (\<lambda>p. if in_grid st p then
        \<lparr>pixel_cell = None, pixel_group = None, pixel_util = 0,
         is_valid = (\<exists>row \<in> set (b_rows (block st)). row_covers st row p),
         is_hopeless = (\<forall>row \<in> set (b_rows (block st)). \<not> row_near st row p)\<rparr>
        else grid st p)\<rparr>))"
  by (rule initGrid_result)

theorem initGrid_pixels_witness:
  "\<exists>st. initGrid demo_grid = Inr st \<and> is_valid (grid st (5, 0)) \<and> \<not> is_hopeless (grid st (5, 0))"
proof -
  have "in_grid demo_grid p" if "row_covers demo_grid (demo_row 6) p" for p
    using that by (simp add: row_covers_def in_grid_def demo_fields Let_def demo_row_def)
      (simp add: demo_grid_def rect_init_def)
  moreover have "b_rows (block demo_grid) = [demo_row 6]" by (simp add: demo_grid_def demo_block_def)
  moreover have "row_covers demo_grid (demo_row 6) (5, 0)" "row_near demo_grid (demo_row 6) (5, 0)"
    "in_grid demo_grid (5, 0)"
    by code_simp+
  ultimately show ?thesis using initGrid_pixels [of demo_grid] by auto
qed

end
