(* ===== verification/Dpl_Import_Pads.thy ===== *)
theory Dpl_Import_Pads
  imports Dpl_Import_Props
begin

section \<open>The import does not touch the padding\<close>

text \<open>The four fields that hold the padding pass through every step of \<open>importDb\<close>.\<close>

definition pads :: "Opendp \<Rightarrow> int \<times> int \<times> (nat \<times> int \<times> int) list \<times> (nat \<times> int \<times> int) list" where
  "pads st = (pad_left st, pad_right st, inst_padding_map st, master_padding_map st)"

lemma master_map_touch_pads [simp]: "pads (master_map_touch mi st) = pads st"
  by (simp add: master_map_touch_def pads_def split: option.split)

lemma defineTopPower_pads [simp]: "pads (defineTopPower mi st) = pads st"
  by (auto simp: defineTopPower_def pads_def Let_def split: prod.split option.split)

lemma makeMacros_pads: "pads (makeMacros st) = pads st"
  unfolding makeMacros_def
  by (rule fold_invariant [of _ "\<lambda>_. True"]) (simp_all add: pads_def [of "_\<lparr>macro_top_power := _\<rparr>"], simp add: pads_def)

lemma makeCells_pads: "pads (makeCells st) = pads st"
  unfolding makeCells_def
proof (rule fold_invariant [of _ "\<lambda>_. True"])
  fix i s assume "pads s = pads st"
  moreover have "pads (s\<lparr>db_inst_map := m, cells := c\<rparr>) = pads s" for m c by (simp add: pads_def)
  moreover have "pads (s\<lparr>have_multi_row_cells := True\<rparr>) = pads s" for s by (simp add: pads_def)
  ultimately show "pads (if isCoreAutoPlaceable (master_of (block s) i) then
         (let mi = i_master (inst_of (block s) i);
              st = s\<lparr>db_inst_map := (db_inst_map s)(i \<mapsto> length (cells s)),
                      cells := cells s @ [make_cell s i]\<rparr>;
              st = master_map_touch mi st
          in case db_master_map st mi of
               Some m \<Rightarrow> if is_multi_row m then st\<lparr>have_multi_row_cells := True\<rparr> else st
             | None \<Rightarrow> st)
       else s) = pads st"
    by (simp add: Let_def split: option.split)
qed simp_all

lemma makeGroups_pads: "keeps (\<lambda>s. pads s = pads st) (makeGroups st)"
  unfolding makeGroups_def
proof (rule keeps_foldE)
  fix region s assume s: "pads s = pads st"
  have g: "pads (s\<lparr>groups := gs\<rparr>) = pads s" for s gs by (simp add: pads_def)
  have step: "keeps (\<lambda>s'. pads s' = pads st) (group_inst_step g i s)" if "pads s = pads st" for g i s
    using that by (auto simp: group_inst_step_def keeps_def pads_def upd_cell_def split: option.split)
  show "keeps (\<lambda>s. pads s = pads st) (make_group region s)"
    unfolding make_group_def Let_def
    using s g by (auto split: option.split intro!: keeps_Inr keeps_bindE [of "\<lambda>_. True"] keeps_foldE step)
      (simp add: keeps_def)
qed simp

lemma examineRows_pads: "keeps (\<lambda>s. pads s = pads st) (examineRows st)"
  by (auto simp: examineRows_def keeps_def pads_def Let_def split: prod.split option.split)

lemma importDb_pads: "keeps (\<lambda>s. pads s = pads st) (importDb st)"
proof -
  have f: "pads (findRowPower s) = pads s" for s
    using findRowPower_sel [of s] by (auto simp: pads_def)
  have r: "pads (s\<lparr>row0_top_power_is_vdd := b\<rparr>) = pads s" for s b by (simp add: pads_def)
  have c: "pads (importClear (st\<lparr>core := r\<rparr>)) = pads st" for r
    by (simp add: importClear_def deleteGrid_def pads_def)
  have e: "keeps (\<lambda>s. pads s = pads st) (examineRows (importClear (st\<lparr>core := r\<rparr>)))" for r
    using examineRows_pads [of "importClear (st\<lparr>core := r\<rparr>)"] by (simp add: c)
  have g: "keeps (\<lambda>s'. pads s' = pads st) (makeGroups (makeCells (makeMacros s)))" if "pads s = pads st" for s
    using makeGroups_pads [of "makeCells (makeMacros s)"] that by (simp add: makeCells_pads makeMacros_pads)
  show ?thesis
    unfolding importDb_def Let_def
    by (rule keeps_bindE [OF e], rule keeps_bindE [OF g], assumption, rule keeps_Inr) (simp add: f r)
qed

end
