(* ===== verification/Dpl_Check_Props.thy ===== *)
theory Dpl_Check_Props
  imports Dpl_Import_Pads
begin

section \<open>Correctness of the placement check\<close>

text \<open>
  \<open>checkPlacement\<close> visits the cells one after the other and remembers on the grid who was
  first at a pixel. The invariant \<open>claimed\<close> says what the grid and the failure lists know
  after the first \<open>k\<close> cells; it yields that a check without padding that reports nothing
  has seen every overlap with a standard cell, provided that all cells are aligned.
\<close>

subsection \<open>Visiting the pixels of one cell\<close>

lemma on_grid_pads [simp]:
  "padLeft (st\<lparr>grid := g\<rparr>) cl = padLeft st cl" "padRight (st\<lparr>grid := g\<rparr>) cl = padRight st cl"
  by (simp_all add: padLeft_def padRight_def padLeft_inst_def padRight_inst_def isPaddedType_def
      cong: if_cong option.case_cong)

lemma on_grid_coords [simp]:
  "gridX (st\<lparr>grid := g\<rparr>) x = gridX st x" "gridEndX (st\<lparr>grid := g\<rparr>) x = gridEndX st x"
  "gridY (st\<lparr>grid := g\<rparr>) x = gridY st x" "gridEndY (st\<lparr>grid := g\<rparr>) x = gridEndY st x"
  "gridPixel (st\<lparr>grid := g\<rparr>) x y = gridPixel st x y"
  by (simp_all add: gridX_def gridEndX_def gridY_def gridEndY_def gridPixel_def)

lemma on_grid_cells [simp]:
  "gridPaddedX (st\<lparr>grid := g\<rparr>) cl = gridPaddedX st cl" "gridPaddedEndX (st\<lparr>grid := g\<rparr>) cl = gridPaddedEndX st cl"
  "cellX (st\<lparr>grid := g\<rparr>) cl = cellX st cl" "cellEndX (st\<lparr>grid := g\<rparr>) cl = cellEndX st cl"
  "cellY (st\<lparr>grid := g\<rparr>) cl = cellY st cl" "cellEndY (st\<lparr>grid := g\<rparr>) cl = cellEndY st cl"
  "paddedWidth (st\<lparr>grid := g\<rparr>) cl = paddedWidth st cl"
  by (simp_all add: gridPaddedX_def gridPaddedEndX_def cellX_def cellEndX_def cellY_def cellEndY_def paddedWidth_def)

lemma on_grid [simp]:
  "initialLocation (st\<lparr>grid := g\<rparr>) cl b = initialLocation st cl b"
  "overlap (st\<lparr>grid := g\<rparr>) cl cl2 = overlap st cl cl2"
  "isStdCell (st\<lparr>grid := g\<rparr>) cl = isStdCell st cl" "isPlaced (st\<lparr>grid := g\<rparr>) cl = isPlaced st cl"
  "checkPowerLine (st\<lparr>grid := g\<rparr>) cl = checkPowerLine st cl"
  "visited_pixels (st\<lparr>grid := g\<rparr>) cl b = visited_pixels st cl b"
proof -
  show i: "initialLocation (st\<lparr>grid := g\<rparr>) cl b = initialLocation st cl b" for cl b
    by (simp add: initialLocation_def cong: if_cong)
  show "overlap (st\<lparr>grid := g\<rparr>) cl cl2 = overlap st cl cl2"
    by (simp add: overlap_def isBlock_def havePadding_def isOverlapPadded_def isCrWtBlClass_def isWtClass_def i
        cong: if_cong)
  show "checkPowerLine (st\<lparr>grid := g\<rparr>) cl = checkPowerLine st cl"
    by (simp add: checkPowerLine_def gridHeight_def topPower_def macro_of_def rowTopPower_def)
  show "visited_pixels (st\<lparr>grid := g\<rparr>) cl b = visited_pixels st cl b"
    unfolding visited_pixels_def Let_def on_grid_coords on_grid_cells by simp
qed (simp_all add: isStdCell_def isPlaced_def)

definition claim_pixels :: "nat \<Rightarrow> grid_pt set \<Rightarrow> (grid_pt \<Rightarrow> Pixel) \<Rightarrow> grid_pt \<Rightarrow> Pixel" where
  "claim_pixels c ps g p =
     (if p \<in> ps \<and> pixel_cell (g p) = None then (g p)\<lparr>pixel_cell := Some (CellAt c)\<rparr> else g p)"

definition hits :: "Opendp \<Rightarrow> nat \<Rightarrow> (grid_pt \<Rightarrow> Pixel) \<Rightarrow> grid_pt \<Rightarrow> bool" where
  \<comment> \<open>the pixel belongs to another cell that overlaps \<open>c\<close>\<close>
  "hits st c g p \<longleftrightarrow>
     (\<exists>o'. pixel_cell (g p) = Some (CellAt o') \<and> o' \<noteq> c \<and> overlap st (cell_of st c) (cell_of st o'))"

lemma overlap_visits:
  assumes "\<forall>p \<in> set ps. pixel_cell (g p) \<noteq> Some DummyCell"
  shows "\<exists>found'. fold (overlap_visit c) ps (Inr (found, st\<lparr>grid := g\<rparr>))
       = Inr (found', st\<lparr>grid := claim_pixels c (set ps) g\<rparr>)
     \<and> (found' = None \<longleftrightarrow> found = None \<and> (\<forall>p \<in> set ps. \<not> hits st c g p))"
  using assms
proof (induction ps arbitrary: found g)
  case Nil
  have "claim_pixels c {} g = g" by (simp add: claim_pixels_def fun_eq_iff)
  then show ?case by simp
next
  case (Cons p ps)
  show ?case
  proof (cases "pixel_cell (g p)")
    case None
    let ?g = "g(p := (g p)\<lparr>pixel_cell := Some (CellAt c)\<rparr>)"
    have "\<forall>q \<in> set ps. pixel_cell (?g q) \<noteq> Some DummyCell" using Cons.prems by simp
    from Cons.IH [OF this, of found] obtain f' where f:
      "fold (overlap_visit c) ps (Inr (found, st\<lparr>grid := ?g\<rparr>)) = Inr (f', st\<lparr>grid := claim_pixels c (set ps) ?g\<rparr>)"
      "f' = None \<longleftrightarrow> found = None \<and> (\<forall>q \<in> set ps. \<not> hits st c ?g q)" by blast
    have g: "claim_pixels c (set ps) ?g = claim_pixels c (set (p # ps)) g"
      using None by (auto simp: claim_pixels_def fun_eq_iff)
    have h: "hits st c ?g q = hits st c g q" for q using None by (auto simp: hits_def)
    have "\<not> hits st c g p" using None by (simp add: hits_def)
    moreover have "overlap_visit c p (Inr (found, st\<lparr>grid := g\<rparr>)) = Inr (found, st\<lparr>grid := ?g\<rparr>)"
      using None by (simp add: overlap_visit_def upd_pixel_def)
    ultimately show ?thesis using f unfolding g h by simp
  next
    case (Some w)
    with Cons.prems obtain o' where o: "w = CellAt o'" by (cases w) auto
    have g: "claim_pixels c (set (p # ps)) g = claim_pixels c (set ps) g"
      using Some by (auto simp: claim_pixels_def fun_eq_iff)
    have v: "overlap_visit c p (Inr (found, st\<lparr>grid := g\<rparr>))
        = Inr (if hits st c g p then Some o' else found, st\<lparr>grid := g\<rparr>)"
      using Some o by (auto simp: overlap_visit_def hits_def)
    show ?thesis
      using Cons.IH [of g "if hits st c g p then Some o' else found"] Cons.prems
      unfolding g by (auto simp: v split: if_splits)
  qed
qed

subsection \<open>The loop over the cells\<close>

definition misaligned :: "Opendp \<Rightarrow> Cell \<Rightarrow> bool" where
  "misaligned st cl \<longleftrightarrow> cell_x cl smod site_width st \<noteq> 0 \<or> cell_y cl smod row_height st \<noteq> 0"

definition visited :: "Opendp \<Rightarrow> nat \<Rightarrow> grid_pt set" where
  "visited st c = set (visited_pixels st (cell_of st c) True)"

definition owner_known :: "Opendp \<Rightarrow> nat \<Rightarrow> (grid_pt \<Rightarrow> Pixel) \<Rightarrow> bool" where
  "owner_known st k g \<longleftrightarrow>
     (\<forall>p c. in_grid st p \<longrightarrow> pixel_cell (g p) = Some c \<longrightarrow> (\<exists>o'. c = CellAt o' \<and> o' < k \<and> p \<in> visited st o'))
     \<and> (\<forall>c < k. \<forall>p \<in> visited st c. pixel_cell (g p) \<noteq> None)"

lemma owner_knownD:
  "owner_known st k g \<Longrightarrow> in_grid st p \<Longrightarrow> pixel_cell (g p) = Some c \<Longrightarrow>
     \<exists>o'. c = CellAt o' \<and> o' < k \<and> p \<in> visited st o'"
  unfolding owner_known_def by blast

definition claimed :: "Opendp \<Rightarrow> nat \<Rightarrow> Failures \<times> Opendp \<Rightarrow> bool" where
  "claimed st k r \<longleftrightarrow>
     (\<exists>fs g. r = (fs, st\<lparr>grid := g\<rparr>) \<and> (\<forall>p. is_valid (g p) = is_valid (grid st p)) \<and> owner_known st k g
        \<and> placed_failures fs = filter (\<lambda>c. \<not> isPlaced st (cell_of st c)) [0..<k]
        \<and> site_align_failures fs = filter (\<lambda>c. isStdCell st (cell_of st c) \<and> misaligned st (cell_of st c)) [0..<k]
        \<and> power_line_failures fs = filter (\<lambda>c. isStdCell st (cell_of st c) \<and> checkPowerLine st (cell_of st c)) [0..<k]
        \<and> in_rows_failures fs = filter (\<lambda>c. isStdCell st (cell_of st c) \<and> \<not> checkInRows st (cell_of st c)) [0..<k]
        \<and> (\<forall>c < k. c \<notin> set (overlap_failures fs) \<longrightarrow> (\<forall>p \<in> visited st c. \<not> hits st c g p))
        \<and> (\<forall>c \<in> set (overlap_failures fs). \<exists>d < k. d \<noteq> c \<and> overlap st (cell_of st c) (cell_of st d)))"

lemma checkInRows_valid:
  "(\<And>p. is_valid (g p) = is_valid (grid st p)) \<Longrightarrow> checkInRows (st\<lparr>grid := g\<rparr>) cl = checkInRows st cl"
  by (simp add: checkInRows_def gridPixel_def cellX_def cellY_def cellEndX_def cellEndY_def gridX_def gridY_def
      cong: list.pred_cong option.case_cong)

lemma visited_in_grid: "p \<in> visited st c \<Longrightarrow> in_grid st p"
  by (auto simp: visited_def visited_pixels_def in_grid_def gridPixel_def Let_def split: if_splits)

lemma check_cell_claims:
  assumes "claimed st k r"
  shows "\<exists>r'. check_cell k r = Inr r' \<and> claimed st (Suc k) r'"
proof -
  obtain fs g where r: "r = (fs, st\<lparr>grid := g\<rparr>)" and v: "\<And>p. is_valid (g p) = is_valid (grid st p)"
    and o: "owner_known st k g"
    and f: "placed_failures fs = filter (\<lambda>c. \<not> isPlaced st (cell_of st c)) [0..<k]"
      "site_align_failures fs = filter (\<lambda>c. isStdCell st (cell_of st c) \<and> misaligned st (cell_of st c)) [0..<k]"
      "power_line_failures fs = filter (\<lambda>c. isStdCell st (cell_of st c) \<and> checkPowerLine st (cell_of st c)) [0..<k]"
      "in_rows_failures fs = filter (\<lambda>c. isStdCell st (cell_of st c) \<and> \<not> checkInRows st (cell_of st c)) [0..<k]"
    and h: "\<forall>c < k. c \<notin> set (overlap_failures fs) \<longrightarrow> (\<forall>p \<in> visited st c. \<not> hits st c g p)"
    and s: "\<forall>c \<in> set (overlap_failures fs). \<exists>d < k. d \<noteq> c \<and> overlap st (cell_of st c) (cell_of st d)"
    using assms by (auto simp: claimed_def)
  let ?ps = "visited_pixels st (cell_of st k) True"
  let ?g = "claim_pixels k (set ?ps) g"
  have no_dummy: "\<forall>p \<in> set ?ps. pixel_cell (g p) \<noteq> Some DummyCell"
    using o visited_in_grid [of _ st k] unfolding owner_known_def visited_def by fastforce
  obtain found where c: "checkOverlap k (st\<lparr>grid := g\<rparr>) = Inr (found, st\<lparr>grid := ?g\<rparr>)"
    "found = None \<longleftrightarrow> (\<forall>p \<in> set ?ps. \<not> hits st k g p)"
    using overlap_visits [OF no_dummy, of k None st] by (auto simp: checkOverlap_def visitCellPixels_def)
  have o': "owner_known st (Suc k) ?g"
    unfolding owner_known_def
  proof (intro conjI allI impI ballI)
    fix p w assume p: "in_grid st p" "pixel_cell (?g p) = Some w"
    show "\<exists>o'. w = CellAt o' \<and> o' < Suc k \<and> p \<in> visited st o'"
    proof (cases "pixel_cell (g p)")
      case None
      with p(2) have "w = CellAt k \<and> p \<in> visited st k"
        by (simp add: claim_pixels_def visited_def split: if_splits)
      then show ?thesis by simp
    next
      case (Some w')
      with p(2) have "w = w'" by (simp add: claim_pixels_def)
      with o p(1) Some show ?thesis unfolding owner_known_def using less_SucI by blast
    qed
  next
    fix c p assume "c < Suc k" "p \<in> visited st c"
    then show "pixel_cell (?g p) \<noteq> None"
      using o by (auto simp: owner_known_def claim_pixels_def visited_def less_Suc_eq)
  qed
  have keep: "hits st c ?g p \<longleftrightarrow> hits st c g p" if "p \<in> visited st c" "c < k" for c p
  proof -
    have "pixel_cell (g p) \<noteq> None" using o that unfolding owner_known_def by blast
    then have "?g p = g p" by (simp add: claim_pixels_def)
    then show ?thesis by (simp add: hits_def)
  qed
  have new: "hits st k ?g p \<longleftrightarrow> hits st k g p" for p
    by (auto simp: claim_pixels_def hits_def)
  have v': "is_valid (?g p) = is_valid (grid st p)" for p using v by (simp add: claim_pixels_def)
  let ?cl = "cell_of st k"
  let ?fs = "fs\<lparr>placed_failures := placed_failures fs @ (if isPlaced st ?cl then [] else [k]),
    in_rows_failures := in_rows_failures fs @ (if isStdCell st ?cl \<and> \<not> checkInRows st ?cl then [k] else []),
    overlap_failures := overlap_failures fs @ (if found = None then [] else [k]),
    site_align_failures := site_align_failures fs @ (if isStdCell st ?cl \<and> misaligned st ?cl then [k] else []),
    power_line_failures := power_line_failures fs @ (if isStdCell st ?cl \<and> checkPowerLine st ?cl then [k] else [])\<rparr>"
  have "check_cell k r = Inr (?fs, st\<lparr>grid := ?g\<rparr>)"
    unfolding r check_cell_def prod.case Let_def
    by (simp add: c(1) checkInRows_valid v misaligned_def Failures.equality)
  moreover have "claimed st (Suc k) (?fs, st\<lparr>grid := ?g\<rparr>)"
    unfolding claimed_def
  proof (intro exI conjI)
    show "\<forall>c < Suc k. c \<notin> set (overlap_failures ?fs) \<longrightarrow> (\<forall>p \<in> visited st c. \<not> hits st c ?g p)"
      using h keep new c(2) by (auto simp: less_Suc_eq visited_def)
    show "\<forall>c \<in> set (overlap_failures ?fs). \<exists>d < Suc k. d \<noteq> c \<and> overlap st (cell_of st c) (cell_of st d)"
    proof
      fix a assume "a \<in> set (overlap_failures ?fs)"
      then consider "a \<in> set (overlap_failures fs)" | "a = k" "found \<noteq> None" by (auto split: if_splits)
      then show "\<exists>d < Suc k. d \<noteq> a \<and> overlap st (cell_of st a) (cell_of st d)"
      proof cases
        case 1
        then show ?thesis using s less_SucI by blast
      next
        case 2
        then obtain p o' where "p \<in> visited st k" "pixel_cell (g p) = Some (CellAt o')" "o' \<noteq> k"
          "overlap st (cell_of st k) (cell_of st o')"
          using c(2) by (auto simp: hits_def visited_def)
        moreover from this have "o' < k"
          using owner_knownD [OF o visited_in_grid] by blast
        ultimately show ?thesis using 2(1) less_SucI by blast
      qed
    qed
  qed (use o' v' f in simp_all)
  ultimately show ?thesis by blast
qed


lemma check_loop:
  "claimed st k r \<Longrightarrow> \<exists>r'. foldE check_cell [k..<k + n] r = Inr r' \<and> claimed st (k + n) r'"
proof (induction n arbitrary: k r)
  case (Suc n)
  obtain r1 where r1: "check_cell k r = Inr r1" "claimed st (Suc k) r1"
    using check_cell_claims [OF Suc.prems] by blast
  have "[k..<k + Suc n] = k # [Suc k..<Suc k + n]" by (simp add: upt_rec)
  then show ?case using Suc.IH [OF r1(2)] r1(1) by simp
qed simp

lemma check_cells_claimed:
  assumes "initGrid st = Inr st1"
  shows "\<exists>r. check_cells st = Inr r \<and> claimed st1 (length (cells st)) r"
proof -
  have st1: "st1 = st\<lparr>grid := grid st1\<rparr>" and free: "\<And>p. in_grid st p \<Longrightarrow> pixel_cell (grid st1 p) = None"
    using assms unfolding initGrid_result by (auto split: if_splits)
  have i: "in_grid st1 = in_grid st" and c: "cells st1 = cells st"
    by (subst st1, simp add: in_grid_def fun_eq_iff)+
  have "owner_known st1 0 (grid st1)" using free by (simp add: owner_known_def i)
  then have "claimed st1 0 (no_failures, st1)"
    by (auto simp: claimed_def no_failures_def intro!: exI [of _ "grid st1"])
  from check_loop [OF this, of "length (cells st)"] show ?thesis
    by (simp add: check_cells_def assms c)
qed

subsection \<open>Aligned cells\<close>

definition plain :: "Opendp \<Rightarrow> bool" where
  \<comment> \<open>positive sites, no padding, no overlap layers, cells where their instances are\<close>
  "plain st \<longleftrightarrow> 0 < site_width st \<and> 0 < row_height st \<and> pads st = (0, 0, [], [])
     \<and> (\<forall>m \<in> set (b_masters (block st)). \<forall>ob \<in> set (m_obstructions m). fst ob \<noteq> LT_OVERLAP)
     \<and> (\<forall>cl \<in> set (cells st). Point (cell_x cl) (cell_y cl) = initialLocation st cl False
          \<and> 0 < cell_width cl \<and> 0 < cell_height cl \<and> cell_master st cl \<in> set (b_masters (block st)))"

lemma no_pads: "pads st = (0, 0, [], []) \<Longrightarrow> padLeft st cl = 0 \<and> padRight st cl = 0 \<and> \<not> havePadding st"
  by (auto simp: pads_def havePadding_def padLeft_def padRight_def padLeft_inst_def padRight_inst_def)

lemma aligned_start:
  assumes "x smod b = 0" "0 < (b :: int)"
  shows "x sdiv b \<le> n \<longleftrightarrow> x \<le> n * b"
proof -
  have "x = x sdiv b * b" using sdiv_mult_smod_eq [of x b] assms by simp
  then have "x \<le> n * b \<longleftrightarrow> x sdiv b * b \<le> n * b" by simp
  then show ?thesis using assms(2) by (simp add: mult_le_cancel_right)
qed

lemma visited_iff:
  assumes "plain st" "c < length (cells st)" "\<not> misaligned st (cell_of st c)"
  shows "p \<in> visited st c \<longleftrightarrow> in_grid st p
     \<and> cell_x (cell_of st c) \<le> fst p * site_width st \<and> fst p * site_width st < cell_x (cell_of st c) + cell_width (cell_of st c)
     \<and> cell_y (cell_of st c) \<le> snd p * row_height st \<and> snd p * row_height st < cell_y (cell_of st c) + cell_height (cell_of st c)"
proof -
  let ?cl = "cell_of st c"
  have w: "0 < site_width st" "0 < row_height st" and pd: "padLeft st ?cl = 0" "padRight st ?cl = 0"
    using assms(1) no_pads by (auto simp: plain_def)
  have "cell_master st ?cl \<in> set (b_masters (block st))" using assms(1,2) by (simp add: plain_def)
  then have ob: "filter (\<lambda>(t, _). t = LT_OVERLAP) (m_obstructions (cell_master st ?cl)) = []"
    using assms(1) by (fastforce simp: plain_def filter_empty_conv)
  have a: "cell_x ?cl smod site_width st = 0" "cell_y ?cl smod row_height st = 0"
    using assms(3) by (auto simp: misaligned_def)
  show ?thesis
    using aligned_start [OF a(1) w(1)] aligned_start [OF a(2) w(2)] less_divCeil_iff [OF w(1)] less_divCeil_iff [OF w(2)]
    by (cases p) (auto simp: visited_def visited_pixels_def Let_def ob grid_points_def gridPixel_def in_grid_def
        gridPaddedX_def gridPaddedEndX_def cellY_def cellEndY_def gridX_def gridY_def pd)
qed

definition both_blocks :: "Opendp \<Rightarrow> Cell \<Rightarrow> Cell \<Rightarrow> bool" where
  "both_blocks st c d \<longleftrightarrow> isBlock st c \<and> isBlock st d"

lemma overlap_iff:
  assumes "plain st" "c \<in> set (cells st)" "d \<in> set (cells st)"
  shows "overlap st c d \<longleftrightarrow> \<not> both_blocks st c d
     \<and> cell_x c < cell_x d + cell_width d \<and> cell_x d < cell_x c + cell_width c
     \<and> cell_y c < cell_y d + cell_height d \<and> cell_y d < cell_y c + cell_height c"
proof -
  have "initialLocation st c False = Point (cell_x c) (cell_y c)" "initialLocation st d False = Point (cell_x d) (cell_y d)"
    "\<not> havePadding st"
    using assms no_pads by (auto simp: plain_def)
  then show ?thesis by (auto simp: overlap_def both_blocks_def Let_def)
qed

lemma shared_pixel_overlap:
  assumes "plain st" "c < length (cells st)" "d < length (cells st)"
    and "\<not> misaligned st (cell_of st c)" "\<not> misaligned st (cell_of st d)"
    and "p \<in> visited st c" "p \<in> visited st d" "\<not> both_blocks st (cell_of st c) (cell_of st d)"
  shows "overlap st (cell_of st c) (cell_of st d)"
  using assms(6,7) visited_iff [OF assms(1,2,4)] visited_iff [OF assms(1,3,5)]
    overlap_iff [OF assms(1) nth_mem [OF assms(2)] nth_mem [OF assms(3)]] assms(8)
  by simp

lemma aligned_max:
  assumes "x smod b = 0" "y smod b = 0" "0 < (b :: int)"
  obtains n where "n * b = max x y"
proof -
  have "x sdiv b * b = x" "y sdiv b * b = y" using sdiv_mult_smod_eq [of x b] sdiv_mult_smod_eq [of y b] assms by simp_all
  then show ?thesis using that [of "x sdiv b"] that [of "y sdiv b"] by (cases "x \<le> y") (simp_all add: max_def)
qed

lemma overlap_shared_pixel:
  assumes "plain st" "c < length (cells st)" "d < length (cells st)"
    and "\<not> misaligned st (cell_of st c)" "\<not> misaligned st (cell_of st d)"
    and "checkInRows st (cell_of st c)" "overlap st (cell_of st c) (cell_of st d)"
  obtains p where "p \<in> visited st c" "p \<in> visited st d"
proof -
  let ?c = "cell_of st c" let ?d = "cell_of st d"
  have w: "0 < site_width st" "0 < row_height st" using assms(1) by (auto simp: plain_def)
  have ac: "cell_x ?c smod site_width st = 0" "cell_y ?c smod row_height st = 0"
    "cell_x ?d smod site_width st = 0" "cell_y ?d smod row_height st = 0"
    using assms(4,5) by (auto simp: misaligned_def)
  obtain px where px: "px * site_width st = max (cell_x ?c) (cell_x ?d)" by (rule aligned_max [OF ac(1,3) w(1)])
  obtain py where py: "py * row_height st = max (cell_y ?c) (cell_y ?d)" by (rule aligned_max [OF ac(2,4) w(2)])
  note o = overlap_iff [OF assms(1) nth_mem [OF assms(2)] nth_mem [OF assms(3)], THEN iffD1, OF assms(7)]
  have pos: "0 < cell_width ?c" "0 < cell_width ?d" "0 < cell_height ?c" "0 < cell_height ?d"
    using assms(1,2,3) by (auto simp: plain_def)
  have "cellX st ?c \<le> px" "px < cellEndX st ?c" "cellY st ?c \<le> py" "py < cellEndY st ?c"
    using aligned_start [OF ac(1) w(1)] aligned_start [OF ac(2) w(2)] less_divCeil_iff [OF w(1)] less_divCeil_iff [OF w(2)]
      px py o pos
    by (auto simp: cellX_def cellEndX_def cellY_def cellEndY_def gridX_def gridY_def)
  then have "in_grid st (px, py)"
    using assms(6) by (auto simp: checkInRows_def list_all_iff grid_points_def gridPixel_def in_grid_def split: if_splits)
  then show ?thesis
    using that [of "(px, py)"] visited_iff [OF assms(1,2,4)] visited_iff [OF assms(1,3,5)] px py o pos by auto
qed

lemma claimed_no_overlap:
  assumes "claimed st (length (cells st)) (fs, st2)" "plain st"
    and "overlap_failures fs = []" "in_rows_failures fs = []"
    and al: "\<And>c. c < length (cells st) \<Longrightarrow> \<not> misaligned st (cell_of st c)"
    and "c < length (cells st)" "d < length (cells st)" "c \<noteq> d" "isStdCell st (cell_of st c)"
  shows "\<not> overlap st (cell_of st c) (cell_of st d)"
proof
  assume ov: "overlap st (cell_of st c) (cell_of st d)"
  obtain g where g: "owner_known st (length (cells st)) g"
    "\<And>c p. c < length (cells st) \<Longrightarrow> p \<in> visited st c \<Longrightarrow> \<not> hits st c g p"
    and rows: "filter (\<lambda>c. isStdCell st (cell_of st c) \<and> \<not> checkInRows st (cell_of st c)) [0..<length (cells st)] = []"
    using assms(1,3,4) by (auto simp: claimed_def)
  have "checkInRows st (cell_of st c)" using rows assms(6,9) by (auto simp: filter_empty_conv)
  from overlap_shared_pixel [OF assms(2,6,7) al [OF assms(6)] al [OF assms(7)] this ov]
  obtain p where p: "p \<in> visited st c" "p \<in> visited st d" .
  have nb: "\<not> isBlock st (cell_of st c)" using assms(9) by (auto simp: isStdCell_def isBlock_def)
  obtain w where "pixel_cell (g p) = Some w" using g(1) p(1) assms(6) unfolding owner_known_def by blast
  then obtain e where e: "pixel_cell (g p) = Some (CellAt e)" "e < length (cells st)" "p \<in> visited st e"
    using owner_knownD [OF g(1) visited_in_grid [OF p(1)]] by blast
  show False
  proof (cases "e = c")
    case True
    have "overlap st (cell_of st d) (cell_of st c)"
      by (rule shared_pixel_overlap [OF assms(2,7,6) al al p(2,1)]) (use assms nb in \<open>auto simp: both_blocks_def\<close>)
    then show False using g(2) [OF assms(7) p(2)] e(1) True assms(8) by (simp add: hits_def)
  next
    case False
    have "overlap st (cell_of st c) (cell_of st e)"
      by (rule shared_pixel_overlap [OF assms(2,6) e(2) al al p(1) e(3)]) (use assms e nb in \<open>auto simp: both_blocks_def\<close>)
    then show False using g(2) [OF assms(6) p(1)] e(1) False by (simp add: hits_def)
  qed
qed


subsection \<open>A check that finds nothing\<close>

definition unfailing :: "Failures \<Rightarrow> bool" where
  "unfailing fs \<longleftrightarrow> placed_failures fs = [] \<and> in_rows_failures fs = [] \<and> overlap_failures fs = []
     \<and> site_align_failures fs = [] \<and> power_line_failures fs = []"

lemma unfailing_iff: "unfailing fs \<longleftrightarrow> length (power_line_failures fs) + length (placed_failures fs)
    + length (in_rows_failures fs) + length (overlap_failures fs) + length (site_align_failures fs) = 0"
  by (auto simp: unfailing_def)

lemma filter_upt_none: "filter P [0..<k] = [] \<Longrightarrow> c < k \<Longrightarrow> \<not> P c"
  by (simp add: filter_empty_conv)

lemma claimed_unfailing:
  assumes "claimed st k (fs, st2)" "unfailing fs" "c < k"
  shows "isPlaced st (cell_of st c)
    \<and> (isStdCell st (cell_of st c) \<longrightarrow> \<not> misaligned st (cell_of st c) \<and> checkInRows st (cell_of st c)
         \<and> \<not> checkPowerLine st (cell_of st c))"
proof -
  have "filter (\<lambda>c. \<not> isPlaced st (cell_of st c)) [0..<k] = []"
    "filter (\<lambda>c. isStdCell st (cell_of st c) \<and> misaligned st (cell_of st c)) [0..<k] = []"
    "filter (\<lambda>c. isStdCell st (cell_of st c) \<and> checkPowerLine st (cell_of st c)) [0..<k] = []"
    "filter (\<lambda>c. isStdCell st (cell_of st c) \<and> \<not> checkInRows st (cell_of st c)) [0..<k] = []"
    using assms(1,2) by (auto simp: claimed_def unfailing_def)
  note f = this [THEN filter_upt_none, OF assms(3)]
  show ?thesis using f by blast
qed

lemma checkPlacement_parts:
  assumes "checkPlacement st = Inr (fs, st2)"
  obtains s1 st1 where "importDb st = Inr s1" "initGrid s1 = Inr st1"
    "claimed st1 (length (cells st1)) (fs, st2)" "unfailing fs" "cells st1 = cells s1" "st1 = s1\<lparr>grid := grid st1\<rparr>"
proof -
  obtain s1 where i: "importDb st = Inr s1" using assms by (auto simp: checkPlacement_def bindE_Inr_iff)
  then have c: "check_cells s1 = Inr (fs, st2)" and f: "unfailing fs"
    using assms by (auto simp: checkPlacement_def bindE_Inr_iff unfailing_iff split: if_splits)
  obtain st1 where g: "initGrid s1 = Inr st1" using c by (auto simp: check_cells_def bindE_Inr_iff)
  have e: "st1 = s1\<lparr>grid := grid st1\<rparr>" using g unfolding initGrid_result by (auto split: if_splits)
  have "cells st1 = cells s1" by (subst e) simp
  with check_cells_claimed [OF g] c that [OF i g _ f _ e] show ?thesis by simp
qed

text \<open>Importing a design without padding and overlap layers makes a plain grid of cells.\<close>

lemma imported_plain:
  assumes s1: "importDb st = Inr s1" and e1: "st1 = s1\<lparr>grid := g\<rparr>" and pd: "pads st = (0, 0, [], [])"
    and site: "0 < site_w (last (b_rows (block st)))" "0 < site_h (last (b_rows (block st)))"
    and masters: "\<forall>m \<in> set (b_masters (block st)). 0 < m_width m \<and> m_width m < 4294967296
           \<and> 0 < m_height m \<and> m_height m < 4294967296 \<and> (\<forall>ob \<in> set (m_obstructions m). fst ob \<noteq> LT_OVERLAP)"
    and insts: "\<forall>i \<in> set (b_insts (block st)). i_master i < length (b_masters (block st))"
  shows "plain st1"
  unfolding plain_def
proof (intro conjI ballI)
  have r: "import_result (block st) s1" by (rule keepsD [OF importDb_result s1])
  then have bs: "block s1 = block st" by (simp add: import_result_def)
  have m: "\<forall>m \<in> set (b_masters (block st)). 0 \<le> m_width m \<and> m_width m < 4294967296
      \<and> 0 \<le> m_height m \<and> m_height m < 4294967296"
    using masters by auto
  note imp = importDb_cells [OF m insts, THEN conjunct2, rule_format, OF s1]
  show "0 < site_width st1" "0 < row_height st1" using r site e1 by (auto simp: import_result_def)
  show "pads st1 = (0, 0, [], [])" using keepsD [OF importDb_pads s1] e1 pd by (simp add: pads_def)
  show "fst ob \<noteq> LT_OVERLAP" if "m \<in> set (b_masters (block st1))" "ob \<in> set (m_obstructions m)" for m ob
    using that masters e1 bs by auto
  fix c assume "c \<in> set (cells st1)"
  then have c: "c \<in> set (cells s1)" using e1 by simp
  then have "db_inst c \<in> set (placeable_insts (block st))" using imp by (metis image_eqI set_map)
  then have "db_inst c < length (b_insts (block st))" by (simp add: placeable_insts_def)
  then show i: "cell_master st1 c \<in> set (b_masters (block st1))"
    using insts e1 bs by (simp add: master_of_def inst_of_def)
  note ic = imp [THEN conjunct2, THEN conjunct2, THEN conjunct2, THEN bspec, OF c]
  show "Point (cell_x c) (cell_y c) = initialLocation st1 c False" using ic e1 by simp
  show "0 < cell_width c" "0 < cell_height c"
    using ic i masters e1 bs by (auto split: if_splits)
qed

subsection \<open>Boxes of instances\<close>

lemma getPlacementBoundary_eq:
  assumes "0 < m_width m" "0 < m_height m"
  shows "getPlacementBoundary m = Rect (- m_x m) (- m_y m) (m_width m - m_x m) (m_height m - m_y m)"
  using assms by (simp add: getPlacementBoundary_def transform_apply_rect_def transform_of_offset_def
      transform_apply_def rect_init_def rect_ll_def rect_ur_def rect_of_points_def Let_def)

text \<open>The box of an instance; a quarter turn exchanges the sides of the master.\<close>

lemma inst_box:
  assumes "inst_wf m i" "0 < m_width m" "0 < m_height m"
  shows "i_bbox i = Rect (fst (getLocation i)) (snd (getLocation i))
     (fst (getLocation i) + (if swapWidthHeight (i_orient i) then m_height m else m_width m))
     (snd (getLocation i) + (if swapWidthHeight (i_orient i) then m_width m else m_height m))"
  using assms(1) unfolding inst_wf_def getLocation_def getPlacementBoundary_eq [OF assms(2,3)]
  by (cases "i_orient i") (use assms(2,3) in \<open>simp_all add: getTransform_def transform_apply_rect_def
      transform_apply_def rect_init_def rect_ll_def rect_ur_def rect_of_points_def Let_def\<close>)

lemma upright_box:
  assumes "inst_wf m i" "\<not> swapWidthHeight (i_orient i)" "0 < m_width m" "0 < m_height m"
  shows "i_bbox i = Rect (fst (getLocation i)) (snd (getLocation i))
     (fst (getLocation i) + m_width m) (snd (getLocation i) + m_height m)"
  using inst_box [OF assms(1,3,4)] assms(2) by simp

definition masters_ok :: "dbBlock \<Rightarrow> bool" where
  \<comment> \<open>positive sides of 32 bits, and every instance has a master\<close>
  "masters_ok b \<longleftrightarrow>
     (\<forall>m \<in> set (b_masters b). 0 < m_width m \<and> m_width m < 4294967296 \<and> 0 < m_height m \<and> m_height m < 4294967296)
     \<and> (\<forall>i \<in> set (b_insts b). i_master i < length (b_masters b))"

lemma masters_okD:
  assumes "masters_ok b" "i < length (b_insts b)"
  shows "0 < m_width (master_of b i)" "0 < m_height (master_of b i)"
    "m_width (master_of b i) < 4294967296" "m_height (master_of b i) < 4294967296"
proof -
  have "i_master (inst_of b i) < length (b_masters b)" using assms by (simp add: masters_ok_def inst_of_def)
  then have "master_of b i \<in> set (b_masters b)" by (simp add: master_of_def)
  then show "0 < m_width (master_of b i)" "0 < m_height (master_of b i)"
    "m_width (master_of b i) < 4294967296" "m_height (master_of b i) < 4294967296"
    using assms(1) by (auto simp: masters_ok_def)
qed

definition std_insts :: "dbBlock \<Rightarrow> nat set" where
  \<comment> \<open>the placeable instances of the standard cell classes\<close>
  "std_insts b = {i \<in> set (placeable_insts b). m_type (master_of b i) \<in> {MT_CORE, MT_CORE_ANTENNACELL, MT_CORE_FEEDTHRU,
       MT_CORE_TIEHIGH, MT_CORE_TIELOW, MT_CORE_SPACER, MT_CORE_WELLTAP}}"

abbreviation bbox_of :: "dbBlock \<Rightarrow> nat \<Rightarrow> Rect" where
  "bbox_of b i \<equiv> i_bbox (inst_of b i)"

definition on_sites :: "dbBlock \<Rightarrow> nat \<Rightarrow> bool" where
  \<comment> \<open>the lower left corner of the box is a whole number of sites and rows away from that of the core\<close>
  "on_sites b i \<longleftrightarrow> (xMin (bbox_of b i) - xMin (getCoreArea b)) mod site_w (last (b_rows b)) = 0
     \<and> (yMin (bbox_of b i) - yMin (getCoreArea b)) mod site_h (last (b_rows b)) = 0"

definition box_sites :: "dbBlock \<Rightarrow> nat \<Rightarrow> grid_pt set" where
  \<comment> \<open>the sites, by column and row, whose corner lies in the box\<close>
  "box_sites b i = {(gx, gy).
     xMin (bbox_of b i) \<le> xMin (getCoreArea b) + gx * site_w (last (b_rows b))
   \<and> xMin (getCoreArea b) + gx * site_w (last (b_rows b)) < xMax (bbox_of b i)
   \<and> yMin (bbox_of b i) \<le> yMin (getCoreArea b) + gy * site_h (last (b_rows b))
   \<and> yMin (getCoreArea b) + gy * site_h (last (b_rows b)) < yMax (bbox_of b i)}"

definition row_has_site :: "dbBlock \<Rightarrow> dbRow \<Rightarrow> grid_pt \<Rightarrow> bool" where
  \<comment> \<open>a row of the block has the site\<close>
  "row_has_site b row p \<longleftrightarrow>
     (let x_start = (row_x row - xMin (getCoreArea b)) sdiv site_w (last (b_rows b))
      in x_start \<le> fst p \<and> fst p < x_start + row_site_cnt row
         \<and> snd p = (row_y row - yMin (getCoreArea b)) sdiv site_h (last (b_rows b)))"

definition power_agrees :: "Opendp \<Rightarrow> Cell \<Rightarrow> bool" where
  \<comment> \<open>a cell of an even number of rows has the other power on top than its row; one of five, seven, \<open>\<dots>\<close> rows is
      upright if the powers are the same and mirrored if not\<close>
  "power_agrees st cl \<longleftrightarrow>
     (let h = gridHeight st cl; same = (topPower st cl = rowTopPower st (cellY st cl)); ori = i_orient (cell_inst st cl)
      in (h mod 2 = 0 \<longrightarrow> \<not> same)
         \<and> (h mod 2 = 1 \<longrightarrow> h \<noteq> 1 \<longrightarrow> h \<noteq> 3 \<longrightarrow> (if same then ori = R0 else ori = MX)))"

lemma smod_eq_0_iff: "0 < b \<Longrightarrow> x smod b = 0 \<longleftrightarrow> x mod b = (0 :: int)"
proof
  assume b: "0 < b" "x smod b = 0"
  then have "x = x sdiv b * b" using sdiv_mult_smod_eq [of x b] by simp
  then show "x mod b = 0" by (metis mod_mult_self2_is_0)
next
  assume b: "0 < b" "x mod b = 0"
  then have "b dvd x" by presburger
  then obtain q where q: "x = q * b" by (metis dvdE mult.commute)
  then have "x sdiv b = q" using sdiv_mult_cancel [of b q] b(1) by simp
  then show "x smod b = 0" using sdiv_mult_smod_eq [of x b] q by simp
qed

lemma power_agrees_iff:
  assumes "0 < row_height st" "0 < cell_height cl"
  shows "power_agrees st cl \<longleftrightarrow> \<not> checkPowerLine st cl"
proof -
  have "0 < gridHeight st cl" using less_divCeil_iff [OF assms(1), of 0] assms(2) by (simp add: gridHeight_def)
  then show ?thesis by (auto simp: power_agrees_def checkPowerLine_def Let_def smod_nonneg)
qed

subsection \<open>The checked design\<close>

definition cell_at_inst :: "Opendp \<Rightarrow> Cell \<Rightarrow> bool" where
  \<comment> \<open>the cell is where its instance is, and has its size\<close>
  "cell_at_inst st cl \<longleftrightarrow> (let b = block st; i = db_inst cl; x = xMin (getCoreArea b); y = yMin (getCoreArea b) in
     bbox_of b i = Rect (x + cell_x cl) (y + cell_y cl) (x + cell_x cl + cell_width cl) (y + cell_y cl + cell_height cl)
   \<and> 0 < cell_width cl \<and> 0 < cell_height cl)"

lemma imported_at_inst:
  assumes "importDb st = Inr s1" "masters_ok (block st)" "design_wf (block st)" "cl \<in> set (cells s1)"
  shows "cell_at_inst s1 cl"
proof -
  have m: "\<forall>m \<in> set (b_masters (block st)). 0 \<le> m_width m \<and> m_width m < 4294967296
      \<and> 0 \<le> m_height m \<and> m_height m < 4294967296"
    and n: "\<forall>i \<in> set (b_insts (block st)). i_master i < length (b_masters (block st))"
    using assms(2) by (auto simp: masters_ok_def)
  note imp = importDb_cells [OF m n, THEN conjunct2, rule_format, OF assms(1)]
  let ?i = "db_inst cl"
  have "?i \<in> set (placeable_insts (block st))" using imp assms(4) by (metis image_eqI set_map)
  then have i: "?i < length (b_insts (block st))" by (simp add: placeable_insts_def)
  then have "inst_wf (master_of (block st) ?i) (inst_of (block st) ?i)" using assms(3) by (simp add: design_wf_def)
  from inst_box [OF this masters_okD(1,2) [OF assms(2) i]] masters_okD(1,2) [OF assms(2) i]
  show ?thesis
    using imp assms(4) by (force simp: cell_at_inst_def Let_def initialLocation_def getLocation_def split: if_splits)
qed

lemma checked_parts:
  assumes "checkPlacement st = Inr (fs, st2)" "masters_ok (block st)" "design_wf (block st)"
    and "0 < site_w (last (b_rows (block st)))" "0 < site_h (last (b_rows (block st)))"
  obtains s1 st1 g where "importDb st = Inr s1" "initGrid s1 = Inr st1" "claimed st1 (length (cells st1)) (fs, st2)"
    "unfailing fs" "st1 = s1\<lparr>grid := grid st1\<rparr>" "st2 = st1\<lparr>grid := g\<rparr>" "import_result (block st) s1"
    "map db_inst (cells s1) = placeable_insts (block st)" "\<And>cl. cl \<in> set (cells s1) \<Longrightarrow> cell_at_inst s1 cl"
proof -
  obtain s1 st1 where s1: "importDb st = Inr s1" "initGrid s1 = Inr st1"
    and cl: "claimed st1 (length (cells st1)) (fs, st2)" and u: "unfailing fs" and e1: "st1 = s1\<lparr>grid := grid st1\<rparr>"
    by (rule checkPlacement_parts [OF assms(1)]) blast
  obtain g where "st2 = st1\<lparr>grid := g\<rparr>" using cl by (auto simp: claimed_def)
  moreover have "import_result (block st) s1" by (rule keepsD [OF importDb_result s1(1)])
  moreover have "map db_inst (cells s1) = placeable_insts (block st)"
    by (rule importDb_cells [THEN conjunct2, rule_format, OF _ _ s1(1), THEN conjunct2, THEN conjunct2, THEN conjunct1])
      (use assms(2) in \<open>auto simp: masters_ok_def\<close>)
  ultimately show ?thesis using that s1 cl u e1 imported_at_inst [OF s1(1) assms(2,3)] by blast
qed

lemma std_cell_insts: "isStdCell st cl \<longleftrightarrow> db_inst cl \<in> std_insts (block st)"
  if "db_inst cl \<in> set (placeable_insts (block st))"
  using that by (simp add: isStdCell_def std_insts_def)

lemma aligned_on_sites:
  assumes "cell_at_inst st cl" "import_result (block st) st" "0 < site_width st" "0 < row_height st"
  shows "on_sites (block st) (db_inst cl) \<longleftrightarrow> \<not> misaligned st cl"
  using assms by (auto simp: cell_at_inst_def Let_def import_result_def on_sites_def misaligned_def smod_eq_0_iff)

lemma box_sites_visited:
  assumes "cell_at_inst st cl" "import_result (block st) st" "0 < site_width st" "0 < row_height st"
    and "\<not> misaligned st cl" "p \<in> box_sites (block st) (db_inst cl)"
  shows "(snd p, fst p) \<in> set (grid_points (cellY st cl) (cellEndY st cl) (cellX st cl) (cellEndX st cl))"
proof -
  have a: "cell_x cl smod site_width st = 0" "cell_y cl smod row_height st = 0" using assms(5) by (auto simp: misaligned_def)
  have "cell_x cl \<le> fst p * site_width st" "fst p * site_width st < cell_x cl + cell_width cl"
    "cell_y cl \<le> snd p * row_height st" "snd p * row_height st < cell_y cl + cell_height cl"
    using assms(1,2,6) by (auto simp: cell_at_inst_def Let_def import_result_def box_sites_def)
  then show ?thesis
    using aligned_start [OF a(1) assms(3)] aligned_start [OF a(2) assms(4)] less_divCeil_iff [OF assms(3)] less_divCeil_iff [OF assms(4)]
    by (auto simp: grid_points_def cellX_def cellEndX_def cellY_def cellEndY_def gridX_def gridY_def)
qed

lemma valid_site_has_row:
  assumes "initGrid s1 = Inr st1" "import_result (block s1) s1" "in_grid s1 p" "is_valid (grid st1 p)"
  shows "\<exists>row \<in> set (b_rows (block s1)). row_has_site (block s1) row p"
proof -
  have "row_covers s1 row p = row_has_site (block s1) row p" for row
    using assms(2) by (auto simp: row_covers_def row_has_site_def import_result_def)
  then show ?thesis using assms(1,3,4) unfolding initGrid_result by (auto split: if_splits)
qed


definition demo_legal :: Opendp where
  "demo_legal = demo_state\<lparr>block := demo_block [demo_row 5]
     [demo_inst ''u1'' 120 200 PS_PLACED, demo_inst ''u2'' 100 200 PS_FIRM]\<rparr>"

lemma demo_legal_check:
  "map_sum id (\<lambda>(fs, st). (list_all (isStdCell st) (cells st), length (cells st))) (checkPlacement demo_legal)
     = Inr (True, 2)"
  by code_simp


end
