(* ===== verification/Odb_Props.thy ===== *)
theory Odb_Props
  imports Odb_Design
begin

section \<open>Properties of the database objects\<close>

text \<open>
  What the enumerations and the design objects promise their users: names and values
  translate into each other, an instance stays where it is put, and the bounding box of a
  net is the least rectangle around its terminals. The codec facts come from the
  interpretations of \<open>name_codec\<close>.
\<close>

lemmas codec_iff =
  orient_codec.parse_iff grouptype_codec.parse_iff iotype_codec.parse_iff
  sigtype_codec.parse_iff status_codec.parse_iff mastertype_codec.parse_iff

text \<open>
  For the six enumerations of the database that are modelled, the constructor from a
  string gives a value exactly for the name that \<open>getString\<close> prints for it, in any mixture of
  upper and lower case; every other string silently gives the default of the enumeration.
\<close>

theorem names_roundtrip:
  "(orient_of_string s = a \<longleftrightarrow> strcasecmp s (orient_getString a)
        \<or> a = R0 \<and> (\<forall>w. \<not> strcasecmp s (orient_getString w)))
     \<and> (grouptype_of_string s = b \<longleftrightarrow> strcasecmp s (grouptype_getString b)
        \<or> b = PHYSICAL_CLUSTER \<and> (\<forall>w. \<not> strcasecmp s (grouptype_getString w)))
     \<and> (iotype_of_string s = c \<longleftrightarrow> strcasecmp s (iotype_getString c)
        \<or> c = IO_INPUT \<and> (\<forall>w. \<not> strcasecmp s (iotype_getString w)))
     \<and> (sigtype_of_string s = d \<longleftrightarrow> strcasecmp s (sigtype_getString d)
        \<or> d = SIG_SIGNAL \<and> (\<forall>w. \<not> strcasecmp s (sigtype_getString w)))
     \<and> (status_of_string s = e \<longleftrightarrow> strcasecmp s (status_getString e)
        \<or> e = PS_NONE \<and> (\<forall>w. \<not> strcasecmp s (status_getString w)))
     \<and> (mastertype_of_string s = f \<longleftrightarrow> strcasecmp s (mastertype_getString f)
        \<or> f = MT_NONE \<and> (\<forall>w. \<not> strcasecmp s (mastertype_getString w)))"
  by (intro conjI codec_iff)

theorem names_roundtrip_witness:
  "mastertype_of_string ''core TieLow'' = MT_CORE_TIELOW \<and> status_of_string ''firm'' = PS_FIRM"
proof -
  have "strcasecmp ''core TieLow'' (mastertype_getString MT_CORE_TIELOW)"
    "strcasecmp ''firm'' (status_getString PS_FIRM)"
    by code_simp+
  then show ?thesis
    using names_roundtrip [of "''core TieLow''" _ _ _ _ _ MT_CORE_TIELOW, THEN conjunct2, THEN conjunct2, THEN conjunct2, THEN conjunct2, THEN conjunct2, THEN iffD2]
      names_roundtrip [of "''firm''" _ _ _ _ PS_FIRM, THEN conjunct2, THEN conjunct2, THEN conjunct2, THEN conjunct2, THEN conjunct1, THEN iffD2]
    by simp
qed

text \<open>
  A well-formed instance (its box is its master's boundary under its transform) that is
  put at a location is found there, in the same orientation and well-formed; changing the
  orientation in place keeps the location, and changing it back restores the instance.
\<close>

theorem inst_location_roundtrip:
  assumes "inst_wf m i"
  shows "getLocation (setLocation m x y i) = (x, y)
     \<and> i_orient (setLocation m x y i) = i_orient i \<and> inst_wf m (setLocation m x y i)
     \<and> getLocation (setLocationOrient m ori i) = getLocation i
     \<and> i_orient (setLocationOrient m ori i) = ori \<and> inst_wf m (setLocationOrient m ori i)
     \<and> setLocationOrient m (i_orient i) (setLocationOrient m ori i) = i"
  using assms getLocation_setLocation setLocation_wf setLocationOrient_facts setLocationOrient_undo
  by simp

definition sample_master :: dbMaster where
  "sample_master =
     \<lparr>m_type = MT_CORE, m_x = 2, m_y = 0, m_width = 20, m_height = 40, m_obstructions = [],
      m_mterms = []\<rparr>"

definition sample_inst :: dbInst where
  "sample_inst =
     setInstBBox sample_master
       \<lparr>i_name = ''u1'', i_master = 0, i_x = 5, i_y = 6, i_orient = R90, i_status = PS_PLACED, i_source = SRC_NONE,
        i_bbox = rect_default, i_iterms = []\<rparr>"

theorem inst_location_roundtrip_witness:
  "getLocation (setLocation sample_master 100 200 sample_inst) = (100, 200)
   \<and> getLocation (setLocationOrient sample_master MX sample_inst) = getLocation sample_inst"
proof -
  have "inst_wf sample_master sample_inst" by (simp add: sample_inst_def)
  from inst_location_roundtrip [OF this] show ?thesis by blast
qed

lemma fold_merge_pt_iff:
  assumes "ps \<noteq> []" "\<forall>p \<in> set ps. fits32 (getX p) \<and> fits32 (getY p)"
  shows "rect_contains t (fold merge_pt ps mergeInit) \<longleftrightarrow> (\<forall>p \<in> set ps. intersects_pt t p)"
proof
  assume "rect_contains t (fold merge_pt ps mergeInit)"
  then show "\<forall>p \<in> set ps. intersects_pt t p"
    using fold_merge_pt_covers rect_contains_pt by blast
next
  assume t: "\<forall>p \<in> set ps. intersects_pt t p"
  obtain p where p: "p \<in> set ps" using assms(1) by (cases ps) auto
  have "rect_contains t mergeInit"
    using bspec [OF t p] bspec [OF assms(2) p]
    by (auto simp: rect_contains_def mergeInit_def intersects_pt_def fits32_def)
  then show "rect_contains t (fold merge_pt ps mergeInit)"
    using t by (intro fold_merge_pt_least) auto
qed

text \<open>
  C21: a rectangle contains the terminal box of a net exactly when it contains the average
  point (or the centre of the instance) of every instance terminal and the centre of every
  placed pin of its block terminals. So the box is the least rectangle around them.
\<close>

theorem getTermBBox_least:
  assumes "map (iterm_point b) (n_iterms n) @ bterm_points n \<noteq> []"
    and "\<forall>p \<in> set (map (iterm_point b) (n_iterms n) @ bterm_points n). fits32 (getX p) \<and> fits32 (getY p)"
  shows "rect_contains t (getTermBBox b n) \<longleftrightarrow>
     (\<forall>it \<in> set (n_iterms n). intersects_pt t (iterm_point b it))
     \<and> (\<forall>p \<in> set (bterm_points n). intersects_pt t p)"
  using fold_merge_pt_iff [OF assms] unfolding getTermBBox_points by auto

definition sample_net :: dbNet where
  "sample_net =
     \<lparr>n_sig = SIG_SIGNAL, n_special = False, n_iterms = [],
      n_bterms = [[(PS_PLACED, [rect_init 0 0 10 10]), (PS_NONE, [rect_init 50 50 60 60])],
                  [(PS_FIRM, [rect_init 20 40 30 60])]], n_swires = []\<rparr>"

definition sample_block :: dbBlock where
  "sample_block =
     \<lparr>b_masters = [sample_master], b_inst_hdrs = [0], b_insts = [sample_inst], b_rows = [],
      b_regions = [], b_nets = [sample_net], b_die_area = rect_default\<rparr>"

theorem getTermBBox_least_witness:
  "rect_contains (Rect 5 5 25 50) (getTermBBox sample_block sample_net)
   \<and> \<not> rect_contains (Rect 5 6 25 50) (getTermBBox sample_block sample_net)"
proof -
  have p: "map (iterm_point sample_block) (n_iterms sample_net) @ bterm_points sample_net
      = [Point 5 5, Point 25 50]" "n_iterms sample_net = []" "bterm_points sample_net = [Point 5 5, Point 25 50]"
    by code_simp+
  from getTermBBox_least [of sample_block sample_net] show ?thesis
    unfolding p by (simp add: fits32_def intersects_pt_def)
qed

end
