(* ===== verification/Dpl_State_Props.thy ===== *)
theory Dpl_State_Props
  imports Dpl_Writeback Odb_Props
begin

section \<open>Properties of the small functions of the placer\<close>

text \<open>
  The integer divisions, the statistics, the wire length of a net, the classes of masters
  and the order in which cells are placed.
\<close>

subsection \<open>Divisions\<close>

lemma divRound_minus: "divRound (- a) b = - divRound a b"
  by (simp add: divRound_def sgn_mult)

lemma divRound_near_any:
  assumes "0 < b"
  shows "\<bar>2 * (divRound a b * b - a)\<bar> \<le> b"
proof (cases "0 \<le> a")
  case False
  then have "\<bar>2 * (divRound (- a) b * b - (- a))\<bar> \<le> b" by (intro divRound_near assms) simp
  then show ?thesis by (simp add: divRound_minus algebra_simps abs_le_iff)
qed (rule divRound_near [OF assms])

lemma divFloor_pos: "0 < b \<Longrightarrow> 0 \<le> a \<Longrightarrow> divFloor a b = a div b"
  by (simp add: divFloor_def sdiv_nonneg)

lemma divFloor_neg: "0 < b \<Longrightarrow> a < 0 \<Longrightarrow> divFloor a b = divCeil a b"
  by (simp add: divFloor_def divCeil_def signed_divide_int_def)

text \<open>
  \<open>divCeil\<close> is the least number of units that covers the dividend, \<open>divRound\<close> is a nearest
  number, and \<open>divFloor\<close> is the floor only for dividends that are not negative: below zero it
  truncates, and gives the ceiling.
\<close>

theorem division_bounds:
  assumes "0 < b"
  shows "(\<forall>n. divCeil a b \<le> n \<longleftrightarrow> a \<le> n * b) \<and> \<bar>2 * (divRound a b * b - a)\<bar> \<le> b
     \<and> divFloor a b = (if 0 \<le> a then a div b else divCeil a b)"
  using divCeil_le_iff [OF assms] divRound_near_any [OF assms] divFloor_pos [OF assms] divFloor_neg [OF assms]
  by simp

theorem division_bounds_witness: "divCeil 41 20 = 3 \<and> divRound (- 31) 20 = - 2 \<and> divFloor (- 31) 20 = - 1"
proof -
  have "\<forall>n. divCeil 41 20 \<le> n \<longleftrightarrow> 41 \<le> n * 20" "\<bar>2 * (divRound (- 31) 20 * 20 - - 31)\<bar> \<le> (20 :: int)"
    "divFloor (- 31) 20 = divCeil (- 31) 20"
    using division_bounds [of 20 41] division_bounds [of 20 "- 31"] by simp_all
  moreover have "divCeil (- 31) 20 = - 1" by (simp add: divCeil_def)
  ultimately show ?thesis by (simp add: divRound_def divCeil_def)
qed

subsection \<open>Displacement statistics\<close>

lemma displacement_fold:
  assumes "0 \<le> displacement_max st"
  shows "fold (\<lambda>cl st.
           let displacement = disp st cl;
               st = st\<lparr>displacement_sum := displacement_sum st + displacement\<rparr>
           in if displacement > displacement_max st
              then st\<lparr>displacement_max := displacement\<rparr> else st) cls st
     = st\<lparr>displacement_sum := displacement_sum st + sum_list (map (disp st) cls),
          displacement_max := fold max (map (disp st) cls) (displacement_max st)\<rparr>"
  using assms
proof (induction cls arbitrary: st)
  case (Cons cl cls)
  let ?st = "st\<lparr>displacement_sum := displacement_sum st + disp st cl,
    displacement_max := max (disp st cl) (displacement_max st)\<rparr>"
  have d: "disp ?st = disp st"
    by (simp add: disp_def initialLocation_def padLeft_def padLeft_inst_def isPaddedType_def fun_eq_iff)
  have step: "(let displacement = disp st cl;
               st' = st\<lparr>displacement_sum := displacement_sum st + displacement\<rparr>
           in if displacement > displacement_max st'
              then st'\<lparr>displacement_max := displacement\<rparr> else st') = ?st"
    by (simp add: Let_def max_def)
  have m: "0 \<le> displacement_max ?st" using Cons.prems by simp
  show ?case
    unfolding fold_Cons comp_def step Cons.IH [OF m] d by simp
qed simp

lemma disp_nonneg: "0 \<le> disp st cl"
  by (simp add: disp_def Let_def)

text \<open>
  \<open>findDisplacementStats\<close> leaves the sum, the largest and the truncated average of the
  Manhattan distances between the cells and the places of their instances, and changes
  nothing else.
\<close>

lemma displacement_stats:
  "findDisplacementStats st =
     st\<lparr>displacement_sum := sum_list (map (disp st) (cells st)),
        displacement_max := Max (insert 0 (disp st ` set (cells st))),
        displacement_avg := sum_list (map (disp st) (cells st)) div int (length (cells st))\<rparr>"
proof -
  let ?s0 = "st\<lparr>displacement_avg := 0, displacement_sum := 0, displacement_max := 0\<rparr>"
  let ?sum = "sum_list (map (disp st) (cells st))"
  have d: "disp ?s0 = disp st"
    by (simp add: disp_def initialLocation_def padLeft_def padLeft_inst_def isPaddedType_def fun_eq_iff)
  have "Max (set (0 # map (disp st) (cells st))) = fold max (map (disp st) (cells st)) 0"
    by (rule Max.set_eq_fold)
  then have mx: "fold max (map (disp st) (cells st)) 0 = Max (insert 0 (disp st ` set (cells st)))"
    by simp
  have sum: "0 \<le> ?sum" by (rule sum_list_nonneg) (auto simp: disp_nonneg)
  have avg: "(if length (cells st) \<noteq> 0 then ?sum sdiv int (length (cells st)) else 0) = ?sum div int (length (cells st))"
    using sdiv_nonneg [OF sum, of "int (length (cells st))"] by simp
  show ?thesis
    unfolding findDisplacementStats_def Let_def [of ?s0]
    using displacement_fold [of ?s0 "cells st"] avg by (auto simp: d mx Let_def)
qed

subsection \<open>Wire length\<close>

lemma fold_merge_pt_coords:
  "fold merge_pt ps r =
     Rect (fold min (map getX ps) (xMin r)) (fold min (map getY ps) (yMin r))
       (fold max (map getX ps) (xMax r)) (fold max (map getY ps) (yMax r))"
proof (induction ps arbitrary: r)
  case (Cons p ps)
  have "merge_pt p r = Rect (min (getX p) (xMin r)) (min (getY p) (yMin r))
      (max (getX p) (xMax r)) (max (getY p) (yMax r))"
    by (simp add: merge_pt_def rect_merge_def rect_init_def min.commute max.commute)
  with Cons show ?case by simp
qed simp

lemma fold_min_init:
  assumes "ps \<noteq> []" "\<forall>p \<in> set ps. f p \<le> (m :: int)"
  shows "fold min (map f ps) m = Min (f ` set ps)"
proof -
  have "fold min (map f ps) m = Min (insert m (f ` set ps))"
    using Min.set_eq_fold [of m "map f ps"] by simp
  also have "\<dots> = min m (Min (f ` set ps))" using assms(1) by simp
  also have "\<dots> = Min (f ` set ps)"
  proof -
    obtain p where p: "p \<in> set ps" using assms(1) by (cases ps) auto
    have "Min (f ` set ps) \<le> f p" by (rule Min_le) (use p in auto)
    then show ?thesis using bspec [OF assms(2) p] by simp
  qed
  finally show ?thesis .
qed

lemma fold_max_init:
  assumes "ps \<noteq> []" "\<forall>p \<in> set ps. (m :: int) \<le> f p"
  shows "fold max (map f ps) m = Max (f ` set ps)"
proof -
  have "fold max (map f ps) m = Max (insert m (f ` set ps))"
    using Max.set_eq_fold [of m "map f ps"] by simp
  also have "\<dots> = max m (Max (f ` set ps))" using assms(1) by simp
  also have "\<dots> = Max (f ` set ps)"
  proof -
    obtain p where p: "p \<in> set ps" using assms(1) by (cases ps) auto
    have "f p \<le> Max (f ` set ps)" by (rule Max_ge) (use p in auto)
    then show ?thesis using bspec [OF assms(2) p] by simp
  qed
  finally show ?thesis .
qed

text \<open>
  The wire length of a net that is no supply net is the half perimeter of the least box
  around its terminal points, if the coordinates stay below \<open>2 ^ 30\<close>. A net without any point
  has the inverted box of \<open>mergeInit\<close>, whose width and height wrap around: its length is 2.
\<close>

theorem hpwl_half_perimeter:
  fixes b n
  defines "ps \<equiv> map (iterm_point b) (n_iterms n) @ bterm_points n"
  assumes "\<not> isSupply n" "\<forall>p \<in> set ps. \<bar>getX p\<bar> < 1073741824 \<and> \<bar>getY p\<bar> < 1073741824"
  shows "hpwl_net b n = (if ps = [] then 2 else
     (Max (getX ` set ps) - Min (getX ` set ps)) + (Max (getY ` set ps) - Min (getY ` set ps)))"
proof (cases "ps = []")
  case True
  then have "getTermBBox b n = mergeInit" unfolding getTermBBox_points ps_def by simp
  with True assms(2) show ?thesis
    by (simp add: hpwl_net_def rect_dx_def rect_dy_def mergeInit_def u32_def)
next
  case False
  have box: "getTermBBox b n =
      Rect (Min (getX ` set ps)) (Min (getY ` set ps)) (Max (getX ` set ps)) (Max (getY ` set ps))"
    unfolding getTermBBox_points ps_def [symmetric] fold_merge_pt_coords mergeInit_def
    using assms(3) False by (simp add: fold_min_init fold_max_init abs_less_iff order.strict_implies_order)
      (intro conjI fold_min_init fold_max_init; fastforce simp: abs_less_iff)
  have r: "- 1073741824 < Min (f ` set ps) \<and> Min (f ` set ps) \<le> Max (f ` set ps) \<and> Max (f ` set ps) < 1073741824"
    if "\<forall>p \<in> set ps. \<bar>f p\<bar> < 1073741824" for f :: "Point \<Rightarrow> int"
  proof -
    have "Min (f ` set ps) \<in> f ` set ps" "Max (f ` set ps) \<in> f ` set ps"
      using False by (intro Min_in Max_in; simp)+
    moreover from this have "Min (f ` set ps) \<le> Max (f ` set ps)" by simp
    ultimately show ?thesis using that by (fastforce simp: abs_less_iff)
  qed
  have "\<forall>p \<in> set ps. \<bar>getX p\<bar> < 1073741824" "\<forall>p \<in> set ps. \<bar>getY p\<bar> < 1073741824"
    using assms(3) by simp_all
  note xy = r [OF this(1)] r [OF this(2)]
  let ?dx = "Max (getX ` set ps) - Min (getX ` set ps)"
  let ?dy = "Max (getY ` set ps) - Min (getY ` set ps)"
  have "u32 ?dx = ?dx" "u32 ?dy = ?dy" "u32 (?dx + ?dy) = ?dx + ?dy"
    using xy by (auto intro!: u32_id)
  then show ?thesis
    using assms(2) False by (simp add: hpwl_net_def box rect_dx_def rect_dy_def)
qed

theorem hpwl_half_perimeter_witness: "hpwl_net sample_block sample_net = 65"
proof -
  have p: "map (iterm_point sample_block) (n_iterms sample_net) @ bterm_points sample_net
      = [Point 5 5, Point 25 50]"
    by code_simp
  have "\<not> isSupply sample_net" by (simp add: isSupply_def sample_net_def)
  from hpwl_half_perimeter [OF this, of sample_block] show ?thesis unfolding p by simp
qed

subsection \<open>Classes of masters\<close>

text \<open>
  Every master type other than \<open>NONE\<close> and \<open>RING\<close> is in exactly one of the five classes, and
  the placer's own lists agree with them: it places the core cells, the blocks and the end
  caps, its standard cells are the core cells, and it pads the core cells other than spacers and
  three of the end caps.
\<close>

lemma master_classes:
  "length (filter id [mt_isBlock t, mt_isCore t, mt_isPad t, mt_isEndCap t, mt_isCover t])
     = (if t = MT_NONE \<or> t = MT_RING then 0 else 1)
   \<and> (isCoreAutoPlaceable m = (mt_isCore (m_type m) \<or> mt_isBlock (m_type m) \<or> mt_isEndCap (m_type m)))
   \<and> isStdCell st cl = mt_isCore (m_type (cell_master st cl))
   \<and> isPaddedType st i = (m_type (master_of (block st) i) \<in> {MT_ENDCAP, MT_ENDCAP_PRE, MT_ENDCAP_POST}
        \<or> mt_isCore (m_type (master_of (block st) i)) \<and> m_type (master_of (block st) i) \<noteq> MT_CORE_SPACER)
   \<and> isCrWtBlClass st cl = (mt_isBlock (m_type (cell_master st cl))
        \<or> mt_isCore (m_type (cell_master st cl)) \<and> m_type (cell_master st cl) \<noteq> MT_CORE_SPACER)"
proof (intro conjI)
  show "length (filter id [mt_isBlock t, mt_isCore t, mt_isPad t, mt_isEndCap t, mt_isCover t])
     = (if t = MT_NONE \<or> t = MT_RING then 0 else 1)"
    by (cases t) (simp_all add: mt_isBlock_def mt_isCore_def mt_isPad_def mt_isEndCap_def mt_isCover_def)
qed (auto simp: isCoreAutoPlaceable_def isStdCell_def isPaddedType_def isCrWtBlClass_def mt_isCore_def
    mt_isBlock_def mt_isEndCap_def)

subsection \<open>The order of the cells\<close>

text \<open>
  The comparison that the cells are sorted with is a strict total order on cells of
  different instances, as \<open>std::sort\<close> needs, and it puts larger cells first as long as the areas
  stay below \<open>2 ^ 31\<close>; beyond, the area wraps: a cell of 65536 by 65536 has area 0.
\<close>

theorem cellAreaGreater_order:
  assumes "db_inst c1 \<noteq> db_inst c2"
  shows "strict_weak (cellAreaGreater st) \<and> (cellAreaGreater st c1 c2 \<noteq> cellAreaGreater st c2 c1)
     \<and> ((\<forall>c \<in> {c1, c2}. 0 \<le> m_width (cell_master st c) * m_height (cell_master st c)
            \<and> m_width (cell_master st c) * m_height (cell_master st c) \<le> INT_MAX) \<longrightarrow>
          m_width (cell_master st c1) * m_height (cell_master st c1)
            > m_width (cell_master st c2) * m_height (cell_master st c2) \<longrightarrow> cellAreaGreater st c1 c2)
     \<and> (m_width (cell_master st c1) = 65536 \<longrightarrow> m_height (cell_master st c1) = 65536 \<longrightarrow> cell_area st c1 = 0)"
proof (intro conjI impI)
  show "strict_weak (cellAreaGreater st)"
    by (auto simp: strict_weak_def cellAreaGreater_def Let_def)
qed (use assms in \<open>auto simp: cellAreaGreater_def cell_area_def Let_def u32_id s32_id fits32_def u32_def\<close>)

theorem cellAreaGreater_order_witness:
  "cellAreaGreater demo_grid (demo_cell 0 3 3) (demo_cell 1 38 4)"
proof -
  have "\<not> cellAreaGreater demo_grid (demo_cell 1 38 4) (demo_cell 0 3 3)" by code_simp
  moreover have "db_inst (demo_cell 0 3 3) \<noteq> db_inst (demo_cell 1 38 4)" by (simp add: demo_cell_def)
  ultimately show ?thesis using cellAreaGreater_order [of "demo_cell 0 3 3" "demo_cell 1 38 4" demo_grid] by simp
qed

end
