(* ===== verification/Dpl_Run_Props.thy ===== *)
theory Dpl_Run_Props
  imports Dpl_Check_Props Dpl_State_Props
begin

section \<open>The design after a run\<close>

text \<open>
  What \<open>detailedPlacement\<close> leaves in the database: the boxes of the instances that it placed do
  not overlap. The proof goes from the pixels of the grid, where two cells never share one, to
  the outlines of the cells, and through the write-back to the boxes of the instances.
\<close>

subsection \<open>Outlines of aligned cells\<close>

lemma footprint_outline:
  assumes "0 < site_width st" "0 < row_height st" "aligned st cl"
    and "0 \<le> padLeft st cl" "0 \<le> padRight st cl"
    and "cell_x cl \<le> px * site_width st" "px * site_width st < cell_x cl + cell_width cl"
    and "cell_y cl \<le> py * row_height st" "py * row_height st < cell_y cl + cell_height cl"
  shows "(px, py) \<in> footprint st cl"
proof -
  note f = footprint_aligned [OF assms(1-3)]
  have "gridPaddedX st cl + padLeft st cl \<le> px" using assms(1,6) f(2) by (simp add: mult_le_cancel_right)
  moreover have "cellY st cl \<le> py" using assms(2,8) f(3) by (simp add: mult_le_cancel_right)
  moreover have "px < gridPaddedEndX st cl"
    unfolding gridPaddedEndX_def less_divCeil_iff [OF assms(1)]
    using assms(5,7) assms(1) mult_nonneg_nonneg [of "padRight st cl" "site_width st"] by linarith
  moreover have "py < cellEndY st cl"
    unfolding cellEndY_def less_divCeil_iff [OF assms(2)] using assms(9) by simp
  ultimately show ?thesis using assms(4) by (simp add: footprint_def)
qed

lemma aligned_corner:
  assumes "x mod b = 0" "y mod b = 0" "0 < (b :: int)"
  obtains n where "n * b = max x y"
proof -
  have "x div b * b = x" "y div b * b = y" using assms by (simp_all add: minus_mod_eq_div_mult [symmetric])
  then show ?thesis using that [of "x div b"] that [of "y div b"] by (cases "x \<le> y") (simp_all add: max_def)
qed

lemma outlines_apart:
  assumes "0 < site_width st" "0 < row_height st" "aligned st c" "aligned st d"
    and "0 \<le> padLeft st c" "0 \<le> padRight st c" "0 \<le> padLeft st d" "0 \<le> padRight st d"
    and "footprint st c \<inter> footprint st d = {}"
    and "0 < cell_width c" "0 < cell_width d" "0 < cell_height c" "0 < cell_height d"
  shows "\<not> overlaps (Rect (x + cell_x c) (y + cell_y c) (x + cell_x c + cell_width c) (y + cell_y c + cell_height c))
                 (Rect (x + cell_x d) (y + cell_y d) (x + cell_x d + cell_width d) (y + cell_y d + cell_height d))"
proof
  assume o: "overlaps (Rect (x + cell_x c) (y + cell_y c) (x + cell_x c + cell_width c) (y + cell_y c + cell_height c))
                 (Rect (x + cell_x d) (y + cell_y d) (x + cell_x d + cell_width d) (y + cell_y d + cell_height d))"
  obtain px where px: "px * site_width st = max (cell_x c) (cell_x d)"
    using aligned_corner [of "cell_x c" "site_width st" "cell_x d"] assms(1,3,4) by (auto simp: aligned_def)
  obtain py where py: "py * row_height st = max (cell_y c) (cell_y d)"
    using aligned_corner [of "cell_y c" "row_height st" "cell_y d"] assms(2,3,4) by (auto simp: aligned_def)
  have "cell_x c < cell_x d + cell_width d" "cell_x d < cell_x c + cell_width c"
    "cell_y c < cell_y d + cell_height d" "cell_y d < cell_y c + cell_height c"
    using o by (auto simp: overlaps_def)
  then have "(px, py) \<in> footprint st c" "(px, py) \<in> footprint st d"
    using assms(10-13) px py
    by (auto intro!: footprint_outline assms(1-8) simp: max_def)
  with assms(9) show False by blast
qed

subsection \<open>The run\<close>

text \<open>The instances that the placer moves.\<close>

definition moved_insts :: "Opendp \<Rightarrow> nat set" where
  "moved_insts st = {i \<in> set (placeable_insts (block st)). \<not> inst_isFixed (inst_of (block st) i)
     \<and> m_type (master_of (block st) i) \<in> {MT_CORE, MT_CORE_ANTENNACELL, MT_CORE_FEEDTHRU, MT_CORE_TIEHIGH,
          MT_CORE_TIELOW, MT_CORE_SPACER, MT_CORE_WELLTAP}}"

lemma moved_cell:
  assumes "map db_inst (cells st) = placeable_insts (block st)" "i \<in> moved_insts st"
  obtains c where "c < length (cells st)" "db_inst (cell_of st c) = i" "writes st (cell_of st c)" "movable st c"
proof -
  have "i \<in> db_inst ` set (cells st)" using assms by (simp add: moved_insts_def flip: set_map)
  then obtain c where "c < length (cells st)" "db_inst (cell_of st c) = i" by (auto simp: in_set_conv_nth)
  with assms(2) that show ?thesis by (auto simp: moved_insts_def writes_def movable_def isFixed_def isStdCell_def)
qed

lemma hpwl_before_result:
  assumes "import_result b st"
  shows "import_result b (st\<lparr>hpwl_before := h\<rparr>)"
proof -
  have "make_cell (st\<lparr>hpwl_before := h\<rparr>) = make_cell st"
    by (rule ext, rule make_cell_cong) simp_all
  then show ?thesis
    using assms unfolding import_result_def
    by (clarsimp simp: grouped_ok_def group_cells_ok_def isMultiRow_def macro_of_def masters_known_def)
qed

text \<open>The state in front of the search: the imported one with its limits and wire length.\<close>

definition run_start :: "int \<Rightarrow> int \<Rightarrow> Opendp \<Rightarrow> Opendp" where
  "run_start dx dy st = (set_displacement dx dy st)\<lparr>hpwl_before := hpwl_block (block (set_displacement dx dy st))\<rparr>"

lemma run_start_sel [simp]:
  "cells (run_start dx dy st) = cells st" "block (run_start dx dy st) = block st"
  "core (run_start dx dy st) = core st" "padLeft (run_start dx dy st) = padLeft st"
  "padRight (run_start dx dy st) = padRight st" "isFixed (run_start dx dy st) = isFixed st"
  by (auto simp: run_start_def set_displacement_def padLeft_def padRight_def padLeft_inst_def
      padRight_inst_def isPaddedType_def isFixed_def fun_eq_iff cong: if_cong option.case_cong)

lemma detailedPlacement_parts:
  assumes "detailedPlacement srt rnd dx dy st = Inr st'"
  obtains s1 s2 where "importDb st = Inr s1" "detailedPlacement_grid srt rnd (run_start dx dy s1) = Inr s2"
    "st' = updateDbInstLocations (findDisplacementStats s2)"
  using assms that by (auto simp: detailedPlacement_def run_start_def Let_def bindE_Inr_iff)

lemma run_result_import:
  assumes "std_sort (srt :: nat sorter)" "importDb st = Inr s1"
    and "0 < site_w (last (b_rows (block st)))" "0 < site_h (last (b_rows (block st)))"
    and "detailedPlacement_grid srt rnd (run_start dx dy s1) = Inr s2"
  shows "run_result (run_start dx dy s1) s2"
proof -
  have "import_result (block st) (run_start dx dy s1)"
    unfolding run_start_def by (intro hpwl_before_result set_displacement_result keepsD [OF importDb_result assms(2)])
  from import_result_imported [OF this assms(3,4)]
  have "keeps (run_result (run_start dx dy s1)) (detailedPlacement_grid srt rnd (run_start dx dy s1))"
    by (intro detailedPlacement_grid_keeps [OF assms(1)])
  then show ?thesis by (rule keepsD [OF _ assms(5)])
qed

lemma importDb_pad_inst:
  assumes "importDb st = Inr s1" "block s1 = block st"
  shows "padLeft_inst s1 = padLeft_inst st" "padRight_inst s1 = padRight_inst st"
  using keepsD [OF importDb_pads assms(1)] assms(2)
  by (auto simp: pads_def padLeft_inst_def padRight_inst_def isPaddedType_def fun_eq_iff cong: if_cong option.case_cong)

lemma run_cells:
  assumes "std_sort (srt :: nat sorter)" "importDb st = Inr s1"
    and "0 < site_w (last (b_rows (block st)))" "0 < site_h (last (b_rows (block st)))"
    and "detailedPlacement_grid srt rnd (run_start dx dy s1) = Inr s2"
    and m: "masters_ok (block st)"
  shows "grid_ok s2" "all_placed s2" "block s2 = block st" "core s2 = getCoreArea (block st)"
    "site_width s2 = site_w (last (b_rows (block st)))" "row_height s2 = site_h (last (b_rows (block st)))"
    "map db_inst (cells s2) = placeable_insts (block st)"
    "padLeft s2 cl = padLeft_inst st (db_inst cl)" "padRight s2 cl = padRight_inst st (db_inst cl)"
    "c < length (cells s2) \<Longrightarrow> \<not> swapWidthHeight (i_orient (cell_inst s2 (cell_of s2 c))) \<Longrightarrow>
       \<not> swapWidthHeight (cell_orient (cell_of s2 c)) \<and> cell_width (cell_of s2 c) = m_width (cell_master s2 (cell_of s2 c))
     \<and> cell_height (cell_of s2 c) = m_height (cell_master s2 (cell_of s2 c))"
proof -
  let ?s1 = "run_start dx dy s1"
  have r: "run_result ?s1 s2" by (rule run_result_import [OF assms(1-5)])
  then show "grid_ok s2" "all_placed s2" by (simp_all add: run_result_def)
  have st: "same_base ?s1 s2" "upright_ok ?s1 s2" using r by (auto simp: run_result_def)
  have "\<forall>m \<in> set (b_masters (block st)). 0 \<le> m_width m \<and> m_width m < 4294967296
      \<and> 0 \<le> m_height m \<and> m_height m < 4294967296" using m by (auto simp: masters_ok_def)
  moreover have "\<forall>i \<in> set (b_insts (block st)). i_master i < length (b_masters (block st))"
    using m by (simp add: masters_ok_def)
  ultimately have imp: "block s1 = block st" "core s1 = getCoreArea (block st)" "map db_inst (cells s1) = placeable_insts (block st)"
    "\<forall>cl \<in> set (cells s1). cell_orient cl = i_orient (cell_inst s1 cl) \<and> (cell_width cl, cell_height cl) =
               (if swapWidthHeight (cell_orient cl) then (m_height (cell_master s1 cl), m_width (cell_master s1 cl))
                else (m_width (cell_master s1 cl), m_height (cell_master s1 cl)))"
    using importDb_cells assms(2) by blast+
  show b: "block s2 = block st" "core s2 = getCoreArea (block st)" using st(1) imp by (simp_all add: same_base_def)
  have "import_result (block st) s1" by (rule keepsD [OF importDb_result assms(2)])
  moreover have "site_width (run_start dx dy s1) = site_width s1" "row_height (run_start dx dy s1) = row_height s1"
    by (simp_all add: run_start_def set_displacement_def)
  ultimately show "site_width s2 = site_w (last (b_rows (block st)))" "row_height s2 = site_h (last (b_rows (block st)))"
    using st(1) by (simp_all add: same_base_def import_result_def)
  have cs: "map cell_static (cells s2) = map cell_static (cells s1)" using st(1) by (simp add: same_base_def)
  then have l: "length (cells s2) = length (cells s1)" by (rule map_eq_imp_length_eq)
  have c: "cell_static (cell_of s2 c) = cell_static (cell_of s1 c)" if "c < length (cells s1)" for c
    using cs that l by (metis nth_map)
  then have "db_inst (cell_of s2 c) = db_inst (cell_of s1 c)" if "c < length (cells s1)" for c
    using that cell_static_eqD by blast
  then have "map db_inst (cells s2) = map db_inst (cells s1)" by (intro nth_equalityI) (simp_all add: l)
  then show "map db_inst (cells s2) = placeable_insts (block st)" using imp by simp
  show "padLeft s2 cl = padLeft_inst st (db_inst cl)" "padRight s2 cl = padRight_inst st (db_inst cl)"
    using st(1) importDb_pad_inst [OF assms(2) imp(1)] by (simp_all add: same_base_def) (simp_all add: padLeft_def padRight_def)
  assume k: "c < length (cells s2)" and u: "\<not> swapWidthHeight (i_orient (cell_inst s2 (cell_of s2 c)))"
  have k1: "c < length (cells s1)" using k l by simp
  note e = cell_static_eqD [OF c [OF k1]]
  have i: "cell_orient (cell_of s1 c) = i_orient (cell_inst s1 (cell_of s1 c))"
    "(cell_width (cell_of s1 c), cell_height (cell_of s1 c)) =
      (if swapWidthHeight (cell_orient (cell_of s1 c)) then (m_height (cell_master s1 (cell_of s1 c)), m_width (cell_master s1 (cell_of s1 c)))
       else (m_width (cell_master s1 (cell_of s1 c)), m_height (cell_master s1 (cell_of s1 c))))"
    using imp(4) k1 nth_mem by blast+
  have u1: "\<not> swapWidthHeight (cell_orient (cell_of s1 c))" using u i(1) e b imp(1) by simp
  then have "\<not> swapWidthHeight (cell_orient (cell_of s2 c))" using st(2) k1 by (auto simp: upright_ok_def)
  with i(2) u1 e b imp(1) show "\<not> swapWidthHeight (cell_orient (cell_of s2 c)) \<and> cell_width (cell_of s2 c) = m_width (cell_master s2 (cell_of s2 c))
     \<and> cell_height (cell_of s2 c) = m_height (cell_master s2 (cell_of s2 c))"
    by simp
qed

lemma insts_bound:
  assumes "map db_inst cls = placeable_insts b"
  shows "\<forall>cl \<in> set cls. db_inst cl < length (b_insts b)"
proof
  fix cl assume "cl \<in> set cls"
  then have "db_inst cl \<in> set (placeable_insts b)" unfolding assms [symmetric] by simp
  then show "db_inst cl < length (b_insts b)" by (simp add: placeable_insts_def)
qed

lemma stats_sel [simp]:
  "cells (findDisplacementStats st) = cells st" "block (findDisplacementStats st) = block st"
  "core (findDisplacementStats st) = core st" "writes (findDisplacementStats st) = writes st"
  by (simp_all add: displacement_stats writes_def isFixed_def isStdCell_def fun_eq_iff)

lemma moved_box:
  assumes "std_sort (srt :: nat sorter)" "importDb st = Inr s1"
    and "0 < site_w (last (b_rows (block st)))" "0 < site_h (last (b_rows (block st)))"
    and "detailedPlacement_grid srt rnd (run_start dx dy s1) = Inr s2"
    and m: "masters_ok (block st)" and wf: "design_wf (block st)"
    and c: "c < length (cells s2)" "db_inst (cell_of s2 c) = i" "writes s2 (cell_of s2 c)"
    and u: "\<not> swapWidthHeight (i_orient (inst_of (block st) i))"
  shows "i_bbox (inst_of (block (updateDbInstLocations (findDisplacementStats s2))) i) =
     (let cl = cell_of s2 c; x = xMin (core s2); y = yMin (core s2)
      in Rect (x + cell_x cl) (y + cell_y cl) (x + cell_x cl + cell_width cl) (y + cell_y cl + cell_height cl))"
proof -
  let ?b = "block (updateDbInstLocations (findDisplacementStats s2))"
  note r = run_cells [OF assms(1-5) m]
  have d: "\<forall>cl \<in> set (cells s2). db_inst cl < length (b_insts (block st))" "distinct (map db_inst (cells s2))"
    using insts_bound [OF r(7)] r(7) by (simp_all add: placeable_insts_def)
  have n: "i < length (b_insts (block st))" using d(1) c(1,2) by auto
  have w: "getLocation (inst_of ?b i) = (xMin (core s2) + cell_x (cell_of s2 c), yMin (core s2) + cell_y (cell_of s2 c))"
    "i_orient (inst_of ?b i) = cell_orient (cell_of s2 c)" "inst_wf (master_of ?b i) (inst_of ?b i)"
    "master_of ?b i = master_of (block st) i"
    using writeback_facts [of "findDisplacementStats s2"] d wf c n nth_mem [OF c(1)]
    by (auto simp: r(3) design_wf_def master_of_def)
  have "\<not> swapWidthHeight (cell_orient (cell_of s2 c)) \<and> cell_width (cell_of s2 c) = m_width (master_of (block st) i)
     \<and> cell_height (cell_of s2 c) = m_height (master_of (block st) i)"
    using r(10) [OF c(1)] u c(2) r(3) by simp
  then show ?thesis
    using upright_box [OF w(3)] w masters_okD [OF m n] by (simp add: Let_def)
qed

text \<open>What is known of the cell of a moved instance.\<close>

definition settled :: "Opendp \<Rightarrow> nat \<Rightarrow> nat \<Rightarrow> bool" where
  "settled st c i \<longleftrightarrow> (let cl = cell_of st c in
     c < length (cells st) \<and> db_inst cl = i \<and> writes st cl \<and> movable st c \<and> is_placed cl \<and> aligned st cl
     \<and> 0 \<le> padLeft st cl \<and> 0 \<le> padRight st cl \<and> 0 < cell_width cl \<and> 0 < cell_height cl)"

lemma moved_settled:
  assumes "std_sort (srt :: nat sorter)" "importDb st = Inr s1"
    and "0 < site_w (last (b_rows (block st)))" "0 < site_h (last (b_rows (block st)))"
    and "detailedPlacement_grid srt rnd (run_start dx dy s1) = Inr s2"
    and m: "masters_ok (block st)" and i: "i \<in> moved_insts st"
    and p: "0 \<le> padLeft_inst st i" "0 \<le> padRight_inst st i"
    and u: "\<not> swapWidthHeight (i_orient (inst_of (block st) i))"
  shows "\<exists>c. settled s2 c i"
proof -
  note r = run_cells [OF assms(1-5) m]
  have "i \<in> moved_insts s2" using i by (simp add: moved_insts_def r(3))
  then obtain c where c: "c < length (cells s2)" "db_inst (cell_of s2 c) = i" "writes s2 (cell_of s2 c)" "movable s2 c"
    using moved_cell [of s2 i] r(3,7) by metis
  have q: "is_placed (cell_of s2 c)" using r(2) c(1) by (simp add: all_placed_def)
  then have "owned s2 c" using r(1) c(4) by (simp add: grid_ok_def)
  moreover have "i < length (b_insts (block st))" using i by (auto simp: moved_insts_def placeable_insts_def)
  ultimately have "settled s2 c i"
    using c p q u r(10) [OF c(1)] masters_okD [OF m] by (auto simp: settled_def owned_def Let_def r(3,8,9))
  then show ?thesis ..
qed

lemma unmoved_unwritten:
  assumes "map db_inst (cells s2) = placeable_insts (block st)" "block s2 = block st"
    and "i \<notin> moved_insts st" "cl \<in> set (cells s2)" "db_inst cl = i"
  shows "\<not> writes s2 cl"
proof -
  have "i \<in> set (placeable_insts (block st))" unfolding assms(1) [symmetric] using assms(4,5) by auto
  with assms show ?thesis by (auto simp: moved_insts_def writes_def isFixed_def isStdCell_def)
qed

text \<open>
  C1: after a run of \<open>detailedPlacement\<close> that ends without an error the boxes of any two moved
  instances (placeable, not fixed, of a standard cell master) do not overlap, and every moved
  instance starts on a site and on a row of the core; all other instances are where they were.
  It needs a design whose boxes agree with the transforms, masters with positive sides, paddings
  that are not negative and instances that are not imported on their side.
\<close>

theorem detailedPlacement_no_overlap:
  assumes "std_sort (srt :: nat sorter)" "detailedPlacement srt rnd dx dy st = Inr st'"
    and "0 < site_w (last (b_rows (block st)))" "0 < site_h (last (b_rows (block st)))"
    and "masters_ok (block st)" "design_wf (block st)"
    and "\<forall>i \<in> moved_insts st. 0 \<le> padLeft_inst st i \<and> 0 \<le> padRight_inst st i
           \<and> \<not> swapWidthHeight (i_orient (inst_of (block st) i))"
  shows "(\<forall>i \<in> moved_insts st. \<forall>j \<in> moved_insts st. i \<noteq> j \<longrightarrow>
            \<not> overlaps (i_bbox (inst_of (block st') i)) (i_bbox (inst_of (block st') j)))
     \<and> (\<forall>i \<in> moved_insts st.
            (xMin (i_bbox (inst_of (block st') i)) - xMin (getCoreArea (block st))) mod site_w (last (b_rows (block st))) = 0
          \<and> (yMin (i_bbox (inst_of (block st') i)) - yMin (getCoreArea (block st))) mod site_h (last (b_rows (block st))) = 0)
     \<and> (\<forall>i < length (b_insts (block st)). i \<notin> moved_insts st \<longrightarrow>
            inst_of (block st') i = inst_of (block st) i)"
proof -
  obtain s1 s2 where s: "importDb st = Inr s1" "detailedPlacement_grid srt rnd (run_start dx dy s1) = Inr s2"
    and st': "st' = updateDbInstLocations (findDisplacementStats s2)"
    by (rule detailedPlacement_parts [OF assms(2)])
  note r = run_cells [OF assms(1) s(1) assms(3,4) s(2) assms(5)]
  note bx = moved_box [OF assms(1) s(1) assms(3,4) s(2) assms(5,6), folded st', unfolded Let_def]
  have cell: "\<exists>c. settled s2 c i" if "i \<in> moved_insts st" for i
    using moved_settled [OF assms(1) s(1) assms(3,4) s(2) assms(5) that] assms(7) that by blast
  have g: "0 < site_width s2" "0 < row_height s2" using r(1) by (simp_all add: grid_ok_def)
  show ?thesis
  proof (intro conjI ballI allI impI)
    fix i j assume i: "i \<in> moved_insts st" and j: "j \<in> moved_insts st" and ij: "i \<noteq> j"
    obtain c d where cd: "settled s2 c i" "settled s2 d j" using cell i j by blast
    note c = cd(1) [unfolded settled_def Let_def] and d = cd(2) [unfolded settled_def Let_def]
    have "footprint s2 (cell_of s2 c) \<inter> footprint s2 (cell_of s2 d) = {}"
      using grid_ok_disjoint [OF r(1)] c d ij by blast
    then show "\<not> overlaps (i_bbox (inst_of (block st') i)) (i_bbox (inst_of (block st') j))"
      using outlines_apart [OF g, of "cell_of s2 c" "cell_of s2 d"] c d bx [of c i] bx [of d j] assms(7) i j by simp
  next
    fix i assume i: "i \<in> moved_insts st"
    obtain c where c: "settled s2 c i" using cell i by blast
    show "(xMin (i_bbox (inst_of (block st') i)) - xMin (getCoreArea (block st))) mod site_w (last (b_rows (block st))) = 0"
      "(yMin (i_bbox (inst_of (block st') i)) - yMin (getCoreArea (block st))) mod site_h (last (b_rows (block st))) = 0"
      using c bx [of c i] assms(7) i by (simp_all add: settled_def Let_def aligned_def r(4-6))
  next
    fix i assume i: "i < length (b_insts (block st))" "i \<notin> moved_insts st"
    then have "\<forall>cl \<in> set (cells s2). db_inst cl = i \<longrightarrow> \<not> writes s2 cl"
      using unmoved_unwritten [OF r(7,3)] by blast
    then show "inst_of (block st') i = inst_of (block st) i"
      using writeback_facts [of "findDisplacementStats s2"] insts_bound [OF r(7)] r(7) i(1) assms(6)
      unfolding st' by (simp add: r(3) placeable_insts_def)
  qed
qed

definition demo_two :: Opendp where
  "demo_two = demo_state\<lparr>block := demo_block [demo_row 5]
     [demo_inst ''u1'' 113 203 PS_PLACED, demo_inst ''u2'' 118 204 PS_PLACED]\<rparr>"

lemma demo_two_run:
  "map_sum id (\<lambda>st. map (\<lambda>i. xMin (i_bbox i)) (b_insts (block st))) (detailedPlacement insertion_sort (\<lambda>_. 0) 30 30 demo_two)
     = Inr [110, 130]"
  by code_simp

theorem detailedPlacement_no_overlap_witness:
  "\<exists>st'. detailedPlacement insertion_sort (\<lambda>_. 0) 30 30 demo_two = Inr st'
     \<and> \<not> overlaps (i_bbox (inst_of (block st') 0)) (i_bbox (inst_of (block st') 1))"
proof -
  obtain st' where r: "detailedPlacement insertion_sort (\<lambda>_. 0) 30 30 demo_two = Inr st'"
    using map_sum_Inr [OF demo_two_run] by auto
  have s: "0 < site_w (last (b_rows (block demo_two)))" "0 < site_h (last (b_rows (block demo_two)))"
    by (simp_all add: demo_two_def demo_block_def demo_row_def)
  have m: "masters_ok (block demo_two)" unfolding masters_ok_def by code_simp
  have n: "length (b_insts (block demo_two)) = 2" by code_simp
  have "list_all (\<lambda>i. inst_wf (master_of (block demo_two) i) (inst_of (block demo_two) i)) [0..<2]"
    unfolding inst_wf_def by code_simp
  then have wf: "design_wf (block demo_two)" unfolding design_wf_def n by (simp add: list_all_iff)
  have "placeable_insts (block demo_two) = [0, 1]" "\<not> inst_isFixed (inst_of (block demo_two) 0)"
    "\<not> inst_isFixed (inst_of (block demo_two) 1)" "m_type (master_of (block demo_two) 0) = MT_CORE"
    "m_type (master_of (block demo_two) 1) = MT_CORE"
    by code_simp+
  then have mv: "moved_insts demo_two = {0, 1}" by (auto simp: moved_insts_def)
  have "list_all (\<lambda>i. 0 \<le> padLeft_inst demo_two i \<and> 0 \<le> padRight_inst demo_two i
      \<and> \<not> swapWidthHeight (i_orient (inst_of (block demo_two) i))) [0, 1]"
    by code_simp
  then have "\<forall>i \<in> moved_insts demo_two. 0 \<le> padLeft_inst demo_two i \<and> 0 \<le> padRight_inst demo_two i
      \<and> \<not> swapWidthHeight (i_orient (inst_of (block demo_two) i))"
    by (simp add: mv)
  from detailedPlacement_no_overlap [OF insertion_nat r s m wf this] show ?thesis
    using r by (simp add: mv)
qed

end
