(* ===== verification/Dpl_Filler_Props.thy ===== *)
theory Dpl_Filler_Props
  imports Dpl_Run_Props
begin

section \<open>The fillers tile the free sites\<close>

text \<open>
  \<open>gapFillers\<close> either fills a gap exactly or gives up, and with a filler of one site it never
  gives up. Walking over the rows with such choices covers every free valid site of the grid by
  exactly one filler instance, and no other site.
\<close>

subsection \<open>Choosing the masters\<close>

definition filler_sites :: "dbBlock \<Rightarrow> int \<Rightarrow> nat \<Rightarrow> int" where
  "filler_sites b sw mi = m_width (b_masters b ! mi) sdiv sw"

abbreviation total_sites :: "dbBlock \<Rightarrow> int \<Rightarrow> nat list \<Rightarrow> int" where
  "total_sites b sw fs \<equiv> sum_list (map (filler_sites b sw) fs)"

lemma fill_with_result:
  assumes "0 < fw" "width < gap"
  shows "\<exists>n. (fill_with mi fw gap h fs width = Inr (Filled (fs @ replicate n mi)) \<and> width + int n * fw = gap)
     \<or> (fill_with mi fw gap h fs width = Inr (Unfilled (fs @ replicate n mi) (width + int n * fw))
        \<and> width + int n * fw < gap \<and> (h \<longrightarrow> gap < width + int n * fw + fw))"
  using assms
proof (induction mi fw gap h fs width rule: fill_with.induct)
  case (1 mi fw gap h fs width)
  show ?case
  proof (cases "width + fw \<le> gap \<and> (h \<or> width + fw \<noteq> gap - 1)")
    case step: True
    show ?thesis
    proof (cases "width + fw = gap")
      case True
      then show ?thesis using step by (subst (1 2) fill_with.simps) (auto intro!: exI [of _ 1])
    next
      case False
      then have lt: "width + fw < gap" using step by simp
      from "1.IH" [OF step False _ "1.prems"(1) lt] "1.prems"(1)
      obtain n where n: "(fill_with mi fw gap h (fs @ [mi]) (width + fw) = Inr (Filled ((fs @ [mi]) @ replicate n mi))
            \<and> width + fw + int n * fw = gap)
        \<or> (fill_with mi fw gap h (fs @ [mi]) (width + fw) = Inr (Unfilled ((fs @ [mi]) @ replicate n mi) (width + fw + int n * fw))
            \<and> width + fw + int n * fw < gap \<and> (h \<longrightarrow> gap < width + fw + int n * fw + fw))"
        by auto
      have "fill_with mi fw gap h fs width = fill_with mi fw gap h (fs @ [mi]) (width + fw)"
        using step False "1.prems"(1) by (subst fill_with.simps) simp
      with n show ?thesis by (intro exI [of _ "Suc n"]) (auto simp: algebra_simps)
    qed
  next
    case False
    then show ?thesis using "1.prems" by (subst (1 2) fill_with.simps) (auto intro!: exI [of _ 0])
  qed
qed

lemma fill_gap_Cons:
  "fill_gap b sw gap h (mi # ms) fs width =
     bindE (fill_with mi (filler_sites b sw mi) gap h fs width)
       (\<lambda>r. case r of Filled fs \<Rightarrow> Inr fs | Unfilled fs w \<Rightarrow> fill_gap b sw gap h ms fs w)"
  by (simp add: filler_sites_def)

lemma fill_gap_result:
  assumes "\<forall>mi \<in> set ms. 0 < filler_sites b sw mi" "width < gap" "total_sites b sw fs = width"
  shows "\<exists>fs'. fill_gap b sw gap h ms fs width = Inr fs'
     \<and> (fs' = [] \<or> (total_sites b sw fs' = gap \<and> set fs' \<subseteq> set fs \<union> set ms))
     \<and> (h \<longrightarrow> ms \<noteq> [] \<longrightarrow> filler_sites b sw (last ms) = 1 \<longrightarrow> total_sites b sw fs' = gap)"
  using assms
proof (induction ms arbitrary: fs width)
  case (Cons mi ms)
  let ?fw = "filler_sites b sw mi"
  have fw: "0 < ?fw" using Cons.prems(1) by simp
  have sum: "total_sites b sw (fs @ replicate n mi) = width + int n * ?fw" for n
    using Cons.prems(3) by (simp add: sum_list_replicate)
  from fill_with_result [OF fw Cons.prems(2), of mi h fs] obtain n where
    "(fill_with mi ?fw gap h fs width = Inr (Filled (fs @ replicate n mi)) \<and> width + int n * ?fw = gap)
     \<or> (fill_with mi ?fw gap h fs width = Inr (Unfilled (fs @ replicate n mi) (width + int n * ?fw))
        \<and> width + int n * ?fw < gap \<and> (h \<longrightarrow> gap < width + int n * ?fw + ?fw))"
    by blast
  then show ?case
  proof (elim disjE conjE)
    assume "fill_with mi ?fw gap h fs width = Inr (Filled (fs @ replicate n mi))" "width + int n * ?fw = gap"
    then show ?thesis using sum by (auto simp: fill_gap_Cons simp del: fill_gap.simps)
  next
    assume f: "fill_with mi ?fw gap h fs width = Inr (Unfilled (fs @ replicate n mi) (width + int n * ?fw))"
      and lt: "width + int n * ?fw < gap" and h: "h \<longrightarrow> gap < width + int n * ?fw + ?fw"
    have s: "fill_gap b sw gap h (mi # ms) fs width = fill_gap b sw gap h ms (fs @ replicate n mi) (width + int n * ?fw)"
      using f by (simp add: fill_gap_Cons del: fill_gap.simps)
    obtain fs' where fs': "fill_gap b sw gap h ms (fs @ replicate n mi) (width + int n * ?fw) = Inr fs'"
      "fs' = [] \<or> (total_sites b sw fs' = gap \<and> set fs' \<subseteq> set (fs @ replicate n mi) \<union> set ms)"
      "h \<longrightarrow> ms \<noteq> [] \<longrightarrow> filler_sites b sw (last ms) = 1 \<longrightarrow> total_sites b sw fs' = gap"
      using Cons.IH [OF _ lt sum] Cons.prems(1) by auto
    have "set fs' \<subseteq> set fs \<union> set (mi # ms)" if "fs' \<noteq> []"
      using fs'(2) that by (auto split: if_splits)
    moreover have "ms \<noteq> []" if "h" "filler_sites b sw (last (mi # ms)) = 1"
      using that h lt by (auto split: if_splits)
    ultimately show ?thesis using fs' unfolding s by auto
  qed
qed auto

definition cache_ok :: "dbBlock \<Rightarrow> int \<Rightarrow> nat set \<Rightarrow> nat list list \<Rightarrow> bool" where
  \<comment> \<open>an entry of \<open>gap_fillers_\<close> is empty or fills its gap\<close>
  "cache_ok b sw F cache \<longleftrightarrow>
     (\<forall>g < length cache. cache ! g = [] \<or> (total_sites b sw (cache ! g) = int g \<and> set (cache ! g) \<subseteq> F))"

lemma resize_to_sel:
  "length (resize_to n xss) = max n (length xss)"
  "i < max n (length xss) \<Longrightarrow> resize_to n xss ! i = (if i < length xss then xss ! i else [])"
  by (auto simp: resize_to_def nth_append)

lemma cache_ok_resize: "cache_ok b sw F cache \<Longrightarrow> cache_ok b sw F (resize_to n cache)"
  by (auto simp: cache_ok_def resize_to_sel)

lemma gapFillers_result:
  assumes "0 < gap" "ms \<noteq> []" "\<forall>mi \<in> set ms. 0 < filler_sites (block st) (site_width st) mi"
    and "cache_ok (block st) (site_width st) (set ms) (gap_fillers st)" "0 < site_width st"
  shows "\<exists>fs cache. gapFillers gap ms st = Inr (fs, st\<lparr>gap_fillers := cache\<rparr>)
     \<and> cache_ok (block st) (site_width st) (set ms) cache
     \<and> (fs = [] \<or> (total_sites (block st) (site_width st) fs = gap \<and> set fs \<subseteq> set ms))
     \<and> (m_width (b_masters (block st) ! last ms) = site_width st \<longrightarrow> fs \<noteq> [])"
proof -
  let ?b = "block st" and ?sw = "site_width st" and ?c = "resize_to (nat (gap + 1)) (gap_fillers st)"
  let ?h = "m_width (b_masters ?b ! last ms) = ?sw"
  have c: "cache_ok ?b ?sw (set ms) ?c" "nat gap < length ?c"
    using cache_ok_resize [OF assms(4)] assms(1) by (simp_all add: resize_to_sel)
  show ?thesis
  proof (cases "?c ! nat gap = []")
    case True
    obtain fs where fs: "fill_gap ?b ?sw gap ?h ms [] 0 = Inr fs"
      "fs = [] \<or> (total_sites ?b ?sw fs = gap \<and> set fs \<subseteq> set ms)"
      "?h \<longrightarrow> filler_sites ?b ?sw (last ms) = 1 \<longrightarrow> total_sites ?b ?sw fs = gap"
      using fill_gap_result [OF assms(3,1), of "[]" ?h] assms(2) by auto
    have "filler_sites ?b ?sw (last ms) = 1" if "?h"
      using that assms(5) sdiv_mult_cancel [of ?sw 1] by (simp add: filler_sites_def)
    then have "fs \<noteq> []" if "?h" using that fs(3) assms(1) by auto
    moreover have "cache_ok ?b ?sw (set ms) (?c[nat gap := fs])"
      using c fs(2) assms(1) by (auto simp: cache_ok_def nth_list_update)
    ultimately show ?thesis
      using True assms(2) fs(1,2)
      by (intro exI [of _ fs] exI [of _ "?c[nat gap := fs]"]) (simp add: gapFillers_def Let_def)
  next
    case False
    moreover have "total_sites ?b ?sw (?c ! nat gap) = gap" "set (?c ! nat gap) \<subseteq> set ms"
      using c False assms(1) by (auto simp: cache_ok_def)
    ultimately show ?thesis using c(1) by (auto simp: gapFillers_def Let_def)
  qed
qed

text \<open>
  C17: for masters of at least one site, \<open>gapFillers\<close> always returns. What it chooses for a gap
  fills it exactly with masters of the list, or it is the empty list, which stands for failure;
  with a master of exactly one site at the end of the list it never fails. The cached choices
  stay choices of this kind, so a later call may reuse them. An empty list of masters ends in an
  access out of bounds, and a master narrower than a site in an endless loop.
\<close>

theorem gapFillers_fills:
  assumes "0 < gap" "0 < site_width st"
    and "cache_ok (block st) (site_width st) (set ms) (gap_fillers st)"
  shows "(ms \<noteq> [] \<longrightarrow> (\<forall>mi \<in> set ms. 0 < filler_sites (block st) (site_width st) mi) \<longrightarrow>
       (\<exists>fs cache. gapFillers gap ms st = Inr (fs, st\<lparr>gap_fillers := cache\<rparr>)
          \<and> cache_ok (block st) (site_width st) (set ms) cache
          \<and> (fs = [] \<or> (total_sites (block st) (site_width st) fs = gap \<and> set fs \<subseteq> set ms))
          \<and> (m_width (b_masters (block st) ! last ms) = site_width st \<longrightarrow> fs \<noteq> [])))
     \<and> (ms = [] \<longrightarrow> gapFillers gap ms st = Inl OutOfBounds)
     \<and> (gap_fillers st = [] \<longrightarrow> gap \<noteq> 1 \<longrightarrow> ms \<noteq> [] \<longrightarrow> filler_sites (block st) (site_width st) (hd ms) = 0 \<longrightarrow>
         gapFillers gap ms st = Inl NoReturn)"
proof (intro conjI impI)
  show "\<exists>fs cache. gapFillers gap ms st = Inr (fs, st\<lparr>gap_fillers := cache\<rparr>)
          \<and> cache_ok (block st) (site_width st) (set ms) cache
          \<and> (fs = [] \<or> (total_sites (block st) (site_width st) fs = gap \<and> set fs \<subseteq> set ms))
          \<and> (m_width (b_masters (block st) ! last ms) = site_width st \<longrightarrow> fs \<noteq> [])"
    if "ms \<noteq> []" "\<forall>mi \<in> set ms. 0 < filler_sites (block st) (site_width st) mi"
    using gapFillers_result [OF assms(1) that assms(3,2)] .
next
  assume ms: "ms = []"
  have "resize_to (nat (gap + 1)) (gap_fillers st) ! nat gap = []"
    using cache_ok_resize [OF assms(3), of "nat (gap + 1)"] assms(1) ms
    by (force simp: cache_ok_def resize_to_sel)
  then show "gapFillers gap ms st = Inl OutOfBounds" by (simp add: gapFillers_def ms)
next
  assume a: "gap_fillers st = []" "gap \<noteq> 1" "ms \<noteq> []" "filler_sites (block st) (site_width st) (hd ms) = 0"
  then obtain mi ms' where ms: "ms = mi # ms'" "filler_sites (block st) (site_width st) mi = 0" by (cases ms) auto
  have "fill_with mi 0 gap h [] 0 = Inl NoReturn" for h
    using a(2) assms(1) by (subst fill_with.simps) auto
  then have "fill_gap (block st) (site_width st) gap h ms [] 0 = Inl NoReturn" for h
    unfolding ms(1) fill_gap_Cons ms(2) by simp
  then show "gapFillers gap ms st = Inl NoReturn"
    using a(1,3) assms(1) by (simp add: gapFillers_def resize_to_def Let_def)
qed

theorem gapFillers_fills_witness:
  "\<exists>fs cache. gapFillers 5 [0, 1] demo_grid = Inr (fs, demo_grid\<lparr>gap_fillers := cache\<rparr>)
     \<and> fs \<noteq> [] \<and> total_sites (block demo_grid) 10 fs = 5"
proof -
  have s: "site_width demo_grid = 10" "gap_fillers demo_grid = []"
    by (simp_all add: demo_grid_def demo_state_def)
  have "\<forall>mi \<in> set [0, 1]. 0 < filler_sites (block demo_grid) (site_width demo_grid) mi"
    "m_width (b_masters (block demo_grid) ! last [0, 1]) = site_width demo_grid"
    by code_simp+
  then show ?thesis
    using gapFillers_fills [of 5 demo_grid "[0, 1]"] s by (auto simp: cache_ok_def)
qed

subsection \<open>Covering a row\<close>

text \<open>A filler is given by its master, its row and its first site.\<close>

definition filler_inst :: "Opendp \<Rightarrow> string \<Rightarrow> nat \<times> int \<times> int \<Rightarrow> dbInst" where
  \<comment> \<open>the instance that the placer creates\<close>
  "filler_inst st prefix = (\<lambda>(mi, row, k).
     let m = b_masters (block st) ! mi in
     (setLocation m (xMin (core st) + k * site_width st) (yMin (core st) + row * row_height st)
       (setOrient m (rowOrient st row)
         \<lparr>i_name = filler_name prefix row k, i_master = mi, i_x = 0, i_y = 0, i_orient = R0,
          i_status = PS_NONE, i_source = SRC_NONE, i_bbox = rect_init 0 0 (m_width m) (m_height m),
          i_iterms = replicate (length (m_mterms m)) None\<rparr>))\<lparr>i_status := PS_PLACED, i_source := SRC_DIST\<rparr>)"

definition filler_cover :: "Opendp \<Rightarrow> nat \<times> int \<times> int \<Rightarrow> grid_pt list" where
  \<comment> \<open>the sites under a filler\<close>
  "filler_cover st = (\<lambda>(mi, row, k). map (\<lambda>j. (j, row)) (int_range k (k + filler_sites (block st) (site_width st) mi)))"

definition fillers_added :: "nat set \<Rightarrow> string \<Rightarrow> (nat \<times> int \<times> int) list \<Rightarrow> Opendp \<Rightarrow> Opendp \<Rightarrow> bool" where
  "fillers_added F prefix L st st' \<longleftrightarrow>
     (\<exists>hdrs cache. st' = st\<lparr>block := (block st)\<lparr>b_insts := b_insts (block st) @ map (filler_inst st prefix) L, b_inst_hdrs := hdrs\<rparr>,
          gap_fillers := cache, filler_count := filler_count st + int (length L)\<rparr>
        \<and> cache_ok (block st) (site_width st) F cache)
     \<and> fst ` set L \<subseteq> F
     \<and> (distinct (map i_name (b_insts (block st))) \<longrightarrow> distinct (map i_name (b_insts (block st'))))"

lemma fillers_added_sel:
  assumes "fillers_added F prefix L st st'"
  shows "grid st' = grid st" "core st' = core st" "site_width st' = site_width st" "row_height st' = row_height st"
    "row_site_count st' = row_site_count st" "row_count st' = row_count st"
    "b_masters (block st') = b_masters (block st)" "rowOrient st' = rowOrient st"
    "b_insts (block st') = b_insts (block st) @ map (filler_inst st prefix) L"
    "filler_count st' = filler_count st + int (length L)" "fst ` set L \<subseteq> F"
    "cache_ok (block st) (site_width st) F (gap_fillers st')"
    "distinct (map i_name (b_insts (block st))) \<Longrightarrow> distinct (map i_name (b_insts (block st')))"
  using assms by (auto simp: fillers_added_def rowOrient_def fun_eq_iff)

lemma filler_funs_cong:
  assumes "fillers_added F prefix L st st'"
  shows "filler_inst st' = filler_inst st" "filler_cover st' = filler_cover st" "site_open st' = site_open st"
    "filler_sites (block st') = filler_sites (block st)" "cache_ok (block st') = cache_ok (block st)"
proof -
  note e = fillers_added_sel [OF assms]
  show f: "filler_sites (block st') = filler_sites (block st)" using e by (simp add: filler_sites_def fun_eq_iff)
  show "cache_ok (block st') = cache_ok (block st)" by (simp add: cache_ok_def f fun_eq_iff)
  show "filler_cover st' = filler_cover st" using e f by (simp add: filler_cover_def fun_eq_iff)
  show "filler_inst st' = filler_inst st" using e by (simp add: filler_inst_def fun_eq_iff)
  show "site_open st' = site_open st" using e by (simp add: site_open_def fun_eq_iff)
qed

lemma fillers_added_trans:
  assumes "fillers_added F prefix L st st1" "fillers_added F prefix L' st1 st2"
  shows "fillers_added F prefix (L @ L') st st2"
proof -
  obtain h1 c1 where 1: "st1 = st\<lparr>block := (block st)\<lparr>b_insts := b_insts (block st) @ map (filler_inst st prefix) L, b_inst_hdrs := h1\<rparr>,
          gap_fillers := c1, filler_count := filler_count st + int (length L)\<rparr>"
    using assms(1) by (auto simp: fillers_added_def)
  obtain h2 c2 where 2: "st2 = st1\<lparr>block := (block st1)\<lparr>b_insts := b_insts (block st1) @ map (filler_inst st1 prefix) L', b_inst_hdrs := h2\<rparr>,
          gap_fillers := c2, filler_count := filler_count st1 + int (length L')\<rparr>"
    "cache_ok (block st1) (site_width st1) F c2"
    using assms(2) by (auto simp: fillers_added_def)
  have "st2 = st\<lparr>block := (block st)\<lparr>b_insts := b_insts (block st) @ map (filler_inst st prefix) (L @ L'), b_inst_hdrs := h2\<rparr>,
          gap_fillers := c2, filler_count := filler_count st + int (length (L @ L'))\<rparr>"
    unfolding 2(1) filler_funs_cong(1) [OF assms(1)] by (simp add: 1)
  moreover have "cache_ok (block st) (site_width st) F c2"
    using 2(2) filler_funs_cong(5) [OF assms(1)] fillers_added_sel(3) [OF assms(1)] by simp
  moreover have "fst ` set (L @ L') \<subseteq> F"
    using fillers_added_sel(11) [OF assms(1)] fillers_added_sel(11) [OF assms(2)] by auto
  moreover have "distinct (map i_name (b_insts (block st))) \<longrightarrow> distinct (map i_name (b_insts (block st2)))"
    using fillers_added_sel(13) [OF assms(1)] fillers_added_sel(13) [OF assms(2)] by blast
  ultimately show ?thesis unfolding fillers_added_def by blast
qed

lemma fillers_added_refl: "cache_ok (block st) (site_width st) F (gap_fillers st) \<Longrightarrow> fillers_added F prefix [] st st"
  unfolding fillers_added_def by (intro conjI exI [of _ "b_inst_hdrs (block st)"] exI [of _ "gap_fillers st"]) simp_all

lemma fillers_added_cache:
  "cache_ok (block st) (site_width st) F cache \<Longrightarrow> fillers_added F prefix [] st (st\<lparr>gap_fillers := cache\<rparr>)"
  unfolding fillers_added_def by (intro conjI exI [of _ "b_inst_hdrs (block st)"] exI [of _ cache]) simp_all

lemma place_filler_result:
  assumes "place_filler row prefix mi (k, st) = Inr (k', st')" "cache_ok (block st) (site_width st) F (gap_fillers st)" "mi \<in> F"
  shows "k' = k + filler_sites (block st) (site_width st) mi \<and> fillers_added F prefix [(mi, row, k)] st st'
     \<and> filler_name prefix row k \<notin> i_name ` set (b_insts (block st))"
proof -
  obtain b i where c: "inst_create (block st) mi (filler_name prefix row k) = Some (b, i)"
    using assms(1) by (auto simp: place_filler_def split: option.splits)
  obtain hdrs where b: "b = (block st)\<lparr>b_inst_hdrs := hdrs, b_insts := b_insts (block st) @
        [\<lparr>i_name = filler_name prefix row k, i_master = mi, i_x = 0, i_y = 0, i_orient = R0, i_status = PS_NONE, i_source = SRC_NONE,
          i_bbox = rect_init 0 0 (m_width (b_masters (block st) ! mi)) (m_height (b_masters (block st) ! mi)),
          i_iterms = replicate (length (m_mterms (b_masters (block st) ! mi))) None\<rparr>]\<rparr>"
      "i = length (b_insts (block st))" and n: "filler_name prefix row k \<notin> i_name ` set (b_insts (block st))"
    using c by (rule inst_create_Some)
  have "k' = k + filler_sites (block st) (site_width st) mi"
      "st' = st\<lparr>block := (block st)\<lparr>b_insts := b_insts (block st) @ [filler_inst st prefix (mi, row, k)], b_inst_hdrs := hdrs\<rparr>,
          gap_fillers := gap_fillers st, filler_count := filler_count st + 1\<rparr>"
    using assms(1) c
    by (auto simp: place_filler_def Let_def filler_sites_def filler_inst_def upd_inst_def inst_of_def b)
  moreover have "i_name (filler_inst st prefix (mi, row, k)) = filler_name prefix row k"
    by (simp add: filler_inst_def Let_def)
  ultimately show ?thesis using assms(2,3) n unfolding fillers_added_def by auto
qed

fun positions :: "dbBlock \<Rightarrow> int \<Rightarrow> int \<Rightarrow> int \<Rightarrow> nat list \<Rightarrow> (nat \<times> int \<times> int) list" where
  "positions b sw row k [] = []"
| "positions b sw row k (mi # fs) = (mi, row, k) # positions b sw row (k + filler_sites b sw mi) fs"

lemma int_range_append: "a \<le> b \<Longrightarrow> b \<le> c \<Longrightarrow> int_range a c = int_range a b @ int_range b c"
  using upto_split2 [of a "b - 1" "c - 1"] by (cases "a = b") (auto simp: int_range_def)

lemma positions_cover:
  assumes "\<forall>mi \<in> set fs. 0 < filler_sites (block st) (site_width st) mi"
  shows "concat (map (filler_cover st) (positions (block st) (site_width st) row k fs))
     = map (\<lambda>j. (j, row)) (int_range k (k + total_sites (block st) (site_width st) fs))"
  using assms
proof (induction fs arbitrary: k)
  case (Cons mi fs)
  let ?w = "filler_sites (block st) (site_width st) mi"
  have "0 \<le> total_sites (block st) (site_width st) fs" using Cons.prems by (intro sum_list_nonneg) force
  then have "int_range k (k + total_sites (block st) (site_width st) (mi # fs))
      = int_range k (k + ?w) @ int_range (k + ?w) (k + ?w + total_sites (block st) (site_width st) fs)"
    using Cons.prems by (subst int_range_append [of k "k + ?w"]) (auto simp: algebra_simps)
  then show ?case using Cons by (simp add: filler_cover_def)
qed simp

lemma place_fillers_result:
  assumes "foldE (place_filler row prefix) fs (k, st) = Inr (k', st')" "cache_ok (block st) (site_width st) F (gap_fillers st)"
    and "set fs \<subseteq> F"
  shows "fillers_added F prefix (positions (block st) (site_width st) row k fs) st st'"
  using assms
proof (induction fs arbitrary: k st)
  case (Cons mi fs)
  obtain k1 st1 where p: "place_filler row prefix mi (k, st) = Inr (k1, st1)"
    and r: "foldE (place_filler row prefix) fs (k1, st1) = Inr (k', st')"
    using Cons.prems(1) by (auto simp: bindE_Inr_iff)
  have f: "k1 = k + filler_sites (block st) (site_width st) mi" "fillers_added F prefix [(mi, row, k)] st st1"
    using place_filler_result [OF p Cons.prems(2)] Cons.prems(3) by auto
  have "cache_ok (block st1) (site_width st1) F (gap_fillers st1)"
    using fillers_added_sel(3,12) [OF f(2)] filler_funs_cong(5) [OF f(2)] by simp
  from Cons.IH [OF r this] Cons.prems(3)
  have "fillers_added F prefix (positions (block st1) (site_width st1) row k1 fs) st1 st'" by simp
  moreover have "positions (block st1) (site_width st1) row j fs = positions (block st) (site_width st) row j fs" for j
    using fillers_added_sel(3) [OF f(2)] filler_funs_cong(4) [OF f(2)] by (induction fs arbitrary: j) simp_all
  ultimately show ?case using fillers_added_trans [OF f(2)] f(1) by auto
qed (simp add: fillers_added_refl)

lemma gap_end_open:
  "j \<le> N \<Longrightarrow> N = row_site_count st \<Longrightarrow> j \<le> gap_end st row j \<and> gap_end st row j \<le> N
     \<and> filter (site_open st row) (int_range j N)
       = int_range j (gap_end st row j) @ filter (site_open st row) (int_range (gap_end st row j) N)
     \<and> (j < N \<longrightarrow> site_open st row j \<longrightarrow> j < gap_end st row j)"
proof (induction st row j rule: gap_end.induct)
  case (1 st row j)
  show ?case
  proof (cases "j < N \<and> site_open st row j")
    case True
    then have e: "gap_end st row j = gap_end st row (j + 1)" using "1.prems" by (subst gap_end.simps) simp
    have h: "j + 1 \<le> gap_end st row (j + 1)" "gap_end st row (j + 1) \<le> N"
      "filter (site_open st row) (int_range (j + 1) N)
       = int_range (j + 1) (gap_end st row (j + 1)) @ filter (site_open st row) (int_range (gap_end st row (j + 1)) N)"
      using "1.IH" True "1.prems" by auto
    show ?thesis
      using h True int_range_step [of j N] int_range_step [of j "gap_end st row (j + 1)"] unfolding e by simp
  next
    case False
    then have "gap_end st row j = j" using "1.prems" by (subst gap_end.simps) auto
    then show ?thesis using False "1.prems" by simp
  qed
qed

definition row_sites :: "Opendp \<Rightarrow> int \<Rightarrow> int \<Rightarrow> grid_pt list" where
  "row_sites st row j = map (\<lambda>j. (j, row)) (filter (site_open st row) (int_range j (row_site_count st)))"

lemma row_from_result:
  assumes "placeRowFillers_from row prefix ms j st n = Inr st'" "int n = row_site_count st - j"
    and "\<forall>mi \<in> set ms. 0 < filler_sites (block st) (site_width st) mi" "0 < site_width st"
    and "cache_ok (block st) (site_width st) (set ms) (gap_fillers st)"
  shows "\<exists>L. fillers_added (set ms) prefix L st st' \<and> concat (map (filler_cover st) L) = row_sites st row j"
  using assms
proof (induction row prefix ms j st n rule: placeRowFillers_from.induct)
  case (1 row prefix ms j st)
  then show ?case using fillers_added_refl [of st "set ms"] by (intro exI [of _ "[]"]) (simp add: row_sites_def)
next
  case (2 row prefix ms j st n)
  let ?N = "row_site_count st"
  show ?case
  proof (cases "site_open st row j")
    case False
    have "\<exists>L. fillers_added (set ms) prefix L st st' \<and> concat (map (filler_cover st) L) = row_sites st row (j + 1)"
      using "2.IH"(2) [OF False] "2.prems" False by simp
    moreover have "row_sites st row j = row_sites st row (j + 1)"
      using False "2.prems"(2) int_range_step [of j ?N] by (simp add: row_sites_def)
    ultimately show ?thesis by simp
  next
    case True
    let ?k = "gap_end st row j"
    note g = gap_end_open [of j ?N st row, OF _ refl]
    have k: "j < ?k" "?k \<le> ?N" using g "2.prems"(2) True by auto
    have ne: "ms \<noteq> []"
    proof
      assume "ms = []"
      then have "gapFillers (?k - j) ms st = Inl OutOfBounds"
        using cache_ok_resize [OF "2.prems"(5), of "nat (?k - j + 1)"] k
        by (force simp: gapFillers_def cache_ok_def resize_to_sel Let_def)
      then show False using "2.prems"(1) True by (simp add: Let_def)
    qed
    obtain fs cache where gf: "gapFillers (?k - j) ms st = Inr (fs, st\<lparr>gap_fillers := cache\<rparr>)"
      "cache_ok (block st) (site_width st) (set ms) cache"
      "fs = [] \<or> (total_sites (block st) (site_width st) fs = ?k - j \<and> set fs \<subseteq> set ms)"
      using gapFillers_result [OF _ ne "2.prems"(3,5,4), of "?k - j"] k(1) by auto
    let ?s1 = "st\<lparr>gap_fillers := cache\<rparr>"
    have fs: "fs \<noteq> []" using "2.prems"(1) True gf(1) by (auto simp: Let_def bindE_Inr_iff)
    then obtain k2 s2 where p: "foldE (place_filler row prefix) fs (j, ?s1) = Inr (k2, s2)"
      and r: "placeRowFillers_from row prefix ms (j + (?k - j)) s2 (Suc n - nat (max 1 (?k - j))) = Inr st'"
      using "2.prems"(1) True gf(1) by (auto simp: Let_def bindE_Inr_iff)
    let ?P = "positions (block st) (site_width st) row j fs"
    have "fillers_added (set ms) prefix [] st ?s1" using gf(2) by (rule fillers_added_cache)
    moreover have "fillers_added (set ms) prefix ?P ?s1 s2"
      using place_fillers_result [OF p, of "set ms"] gf(2,3) fs by simp
    ultimately have a: "fillers_added (set ms) prefix ?P st s2" using fillers_added_trans by fastforce
    note e = fillers_added_sel [OF a] and f = filler_funs_cong [OF a]
    have "\<exists>L. fillers_added (set ms) prefix L s2 st' \<and> concat (map (filler_cover s2) L) = row_sites s2 row ?k"
      using "2.IH"(1) [OF True refl refl gf(1) refl fs p refl] r "2.prems"(2-4) e f k by simp
    then obtain L where L: "fillers_added (set ms) prefix L s2 st'" "concat (map (filler_cover st) L) = row_sites st row ?k"
      using e(5) f(2,3) by (auto simp: row_sites_def)
    have "concat (map (filler_cover st) ?P) = map (\<lambda>j. (j, row)) (int_range j ?k)"
      using positions_cover [of fs st row j] gf(3) fs "2.prems"(3) by auto
    then have "concat (map (filler_cover st) (?P @ L)) = row_sites st row j"
      using L(2) g "2.prems"(2) by (simp add: row_sites_def)
    then show ?thesis using fillers_added_trans [OF a L(1)] by blast
  qed
qed

lemma rows_result:
  assumes "foldE (placeRowFillers prefix ms) rows st = Inr st'" "0 \<le> row_site_count st"
    and "\<forall>mi \<in> set ms. 0 < filler_sites (block st) (site_width st) mi" "0 < site_width st"
    and "cache_ok (block st) (site_width st) (set ms) (gap_fillers st)"
  shows "\<exists>L. fillers_added (set ms) prefix L st st'
     \<and> concat (map (filler_cover st) L) = concat (map (\<lambda>row. row_sites st row 0) rows)"
  using assms
proof (induction rows arbitrary: st)
  case Nil
  then show ?case using fillers_added_refl [of st "set ms"] by (intro exI [of _ "[]"]) simp
next
  case (Cons row rows)
  obtain s1 where s1: "placeRowFillers prefix ms row st = Inr s1" "foldE (placeRowFillers prefix ms) rows s1 = Inr st'"
    using Cons.prems(1) by (auto simp: bindE_Inr_iff)
  obtain L1 where L1: "fillers_added (set ms) prefix L1 st s1" "concat (map (filler_cover st) L1) = row_sites st row 0"
    using row_from_result [OF s1(1) [unfolded placeRowFillers_def]] Cons.prems by auto
  note e = fillers_added_sel [OF L1(1)] and f = filler_funs_cong [OF L1(1)]
  obtain L2 where L2: "fillers_added (set ms) prefix L2 s1 st'"
    "concat (map (filler_cover s1) L2) = concat (map (\<lambda>row. row_sites s1 row 0) rows)"
    using Cons.IH [OF s1(2)] Cons.prems e f by auto
  have "row_sites s1 row 0 = row_sites st row 0" for row using e(5) f(3) by (simp add: row_sites_def)
  with L1(2) L2(2) have "concat (map (filler_cover st) (L1 @ L2)) = concat (map (\<lambda>row. row_sites st row 0) (row # rows))"
    unfolding f(2) by simp
  then show ?case using fillers_added_trans [OF L1(1) L2(1)] by blast
qed

text \<open>A filler lies on its sites, if the origin of its master is at the lower left corner.\<close>

lemma filler_inst_box:
  assumes "m = b_masters (block st) ! mi" "m_x m = 0" "m_y m = 0" "0 < m_width m" "0 < m_height m"
  shows "i_bbox (filler_inst st prefix (mi, row, k)) =
     Rect (xMin (core st) + k * site_width st) (yMin (core st) + row * row_height st)
       (xMin (core st) + k * site_width st + m_width m) (yMin (core st) + row * row_height st + m_height m)"
proof -
  let ?x = "xMin (core st) + k * site_width st" and ?y = "yMin (core st) + row * row_height st"
  let ?i = "\<lparr>i_name = filler_name prefix row k, i_master = mi, i_x = 0, i_y = 0, i_orient = R0,
          i_status = PS_NONE, i_source = SRC_NONE, i_bbox = rect_init 0 0 (m_width m) (m_height m),
          i_iterms = replicate (length (m_mterms m)) None\<rparr>"
  have "inst_wf m ?i"
    using assms(2-5) by (simp add: inst_wf_def getPlacementBoundary_eq getTransform_def transform_apply_rect_def
        transform_apply_def rect_init_def rect_ll_def rect_ur_def Let_def)
  then have "inst_wf m (setOrient m (rowOrient st row) ?i)" by (rule setOrient_wf)
  note w = setLocation_wf [OF this, of ?x ?y] getLocation_setLocation [OF this, of ?x ?y]
  have "\<not> swapWidthHeight (i_orient (setLocation m ?x ?y (setOrient m (rowOrient st row) ?i)))"
    by (simp add: rowOrient_def)
  from upright_box [OF w(1) this assms(4,5)] show ?thesis
    unfolding w(2) by (simp add: filler_inst_def assms(1) [symmetric] Let_def)
qed

subsection \<open>All rows\<close>

definition free_sites :: "Opendp \<Rightarrow> grid_pt set" where
  "free_sites st = {p. in_grid st p \<and> pixel_cell (grid st p) = None \<and> is_valid (grid st p)}"

lemma all_row_sites:
  "set (concat (map (\<lambda>row. row_sites st row 0) (int_range 0 (row_count st)))) = free_sites st"
  "distinct (concat (map (\<lambda>row. row_sites st row 0) (int_range 0 (row_count st))))"
proof -
  show "set (concat (map (\<lambda>row. row_sites st row 0) (int_range 0 (row_count st)))) = free_sites st"
    by (auto simp: row_sites_def free_sites_def in_grid_def site_open_def)
  have "distinct (concat (map (\<lambda>row. row_sites st row 0) rows))" if "distinct rows" for rows
    using that by (induction rows) (auto simp: row_sites_def distinct_map inj_on_def)
  then show "distinct (concat (map (\<lambda>row. row_sites st row 0) (int_range 0 (row_count st))))" by simp
qed

lemma setGridCells_grid: "\<exists>g. setGridCells st = st\<lparr>grid := g\<rparr>"
proof -
  have v: "\<exists>g. fold (setGridCell c) ps s = s\<lparr>grid := g\<rparr>" for c ps s
  proof (induction ps arbitrary: s)
    case Nil
    then show ?case by (intro exI [of _ "grid s"]) simp
  next
    case (Cons p ps)
    obtain g where g: "fold (setGridCell c) ps (setGridCell c p s) = (setGridCell c p s)\<lparr>grid := g\<rparr>"
      using Cons by blast
    have "(setGridCell c p s)\<lparr>grid := g\<rparr> = s\<lparr>grid := g\<rparr>" by (simp add: setGridCell_def upd_pixel_def)
    with g show ?case by auto
  qed
  have "\<exists>g. fold (\<lambda>c st. visitCellPixels st (cell_of st c) False (setGridCell c) st) cs s = s\<lparr>grid := g\<rparr>" for cs s
  proof (induction cs arbitrary: s)
    case Nil
    then show ?case by (intro exI [of _ "grid s"]) simp
  next
    case (Cons c cs)
    obtain g where g: "visitCellPixels s (cell_of s c) False (setGridCell c) s = s\<lparr>grid := g\<rparr>"
      using v unfolding visitCellPixels_def by blast
    obtain g' where "fold (\<lambda>c st. visitCellPixels st (cell_of st c) False (setGridCell c) st) cs (s\<lparr>grid := g\<rparr>)
        = (s\<lparr>grid := g\<rparr>)\<lparr>grid := g'\<rparr>" using Cons by blast
    then show ?case using g by auto
  qed
  then show ?thesis by (simp add: setGridCells_def)
qed

text \<open>The state in front of the rows: imported, gridded, the cells drawn in.\<close>

definition filler_start :: "Opendp \<Rightarrow> Opendp result" where
  "filler_start st =
     bindE (if cells st = [] then importDb st else Inr st) (\<lambda>st.
     bindE (initGrid (st\<lparr>gap_fillers := [], filler_count := 0\<rparr>)) (\<lambda>st. Inr (setGridCells st)))"

lemma fillerPlacement_parts:
  assumes "fillerPlacement srt ms prefix st = Inr st'"
  obtains st1 where "filler_start st = Inr st1"
    "foldE (placeRowFillers prefix (srt (\<lambda>a b. m_width (b_masters (block st1) ! a) > m_width (b_masters (block st1) ! b)) ms))
       (int_range 0 (row_count st1)) st1 = Inr st'"
    "gap_fillers st1 = []" "filler_count st1 = 0"
proof -
  obtain s0 where s0: "(if cells st = [] then importDb st else Inr st) = Inr s0"
    using assms by (auto simp: fillerPlacement_def bindE_Inr_iff)
  let ?s = "s0\<lparr>gap_fillers := [], filler_count := 0\<rparr>"
  let ?ms = "srt (\<lambda>a b. m_width (b_masters (block s0) ! a) > m_width (b_masters (block s0) ! b)) ms"
  obtain s1 where s1: "initGrid ?s = Inr s1" "foldE (placeRowFillers prefix ?ms) (int_range 0 (row_count s1)) (setGridCells s1) = Inr st'"
    using assms unfolding fillerPlacement_def s0 by (auto simp: bindE_Inr_iff Let_def)
  obtain g where g: "s1 = ?s\<lparr>grid := g\<rparr>" using s1(1) unfolding initGrid_result by (auto split: if_splits)
  obtain g' where g': "setGridCells s1 = s1\<lparr>grid := g'\<rparr>" using setGridCells_grid by blast
  have "block s1 = block s0" "gap_fillers s1 = []" "filler_count s1 = 0" by (simp_all add: g)
  then have e: "block (setGridCells s1) = block s0" "gap_fillers (setGridCells s1) = []" "filler_count (setGridCells s1) = 0"
    "row_count (setGridCells s1) = row_count s1"
    by (simp_all add: g')
  have "filler_start st = Inr (setGridCells s1)" unfolding filler_start_def s0 by (simp add: s1(1))
  then show ?thesis using that [of "setGridCells s1"] s1(2) e by simp
qed

text \<open>
  C10: a \<open>fillerPlacement\<close> that ends without error appends instances of the given masters to the
  block and changes no other instance. They cover every free valid site of the grid exactly once
  and no other site: their lists of sites, one after the other, are a repetition-free list of
  exactly these sites. Names stay distinct, and the counter is the number of new instances.
\<close>

theorem fillers_tile:
  assumes "std_sort (srt :: nat sorter)" "fillerPlacement srt ms prefix st = Inr st'" "filler_start st = Inr st1"
    and "0 < site_width st1" "0 \<le> row_site_count st1"
    and "\<forall>mi \<in> set ms. 0 < filler_sites (block st1) (site_width st1) mi"
  shows "\<exists>L. b_insts (block st') = b_insts (block st1) @ map (filler_inst st1 prefix) L
     \<and> fst ` set L \<subseteq> set ms \<and> filler_count st' = int (length L)
     \<and> distinct (concat (map (filler_cover st1) L)) \<and> set (concat (map (filler_cover st1) L)) = free_sites st1
     \<and> (distinct (map i_name (b_insts (block st1))) \<longrightarrow> distinct (map i_name (b_insts (block st'))))
     \<and> (\<forall>mi row k m. m = b_masters (block st1) ! mi \<longrightarrow> m_x m = 0 \<longrightarrow> m_y m = 0 \<longrightarrow> 0 < m_width m \<longrightarrow> 0 < m_height m \<longrightarrow>
          i_bbox (filler_inst st1 prefix (mi, row, k)) =
            Rect (xMin (core st1) + k * site_width st1) (yMin (core st1) + row * row_height st1)
              (xMin (core st1) + k * site_width st1 + m_width m) (yMin (core st1) + row * row_height st1 + m_height m))"
proof -
  let ?ms = "srt (\<lambda>a b. m_width (b_masters (block st1) ! a) > m_width (b_masters (block st1) ! b)) ms"
  have f: "foldE (placeRowFillers prefix ?ms) (int_range 0 (row_count st1)) st1 = Inr st'" "gap_fillers st1 = []" "filler_count st1 = 0"
    by (rule fillerPlacement_parts [OF assms(2)], simp add: assms(3))+
  note set = std_sort.set_srt [OF assms(1)]
  obtain L where L: "fillers_added (set ?ms) prefix L st1 st'"
    "concat (map (filler_cover st1) L) = concat (map (\<lambda>row. row_sites st1 row 0) (int_range 0 (row_count st1)))"
    using rows_result [OF f(1) assms(5) _ assms(4)] assms(6) f(2) by (auto simp: set cache_ok_def)
  show ?thesis
    using fillers_added_sel(9-11,13) [OF L(1)] all_row_sites [of st1] f(3)
    by (intro exI [of _ L]) (simp add: L(2) set filler_inst_box)
qed

text \<open>A row of six sites, two of them under a cell: fillers of two and of one site close the gap.\<close>

definition demo_fill :: Opendp where
  "demo_fill = demo_state\<lparr>block := demo_block [demo_row 5] [demo_inst ''u2'' 100 200 PS_FIRM]\<rparr>"

lemma demo_fill_run:
  "map_sum id (\<lambda>st. map (\<lambda>i. (i_name i, xMin (i_bbox i))) (b_insts (block st))) (fillerPlacement insertion_sort [1, 0] ''F_'' demo_fill)
     = Inr [(''u2'', 100), (''F_0_2'', 120), (''F_0_4'', 140)]"
  by code_simp

lemma demo_fill_start:
  "map_sum id (\<lambda>st. (site_width st, row_site_count st, list_all (\<lambda>mi. 0 < filler_sites (block st) (site_width st) mi) [1, 0]))
     (filler_start demo_fill) = Inr (10, 5, True)"
  by code_simp

theorem fillers_tile_witness:
  "\<exists>st1 st' L. filler_start demo_fill = Inr st1 \<and> fillerPlacement insertion_sort [1, 0] ''F_'' demo_fill = Inr st'
     \<and> b_insts (block st') = b_insts (block st1) @ map (filler_inst st1 ''F_'') L
     \<and> set (concat (map (filler_cover st1) L)) = free_sites st1"
proof -
  obtain st' where r: "fillerPlacement insertion_sort [1, 0] ''F_'' demo_fill = Inr st'"
    using map_sum_Inr [OF demo_fill_run] by auto
  obtain st1 where s: "filler_start demo_fill = Inr st1" "site_width st1 = 10" "row_site_count st1 = 5"
    "\<forall>mi \<in> set [1, 0]. 0 < filler_sites (block st1) (site_width st1) mi"
    using map_sum_Inr [OF demo_fill_start] by auto
  have "0 < site_width st1" "0 \<le> row_site_count st1" using s(2,3) by simp_all
  from fillers_tile [OF insertion_nat r s(1) this s(4)] show ?thesis using r s(1) by metis
qed

end
