(* ===== verification/Dpl_Mirror_Props.thy ===== *)
theory Dpl_Mirror_Props
  imports Dpl_State_Props
begin

section \<open>Mirroring\<close>

text \<open>
  What \<open>optimizeMirroring\<close> changes, and what it does to the wire length. The comparison of
  \<open>mirrorCandidates\<close> looks at the nets of one instance, net by net for every terminal; with at
  most one terminal of the instance on a net that is the change of the total.
\<close>

subsection \<open>The wire length as a sum over the nets\<close>

definition inst_nets :: "dbBlock \<Rightarrow> nat \<Rightarrow> nat list" where
  \<comment> \<open>the nets of the terminals of an instance that count for the wire length\<close>
  "inst_nets b i = filter (\<lambda>n. \<not> isSupply (b_nets b ! n)) (List.map_filter id (i_iterms (inst_of b i)))"

definition nets_agree :: "dbBlock \<Rightarrow> bool" where
  \<comment> \<open>the terminals of the nets and the nets of the terminals say the same\<close>
  "nets_agree b \<longleftrightarrow>
     (\<forall>n < length (b_nets b). \<forall>(i, t) \<in> set (n_iterms (b_nets b ! n)).
        i < length (b_insts b) \<and> t < length (i_iterms (inst_of b i)) \<and> i_iterms (inst_of b i) ! t = Some n)
     \<and> (\<forall>i < length (b_insts b). \<forall>n. Some n \<in> set (i_iterms (inst_of b i)) \<longrightarrow> n < length (b_nets b))"

lemma hpwl_block_sum: "hpwl_block b = (\<Sum>n < length (b_nets b). hpwl_net b (b_nets b ! n))"
proof -
  have "fold (\<lambda>net s. s + hpwl_net b net) ns k = k + sum_list (map (hpwl_net b) ns)" for ns k
    by (induction ns arbitrary: k) simp_all
  then have "hpwl_block b = sum_list (map (hpwl_net b) (b_nets b))" by (simp add: hpwl_block_def)
  then show ?thesis by (simp add: sum_list_sum_nth atLeast0LessThan)
qed

lemma hpwl_inst_sum: "hpwl_inst b i = sum_list (map (\<lambda>n. hpwl_net b (b_nets b ! n)) (inst_nets b i))"
proof -
  have "fold (\<lambda>t s. case t of None \<Rightarrow> s | Some n \<Rightarrow> s + hpwl_net b (b_nets b ! n)) ts k
      = k + sum_list (map (\<lambda>n. hpwl_net b (b_nets b ! n)) (filter (\<lambda>n. \<not> isSupply (b_nets b ! n)) (List.map_filter id ts)))"
    for ts k
    by (induction ts arbitrary: k) (auto simp: List.map_filter_def hpwl_net_def split: option.split)
  then show ?thesis by (simp add: hpwl_inst_def inst_nets_def)
qed

lemma upd_inst_sel [simp]:
  "b_nets (upd_inst i f b) = b_nets b" "b_masters (upd_inst i f b) = b_masters b"
  "length (b_insts (upd_inst i f b)) = length (b_insts b)"
  "j \<noteq> i \<Longrightarrow> inst_of (upd_inst i f b) j = inst_of b j"
  "i < length (b_insts b) \<Longrightarrow> inst_of (upd_inst i f b) i = f (inst_of b i)"
  by (simp_all add: upd_inst_def inst_of_def)

lemma iterm_point_other: "i \<noteq> fst it \<Longrightarrow> iterm_point (upd_inst i f b) it = iterm_point b it"
proof -
  assume i: "i \<noteq> fst it"
  then have "getAvgXY (upd_inst i f b) (fst it) (snd it) = getAvgXY b (fst it) (snd it)"
    by (simp add: getAvgXY_def iterm_boxes_def master_of_def)
  with i show ?thesis by (simp add: iterm_point_def split: option.split)
qed

lemma hpwl_net_other:
  assumes "nets_agree b" "n < length (b_nets b)" "n \<notin> set (inst_nets b i)"
  shows "hpwl_net (upd_inst i f b) (b_nets b ! n) = hpwl_net b (b_nets b ! n)"
proof (cases "isSupply (b_nets b ! n)")
  case False
  have "i \<notin> fst ` set (n_iterms (b_nets b ! n))"
  proof
    assume "i \<in> fst ` set (n_iterms (b_nets b ! n))"
    then obtain t where "(i, t) \<in> set (n_iterms (b_nets b ! n))" by auto
    then have "t < length (i_iterms (inst_of b i))" "i_iterms (inst_of b i) ! t = Some n"
      using assms(1,2) by (auto simp: nets_agree_def)
    then have "Some n \<in> set (i_iterms (inst_of b i))" by (metis nth_mem)
    then have "n \<in> set (inst_nets b i)" using False by (force simp: inst_nets_def List.map_filter_def)
    with assms(3) show False by simp
  qed
  then have "map (iterm_point (upd_inst i f b)) (n_iterms (b_nets b ! n)) = map (iterm_point b) (n_iterms (b_nets b ! n))"
    by (intro map_cong refl iterm_point_other) force
  then have "getTermBBox (upd_inst i f b) (b_nets b ! n) = getTermBBox b (b_nets b ! n)"
    unfolding getTermBBox_points by (rule arg_cong)
  then show ?thesis by (simp add: hpwl_net_def)
qed (simp add: hpwl_net_def)

lemma hpwl_change:
  assumes "nets_agree b" "i < length (b_insts b)" "distinct (inst_nets b i)"
    and "i_iterms (f (inst_of b i)) = i_iterms (inst_of b i)"
  shows "hpwl_block (upd_inst i f b) - hpwl_block b = hpwl_inst (upd_inst i f b) i - hpwl_inst b i"
proof -
  let ?b = "upd_inst i f b" and ?N = "set (inst_nets b i)" and ?A = "{..<length (b_nets b)}"
  let ?h = "\<lambda>b' n. hpwl_net b' (b_nets b ! n)"
  have nets: "b_nets ?b = b_nets b" by simp
  have N: "?N \<subseteq> ?A"
    using assms(1,2) by (auto simp: nets_agree_def inst_nets_def List.map_filter_def)
  have same: "sum (?h ?b) (?A - ?N) = sum (?h b) (?A - ?N)"
    using hpwl_net_other [OF assms(1)] by (intro sum.cong) auto
  have "hpwl_block b' = sum (?h b') ?N + sum (?h b') (?A - ?N)" if "b_nets b' = b_nets b" for b'
    using sum.subset_diff [OF N, of "?h b'"] that by (simp add: hpwl_block_sum)
  moreover have "inst_nets ?b i = inst_nets b i"
    using assms(2,4) by (simp add: inst_nets_def)
  moreover have "sum_list (map g (inst_nets b i)) = sum g ?N" for g :: "nat \<Rightarrow> int"
    using assms(3) by (simp add: sum_list_distinct_conv_sum_set)
  ultimately show ?thesis using same nets by (simp add: hpwl_inst_sum)
qed

subsection \<open>Mirroring a set of instances\<close>

lemma orientMirrorY_orientMul: "orientMirrorY a = orientMul a MY"
  by (induction a) code_simp+

definition mirror_image :: "dbBlock \<Rightarrow> nat \<Rightarrow> dbInst" where
  "mirror_image b i = setLocationOrient (master_of b i) (orientMirrorY (i_orient (inst_of b i))) (inst_of b i)"

definition mirror_set :: "nat set \<Rightarrow> dbBlock \<Rightarrow> dbBlock" where
  "mirror_set M b =
     b\<lparr>b_insts := map (\<lambda>i. if i \<in> M then mirror_image b i else inst_of b i) [0..<length (b_insts b)]\<rparr>"

lemma mirror_set_sel [simp]:
  "b_nets (mirror_set M b) = b_nets b" "b_masters (mirror_set M b) = b_masters b"
  "length (b_insts (mirror_set M b)) = length (b_insts b)"
  "i < length (b_insts b) \<Longrightarrow> inst_of (mirror_set M b) i = (if i \<in> M then mirror_image b i else inst_of b i)"
  by (simp_all add: mirror_set_def inst_of_def)

lemma mirror_set_empty [simp]: "mirror_set {} b = b"
  by (simp add: mirror_set_def inst_of_def map_nth)

lemma mirror_image_sel [simp]:
  "i_iterms (mirror_image b i) = i_iterms (inst_of b i)" "i_master (mirror_image b i) = i_master (inst_of b i)"
  "i_status (mirror_image b i) = i_status (inst_of b i)" "i_name (mirror_image b i) = i_name (inst_of b i)"
  by (simp_all add: mirror_image_def)

lemma mirror_set_master [simp]:
  "i < length (b_insts b) \<Longrightarrow> master_of (mirror_set M b) i = master_of b i"
  by (simp add: master_of_def)

lemma mirror_set_insert:
  assumes "i < length (b_insts b)" "i \<notin> M"
  shows "upd_inst i (setLocationOrient (master_of b i) (orientMirrorY (i_orient (inst_of b i)))) (mirror_set M b)
     = mirror_set (insert i M) b"
proof -
  have "(b_insts (mirror_set M b))[i := mirror_image b i] = b_insts (mirror_set (insert i M) b)"
    by (rule nth_equalityI) (use assms in \<open>auto simp: mirror_set_def nth_list_update\<close>)
  then show ?thesis
    using assms by (simp add: upd_inst_def mirror_image_def [symmetric]) (simp add: mirror_set_def)
qed

lemma nets_agree_mirror_set [simp]: "nets_agree (mirror_set M b) = nets_agree b"
  by (auto simp: nets_agree_def split: prod.split) (metis (mono_tags, lifting) mirror_image_sel(1) mirror_set_sel(4) case_prodD)+

lemma inst_nets_mirror_set [simp]: "i < length (b_insts b) \<Longrightarrow> inst_nets (mirror_set M b) i = inst_nets b i"
  by (simp add: inst_nets_def)

lemma design_wf_mirror_set: "design_wf b \<Longrightarrow> design_wf (mirror_set M b)"
  by (simp add: design_wf_def mirror_image_def setLocationOrient_facts)

text \<open>One candidate: mirrored, or put back exactly as it was.\<close>

lemma mirror_inst_result:
  assumes "design_wf b" "i < length (b_insts b)" "i \<notin> M"
  shows "mirror_inst i (k, mirror_set M b) = (k, mirror_set M b)
     \<or> (mirror_inst i (k, mirror_set M b) = (k + 1, mirror_set (insert i M) b)
        \<and> hpwl_inst (mirror_set (insert i M) b) i \<le> hpwl_inst (mirror_set M b) i)"
proof -
  let ?b = "mirror_set M b"
  have wf: "inst_wf (master_of b i) (inst_of b i)" using assms(1,2) by (simp add: design_wf_def)
  have "upd_inst i (setLocationOrient (master_of b i) (i_orient (inst_of b i))) (mirror_set (insert i M) b)
      = ?b"
  proof -
    have "(b_insts (mirror_set (insert i M) b))[i := inst_of b i] = b_insts ?b"
      by (rule nth_equalityI) (use assms(2,3) in \<open>auto simp: mirror_set_def nth_list_update\<close>)
    then show ?thesis
      using assms(2) setLocationOrient_undo [OF wf]
      by (simp add: upd_inst_def mirror_image_def) (simp add: mirror_set_def)
  qed
  then show ?thesis
    using assms(2,3) mirror_set_insert [OF assms(2,3)] by (auto simp: mirror_inst_def Let_def)
qed

lemma mirror_fold:
  assumes "design_wf b" "nets_agree b" "\<forall>i \<in> set cs. i < length (b_insts b)" "distinct cs" "M \<inter> set cs = {}" "finite M"
  shows "\<exists>M'. fold mirror_inst cs (int (card M), mirror_set M b) = (int (card M'), mirror_set M' b)
     \<and> M \<subseteq> M' \<and> M' \<subseteq> M \<union> set cs
     \<and> ((\<forall>i \<in> set cs. distinct (inst_nets b i)) \<longrightarrow> hpwl_block (mirror_set M' b) \<le> hpwl_block (mirror_set M b))"
  using assms(3-)
proof (induction cs arbitrary: M)
  case (Cons i cs)
  have i: "i < length (b_insts b)" "i \<notin> M" using Cons.prems by auto
  from mirror_inst_result [OF assms(1) i, of "int (card M)"] show ?case
  proof (elim disjE)
    assume "mirror_inst i (int (card M), mirror_set M b) = (int (card M), mirror_set M b)"
    then show ?thesis using Cons.IH [of M] Cons.prems by auto
  next
    assume m: "mirror_inst i (int (card M), mirror_set M b) = (int (card M) + 1, mirror_set (insert i M) b)
        \<and> hpwl_inst (mirror_set (insert i M) b) i \<le> hpwl_inst (mirror_set M b) i"
    have "int (card M) + 1 = int (card (insert i M))" using i(2) Cons.prems(4) by simp
    then have st: "mirror_inst i (int (card M), mirror_set M b) = (int (card (insert i M)), mirror_set (insert i M) b)"
      using m by simp
    have "hpwl_block (mirror_set (insert i M) b) \<le> hpwl_block (mirror_set M b)" if "distinct (inst_nets b i)"
      using hpwl_change [of "mirror_set M b" i "setLocationOrient (master_of b i) (orientMirrorY (i_orient (inst_of b i)))"]
        mirror_set_insert [OF i] m that i assms(2) by simp
    moreover obtain M' where "fold mirror_inst cs (int (card (insert i M)), mirror_set (insert i M) b)
        = (int (card M'), mirror_set M' b)" "insert i M \<subseteq> M'" "M' \<subseteq> insert i M \<union> set cs"
        "(\<forall>j \<in> set cs. distinct (inst_nets b j)) \<longrightarrow> hpwl_block (mirror_set M' b) \<le> hpwl_block (mirror_set (insert i M) b)"
      using Cons.IH [of "insert i M"] Cons.prems by auto
    ultimately show ?thesis
      using st by (intro exI [of _ M']) (auto intro: order_trans)
  qed
qed auto

subsection \<open>The candidates\<close>

definition good_candidates :: "dbBlock \<Rightarrow> nat list \<Rightarrow> bool" where
  "good_candidates b cs \<longleftrightarrow> distinct cs
     \<and> (\<forall>i \<in> set cs. i < length (b_insts b) \<and> inst_isCore b i \<and> \<not> inst_isFixed (inst_of b i))"

lemma candidate_step_good:
  "good_candidates b cs \<Longrightarrow> fst it < length (b_insts b) \<Longrightarrow> good_candidates b (candidate_step b box it cs)"
  by (auto simp: good_candidates_def candidate_step_def Let_def split: option.split)

lemma candidate_steps_good:
  assumes "good_candidates b cs" "\<forall>it \<in> set its. fst it < length (b_insts b)"
  shows "good_candidates b (fold (candidate_step b box) its cs)"
  using assms by (induction its arbitrary: cs) (simp_all add: candidate_step_good)

lemma findMirrorCandidates_good:
  assumes "\<forall>nb \<in> set net_boxes. \<forall>it \<in> set (n_iterms (b_nets b ! fst nb)). fst it < length (b_insts b)"
  shows "good_candidates b (findMirrorCandidates b net_boxes)"
proof -
  have "good_candidates b (fold (\<lambda>(n, box) cands. fold (candidate_step b box) (n_iterms (b_nets b ! n)) cands) nbs cs)"
    if "good_candidates b cs" "\<forall>nb \<in> set nbs. \<forall>it \<in> set (n_iterms (b_nets b ! fst nb)). fst it < length (b_insts b)"
    for nbs cs
    using that
  proof (induction nbs arbitrary: cs)
    case (Cons nb nbs)
    have "good_candidates b (fold (candidate_step b (snd nb)) (n_iterms (b_nets b ! fst nb)) cs)"
      using Cons.prems by (intro candidate_steps_good) simp_all
    then show ?case using Cons by (simp add: case_prod_beta)
  qed simp
  from this [of "[]"] assms show ?thesis by (simp add: findMirrorCandidates_def good_candidates_def)
qed

text \<open>
  C11: \<open>optimizeMirroring\<close> mirrors some of the movable core instances about the Y axis, each at
  most once and in its place, and leaves everything else of the design alone; it returns how many
  it mirrored, and the boxes stay in step with the transforms. If no instance has two
  terminals on one net, the total wire length does not grow.
\<close>

theorem mirroring_improves:
  assumes "design_wf b" "nets_agree b" "std_sort (srt :: (nat \<times> Rect) sorter)" "optimizeMirroring srt b = (k, b')"
  shows "\<exists>M \<subseteq> {i. i < length (b_insts b) \<and> inst_isCore b i \<and> \<not> inst_isFixed (inst_of b i)}.
       k = int (card M) \<and> b' = b\<lparr>b_insts := b_insts b'\<rparr> \<and> length (b_insts b') = length (b_insts b)
     \<and> (\<forall>i < length (b_insts b). i \<notin> M \<longrightarrow> inst_of b' i = inst_of b i)
     \<and> (\<forall>i \<in> M. i_orient (inst_of b' i) = orientMul (i_orient (inst_of b i)) MY
          \<and> getLocation (inst_of b' i) = getLocation (inst_of b i)
          \<and> i_master (inst_of b' i) = i_master (inst_of b i) \<and> i_status (inst_of b' i) = i_status (inst_of b i))
     \<and> design_wf b'
     \<and> ((\<forall>i < length (b_insts b). distinct (inst_nets b i)) \<longrightarrow> hpwl_block b' \<le> hpwl_block b)"
proof -
  let ?nbs = "srt (\<lambda>n1 n2. netbox_hpwl (snd n1) > netbox_hpwl (snd n2)) (findNetBoxes b)"
  have "\<forall>nb \<in> set ?nbs. fst nb < length (b_nets b)"
    unfolding std_sort.set_srt [OF assms(3)] by (auto simp: findNetBoxes_def)
  then have good: "good_candidates b (findMirrorCandidates b ?nbs)"
    using assms(2) by (intro findMirrorCandidates_good) (fastforce simp: nets_agree_def)
  then obtain M where M: "fold mirror_inst (findMirrorCandidates b ?nbs) (int (card ({} :: nat set)), mirror_set {} b) = (int (card M), mirror_set M b)"
    "M \<subseteq> {} \<union> set (findMirrorCandidates b ?nbs)"
    "(\<forall>i \<in> set (findMirrorCandidates b ?nbs). distinct (inst_nets b i)) \<longrightarrow> hpwl_block (mirror_set M b) \<le> hpwl_block (mirror_set {} b)"
    using mirror_fold [OF assms(1,2), of "findMirrorCandidates b ?nbs" "{}"] unfolding good_candidates_def by blast
  then have r: "k = int (card M)" "b' = mirror_set M b"
    using assms(4) by (simp_all add: optimizeMirroring_def mirrorCandidates_def Let_def)
  have sub: "M \<subseteq> {i. i < length (b_insts b) \<and> inst_isCore b i \<and> \<not> inst_isFixed (inst_of b i)}"
    using M(2) good by (auto simp: good_candidates_def)
  have "i_orient (mirror_image b i) = orientMul (i_orient (inst_of b i)) MY \<and> getLocation (mirror_image b i) = getLocation (inst_of b i)"
    if "i \<in> M" for i
  proof -
    have "inst_wf (master_of b i) (inst_of b i)" using that sub assms(1) by (auto simp: design_wf_def)
    from setLocationOrient_facts [OF this] show ?thesis
      by (simp add: mirror_image_def orientMirrorY_orientMul)
  qed
  moreover have "b' = b\<lparr>b_insts := b_insts b'\<rparr>" by (simp add: r mirror_set_def)
  moreover have "hpwl_block b' \<le> hpwl_block b" if "\<forall>i < length (b_insts b). distinct (inst_nets b i)"
    using M(3) good that by (auto simp: r good_candidates_def)
  ultimately show ?thesis
    using sub design_wf_mirror_set [OF assms(1), of M] by (intro exI [of _ M]) (auto simp: r)
qed

text \<open>Instances of 20 by 20 with small pins at the bottom, given by their offset.\<close>

definition pin_master :: "int list \<Rightarrow> dbMaster" where
  "pin_master xs =
     \<lparr>m_type = MT_CORE, m_x = 0, m_y = 0, m_width = 20, m_height = 20, m_obstructions = [],
      m_mterms = map (\<lambda>x. \<lparr>mterm_sig = SIG_SIGNAL, mterm_pins = [[Rect x 0 x 0]]\<rparr>) xs\<rparr>"

definition pin_net :: "(nat \<times> nat) list \<Rightarrow> int \<Rightarrow> dbNet" where
  \<comment> \<open>a net with a port at the given place\<close>
  "pin_net its x = \<lparr>n_sig = SIG_SIGNAL, n_special = False, n_iterms = its,
     n_bterms = [[(PS_PLACED, [Rect x 200 x 200])]], n_swires = []\<rparr>"

definition mirror_block :: "dbMaster \<Rightarrow> nat option list \<Rightarrow> dbNet list \<Rightarrow> dbBlock" where
  "mirror_block m its nets =
     \<lparr>b_masters = [m], b_inst_hdrs = [], b_insts = [(demo_inst ''u1'' 100 200 PS_PLACED)\<lparr>i_iterms := its\<rparr>],
      b_rows = [], b_regions = [], b_nets = nets, b_die_area = rect_init 0 0 400 400\<rparr>"

definition pulled_right :: dbBlock where
  "pulled_right = mirror_block (pin_master [4]) [Some 0] [pin_net [(0, 0)] 300]"

lemma pulled_right_run:
  "(fst (optimizeMirroring insertion_sort pulled_right), hpwl_block pulled_right) = (1, 196)"
  by code_simp

theorem mirroring_improves_witness:
  "fst (optimizeMirroring insertion_sort pulled_right) = 1
   \<and> hpwl_block (snd (optimizeMirroring insertion_sort pulled_right)) \<le> 196"
proof -
  have wf: "design_wf pulled_right"
    unfolding design_wf_def inst_wf_def by code_simp
  have ag: "nets_agree pulled_right"
    by (simp add: nets_agree_def pulled_right_def mirror_block_def pin_net_def inst_of_def)
  have "\<forall>i < length (b_insts pulled_right). distinct (inst_nets pulled_right i)"
    by code_simp
  with mirroring_improves [OF wf ag insertion.std_sort_axioms surjective_pairing] pulled_right_run
  show ?thesis by auto
qed

text \<open>
  Without that condition the total may grow. Two terminals of the instance on the net to the
  right count its gain of 12 twice, which pays for the loss of 18 on the net to the left.
\<close>

definition torn_apart :: dbBlock where
  "torn_apart = mirror_block (pin_master [4, 4, 1]) [Some 0, Some 0, Some 1]
     [pin_net [(0, 0), (0, 1)] 300, pin_net [(0, 2)] 0]"

lemma mirroring_lengthens:
  "nets_agree torn_apart \<and> design_wf torn_apart
   \<and> hpwl_block torn_apart = 297 \<and> hpwl_block (snd (optimizeMirroring insertion_sort torn_apart)) = 303"
proof (intro conjI)
  show "nets_agree torn_apart"
    by (auto simp: nets_agree_def torn_apart_def mirror_block_def pin_net_def inst_of_def less_Suc_eq)
  show "design_wf torn_apart" unfolding design_wf_def inst_wf_def by code_simp
qed (code_simp)+

end
