(* ===== verification/Odb_Table.thy ===== *)
theory Odb_Table
  imports Prelude "HOL-Library.Word"
begin

section \<open>Object tables\<close>

text \<open>
  The template \<open>dbTable\<close> of \<open>odb/src/db/dbTable.h\<close> and \<open>dbTable.hpp\<close>: every kind of database
  object is allocated in such a table. A table is a list of pages, a page a list of slots; an
  object is named by its id, the number of the page and the offset in it. A slot holds an object
  (its \<open>_oid\<close> has the bit \<open>DB_ALLOC_BIT\<close>) or is free and then holds the links of the doubly
  linked free list (\<open>_dbFreeObject\<close>). Id 0 is the null id and slot 0 is never used. A pointer to
  an object of the table is its id. Ids, counters and the addresses of pages are natural numbers here and of type
  \<open>uint\<close> in the code, where they wrap around at \<open>2 ^ 32\<close>: the model is the code for tables whose slots, free ones
  included, are less than \<open>2 ^ 32\<close>. The assertions of the code are the fault \<open>Abort\<close>.
\<close>

datatype 'a slot = Free (free_next: nat) (free_prev: nat) | Obj 'a

fun is_obj :: "'a slot \<Rightarrow> bool" where
  \<comment> \<open>\<open>_oid & DB_ALLOC_BIT\<close>\<close>
  "is_obj (Obj a) = True"
| "is_obj (Free n p) = False"

record 'a page =
  objects :: "'a slot list"
  alloccnt :: nat

record 'a dbTable =
  page_mask :: nat
  page_shift :: nat
  top_idx :: nat
  bottom_idx :: nat
  page_tbl_size :: nat
  alloc_cnt :: nat
  free_list :: nat
  pages :: "'a page list"

abbreviation page_cnt :: "'a dbTable \<Rightarrow> nat" where
  "page_cnt t \<equiv> length (pages t)"

definition page_size :: "'a dbTable \<Rightarrow> nat" where
  "page_size t = page_mask t + 1"

definition valid_page :: "'a page \<Rightarrow> bool" where
  "valid_page p \<longleftrightarrow> alloccnt p \<noteq> 0"

definition dbTable_new :: "nat \<Rightarrow> nat \<Rightarrow> 'a dbTable" where
  \<comment> \<open>the constructor; the callers give 128 and 7\<close>
  "dbTable_new sz shift =
     \<lparr>page_mask = sz - 1, page_shift = shift, top_idx = 0, bottom_idx = 0, page_tbl_size = 0,
      alloc_cnt = 0, free_list = 0, pages = []\<rparr>"

subsection \<open>Slots\<close>

definition id_page :: "'a dbTable \<Rightarrow> nat \<Rightarrow> nat" where
  "id_page t oid = drop_bit (page_shift t) oid"

definition id_offset :: "'a dbTable \<Rightarrow> nat \<Rightarrow> nat" where
  "id_offset t oid = and oid (page_mask t)"

definition slot_id :: "'a dbTable \<Rightarrow> nat \<Rightarrow> nat \<Rightarrow> nat" where
  "slot_id t page_id offset = push_bit (page_shift t) page_id + offset"

definition slot_at :: "'a dbTable \<Rightarrow> nat \<Rightarrow> 'a slot" where
  "slot_at t oid = objects (pages t ! id_page t oid) ! id_offset t oid"

definition set_slot :: "nat \<Rightarrow> 'a slot \<Rightarrow> 'a dbTable \<Rightarrow> 'a dbTable" where
  "set_slot oid s t =
     t\<lparr>pages := (pages t)[id_page t oid :=
        (pages t ! id_page t oid)\<lparr>objects := (objects (pages t ! id_page t oid))[id_offset t oid := s]\<rparr>]\<rparr>"

definition getPtr :: "'a dbTable \<Rightarrow> nat \<Rightarrow> 'a result" where
  "getPtr t oid =
     (if oid \<noteq> 0 \<and> id_page t oid < page_cnt t
      then case slot_at t oid of Obj a \<Rightarrow> Inr a | Free n p \<Rightarrow> Inl Abort
      else Inl Abort)"

definition validId :: "'a dbTable \<Rightarrow> nat \<Rightarrow> bool" where
  "validId t oid \<longleftrightarrow> (if oid \<noteq> 0 \<and> id_page t oid < page_cnt t then is_obj (slot_at t oid) else False)"

definition getFreeObj :: "'a dbTable \<Rightarrow> nat \<Rightarrow> (nat \<times> nat) result" where
  \<comment> \<open>the links of a free slot\<close>
  "getFreeObj t oid =
     (if oid \<noteq> 0 \<and> id_page t oid < page_cnt t
      then case slot_at t oid of Free n p \<Rightarrow> Inr (n, p) | Obj a \<Rightarrow> Inl Abort
      else Inl Abort)"

definition update_obj :: "nat \<Rightarrow> ('a \<Rightarrow> 'a) \<Rightarrow> 'a dbTable \<Rightarrow> 'a dbTable" where
  \<comment> \<open>an assignment to a field through a pointer to an object\<close>
  "update_obj oid f t = (case slot_at t oid of Obj a \<Rightarrow> set_slot oid (Obj (f a)) t | Free n p \<Rightarrow> t)"

subsection \<open>The free list\<close>

definition pushQ :: "nat \<Rightarrow> 'a dbTable \<Rightarrow> 'a dbTable result" where
  "pushQ e t =
     (if free_list t = 0 then Inr ((set_slot e (Free 0 0) t)\<lparr>free_list := e\<rparr>)
      else
        let q = free_list t; t = set_slot e (Free q 0) t
        in bindE (getFreeObj t q) (\<lambda>(n, p). Inr ((set_slot q (Free n e) t)\<lparr>free_list := e\<rparr>)))"

definition popQ :: "'a dbTable \<Rightarrow> (nat \<times> 'a dbTable) result" where
  "popQ t =
     (let e = free_list t in
      bindE (getFreeObj t e) (\<lambda>(n, p).
        let t = t\<lparr>free_list := n\<rparr>
        in if n \<noteq> 0 then bindE (getFreeObj t n) (\<lambda>(n', p'). Inr (e, set_slot n (Free n' 0) t))
           else Inr (e, t)))"

definition unlinkQ :: "nat \<Rightarrow> 'a dbTable \<Rightarrow> 'a dbTable result" where
  "unlinkQ e t =
     bindE (getFreeObj t e) (\<lambda>(n, p).
       if e = free_list t then
         (let t = t\<lparr>free_list := n\<rparr>
          in if n \<noteq> 0 then bindE (getFreeObj t n) (\<lambda>(n', p'). Inr (set_slot n (Free n' 0) t))
             else Inr t)
       else
         bindE (if n \<noteq> 0 then bindE (getFreeObj t n) (\<lambda>(n', p'). Inr (set_slot n (Free n' p) t)) else Inr t) (\<lambda>t.
         if p \<noteq> 0 then bindE (getFreeObj t p) (\<lambda>(n', p'). Inr (set_slot p (Free n p') t)) else Inr t))"

subsection \<open>Allocation\<close>

definition newPage :: "'a dbTable \<Rightarrow> 'a dbTable result" where
  "newPage t =
     (let page_id = page_cnt t;
          tbl_size = (if page_tbl_size t = 0 then 1
                      else if page_tbl_size t = page_cnt t then page_tbl_size t * 2
                      else page_tbl_size t);
          t = t\<lparr>page_tbl_size := tbl_size,
                pages := pages t @ [\<lparr>objects = replicate (page_size t) (Free 0 0), alloccnt = 0\<rparr>]\<rparr>;
          offsets = (if page_id = 0 then [1..<page_size t] else [0..<page_size t])
      in foldE (\<lambda>offset. pushQ (slot_id t page_id offset)) (rev offsets) t)"

definition count_alloc :: "(nat \<Rightarrow> nat) \<Rightarrow> nat \<Rightarrow> 'a dbTable \<Rightarrow> 'a dbTable" where
  \<comment> \<open>\<open>_alloccnt\<close> of the page of an object\<close>
  "count_alloc f oid t =
     t\<lparr>pages := (pages t)[id_page t oid :=
        (pages t ! id_page t oid)\<lparr>alloccnt := f (alloccnt (pages t ! id_page t oid))\<rparr>]\<rparr>"

definition dbTable_create :: "'a \<Rightarrow> 'a dbTable \<Rightarrow> (nat \<times> 'a dbTable) result" where
  \<comment> \<open>\<open>create\<close>, and \<open>duplicate\<close>: the new object is the argument\<close>
  "dbTable_create x t =
     (let t = t\<lparr>alloc_cnt := alloc_cnt t + 1\<rparr> in
      bindE (if free_list t = 0 then newPage t else Inr t) (\<lambda>t.
      bindE (popQ t) (\<lambda>(oid, t).
        let t = count_alloc (\<lambda>n. n + 1) oid (set_slot oid (Obj x) t);
            t = (if oid > top_idx t then t\<lparr>top_idx := oid\<rparr> else t);
            t = (if bottom_idx t = 0 \<or> oid < bottom_idx t then t\<lparr>bottom_idx := oid\<rparr> else t)
        in Inr (oid, t))))"

definition first_obj :: "'a page \<Rightarrow> nat list \<Rightarrow> nat option" where
  \<comment> \<open>the first of some offsets with an object\<close>
  "first_obj p offsets = find (\<lambda>i. is_obj (objects p ! i)) offsets"

definition findBottom :: "'a dbTable \<Rightarrow> 'a dbTable result" where
  "findBottom t =
     (if alloc_cnt t = 0 then Inr (t\<lparr>bottom_idx := 0\<rparr>)
      else
        let page_id = id_page t (bottom_idx t) in
        if valid_page (pages t ! page_id) then
          (case first_obj (pages t ! page_id) [id_offset t (bottom_idx t) + 1..<page_size t] of
             Some i \<Rightarrow> Inr (t\<lparr>bottom_idx := slot_id t page_id i\<rparr>)
           | None \<Rightarrow> Inl Abort)
        else
          (case find (\<lambda>p. valid_page (pages t ! p)) [page_id + 1..<page_cnt t] of
             None \<Rightarrow> Inl Abort
           | Some p \<Rightarrow>
               (case first_obj (pages t ! p) [0..<page_size t] of
                  Some i \<Rightarrow> Inr (t\<lparr>bottom_idx := slot_id t p i\<rparr>)
                | None \<Rightarrow> Inl Abort)))"

definition findTop :: "'a dbTable \<Rightarrow> 'a dbTable result" where
  "findTop t =
     (if alloc_cnt t = 0 then Inr (t\<lparr>top_idx := 0\<rparr>)
      else
        let page_id = id_page t (top_idx t) in
        if valid_page (pages t ! page_id) then
          (case first_obj (pages t ! page_id) (rev [0..<id_offset t (top_idx t)]) of
             Some i \<Rightarrow> Inr (t\<lparr>top_idx := slot_id t page_id i\<rparr>)
           | None \<Rightarrow> Inl Abort)
        else
          (case find (\<lambda>p. valid_page (pages t ! p)) (rev [0..<page_id]) of
             None \<Rightarrow> Inl Abort
           | Some p \<Rightarrow>
               (case first_obj (pages t ! p) (rev [0..<page_size t]) of
                  Some i \<Rightarrow> Inr (t\<lparr>top_idx := slot_id t p i\<rparr>)
                | None \<Rightarrow> Inl Abort)))"

definition dbTable_destroy :: "nat \<Rightarrow> 'a dbTable \<Rightarrow> 'a dbTable result" where
  "dbTable_destroy oid t =
     (if oid = 0 \<or> \<not> is_obj (slot_at t oid) then Inl Abort
      else
        let t = count_alloc (\<lambda>n. n - 1) oid (t\<lparr>alloc_cnt := alloc_cnt t - 1\<rparr>);
            t = set_slot oid (Free 0 0) t
        in bindE (pushQ oid t) (\<lambda>t.
           bindE (if oid = bottom_idx t then findBottom t else Inr t) (\<lambda>t.
           if oid = top_idx t then findTop t else Inr t)))"

definition dbTable_clear :: "'a dbTable \<Rightarrow> 'a dbTable" where
  "dbTable_clear t =
     t\<lparr>bottom_idx := 0, top_idx := 0, page_tbl_size := 0, alloc_cnt := 0, free_list := 0, pages := []\<rparr>"

definition copy_page :: "('a \<Rightarrow> 'a) \<Rightarrow> 'a page \<Rightarrow> 'a page" where
  \<comment> \<open>\<open>cp\<close> is the copy constructor of the objects\<close>
  "copy_page cp p =
     \<lparr>objects = map (\<lambda>s. case s of Obj a \<Rightarrow> Obj (cp a) | Free n q \<Rightarrow> Free n q) (objects p),
      alloccnt = alloccnt p\<rparr>"

definition dbTable_copy :: "('a \<Rightarrow> 'a) \<Rightarrow> 'a dbTable \<Rightarrow> 'a dbTable" where
  "dbTable_copy cp t = t\<lparr>pages := map (copy_page cp) (pages t)\<rparr>"

subsection \<open>Iteration\<close>

definition dbTable_begin :: "'a dbTable \<Rightarrow> nat" where
  "dbTable_begin t = bottom_idx t"

function next_obj :: "'a dbTable \<Rightarrow> nat \<Rightarrow> nat \<Rightarrow> nat result" where
  \<comment> \<open>the code from the label \<open>next_obj\<close> on\<close>
  "next_obj t page_id offset =
     (case first_obj (pages t ! page_id) [offset..<page_size t] of
        Some i \<Rightarrow>
          (let n = slot_id t page_id i in if n \<le> top_idx t then Inr n else Inl Abort)
      | None \<Rightarrow>
          (case find (\<lambda>p. valid_page (pages t ! p)) [page_id + 1..<page_cnt t] of
             Some p \<Rightarrow> next_obj t p 0
           | None \<Rightarrow> Inr 0))"
  by pat_completeness auto
termination
  by (relation "measure (\<lambda>(t, page_id, offset). page_cnt t - page_id)") (auto simp: find_Some_iff)

declare next_obj.simps [simp del]

definition dbTable_next :: "'a dbTable \<Rightarrow> nat \<Rightarrow> nat result" where
  "dbTable_next t oid =
     (if oid = 0 then Inl Abort
      else if oid + 1 > top_idx t then Inr 0
      else next_obj t (id_page t (oid + 1)) (id_offset t (oid + 1)))"

definition getObjects :: "'a dbTable \<Rightarrow> nat list" where
  "getObjects t = filter (validId t) [bottom_idx t..<top_idx t + 1]"

definition dbTable_eq :: "('a \<Rightarrow> 'a \<Rightarrow> bool) \<Rightarrow> 'a dbTable \<Rightarrow> 'a dbTable \<Rightarrow> bool result" where
  \<comment> \<open>\<open>operator==\<close>; \<open>eq\<close> compares two objects\<close>
  "dbTable_eq eq lhs rhs =
     (if page_mask lhs \<noteq> page_mask rhs \<or> page_shift lhs \<noteq> page_shift rhs then Inl Abort
      else if page_cnt lhs = 0 \<and> page_cnt rhs = 0 then Inr True
      else if page_cnt lhs \<noteq> page_cnt rhs \<or> bottom_idx lhs \<noteq> bottom_idx rhs
        \<or> top_idx lhs \<noteq> top_idx rhs \<or> alloc_cnt lhs \<noteq> alloc_cnt rhs then Inr False
      else Inr (list_all (\<lambda>i.
        if validId lhs i \<and> validId rhs i
        then (case (slot_at lhs i, slot_at rhs i) of (Obj l, Obj r) \<Rightarrow> eq l r | _ \<Rightarrow> True)
        else \<not> validId lhs i \<and> \<not> validId rhs i) [bottom_idx lhs..<top_idx lhs + 1]))"

end
