(* ===== verification/Odb_Hash.thy ===== *)
theory Odb_Hash
  imports Odb_Table
begin

section \<open>Hash tables of objects\<close>

text \<open>
  The templates \<open>dbHashTable\<close> and \<open>dbIntHashTable\<close> of \<open>odb/src/db/dbHashTable.hpp\<close> and
  \<open>dbIntHashTable.hpp\<close>, which find the objects of a table by name or by number. The two are the
  same code up to the hash function, the field that is hashed (\<open>_name\<close> or \<open>_id\<close>) and its type, so
  the definitions take the hash function and the type of the key as parameters; the instances
  follow. A bucket is a list linked through the field \<open>_next_entry\<close> of the objects. The
  template \<open>dbPagedVector\<close> is a list; an access that its assertion forbids is \<open>Abort\<close>. A loop along
  a bucket that meets more entries than \<open>chain_fuel\<close> does not return.
\<close>

record 'k entry =
  entry_key :: 'k
  next_entry :: nat

record dbHashTable =
  hash_tbl :: "nat list"
  num_entries :: nat

type_synonym ('k, 'b) index = "dbHashTable \<times> ('k, 'b) entry_scheme dbTable"

definition dbHashTable_new :: dbHashTable where
  "dbHashTable_new = \<lparr>hash_tbl = [], num_entries = 0\<rparr>"

definition CHAIN_LENGTH :: nat where
  "CHAIN_LENGTH = 4"

definition bucket :: "('k \<Rightarrow> 32 word) \<Rightarrow> 'k \<Rightarrow> nat \<Rightarrow> nat" where
  "bucket hash k sz = unat (and (hash k) (word_of_nat sz - 1))"

definition chain_fuel :: "'a dbTable \<Rightarrow> nat" where
  "chain_fuel t = 2 * (page_cnt t * page_size t) + 2"

definition set_next :: "nat \<Rightarrow> nat \<Rightarrow> ('k, 'b) entry_scheme dbTable \<Rightarrow> ('k, 'b) entry_scheme dbTable" where
  "set_next oid n t = update_obj oid (\<lambda>entry. entry\<lparr>next_entry := n\<rparr>) t"

subsection \<open>Rehashing\<close>

fun drain_chain :: "nat \<Rightarrow> nat \<Rightarrow> nat \<times> ('k, 'b) entry_scheme dbTable
    \<Rightarrow> (nat \<times> ('k, 'b) entry_scheme dbTable) result" where
  "drain_chain fuel cur (entries, t) =
     (if cur = 0 then Inr (entries, t)
      else case fuel of
        0 \<Rightarrow> Inl NoReturn
      | Suc fuel \<Rightarrow>
          bindE (getPtr t cur) (\<lambda>entry. drain_chain fuel (next_entry entry) (cur, set_next cur entries t)))"

declare drain_chain.simps [simp del]

definition drain :: "nat list \<Rightarrow> ('k, 'b) entry_scheme dbTable \<Rightarrow> (nat \<times> ('k, 'b) entry_scheme dbTable) result" where
  \<comment> \<open>the first loop of \<open>growTable\<close> and \<open>shrinkTable\<close>: one list of all entries\<close>
  "drain tbl t = foldE (\<lambda>cur. drain_chain (chain_fuel t) cur) tbl (0, t)"

definition link_entry :: "('k \<Rightarrow> 32 word) \<Rightarrow> nat \<Rightarrow> nat list \<times> ('k, 'b) entry_scheme dbTable
    \<Rightarrow> (nat list \<times> ('k, 'b) entry_scheme dbTable) result" where
  \<comment> \<open>an entry becomes the first of its bucket\<close>
  "link_entry hash oid = (\<lambda>(tbl, t).
     bindE (getPtr t oid) (\<lambda>entry.
       let hid = bucket hash (entry_key entry) (length tbl) in
       if hid < length tbl then Inr (tbl[hid := oid], set_next oid (tbl ! hid) t) else Inl Abort))"

fun reinsert :: "('k \<Rightarrow> 32 word) \<Rightarrow> nat \<Rightarrow> nat \<Rightarrow> nat list \<times> ('k, 'b) entry_scheme dbTable
    \<Rightarrow> (nat list \<times> ('k, 'b) entry_scheme dbTable) result" where
  "reinsert hash fuel cur (tbl, t) =
     (if cur = 0 then Inr (tbl, t)
      else case fuel of
        0 \<Rightarrow> Inl NoReturn
      | Suc fuel \<Rightarrow>
          bindE (getPtr t cur) (\<lambda>entry.
            bindE (link_entry hash cur (tbl, t)) (reinsert hash fuel (next_entry entry))))"

declare reinsert.simps [simp del]

definition rehash :: "('k \<Rightarrow> 32 word) \<Rightarrow> nat \<Rightarrow> ('k, 'b) index \<Rightarrow> ('k, 'b) index result" where
  \<comment> \<open>what \<open>growTable\<close> and \<open>shrinkTable\<close> have in common; \<open>sz\<close> is the new size\<close>
  "rehash hash sz = (\<lambda>(h, t).
     bindE (drain (hash_tbl h) t) (\<lambda>(entries, t).
     bindE (reinsert hash (chain_fuel t) entries (replicate sz 0, t)) (\<lambda>(tbl, t).
       Inr (h\<lparr>hash_tbl := tbl\<rparr>, t))))"

definition growTable :: "('k \<Rightarrow> 32 word) \<Rightarrow> ('k, 'b) index \<Rightarrow> ('k, 'b) index result" where
  "growTable hash = (\<lambda>(h, t). rehash hash (length (hash_tbl h) + length (hash_tbl h)) (h, t))"

definition shrinkTable :: "('k \<Rightarrow> 32 word) \<Rightarrow> ('k, 'b) index \<Rightarrow> ('k, 'b) index result" where
  "shrinkTable hash = (\<lambda>(h, t). rehash hash (drop_bit 1 (length (hash_tbl h))) (h, t))"

subsection \<open>Operations\<close>

definition hash_insert :: "('k \<Rightarrow> 32 word) \<Rightarrow> nat \<Rightarrow> ('k, 'b) index \<Rightarrow> ('k, 'b) index result" where
  "hash_insert hash oid = (\<lambda>(h, t).
     let h = h\<lparr>num_entries := (num_entries h + 1) mod 2 ^ 32\<rparr>;
         sz = length (hash_tbl h)
     in bindE (if sz = 0 then Inr (h\<lparr>hash_tbl := [0]\<rparr>, t)
               else if num_entries h div sz > CHAIN_LENGTH then growTable hash (h, t)
               else Inr (h, t)) (\<lambda>(h, t).
        bindE (link_entry hash oid (hash_tbl h, t)) (\<lambda>(tbl, t).
          Inr (h\<lparr>hash_tbl := tbl\<rparr>, t))))"

fun find_chain :: "nat \<Rightarrow> 'k \<Rightarrow> nat \<Rightarrow> ('k, 'b) entry_scheme dbTable \<Rightarrow> nat result" where
  "find_chain fuel k cur t =
     (if cur = 0 then Inr 0
      else case fuel of
        0 \<Rightarrow> Inl NoReturn
      | Suc fuel \<Rightarrow>
          bindE (getPtr t cur) (\<lambda>entry.
            if entry_key entry = k then Inr cur else find_chain fuel k (next_entry entry) t))"

declare find_chain.simps [simp del]

definition hash_find :: "('k \<Rightarrow> 32 word) \<Rightarrow> 'k \<Rightarrow> ('k, 'b) index \<Rightarrow> nat result" where
  \<comment> \<open>the id of the object, 0 for the null pointer\<close>
  "hash_find hash k = (\<lambda>(h, t).
     let sz = length (hash_tbl h) in
     if sz = 0 then Inr 0
     else let hid = bucket hash k sz in
          if hid < sz then find_chain (chain_fuel t) k (hash_tbl h ! hid) t else Inl Abort)"

definition hash_hasMember :: "('k \<Rightarrow> 32 word) \<Rightarrow> 'k \<Rightarrow> ('k, 'b) index
    \<Rightarrow> bool result" where
  \<comment> \<open>the loop of \<open>find\<close>; \<open>true\<close> where \<open>find\<close> returns an entry\<close>
  "hash_hasMember hash k s = bindE (hash_find hash k s) (\<lambda>cur. Inr (cur \<noteq> 0))"

definition removed :: "('k \<Rightarrow> 32 word) \<Rightarrow> ('k, 'b) index \<Rightarrow> ('k, 'b) index result" where
  \<comment> \<open>the end of \<open>remove\<close>, once the entry is unlinked\<close>
  "removed hash = (\<lambda>(h, t).
     let num = (num_entries h + (2 ^ 32 - 1)) mod 2 ^ 32;
         h = h\<lparr>num_entries := num\<rparr>;
         sz = length (hash_tbl h);
         r = (num + num div 10) mod 2 ^ 32 div sz
     in if r < drop_bit 1 CHAIN_LENGTH \<and> sz > 1 then shrinkTable hash (h, t) else Inr (h, t))"

fun remove_chain :: "('k \<Rightarrow> 32 word) \<Rightarrow> nat \<Rightarrow> nat \<Rightarrow> nat \<Rightarrow> nat \<Rightarrow> nat
    \<Rightarrow> ('k, 'b) index \<Rightarrow> ('k, 'b) index result" where
  "remove_chain hash oid hid fuel prev cur (h, t) =
     (if cur = 0 then Inr (h, t)
      else case fuel of
        0 \<Rightarrow> Inl NoReturn
      | Suc fuel \<Rightarrow>
          bindE (getPtr t cur) (\<lambda>entry.
            if cur = oid then
              (if prev = 0
               then removed hash (h\<lparr>hash_tbl := (hash_tbl h)[hid := next_entry entry]\<rparr>, t)
               else bindE (getPtr t prev) (\<lambda>p. removed hash (h, set_next prev (next_entry entry) t)))
            else remove_chain hash oid hid fuel cur (next_entry entry) (h, t)))"

declare remove_chain.simps [simp del]

definition hash_remove :: "('k \<Rightarrow> 32 word) \<Rightarrow> nat \<Rightarrow> ('k, 'b) index \<Rightarrow> ('k, 'b) index result" where
  "hash_remove hash oid = (\<lambda>(h, t).
     bindE (getPtr t oid) (\<lambda>object.
       let hid = bucket hash (entry_key object) (length (hash_tbl h)) in
       if hid < length (hash_tbl h)
       then remove_chain hash oid hid (chain_fuel t) 0 (hash_tbl h ! hid) (h, t)
       else Inl Abort))"

subsection \<open>The two instances\<close>

definition char_value :: "char \<Rightarrow> 32 word" where
  \<comment> \<open>\<open>char\<close> is signed\<close>
  "char_value c = (if (of_char c :: int) < 128 then of_char c else of_char c - 256)"

definition hash_string :: "string \<Rightarrow> 32 word" where
  "hash_string str = foldl (\<lambda>hash c. char_value c + push_bit 6 hash + push_bit 16 hash - hash) 0 str"

definition hash_int :: "32 word \<Rightarrow> 32 word" where
  "hash_int oid =
     (let key = oid;
          key = key + not (push_bit 15 key);
          key = xor key (drop_bit 10 key);
          key = key + push_bit 3 key;
          key = xor key (drop_bit 6 key);
          key = key + not (push_bit 11 key);
          key = xor key (drop_bit 16 key)
      in key)"

definition name_insert :: "nat \<Rightarrow> (string, 'b) index \<Rightarrow> (string, 'b) index result" where
  "name_insert = hash_insert hash_string"

definition name_find :: "string \<Rightarrow> (string, 'b) index \<Rightarrow> nat result" where
  "name_find = hash_find hash_string"

definition name_hasMember :: "string \<Rightarrow> (string, 'b) index \<Rightarrow> bool result" where
  "name_hasMember = hash_hasMember hash_string"

definition name_remove :: "nat \<Rightarrow> (string, 'b) index \<Rightarrow> (string, 'b) index result" where
  "name_remove = hash_remove hash_string"

definition id_insert :: "nat \<Rightarrow> (32 word, 'b) index \<Rightarrow> (32 word, 'b) index result" where
  "id_insert = hash_insert hash_int"

definition id_find :: "32 word \<Rightarrow> (32 word, 'b) index \<Rightarrow> nat result" where
  "id_find = hash_find hash_int"

definition id_hasMember :: "32 word \<Rightarrow> (32 word, 'b) index \<Rightarrow> bool result" where
  "id_hasMember = hash_hasMember hash_int"

definition id_remove :: "nat \<Rightarrow> (32 word, 'b) index \<Rightarrow> (32 word, 'b) index result" where
  "id_remove = hash_remove hash_int"

end
