(* ===== verification/Odb_Table_Facts.thy ===== *)
theory Odb_Table_Facts
  imports Odb_Table
begin

section \<open>Slots, pages and free lists\<close>

text \<open>
  The slots of a table as a memory indexed by ids, the ids that hold an object (\<open>ids\<close>), and the
  doubly linked list through the free slots (\<open>dll\<close>).
\<close>

subsection \<open>Ids\<close>

definition cap :: "'a dbTable \<Rightarrow> nat" where
  "cap t = page_cnt t * page_size t"

definition pages_ok :: "'a dbTable \<Rightarrow> bool" where
  "pages_ok t \<longleftrightarrow> 0 < page_shift t \<and> page_mask t = mask (page_shift t)
     \<and> (\<forall>p < page_cnt t. length (objects (pages t ! p)) = page_size t)"

lemma page_size_pow: "pages_ok t \<Longrightarrow> page_size t = 2 ^ page_shift t"
  by (simp add: pages_ok_def page_size_def mask_eq_exp_minus_1)

lemma id_page_div: "pages_ok t \<Longrightarrow> id_page t oid = oid div page_size t"
  by (simp add: id_page_def page_size_pow drop_bit_eq_div)

lemma id_offset_mod: "pages_ok t \<Longrightarrow> id_offset t oid = oid mod page_size t"
  using page_size_pow [of t]
  by (simp add: id_offset_def pages_ok_def take_bit_eq_mask [symmetric] take_bit_eq_mod)

lemma slot_id_mult: "pages_ok t \<Longrightarrow> slot_id t p i = p * page_size t + i"
  by (simp add: slot_id_def page_size_pow push_bit_eq_mult)

lemma page_size_pos: "0 < page_size t"
  by (simp add: page_size_def)

lemma page_size_big: "pages_ok t \<Longrightarrow> 1 < page_size t"
  using page_size_pow [of t] one_less_power [of "2 :: nat" "page_shift t"] by (simp add: pages_ok_def)

lemma slot_id_page [simp]: "pages_ok t \<Longrightarrow> i < page_size t \<Longrightarrow> id_page t (slot_id t p i) = p"
  by (simp add: id_page_div slot_id_mult)

lemma slot_id_offset [simp]: "pages_ok t \<Longrightarrow> i < page_size t \<Longrightarrow> id_offset t (slot_id t p i) = i"
  by (simp add: id_offset_mod slot_id_mult)

lemma slot_id_split: "pages_ok t \<Longrightarrow> slot_id t (id_page t oid) (id_offset t oid) = oid"
  by (simp add: slot_id_mult id_page_div id_offset_mod)

lemma id_offset_less: "pages_ok t \<Longrightarrow> id_offset t oid < page_size t"
  using page_size_pos [of t] by (simp add: id_offset_mod)

lemma in_cap: "pages_ok t \<Longrightarrow> id_page t oid < page_cnt t \<longleftrightarrow> oid < cap t"
  using page_size_pos [of t] by (simp add: id_page_div cap_def div_less_iff_less_mult)

text \<open>Ids are ordered by page and offset.\<close>

lemma id_less_iff:
  assumes "pages_ok t"
  shows "a < b \<longleftrightarrow> id_page t a < id_page t b \<or> (id_page t a = id_page t b \<and> id_offset t a < id_offset t b)"
proof -
  have "a div n < b div n \<or> (a div n = b div n \<and> a mod n < b mod n) \<longleftrightarrow> a < b" for n :: nat
  proof (cases "a div n = b div n")
    case True
    then show ?thesis by (metis div_mult_mod_eq add_less_cancel_left less_irrefl)
  next
    case False
    then show ?thesis by (metis div_le_mono le_neq_implies_less less_imp_le_nat linorder_not_less)
  qed
  then show ?thesis using assms by (simp add: id_page_div id_offset_mod)
qed

subsection \<open>Writing a slot\<close>

lemma set_slot_sel [simp]:
  "page_mask (set_slot e s t) = page_mask t" "page_shift (set_slot e s t) = page_shift t"
  "top_idx (set_slot e s t) = top_idx t" "bottom_idx (set_slot e s t) = bottom_idx t"
  "page_tbl_size (set_slot e s t) = page_tbl_size t" "alloc_cnt (set_slot e s t) = alloc_cnt t"
  "free_list (set_slot e s t) = free_list t" "page_cnt (set_slot e s t) = page_cnt t"
  "page_size (set_slot e s t) = page_size t" "cap (set_slot e s t) = cap t"
  "id_page (set_slot e s t) = id_page t" "id_offset (set_slot e s t) = id_offset t"
  "slot_id (set_slot e s t) = slot_id t"
  by (simp_all add: set_slot_def page_size_def cap_def id_page_def id_offset_def slot_id_def fun_eq_iff)

lemma fields_sel [simp]:
  "slot_at (t\<lparr>free_list := q\<rparr>) = slot_at t" "slot_at (t\<lparr>alloc_cnt := n\<rparr>) = slot_at t"
  "slot_at (t\<lparr>top_idx := n\<rparr>) = slot_at t" "slot_at (t\<lparr>bottom_idx := n\<rparr>) = slot_at t"
  "cap (t\<lparr>free_list := q\<rparr>) = cap t" "cap (t\<lparr>alloc_cnt := n\<rparr>) = cap t"
  "cap (t\<lparr>top_idx := n\<rparr>) = cap t" "cap (t\<lparr>bottom_idx := n\<rparr>) = cap t"
  "pages_ok (t\<lparr>free_list := q\<rparr>) = pages_ok t" "pages_ok (t\<lparr>alloc_cnt := n\<rparr>) = pages_ok t"
  "pages_ok (t\<lparr>top_idx := n\<rparr>) = pages_ok t" "pages_ok (t\<lparr>bottom_idx := n\<rparr>) = pages_ok t"
  "id_page (t\<lparr>free_list := q\<rparr>) = id_page t" "id_page (t\<lparr>alloc_cnt := n\<rparr>) = id_page t"
  "id_page (t\<lparr>top_idx := n\<rparr>) = id_page t" "id_page (t\<lparr>bottom_idx := n\<rparr>) = id_page t"
  "page_size (t\<lparr>free_list := q\<rparr>) = page_size t" "page_size (t\<lparr>alloc_cnt := n\<rparr>) = page_size t"
  "page_size (t\<lparr>top_idx := n\<rparr>) = page_size t" "page_size (t\<lparr>bottom_idx := n\<rparr>) = page_size t"
  by (simp_all add: slot_at_def cap_def page_size_def pages_ok_def id_page_def id_offset_def fun_eq_iff)

lemma pages_set_slot:
  "pages (set_slot e s t) ! k = (if k = id_page t e \<and> k < page_cnt t
     then (pages t ! k)\<lparr>objects := (objects (pages t ! k))[id_offset t e := s]\<rparr> else pages t ! k)"
  by (cases "id_page t e < page_cnt t") (auto simp: set_slot_def nth_list_update list_update_beyond)

lemma set_slot_ok [simp]: "pages_ok t \<Longrightarrow> pages_ok (set_slot e s t)"
  unfolding pages_ok_def by (simp add: pages_set_slot)

lemma slot_at_set_slot:
  assumes "pages_ok t" "e < cap t"
  shows "slot_at (set_slot e s t) j = (if j = e then s else slot_at t j)"
proof -
  have p: "id_page t e < page_cnt t" using assms by (simp add: in_cap)
  then have "length (objects (pages t ! id_page t e)) = page_size t" using assms(1) by (simp add: pages_ok_def)
  then have o: "id_offset t e < length (objects (pages t ! id_page t e))" using assms(1) by (simp add: id_offset_less)
  have "j = e \<longleftrightarrow> id_page t j = id_page t e \<and> id_offset t j = id_offset t e"
    using slot_id_split [OF assms(1)] by metis
  then show ?thesis using o p by (auto simp: slot_at_def pages_set_slot)
qed

lemma alloccnt_set_slot [simp]: "alloccnt (pages (set_slot e s t) ! k) = alloccnt (pages t ! k)"
  by (simp add: pages_set_slot)

subsection \<open>The free list\<close>

text \<open>\<open>dll m p q xs\<close>: from \<open>q\<close> on, the links of the slots run through \<open>xs\<close>; \<open>p\<close> is the one before.\<close>

fun dll :: "(nat \<Rightarrow> 'a slot) \<Rightarrow> nat \<Rightarrow> nat \<Rightarrow> nat list \<Rightarrow> bool" where
  "dll m p q [] \<longleftrightarrow> q = 0"
| "dll m p q (x # xs) \<longleftrightarrow> q = x \<and> x \<noteq> 0 \<and> (\<exists>n. m x = Free n p \<and> dll m x n xs)"

lemma dll_cong: "(\<And>x. x \<in> set xs \<Longrightarrow> m x = m' x) \<Longrightarrow> dll m p q xs = dll m' p q xs"
  by (induction xs arbitrary: p q) simp_all

lemma dll_0: "dll m p 0 xs \<longleftrightarrow> xs = []"
  by (cases xs) auto

lemma dll_head: "dll m p q xs \<Longrightarrow> q \<noteq> 0 \<Longrightarrow> \<exists>n ys. xs = q # ys \<and> m q = Free n p \<and> dll m q n ys"
  by (cases xs) auto

definition frame :: "'a dbTable \<Rightarrow> 'a dbTable \<Rightarrow> bool" where
  \<comment> \<open>everything but the contents of the slots and the head of the free list\<close>
  "frame t t' \<longleftrightarrow> page_mask t' = page_mask t \<and> page_shift t' = page_shift t \<and> top_idx t' = top_idx t
     \<and> bottom_idx t' = bottom_idx t \<and> page_tbl_size t' = page_tbl_size t \<and> alloc_cnt t' = alloc_cnt t
     \<and> page_cnt t' = page_cnt t \<and> (pages_ok t \<longrightarrow> pages_ok t')
     \<and> (\<forall>k < page_cnt t. alloccnt (pages t' ! k) = alloccnt (pages t ! k))"

lemma frame_refl: "frame t t"
  by (simp add: frame_def)

lemma frame_trans: "frame t t' \<Longrightarrow> frame t' t'' \<Longrightarrow> frame t t''"
  by (simp add: frame_def)

lemma frame_set: "frame t t' \<Longrightarrow> frame t (set_slot e s t')"
  by (auto simp: frame_def)

lemma frame_free_list: "frame t t' \<Longrightarrow> frame t (t'\<lparr>free_list := q\<rparr>)"
  by (simp add: frame_def)

lemma frame_sel:
  assumes "frame t t'"
  shows "page_size t' = page_size t" "cap t' = cap t" "id_page t' = id_page t" "id_offset t' = id_offset t"
    "slot_id t' = slot_id t" "pages_ok t \<Longrightarrow> pages_ok t'" "page_cnt t' = page_cnt t" "alloc_cnt t' = alloc_cnt t"
    "top_idx t' = top_idx t" "bottom_idx t' = bottom_idx t" "page_tbl_size t' = page_tbl_size t"
  using assms by (simp_all add: frame_def page_size_def cap_def id_page_def id_offset_def slot_id_def fun_eq_iff)

lemma getFreeObj_eq:
  assumes "pages_ok t" "oid \<noteq> 0" "oid < cap t" "slot_at t oid = Free n p"
  shows "getFreeObj t oid = Inr (n, p)"
  using assms in_cap [OF assms(1)] by (simp add: getFreeObj_def)

text \<open>Pushing a slot puts it in front of the list and touches no slot outside of the list.\<close>

lemma pushQ_dll:
  assumes "pages_ok t" "dll (slot_at t) 0 (free_list t) fl" "\<forall>x \<in> set fl. x < cap t"
    and "e \<noteq> 0" "e < cap t" "e \<notin> set fl" "distinct fl"
  shows "\<exists>t'. pushQ e t = Inr t' \<and> frame t t' \<and> dll (slot_at t') 0 (free_list t') (e # fl)
     \<and> (\<forall>j. j \<notin> set (e # fl) \<longrightarrow> slot_at t' j = slot_at t j)"
proof (cases "free_list t = 0")
  case True
  then have "fl = []" using assms(2) by (simp add: dll_0)
  moreover have "frame t ((set_slot e (Free 0 0) t)\<lparr>free_list := e\<rparr>)" by (intro frame_free_list frame_set frame_refl)
  ultimately show ?thesis
    using assms True slot_at_set_slot [OF assms(1,5)] by (simp add: pushQ_def)
next
  case False
  then obtain n ys where fl: "fl = free_list t # ys" "slot_at t (free_list t) = Free n 0" "dll (slot_at t) (free_list t) n ys"
    using dll_head [OF assms(2)] by auto
  let ?q = "free_list t" let ?t1 = "set_slot e (Free ?q 0) t" let ?t2 = "set_slot ?q (Free n e) ?t1"
  have q: "?q < cap t" "?q \<noteq> e" using assms(3,6) fl(1) by auto
  note s1 = slot_at_set_slot [OF assms(1,5)]
  have s2: "slot_at ?t2 j = (if j = ?q then Free n e else slot_at ?t1 j)" for j
    using assms(1) q(1) by (intro slot_at_set_slot) simp_all
  have g: "getFreeObj ?t1 ?q = Inr (n, 0)"
    using assms(1) q False fl(2) by (intro getFreeObj_eq) (simp_all add: s1)
  have "dll (slot_at ?t2) ?q n ys = dll (slot_at t) ?q n ys"
    using fl(1) assms(6,7) by (intro dll_cong) (auto simp: s2 s1)
  then have "dll (slot_at ?t2) 0 e (e # fl)" using fl assms(4) q False by (simp add: s2 s1)
  moreover have "frame t (?t2\<lparr>free_list := e\<rparr>)" by (intro frame_free_list frame_set frame_refl)
  ultimately show ?thesis using False g fl(1) by (auto simp: pushQ_def Let_def s2 s1)
qed

lemma pushes_dll:
  assumes "pages_ok t" "dll (slot_at t) 0 (free_list t) fl" "\<forall>x \<in> set (es @ fl). x < cap t \<and> x \<noteq> 0" "distinct (es @ fl)"
  shows "\<exists>t'. foldE pushQ es t = Inr t' \<and> frame t t' \<and> dll (slot_at t') 0 (free_list t') (rev es @ fl)
     \<and> (\<forall>j. j \<notin> set (es @ fl) \<longrightarrow> slot_at t' j = slot_at t j)"
  using assms
proof (induction es arbitrary: t fl)
  case (Cons e es)
  obtain t1 where t1: "pushQ e t = Inr t1" "frame t t1" "dll (slot_at t1) 0 (free_list t1) (e # fl)"
    "\<forall>j. j \<notin> set (e # fl) \<longrightarrow> slot_at t1 j = slot_at t j"
    using pushQ_dll [OF Cons.prems(1,2), of e] Cons.prems(3,4) by auto
  obtain t2 where t2: "foldE pushQ es t1 = Inr t2" "frame t1 t2" "dll (slot_at t2) 0 (free_list t2) (rev es @ (e # fl))"
    "\<forall>j. j \<notin> set (es @ (e # fl)) \<longrightarrow> slot_at t2 j = slot_at t1 j"
    using Cons.IH [OF _ t1(3)] Cons.prems frame_sel(2,6) [OF t1(2)] by auto
  show ?case using t1 t2 frame_trans [OF t1(2) t2(2)] by auto
qed (simp add: frame_refl)

text \<open>Popping takes the first slot off.\<close>

lemma popQ_dll:
  assumes "pages_ok t" "dll (slot_at t) 0 (free_list t) (e # fl)" "\<forall>x \<in> set (e # fl). x < cap t" "distinct (e # fl)"
  shows "\<exists>t'. popQ t = Inr (e, t') \<and> frame t t' \<and> dll (slot_at t') 0 (free_list t') fl
     \<and> (\<forall>j. j \<notin> set fl \<longrightarrow> slot_at t' j = slot_at t j)"
proof -
  obtain n where e: "free_list t = e" "e \<noteq> 0" "slot_at t e = Free n 0" "dll (slot_at t) e n fl"
    using assms(2) by auto
  have g: "getFreeObj t e = Inr (n, 0)" using assms(1,3) e by (intro getFreeObj_eq) simp_all
  show ?thesis
  proof (cases "n = 0")
    case True
    then have "fl = []" using e(4) by (simp add: dll_0)
    then show ?thesis using e g True by (simp add: popQ_def Let_def frame_free_list frame_refl)
  next
    case False
    then obtain n' ys where fl: "fl = n # ys" "slot_at t n = Free n' e" "dll (slot_at t) n n' ys"
      using dll_head [OF e(4)] by auto
    let ?t1 = "t\<lparr>free_list := n\<rparr>" let ?t2 = "set_slot n (Free n' 0) ?t1"
    have n: "n < cap t" using assms(3) fl(1) by simp
    have s: "slot_at ?t2 j = (if j = n then Free n' 0 else slot_at t j)" for j
      using slot_at_set_slot [of ?t1 n] assms(1) n by simp
    have g': "getFreeObj ?t1 n = Inr (n', e)" using assms(1) n False fl(2) by (intro getFreeObj_eq) simp_all
    have "dll (slot_at ?t2) n n' ys = dll (slot_at t) n n' ys"
      using fl(1) assms(4) by (intro dll_cong) (auto simp: s)
    then have "dll (slot_at ?t2) 0 n fl" using fl False by (simp add: s)
    moreover have "frame t ?t2" by (intro frame_set frame_free_list frame_refl)
    ultimately show ?thesis using e(1) g g' False fl(1) by (auto simp: popQ_def Let_def s)
  qed
qed

end
