(* ===== verification/Odb_Table_Ops.thy ===== *)
theory Odb_Table_Ops
  imports Odb_Table_Facts
begin

section \<open>Allocation in object tables\<close>

subsection \<open>The invariant\<close>

definition ids :: "'a dbTable \<Rightarrow> nat set" where
  \<comment> \<open>the ids of the objects\<close>
  "ids t = {oid. 0 < oid \<and> oid < cap t \<and> is_obj (slot_at t oid)}"

definition slots_ok :: "'a dbTable \<Rightarrow> bool" where
  \<comment> \<open>the free list holds exactly the free slots other than slot 0\<close>
  "slots_ok t \<longleftrightarrow> pages_ok t \<and> page_cnt t \<le> page_tbl_size t \<and> (0 < cap t \<longrightarrow> \<not> is_obj (slot_at t 0))
     \<and> (\<exists>fl. dll (slot_at t) 0 (free_list t) fl \<and> distinct fl \<and> set fl = {1..<cap t} - ids t)"

definition counts_ok :: "'a dbTable \<Rightarrow> bool" where
  "counts_ok t \<longleftrightarrow> alloc_cnt t = card (ids t)
     \<and> (\<forall>k < page_cnt t. alloccnt (pages t ! k) = card {j \<in> ids t. id_page t j = k})"

definition table_ok :: "'a dbTable \<Rightarrow> bool" where
  "table_ok t \<longleftrightarrow> slots_ok t \<and> counts_ok t
     \<and> top_idx t = (if ids t = {} then 0 else Max (ids t)) \<and> bottom_idx t = (if ids t = {} then 0 else Min (ids t))"

lemma finite_ids [simp]: "finite (ids t)"
  by (rule finite_subset [of _ "{..<cap t}"]) (auto simp: ids_def)

lemma ids_pos: "oid \<in> ids t \<Longrightarrow> 0 < oid"
  by (simp add: ids_def)

lemma ids_fields [simp]:
  "ids (t\<lparr>free_list := q\<rparr>) = ids t" "ids (t\<lparr>alloc_cnt := n\<rparr>) = ids t"
  "ids (t\<lparr>top_idx := n\<rparr>) = ids t" "ids (t\<lparr>bottom_idx := n\<rparr>) = ids t"
  by (simp_all add: ids_def)

lemma validId_ids: "pages_ok t \<Longrightarrow> validId t oid \<longleftrightarrow> oid \<in> ids t"
  by (auto simp: validId_def ids_def in_cap)

lemma is_obj_slot:
  assumes "pages_ok t" "i < page_size t"
  shows "is_obj (objects (pages t ! p) ! i) \<longleftrightarrow> is_obj (slot_at t (slot_id t p i))"
  using assms by (simp add: slot_at_def)

lemma slot_id_cap: "pages_ok t \<Longrightarrow> p < page_cnt t \<Longrightarrow> i < page_size t \<Longrightarrow> slot_id t p i < cap t"
  using in_cap [of t "slot_id t p i"] by simp

lemma slot_obj_ids:
  assumes "pages_ok t" "p < page_cnt t" "i < page_size t" "0 < cap t \<longrightarrow> \<not> is_obj (slot_at t 0)"
  shows "is_obj (objects (pages t ! p) ! i) \<longleftrightarrow> slot_id t p i \<in> ids t"
proof -
  note c = slot_id_cap [OF assms(1-3)]
  show ?thesis
    unfolding is_obj_slot [OF assms(1,3)] using c assms(4) by (cases "slot_id t p i = 0") (auto simp: ids_def)
qed

lemma count_alloc_sel [simp]:
  "page_mask (count_alloc f e t) = page_mask t" "page_shift (count_alloc f e t) = page_shift t"
  "top_idx (count_alloc f e t) = top_idx t" "bottom_idx (count_alloc f e t) = bottom_idx t"
  "page_tbl_size (count_alloc f e t) = page_tbl_size t" "alloc_cnt (count_alloc f e t) = alloc_cnt t"
  "free_list (count_alloc f e t) = free_list t" "page_cnt (count_alloc f e t) = page_cnt t"
  "cap (count_alloc f e t) = cap t" "page_size (count_alloc f e t) = page_size t"
  "id_page (count_alloc f e t) = id_page t" "id_offset (count_alloc f e t) = id_offset t"
  by (simp_all add: count_alloc_def cap_def page_size_def id_page_def id_offset_def fun_eq_iff)

lemma pages_count_alloc:
  "pages (count_alloc f e t) ! k = (if k = id_page t e \<and> k < page_cnt t
     then (pages t ! k)\<lparr>alloccnt := f (alloccnt (pages t ! k))\<rparr> else pages t ! k)"
  by (cases "id_page t e < page_cnt t") (auto simp: count_alloc_def nth_list_update list_update_beyond)

lemma count_alloc_slots [simp]:
  "slot_at (count_alloc f e t) = slot_at t" "ids (count_alloc f e t) = ids t"
  "pages_ok (count_alloc f e t) = pages_ok t"
proof -
  show s: "slot_at (count_alloc f e t) = slot_at t" by (simp add: slot_at_def pages_count_alloc fun_eq_iff)
  then show "ids (count_alloc f e t) = ids t" by (simp add: ids_def)
  show "pages_ok (count_alloc f e t) = pages_ok t" by (auto simp: pages_ok_def pages_count_alloc)
qed

subsection \<open>Finding the ends again\<close>

lemma find_upt:
  assumes "a \<le> i" "i < c" "P i" "\<And>k. a \<le> k \<Longrightarrow> k < i \<Longrightarrow> \<not> P k"
  shows "find P [a..<c] = Some i"
  unfolding find_Some_iff using assms by (intro exI [of _ "i - a"]) auto

lemma find_rev_upt:
  assumes "a \<le> i" "i < c" "P i" "\<And>k. i < k \<Longrightarrow> k < c \<Longrightarrow> \<not> P k"
  shows "find P (rev [a..<c]) = Some i"
  unfolding find_Some_iff using assms by (intro exI [of _ "c - 1 - i"]) (auto simp: rev_nth)

lemma valid_page_iff:
  assumes "counts_ok t" "p < page_cnt t"
  shows "valid_page (pages t ! p) \<longleftrightarrow> (\<exists>j \<in> ids t. id_page t j = p)"
  using assms by (auto simp: counts_ok_def valid_page_def card_gt_0_iff)

lemma findBottom_result:
  assumes "pages_ok t" "counts_ok t" "0 < cap t \<longrightarrow> \<not> is_obj (slot_at t 0)"
    and "\<forall>j \<in> ids t. bottom_idx t < j"
  shows "findBottom t = Inr (t\<lparr>bottom_idx := if ids t = {} then 0 else Min (ids t)\<rparr>)"
proof (cases "ids t = {}")
  case True
  then show ?thesis using assms(2) by (simp add: findBottom_def counts_ok_def)
next
  case False
  let ?m = "Min (ids t)" and ?pg = "id_page t (bottom_idx t)" and ?b = "bottom_idx t"
  have m: "?m \<in> ids t" "\<And>j. j \<in> ids t \<Longrightarrow> ?m \<le> j" using False by simp_all
  then have bm: "?b < ?m" using assms(4) by simp
  have "?m < cap t" using m(1) by (simp add: ids_def)
  then have pm: "id_page t ?m < page_cnt t" using assms(1) by (simp add: in_cap)
  have om: "id_offset t ?m < page_size t" by (rule id_offset_less [OF assms(1)])
  note less = id_less_iff [OF assms(1)]
  have no: "\<not> is_obj (objects (pages t ! p) ! k)"
    if "p < page_cnt t" "k < page_size t" "p < id_page t ?m \<or> (p = id_page t ?m \<and> k < id_offset t ?m)" for p k
  proof -
    have "slot_id t p k < ?m" unfolding less [of "slot_id t p k" ?m] using that assms(1) by auto
    then have "slot_id t p k \<notin> ids t" using m(2) by (meson linorder_not_less)
    then show ?thesis using slot_obj_ids [OF assms(1) that(1,2) assms(3)] by simp
  qed
  have yes: "is_obj (objects (pages t ! id_page t ?m) ! id_offset t ?m)"
    using slot_obj_ids [OF assms(1) pm om assms(3)] m(1) by (simp add: slot_id_split assms(1))
  have le: "?pg \<le> id_page t ?m" using bm less [of ?b ?m] by auto
  have n: "alloc_cnt t \<noteq> 0" using assms(2) False by (simp add: counts_ok_def)
  show ?thesis
  proof (cases "valid_page (pages t ! ?pg)")
    case True
    then obtain j where "j \<in> ids t" "id_page t j = ?pg" using valid_page_iff [OF assms(2), of ?pg] le pm by auto
    then have pg: "id_page t ?m = ?pg" using m(2) [of j] le less [of j ?m] by (metis le_antisym linorder_not_less nat_neq_iff)
    have "first_obj (pages t ! ?pg) [id_offset t ?b + 1..<page_size t] = Some (id_offset t ?m)"
      unfolding first_obj_def
      using bm less [of ?b ?m] pg yes no pm om by (intro find_upt) auto
    then show ?thesis using True False n pg slot_id_split [OF assms(1), of ?m] by (simp add: findBottom_def Let_def)
  next
    case inv: False
    have ne: "?pg \<noteq> id_page t ?m" using inv valid_page_iff [OF assms(2), of ?pg] m(1) pm by auto
    have "find (\<lambda>p. valid_page (pages t ! p)) [?pg + 1..<page_cnt t] = Some (id_page t ?m)"
    proof (rule find_upt)
      show "valid_page (pages t ! id_page t ?m)" using valid_page_iff [OF assms(2) pm] m(1) by auto
      fix k assume k: "?pg + 1 \<le> k" "k < id_page t ?m"
      have "id_page t j \<noteq> k" if "j \<in> ids t" for j
        using m(2) [OF that] less [of j ?m] k(2) by (meson linorder_not_less)
      then show "\<not> valid_page (pages t ! k)" using valid_page_iff [OF assms(2), of k] k(2) pm by auto
    qed (use ne le pm in auto)
    moreover have "first_obj (pages t ! id_page t ?m) [0..<page_size t] = Some (id_offset t ?m)"
      unfolding first_obj_def using yes no pm om by (intro find_upt) auto
    ultimately show ?thesis using inv False n slot_id_split [OF assms(1), of ?m] by (simp add: findBottom_def Let_def)
  qed
qed

lemma findTop_result:
  assumes "pages_ok t" "counts_ok t" "0 < cap t \<longrightarrow> \<not> is_obj (slot_at t 0)"
    and "\<forall>j \<in> ids t. j < top_idx t" "top_idx t < cap t"
  shows "findTop t = Inr (t\<lparr>top_idx := if ids t = {} then 0 else Max (ids t)\<rparr>)"
proof (cases "ids t = {}")
  case True
  then show ?thesis using assms(2) by (simp add: findTop_def counts_ok_def)
next
  case False
  let ?m = "Max (ids t)" and ?pg = "id_page t (top_idx t)" and ?b = "top_idx t"
  have m: "?m \<in> ids t" "\<And>j. j \<in> ids t \<Longrightarrow> j \<le> ?m" using False by simp_all
  then have bm: "?m < ?b" using assms(4) by simp
  have pb: "?pg < page_cnt t" using assms(1,5) by (simp add: in_cap)
  have om: "id_offset t ?m < page_size t" by (rule id_offset_less [OF assms(1)])
  note less = id_less_iff [OF assms(1)]
  have le: "id_page t ?m \<le> ?pg" using bm less [of ?m ?b] by auto
  then have pm: "id_page t ?m < page_cnt t" using pb by simp
  have no: "\<not> is_obj (objects (pages t ! p) ! k)"
    if "p < page_cnt t" "k < page_size t" "id_page t ?m < p \<or> (p = id_page t ?m \<and> id_offset t ?m < k)" for p k
  proof -
    have "?m < slot_id t p k" unfolding less [of ?m "slot_id t p k"] using that assms(1) by auto
    then have "slot_id t p k \<notin> ids t" using m(2) by (meson linorder_not_less)
    then show ?thesis using slot_obj_ids [OF assms(1) that(1,2) assms(3)] by simp
  qed
  have yes: "is_obj (objects (pages t ! id_page t ?m) ! id_offset t ?m)"
    using slot_obj_ids [OF assms(1) pm om assms(3)] m(1) by (simp add: slot_id_split assms(1))
  have n: "alloc_cnt t \<noteq> 0" using assms(2) False by (simp add: counts_ok_def)
  have ob: "id_offset t ?b < page_size t" by (rule id_offset_less [OF assms(1)])
  show ?thesis
  proof (cases "valid_page (pages t ! ?pg)")
    case True
    then obtain j where "j \<in> ids t" "id_page t j = ?pg" using valid_page_iff [OF assms(2) pb] by auto
    then have pg: "id_page t ?m = ?pg" using m(2) [of j] le less [of ?m j] by (metis le_antisym linorder_not_less nat_neq_iff)
    have "first_obj (pages t ! ?pg) (rev [0..<id_offset t ?b]) = Some (id_offset t ?m)"
      unfolding first_obj_def
      using bm less [of ?m ?b] pg yes no pm ob by (intro find_rev_upt) auto
    then show ?thesis using True False n pg slot_id_split [OF assms(1), of ?m] by (simp add: findTop_def Let_def)
  next
    case inv: False
    have ne: "?pg \<noteq> id_page t ?m" using inv valid_page_iff [OF assms(2) pb] m(1) by auto
    have "find (\<lambda>p. valid_page (pages t ! p)) (rev [0..<?pg]) = Some (id_page t ?m)"
    proof (rule find_rev_upt)
      show "valid_page (pages t ! id_page t ?m)" using valid_page_iff [OF assms(2) pm] m(1) by auto
      fix k assume k: "id_page t ?m < k" "k < ?pg"
      have "id_page t j \<noteq> k" if "j \<in> ids t" for j
        using m(2) [OF that] less [of ?m j] k(1) by (meson linorder_not_less)
      then show "\<not> valid_page (pages t ! k)" using valid_page_iff [OF assms(2), of k] k(2) pb by auto
    qed (use ne le pm in auto)
    moreover have "first_obj (pages t ! id_page t ?m) (rev [0..<page_size t]) = Some (id_offset t ?m)"
      unfolding first_obj_def using yes no pm om by (intro find_rev_upt) auto
    ultimately show ?thesis using inv False n slot_id_split [OF assms(1), of ?m] by (simp add: findTop_def Let_def)
  qed
qed

subsection \<open>A new page\<close>

lemma foldE_map: "foldE (\<lambda>x. f (g x)) xs = foldE f (map g xs)"
  by (induction xs) (rule ext, simp)+

lemma dll_free: "dll m p q xs \<Longrightarrow> x \<in> set xs \<Longrightarrow> \<not> is_obj (m x)"
  by (induction xs arbitrary: p q) auto

lemma newPage_result:
  assumes "pages_ok t" "free_list t = 0" "page_cnt t \<le> page_tbl_size t" "0 < cap t \<longrightarrow> \<not> is_obj (slot_at t 0)"
  shows "\<exists>t' fl. newPage t = Inr t' \<and> pages_ok t' \<and> cap t' = cap t + page_size t \<and> ids t' = ids t
     \<and> fl \<noteq> [] \<and> dll (slot_at t') 0 (free_list t') fl \<and> distinct fl \<and> set fl = {max 1 (cap t)..<cap t'}
     \<and> \<not> is_obj (slot_at t' 0) \<and> page_cnt t' = page_cnt t + 1 \<and> page_cnt t' \<le> page_tbl_size t'
     \<and> (\<forall>k < page_cnt t. alloccnt (pages t' ! k) = alloccnt (pages t ! k)) \<and> alloccnt (pages t' ! page_cnt t) = 0
     \<and> alloc_cnt t' = alloc_cnt t \<and> top_idx t' = top_idx t \<and> bottom_idx t' = bottom_idx t
     \<and> page_shift t' = page_shift t \<and> page_mask t' = page_mask t
     \<and> (\<forall>j < cap t. slot_at t' j = slot_at t j) \<and> hd fl = max 1 (cap t)"
proof -
  let ?n = "page_cnt t" and ?ps = "page_size t"
  define t1 where "t1 = t\<lparr>page_tbl_size := if page_tbl_size t = 0 then 1
                      else if page_tbl_size t = page_cnt t then page_tbl_size t * 2 else page_tbl_size t,
                pages := pages t @ [\<lparr>objects = replicate (page_size t) (Free 0 0), alloccnt = 0\<rparr>]\<rparr>"
  have sel: "page_size t1 = ?ps" "id_page t1 = id_page t" "id_offset t1 = id_offset t" "slot_id t1 = slot_id t"
    "page_cnt t1 = ?n + 1" "free_list t1 = 0" "cap t1 = cap t + ?ps"
    "page_shift t1 = page_shift t" "page_mask t1 = page_mask t"
    by (simp_all add: t1_def page_size_def id_page_def id_offset_def slot_id_def cap_def assms(2) fun_eq_iff)
  have ok: "pages_ok t1" using assms(1) sel(1) by (auto simp: pages_ok_def t1_def nth_append less_Suc_eq)
  have old: "slot_at t1 j = slot_at t j" if "j < cap t" for j
    using that assms(1) in_cap [OF assms(1), of j] by (simp add: slot_at_def sel) (simp add: t1_def nth_append)
  have new: "slot_at t1 j = Free 0 0" if "cap t \<le> j" "j < cap t1" for j
  proof -
    have "id_page t j = ?n" using that in_cap [OF assms(1), of j] in_cap [OF ok, of j] by (simp add: sel)
    then show ?thesis using id_offset_less [OF assms(1), of j] by (simp add: slot_at_def sel) (simp add: t1_def)
  qed
  let ?off = "if ?n = 0 then [1..<?ps] else [0..<?ps]"
  have es: "map (slot_id t ?n) ?off = [max 1 (cap t)..<cap t + ?ps]"
  proof -
    have s: "slot_id t ?n = (+) (cap t)" using slot_id_mult [OF assms(1)] by (simp add: cap_def fun_eq_iff)
    have "map ((+) c) [a..<b] = [c + a..<c + b]" for a b c :: nat by (induction b) (auto simp: not_le)
    moreover have "?n \<noteq> 0 \<Longrightarrow> 1 \<le> cap t" using page_size_pos [of t] by (simp add: cap_def Suc_le_eq)
    moreover have "?n = 0 \<Longrightarrow> cap t = 0" by (simp add: cap_def)
    ultimately show ?thesis unfolding s by (auto simp: max_def)
  qed
  let ?fl = "[max 1 (cap t)..<cap t + ?ps]"
  have ne: "max 1 (cap t) < cap t + ?ps" using page_size_big [OF assms(1)] by (auto simp: max_def)
  obtain t' where t': "foldE pushQ (rev ?fl) t1 = Inr t'" "frame t1 t'" "dll (slot_at t') 0 (free_list t') (rev (rev ?fl) @ [])"
    "\<forall>j. j \<notin> set (rev ?fl @ []) \<longrightarrow> slot_at t' j = slot_at t1 j"
  proof -
    have "dll (slot_at t1) 0 (free_list t1) []" "distinct (rev ?fl @ [])" by (simp_all add: sel)
    moreover have "\<forall>x \<in> set (rev ?fl @ []). x < cap t1 \<and> x \<noteq> 0" using sel by (auto simp: max_def split: if_splits)
    ultimately show ?thesis using pushes_dll [OF ok, of "[]" "rev ?fl"] that by blast
  qed
  have "newPage t = foldE (\<lambda>i. pushQ (slot_id t1 ?n i)) (rev ?off) t1"
    by (simp add: newPage_def t1_def Let_def page_size_def)
  also have "\<dots> = foldE pushQ (rev (map (slot_id t ?n) ?off)) t1" by (simp only: foldE_map sel rev_map)
  also have "\<dots> = Inr t'" unfolding es by (rule t'(1))
  finally have np: "newPage t = Inr t'" .
  note fr = frame_sel [OF t'(2)]
  have slots: "slot_at t' j = slot_at t j" if "j < cap t" for j using t'(4) that old by simp
  have free: "\<not> is_obj (slot_at t' x)" if "x \<in> set ?fl" for x
  proof -
    show ?thesis using t'(3) that by (auto dest: dll_free)
  qed
  have z: "\<not> is_obj (slot_at t' 0)"
    using assms(4) slots [of 0] t'(4) new [of 0] sel page_size_pos [of t] by (cases "cap t = 0") auto
  have i: "ids t' = ids t"
  proof (intro set_eqI iffI)
    fix j assume j: "j \<in> ids t'"
    then have "j < cap t + ?ps" using fr sel by (simp add: ids_def)
    then show "j \<in> ids t" using j free [of j] slots [of j] by (cases "j < cap t") (auto simp: ids_def)
  qed (use slots fr sel in \<open>auto simp: ids_def\<close>)
  have "alloccnt (pages t' ! k) = alloccnt (pages t1 ! k)" if "k < ?n + 1" for k
    using t'(2) that sel by (simp add: frame_def)
  then have a: "\<forall>k < ?n. alloccnt (pages t' ! k) = alloccnt (pages t ! k)" "alloccnt (pages t' ! ?n) = 0"
    by (simp_all add: t1_def nth_append)
  have "?n + 1 \<le> page_tbl_size t1" using assms(3) by (auto simp: t1_def Suc_le_eq)
  then show ?thesis
    using np fr ok sel t'(3) i z a ne slots t'(2)
    by (intro exI [of _ t'] exI [of _ ?fl]) (auto simp: frame_def t1_def)
qed

subsection \<open>Creating and destroying\<close>

definition objs :: "'a dbTable \<Rightarrow> nat \<Rightarrow> 'a option" where
  \<comment> \<open>the table as a map from ids to objects\<close>
  "objs t = (\<lambda>oid. if oid \<in> ids t then (case slot_at t oid of Obj a \<Rightarrow> Some a | Free n p \<Rightarrow> None) else None)"

lemma is_obj_iff: "is_obj s \<longleftrightarrow> (\<exists>a. s = Obj a)"
  by (cases s) auto

lemma dom_objs [simp]: "dom (objs t) = ids t"
  by (auto simp: objs_def ids_def is_obj_iff dom_def split: if_splits)

lemma getPtr_objs:
  assumes "pages_ok t"
  shows "getPtr t oid = (case objs t oid of Some a \<Rightarrow> Inr a | None \<Rightarrow> Inl Abort)"
  using in_cap [OF assms] by (auto simp: getPtr_def objs_def ids_def split: slot.split)

text \<open>Allocation from a free list that is not empty.\<close>

definition put_obj :: "nat \<Rightarrow> 'a \<Rightarrow> 'a dbTable \<Rightarrow> 'a dbTable" where
  \<comment> \<open>the end of \<open>create\<close>\<close>
  "put_obj e x t =
     (let t = count_alloc (\<lambda>n. n + 1) e (set_slot e (Obj x) t);
          t = (if e > top_idx t then t\<lparr>top_idx := e\<rparr> else t)
      in if bottom_idx t = 0 \<or> e < bottom_idx t then t\<lparr>bottom_idx := e\<rparr> else t)"

lemma dbTable_create_put:
  "dbTable_create x t =
     bindE (if free_list t = 0 then newPage (t\<lparr>alloc_cnt := alloc_cnt t + 1\<rparr>) else Inr (t\<lparr>alloc_cnt := alloc_cnt t + 1\<rparr>)) (\<lambda>t.
     bindE (popQ t) (\<lambda>(e, t). Inr (e, put_obj e x t)))"
  by (simp add: dbTable_create_def put_obj_def Let_def cong: if_cong)

lemma put_obj_ok:
  assumes "pages_ok t" "page_cnt t \<le> page_tbl_size t" "\<not> is_obj (slot_at t 0)"
    and "dll (slot_at t) 0 (free_list t) fl" "distinct (e # fl)" "set (e # fl) = {1..<cap t} - ids t"
    and "alloc_cnt t = card (ids t) + 1" "\<forall>k < page_cnt t. alloccnt (pages t ! k) = card {j \<in> ids t. id_page t j = k}"
    and "top_idx t = (if ids t = {} then 0 else Max (ids t))" "bottom_idx t = (if ids t = {} then 0 else Min (ids t))"
  shows "table_ok (put_obj e x t) \<and> objs (put_obj e x t) = (objs t)(e \<mapsto> x) \<and> e \<notin> ids t \<and> e \<noteq> 0"
proof -
  let ?t = "put_obj e x t"
  have "e \<in> {1..<cap t} - ids t" unfolding assms(6) [symmetric] by simp
  then have e: "e \<notin> ids t" "0 < e" "e < cap t" "e \<notin> set fl" using assms(5) by auto
  have sel: "pages_ok ?t" "cap ?t = cap t" "page_cnt ?t = page_cnt t" "page_tbl_size ?t = page_tbl_size t"
    "free_list ?t = free_list t" "alloc_cnt ?t = alloc_cnt t" "id_page ?t = id_page t"
    using assms(1) by (simp_all add: put_obj_def Let_def)
  have s: "slot_at ?t j = (if j = e then Obj x else slot_at t j)" for j
    using slot_at_set_slot [OF assms(1) e(3)] by (simp add: put_obj_def Let_def)
  have i: "ids ?t = insert e (ids t)" using e sel(2) by (auto simp: ids_def s)
  have "dll (slot_at ?t) 0 (free_list t) fl = dll (slot_at t) 0 (free_list t) fl"
    using e(4) by (intro dll_cong) (auto simp: s)
  then have "slots_ok ?t"
    unfolding slots_ok_def i using sel assms(2-6) e by (auto simp: s intro!: exI [of _ fl])
  moreover have "alloccnt (pages ?t ! k) = card {j \<in> ids ?t. id_page t j = k}" if "k < page_cnt t" for k
  proof -
    have a: "alloccnt (pages ?t ! k) = (if k = id_page t e then alloccnt (pages t ! k) + 1 else alloccnt (pages t ! k))"
      using that by (simp add: put_obj_def Let_def pages_count_alloc)
    have "{j \<in> ids ?t. id_page t j = k} = (if k = id_page t e then insert e {j \<in> ids t. id_page t j = k} else {j \<in> ids t. id_page t j = k})"
      by (auto simp: i)
    then show ?thesis using a assms(8) that e(1) by simp
  qed
  then have "counts_ok ?t" using sel assms(7) e(1) by (simp add: counts_ok_def i)
  moreover have "top_idx ?t = max e (top_idx t)" "bottom_idx ?t = (if bottom_idx t = 0 then e else min e (bottom_idx t))"
    by (auto simp: put_obj_def Let_def)
  then have "top_idx ?t = Max (ids ?t)" "bottom_idx ?t = Min (ids ?t)"
    unfolding i using assms(9,10) e(2) Min_in [OF finite_ids, of t] ids_pos [of "Min (ids t)" t] ids_pos [of 0 t] by auto
  moreover have "objs ?t = (objs t)(e \<mapsto> x)" by (rule ext) (auto simp: objs_def i s)
  ultimately show ?thesis using e i by (simp add: table_ok_def)
qed

text \<open>After the test of \<open>create\<close> for an empty list, there is a free slot.\<close>

definition alloc_ready :: "'a dbTable \<Rightarrow> 'a dbTable \<Rightarrow> nat list \<Rightarrow> bool" where
  "alloc_ready t t1 fl \<longleftrightarrow> pages_ok t1 \<and> page_cnt t1 \<le> page_tbl_size t1 \<and> \<not> is_obj (slot_at t1 0)
     \<and> fl \<noteq> [] \<and> dll (slot_at t1) 0 (free_list t1) fl \<and> distinct fl \<and> set fl = {1..<cap t1} - ids t1
     \<and> (\<forall>k < page_cnt t1. alloccnt (pages t1 ! k) = card {j \<in> ids t1. id_page t1 j = k})
     \<and> alloc_cnt t1 = card (ids t1) + 1 \<and> top_idx t1 = top_idx t \<and> bottom_idx t1 = bottom_idx t
     \<and> ids t1 = ids t \<and> objs t1 = objs t
     \<and> hd fl = (if free_list t = 0 then max 1 (cap t) else free_list t)"

lemma objs_same:
  assumes "ids t' = ids t" "\<And>j. j \<in> ids t \<Longrightarrow> slot_at t' j = slot_at t j"
  shows "objs t' = objs t"
  using assms by (simp add: objs_def fun_eq_iff)

lemma alloc_ready_ex:
  assumes "table_ok t"
  shows "\<exists>t1 fl. (if free_list t = 0 then newPage (t\<lparr>alloc_cnt := alloc_cnt t + 1\<rparr>)
       else Inr (t\<lparr>alloc_cnt := alloc_cnt t + 1\<rparr>)) = Inr t1 \<and> alloc_ready t t1 fl"
proof -
  let ?t0 = "t\<lparr>alloc_cnt := alloc_cnt t + 1\<rparr>"
  obtain fl where fl: "dll (slot_at t) 0 (free_list t) fl" "distinct fl" "set fl = {1..<cap t} - ids t"
    and ok: "pages_ok t" "page_cnt t \<le> page_tbl_size t" "0 < cap t \<longrightarrow> \<not> is_obj (slot_at t 0)"
    using assms by (auto simp: table_ok_def slots_ok_def)
  have cnt: "alloc_cnt t = card (ids t)" "\<forall>k < page_cnt t. alloccnt (pages t ! k) = card {j \<in> ids t. id_page t j = k}"
    using assms by (auto simp: table_ok_def counts_ok_def)
  show ?thesis
  proof (cases "free_list t = 0")
    case False
    then obtain n ys where y: "fl = free_list t # ys" using dll_head [OF fl(1)] by blast
    then have "0 < cap t" using fl(3) by (cases "cap t") auto
    moreover have "objs ?t0 = objs t" by (intro objs_same) simp_all
    ultimately have "alloc_ready t ?t0 fl" unfolding alloc_ready_def using fl ok cnt False y by simp
    then show ?thesis using False by auto
  next
    case True
    then have "fl = []" using fl(1) by (simp add: dll_0)
    then have full: "ids t = {1..<cap t}" using fl(3) by (auto simp: ids_def)
    obtain t1 fl1 where t1: "newPage ?t0 = Inr t1" "pages_ok t1" "cap t1 = cap t + page_size t" "ids t1 = ids t"
      "fl1 \<noteq> []" "dll (slot_at t1) 0 (free_list t1) fl1" "distinct fl1" "set fl1 = {max 1 (cap t)..<cap t1}"
      "\<not> is_obj (slot_at t1 0)" "page_cnt t1 = page_cnt t + 1" "page_cnt t1 \<le> page_tbl_size t1"
      "\<forall>k < page_cnt t. alloccnt (pages t1 ! k) = alloccnt (pages t ! k)" "alloccnt (pages t1 ! page_cnt t) = 0"
      "alloc_cnt t1 = alloc_cnt t + 1" "top_idx t1 = top_idx t" "bottom_idx t1 = bottom_idx t"
      "page_shift t1 = page_shift t" "\<forall>j < cap t. slot_at t1 j = slot_at t j" "hd fl1 = max 1 (cap t)"
      using newPage_result [of ?t0] True ok by auto
    have s: "set fl1 = {1..<cap t1} - ids t1" unfolding t1(3,4,8) full by auto
    have ip: "id_page t1 = id_page t" using t1(17) by (simp add: id_page_def fun_eq_iff)
    have "alloccnt (pages t1 ! k) = card {j \<in> ids t1. id_page t1 j = k}" if "k < page_cnt t1" for k
    proof (cases "k < page_cnt t")
      case True
      then show ?thesis using t1(4,12) cnt(2) ip by simp
    next
      case False
      then have k: "k = page_cnt t" using that t1(10) by simp
      have "id_page t j \<noteq> page_cnt t" if "j \<in> ids t" for j
        using that in_cap [OF ok(1), of j] by (auto simp: ids_def)
      then have "{j \<in> ids t1. id_page t1 j = k} = {}" using t1(4) ip k by auto
      then show ?thesis using t1(13) k by simp
    qed
    moreover have "objs t1 = objs t" using t1(4,18) by (intro objs_same) (auto simp: ids_def)
    ultimately have "alloc_ready t t1 fl1" unfolding alloc_ready_def using t1 s cnt(1) True by simp
    then show ?thesis using t1(1) True by auto
  qed
qed

lemma create_result:
  assumes "table_ok t"
  shows "\<exists>e t'. dbTable_create x t = Inr (e, t') \<and> table_ok t' \<and> objs t' = (objs t)(e \<mapsto> x) \<and> e \<notin> ids t \<and> e \<noteq> 0
     \<and> e = (if free_list t = 0 then max 1 (cap t) else free_list t)"
proof -
  obtain t1 fl where 1: "(if free_list t = 0 then newPage (t\<lparr>alloc_cnt := alloc_cnt t + 1\<rparr>)
       else Inr (t\<lparr>alloc_cnt := alloc_cnt t + 1\<rparr>)) = Inr t1" "alloc_ready t t1 fl"
    using alloc_ready_ex [OF assms] by blast
  then obtain e fl2 where e: "fl = e # fl2" by (cases fl) (auto simp: alloc_ready_def)
  note r = 1(2) [unfolded alloc_ready_def e]
  have se: "set (e # fl2) = {1..<cap t1} - ids t1" and dl: "dll (slot_at t1) 0 (free_list t1) (e # fl2)"
    and ds: "distinct (e # fl2)" and po: "pages_ok t1"
    using r by blast+
  have "\<forall>x \<in> set (e # fl2). x < cap t1" unfolding se by simp
  then obtain t2 where t2: "popQ t1 = Inr (e, t2)" "frame t1 t2" "dll (slot_at t2) 0 (free_list t2) fl2"
    "\<forall>j. j \<notin> set fl2 \<longrightarrow> slot_at t2 j = slot_at t1 j"
    using popQ_dll [OF po dl _ ds] by blast
  note fr = frame_sel [OF t2(2)]
  have out: "j \<notin> set fl2" if "j \<in> ids t1 \<or> j = 0" for j
  proof -
    have "j \<notin> set (e # fl2)" unfolding se using that by auto
    then show ?thesis by simp
  qed
  have i2: "ids t2 = ids t1"
  proof (intro set_eqI iffI)
    fix j assume j: "j \<in> ids t2"
    then have "j \<notin> set fl2" using dll_free [OF t2(3)] by (auto simp: ids_def)
    then show "j \<in> ids t1" using j t2(4) fr by (simp add: ids_def)
  qed (use out t2(4) fr in \<open>auto simp: ids_def\<close>)
  have o2: "objs t2 = objs t1" using out t2(4) i2 by (intro objs_same) auto
  have "table_ok (put_obj e x t2) \<and> objs (put_obj e x t2) = (objs t2)(e \<mapsto> x) \<and> e \<notin> ids t2 \<and> e \<noteq> 0"
  proof (rule put_obj_ok)
    show "pages_ok t2" "page_cnt t2 \<le> page_tbl_size t2" using r fr by simp_all
    show "\<not> is_obj (slot_at t2 0)" using r t2(4) out [of 0] by simp
    show "dll (slot_at t2) 0 (free_list t2) fl2" by (rule t2(3))
    show "distinct (e # fl2)" "set (e # fl2) = {1..<cap t2} - ids t2" using ds se fr i2 by simp_all
    show "alloc_cnt t2 = card (ids t2) + 1" using r fr i2 by simp
    show "\<forall>k < page_cnt t2. alloccnt (pages t2 ! k) = card {j \<in> ids t2. id_page t2 j = k}"
      using r fr i2 t2(2) by (simp add: frame_def)
    show "top_idx t2 = (if ids t2 = {} then 0 else Max (ids t2))" "bottom_idx t2 = (if ids t2 = {} then 0 else Min (ids t2))"
      using r fr i2 assms by (simp_all add: table_ok_def)
  qed
  then have "table_ok (put_obj e x t2) \<and> objs (put_obj e x t2) = (objs t)(e \<mapsto> x) \<and> e \<notin> ids t \<and> e \<noteq> 0"
    using o2 i2 r by simp
  moreover have "e = (if free_list t = 0 then max 1 (cap t) else free_list t)" using r by simp
  ultimately show ?thesis using t2(1) unfolding dbTable_create_put 1(1) by auto
qed

lemma ok_fields [simp]:
  "counts_ok (t\<lparr>bottom_idx := n\<rparr>) = counts_ok t" "counts_ok (t\<lparr>top_idx := n\<rparr>) = counts_ok t"
  "slots_ok (t\<lparr>bottom_idx := n\<rparr>) = slots_ok t" "slots_ok (t\<lparr>top_idx := n\<rparr>) = slots_ok t"
  by (simp_all add: counts_ok_def slots_ok_def)

text \<open>The state of \<open>destroy\<close> after the slot is back on the free list.\<close>

lemma freed_ok:
  assumes "slots_ok t" "counts_ok t" "e \<in> ids t"
  shows "\<exists>t'. pushQ e (set_slot e (Free 0 0) (count_alloc (\<lambda>n. n - 1) e (t\<lparr>alloc_cnt := alloc_cnt t - 1\<rparr>))) = Inr t'
     \<and> slots_ok t' \<and> counts_ok t' \<and> ids t' = ids t - {e} \<and> objs t' = (objs t)(e := None)
     \<and> top_idx t' = top_idx t \<and> bottom_idx t' = bottom_idx t \<and> cap t' = cap t \<and> free_list t' = e"
proof -
  define t2 where "t2 = set_slot e (Free 0 0) (count_alloc (\<lambda>n. n - 1) e (t\<lparr>alloc_cnt := alloc_cnt t - 1\<rparr>))"
  obtain fl where fl: "dll (slot_at t) 0 (free_list t) fl" "distinct fl" "set fl = {1..<cap t} - ids t"
    and ok: "pages_ok t" "page_cnt t \<le> page_tbl_size t" "0 < cap t \<longrightarrow> \<not> is_obj (slot_at t 0)"
    using assms(1) by (auto simp: slots_ok_def)
  have e: "0 < e" "e < cap t" "e \<notin> set fl" using assms(3) fl(3) by (auto simp: ids_def)
  have sel: "cap t2 = cap t" "free_list t2 = free_list t" "page_cnt t2 = page_cnt t" "id_page t2 = id_page t"
    "top_idx t2 = top_idx t" "bottom_idx t2 = bottom_idx t" "alloc_cnt t2 = alloc_cnt t - 1" "pages_ok t2"
    "page_tbl_size t2 = page_tbl_size t"
    using ok(1) by (simp_all add: t2_def)
  have s: "slot_at t2 j = (if j = e then Free 0 0 else slot_at t j)" for j
    unfolding t2_def using slot_at_set_slot [of "count_alloc (\<lambda>n. n - 1) e (t\<lparr>alloc_cnt := alloc_cnt t - 1\<rparr>)" e] ok e by simp
  have "dll (slot_at t2) 0 (free_list t) fl = dll (slot_at t) 0 (free_list t) fl"
    using e(3) by (intro dll_cong) (auto simp: s)
  then have d2: "dll (slot_at t2) 0 (free_list t2) fl" using fl(1) sel by simp
  have b2: "\<forall>x \<in> set fl. x < cap t2" unfolding fl(3) sel by simp
  obtain t' where t': "pushQ e t2 = Inr t'" "frame t2 t'" "dll (slot_at t') 0 (free_list t') (e # fl)"
    "\<forall>j. j \<notin> set (e # fl) \<longrightarrow> slot_at t' j = slot_at t2 j"
    using pushQ_dll [OF sel(8) d2 b2, of e] e fl(2) sel by auto
  note fr = frame_sel [OF t'(2)] sel
  have keep: "slot_at t' j = slot_at t j" if "j \<notin> set (e # fl)" for j using t'(4) that by (simp add: s)
  have i: "ids t' = ids t - {e}"
  proof (intro set_eqI iffI)
    fix j assume j: "j \<in> ids t'"
    then have "j \<notin> set (e # fl)" using dll_free [OF t'(3)] by (auto simp: ids_def)
    then show "j \<in> ids t - {e}" using j keep fr by (auto simp: ids_def)
  next
    fix j assume j: "j \<in> ids t - {e}"
    then have "j \<notin> set (e # fl)" using fl(3) by auto
    then show "j \<in> ids t'" using j keep fr by (auto simp: ids_def)
  qed
  have "slot_at t' 0 = slot_at t 0" using keep [of 0] e(1) fl(3) by auto
  moreover have c: "cap t' = cap t" "page_cnt t' = page_cnt t" "page_tbl_size t' = page_tbl_size t" "pages_ok t'"
    using fr by simp_all
  moreover have "insert e ({1..<cap t} - A) = {1..<cap t} - (A - {e})" for A using e(1,2) by auto
  then have "set (e # fl) = {1..<cap t} - ids t'" unfolding i by (simp add: fl(3))
  ultimately have "slots_ok t'"
    unfolding slots_ok_def using ok t'(3) e(3) fl(2)
    by (intro conjI exI [of _ "e # fl"]) simp_all
  moreover have "alloccnt (pages t' ! k) = card {j \<in> ids t'. id_page t' j = k}" if "k < page_cnt t'" for k
  proof -
    have k: "k < page_cnt t" using that fr by simp
    have "alloccnt (pages t' ! k) = alloccnt (pages t2 ! k)" using t'(2) k sel by (simp add: frame_def)
    then have a: "alloccnt (pages t' ! k) = (if k = id_page t e then alloccnt (pages t ! k) - 1 else alloccnt (pages t ! k))"
      using k by (simp add: t2_def pages_count_alloc)
    have "{j \<in> ids t'. id_page t' j = k} = {j \<in> ids t. id_page t j = k} - (if k = id_page t e then {e} else {})"
      using i fr by auto
    then show ?thesis using a assms(2,3) k by (auto simp: counts_ok_def card_Diff_singleton)
  qed
  then have "counts_ok t'" using fr assms(2,3) i by (simp add: counts_ok_def card_Diff_singleton)
  moreover have "objs t' = (objs t)(e := None)"
  proof
    fix j
    show "objs t' j = ((objs t)(e := None)) j"
    proof (cases "j \<in> ids t - {e}")
      case True
      then have "j \<notin> set (e # fl)" using fl(3) by auto
      then show ?thesis using keep True i by (simp add: objs_def)
    next
      case False
      then have "objs t' j = None" "((objs t)(e := None)) j = None" using i by (auto simp: objs_def)
      then show ?thesis by simp
    qed
  qed
  moreover have "free_list t' = e" using t'(3) by simp
  ultimately show ?thesis using t'(1) fr i unfolding t2_def [symmetric] by auto
qed

lemma destroy_result:
  assumes "table_ok t" "e \<in> ids t"
  shows "\<exists>t'. dbTable_destroy e t = Inr t' \<and> table_ok t' \<and> objs t' = (objs t)(e := None) \<and> free_list t' = e"
proof -
  have t: "slots_ok t" "counts_ok t" "top_idx t = Max (ids t)" "bottom_idx t = Min (ids t)"
    using assms by (auto simp: table_ok_def)
  obtain t3 where t3: "pushQ e (set_slot e (Free 0 0) (count_alloc (\<lambda>n. n - 1) e (t\<lparr>alloc_cnt := alloc_cnt t - 1\<rparr>))) = Inr t3"
    "slots_ok t3" "counts_ok t3" "ids t3 = ids t - {e}" "objs t3 = (objs t)(e := None)"
    "top_idx t3 = top_idx t" "bottom_idx t3 = bottom_idx t" "cap t3 = cap t" "free_list t3 = e"
    using freed_ok [OF t(1,2) assms(2)] by blast
  have ok: "pages_ok t3" "0 < cap t3 \<longrightarrow> \<not> is_obj (slot_at t3 0)" using t3(2) by (auto simp: slots_ok_def)
  have e: "e \<noteq> 0" "is_obj (slot_at t e)" "e < cap t" using assms(2) by (auto simp: ids_def)
  let ?bot = "if ids t3 = {} then 0 else Min (ids t3)" and ?top = "if ids t3 = {} then 0 else Max (ids t3)"
  have bot: "(if e = bottom_idx t3 then findBottom t3 else Inr t3) = Inr (t3\<lparr>bottom_idx := ?bot\<rparr>)"
  proof (cases "e = bottom_idx t3")
    case True
    have "\<forall>j \<in> ids t3. bottom_idx t3 < j"
    proof
      fix j assume j: "j \<in> ids t3"
      then have "Min (ids t) \<le> j" "j \<noteq> e" using t3(4) by auto
      then show "bottom_idx t3 < j" using True t3(7) t(4) by linarith
    qed
    from findBottom_result [OF ok(1) t3(3) ok(2) this] show ?thesis unfolding if_P [OF True] .
  next
    case False
    have "ids t \<noteq> {}" using assms(2) by auto
    then have "bottom_idx t3 \<in> ids t" unfolding t3(7) t(4) by (intro Min_in finite_ids)
    then have m: "bottom_idx t3 \<in> ids t3" using False t3(4) by auto
    have "bottom_idx t3 \<le> j" if "j \<in> ids t3" for j
      unfolding t3(7) t(4) using that t3(4) by (intro Min_le finite_ids) blast
    then have "Min (ids t3) = bottom_idx t3" using m by (intro Min_eqI) simp_all
    then have "?bot = bottom_idx t3" using m by auto
    then show ?thesis using False by simp
  qed
  let ?t4 = "t3\<lparr>bottom_idx := ?bot\<rparr>"
  have top: "(if e = top_idx ?t4 then findTop ?t4 else Inr ?t4) = Inr (?t4\<lparr>top_idx := ?top\<rparr>)"
  proof (cases "e = top_idx ?t4")
    case True
    have b: "\<forall>j \<in> ids ?t4. j < top_idx ?t4"
    proof
      fix j assume j: "j \<in> ids ?t4"
      then have "j \<le> Max (ids t)" "j \<noteq> e" using t3(4) by auto
      then show "j < top_idx ?t4" using True t3(6) t(3) by simp
    qed
    have "findTop ?t4 = Inr (?t4\<lparr>top_idx := if ids ?t4 = {} then 0 else Max (ids ?t4)\<rparr>)"
      using ok t3(3,8) e(3) True by (intro findTop_result b) simp_all
    then show ?thesis unfolding if_P [OF True] ids_fields .
  next
    case False
    then have ne: "e \<noteq> top_idx t3" by simp
    have "ids t \<noteq> {}" using assms(2) by auto
    then have "top_idx t3 \<in> ids t" unfolding t3(6) t(3) by (intro Max_in finite_ids)
    then have m: "top_idx t3 \<in> ids t3" using ne t3(4) by auto
    have "j \<le> top_idx t3" if "j \<in> ids t3" for j
      unfolding t3(6) t(3) using that t3(4) by (intro Max_ge finite_ids) blast
    then have "Max (ids t3) = top_idx t3" using m by (intro Max_eqI) simp_all
    then have "?top = top_idx ?t4" using m by auto
    then show ?thesis using False by simp
  qed
  let ?t5 = "?t4\<lparr>top_idx := ?top\<rparr>"
  have "dbTable_destroy e t = Inr ?t5"
    using e t3(1) bot top by (simp add: dbTable_destroy_def Let_def)
  moreover have "objs ?t5 = objs t3" by (intro objs_same) simp_all
  ultimately show ?thesis using t3 by (simp add: table_ok_def)
qed

end
