(* ===== verification/Odb_Table_Props.thy ===== *)
theory Odb_Table_Props
  imports Odb_Table_Ops
begin

section \<open>Object tables implement maps\<close>

text \<open>
  The two properties of the tables: allocation refines a finite map from ids to objects, and the
  iteration meets the ids in ascending order.
\<close>

subsection \<open>Iteration\<close>

lemma Min_of: "finite S \<Longrightarrow> m \<in> S \<Longrightarrow> (\<And>j. j \<in> S \<Longrightarrow> m \<le> j) \<Longrightarrow> (if S = {} then 0 else Min S) = (m :: nat)"
  using Min_eqI [of S m] by auto

lemma table_okD:
  assumes "table_ok t"
  shows "pages_ok t" "counts_ok t" "0 < cap t \<longrightarrow> \<not> is_obj (slot_at t 0)"
    "top_idx t = (if ids t = {} then 0 else Max (ids t))" "bottom_idx t = (if ids t = {} then 0 else Min (ids t))"
  using assms by (auto simp: table_ok_def slots_ok_def)

lemma page_of_range:
  assumes "pages_ok t" "slot_id t p a \<le> j" "j < slot_id t p b" "b \<le> page_size t"
  shows "id_page t j = p" "a \<le> id_offset t j" "id_offset t j < b"
proof -
  let ?n = "page_size t"
  have j: "p * ?n + a \<le> j" "j < p * ?n + b" using assms(1-3) by (simp_all add: slot_id_mult)
  then have "j div ?n = p" using assms(4) by (intro div_nat_eqI) (auto simp: mult.commute)
  then show p: "id_page t j = p" by (simp add: id_page_div assms(1))
  have "slot_id t p (id_offset t j) = j" using slot_id_split [OF assms(1), of j] p by simp
  then show "a \<le> id_offset t j" "id_offset t j < b" using j by (simp_all add: slot_id_mult assms(1))
qed

lemma next_obj_result:
  assumes "table_ok t" "p < page_cnt t" "off \<le> page_size t"
  shows "next_obj t p off = Inr (if {j \<in> ids t. slot_id t p off \<le> j} = {} then 0 else Min {j \<in> ids t. slot_id t p off \<le> j})"
  using assms
proof (induction t p off rule: next_obj.induct)
  case (1 t p off)
  note ok = table_okD [OF "1.prems"(1)]
  let ?S = "{j \<in> ids t. slot_id t p off \<le> j}"
  have obj: "is_obj (objects (pages t ! p) ! i) \<longleftrightarrow> slot_id t p i \<in> ids t" if "i < page_size t" for i
    using slot_obj_ids [OF ok(1) "1.prems"(2) that ok(3)] .
  show ?case
  proof (cases "first_obj (pages t ! p) [off..<page_size t]")
    case (Some i)
    then have i: "off \<le> i" "i < page_size t" "slot_id t p i \<in> ids t" "\<And>k. off \<le> k \<Longrightarrow> k < i \<Longrightarrow> slot_id t p k \<notin> ids t"
    proof -
      obtain k where k: "k < page_size t - off" "is_obj (objects (pages t ! p) ! (off + k))" "i = off + k"
        "\<forall>j < k. \<not> is_obj (objects (pages t ! p) ! (off + j))"
        using Some unfolding first_obj_def find_Some_iff by auto
      show "off \<le> i" "i < page_size t" using k by simp_all
      then show "slot_id t p i \<in> ids t" using k(2,3) obj by simp
      show "slot_id t p l \<notin> ids t" if "off \<le> l" "l < i" for l
        using k(4) [rule_format, of "l - off"] that k(1,3) obj [of l] by simp
    qed
    have S: "(if ?S = {} then 0 else Min ?S) = slot_id t p i"
    proof (rule Min_of)
      show "slot_id t p i \<in> ?S" using i(1,3) by (simp add: slot_id_mult ok(1))
      fix j assume j: "j \<in> ?S"
      show "slot_id t p i \<le> j"
      proof (rule ccontr)
        assume "\<not> slot_id t p i \<le> j"
        then have r: "id_page t j = p" "off \<le> id_offset t j" "id_offset t j < i"
          using page_of_range [OF ok(1), of p off j i] j i(2) by auto
        have "slot_id t p (id_offset t j) \<notin> ids t" by (rule i(4) [OF r(2,3)])
        then show False using slot_id_split [OF ok(1), of j] r(1) j by simp
      qed
    qed simp
    have "slot_id t p i \<le> top_idx t" using ok(4) i(3) by auto
    then show ?thesis unfolding S using Some by (subst next_obj.simps) (simp add: Let_def)
  next
    case None
    have none: "slot_id t p k \<notin> ids t" if "off \<le> k" "k < page_size t" for k
      using None that obj unfolding first_obj_def find_None_iff by simp
    have later: "p < id_page t j" if "j \<in> ?S" for j
    proof -
      have "p \<le> id_page t j" using that "1.prems"(3) page_size_pos [of t] ok(1)
        by (simp add: slot_id_mult id_page_div less_eq_div_iff_mult_less_eq)
      moreover have "id_page t j \<noteq> p"
      proof
        assume p: "id_page t j = p"
        then have j: "slot_id t p (id_offset t j) = j" using slot_id_split [OF ok(1), of j] by simp
        then have "off \<le> id_offset t j" using that by (simp add: slot_id_mult ok(1))
        then show False using none [of "id_offset t j"] id_offset_less [OF ok(1), of j] j that by simp
      qed
      ultimately show ?thesis by simp
    qed
    have inpage: "id_page t j < page_cnt t" if "j \<in> ids t" for j
      using that in_cap [OF ok(1), of j] by (simp add: ids_def)
    show ?thesis
    proof (cases "find (\<lambda>p. valid_page (pages t ! p)) [p + 1..<page_cnt t]")
      case none': None
      have "?S = {}"
      proof (rule ccontr)
        assume "?S \<noteq> {}"
        then obtain j where j: "j \<in> ?S" by blast
        then have "valid_page (pages t ! id_page t j)" using valid_page_iff [OF ok(2)] inpage by auto
        then show False using none' later [OF j] inpage [of j] j unfolding find_None_iff by auto
      qed
      then show ?thesis using None none' by (subst next_obj.simps) simp
    next
      case (Some q)
      then obtain k where k: "p + 1 \<le> q" "q < page_cnt t" "\<And>l. p < l \<Longrightarrow> l < q \<Longrightarrow> \<not> valid_page (pages t ! l)"
      proof -
        obtain k where k: "k < page_cnt t - (p + 1)" "q = p + 1 + k" "\<forall>j < k. \<not> valid_page (pages t ! (p + 1 + j))"
          using Some unfolding find_Some_iff by auto
        show ?thesis
        proof (rule that)
          show "\<not> valid_page (pages t ! l)" if "p < l" "l < q" for l
            using k(3) [rule_format, of "l - (p + 1)"] that k(2) by simp
        qed (use k in auto)
      qed
      have e: "?S = {j \<in> ids t. slot_id t q 0 \<le> j}"
      proof (intro set_eqI iffI)
        fix j assume j: "j \<in> ?S"
        have "valid_page (pages t ! id_page t j)" using valid_page_iff [OF ok(2)] inpage j by auto
        then have "q \<le> id_page t j" using k(3) later [OF j] by (meson linorder_not_less)
        then show "j \<in> {j \<in> ids t. slot_id t q 0 \<le> j}" using j page_size_pos [of t] ok(1)
          by (simp add: slot_id_mult id_page_div less_eq_div_iff_mult_less_eq)
      next
        fix j assume j: "j \<in> {j \<in> ids t. slot_id t q 0 \<le> j}"
        have "(p + 1) * page_size t \<le> q * page_size t" using k(1) by (intro mult_right_mono) simp_all
        then have "slot_id t p off \<le> slot_id t q 0" using "1.prems"(3) by (simp add: slot_id_mult ok(1))
        then show "j \<in> ?S" using j by simp
      qed
      have n: "next_obj t p off = next_obj t q 0" using None Some by (subst next_obj.simps) simp
      show ?thesis unfolding n e by (rule "1.IH" [OF None Some "1.prems"(1) k(2)]) simp
    qed
  qed
qed

lemma ids_cap: "oid \<in> ids t \<Longrightarrow> oid < cap t"
  by (simp add: ids_def)

lemma next_result:
  assumes "table_ok t" "oid \<in> ids t"
  shows "dbTable_next t oid = Inr (if {j \<in> ids t. oid < j} = {} then 0 else Min {j \<in> ids t. oid < j})"
proof -
  note ok = table_okD [OF assms(1)]
  have top: "top_idx t = Max (ids t)" using ok(4) assms(2) by auto
  show ?thesis
  proof (cases "oid + 1 > top_idx t")
    case True
    then have "{j \<in> ids t. oid < j} = {}" using top Max_ge [OF finite_ids, of _ t] by (fastforce simp: not_less)
    then show ?thesis using True assms(2) ids_pos by (auto simp: dbTable_next_def)
  next
    case False
    have "Max (ids t) \<in> ids t" using assms(2) by (intro Max_in finite_ids) auto
    then have "Max (ids t) < cap t" by (rule ids_cap)
    then have "oid + 1 < cap t" using False top by simp
    then have p: "id_page t (oid + 1) < page_cnt t" using in_cap [OF ok(1)] by simp
    have n: "dbTable_next t oid = next_obj t (id_page t (oid + 1)) (id_offset t (oid + 1))"
      using False ids_pos [OF assms(2)] by (simp add: dbTable_next_def)
    have e: "{j \<in> ids t. slot_id t (id_page t (oid + 1)) (id_offset t (oid + 1)) \<le> j} = {j \<in> ids t. oid < j}"
      unfolding slot_id_split [OF ok(1)] by auto
    show ?thesis
      unfolding n next_obj_result [OF assms(1) p less_imp_le [OF id_offset_less [OF ok(1)]]] e ..
  qed
qed

lemma getObjects_result:
  assumes "table_ok t"
  shows "getObjects t = sorted_list_of_set (ids t)"
proof (rule sorted_list_of_set_unique [THEN iffD1, OF finite_ids, symmetric])
  note ok = table_okD [OF assms]
  have "bottom_idx t \<le> j \<and> j \<le> top_idx t" if "j \<in> ids t" for j
    unfolding ok(4,5) using that Min_le [OF finite_ids that] Max_ge [OF finite_ids that] by auto
  then have "ids t \<subseteq> {bottom_idx t..<top_idx t + 1}" by (force simp: less_Suc_eq_le)
  then have "set (getObjects t) = ids t"
    unfolding getObjects_def by (auto simp: validId_ids [OF ok(1)] simp flip: less_Suc_eq_le)
  moreover have "sorted_wrt (<) (getObjects t)" unfolding getObjects_def by (intro sorted_wrt_filter sorted_wrt_upt)
  ultimately show "sorted_wrt (<) (getObjects t) \<and> set (getObjects t) = ids t \<and> length (getObjects t) = card (ids t)"
    by (metis distinct_card strict_sorted_iff)
qed

lemma new_table_ok:
  assumes "0 < k"
  shows "table_ok (dbTable_new (2 ^ k) k)" "objs (dbTable_new (2 ^ k) k) = Map.empty"
proof -
  let ?t = "dbTable_new (2 ^ k) k"
  have i: "ids ?t = {}" by (auto simp: ids_def cap_def dbTable_new_def)
  show "table_ok ?t"
    using assms unfolding table_ok_def slots_ok_def counts_ok_def i
    by (auto simp: dbTable_new_def pages_ok_def page_size_def mask_eq_exp_minus_1 cap_def intro!: exI [of _ "[]"])
  show "objs ?t = Map.empty" by (auto simp: objs_def i)
qed

subsection \<open>The properties\<close>

text \<open>
  C30: a table is a finite map from ids to objects. A new table is the empty map. \<open>create\<close> never
  fails, adds the object under an id that is not 0 and was not in use, and keeps the invariant
  (the free list runs through exactly the free slots, the counters count, the first and the last
  id are the ends of the iteration). \<open>destroy\<close> of an object removes exactly it, and the next
  \<open>create\<close> takes its id again; \<open>getPtr\<close> finds the objects of the map and fails its assertion for every
  other id, and \<open>validId\<close> tells the two apart. \<open>destroy\<close> of a slot without object fails its assertion.
  Ids are natural numbers, so all this is about tables of less than \<open>2 ^ 32\<close> slots, where the ids of the code do not wrap.
\<close>

theorem table_refines_map:
  assumes "0 < k" "table_ok t"
  shows "table_ok (dbTable_new (2 ^ k) k :: 'a dbTable) \<and> objs (dbTable_new (2 ^ k) k :: 'a dbTable) = Map.empty
     \<and> (\<forall>x. \<exists>oid t'. dbTable_create x t = Inr (oid, t') \<and> table_ok t' \<and> objs t' = (objs t)(oid \<mapsto> x)
          \<and> objs t oid = None \<and> oid \<noteq> 0)
     \<and> (\<forall>oid \<in> dom (objs t). \<exists>t'. dbTable_destroy oid t = Inr t' \<and> table_ok t' \<and> objs t' = (objs t)(oid := None)
          \<and> (\<forall>x. \<exists>t''. dbTable_create x t' = Inr (oid, t'') \<and> objs t'' = (objs t)(oid \<mapsto> x)))
     \<and> (\<forall>oid. getPtr t oid = (case objs t oid of Some a \<Rightarrow> Inr a | None \<Rightarrow> Inl Abort)
          \<and> validId t oid = (objs t oid \<noteq> None))
     \<and> (\<forall>oid < cap t. objs t oid = None \<longrightarrow> dbTable_destroy oid t = Inl Abort)"
proof (intro conjI allI ballI impI)
  note ok = table_okD [OF assms(2)]
  show "table_ok (dbTable_new (2 ^ k) k :: 'a dbTable)" "objs (dbTable_new (2 ^ k) k :: 'a dbTable) = Map.empty"
    by (rule new_table_ok [OF assms(1)])+
  fix x
  obtain oid t' where c: "dbTable_create x t = Inr (oid, t')" "table_ok t'" "objs t' = (objs t)(oid \<mapsto> x)" "oid \<notin> ids t" "oid \<noteq> 0"
    using create_result [OF assms(2)] by blast
  moreover have "objs t oid = None" using c(4) dom_objs [of t] by blast
  ultimately show "\<exists>oid t'. dbTable_create x t = Inr (oid, t') \<and> table_ok t' \<and> objs t' = (objs t)(oid \<mapsto> x)
          \<and> objs t oid = None \<and> oid \<noteq> 0" by blast
next
  fix oid assume d: "oid \<in> dom (objs t)"
  then obtain t' where t': "dbTable_destroy oid t = Inr t'" "table_ok t'" "objs t' = (objs t)(oid := None)" "free_list t' = oid"
    using destroy_result [OF assms(2)] by auto
  moreover have "oid \<noteq> 0" using d ids_pos by auto
  ultimately have "\<exists>t''. dbTable_create x t' = Inr (oid, t'') \<and> objs t'' = (objs t)(oid \<mapsto> x)" for x
    using create_result [OF t'(2), of x] by auto
  then show "\<exists>t'. dbTable_destroy oid t = Inr t' \<and> table_ok t' \<and> objs t' = (objs t)(oid := None)
          \<and> (\<forall>x. \<exists>t''. dbTable_create x t' = Inr (oid, t'') \<and> objs t'' = (objs t)(oid \<mapsto> x))"
    using t' by blast
next
  fix oid
  show "getPtr t oid = (case objs t oid of Some a \<Rightarrow> Inr a | None \<Rightarrow> Inl Abort)"
    by (rule getPtr_objs [OF table_okD(1) [OF assms(2)]])
  show "validId t oid = (objs t oid \<noteq> None)"
    unfolding validId_ids [OF table_okD(1) [OF assms(2)]] using dom_objs [of t] by (metis domIff)
next
  fix oid assume "oid < cap t" "objs t oid = None"
  then have "oid < cap t" "oid \<notin> ids t" using dom_objs [of t] by blast+
  then show "dbTable_destroy oid t = Inl Abort" by (auto simp: ids_def dbTable_destroy_def)
qed

definition demo_table :: "nat dbTable" where
  \<comment> \<open>a page of four slots, three objects, the second one destroyed\<close>
  "demo_table =
     \<lparr>page_mask = 3, page_shift = 2, top_idx = 3, bottom_idx = 1, page_tbl_size = 1, alloc_cnt = 2, free_list = 2,
      pages = [\<lparr>objects = [Free 0 0, Obj 10, Free 0 0, Obj 30], alloccnt = 2\<rparr>]\<rparr>"

lemma demo_table_run:
  "bindE (dbTable_create 10 (dbTable_new 4 2)) (\<lambda>(_, t). bindE (dbTable_create 20 t) (\<lambda>(_, t).
     bindE (dbTable_create 30 t) (\<lambda>(_, t). dbTable_destroy 2 t))) = Inr demo_table"
  by code_simp

lemma demo_table_facts: "table_ok demo_table \<and> objs demo_table = [1 \<mapsto> 10, 3 \<mapsto> 30]"
proof -
  have s: "slot_at demo_table 0 = Free 0 0" "slot_at demo_table 1 = Obj 10" "slot_at demo_table 2 = Free 0 0"
    "slot_at demo_table 3 = Obj 30" "cap demo_table = 4" "free_list demo_table = 2" "page_cnt demo_table = 1"
    "id_page demo_table 1 = 0" "id_page demo_table 3 = 0" "page_tbl_size demo_table = 1"
    unfolding cap_def by code_simp+
  have "oid \<in> ids demo_table \<longleftrightarrow> oid = 1 \<or> oid = 3" for oid
  proof (cases "oid < 4")
    case True
    then consider "oid = 0" | "oid = 1" | "oid = 2" | "oid = 3" by linarith
    then show ?thesis by cases (simp_all only: ids_def mem_Collect_eq s is_obj.simps, simp_all)
  qed (auto simp: ids_def s(5))
  then have i: "ids demo_table = {1, 3}" by blast
  have c: "{j \<in> {1, 3}. id_page demo_table j = 0} = {1, 3}" using s(8,9) by auto
  have p: "pages_ok demo_table" by (simp add: pages_ok_def demo_table_def page_size_def mask_eq_exp_minus_1)
  have "dll (slot_at demo_table) 0 2 [2]" using s(3) by simp
  moreover have "set [2] = {1..<4} - {1, 3 :: nat}" by auto
  ultimately have "slots_ok demo_table"
    unfolding slots_ok_def s i using p by (intro conjI exI [of _ "[2]"]) simp_all
  moreover have "counts_ok demo_table"
    unfolding counts_ok_def s i using c by (simp add: demo_table_def)
  ultimately have "table_ok demo_table" unfolding table_ok_def i by (simp add: demo_table_def)
  moreover have "objs demo_table = [1 \<mapsto> 10, 3 \<mapsto> 30]"
    unfolding objs_def i by (rule ext) (simp add: s(2,4) del: One_nat_def)
  ultimately show ?thesis ..
qed

theorem table_refines_map_witness:
  "\<exists>oid t'. dbTable_create 40 demo_table = Inr (oid, t') \<and> objs t' = (objs demo_table)(oid \<mapsto> 40)
     \<and> objs demo_table oid = None"
  using table_refines_map [OF zero_less_one, of demo_table] demo_table_facts by blast

text \<open>
  C31: iterating over a table meets its ids in ascending order: \<open>begin\<close> is the least id, \<open>next\<close> the
  least id after the given one, or 0 (the \<open>end\<close>) when there is none, and \<open>getObjects\<close> lists all ids.
  As before the table has less than \<open>2 ^ 32\<close> slots.
\<close>

theorem table_iteration:
  assumes "table_ok t" "oid \<in> dom (objs t)"
  shows "dbTable_begin t = Min (dom (objs t))
     \<and> dbTable_next t oid = Inr (if \<exists>j \<in> dom (objs t). oid < j then Min {j \<in> dom (objs t). oid < j} else 0)
     \<and> getObjects t = sorted_list_of_set (dom (objs t)) \<and> alloc_cnt t = card (dom (objs t))"
  using next_result [OF assms(1), of oid] getObjects_result [OF assms(1)] table_okD [OF assms(1)] assms(2)
  by (auto simp: dbTable_begin_def counts_ok_def)

theorem table_iteration_witness: "dbTable_next demo_table 1 = Inr 3 \<and> getObjects demo_table = [1, 3]"
proof -
  have d: "dom (objs demo_table) = {1, 3}" using demo_table_facts by auto
  have m: "{j \<in> {1, 3 :: nat}. 1 < j} = {3}" by auto
  have "1 \<in> dom (objs demo_table)" unfolding d by simp
  from table_iteration [OF demo_table_facts [THEN conjunct1] this] show ?thesis unfolding d m by simp
qed

end
