(* ===== verification/Odb_Hash_Facts.thy ===== *)
theory Odb_Hash_Facts
  imports Odb_Hash Odb_Table_Props
begin

section \<open>Buckets of a hash table\<close>

text \<open>
  The buckets as linked lists over the objects of the table (\<open>chain\<close>), the invariant of the hash
  array (\<open>buckets_ok\<close>), and what draining, linking and reinserting do to them.
\<close>

subsection \<open>Writing the link of an object\<close>

lemma update_obj_ok:
  assumes "table_ok t" "objs t e = Some a"
  shows "table_ok (update_obj e f t)" "objs (update_obj e f t) = (objs t)(e \<mapsto> f a)" "cap (update_obj e f t) = cap t"
proof -
  have so: "slots_ok t" "counts_ok t" "pages_ok t" using assms(1) by (auto simp: table_ok_def slots_ok_def)
  have e: "e < cap t" "slot_at t e = Obj a" "e \<in> ids t" "e \<noteq> 0"
    using assms(2) by (auto simp: objs_def ids_def split: if_splits slot.splits)
  have u: "update_obj e f t = set_slot e (Obj (f a)) t" using e(2) by (simp add: update_obj_def)
  have s: "slot_at (update_obj e f t) j = (if j = e then Obj (f a) else slot_at t j)" for j
    unfolding u by (rule slot_at_set_slot [OF so(3) e(1)])
  have i: "ids (update_obj e f t) = ids t"
    using e unfolding ids_def u set_slot_sel by (auto simp: slot_at_set_slot [OF so(3) e(1)])
  show "cap (update_obj e f t) = cap t" by (simp add: u)
  show o: "objs (update_obj e f t) = (objs t)(e \<mapsto> f a)"
    by (rule ext) (use e(3) in \<open>simp add: objs_def i s\<close>)
  obtain fl where fl: "dll (slot_at t) 0 (free_list t) fl" "distinct fl" "set fl = {1..<cap t} - ids t"
    using so(1) unfolding slots_ok_def by blast
  have "dll (slot_at (update_obj e f t)) 0 (free_list t) fl = dll (slot_at t) 0 (free_list t) fl"
    using fl(3) e(3) by (intro dll_cong) (auto simp: s)
  then have "slots_ok (update_obj e f t)"
    using so(1) fl e(4) unfolding slots_ok_def i s by (auto simp: u intro!: exI [of _ fl])
  moreover have "counts_ok (update_obj e f t)" using so(2) unfolding counts_ok_def i by (simp add: u)
  ultimately show "table_ok (update_obj e f t)" using assms(1) by (simp add: table_ok_def i) (simp add: u)
qed

lemma update_obj_page [simp]: "page_size (update_obj e f t) = page_size t"
  by (simp add: update_obj_def split: slot.split)

lemma set_next_page [simp]: "page_size (set_next e n t) = page_size t"
  by (simp add: set_next_def)

lemma set_next_ok:
  assumes "table_ok t" "objs t e = Some a"
  shows "table_ok (set_next e n t)" "objs (set_next e n t) = (objs t)(e \<mapsto> a\<lparr>next_entry := n\<rparr>)" "cap (set_next e n t) = cap t"
  using update_obj_ok [OF assms, of "\<lambda>entry. entry\<lparr>next_entry := n\<rparr>"] by (simp_all add: set_next_def)

lemma getPtr_Some: "table_ok t \<Longrightarrow> objs t e = Some a \<Longrightarrow> getPtr t e = Inr a"
  using getPtr_objs [OF table_okD(1), of t e] by simp

text \<open>Two states with the same objects, up to the links.\<close>

definition same_but_links :: "('k, 'b) entry_scheme dbTable \<Rightarrow> ('k, 'b) entry_scheme dbTable \<Rightarrow> bool" where
  "same_but_links t t' \<longleftrightarrow> cap t' = cap t \<and> page_size t' = page_size t
     \<and> (\<forall>x. map_option (next_entry_update (\<lambda>_. 0)) (objs t' x) = map_option (next_entry_update (\<lambda>_. 0)) (objs t x))"

lemma same_refl [simp]: "same_but_links t t"
  by (simp add: same_but_links_def)

lemma same_trans: "same_but_links t t' \<Longrightarrow> same_but_links t' t'' \<Longrightarrow> same_but_links t t''"
  by (simp add: same_but_links_def)

lemma same_set_next: "table_ok t \<Longrightarrow> objs t e = Some a \<Longrightarrow> same_but_links t (set_next e n t)"
  by (simp add: same_but_links_def set_next_ok)

lemma same_objs:
  assumes "same_but_links t t'" "objs t x = Some a"
  shows "\<exists>b. objs t' x = Some b \<and> entry_key b = entry_key a"
proof -
  have "map_option (next_entry_update (\<lambda>_. 0)) (objs t' x) = Some (a\<lparr>next_entry := 0\<rparr>)"
    using assms by (simp add: same_but_links_def)
  then obtain b where b: "objs t' x = Some b" "b\<lparr>next_entry := 0\<rparr> = a\<lparr>next_entry := 0\<rparr>" by auto
  have "entry_key b = entry_key (b\<lparr>next_entry := 0\<rparr>)" by simp
  then show ?thesis using b by simp
qed

subsection \<open>Chains\<close>

fun chain :: "(nat \<Rightarrow> ('k, 'b) entry_scheme option) \<Rightarrow> nat \<Rightarrow> nat list \<Rightarrow> bool" where
  "chain m q [] \<longleftrightarrow> q = 0"
| "chain m q (x # xs) \<longleftrightarrow> x = q \<and> q \<noteq> 0 \<and> (\<exists>a. m q = Some a \<and> chain m (next_entry a) xs)"

lemma chain_cong: "(\<And>x. x \<in> set xs \<Longrightarrow> m' x = m x) \<Longrightarrow> chain m' q xs = chain m q xs"
  by (induction xs arbitrary: q) auto

lemma chain_0 [simp]: "chain m 0 xs \<longleftrightarrow> xs = []"
  by (cases xs) auto

lemma chain_Some: "chain m q xs \<Longrightarrow> x \<in> set xs \<Longrightarrow> \<exists>a. m x = Some a"
  by (induction xs arbitrary: q) auto

lemma chain_nonzero: "chain m q xs \<Longrightarrow> x \<in> set xs \<Longrightarrow> x \<noteq> 0"
  by (induction xs arbitrary: q) auto

lemma chain_head: "chain m q xs \<Longrightarrow> q \<noteq> 0 \<Longrightarrow> \<exists>ys a. xs = q # ys \<and> m q = Some a \<and> chain m (next_entry a) ys"
  by (cases xs) auto

lemma chain_fuel_enough:
  assumes "set xs \<subseteq> ids t" "distinct xs"
  shows "length xs \<le> chain_fuel t"
proof -
  have "length xs = card (set xs)" using assms(2) by (simp add: distinct_card)
  also have "\<dots> \<le> card {..<cap t}" using assms(1) by (intro card_mono) (auto simp: ids_def)
  finally show ?thesis by (simp add: chain_fuel_def cap_def)
qed

subsection \<open>Draining\<close>

definition members :: "nat list list \<Rightarrow> nat set" where
  "members cs = set (concat cs)"

lemma members_nth: "x \<in> members cs \<longleftrightarrow> (\<exists>i < length cs. x \<in> set (cs ! i))"
  using nth_mem [of _ cs] by (force simp: members_def in_set_conv_nth [of _ cs])

lemma drain_chain_result:
  assumes "table_ok t" "chain (objs t) cur xs" "chain (objs t) entries ys" "distinct (xs @ ys)" "length xs \<le> fuel"
  shows "\<exists>e t'. drain_chain fuel cur (entries, t) = Inr (e, t') \<and> table_ok t' \<and> chain (objs t') e (rev xs @ ys)
    \<and> same_but_links t t' \<and> (\<forall>x. x \<notin> set xs \<longrightarrow> objs t' x = objs t x)"
  using assms
proof (induction xs arbitrary: cur entries ys t fuel)
  case Nil
  then show ?case by (subst drain_chain.simps) auto
next
  case (Cons x xs)
  obtain a where a: "x = cur" "cur \<noteq> 0" "objs t cur = Some a" "chain (objs t) (next_entry a) xs" using Cons.prems(2) by auto
  obtain f where f: "fuel = Suc f" "length xs \<le> f" using Cons.prems(5) by (cases fuel) auto
  let ?t = "set_next cur entries t"
  note u = set_next_ok [OF Cons.prems(1) a(3), of entries]
  have d: "cur \<notin> set xs" "cur \<notin> set ys" using Cons.prems(4) a(1) by auto
  have c: "chain (objs ?t) (next_entry a) xs" using a(4) d unfolding u(2) by (subst chain_cong) auto
  have "chain (objs ?t) entries ys" using Cons.prems(3) d unfolding u(2) by (subst chain_cong) auto
  then have y: "chain (objs ?t) cur (cur # ys)" using a(2) by (simp add: u(2))
  have "distinct (xs @ cur # ys)" using Cons.prems(4) a(1) by auto
  from Cons.IH [OF u(1) c y this f(2)] obtain e t' where t': "drain_chain f (next_entry a) (cur, ?t) = Inr (e, t')"
    "table_ok t'" "chain (objs t') e (rev xs @ cur # ys)" "same_but_links ?t t'" "\<forall>x. x \<notin> set xs \<longrightarrow> objs t' x = objs ?t x"
    by blast
  have "drain_chain fuel cur (entries, t) = Inr (e, t')"
    using a(2) t'(1) getPtr_Some [OF Cons.prems(1) a(3)] by (subst drain_chain.simps) (simp add: f(1))
  moreover have "same_but_links t t'" using same_trans [OF same_set_next [OF Cons.prems(1) a(3)] t'(4)] .
  moreover have "\<forall>z. z \<notin> set (x # xs) \<longrightarrow> objs t' z = objs t z" using t'(5) by (simp add: u(2) a(1))
  ultimately show ?case using t'(2,3) a(1) by auto
qed

lemma drain_result:
  assumes "table_ok t" "list_all2 (chain (objs t)) tbl cs" "chain (objs t) entries ys" "distinct (concat cs @ ys)"
    and "\<And>c. c \<in> set cs \<Longrightarrow> length c \<le> fuel"
  shows "\<exists>e t'. foldE (\<lambda>cur. drain_chain fuel cur) tbl (entries, t) = Inr (e, t') \<and> table_ok t'
    \<and> (\<exists>zs. chain (objs t') e zs \<and> distinct zs \<and> set zs = set (concat cs) \<union> set ys)
    \<and> same_but_links t t' \<and> (\<forall>x. x \<notin> set (concat cs) \<longrightarrow> objs t' x = objs t x)"
  using assms
proof (induction tbl arbitrary: cs entries ys t)
  case Nil
  then show ?case by auto
next
  case (Cons cur tbl)
  then obtain c cs' where cs: "cs = c # cs'" "chain (objs t) cur c" "list_all2 (chain (objs t)) tbl cs'"
    by (auto simp: list_all2_Cons1)
  have d: "distinct (c @ ys)" "distinct c" "set c \<inter> set (concat cs') = {}" "distinct (concat cs' @ ys)"
    using Cons.prems(4) cs(1) by auto
  have len: "length c \<le> fuel" "\<And>c. c \<in> set cs' \<Longrightarrow> length c \<le> fuel" using Cons.prems(5) cs(1) by auto
  from drain_chain_result [OF Cons.prems(1) cs(2) Cons.prems(3) d(1) len(1)] obtain e1 t1 where
    t1: "drain_chain fuel cur (entries, t) = Inr (e1, t1)" "table_ok t1" "chain (objs t1) e1 (rev c @ ys)"
      "same_but_links t t1" "\<forall>x. x \<notin> set c \<longrightarrow> objs t1 x = objs t x" by blast
  have "list_all2 (chain (objs t1)) tbl cs'"
    unfolding list_all2_conv_all_nth
  proof (intro conjI allI impI)
    show len: "length tbl = length cs'" using cs(3) by (rule list_all2_lengthD)
    fix i assume i: "i < length tbl"
    then have "objs t1 x = objs t x" if "x \<in> set (cs' ! i)" for x
      using t1(5) d(3) that len members_nth [of x cs'] by (auto simp: members_def)
    then have "chain (objs t1) (tbl ! i) (cs' ! i) = chain (objs t) (tbl ! i) (cs' ! i)" by (rule chain_cong)
    then show "chain (objs t1) (tbl ! i) (cs' ! i)" using list_all2_nthD [OF cs(3) i] by simp
  qed
  moreover have "distinct (concat cs' @ rev c @ ys)" using Cons.prems(4) cs(1) by auto
  ultimately obtain e t' zs where t': "foldE (\<lambda>cur. drain_chain fuel cur) tbl (e1, t1) = Inr (e, t')" "table_ok t'"
    "chain (objs t') e zs" "distinct zs" "set zs = set (concat cs') \<union> set (rev c @ ys)" "same_but_links t1 t'"
    "\<forall>x. x \<notin> set (concat cs') \<longrightarrow> objs t' x = objs t1 x"
    using Cons.IH [OF t1(2) _ t1(3) _ len(2)] by blast
  then show ?case using t1 same_trans [OF t1(4) t'(6)] cs(1) by (intro exI [of _ e] exI [of _ t']) auto
qed

subsection \<open>Buckets\<close>

lemma bucket_less: "sz = 2 ^ j \<Longrightarrow> bucket hash k sz < sz"
proof -
  have "bucket hash k (2 ^ j) < 2 ^ j"
  proof (cases "j < 32")
    case True
    have "and (hash k) (word_of_nat (2 ^ j) - 1) = take_bit j (hash k)"
      by (simp add: take_bit_eq_mask mask_eq_exp_minus_1)
    then show ?thesis by (simp add: bucket_def unsigned_take_bit_eq)
  next
    case False
    have "unat (and (hash k) (word_of_nat (2 ^ j) - 1)) < 2 ^ 32" using unsigned_less [of "and (hash k) (word_of_nat (2 ^ j) - 1)"] by simp
    also have "(2::nat) ^ 32 \<le> 2 ^ j" using False by (intro power_increasing) simp_all
    finally show ?thesis by (simp only: bucket_def)
  qed
  then show "sz = 2 ^ j \<Longrightarrow> bucket hash k sz < sz" by simp
qed

definition buckets_ok :: "('k \<Rightarrow> 32 word) \<Rightarrow> nat list \<Rightarrow> (nat \<Rightarrow> ('k, 'b) entry_scheme option) \<Rightarrow> nat list list \<Rightarrow> bool" where
  "buckets_ok hash tbl m cs \<longleftrightarrow> length cs = length tbl \<and> (\<exists>j. length tbl = 2 ^ j)
     \<and> (\<forall>i < length tbl. chain m (tbl ! i) (cs ! i) \<and> distinct (cs ! i)
          \<and> (\<forall>x \<in> set (cs ! i). \<forall>a. m x = Some a \<longrightarrow> bucket hash (entry_key a) (length tbl) = i))"

lemma buckets_okD:
  assumes "buckets_ok hash tbl m cs"
  shows "length cs = length tbl" "\<exists>j. length tbl = 2 ^ j"
    "i < length tbl \<Longrightarrow> chain m (tbl ! i) (cs ! i)" "i < length tbl \<Longrightarrow> distinct (cs ! i)"
    "i < length tbl \<Longrightarrow> x \<in> set (cs ! i) \<Longrightarrow> m x = Some a \<Longrightarrow> bucket hash (entry_key a) (length tbl) = i"
    "bucket hash k (length tbl) < length tbl"
proof -
  show j: "\<exists>j. length tbl = 2 ^ j" using assms unfolding buckets_ok_def by (elim conjE)
  then obtain j where "length tbl = 2 ^ j" ..
  then show "bucket hash k (length tbl) < length tbl" by (rule bucket_less)
  note inv = assms [unfolded buckets_ok_def, THEN conjunct2, THEN conjunct2, rule_format]
  show "length cs = length tbl" using assms unfolding buckets_ok_def by (elim conjE)
  assume i: "i < length tbl"
  show "chain m (tbl ! i) (cs ! i)" by (rule inv [OF i, THEN conjunct1])
  show "distinct (cs ! i)" by (rule inv [OF i, THEN conjunct2, THEN conjunct1])
  show "bucket hash (entry_key a) (length tbl) = i" if "x \<in> set (cs ! i)" "m x = Some a"
    using inv [OF i, THEN conjunct2, THEN conjunct2] that by blast
qed

lemma buckets_Some: "buckets_ok hash tbl m cs \<Longrightarrow> x \<in> members cs \<Longrightarrow> \<exists>a. m x = Some a"
  using buckets_okD(1,3) chain_Some unfolding members_nth by metis

lemma buckets_home:
  assumes "buckets_ok hash tbl m cs" "x \<in> members cs" "m x = Some a"
  shows "x \<in> set (cs ! bucket hash (entry_key a) (length tbl))"
  using assms(2,3) buckets_okD(1,5) [OF assms(1)] unfolding members_nth by metis

lemma buckets_distinct:
  assumes "buckets_ok hash tbl m cs"
  shows "distinct (concat cs)"
proof -
  have len: "length cs = length tbl" using assms by (simp add: buckets_ok_def)
  have dis: "set (cs ! i) \<inter> set (cs ! j) = {}" if "i < j" "j < length cs" for i j
  proof -
    have False if x: "x \<in> set (cs ! i)" "x \<in> set (cs ! j)" for x
    proof -
      have "x \<in> members cs" using x(2) \<open>j < length cs\<close> members_nth by blast
      then obtain a where a: "m x = Some a" using buckets_Some [OF assms] by blast
      have "bucket hash (entry_key a) (length tbl) = i" "bucket hash (entry_key a) (length tbl) = j"
        using buckets_okD(5) [OF assms _ x(1) a] buckets_okD(5) [OF assms _ x(2) a] \<open>i < j\<close> \<open>j < length cs\<close> len by simp_all
      then show False using \<open>i < j\<close> by simp
    qed
    then show ?thesis by blast
  qed
  have "distinct (concat ds)" if "\<And>i. i < length ds \<Longrightarrow> distinct (ds ! i)"
    "\<And>i j. i < j \<Longrightarrow> j < length ds \<Longrightarrow> set (ds ! i) \<inter> set (ds ! j) = {}" for ds :: "nat list list"
    using that
  proof (induction ds)
    case (Cons d ds)
    have "distinct (concat ds)" using Cons.prems(1) [of "Suc i" for i] Cons.prems(2) [of "Suc i" "Suc j" for i j]
      by (intro Cons.IH) auto
    moreover have "set d \<inter> set (concat ds) = {}"
      using Cons.prems(2) [of 0 "Suc j" for j] by (fastforce simp: in_set_conv_nth)
    ultimately show ?case using Cons.prems(1) [of 0] by simp
  qed simp
  then show ?thesis using dis assms len by (auto simp: buckets_ok_def)
qed

lemma buckets_ids: "buckets_ok hash tbl (objs t) cs \<Longrightarrow> members cs \<subseteq> ids t"
  using buckets_Some [of hash tbl "objs t" cs] dom_objs [of t] by blast

lemma link_result:
  assumes "table_ok t" "buckets_ok hash tbl (objs t) cs" "objs t e = Some a" "e \<notin> members cs"
  shows "\<exists>tbl' t' cs'. link_entry hash e (tbl, t) = Inr (tbl', t') \<and> table_ok t' \<and> buckets_ok hash tbl' (objs t') cs'
    \<and> members cs' = insert e (members cs) \<and> length tbl' = length tbl \<and> same_but_links t t'
    \<and> (\<forall>x. x \<noteq> e \<longrightarrow> objs t' x = objs t x)"
proof -
  let ?hid = "bucket hash (entry_key a) (length tbl)"
  let ?t = "set_next e (tbl ! ?hid) t" and ?tbl = "tbl[?hid := e]" and ?cs = "cs[?hid := e # cs ! ?hid]"
  note u = set_next_ok [OF assms(1,3), of "tbl ! ?hid"]
  note b = buckets_okD(1,2) [OF assms(2)] and hid = buckets_okD(6) [OF assms(2), of "entry_key a"]
  have e0: "e \<noteq> 0" using assms(1,3) ids_pos [of 0 t] dom_objs [of t] by (metis domI less_irrefl)
  have i: "chain (objs t) (tbl ! i) (cs ! i)" "distinct (cs ! i)" "e \<notin> set (cs ! i)"
    "\<And>x a. x \<in> set (cs ! i) \<Longrightarrow> objs t x = Some a \<Longrightarrow> bucket hash (entry_key a) (length tbl) = i"
    if "i < length tbl" for i
    using buckets_okD(3-5) [OF assms(2) that] assms(4) that b(1) unfolding members_nth by simp_all
  have c: "chain (objs ?t) (tbl ! i) (cs ! i)" if "i < length tbl" for i
    using i(1,3) [OF that] by (subst chain_cong [of _ _ "objs t"]) (auto simp: u(2))
  have "buckets_ok hash ?tbl (objs ?t) ?cs"
    unfolding buckets_ok_def
  proof (intro conjI allI impI ballI)
    fix j assume j: "j < length ?tbl"
    then have j': "j < length tbl" by simp
    show "chain (objs ?t) (?tbl ! j) (?cs ! j)"
    proof (cases "j = ?hid")
      case True
      then show ?thesis using hid b(1) e0 c [OF hid] by (simp add: u(2))
    next
      case False
      then show ?thesis using c [OF j'] by simp
    qed
    show "distinct (?cs ! j)" using i(2,3) [OF j'] b(1) j' by (cases "j = ?hid") auto
    fix x d assume x: "x \<in> set (?cs ! j)" "objs ?t x = Some d"
    show "bucket hash (entry_key d) (length ?tbl) = j"
    proof (cases "x = e")
      case True
      then have "j = ?hid" using x(1) i(3) [OF j'] by (cases "j = ?hid") auto
      then show ?thesis using x(2) True by (auto simp: u(2))
    next
      case False
      then have "x \<in> set (cs ! j)" "objs t x = Some d" using x b(1) j' False by (cases "j = ?hid", auto simp: u(2))
      then show ?thesis using i(4) [OF j'] by simp
    qed
  qed (use b in auto)
  moreover have "members ?cs = insert e (members cs)"
  proof -
    have "cs = take ?hid cs @ cs ! ?hid # drop (Suc ?hid) cs" using hid b(1) by (simp add: id_take_nth_drop [symmetric])
    then have "concat cs = concat (take ?hid cs) @ cs ! ?hid @ concat (drop (Suc ?hid) cs)"
      by (metis concat.simps(2) concat_append)
    moreover have "?cs = take ?hid cs @ (e # cs ! ?hid) # drop (Suc ?hid) cs"
      using hid b(1) by (simp add: upd_conv_take_nth_drop)
    ultimately show ?thesis by (simp add: members_def del: set_concat)
  qed
  moreover have "link_entry hash e (tbl, t) = Inr (?tbl, ?t)"
    using getPtr_Some [OF assms(1,3)] hid by (simp add: link_entry_def Let_def)
  ultimately show ?thesis using u(1) same_set_next [OF assms(1,3)] by (auto simp: u(2))
qed

lemma reinsert_result:
  assumes "table_ok t" "buckets_ok hash tbl (objs t) cs" "chain (objs t) cur xs" "distinct xs"
    "set xs \<inter> members cs = {}" "length xs \<le> fuel"
  shows "\<exists>tbl' t' cs'. reinsert hash fuel cur (tbl, t) = Inr (tbl', t') \<and> table_ok t' \<and> buckets_ok hash tbl' (objs t') cs'
    \<and> members cs' = members cs \<union> set xs \<and> length tbl' = length tbl \<and> same_but_links t t'"
  using assms
proof (induction xs arbitrary: t tbl cs cur fuel)
  case Nil
  then show ?case by (subst reinsert.simps) auto
next
  case (Cons x xs)
  obtain a where a: "x = cur" "cur \<noteq> 0" "objs t cur = Some a" "chain (objs t) (next_entry a) xs" using Cons.prems(3) by auto
  obtain f where f: "fuel = Suc f" "length xs \<le> f" using Cons.prems(6) by (cases fuel) auto
  have "cur \<notin> members cs" using Cons.prems(5) a(1) by auto
  from link_result [OF Cons.prems(1,2) a(3) this] obtain tbl1 t1 cs1 where
    t1: "link_entry hash cur (tbl, t) = Inr (tbl1, t1)" "table_ok t1" "buckets_ok hash tbl1 (objs t1) cs1"
      "members cs1 = insert cur (members cs)" "length tbl1 = length tbl" "same_but_links t t1"
      "\<forall>x. x \<noteq> cur \<longrightarrow> objs t1 x = objs t x" by blast
  have c: "chain (objs t1) (next_entry a) xs"
    using a(4) t1(7) Cons.prems(4) a(1) by (subst chain_cong [of _ _ "objs t"]) auto
  have d: "distinct xs" "set xs \<inter> members cs1 = {}" using Cons.prems(4,5) a(1) t1(4) by auto
  from Cons.IH [OF t1(2,3) c d f(2)] obtain tbl' t' cs' where
    t': "reinsert hash f (next_entry a) (tbl1, t1) = Inr (tbl', t')" "table_ok t'" "buckets_ok hash tbl' (objs t') cs'"
      "members cs' = members cs1 \<union> set xs" "length tbl' = length tbl1" "same_but_links t1 t'" by blast
  have "reinsert hash fuel cur (tbl, t) = Inr (tbl', t')"
    using a(2) t'(1) t1(1) getPtr_Some [OF Cons.prems(1) a(3)] by (subst reinsert.simps) (simp add: f(1))
  then show ?case using t' t1 same_trans [OF t1(6) t'(6)] a(1) by auto
qed

lemma buckets_empty: "buckets_ok hash (replicate (2 ^ j) 0) m (replicate (2 ^ j) [])"
  by (auto simp: buckets_ok_def)

lemma rehash_result:
  assumes "table_ok t" "buckets_ok hash (hash_tbl h) (objs t) cs" "sz = 2 ^ j"
  shows "\<exists>h' t' cs'. rehash hash sz (h, t) = Inr (h', t') \<and> table_ok t' \<and> buckets_ok hash (hash_tbl h') (objs t') cs'
    \<and> members cs' = members cs \<and> length (hash_tbl h') = sz \<and> num_entries h' = num_entries h \<and> same_but_links t t'"
proof -
  have dist: "distinct (concat cs)" by (rule buckets_distinct [OF assms(2)])
  have mem: "members cs \<subseteq> ids t" by (rule buckets_ids [OF assms(2)])
  have c: "list_all2 (chain (objs t)) (hash_tbl h) cs" using assms(2) by (simp add: buckets_ok_def list_all2_conv_all_nth)
  have "length c \<le> chain_fuel t" if "c \<in> set cs" for c
    using that mem dist by (intro chain_fuel_enough) (auto simp: members_def distinct_concat_iff)
  with drain_result [OF assms(1) c, of 0 "[]" "chain_fuel t"] dist obtain e t1 zs where
    t1: "drain (hash_tbl h) t = Inr (e, t1)" "table_ok t1" "chain (objs t1) e zs" "distinct zs" "set zs = members cs"
      "same_but_links t t1" by (auto simp: drain_def members_def)
  have "set zs \<subseteq> ids t1" using chain_Some [OF t1(3)] dom_objs [of t1] by blast
  then have len: "length zs \<le> chain_fuel t1" using t1(4) by (rule chain_fuel_enough)
  have em: "members (replicate (2 ^ j) []) = {}" by (simp add: members_def)
  then have d: "set zs \<inter> members (replicate (2 ^ j) []) = {}" by simp
  from reinsert_result [OF t1(2) buckets_empty [of hash] t1(3,4) d len] obtain tbl' t' cs' where
    t': "reinsert hash (chain_fuel t1) e (replicate (2 ^ j) 0, t1) = Inr (tbl', t')" "table_ok t'"
      "buckets_ok hash tbl' (objs t') cs'" "members cs' = set zs" "length tbl' = 2 ^ j" "same_but_links t1 t'"
    by (auto simp: em)
  have "rehash hash sz (h, t) = Inr (h\<lparr>hash_tbl := tbl'\<rparr>, t')" using t1(1) t'(1) by (simp add: rehash_def assms(3))
  moreover have "members cs' = members cs" using t'(4) t1(5) by simp
  ultimately show ?thesis using t' assms(3) same_trans [OF t1(6) t'(6)]
    by (intro exI [of _ "h\<lparr>hash_tbl := tbl'\<rparr>"] exI [of _ t'] exI [of _ cs'] conjI) simp_all
qed

end
