(* ===== verification/Odb_Hash_Ops.thy ===== *)
theory Odb_Hash_Ops
  imports Odb_Hash_Facts
begin

section \<open>The operations on hash tables\<close>

text \<open>
  What \<open>insert\<close>, \<open>find\<close> and \<open>remove\<close> do to the set of the members of a hash table, under the
  invariant \<open>hash_ok\<close>: the buckets are chains through the members, the counter counts them, and
  the load lies within the bounds that growing and shrinking keep.
\<close>

definition load_ok :: "dbHashTable \<Rightarrow> bool" where
  "load_ok h \<longleftrightarrow> (hash_tbl h = [] \<or> num_entries h < 5 * length (hash_tbl h))
     \<and> (1 < length (hash_tbl h) \<longrightarrow> length (hash_tbl h) \<le> num_entries h + num_entries h div 10)"

definition hash_ok :: "('k \<Rightarrow> 32 word) \<Rightarrow> ('k, 'b) index \<Rightarrow> nat set \<Rightarrow> bool" where
  "hash_ok hash = (\<lambda>(h, t) M. table_ok t \<and> cap t \<le> 2 ^ 31 \<and> num_entries h = card M \<and> load_ok h \<and> M \<subseteq> ids t
     \<and> (if hash_tbl h = [] then M = {} else \<exists>cs. buckets_ok hash (hash_tbl h) (objs t) cs \<and> members cs = M))"

lemma hash_okD:
  assumes "hash_ok hash (h, t) M"
  shows "table_ok t" "cap t \<le> 2 ^ 31" "num_entries h = card M" "load_ok h" "M \<subseteq> ids t" "finite M"
    "hash_tbl h = [] \<Longrightarrow> M = {}" "hash_tbl h \<noteq> [] \<Longrightarrow> \<exists>cs. buckets_ok hash (hash_tbl h) (objs t) cs \<and> members cs = M"
proof -
  note ok = assms [unfolded hash_ok_def prod.case]
  show "table_ok t" "cap t \<le> 2 ^ 31" "num_entries h = card M" "load_ok h" and M: "M \<subseteq> ids t" using ok by blast+
  show "finite M" using M finite_ids by (rule finite_subset)
  show "hash_tbl h = [] \<Longrightarrow> M = {}" using ok by simp
  show "hash_tbl h \<noteq> [] \<Longrightarrow> \<exists>cs. buckets_ok hash (hash_tbl h) (objs t) cs \<and> members cs = M" using ok by simp
qed

lemma card_ids_bound: "table_ok t \<Longrightarrow> cap t \<le> 2 ^ 31 \<Longrightarrow> M \<subseteq> ids t \<Longrightarrow> card M < 2 ^ 31"
proof -
  assume a: "table_ok t" "cap t \<le> 2 ^ 31" "M \<subseteq> ids t"
  have "M \<subseteq> {1..<cap t}"
  proof
    fix x assume "x \<in> M"
    then have "x \<in> ids t" using a(3) by blast
    then show "x \<in> {1..<cap t}" using ids_pos [of x t] ids_cap [of x t] by (simp add: Suc_le_eq)
  qed
  then have "card M \<le> card {1..<cap t}" by (intro card_mono) simp_all
  then have "card M \<le> cap t - 1" by simp
  moreover have "(0::nat) < 2 ^ 31" by simp
  ultimately show ?thesis using a(2) by linarith
qed

lemma same_ids: "same_but_links t t' \<Longrightarrow> ids t' = ids t"
proof -
  assume s: "same_but_links t t'"
  have "map_option (next_entry_update (\<lambda>_. 0)) (objs t' x) = map_option (next_entry_update (\<lambda>_. 0)) (objs t x)" for x
    using s by (simp add: same_but_links_def)
  from this [THEN arg_cong, of "\<lambda>z. z = None"] have "(objs t' x = None) = (objs t x = None)" for x
    by (simp only: option.map_disc_iff)
  then have "dom (objs t') = dom (objs t)" unfolding dom_def by simp
  then show ?thesis by simp
qed

subsection \<open>Insertion\<close>

lemma hash_insert_result:
  assumes "hash_ok hash (h, t) M" "objs t e = Some a" "e \<notin> M"
  shows "\<exists>h' t'. hash_insert hash e (h, t) = Inr (h', t') \<and> hash_ok hash (h', t') (insert e M) \<and> same_but_links t t'"
proof -
  note ok = hash_okD [OF assms(1)]
  have e: "e \<in> ids t" using assms(2) dom_objs [of t] by blast
  then have iM: "insert e M \<subseteq> ids t" using ok(5) by simp
  have num: "(num_entries h + 1) mod 2 ^ 32 = card (insert e M)"
    using card_ids_bound [OF ok(1,2) iM] assms(3) ok(3,6) by simp
  let ?h = "h\<lparr>num_entries := card (insert e M)\<rparr>"
  have "\<exists>h1 t1 cs. (if length (hash_tbl h) = 0 then Inr (?h\<lparr>hash_tbl := [0]\<rparr>, t)
               else if num_entries ?h div length (hash_tbl h) > CHAIN_LENGTH then growTable hash (?h, t)
               else Inr (?h, t)) = Inr (h1, t1) \<and> table_ok t1 \<and> buckets_ok hash (hash_tbl h1) (objs t1) cs
         \<and> members cs = M \<and> num_entries h1 = card (insert e M) \<and> load_ok h1 \<and> same_but_links t t1"
  proof (cases "hash_tbl h = []")
    case True
    have "buckets_ok hash [0] (objs t) [[]]" using buckets_empty [of hash 0 "objs t"] by simp
    then show ?thesis using True ok(1,7) by (intro exI [of _ "?h\<lparr>hash_tbl := [0]\<rparr>"] exI [of _ t] exI [of _ "[[]]"])
        (simp add: load_ok_def members_def)
  next
    case False
    obtain cs where cs: "buckets_ok hash (hash_tbl h) (objs t) cs" "members cs = M" using ok(8) [OF False] by blast
    obtain j where j: "length (hash_tbl h) = 2 ^ j" using buckets_okD(2) [OF cs(1)] by blast
    have c: "card (insert e M) = num_entries h + 1" using assms(3) ok(3,6) by simp
    have l: "num_entries h < 5 * length (hash_tbl h)"
      "1 < length (hash_tbl h) \<longrightarrow> length (hash_tbl h) \<le> num_entries h + num_entries h div 10"
      using ok(4) False by (simp_all add: load_ok_def)
    show ?thesis
    proof (cases "num_entries ?h div length (hash_tbl h) > CHAIN_LENGTH")
      case True
      have sz: "0 < length (hash_tbl h)" using False by simp
      have "5 * length (hash_tbl h) \<le> num_entries h + 1"
      proof -
        have "5 \<le> card (insert e M) div length (hash_tbl h)" using True by (simp add: CHAIN_LENGTH_def)
        then show ?thesis using c sz by (simp add: less_eq_div_iff_mult_less_eq)
      qed
      then have five: "card (insert e M) = 5 * length (hash_tbl h)" using l(1) c by simp
      have "length (hash_tbl h) + length (hash_tbl h) = 2 ^ Suc j" by (simp add: j)
      from rehash_result [OF ok(1), of hash ?h cs, OF _ this] cs(1) obtain h1 t1 cs1 where
        r: "growTable hash (?h, t) = Inr (h1, t1)" "table_ok t1" "buckets_ok hash (hash_tbl h1) (objs t1) cs1"
          "members cs1 = members cs" "length (hash_tbl h1) = length (hash_tbl h) + length (hash_tbl h)"
          "num_entries h1 = card (insert e M)" "same_but_links t t1"
        by (auto simp: growTable_def)
      have "load_ok h1" using five r(5,6) sz by (auto simp: load_ok_def)
      then show ?thesis using r cs(2) True False by (intro exI [of _ h1] exI [of _ t1] exI [of _ cs1]) simp
    next
      case f: False
      have sz: "0 < length (hash_tbl h)" using False by simp
      have "card (insert e M) div length (hash_tbl h) < 5" using f by (simp add: CHAIN_LENGTH_def)
      then have "card (insert e M) < 5 * length (hash_tbl h)" using sz by (simp add: div_less_iff_less_mult)
      moreover have "num_entries h + num_entries h div 10 \<le> card (insert e M) + card (insert e M) div 10"
        unfolding c by (intro add_mono div_le_mono) simp_all
      ultimately have "load_ok ?h" using l(2) unfolding load_ok_def by (auto intro: le_trans)
      then show ?thesis using f False cs ok(1) by (intro exI [of _ ?h] exI [of _ t] exI [of _ cs]) simp
    qed
  qed
  then obtain h1 t1 cs where g: "(if length (hash_tbl h) = 0 then Inr (?h\<lparr>hash_tbl := [0]\<rparr>, t)
               else if num_entries ?h div length (hash_tbl h) > CHAIN_LENGTH then growTable hash (?h, t)
               else Inr (?h, t)) = Inr (h1, t1)" "table_ok t1" "buckets_ok hash (hash_tbl h1) (objs t1) cs"
         "members cs = M" "num_entries h1 = card (insert e M)" "load_ok h1" "same_but_links t t1" by blast
  obtain b where b: "objs t1 e = Some b" using same_objs [OF g(7) assms(2)] by blast
  obtain tbl' t' cs' where l: "link_entry hash e (hash_tbl h1, t1) = Inr (tbl', t')" "table_ok t'"
    "buckets_ok hash tbl' (objs t') cs'" "members cs' = insert e M" "length tbl' = length (hash_tbl h1)" "same_but_links t1 t'"
    using link_result [OF g(2,3) b] assms(3) g(4) by auto
  let ?h' = "h1\<lparr>hash_tbl := tbl'\<rparr>"
  have tb: "hash_tbl ?h = hash_tbl h" by simp
  have "hash_insert hash e (h, t) = Inr (?h', t')"
    unfolding hash_insert_def Let_def prod.case num tb g(1) bindE_simps l(1) by simp
  moreover have s: "same_but_links t t'" using same_trans [OF g(7) l(6)] .
  moreover have "hash_ok hash (?h', t') (insert e M)"
  proof -
    have "tbl' \<noteq> []" using buckets_okD(2) [OF l(3)] by auto
    moreover have "load_ok ?h'" using g(6) l(5) unfolding load_ok_def by (simp flip: length_0_conv)
    moreover have "cap t' \<le> 2 ^ 31" using s ok(2) by (simp add: same_but_links_def)
    ultimately show ?thesis using l(2-4) g(5) iM same_ids [OF s] unfolding hash_ok_def by auto
  qed
  ultimately show ?thesis by blast
qed

subsection \<open>Lookup\<close>

lemma find_chain_result:
  assumes "table_ok t" "chain (objs t) cur xs" "length xs \<le> fuel"
  shows "find_chain fuel k cur t = Inr (case find (\<lambda>x. map_option entry_key (objs t x) = Some k) xs of Some x \<Rightarrow> x | None \<Rightarrow> 0)"
  using assms(2,3)
proof (induction xs arbitrary: cur fuel)
  case Nil
  then show ?case by (subst find_chain.simps) simp
next
  case (Cons x xs)
  obtain a where a: "x = cur" "cur \<noteq> 0" "objs t cur = Some a" "chain (objs t) (next_entry a) xs" using Cons.prems(1) by auto
  obtain f where f: "fuel = Suc f" "length xs \<le> f" using Cons.prems(2) by (cases fuel) auto
  show ?case
    using a Cons.IH [OF a(4) f(2)] getPtr_Some [OF assms(1) a(3)] by (subst find_chain.simps) (simp add: f(1))
qed

lemma hash_find_result:
  assumes "hash_ok hash (h, t) M"
  shows "\<exists>x. hash_find hash k (h, t) = Inr x
     \<and> (x = 0 \<and> (\<forall>y \<in> M. map_option entry_key (objs t y) \<noteq> Some k) \<or> x \<noteq> 0 \<and> x \<in> M \<and> map_option entry_key (objs t x) = Some k)"
proof (cases "hash_tbl h = []")
  case True
  then show ?thesis using hash_okD(7) [OF assms] by (simp add: hash_find_def)
next
  case False
  note ok = hash_okD [OF assms]
  obtain cs where cs: "buckets_ok hash (hash_tbl h) (objs t) cs" "members cs = M" using ok(8) [OF False] by blast
  let ?i = "bucket hash k (length (hash_tbl h))"
  have i: "?i < length (hash_tbl h)" by (rule buckets_okD(6) [OF cs(1)])
  note c = buckets_okD(3) [OF cs(1) i] and d = buckets_okD(4) [OF cs(1) i]
  have sub: "set (cs ! ?i) \<subseteq> M" using i buckets_okD(1) [OF cs(1)] cs(2) members_nth [of _ cs] by auto
  then have len: "length (cs ! ?i) \<le> chain_fuel t" using ok(5) d by (intro chain_fuel_enough) blast+
  let ?P = "\<lambda>x. map_option entry_key (objs t x) = Some k"
  have r: "hash_find hash k (h, t) = Inr (case find ?P (cs ! ?i) of Some x \<Rightarrow> x | None \<Rightarrow> 0)"
    using i False find_chain_result [OF ok(1) c len] by (simp add: hash_find_def Let_def)
  show ?thesis
  proof (cases "find ?P (cs ! ?i)")
    case None
    have "\<not> ?P y" if y: "y \<in> M" for y
    proof
      assume "?P y"
      then obtain a where a: "objs t y = Some a" "entry_key a = k" by auto
      have "y \<in> set (cs ! ?i)" using buckets_home [OF cs(1) _ a(1)] y cs(2) a(2) by simp
      then show False using None \<open>?P y\<close> by (auto simp: find_None_iff)
    qed
    then show ?thesis using r None by auto
  next
    case (Some x)
    then have "x \<in> set (cs ! ?i)" "?P x" by (auto simp: find_Some_iff)
    then show ?thesis using r Some sub chain_nonzero [OF c] by auto
  qed
qed

subsection \<open>Removal\<close>

lemma chain_skip:
  assumes "chain m q (ps @ p # x # xs)" "distinct (ps @ p # x # xs)" "m x = Some a" "m p = Some b"
  shows "chain (m(p \<mapsto> b\<lparr>next_entry := next_entry a\<rparr>)) q (ps @ p # xs)"
  using assms(1,2)
proof (induction ps arbitrary: q)
  case Nil
  define m' where "m' = m(p \<mapsto> b\<lparr>next_entry := next_entry a\<rparr>)"
  have "chain m' (next_entry a) xs = chain m (next_entry a) xs"
    using Nil.prems(2) by (intro chain_cong) (auto simp: m'_def)
  moreover have "m' p = Some (b\<lparr>next_entry := next_entry a\<rparr>)" by (simp add: m'_def)
  ultimately have "chain m' q (p # xs)" using Nil.prems assms(3,4) by simp
  then show ?case by (simp only: m'_def append_Nil)
next
  case (Cons y ps)
  then obtain c where c: "y = q" "q \<noteq> 0" "m q = Some c" "chain m (next_entry c) (ps @ p # x # xs)" by auto
  then show ?case using Cons.IH [OF c(4)] Cons.prems(2) by simp
qed

lemma buckets_unique:
  assumes "buckets_ok hash tbl m cs" "i < length tbl" "j < length tbl" "x \<in> set (cs ! i)" "x \<in> set (cs ! j)"
  shows "i = j"
proof -
  obtain a where "m x = Some a" using chain_Some [OF buckets_okD(3) [OF assms(1,2)] assms(4)] by blast
  then show ?thesis using buckets_okD(5) [OF assms(1,2,4)] buckets_okD(5) [OF assms(1,3,5)] by metis
qed

lemma buckets_shorten:
  assumes "buckets_ok hash tbl m cs" "i < length tbl" "chain m' q ys" "distinct ys" "set ys = set (cs ! i) - {e}"
    and "\<And>x. x \<notin> set ys \<Longrightarrow> m' x = m x" "\<And>x. map_option entry_key (m' x) = map_option entry_key (m x)"
    and "e \<in> set (cs ! i)"
  shows "buckets_ok hash (tbl[i := q]) m' (cs[i := ys])" "members (cs[i := ys]) = members cs - {e}"
proof -
  note b = buckets_okD [OF assms(1)]
  have other: "set (cs ! j) \<inter> set (cs ! i) = {}" if "j < length tbl" "j \<noteq> i" for j
    using buckets_unique [OF assms(1) that(1) assms(2)] that(2) by blast
  show "buckets_ok hash (tbl[i := q]) m' (cs[i := ys])"
    unfolding buckets_ok_def
  proof (intro conjI allI impI ballI)
    fix j assume "j < length (tbl[i := q])"
    then have j: "j < length tbl" by simp
    have "chain m' (tbl ! j) (cs ! j)" if "j \<noteq> i"
      using b(3) [OF j] other [OF j that] assms(5,6) by (subst chain_cong [of _ _ m]) blast+
    then show "chain m' (tbl[i := q] ! j) (cs[i := ys] ! j)" using assms(3) j b(1) by (cases "j = i") simp_all
    show "distinct (cs[i := ys] ! j)" using assms(4) j b(1) b(4) [OF j] by (cases "j = i") simp_all
    fix x a assume x: "x \<in> set (cs[i := ys] ! j)" "m' x = Some a"
    have "x \<in> set (cs ! j)" using x(1) assms(5) j b(1) by (cases "j = i") auto
    moreover obtain a' where "m x = Some a'" "entry_key a' = entry_key a" 
      using x(2) assms(7) [of x] by (cases "m x") auto
    ultimately show "bucket hash (entry_key a) (length (tbl[i := q])) = j" using b(5) [OF j, of x a'] by simp
  qed (use b(1,2) in simp_all)
  show "members (cs[i := ys]) = members cs - {e}"
  proof (rule set_eqI)
    fix x
    have "(\<exists>j < length tbl. x \<in> set (cs[i := ys] ! j)) \<longleftrightarrow> (\<exists>j < length tbl. x \<in> set (cs ! j)) \<and> x \<noteq> e"
    proof
      assume "\<exists>j < length tbl. x \<in> set (cs[i := ys] ! j)"
      then obtain j where j: "j < length tbl" "x \<in> set (cs[i := ys] ! j)" by blast
      have "x \<in> set (cs ! j) \<and> x \<noteq> e"
        using j assms(5,8) b(1) other [OF j(1)] by (cases "j = i") auto
      then show "(\<exists>j < length tbl. x \<in> set (cs ! j)) \<and> x \<noteq> e" using j(1) by blast
    next
      assume "(\<exists>j < length tbl. x \<in> set (cs ! j)) \<and> x \<noteq> e"
      then obtain j where j: "j < length tbl" "x \<in> set (cs ! j)" "x \<noteq> e" by blast
      then have "x \<in> set (cs[i := ys] ! j)" using assms(5) b(1) by (cases "j = i") auto
      then show "\<exists>j < length tbl. x \<in> set (cs[i := ys] ! j)" using j(1) by blast
    qed
    then show "x \<in> members (cs[i := ys]) \<longleftrightarrow> x \<in> members cs - {e}"
      unfolding Diff_iff members_nth using b(1) by simp
  qed
qed

lemma remove_chain_result:
  assumes "table_ok t" "buckets_ok hash (hash_tbl h) (objs t) cs" "hid < length (hash_tbl h)" "e \<in> set (cs ! hid)"
    and "cs ! hid = ps @ xs" "chain (objs t) cur xs" "e \<in> set xs" "length xs \<le> fuel"
    and "prev = (if ps = [] then 0 else last ps)"
  shows "\<exists>h' t' cs'. remove_chain hash e hid fuel prev cur (h, t) = removed hash (h', t') \<and> table_ok t'
     \<and> buckets_ok hash (hash_tbl h') (objs t') cs' \<and> members cs' = members cs - {e}
     \<and> length (hash_tbl h') = length (hash_tbl h) \<and> num_entries h' = num_entries h \<and> same_but_links t t'"
  using assms(5-9)
proof (induction xs arbitrary: ps cur prev fuel)
  case (Cons x xs)
  obtain a where a: "x = cur" "cur \<noteq> 0" "objs t cur = Some a" "chain (objs t) (next_entry a) xs" using Cons.prems(2) by auto
  obtain f where f: "fuel = Suc f" "length xs \<le> f" using Cons.prems(4) by (cases fuel) auto
  note ch = buckets_okD(3) [OF assms(2,3), unfolded Cons.prems(1)]
  note di = buckets_okD(4) [OF assms(2,3), unfolded Cons.prems(1)]
  show ?case
  proof (cases "cur = e")
    case False
    have "e \<in> set xs" using Cons.prems(3) False a(1) by simp
    have eq: "remove_chain hash e hid fuel prev cur (h, t) = remove_chain hash e hid f cur (next_entry a) (h, t)"
      using a(2) False getPtr_Some [OF assms(1) a(3)] by (subst remove_chain.simps) (simp add: f(1))
    have "cs ! hid = (ps @ [x]) @ xs" "cur = (if ps @ [x] = [] then 0 else last (ps @ [x]))" using Cons.prems(1) a(1) by simp_all
    from Cons.IH [OF this(1) a(4) \<open>e \<in> set xs\<close> f(2) this(2)] show ?thesis unfolding eq .
  next
    case True
    show ?thesis
    proof (cases "ps = []")
      case ps: True
      then have c: "cs ! hid = e # xs" using Cons.prems(1) a(1) True by simp
      have y: "distinct xs" "set xs = set (cs ! hid) - {e}" using di ps a(1) True c by auto
      note s = buckets_shorten [OF assms(2,3) a(4) y _ _ assms(4)]
      have "remove_chain hash e hid fuel prev cur (h, t) = removed hash (h\<lparr>hash_tbl := (hash_tbl h)[hid := next_entry a]\<rparr>, t)"
        using a(2) True Cons.prems(5) ps getPtr_Some [OF assms(1) a(3)] by (subst remove_chain.simps) (simp add: f(1))
      then show ?thesis using s assms(1)
        by (intro exI [of _ "h\<lparr>hash_tbl := (hash_tbl h)[hid := next_entry a]\<rparr>"] exI [of _ t] exI [of _ "cs[hid := xs]"]) simp
    next
      case ps: False
      then obtain qs p where p: "ps = qs @ [p]" using rev_exhaust by blast
      have prev: "prev = p" "p \<noteq> 0" using Cons.prems(5) ps p chain_nonzero [OF ch, of p] by auto
      obtain b where b: "objs t p = Some b" using chain_Some [OF ch, of p] p by auto
      note u = set_next_ok [OF assms(1) b, of "next_entry a"]
      have e: "x = e" "objs t e = Some a" using a True by simp_all
      have c: "chain (objs (set_next p (next_entry a) t)) (hash_tbl h ! hid) (qs @ p # xs)"
        unfolding u(2) by (rule chain_skip [of _ _ _ _ e]) (use ch di p e b in simp_all)
      have y: "distinct (qs @ p # xs)" "set (qs @ p # xs) = set (cs ! hid) - {e}" using di p e(1) Cons.prems(1) by auto
      have k: "map_option entry_key (objs (set_next p (next_entry a) t) z) = map_option entry_key (objs t z)" for z
        using b by (simp add: u(2))
      have o: "objs (set_next p (next_entry a) t) z = objs t z" if "z \<notin> set (qs @ p # xs)" for z
        using that by (auto simp: u(2))
      note s = buckets_shorten [OF assms(2,3) c y o k assms(4)]
      have "remove_chain hash e hid fuel prev cur (h, t) = removed hash (h, set_next p (next_entry a) t)"
        using a(2) True prev getPtr_Some [OF assms(1) a(3)] getPtr_Some [OF assms(1) b]
        by (subst remove_chain.simps) (simp add: f(1))
      then show ?thesis using s u(1) same_set_next [OF assms(1) b] assms(3)
        by (intro exI [of _ h] exI [of _ "set_next p (next_entry a) t"] exI [of _ "cs[hid := qs @ p # xs]"]) simp
    qed
  qed
qed simp

lemma absent_chain:
  assumes "table_ok t" "chain (objs t) cur xs" "e \<notin> set xs" "length xs \<le> fuel"
  shows "remove_chain hash e hid fuel prev cur (h, t) = Inr (h, t)"
  using assms(2-4)
proof (induction xs arbitrary: cur prev fuel)
  case Nil
  then show ?case by (subst remove_chain.simps) simp
next
  case (Cons x xs)
  obtain a where a: "x = cur" "cur \<noteq> 0" "objs t cur = Some a" "chain (objs t) (next_entry a) xs" using Cons.prems(1) by auto
  obtain f where f: "fuel = Suc f" "length xs \<le> f" using Cons.prems(3) by (cases fuel) auto
  show ?case
    using a Cons.prems(2) Cons.IH [OF a(4) _ f(2), of cur] getPtr_Some [OF assms(1) a(3)]
    by (subst remove_chain.simps) (simp add: f(1))
qed

lemma removed_result:
  assumes "table_ok t" "buckets_ok hash (hash_tbl h) (objs t) cs" "num_entries h = card (members cs) + 1"
    and "load_ok h" "num_entries h < 2 ^ 31"
  shows "\<exists>h' t' cs'. removed hash (h, t) = Inr (h', t') \<and> table_ok t' \<and> buckets_ok hash (hash_tbl h') (objs t') cs'
     \<and> members cs' = members cs \<and> num_entries h' = card (members cs) \<and> load_ok h' \<and> hash_tbl h' \<noteq> [] \<and> same_but_links t t'"
proof -
  obtain j where j: "length (hash_tbl h) = 2 ^ j" using buckets_okD(2) [OF assms(2)] by blast
  define n where "n = card (members cs)"
  have n: "num_entries h = n + 1" "n < 2 ^ 31" using assms(3,5) by (simp_all add: n_def)
  have num: "(num_entries h + (2 ^ 32 - 1)) mod 2 ^ 32 = n"
  proof -
    have "num_entries h + (2 ^ 32 - 1) = n + 2 ^ 32" using n(1) by simp
    then show ?thesis using n(2) by simp
  qed
  have r: "(n + n div 10) mod 2 ^ 32 = n + n div 10" using n(2) by simp
  let ?sz = "length (hash_tbl h)" and ?h = "h\<lparr>num_entries := n\<rparr>"
  have sz: "0 < ?sz" "hash_tbl h \<noteq> []" using j by auto
  have l: "n + 1 < 5 * ?sz" "1 < ?sz \<Longrightarrow> ?sz \<le> (n + 1) + (n + 1) div 10"
    using assms(4) n(1) sz(2) by (simp_all add: load_ok_def)
  have cl: "drop_bit 1 CHAIN_LENGTH = 2" by (simp add: CHAIN_LENGTH_def drop_bit_eq_div)
  show ?thesis
  proof (cases "(n + n div 10) div ?sz < 2 \<and> ?sz > 1")
    case True
    then obtain i where i: "j = Suc i" using j by (cases j) auto
    have half: "drop_bit 1 ?sz = 2 ^ i" "?sz = 2 * 2 ^ i" by (simp_all add: j i drop_bit_eq_div)
    have sh: "shrinkTable hash (?h, t) = rehash hash (2 ^ i) (?h, t)" using half(1) by (simp add: shrinkTable_def)
    have "buckets_ok hash (hash_tbl ?h) (objs t) cs" using assms(2) by simp
    from rehash_result [OF assms(1) this refl, of i, folded sh] obtain h1 t1 cs1 where
      s: "shrinkTable hash (?h, t) = Inr (h1, t1)" "table_ok t1" "buckets_ok hash (hash_tbl h1) (objs t1) cs1"
        "members cs1 = members cs" "length (hash_tbl h1) = 2 ^ i" "num_entries h1 = num_entries ?h" "same_but_links t t1"
      by blast
    then have s6: "num_entries h1 = n" by simp
    have u: "n + n div 10 < 2 * ?sz" using True sz(1) by (simp add: div_less_iff_less_mult)
    have "?sz \<le> (n + 1) + (n + 1) div 10" using l(2) True by simp
    moreover have "(n + 1) div 10 \<le> n div 10 + 1" by linarith
    ultimately have "2 * 2 ^ i \<le> n + n div 10 + 2" using half(2) by linarith
    moreover have "2 \<le> (2::nat) ^ i" if "1 < (2::nat) ^ i" using that by linarith
    ultimately have "1 < (2::nat) ^ i \<Longrightarrow> 2 ^ i \<le> n + n div 10" by fastforce
    moreover have "n < 5 * 2 ^ i" using u half(2) by linarith
    ultimately have "load_ok h1" by (simp add: load_ok_def s(5) s6)
    moreover have "hash_tbl h1 \<noteq> []" using s(5) by auto
    moreover have "removed hash (h, t) = Inr (h1, t1)"
      unfolding removed_def Let_def prod.case num r using True s(1) by (simp add: cl del: One_nat_def)
    ultimately show ?thesis using s(2-4,7) s6 unfolding n_def by blast
  next
    case False
    have "?sz \<le> n + n div 10" if "1 < ?sz"
    proof -
      have "2 \<le> (n + n div 10) div ?sz" using False that by simp
      then have "2 * ?sz \<le> n + n div 10" using sz(1) by (simp add: less_eq_div_iff_mult_less_eq)
      then show ?thesis by simp
    qed
    then have "load_ok ?h" using l(1) by (simp add: load_ok_def)
    moreover have "removed hash (h, t) = Inr (?h, t)"
      unfolding removed_def Let_def prod.case num r cl using False by auto
    ultimately show ?thesis using assms(1,2) sz(2) unfolding n_def
      by (intro exI [of _ "h\<lparr>num_entries := card (members cs)\<rparr>"] exI [of _ t] exI [of _ cs]) simp
  qed
qed

lemma hash_remove_result:
  assumes "hash_ok hash (h, t) M" "e \<in> M"
  shows "\<exists>h' t'. hash_remove hash e (h, t) = Inr (h', t') \<and> hash_ok hash (h', t') (M - {e}) \<and> same_but_links t t'"
proof -
  note ok = hash_okD [OF assms(1)]
  have ne: "hash_tbl h \<noteq> []" using ok(7) assms(2) by blast
  obtain cs where cs: "buckets_ok hash (hash_tbl h) (objs t) cs" "members cs = M" using ok(8) [OF ne] by blast
  obtain a where a: "objs t e = Some a" using buckets_Some [OF cs(1)] assms(2) cs(2) by blast
  let ?i = "bucket hash (entry_key a) (length (hash_tbl h))"
  have i: "?i < length (hash_tbl h)" by (rule buckets_okD(6) [OF cs(1)])
  note c = buckets_okD(3) [OF cs(1) i] and d = buckets_okD(4) [OF cs(1) i]
  have e: "e \<in> set (cs ! ?i)" using buckets_home [OF cs(1) _ a] assms(2) cs(2) by simp
  have "set (cs ! ?i) \<subseteq> M" using i buckets_okD(1) [OF cs(1)] cs(2) members_nth [of _ cs] by auto
  then have len: "length (cs ! ?i) \<le> chain_fuel t" using ok(5) d by (intro chain_fuel_enough) blast+
  obtain h1 t1 cs1 where r: "remove_chain hash e ?i (chain_fuel t) 0 (hash_tbl h ! ?i) (h, t) = removed hash (h1, t1)"
    "table_ok t1" "buckets_ok hash (hash_tbl h1) (objs t1) cs1" "members cs1 = M - {e}"
    "length (hash_tbl h1) = length (hash_tbl h)" "num_entries h1 = num_entries h" "same_but_links t t1"
    using remove_chain_result [OF ok(1) cs(1) i e, of "[]", OF _ c e len] cs(2) by auto
  have num: "num_entries h1 = card (members cs1) + 1"
    using r(4,6) ok(3,6) assms(2) card_Suc_Diff1 [OF ok(6) assms(2)] by simp
  have "load_ok h1" using ok(4) r(5,6) unfolding load_ok_def by (simp flip: length_0_conv)
  moreover have "num_entries h1 < 2 ^ 31" using card_ids_bound [OF ok(1,2,5)] r(6) ok(3) by simp
  ultimately obtain h' t' cs' where s: "removed hash (h1, t1) = Inr (h', t')" "table_ok t'"
    "buckets_ok hash (hash_tbl h') (objs t') cs'" "members cs' = M - {e}" "num_entries h' = card (M - {e})" "load_ok h'"
    "hash_tbl h' \<noteq> []" "same_but_links t1 t'"
    using removed_result [OF r(2,3) num] r(4) by auto
  have st: "same_but_links t t'" using same_trans [OF r(7) s(8)] .
  have "cap t' \<le> 2 ^ 31" using st ok(2) by (simp add: same_but_links_def)
  then have "hash_ok hash (h', t') (M - {e})"
    using s ok(5) same_ids [OF st] unfolding hash_ok_def by auto
  moreover have "hash_remove hash e (h, t) = Inr (h', t')"
    using getPtr_Some [OF ok(1) a] i r(1) s(1) by (simp add: hash_remove_def Let_def)
  ultimately show ?thesis using st by blast
qed

lemma hash_remove_absent:
  assumes "hash_ok hash (h, t) M" "objs t e = Some a" "e \<notin> M"
  shows "hash_remove hash e (h, t) = (if hash_tbl h = [] then Inl Abort else Inr (h, t))"
proof (cases "hash_tbl h = []")
  case True
  then show ?thesis using getPtr_Some [OF hash_okD(1) [OF assms(1)] assms(2)] by (simp add: hash_remove_def)
next
  case False
  note ok = hash_okD [OF assms(1)]
  obtain cs where cs: "buckets_ok hash (hash_tbl h) (objs t) cs" "members cs = M" using ok(8) [OF False] by blast
  let ?i = "bucket hash (entry_key a) (length (hash_tbl h))"
  have i: "?i < length (hash_tbl h)" by (rule buckets_okD(6) [OF cs(1)])
  note c = buckets_okD(3) [OF cs(1) i] and d = buckets_okD(4) [OF cs(1) i]
  have sub: "set (cs ! ?i) \<subseteq> M" using i buckets_okD(1) [OF cs(1)] cs(2) members_nth [of _ cs] by auto
  then have len: "length (cs ! ?i) \<le> chain_fuel t" using ok(5) d by (intro chain_fuel_enough) blast+
  have "remove_chain hash e ?i (chain_fuel t) 0 (hash_tbl h ! ?i) (h, t) = Inr (h, t)"
    using absent_chain [OF ok(1) c _ len] sub assms(3) by blast
  then show ?thesis using False getPtr_Some [OF ok(1) assms(2)] i by (simp add: hash_remove_def Let_def)
qed

end
