(* ===== verification/Odb_Hash_Props.thy ===== *)
theory Odb_Hash_Props
  imports Odb_Hash_Ops
begin

section \<open>Hash tables implement maps\<close>

text \<open>
  The contract of an index, \<open>key_index\<close>, with the facts that its users need, proved once from the
  contract; both hash tables meet it. Then the states that a hash table and its object table can
  reach together, and the properties.
\<close>

subsection \<open>The contract of an index\<close>

locale key_index =
  fixes ok :: "'s \<Rightarrow> nat set \<Rightarrow> bool"
    and key :: "'s \<Rightarrow> nat \<Rightarrow> 'k option"
    and ins :: "nat \<Rightarrow> 's \<Rightarrow> 's result"
    and rem :: "nat \<Rightarrow> 's \<Rightarrow> 's result"
    and lookup :: "'k \<Rightarrow> 's \<Rightarrow> nat result"
  assumes ins_law: "ok s M \<Longrightarrow> key s x \<noteq> None \<Longrightarrow> x \<notin> M \<Longrightarrow> \<exists>s'. ins x s = Inr s' \<and> ok s' (insert x M) \<and> key s' = key s"
    and rem_law: "ok s M \<Longrightarrow> x \<in> M \<Longrightarrow> \<exists>s'. rem x s = Inr s' \<and> ok s' (M - {x}) \<and> key s' = key s"
    and lookup_law: "ok s M \<Longrightarrow> \<exists>x. lookup k s = Inr x
          \<and> (x = 0 \<and> (\<forall>y \<in> M. key s y \<noteq> Some k) \<or> x \<noteq> 0 \<and> x \<in> M \<and> key s x = Some k)"
begin

definition distinct_keys :: "'s \<Rightarrow> nat set \<Rightarrow> bool" where
  "distinct_keys s M \<longleftrightarrow> inj_on (key s) M"

lemma lookup_member:
  assumes "ok s M" "distinct_keys s M" "x \<in> M" "key s x = Some k"
  shows "lookup k s = Inr x"
  using lookup_law [OF assms(1), of k] assms(2-4) by (auto simp: distinct_keys_def inj_on_def)

lemma lookup_absent:
  assumes "ok s M" "\<And>y. y \<in> M \<Longrightarrow> key s y \<noteq> Some k"
  shows "lookup k s = Inr 0"
  using lookup_law [OF assms(1), of k] assms(2) by blast

lemma lookup_same:
  assumes "ok s M" "ok s' M'" "distinct_keys s M" "distinct_keys s' M'" "key s' = key s"
    and "\<And>y. key s y = Some k \<Longrightarrow> y \<in> M' \<longleftrightarrow> y \<in> M"
  shows "lookup k s' = lookup k s"
proof (cases "\<exists>y \<in> M. key s y = Some k")
  case True
  then obtain y where "y \<in> M" "key s y = Some k" by blast
  then show ?thesis using lookup_member [OF assms(1,3), of y k] lookup_member [OF assms(2,4), of y k] assms(5,6) by simp
next
  case False
  then show ?thesis using lookup_absent [OF assms(1), of k] lookup_absent [OF assms(2), of k] assms(5,6) by metis
qed

lemma lookup_inserted:
  assumes "ok s M" "distinct_keys s M" "key s x = Some k" "\<And>y. y \<in> M \<Longrightarrow> key s y \<noteq> Some k"
  shows "\<exists>s'. ins x s = Inr s' \<and> ok s' (insert x M) \<and> distinct_keys s' (insert x M) \<and> key s' = key s
     \<and> lookup k s' = Inr x \<and> (\<forall>k'. k' \<noteq> k \<longrightarrow> lookup k' s' = lookup k' s)"
proof -
  have x: "x \<notin> M" using assms(3,4) by blast
  then obtain s' where s': "ins x s = Inr s'" "ok s' (insert x M)" "key s' = key s"
    using ins_law [OF assms(1) _ x] assms(3) by auto
  have d: "distinct_keys s' (insert x M)"
    using assms(2-4) s'(3) by (force simp: distinct_keys_def inj_on_def)
  have "lookup k s' = Inr x" using lookup_member [OF s'(2) d, of x k] assms(3) s'(3) by simp
  moreover have "lookup k' s' = lookup k' s" if "k' \<noteq> k" for k'
    using assms(3) that by (intro lookup_same [OF assms(1) s'(2) assms(2) d s'(3)]) auto
  ultimately show ?thesis using s' d by blast
qed

lemma lookup_removed:
  assumes "ok s M" "distinct_keys s M" "x \<in> M" "key s x = Some k"
  shows "\<exists>s'. rem x s = Inr s' \<and> ok s' (M - {x}) \<and> distinct_keys s' (M - {x}) \<and> key s' = key s
     \<and> lookup k s' = Inr 0 \<and> (\<forall>k'. k' \<noteq> k \<longrightarrow> lookup k' s' = lookup k' s)"
proof -
  obtain s' where s': "rem x s = Inr s'" "ok s' (M - {x})" "key s' = key s"
    using rem_law [OF assms(1,3)] by blast
  have d: "distinct_keys s' (M - {x})" using assms(2) s'(3) by (auto simp: distinct_keys_def inj_on_def)
  have "key s' y \<noteq> Some k" if "y \<in> M - {x}" for y
    using assms(2-4) that s'(3) by (auto simp: distinct_keys_def inj_on_def)
  then have "lookup k s' = Inr 0" by (rule lookup_absent [OF s'(2)])
  moreover have "lookup k' s' = lookup k' s" if "k' \<noteq> k" for k'
    using assms(4) that by (intro lookup_same [OF assms(1) s'(2) assms(2) d s'(3)]) auto
  ultimately show ?thesis using s' d by blast
qed

end

definition key_of :: "('k, 'b) index \<Rightarrow> nat \<Rightarrow> 'k option" where
  "key_of s e = map_option entry_key (objs (snd s) e)"

lemma same_keys: "same_but_links t t' \<Longrightarrow> key_of (h', t') = key_of (h, t)"
proof (rule ext)
  fix e assume s: "same_but_links t t'"
  show "key_of (h', t') e = key_of (h, t) e"
  proof (cases "objs t e")
    case None
    then have "e \<notin> ids t'" using same_ids [OF s] dom_objs [of t] by blast
    then have "objs t' e = None" using dom_objs [of t'] by blast
    then show ?thesis using None by (simp add: key_of_def)
  qed (use same_objs [OF s] in \<open>fastforce simp: key_of_def\<close>)
qed

lemma hash_key_index: "key_index (hash_ok hash) key_of (hash_insert hash) (hash_remove hash) (hash_find hash)"
proof
  fix s :: "('a, 'b) index" and M x k
  obtain h t where s: "s = (h, t)" by fastforce
  assume ok: "hash_ok hash s M"
  show "\<exists>s'. hash_insert hash x s = Inr s' \<and> hash_ok hash s' (insert x M) \<and> key_of s' = key_of s"
    if "key_of s x \<noteq> None" "x \<notin> M"
    using hash_insert_result [of hash h t M x] ok that same_keys unfolding s by (fastforce simp: key_of_def)
  show "\<exists>s'. hash_remove hash x s = Inr s' \<and> hash_ok hash s' (M - {x}) \<and> key_of s' = key_of s" if "x \<in> M"
    using hash_remove_result [of hash h t M x] ok that same_keys unfolding s by fastforce
  show "\<exists>x. hash_find hash k s = Inr x
     \<and> (x = 0 \<and> (\<forall>y \<in> M. key_of s y \<noteq> Some k) \<or> x \<noteq> 0 \<and> x \<in> M \<and> key_of s x = Some k)"
    using hash_find_result [of hash h t M k] ok unfolding s key_of_def by simp
qed

interpretation names: key_index "hash_ok hash_string" key_of name_insert name_remove name_find
  unfolding name_insert_def name_remove_def name_find_def by (rule hash_key_index)

interpretation numbers: key_index "hash_ok hash_int" key_of id_insert id_remove id_find
  unfolding id_insert_def id_remove_def id_find_def by (rule hash_key_index)

subsection \<open>Reachable states\<close>

text \<open>
  An index over a table of objects starts empty; objects are created and destroyed, inserted when
  they are not members, and removed when they are. An object is removed before it is destroyed.
\<close>

inductive index_reach :: "('k \<Rightarrow> 32 word) \<Rightarrow> ('k, 'b) index \<Rightarrow> nat set \<Rightarrow> bool" for hash where
  start: "table_ok t \<Longrightarrow> cap t \<le> 2 ^ 31 \<Longrightarrow> index_reach hash (dbHashTable_new, t) {}"
| created: "index_reach hash (h, t) M \<Longrightarrow> dbTable_create x t = Inr (e, t') \<Longrightarrow> cap t' \<le> 2 ^ 31
    \<Longrightarrow> index_reach hash (h, t') M"
| destroyed: "index_reach hash (h, t) M \<Longrightarrow> e \<in> ids t - M \<Longrightarrow> dbTable_destroy e t = Inr t' \<Longrightarrow> cap t' \<le> 2 ^ 31
    \<Longrightarrow> index_reach hash (h, t') M"
| inserted: "index_reach hash (h, t) M \<Longrightarrow> e \<in> ids t - M \<Longrightarrow> hash_insert hash e (h, t) = Inr s'
    \<Longrightarrow> index_reach hash s' (insert e M)"
| removed: "index_reach hash (h, t) M \<Longrightarrow> e \<in> M \<Longrightarrow> hash_remove hash e (h, t) = Inr s'
    \<Longrightarrow> index_reach hash s' (M - {e})"

lemma hash_ok_other:
  assumes "hash_ok hash (h, t) M" "table_ok t'" "cap t' \<le> 2 ^ 31" "\<And>x. x \<in> M \<Longrightarrow> objs t' x = objs t x"
  shows "hash_ok hash (h, t') M"
proof -
  note ok = hash_okD [OF assms(1)]
  have sub: "M \<subseteq> ids t'"
  proof
    fix x assume "x \<in> M"
    then have "x \<in> ids t" "objs t' x = objs t x" using ok(5) assms(4) by auto
    then show "x \<in> ids t'" using dom_objs [of t] dom_objs [of t'] by (metis domIff)
  qed
  have "\<exists>cs. buckets_ok hash (hash_tbl h) (objs t') cs \<and> members cs = M" if ne: "hash_tbl h \<noteq> []"
  proof -
    obtain cs where cs: "buckets_ok hash (hash_tbl h) (objs t) cs" "members cs = M" using ok(8) [OF ne] by blast
    note b = buckets_okD [OF cs(1)]
    have s: "objs t' x = objs t x" if "i < length (hash_tbl h)" "x \<in> set (cs ! i)" for i x
      using assms(4) cs(2) that b(1) members_nth [of x cs] by auto
    have "buckets_ok hash (hash_tbl h) (objs t') cs"
      unfolding buckets_ok_def
    proof (intro conjI allI impI ballI b(1,2))
      fix i assume i: "i < length (hash_tbl h)"
      show "chain (objs t') (hash_tbl h ! i) (cs ! i)" using b(3) [OF i] chain_cong [of "cs ! i" "objs t'" "objs t"] s [OF i] by simp
      show "distinct (cs ! i)" by (rule b(4) [OF i])
      show "bucket hash (entry_key a) (length (hash_tbl h)) = i" if "x \<in> set (cs ! i)" "objs t' x = Some a" for x a
        using b(5) [OF i that(1)] that s [OF i that(1)] by simp
    qed
    then show ?thesis using cs(2) by blast
  qed
  then show ?thesis using ok(3,4,7) assms(2,3) sub by (simp add: hash_ok_def)
qed

lemma reach_ok: "index_reach hash s M \<Longrightarrow> hash_ok hash s M"
proof (induction rule: index_reach.induct)
  case (start t)
  then show ?case by (simp add: hash_ok_def dbHashTable_new_def load_ok_def)
next
  case (created h t M x e t')
  note ok = hash_okD [OF created.IH]
  obtain e' t'' where c: "dbTable_create x t = Inr (e', t'')" "table_ok t''" "objs t'' = (objs t)(e' \<mapsto> x)" "e' \<notin> ids t"
    using create_result [OF ok(1)] by blast
  then have "t'' = t'" "e' = e" using created.hyps(2) by simp_all
  moreover have "x \<in> M \<Longrightarrow> x \<noteq> e'" for x using c(4) ok(5) by blast
  ultimately show ?case using c created.hyps(3) by (intro hash_ok_other [OF created.IH]) auto
next
  case (destroyed h t M e t')
  note ok = hash_okD [OF destroyed.IH]
  have "table_ok t'" "objs t' = (objs t)(e := None)"
    using destroy_result [OF ok(1), of e] destroyed.hyps(2,3) by auto
  then show ?case using destroyed.hyps by (intro hash_ok_other [OF destroyed.IH]) auto
next
  case (inserted h t M e s')
  have "\<exists>a. objs t e = Some a" using inserted.hyps(2) dom_objs [of t] by blast
  then show ?case using hash_insert_result [OF inserted.IH] inserted.hyps(2,3) by fastforce
next
  case (removed h t M e s')
  then show ?case using hash_remove_result [OF removed.IH] by fastforce
qed

lemma hash_sizes:
  assumes "hash_ok hash (h, t) M"
  shows "num_entries h = card M" "hash_tbl h = [] \<or> num_entries h < 5 * length (hash_tbl h)"
    "length (hash_tbl h) \<le> max 1 (num_entries h + num_entries h div 10)"
    "hash_tbl h = [] \<or> (\<exists>j. length (hash_tbl h) = 2 ^ j)"
  using hash_okD(3,4,8) [OF assms] buckets_okD(2) by (fastforce simp: load_ok_def)+

subsection \<open>The properties\<close>

text \<open>
  C32: a hash table over an object table is a set of objects that can be looked up by key, for every
  hash function: in every reachable state, \<open>insert\<close> of an object adds exactly it, \<open>remove\<close> of a
  member takes exactly it out (growing and shrinking included, and changing no object but for its
  link), \<open>remove\<close> of another object changes nothing, and \<open>find\<close> returns a member with the key, or
  null when there is none, as \<open>hasMember\<close> tells. On a table into which nothing was ever inserted,
  \<open>remove\<close> accesses the bucket array out of its bounds. No operation runs into a loop without end.
\<close>

theorem index_refines_map:
  assumes "index_reach hash (h, t) M"
  shows "(\<forall>e \<in> dom (objs t) - M. \<exists>h' t'. hash_insert hash e (h, t) = Inr (h', t')
            \<and> index_reach hash (h', t') (insert e M) \<and> same_but_links t t')
     \<and> (\<forall>e \<in> M. \<exists>h' t'. hash_remove hash e (h, t) = Inr (h', t')
            \<and> index_reach hash (h', t') (M - {e}) \<and> same_but_links t t')
     \<and> (\<forall>e \<in> dom (objs t) - M. hash_remove hash e (h, t) = (if hash_tbl h = [] then Inl Abort else Inr (h, t)))
     \<and> (\<forall>k. \<exists>x. hash_find hash k (h, t) = Inr x \<and> hash_hasMember hash k (h, t) = Inr (x \<noteq> 0)
            \<and> (x = 0 \<and> (\<forall>y \<in> M. key_of (h, t) y \<noteq> Some k) \<or> x \<noteq> 0 \<and> x \<in> M \<and> key_of (h, t) x = Some k))"
proof (intro conjI allI ballI)
  note ok = reach_ok [OF assms]
  fix e
  show "\<exists>h' t'. hash_insert hash e (h, t) = Inr (h', t') \<and> index_reach hash (h', t') (insert e M) \<and> same_but_links t t'"
    if e: "e \<in> dom (objs t) - M"
    using hash_insert_result [OF ok] index_reach.inserted [OF assms] e by (metis DiffE domD dom_objs)
  show "\<exists>h' t'. hash_remove hash e (h, t) = Inr (h', t') \<and> index_reach hash (h', t') (M - {e}) \<and> same_but_links t t'"
    if "e \<in> M"
    using hash_remove_result [OF ok that] index_reach.removed [OF assms that] by metis
  show "hash_remove hash e (h, t) = (if hash_tbl h = [] then Inl Abort else Inr (h, t))" if "e \<in> dom (objs t) - M"
    using hash_remove_absent [OF ok] that by blast
  fix k
  show "\<exists>x. hash_find hash k (h, t) = Inr x \<and> hash_hasMember hash k (h, t) = Inr (x \<noteq> 0)
     \<and> (x = 0 \<and> (\<forall>y \<in> M. key_of (h, t) y \<noteq> Some k) \<or> x \<noteq> 0 \<and> x \<in> M \<and> key_of (h, t) x = Some k)"
    using hash_find_result [OF ok, of k] by (auto simp: hash_hasMember_def key_of_def)
qed

definition demo_names :: "(string, unit) index" where
  \<comment> \<open>one object named \<open>u1\<close>, inserted\<close>
  "demo_names =
    (\<lparr>hash_tbl = [1], num_entries = 1\<rparr>,
     \<lparr>page_mask = 3, page_shift = 2, top_idx = 1, bottom_idx = 1, page_tbl_size = 1, alloc_cnt = 1, free_list = 2,
      pages = [\<lparr>objects = [Free 0 0, Obj \<lparr>entry_key = ''u1'', next_entry = 0\<rparr>, Free 3 0, Free 0 2], alloccnt = 1\<rparr>]\<rparr>)"

lemma demo_names_run:
  "dbTable_create \<lparr>entry_key = ''u1'', next_entry = 0\<rparr> (dbTable_new 4 2) = Inr (1, snd demo_names)"
  "name_insert 1 (dbHashTable_new, snd demo_names) = Inr demo_names"
proof -
  show "dbTable_create \<lparr>entry_key = ''u1'', next_entry = 0\<rparr> (dbTable_new 4 2) = Inr (1, snd demo_names)" by code_simp
  have "bucket hash_string k 1 = 0" for k by (simp add: bucket_def)
  moreover have "getPtr (snd demo_names) 1 = Inr \<lparr>entry_key = ''u1'', next_entry = 0\<rparr>" by code_simp
  moreover have "set_next 1 0 (snd demo_names) = snd demo_names" by code_simp
  ultimately have "link_entry hash_string 1 ([0], snd demo_names) = Inr ([1], snd demo_names)"
    by (simp add: link_entry_def Let_def)
  then show "name_insert 1 (dbHashTable_new, snd demo_names) = Inr demo_names"
    by (simp add: name_insert_def hash_insert_def dbHashTable_new_def) (simp add: demo_names_def)
qed

lemma demo_names_reach: "index_reach hash_string demo_names {1}"
proof -
  have "table_ok (dbTable_new 4 2 :: (string, unit) entry_scheme dbTable)" using new_table_ok(1) [of 2] by simp
  then have "index_reach hash_string (dbHashTable_new, dbTable_new 4 2 :: (string, unit) entry_scheme dbTable) {}"
    by (rule index_reach.start) (simp add: cap_def dbTable_new_def)
  then have r: "index_reach hash_string (dbHashTable_new, snd demo_names) {}"
    by (rule index_reach.created [OF _ demo_names_run(1)]) (simp add: cap_def demo_names_def page_size_def)
  have "1 \<in> ids (snd demo_names)"
    by (simp add: ids_def demo_names_def cap_def page_size_def slot_at_def id_page_def id_offset_def)
  from index_reach.inserted [OF r, of 1, OF _ demo_names_run(2) [unfolded name_insert_def]] this
  show ?thesis by simp
qed

theorem index_refines_map_witness:
  "(\<exists>h' t'. hash_remove hash_string 1 demo_names = Inr (h', t') \<and> index_reach hash_string (h', t') {})
     \<and> hash_hasMember hash_string ''u2'' demo_names = Inr False"
proof -
  obtain h t where d: "demo_names = (h, t)" by fastforce
  have k: "key_of (h, t) 1 = Some ''u1''"
    unfolding d [symmetric] by (simp add: key_of_def objs_def ids_def demo_names_def cap_def page_size_def slot_at_def
        id_page_def id_offset_def)
  note w = index_refines_map [OF demo_names_reach [unfolded d]]
  from w have "\<exists>h' t'. hash_remove hash_string 1 (h, t) = Inr (h', t') \<and> index_reach hash_string (h', t') {}" by fastforce
  moreover from w [THEN conjunct2, THEN conjunct2, THEN conjunct2, THEN spec, of "''u2''"] k
  have "hash_hasMember hash_string ''u2'' (h, t) = Inr False" by fastforce
  ultimately show ?thesis unfolding d by blast
qed

text \<open>
  C33: the load of a hash table. In every reachable state the counter is the number of members, the
  number of buckets is a power of two (or 0 before the first insertion), there are less than five
  members for each bucket, and at most eleven tenths as many buckets as members (or one).
\<close>

theorem index_load:
  assumes "index_reach hash (h, t) M"
  shows "num_entries h = card M \<and> (hash_tbl h \<noteq> [] \<longrightarrow> card M < 5 * length (hash_tbl h) \<and> (\<exists>j. length (hash_tbl h) = 2 ^ j))
     \<and> length (hash_tbl h) \<le> max 1 (card M + card M div 10) \<and> card M < 2 ^ 31"
  using hash_sizes [OF reach_ok [OF assms]] hash_okD(1,2,5) [OF reach_ok [OF assms]] card_ids_bound by auto

theorem index_load_witness: "num_entries (fst demo_names) = card {1 :: nat} \<and> length (hash_tbl (fst demo_names)) \<le> 1"
proof -
  obtain h t where d: "demo_names = (h, t)" by fastforce
  from index_load [OF demo_names_reach [unfolded d]] show ?thesis unfolding d by simp
qed

text \<open>
  C34: an index by name of objects with distinct names: \<open>insert\<close> of an object with a new name makes
  \<open>find\<close> return it under that name, \<open>remove\<close> makes \<open>find\<close> return null, and under every other name
  \<open>find\<close> returns what it returned before.
\<close>

theorem name_lookup:
  assumes "hash_ok hash_string s M" "inj_on (key_of s) M" "key_of s x = Some k"
  shows "((\<forall>y \<in> M. key_of s y \<noteq> Some k) \<longrightarrow>
        (\<exists>s'. name_insert x s = Inr s' \<and> hash_ok hash_string s' (insert x M) \<and> inj_on (key_of s') (insert x M)
           \<and> name_find k s' = Inr x \<and> (\<forall>k'. k' \<noteq> k \<longrightarrow> name_find k' s' = name_find k' s)))
     \<and> (x \<in> M \<longrightarrow>
        name_find k s = Inr x
        \<and> (\<exists>s'. name_remove x s = Inr s' \<and> hash_ok hash_string s' (M - {x}) \<and> inj_on (key_of s') (M - {x})
           \<and> name_find k s' = Inr 0 \<and> (\<forall>k'. k' \<noteq> k \<longrightarrow> name_find k' s' = name_find k' s)))"
proof (intro conjI impI)
  have d: "names.distinct_keys s M" using assms(2) by (simp add: names.distinct_keys_def)
  show "\<exists>s'. name_insert x s = Inr s' \<and> hash_ok hash_string s' (insert x M) \<and> inj_on (key_of s') (insert x M)
           \<and> name_find k s' = Inr x \<and> (\<forall>k'. k' \<noteq> k \<longrightarrow> name_find k' s' = name_find k' s)"
    if "\<forall>y \<in> M. key_of s y \<noteq> Some k"
    using names.lookup_inserted [OF assms(1) d assms(3)] that unfolding names.distinct_keys_def by blast
  show "name_find k s = Inr x" if "x \<in> M" by (rule names.lookup_member [OF assms(1) d that assms(3)])
  show "\<exists>s'. name_remove x s = Inr s' \<and> hash_ok hash_string s' (M - {x}) \<and> inj_on (key_of s') (M - {x})
           \<and> name_find k s' = Inr 0 \<and> (\<forall>k'. k' \<noteq> k \<longrightarrow> name_find k' s' = name_find k' s)" if "x \<in> M"
    using names.lookup_removed [OF assms(1) d that assms(3)] unfolding names.distinct_keys_def by blast
qed

theorem name_lookup_witness: "\<exists>s'. name_remove 1 demo_names = Inr s' \<and> name_find ''u1'' s' = Inr 0"
proof -
  have k: "key_of demo_names 1 = Some ''u1''"
    by (simp add: key_of_def objs_def ids_def demo_names_def cap_def page_size_def slot_at_def id_page_def id_offset_def)
  from name_lookup [OF reach_ok [OF demo_names_reach] _ k] show ?thesis by auto
qed

text \<open>The same for the index by number.\<close>

lemma number_lookup:
  assumes "hash_ok hash_int s M" "inj_on (key_of s) M" "key_of s x = Some k" "\<forall>y \<in> M. key_of s y \<noteq> Some k"
  shows "\<exists>s'. id_insert x s = Inr s' \<and> id_find k s' = Inr x \<and> (\<forall>k'. k' \<noteq> k \<longrightarrow> id_find k' s' = id_find k' s)"
  using numbers.lookup_inserted [OF assms(1) _ assms(3)] assms(2,4) unfolding numbers.distinct_keys_def by blast

end
