(* ===== verification/Odb_Wire.thy ===== *)
theory Odb_Wire
  imports Prelude "HOL-Library.Word"
begin

section \<open>Encoded wires\<close>

text \<open>
  \<open>odb/src/db/dbWireOpcode.h\<close>, \<open>dbWireCodec.cpp\<close> and \<open>odb/include/odb/dbWireCodec.h\<close>: the wire of a
  routed net is a sequence of opcodes (bytes), each with an integer operand. The encoder appends to
  it, the decoder reads it element by element. Layers, vias, rules and terminals are given by
  their ids; the null layer is 0. The via tables of block and technology map an id to the top and
  the bottom layer of the via; an id without object fails the assertion of \<open>getPtr\<close>. Where
  the C++ classes overload a method, an argument that some overloads lack is an option. A failed
  \<open>ZASSERT\<close> is \<open>Abort\<close>. Points are counted in unbounded numbers.
\<close>

unbundle bit_operations_syntax

subsection \<open>Opcodes\<close>

definition WOP_PATH :: "8 word" where "WOP_PATH = 0"
definition WOP_SHORT :: "8 word" where "WOP_SHORT = 1"
definition WOP_JUNCTION :: "8 word" where "WOP_JUNCTION = 2"
definition WOP_RULE :: "8 word" where "WOP_RULE = 3"
definition WOP_X :: "8 word" where "WOP_X = 4"
definition WOP_Y :: "8 word" where "WOP_Y = 5"
definition WOP_COLINEAR :: "8 word" where "WOP_COLINEAR = 6"
definition WOP_VIA :: "8 word" where "WOP_VIA = 7"
definition WOP_TECH_VIA :: "8 word" where "WOP_TECH_VIA = 8"
definition WOP_ITERM :: "8 word" where "WOP_ITERM = 9"
definition WOP_BTERM :: "8 word" where "WOP_BTERM = 10"
definition WOP_OPERAND :: "8 word" where "WOP_OPERAND = 11"
definition WOP_PROPERTY :: "8 word" where "WOP_PROPERTY = 12"
definition WOP_VWIRE :: "8 word" where "WOP_VWIRE = 13"
definition WOP_RECT :: "8 word" where "WOP_RECT = 14"
definition WOP_NOP :: "8 word" where "WOP_NOP = 15"

definition WOP_OPCODE_MASK :: "8 word" where "WOP_OPCODE_MASK = 0x1F"
definition WOP_VIA_EXIT_TOP :: "8 word" where "WOP_VIA_EXIT_TOP = 0x80"
definition WOP_DEFAULT_WIDTH :: "8 word" where "WOP_DEFAULT_WIDTH = 0x40"
definition WOP_EXTENSION :: "8 word" where "WOP_EXTENSION = 0x80"
definition WOP_BLOCK_RULE :: "8 word" where "WOP_BLOCK_RULE = 0x80"
definition WOP_WIRE_TYPE_MASK :: "8 word" where "WOP_WIRE_TYPE_MASK = 0xE0"
definition WOP_NON_DEFAULT_WIDTH_POINT_CNT :: nat where "WOP_NON_DEFAULT_WIDTH_POINT_CNT = 16"

lemmas wop_defs = WOP_PATH_def WOP_SHORT_def WOP_JUNCTION_def WOP_RULE_def WOP_X_def WOP_Y_def
  WOP_COLINEAR_def WOP_VIA_def WOP_TECH_VIA_def WOP_ITERM_def WOP_BTERM_def WOP_OPERAND_def
  WOP_PROPERTY_def WOP_VWIRE_def WOP_RECT_def WOP_NOP_def WOP_OPCODE_MASK_def WOP_VIA_EXIT_TOP_def
  WOP_DEFAULT_WIDTH_def WOP_EXTENSION_def WOP_BLOCK_RULE_def WOP_WIRE_TYPE_MASK_def

datatype dbWireType = WIRE_NONE | WIRE_COVER | WIRE_FIXED | WIRE_ROUTED | WIRE_SHIELD | WIRE_NOSHIELD

fun getWireType :: "dbWireType \<Rightarrow> 8 word" where
  "getWireType WIRE_NONE = 0x00"
| "getWireType WIRE_COVER = 0x20"
| "getWireType WIRE_FIXED = 0x40"
| "getWireType WIRE_ROUTED = 0x60"
| "getWireType WIRE_NOSHIELD = 0x80"
| "getWireType WIRE_SHIELD = 0x00" \<comment> \<open>the default of the switch\<close>

record wire_db =
  \<comment> \<open>top and bottom layer of the vias\<close>
  block_via :: "int \<rightharpoonup> int \<times> int"
  tech_via :: "int \<rightharpoonup> int \<times> int"

record dbWire =
  w_data :: "int list"
  w_opcodes :: "8 word list"

subsection \<open>Walking back\<close>

record WirePoint =
  wp_x :: int
  wp_y :: int
  wp_layer :: int

fun prevOpCode :: "wire_db \<Rightarrow> dbWire \<Rightarrow> nat \<Rightarrow> int \<Rightarrow> bool \<Rightarrow> bool \<Rightarrow> bool \<Rightarrow> WirePoint \<Rightarrow> WirePoint result" where
  "prevOpCode db w fuel idx look_for_x look_for_y get_layer pnt =
     (case fuel of 0 \<Rightarrow> Inl NoReturn | Suc fuel \<Rightarrow>
      if idx < 0 then Inl Abort
      else if length (w_opcodes w) \<le> nat idx \<or> length (w_data w) \<le> nat idx then Inl OutOfBounds
      else
        let opcode = w_opcodes w ! nat idx; v = w_data w ! nat idx; op = opcode AND WOP_OPCODE_MASK;
            found = (\<lambda>layer. if \<not> look_for_x \<and> \<not> look_for_y then Inr (pnt\<lparr>wp_layer := layer\<rparr>)
                       else prevOpCode db w fuel (idx - 1) look_for_x look_for_y False (pnt\<lparr>wp_layer := layer\<rparr>));
            back = prevOpCode db w fuel (idx - 1) look_for_x look_for_y get_layer pnt
        in if op = WOP_PATH \<or> op = WOP_SHORT then (if get_layer then found v else back)
        else if op = WOP_JUNCTION then prevOpCode db w fuel v look_for_x look_for_y get_layer pnt
        else if op = WOP_X then
          (if look_for_x then
             (if \<not> look_for_y \<and> \<not> get_layer then Inr (pnt\<lparr>wp_x := v\<rparr>)
              else prevOpCode db w fuel (idx - 1) False look_for_y get_layer (pnt\<lparr>wp_x := v\<rparr>))
           else back)
        else if op = WOP_Y then
          (if look_for_y then
             (if \<not> look_for_x \<and> \<not> get_layer then Inr (pnt\<lparr>wp_y := v\<rparr>)
              else prevOpCode db w fuel (idx - 1) look_for_x False get_layer (pnt\<lparr>wp_y := v\<rparr>))
           else back)
        else if op = WOP_VIA \<or> op = WOP_TECH_VIA then
          (if get_layer then
             (case (if op = WOP_VIA then block_via db v else tech_via db v) of
                None \<Rightarrow> Inl Abort
              | Some (tp, bt) \<Rightarrow> found (if opcode AND WOP_VIA_EXIT_TOP \<noteq> 0 then tp else bt))
           else back)
        else back)"

declare prevOpCode.simps [simp del]

definition getPrevPoint :: "wire_db \<Rightarrow> dbWire \<Rightarrow> int \<Rightarrow> bool \<Rightarrow> WirePoint result" where
  \<comment> \<open>a walk that visits an index twice with the same flags does not return; there are four settings of the flags\<close>
  "getPrevPoint db w idx get_layer =
     prevOpCode db w (4 * length (w_opcodes w) + 4) idx True True get_layer \<lparr>wp_x = 0, wp_y = 0, wp_layer = 0\<rparr>"

subsection \<open>The encoder\<close>

record dbWireEncoder =
  e_data :: "int list"
  e_opcodes :: "8 word list"
  e_layer :: int
  e_idx :: nat
  e_x :: int
  e_y :: int
  non_default_rule :: int
  e_point_cnt :: nat
  via_cnt :: nat
  prev_extended_colinear_pnt :: bool
  e_wire_type :: "8 word"
  rule_opcode :: "8 word"

type_synonym dbTechLayerRule = "int \<times> bool" \<comment> \<open>id, and whether it is a rule of the block\<close>

definition addOp :: "8 word \<Rightarrow> int \<Rightarrow> dbWireEncoder \<Rightarrow> dbWireEncoder" where
  "addOp op value e = e\<lparr>e_data := e_data e @ [value], e_opcodes := e_opcodes e @ [op], e_idx := e_idx e + 1\<rparr>"

definition initPath :: "int \<Rightarrow> 8 word \<Rightarrow> dbTechLayerRule option \<Rightarrow> dbWireEncoder \<Rightarrow> dbWireEncoder" where
  "initPath layer wire_type rule e =
     (let e = e\<lparr>e_wire_type := wire_type, e_point_cnt := 0, via_cnt := 0, e_layer := layer,
                prev_extended_colinear_pnt := False\<rparr>
      in case rule of
           None \<Rightarrow> e\<lparr>non_default_rule := 0, rule_opcode := 0\<rparr>
         | Some (oid, is_block) \<Rightarrow>
             e\<lparr>non_default_rule := oid, rule_opcode := (if is_block then WOP_RULE OR WOP_BLOCK_RULE else WOP_RULE),
               e_x := 0, e_y := 0\<rparr>)"

definition encoder_clear :: "dbWireEncoder \<Rightarrow> dbWireEncoder" where
  \<comment> \<open>\<open>begin\<close>; the wire type keeps its value\<close>
  "encoder_clear e =
     e\<lparr>e_data := [], e_opcodes := [], e_layer := 0, e_idx := 0, e_x := 0, e_y := 0, non_default_rule := 0,
       rule_opcode := 0, e_point_cnt := 0, via_cnt := 0, prev_extended_colinear_pnt := False\<rparr>"

definition encoder_append :: "dbWire \<Rightarrow> dbWireEncoder \<Rightarrow> dbWireEncoder" where
  "encoder_append w e =
     e\<lparr>e_data := w_data w, e_opcodes := w_opcodes w, e_layer := 0, e_idx := length (w_data w), e_x := 0, e_y := 0,
       non_default_rule := 0, rule_opcode := 0, e_point_cnt := 0, via_cnt := 0, prev_extended_colinear_pnt := False\<rparr>"

definition width_flag :: "dbWireEncoder \<Rightarrow> 8 word" where
  \<comment> \<open>the flag that tells the branch without rule from the branch with one\<close>
  "width_flag e = (if non_default_rule e = 0 then WOP_DEFAULT_WIDTH else 0)"

definition rule_due :: "dbWireEncoder \<Rightarrow> bool" where
  "rule_due e \<longleftrightarrow> non_default_rule e \<noteq> 0 \<and> e_point_cnt e \<noteq> 0
     \<and> and (e_point_cnt e) (WOP_NON_DEFAULT_WIDTH_POINT_CNT - 1) = 0"

definition point_tail :: "int \<Rightarrow> dbWireEncoder \<Rightarrow> dbWireEncoder" where
  \<comment> \<open>the rule that is repeated every 16 points, and the property\<close>
  "point_tail property e =
     (let e = (if rule_due e then addOp (rule_opcode e) (non_default_rule e) e else e)
      in if e_point_cnt e \<noteq> 1 then addOp WOP_PROPERTY property e else e)"

definition addPoint :: "int \<Rightarrow> int \<Rightarrow> int \<Rightarrow> dbWireEncoder \<Rightarrow> (int \<times> dbWireEncoder) result" where
  "addPoint x y property e =
     (let jct_id = int (e_idx e); D = width_flag e in
      bindE (if e_point_cnt e = 0
             then Inr (jct_id + 1, (addOp (WOP_Y OR D) y (addOp (WOP_X OR D) x e))\<lparr>e_x := x, e_y := y, e_point_cnt := e_point_cnt e + 1\<rparr>)
             else if e_x e = x \<and> e_y e = y then Inr (jct_id, addOp (WOP_COLINEAR OR D) 0 e)
             else if e_y e = y then Inr (jct_id, (addOp (WOP_X OR D) x e)\<lparr>e_x := x, e_point_cnt := e_point_cnt e + 1\<rparr>)
             else if e_x e = x then Inr (jct_id, (addOp (WOP_Y OR D) y e)\<lparr>e_y := y, e_point_cnt := e_point_cnt e + 1\<rparr>)
             else Inl Abort) (\<lambda>(jct_id, e).
        Inr (jct_id, (point_tail property e)\<lparr>prev_extended_colinear_pnt := False\<rparr>)))"

definition addPoint_ext :: "int \<Rightarrow> int \<Rightarrow> int \<Rightarrow> int \<Rightarrow> dbWireEncoder \<Rightarrow> (int \<times> dbWireEncoder) result" where
  "addPoint_ext x y ext property e =
     (let jct_id = int (e_idx e); D = width_flag e in
      bindE (if e_point_cnt e = 0
             then Inr (jct_id + 1, (addOp WOP_OPERAND ext (addOp (WOP_Y OR WOP_EXTENSION OR D) y (addOp (WOP_X OR D) x e)))
                     \<lparr>e_x := x, e_y := y, e_point_cnt := e_point_cnt e + 1, prev_extended_colinear_pnt := False\<rparr>)
             else if e_x e = x \<and> e_y e = y then
               (if \<not> (e_point_cnt e > 1 \<or> e_point_cnt e > 0 \<and> via_cnt e > 0) then Inl Abort
                else if prev_extended_colinear_pnt e then Inl Abort
                else Inr (jct_id, (addOp (WOP_COLINEAR OR WOP_EXTENSION OR D) ext e)\<lparr>prev_extended_colinear_pnt := True\<rparr>))
             else if e_y e = y
             then Inr (jct_id, (addOp WOP_OPERAND ext (addOp (WOP_X OR WOP_EXTENSION OR D) x e))
                     \<lparr>e_x := x, e_point_cnt := e_point_cnt e + 1, prev_extended_colinear_pnt := False\<rparr>)
             else if e_x e = x
             then Inr (jct_id, (addOp WOP_OPERAND ext (addOp (WOP_Y OR WOP_EXTENSION OR D) y e))
                     \<lparr>e_y := y, e_point_cnt := e_point_cnt e + 1, prev_extended_colinear_pnt := False\<rparr>)
             else Inl Abort) (\<lambda>(jct_id, e).
        Inr (jct_id, point_tail property e)))"

definition add_any_via :: "8 word \<Rightarrow> (int \<times> int) option \<Rightarrow> int \<Rightarrow> dbWireEncoder \<Rightarrow> (int \<times> dbWireEncoder) result" where
  \<comment> \<open>\<open>addVia\<close> and \<open>addTechVia\<close> differ in the opcode only; the layers are those of the via\<close>
  "add_any_via op layers via e =
     (if e_point_cnt e = 0 then Inl Abort
      else case layers of None \<Rightarrow> Inl Abort | Some (tp, bt) \<Rightarrow>
        (if tp = e_layer e
         then Inr (int (e_idx e), (addOp op via (e\<lparr>e_layer := bt\<rparr>))\<lparr>via_cnt := via_cnt e + 1\<rparr>)
         else if bt = e_layer e
         then Inr (int (e_idx e), (addOp (op OR WOP_VIA_EXIT_TOP) via (e\<lparr>e_layer := tp\<rparr>))\<lparr>via_cnt := via_cnt e + 1\<rparr>)
         else Inl Abort))"

definition addVia :: "wire_db \<Rightarrow> int \<Rightarrow> dbWireEncoder \<Rightarrow> (int \<times> dbWireEncoder) result" where
  "addVia db via = add_any_via WOP_VIA (block_via db via) via"

definition addTechVia :: "wire_db \<Rightarrow> int \<Rightarrow> dbWireEncoder \<Rightarrow> (int \<times> dbWireEncoder) result" where
  "addTechVia db via = add_any_via WOP_TECH_VIA (tech_via db via) via"

definition addRect :: "int \<Rightarrow> int \<Rightarrow> int \<Rightarrow> int \<Rightarrow> dbWireEncoder \<Rightarrow> dbWireEncoder result" where
  "addRect deltaX1 deltaY1 deltaX2 deltaY2 e =
     (if e_point_cnt e = 0 then Inl Abort
      else Inr (addOp WOP_OPERAND deltaY2 (addOp WOP_OPERAND deltaX2 (addOp WOP_OPERAND deltaY1 (addOp WOP_RECT deltaX1 e)))))"

definition addITerm :: "int \<Rightarrow> dbWireEncoder \<Rightarrow> dbWireEncoder result" where
  "addITerm iterm e = (if e_point_cnt e = 0 then Inl Abort else Inr (addOp WOP_ITERM iterm e))"

definition addBTerm :: "int \<Rightarrow> dbWireEncoder \<Rightarrow> dbWireEncoder result" where
  "addBTerm bterm e = (if e_point_cnt e = 0 then Inl Abort else Inr (addOp WOP_BTERM bterm e))"

definition add_rule :: "dbTechLayerRule option \<Rightarrow> dbWireEncoder \<Rightarrow> dbWireEncoder" where
  \<comment> \<open>the line that the overloads with a rule have and the others lack\<close>
  "add_rule rule e = (case rule of None \<Rightarrow> e | Some r \<Rightarrow> addOp (rule_opcode e) (non_default_rule e) e)"

definition newPath :: "int \<Rightarrow> dbWireType \<Rightarrow> dbTechLayerRule option \<Rightarrow> dbWireEncoder \<Rightarrow> dbWireEncoder" where
  "newPath layer type rule e =
     (let e = initPath layer (getWireType type) rule e
      in add_rule rule (addOp (WOP_PATH OR e_wire_type e) layer e))"

definition jct_ok :: "int \<Rightarrow> dbWireEncoder \<Rightarrow> bool" where
  "jct_ok jct_id e \<longleftrightarrow> 0 \<le> jct_id \<and> jct_id < int (e_idx e)"

definition path_at :: "wire_db \<Rightarrow> int \<Rightarrow> dbWireType option \<Rightarrow> dbTechLayerRule option \<Rightarrow> dbWireEncoder
    \<Rightarrow> dbWireEncoder result" where
  \<comment> \<open>the part that the paths from a junction share; without a type it is the type of the last path\<close>
  "path_at db jct_id type rule e =
     (if \<not> jct_ok jct_id e then Inl Abort
      else bindE (getPrevPoint db \<lparr>w_data = e_data e, w_opcodes = e_opcodes e\<rparr> jct_id True) (\<lambda>pnt.
        let e = initPath (wp_layer pnt) (case type of None \<Rightarrow> e_wire_type e | Some t \<Rightarrow> getWireType t) rule e;
            e = e\<lparr>e_x := wp_x pnt, e_y := wp_y pnt, e_point_cnt := 1\<rparr>
        in Inr (add_rule rule (addOp (WOP_JUNCTION OR e_wire_type e) jct_id e))))"

definition newPath_jct :: "wire_db \<Rightarrow> int \<Rightarrow> dbWireType option \<Rightarrow> dbTechLayerRule option \<Rightarrow> dbWireEncoder
    \<Rightarrow> dbWireEncoder result" where
  "newPath_jct db jct_id type rule e =
     bindE (path_at db jct_id type rule e) (\<lambda>e.
       Inr (addOp (WOP_COLINEAR OR (if rule = None then WOP_DEFAULT_WIDTH else 0)) 0 e))"

definition newPathExt :: "wire_db \<Rightarrow> int \<Rightarrow> int \<Rightarrow> dbWireType option \<Rightarrow> dbTechLayerRule option \<Rightarrow> dbWireEncoder
    \<Rightarrow> dbWireEncoder result" where
  "newPathExt db jct_id ext type rule e =
     bindE (path_at db jct_id type rule e) (\<lambda>e.
       Inr (addOp (WOP_COLINEAR OR WOP_EXTENSION OR (if rule = None then WOP_DEFAULT_WIDTH else 0)) ext e))"

definition newPathShort :: "int \<Rightarrow> int \<Rightarrow> dbWireType \<Rightarrow> dbTechLayerRule option \<Rightarrow> dbWireEncoder
    \<Rightarrow> dbWireEncoder result" where
  "newPathShort jct_id layer type rule e =
     (if \<not> jct_ok jct_id e then Inl Abort
      else let e = initPath layer (getWireType type) rule e
           in Inr (add_rule rule (addOp WOP_OPERAND jct_id (addOp (WOP_SHORT OR e_wire_type e) layer e))))"

definition newPathVirtualWire :: "int \<Rightarrow> int \<Rightarrow> dbWireType \<Rightarrow> dbTechLayerRule option \<Rightarrow> dbWireEncoder
    \<Rightarrow> dbWireEncoder result" where
  "newPathVirtualWire jct_id layer type rule e =
     (if \<not> jct_ok jct_id e then Inl Abort
      else let e = initPath layer (getWireType type) rule e
           in Inr (add_rule rule (addOp WOP_OPERAND jct_id (addOp (WOP_VWIRE OR e_wire_type e) layer e))))"

definition encoder_end :: "dbWire \<Rightarrow> dbWireEncoder \<Rightarrow> dbWire \<times> dbWireEncoder" where
  "encoder_end w e =
     (if e_opcodes e = [] then (w, e)
      else (\<lparr>w_data = e_data e, w_opcodes = e_opcodes e\<rparr>, e\<lparr>e_point_cnt := 0\<rparr>))"

subsection \<open>The decoder\<close>

datatype OpCode = PATH | JUNCTION | SHORT | VWIRE | POINT | POINT_EXT | VIA | TECH_VIA | RECT | ITERM | BTERM
  | RULE | END_DECODE

record dbWireDecoder =
  d_x :: int
  d_y :: int
  default_width :: bool
  block_rule :: bool
  d_layer :: int
  operand :: int
  operand2 :: int
  d_idx :: nat
  d_jct_id :: int
  d_wire_type :: dbWireType
  d_point_cnt :: nat
  d_opcode :: OpCode
  d_property :: int
  deltaX1 :: int
  deltaY1 :: int
  deltaX2 :: int
  deltaY2 :: int

definition decoder_begin :: "dbWireDecoder \<Rightarrow> dbWireDecoder" where
  "decoder_begin d =
     d\<lparr>d_x := 0, d_y := 0, default_width := True, d_layer := 0, d_idx := 0, d_jct_id := -1, d_opcode := END_DECODE,
       d_wire_type := WIRE_NONE, d_point_cnt := 0, d_property := 0, deltaX1 := 0, deltaY1 := 0, deltaX2 := 0, deltaY2 := 0\<rparr>"

definition nextOp :: "dbWire \<Rightarrow> dbWireDecoder \<Rightarrow> (8 word \<times> int \<times> dbWireDecoder) result" where
  "nextOp w d =
     (if d_idx d < length (w_opcodes w) \<and> d_idx d < length (w_data w)
      then Inr (w_opcodes w ! d_idx d, w_data w ! d_idx d, d\<lparr>d_idx := d_idx d + 1\<rparr>)
      else Inl Abort)"

definition flushRule :: "dbWire \<Rightarrow> dbWireDecoder \<Rightarrow> dbWireDecoder" where
  "flushRule w d =
     (if d_idx d \<noteq> length (w_opcodes w) \<and> w_opcodes w ! d_idx d AND WOP_OPCODE_MASK = WOP_RULE
      then d\<lparr>d_idx := d_idx d + 1\<rparr> else d)"

definition set_wire_type :: "8 word \<Rightarrow> dbWireDecoder \<Rightarrow> dbWireDecoder" where
  "set_wire_type opcode d =
     (let t = opcode AND WOP_WIRE_TYPE_MASK in
      if t = 0x00 then d\<lparr>d_wire_type := WIRE_NONE\<rparr>
      else if t = 0x20 then d\<lparr>d_wire_type := WIRE_COVER\<rparr>
      else if t = 0x40 then d\<lparr>d_wire_type := WIRE_FIXED\<rparr>
      else if t = 0x60 then d\<lparr>d_wire_type := WIRE_ROUTED\<rparr>
      else if t = 0x80 then d\<lparr>d_wire_type := WIRE_NOSHIELD\<rparr>
      else d)"

definition path_start :: "8 word \<Rightarrow> int \<Rightarrow> dbWireDecoder \<Rightarrow> dbWireDecoder" where
  \<comment> \<open>common to the four kinds of paths\<close>
  "path_start opcode layer d =
     set_wire_type opcode (d\<lparr>d_layer := layer, d_point_cnt := 0, default_width := True\<rparr>)"

definition read_ext :: "dbWire \<Rightarrow> 8 word \<Rightarrow> dbWireDecoder \<Rightarrow> dbWireDecoder result" where
  \<comment> \<open>the extension of a point, if it has one\<close>
  "read_ext w opcode d =
     (if opcode AND WOP_EXTENSION \<noteq> 0
      then bindE (nextOp w d) (\<lambda>(_, v, d). Inr (d\<lparr>operand2 := v, d_opcode := POINT_EXT\<rparr>))
      else Inr (d\<lparr>d_opcode := POINT\<rparr>))"

definition end_point :: "dbWire \<Rightarrow> dbWireDecoder \<Rightarrow> (OpCode \<times> dbWireDecoder) result" where
  "end_point w d = (let d = flushRule w (d\<lparr>d_property := 0\<rparr>) in Inr (d_opcode d, d))"

definition returned :: "OpCode \<Rightarrow> dbWireDecoder \<Rightarrow> (OpCode \<times> dbWireDecoder) result" where
  "returned op d = Inr (op, d\<lparr>d_opcode := op\<rparr>)"

definition decode_op :: "wire_db \<Rightarrow> dbWire \<Rightarrow> 8 word \<Rightarrow> dbWireDecoder \<Rightarrow> (OpCode \<times> dbWireDecoder) result option" where
  \<comment> \<open>the switch of \<open>next\<close>, after the operand is read; None is \<open>goto nextOpCode\<close>\<close>
  "decode_op db w opcode d =
     (let op = opcode AND WOP_OPCODE_MASK; v = operand d in
      if op = WOP_PATH then Some (returned PATH (path_start opcode v d))
      else if op = WOP_SHORT then
        Some (bindE (nextOp w (path_start opcode v d)) (\<lambda>(_, v, d). returned SHORT (d\<lparr>operand2 := v\<rparr>)))
      else if op = WOP_JUNCTION then
        Some (bindE (getPrevPoint db w v True) (\<lambda>pnt.
          returned JUNCTION (path_start opcode (wp_layer pnt) (d\<lparr>d_x := wp_x pnt, d_y := wp_y pnt\<rparr>))))
      else if op = WOP_RULE then
        Some (returned RULE (d\<lparr>default_width := False, block_rule := (opcode AND WOP_BLOCK_RULE \<noteq> 0)\<rparr>))
      else if op = WOP_X then
        (let d = d\<lparr>d_x := v\<rparr> in
         if d_point_cnt d = 0
         then Some (bindE (nextOp w (d\<lparr>d_jct_id := int (d_idx d)\<rparr>)) (\<lambda>(opcode, v, d).
                bindE (read_ext w opcode (d\<lparr>d_y := v, d_point_cnt := 1\<rparr>)) (\<lambda>d. Inr (d_opcode d, d))))
         else Some (bindE (read_ext w opcode (d\<lparr>d_point_cnt := d_point_cnt d + 1\<rparr>)) (end_point w)))
      else if op = WOP_Y then
        (if d_point_cnt d = 0 then Some (Inl Abort)
         else Some (bindE (read_ext w opcode (d\<lparr>d_point_cnt := d_point_cnt d + 1, d_y := v\<rparr>)) (end_point w)))
      else if op = WOP_COLINEAR then
        (let d = d\<lparr>d_point_cnt := d_point_cnt d + 1\<rparr> in
         Some (end_point w (if opcode AND WOP_EXTENSION \<noteq> 0 then d\<lparr>operand2 := v, d_opcode := POINT_EXT\<rparr>
                            else d\<lparr>d_opcode := POINT\<rparr>)))
      else if op = WOP_VIA \<or> op = WOP_TECH_VIA then
        Some (case (if op = WOP_VIA then block_via db v else tech_via db v) of
                None \<Rightarrow> Inl Abort
              | Some (tp, bt) \<Rightarrow>
                  returned (if op = WOP_VIA then VIA else TECH_VIA)
                    (d\<lparr>d_layer := (if opcode AND WOP_VIA_EXIT_TOP \<noteq> 0 then tp else bt)\<rparr>))
      else if op = WOP_RECT then
        Some (bindE (nextOp w (d\<lparr>deltaX1 := v\<rparr>)) (\<lambda>(_, y1, d).
              bindE (nextOp w d) (\<lambda>(_, x2, d).
              bindE (nextOp w d) (\<lambda>(_, y2, d).
                returned RECT (d\<lparr>deltaY1 := y1, deltaX2 := x2, deltaY2 := y2\<rparr>)))))
      else if op = WOP_ITERM then Some (returned ITERM d)
      else if op = WOP_BTERM then Some (returned BTERM d)
      else if op = WOP_PROPERTY then None
      else if op = WOP_VWIRE then
        Some (bindE (nextOp w (path_start opcode v d)) (\<lambda>(_, v, d). returned VWIRE (d\<lparr>operand2 := v\<rparr>)))
      else if op = WOP_NOP then None
      else Some (Inl Abort))"

function decoder_next :: "wire_db \<Rightarrow> dbWire \<Rightarrow> dbWireDecoder \<Rightarrow> (OpCode \<times> dbWireDecoder) result" where
  "decoder_next db w d =
     (if d_idx d = length (w_opcodes w) then Inr (END_DECODE, d)
      else case nextOp w (d\<lparr>d_jct_id := int (d_idx d)\<rparr>) of
        Inl f \<Rightarrow> Inl f
      | Inr (opcode, v, d') \<Rightarrow>
          (case decode_op db w opcode (d'\<lparr>operand := v\<rparr>) of
             Some r \<Rightarrow> r
           | None \<Rightarrow> decoder_next db w (d'\<lparr>operand := v\<rparr>)))"
  by pat_completeness auto
termination
  by (relation "measure (\<lambda>(db, w, d). length (w_opcodes w) - d_idx d)") (auto simp: nextOp_def split: if_splits)

declare decoder_next.simps [simp del]

function peek_from :: "dbWire \<Rightarrow> nat \<Rightarrow> OpCode" where
  "peek_from w idx =
     (if length (w_opcodes w) \<le> idx then END_DECODE
      else
        let opcode = w_opcodes w ! idx; op = opcode AND WOP_OPCODE_MASK in
        if op = WOP_PATH then PATH
        else if op = WOP_SHORT then SHORT
        else if op = WOP_JUNCTION then JUNCTION
        else if op = WOP_RULE then RULE
        else if op = WOP_X \<or> op = WOP_Y \<or> op = WOP_COLINEAR
        then (if opcode AND WOP_EXTENSION \<noteq> 0 then POINT_EXT else POINT)
        else if op = WOP_VIA then VIA
        else if op = WOP_TECH_VIA then TECH_VIA
        else if op = WOP_ITERM then ITERM
        else if op = WOP_BTERM then BTERM
        else if op = WOP_RECT then RECT
        else if op = WOP_VWIRE then VWIRE
        else peek_from w (idx + 1))"
  by pat_completeness auto
termination
  by (relation "measure (\<lambda>(w, idx). length (w_opcodes w) - idx)") auto

declare peek_from.simps [simp del]

subsubsection \<open>What a reader gets\<close>

definition getLayer :: "dbWireDecoder \<Rightarrow> int" where
  "getLayer d = d_layer d"

definition getRule :: "dbWireDecoder \<Rightarrow> dbTechLayerRule result" where
  "getRule d = (if d_opcode d = RULE then Inr (operand d, block_rule d) else Inl Abort)"

definition getPoint :: "dbWireDecoder \<Rightarrow> (int \<times> int) result" where
  "getPoint d = (if d_opcode d = POINT then Inr (d_x d, d_y d) else Inl Abort)"

definition getPoint_ext :: "dbWireDecoder \<Rightarrow> (int \<times> int \<times> int) result" where
  "getPoint_ext d = (if d_opcode d = POINT_EXT then Inr (d_x d, d_y d, operand2 d) else Inl Abort)"

definition getProperty :: "dbWireDecoder \<Rightarrow> int result" where
  "getProperty d =
     (if (d_opcode d = POINT \<or> d_opcode d = POINT_EXT) \<and> d_point_cnt d > 1 then Inr (d_property d) else Inl Abort)"

definition getVia :: "dbWireDecoder \<Rightarrow> int result" where
  "getVia d = (if d_opcode d = VIA then Inr (operand d) else Inl Abort)"

definition getTechVia :: "dbWireDecoder \<Rightarrow> int result" where
  "getTechVia d = (if d_opcode d = TECH_VIA then Inr (operand d) else Inl Abort)"

definition getRect :: "dbWireDecoder \<Rightarrow> (int \<times> int \<times> int \<times> int) result" where
  "getRect d = (if d_opcode d = RECT then Inr (deltaX1 d, deltaY1 d, deltaX2 d, deltaY2 d) else Inl Abort)"

definition getITerm :: "dbWireDecoder \<Rightarrow> int result" where
  "getITerm d = (if d_opcode d = ITERM then Inr (operand d) else Inl Abort)"

definition getBTerm :: "dbWireDecoder \<Rightarrow> int result" where
  "getBTerm d = (if d_opcode d = BTERM then Inr (operand d) else Inl Abort)"

definition decoder_wire_type :: "dbWireDecoder \<Rightarrow> dbWireType result" where
  "decoder_wire_type d =
     (if d_opcode d \<in> {PATH, JUNCTION, SHORT, VWIRE} then Inr (d_wire_type d) else Inl Abort)"

definition getJunctionId :: "dbWireDecoder \<Rightarrow> int" where
  "getJunctionId d = d_jct_id d"

definition getJunctionValue :: "dbWireDecoder \<Rightarrow> int result" where
  "getJunctionValue d =
     (if d_opcode d = JUNCTION then Inr (operand d)
      else if d_opcode d = SHORT \<or> d_opcode d = VWIRE then Inr (operand2 d)
      else Inl Abort)"

definition peek :: "dbWire \<Rightarrow> dbWireDecoder \<Rightarrow> OpCode" where
  "peek w d = peek_from w (d_idx d)"

end
