(* ===== verification/Odb_Wire_Walk.thy ===== *)
theory Odb_Wire_Walk
  imports Odb_Wire
begin

section \<open>Walking back in a wire\<close>

text \<open>
  The walk of \<open>getPrevPoint\<close> ends if every junction refers to an earlier index (\<open>back_ok\<close>), it sees
  only the part of the wire before its start, and what it finds is described step by step by
  \<open>walk_ok\<close> and \<open>layer_ok\<close>.
\<close>

unbundle bit_operations_syntax

abbreviation op_at :: "dbWire \<Rightarrow> nat \<Rightarrow> 8 word" where
  "op_at w i \<equiv> w_opcodes w ! i AND WOP_OPCODE_MASK"

definition back_ok :: "dbWire \<Rightarrow> bool" where
  "back_ok w \<longleftrightarrow> length (w_data w) = length (w_opcodes w)
     \<and> (\<forall>i < length (w_opcodes w). op_at w i = WOP_JUNCTION \<longrightarrow> 0 \<le> w_data w ! i \<and> w_data w ! i < int i)"

definition wire_append :: "dbWire \<Rightarrow> 8 word list \<Rightarrow> int list \<Rightarrow> dbWire" where
  "wire_append w ops vs = \<lparr>w_data = w_data w @ vs, w_opcodes = w_opcodes w @ ops\<rparr>"

lemma wire_append_at [simp]:
  "i < length (w_opcodes w) \<Longrightarrow> w_opcodes (wire_append w ops vs) ! i = w_opcodes w ! i"
  "i < length (w_data w) \<Longrightarrow> w_data (wire_append w ops vs) ! i = w_data w ! i"
  "length (w_opcodes (wire_append w ops vs)) = length (w_opcodes w) + length ops"
  "length (w_data (wire_append w ops vs)) = length (w_data w) + length vs"
  by (simp_all add: wire_append_def nth_append)

lemma walk_step:
  assumes "i < length (w_opcodes w)" "length (w_data w) = length (w_opcodes w)"
  shows "prevOpCode db w (Suc f) (int i) lx ly gl pnt =
       (let opcode = w_opcodes w ! i; v = w_data w ! i; op = opcode AND WOP_OPCODE_MASK;
            found = (\<lambda>layer. if \<not> lx \<and> \<not> ly then Inr (pnt\<lparr>wp_layer := layer\<rparr>)
                       else prevOpCode db w f (int i - 1) lx ly False (pnt\<lparr>wp_layer := layer\<rparr>));
            prev = prevOpCode db w f (int i - 1) lx ly gl pnt
        in if op = WOP_PATH \<or> op = WOP_SHORT then (if gl then found v else prev)
        else if op = WOP_JUNCTION then prevOpCode db w f v lx ly gl pnt
        else if op = WOP_X then
          (if lx then
             (if \<not> ly \<and> \<not> gl then Inr (pnt\<lparr>wp_x := v\<rparr>)
              else prevOpCode db w f (int i - 1) False ly gl (pnt\<lparr>wp_x := v\<rparr>))
           else prev)
        else if op = WOP_Y then
          (if ly then
             (if \<not> lx \<and> \<not> gl then Inr (pnt\<lparr>wp_y := v\<rparr>)
              else prevOpCode db w f (int i - 1) lx False gl (pnt\<lparr>wp_y := v\<rparr>))
           else prev)
        else if op = WOP_VIA \<or> op = WOP_TECH_VIA then
          (if gl then
             (case (if op = WOP_VIA then block_via db v else tech_via db v) of
                None \<Rightarrow> Inl Abort
              | Some (tp, bt) \<Rightarrow> found (if opcode AND WOP_VIA_EXIT_TOP \<noteq> 0 then tp else bt))
           else prev)
        else prev)"
  by (subst prevOpCode.simps) (use assms in \<open>simp add: not_le Let_def cong: if_cong\<close>)

text \<open>The result of a walk does not depend on the fuel, nor on what follows its start.\<close>

lemma walk_prefix:
  assumes "back_ok w" "length vs = length ops" "-1 \<le> i" "i < int (length (w_opcodes w))"
    and "i + 1 < int fuel" "i + 1 < int fuel'"
  shows "prevOpCode db (wire_append w ops vs) fuel' i lx ly gl pnt = prevOpCode db w fuel i lx ly gl pnt"
  using assms(3-)
proof (induction fuel arbitrary: fuel' i lx ly gl pnt)
  case (Suc fuel)
  obtain f' where f': "fuel' = Suc f'" using Suc.prems(1,4) by (cases fuel') auto
  show ?case
  proof (cases "i < 0")
    case True
    then show ?thesis by (subst (1 2) prevOpCode.simps) (simp add: f')
  next
    case False
    define n where "n = nat i"
    have n: "i = int n" "n < length (w_opcodes w)" "n < length (w_data w)"
      using False Suc.prems(2) assms(1) by (simp_all add: n_def back_ok_def)
    have len: "n < length (w_data (wire_append w ops vs))" "n < length (w_opcodes (wire_append w ops vs))"
      using n by simp_all
    have eq: "length (w_data w) = length (w_opcodes w)"
      "length (w_data (wire_append w ops vs)) = length (w_opcodes (wire_append w ops vs))"
      using assms(1,2) by (simp_all add: back_ok_def)
    have step: "prevOpCode db (wire_append w ops vs) f' (int n - 1) lx ly gl pnt = prevOpCode db w fuel (int n - 1) lx ly gl pnt"
      for lx ly gl pnt
      using Suc.prems f' n by (intro Suc.IH) simp_all
    have jct: "prevOpCode db (wire_append w ops vs) f' (w_data w ! n) lx ly gl pnt = prevOpCode db w fuel (w_data w ! n) lx ly gl pnt"
      if "op_at w n = WOP_JUNCTION" for lx ly gl pnt
    proof (intro Suc.IH)
      have "0 \<le> w_data w ! n" "w_data w ! n < int n" using assms(1) n that by (simp_all add: back_ok_def)
      then show "-1 \<le> w_data w ! n" "w_data w ! n < int (length (w_opcodes w))" "w_data w ! n + 1 < int fuel"
        "w_data w ! n + 1 < int f'" using Suc.prems f' n by simp_all
    qed
    show ?thesis
      unfolding f' n(1) walk_step [OF n(2) eq(1)] walk_step [OF len(2) eq(2)] wire_append_at(1) [OF n(2)] wire_append_at(2) [OF n(3)]
        Let_def step
      by (simp add: jct cong: if_cong)
  qed
qed simp

lemma prev_point_prefix:
  assumes "back_ok w" "length vs = length ops" "0 \<le> i" "i < int (length (w_opcodes w))"
  shows "getPrevPoint db (wire_append w ops vs) i gl = getPrevPoint db w i gl"
  unfolding getPrevPoint_def using assms by (intro walk_prefix) simp_all

subsection \<open>What a walk finds\<close>

definition filled :: "bool \<Rightarrow> bool \<Rightarrow> bool \<Rightarrow> WirePoint \<Rightarrow> WirePoint \<Rightarrow> WirePoint" where
  "filled lx ly gl p pnt =
     pnt\<lparr>wp_x := (if lx then wp_x p else wp_x pnt), wp_y := (if ly then wp_y p else wp_y pnt),
         wp_layer := (if gl then wp_layer p else wp_layer pnt)\<rparr>"

definition walk_ok :: "wire_db \<Rightarrow> dbWire \<Rightarrow> nat \<Rightarrow> WirePoint \<Rightarrow> bool" where
  \<comment> \<open>from this index, a walk finds this point\<close>
  "walk_ok db w i p \<longleftrightarrow> i < length (w_opcodes w) \<and>
     (\<forall>fuel lx ly gl pnt. i + 1 < fuel \<and> (lx \<or> ly \<or> gl)
        \<longrightarrow> prevOpCode db w fuel (int i) lx ly gl pnt = Inr (filled lx ly gl p pnt))"

definition layer_ok :: "wire_db \<Rightarrow> dbWire \<Rightarrow> nat \<Rightarrow> int \<Rightarrow> bool" where
  \<comment> \<open>from this index, a walk finds this layer\<close>
  "layer_ok db w i layer \<longleftrightarrow> i < length (w_opcodes w) \<and>
     (\<forall>fuel pnt. i + 1 < fuel \<longrightarrow> prevOpCode db w fuel (int i) False False True pnt = Inr (pnt\<lparr>wp_layer := layer\<rparr>))"

lemma walk_okD:
  "walk_ok db w i p \<Longrightarrow> i + 1 < fuel \<Longrightarrow> lx \<or> ly \<or> gl \<Longrightarrow> prevOpCode db w fuel (int i) lx ly gl pnt = Inr (filled lx ly gl p pnt)"
  by (simp add: walk_ok_def)

lemma layer_okD:
  "layer_ok db w i l \<Longrightarrow> i + 1 < fuel \<Longrightarrow> prevOpCode db w fuel (int i) False False True pnt = Inr (pnt\<lparr>wp_layer := l\<rparr>)"
  by (simp add: layer_ok_def)

lemma walk_ok_point: "walk_ok db w i p \<Longrightarrow> getPrevPoint db w (int i) True = Inr p"
  by (simp add: walk_ok_def getPrevPoint_def filled_def)

lemma walk_ok_append: "back_ok w \<Longrightarrow> length vs = length ops \<Longrightarrow> walk_ok db w i p \<Longrightarrow> walk_ok db (wire_append w ops vs) i p"
  by (auto simp: walk_ok_def walk_prefix [where fuel = "i + 2"])

lemma layer_ok_append: "back_ok w \<Longrightarrow> length vs = length ops \<Longrightarrow> layer_ok db w i l \<Longrightarrow> layer_ok db (wire_append w ops vs) i l"
  by (auto simp: layer_ok_def walk_prefix [where fuel = "i + 2"])

definition skipped :: "8 word \<Rightarrow> bool" where
  \<comment> \<open>opcodes that a walk ignores\<close>
  "skipped op \<longleftrightarrow> op \<notin> {WOP_PATH, WOP_SHORT, WOP_JUNCTION, WOP_X, WOP_Y, WOP_VIA, WOP_TECH_VIA}"

lemma int_Suc_pred [simp]: "int (Suc i) - 1 = int i"
  by simp

lemma Suc_fuel: "n < fuel \<Longrightarrow> \<exists>f. fuel = Suc f \<and> n \<le> f"
  by (cases fuel) auto

lemma walk_okI:
  assumes "i < length (w_opcodes w)"
    and "\<And>f lx ly gl pnt. i < f \<Longrightarrow> lx \<or> ly \<or> gl \<Longrightarrow> prevOpCode db w (Suc f) (int i) lx ly gl pnt = Inr (filled lx ly gl p pnt)"
  shows "walk_ok db w i p"
  unfolding walk_ok_def
proof (intro conjI allI impI, rule assms(1))
  fix fuel lx ly gl pnt assume a: "i + 1 < fuel \<and> (lx \<or> ly \<or> gl)"
  then obtain f where "fuel = Suc f" "i < f" using Suc_fuel [of "i + 1" fuel] by auto
  then show "prevOpCode db w fuel (int i) lx ly gl pnt = Inr (filled lx ly gl p pnt)" using assms(2) a by blast
qed

lemma layer_okI:
  assumes "i < length (w_opcodes w)"
    and "\<And>f pnt. i < f \<Longrightarrow> prevOpCode db w (Suc f) (int i) False False True pnt = Inr (pnt\<lparr>wp_layer := l\<rparr>)"
  shows "layer_ok db w i l"
  unfolding layer_ok_def
proof (intro conjI allI impI, rule assms(1))
  fix fuel pnt assume a: "i + 1 < fuel"
  then obtain f where "fuel = Suc f" "i < f" using Suc_fuel [of "i + 1" fuel] by auto
  then show "prevOpCode db w fuel (int i) False False True pnt = Inr (pnt\<lparr>wp_layer := l\<rparr>)" using assms(2) by blast
qed

lemma walk_skip:
  assumes "walk_ok db w i p" "Suc i < length (w_opcodes w)" "length (w_data w) = length (w_opcodes w)" "skipped (op_at w (Suc i))"
  shows "walk_ok db w (Suc i) p"
proof (rule walk_okI [OF assms(2)])
  fix f lx ly gl pnt assume "Suc i < f" "lx \<or> ly \<or> gl"
  then show "prevOpCode db w (Suc f) (int (Suc i)) lx ly gl pnt = Inr (filled lx ly gl p pnt)"
    unfolding walk_step [OF assms(2,3)] int_Suc_pred Let_def using assms(4) walk_okD [OF assms(1)] by (simp add: skipped_def)
qed

lemma layer_skip:
  assumes "layer_ok db w i l" "Suc i < length (w_opcodes w)" "length (w_data w) = length (w_opcodes w)" "skipped (op_at w (Suc i))"
  shows "layer_ok db w (Suc i) l"
proof (rule layer_okI [OF assms(2)])
  fix f pnt assume "Suc i < f"
  then show "prevOpCode db w (Suc f) (int (Suc i)) False False True pnt = Inr (pnt\<lparr>wp_layer := l\<rparr>)"
    unfolding walk_step [OF assms(2,3)] int_Suc_pred Let_def using assms(4) layer_okD [OF assms(1)] by (simp add: skipped_def)
qed

lemma layer_start:
  assumes "i < length (w_opcodes w)" "length (w_data w) = length (w_opcodes w)" "op_at w i \<in> {WOP_PATH, WOP_SHORT}"
  shows "layer_ok db w i (w_data w ! i)"
proof (rule layer_okI [OF assms(1)])
  show "prevOpCode db w (Suc f) (int i) False False True pnt = Inr (pnt\<lparr>wp_layer := w_data w ! i\<rparr>)" for f pnt
    unfolding walk_step [OF assms(1,2)] Let_def using assms(3) by auto
qed

lemma walk_x:
  assumes "walk_ok db w i p" "Suc i < length (w_opcodes w)" "length (w_data w) = length (w_opcodes w)" "op_at w (Suc i) = WOP_X"
  shows "walk_ok db w (Suc i) (p\<lparr>wp_x := w_data w ! Suc i\<rparr>)"
proof (rule walk_okI [OF assms(2)])
  fix f lx ly gl pnt assume a: "Suc i < f" "lx \<or> ly \<or> gl"
  have "\<not> WOP_X = WOP_PATH" "\<not> WOP_X = WOP_SHORT" "\<not> WOP_X = WOP_JUNCTION" by (simp_all add: wop_defs)
  then show "prevOpCode db w (Suc f) (int (Suc i)) lx ly gl pnt = Inr (filled lx ly gl (p\<lparr>wp_x := w_data w ! Suc i\<rparr>) pnt)"
    unfolding walk_step [OF assms(2,3)] int_Suc_pred Let_def assms(4)
    using walk_okD [OF assms(1)] a by (cases lx; cases ly; cases gl) (simp_all add: filled_def)
qed

lemma walk_y:
  assumes "walk_ok db w i p" "Suc i < length (w_opcodes w)" "length (w_data w) = length (w_opcodes w)" "op_at w (Suc i) = WOP_Y"
  shows "walk_ok db w (Suc i) (p\<lparr>wp_y := w_data w ! Suc i\<rparr>)"
proof (rule walk_okI [OF assms(2)])
  fix f lx ly gl pnt assume a: "Suc i < f" "lx \<or> ly \<or> gl"
  have "\<not> WOP_Y = WOP_PATH" "\<not> WOP_Y = WOP_SHORT" "\<not> WOP_Y = WOP_JUNCTION" "\<not> WOP_Y = WOP_X" by (simp_all add: wop_defs)
  then show "prevOpCode db w (Suc f) (int (Suc i)) lx ly gl pnt = Inr (filled lx ly gl (p\<lparr>wp_y := w_data w ! Suc i\<rparr>) pnt)"
    unfolding walk_step [OF assms(2,3)] int_Suc_pred Let_def assms(4)
    using walk_okD [OF assms(1)] a by (cases lx; cases ly; cases gl) (simp_all add: filled_def)
qed

lemma walk_via:
  assumes "walk_ok db w i p" "Suc i < length (w_opcodes w)" "length (w_data w) = length (w_opcodes w)"
    and "op_at w (Suc i) = op" "op = WOP_VIA \<or> op = WOP_TECH_VIA"
    and "(if op = WOP_VIA then block_via db (w_data w ! Suc i) else tech_via db (w_data w ! Suc i)) = Some (tp, bt)"
    and "l = (if w_opcodes w ! Suc i AND WOP_VIA_EXIT_TOP \<noteq> 0 then tp else bt)"
  shows "walk_ok db w (Suc i) (p\<lparr>wp_layer := l\<rparr>)"
proof (rule walk_okI [OF assms(2)])
  fix f lx ly gl pnt assume a: "Suc i < f" "lx \<or> ly \<or> gl"
  have "op \<notin> {WOP_PATH, WOP_SHORT, WOP_JUNCTION, WOP_X, WOP_Y}" using assms(5) by (auto simp: wop_defs)
  then show "prevOpCode db w (Suc f) (int (Suc i)) lx ly gl pnt = Inr (filled lx ly gl (p\<lparr>wp_layer := l\<rparr>) pnt)"
    unfolding walk_step [OF assms(2,3)] int_Suc_pred Let_def assms(4,6) option.case prod.case assms(7) [symmetric]
    using walk_okD [OF assms(1)] a assms(5) by (cases lx; cases ly; cases gl) (simp_all add: filled_def)
qed

lemma walk_junction:
  assumes "walk_ok db w j p" "j < i" "i < length (w_opcodes w)" "length (w_data w) = length (w_opcodes w)"
    "op_at w i = WOP_JUNCTION" "w_data w ! i = int j"
  shows "walk_ok db w i p"
proof (rule walk_okI [OF assms(3)])
  fix f lx ly gl pnt assume a: "i < f" "lx \<or> ly \<or> gl"
  have "\<not> WOP_JUNCTION = WOP_PATH" "\<not> WOP_JUNCTION = WOP_SHORT" by (simp_all add: wop_defs)
  then show "prevOpCode db w (Suc f) (int i) lx ly gl pnt = Inr (filled lx ly gl p pnt)"
    unfolding walk_step [OF assms(3,4)] Let_def assms(5,6) using walk_okD [OF assms(1)] a assms(2) by simp
qed

text \<open>The first point of a path.\<close>

lemma walk_first:
  assumes "layer_ok db w i l" "Suc (Suc i) < length (w_opcodes w)" "length (w_data w) = length (w_opcodes w)"
    and "op_at w (Suc i) = WOP_X" "op_at w (Suc (Suc i)) = WOP_Y"
  shows "walk_ok db w (Suc (Suc i)) \<lparr>wp_x = w_data w ! Suc i, wp_y = w_data w ! Suc (Suc i), wp_layer = l\<rparr>"
proof (rule walk_okI [OF assms(2)])
  let ?p = "\<lparr>wp_x = w_data w ! Suc i, wp_y = w_data w ! Suc (Suc i), wp_layer = l\<rparr>"
  have len: "Suc i < length (w_opcodes w)" using assms(2) by simp
  have neq: "\<not> WOP_X = WOP_PATH" "\<not> WOP_X = WOP_SHORT" "\<not> WOP_X = WOP_JUNCTION" "\<not> WOP_Y = WOP_PATH" "\<not> WOP_Y = WOP_SHORT"
    "\<not> WOP_Y = WOP_JUNCTION" "\<not> WOP_Y = WOP_X" by (simp_all add: wop_defs)
  have x: "prevOpCode db w f (int (Suc i)) lx False gl pnt = Inr (filled lx False gl ?p pnt)"
    if fu: "Suc i + 1 < f" and fl: "lx \<or> gl" for f lx gl pnt
  proof -
    obtain g where g: "f = Suc g" "Suc i + 1 \<le> g" using Suc_fuel [OF fu] by blast
    show ?thesis
      unfolding g(1) walk_step [OF len assms(3)] int_Suc_pred Let_def assms(4)
      using layer_okD [OF assms(1)] fl g(2) neq by (cases lx; cases gl) (simp_all add: filled_def)
  qed
  fix f lx ly gl pnt assume a: "Suc (Suc i) < f" "lx \<or> ly \<or> gl"
  show "prevOpCode db w (Suc f) (int (Suc (Suc i))) lx ly gl pnt = Inr (filled lx ly gl ?p pnt)"
    unfolding walk_step [OF assms(2,3)] int_Suc_pred Let_def assms(5)
    using a neq by (cases ly; cases lx; cases gl) (simp_all add: x filled_def del: of_nat_Suc)
qed

end
