(* ===== verification/Odb_Wire_Codec.thy ===== *)
theory Odb_Wire_Codec
  imports Odb_Wire_Walk
begin

section \<open>Encoding and decoding\<close>

text \<open>
  The calls on an encoder as commands (\<open>wire_cmd\<close>), the elements that a reader gets from the decoder
  (\<open>wire_event\<close>), and the simulation: the decoder at the place where a command started to write reads
  the elements of that command and ends where the command stopped, in a state that agrees with the
  encoder.
\<close>

unbundle bit_operations_syntax

subsection \<open>Commands and elements\<close>

datatype wire_cmd =
    AddPoint int int int
  | AddPointExt int int int int
  | AddVia int
  | AddTechVia int
  | AddRect int int int int
  | AddITerm int
  | AddBTerm int
  | NewPath int dbWireType "dbTechLayerRule option"
  | NewPathJct int "dbWireType option" "dbTechLayerRule option"
  | NewPathExt int int "dbWireType option" "dbTechLayerRule option"
  | NewPathShort int int dbWireType "dbTechLayerRule option"
  | NewPathVWire int int dbWireType "dbTechLayerRule option"

fun run_cmd :: "wire_db \<Rightarrow> wire_cmd \<Rightarrow> dbWireEncoder \<Rightarrow> (int option \<times> dbWireEncoder) result" where
  "run_cmd db (AddPoint x y p) e = bindE (addPoint x y p e) (\<lambda>(j, e). Inr (Some j, e))"
| "run_cmd db (AddPointExt x y ext p) e = bindE (addPoint_ext x y ext p e) (\<lambda>(j, e). Inr (Some j, e))"
| "run_cmd db (AddVia v) e = bindE (addVia db v e) (\<lambda>(j, e). Inr (Some j, e))"
| "run_cmd db (AddTechVia v) e = bindE (addTechVia db v e) (\<lambda>(j, e). Inr (Some j, e))"
| "run_cmd db (AddRect x1 y1 x2 y2) e = bindE (addRect x1 y1 x2 y2 e) (\<lambda>e. Inr (None, e))"
| "run_cmd db (AddITerm t) e = bindE (addITerm t e) (\<lambda>e. Inr (None, e))"
| "run_cmd db (AddBTerm t) e = bindE (addBTerm t e) (\<lambda>e. Inr (None, e))"
| "run_cmd db (NewPath l t r) e = Inr (None, newPath l t r e)"
| "run_cmd db (NewPathJct j t r) e = bindE (newPath_jct db j t r e) (\<lambda>e. Inr (None, e))"
| "run_cmd db (NewPathExt j x t r) e = bindE (newPathExt db j x t r e) (\<lambda>e. Inr (None, e))"
| "run_cmd db (NewPathShort j l t r) e = bindE (newPathShort j l t r e) (\<lambda>e. Inr (None, e))"
| "run_cmd db (NewPathVWire j l t r) e = bindE (newPathVirtualWire j l t r e) (\<lambda>e. Inr (None, e))"

datatype wire_event =
    EvPath dbWireType
  | EvJunction int dbWireType
  | EvShort int dbWireType
  | EvVWire int dbWireType
  | EvRule int bool
  | EvPoint int int int \<comment> \<open>junction id, location\<close>
  | EvPointExt int int int int
  | EvVia int int
  | EvTechVia int int
  | EvRect int int int int
  | EvITerm int
  | EvBTerm int

definition observe :: "dbWireDecoder \<Rightarrow> wire_event result" where
  \<comment> \<open>what the accessors of the decoder return after \<open>next\<close>\<close>
  "observe d =
     (case d_opcode d of
        PATH \<Rightarrow> bindE (decoder_wire_type d) (\<lambda>t. Inr (EvPath t))
      | JUNCTION \<Rightarrow> bindE (decoder_wire_type d) (\<lambda>t. bindE (getJunctionValue d) (\<lambda>j. Inr (EvJunction j t)))
      | SHORT \<Rightarrow> bindE (decoder_wire_type d) (\<lambda>t. bindE (getJunctionValue d) (\<lambda>j. Inr (EvShort j t)))
      | VWIRE \<Rightarrow> bindE (decoder_wire_type d) (\<lambda>t. bindE (getJunctionValue d) (\<lambda>j. Inr (EvVWire j t)))
      | RULE \<Rightarrow> bindE (getRule d) (\<lambda>(r, b). Inr (EvRule r b))
      | POINT \<Rightarrow> bindE (getPoint d) (\<lambda>(x, y). Inr (EvPoint (getJunctionId d) x y))
      | POINT_EXT \<Rightarrow> bindE (getPoint_ext d) (\<lambda>(x, y, ext). Inr (EvPointExt (getJunctionId d) x y ext))
      | VIA \<Rightarrow> bindE (getVia d) (\<lambda>v. Inr (EvVia (getJunctionId d) v))
      | TECH_VIA \<Rightarrow> bindE (getTechVia d) (\<lambda>v. Inr (EvTechVia (getJunctionId d) v))
      | RECT \<Rightarrow> bindE (getRect d) (\<lambda>(x1, y1, x2, y2). Inr (EvRect x1 y1 x2 y2))
      | ITERM \<Rightarrow> bindE (getITerm d) (\<lambda>t. Inr (EvITerm t))
      | BTERM \<Rightarrow> bindE (getBTerm d) (\<lambda>t. Inr (EvBTerm t))
      | END_DECODE \<Rightarrow> Inl Abort)"

fun decode_all :: "wire_db \<Rightarrow> dbWire \<Rightarrow> nat \<Rightarrow> dbWireDecoder \<Rightarrow> (wire_event \<times> int) list result" where
  \<comment> \<open>a reader that calls \<open>next\<close> until the end, at most so many times\<close>
  "decode_all db w 0 d = Inl NoReturn"
| "decode_all db w (Suc n) d =
     bindE (decoder_next db w d) (\<lambda>(op, d).
       if op = END_DECODE then Inr []
       else bindE (observe d) (\<lambda>ev. bindE (decode_all db w n d) (\<lambda>evs. Inr ((ev, getLayer d) # evs))))"

definition decoded_type :: "8 word \<Rightarrow> dbWireType" where
  "decoded_type b = (if b = 0x20 then WIRE_COVER else if b = 0x40 then WIRE_FIXED else if b = 0x60 then WIRE_ROUTED
     else if b = 0x80 then WIRE_NOSHIELD else WIRE_NONE)"

definition kept_type :: "dbWireType \<Rightarrow> dbWireType" where
  \<comment> \<open>a shield is written as no type\<close>
  "kept_type t = (if t = WIRE_SHIELD then WIRE_NONE else t)"

lemma decoded_type_get [simp]: "decoded_type (getWireType t) = kept_type t"
  by (cases t) (simp_all add: decoded_type_def kept_type_def)

definition rule_event :: "dbTechLayerRule option \<Rightarrow> int \<Rightarrow> (wire_event \<times> int) list" where
  "rule_event r layer = (case r of None \<Rightarrow> [] | Some (i, b) \<Rightarrow> [(EvRule i b, layer)])"

definition type_after :: "dbWireType option \<Rightarrow> dbWireEncoder \<Rightarrow> dbWireType" where
  \<comment> \<open>the type of a path from a junction: the given one, or that of the last path\<close>
  "type_after t e = (case t of None \<Rightarrow> decoded_type (e_wire_type e) | Some t \<Rightarrow> kept_type t)"

fun cmd_events :: "wire_cmd \<Rightarrow> int option \<Rightarrow> dbWireEncoder \<Rightarrow> dbWireEncoder \<Rightarrow> (wire_event \<times> int) list" where
  \<comment> \<open>the elements of a command that returned \<open>j\<close> and led from \<open>e\<close> to \<open>e'\<close>, with the layer\<close>
  "cmd_events (AddPoint x y p) j e e' = [(EvPoint (the j) x y, e_layer e)]"
| "cmd_events (AddPointExt x y ext p) j e e' = [(EvPointExt (the j) x y ext, e_layer e)]"
| "cmd_events (AddVia v) j e e' = [(EvVia (the j) v, e_layer e')]"
| "cmd_events (AddTechVia v) j e e' = [(EvTechVia (the j) v, e_layer e')]"
| "cmd_events (AddRect x1 y1 x2 y2) j e e' = [(EvRect x1 y1 x2 y2, e_layer e)]"
| "cmd_events (AddITerm t) j e e' = [(EvITerm t, e_layer e)]"
| "cmd_events (AddBTerm t) j e e' = [(EvBTerm t, e_layer e)]"
| "cmd_events (NewPath l t r) j e e' = (EvPath (kept_type t), l) # rule_event r l"
| "cmd_events (NewPathJct i t r) j e e' =
     (EvJunction i (type_after t e), e_layer e') # rule_event r (e_layer e')
     @ [(EvPoint (int (e_idx e') - 1) (e_x e') (e_y e'), e_layer e')]"
| "cmd_events (NewPathExt i ext t r) j e e' =
     (EvJunction i (type_after t e), e_layer e') # rule_event r (e_layer e')
     @ [(EvPointExt (int (e_idx e') - 1) (e_x e') (e_y e') ext, e_layer e')]"
| "cmd_events (NewPathShort i l t r) j e e' = (EvShort i (kept_type t), l) # rule_event r l"
| "cmd_events (NewPathVWire i l t r) j e e' = (EvVWire i (kept_type t), l) # rule_event r l"

fun encode :: "wire_db \<Rightarrow> wire_cmd list \<Rightarrow> dbWireEncoder \<Rightarrow> ((wire_event \<times> int) list \<times> dbWireEncoder) result" where
  \<comment> \<open>a run of commands, with the elements that it means\<close>
  "encode db [] e = Inr ([], e)"
| "encode db (c # cs) e =
     bindE (run_cmd db c e) (\<lambda>(j, e'). bindE (encode db cs e') (\<lambda>(evs, e''). Inr (cmd_events c j e e' @ evs, e'')))"

subsection \<open>What a command writes\<close>

definition wire_of :: "dbWireEncoder \<Rightarrow> dbWire" where
  "wire_of e = \<lparr>w_data = e_data e, w_opcodes = e_opcodes e\<rparr>"

definition added :: "dbWireEncoder \<Rightarrow> dbWireEncoder \<Rightarrow> (8 word \<times> int) list \<Rightarrow> bool" where
  "added e e' ovs \<longleftrightarrow> e_opcodes e' = e_opcodes e @ map fst ovs \<and> e_data e' = e_data e @ map snd ovs
     \<and> e_idx e' = e_idx e + length ovs"

lemma added_refl [simp]: "added e e []"
  by (simp add: added_def)

lemma added_addOp: "added e e' ovs \<Longrightarrow> added e (addOp op v e') (ovs @ [(op, v)])"
  by (simp add: added_def addOp_def)

lemma added_trans: "added e e' ovs \<Longrightarrow> added e' e'' ovs' \<Longrightarrow> added e e'' (ovs @ ovs')"
  by (simp add: added_def)

lemma addOp_sel [simp]:
  "e_layer (addOp op v e) = e_layer e" "e_x (addOp op v e) = e_x e" "e_y (addOp op v e) = e_y e"
  "non_default_rule (addOp op v e) = non_default_rule e" "e_point_cnt (addOp op v e) = e_point_cnt e"
  "via_cnt (addOp op v e) = via_cnt e" "prev_extended_colinear_pnt (addOp op v e) = prev_extended_colinear_pnt e"
  "e_wire_type (addOp op v e) = e_wire_type e" "rule_opcode (addOp op v e) = rule_opcode e"
  "e_idx (addOp op v e) = Suc (e_idx e)" "e_opcodes (addOp op v e) = e_opcodes e @ [op]" "e_data (addOp op v e) = e_data e @ [v]"
  by (simp_all add: addOp_def)

lemma initPath_sel [simp]:
  "e_layer (initPath l t r e) = l" "e_point_cnt (initPath l t r e) = 0" "e_wire_type (initPath l t r e) = t"
  "e_idx (initPath l t r e) = e_idx e" "e_opcodes (initPath l t r e) = e_opcodes e" "e_data (initPath l t r e) = e_data e"
  "non_default_rule (initPath l t r e) = (case r of None \<Rightarrow> 0 | Some (i, b) \<Rightarrow> i)"
  "rule_opcode (initPath l t r e) = (case r of None \<Rightarrow> 0 | Some (i, b) \<Rightarrow> if b then WOP_RULE OR WOP_BLOCK_RULE else WOP_RULE)"
  by (simp_all add: initPath_def Let_def split: option.split prod.split)

definition tail_ops :: "int \<Rightarrow> dbWireEncoder \<Rightarrow> (8 word \<times> int) list" where
  "tail_ops p e =
     (if rule_due e then [(rule_opcode e, non_default_rule e)] else [])
     @ (if e_point_cnt e \<noteq> 1 then [(WOP_PROPERTY, p)] else [])"

lemma point_tail_sel [simp]:
  "e_layer (point_tail p e) = e_layer e" "e_x (point_tail p e) = e_x e" "e_y (point_tail p e) = e_y e"
  "non_default_rule (point_tail p e) = non_default_rule e" "e_point_cnt (point_tail p e) = e_point_cnt e"
  "e_wire_type (point_tail p e) = e_wire_type e" "rule_opcode (point_tail p e) = rule_opcode e"
  "e_opcodes (point_tail p e) = e_opcodes e @ map fst (tail_ops p e)" "e_data (point_tail p e) = e_data e @ map snd (tail_ops p e)"
  "e_idx (point_tail p e) = e_idx e + length (tail_ops p e)"
  by (simp_all add: point_tail_def tail_ops_def Let_def)

definition rule_ops :: "dbTechLayerRule option \<Rightarrow> (8 word \<times> int) list" where
  "rule_ops r = (case r of None \<Rightarrow> [] | Some (i, b) \<Rightarrow> [(if b then WOP_RULE OR WOP_BLOCK_RULE else WOP_RULE, i)])"

lemma add_rule_sel [simp]:
  "e_layer (add_rule r e) = e_layer e" "e_x (add_rule r e) = e_x e" "e_y (add_rule r e) = e_y e"
  "non_default_rule (add_rule r e) = non_default_rule e" "e_point_cnt (add_rule r e) = e_point_cnt e"
  "e_wire_type (add_rule r e) = e_wire_type e" "rule_opcode (add_rule r e) = rule_opcode e"
  "via_cnt (add_rule r e) = via_cnt e" "prev_extended_colinear_pnt (add_rule r e) = prev_extended_colinear_pnt e"
  by (simp_all add: add_rule_def split: option.split)

lemma add_rule_out:
  assumes "r \<noteq> None \<longrightarrow> non_default_rule e = fst (the r) \<and> rule_opcode e = (if snd (the r) then WOP_RULE OR WOP_BLOCK_RULE else WOP_RULE)"
  shows "e_opcodes (add_rule r e) = e_opcodes e @ map fst (rule_ops r)" "e_data (add_rule r e) = e_data e @ map snd (rule_ops r)"
    "e_idx (add_rule r e) = e_idx e + length (rule_ops r)"
  using assms by (auto simp: add_rule_def rule_ops_def split: option.split prod.split)

text \<open>The opcodes of each command, with the state that it leaves.\<close>

definition first_ops :: "int \<Rightarrow> int \<Rightarrow> dbWireEncoder \<Rightarrow> (8 word \<times> int) list" where
  "first_ops x y e =
     (if e_point_cnt e = 0 then [(WOP_X OR width_flag e, x), (WOP_Y OR width_flag e, y)]
      else if e_x e = x \<and> e_y e = y then [(WOP_COLINEAR OR width_flag e, 0)]
      else if e_y e = y then [(WOP_X OR width_flag e, x)]
      else [(WOP_Y OR width_flag e, y)])"

definition ext_ops :: "int \<Rightarrow> int \<Rightarrow> int \<Rightarrow> dbWireEncoder \<Rightarrow> (8 word \<times> int) list" where
  "ext_ops x y ext e =
     (if e_point_cnt e = 0 then [(WOP_X OR width_flag e, x), (WOP_Y OR WOP_EXTENSION OR width_flag e, y), (WOP_OPERAND, ext)]
      else if e_x e = x \<and> e_y e = y then [(WOP_COLINEAR OR WOP_EXTENSION OR width_flag e, ext)]
      else if e_y e = y then [(WOP_X OR WOP_EXTENSION OR width_flag e, x), (WOP_OPERAND, ext)]
      else [(WOP_Y OR WOP_EXTENSION OR width_flag e, y), (WOP_OPERAND, ext)])"

definition moved_to :: "int \<Rightarrow> int \<Rightarrow> dbWireEncoder \<Rightarrow> dbWireEncoder \<Rightarrow> bool" where
  \<comment> \<open>the state after a point\<close>
  "moved_to x y e e' \<longleftrightarrow> e_x e' = x \<and> e_y e' = y \<and> e_layer e' = e_layer e \<and> e_wire_type e' = e_wire_type e
     \<and> non_default_rule e' = non_default_rule e \<and> rule_opcode e' = rule_opcode e
     \<and> e_point_cnt e' = (if e_point_cnt e \<noteq> 0 \<and> e_x e = x \<and> e_y e = y then e_point_cnt e else e_point_cnt e + 1)"

lemma tail_ops_cong:
  "non_default_rule e = non_default_rule e' \<Longrightarrow> e_point_cnt e = e_point_cnt e' \<Longrightarrow> rule_opcode e = rule_opcode e'
   \<Longrightarrow> tail_ops p e = tail_ops p e'"
  by (simp add: tail_ops_def rule_due_def)

lemma addPoint_out:
  assumes "addPoint x y p e = Inr (j, e')"
  shows "added e e' (first_ops x y e @ tail_ops p e')" "moved_to x y e e'"
    "j = int (e_idx e) + (if e_point_cnt e = 0 then 1 else 0)"
    "e_point_cnt e \<noteq> 0 \<Longrightarrow> e_x e = x \<or> e_y e = y"
proof -
  have t: "tail_ops p (e\<lparr>prev_extended_colinear_pnt := b\<rparr>) = tail_ops p e" for e b by (simp add: tail_ops_def rule_due_def)
  have t': "tail_ops p (point_tail p e) = tail_ops p e" for e by (intro tail_ops_cong) simp_all
  show "added e e' (first_ops x y e @ tail_ops p e')" "moved_to x y e e'" "j = int (e_idx e) + (if e_point_cnt e = 0 then 1 else 0)"
    "e_point_cnt e \<noteq> 0 \<Longrightarrow> e_x e = x \<or> e_y e = y"
    using assms by (auto simp: addPoint_def Let_def added_def first_ops_def moved_to_def t t' split: if_splits)
qed

lemma addPoint_ext_out:
  assumes "addPoint_ext x y ext p e = Inr (j, e')"
  shows "added e e' (ext_ops x y ext e @ tail_ops p e')" "moved_to x y e e'"
    "j = int (e_idx e) + (if e_point_cnt e = 0 then 1 else 0)"
    "e_point_cnt e \<noteq> 0 \<Longrightarrow> e_x e = x \<or> e_y e = y"
proof -
  have t': "tail_ops p (point_tail p e) = tail_ops p e" for e by (intro tail_ops_cong) simp_all
  show "added e e' (ext_ops x y ext e @ tail_ops p e')" "moved_to x y e e'" "j = int (e_idx e) + (if e_point_cnt e = 0 then 1 else 0)"
    "e_point_cnt e \<noteq> 0 \<Longrightarrow> e_x e = x \<or> e_y e = y"
    using assms by (auto simp: addPoint_ext_def Let_def added_def ext_ops_def moved_to_def t' split: if_splits)
qed

definition same_path :: "dbWireEncoder \<Rightarrow> dbWireEncoder \<Rightarrow> bool" where
  \<comment> \<open>the state after an element that is not a point\<close>
  "same_path e e' \<longleftrightarrow> e_x e' = e_x e \<and> e_y e' = e_y e \<and> e_point_cnt e' = e_point_cnt e \<and> e_wire_type e' = e_wire_type e
     \<and> non_default_rule e' = non_default_rule e \<and> rule_opcode e' = rule_opcode e"

lemma add_any_via_out:
  assumes "add_any_via op layers v e = Inr (j, e')"
  obtains tp bt where "layers = Some (tp, bt)" "e_point_cnt e \<noteq> 0" "j = int (e_idx e)" "same_path e e'"
    "e_layer e' = (if tp = e_layer e then bt else tp)"
    "added e e' [(if tp = e_layer e then op else op OR WOP_VIA_EXIT_TOP, v)]"
  using assms by (auto simp: add_any_via_def added_def same_path_def split: if_splits option.splits)

lemma addRect_out:
  "addRect x1 y1 x2 y2 e = Inr e' \<Longrightarrow> e_point_cnt e \<noteq> 0 \<and> same_path e e' \<and> e_layer e' = e_layer e
     \<and> added e e' [(WOP_RECT, x1), (WOP_OPERAND, y1), (WOP_OPERAND, x2), (WOP_OPERAND, y2)]"
  by (auto simp: addRect_def added_def same_path_def split: if_splits)

lemma addITerm_out:
  "addITerm t e = Inr e' \<Longrightarrow> e_point_cnt e \<noteq> 0 \<and> same_path e e' \<and> e_layer e' = e_layer e \<and> added e e' [(WOP_ITERM, t)]"
  by (auto simp: addITerm_def added_def same_path_def split: if_splits)

lemma addBTerm_out:
  "addBTerm t e = Inr e' \<Longrightarrow> e_point_cnt e \<noteq> 0 \<and> same_path e e' \<and> e_layer e' = e_layer e \<and> added e e' [(WOP_BTERM, t)]"
  by (auto simp: addBTerm_def added_def same_path_def split: if_splits)

definition fresh_path :: "int \<Rightarrow> 8 word \<Rightarrow> dbTechLayerRule option \<Rightarrow> nat \<Rightarrow> dbWireEncoder \<Rightarrow> bool" where
  \<comment> \<open>the state after the start of a path\<close>
  "fresh_path l b r n e \<longleftrightarrow> e_layer e = l \<and> e_wire_type e = b \<and> e_point_cnt e = n
     \<and> non_default_rule e = (case r of None \<Rightarrow> 0 | Some (i, _) \<Rightarrow> i)
     \<and> rule_opcode e = (case r of None \<Rightarrow> 0 | Some (_, blk) \<Rightarrow> if blk then WOP_RULE OR WOP_BLOCK_RULE else WOP_RULE)"

lemma newPath_out:
  "added e (newPath l t r e) ((WOP_PATH OR getWireType t, l) # rule_ops r)" "fresh_path l (getWireType t) r 0 (newPath l t r e)"
proof -
  let ?e = "addOp (WOP_PATH OR getWireType t) l (initPath l (getWireType t) r e)"
  have n: "newPath l t r e = add_rule r ?e" by (simp add: newPath_def Let_def)
  have "r \<noteq> None \<longrightarrow> non_default_rule ?e = fst (the r) \<and> rule_opcode ?e = (if snd (the r) then WOP_RULE OR WOP_BLOCK_RULE else WOP_RULE)"
    by (auto split: option.split prod.split)
  note o = add_rule_out [of r ?e, OF this]
  show "added e (newPath l t r e) ((WOP_PATH OR getWireType t, l) # rule_ops r)" unfolding n added_def o by simp
  show "fresh_path l (getWireType t) r 0 (newPath l t r e)" unfolding n by (simp add: fresh_path_def split: option.split)
qed

lemma jct_path_out:
  assumes "op \<in> {WOP_SHORT, WOP_VWIRE}" "jct_ok j e"
    and "e' = add_rule r (addOp WOP_OPERAND j (addOp (op OR getWireType t) l (initPath l (getWireType t) r e)))"
  shows "added e e' ((op OR getWireType t, l) # (WOP_OPERAND, j) # rule_ops r)" "fresh_path l (getWireType t) r 0 e'"
proof -
  let ?e = "addOp WOP_OPERAND j (addOp (op OR getWireType t) l (initPath l (getWireType t) r e))"
  have "r \<noteq> None \<longrightarrow> non_default_rule ?e = fst (the r) \<and> rule_opcode ?e = (if snd (the r) then WOP_RULE OR WOP_BLOCK_RULE else WOP_RULE)"
    by (auto split: option.split prod.split)
  note o = add_rule_out [of r ?e, OF this]
  show "added e e' ((op OR getWireType t, l) # (WOP_OPERAND, j) # rule_ops r)" unfolding assms(3) added_def o by simp
  show "fresh_path l (getWireType t) r 0 e'" unfolding assms(3) by (simp add: fresh_path_def split: option.split)
qed

lemma path_at_out:
  assumes "path_at db j t r e = Inr e'"
  obtains pnt b where "jct_ok j e" "getPrevPoint db (wire_of e) j True = Inr pnt"
    "b = (case t of None \<Rightarrow> e_wire_type e | Some t \<Rightarrow> getWireType t)" "e_x e' = wp_x pnt" "e_y e' = wp_y pnt"
    "fresh_path (wp_layer pnt) b r 1 e'" "added e e' ((WOP_JUNCTION OR b, j) # rule_ops r)"
proof -
  have j: "jct_ok j e" using assms by (auto simp: path_at_def split: if_splits)
  then obtain pnt where p: "getPrevPoint db (wire_of e) j True = Inr pnt"
    using assms by (auto simp: path_at_def wire_of_def)
  define b where "b = (case t of None \<Rightarrow> e_wire_type e | Some t \<Rightarrow> getWireType t)"
  let ?e = "addOp (WOP_JUNCTION OR b) j ((initPath (wp_layer pnt) b r e)\<lparr>e_x := wp_x pnt, e_y := wp_y pnt, e_point_cnt := 1\<rparr>)"
  have e': "e' = add_rule r ?e" using assms j p by (simp add: path_at_def wire_of_def Let_def b_def)
  have "r \<noteq> None \<longrightarrow> non_default_rule ?e = fst (the r) \<and> rule_opcode ?e = (if snd (the r) then WOP_RULE OR WOP_BLOCK_RULE else WOP_RULE)"
    by (auto split: option.split prod.split)
  note o = add_rule_out [of r ?e, OF this]
  show ?thesis
  proof (rule that [OF j p b_def])
    show "added e e' ((WOP_JUNCTION OR b, j) # rule_ops r)" unfolding e' added_def o by simp
    show "fresh_path (wp_layer pnt) b r 1 e'" unfolding e' by (simp add: fresh_path_def split: option.split)
    show "e_x e' = wp_x pnt" "e_y e' = wp_y pnt" unfolding e' by simp_all
  qed
qed

end
