(* ===== verification/Odb_Wire_Sim.thy ===== *)
theory Odb_Wire_Sim
  imports Odb_Wire_Codec
begin

section \<open>The decoder follows the encoder\<close>

text \<open>
  The steps of the decoder over the opcodes of one command, and the simulation between encoder and
  decoder.
\<close>

unbundle bit_operations_syntax

subsection \<open>Masks\<close>

lemma wop_distinct:
  "distinct [WOP_PATH, WOP_SHORT, WOP_JUNCTION, WOP_RULE, WOP_X, WOP_Y, WOP_COLINEAR, WOP_VIA, WOP_TECH_VIA,
     WOP_ITERM, WOP_BTERM, WOP_OPERAND, WOP_PROPERTY, WOP_VWIRE, WOP_RECT, WOP_NOP]"
  "distinct [WOP_NOP, WOP_RECT, WOP_VWIRE, WOP_PROPERTY, WOP_OPERAND, WOP_BTERM, WOP_ITERM, WOP_TECH_VIA, WOP_VIA,
     WOP_COLINEAR, WOP_Y, WOP_X, WOP_RULE, WOP_JUNCTION, WOP_SHORT, WOP_PATH]"
  by (simp_all add: wop_defs)

lemmas wop_neq [simp] = wop_distinct [simplified]

lemma width_cases: "width_flag e = WOP_DEFAULT_WIDTH \<or> width_flag e = 0"
  by (simp add: width_flag_def)

lemma flag_neq [simp]: "WOP_VIA_EXIT_TOP \<noteq> 0" "WOP_BLOCK_RULE \<noteq> 0" "WOP_EXTENSION \<noteq> 0"
  by (simp_all add: wop_defs)

lemma wop_masks [simp]:
  "WOP_PROPERTY AND WOP_OPCODE_MASK = WOP_PROPERTY" "WOP_OPERAND AND WOP_OPCODE_MASK = WOP_OPERAND"
  "WOP_RECT AND WOP_OPCODE_MASK = WOP_RECT" "WOP_ITERM AND WOP_OPCODE_MASK = WOP_ITERM"
  "WOP_BTERM AND WOP_OPCODE_MASK = WOP_BTERM" "WOP_VIA AND WOP_OPCODE_MASK = WOP_VIA"
  "WOP_TECH_VIA AND WOP_OPCODE_MASK = WOP_TECH_VIA" "WOP_RULE AND WOP_OPCODE_MASK = WOP_RULE"
  "(WOP_VIA OR WOP_VIA_EXIT_TOP) AND WOP_OPCODE_MASK = WOP_VIA"
  "(WOP_TECH_VIA OR WOP_VIA_EXIT_TOP) AND WOP_OPCODE_MASK = WOP_TECH_VIA"
  "(WOP_RULE OR WOP_BLOCK_RULE) AND WOP_OPCODE_MASK = WOP_RULE"
  "(WOP_VIA OR WOP_VIA_EXIT_TOP) AND WOP_VIA_EXIT_TOP \<noteq> 0" "(WOP_TECH_VIA OR WOP_VIA_EXIT_TOP) AND WOP_VIA_EXIT_TOP \<noteq> 0"
  "WOP_VIA AND WOP_VIA_EXIT_TOP = 0" "WOP_TECH_VIA AND WOP_VIA_EXIT_TOP = 0"
  "(WOP_RULE OR WOP_BLOCK_RULE) AND WOP_BLOCK_RULE \<noteq> 0" "WOP_RULE AND WOP_BLOCK_RULE = 0"
  by (simp_all add: wop_defs)

lemma wop_width_masks:
  assumes "D = WOP_DEFAULT_WIDTH \<or> D = 0"
  shows "(WOP_X OR D) AND WOP_OPCODE_MASK = WOP_X" "(WOP_Y OR D) AND WOP_OPCODE_MASK = WOP_Y"
    "(WOP_COLINEAR OR D) AND WOP_OPCODE_MASK = WOP_COLINEAR"
    "(WOP_X OR WOP_EXTENSION OR D) AND WOP_OPCODE_MASK = WOP_X" "(WOP_Y OR WOP_EXTENSION OR D) AND WOP_OPCODE_MASK = WOP_Y"
    "(WOP_COLINEAR OR WOP_EXTENSION OR D) AND WOP_OPCODE_MASK = WOP_COLINEAR"
    "(WOP_X OR D) AND WOP_EXTENSION = 0" "(WOP_Y OR D) AND WOP_EXTENSION = 0" "(WOP_COLINEAR OR D) AND WOP_EXTENSION = 0"
    "(WOP_X OR WOP_EXTENSION OR D) AND WOP_EXTENSION \<noteq> 0" "(WOP_Y OR WOP_EXTENSION OR D) AND WOP_EXTENSION \<noteq> 0"
    "(WOP_COLINEAR OR WOP_EXTENSION OR D) AND WOP_EXTENSION \<noteq> 0"
  using assms by (auto simp: wop_defs)

lemmas width_masks [simp] = wop_width_masks [OF width_cases]

lemma type_masks [simp]:
  "(WOP_PATH OR getWireType t) AND WOP_OPCODE_MASK = WOP_PATH" "(WOP_SHORT OR getWireType t) AND WOP_OPCODE_MASK = WOP_SHORT"
  "(WOP_VWIRE OR getWireType t) AND WOP_OPCODE_MASK = WOP_VWIRE"
  "(WOP_JUNCTION OR getWireType t) AND WOP_OPCODE_MASK = WOP_JUNCTION"
  "(WOP_PATH OR getWireType t) AND WOP_WIRE_TYPE_MASK = getWireType t"
  "(WOP_SHORT OR getWireType t) AND WOP_WIRE_TYPE_MASK = getWireType t"
  "(WOP_VWIRE OR getWireType t) AND WOP_WIRE_TYPE_MASK = getWireType t"
  "(WOP_JUNCTION OR getWireType t) AND WOP_WIRE_TYPE_MASK = getWireType t"
  by (cases t; simp add: wop_defs)+

lemma set_wire_type_get:
  "op AND WOP_WIRE_TYPE_MASK = getWireType t \<Longrightarrow> set_wire_type op d = d\<lparr>d_wire_type := kept_type t\<rparr>"
  by (cases t) (simp_all add: set_wire_type_def kept_type_def)

subsection \<open>Reading opcodes\<close>

fun block :: "dbWire \<Rightarrow> nat \<Rightarrow> (8 word \<times> int) list \<Rightarrow> bool" where
  \<comment> \<open>these opcodes and operands stand from here on\<close>
  "block w i [] \<longleftrightarrow> i \<le> length (w_opcodes w)"
| "block w i ((op, v) # r) \<longleftrightarrow> i < length (w_opcodes w) \<and> w_opcodes w ! i = op \<and> w_data w ! i = v \<and> block w (Suc i) r"

lemma block_append: "block w i (xs @ ys) \<longleftrightarrow> block w i xs \<and> block w (i + length xs) ys"
proof (induction xs arbitrary: i)
  case Nil
  then show ?case by (cases ys) auto
next
  case (Cons x xs)
  obtain op v where x: "x = (op, v)" by fastforce
  show ?case using Cons.IH [of "Suc i"] by (simp add: x)
qed

lemma block_nth:
  "length (w_data w) = length (w_opcodes w) \<Longrightarrow> i + length ovs \<le> length (w_opcodes w)
   \<Longrightarrow> (\<And>k. k < length ovs \<Longrightarrow> w_opcodes w ! (i + k) = fst (ovs ! k) \<and> w_data w ! (i + k) = snd (ovs ! k)) \<Longrightarrow> block w i ovs"
proof (induction ovs arbitrary: i)
  case (Cons x ovs)
  obtain op v where x: "x = (op, v)" by fastforce
  have "block w (Suc i) ovs"
    using Cons.prems(1,2) Cons.prems(3) [of "Suc k" for k] by (intro Cons.IH) auto
  then show ?case using Cons.prems(2) Cons.prems(3) [of 0] by (simp add: x)
qed simp

definition no_rule :: "dbWire \<Rightarrow> nat \<Rightarrow> bool" where
  "no_rule w i \<longleftrightarrow> i < length (w_opcodes w) \<longrightarrow> op_at w i \<noteq> WOP_RULE"

abbreviation fetched :: "int \<Rightarrow> dbWireDecoder \<Rightarrow> dbWireDecoder" where
  "fetched v d \<equiv> d\<lparr>d_jct_id := int (d_idx d), d_idx := Suc (d_idx d), operand := v\<rparr>"

lemma next_at:
  assumes "block w (d_idx d) ((op, v) # r)" "length (w_data w) = length (w_opcodes w)"
  shows "decoder_next db w d =
     (case decode_op db w op (fetched v d) of Some res \<Rightarrow> res | None \<Rightarrow> decoder_next db w (fetched v d))"
  using assms by (subst decoder_next.simps) (simp add: nextOp_def)

lemma nextOp_at:
  assumes "block w (d_idx d) ((op, v) # r)" "length (w_data w) = length (w_opcodes w)"
  shows "nextOp w d = Inr (op, v, d\<lparr>d_idx := Suc (d_idx d)\<rparr>)"
  using assms by (simp add: nextOp_def)

text \<open>
  The elements that a reader gets from one state on until another; a state may be replaced by one
  from which \<open>next\<close> does the same.
\<close>

fun reads :: "wire_db \<Rightarrow> dbWire \<Rightarrow> dbWireDecoder \<Rightarrow> (wire_event \<times> int) list \<Rightarrow> dbWireDecoder \<Rightarrow> bool" where
  "reads db w d [] d' \<longleftrightarrow> decoder_next db w d = decoder_next db w d'"
| "reads db w d (ev # evs) d' \<longleftrightarrow>
     (\<exists>op d1. decoder_next db w d = Inr (op, d1) \<and> op \<noteq> END_DECODE \<and> observe d1 = Inr (fst ev) \<and> getLayer d1 = snd ev
        \<and> reads db w d1 evs d')"

lemma reads_cong: "decoder_next db w d = decoder_next db w d1 \<Longrightarrow> reads db w d evs d' = reads db w d1 evs d'"
  by (cases evs) auto

lemma reads_append: "reads db w d evs d1 \<Longrightarrow> reads db w d1 evs' d2 \<Longrightarrow> reads db w d (evs @ evs') d2"
proof (induction evs arbitrary: d)
  case Nil
  then show ?case using reads_cong [of db w d d1 evs' d2] by simp
next
  case (Cons ev evs)
  then show ?case by auto
qed

lemma decode_all_reads:
  assumes "reads db w d evs d'" "decoder_next db w d' = Inr (END_DECODE, d'')" "length evs < n"
  shows "decode_all db w n d = Inr evs"
  using assms
proof (induction evs arbitrary: d n)
  case Nil
  then show ?case by (cases n) auto
next
  case (Cons ev evs)
  obtain k where k: "n = Suc k" "length evs < k" using Cons.prems(3) by (cases n) auto
  obtain op d1 where d1: "decoder_next db w d = Inr (op, d1)" "op \<noteq> END_DECODE" "observe d1 = Inr (fst ev)"
    "getLayer d1 = snd ev" "reads db w d1 evs d'" using Cons.prems(1) by auto
  show ?case using d1 Cons.IH [OF d1(5) Cons.prems(2) k(2)] by (simp add: k(1))
qed

text \<open>One element: the decoder is at \<open>op\<close> and the switch returns.\<close>

lemma reads_one:
  assumes "block w (d_idx d) ((op, v) # r)" "length (w_data w) = length (w_opcodes w)"
    and "decode_op db w op (fetched v d) = Some (Inr (oc, d1))" "oc \<noteq> END_DECODE" "observe d1 = Inr ev" "getLayer d1 = l"
    and "decoder_next db w d1 = decoder_next db w d'"
  shows "reads db w d [(ev, l)] d'"
  using next_at [OF assms(1,2), of db] assms(3-7) by simp

subsection \<open>The end of a point\<close>

definition agree :: "dbWireDecoder \<Rightarrow> dbWireDecoder \<Rightarrow> bool" where
  \<comment> \<open>the part of the state that reading goes on from, but for the place\<close>
  "agree d d' \<longleftrightarrow> d_x d' = d_x d \<and> d_y d' = d_y d \<and> d_layer d' = d_layer d \<and> d_point_cnt d' = d_point_cnt d"

lemma agree_refl [simp]: "agree d d"
  by (simp add: agree_def)

lemma skip_property:
  assumes "block w (d_idx d) ((WOP_PROPERTY, p) # r)" "length (w_data w) = length (w_opcodes w)"
  shows "decoder_next db w d = decoder_next db w (fetched p d)"
  using next_at [OF assms, of db] by (simp add: decode_op_def Let_def)

lemma flush_tail:
  assumes "block w (d_idx d) (tail_ops p e)" "no_rule w (d_idx d + length (tail_ops p e))"
    and "length (w_data w) = length (w_opcodes w)" "rule_opcode e AND WOP_OPCODE_MASK = WOP_RULE \<or> non_default_rule e = 0"
  shows "\<exists>d'. decoder_next db w (flushRule w d) = decoder_next db w d' \<and> d_idx d' = d_idx d + length (tail_ops p e) \<and> agree d d'"
proof (cases "rule_due e")
  case True
  then have r: "rule_opcode e AND WOP_OPCODE_MASK = WOP_RULE" using assms(4) by (simp add: rule_due_def)
  have cnt: "e_point_cnt e \<noteq> 1" using True by (auto simp: rule_due_def WOP_NON_DEFAULT_WIDTH_POINT_CNT_def)
  have t: "tail_ops p e = [(rule_opcode e, non_default_rule e), (WOP_PROPERTY, p)]" using True cnt by (simp add: tail_ops_def)
  let ?d = "d\<lparr>d_idx := Suc (d_idx d)\<rparr>"
  have f: "flushRule w d = ?d" using assms(1) r by (simp add: flushRule_def t)
  have "block w (d_idx ?d) ((WOP_PROPERTY, p) # [])" using assms(1) by (simp add: t)
  from skip_property [OF this assms(3)] show ?thesis
    by (intro exI [of _ "fetched p ?d"]) (simp add: f t agree_def)
next
  case False
  have f: "flushRule w d = d"
  proof -
    have "\<not> (d_idx d \<noteq> length (w_opcodes w) \<and> op_at w (d_idx d) = WOP_RULE)"
    proof (cases "e_point_cnt e = 1")
      case True
      then have "tail_ops p e = []" using False by (simp add: tail_ops_def)
      then show ?thesis using assms(1,2) by (auto simp: no_rule_def)
    next
      case c: False
      then have "tail_ops p e = [(WOP_PROPERTY, p)]" using False by (simp add: tail_ops_def)
      then show ?thesis using assms(1) by auto
    qed
    then show ?thesis by (simp add: flushRule_def)
  qed
  show ?thesis
  proof (cases "e_point_cnt e = 1")
    case True
    then show ?thesis using False f by (intro exI [of _ d]) (simp add: tail_ops_def)
  next
    case c: False
    then have t: "tail_ops p e = [(WOP_PROPERTY, p)]" using False by (simp add: tail_ops_def)
    have "block w (d_idx d) ((WOP_PROPERTY, p) # [])" using assms(1) by (simp add: t)
    from skip_property [OF this assms(3)] show ?thesis
      by (intro exI [of _ "fetched p d"]) (simp add: f t agree_def)
  qed
qed

lemma flushRule_sel [simp]:
  "d_x (flushRule w d) = d_x d" "d_y (flushRule w d) = d_y d" "d_layer (flushRule w d) = d_layer d"
  "d_point_cnt (flushRule w d) = d_point_cnt d" "d_opcode (flushRule w d) = d_opcode d" "d_jct_id (flushRule w d) = d_jct_id d"
  "operand2 (flushRule w d) = operand2 d" "operand (flushRule w d) = operand d"
  by (simp_all add: flushRule_def)

lemma reads_point:
  assumes "block w (d_idx d) ((op, v) # r)" "length (w_data w) = length (w_opcodes w)"
    and "decode_op db w op (fetched v d) = Some (end_point w d1)" "block w (d_idx d1) (tail_ops p e)"
    and "no_rule w (d_idx d1 + length (tail_ops p e))" "rule_opcode e AND WOP_OPCODE_MASK = WOP_RULE \<or> non_default_rule e = 0"
    and "d_opcode d1 \<in> {POINT, POINT_EXT}" "observe d1 = Inr ev" "d_layer d1 = l"
  shows "\<exists>d'. reads db w d [(ev, l)] d' \<and> d_idx d' = d_idx d1 + length (tail_ops p e) \<and> agree d1 d'"
proof -
  let ?d1 = "d1\<lparr>d_property := 0\<rparr>"
  have e: "end_point w d1 = Inr (d_opcode d1, flushRule w ?d1)" by (simp add: end_point_def Let_def)
  have o: "observe (flushRule w ?d1) = Inr ev"
    using assms(7,8) by (auto simp: observe_def getPoint_def getPoint_ext_def getJunctionId_def)
  have "\<exists>d'. decoder_next db w (flushRule w ?d1) = decoder_next db w d' \<and> d_idx d' = d_idx ?d1 + length (tail_ops p e) \<and> agree ?d1 d'"
    using assms(2,4-6) by (intro flush_tail) simp_all
  then obtain d' where d': "decoder_next db w (flushRule w ?d1) = decoder_next db w d'"
    "d_idx d' = d_idx d1 + length (tail_ops p e)" "agree d1 d'" by (auto simp: agree_def)
  have "reads db w d [(ev, l)] d'"
    by (rule reads_one [OF assms(1,2) _ _ o _ d'(1)]) (use assms(3,7,9) e in \<open>auto simp: getLayer_def\<close>)
  then show ?thesis using d' by blast
qed

subsection \<open>The simulation\<close>

definition sim :: "dbWireEncoder \<Rightarrow> dbWireDecoder \<Rightarrow> bool" where
  "sim e d \<longleftrightarrow> d_idx d = e_idx e \<and> d_layer d = e_layer e \<and> (d_point_cnt d = 0 \<longleftrightarrow> e_point_cnt e = 0)
     \<and> (e_point_cnt e \<noteq> 0 \<longrightarrow> d_x d = e_x e \<and> d_y d = e_y e)"

definition rule_ok :: "dbWireEncoder \<Rightarrow> bool" where
  "rule_ok e \<longleftrightarrow> rule_opcode e AND WOP_OPCODE_MASK = WOP_RULE \<or> non_default_rule e = 0"

definition reads_cmd :: "wire_db \<Rightarrow> dbWire \<Rightarrow> dbWireDecoder \<Rightarrow> (wire_event \<times> int) list \<Rightarrow> dbWireEncoder \<Rightarrow> bool" where
  \<comment> \<open>reading these elements leads to a state that agrees with the encoder\<close>
  "reads_cmd db w d evs e' \<longleftrightarrow> (\<exists>d'. reads db w d evs d' \<and> sim e' d')"

lemma tail_first: "e_point_cnt e = Suc 0 \<Longrightarrow> tail_ops p e = []"
  by (simp add: tail_ops_def rule_due_def WOP_NON_DEFAULT_WIDTH_POINT_CNT_def)

lemma sim_point:
  assumes "moved_to x y e e'" "e_idx e' = n" "agree d1 d'" "d_idx d' = n" "d_x d1 = x" "d_y d1 = y" "d_layer d1 = e_layer e" "d_point_cnt d1 \<noteq> 0"
  shows "sim e' d'"
  using assms by (auto simp: sim_def moved_to_def agree_def)

lemma read_addPoint:
  assumes "addPoint x y p e = Inr (j, e')" "sim e d" "length (w_data w) = length (w_opcodes w)"
    and "block w (e_idx e) (first_ops x y e @ tail_ops p e')" "no_rule w (e_idx e')" "rule_ok e"
  shows "reads_cmd db w d [(EvPoint j x y, e_layer e)] e'"
proof -
  note out = addPoint_out [OF assms(1)]
  have idx: "e_idx e' = e_idx e + length (first_ops x y e) + length (tail_ops p e')" using out(1) by (simp add: added_def)
  have ro: "rule_opcode e' AND WOP_OPCODE_MASK = WOP_RULE \<or> non_default_rule e' = 0"
    using assms(6) out(2) by (simp add: rule_ok_def moved_to_def)
  have d: "d_idx d = e_idx e" "d_layer d = e_layer e" "d_point_cnt d = 0 \<longleftrightarrow> e_point_cnt e = 0"
    "e_point_cnt e \<noteq> 0 \<Longrightarrow> d_x d = e_x e \<and> d_y d = e_y e" using assms(2) by (auto simp: sim_def)
  note b = assms(4)
  consider (first) "e_point_cnt e = 0" | (same) "e_point_cnt e \<noteq> 0" "e_x e = x" "e_y e = y"
    | (horizontal) "e_point_cnt e \<noteq> 0" "e_x e \<noteq> x" "e_y e = y" | (vertical) "e_point_cnt e \<noteq> 0" "e_x e = x" "e_y e \<noteq> y"
    using out(4) by blast
  then show ?thesis
  proof cases
    case first
    have t: "tail_ops p e' = []" using first out(2) by (intro tail_first) (simp add: moved_to_def)
    have b': "block w (d_idx d) ((WOP_X OR width_flag e, x) # [(WOP_Y OR width_flag e, y)])"
      using b first by (simp add: first_ops_def t d)
    have b2: "block w (Suc (d_idx d)) [(WOP_Y OR width_flag e, y)]" using b' by simp
    let ?d2 = "(fetched x d)\<lparr>d_x := x, d_jct_id := int (Suc (d_idx d)), d_idx := Suc (Suc (d_idx d)), d_y := y, d_point_cnt := 1, d_opcode := POINT\<rparr>"
    have "nextOp w ((fetched x d)\<lparr>d_x := x, d_jct_id := int (Suc (d_idx d))\<rparr>) =
        Inr (WOP_Y OR width_flag e, y, (fetched x d)\<lparr>d_x := x, d_jct_id := int (Suc (d_idx d)), d_idx := Suc (Suc (d_idx d))\<rparr>)"
      using b2 assms(3) by (simp add: nextOp_def)
    then have "decode_op db w (WOP_X OR width_flag e) (fetched x d) = Some (Inr (POINT, ?d2))"
      using first d(3) by (simp add: decode_op_def Let_def read_ext_def)
    from reads_one [OF b' assms(3) this _ _ _ refl, of "EvPoint j x y" "e_layer e"]
    have "reads db w d [(EvPoint j x y, e_layer e)] ?d2"
      using out(3) first d by (simp add: observe_def getPoint_def getJunctionId_def getLayer_def)
    moreover have "sim e' ?d2" using out(2) idx d first by (simp add: sim_def moved_to_def t first_ops_def)
    ultimately show ?thesis unfolding reads_cmd_def by blast
  next
    case same
    have b': "block w (d_idx d) ((WOP_COLINEAR OR width_flag e, 0) # tail_ops p e')" using b same by (simp add: first_ops_def d)
    let ?d1 = "(fetched 0 d)\<lparr>d_point_cnt := d_point_cnt d + 1, d_opcode := POINT\<rparr>"
    have dop: "decode_op db w (WOP_COLINEAR OR width_flag e) (fetched 0 d) = Some (end_point w ?d1)"
      by (simp add: decode_op_def Let_def)
    have n: "e_idx e' = d_idx ?d1 + length (tail_ops p e')" using idx same by (simp add: first_ops_def d)
    have "\<exists>d'. reads db w d [(EvPoint j x y, e_layer e)] d' \<and> d_idx d' = d_idx ?d1 + length (tail_ops p e') \<and> agree ?d1 d'"
      by (rule reads_point [OF b' assms(3) dop _ _ ro])
        (use b' assms(5) n same d out(3) in \<open>simp_all add: observe_def getPoint_def getJunctionId_def\<close>)
    then show ?thesis unfolding reads_cmd_def
      using sim_point [OF out(2) n] same d by fastforce
  next
    case horizontal
    have b': "block w (d_idx d) ((WOP_X OR width_flag e, x) # tail_ops p e')" using b horizontal by (simp add: first_ops_def d)
    let ?d1 = "(fetched x d)\<lparr>d_x := x, d_point_cnt := d_point_cnt d + 1, d_opcode := POINT\<rparr>"
    have dop: "decode_op db w (WOP_X OR width_flag e) (fetched x d) = Some (end_point w ?d1)"
      using horizontal d by (simp add: decode_op_def Let_def read_ext_def)
    have n: "e_idx e' = d_idx ?d1 + length (tail_ops p e')" using idx horizontal by (simp add: first_ops_def d)
    have "\<exists>d'. reads db w d [(EvPoint j x y, e_layer e)] d' \<and> d_idx d' = d_idx ?d1 + length (tail_ops p e') \<and> agree ?d1 d'"
      by (rule reads_point [OF b' assms(3) dop _ _ ro])
        (use b' assms(5) n horizontal d out(3) in \<open>simp_all add: observe_def getPoint_def getJunctionId_def\<close>)
    then show ?thesis unfolding reads_cmd_def
      using sim_point [OF out(2) n] horizontal d by fastforce
  next
    case vertical
    have b': "block w (d_idx d) ((WOP_Y OR width_flag e, y) # tail_ops p e')" using b vertical by (simp add: first_ops_def d)
    let ?d1 = "(fetched y d)\<lparr>d_point_cnt := d_point_cnt d + 1, d_y := y, d_opcode := POINT\<rparr>"
    have dop: "decode_op db w (WOP_Y OR width_flag e) (fetched y d) = Some (end_point w ?d1)"
      using vertical d by (simp add: decode_op_def Let_def read_ext_def)
    have n: "e_idx e' = d_idx ?d1 + length (tail_ops p e')" using idx vertical by (simp add: first_ops_def d)
    have "\<exists>d'. reads db w d [(EvPoint j x y, e_layer e)] d' \<and> d_idx d' = d_idx ?d1 + length (tail_ops p e') \<and> agree ?d1 d'"
      by (rule reads_point [OF b' assms(3) dop _ _ ro])
        (use b' assms(5) n vertical d out(3) in \<open>simp_all add: observe_def getPoint_def getJunctionId_def\<close>)
    then show ?thesis unfolding reads_cmd_def
      using sim_point [OF out(2) n] vertical d by fastforce
  qed
qed

lemma read_addPoint_ext:
  assumes "addPoint_ext x y ext p e = Inr (j, e')" "sim e d" "length (w_data w) = length (w_opcodes w)"
    and "block w (e_idx e) (ext_ops x y ext e @ tail_ops p e')" "no_rule w (e_idx e')" "rule_ok e"
  shows "reads_cmd db w d [(EvPointExt j x y ext, e_layer e)] e'"
proof -
  note out = addPoint_ext_out [OF assms(1)]
  have idx: "e_idx e' = e_idx e + length (ext_ops x y ext e) + length (tail_ops p e')" using out(1) by (simp add: added_def)
  have ro: "rule_opcode e' AND WOP_OPCODE_MASK = WOP_RULE \<or> non_default_rule e' = 0"
    using assms(6) out(2) by (simp add: rule_ok_def moved_to_def)
  have d: "d_idx d = e_idx e" "d_layer d = e_layer e" "d_point_cnt d = 0 \<longleftrightarrow> e_point_cnt e = 0"
    "e_point_cnt e \<noteq> 0 \<Longrightarrow> d_x d = e_x e \<and> d_y d = e_y e" using assms(2) by (auto simp: sim_def)
  note b = assms(4)
  consider (first) "e_point_cnt e = 0" | (same) "e_point_cnt e \<noteq> 0" "e_x e = x" "e_y e = y"
    | (horizontal) "e_point_cnt e \<noteq> 0" "e_x e \<noteq> x" "e_y e = y" | (vertical) "e_point_cnt e \<noteq> 0" "e_x e = x" "e_y e \<noteq> y"
    using out(4) by blast
  then show ?thesis
  proof cases
    case first
    have t: "tail_ops p e' = []" using first out(2) by (intro tail_first) (simp add: moved_to_def)
    have b': "block w (d_idx d) ((WOP_X OR width_flag e, x) # [(WOP_Y OR WOP_EXTENSION OR width_flag e, y), (WOP_OPERAND, ext)])"
      using b first by (simp add: ext_ops_def t d)
    let ?d2 = "(fetched x d)\<lparr>d_x := x, d_jct_id := int (Suc (d_idx d)), d_idx := Suc (Suc (Suc (d_idx d))), d_y := y, d_point_cnt := 1,
      operand2 := ext, d_opcode := POINT_EXT\<rparr>"
    have "nextOp w ((fetched x d)\<lparr>d_x := x, d_jct_id := int (Suc (d_idx d))\<rparr>) = Inr (WOP_Y OR WOP_EXTENSION OR width_flag e, y,
        (fetched x d)\<lparr>d_x := x, d_jct_id := int (Suc (d_idx d)), d_idx := Suc (Suc (d_idx d))\<rparr>)"
      using b' assms(3) by (simp add: nextOp_def)
    moreover have "nextOp w ((fetched x d)\<lparr>d_x := x, d_jct_id := int (Suc (d_idx d)), d_idx := Suc (Suc (d_idx d)), d_y := y, d_point_cnt := 1\<rparr>)
        = Inr (WOP_OPERAND, ext, (fetched x d)\<lparr>d_x := x, d_jct_id := int (Suc (d_idx d)), d_idx := Suc (Suc (Suc (d_idx d))), d_y := y, d_point_cnt := 1\<rparr>)"
      using b' assms(3) by (simp add: nextOp_def)
    ultimately have "decode_op db w (WOP_X OR width_flag e) (fetched x d) = Some (Inr (POINT_EXT, ?d2))"
      using first d(3) by (simp add: decode_op_def Let_def read_ext_def)
    from reads_one [OF b' assms(3) this _ _ _ refl, of "EvPointExt j x y ext" "e_layer e"]
    have "reads db w d [(EvPointExt j x y ext, e_layer e)] ?d2"
      using out(3) first d by (simp add: observe_def getPoint_ext_def getJunctionId_def getLayer_def)
    moreover have "sim e' ?d2" using out(2) idx d first by (simp add: sim_def moved_to_def t ext_ops_def)
    ultimately show ?thesis unfolding reads_cmd_def by blast
  next
    case same
    have b': "block w (d_idx d) ((WOP_COLINEAR OR WOP_EXTENSION OR width_flag e, ext) # tail_ops p e')"
      using b same by (simp add: ext_ops_def d)
    let ?d1 = "(fetched ext d)\<lparr>d_point_cnt := d_point_cnt d + 1, operand2 := ext, d_opcode := POINT_EXT\<rparr>"
    have dop: "decode_op db w (WOP_COLINEAR OR WOP_EXTENSION OR width_flag e) (fetched ext d) = Some (end_point w ?d1)"
      by (simp add: decode_op_def Let_def)
    have n: "e_idx e' = d_idx ?d1 + length (tail_ops p e')" using idx same by (simp add: ext_ops_def d)
    have "\<exists>d'. reads db w d [(EvPointExt j x y ext, e_layer e)] d' \<and> d_idx d' = d_idx ?d1 + length (tail_ops p e') \<and> agree ?d1 d'"
      by (rule reads_point [OF b' assms(3) dop _ _ ro])
        (use b' assms(5) n same d out(3) in \<open>simp_all add: observe_def getPoint_ext_def getJunctionId_def\<close>)
    then show ?thesis unfolding reads_cmd_def
      using sim_point [OF out(2) n] same d by fastforce
  next
    case horizontal
    have b': "block w (d_idx d) ((WOP_X OR WOP_EXTENSION OR width_flag e, x) # (WOP_OPERAND, ext) # tail_ops p e')"
      using b horizontal by (simp add: ext_ops_def d)
    let ?d1 = "(fetched x d)\<lparr>d_x := x, d_point_cnt := d_point_cnt d + 1, d_idx := Suc (Suc (d_idx d)), operand2 := ext, d_opcode := POINT_EXT\<rparr>"
    have "nextOp w ((fetched x d)\<lparr>d_x := x, d_point_cnt := d_point_cnt d + 1\<rparr>) =
        Inr (WOP_OPERAND, ext, (fetched x d)\<lparr>d_x := x, d_point_cnt := d_point_cnt d + 1, d_idx := Suc (Suc (d_idx d))\<rparr>)"
      using b' assms(3) by (simp add: nextOp_def)
    then have dop: "decode_op db w (WOP_X OR WOP_EXTENSION OR width_flag e) (fetched x d) = Some (end_point w ?d1)"
      using horizontal d by (simp add: decode_op_def Let_def read_ext_def)
    have n: "e_idx e' = d_idx ?d1 + length (tail_ops p e')" using idx horizontal by (simp add: ext_ops_def d)
    have "\<exists>d'. reads db w d [(EvPointExt j x y ext, e_layer e)] d' \<and> d_idx d' = d_idx ?d1 + length (tail_ops p e') \<and> agree ?d1 d'"
      by (rule reads_point [OF b' assms(3) dop _ _ ro])
        (use b' assms(5) n horizontal d out(3) in \<open>simp_all add: observe_def getPoint_ext_def getJunctionId_def\<close>)
    then show ?thesis unfolding reads_cmd_def
      using sim_point [OF out(2) n] horizontal d by fastforce
  next
    case vertical
    have b': "block w (d_idx d) ((WOP_Y OR WOP_EXTENSION OR width_flag e, y) # (WOP_OPERAND, ext) # tail_ops p e')"
      using b vertical by (simp add: ext_ops_def d)
    let ?d1 = "(fetched y d)\<lparr>d_point_cnt := d_point_cnt d + 1, d_y := y, d_idx := Suc (Suc (d_idx d)), operand2 := ext, d_opcode := POINT_EXT\<rparr>"
    have "nextOp w ((fetched y d)\<lparr>d_point_cnt := d_point_cnt d + 1, d_y := y\<rparr>) =
        Inr (WOP_OPERAND, ext, (fetched y d)\<lparr>d_point_cnt := d_point_cnt d + 1, d_y := y, d_idx := Suc (Suc (d_idx d))\<rparr>)"
      using b' assms(3) by (simp add: nextOp_def)
    then have dop: "decode_op db w (WOP_Y OR WOP_EXTENSION OR width_flag e) (fetched y d) = Some (end_point w ?d1)"
      using vertical d by (simp add: decode_op_def Let_def read_ext_def)
    have n: "e_idx e' = d_idx ?d1 + length (tail_ops p e')" using idx vertical by (simp add: ext_ops_def d)
    have "\<exists>d'. reads db w d [(EvPointExt j x y ext, e_layer e)] d' \<and> d_idx d' = d_idx ?d1 + length (tail_ops p e') \<and> agree ?d1 d'"
      by (rule reads_point [OF b' assms(3) dop _ _ ro])
        (use b' assms(5) n vertical d out(3) in \<open>simp_all add: observe_def getPoint_ext_def getJunctionId_def\<close>)
    then show ?thesis unfolding reads_cmd_def
      using sim_point [OF out(2) n] vertical d by fastforce
  qed
qed

text \<open>Elements other than points, and the starts of paths.\<close>

lemma read_via:
  assumes "add_any_via op (if op = WOP_VIA then block_via db v else tech_via db v) v e = Inr (j, e')" "op = WOP_VIA \<or> op = WOP_TECH_VIA"
    and "sim e d" "length (w_data w) = length (w_opcodes w)"
    and "block w (e_idx e) ovs" "added e e' ovs"
  shows "reads_cmd db w d [(if op = WOP_VIA then EvVia j v else EvTechVia j v, e_layer e')] e'"
  using assms(1)
proof (rule add_any_via_out)
  fix tp bt assume l: "(if op = WOP_VIA then block_via db v else tech_via db v) = Some (tp, bt)" and p: "e_point_cnt e \<noteq> 0"
    and j: "j = int (e_idx e)" and s: "same_path e e'" and y: "e_layer e' = (if tp = e_layer e then bt else tp)"
    and a: "added e e' [(if tp = e_layer e then op else op OR WOP_VIA_EXIT_TOP, v)]"
  let ?op = "if tp = e_layer e then op else op OR WOP_VIA_EXIT_TOP"
  have ov: "ovs = [(?op, v)]" using a assms(6) by (auto simp: added_def map_eq_Cons_conv intro: prod_eqI)
  have d: "d_idx d = e_idx e" using assms(3) by (simp add: sim_def)
  have b: "block w (d_idx d) ((?op, v) # [])" using assms(5) by (simp add: ov d)
  have m: "?op AND WOP_OPCODE_MASK = op" "(?op AND WOP_VIA_EXIT_TOP \<noteq> 0) = (tp \<noteq> e_layer e)" using assms(2) by auto
  let ?d1 = "(fetched v d)\<lparr>d_layer := e_layer e', d_opcode := (if op = WOP_VIA then VIA else TECH_VIA)\<rparr>"
  have "decode_op db w ?op (fetched v d) = Some (Inr (if op = WOP_VIA then VIA else TECH_VIA, ?d1))"
    unfolding decode_op_def Let_def m using assms(2) l y by (auto simp: returned_def)
  from reads_one [OF b assms(4) this _ _ _ refl, of "if op = WOP_VIA then EvVia j v else EvTechVia j v" "e_layer e'"]
  have "reads db w d [(if op = WOP_VIA then EvVia j v else EvTechVia j v, e_layer e')] ?d1"
    using j d by (simp add: observe_def getVia_def getTechVia_def getJunctionId_def getLayer_def)
  moreover have "sim e' ?d1" using assms(3) s a by (simp add: sim_def same_path_def added_def)
  ultimately show ?thesis unfolding reads_cmd_def by blast
qed

lemma read_term:
  assumes "op = WOP_ITERM \<and> ev = EvITerm t \<or> op = WOP_BTERM \<and> ev = EvBTerm t" "sim e d" "length (w_data w) = length (w_opcodes w)"
    and "same_path e e'" "e_layer e' = e_layer e" "added e e' [(op, t)]" "block w (e_idx e) [(op, t)]"
  shows "reads_cmd db w d [(ev, e_layer e)] e'"
proof -
  have d: "d_idx d = e_idx e" "d_layer d = e_layer e" using assms(2) by (simp_all add: sim_def)
  have b: "block w (d_idx d) ((op, t) # [])" using assms(7) by (simp add: d)
  let ?oc = "if op = WOP_ITERM then ITERM else BTERM"
  let ?d1 = "(fetched t d)\<lparr>d_opcode := ?oc\<rparr>"
  have "decode_op db w op (fetched t d) = Some (Inr (?oc, ?d1))"
    using assms(1) by (elim disjE conjE; simp only:) (simp_all add: decode_op_def Let_def returned_def)
  from reads_one [OF b assms(3) this _ _ _ refl, of ev "e_layer e"]
  have "reads db w d [(ev, e_layer e)] ?d1"
    using assms(1) d by (auto simp: observe_def getITerm_def getBTerm_def getLayer_def)
  moreover have "sim e' ?d1" using assms(2,4-6) by (simp add: sim_def same_path_def added_def)
  ultimately show ?thesis unfolding reads_cmd_def by blast
qed

lemma read_rect:
  assumes "sim e d" "length (w_data w) = length (w_opcodes w)" "same_path e e'" "e_layer e' = e_layer e"
    and "added e e' [(WOP_RECT, x1), (WOP_OPERAND, y1), (WOP_OPERAND, x2), (WOP_OPERAND, y2)]"
    and "block w (e_idx e) [(WOP_RECT, x1), (WOP_OPERAND, y1), (WOP_OPERAND, x2), (WOP_OPERAND, y2)]"
  shows "reads_cmd db w d [(EvRect x1 y1 x2 y2, e_layer e)] e'"
proof -
  have d: "d_idx d = e_idx e" "d_layer d = e_layer e" using assms(1) by (simp_all add: sim_def)
  have b: "block w (d_idx d) ((WOP_RECT, x1) # [(WOP_OPERAND, y1), (WOP_OPERAND, x2), (WOP_OPERAND, y2)])" using assms(6) by (simp add: d)
  let ?d1 = "(fetched x1 d)\<lparr>deltaX1 := x1, d_idx := Suc (Suc (Suc (Suc (d_idx d)))), deltaY1 := y1, deltaX2 := x2, deltaY2 := y2, d_opcode := RECT\<rparr>"
  have "decode_op db w WOP_RECT (fetched x1 d) = Some (Inr (RECT, ?d1))"
    using b assms(2) by (simp add: decode_op_def Let_def returned_def nextOp_def)
  from reads_one [OF b assms(2) this _ _ _ refl, of "EvRect x1 y1 x2 y2" "e_layer e"]
  have "reads db w d [(EvRect x1 y1 x2 y2, e_layer e)] ?d1"
    using d by (simp add: observe_def getRect_def getLayer_def)
  moreover have "sim e' ?d1" using assms(1,3-5) by (simp add: sim_def same_path_def added_def)
  ultimately show ?thesis unfolding reads_cmd_def by blast
qed

lemma read_rule:
  assumes "block w (d_idx d) (rule_ops r)" "length (w_data w) = length (w_opcodes w)" "d_layer d = l"
  shows "\<exists>d'. reads db w d (rule_event r l) d' \<and> d_idx d' = d_idx d + length (rule_ops r) \<and> agree d d'"
proof (cases r)
  case None
  then show ?thesis by (intro exI [of _ d]) (simp add: rule_event_def rule_ops_def)
next
  case (Some ib)
  obtain i bl where ib: "ib = (i, bl)" by fastforce
  let ?op = "if bl then WOP_RULE OR WOP_BLOCK_RULE else WOP_RULE"
  have b: "block w (d_idx d) ((?op, i) # [])" using assms(1) by (simp add: rule_ops_def Some ib)
  let ?d1 = "(fetched i d)\<lparr>default_width := False, block_rule := bl, d_opcode := RULE\<rparr>"
  have "decode_op db w ?op (fetched i d) = Some (Inr (RULE, ?d1))"
    by (auto simp: decode_op_def Let_def returned_def)
  from reads_one [OF b assms(2) this _ _ _ refl, of "EvRule i bl" l]
  have "reads db w d [(EvRule i bl, l)] ?d1" using assms(3) by (simp add: observe_def getRule_def getLayer_def)
  then show ?thesis by (intro exI [of _ ?d1]) (simp add: rule_event_def rule_ops_def Some ib agree_def)
qed

lemma fresh_sim: "fresh_path l b r 0 e' \<Longrightarrow> agree d1 d' \<Longrightarrow> d_layer d1 = l \<Longrightarrow> d_point_cnt d1 = 0 \<Longrightarrow> d_idx d' = e_idx e' \<Longrightarrow> sim e' d'"
  by (simp add: sim_def fresh_path_def agree_def)

lemma read_newPath:
  assumes "sim e d" "length (w_data w) = length (w_opcodes w)" "block w (e_idx e) ((WOP_PATH OR getWireType t, l) # rule_ops r)"
  shows "reads_cmd db w d ((EvPath (kept_type t), l) # rule_event r l) (newPath l t r e)"
proof -
  have d: "d_idx d = e_idx e" using assms(1) by (simp add: sim_def)
  note b = assms(3) [folded d]
  let ?d1 = "(fetched l d)\<lparr>d_layer := l, d_point_cnt := 0, default_width := True, d_wire_type := kept_type t, d_opcode := PATH\<rparr>"
  have dop: "decode_op db w (WOP_PATH OR getWireType t) (fetched l d) = Some (Inr (PATH, ?d1))"
    by (simp add: decode_op_def Let_def returned_def path_start_def set_wire_type_get [of _ t])
  have r: "reads db w d [(EvPath (kept_type t), l)] ?d1"
    by (rule reads_one [OF b assms(2) dop _ _ _ refl]) (simp_all add: observe_def decoder_wire_type_def getLayer_def)
  have "\<exists>d'. reads db w ?d1 (rule_event r l) d' \<and> d_idx d' = d_idx ?d1 + length (rule_ops r) \<and> agree ?d1 d'"
    using b assms(2) by (intro read_rule) simp_all
  then obtain d' where d': "reads db w ?d1 (rule_event r l) d'" "d_idx d' = Suc (d_idx d) + length (rule_ops r)" "agree ?d1 d'" by auto
  have "sim (newPath l t r e) d'"
    by (rule fresh_sim [OF newPath_out(2) d'(3)]) (use d'(2) d newPath_out(1) [of e l t r] in \<open>simp_all add: added_def\<close>)
  then show ?thesis unfolding reads_cmd_def using reads_append [OF r d'(1)] by auto
qed

lemma read_jct_path:
  assumes "op = WOP_SHORT \<and> ev = EvShort j (kept_type t) \<or> op = WOP_VWIRE \<and> ev = EvVWire j (kept_type t)"
    and "sim e d" "length (w_data w) = length (w_opcodes w)"
    and "block w (e_idx e) ((op OR getWireType t, l) # (WOP_OPERAND, j) # rule_ops r)"
    and "added e e' ((op OR getWireType t, l) # (WOP_OPERAND, j) # rule_ops r)" "fresh_path l (getWireType t) r 0 e'"
  shows "reads_cmd db w d ((ev, l) # rule_event r l) e'"
proof -
  have d: "d_idx d = e_idx e" using assms(2) by (simp add: sim_def)
  note b = assms(4) [folded d]
  let ?oc = "if op = WOP_SHORT then SHORT else VWIRE"
  let ?d0 = "(fetched l d)\<lparr>d_layer := l, d_point_cnt := 0, default_width := True, d_wire_type := kept_type t\<rparr>"
  let ?d1 = "?d0\<lparr>d_idx := Suc (Suc (d_idx d)), operand2 := j, d_opcode := ?oc\<rparr>"
  have "nextOp w ?d0 = Inr (WOP_OPERAND, j, ?d0\<lparr>d_idx := Suc (Suc (d_idx d))\<rparr>)" using b assms(3) by (simp add: nextOp_def)
  then have dop: "decode_op db w (op OR getWireType t) (fetched l d) = Some (Inr (?oc, ?d1))"
    using assms(1) by (auto simp: decode_op_def Let_def returned_def path_start_def set_wire_type_get [of _ t])
  have r: "reads db w d [(ev, l)] ?d1"
    by (rule reads_one [OF b assms(3) dop _ _ _ refl])
      (use assms(1) in \<open>auto simp: observe_def decoder_wire_type_def getJunctionValue_def getLayer_def\<close>)
  have "\<exists>d'. reads db w ?d1 (rule_event r l) d' \<and> d_idx d' = d_idx ?d1 + length (rule_ops r) \<and> agree ?d1 d'"
    using b assms(3) by (intro read_rule) simp_all
  then obtain d' where d': "reads db w ?d1 (rule_event r l) d'" "d_idx d' = Suc (Suc (d_idx d)) + length (rule_ops r)" "agree ?d1 d'" by auto
  have "sim e' d'"
    by (rule fresh_sim [OF assms(6) d'(3)]) (use d'(2) d assms(5) in \<open>simp_all add: added_def\<close>)
  then show ?thesis unfolding reads_cmd_def using reads_append [OF r d'(1)] by auto
qed

end
