(* ===== verification/Odb_Wire_Run.thy ===== *)
theory Odb_Wire_Run
  imports Odb_Wire_Sim
begin

section \<open>Runs of commands\<close>

text \<open>
  The invariant of the encoder (\<open>enc_ok\<close>), what a command appends to the wire, and the simulation
  for one command and for a run of commands.
\<close>

unbundle bit_operations_syntax

subsection \<open>Paths from a junction\<close>

lemma read_junction:
  assumes "sim e d" "length (w_data w) = length (w_opcodes w)" "getPrevPoint db w j True = Inr pnt"
    and "block w (e_idx e) ((WOP_JUNCTION OR getWireType t, j) # rule_ops r @ [(col, v)])"
    and "no_rule w (n + 1)" "n = e_idx e + 1 + length (rule_ops r)" "D = WOP_DEFAULT_WIDTH \<or> D = 0"
    and "col = WOP_COLINEAR OR D \<and> ev = EvPoint (int n) (wp_x pnt) (wp_y pnt)
       \<or> col = WOP_COLINEAR OR WOP_EXTENSION OR D \<and> ev = EvPointExt (int n) (wp_x pnt) (wp_y pnt) v"
    and "e_x e' = wp_x pnt" "e_y e' = wp_y pnt" "e_layer e' = wp_layer pnt" "e_point_cnt e' = 1" "e_idx e' = n + 1"
  shows "reads_cmd db w d ((EvJunction j (kept_type t), wp_layer pnt) # rule_event r (wp_layer pnt) @ [(ev, wp_layer pnt)]) e'"
proof -
  have d: "d_idx d = e_idx e" using assms(1) by (simp add: sim_def)
  note b = assms(4) [folded d]
  let ?d1 = "(fetched j d)\<lparr>d_x := wp_x pnt, d_y := wp_y pnt, d_layer := wp_layer pnt, d_point_cnt := 0, default_width := True,
    d_wire_type := kept_type t, d_opcode := JUNCTION\<rparr>"
  have dop: "decode_op db w (WOP_JUNCTION OR getWireType t) (fetched j d) = Some (Inr (JUNCTION, ?d1))"
    using assms(3) by (simp add: decode_op_def Let_def returned_def path_start_def set_wire_type_get [of _ t])
  have r1: "reads db w d [(EvJunction j (kept_type t), wp_layer pnt)] ?d1"
    by (rule reads_one [OF b assms(2) dop _ _ _ refl])
      (simp_all add: observe_def decoder_wire_type_def getJunctionValue_def getLayer_def)
  have b1: "block w (d_idx ?d1) (rule_ops r)" using b by (simp add: block_append)
  have "\<exists>d2. reads db w ?d1 (rule_event r (wp_layer pnt)) d2 \<and> d_idx d2 = d_idx ?d1 + length (rule_ops r) \<and> agree ?d1 d2"
    by (rule read_rule [OF b1 assms(2)]) simp
  then obtain d2 where d2: "reads db w ?d1 (rule_event r (wp_layer pnt)) d2" "d_idx d2 = n" "agree ?d1 d2"
    using assms(6) d by auto
  have a: "d_x d2 = wp_x pnt" "d_y d2 = wp_y pnt" "d_layer d2 = wp_layer pnt" "d_point_cnt d2 = 0"
    using d2(3) by (simp_all add: agree_def)
  have b2: "block w (d_idx d2) ((col, v) # [])" using b by (simp add: block_append d2(2) assms(6) d)
  note wm = wop_width_masks [OF assms(7)]
  define d3 where "d3 = (fetched v d2)\<lparr>d_point_cnt := 1,
     operand2 := (if col AND WOP_EXTENSION \<noteq> 0 then v else operand2 d2), d_opcode := (if col AND WOP_EXTENSION \<noteq> 0 then POINT_EXT else POINT), d_property := 0\<rparr>"
  have col: "col AND WOP_OPCODE_MASK = WOP_COLINEAR" using assms(8) wm(3,6) by metis
  have "n < length (w_opcodes w)" using b2 d2(2) by simp
  moreover have "d_idx d3 = n + 1" using d2(2) by (simp add: d3_def)
  ultimately have "flushRule w d3 = d3" using assms(5) by (auto simp: flushRule_def no_rule_def)
  then have "decode_op db w col (fetched v d2) = Some (Inr (d_opcode d3, d3))"
    using a(4) unfolding d3_def by (cases "col AND WOP_EXTENSION = 0") (simp_all add: decode_op_def Let_def col end_point_def)
  from reads_one [OF b2 assms(2) this _ _ _ refl, of ev "wp_layer pnt"]
  have r3: "reads db w d2 [(ev, wp_layer pnt)] d3"
  proof -
    have "observe d3 = Inr ev"
      using assms(8)
    proof (elim disjE conjE)
      assume c: "col = WOP_COLINEAR OR D" "ev = EvPoint (int n) (wp_x pnt) (wp_y pnt)"
      then have "col AND WOP_EXTENSION = 0" using wm(9) by simp
      then show ?thesis using a d2(2) c(2) by (simp add: d3_def observe_def getPoint_def getJunctionId_def)
    next
      assume c: "col = WOP_COLINEAR OR WOP_EXTENSION OR D" "ev = EvPointExt (int n) (wp_x pnt) (wp_y pnt) v"
      then have "col AND WOP_EXTENSION \<noteq> 0" using wm(12) by simp
      then show ?thesis using a d2(2) c(2) by (simp add: d3_def observe_def getPoint_ext_def getJunctionId_def)
    qed
    then show ?thesis
      using \<open>\<lbrakk>d_opcode d3 \<noteq> END_DECODE; observe d3 = Inr ev; getLayer d3 = wp_layer pnt\<rbrakk> \<Longrightarrow> reads db w d2 [(ev, wp_layer pnt)] d3\<close>
        a by (simp add: getLayer_def d3_def)
  qed
  have "reads db w d ([(EvJunction j (kept_type t), wp_layer pnt)] @ rule_event r (wp_layer pnt) @ [(ev, wp_layer pnt)]) d3"
    by (rule reads_append [OF r1 reads_append [OF d2(1) r3]])
  moreover have "sim e' d3" using a assms(9-13) d2(2) by (simp add: sim_def d3_def)
  ultimately show ?thesis unfolding reads_cmd_def by auto
qed

subsection \<open>The invariant of the encoder\<close>

definition enc_ok :: "dbWireEncoder \<Rightarrow> bool" where
  "enc_ok e \<longleftrightarrow> length (e_data e) = e_idx e \<and> length (e_opcodes e) = e_idx e \<and> back_ok (wire_of e) \<and> rule_ok e
     \<and> e_wire_type e \<in> range getWireType"

definition operand_count :: "8 word \<Rightarrow> nat" where
  \<comment> \<open>how many operands follow an opcode\<close>
  "operand_count opcode =
     (let op = opcode AND WOP_OPCODE_MASK in
      if op = WOP_SHORT \<or> op = WOP_VWIRE then 1
      else if (op = WOP_X \<or> op = WOP_Y) \<and> opcode AND WOP_EXTENSION \<noteq> 0 then 1
      else if op = WOP_RECT then 3 else 0)"

definition known_ops :: "8 word set" where
  "known_ops = {WOP_PATH, WOP_SHORT, WOP_JUNCTION, WOP_RULE, WOP_X, WOP_Y, WOP_COLINEAR, WOP_VIA, WOP_TECH_VIA,
     WOP_ITERM, WOP_BTERM, WOP_PROPERTY, WOP_VWIRE, WOP_RECT}"

fun wop_wf :: "nat \<Rightarrow> 8 word list \<Rightarrow> bool" where
  \<comment> \<open>a sequence of opcodes, each with its operands; so many operands are still to come\<close>
  "wop_wf n [] \<longleftrightarrow> n = 0"
| "wop_wf 0 (op # ops) \<longleftrightarrow> op AND WOP_OPCODE_MASK \<in> known_ops \<and> wop_wf (operand_count op) ops"
| "wop_wf (Suc n) (op # ops) \<longleftrightarrow> op AND WOP_OPCODE_MASK = WOP_OPERAND \<and> wop_wf n ops"

lemma wop_wf_append: "wop_wf n xs \<Longrightarrow> wop_wf 0 ys \<Longrightarrow> wop_wf n (xs @ ys)"
  by (induction n xs rule: wop_wf.induct) auto

definition cmd_wf :: "dbWireEncoder \<Rightarrow> (8 word \<times> int) list \<Rightarrow> bool" where
  \<comment> \<open>opcodes that a command may append\<close>
  "cmd_wf e ovs \<longleftrightarrow> ovs \<noteq> [] \<and> wop_wf 0 (map fst ovs) \<and> fst (hd ovs) AND WOP_OPCODE_MASK \<noteq> WOP_RULE
     \<and> (\<forall>(op, v) \<in> set ovs. op AND WOP_OPCODE_MASK = WOP_JUNCTION \<longrightarrow> 0 \<le> v \<and> v < int (e_idx e))"

lemma added_back_ok:
  assumes "enc_ok e" "added e e' ovs" "cmd_wf e ovs"
  shows "length (e_data e') = e_idx e'" "length (e_opcodes e') = e_idx e'" "back_ok (wire_of e')"
proof -
  have l: "length (e_data e) = e_idx e" "length (e_opcodes e) = e_idx e" "back_ok (wire_of e)" using assms(1) by (simp_all add: enc_ok_def)
  show l': "length (e_data e') = e_idx e'" "length (e_opcodes e') = e_idx e'" using assms(2) l by (simp_all add: added_def)
  show "back_ok (wire_of e')"
    unfolding back_ok_def
  proof (intro conjI allI impI)
    show "length (w_data (wire_of e')) = length (w_opcodes (wire_of e'))" using l' by (simp add: wire_of_def)
    fix i assume i: "i < length (w_opcodes (wire_of e'))" "op_at (wire_of e') i = WOP_JUNCTION"
    have "0 \<le> w_data (wire_of e') ! i \<and> w_data (wire_of e') ! i < int i"
    proof (cases "i < e_idx e")
      case True
      then have "op_at (wire_of e) i = WOP_JUNCTION" "w_data (wire_of e') ! i = w_data (wire_of e) ! i"
        using i(2) assms(2) l by (simp_all add: wire_of_def added_def nth_append)
      then show ?thesis using l(2,3) True by (simp add: back_ok_def wire_of_def)
    next
      case False
      define k where "k = i - e_idx e"
      have k: "i = e_idx e + k" "k < length ovs" using False i(1) assms(2) l by (simp_all add: k_def wire_of_def added_def)
      then have "(fst (ovs ! k), snd (ovs ! k)) \<in> set ovs" by simp
      moreover have "fst (ovs ! k) AND WOP_OPCODE_MASK = WOP_JUNCTION" "w_data (wire_of e') ! i = snd (ovs ! k)"
        using i(2) assms(2) l k by (simp_all add: wire_of_def added_def nth_append)
      ultimately show ?thesis using assms(3) k(1) unfolding cmd_wf_def by fastforce
    qed
    then show "0 \<le> w_data (wire_of e') ! i" "w_data (wire_of e') ! i < int i" by simp_all
  qed
qed

lemma added_block:
  assumes "enc_ok e" "added e e' ovs" "w = wire_append (wire_of e') ops vs" "length vs = length ops"
  shows "block w (e_idx e) ovs" "length (w_data w) = length (w_opcodes w)" "length (w_opcodes w) = e_idx e' + length ops"
proof -
  have l: "length (e_data e) = e_idx e" "length (e_opcodes e) = e_idx e" using assms(1) by (simp_all add: enc_ok_def)
  show len: "length (w_data w) = length (w_opcodes w)" "length (w_opcodes w) = e_idx e' + length ops"
    using assms(2-4) l by (simp_all add: added_def wire_of_def)
  show "block w (e_idx e) ovs"
  proof (rule block_nth [OF len(1)])
    show "e_idx e + length ovs \<le> length (w_opcodes w)" using len(2) assms(2) by (simp add: added_def)
    show "w_opcodes w ! (e_idx e + k) = fst (ovs ! k) \<and> w_data w ! (e_idx e + k) = snd (ovs ! k)" if "k < length ovs" for k
      using that assms(2,3) l by (simp add: wire_append_def wire_of_def added_def nth_append)
  qed
qed

lemma width_jct [simp]: "D = WOP_DEFAULT_WIDTH \<or> D = 0 \<Longrightarrow> (WOP_COLINEAR OR D) AND WOP_OPCODE_MASK \<noteq> WOP_JUNCTION"
  using wop_width_masks(3) by simp

lemma tail_wf: "rule_ok e \<Longrightarrow> (op, v) \<in> set (tail_ops p e) \<Longrightarrow> op AND WOP_OPCODE_MASK \<noteq> WOP_JUNCTION"
  by (auto simp: tail_ops_def rule_due_def rule_ok_def split: if_splits)

lemma rule_ops_wf: "(op, v) \<in> set (rule_ops r) \<Longrightarrow> op AND WOP_OPCODE_MASK \<noteq> WOP_JUNCTION"
  by (auto simp: rule_ops_def split: option.splits prod.splits if_splits)

lemma fresh_rule_ok: "fresh_path l b r n e \<Longrightarrow> rule_ok e"
  by (auto simp: fresh_path_def rule_ok_def split: option.splits prod.splits)

lemma same_rule_ok: "same_path e e' \<Longrightarrow> rule_ok e' = rule_ok e"
  by (simp add: same_path_def rule_ok_def)

lemma moved_rule_ok: "moved_to x y e e' \<Longrightarrow> rule_ok e' = rule_ok e"
  by (simp add: moved_to_def rule_ok_def)

lemma known [simp]:
  "WOP_PATH \<in> known_ops" "WOP_SHORT \<in> known_ops" "WOP_JUNCTION \<in> known_ops" "WOP_RULE \<in> known_ops" "WOP_X \<in> known_ops"
  "WOP_Y \<in> known_ops" "WOP_COLINEAR \<in> known_ops" "WOP_VIA \<in> known_ops" "WOP_TECH_VIA \<in> known_ops" "WOP_ITERM \<in> known_ops"
  "WOP_BTERM \<in> known_ops" "WOP_PROPERTY \<in> known_ops" "WOP_VWIRE \<in> known_ops" "WOP_RECT \<in> known_ops"
  by (simp_all add: known_ops_def)

lemma operand_counts [simp]:
  "operand_count (WOP_PATH OR getWireType t) = 0" "operand_count (WOP_JUNCTION OR getWireType t) = 0"
  "operand_count (WOP_SHORT OR getWireType t) = Suc 0" "operand_count (WOP_VWIRE OR getWireType t) = Suc 0"
  "operand_count (WOP_X OR width_flag e) = 0" "operand_count (WOP_Y OR width_flag e) = 0"
  "operand_count (WOP_X OR WOP_EXTENSION OR width_flag e) = Suc 0" "operand_count (WOP_Y OR WOP_EXTENSION OR width_flag e) = Suc 0"
  "operand_count (WOP_COLINEAR OR width_flag e) = 0" "operand_count (WOP_COLINEAR OR WOP_EXTENSION OR width_flag e) = 0"
  "operand_count WOP_VIA = 0" "operand_count (WOP_VIA OR WOP_VIA_EXIT_TOP) = 0" "operand_count WOP_TECH_VIA = 0"
  "operand_count (WOP_TECH_VIA OR WOP_VIA_EXIT_TOP) = 0" "operand_count WOP_ITERM = 0" "operand_count WOP_BTERM = 0"
  "operand_count WOP_RECT = Suc (Suc (Suc 0))" "operand_count WOP_PROPERTY = 0" "operand_count WOP_RULE = 0"
  "operand_count (WOP_RULE OR WOP_BLOCK_RULE) = 0"
  by (simp_all add: operand_count_def Let_def)

lemma operand_count_colinear: "op AND WOP_OPCODE_MASK = WOP_COLINEAR \<Longrightarrow> operand_count op = 0"
  by (simp add: operand_count_def Let_def)

lemma rule_ops_wop [simp]: "wop_wf 0 (map fst (rule_ops r))"
  by (auto simp: rule_ops_def split: option.split prod.split)

lemma rule_opcode_wop: "rule_ok e \<Longrightarrow> non_default_rule e \<noteq> 0 \<Longrightarrow> operand_count (rule_opcode e) = 0"
  by (auto simp: rule_ok_def operand_count_def Let_def)

lemma tail_wop: "rule_ok e \<Longrightarrow> wop_wf 0 (map fst (tail_ops p e))"
  using rule_opcode_wop [of e] by (auto simp: tail_ops_def rule_due_def rule_ok_def)

lemma first_wf:
  "rule_ok e' \<Longrightarrow> cmd_wf e (first_ops x y e @ tail_ops p e')" "rule_ok e' \<Longrightarrow> cmd_wf e (ext_ops x y ext e @ tail_ops p e')"
  using tail_wf [of e' _ _ p] tail_wop [of e' p] by (auto simp: cmd_wf_def first_ops_def ext_ops_def split: if_splits)

lemma run_cmd_added:
  assumes "enc_ok e" "run_cmd db c e = Inr (j, e')"
  shows "enc_ok e' \<and> (\<exists>ovs. added e e' ovs \<and> cmd_wf e ovs \<and> length (cmd_events c j e e') \<le> length ovs)"
proof -
  have rok: "rule_ok e" and wt: "e_wire_type e \<in> range getWireType"
    using assms(1) by (simp_all add: enc_ok_def)
  have fin: ?thesis if "added e e' ovs" "cmd_wf e ovs" "rule_ok e'" "e_wire_type e' \<in> range getWireType"
    "length (cmd_events c j e e') \<le> length ovs" for ovs
    using that added_back_ok [OF assms(1) that(1,2)] by (auto simp: enc_ok_def)
  have same: ?thesis if "added e e' ovs" "cmd_wf e ovs" "same_path e e'" "length (cmd_events c j e e') \<le> length ovs" for ovs
    by (rule fin [OF that(1,2) _ _ that(4)]) (use that(3) same_rule_ok [of e e'] rok wt in \<open>simp_all add: same_path_def\<close>)
  have moved: ?thesis if "added e e' ovs" "cmd_wf e ovs" "moved_to x y e e'" "length (cmd_events c j e e') \<le> length ovs" for ovs x y
    by (rule fin [OF that(1,2) _ _ that(4)]) (use that(3) moved_rule_ok [of x y e e'] rok wt in \<open>simp_all add: moved_to_def\<close>)
  have fresh: ?thesis if "added e e' ((op OR getWireType t, l) # x # rule_ops r)" "op \<in> {WOP_SHORT, WOP_VWIRE}" "fst x = WOP_OPERAND"
    "fresh_path l (getWireType t) r 0 e'" "length (cmd_events c j e e') \<le> Suc (Suc (length (rule_ops r)))" for op t l r x
    using that rule_ops_wf [of _ _ r] fresh_rule_ok [OF that(4)]
    by (intro fin [OF that(1)]) (auto simp: cmd_wf_def fresh_path_def)
  have jct: ?thesis if p: "path_at db i t r e = Inr e1" and e': "e' = addOp col v e1" and col: "col AND WOP_OPCODE_MASK = WOP_COLINEAR"
    and len: "length (cmd_events c j e e') \<le> Suc (Suc (length (rule_ops r)))" for i t r e1 col v
    using p
  proof (rule path_at_out)
    fix pnt b assume o: "jct_ok i e" "b = (case t of None \<Rightarrow> e_wire_type e | Some t \<Rightarrow> getWireType t)"
      "fresh_path (wp_layer pnt) b r 1 e1" "added e e1 ((WOP_JUNCTION OR b, i) # rule_ops r)"
    obtain t' where t': "b = getWireType t'" using o(2) wt by (auto split: option.splits)
    have a: "added e e' (((WOP_JUNCTION OR b, i) # rule_ops r) @ [(col, v)])" unfolding e' by (rule added_addOp [OF o(4)])
    show ?thesis
    proof (rule fin [OF a])
      show "cmd_wf e (((WOP_JUNCTION OR b, i) # rule_ops r) @ [(col, v)])"
        using o(1) col rule_ops_wf [of _ _ r] operand_count_colinear [OF col]
        by (auto simp: cmd_wf_def t' jct_ok_def intro: wop_wf_append)
      show "rule_ok e'" using fresh_rule_ok [OF o(3)] by (simp add: e' rule_ok_def)
      show "e_wire_type e' \<in> range getWireType" using o(3) t' by (simp add: e' fresh_path_def)
    qed (use len in simp)
  qed
  have D: "(if r = None then WOP_DEFAULT_WIDTH else 0) = WOP_DEFAULT_WIDTH \<or> (if r = None then WOP_DEFAULT_WIDTH else 0) = 0"
    for r :: "dbTechLayerRule option" by simp
  have rl: "length (rule_event r l) = length (rule_ops r)" for r l by (simp add: rule_event_def rule_ops_def split: option.split prod.split)
  show ?thesis
  proof (cases c)
    case c: (AddPoint x y p)
    then obtain i where a: "addPoint x y p e = Inr (i, e')" using assms(2) by auto
    have "rule_ok e'" using moved_rule_ok [OF addPoint_out(2) [OF a]] rok by simp
    then show ?thesis
      by (intro moved [OF addPoint_out(1) [OF a] first_wf(1) addPoint_out(2) [OF a]]) (simp_all add: c first_ops_def)
  next
    case c: (AddPointExt x y ext p)
    then obtain i where a: "addPoint_ext x y ext p e = Inr (i, e')" using assms(2) by auto
    have "rule_ok e'" using moved_rule_ok [OF addPoint_ext_out(2) [OF a]] rok by simp
    then show ?thesis
      by (intro moved [OF addPoint_ext_out(1) [OF a] first_wf(2) addPoint_ext_out(2) [OF a]]) (simp_all add: c ext_ops_def)
  next
    case c: (AddVia v)
    then obtain i where a: "add_any_via WOP_VIA (block_via db v) v e = Inr (i, e')" using assms(2) by (auto simp: addVia_def)
    then show ?thesis
      by (rule add_any_via_out) (rule same, assumption, auto simp: cmd_wf_def c)
  next
    case c: (AddTechVia v)
    then obtain i where a: "add_any_via WOP_TECH_VIA (tech_via db v) v e = Inr (i, e')" using assms(2) by (auto simp: addTechVia_def)
    then show ?thesis
      by (rule add_any_via_out) (rule same, assumption, auto simp: cmd_wf_def c)
  next
    case c: (AddRect x1 y1 x2 y2)
    then have "addRect x1 y1 x2 y2 e = Inr e'" using assms(2) by auto
    from addRect_out [OF this] show ?thesis by (intro same [of "[(WOP_RECT, x1), (WOP_OPERAND, y1), (WOP_OPERAND, x2), (WOP_OPERAND, y2)]"]) (simp_all add: cmd_wf_def c)
  next
    case c: (AddITerm t)
    then have "addITerm t e = Inr e'" using assms(2) by auto
    from addITerm_out [OF this] show ?thesis by (intro same [of "[(WOP_ITERM, t)]"]) (simp_all add: cmd_wf_def c)
  next
    case c: (AddBTerm t)
    then have "addBTerm t e = Inr e'" using assms(2) by auto
    from addBTerm_out [OF this] show ?thesis by (intro same [of "[(WOP_BTERM, t)]"]) (simp_all add: cmd_wf_def c)
  next
    case c: (NewPath l t r)
    then have e': "e' = newPath l t r e" using assms(2) by simp
    show ?thesis
      using newPath_out(1) [of e l t r] newPath_out(2) [of l t r e] fresh_rule_ok [OF newPath_out(2) [of l t r e]] rule_ops_wf [of _ _ r]
      by (intro fin [of "(WOP_PATH OR getWireType t, l) # rule_ops r"]) (auto simp: cmd_wf_def c e' fresh_path_def rl)
  next
    case c: (NewPathJct i t r)
    then obtain e1 where p: "path_at db i t r e = Inr e1" "e' = addOp (WOP_COLINEAR OR (if r = None then WOP_DEFAULT_WIDTH else 0)) 0 e1"
      using assms(2) by (auto simp: newPath_jct_def)
    show ?thesis by (rule jct [OF p]) (simp_all add: wop_width_masks(3) [OF D] c rl)
  next
    case c: (NewPathExt i ext t r)
    then obtain e1 where p: "path_at db i t r e = Inr e1"
      "e' = addOp (WOP_COLINEAR OR WOP_EXTENSION OR (if r = None then WOP_DEFAULT_WIDTH else 0)) ext e1"
      using assms(2) by (auto simp: newPathExt_def)
    show ?thesis by (rule jct [OF p]) (simp_all add: wop_width_masks(6) [OF D] c rl)
  next
    case c: (NewPathShort i l t r)
    then have "jct_ok i e" "e' = add_rule r (addOp WOP_OPERAND i (addOp (WOP_SHORT OR getWireType t) l (initPath l (getWireType t) r e)))"
      using assms(2) by (auto simp: newPathShort_def Let_def split: if_splits)
    note o = jct_path_out [OF _ this]
    show ?thesis by (rule fresh [OF o(1) _ _ o(2)]) (simp_all add: c rl)
  next
    case c: (NewPathVWire i l t r)
    then have "jct_ok i e" "e' = add_rule r (addOp WOP_OPERAND i (addOp (WOP_VWIRE OR getWireType t) l (initPath l (getWireType t) r e)))"
      using assms(2) by (auto simp: newPathVirtualWire_def Let_def split: if_splits)
    note o = jct_path_out [OF _ this]
    show ?thesis by (rule fresh [OF o(1) _ _ o(2)]) (simp_all add: c rl)
  qed
qed

subsection \<open>Reading what a command wrote\<close>

lemma added_unique: "added e e' xs \<Longrightarrow> added e e' ys \<Longrightarrow> xs = ys"
proof -
  assume "added e e' xs" "added e e' ys"
  then have "map fst xs = map fst ys" "map snd xs = map snd ys" by (simp_all add: added_def)
  then show "xs = ys" by (metis zip_map_fst_snd)
qed

lemma read_cmd:
  assumes "enc_ok e" "run_cmd db c e = Inr (j, e')" "w = wire_append (wire_of e') ops vs" "length vs = length ops"
    and "no_rule w (e_idx e')" "sim e d"
  shows "reads_cmd db w d (cmd_events c j e e') e'"
proof -
  have rok: "rule_ok e" and wt: "e_wire_type e \<in> range getWireType" and bok: "back_ok (wire_of e)" and le: "length (e_opcodes e) = e_idx e"
    using assms(1) by (simp_all add: enc_ok_def)
  have len: "length (w_data w) = length (w_opcodes w)"
  proof -
    have "enc_ok e'" using run_cmd_added [OF assms(1,2)] by blast
    then show ?thesis using assms(3,4) by (simp add: enc_ok_def wire_of_def)
  qed
  have blk: "block w (e_idx e) ovs" if "added e e' ovs" for ovs
    by (rule added_block(1) [OF assms(1) that assms(3,4)])
  have pp: "getPrevPoint db w i True = Inr pnt"
    if p: "getPrevPoint db (wire_of e) i True = Inr pnt" "jct_ok i e" and a: "added e e' ovs" for i pnt ovs
  proof -
    have w: "w = wire_append (wire_of e) (map fst ovs @ ops) (map snd ovs @ vs)"
      using assms(3) a by (simp add: wire_append_def wire_of_def added_def)
    have "getPrevPoint db w i True = getPrevPoint db (wire_of e) i True"
      unfolding w using that le by (intro prev_point_prefix [OF bok]) (simp_all add: assms(4) jct_ok_def wire_of_def)
    then show ?thesis using p(1) by simp
  qed
  have jct: "reads_cmd db w d ((EvJunction i (type_after t e), e_layer e') # rule_event r (e_layer e') @ [(ev, e_layer e')]) e'"
    if p: "path_at db i t r e = Inr e1" and e': "e' = addOp col v e1"
      and col: "col = WOP_COLINEAR OR (if r = None then WOP_DEFAULT_WIDTH else 0) \<and> ev = EvPoint (int (e_idx e') - 1) (e_x e') (e_y e')
       \<or> col = WOP_COLINEAR OR WOP_EXTENSION OR (if r = None then WOP_DEFAULT_WIDTH else 0) \<and> ev = EvPointExt (int (e_idx e') - 1) (e_x e') (e_y e') v"
    for i t r e1 col v ev
    using p
  proof (rule path_at_out)
    fix pnt b assume o: "jct_ok i e" "getPrevPoint db (wire_of e) i True = Inr pnt"
      "b = (case t of None \<Rightarrow> e_wire_type e | Some t \<Rightarrow> getWireType t)" "e_x e1 = wp_x pnt" "e_y e1 = wp_y pnt"
      "fresh_path (wp_layer pnt) b r 1 e1" "added e e1 ((WOP_JUNCTION OR b, i) # rule_ops r)"
    obtain t' where t': "b = getWireType t'" using o(3) wt by (auto split: option.splits)
    have ty: "type_after t e = kept_type t'"
    proof (cases t)
      case None
      then have "e_wire_type e = getWireType t'" using o(3) t' by simp
      then show ?thesis using None decoded_type_get [of t'] by (simp add: type_after_def)
    next
      case (Some s)
      then have "decoded_type (getWireType s) = decoded_type (getWireType t')" using o(3) t' by simp
      then show ?thesis using Some by (simp add: type_after_def)
    qed
    have a: "added e e' ((WOP_JUNCTION OR b, i) # rule_ops r @ [(col, v)])" unfolding e' using added_addOp [OF o(7)] by simp
    have n: "e_idx e' = (e_idx e + 1 + length (rule_ops r)) + 1" using a by (simp add: added_def)
    have s: "e_x e' = wp_x pnt" "e_y e' = wp_y pnt" "e_layer e' = wp_layer pnt" "e_point_cnt e' = 1"
      using o(4-6) by (simp_all add: e' fresh_path_def)
    have "reads_cmd db w d ((EvJunction i (kept_type t'), wp_layer pnt) # rule_event r (wp_layer pnt) @ [(ev, wp_layer pnt)]) e'"
    proof (rule read_junction [OF assms(6) len pp [OF o(2,1) a] _ _ refl _ _ s n])
      show "block w (e_idx e) ((WOP_JUNCTION OR getWireType t', i) # rule_ops r @ [(col, v)])" using blk [OF a] t' by simp
      show "no_rule w (e_idx e + 1 + length (rule_ops r) + 1)" using assms(5) n by simp
      show "(if r = None then WOP_DEFAULT_WIDTH else 0) = WOP_DEFAULT_WIDTH \<or> (if r = None then WOP_DEFAULT_WIDTH else 0) = 0" by simp
      show "col = WOP_COLINEAR OR (if r = None then WOP_DEFAULT_WIDTH else 0)
          \<and> ev = EvPoint (int (e_idx e + 1 + length (rule_ops r))) (wp_x pnt) (wp_y pnt)
        \<or> col = WOP_COLINEAR OR WOP_EXTENSION OR (if r = None then WOP_DEFAULT_WIDTH else 0)
          \<and> ev = EvPointExt (int (e_idx e + 1 + length (rule_ops r))) (wp_x pnt) (wp_y pnt) v"
        using col s n by simp
    qed
    then show ?thesis unfolding ty s .
  qed
  show ?thesis
  proof (cases c)
    case c: (AddPoint x y p)
    then obtain i where a: "addPoint x y p e = Inr (i, e')" "j = Some i" using assms(2) by auto
    show ?thesis using read_addPoint [OF a(1) assms(6) len blk [OF addPoint_out(1) [OF a(1)]] assms(5) rok] by (simp add: c a(2))
  next
    case c: (AddPointExt x y ext p)
    then obtain i where a: "addPoint_ext x y ext p e = Inr (i, e')" "j = Some i" using assms(2) by auto
    show ?thesis using read_addPoint_ext [OF a(1) assms(6) len blk [OF addPoint_ext_out(1) [OF a(1)]] assms(5) rok] by (simp add: c a(2))
  next
    case c: (AddVia v)
    then obtain i where a: "add_any_via WOP_VIA (if WOP_VIA = WOP_VIA then block_via db v else tech_via db v) v e = Inr (i, e')" "j = Some i"
      using assms(2) by (auto simp: addVia_def)
    obtain ovs where o: "added e e' ovs" using run_cmd_added [OF assms(1,2)] by blast
    show ?thesis using read_via [OF a(1) _ assms(6) len blk [OF o] o] by (simp add: c a(2))
  next
    case c: (AddTechVia v)
    then obtain i where a: "add_any_via WOP_TECH_VIA (if WOP_TECH_VIA = WOP_VIA then block_via db v else tech_via db v) v e = Inr (i, e')" "j = Some i"
      using assms(2) by (auto simp: addTechVia_def)
    obtain ovs where o: "added e e' ovs" using run_cmd_added [OF assms(1,2)] by blast
    show ?thesis using read_via [OF a(1) _ assms(6) len blk [OF o] o] by (simp add: c a(2))
  next
    case c: (AddRect x1 y1 x2 y2)
    then have "addRect x1 y1 x2 y2 e = Inr e'" using assms(2) by auto
    then have o: "same_path e e'" "e_layer e' = e_layer e"
      "added e e' [(WOP_RECT, x1), (WOP_OPERAND, y1), (WOP_OPERAND, x2), (WOP_OPERAND, y2)]"
      using addRect_out [of x1 y1 x2 y2 e e'] by simp_all
    show ?thesis unfolding c cmd_events.simps by (rule read_rect [OF assms(6) len o blk [OF o(3)]])
  next
    case c: (AddITerm t)
    then have "addITerm t e = Inr e'" using assms(2) by auto
    then have o: "same_path e e'" "e_layer e' = e_layer e" "added e e' [(WOP_ITERM, t)]"
      using addITerm_out [of t e e'] by simp_all
    show ?thesis using read_term [of WOP_ITERM "EvITerm t" t, OF _ assms(6) len o blk [OF o(3)]] by (simp add: c)
  next
    case c: (AddBTerm t)
    then have "addBTerm t e = Inr e'" using assms(2) by auto
    then have o: "same_path e e'" "e_layer e' = e_layer e" "added e e' [(WOP_BTERM, t)]"
      using addBTerm_out [of t e e'] by simp_all
    show ?thesis using read_term [of WOP_BTERM "EvBTerm t" t, OF _ assms(6) len o blk [OF o(3)]] by (simp add: c)
  next
    case c: (NewPath l t r)
    then have e': "e' = newPath l t r e" using assms(2) by simp
    show ?thesis using read_newPath [OF assms(6) len] blk [unfolded e', OF newPath_out(1)] by (simp add: c e')
  next
    case c: (NewPathJct i t r)
    then obtain e1 where p: "path_at db i t r e = Inr e1" "e' = addOp (WOP_COLINEAR OR (if r = None then WOP_DEFAULT_WIDTH else 0)) 0 e1"
      using assms(2) by (auto simp: newPath_jct_def)
    show ?thesis unfolding c cmd_events.simps by (rule jct [OF p]) simp
  next
    case c: (NewPathExt i ext t r)
    then obtain e1 where p: "path_at db i t r e = Inr e1"
      "e' = addOp (WOP_COLINEAR OR WOP_EXTENSION OR (if r = None then WOP_DEFAULT_WIDTH else 0)) ext e1"
      using assms(2) by (auto simp: newPathExt_def)
    show ?thesis unfolding c cmd_events.simps by (rule jct [OF p]) simp
  next
    case c: (NewPathShort i l t r)
    then have "jct_ok i e" "e' = add_rule r (addOp WOP_OPERAND i (addOp (WOP_SHORT OR getWireType t) l (initPath l (getWireType t) r e)))"
      using assms(2) by (auto simp: newPathShort_def Let_def split: if_splits)
    note o = jct_path_out [OF _ this]
    show ?thesis unfolding c cmd_events.simps
      by (rule read_jct_path [OF _ assms(6) len blk [OF o(1)] o]) simp_all
  next
    case c: (NewPathVWire i l t r)
    then have "jct_ok i e" "e' = add_rule r (addOp WOP_OPERAND i (addOp (WOP_VWIRE OR getWireType t) l (initPath l (getWireType t) r e)))"
      using assms(2) by (auto simp: newPathVirtualWire_def Let_def split: if_splits)
    note o = jct_path_out [OF _ this]
    show ?thesis unfolding c cmd_events.simps
      by (rule read_jct_path [OF _ assms(6) len blk [OF o(1)] o]) simp_all
  qed
qed

end
