(* ===== verification/Odb_Wire_Track.thy ===== *)
theory Odb_Wire_Track
  imports Odb_Wire_Run
begin

section \<open>Where a junction is\<close>

text \<open>
  While no virtual wire is started, a walk back from the last opcode finds the place and the layer
  that the encoder is at (\<open>at_end\<close>), and one from a returned junction id finds the place of that
  junction, whatever is added later.
\<close>

unbundle bit_operations_syntax

subsection \<open>A walk that looks for less\<close>

lemma walk_keeps:
  "prevOpCode db w f i lx ly gl pnt = Inr q
   \<Longrightarrow> (\<not> lx \<longrightarrow> wp_x q = wp_x pnt) \<and> (\<not> ly \<longrightarrow> wp_y q = wp_y pnt) \<and> (\<not> gl \<longrightarrow> wp_layer q = wp_layer pnt)"
proof (induction f arbitrary: i lx ly gl pnt)
  case 0
  then show ?case by (simp add: prevOpCode.simps [of _ _ 0])
next
  case (Suc f)
  note IH = Suc.IH [of _ lx ly gl pnt] Suc.IH [of _ False ly gl "pnt\<lparr>wp_x := w_data w ! nat i\<rparr>"]
    Suc.IH [of _ lx False gl "pnt\<lparr>wp_y := w_data w ! nat i\<rparr>"]
  have IHl: "prevOpCode db w f k lx ly False (pnt\<lparr>wp_layer := l\<rparr>) = Inr q
      \<Longrightarrow> (\<not> lx \<longrightarrow> wp_x q = wp_x pnt) \<and> (\<not> ly \<longrightarrow> wp_y q = wp_y pnt)" for k l
    using Suc.IH [of k lx ly False "pnt\<lparr>wp_layer := l\<rparr>"] by simp
  show ?case
    using Suc.prems IH IHl
    by (subst (asm) prevOpCode.simps) (simp add: Let_def split: if_split_asm option.split_asm prod.split_asm; fastforce)
qed

text \<open>One step, by the kind of the opcode.\<close>

definition layer_step :: "(bool \<Rightarrow> bool \<Rightarrow> bool \<Rightarrow> WirePoint \<Rightarrow> WirePoint result) \<Rightarrow> int \<Rightarrow> bool \<Rightarrow> bool \<Rightarrow> bool \<Rightarrow> WirePoint \<Rightarrow> WirePoint result" where
  "layer_step k l lx ly gl pnt =
     (if gl then if \<not> lx \<and> \<not> ly then Inr (pnt\<lparr>wp_layer := l\<rparr>) else k lx ly False (pnt\<lparr>wp_layer := l\<rparr>) else k lx ly gl pnt)"

definition x_step :: "(bool \<Rightarrow> bool \<Rightarrow> bool \<Rightarrow> WirePoint \<Rightarrow> WirePoint result) \<Rightarrow> int \<Rightarrow> bool \<Rightarrow> bool \<Rightarrow> bool \<Rightarrow> WirePoint \<Rightarrow> WirePoint result" where
  "x_step k x lx ly gl pnt =
     (if lx then if \<not> ly \<and> \<not> gl then Inr (pnt\<lparr>wp_x := x\<rparr>) else k False ly gl (pnt\<lparr>wp_x := x\<rparr>) else k lx ly gl pnt)"

definition y_step :: "(bool \<Rightarrow> bool \<Rightarrow> bool \<Rightarrow> WirePoint \<Rightarrow> WirePoint result) \<Rightarrow> int \<Rightarrow> bool \<Rightarrow> bool \<Rightarrow> bool \<Rightarrow> WirePoint \<Rightarrow> WirePoint result" where
  "y_step k y lx ly gl pnt =
     (if ly then if \<not> lx \<and> \<not> gl then Inr (pnt\<lparr>wp_y := y\<rparr>) else k lx False gl (pnt\<lparr>wp_y := y\<rparr>) else k lx ly gl pnt)"

lemma walk_at:
  assumes "\<not> i < 0" "\<not> length (w_opcodes w) \<le> nat i" "\<not> length (w_data w) \<le> nat i"
    and "op = op_at w (nat i)" "v = w_data w ! nat i" "k = prevOpCode db w f (i - 1)"
  shows "op \<in> {WOP_PATH, WOP_SHORT} \<Longrightarrow> prevOpCode db w (Suc f) i = layer_step k v"
    "op = WOP_JUNCTION \<Longrightarrow> prevOpCode db w (Suc f) i = prevOpCode db w f v"
    "op = WOP_X \<Longrightarrow> prevOpCode db w (Suc f) i = x_step k v"
    "op = WOP_Y \<Longrightarrow> prevOpCode db w (Suc f) i = y_step k v"
    "op \<in> {WOP_VIA, WOP_TECH_VIA} \<Longrightarrow> (if op = WOP_VIA then block_via db v else tech_via db v) = Some (tp, bt)
      \<Longrightarrow> prevOpCode db w (Suc f) i = layer_step k (if w_opcodes w ! nat i AND WOP_VIA_EXIT_TOP \<noteq> 0 then tp else bt)"
    "op \<in> {WOP_VIA, WOP_TECH_VIA} \<Longrightarrow> (if op = WOP_VIA then block_via db v else tech_via db v) = None
      \<Longrightarrow> prevOpCode db w (Suc f) i lx ly gl pnt = (if gl then Inl Abort else k lx ly gl pnt)"
    "skipped op \<Longrightarrow> prevOpCode db w (Suc f) i = k"
proof -
  note step = prevOpCode.simps [of db w "Suc f" i, simplified nat.case if_not_P [OF assms(1)] assms(2,3) simp_thms if_False, unfolded Let_def,
      folded assms(4-6)]
  show "op \<in> {WOP_PATH, WOP_SHORT} \<Longrightarrow> prevOpCode db w (Suc f) i = layer_step k v"
    by (intro ext) (auto simp only: step layer_step_def simp_thms insert_iff empty_iff if_True split: if_split)
  show "op = WOP_JUNCTION \<Longrightarrow> prevOpCode db w (Suc f) i = prevOpCode db w f v"
    by (intro ext) (simp only: step wop_neq simp_thms if_True if_False)
  show "op = WOP_X \<Longrightarrow> prevOpCode db w (Suc f) i = x_step k v"
    by (intro ext) (simp only: step wop_neq simp_thms if_True if_False x_step_def)
  show "op = WOP_Y \<Longrightarrow> prevOpCode db w (Suc f) i = y_step k v"
    by (intro ext) (simp only: step wop_neq simp_thms if_True if_False y_step_def)
  show "prevOpCode db w (Suc f) i = layer_step k (if w_opcodes w ! nat i AND WOP_VIA_EXIT_TOP \<noteq> 0 then tp else bt)"
    if "op \<in> {WOP_VIA, WOP_TECH_VIA}" and s: "(if op = WOP_VIA then block_via db v else tech_via db v) = Some (tp, bt)"
  proof (intro ext)
    have "op = WOP_VIA \<or> op = WOP_TECH_VIA" "\<not> (op = WOP_PATH \<or> op = WOP_SHORT)" "op \<noteq> WOP_JUNCTION" "op \<noteq> WOP_X" "op \<noteq> WOP_Y"
      using that(1) by auto
    then show "prevOpCode db w (Suc f) i lx ly gl pnt
        = layer_step k (if w_opcodes w ! nat i AND WOP_VIA_EXIT_TOP \<noteq> 0 then tp else bt) lx ly gl pnt" for lx ly gl pnt
      by (simp only: step s option.case prod.case layer_step_def simp_thms if_True if_False)
  qed
  show "prevOpCode db w (Suc f) i lx ly gl pnt = (if gl then Inl Abort else k lx ly gl pnt)"
    if "op \<in> {WOP_VIA, WOP_TECH_VIA}" and s: "(if op = WOP_VIA then block_via db v else tech_via db v) = None"
  proof -
    have "op = WOP_VIA \<or> op = WOP_TECH_VIA" "\<not> (op = WOP_PATH \<or> op = WOP_SHORT)" "op \<noteq> WOP_JUNCTION" "op \<noteq> WOP_X" "op \<noteq> WOP_Y"
      using that(1) by auto
    then show ?thesis by (simp only: step s option.case simp_thms if_True if_False)
  qed
  show "prevOpCode db w (Suc f) i = k" if "skipped op"
  proof (intro ext)
    have "\<not> (op = WOP_VIA \<or> op = WOP_TECH_VIA)" "\<not> (op = WOP_PATH \<or> op = WOP_SHORT)" "op \<noteq> WOP_JUNCTION" "op \<noteq> WOP_X" "op \<noteq> WOP_Y"
      using that by (auto simp: skipped_def)
    then show "prevOpCode db w (Suc f) i lx ly gl pnt = k lx ly gl pnt" for lx ly gl pnt
      by (simp only: step simp_thms if_True if_False)
  qed
qed

definition finds_less :: "(bool \<Rightarrow> bool \<Rightarrow> bool \<Rightarrow> WirePoint \<Rightarrow> WirePoint result) \<Rightarrow> WirePoint \<Rightarrow> bool" where
  "finds_less k q \<longleftrightarrow> (\<forall>lx ly gl pnt. k lx ly gl pnt = Inr q \<longrightarrow>
     (\<not> lx \<longrightarrow> wp_x q = wp_x pnt) \<and> (\<not> ly \<longrightarrow> wp_y q = wp_y pnt) \<and> (\<not> gl \<longrightarrow> wp_layer q = wp_layer pnt)
     \<and> (\<forall>lx' ly' gl' pnt'. (lx' \<longrightarrow> lx) \<longrightarrow> (ly' \<longrightarrow> ly) \<longrightarrow> (gl' \<longrightarrow> gl) \<longrightarrow> lx' \<or> ly' \<or> gl'
          \<longrightarrow> k lx' ly' gl' pnt' = Inr (filled lx' ly' gl' q pnt')))"

lemma steps_less:
  assumes "lx' \<longrightarrow> lx" "ly' \<longrightarrow> ly" "gl' \<longrightarrow> gl" "lx' \<or> ly' \<or> gl'" and fl: "finds_less k q"
  shows "layer_step k l lx ly gl pnt = Inr q \<Longrightarrow> layer_step k l lx' ly' gl' pnt' = Inr (filled lx' ly' gl' q pnt')"
    "x_step k l lx ly gl pnt = Inr q \<Longrightarrow> x_step k l lx' ly' gl' pnt' = Inr (filled lx' ly' gl' q pnt')"
    "y_step k l lx ly gl pnt = Inr q \<Longrightarrow> y_step k l lx' ly' gl' pnt' = Inr (filled lx' ly' gl' q pnt')"
proof -
  have k: "k lx' ly' gl' pnt' = Inr (filled lx' ly' gl' q pnt')"
    if "k lx ly gl pnt = Inr q" "lx' \<longrightarrow> lx" "ly' \<longrightarrow> ly" "gl' \<longrightarrow> gl" "lx' \<or> ly' \<or> gl'" for lx ly gl pnt lx' ly' gl' pnt'
    using fl that unfolding finds_less_def by blast
  have kept: "(\<not> lx \<longrightarrow> wp_x q = wp_x pnt) \<and> (\<not> ly \<longrightarrow> wp_y q = wp_y pnt) \<and> (\<not> gl \<longrightarrow> wp_layer q = wp_layer pnt)"
    if "k lx ly gl pnt = Inr q" for lx ly gl pnt
    using fl that unfolding finds_less_def by blast
  show "layer_step k l lx' ly' gl' pnt' = Inr (filled lx' ly' gl' q pnt')" if st: "layer_step k l lx ly gl pnt = Inr q"
  proof (cases gl)
    case False
    then have "k lx ly gl pnt = Inr q" using st by (simp add: layer_step_def)
    from k [OF this assms(1-4)] show ?thesis using False assms(1-3) by (simp add: layer_step_def)
  next
    case True
    show ?thesis
    proof (cases "lx \<or> ly")
      case False
      then have "q = pnt\<lparr>wp_layer := l\<rparr>" using st True by (simp add: layer_step_def)
      then show ?thesis using False assms(1-4) by (simp add: layer_step_def filled_def)
    next
      case o: True
      then have r: "k lx ly False (pnt\<lparr>wp_layer := l\<rparr>) = Inr q" using st True by (auto simp: layer_step_def)
      have q: "wp_layer q = l" using kept [OF r] by simp
      show ?thesis
      proof (cases "lx' \<or> ly'")
        case False
        then show ?thesis using assms(4) q by (simp add: layer_step_def filled_def)
      next
        case o': True
        then have "k lx' ly' False p = Inr (filled lx' ly' False q p)" for p
          by (intro k [OF r]) (use assms(1-3) in auto)
        then show ?thesis using o' q by (auto simp: layer_step_def filled_def)
      qed
    qed
  qed
  show "x_step k l lx' ly' gl' pnt' = Inr (filled lx' ly' gl' q pnt')" if st: "x_step k l lx ly gl pnt = Inr q"
  proof (cases lx)
    case False
    then have "k lx ly gl pnt = Inr q" using st by (simp add: x_step_def)
    from k [OF this assms(1-4)] show ?thesis using False assms(1-3) by (simp add: x_step_def)
  next
    case True
    show ?thesis
    proof (cases "ly \<or> gl")
      case False
      then have "q = pnt\<lparr>wp_x := l\<rparr>" using st True by (simp add: x_step_def)
      then show ?thesis using False assms(1-4) by (simp add: x_step_def filled_def)
    next
      case o: True
      then have r: "k False ly gl (pnt\<lparr>wp_x := l\<rparr>) = Inr q" using st True by (auto simp: x_step_def)
      have q: "wp_x q = l" using kept [OF r] by simp
      show ?thesis
      proof (cases "ly' \<or> gl'")
        case False
        then show ?thesis using assms(4) q by (simp add: x_step_def filled_def)
      next
        case o': True
        then have "k False ly' gl' p = Inr (filled False ly' gl' q p)" for p
          by (intro k [OF r]) (use assms(1-3) in auto)
        then show ?thesis using o' q by (auto simp: x_step_def filled_def)
      qed
    qed
  qed
  show "y_step k l lx' ly' gl' pnt' = Inr (filled lx' ly' gl' q pnt')" if st: "y_step k l lx ly gl pnt = Inr q"
  proof (cases ly)
    case False
    then have "k lx ly gl pnt = Inr q" using st by (simp add: y_step_def)
    from k [OF this assms(1-4)] show ?thesis using False assms(1-3) by (simp add: y_step_def)
  next
    case True
    show ?thesis
    proof (cases "lx \<or> gl")
      case False
      then have "q = pnt\<lparr>wp_y := l\<rparr>" using st True by (simp add: y_step_def)
      then show ?thesis using False assms(1-4) by (simp add: y_step_def filled_def)
    next
      case o: True
      then have r: "k lx False gl (pnt\<lparr>wp_y := l\<rparr>) = Inr q" using st True by (auto simp: y_step_def)
      have q: "wp_y q = l" using kept [OF r] by simp
      show ?thesis
      proof (cases "lx' \<or> gl'")
        case False
        then show ?thesis using assms(4) q by (simp add: y_step_def filled_def)
      next
        case o': True
        then have "k lx' False gl' p = Inr (filled lx' False gl' q p)" for p
          by (intro k [OF r]) (use assms(1-3) in auto)
        then show ?thesis using o' q by (auto simp: y_step_def filled_def)
      qed
    qed
  qed
qed

lemma walk_less:
  "prevOpCode db w f i lx ly gl pnt = Inr q \<Longrightarrow> (lx' \<longrightarrow> lx) \<Longrightarrow> (ly' \<longrightarrow> ly) \<Longrightarrow> (gl' \<longrightarrow> gl) \<Longrightarrow> lx' \<or> ly' \<or> gl'
   \<Longrightarrow> prevOpCode db w f i lx' ly' gl' pnt' = Inr (filled lx' ly' gl' q pnt')"
proof (induction f arbitrary: i lx ly gl pnt lx' ly' gl' pnt')
  case 0
  then show ?case by (simp add: prevOpCode.simps [of _ _ 0])
next
  case (Suc f)
  define op where "op = op_at w (nat i)"
  define v where "v = w_data w ! nat i"
  have ok: "\<not> i < 0" "\<not> length (w_opcodes w) \<le> nat i" "\<not> length (w_data w) \<le> nat i"
    using Suc.prems(1) by (auto simp: prevOpCode.simps [of _ _ "Suc f"] split: if_split_asm)
  note at = walk_at [OF ok op_def v_def refl, where db = db and f = f]
  have "finds_less (prevOpCode db w f (i - 1)) q"
    unfolding finds_less_def
  proof (intro allI impI conjI)
    fix lx ly gl pnt lx' ly' gl' pnt'
    assume r: "prevOpCode db w f (i - 1) lx ly gl pnt = Inr q"
    show "wp_x q = wp_x pnt" if "\<not> lx" using walk_keeps [OF r] that by simp
    show "wp_y q = wp_y pnt" if "\<not> ly" using walk_keeps [OF r] that by simp
    show "wp_layer q = wp_layer pnt" if "\<not> gl" using walk_keeps [OF r] that by simp
    show "prevOpCode db w f (i - 1) lx' ly' gl' pnt' = Inr (filled lx' ly' gl' q pnt')"
      if "lx' \<longrightarrow> lx" "ly' \<longrightarrow> ly" "gl' \<longrightarrow> gl" "lx' \<or> ly' \<or> gl'"
      by (rule Suc.IH [OF r that])
  qed
  note less = steps_less [OF Suc.prems(2-5) this]
  consider "op \<in> {WOP_PATH, WOP_SHORT}" | "op = WOP_JUNCTION" | "op = WOP_X" | "op = WOP_Y"
    | tp bt where "op \<in> {WOP_VIA, WOP_TECH_VIA}" "(if op = WOP_VIA then block_via db v else tech_via db v) = Some (tp, bt)"
    | "op \<in> {WOP_VIA, WOP_TECH_VIA}" "(if op = WOP_VIA then block_via db v else tech_via db v) = None"
    | "skipped op"
    by (cases "if op = WOP_VIA then block_via db v else tech_via db v") (fastforce simp: skipped_def)+
  then show ?case
  proof cases
    case 1
    show ?thesis unfolding at(1) [OF 1] by (rule less(1) [OF Suc.prems(1) [unfolded at(1) [OF 1]]])
  next
    case 2
    show ?thesis unfolding at(2) [OF 2] by (rule Suc.IH [OF Suc.prems(1) [unfolded at(2) [OF 2]] Suc.prems(2-5)])
  next
    case 3
    show ?thesis unfolding at(3) [OF 3] by (rule less(2) [OF Suc.prems(1) [unfolded at(3) [OF 3]]])
  next
    case 4
    show ?thesis unfolding at(4) [OF 4] by (rule less(3) [OF Suc.prems(1) [unfolded at(4) [OF 4]]])
  next
    case 5
    show ?thesis unfolding at(5) [OF 5] by (rule less(1) [OF Suc.prems(1) [unfolded at(5) [OF 5]]])
  next
    case 6
    have "\<not> gl" "prevOpCode db w f (i - 1) lx ly gl pnt = Inr q" using Suc.prems(1) at(6) [OF 6] by (auto split: if_split_asm)
    then show ?thesis using Suc.IH [OF _ Suc.prems(2-5)] Suc.prems(4) at(6) [OF 6] by auto
  next
    case 7
    show ?thesis unfolding at(7) [OF 7] by (rule Suc.IH [OF Suc.prems(1) [unfolded at(7) [OF 7]] Suc.prems(2-5)])
  qed
qed

lemma getPrevPoint_walk_ok:
  assumes "back_ok w" "getPrevPoint db w i True = Inr p" "0 \<le> i" "i < int (length (w_opcodes w))"
  shows "walk_ok db w (nat i) p"
  unfolding walk_ok_def
proof (intro conjI allI impI)
  show "nat i < length (w_opcodes w)" using assms(3,4) by simp
  fix fuel lx ly gl pnt assume a: "nat i + 1 < fuel \<and> (lx \<or> ly \<or> gl)"
  have "prevOpCode db (wire_append w [] []) fuel i lx ly gl pnt = prevOpCode db w (4 * length (w_opcodes w) + 4) i lx ly gl pnt"
    using assms a by (intro walk_prefix) auto
  moreover have "prevOpCode db w (4 * length (w_opcodes w) + 4) i lx ly gl pnt = Inr (filled lx ly gl p pnt)"
    using assms(2) a unfolding getPrevPoint_def by (intro walk_less) auto
  moreover have "wire_append w [] [] = w" by (simp add: wire_append_def)
  ultimately show "prevOpCode db w fuel (int (nat i)) lx ly gl pnt = Inr (filled lx ly gl p pnt)" using assms(3) by simp
qed

subsection \<open>Over the opcodes of a command\<close>

definition skip_all :: "(8 word \<times> int) list \<Rightarrow> bool" where
  "skip_all ovs \<longleftrightarrow> (\<forall>(op, v) \<in> set ovs. skipped (op AND WOP_OPCODE_MASK))"

lemma walk_skips:
  assumes "walk_ok db w i p" "block w (Suc i) ovs" "length (w_data w) = length (w_opcodes w)" "skip_all ovs"
  shows "walk_ok db w (i + length ovs) p"
  using assms(1,2,4)
proof (induction ovs arbitrary: i)
  case (Cons x ovs)
  obtain op v where x: "x = (op, v)" by fastforce
  have "walk_ok db w (Suc i) p" using Cons.prems assms(3) by (intro walk_skip) (auto simp: x skip_all_def)
  from Cons.IH [OF this] Cons.prems show ?case by (simp add: x skip_all_def)
qed simp

lemma layer_skips:
  assumes "layer_ok db w i l" "block w (Suc i) ovs" "length (w_data w) = length (w_opcodes w)" "skip_all ovs"
  shows "layer_ok db w (i + length ovs) l"
  using assms(1,2,4)
proof (induction ovs arbitrary: i)
  case (Cons x ovs)
  obtain op v where x: "x = (op, v)" by fastforce
  have "layer_ok db w (Suc i) l" using Cons.prems assms(3) by (intro layer_skip) (auto simp: x skip_all_def)
  from Cons.IH [OF this] Cons.prems show ?case by (simp add: x skip_all_def)
qed simp

lemma skipped_ops [simp]:
  "skipped WOP_COLINEAR" "skipped WOP_RULE" "skipped WOP_OPERAND" "skipped WOP_PROPERTY" "skipped WOP_RECT" "skipped WOP_ITERM"
  "skipped WOP_BTERM"
  by (simp_all add: skipped_def)

lemma skip_tail [simp]: "rule_ok e \<Longrightarrow> skip_all (tail_ops p e)"
  by (auto simp: skip_all_def tail_ops_def rule_due_def rule_ok_def)

lemma skip_rule [simp]: "skip_all (rule_ops r)"
  by (auto simp: skip_all_def rule_ops_def split: option.split prod.split)

lemma skip_cons [simp]: "skip_all ((op, v) # ovs) \<longleftrightarrow> skipped (op AND WOP_OPCODE_MASK) \<and> skip_all ovs" "skip_all []"
  by (simp_all add: skip_all_def)

lemma skip_append [simp]: "skip_all (xs @ ys) \<longleftrightarrow> skip_all xs \<and> skip_all ys"
  by (auto simp: skip_all_def)

subsection \<open>The place of the encoder\<close>

definition encoder_place :: "dbWireEncoder \<Rightarrow> WirePoint" where
  "encoder_place e = \<lparr>wp_x = e_x e, wp_y = e_y e, wp_layer = e_layer e\<rparr>"

definition at_end :: "wire_db \<Rightarrow> dbWireEncoder \<Rightarrow> bool" where
  "at_end db e \<longleftrightarrow> e_idx e > 0 \<and>
     (if e_point_cnt e = 0 then layer_ok db (wire_of e) (e_idx e - 1) (e_layer e)
      else walk_ok db (wire_of e) (e_idx e - 1) (encoder_place e))"

text \<open>What holds of the wire before a command, in the wire after it.\<close>

lemma at_end_later:
  assumes "enc_ok e" "added e e' ovs" "at_end db e"
  obtains n where "e_idx e = Suc n" "block (wire_of e') (Suc n) ovs" "length (w_data (wire_of e')) = length (w_opcodes (wire_of e'))"
    "e_idx e' = Suc n + length ovs"
    "e_point_cnt e = 0 \<Longrightarrow> layer_ok db (wire_of e') n (e_layer e)" "e_point_cnt e \<noteq> 0 \<Longrightarrow> walk_ok db (wire_of e') n (encoder_place e)"
proof -
  obtain n where n: "e_idx e = Suc n" using assms(3) by (cases "e_idx e") (auto simp: at_end_def)
  have w: "wire_of e' = wire_append (wire_of e) (map fst ovs) (map snd ovs)"
    using assms(2) by (simp add: wire_append_def wire_of_def added_def)
  have b: "back_ok (wire_of e)" using assms(1) by (simp add: enc_ok_def)
  show ?thesis
  proof (rule that [OF n])
    show "block (wire_of e') (Suc n) ovs" "length (w_data (wire_of e')) = length (w_opcodes (wire_of e'))"
      using added_block(1,2) [OF assms(1,2), of "wire_of e'" "[]" "[]"] n by (simp_all add: wire_append_def)
    show "e_idx e' = Suc n + length ovs" using assms(2) n by (simp add: added_def)
    show "layer_ok db (wire_of e') n (e_layer e)" if "e_point_cnt e = 0"
      using assms(3) that n unfolding w by (intro layer_ok_append [OF b]) (simp_all add: at_end_def)
    show "walk_ok db (wire_of e') n (encoder_place e)" if "e_point_cnt e \<noteq> 0"
      using assms(3) that n unfolding w by (intro walk_ok_append [OF b]) (simp_all add: at_end_def)
  qed
qed

lemma track_point:
  assumes "enc_ok e" "at_end db e" "added e e' (ps @ rest)" "moved_to x y e e'" "skip_all rest"
    and j: "j = int (e_idx e) + (if e_point_cnt e = 0 then 1 else 0)"
    and ps: "e_point_cnt e = 0 \<and> (\<exists>o1 o2. ps = [(o1, x), (o2, y)] \<and> o1 AND WOP_OPCODE_MASK = WOP_X \<and> o2 AND WOP_OPCODE_MASK = WOP_Y)
      \<or> e_point_cnt e \<noteq> 0 \<and> (\<exists>o1 v. ps = [(o1, v)] \<and> (o1 AND WOP_OPCODE_MASK = WOP_COLINEAR \<and> e_x e = x \<and> e_y e = y
          \<or> o1 AND WOP_OPCODE_MASK = WOP_X \<and> v = x \<and> e_y e = y \<or> o1 AND WOP_OPCODE_MASK = WOP_Y \<and> v = y \<and> e_x e = x))"
  shows "at_end db e' \<and> 0 \<le> j \<and> walk_ok db (wire_of e') (nat j) (encoder_place e')"
proof (rule at_end_later [OF assms(1,3,2)])
  fix n assume n: "e_idx e = Suc n" and b: "block (wire_of e') (Suc n) (ps @ rest)"
    and len: "length (w_data (wire_of e')) = length (w_opcodes (wire_of e'))" and n': "e_idx e' = Suc n + length (ps @ rest)"
    and lo: "e_point_cnt e = 0 \<Longrightarrow> layer_ok db (wire_of e') n (e_layer e)"
    and wo: "e_point_cnt e \<noteq> 0 \<Longrightarrow> walk_ok db (wire_of e') n (encoder_place e)"
  let ?w = "wire_of e'"
  have pl: "encoder_place e' = \<lparr>wp_x = x, wp_y = y, wp_layer = e_layer e\<rparr>" and pc: "e_point_cnt e' \<noteq> 0"
    using assms(4) by (auto simp: moved_to_def encoder_place_def)
  have nj: "nat j = Suc n + (if e_point_cnt e = 0 then 1 else 0)" using j n by (simp add: nat_add_distrib)
  have at: "walk_ok db ?w (nat j) (encoder_place e')" "nat j = n + length ps"
  proof -
    have "walk_ok db ?w (nat j) (encoder_place e') \<and> nat j = n + length ps"
      using ps
    proof (elim disjE conjE exE)
      fix o1 o2 assume a: "e_point_cnt e = 0" "ps = [(o1, x), (o2, y)]" "o1 AND WOP_OPCODE_MASK = WOP_X" "o2 AND WOP_OPCODE_MASK = WOP_Y"
      then have "walk_ok db ?w (Suc (Suc n)) \<lparr>wp_x = w_data ?w ! Suc n, wp_y = w_data ?w ! Suc (Suc n), wp_layer = e_layer e\<rparr>"
        using b len by (intro walk_first [OF lo]) simp_all
      then show ?thesis using a nj b pl by simp
    next
      fix o1 v assume a: "e_point_cnt e \<noteq> 0" "ps = [(o1, v)]" "o1 AND WOP_OPCODE_MASK = WOP_COLINEAR" "e_x e = x" "e_y e = y"
      then have "walk_ok db ?w (Suc n) (encoder_place e)" using b len by (intro walk_skip [OF wo]) simp_all
      moreover have "encoder_place e = encoder_place e'" using a pl by (simp add: encoder_place_def)
      ultimately show ?thesis using a nj by simp
    next
      fix o1 v assume a: "e_point_cnt e \<noteq> 0" "ps = [(o1, v)]" "o1 AND WOP_OPCODE_MASK = WOP_X" "v = x" "e_y e = y"
      then have "walk_ok db ?w (Suc n) (encoder_place e\<lparr>wp_x := w_data ?w ! Suc n\<rparr>)" using b len by (intro walk_x [OF wo]) simp_all
      moreover have "encoder_place e\<lparr>wp_x := w_data ?w ! Suc n\<rparr> = encoder_place e'" using a pl b by (simp add: encoder_place_def)
      ultimately show ?thesis using a nj by simp
    next
      fix o1 v assume a: "e_point_cnt e \<noteq> 0" "ps = [(o1, v)]" "o1 AND WOP_OPCODE_MASK = WOP_Y" "v = y" "e_x e = x"
      then have "walk_ok db ?w (Suc n) (encoder_place e\<lparr>wp_y := w_data ?w ! Suc n\<rparr>)" using b len by (intro walk_y [OF wo]) simp_all
      moreover have "encoder_place e\<lparr>wp_y := w_data ?w ! Suc n\<rparr> = encoder_place e'" using a pl b by (simp add: encoder_place_def)
      ultimately show ?thesis using a nj by simp
    qed
    then show "walk_ok db ?w (nat j) (encoder_place e')" "nat j = n + length ps" by blast+
  qed
  have "walk_ok db ?w (nat j + length rest) (encoder_place e')"
    using b by (intro walk_skips [OF at(1) _ len assms(5)]) (simp add: block_append at(2))
  then show ?thesis using at n' pc j by (simp add: at_end_def add.assoc)
qed

text \<open>The commands.\<close>

lemma track_addPoint:
  assumes "enc_ok e" "at_end db e" "addPoint x y p e = Inr (j, e')"
  shows "at_end db e' \<and> 0 \<le> j \<and> walk_ok db (wire_of e') (nat j) (encoder_place e')"
proof -
  note o = addPoint_out [OF assms(3)]
  have "rule_ok e'" using moved_rule_ok [OF o(2)] assms(1) by (simp add: enc_ok_def)
  then show ?thesis
    using o(4) by (intro track_point [OF assms(1,2) o(1,2) _ o(3)]) (auto simp: first_ops_def)
qed

lemma track_addPoint_ext:
  assumes "enc_ok e" "at_end db e" "addPoint_ext x y ext p e = Inr (j, e')"
  shows "at_end db e' \<and> 0 \<le> j \<and> walk_ok db (wire_of e') (nat j) (encoder_place e')"
proof -
  note o = addPoint_ext_out [OF assms(3)]
  have rok: "rule_ok e'" using moved_rule_ok [OF o(2)] assms(1) by (simp add: enc_ok_def)
  define n :: nat where "n = (if e_point_cnt e = 0 then 2 else 1)"
  have "added e e' (take n (ext_ops x y ext e) @ drop n (ext_ops x y ext e) @ tail_ops p e')" using o(1) by (metis append.assoc append_take_drop_id)
  then show ?thesis
  proof (rule track_point [OF assms(1,2) _ o(2) _ o(3)])
    show "skip_all (drop n (ext_ops x y ext e) @ tail_ops p e')" using rok by (simp add: ext_ops_def n_def)
    show "e_point_cnt e = 0 \<and> (\<exists>o1 o2. take n (ext_ops x y ext e) = [(o1, x), (o2, y)] \<and> o1 AND WOP_OPCODE_MASK = WOP_X
          \<and> o2 AND WOP_OPCODE_MASK = WOP_Y)
      \<or> e_point_cnt e \<noteq> 0 \<and> (\<exists>o1 v. take n (ext_ops x y ext e) = [(o1, v)]
          \<and> (o1 AND WOP_OPCODE_MASK = WOP_COLINEAR \<and> e_x e = x \<and> e_y e = y
            \<or> o1 AND WOP_OPCODE_MASK = WOP_X \<and> v = x \<and> e_y e = y \<or> o1 AND WOP_OPCODE_MASK = WOP_Y \<and> v = y \<and> e_x e = x))"
      using o(4) by (auto simp: ext_ops_def n_def)
  qed
qed

lemma track_via:
  assumes "enc_ok e" "at_end db e" "add_any_via op layers v e = Inr (j, e')"
    and "op = WOP_VIA \<and> layers = block_via db v \<or> op = WOP_TECH_VIA \<and> layers = tech_via db v"
  shows "at_end db e' \<and> 0 \<le> j \<and> walk_ok db (wire_of e') (nat j) (encoder_place e')"
  using assms(3)
proof (rule add_any_via_out)
  fix tp bt
  assume o: "layers = Some (tp, bt)" "e_point_cnt e \<noteq> 0" "j = int (e_idx e)" "same_path e e'" "e_layer e' = (if tp = e_layer e then bt else tp)"
    and a: "added e e' [(if tp = e_layer e then op else op OR WOP_VIA_EXIT_TOP, v)]"
  show ?thesis
    using assms(1) a assms(2)
  proof (rule at_end_later)
    fix n assume n: "e_idx e = Suc n" "block (wire_of e') (Suc n) [(if tp = e_layer e then op else op OR WOP_VIA_EXIT_TOP, v)]"
      "length (w_data (wire_of e')) = length (w_opcodes (wire_of e'))"
      "e_idx e' = Suc n + length [(if tp = e_layer e then op else op OR WOP_VIA_EXIT_TOP, v)]"
      "e_point_cnt e \<noteq> 0 \<Longrightarrow> walk_ok db (wire_of e') n (encoder_place e)"
    have "walk_ok db (wire_of e') (Suc n) (encoder_place e\<lparr>wp_layer := e_layer e'\<rparr>)"
    proof (rule walk_via [OF n(5) [OF o(2)] _ n(3)])
      show "Suc n < length (w_opcodes (wire_of e'))" using n(2) by simp
      show "op_at (wire_of e') (Suc n) = op" using n(2) assms(4) by auto
      show "op = WOP_VIA \<or> op = WOP_TECH_VIA" using assms(4) by blast
      show "(if op = WOP_VIA then block_via db (w_data (wire_of e') ! Suc n) else tech_via db (w_data (wire_of e') ! Suc n)) = Some (tp, bt)"
        using n(2) assms(4) o(1) by auto
      show "e_layer e' = (if w_opcodes (wire_of e') ! Suc n AND WOP_VIA_EXIT_TOP \<noteq> 0 then tp else bt)"
        using n(2) assms(4) o(5) by auto
    qed
    moreover have "encoder_place e\<lparr>wp_layer := e_layer e'\<rparr> = encoder_place e'" using o(4) by (simp add: encoder_place_def same_path_def)
    moreover have "nat j = Suc n" using n(1) o(3) by simp
    ultimately show ?thesis using n(1,4) o(2-4) by (simp add: at_end_def same_path_def del: of_nat_Suc)
  qed
qed

lemma track_stay:
  assumes "enc_ok e" "at_end db e" "added e e' ovs" "skip_all ovs" "same_path e e'" "e_layer e' = e_layer e"
  shows "at_end db e'"
  using assms(1,3,2)
proof (rule at_end_later)
  fix n assume n: "e_idx e = Suc n" "block (wire_of e') (Suc n) ovs" "length (w_data (wire_of e')) = length (w_opcodes (wire_of e'))"
    "e_idx e' = Suc n + length ovs" "e_point_cnt e = 0 \<Longrightarrow> layer_ok db (wire_of e') n (e_layer e)"
    "e_point_cnt e \<noteq> 0 \<Longrightarrow> walk_ok db (wire_of e') n (encoder_place e)"
  have "encoder_place e' = encoder_place e" using assms(5,6) by (simp add: encoder_place_def same_path_def)
  then show ?thesis
    using walk_skips [OF n(6,2,3) assms(4)] layer_skips [OF n(5,2,3) assms(4)] n(4) assms(5,6) by (simp add: at_end_def same_path_def)
qed

lemma track_start:
  assumes "enc_ok e" "added e e' ((o1, l) # ovs)" "o1 AND WOP_OPCODE_MASK \<in> {WOP_PATH, WOP_SHORT}" "skip_all ovs"
    and "fresh_path l b r 0 e'"
  shows "at_end db e'"
proof -
  have b: "block (wire_of e') (e_idx e) ((o1, l) # ovs)" "length (w_data (wire_of e')) = length (w_opcodes (wire_of e'))"
    using added_block(1,2) [OF assms(1,2), of "wire_of e'" "[]" "[]"] by (simp_all add: wire_append_def)
  have "layer_ok db (wire_of e') (e_idx e) (w_data (wire_of e') ! e_idx e)" using b assms(3) by (intro layer_start) auto
  then have "layer_ok db (wire_of e') (e_idx e + length ovs) l" using b by (intro layer_skips [OF _ _ _ assms(4)]) simp_all
  then show ?thesis using assms(2,5) by (simp add: at_end_def added_def fresh_path_def)
qed

lemma track_junction:
  assumes "enc_ok e" "path_at db i t r e = Inr e1" "e' = addOp col v e1" "col AND WOP_OPCODE_MASK = WOP_COLINEAR"
  shows "at_end db e'"
  using assms(2)
proof (rule path_at_out)
  fix pnt b assume o: "jct_ok i e" "getPrevPoint db (wire_of e) i True = Inr pnt"
    "b = (case t of None \<Rightarrow> e_wire_type e | Some t \<Rightarrow> getWireType t)" "e_x e1 = wp_x pnt" "e_y e1 = wp_y pnt"
    "fresh_path (wp_layer pnt) b r 1 e1" "added e e1 ((WOP_JUNCTION OR b, i) # rule_ops r)"
  have "b \<in> range getWireType" using o(3) assms(1) by (auto simp: enc_ok_def split: option.splits)
  then obtain t' where t': "b = getWireType t'" by auto
  have a: "added e e' ((WOP_JUNCTION OR getWireType t', i) # rule_ops r @ [(col, v)])" unfolding assms(3) using added_addOp [OF o(7)] t' by simp
  let ?w = "wire_of e'"
  have w: "?w = wire_append (wire_of e) (map fst ((WOP_JUNCTION OR getWireType t', i) # rule_ops r @ [(col, v)]))
      (map snd ((WOP_JUNCTION OR getWireType t', i) # rule_ops r @ [(col, v)]))"
    using a by (simp add: wire_append_def wire_of_def added_def)
  have bok: "back_ok (wire_of e)" using assms(1) by (simp add: enc_ok_def)
  have b: "block ?w (e_idx e) ((WOP_JUNCTION OR getWireType t', i) # rule_ops r @ [(col, v)])" "length (w_data ?w) = length (w_opcodes ?w)"
    using added_block(1,2) [OF assms(1) a, of ?w "[]" "[]"] by (simp_all add: wire_append_def)
  have i: "0 \<le> i" "i < int (e_idx e)" "length (w_opcodes (wire_of e)) = e_idx e"
    using o(1) assms(1) by (simp_all add: jct_ok_def enc_ok_def wire_of_def)
  have "walk_ok db (wire_of e) (nat i) pnt" using getPrevPoint_walk_ok [OF bok o(2)] i by simp
  then have j: "walk_ok db ?w (nat i) pnt" unfolding w by (intro walk_ok_append [OF bok]) simp_all
  have "walk_ok db ?w (e_idx e) pnt" by (rule walk_junction [OF j _ _ b(2)]) (use b i in simp_all)
  then have "walk_ok db ?w (e_idx e + length (rule_ops r @ [(col, v)])) pnt"
    by (rule walk_skips [OF _ _ b(2)]) (use b assms(4) in simp_all)
  moreover have "pnt = encoder_place e'" using o(4-6) by (simp add: encoder_place_def assms(3) fresh_path_def)
  moreover have "e_point_cnt e' \<noteq> 0" "e_idx e' = Suc (e_idx e + length (rule_ops r @ [(col, v)]))"
    using o(6) a by (simp_all add: assms(3) fresh_path_def added_def)
  ultimately show ?thesis by (simp add: at_end_def)
qed

fun is_virtual :: "wire_cmd \<Rightarrow> bool" where
  "is_virtual (NewPathVWire i l t r) = True"
| "is_virtual _ = False"

lemma track_cmd:
  assumes "enc_ok e" "at_end db e" "run_cmd db c e = Inr (j, e')" "\<not> is_virtual c"
  shows "at_end db e' \<and> (\<forall>i. j = Some i \<longrightarrow> 0 \<le> i \<and> walk_ok db (wire_of e') (nat i) (encoder_place e'))"
proof (cases c)
  case (AddPoint x y p)
  then obtain i where "addPoint x y p e = Inr (i, e')" "j = Some i" using assms(3) by auto
  then show ?thesis using track_addPoint [OF assms(1,2)] by simp
next
  case (AddPointExt x y ext p)
  then obtain i where "addPoint_ext x y ext p e = Inr (i, e')" "j = Some i" using assms(3) by auto
  then show ?thesis using track_addPoint_ext [OF assms(1,2)] by simp
next
  case (AddVia v)
  then obtain i where "add_any_via WOP_VIA (block_via db v) v e = Inr (i, e')" "j = Some i" using assms(3) by (auto simp: addVia_def)
  then show ?thesis using track_via [OF assms(1,2)] by simp
next
  case (AddTechVia v)
  then obtain i where "add_any_via WOP_TECH_VIA (tech_via db v) v e = Inr (i, e')" "j = Some i" using assms(3) by (auto simp: addTechVia_def)
  then show ?thesis using track_via [OF assms(1,2)] by simp
next
  case (AddRect x1 y1 x2 y2)
  then have "addRect x1 y1 x2 y2 e = Inr e'" "j = None" using assms(3) by auto
  then show ?thesis using addRect_out [of x1 y1 x2 y2 e e'] track_stay [OF assms(1,2), of e' "[(WOP_RECT, x1), (WOP_OPERAND, y1), (WOP_OPERAND, x2), (WOP_OPERAND, y2)]"]
    by simp
next
  case (AddITerm t)
  then have "addITerm t e = Inr e'" "j = None" using assms(3) by auto
  then show ?thesis using addITerm_out [of t e e'] track_stay [OF assms(1,2), of e' "[(WOP_ITERM, t)]"] by simp
next
  case (AddBTerm t)
  then have "addBTerm t e = Inr e'" "j = None" using assms(3) by auto
  then show ?thesis using addBTerm_out [of t e e'] track_stay [OF assms(1,2), of e' "[(WOP_BTERM, t)]"] by simp
next
  case (NewPath l t r)
  then have "e' = newPath l t r e" "j = None" using assms(3) by simp_all
  then show ?thesis using track_start [OF assms(1) newPath_out(1) [of e l t r] _ _ newPath_out(2)] by simp
next
  case (NewPathJct i t r)
  then obtain e1 where p: "path_at db i t r e = Inr e1" "e' = addOp (WOP_COLINEAR OR (if r = None then WOP_DEFAULT_WIDTH else 0)) 0 e1"
    "j = None" using assms(3) by (auto simp: newPath_jct_def)
  then show ?thesis using track_junction [OF assms(1) p(1,2) wop_width_masks(3)] by simp
next
  case (NewPathExt i ext t r)
  then obtain e1 where p: "path_at db i t r e = Inr e1"
    "e' = addOp (WOP_COLINEAR OR WOP_EXTENSION OR (if r = None then WOP_DEFAULT_WIDTH else 0)) ext e1"
    "j = None" using assms(3) by (auto simp: newPathExt_def)
  then show ?thesis using track_junction [OF assms(1) p(1,2) wop_width_masks(6)] by simp
next
  case (NewPathShort i l t r)
  then have "jct_ok i e" "e' = add_rule r (addOp WOP_OPERAND i (addOp (WOP_SHORT OR getWireType t) l (initPath l (getWireType t) r e)))"
    and j: "j = None" using assms(3) by (auto simp: newPathShort_def Let_def split: if_splits)
  note o = jct_path_out [OF _ this(1,2)]
  show ?thesis using track_start [OF assms(1) o(1) _ _ o(2)] j by simp
next
  case (NewPathVWire i l t r)
  then show ?thesis using assms(4) by simp
qed

end
