(* ===== verification/Odb_Wire_Props.thy ===== *)
theory Odb_Wire_Props
  imports Odb_Wire_Track
begin

section \<open>Properties of the wire coding\<close>

text \<open>
  Runs of commands after \<open>begin\<close>: what is written is well formed, the decoder reads back the elements
  that the commands mean, a junction id leads to the place it was given for, and \<open>peek\<close> tells what
  \<open>next\<close> returns, but for the first point of a path.
\<close>

unbundle bit_operations_syntax

subsection \<open>Runs\<close>

lemma encode_added:
  "enc_ok e \<Longrightarrow> encode db cs e = Inr (evs, e')
   \<Longrightarrow> enc_ok e' \<and> (\<exists>ovs. added e e' ovs \<and> wop_wf 0 (map fst ovs) \<and> (ovs \<noteq> [] \<longrightarrow> fst (hd ovs) AND WOP_OPCODE_MASK \<noteq> WOP_RULE))"
proof (induction cs arbitrary: e evs)
  case Nil
  then show ?case by (auto intro!: exI [of _ "[]"])
next
  case (Cons c cs)
  obtain j e1 evs2 where r: "run_cmd db c e = Inr (j, e1)" "encode db cs e1 = Inr (evs2, e')" using Cons.prems(2) by auto
  obtain ovs where o: "enc_ok e1" "added e e1 ovs" "cmd_wf e ovs" using run_cmd_added [OF Cons.prems(1) r(1)] by blast
  obtain ovs2 where o2: "enc_ok e'" "added e1 e' ovs2" "wop_wf 0 (map fst ovs2)" using Cons.IH [OF o(1) r(2)] by blast
  have "added e e' (ovs @ ovs2)" by (rule added_trans [OF o(2) o2(2)])
  moreover have "wop_wf 0 (map fst (ovs @ ovs2))" using o(3) o2(3) by (simp add: cmd_wf_def wop_wf_append)
  moreover have "fst (hd (ovs @ ovs2)) AND WOP_OPCODE_MASK \<noteq> WOP_RULE" using o(3) by (simp add: cmd_wf_def)
  ultimately show ?case using o2(1) by blast
qed

lemma encode_read:
  "enc_ok e \<Longrightarrow> encode db cs e = Inr (evs, e') \<Longrightarrow> w = wire_append (wire_of e') ops vs \<Longrightarrow> length vs = length ops
   \<Longrightarrow> no_rule w (e_idx e') \<Longrightarrow> sim e d \<Longrightarrow> reads_cmd db w d evs e'"
proof (induction cs arbitrary: e evs d)
  case Nil
  then show ?case by (auto simp: reads_cmd_def)
next
  case (Cons c cs)
  obtain j e1 evs2 where r: "run_cmd db c e = Inr (j, e1)" "encode db cs e1 = Inr (evs2, e')" "evs = cmd_events c j e e1 @ evs2"
    using Cons.prems(2) by auto
  have ok: "enc_ok e1" using run_cmd_added [OF Cons.prems(1) r(1)] by blast
  obtain ovs where o: "enc_ok e'" "added e1 e' ovs" "ovs \<noteq> [] \<Longrightarrow> fst (hd ovs) AND WOP_OPCODE_MASK \<noteq> WOP_RULE"
    using encode_added [OF ok r(2)] by blast
  have w: "w = wire_append (wire_of e1) (map fst ovs @ ops) (map snd ovs @ vs)"
    using Cons.prems(3) o(2) by (simp add: wire_append_def wire_of_def added_def)
  have "no_rule w (e_idx e1)"
  proof (cases ovs)
    case Nil
    then show ?thesis using o(2) Cons.prems(5) by (simp add: added_def)
  next
    case (Cons x r)
    have "block w (e_idx e1) (x # r)" using added_block(1) [OF ok o(2) Cons.prems(3,4)] Cons by simp
    then show ?thesis using o(3) Cons by (cases x) (simp add: no_rule_def)
  qed
  then have "reads_cmd db w d (cmd_events c j e e1) e1"
    using Cons.prems(4,6) by (intro read_cmd [OF Cons.prems(1) r(1) w]) simp_all
  then obtain d1 where d1: "reads db w d (cmd_events c j e e1) d1" "sim e1 d1" by (auto simp: reads_cmd_def)
  have "reads_cmd db w d1 evs2 e'" by (rule Cons.IH [OF ok r(2) Cons.prems(3-5) d1(2)])
  then show ?case using reads_append [OF d1(1)] r(3) by (auto simp: reads_cmd_def)
qed

text \<open>The first path gives the wire type.\<close>

lemma first_path:
  assumes "encode db (NewPath l t r # cs) (encoder_clear e0) = Inr (evs, e)"
  obtains e0' where "enc_ok e0'" "encode db (NewPath l t r # cs) e0' = Inr (evs, e)" "e_idx e0' = 0" "e_layer e0' = 0" "e_point_cnt e0' = 0"
    "e_opcodes e0' = []" "e_data e0' = []"
proof (rule that [of "(encoder_clear e0)\<lparr>e_wire_type := getWireType t\<rparr>"])
  let ?e = "(encoder_clear e0)\<lparr>e_wire_type := getWireType t\<rparr>"
  have "newPath l t r ?e = newPath l t r (encoder_clear e0)"
    by (simp add: newPath_def initPath_def Let_def split: option.split prod.split)
  then show "encode db (NewPath l t r # cs) ?e = Inr (evs, e)" using assms by simp
  show "enc_ok ?e" by (simp add: enc_ok_def encoder_clear_def back_ok_def wire_of_def rule_ok_def)
qed (simp_all add: encoder_clear_def)

subsection \<open>Well-formed wires\<close>

text \<open>
  C28: Whatever is called on an encoder after \<open>begin\<close> and a path, if no call fails, the opcodes that it has
  written are a sequence of known opcodes, each followed by exactly its operands; there is one integer
  per opcode, and each junction refers to an earlier index.
\<close>
theorem wire_well_formed:
  assumes "encode db (NewPath l t r # cs) (encoder_clear e0) = Inr (evs, e)"
  shows "wop_wf 0 (e_opcodes e) \<and> length (e_data e) = length (e_opcodes e) \<and> e_idx e = length (e_opcodes e)
    \<and> (\<forall>i < length (e_opcodes e). e_opcodes e ! i AND WOP_OPCODE_MASK = WOP_JUNCTION \<longrightarrow> 0 \<le> e_data e ! i \<and> e_data e ! i < int i)"
  using assms
proof (rule first_path)
  fix e1 assume e1: "enc_ok e1" "encode db (NewPath l t r # cs) e1 = Inr (evs, e)" "e_opcodes e1 = []"
  obtain ovs where o: "enc_ok e" "added e1 e ovs" "wop_wf 0 (map fst ovs)" using encode_added [OF e1(1,2)] by blast
  then show ?thesis using e1(3) by (auto simp: enc_ok_def back_ok_def wire_of_def added_def)
qed

subsection \<open>Round trip\<close>

text \<open>
  C26: A reader of the finished wire that calls \<open>next\<close> until the end gets exactly the elements that were
  given to the encoder, in order, each with its layer and junction id, and no call fails. A shield is
  read as no wire type.
\<close>
theorem wire_roundtrip:
  assumes "encode db (NewPath l t r # cs) (encoder_clear e0) = Inr (evs, e)"
  shows "decode_all db (fst (encoder_end w0 e)) (length evs + 1) (decoder_begin d0) = Inr evs"
  using assms
proof (rule first_path)
  fix e1 assume e1: "enc_ok e1" "encode db (NewPath l t r # cs) e1 = Inr (evs, e)" "e_idx e1 = 0" "e_layer e1 = 0" "e_point_cnt e1 = 0"
  obtain e2 evs2 where e2: "run_cmd db (NewPath l t r) e1 = Inr (None, e2)" "encode db cs e2 = Inr (evs2, e)" using e1(2) by auto
  obtain ovs where o: "enc_ok e2" "added e1 e2 ovs" "cmd_wf e1 ovs" using run_cmd_added [OF e1(1) e2(1)] by blast
  obtain ovs2 where o2: "enc_ok e" "added e2 e ovs2" using encode_added [OF o(1) e2(2)] by blast
  have w: "fst (encoder_end w0 e) = wire_append (wire_of e) [] []" "length (w_opcodes (wire_of e)) = e_idx e"
    using o(2,3) o2 by (auto simp: encoder_end_def wire_append_def wire_of_def added_def cmd_wf_def enc_ok_def)
  have "reads_cmd db (fst (encoder_end w0 e)) (decoder_begin d0) evs e"
    by (rule encode_read [OF e1(1,2) w(1)]) (use e1(3-5) w in \<open>simp_all add: no_rule_def sim_def decoder_begin_def\<close>)
  then obtain d where d: "reads db (fst (encoder_end w0 e)) (decoder_begin d0) evs d" "sim e d" by (auto simp: reads_cmd_def)
  have "decoder_next db (fst (encoder_end w0 e)) d = Inr (END_DECODE, d)"
    using d(2) w by (subst decoder_next.simps) (simp add: sim_def)
  then show ?thesis by (rule decode_all_reads [OF d(1)]) simp
qed

subsection \<open>Junctions\<close>

lemma encode_track:
  "enc_ok e \<Longrightarrow> at_end db e \<Longrightarrow> encode db cs e = Inr (evs, e') \<Longrightarrow> \<forall>c \<in> set cs. \<not> is_virtual c \<Longrightarrow> enc_ok e' \<and> at_end db e'"
proof (induction cs arbitrary: e evs)
  case (Cons c cs)
  obtain j e1 evs2 where r: "run_cmd db c e = Inr (j, e1)" "encode db cs e1 = Inr (evs2, e')" using Cons.prems(3) by auto
  have "enc_ok e1" using run_cmd_added [OF Cons.prems(1) r(1)] by blast
  moreover have "at_end db e1" using track_cmd [OF Cons.prems(1,2) r(1)] Cons.prems(4) by simp
  ultimately show ?case using Cons.IH [OF _ _ r(2)] Cons.prems(4) by simp
qed simp

text \<open>
  C27: A junction id stays what it is: if no virtual wire was started before it was returned, then after
  any further calls the walk back from it finds the point and the layer that the encoder was at when
  it returned the id, and a path that starts there starts at that point, on that layer.
\<close>
theorem wire_junction:
  assumes "encode db (NewPath l t r # cs) (encoder_clear e0) = Inr (evs, e)" "\<forall>c \<in> set cs. \<not> is_virtual c"
    and "run_cmd db c e = Inr (Some j, e1)" "encode db cs' e1 = Inr (evs', e2)"
  shows "getPrevPoint db (wire_of e2) j True = Inr (encoder_place e1) \<and> (\<exists>e3. newPath_jct db j t' r' e2 = Inr e3 \<and> encoder_place e3 = encoder_place e1)"
  using assms(1)
proof (rule first_path)
  fix e0' assume f: "enc_ok e0'" "encode db (NewPath l t r # cs) e0' = Inr (evs, e)"
  obtain ep evsp where ep: "run_cmd db (NewPath l t r) e0' = Inr (None, ep)" "encode db cs ep = Inr (evsp, e)" using f(2) by auto
  have "enc_ok ep" using run_cmd_added [OF f(1) ep(1)] by blast
  moreover have "at_end db ep"
    using track_start [OF f(1) newPath_out(1) _ _ newPath_out(2)] ep(1) by auto
  ultimately have ok: "enc_ok e" "at_end db e" using encode_track [OF _ _ ep(2) assms(2)] by blast+
  have "\<not> is_virtual c" using assms(3) by (cases c) auto
  then have j: "0 \<le> j" "walk_ok db (wire_of e1) (nat j) (encoder_place e1)" using track_cmd [OF ok assms(3)] by simp_all
  have ok1: "enc_ok e1" using run_cmd_added [OF ok(1) assms(3)] by blast
  obtain ovs where o: "enc_ok e2" "added e1 e2 ovs" using encode_added [OF ok1 assms(4)] by blast
  have w: "wire_of e2 = wire_append (wire_of e1) (map fst ovs) (map snd ovs)"
    using o(2) by (simp add: wire_append_def wire_of_def added_def)
  have "walk_ok db (wire_of e2) (nat j) (encoder_place e1)"
    unfolding w using ok1 j(2) by (intro walk_ok_append) (simp_all add: enc_ok_def)
  note p = walk_ok_point [OF this]
  have p: "getPrevPoint db (wire_of e2) j True = Inr (encoder_place e1)" using p j(1) by simp
  have jok: "jct_ok j e2"
  proof -
    have "nat j < e_idx e1" using j(2) ok1 by (simp add: walk_ok_def enc_ok_def wire_of_def)
    then show ?thesis using j(1) o(2) by (simp add: jct_ok_def added_def)
  qed
  have "\<exists>e3. newPath_jct db j t' r' e2 = Inr e3 \<and> encoder_place e3 = encoder_place e1"
    using jok p by (simp add: newPath_jct_def path_at_def wire_of_def Let_def encoder_place_def split: option.split)
  then show ?thesis using p by simp
qed

subsection \<open>Looking ahead\<close>

definition op_kind :: "8 word \<Rightarrow> OpCode option" where
  "op_kind opcode =
     (let op = opcode AND WOP_OPCODE_MASK in
        if op = WOP_PATH then Some PATH
        else if op = WOP_SHORT then Some SHORT
        else if op = WOP_JUNCTION then Some JUNCTION
        else if op = WOP_RULE then Some RULE
        else if op = WOP_X \<or> op = WOP_Y \<or> op = WOP_COLINEAR
        then (if opcode AND WOP_EXTENSION \<noteq> 0 then Some POINT_EXT else Some POINT)
        else if op = WOP_VIA then Some VIA
        else if op = WOP_TECH_VIA then Some TECH_VIA
        else if op = WOP_ITERM then Some ITERM
        else if op = WOP_BTERM then Some BTERM
        else if op = WOP_RECT then Some RECT
        else if op = WOP_VWIRE then Some VWIRE
        else None)"

lemma peek_kind:
  "i < length (w_opcodes w) \<Longrightarrow> peek_from w i = (case op_kind (w_opcodes w ! i) of Some k \<Rightarrow> k | None \<Rightarrow> peek_from w (i + 1))"
  by (subst peek_from.simps) (simp add: op_kind_def Let_def split: if_split)

lemma flushRule_opcode [simp]: "d_opcode (flushRule w d) = d_opcode d"
  by (simp add: flushRule_def)

lemma decode_op_kind:
  assumes "decode_op db w opcode d = Some (Inr (op, d'))"
  shows "op_kind opcode = Some op
    \<or> d_point_cnt d = 0 \<and> (op_kind opcode = Some POINT \<and> op = POINT_EXT \<or> op_kind opcode = Some POINT_EXT \<and> op = POINT)"
proof -
  define o' where "o' = opcode AND WOP_OPCODE_MASK"
  note d = assms [unfolded decode_op_def Let_def, folded o'_def]
  note k = op_kind_def [of opcode, unfolded Let_def, folded o'_def]
  consider "o' = WOP_X" | "o' = WOP_Y" | "o' = WOP_COLINEAR" | "o' \<in> {WOP_PATH, WOP_SHORT, WOP_JUNCTION, WOP_RULE, WOP_RECT, WOP_ITERM, WOP_BTERM, WOP_VWIRE}"
    | "o' \<in> {WOP_VIA, WOP_TECH_VIA}"
    | "o' \<notin> {WOP_X, WOP_Y, WOP_COLINEAR, WOP_PATH, WOP_SHORT, WOP_JUNCTION, WOP_RULE, WOP_RECT, WOP_ITERM, WOP_BTERM, WOP_VWIRE, WOP_VIA, WOP_TECH_VIA}"
    by blast
  then show ?thesis
  proof cases
    case 1
    then show ?thesis
      using d by (auto simp: k read_ext_def end_point_def Let_def split: if_split_asm)
  next
    case 2
    then show ?thesis
      using d by (auto simp: k read_ext_def end_point_def Let_def split: if_split_asm)
  next
    case 3
    then show ?thesis using d by (auto simp: k end_point_def Let_def split: if_split_asm)
  next
    case 4
    then show ?thesis using d by (auto simp: k returned_def)
  next
    case 5
    then show ?thesis using d by (auto simp: k returned_def split: option.split_asm)
  next
    case 6
    then show ?thesis using d by (auto split: if_split_asm)
  qed
qed

lemma decode_op_None: "decode_op db w opcode d = None \<Longrightarrow> op_kind opcode = None"
proof -
  assume a: "decode_op db w opcode d = None"
  then have "opcode AND WOP_OPCODE_MASK \<in> {WOP_PROPERTY, WOP_NOP}"
    unfolding decode_op_def Let_def by (auto split: if_split_asm)
  then show ?thesis by (auto simp: op_kind_def)
qed

text \<open>
  C29: \<open>peek\<close> tells the kind of the element that \<open>next\<close> returns, passing over properties; but before the
  first point of a path it may tell a point without extension for one with extension, or the other way
  round, since it looks at the x-coordinate, and the extension follows the y-coordinate.
\<close>
theorem peek_next:
  assumes "decoder_next db w d = Inr (op, d')"
  shows "peek w d = op
    \<or> d_point_cnt d = 0 \<and> (peek w d = POINT \<and> op = POINT_EXT \<or> peek w d = POINT_EXT \<and> op = POINT)"
  using assms
proof (induction db w d rule: decoder_next.induct)
  case (1 db w d)
  show ?case
  proof (cases "d_idx d = length (w_opcodes w)")
    case True
    then show ?thesis using "1.prems" by (subst (asm) decoder_next.simps) (simp add: peek_def peek_from.simps)
  next
    case F: False
    then obtain opcode v d1 where n: "nextOp w (d\<lparr>d_jct_id := int (d_idx d)\<rparr>) = Inr (opcode, v, d1)"
      using "1.prems" by (subst (asm) decoder_next.simps) (auto split: sum.splits)
    then have i: "d_idx d < length (w_opcodes w)" "opcode = w_opcodes w ! d_idx d" "d_idx d1 = d_idx d + 1" "d_point_cnt d1 = d_point_cnt d"
      by (auto simp: nextOp_def split: if_splits)
    show ?thesis
    proof (cases "decode_op db w opcode (d1\<lparr>operand := v\<rparr>)")
      case None
      then have "decoder_next db w (d1\<lparr>operand := v\<rparr>) = Inr (op, d')" using "1.prems" F n by (subst (asm) decoder_next.simps) simp
      from "1.IH" [OF F n refl refl None this] show ?thesis
        using i peek_kind [OF i(1)] decode_op_None [OF None] by (simp add: peek_def)
    next
      case (Some res)
      then have "decode_op db w opcode (d1\<lparr>operand := v\<rparr>) = Some (Inr (op, d'))" using "1.prems" F n by (subst (asm) decoder_next.simps) simp
      from decode_op_kind [OF this] show ?thesis using i peek_kind [OF i(1)] by (auto simp: peek_def)
    qed
  qed
qed

subsection \<open>A wire\<close>

definition via_db :: wire_db where
  "via_db = \<lparr>block_via = [7 \<mapsto> (2, 1)], tech_via = [9 \<mapsto> (3, 2)]\<rparr>"

definition new_encoder :: dbWireEncoder where
  "new_encoder = \<lparr>e_data = [], e_opcodes = [], e_layer = 0, e_idx = 0, e_x = 0, e_y = 0, non_default_rule = 0, e_point_cnt = 0,
     via_cnt = 0, prev_extended_colinear_pnt = False, e_wire_type = 0xEE, rule_opcode = 0\<rparr>"

definition new_decoder :: dbWireDecoder where
  "new_decoder = \<lparr>d_x = 0, d_y = 0, default_width = True, block_rule = False, d_layer = 0, operand = 0, operand2 = 0, d_idx = 0,
     d_jct_id = -1, d_wire_type = WIRE_NONE, d_point_cnt = 0, d_opcode = END_DECODE, d_property = 0, deltaX1 = 0, deltaY1 = 0,
     deltaX2 = 0, deltaY2 = 0\<rparr>"

definition demo_cmds :: "wire_cmd list" where
  "demo_cmds = [AddPoint 10 20 0, AddPointExt 10 50 5 0, AddVia 7, AddITerm 3]"

definition demo_end :: dbWireEncoder where
  "demo_end = \<lparr>e_data = [1, 4, 10, 20, 50, 5, 0, 7, 3], e_opcodes = [0, 131, 4, 5, 133, 11, 12, 135, 9], e_layer = 2, e_idx = 9,
     e_x = 10, e_y = 50, non_default_rule = 4, e_point_cnt = 2, via_cnt = 1, prev_extended_colinear_pnt = False, e_wire_type = 0,
     rule_opcode = 131\<rparr>"

definition demo_events :: "(wire_event \<times> int) list" where
  "demo_events = [(EvPath WIRE_NONE, 1), (EvRule 4 True, 1), (EvPoint 3 10 20, 1), (EvPointExt 4 10 50 5, 1), (EvVia 7 7, 2),
     (EvITerm 3, 2)]"

lemma demo_encode:
  "encode via_db (NewPath 1 WIRE_SHIELD (Some (4, True)) # demo_cmds) (encoder_clear new_encoder) = Inr (demo_events, demo_end)"
  by code_simp

lemma wire_well_formed_witness:
  "wop_wf 0 [0, 131, 4, 5, 133, 11, 12, 135, 9]"
  using wire_well_formed [OF demo_encode] by (simp add: demo_end_def)

lemma wire_roundtrip_witness:
  "decode_all via_db \<lparr>w_data = [1, 4, 10, 20, 50, 5, 0, 7, 3], w_opcodes = [0, 131, 4, 5, 133, 11, 12, 135, 9]\<rparr> 7
     (decoder_begin new_decoder) = Inr demo_events"
proof -
  have "length demo_events = 6" by (simp add: demo_events_def)
  then show ?thesis
    using wire_roundtrip [OF demo_encode, of "\<lparr>w_data = [], w_opcodes = []\<rparr>" new_decoder]
    by (simp add: encoder_end_def demo_end_def del: decode_all.simps)
qed

lemma wire_junction_witness:
  "\<exists>e1 evs' e2. run_cmd via_db (AddPoint 80 50 0) demo_end = Inr (Some 9, e1)
     \<and> encode via_db [NewPath 1 WIRE_ROUTED None, AddPoint 0 0 0] e1 = Inr (evs', e2)
     \<and> getPrevPoint via_db (wire_of e2) 9 True = Inr \<lparr>wp_x = 80, wp_y = 50, wp_layer = 2\<rparr>"
proof -
  define e1 where "e1 = demo_end\<lparr>e_data := [1, 4, 10, 20, 50, 5, 0, 7, 3, 80, 0],
    e_opcodes := [0, 131, 4, 5, 133, 11, 12, 135, 9, 4, 12], e_idx := 11, e_x := 80, e_point_cnt := 3\<rparr>"
  have r: "run_cmd via_db (AddPoint 80 50 0) demo_end = Inr (Some 9, e1)" unfolding e1_def by code_simp
  have "\<exists>evs' e2. encode via_db [NewPath 1 WIRE_ROUTED None, AddPoint 0 0 0] e1 = Inr (evs', e2)"
    by (simp add: newPath_def addPoint_def Let_def add_rule_def initPath_def)
  then obtain evs' e2 where e2: "encode via_db [NewPath 1 WIRE_ROUTED None, AddPoint 0 0 0] e1 = Inr (evs', e2)" by blast
  have "\<forall>c \<in> set demo_cmds. \<not> is_virtual c" by (simp add: demo_cmds_def)
  from wire_junction [OF demo_encode this r e2] have "getPrevPoint via_db (wire_of e2) 9 True = Inr (encoder_place e1)" by blast
  moreover have "encoder_place e1 = \<lparr>wp_x = 80, wp_y = 50, wp_layer = 2\<rparr>" by (simp add: encoder_place_def e1_def demo_end_def)
  ultimately show ?thesis using r e2 by auto
qed

lemma peek_next_witness:
  "peek \<lparr>w_data = [1], w_opcodes = [0x60]\<rparr> (decoder_begin new_decoder) = PATH"
proof -
  let ?w = "\<lparr>w_data = [1], w_opcodes = [0x60]\<rparr>"
  have "\<exists>d'. decoder_next via_db ?w (decoder_begin new_decoder) = Inr (PATH, d')"
    by (simp add: decoder_next.simps nextOp_def decoder_begin_def new_decoder_def decode_op_def Let_def returned_def wop_defs)
  then obtain d' where "decoder_next via_db ?w (decoder_begin new_decoder) = Inr (PATH, d')" by blast
  from peek_next [OF this] show ?thesis by auto
qed

text \<open>
  What goes wrong after a virtual wire: the walk passes over it and finds the layer of the path before it.
  The point with junction id 6 is on layer 5, the layer of the virtual wire, and the walk returns layer 1.
\<close>

lemma virtual_wire_layer:
  "bindE (encode via_db [NewPath 1 WIRE_ROUTED None, AddPoint 10 20 0, NewPathVWire 2 5 WIRE_ROUTED None, AddPoint 0 0 0]
      (encoder_clear new_encoder)) (\<lambda>(evs, e). bindE (getPrevPoint via_db (wire_of e) 6 True) (\<lambda>p. Inr (last evs, wp_layer p)))
   = Inr ((EvPoint 6 0 0, 5), 1)"
  by code_simp

text \<open>
  The first point of a path with an extension: \<open>peek\<close> tells a point without one.
\<close>

lemma peek_first_extension:
  "bindE (encode via_db [NewPath 1 WIRE_ROUTED None, AddPointExt 10 20 5 0] (encoder_clear new_encoder)) (\<lambda>(evs, e).
     bindE (decoder_next via_db (wire_of e) (decoder_begin new_decoder)) (\<lambda>(op, d).
     bindE (decoder_next via_db (wire_of e) d) (\<lambda>(op', d'). Inr (op, peek (wire_of e) d, op'))))
   = Inr (PATH, POINT, POINT_EXT)"
  by code_simp

text \<open>
  The property of a point is written and never read: \<open>getProperty\<close> returns 0, whatever was given.
\<close>

lemma property_not_read:
  "bindE (encode via_db [NewPath 1 WIRE_ROUTED None, AddPoint 10 20 0, AddPoint 30 20 77] (encoder_clear new_encoder)) (\<lambda>(evs, e).
     bindE (decoder_next via_db (wire_of e) (decoder_begin new_decoder)) (\<lambda>(op, d).
     bindE (decoder_next via_db (wire_of e) d) (\<lambda>(op, d).
     bindE (decoder_next via_db (wire_of e) d) (\<lambda>(op, d). bindE (getProperty d) (\<lambda>p. Inr (e_data e, op, p))))))
   = Inr ([1, 10, 20, 30, 77], POINT, 0)"
  by code_simp

end
