(* ===== verification/Odb_Journal_Log.thy ===== *)
theory Odb_Journal_Log
  imports Prelude "HOL-Library.Word"
begin

section \<open>The log of the journal\<close>

text \<open>
  \<open>odb/src/db/dbJournalLog.cpp\<close> and \<open>dbJournalLog.h\<close>: a sequence of bytes to which values are appended
  and from which they are read back at a cursor. Every value is preceded by a byte with its type, since
  the source defines \<open>DEBUG_JOURNAL_LOG\<close>. Numbers of more than a byte are stored in the order of the
  machine, here with the least significant byte first; floating point numbers are their bit patterns. A
  C string is the list of its bytes, or None for the null pointer. The paged vector of the source is a
  list; an access beyond its end fails its \<open>ZASSERT\<close>, as does a wrong type (\<open>Abort\<close>).
\<close>

unbundle bit_operations_syntax

subsection \<open>Types of values\<close>

definition LOG_BOOL :: "8 word" where "LOG_BOOL = 0"
definition LOG_CHAR :: "8 word" where "LOG_CHAR = 1"
definition LOG_UCHAR :: "8 word" where "LOG_UCHAR = 2"
definition LOG_INT :: "8 word" where "LOG_INT = 3"
definition LOG_UINT :: "8 word" where "LOG_UINT = 4"
definition LOG_FLOAT :: "8 word" where "LOG_FLOAT = 5"
definition LOG_DOUBLE :: "8 word" where "LOG_DOUBLE = 6"
definition LOG_STRING :: "8 word" where "LOG_STRING = 7"

lemmas log_type_defs = LOG_BOOL_def LOG_CHAR_def LOG_UCHAR_def LOG_INT_def LOG_UINT_def LOG_FLOAT_def LOG_DOUBLE_def LOG_STRING_def

record dbJournalLog =
  log_data :: "8 word list"
  log_idx :: nat

subsection \<open>Bytes of a number\<close>

definition word_bytes :: "nat \<Rightarrow> 'a::len word \<Rightarrow> 8 word list" where
  "word_bytes n w = map (\<lambda>k. ucast (drop_bit (8 * k) w)) [0..<n]"

definition bytes_word :: "8 word list \<Rightarrow> 'a::len word" where
  "bytes_word bs = foldr (\<lambda>b w. ucast b OR push_bit 8 w) bs 0"

lemma length_word_bytes [simp]: "length (word_bytes n w) = n"
  by (simp add: word_bytes_def)

subsection \<open>Writing\<close>

definition set_type :: "8 word \<Rightarrow> dbJournalLog \<Rightarrow> dbJournalLog" where
  "set_type t l = l\<lparr>log_data := log_data l @ [t]\<rparr>"

definition push_bytes :: "8 word list \<Rightarrow> dbJournalLog \<Rightarrow> dbJournalLog" where
  "push_bytes bs l = l\<lparr>log_data := log_data l @ bs\<rparr>"

definition push_bool :: "bool \<Rightarrow> dbJournalLog \<Rightarrow> dbJournalLog" where
  "push_bool v l = push_bytes [if v then 1 else 0] (set_type LOG_BOOL l)"

definition push_char :: "8 word \<Rightarrow> dbJournalLog \<Rightarrow> dbJournalLog" where
  "push_char v l = push_bytes [v] (set_type LOG_CHAR l)"

definition push_uchar :: "8 word \<Rightarrow> dbJournalLog \<Rightarrow> dbJournalLog" where
  "push_uchar v l = push_bytes [v] (set_type LOG_UCHAR l)"

definition push_int :: "32 word \<Rightarrow> dbJournalLog \<Rightarrow> dbJournalLog" where
  "push_int v l = push_bytes (word_bytes 4 v) (set_type LOG_INT l)"

definition push_uint :: "32 word \<Rightarrow> dbJournalLog \<Rightarrow> dbJournalLog" where
  "push_uint v l = push_bytes (word_bytes 4 v) (set_type LOG_UINT l)"

definition push_float :: "32 word \<Rightarrow> dbJournalLog \<Rightarrow> dbJournalLog" where
  "push_float v l = push_bytes (word_bytes 4 v) (set_type LOG_FLOAT l)"

definition push_double :: "64 word \<Rightarrow> dbJournalLog \<Rightarrow> dbJournalLog" where
  "push_double v l = push_bytes (word_bytes 8 v) (set_type LOG_DOUBLE l)"

definition push_string :: "8 word list option \<Rightarrow> dbJournalLog \<Rightarrow> dbJournalLog" where
  "push_string v l =
     (let l = set_type LOG_STRING l in
      case v of None \<Rightarrow> push_int (-1) l
      | Some s \<Rightarrow> push_bytes s (push_int (of_nat (length s)) l))"

subsection \<open>Reading\<close>

definition log_next :: "dbJournalLog \<Rightarrow> (8 word \<times> dbJournalLog) result" where
  "log_next l =
     (if log_idx l < length (log_data l) then Inr (log_data l ! log_idx l, l\<lparr>log_idx := log_idx l + 1\<rparr>) else Inl Abort)"

definition check_type :: "8 word \<Rightarrow> dbJournalLog \<Rightarrow> dbJournalLog result" where
  "check_type t l = bindE (log_next l) (\<lambda>(t', l). if t' = t then Inr l else Inl Abort)"

fun next_bytes :: "nat \<Rightarrow> dbJournalLog \<Rightarrow> (8 word list \<times> dbJournalLog) result" where
  "next_bytes 0 l = Inr ([], l)"
| "next_bytes (Suc n) l = bindE (log_next l) (\<lambda>(b, l). bindE (next_bytes n l) (\<lambda>(bs, l). Inr (b # bs, l)))"

definition pop_bool :: "dbJournalLog \<Rightarrow> (bool \<times> dbJournalLog) result" where
  "pop_bool l = bindE (check_type LOG_BOOL l) (\<lambda>l. bindE (log_next l) (\<lambda>(b, l). Inr (b = 1, l)))"

definition pop_char :: "dbJournalLog \<Rightarrow> (8 word \<times> dbJournalLog) result" where
  "pop_char l = bindE (check_type LOG_CHAR l) log_next"

definition pop_uchar :: "dbJournalLog \<Rightarrow> (8 word \<times> dbJournalLog) result" where
  "pop_uchar l = bindE (check_type LOG_UCHAR l) log_next"

definition pop_int :: "dbJournalLog \<Rightarrow> (32 word \<times> dbJournalLog) result" where
  "pop_int l = bindE (check_type LOG_INT l) (\<lambda>l. bindE (next_bytes 4 l) (\<lambda>(bs, l). Inr (bytes_word bs, l)))"

definition pop_uint :: "dbJournalLog \<Rightarrow> (32 word \<times> dbJournalLog) result" where
  "pop_uint l = bindE (check_type LOG_UINT l) (\<lambda>l. bindE (next_bytes 4 l) (\<lambda>(bs, l). Inr (bytes_word bs, l)))"

definition pop_float :: "dbJournalLog \<Rightarrow> (32 word \<times> dbJournalLog) result" where
  "pop_float l = bindE (check_type LOG_FLOAT l) (\<lambda>l. bindE (next_bytes 4 l) (\<lambda>(bs, l). Inr (bytes_word bs, l)))"

definition pop_double :: "dbJournalLog \<Rightarrow> (64 word \<times> dbJournalLog) result" where
  "pop_double l = bindE (check_type LOG_DOUBLE l) (\<lambda>l. bindE (next_bytes 8 l) (\<lambda>(bs, l). Inr (bytes_word bs, l)))"

definition pop_cstring :: "dbJournalLog \<Rightarrow> (8 word list option \<times> dbJournalLog) result" where
  "pop_cstring l =
     bindE (check_type LOG_STRING l) (\<lambda>l. bindE (pop_int l) (\<lambda>(len, l).
       if len = -1 then Inr (None, l)
       else bindE (next_bytes (nat (sint len)) l) (\<lambda>(s, l). Inr (Some s, l))))"

definition pop_string :: "dbJournalLog \<Rightarrow> (8 word list \<times> dbJournalLog) result" where
  "pop_string l =
     bindE (check_type LOG_STRING l) (\<lambda>l. bindE (pop_int l) (\<lambda>(len, l).
       if len = -1 then Inr ([], l) else next_bytes (nat (sint len)) l))"

subsection \<open>Whole log\<close>

definition log_clear :: "dbJournalLog \<Rightarrow> dbJournalLog" where
  "log_clear l = \<lparr>log_data = [], log_idx = 0\<rparr>"

definition log_empty :: "dbJournalLog \<Rightarrow> bool" where
  "log_empty l \<longleftrightarrow> length (log_data l) = 0"

definition log_size :: "dbJournalLog \<Rightarrow> 32 word" where
  "log_size l = of_nat (length (log_data l))"

definition log_begin :: "dbJournalLog \<Rightarrow> dbJournalLog" where
  "log_begin l = l\<lparr>log_idx := 0\<rparr>"

definition log_end :: "dbJournalLog \<Rightarrow> bool" where
  "log_end l \<longleftrightarrow> log_idx l = length (log_data l)"

definition log_set :: "32 word \<Rightarrow> dbJournalLog \<Rightarrow> dbJournalLog" where
  "log_set i l = l\<lparr>log_idx := unat i\<rparr>"

subsection \<open>Values\<close>

text \<open>The overloads of \<open>push\<close> by the type of the argument, as the journal passes its parameters.\<close>

datatype jvalue =
    JBool bool
  | JChar "8 word"
  | JUChar "8 word"
  | JInt "32 word"
  | JUInt "32 word"
  | JFloat "32 word"
  | JDouble "64 word"
  | JString "8 word list option"

fun push :: "jvalue \<Rightarrow> dbJournalLog \<Rightarrow> dbJournalLog" where
  "push (JBool v) = push_bool v"
| "push (JChar v) = push_char v"
| "push (JUChar v) = push_uchar v"
| "push (JInt v) = push_int v"
| "push (JUInt v) = push_uint v"
| "push (JFloat v) = push_float v"
| "push (JDouble v) = push_double v"
| "push (JString v) = push_string v"

end
