(* ===== verification/Odb_Journal_Facts.thy ===== *)
theory Odb_Journal_Facts
  imports Odb_Journal_Log
begin

section \<open>Reading back what was written\<close>

text \<open>
  The bytes of a value (\<open>value_bytes\<close>), the reading of a byte sequence at the cursor (\<open>reads_as\<close>) with a rule for
  each \<open>pop\<close>, and the progress of the cursor (\<open>forward\<close>).
\<close>

unbundle bit_operations_syntax

subsection \<open>Numbers\<close>

lemma bit_bytes_word:
  "n < LENGTH('a) \<Longrightarrow> bit (bytes_word bs :: 'a::len word) n \<longleftrightarrow> n div 8 < length bs \<and> bit (bs ! (n div 8)) (n mod 8)"
proof (induction bs arbitrary: n)
  case Nil
  then show ?case by (simp add: bytes_word_def)
next
  case (Cons b bs)
  have c: "bytes_word (b # bs) = (ucast b OR push_bit 8 (bytes_word bs) :: 'a word)" by (simp add: bytes_word_def)
  show ?case
  proof (cases "n < 8")
    case True
    then show ?thesis using Cons.prems by (simp add: c bit_simps)
  next
    case False
    then have "\<not> bit b n" using bit_imp_le_length [of b n] by auto
    moreover have "bit (bytes_word bs :: 'a word) (n - 8) \<longleftrightarrow> (n - 8) div 8 < length bs \<and> bit (bs ! ((n - 8) div 8)) ((n - 8) mod 8)"
      using Cons.prems by (intro Cons.IH) simp
    moreover have "n div 8 = Suc ((n - 8) div 8)" "(n - 8) mod 8 = n mod 8" using False by (simp_all add: le_div_geq le_mod_geq)
    ultimately show ?thesis using False Cons.prems by (simp add: c bit_simps)
  qed
qed

lemma word_bytes_inverse:
  "LENGTH('a) = 8 * n \<Longrightarrow> bytes_word (word_bytes n (w :: 'a::len word)) = w"
proof (rule bit_word_eqI)
  fix k assume l: "LENGTH('a) = 8 * n" "k < LENGTH('a)"
  then have k: "k div 8 < n" by (simp add: less_mult_imp_div_less mult.commute)
  have "bit (bytes_word (word_bytes n w) :: 'a word) k \<longleftrightarrow> bit (ucast (drop_bit (8 * (k div 8)) w) :: 8 word) (k mod 8)"
    using k l by (simp add: bit_bytes_word word_bytes_def)
  also have "\<dots> \<longleftrightarrow> bit w k" by (simp add: bit_simps)
  finally show "bit (bytes_word (word_bytes n w) :: 'a word) k \<longleftrightarrow> bit w k" .
qed

subsection \<open>The bytes of a value\<close>

fun value_bytes :: "jvalue \<Rightarrow> 8 word list" where
  "value_bytes (JBool v) = [LOG_BOOL, if v then 1 else 0]"
| "value_bytes (JChar v) = [LOG_CHAR, v]"
| "value_bytes (JUChar v) = [LOG_UCHAR, v]"
| "value_bytes (JInt v) = LOG_INT # word_bytes 4 v"
| "value_bytes (JUInt v) = LOG_UINT # word_bytes 4 v"
| "value_bytes (JFloat v) = LOG_FLOAT # word_bytes 4 v"
| "value_bytes (JDouble v) = LOG_DOUBLE # word_bytes 8 v"
| "value_bytes (JString v) = LOG_STRING # LOG_INT #
     (case v of None \<Rightarrow> word_bytes 4 (-1 :: 32 word) | Some s \<Rightarrow> word_bytes 4 (of_nat (length s) :: 32 word) @ s)"

lemmas push_defs = push_bytes_def set_type_def push_bool_def push_char_def push_uchar_def push_int_def push_uint_def push_float_def
  push_double_def push_string_def

lemma push_data: "push v l = l\<lparr>log_data := log_data l @ value_bytes v\<rparr>"
  by (cases v) (simp_all add: push_defs Let_def split: option.split)

lemma push_many: "fold push vs l = l\<lparr>log_data := log_data l @ concat (map value_bytes vs)\<rparr>"
  by (induction vs arbitrary: l) (simp_all add: push_data)

subsection \<open>Sequences of reads\<close>

definition bindP :: "(dbJournalLog \<Rightarrow> ('a \<times> dbJournalLog) result) \<Rightarrow> ('a \<Rightarrow> dbJournalLog \<Rightarrow> ('b \<times> dbJournalLog) result)
    \<Rightarrow> dbJournalLog \<Rightarrow> ('b \<times> dbJournalLog) result" where
  "bindP p f l = bindE (p l) (\<lambda>(v, l). f v l)"

definition retP :: "'a \<Rightarrow> dbJournalLog \<Rightarrow> ('a \<times> dbJournalLog) result" where
  "retP v l = Inr (v, l)"

definition reads_as :: "(dbJournalLog \<Rightarrow> ('a \<times> dbJournalLog) result) \<Rightarrow> 8 word list \<Rightarrow> 'a \<Rightarrow> bool" where
  \<comment> \<open>at these bytes the reader returns this value and moves behind them\<close>
  "reads_as p bs v \<longleftrightarrow> (\<forall>l rest. drop (log_idx l) (log_data l) = bs @ rest
     \<longrightarrow> p l = Inr (v, l\<lparr>log_idx := log_idx l + length bs\<rparr>))"

lemma reads_asI:
  "(\<And>(l :: dbJournalLog) rest. drop (log_idx l) (log_data l) = bs @ rest \<Longrightarrow> p l = Inr (v, l\<lparr>log_idx := log_idx l + length bs\<rparr>)) \<Longrightarrow> reads_as p bs v"
  by (simp add: reads_as_def)

lemma reads_asD:
  "reads_as p bs v \<Longrightarrow> drop (log_idx l) (log_data l) = bs @ rest \<Longrightarrow> p l = Inr (v, l\<lparr>log_idx := log_idx l + length bs\<rparr>)"
  by (auto simp: reads_as_def)

lemma reads_ret: "reads_as (retP v) [] v"
  by (simp add: reads_as_def retP_def)

lemma drop_later: "drop i d = bs @ rest \<Longrightarrow> drop (i + length bs) d = rest"
  by (metis add.commute append_eq_conv_conj drop_drop)

lemma reads_bind:
  assumes "reads_as p bs v" "reads_as (f v) bs' r"
  shows "reads_as (bindP p f) (bs @ bs') r"
proof (rule reads_asI)
  fix l :: dbJournalLog and rest assume d: "drop (log_idx l) (log_data l) = (bs @ bs') @ rest"
  then have "p l = Inr (v, l\<lparr>log_idx := log_idx l + length bs\<rparr>)" by (intro reads_asD [OF assms(1)]) simp
  moreover have "drop (log_idx l + length bs) (log_data l) = bs' @ rest" using d by (intro drop_later) simp
  then have "f v (l\<lparr>log_idx := log_idx l + length bs\<rparr>) = Inr (r, l\<lparr>log_idx := log_idx l + length (bs @ bs')\<rparr>)"
    using reads_asD [OF assms(2), of "l\<lparr>log_idx := log_idx l + length bs\<rparr>" rest] by simp
  ultimately show "bindP p f l = Inr (r, l\<lparr>log_idx := log_idx l + length (bs @ bs')\<rparr>)" by (simp add: bindP_def)
qed

lemma next_at_drop:
  assumes "drop (log_idx l) (log_data l) = b # rest"
  shows "log_next l = Inr (b, l\<lparr>log_idx := log_idx l + 1\<rparr>)"
proof -
  have "log_idx l < length (log_data l)" using assms by (cases "log_idx l < length (log_data l)") auto
  moreover have "log_data l ! log_idx l = b" using assms calculation by (simp add: Cons_nth_drop_Suc [symmetric])
  ultimately show ?thesis by (simp add: log_next_def)
qed

lemma next_bytes_at: "drop (log_idx l) (log_data l) = bs @ rest \<Longrightarrow> next_bytes (length bs) l = Inr (bs, l\<lparr>log_idx := log_idx l + length bs\<rparr>)"
proof (induction bs arbitrary: l)
  case (Cons b bs)
  have n: "log_next l = Inr (b, l\<lparr>log_idx := log_idx l + 1\<rparr>)" using Cons.prems by (intro next_at_drop) simp
  have "drop (log_idx l + 1) (log_data l) = bs @ rest" using drop_later [of "log_idx l" "log_data l" "[b]"] Cons.prems by simp
  then show ?case using n Cons.IH [of "l\<lparr>log_idx := log_idx l + 1\<rparr>"] by simp
qed simp

lemma check_at:
  "drop (log_idx l) (log_data l) = b # rest \<Longrightarrow> check_type t l = (if b = t then Inr (l\<lparr>log_idx := log_idx l + 1\<rparr>) else Inl Abort)"
  by (simp add: check_type_def next_at_drop)

lemma drop_tl: "drop i d = b # rest \<Longrightarrow> drop (Suc i) d = rest"
  by (metis drop_Suc list.sel(3) tl_drop)

lemma read_word4:
  assumes "drop (log_idx l) (log_data l) = t # word_bytes 4 (v :: 32 word) @ rest"
  shows "bindE (check_type t l) (\<lambda>l. bindE (next_bytes 4 l) (\<lambda>(bs, l). Inr (bytes_word bs :: 32 word, l)))
    = Inr (v, l\<lparr>log_idx := log_idx l + 5\<rparr>)"
proof -
  have "next_bytes 4 (l\<lparr>log_idx := log_idx l + 1\<rparr>) = Inr (word_bytes 4 v, l\<lparr>log_idx := log_idx l + 5\<rparr>)"
    using drop_tl [OF assms] next_bytes_at [of "l\<lparr>log_idx := log_idx l + 1\<rparr>" "word_bytes 4 v" rest] by (simp del: next_bytes.simps)
  then show ?thesis using check_at [OF assms] by (simp add: word_bytes_inverse del: next_bytes.simps)
qed

lemma read_word8:
  assumes "drop (log_idx l) (log_data l) = t # word_bytes 8 (v :: 64 word) @ rest"
  shows "bindE (check_type t l) (\<lambda>l. bindE (next_bytes 8 l) (\<lambda>(bs, l). Inr (bytes_word bs :: 64 word, l)))
    = Inr (v, l\<lparr>log_idx := log_idx l + 9\<rparr>)"
proof -
  have "next_bytes 8 (l\<lparr>log_idx := log_idx l + 1\<rparr>) = Inr (word_bytes 8 v, l\<lparr>log_idx := log_idx l + 9\<rparr>)"
    using drop_tl [OF assms] next_bytes_at [of "l\<lparr>log_idx := log_idx l + 1\<rparr>" "word_bytes 8 v" rest] by (simp del: next_bytes.simps)
  then show ?thesis using check_at [OF assms] by (simp add: word_bytes_inverse del: next_bytes.simps)
qed

text \<open>What is read at a value that was pushed.\<close>

lemma reads_bool: "reads_as pop_bool (value_bytes (JBool v)) v"
  by (rule reads_asI) (simp add: pop_bool_def check_at drop_tl next_at_drop)

lemma reads_char: "reads_as pop_char (value_bytes (JChar v)) v"
  by (rule reads_asI) (simp add: pop_char_def check_at drop_tl next_at_drop)

lemma reads_uchar: "reads_as pop_uchar (value_bytes (JUChar v)) v"
  by (rule reads_asI) (simp add: pop_uchar_def check_at drop_tl next_at_drop)

lemma reads_int: "reads_as pop_int (value_bytes (JInt v)) v"
  by (rule reads_asI) (simp add: pop_int_def read_word4)

lemma reads_uint: "reads_as pop_uint (value_bytes (JUInt v)) v"
  by (rule reads_asI) (simp add: pop_uint_def read_word4)

lemma reads_float: "reads_as pop_float (value_bytes (JFloat v)) v"
  by (rule reads_asI) (simp add: pop_float_def read_word4)

lemma reads_double: "reads_as pop_double (value_bytes (JDouble v)) v"
  by (rule reads_asI) (simp add: pop_double_def read_word8)

definition string_ok :: "8 word list \<Rightarrow> bool" where
  \<comment> \<open>the length is an \<open>int\<close>\<close>
  "string_ok s \<longleftrightarrow> length s < 2 ^ 31"

lemma string_len: "string_ok s \<Longrightarrow> (of_nat (length s) :: 32 word) \<noteq> -1 \<and> nat (sint (of_nat (length s) :: 32 word)) = length s"
proof -
  assume "string_ok s"
  then have "int (length s) < 2 ^ 31" by (simp add: string_ok_def)
  then have "sint (of_nat (length s) :: 32 word) = int (length s)"
    by (simp add: signed_of_nat signed_take_bit_int_eq_self)
  moreover from this have "(of_nat (length s) :: 32 word) \<noteq> -1" by auto
  ultimately show ?thesis by simp
qed

lemma read_length:
  assumes "drop (log_idx l) (log_data l) = LOG_STRING # LOG_INT # word_bytes 4 (v :: 32 word) @ rest"
  shows "bindE (check_type LOG_STRING l) pop_int = Inr (v, l\<lparr>log_idx := log_idx l + 6\<rparr>)"
    "drop (log_idx l + 6) (log_data l) = rest"
proof -
  have d: "drop (Suc (log_idx l)) (log_data l) = LOG_INT # word_bytes 4 v @ rest" by (rule drop_tl [OF assms])
  have "pop_int (l\<lparr>log_idx := Suc (log_idx l)\<rparr>) = Inr (v, l\<lparr>log_idx := log_idx l + 6\<rparr>)"
    unfolding pop_int_def using read_word4 [of "l\<lparr>log_idx := Suc (log_idx l)\<rparr>" LOG_INT v rest] d by simp
  then show "bindE (check_type LOG_STRING l) pop_int = Inr (v, l\<lparr>log_idx := log_idx l + 6\<rparr>)"
    using check_at [OF assms] by simp
  show "drop (log_idx l + 6) (log_data l) = rest"
    using drop_later [of "log_idx l" "log_data l" "LOG_STRING # LOG_INT # word_bytes 4 v" rest] assms by (simp add: numeral_eq_Suc)
qed

lemma bindE_assoc: "bindE (bindE m f) g = bindE m (\<lambda>x. bindE (f x) g)"
  by (cases m) simp_all

lemma reads_string: "(\<And>s. v = Some s \<Longrightarrow> string_ok s) \<Longrightarrow> reads_as pop_string (value_bytes (JString v)) (case v of None \<Rightarrow> [] | Some s \<Rightarrow> s)"
proof (rule reads_asI)
  fix l :: dbJournalLog and rest
  assume ok: "\<And>s. v = Some s \<Longrightarrow> string_ok s" and d: "drop (log_idx l) (log_data l) = value_bytes (JString v) @ rest"
  have pop: "pop_string l = bindE (bindE (check_type LOG_STRING l) pop_int) (\<lambda>(len, l).
       if len = -1 then Inr ([], l) else next_bytes (nat (sint len)) l)" by (simp add: pop_string_def bindE_assoc)
  show "pop_string l = Inr (case v of None \<Rightarrow> [] | Some s \<Rightarrow> s, l\<lparr>log_idx := log_idx l + length (value_bytes (JString v))\<rparr>)"
  proof (cases v)
    case None
    then show ?thesis using read_length(1) [of l "-1" rest] d by (simp add: pop)
  next
    case (Some s)
    let ?n = "of_nat (length s) :: 32 word"
    have d': "drop (log_idx l) (log_data l) = LOG_STRING # LOG_INT # word_bytes 4 ?n @ s @ rest" using d Some by simp
    note len = string_len [OF ok [OF Some]]
    show ?thesis
      using next_bytes_at [of "l\<lparr>log_idx := log_idx l + 6\<rparr>" s rest] read_length [OF d'] len Some
      by (simp add: pop add.assoc)
  qed
qed

lemma reads_cstring: "(\<And>s. v = Some s \<Longrightarrow> string_ok s) \<Longrightarrow> reads_as pop_cstring (value_bytes (JString v)) v"
proof (rule reads_asI)
  fix l :: dbJournalLog and rest
  assume ok: "\<And>s. v = Some s \<Longrightarrow> string_ok s" and d: "drop (log_idx l) (log_data l) = value_bytes (JString v) @ rest"
  have pop: "pop_cstring l = bindE (bindE (check_type LOG_STRING l) pop_int) (\<lambda>(len, l).
       if len = -1 then Inr (None, l) else bindE (next_bytes (nat (sint len)) l) (\<lambda>(s, l). Inr (Some s, l)))"
    by (simp add: pop_cstring_def bindE_assoc)
  show "pop_cstring l = Inr (v, l\<lparr>log_idx := log_idx l + length (value_bytes (JString v))\<rparr>)"
  proof (cases v)
    case None
    then show ?thesis using read_length(1) [of l "-1" rest] d by (simp add: pop)
  next
    case (Some s)
    let ?n = "of_nat (length s) :: 32 word"
    have d': "drop (log_idx l) (log_data l) = LOG_STRING # LOG_INT # word_bytes 4 ?n @ s @ rest" using d Some by simp
    note len = string_len [OF ok [OF Some]]
    show ?thesis
      using next_bytes_at [of "l\<lparr>log_idx := log_idx l + 6\<rparr>" s rest] read_length [OF d'] len Some
      by (simp add: pop add.assoc)
  qed
qed

subsection \<open>The cursor\<close>

definition forward :: "(dbJournalLog \<Rightarrow> ('a \<times> dbJournalLog) result) \<Rightarrow> bool" where
  \<comment> \<open>a reader leaves the bytes alone and never moves back\<close>
  "forward p \<longleftrightarrow> (\<forall>l v l'. p l = Inr (v, l') \<longrightarrow> log_data l' = log_data l \<and> log_idx l \<le> log_idx l')"

named_theorems forward_rules "readers that only move forward"

lemma forwardI:
  "(\<And>l v l'. p l = Inr (v, l') \<Longrightarrow> log_data l' = log_data l \<and> log_idx l \<le> log_idx l') \<Longrightarrow> forward p"
  by (simp add: forward_def)

lemma forwardD: "forward p \<Longrightarrow> p l = Inr (v, l') \<Longrightarrow> log_data l' = log_data l \<and> log_idx l \<le> log_idx l'"
  by (simp add: forward_def)

lemma forward_next: "forward log_next"
  by (rule forwardI) (auto simp: log_next_def split: if_splits)

lemma forward_check: "check_type t l = Inr l' \<Longrightarrow> log_data l' = log_data l \<and> log_idx l \<le> log_idx l'"
  by (auto simp: check_type_def split: if_splits dest!: forwardD [OF forward_next])

lemma forward_next_bytes: "forward (next_bytes n)"
proof (rule forwardI)
  show "next_bytes n l = Inr (v, l') \<Longrightarrow> log_data l' = log_data l \<and> log_idx l \<le> log_idx l'" for l v l'
    by (induction n arbitrary: l v l') (fastforce dest: forwardD [OF forward_next])+
qed

lemma forward_typed: "forward p \<Longrightarrow> forward (\<lambda>l. bindE (check_type t l) p)"
proof (rule forwardI)
  fix l v l' assume p: "forward p" and r: "bindE (check_type t l) p = Inr (v, l')"
  then obtain l1 where "check_type t l = Inr l1" "p l1 = Inr (v, l')" by auto
  then show "log_data l' = log_data l \<and> log_idx l \<le> log_idx l'" using forward_check forwardD [OF p] by fastforce
qed

lemma forward_mapped: "forward p \<Longrightarrow> forward (\<lambda>l. bindE (p l) (\<lambda>(v, l). Inr (f v, l)))"
  by (rule forwardI) (auto dest!: forwardD)

lemma forward_pops [forward_rules]:
  "forward pop_bool" "forward pop_char" "forward pop_uchar" "forward pop_int" "forward pop_uint" "forward pop_float" "forward pop_double"
proof -
  show "forward pop_bool" unfolding pop_bool_def [abs_def] by (intro forward_typed forward_mapped forward_next)
  show "forward pop_char" unfolding pop_char_def [abs_def] by (intro forward_typed forward_next)
  show "forward pop_uchar" unfolding pop_uchar_def [abs_def] by (intro forward_typed forward_next)
  show "forward pop_int" unfolding pop_int_def [abs_def] by (intro forward_typed forward_mapped forward_next_bytes)
  show "forward pop_uint" unfolding pop_uint_def [abs_def] by (intro forward_typed forward_mapped forward_next_bytes)
  show "forward pop_float" unfolding pop_float_def [abs_def] by (intro forward_typed forward_mapped forward_next_bytes)
  show "forward pop_double" unfolding pop_double_def [abs_def] by (intro forward_typed forward_mapped forward_next_bytes)
qed

lemma forward_pop_string [forward_rules]: "forward pop_string"
proof (rule forwardI)
  fix l v l' assume "pop_string l = Inr (v, l')"
  then obtain l1 len l2 where r: "check_type LOG_STRING l = Inr l1" "pop_int l1 = Inr (len, l2)"
    "(if len = -1 then Inr ([], l2) else next_bytes (nat (sint len)) l2) = Inr (v, l')" by (auto simp: pop_string_def)
  have "log_data l' = log_data l2 \<and> log_idx l2 \<le> log_idx l'"
    using r(3) forwardD [OF forward_next_bytes] by (auto split: if_splits)
  then show "log_data l' = log_data l \<and> log_idx l \<le> log_idx l'"
    using forward_check [OF r(1)] forwardD [OF forward_pops(4) r(2)] by simp
qed

lemma forward_bind [forward_rules]: "forward p \<Longrightarrow> (\<And>v. forward (f v)) \<Longrightarrow> forward (bindP p f)"
proof (rule forwardI)
  fix l v l' assume f: "forward p" "\<And>v. forward (f v)" and r: "bindP p f l = Inr (v, l')"
  then obtain a l1 where "p l = Inr (a, l1)" "f a l1 = Inr (v, l')" by (auto simp: bindP_def)
  then show "log_data l' = log_data l \<and> log_idx l \<le> log_idx l'" using forwardD [OF f(1)] forwardD [OF f(2)] by fastforce
qed

lemma forward_ret [forward_rules]: "forward (retP v)"
  by (rule forwardI) (simp add: retP_def)

lemma forward_fail [forward_rules]: "forward (\<lambda>l. Inl f)"
  by (rule forwardI) simp

lemma forward_if [forward_rules]: "forward p \<Longrightarrow> forward q \<Longrightarrow> forward (if b then p else q)"
  by simp

end
