(* ===== verification/Odb_Journal.thy ===== *)
theory Odb_Journal
  imports Odb_Journal_Facts
begin

section \<open>The journal of changes\<close>

text \<open>
  \<open>odb/src/db/dbJournal.cpp\<close> and the places that write to it: while a block has a journal, each change
  of the design appends an action with its parameters (\<open>dbNet.cpp\<close>, \<open>dbInst.cpp\<close>, \<open>dbITerm.cpp\<close>,
  \<open>dbBTerm.cpp\<close>, \<open>dbRSeg.cpp\<close>, \<open>dbCapNode.cpp\<close>, \<open>dbCCSeg.cpp\<close>, \<open>dbBlock.cpp\<close>), and \<open>redo\<close> reads the actions
  and makes the same changes again. The model of \<open>redo\<close> is the list of the changes that it makes
  (\<open>change\<close>), with the objects given by their ids. Flags are the bits of the flag word, floating point
  numbers their bit patterns. Writers under \<open>FULL_ECO\<close>, which is not defined, and timing actions under
  \<open>TMG_SI\<close> do not exist.
\<close>

subsection \<open>Codes\<close>

definition CREATE_OBJECT :: "8 word" where "CREATE_OBJECT = 0"
definition DELETE_OBJECT :: "8 word" where "DELETE_OBJECT = 1"
definition CONNECT_OBJECT :: "8 word" where "CONNECT_OBJECT = 2"
definition DISCONNECT_OBJECT :: "8 word" where "DISCONNECT_OBJECT = 3"
definition SWAP_OBJECT :: "8 word" where "SWAP_OBJECT = 4"
definition UPDATE_FIELD :: "8 word" where "UPDATE_FIELD = 5"
definition END_ACTION :: "8 word" where "END_ACTION = 6"

lemmas action_defs = CREATE_OBJECT_def DELETE_OBJECT_def CONNECT_OBJECT_def DISCONNECT_OBJECT_def SWAP_OBJECT_def
  UPDATE_FIELD_def END_ACTION_def

definition dbBlockObj :: "32 word" where "dbBlockObj = 2"
definition dbInstObj :: "32 word" where "dbInstObj = 4"
definition dbNetObj :: "32 word" where "dbNetObj = 5"
definition dbBTermObj :: "32 word" where "dbBTermObj = 6"
definition dbITermObj :: "32 word" where "dbITermObj = 7"
definition dbCapNodeObj :: "32 word" where "dbCapNodeObj = 16"
definition dbRSegObj :: "32 word" where "dbRSegObj = 17"
definition dbCCSegObj :: "32 word" where "dbCCSegObj = 18"
definition dbTechNonDefaultRuleObj :: "32 word" where "dbTechNonDefaultRuleObj = 50"

lemmas object_defs = dbBlockObj_def dbInstObj_def dbNetObj_def dbBTermObj_def dbITermObj_def dbCapNodeObj_def dbRSegObj_def
  dbCCSegObj_def dbTechNonDefaultRuleObj_def

text \<open>The fields of each class, in the order of its enumeration.\<close>

definition BLOCK_CORNERCOUNT :: "32 word" where "BLOCK_CORNERCOUNT = 0"
definition BLOCK_WRITEDB :: "32 word" where "BLOCK_WRITEDB = 1"
definition NET_FLAGS :: "32 word" where "NET_FLAGS = 0"
definition NET_NON_DEFAULT_RULE :: "32 word" where "NET_NON_DEFAULT_RULE = 1"
definition NET_TERM_EXTID :: "32 word" where "NET_TERM_EXTID = 2"
definition NET_HEAD_CAPNODE :: "32 word" where "NET_HEAD_CAPNODE = 3"
definition NET_HEAD_RSEG :: "32 word" where "NET_HEAD_RSEG = 4"
definition NET_REVERSE_RSEG :: "32 word" where "NET_REVERSE_RSEG = 5"
definition INST_FLAGS :: "32 word" where "INST_FLAGS = 0"
definition INST_ORIGIN :: "32 word" where "INST_ORIGIN = 1"
definition BTERM_FLAGS :: "32 word" where "BTERM_FLAGS = 0"
definition ITERM_FLAGS :: "32 word" where "ITERM_FLAGS = 0"
definition RSEG_FLAGS :: "32 word" where "RSEG_FLAGS = 0"
definition RSEG_SOURCE :: "32 word" where "RSEG_SOURCE = 1"
definition RSEG_TARGET :: "32 word" where "RSEG_TARGET = 2"
definition RSEG_RESISTANCE :: "32 word" where "RSEG_RESISTANCE = 3"
definition RSEG_CAPACITANCE :: "32 word" where "RSEG_CAPACITANCE = 4"
definition RSEG_COORDINATES :: "32 word" where "RSEG_COORDINATES = 5"
definition RSEG_ADDRSEGCAPACITANCE :: "32 word" where "RSEG_ADDRSEGCAPACITANCE = 6"
definition RSEG_ADDRSEGRESISTANCE :: "32 word" where "RSEG_ADDRSEGRESISTANCE = 7"
definition CAPNODE_FLAGS :: "32 word" where "CAPNODE_FLAGS = 0"
definition CAPNODE_NODE_NUM :: "32 word" where "CAPNODE_NODE_NUM = 1"
definition CAPNODE_CAPACITANCE :: "32 word" where "CAPNODE_CAPACITANCE = 2"
definition CAPNODE_ADDCAPNCAPACITANCE :: "32 word" where "CAPNODE_ADDCAPNCAPACITANCE = 3"
definition CAPNODE_SETNET :: "32 word" where "CAPNODE_SETNET = 4"
definition CAPNODE_SETNEXT :: "32 word" where "CAPNODE_SETNEXT = 5"
definition CCSEG_FLAGS :: "32 word" where "CCSEG_FLAGS = 0"
definition CCSEG_CAPACITANCE :: "32 word" where "CCSEG_CAPACITANCE = 1"
definition CCSEG_ADDCCCAPACITANCE :: "32 word" where "CCSEG_ADDCCCAPACITANCE = 2"
definition CCSEG_SWAPCAPNODE :: "32 word" where "CCSEG_SWAPCAPNODE = 3"
definition CCSEG_LINKCCSEG :: "32 word" where "CCSEG_LINKCCSEG = 4"
definition CCSEG_UNLINKCCSEG :: "32 word" where "CCSEG_UNLINKCCSEG = 5"
definition CCSEG_SETALLCCCAP :: "32 word" where "CCSEG_SETALLCCCAP = 6"

lemmas field_defs = BLOCK_CORNERCOUNT_def BLOCK_WRITEDB_def NET_FLAGS_def NET_NON_DEFAULT_RULE_def NET_TERM_EXTID_def
  NET_HEAD_CAPNODE_def NET_HEAD_RSEG_def NET_REVERSE_RSEG_def INST_FLAGS_def INST_ORIGIN_def BTERM_FLAGS_def ITERM_FLAGS_def
  RSEG_FLAGS_def RSEG_SOURCE_def RSEG_TARGET_def RSEG_RESISTANCE_def RSEG_CAPACITANCE_def RSEG_COORDINATES_def
  RSEG_ADDRSEGCAPACITANCE_def RSEG_ADDRSEGRESISTANCE_def CAPNODE_FLAGS_def CAPNODE_NODE_NUM_def CAPNODE_CAPACITANCE_def
  CAPNODE_ADDCAPNCAPACITANCE_def CAPNODE_SETNET_def CAPNODE_SETNEXT_def CCSEG_FLAGS_def CCSEG_CAPACITANCE_def
  CCSEG_ADDCCCAPACITANCE_def CCSEG_SWAPCAPNODE_def CCSEG_LINKCCSEG_def CCSEG_UNLINKCCSEG_def CCSEG_SETALLCCCAP_def

type_synonym id = "32 word"
type_synonym single = "32 word" \<comment> \<open>bits of a \<open>float\<close>\<close>
type_synonym name = "8 word list"

subsection \<open>Writing\<close>

record dbJournal =
  j_log :: dbJournalLog
  start_action :: bool
  action_idx :: "32 word"

definition new_journal :: dbJournal where
  "new_journal = \<lparr>j_log = \<lparr>log_data = [], log_idx = 0\<rparr>, start_action = False, action_idx = 0\<rparr>"

definition beginAction :: "8 word \<Rightarrow> dbJournal \<Rightarrow> dbJournal result" where
  "beginAction action j =
     (if start_action j then Inl Abort
      else Inr (j\<lparr>start_action := True, action_idx := log_size (j_log j), j_log := push_uchar action (j_log j)\<rparr>))"

definition pushParam :: "jvalue \<Rightarrow> dbJournal \<Rightarrow> dbJournal" where
  "pushParam v j = j\<lparr>j_log := push v (j_log j)\<rparr>"

definition endAction :: "dbJournal \<Rightarrow> dbJournal" where
  "endAction j = j\<lparr>start_action := False, j_log := push_uint (action_idx j) (push_uchar END_ACTION (j_log j))\<rparr>"

definition log_action :: "8 word \<Rightarrow> jvalue list \<Rightarrow> dbJournal \<Rightarrow> dbJournal result" where
  \<comment> \<open>the calls that every writer makes\<close>
  "log_action action vs j = bindE (beginAction action j) (\<lambda>j. Inr (endAction (fold pushParam vs j)))"

definition updateField :: "32 word \<Rightarrow> id \<Rightarrow> 32 word \<Rightarrow> jvalue \<Rightarrow> jvalue \<Rightarrow> dbJournal \<Rightarrow> dbJournal result" where
  \<comment> \<open>its eight overloads differ in the type of the values only\<close>
  "updateField obj_type oid field prev_value new_value =
     log_action UPDATE_FIELD [JInt obj_type, JUInt oid, JInt field, prev_value, new_value]"

subsubsection \<open>Nets\<close>

definition log_net_create :: "name \<Rightarrow> dbJournal \<Rightarrow> dbJournal result" where
  "log_net_create nm = log_action CREATE_OBJECT [JInt dbNetObj, JString (Some nm)]"

definition log_net_destroy :: "id \<Rightarrow> dbJournal \<Rightarrow> dbJournal result" where
  "log_net_destroy net = log_action DELETE_OBJECT [JInt dbNetObj, JUInt net]"

definition log_net_flags :: "id \<Rightarrow> 32 word \<Rightarrow> 32 word \<Rightarrow> dbJournal \<Rightarrow> dbJournal result" where
  \<comment> \<open>all setters of flags do this\<close>
  "log_net_flags net prev_flags flags = updateField dbNetObj net NET_FLAGS (JUInt prev_flags) (JUInt flags)"

definition log_reverseRSegs :: "id \<Rightarrow> dbJournal \<Rightarrow> dbJournal result" where
  "log_reverseRSegs net = log_action UPDATE_FIELD [JInt dbNetObj, JUInt net, JInt NET_REVERSE_RSEG]"

definition log_set1stRSegId :: "id \<Rightarrow> id \<Rightarrow> id \<Rightarrow> dbJournal \<Rightarrow> dbJournal result" where
  "log_set1stRSegId net pid rid = log_action UPDATE_FIELD [JInt dbNetObj, JUInt net, JInt NET_HEAD_RSEG, JUInt pid, JUInt rid]"

definition log_set1stCapNodeId :: "id \<Rightarrow> id \<Rightarrow> id \<Rightarrow> dbJournal \<Rightarrow> dbJournal result" where
  "log_set1stCapNodeId net pid cid = log_action UPDATE_FIELD [JInt dbNetObj, JUInt net, JInt NET_HEAD_CAPNODE, JUInt pid, JUInt cid]"

definition log_setTermExtIds :: "id \<Rightarrow> 32 word \<Rightarrow> dbJournal \<Rightarrow> dbJournal result" where
  "log_setTermExtIds net capId = log_action UPDATE_FIELD [JInt dbNetObj, JUInt net, JInt NET_TERM_EXTID, JInt capId]"

definition log_setNonDefaultRule :: "id \<Rightarrow> id option \<Rightarrow> id \<Rightarrow> id \<Rightarrow> bool \<Rightarrow> bool \<Rightarrow> dbJournal \<Rightarrow> dbJournal result" where
  \<comment> \<open>the type and the id of the rule, not of the net; without a rule there is a null dereference\<close>
  "log_setNonDefaultRule net rule prev_rule new_rule prev_block_rule block_rule j =
     bindE (beginAction UPDATE_FIELD j) (\<lambda>j.
       case rule of None \<Rightarrow> Inl NullDeref
       | Some r \<Rightarrow> Inr (endAction (fold pushParam [JInt dbTechNonDefaultRuleObj, JUInt r, JInt NET_NON_DEFAULT_RULE, JUInt prev_rule,
                     JUInt new_rule, JBool prev_block_rule, JBool block_rule] j)))"

subsubsection \<open>Instances and terminals\<close>

definition log_inst_create :: "id \<Rightarrow> id \<Rightarrow> name \<Rightarrow> dbJournal \<Rightarrow> dbJournal result" where
  "log_inst_create lib master nm = log_action CREATE_OBJECT [JInt dbInstObj, JUInt lib, JUInt master, JString (Some nm)]"

definition log_inst_destroy :: "id \<Rightarrow> dbJournal \<Rightarrow> dbJournal result" where
  "log_inst_destroy inst = log_action DELETE_OBJECT [JInt dbInstObj, JUInt inst]"

definition log_inst_flags :: "id \<Rightarrow> 32 word \<Rightarrow> 32 word \<Rightarrow> dbJournal \<Rightarrow> dbJournal result" where
  "log_inst_flags inst prev_flags flags = updateField dbInstObj inst INST_FLAGS (JUInt prev_flags) (JUInt flags)"

definition log_setOrigin :: "id \<Rightarrow> 32 word \<Rightarrow> 32 word \<Rightarrow> 32 word \<Rightarrow> 32 word \<Rightarrow> dbJournal \<Rightarrow> dbJournal result" where
  "log_setOrigin inst prev_x prev_y x y =
     log_action UPDATE_FIELD [JInt dbInstObj, JUInt inst, JInt INST_ORIGIN, JInt prev_x, JInt prev_y, JInt x, JInt y]"

definition log_swapMaster :: "id \<Rightarrow> id \<Rightarrow> id \<Rightarrow> id \<Rightarrow> id \<Rightarrow> dbJournal \<Rightarrow> dbJournal result" where
  "log_swapMaster inst old_lib old_master new_lib new_master =
     log_action SWAP_OBJECT [JInt dbInstObj, JUInt inst, JUInt old_lib, JUInt old_master, JUInt new_lib, JUInt new_master]"

definition log_iterm_connect :: "id \<Rightarrow> id \<Rightarrow> dbJournal \<Rightarrow> dbJournal result" where
  "log_iterm_connect iterm net = log_action CONNECT_OBJECT [JInt dbITermObj, JUInt iterm, JUInt net]"

definition log_iterm_disconnect :: "id \<Rightarrow> dbJournal \<Rightarrow> dbJournal result" where
  "log_iterm_disconnect iterm = log_action DISCONNECT_OBJECT [JInt dbITermObj, JUInt iterm]"

definition log_bterm_create :: "id \<Rightarrow> name \<Rightarrow> dbJournal \<Rightarrow> dbJournal result" where
  "log_bterm_create net nm = log_action CREATE_OBJECT [JInt dbBTermObj, JUInt net, JString (Some nm)]"

definition log_bterm_destroy :: "id \<Rightarrow> dbJournal \<Rightarrow> dbJournal result" where
  "log_bterm_destroy bterm = log_action DELETE_OBJECT [JInt dbBTermObj, JUInt bterm]"

definition log_bterm_connect :: "id \<Rightarrow> id \<Rightarrow> dbJournal \<Rightarrow> dbJournal result" where
  "log_bterm_connect bterm net = log_action CONNECT_OBJECT [JInt dbBTermObj, JUInt bterm, JUInt net]"

definition log_bterm_disconnect :: "id \<Rightarrow> dbJournal \<Rightarrow> dbJournal result" where
  "log_bterm_disconnect bterm = log_action DISCONNECT_OBJECT [JInt dbBTermObj, JUInt bterm]"

definition log_bterm_flags :: "id \<Rightarrow> 32 word \<Rightarrow> 32 word \<Rightarrow> dbJournal \<Rightarrow> dbJournal result" where
  "log_bterm_flags bterm prev_flags flags = updateField dbBTermObj bterm BTERM_FLAGS (JUInt prev_flags) (JUInt flags)"

subsubsection \<open>Blocks\<close>

definition log_setCornerCount :: "id \<Rightarrow> 32 word \<Rightarrow> 32 word \<Rightarrow> name option \<Rightarrow> dbJournal \<Rightarrow> dbJournal result" where
  "log_setCornerCount block cornersStoredCnt extDbCnt name_list j =
     (if \<not> (0 < sint cornersStoredCnt \<and> sint cornersStoredCnt \<le> 256) then Inl Abort
      else log_action UPDATE_FIELD [JInt dbBlockObj, JUInt block, JInt BLOCK_CORNERCOUNT, JInt cornersStoredCnt, JInt extDbCnt,
             JString name_list] j)"

definition log_writeDb :: "id \<Rightarrow> name \<Rightarrow> 32 word \<Rightarrow> dbJournal \<Rightarrow> dbJournal result" where
  "log_writeDb block filename allNode =
     log_action UPDATE_FIELD [JInt dbBlockObj, JUInt block, JInt BLOCK_WRITEDB, JString (Some filename), JInt allNode]"

subsubsection \<open>Resistor segments\<close>

definition log_rseg_create :: "id \<Rightarrow> 32 word \<Rightarrow> 32 word \<Rightarrow> 32 word \<Rightarrow> bool \<Rightarrow> dbJournal \<Rightarrow> dbJournal result" where
  "log_rseg_create net x y path_dir allocate_cap =
     log_action CREATE_OBJECT [JInt dbRSegObj, JUInt net, JInt x, JInt y, JUInt path_dir, JBool allocate_cap]"

definition log_rseg_destroy :: "id \<Rightarrow> id \<Rightarrow> dbJournal \<Rightarrow> dbJournal result" where
  "log_rseg_destroy seg net = log_action DELETE_OBJECT [JInt dbRSegObj, JUInt seg, JUInt net]"

definition log_rseg_destroyS :: "id \<Rightarrow> dbJournal \<Rightarrow> dbJournal result" where
  "log_rseg_destroyS seg = log_action DELETE_OBJECT [JInt dbRSegObj, JUInt seg, JUInt 0]"

definition log_setSourceNode :: "id \<Rightarrow> id \<Rightarrow> id \<Rightarrow> dbJournal \<Rightarrow> dbJournal result" where
  "log_setSourceNode seg prev_node node = updateField dbRSegObj seg RSEG_SOURCE (JUInt prev_node) (JUInt node)"

definition log_setTargetNode :: "id \<Rightarrow> id \<Rightarrow> id \<Rightarrow> dbJournal \<Rightarrow> dbJournal result" where
  "log_setTargetNode seg prev_node node = updateField dbRSegObj seg RSEG_TARGET (JUInt prev_node) (JUInt node)"

definition log_rseg_setResistance :: "id \<Rightarrow> single \<Rightarrow> single \<Rightarrow> 32 word \<Rightarrow> dbJournal \<Rightarrow> dbJournal result" where
  \<comment> \<open>\<open>setResistance\<close> and \<open>adjustResistance\<close>\<close>
  "log_rseg_setResistance seg prev_value val corner =
     log_action UPDATE_FIELD [JInt dbRSegObj, JUInt seg, JInt RSEG_RESISTANCE, JFloat prev_value, JFloat val, JInt corner]"

definition log_rseg_setCapacitance :: "id \<Rightarrow> single \<Rightarrow> single \<Rightarrow> 32 word \<Rightarrow> dbJournal \<Rightarrow> dbJournal result" where
  "log_rseg_setCapacitance seg prev_value val corner =
     log_action UPDATE_FIELD [JInt dbRSegObj, JUInt seg, JInt RSEG_CAPACITANCE, JFloat prev_value, JFloat val, JInt corner]"

definition log_rseg_adjustCapacitance :: "id \<Rightarrow> single \<Rightarrow> single \<Rightarrow> 32 word \<Rightarrow> dbJournal \<Rightarrow> dbJournal result" where
  \<comment> \<open>the corner is not recorded\<close>
  "log_rseg_adjustCapacitance seg prev_value val corner =
     log_action UPDATE_FIELD [JInt dbRSegObj, JUInt seg, JInt RSEG_CAPACITANCE, JFloat prev_value, JFloat val, JInt 0]"

definition log_addRSegCapacitance :: "id \<Rightarrow> id \<Rightarrow> dbJournal \<Rightarrow> dbJournal result" where
  "log_addRSegCapacitance seg oseg = log_action UPDATE_FIELD [JInt dbRSegObj, JUInt seg, JInt RSEG_ADDRSEGCAPACITANCE, JUInt oseg]"

definition log_addRSegResistance :: "id \<Rightarrow> id \<Rightarrow> dbJournal \<Rightarrow> dbJournal result" where
  "log_addRSegResistance seg oseg = log_action UPDATE_FIELD [JInt dbRSegObj, JUInt seg, JInt RSEG_ADDRSEGRESISTANCE, JUInt oseg]"

definition log_setCoords :: "id \<Rightarrow> 32 word \<Rightarrow> 32 word \<Rightarrow> 32 word \<Rightarrow> 32 word \<Rightarrow> dbJournal \<Rightarrow> dbJournal result" where
  "log_setCoords seg prev_x prev_y x y =
     log_action UPDATE_FIELD [JInt dbRSegObj, JUInt seg, JInt RSEG_COORDINATES, JInt prev_x, JInt x, JInt prev_y, JInt y]"

subsubsection \<open>Capacitor nodes\<close>

definition log_capnode_create :: "id \<Rightarrow> 32 word \<Rightarrow> bool \<Rightarrow> dbJournal \<Rightarrow> dbJournal result" where
  "log_capnode_create net node foreign = log_action CREATE_OBJECT [JInt dbCapNodeObj, JUInt net, JUInt node, JBool foreign]"

definition log_capnode_destroy :: "id \<Rightarrow> dbJournal \<Rightarrow> dbJournal result" where
  "log_capnode_destroy node = log_action DELETE_OBJECT [JInt dbCapNodeObj, JUInt node]"

definition log_capnode_flags :: "id \<Rightarrow> 32 word \<Rightarrow> 32 word \<Rightarrow> dbJournal \<Rightarrow> dbJournal result" where
  "log_capnode_flags node prev_flags flags = updateField dbCapNodeObj node CAPNODE_FLAGS (JUInt prev_flags) (JUInt flags)"

definition log_setNode :: "id \<Rightarrow> 32 word \<Rightarrow> 32 word \<Rightarrow> dbJournal \<Rightarrow> dbJournal result" where
  "log_setNode node prev_num num = updateField dbCapNodeObj node CAPNODE_NODE_NUM (JUInt prev_num) (JUInt num)"

definition log_setNet :: "id \<Rightarrow> id \<Rightarrow> id \<Rightarrow> dbJournal \<Rightarrow> dbJournal result" where
  "log_setNet node prev_net net = updateField dbCapNodeObj node CAPNODE_SETNET (JUInt prev_net) (JUInt net)"

definition log_setNext :: "id \<Rightarrow> id \<Rightarrow> id \<Rightarrow> dbJournal \<Rightarrow> dbJournal result" where
  "log_setNext node prev_next next = updateField dbCapNodeObj node CAPNODE_SETNEXT (JUInt prev_next) (JUInt next)"

definition log_capnode_setCapacitance :: "id \<Rightarrow> single \<Rightarrow> single \<Rightarrow> 32 word \<Rightarrow> dbJournal \<Rightarrow> dbJournal result" where
  \<comment> \<open>\<open>setCapacitance\<close> and \<open>addCapacitance\<close>\<close>
  "log_capnode_setCapacitance node prev_value val corner =
     log_action UPDATE_FIELD [JInt dbCapNodeObj, JUInt node, JInt CAPNODE_CAPACITANCE, JFloat prev_value, JFloat val, JInt corner]"

definition log_capnode_adjustCapacitance :: "id \<Rightarrow> single \<Rightarrow> single \<Rightarrow> 32 word \<Rightarrow> dbJournal \<Rightarrow> dbJournal result" where
  "log_capnode_adjustCapacitance node prev_value val corner =
     log_action UPDATE_FIELD [JInt dbCapNodeObj, JUInt node, JInt CAPNODE_CAPACITANCE, JFloat prev_value, JFloat val, JInt 0]"

definition log_addCapnCapacitance :: "id \<Rightarrow> id \<Rightarrow> dbJournal \<Rightarrow> dbJournal result" where
  "log_addCapnCapacitance node other = log_action UPDATE_FIELD [JInt dbCapNodeObj, JUInt node, JInt CAPNODE_ADDCAPNCAPACITANCE, JUInt other]"

subsubsection \<open>Coupling capacitors\<close>

definition log_ccseg_create :: "id \<Rightarrow> id \<Rightarrow> bool \<Rightarrow> dbJournal \<Rightarrow> dbJournal result" where
  "log_ccseg_create src tgt mergeParallel = log_action CREATE_OBJECT [JInt dbCCSegObj, JUInt src, JUInt tgt, JBool mergeParallel]"

definition log_ccseg_destroy :: "id \<Rightarrow> dbJournal \<Rightarrow> dbJournal result" where
  "log_ccseg_destroy seg = log_action DELETE_OBJECT [JInt dbCCSegObj, JUInt seg, JUInt 1]"

definition log_ccseg_destroyS :: "id \<Rightarrow> dbJournal \<Rightarrow> dbJournal result" where
  "log_ccseg_destroyS seg = log_action DELETE_OBJECT [JInt dbCCSegObj, JUInt seg, JUInt 0]"

definition log_ccseg_setCapacitance :: "id \<Rightarrow> single \<Rightarrow> single \<Rightarrow> 32 word \<Rightarrow> dbJournal \<Rightarrow> dbJournal result" where
  \<comment> \<open>\<open>setCapacitance\<close> and \<open>addCapacitance\<close>\<close>
  "log_ccseg_setCapacitance seg prev_value val corner =
     log_action UPDATE_FIELD [JInt dbCCSegObj, JUInt seg, JInt CCSEG_CAPACITANCE, JFloat prev_value, JFloat val, JInt corner]"

definition log_ccseg_adjustCapacitance :: "id \<Rightarrow> single \<Rightarrow> single \<Rightarrow> 32 word \<Rightarrow> dbJournal \<Rightarrow> dbJournal result" where
  "log_ccseg_adjustCapacitance seg prev_value val corner =
     log_action UPDATE_FIELD [JInt dbCCSegObj, JUInt seg, JInt CCSEG_CAPACITANCE, JFloat prev_value, JFloat val, JInt 0]"

definition log_addCcCapacitance :: "id \<Rightarrow> id \<Rightarrow> dbJournal \<Rightarrow> dbJournal result" where
  "log_addCcCapacitance seg oseg = log_action UPDATE_FIELD [JInt dbCCSegObj, JUInt seg, JInt CCSEG_ADDCCCAPACITANCE, JUInt oseg]"

definition log_swapCapnode :: "id \<Rightarrow> id \<Rightarrow> id \<Rightarrow> dbJournal \<Rightarrow> dbJournal result" where
  "log_swapCapnode seg oid nid = log_action UPDATE_FIELD [JInt dbCCSegObj, JUInt seg, JInt CCSEG_SWAPCAPNODE, JUInt oid, JUInt nid]"

definition log_Link_cc_seg :: "id \<Rightarrow> id \<Rightarrow> 32 word \<Rightarrow> dbJournal \<Rightarrow> dbJournal result" where
  "log_Link_cc_seg seg capn cseq = log_action UPDATE_FIELD [JInt dbCCSegObj, JUInt seg, JInt CCSEG_LINKCCSEG, JUInt capn, JUInt cseq]"

definition log_unLink_cc_seg :: "id \<Rightarrow> id \<Rightarrow> dbJournal \<Rightarrow> dbJournal result" where
  "log_unLink_cc_seg seg capn = log_action UPDATE_FIELD [JInt dbCCSegObj, JUInt seg, JInt CCSEG_UNLINKCCSEG, JUInt capn]"

definition log_setAllCcCap :: "id \<Rightarrow> 64 word list \<Rightarrow> dbJournal \<Rightarrow> dbJournal result" where
  \<comment> \<open>one capacitance for each corner of the block\<close>
  "log_setAllCcCap seg caps = log_action UPDATE_FIELD ([JInt dbCCSegObj, JUInt seg, JInt CCSEG_SETALLCCCAP] @ map JDouble caps)"

end
