(* ===== verification/Odb_Journal_Redo.thy ===== *)
theory Odb_Journal_Redo
  imports Odb_Journal
begin

section \<open>Redo and undo\<close>

text \<open>
  The second half of \<open>dbJournal.cpp\<close>: \<open>redo\<close> reads the log from its start, one action after the other, and
  calls the methods that make the changes; here it returns these calls, and what they do, with their own
  assertions on the ids, is left to \<open>apply_change\<close> of \<open>Odb_Net\<close> for the changes of the netlist. \<open>undo\<close> walks back from the end of
  the log over the offsets that \<open>endAction\<close> writes, and does not change anything yet.
\<close>

subsection \<open>Changes\<close>

datatype net_change =
    NetCreate name | NetDestroy id | NetFlags id "32 word" | NetRule id id bool | NetTermExtIds id "32 word"
  | Net1stRSeg id id | NetReverseRSegs id | Net1stCapNode id id

datatype inst_change =
    InstCreate id id name | InstDestroy id | InstFlags id "32 word" | InstOrigin id "32 word" "32 word" | InstSwap id id id

datatype term_change =
    BTermCreate id name | BTermDestroy id | BTermFlags id "32 word" | BTermConnect id id | BTermDisconnect id
  | ITermFlags id "32 word" | ITermConnect id id | ITermDisconnect id

datatype block_change =
    CornerCount "32 word" "32 word" name | WriteDb name "32 word"

datatype rseg_change =
    RSegCreate id "32 word" "32 word" "32 word" bool | RSegDestroy id id | RSegDestroyS id | RSegFlags id "32 word"
  | RSegSource id id | RSegTarget id id | RSegRes id single "32 word" | RSegCap id single "32 word" | RSegAddCap id id
  | RSegAddRes id id | RSegCoords id "32 word" "32 word"

datatype capnode_change =
    CapNodeCreate id "32 word" bool | CapNodeDestroy id | CapNodeFlags id "32 word" | CapNodeNum id "32 word"
  | CapNodeCap id single "32 word" | CapNodeAddCap id id | CapNodeNet id id | CapNodeNext id id

datatype ccseg_change =
    CCSegCreate id id bool | CCSegDestroy id | CCSegDestroyS id | CCSegFlags id "32 word" | CCSegCap id single "32 word"
  | CCSegAddCap id id | CCSegSwap id id id | CCSegLink id id "32 word" | CCSegUnlink id id | CCSegAllCaps id "64 word list"

datatype change =
    OnNet net_change | OnInst inst_change | OnTerm term_change | OnBlock block_change | OnRSeg rseg_change
  | OnCapNode capnode_change | OnCCSeg ccseg_change

type_synonym 'a reader = "dbJournalLog \<Rightarrow> ('a \<times> dbJournalLog) result"

definition made :: "change \<Rightarrow> change option reader" where
  "made c = retP (Some c)"

definition nothing :: "change option reader" where
  "nothing = retP None"

subsection \<open>Redo of an action\<close>

definition redo_createObject :: "change option reader" where
  "redo_createObject = bindP pop_int (\<lambda>obj_type.
     if obj_type = dbNetObj then bindP pop_string (\<lambda>nm. made (OnNet (NetCreate nm)))
     else if obj_type = dbBTermObj then bindP pop_uint (\<lambda>net. bindP pop_string (\<lambda>nm. made (OnTerm (BTermCreate net nm))))
     else if obj_type = dbInstObj then
       bindP pop_uint (\<lambda>lib. bindP pop_uint (\<lambda>master. bindP pop_string (\<lambda>nm. made (OnInst (InstCreate lib master nm)))))
     else if obj_type = dbRSegObj then
       bindP pop_uint (\<lambda>net. bindP pop_int (\<lambda>x. bindP pop_int (\<lambda>y. bindP pop_uint (\<lambda>path_dir. bindP pop_bool (\<lambda>allocate_cap.
         made (OnRSeg (RSegCreate net x y path_dir allocate_cap)))))))
     else if obj_type = dbCapNodeObj then
       bindP pop_uint (\<lambda>net. bindP pop_uint (\<lambda>node. bindP pop_bool (\<lambda>foreign. made (OnCapNode (CapNodeCreate net node foreign)))))
     else if obj_type = dbCCSegObj then
       bindP pop_uint (\<lambda>nodeA. bindP pop_uint (\<lambda>nodeB. bindP pop_bool (\<lambda>merge. made (OnCCSeg (CCSegCreate nodeA nodeB merge)))))
     else nothing)"

definition redo_deleteObject :: "change option reader" where
  "redo_deleteObject = bindP pop_int (\<lambda>obj_type.
     if obj_type = dbNetObj then bindP pop_uint (\<lambda>net. made (OnNet (NetDestroy net)))
     else if obj_type = dbBTermObj then bindP pop_uint (\<lambda>bterm. made (OnTerm (BTermDestroy bterm)))
     else if obj_type = dbInstObj then bindP pop_uint (\<lambda>inst. made (OnInst (InstDestroy inst)))
     else if obj_type = dbRSegObj then
       bindP pop_uint (\<lambda>rseg. bindP pop_uint (\<lambda>net. if net \<noteq> 0 then made (OnRSeg (RSegDestroy rseg net)) else made (OnRSeg (RSegDestroyS rseg))))
     else if obj_type = dbCapNodeObj then bindP pop_uint (\<lambda>node. made (OnCapNode (CapNodeDestroy node)))
     else if obj_type = dbCCSegObj then
       bindP pop_uint (\<lambda>seg. bindP pop_uint (\<lambda>regular. if regular \<noteq> 0 then made (OnCCSeg (CCSegDestroy seg)) else made (OnCCSeg (CCSegDestroyS seg))))
     else nothing)"

definition redo_connectObject :: "change option reader" where
  "redo_connectObject = bindP pop_int (\<lambda>obj_type.
     if obj_type = dbITermObj then bindP pop_uint (\<lambda>iterm. bindP pop_uint (\<lambda>net. made (OnTerm (ITermConnect iterm net))))
     else if obj_type = dbBTermObj then bindP pop_uint (\<lambda>bterm. bindP pop_uint (\<lambda>net. made (OnTerm (BTermConnect bterm net))))
     else nothing)"

definition redo_disconnectObject :: "change option reader" where
  "redo_disconnectObject = bindP pop_int (\<lambda>obj_type.
     if obj_type = dbITermObj then bindP pop_uint (\<lambda>iterm. made (OnTerm (ITermDisconnect iterm)))
     else if obj_type = dbBTermObj then bindP pop_uint (\<lambda>bterm. made (OnTerm (BTermDisconnect bterm)))
     else nothing)"

definition redo_swapObject :: "change option reader" where
  "redo_swapObject = bindP pop_int (\<lambda>obj_type.
     if obj_type = dbInstObj then
       bindP pop_uint (\<lambda>inst. bindP pop_uint (\<lambda>prev_lib. bindP pop_uint (\<lambda>prev_master. bindP pop_uint (\<lambda>lib. bindP pop_uint (\<lambda>master.
         made (OnInst (InstSwap inst lib master)))))))
     else nothing)"

definition redo_updateBlockField :: "change option reader" where
  "redo_updateBlockField = bindP pop_uint (\<lambda>block. bindP pop_int (\<lambda>field.
     if field = BLOCK_CORNERCOUNT then
       bindP pop_int (\<lambda>cornerCount. bindP pop_int (\<lambda>extDbCount. bindP pop_string (\<lambda>nm. made (OnBlock (CornerCount cornerCount extDbCount nm)))))
     else if field = BLOCK_WRITEDB then bindP pop_string (\<lambda>nm. bindP pop_int (\<lambda>allNode. made (OnBlock (WriteDb nm allNode))))
     else nothing))"

definition redo_updateNetField :: "change option reader" where
  "redo_updateNetField = bindP pop_uint (\<lambda>net. bindP pop_int (\<lambda>field.
     if field = NET_FLAGS then bindP pop_uint (\<lambda>prev_flags. bindP pop_uint (\<lambda>flags. made (OnNet (NetFlags net flags))))
     else if field = NET_NON_DEFAULT_RULE then
       bindP pop_uint (\<lambda>prev_rule. bindP pop_uint (\<lambda>rule. bindP pop_bool (\<lambda>prev_block_rule. bindP pop_bool (\<lambda>cur_block_rule.
         made (OnNet (NetRule net rule cur_block_rule))))))
     else if field = NET_TERM_EXTID then bindP pop_int (\<lambda>capId. made (OnNet (NetTermExtIds net capId)))
     else if field = NET_HEAD_RSEG then bindP pop_uint (\<lambda>pid. bindP pop_uint (\<lambda>rid. made (OnNet (Net1stRSeg net rid))))
     else if field = NET_REVERSE_RSEG then made (OnNet (NetReverseRSegs net))
     else if field = NET_HEAD_CAPNODE then bindP pop_uint (\<lambda>pid. bindP pop_uint (\<lambda>cid. made (OnNet (Net1stCapNode net cid))))
     else nothing))"

definition redo_updateInstField :: "change option reader" where
  "redo_updateInstField = bindP pop_uint (\<lambda>inst. bindP pop_int (\<lambda>field.
     if field = INST_FLAGS then bindP pop_uint (\<lambda>prev_flags. bindP pop_uint (\<lambda>flags. made (OnInst (InstFlags inst flags))))
     else if field = INST_ORIGIN then
       bindP pop_int (\<lambda>prev_x. bindP pop_int (\<lambda>prev_y. bindP pop_int (\<lambda>current_x. bindP pop_int (\<lambda>current_y.
         made (OnInst (InstOrigin inst current_x current_y))))))
     else nothing))"

definition redo_updateBTermField :: "change option reader" where
  "redo_updateBTermField = bindP pop_uint (\<lambda>bterm. bindP pop_int (\<lambda>field.
     if field = BTERM_FLAGS then bindP pop_uint (\<lambda>prev_flags. bindP pop_uint (\<lambda>flags. made (OnTerm (BTermFlags bterm flags)))) else nothing))"

definition redo_updateITermField :: "change option reader" where
  "redo_updateITermField = bindP pop_uint (\<lambda>iterm. bindP pop_int (\<lambda>field.
     if field = ITERM_FLAGS then bindP pop_uint (\<lambda>prev_flags. bindP pop_uint (\<lambda>flags. made (OnTerm (ITermFlags iterm flags)))) else nothing))"

definition redo_updateRSegField :: "change option reader" where
  "redo_updateRSegField = bindP pop_uint (\<lambda>rseg. bindP pop_int (\<lambda>field.
     if field = RSEG_FLAGS then bindP pop_uint (\<lambda>prev_flags. bindP pop_uint (\<lambda>flags. made (OnRSeg (RSegFlags rseg flags))))
     else if field = RSEG_SOURCE then bindP pop_uint (\<lambda>prev_source. bindP pop_uint (\<lambda>source. made (OnRSeg (RSegSource rseg source))))
     else if field = RSEG_TARGET then bindP pop_uint (\<lambda>prev_target. bindP pop_uint (\<lambda>target. made (OnRSeg (RSegTarget rseg target))))
     else if field = RSEG_RESISTANCE then
       bindP pop_float (\<lambda>prev_r. bindP pop_float (\<lambda>r. bindP pop_int (\<lambda>cnr. made (OnRSeg (RSegRes rseg r cnr)))))
     else if field = RSEG_CAPACITANCE then
       bindP pop_float (\<lambda>prev_c. bindP pop_float (\<lambda>c. bindP pop_int (\<lambda>cnr. made (OnRSeg (RSegCap rseg c cnr)))))
     else if field = RSEG_ADDRSEGCAPACITANCE then bindP pop_uint (\<lambda>oseg. made (OnRSeg (RSegAddCap rseg oseg)))
     else if field = RSEG_ADDRSEGRESISTANCE then bindP pop_uint (\<lambda>oseg. made (OnRSeg (RSegAddRes rseg oseg)))
     else if field = RSEG_COORDINATES then
       bindP pop_int (\<lambda>prev_x. bindP pop_int (\<lambda>x. bindP pop_int (\<lambda>prev_y. bindP pop_int (\<lambda>y. made (OnRSeg (RSegCoords rseg x y))))))
     else nothing))"

definition redo_updateCapNodeField :: "change option reader" where
  "redo_updateCapNodeField = bindP pop_uint (\<lambda>node. bindP pop_int (\<lambda>field.
     if field = CAPNODE_FLAGS then bindP pop_uint (\<lambda>prev_flags. bindP pop_uint (\<lambda>flags. made (OnCapNode (CapNodeFlags node flags))))
     else if field = CAPNODE_NODE_NUM then bindP pop_uint (\<lambda>prev_num. bindP pop_uint (\<lambda>num. made (OnCapNode (CapNodeNum node num))))
     else if field = CAPNODE_CAPACITANCE then
       bindP pop_float (\<lambda>prev_c. bindP pop_float (\<lambda>c. bindP pop_int (\<lambda>cnr. made (OnCapNode (CapNodeCap node c cnr)))))
     else if field = CAPNODE_ADDCAPNCAPACITANCE then bindP pop_uint (\<lambda>oseg. made (OnCapNode (CapNodeAddCap node oseg)))
     else if field = CAPNODE_SETNET then bindP pop_uint (\<lambda>onet. bindP pop_uint (\<lambda>nnet. made (OnCapNode (CapNodeNet node nnet))))
     else if field = CAPNODE_SETNEXT then bindP pop_uint (\<lambda>onext. bindP pop_uint (\<lambda>nnext. made (OnCapNode (CapNodeNext node nnext))))
     else nothing))"

definition ADS_MAX_CORNER :: nat where
  "ADS_MAX_CORNER = 10"

fun pop_doubles :: "nat \<Rightarrow> 64 word list reader" where
  "pop_doubles 0 = retP []"
| "pop_doubles (Suc n) = bindP pop_double (\<lambda>v. bindP (pop_doubles n) (\<lambda>vs. retP (v # vs)))"

definition redo_updateCCSegField :: "nat \<Rightarrow> change option reader" where
  \<comment> \<open>the number of corners of the block; the array for the values has a fixed size\<close>
  "redo_updateCCSegField cornerCnt = bindP pop_uint (\<lambda>seg. bindP pop_int (\<lambda>field.
     if field = CCSEG_FLAGS then bindP pop_uint (\<lambda>prev_flags. bindP pop_uint (\<lambda>flags. made (OnCCSeg (CCSegFlags seg flags))))
     else if field = CCSEG_CAPACITANCE then
       bindP pop_float (\<lambda>prev_c. bindP pop_float (\<lambda>c. bindP pop_int (\<lambda>cnr. made (OnCCSeg (CCSegCap seg c cnr)))))
     else if field = CCSEG_ADDCCCAPACITANCE then bindP pop_uint (\<lambda>oseg. made (OnCCSeg (CCSegAddCap seg oseg)))
     else if field = CCSEG_SWAPCAPNODE then bindP pop_uint (\<lambda>orig. bindP pop_uint (\<lambda>newn. made (OnCCSeg (CCSegSwap seg orig newn))))
     else if field = CCSEG_LINKCCSEG then bindP pop_uint (\<lambda>cap. bindP pop_uint (\<lambda>cseq. made (OnCCSeg (CCSegLink seg cap cseq))))
     else if field = CCSEG_UNLINKCCSEG then bindP pop_uint (\<lambda>cap. made (OnCCSeg (CCSegUnlink seg cap)))
     else if field = CCSEG_SETALLCCCAP then
       (if ADS_MAX_CORNER < cornerCnt then (\<lambda>l. Inl OutOfBounds)
        else bindP (pop_doubles cornerCnt) (\<lambda>caps. made (OnCCSeg (CCSegAllCaps seg caps))))
     else nothing))"

definition redo_updateField :: "nat \<Rightarrow> change option reader" where
  "redo_updateField cornerCnt = bindP pop_int (\<lambda>obj_type.
     if obj_type = dbBlockObj then redo_updateBlockField
     else if obj_type = dbNetObj then redo_updateNetField
     else if obj_type = dbInstObj then redo_updateInstField
     else if obj_type = dbBTermObj then redo_updateBTermField
     else if obj_type = dbITermObj then redo_updateITermField
     else if obj_type = dbRSegObj then redo_updateRSegField
     else if obj_type = dbCCSegObj then redo_updateCCSegField cornerCnt
     else if obj_type = dbCapNodeObj then redo_updateCapNodeField
     else nothing)"

definition redo_action :: "nat \<Rightarrow> 8 word \<Rightarrow> change option reader" where
  "redo_action cornerCnt action =
     (if action = CREATE_OBJECT then redo_createObject
      else if action = DELETE_OBJECT then redo_deleteObject
      else if action = CONNECT_OBJECT then redo_connectObject
      else if action = DISCONNECT_OBJECT then redo_disconnectObject
      else if action = SWAP_OBJECT then redo_swapObject
      else if action = UPDATE_FIELD then redo_updateField cornerCnt
      else (\<lambda>l. Inl Abort))"

definition redo_step :: "nat \<Rightarrow> change option reader" where
  \<comment> \<open>one round of the loop, with the checks at the end of the action\<close>
  "redo_step cornerCnt l =
     bindP pop_uchar (\<lambda>cur_action. bindP (redo_action cornerCnt cur_action) (\<lambda>c.
       bindP pop_uchar (\<lambda>end_action. bindP pop_uint (\<lambda>idx.
         if end_action = END_ACTION \<and> idx = of_nat (log_idx l) then retP c else (\<lambda>l. Inl Abort))))) l"

definition corners_after :: "change option \<Rightarrow> nat \<Rightarrow> nat" where
  \<comment> \<open>\<open>setCornerCount\<close> sets the number of corners, which is kept in an \<open>unsigned char\<close>\<close>
  "corners_after c n = (case c of Some (OnBlock (CornerCount k _ _)) \<Rightarrow> unat (ucast k :: 8 word) | _ \<Rightarrow> n)"

lemma forward_doubles [forward_rules]: "forward (pop_doubles n)"
  by (induction n) (auto intro!: forward_rules)

lemma forward_action: "forward (redo_action n action)"
  unfolding redo_action_def redo_createObject_def redo_deleteObject_def redo_connectObject_def redo_disconnectObject_def
    redo_swapObject_def redo_updateField_def redo_updateBlockField_def redo_updateNetField_def redo_updateInstField_def
    redo_updateBTermField_def redo_updateITermField_def redo_updateRSegField_def redo_updateCapNodeField_def
    redo_updateCCSegField_def made_def nothing_def
  by (intro forward_rules)

lemma redo_step_progress:
  assumes "redo_step n l = Inr (c, l')"
  shows "log_data l' = log_data l \<and> log_idx l < log_idx l' \<and> log_idx l < length (log_data l)"
proof -
  define rest where "rest = (\<lambda>cur_action. bindP (redo_action n cur_action) (\<lambda>c. bindP pop_uchar (\<lambda>end_action. bindP pop_uint (\<lambda>idx.
         if end_action = END_ACTION \<and> idx = of_nat (log_idx l) then retP c else (\<lambda>l. Inl Abort)))))"
  obtain a l1 where a: "pop_uchar l = Inr (a, l1)" "rest a l1 = Inr (c, l')"
  proof -
    have "bindP pop_uchar rest l = Inr (c, l')" using assms by (simp only: redo_step_def rest_def)
    then show ?thesis using that by (auto simp: bindP_def)
  qed
  have "forward (rest a)" unfolding rest_def by (intro forward_rules forward_action)
  then have "log_data l' = log_data l1 \<and> log_idx l1 \<le> log_idx l'" using a(2) by (rule forwardD)
  moreover have "log_data l1 = log_data l \<and> log_idx l < log_idx l1 \<and> log_idx l < length (log_data l)"
    using a(1) by (auto simp: pop_uchar_def check_type_def log_next_def split: if_splits)
  ultimately show ?thesis by simp
qed

function redo_loop :: "nat \<Rightarrow> dbJournalLog \<Rightarrow> change list result" where
  "redo_loop cornerCnt l =
     (if log_end l then Inr []
      else case redo_step cornerCnt l of
        Inl f \<Rightarrow> Inl f
      | Inr (c, l') \<Rightarrow> bindE (redo_loop (corners_after c cornerCnt) l') (\<lambda>cs.
          Inr (case c of None \<Rightarrow> cs | Some c \<Rightarrow> c # cs)))"
  by pat_completeness auto
termination
  by (relation "measure (\<lambda>(n, l). length (log_data l) - log_idx l)") (auto dest!: redo_step_progress)

declare redo_loop.simps [simp del]

definition redo :: "nat \<Rightarrow> dbJournal \<Rightarrow> change list result" where
  "redo cornerCnt j = redo_loop cornerCnt (log_begin (j_log j))"

subsection \<open>Undo\<close>

definition undo_updateField :: "unit reader" where
  "undo_updateField = bindP pop_int (\<lambda>obj_type.
     if obj_type \<in> {dbNetObj, dbInstObj, dbITermObj, dbRSegObj, dbCapNodeObj}
     then bindP pop_uint (\<lambda>oid. bindP pop_int (\<lambda>field. retP ()))
     else retP ())"

definition undo_action :: "8 word \<Rightarrow> unit reader" where
  "undo_action action =
     (if action \<in> {CREATE_OBJECT, DELETE_OBJECT, CONNECT_OBJECT, DISCONNECT_OBJECT, SWAP_OBJECT}
      then bindP pop_int (\<lambda>obj_type. retP ())
      else if action = UPDATE_FIELD then undo_updateField
      else (\<lambda>l. Inl Abort))"

fun undo_loop :: "nat \<Rightarrow> dbJournalLog \<Rightarrow> unit result" where
  "undo_loop 0 l = Inl NoReturn"
| "undo_loop (Suc fuel) l =
     bindE (pop_uint l) (\<lambda>(idx, l). bindE (pop_uchar (log_set idx l)) (\<lambda>(action, l). bindE (undo_action action l) (\<lambda>(_, l).
       if idx = 0 then Inr () else undo_loop fuel (log_set (idx - 4) l))))"

definition undo :: "nat \<Rightarrow> dbJournal \<Rightarrow> unit result" where
  \<comment> \<open>with a bound on the rounds of the loop; after \<open>2 ^ 32\<close> rounds some offset comes a second time\<close>
  "undo fuel j = (if log_empty (j_log j) then Inr () else undo_loop fuel (log_set (log_size (j_log j) - 4) (j_log j)))"

end
