(* ===== verification/Odb_Journal_Props.thy ===== *)
theory Odb_Journal_Props
  imports Odb_Journal_Redo
begin

section \<open>Properties of the journal\<close>

text \<open>
  Edits of the design as steps that write to the journal and mean a change (\<open>edit\<close>, \<open>history\<close>), and what
  \<open>redo\<close> and \<open>undo\<close> do on the journal of a history.
\<close>

subsection \<open>Parameters of an action\<close>

definition params :: "jvalue list \<Rightarrow> 8 word list" where
  "params vs = concat (map value_bytes vs)"

lemma params_Cons: "params (v # vs) = value_bytes v @ params vs"
  by (simp add: params_def)

lemma params_append: "params (vs @ vs') = params vs @ params vs'"
  by (simp add: params_def)

named_theorems param_rules "reading the parameters of an action one by one"

lemma read_param [param_rules]:
  "reads_as (g b) (params vs) r \<Longrightarrow> reads_as (bindP pop_bool g) (params (JBool b # vs)) r"
  "reads_as (f i) (params vs) r \<Longrightarrow> reads_as (bindP pop_int f) (params (JInt i # vs)) r"
  "reads_as (f u) (params vs) r \<Longrightarrow> reads_as (bindP pop_uint f) (params (JUInt u # vs)) r"
  "reads_as (f x) (params vs) r \<Longrightarrow> reads_as (bindP pop_float f) (params (JFloat x # vs)) r"
  unfolding params_Cons by (rule reads_bind, rule reads_bool reads_int reads_uint reads_float, assumption)+

lemma read_param_string [param_rules]:
  "string_ok s \<Longrightarrow> reads_as (f s) (params vs) r \<Longrightarrow> reads_as (bindP pop_string f) (params (JString (Some s) # vs)) r"
  "reads_as (f []) (params vs) r \<Longrightarrow> reads_as (bindP pop_string f) (params (JString None # vs)) r"
proof -
  show "reads_as (bindP pop_string f) (params (JString (Some s) # vs)) r" if "string_ok s" "reads_as (f s) (params vs) r"
    unfolding params_Cons
  proof (rule reads_bind)
    show "reads_as pop_string (value_bytes (JString (Some s))) s" using reads_string [of "Some s"] that(1) by simp
  qed (rule that(2))
  show "reads_as (bindP pop_string f) (params (JString None # vs)) r" if "reads_as (f []) (params vs) r"
    unfolding params_Cons
  proof (rule reads_bind)
    show "reads_as pop_string (value_bytes (JString None)) []" using reads_string [of None] by simp
  qed (rule that)
qed

lemma read_made [param_rules]: "reads_as (made c) (params []) (Some c)"
  unfolding made_def params_def by (simp add: reads_ret)

lemma read_nothing [param_rules]: "reads_as nothing (params []) None"
  unfolding nothing_def params_def by (simp add: reads_ret)

lemma read_doubles: "reads_as (f caps) (params []) r \<Longrightarrow> reads_as (bindP (pop_doubles (length caps)) f) (params (map JDouble caps)) r"
proof -
  have d: "reads_as (pop_doubles (length caps)) (params (map JDouble caps)) caps" for caps
  proof (induction caps)
    case Nil
    then show ?case by (simp add: params_def reads_ret)
  next
    case (Cons x caps)
    have "reads_as (bindP (pop_doubles (length caps)) (\<lambda>vs. retP (x # vs))) (params (map JDouble caps) @ []) (x # caps)"
      by (rule reads_bind [OF Cons.IH reads_ret])
    then have "reads_as (bindP pop_double (\<lambda>v. bindP (pop_doubles (length caps)) (\<lambda>vs. retP (v # vs))))
        (value_bytes (JDouble x) @ params (map JDouble caps)) (x # caps)"
      by (intro reads_bind [OF reads_double]) simp
    then show ?case by (simp only: pop_doubles.simps list.size list.map params_Cons add_0_right add_Suc_right)
  qed
  assume "reads_as (f caps) (params []) r"
  then show ?thesis using reads_bind [OF d, of f caps "params []" r] by (simp add: params_def)
qed

subsection \<open>Edits\<close>

inductive edit :: "nat \<Rightarrow> (dbJournal \<Rightarrow> dbJournal result) \<Rightarrow> change \<Rightarrow> bool" where
  \<comment> \<open>with so many corners, this writer records this change\<close>
  "string_ok nm \<Longrightarrow> edit n (log_net_create nm) (OnNet (NetCreate nm))"
| "edit n (log_net_destroy net) (OnNet (NetDestroy net))"
| "edit n (log_net_flags net p f) (OnNet (NetFlags net f))"
| "edit n (log_reverseRSegs net) (OnNet (NetReverseRSegs net))"
| "edit n (log_set1stRSegId net p r) (OnNet (Net1stRSeg net r))"
| "edit n (log_set1stCapNodeId net p c) (OnNet (Net1stCapNode net c))"
| "edit n (log_setTermExtIds net k) (OnNet (NetTermExtIds net k))"
| "string_ok nm \<Longrightarrow> edit n (log_inst_create lib master nm) (OnInst (InstCreate lib master nm))"
| "edit n (log_inst_destroy inst) (OnInst (InstDestroy inst))"
| "edit n (log_inst_flags inst p f) (OnInst (InstFlags inst f))"
| "edit n (log_setOrigin inst px py x y) (OnInst (InstOrigin inst x y))"
| "edit n (log_swapMaster inst ol om l m) (OnInst (InstSwap inst l m))"
| "edit n (log_iterm_connect t net) (OnTerm (ITermConnect t net))"
| "edit n (log_iterm_disconnect t) (OnTerm (ITermDisconnect t))"
| "string_ok nm \<Longrightarrow> edit n (log_bterm_create net nm) (OnTerm (BTermCreate net nm))"
| "edit n (log_bterm_destroy t) (OnTerm (BTermDestroy t))"
| "edit n (log_bterm_connect t net) (OnTerm (BTermConnect t net))"
| "edit n (log_bterm_disconnect t) (OnTerm (BTermDisconnect t))"
| "edit n (log_bterm_flags t p f) (OnTerm (BTermFlags t f))"
| "string_ok nm \<Longrightarrow> edit n (log_setCornerCount blk k e (Some nm)) (OnBlock (CornerCount k e nm))"
| "edit n (log_setCornerCount blk k e None) (OnBlock (CornerCount k e []))"
| "string_ok nm \<Longrightarrow> edit n (log_writeDb blk nm a) (OnBlock (WriteDb nm a))"
| "edit n (log_rseg_create net x y d ac) (OnRSeg (RSegCreate net x y d ac))"
| "net \<noteq> 0 \<Longrightarrow> edit n (log_rseg_destroy seg net) (OnRSeg (RSegDestroy seg net))"
| "edit n (log_rseg_destroyS seg) (OnRSeg (RSegDestroyS seg))"
| "edit n (log_setSourceNode seg p s) (OnRSeg (RSegSource seg s))"
| "edit n (log_setTargetNode seg p t) (OnRSeg (RSegTarget seg t))"
| "edit n (log_rseg_setResistance seg pv v k) (OnRSeg (RSegRes seg v k))"
| "edit n (log_rseg_setCapacitance seg pv v k) (OnRSeg (RSegCap seg v k))"
| "edit n (log_rseg_adjustCapacitance seg pv v 0) (OnRSeg (RSegCap seg v 0))"
| "edit n (log_addRSegCapacitance seg s) (OnRSeg (RSegAddCap seg s))"
| "edit n (log_addRSegResistance seg s) (OnRSeg (RSegAddRes seg s))"
| "edit n (log_setCoords seg px py x y) (OnRSeg (RSegCoords seg x y))"
| "edit n (log_capnode_create net nd fr) (OnCapNode (CapNodeCreate net nd fr))"
| "edit n (log_capnode_destroy nd) (OnCapNode (CapNodeDestroy nd))"
| "edit n (log_capnode_flags nd p f) (OnCapNode (CapNodeFlags nd f))"
| "edit n (log_setNode nd p k) (OnCapNode (CapNodeNum nd k))"
| "edit n (log_setNet nd p net) (OnCapNode (CapNodeNet nd net))"
| "edit n (log_setNext nd p nx) (OnCapNode (CapNodeNext nd nx))"
| "edit n (log_capnode_setCapacitance nd pv v k) (OnCapNode (CapNodeCap nd v k))"
| "edit n (log_capnode_adjustCapacitance nd pv v 0) (OnCapNode (CapNodeCap nd v 0))"
| "edit n (log_addCapnCapacitance nd s) (OnCapNode (CapNodeAddCap nd s))"
| "edit n (log_ccseg_create s t m) (OnCCSeg (CCSegCreate s t m))"
| "edit n (log_ccseg_destroy seg) (OnCCSeg (CCSegDestroy seg))"
| "edit n (log_ccseg_destroyS seg) (OnCCSeg (CCSegDestroyS seg))"
| "edit n (log_ccseg_setCapacitance seg pv v k) (OnCCSeg (CCSegCap seg v k))"
| "edit n (log_ccseg_adjustCapacitance seg pv v 0) (OnCCSeg (CCSegCap seg v 0))"
| "edit n (log_addCcCapacitance seg s) (OnCCSeg (CCSegAddCap seg s))"
| "edit n (log_swapCapnode seg a b) (OnCCSeg (CCSegSwap seg a b))"
| "edit n (log_Link_cc_seg seg c q) (OnCCSeg (CCSegLink seg c q))"
| "edit n (log_unLink_cc_seg seg c) (OnCCSeg (CCSegUnlink seg c))"
| "length caps = n \<Longrightarrow> n \<le> ADS_MAX_CORNER \<Longrightarrow> edit n (log_setAllCcCap seg caps) (OnCCSeg (CCSegAllCaps seg caps))"

inductive history :: "nat \<Rightarrow> dbJournal \<Rightarrow> change list \<Rightarrow> nat \<Rightarrow> dbJournal \<Rightarrow> bool" where
  \<comment> \<open>a sequence of edits, from one number of corners and journal to another\<close>
  history_Nil: "history n j [] n j"
| history_Cons: "edit n w c \<Longrightarrow> w j = Inr j1 \<Longrightarrow> history (corners_after (Some c) n) j1 cs n' j' \<Longrightarrow> history n j (c # cs) n' j'"

definition entry_ok :: "nat \<Rightarrow> 8 word \<Rightarrow> jvalue list \<Rightarrow> change \<Rightarrow> bool" where
  "entry_ok n action vs c \<longleftrightarrow> reads_as (redo_action n action) (params vs) (Some c)"

lemmas redo_defs = redo_action_def redo_createObject_def redo_deleteObject_def redo_connectObject_def redo_disconnectObject_def
  redo_swapObject_def redo_updateField_def redo_updateBlockField_def redo_updateNetField_def redo_updateInstField_def
  redo_updateBTermField_def redo_updateITermField_def redo_updateRSegField_def redo_updateCapNodeField_def redo_updateCCSegField_def

text \<open>\<open>redo\<close> reads the parameters that each writer writes.\<close>

lemma net_entries:
  "string_ok nm \<Longrightarrow> entry_ok n CREATE_OBJECT [JInt dbNetObj, JString (Some nm)] (OnNet (NetCreate nm))"
  "entry_ok n DELETE_OBJECT [JInt dbNetObj, JUInt net] (OnNet (NetDestroy net))"
  "entry_ok n UPDATE_FIELD [JInt dbNetObj, JUInt net, JInt NET_FLAGS, JUInt p, JUInt f] (OnNet (NetFlags net f))"
  "entry_ok n UPDATE_FIELD [JInt dbNetObj, JUInt net, JInt NET_REVERSE_RSEG] (OnNet (NetReverseRSegs net))"
  "entry_ok n UPDATE_FIELD [JInt dbNetObj, JUInt net, JInt NET_HEAD_RSEG, JUInt p, JUInt r] (OnNet (Net1stRSeg net r))"
  "entry_ok n UPDATE_FIELD [JInt dbNetObj, JUInt net, JInt NET_HEAD_CAPNODE, JUInt p, JUInt c] (OnNet (Net1stCapNode net c))"
  "entry_ok n UPDATE_FIELD [JInt dbNetObj, JUInt net, JInt NET_TERM_EXTID, JInt k] (OnNet (NetTermExtIds net k))"
  unfolding entry_ok_def redo_defs
  by (auto simp: action_defs object_defs field_defs intro!: param_rules)

lemma inst_entries:
  "string_ok nm \<Longrightarrow> entry_ok n CREATE_OBJECT [JInt dbInstObj, JUInt lib, JUInt master, JString (Some nm)] (OnInst (InstCreate lib master nm))"
  "entry_ok n DELETE_OBJECT [JInt dbInstObj, JUInt inst] (OnInst (InstDestroy inst))"
  "entry_ok n UPDATE_FIELD [JInt dbInstObj, JUInt inst, JInt INST_FLAGS, JUInt p, JUInt f] (OnInst (InstFlags inst f))"
  "entry_ok n UPDATE_FIELD [JInt dbInstObj, JUInt inst, JInt INST_ORIGIN, JInt px, JInt py, JInt x, JInt y] (OnInst (InstOrigin inst x y))"
  "entry_ok n SWAP_OBJECT [JInt dbInstObj, JUInt inst, JUInt ol, JUInt om, JUInt l, JUInt m] (OnInst (InstSwap inst l m))"
  unfolding entry_ok_def redo_defs
  by (auto simp: action_defs object_defs field_defs intro!: param_rules)

lemma term_entries:
  "entry_ok n CONNECT_OBJECT [JInt dbITermObj, JUInt t, JUInt net] (OnTerm (ITermConnect t net))"
  "entry_ok n DISCONNECT_OBJECT [JInt dbITermObj, JUInt t] (OnTerm (ITermDisconnect t))"
  "string_ok nm \<Longrightarrow> entry_ok n CREATE_OBJECT [JInt dbBTermObj, JUInt net, JString (Some nm)] (OnTerm (BTermCreate net nm))"
  "entry_ok n DELETE_OBJECT [JInt dbBTermObj, JUInt t] (OnTerm (BTermDestroy t))"
  "entry_ok n CONNECT_OBJECT [JInt dbBTermObj, JUInt t, JUInt net] (OnTerm (BTermConnect t net))"
  "entry_ok n DISCONNECT_OBJECT [JInt dbBTermObj, JUInt t] (OnTerm (BTermDisconnect t))"
  "entry_ok n UPDATE_FIELD [JInt dbBTermObj, JUInt t, JInt BTERM_FLAGS, JUInt p, JUInt f] (OnTerm (BTermFlags t f))"
  unfolding entry_ok_def redo_defs
  by (auto simp: action_defs object_defs field_defs intro!: param_rules)

lemma block_entries:
  "string_ok nm \<Longrightarrow> entry_ok n UPDATE_FIELD [JInt dbBlockObj, JUInt blk, JInt BLOCK_CORNERCOUNT, JInt k, JInt e, JString (Some nm)]
    (OnBlock (CornerCount k e nm))"
  "entry_ok n UPDATE_FIELD [JInt dbBlockObj, JUInt blk, JInt BLOCK_CORNERCOUNT, JInt k, JInt e, JString None] (OnBlock (CornerCount k e []))"
  "string_ok nm \<Longrightarrow> entry_ok n UPDATE_FIELD [JInt dbBlockObj, JUInt blk, JInt BLOCK_WRITEDB, JString (Some nm), JInt a] (OnBlock (WriteDb nm a))"
  unfolding entry_ok_def redo_defs
  by (auto simp: action_defs object_defs field_defs intro!: param_rules)

lemma rseg_entries:
  "entry_ok n CREATE_OBJECT [JInt dbRSegObj, JUInt net, JInt x, JInt y, JUInt d, JBool ac] (OnRSeg (RSegCreate net x y d ac))"
  "net \<noteq> 0 \<Longrightarrow> entry_ok n DELETE_OBJECT [JInt dbRSegObj, JUInt seg, JUInt net] (OnRSeg (RSegDestroy seg net))"
  "entry_ok n DELETE_OBJECT [JInt dbRSegObj, JUInt seg, JUInt 0] (OnRSeg (RSegDestroyS seg))"
  "entry_ok n UPDATE_FIELD [JInt dbRSegObj, JUInt seg, JInt RSEG_SOURCE, JUInt p, JUInt s] (OnRSeg (RSegSource seg s))"
  "entry_ok n UPDATE_FIELD [JInt dbRSegObj, JUInt seg, JInt RSEG_TARGET, JUInt p, JUInt s] (OnRSeg (RSegTarget seg s))"
  "entry_ok n UPDATE_FIELD [JInt dbRSegObj, JUInt seg, JInt RSEG_RESISTANCE, JFloat pv, JFloat v, JInt k] (OnRSeg (RSegRes seg v k))"
  "entry_ok n UPDATE_FIELD [JInt dbRSegObj, JUInt seg, JInt RSEG_CAPACITANCE, JFloat pv, JFloat v, JInt k] (OnRSeg (RSegCap seg v k))"
  "entry_ok n UPDATE_FIELD [JInt dbRSegObj, JUInt seg, JInt RSEG_ADDRSEGCAPACITANCE, JUInt s] (OnRSeg (RSegAddCap seg s))"
  "entry_ok n UPDATE_FIELD [JInt dbRSegObj, JUInt seg, JInt RSEG_ADDRSEGRESISTANCE, JUInt s] (OnRSeg (RSegAddRes seg s))"
  "entry_ok n UPDATE_FIELD [JInt dbRSegObj, JUInt seg, JInt RSEG_COORDINATES, JInt px, JInt x, JInt py, JInt y] (OnRSeg (RSegCoords seg x y))"
  unfolding entry_ok_def redo_defs
  by (auto simp: action_defs object_defs field_defs intro!: param_rules)

lemma capnode_entries:
  "entry_ok n CREATE_OBJECT [JInt dbCapNodeObj, JUInt net, JUInt nd, JBool fr] (OnCapNode (CapNodeCreate net nd fr))"
  "entry_ok n DELETE_OBJECT [JInt dbCapNodeObj, JUInt nd] (OnCapNode (CapNodeDestroy nd))"
  "entry_ok n UPDATE_FIELD [JInt dbCapNodeObj, JUInt nd, JInt CAPNODE_FLAGS, JUInt p, JUInt f] (OnCapNode (CapNodeFlags nd f))"
  "entry_ok n UPDATE_FIELD [JInt dbCapNodeObj, JUInt nd, JInt CAPNODE_NODE_NUM, JUInt p, JUInt u] (OnCapNode (CapNodeNum nd u))"
  "entry_ok n UPDATE_FIELD [JInt dbCapNodeObj, JUInt nd, JInt CAPNODE_SETNET, JUInt p, JUInt u] (OnCapNode (CapNodeNet nd u))"
  "entry_ok n UPDATE_FIELD [JInt dbCapNodeObj, JUInt nd, JInt CAPNODE_SETNEXT, JUInt p, JUInt u] (OnCapNode (CapNodeNext nd u))"
  "entry_ok n UPDATE_FIELD [JInt dbCapNodeObj, JUInt nd, JInt CAPNODE_CAPACITANCE, JFloat pv, JFloat v, JInt k] (OnCapNode (CapNodeCap nd v k))"
  "entry_ok n UPDATE_FIELD [JInt dbCapNodeObj, JUInt nd, JInt CAPNODE_ADDCAPNCAPACITANCE, JUInt s] (OnCapNode (CapNodeAddCap nd s))"
  unfolding entry_ok_def redo_defs
  by (auto simp: action_defs object_defs field_defs intro!: param_rules)

lemma ccseg_entries:
  "entry_ok n CREATE_OBJECT [JInt dbCCSegObj, JUInt s, JUInt t, JBool m] (OnCCSeg (CCSegCreate s t m))"
  "entry_ok n DELETE_OBJECT [JInt dbCCSegObj, JUInt seg, JUInt 1] (OnCCSeg (CCSegDestroy seg))"
  "entry_ok n DELETE_OBJECT [JInt dbCCSegObj, JUInt seg, JUInt 0] (OnCCSeg (CCSegDestroyS seg))"
  "entry_ok n UPDATE_FIELD [JInt dbCCSegObj, JUInt seg, JInt CCSEG_CAPACITANCE, JFloat pv, JFloat v, JInt k] (OnCCSeg (CCSegCap seg v k))"
  "entry_ok n UPDATE_FIELD [JInt dbCCSegObj, JUInt seg, JInt CCSEG_ADDCCCAPACITANCE, JUInt s] (OnCCSeg (CCSegAddCap seg s))"
  "entry_ok n UPDATE_FIELD [JInt dbCCSegObj, JUInt seg, JInt CCSEG_SWAPCAPNODE, JUInt a, JUInt b] (OnCCSeg (CCSegSwap seg a b))"
  "entry_ok n UPDATE_FIELD [JInt dbCCSegObj, JUInt seg, JInt CCSEG_LINKCCSEG, JUInt c, JUInt q] (OnCCSeg (CCSegLink seg c q))"
  "entry_ok n UPDATE_FIELD [JInt dbCCSegObj, JUInt seg, JInt CCSEG_UNLINKCCSEG, JUInt c] (OnCCSeg (CCSegUnlink seg c))"
  unfolding entry_ok_def redo_defs
  by (auto simp: action_defs object_defs field_defs intro!: param_rules)

lemma all_caps_entry:
  "length caps \<le> ADS_MAX_CORNER
   \<Longrightarrow> entry_ok (length caps) UPDATE_FIELD ([JInt dbCCSegObj, JUInt seg, JInt CCSEG_SETALLCCCAP] @ map JDouble caps) (OnCCSeg (CCSegAllCaps seg caps))"
  unfolding entry_ok_def redo_defs
  by (auto simp: action_defs object_defs field_defs intro!: param_rules read_doubles)

definition log_writes :: "nat \<Rightarrow> (dbJournal \<Rightarrow> dbJournal result) \<Rightarrow> change \<Rightarrow> bool" where
  "log_writes n w c \<longleftrightarrow> (\<forall>j j'. w j = Inr j' \<longrightarrow> (\<exists>action vs. entry_ok n action vs c \<and> log_action action vs j = Inr j'))"

lemma writesI: "entry_ok n action vs c \<Longrightarrow> (\<And>j j'. w j = Inr j' \<Longrightarrow> log_action action vs j = Inr j') \<Longrightarrow> log_writes n w c"
  by (auto simp: log_writes_def)

lemmas entries = net_entries inst_entries term_entries block_entries(2,1,3) rseg_entries capnode_entries ccseg_entries

lemmas writer_defs = updateField_def log_net_create_def log_net_destroy_def log_net_flags_def log_reverseRSegs_def log_set1stRSegId_def
  log_set1stCapNodeId_def log_setTermExtIds_def log_inst_create_def log_inst_destroy_def log_inst_flags_def log_setOrigin_def
  log_swapMaster_def log_iterm_connect_def log_iterm_disconnect_def log_bterm_create_def log_bterm_destroy_def log_bterm_connect_def
  log_bterm_disconnect_def log_bterm_flags_def log_writeDb_def log_rseg_create_def log_rseg_destroy_def log_rseg_destroyS_def
  log_setSourceNode_def log_setTargetNode_def log_rseg_setResistance_def log_rseg_setCapacitance_def log_rseg_adjustCapacitance_def
  log_addRSegCapacitance_def log_addRSegResistance_def log_setCoords_def log_capnode_create_def log_capnode_destroy_def
  log_capnode_flags_def log_setNode_def log_setNet_def log_setNext_def log_capnode_setCapacitance_def log_capnode_adjustCapacitance_def
  log_addCapnCapacitance_def log_ccseg_create_def log_ccseg_destroy_def log_ccseg_destroyS_def log_ccseg_setCapacitance_def
  log_ccseg_adjustCapacitance_def log_addCcCapacitance_def log_swapCapnode_def log_Link_cc_seg_def log_unLink_cc_seg_def

lemma setCornerCount_log:
  "log_setCornerCount blk k e nm j = Inr j'
   \<Longrightarrow> log_action UPDATE_FIELD [JInt dbBlockObj, JUInt blk, JInt BLOCK_CORNERCOUNT, JInt k, JInt e, JString nm] j = Inr j'"
  by (simp add: log_setCornerCount_def split: if_splits)

lemma setAllCcCap_writes: "length caps \<le> ADS_MAX_CORNER \<Longrightarrow> log_writes (length caps) (log_setAllCcCap seg caps) (OnCCSeg (CCSegAllCaps seg caps))"
  by (rule writesI [OF all_caps_entry]) (simp_all add: log_setAllCcCap_def)

lemma edit_writes: "edit n w c \<Longrightarrow> log_writes n w c"
  by (induction n w c rule: edit.induct)
    (rule writesI, rule entries, assumption?, (assumption | erule setCornerCount_log | simp only: writer_defs) | (hypsubst, rule setAllCcCap_writes, assumption))+

lemma edit_entry:
  assumes "edit n w c" "w j = Inr j'"
  obtains action vs where "entry_ok n action vs c" "log_action action vs j = Inr j'"
  using edit_writes [OF assms(1)] assms(2) that unfolding log_writes_def by blast

subsection \<open>The log of a history\<close>

definition log_entry :: "nat \<Rightarrow> 8 word \<Rightarrow> jvalue list \<Rightarrow> 8 word list" where
  \<comment> \<open>an action that starts at this offset\<close>
  "log_entry i action vs = params (JUChar action # vs @ [JUChar END_ACTION, JUInt (of_nat i)])"

lemma pushParams: "fold pushParam vs j = j\<lparr>j_log := fold push vs (j_log j)\<rparr>"
  by (induction vs arbitrary: j) (simp_all add: pushParam_def)

lemma log_action_data:
  assumes "log_action action vs j = Inr j'"
  shows "\<not> start_action j" "\<not> start_action j'"
    "log_data (j_log j') = log_data (j_log j) @ log_entry (length (log_data (j_log j))) action vs"
proof -
  have "push_uchar x l = push (JUChar x) l" "push_uint y l = push (JUInt y) l" for x y l by simp_all
  note p = this push_data push_many
  show "\<not> start_action j" using assms by (auto simp: log_action_def beginAction_def)
  then show "\<not> start_action j'" "log_data (j_log j') = log_data (j_log j) @ log_entry (length (log_data (j_log j))) action vs"
    using assms by (auto simp: log_action_def beginAction_def endAction_def pushParams p log_size_def log_entry_def params_def simp del: push.simps)
qed

lemma step_entry:
  assumes "entry_ok n action vs c" "drop (log_idx l) (log_data l) = log_entry (log_idx l) action vs @ rest"
  shows "redo_step n l = Inr (Some c, l\<lparr>log_idx := log_idx l + length (log_entry (log_idx l) action vs)\<rparr>)"
proof -
  define fin where "fin = (\<lambda>c :: change option. bindP pop_uchar (\<lambda>end_action. bindP pop_uint (\<lambda>idx.
         if end_action = END_ACTION \<and> idx = of_nat (log_idx l) then retP c else (\<lambda>l. Inl Abort))))"
  have f: "reads_as (fin (Some c)) (value_bytes (JUChar END_ACTION) @ value_bytes (JUInt (of_nat (log_idx l))) @ []) (Some c)"
    unfolding fin_def
    by (rule reads_bind [OF reads_uchar], rule reads_bind [OF reads_uint]) (simp only: simp_thms if_True reads_ret)
  have "reads_as (bindP (redo_action n action) fin)
      (params vs @ value_bytes (JUChar END_ACTION) @ value_bytes (JUInt (of_nat (log_idx l))) @ []) (Some c)"
  proof (rule reads_bind)
    show "reads_as (redo_action n action) (params vs) (Some c)" using assms(1) by (simp only: entry_ok_def)
  qed (rule f)
  from reads_bind [where f = "\<lambda>a. bindP (redo_action n a) fin", OF reads_uchar this]
  have "reads_as (bindP pop_uchar (\<lambda>a. bindP (redo_action n a) fin))
      (value_bytes (JUChar action) @ params vs @ value_bytes (JUChar END_ACTION) @ value_bytes (JUInt (of_nat (log_idx l))) @ []) (Some c)" .
  then have "reads_as (bindP pop_uchar (\<lambda>a. bindP (redo_action n a) fin)) (log_entry (log_idx l) action vs) (Some c)"
    by (simp add: log_entry_def params_def)
  from reads_asD [OF this assms(2)] show ?thesis by (simp only: redo_step_def fin_def)
qed

lemma drop_entry:
  assumes "log_data l = xs @ es @ rest" "log_idx l = length xs"
  shows "drop (log_idx l) (log_data l) = es @ rest"
  using assms by simp

text \<open>\<open>redo\<close> on a log that starts with a history makes the changes of the history, and goes on behind it.\<close>

lemma history_log:
  assumes "history n j cs n' j'" "\<not> start_action j"
  shows "\<not> start_action j' \<and> (\<exists>es. log_data (j_log j') = log_data (j_log j) @ es)"
  using assms
proof (induction rule: history.induct)
  case (history_Cons n w c j j1 cs n' j')
  obtain action vs where a: "log_action action vs j = Inr j1" using history_Cons.hyps(1,2) by (rule edit_entry)
  show ?case using history_Cons.IH log_action_data(2,3) [OF a] by auto
qed simp

lemma history_redo:
  assumes "history n j cs n' j'" "\<not> start_action j" "log_data l = log_data (j_log j') @ rest" "log_idx l = length (log_data (j_log j))"
  shows "redo_loop n l = bindE (redo_loop n' (l\<lparr>log_idx := length (log_data (j_log j'))\<rparr>)) (\<lambda>ds. Inr (cs @ ds))"
  using assms
proof (induction arbitrary: l rule: history.induct)
  case (history_Nil n j)
  then have "l\<lparr>log_idx := length (log_data (j_log j))\<rparr> = l" by simp
  then show ?case by (cases "redo_loop n l") simp_all
next
  case (history_Cons n w c j j1 cs n' j')
  obtain action vs where a: "entry_ok n action vs c" "log_action action vs j = Inr j1"
    using history_Cons.hyps(1,2) by (rule edit_entry)
  note d = log_action_data [OF a(2)]
  obtain es where es: "log_data (j_log j') = log_data (j_log j1) @ es" using history_log [OF history_Cons.hyps(3) d(2)] by blast
  let ?e = "log_entry (length (log_data (j_log j))) action vs"
  have "log_data l = log_data (j_log j) @ ?e @ es @ rest" using history_Cons.prems(2) es d(3) by simp
  then have dr: "drop (log_idx l) (log_data l) = log_entry (log_idx l) action vs @ es @ rest"
    using history_Cons.prems(3) by (simp add: drop_entry)
  have s: "redo_step n l = Inr (Some c, l\<lparr>log_idx := length (log_data (j_log j1))\<rparr>)"
    using step_entry [OF a(1) dr] history_Cons.prems(3) d(3) by simp
  have ne: "\<not> log_end l" using dr by (auto simp: log_end_def log_entry_def params_def)
  have "redo_loop (corners_after (Some c) n) (l\<lparr>log_idx := length (log_data (j_log j1))\<rparr>)
      = bindE (redo_loop n' (l\<lparr>log_idx := length (log_data (j_log j'))\<rparr>)) (\<lambda>ds. Inr (cs @ ds))"
    using history_Cons.IH [OF d(2), of "l\<lparr>log_idx := length (log_data (j_log j1))\<rparr>"] history_Cons.prems(2) by simp
  then show ?case by (subst redo_loop.simps) (simp add: ne s bindE_assoc del: bindE_simps(1))
qed

lemma redo_at_end: "redo_loop n ((log_begin l)\<lparr>log_idx := length (log_data l)\<rparr>) = Inr []"
  by (subst redo_loop.simps) (simp add: log_end_def log_begin_def)

subsection \<open>Redo\<close>

lemma redo_history:
  assumes "history n new_journal cs n' j"
  shows "redo n j = Inr cs"
proof -
  have "redo_loop n (log_begin (j_log j)) = bindE (redo_loop n' ((log_begin (j_log j))\<lparr>log_idx := length (log_data (j_log j))\<rparr>)) (\<lambda>ds. Inr (cs @ ds))"
    by (rule history_redo [OF assms, of _ "[]"]) (simp_all add: new_journal_def log_begin_def)
  then show ?thesis by (simp add: redo_def redo_at_end)
qed

text \<open>
  C35: \<open>redo\<close> of a journal makes exactly the changes that were recorded in it, in their order, and none of
  its assertions fails. The edits are all those that the code records, but for \<open>setNonDefaultRule\<close> and the
  adjustment of a capacitance at another corner than the first, with names of less than \<open>2 ^ 31\<close> bytes.
\<close>
theorem journal_redo:
  assumes "history n new_journal cs n' j"
  shows "redo n j = Inr cs"
  using assms by (rule redo_history)

definition two_edits :: "dbJournal \<Rightarrow> dbJournal result" where
  \<comment> \<open>a new net, and a flag of it\<close>
  "two_edits j = bindE (log_net_create [110] j) (log_net_flags 1 0 3)"

lemma two_edits_history:
  assumes "two_edits j = Inr j'"
  shows "history 1 j [OnNet (NetCreate [110]), OnNet (NetFlags 1 3)] 1 j'"
proof -
  obtain j1 where j: "log_net_create [110] j = Inr j1" "log_net_flags 1 0 3 j1 = Inr j'" using assms by (auto simp: two_edits_def)
  have n: "corners_after (Some (OnNet c)) n = n" for c n by (simp add: corners_after_def)
  have "edit 1 (log_net_create [110]) (OnNet (NetCreate [110]))" by (rule edit.intros) (simp add: string_ok_def)
  moreover have "edit 1 (log_net_flags 1 0 3) (OnNet (NetFlags 1 3))" by (rule edit.intros)
  ultimately show ?thesis using j by (simp add: history_Cons history_Nil n)
qed

lemma two_edits_run: "\<not> start_action j \<Longrightarrow> \<exists>j'. two_edits j = Inr j'"
  by (simp add: two_edits_def writer_defs log_action_def beginAction_def endAction_def pushParam_def)

theorem journal_redo_witness: "\<exists>j. two_edits new_journal = Inr j \<and> redo 1 j = Inr [OnNet (NetCreate [110]), OnNet (NetFlags 1 3)]"
proof -
  obtain j where j: "two_edits new_journal = Inr j" using two_edits_run [of new_journal] by (auto simp: new_journal_def)
  then show ?thesis using journal_redo [OF two_edits_history [OF j]] by blast
qed

text \<open>
  The corner of an adjusted capacitance is lost: a segment adjusted at any corner is set at the first corner
  by \<open>redo\<close> (likewise for capacitor nodes and coupling capacitors).
\<close>

lemma adjusted_at_first_corner:
  assumes "log_rseg_adjustCapacitance seg pv v k new_journal = Inr j"
  shows "redo n j = Inr [OnRSeg (RSegCap seg v 0)]"
proof -
  have "log_rseg_adjustCapacitance seg pv v 0 new_journal = Inr j" using assms by (simp add: log_rseg_adjustCapacitance_def)
  then have "history n new_journal [OnRSeg (RSegCap seg v 0)] n j"
    by (rule history_Cons [OF edit.intros(30)]) (simp add: corners_after_def history_Nil)
  from history_redo [OF this, of "log_begin (j_log j)" "[]"] show ?thesis
    using redo_at_end [of n "j_log j"] by (simp add: redo_def new_journal_def log_begin_def)
qed

text \<open>An action whose parameters are not all read: the check of the end of the action fails.\<close>

lemma step_unread:
  assumes "reads_as (redo_action n action) (params vs) c" "drop (log_idx l) (log_data l) = params (JUChar action # vs) @ t # rest"
    and "t \<noteq> LOG_UCHAR"
  shows "redo_step n l = Inl Abort"
proof -
  let ?l1 = "l\<lparr>log_idx := log_idx l + 2\<rparr>"
  have a: "pop_uchar l = Inr (action, ?l1)"
    using reads_asD [OF reads_uchar, of l action "params vs @ t # rest"] assms(2) by (simp add: params_Cons)
  have d1: "drop (log_idx ?l1) (log_data ?l1) = params vs @ t # rest"
    using drop_later [of "log_idx l" "log_data l" "[LOG_UCHAR, action]"] assms(2) by (simp add: params_Cons)
  note b = reads_asD [OF assms(1) d1]
  have "drop (log_idx ?l1 + length (params vs)) (log_data ?l1) = t # rest" by (rule drop_later [OF d1])
  then have "check_type LOG_UCHAR (?l1\<lparr>log_idx := log_idx ?l1 + length (params vs)\<rparr>) = Inl Abort"
    using check_at [of "?l1\<lparr>log_idx := log_idx ?l1 + length (params vs)\<rparr>" t rest LOG_UCHAR] assms(3) by simp
  then have "pop_uchar (?l1\<lparr>log_idx := log_idx ?l1 + length (params vs)\<rparr>) = Inl Abort" by (simp add: pop_uchar_def)
  then show ?thesis unfolding redo_step_def bindP_def using a b by simp
qed

lemma rule_unread: "reads_as (redo_action n UPDATE_FIELD) (params [JInt dbTechNonDefaultRuleObj]) None"
  unfolding redo_defs by (auto simp: action_defs object_defs intro!: param_rules)

text \<open>
  C36: A non-default rule cannot be redone: \<open>setNonDefaultRule\<close> records the type and the id of the rule instead
  of those of the net, so \<open>redo\<close> does not read the parameters and its check of the end of the action fails,
  whatever was recorded before and after.
\<close>
theorem journal_rule_lost:
  assumes "history n new_journal cs n' j" "log_setNonDefaultRule net (Some r) p q b b' j = Inr j1" "history m j1 cs' m' j2"
  shows "redo n j2 = Inl Abort"
proof -
  have j: "\<not> start_action j" using history_log [OF assms(1)] by (simp add: new_journal_def)
  let ?vs = "[JUInt r, JInt NET_NON_DEFAULT_RULE, JUInt p, JUInt q, JBool b, JBool b']"
  have a: "log_action UPDATE_FIELD (JInt dbTechNonDefaultRuleObj # ?vs) j = Inr j1"
    using assms(2) by (simp add: log_setNonDefaultRule_def log_action_def)
  note d = log_action_data [OF a]
  obtain es where es: "log_data (j_log j2) = log_data (j_log j1) @ es" using history_log [OF assms(3) d(2)] by blast
  let ?i = "length (log_data (j_log j))" and ?l = "(log_begin (j_log j2))\<lparr>log_idx := length (log_data (j_log j))\<rparr>"
  have "\<exists>rest. log_entry ?i UPDATE_FIELD (JInt dbTechNonDefaultRuleObj # ?vs) = params (JUChar UPDATE_FIELD # [JInt dbTechNonDefaultRuleObj]) @ LOG_UINT # rest"
    by (simp add: log_entry_def params_def)
  then obtain rest where "log_entry ?i UPDATE_FIELD (JInt dbTechNonDefaultRuleObj # ?vs) = params (JUChar UPDATE_FIELD # [JInt dbTechNonDefaultRuleObj]) @ LOG_UINT # rest" ..
  then have dr: "drop (log_idx ?l) (log_data ?l) = params (JUChar UPDATE_FIELD # [JInt dbTechNonDefaultRuleObj]) @ LOG_UINT # (rest @ es)"
    using es d(3) by (simp add: log_begin_def)
  have "redo_step n' ?l = Inl Abort" by (rule step_unread [OF rule_unread dr]) (simp add: log_type_defs)
  moreover have "\<not> log_end ?l" using dr by (auto simp: log_end_def params_Cons)
  ultimately have "redo_loop n' ?l = Inl Abort" by (subst redo_loop.simps) simp
  moreover have "redo_loop n (log_begin (j_log j2)) = bindE (redo_loop n' ?l) (\<lambda>ds. Inr (cs @ ds))"
    by (rule history_redo [OF assms(1)]) (use es d(3) in \<open>simp_all add: new_journal_def log_begin_def\<close>)
  ultimately show ?thesis by (simp add: redo_def)
qed

theorem journal_rule_lost_witness:
  "\<exists>j j1 j2. two_edits new_journal = Inr j \<and> log_setNonDefaultRule 1 (Some 7) 0 7 False True j = Inr j1 \<and> two_edits j1 = Inr j2
     \<and> redo 1 j2 = Inl Abort"
proof -
  obtain j where j: "two_edits new_journal = Inr j" using two_edits_run [of new_journal] by (auto simp: new_journal_def)
  have s: "\<not> start_action j" using history_log [OF two_edits_history [OF j]] by (simp add: new_journal_def)
  then obtain j1 where j1: "log_setNonDefaultRule 1 (Some 7) 0 7 False True j = Inr j1" "\<not> start_action j1"
    by (auto simp: log_setNonDefaultRule_def beginAction_def endAction_def)
  obtain j2 where j2: "two_edits j1 = Inr j2" using two_edits_run [OF j1(2)] by blast
  show ?thesis using j j1(1) j2 journal_rule_lost [OF two_edits_history [OF j] j1(1) two_edits_history [OF j2]] by blast
qed

subsection \<open>Undo\<close>

lemma next_bytes_short:
  "log_idx l \<le> length (log_data l) \<Longrightarrow> length (log_data l) < log_idx l + n \<Longrightarrow> next_bytes n l = Inl Abort"
proof (induction n arbitrary: l)
  case (Suc n)
  then show ?case by (cases "log_idx l < length (log_data l)") (auto simp: log_next_def)
qed simp

lemma history_end:
  assumes "history n j cs n' j'" "cs \<noteq> []"
  shows "\<exists>pre (k :: 32 word). log_data (j_log j') = pre @ word_bytes 4 k"
  using assms
proof (induction rule: history.induct)
  case (history_Cons n w c j j1 cs n' j')
  show ?case
  proof (cases cs)
    case Nil
    then have "j' = j1" using history_Cons.hyps(3) by (auto elim: history.cases)
    obtain action vs where a: "log_action action vs j = Inr j1" using history_Cons.hyps(1,2) by (rule edit_entry)
    have "\<exists>pre. log_data (j_log j1) = pre @ word_bytes 4 (of_nat (length (log_data (j_log j))) :: 32 word)"
      using log_action_data(3) [OF a] by (simp add: log_entry_def params_def)
    then show ?thesis using \<open>j' = j1\<close> by blast
  next
    case (Cons c' cs')
    then show ?thesis using history_Cons.IH by simp
  qed
qed simp

text \<open>
  C37: \<open>undo\<close> of a journal that is not empty fails at once: the offset at the end of the log is preceded by the
  byte with its type, and \<open>undo\<close> starts to read behind this byte.
\<close>
theorem journal_undo_fails:
  assumes "history n new_journal cs n' j" "cs \<noteq> []" "length (log_data (j_log j)) < 2 ^ 32"
  shows "undo (Suc fuel) j = Inl Abort"
proof -
  obtain pre k where d: "log_data (j_log j) = pre @ word_bytes 4 (k :: 32 word)" using history_end [OF assms(1,2)] by blast
  let ?n = "length pre"
  have len: "length (log_data (j_log j)) = ?n + 4" using d by simp
  have "log_size (j_log j) - 4 = (of_nat ?n :: 32 word)" by (simp add: log_size_def len)
  moreover have "unat (of_nat ?n :: 32 word) = ?n" using assms(3) len by (simp add: unat_of_nat)
  ultimately have i: "log_idx (log_set (log_size (j_log j) - 4) (j_log j)) = ?n" by (simp add: log_set_def)
  define l where "l = log_set (log_size (j_log j) - 4) (j_log j)"
  have l: "log_idx l = ?n" "log_data l = log_data (j_log j)" using i by (simp_all add: l_def log_set_def)
  have "\<exists>b bs. word_bytes 4 k = b # bs" by (cases "word_bytes 4 k") (auto dest: arg_cong [of _ _ length])
  then obtain b bs where b: "word_bytes 4 k = b # bs" by blast
  have "drop (log_idx l) (log_data l) = b # bs" using l d b by simp
  then have c: "check_type LOG_UINT l = (if b = LOG_UINT then Inr (l\<lparr>log_idx := log_idx l + 1\<rparr>) else Inl Abort)" by (rule check_at)
  have "next_bytes 4 (l\<lparr>log_idx := log_idx l + 1\<rparr>) = Inl Abort" using l len by (intro next_bytes_short) simp_all
  then have "pop_uint l = Inl Abort" using c unfolding pop_uint_def by (simp del: next_bytes.simps)
  then show ?thesis using d len by (simp add: undo_def log_empty_def l_def [symmetric])
qed

lemma two_edits_size:
  assumes "two_edits new_journal = Inr j"
  shows "length (log_data (j_log j)) < 2 ^ 32"
proof -
  obtain j1 where j: "log_net_create [110] new_journal = Inr j1" "log_net_flags 1 0 3 j1 = Inr j" using assms by (auto simp: two_edits_def)
  note d = log_action_data(3) [OF j(1) [unfolded log_net_create_def]] log_action_data(3) [OF j(2) [unfolded log_net_flags_def updateField_def]]
  show ?thesis by (simp add: d log_entry_def params_def new_journal_def)
qed

theorem journal_undo_fails_witness: "\<exists>j. two_edits new_journal = Inr j \<and> undo 1 j = Inl Abort"
proof -
  obtain j where j: "two_edits new_journal = Inr j" using two_edits_run [of new_journal] by (auto simp: new_journal_def)
  then show ?thesis using journal_undo_fails [OF two_edits_history [OF j] _ two_edits_size [OF j], of 0] by auto
qed

end
