(* ===== verification/Odb_Net.thy ===== *)
theory Odb_Net
  imports Odb_Hash Odb_Journal_Redo "HOL-Library.List_Lexorder" "HOL-Library.Char_ord"
begin

section \<open>Connectivity of a block\<close>

text \<open>
  The objects of \<open>odb/src/db\<close> that make up the netlist of a block and the operations that change it:
  \<open>dbNet.cpp\<close>, \<open>dbInst.cpp\<close>, \<open>dbInstHdr.cpp\<close>, \<open>dbITerm.cpp\<close>, \<open>dbBTerm.cpp\<close>, and the ECO of
  \<open>dbDatabase.cpp\<close>, which records the operations in a journal and makes them again. The objects live
  in object tables; nets, instances and block terminals are indexed by name, the headers of instances by
  the number of their master. The terminals of a net form two doubly linked lists through the terminals.
  A pointer is the id of its object, 0 is the null pointer; a reference through an id that does not
  exist fails the assertion of \<open>getPtr\<close>. The masters of the libraries do not change; they are the
  argument \<open>libs\<close>, from library and master ids. Boxes, wires, pins, regions, modules, groups and
  properties of the objects are not part of the netlist and left out, as are the callbacks.
\<close>

subsection \<open>Objects\<close>

record net_obj = "string entry" +
  n_iterms :: nat
  n_bterms :: nat

record bterm_obj = "string entry" +
  bt_net :: nat
  next_bterm :: nat
  prev_bterm :: nat

record iterm_obj =
  it_net :: nat
  it_inst :: nat
  it_mterm_idx :: nat
  next_net_iterm :: nat
  prev_net_iterm :: nat

record inst_obj = "string entry" +
  i_inst_hdr :: nat
  i_iterms :: "nat list"

record hdr_obj = "32 word entry" +
  h_lib :: nat
  h_master :: nat
  h_mterms :: "nat list"
  inst_cnt :: int

record lib_mterm =
  mt_oid :: nat
  mt_name :: string
  mt_order_id :: nat

record lib_master =
  m_id :: "32 word"
  m_lib :: nat
  m_oid :: nat
  m_frozen :: bool
  m_mterms :: "lib_mterm list"

type_synonym libs = "nat \<Rightarrow> nat \<Rightarrow> lib_master option"

record netlist =
  net_tbl :: "net_obj dbTable"
  net_hash :: dbHashTable
  inst_tbl :: "inst_obj dbTable"
  inst_hash :: dbHashTable
  inst_hdr_tbl :: "hdr_obj dbTable"
  inst_hdr_hash :: dbHashTable
  iterm_tbl :: "iterm_obj dbTable"
  bterm_tbl :: "bterm_obj dbTable"
  bterm_hash :: dbHashTable
  journal :: "dbJournal option"
  journal_pending :: "dbJournal option"

definition netlist_new :: netlist where
  "netlist_new =
     \<lparr>net_tbl = dbTable_new 128 7, net_hash = dbHashTable_new, inst_tbl = dbTable_new 128 7, inst_hash = dbHashTable_new,
      inst_hdr_tbl = dbTable_new 128 7, inst_hdr_hash = dbHashTable_new, iterm_tbl = dbTable_new 128 7,
      bterm_tbl = dbTable_new 128 7, bterm_hash = dbHashTable_new, journal = None, journal_pending = None\<rparr>"

subsection \<open>Access through pointers\<close>

definition assign :: "nat \<Rightarrow> ('a \<Rightarrow> 'a) \<Rightarrow> 'a dbTable \<Rightarrow> 'a dbTable result" where
  \<comment> \<open>\<open>getPtr(oid)->field = value\<close>\<close>
  "assign oid f t = bindE (getPtr t oid) (\<lambda>_. Inr (update_obj oid f t))"

definition mod_net :: "nat \<Rightarrow> (net_obj \<Rightarrow> net_obj) \<Rightarrow> netlist \<Rightarrow> netlist result" where
  "mod_net n f b = bindE (assign n f (net_tbl b)) (\<lambda>t. Inr (b\<lparr>net_tbl := t\<rparr>))"

definition mod_iterm :: "nat \<Rightarrow> (iterm_obj \<Rightarrow> iterm_obj) \<Rightarrow> netlist \<Rightarrow> netlist result" where
  "mod_iterm i f b = bindE (assign i f (iterm_tbl b)) (\<lambda>t. Inr (b\<lparr>iterm_tbl := t\<rparr>))"

definition mod_bterm :: "nat \<Rightarrow> (bterm_obj \<Rightarrow> bterm_obj) \<Rightarrow> netlist \<Rightarrow> netlist result" where
  "mod_bterm i f b = bindE (assign i f (bterm_tbl b)) (\<lambda>t. Inr (b\<lparr>bterm_tbl := t\<rparr>))"

definition mod_inst :: "nat \<Rightarrow> (inst_obj \<Rightarrow> inst_obj) \<Rightarrow> netlist \<Rightarrow> netlist result" where
  "mod_inst i f b = bindE (assign i f (inst_tbl b)) (\<lambda>t. Inr (b\<lparr>inst_tbl := t\<rparr>))"

definition mod_hdr :: "nat \<Rightarrow> (hdr_obj \<Rightarrow> hdr_obj) \<Rightarrow> netlist \<Rightarrow> netlist result" where
  "mod_hdr h f b = bindE (assign h f (inst_hdr_tbl b)) (\<lambda>t. Inr (b\<lparr>inst_hdr_tbl := t\<rparr>))"

definition write_journal :: "(dbJournal \<Rightarrow> dbJournal result) \<Rightarrow> netlist \<Rightarrow> netlist result" where
  \<comment> \<open>\<open>if (block->_journal) ...\<close>\<close>
  "write_journal w b = (case journal b of None \<Rightarrow> Inr b | Some j \<Rightarrow> bindE (w j) (\<lambda>j. Inr (b\<lparr>journal := Some j\<rparr>)))"

definition cstring :: "string \<Rightarrow> name" where
  "cstring s = map of_char s"

definition std_string :: "name \<Rightarrow> string" where
  "std_string nm = map (\<lambda>w. char_of (unat w)) nm"

subsection \<open>Terminals of instances\<close>

definition unlink_iterm :: "nat \<Rightarrow> iterm_obj \<Rightarrow> net_obj \<Rightarrow> netlist \<Rightarrow> netlist result" where
  \<comment> \<open>the part of \<open>disconnect\<close> that takes the terminal out of the list of its net\<close>
  "unlink_iterm oid iterm net b =
     (if n_iterms net = oid then
        bindE (mod_net (it_net iterm) (\<lambda>n. n\<lparr>n_iterms := next_net_iterm iterm\<rparr>) b) (\<lambda>b.
        if next_net_iterm iterm \<noteq> 0 then mod_iterm (next_net_iterm iterm) (\<lambda>t. t\<lparr>prev_net_iterm := 0\<rparr>) b else Inr b)
      else
        bindE (if next_net_iterm iterm \<noteq> 0
               then mod_iterm (next_net_iterm iterm) (\<lambda>n. n\<lparr>prev_net_iterm := prev_net_iterm iterm\<rparr>) b else Inr b) (\<lambda>b.
        if prev_net_iterm iterm \<noteq> 0
        then mod_iterm (prev_net_iterm iterm) (\<lambda>p. p\<lparr>next_net_iterm := next_net_iterm iterm\<rparr>) b else Inr b))"

definition link_iterm :: "nat \<Rightarrow> net_obj \<Rightarrow> netlist \<Rightarrow> netlist result" where
  \<comment> \<open>the part of \<open>connect\<close> that links the terminal with the first one of the net\<close>
  "link_iterm oid n b =
     (if n_iterms n \<noteq> 0 then
        bindE (mod_iterm oid (\<lambda>it. it\<lparr>next_net_iterm := n_iterms n, prev_net_iterm := 0\<rparr>) b)
          (mod_iterm (n_iterms n) (\<lambda>tail. tail\<lparr>prev_net_iterm := oid\<rparr>))
      else mod_iterm oid (\<lambda>it. it\<lparr>next_net_iterm := 0, prev_net_iterm := 0\<rparr>) b)"

definition dbITerm_disconnect :: "nat \<Rightarrow> netlist \<Rightarrow> netlist result" where
  "dbITerm_disconnect oid b =
     bindE (getPtr (iterm_tbl b) oid) (\<lambda>iterm.
       if it_net iterm = 0 then Inr b
       else
         bindE (getPtr (net_tbl b) (it_net iterm)) (\<lambda>net.
         bindE (write_journal (log_iterm_disconnect (of_nat oid)) b) (\<lambda>b.
         bindE (unlink_iterm oid iterm net b) (\<lambda>b.
         mod_iterm oid (\<lambda>it. it\<lparr>it_net := 0\<rparr>) b))))"

definition dbITerm_connect :: "nat \<Rightarrow> nat \<Rightarrow> netlist \<Rightarrow> netlist result" where
  "dbITerm_connect oid net b =
     bindE (getPtr (iterm_tbl b) oid) (\<lambda>iterm.
       if it_net iterm = net then Inr b
       else
         bindE (if it_net iterm \<noteq> 0 then dbITerm_disconnect oid b else Inr b) (\<lambda>b.
         bindE (write_journal (log_iterm_connect (of_nat oid) (of_nat net)) b) (\<lambda>b.
         bindE (mod_iterm oid (\<lambda>it. it\<lparr>it_net := net\<rparr>) b) (\<lambda>b.
         bindE (getPtr (net_tbl b) net) (\<lambda>n.
         bindE (link_iterm oid n b) (\<lambda>b.
         mod_net net (\<lambda>n. n\<lparr>n_iterms := oid\<rparr>) b))))))"

subsection \<open>Terminals of the block\<close>

definition link_bterm :: "nat \<Rightarrow> net_obj \<Rightarrow> netlist \<Rightarrow> netlist result" where
  \<comment> \<open>the part of \<open>connectNet\<close> that links the terminal with the first one of the net\<close>
  "link_bterm oid n b =
     bindE (if n_bterms n \<noteq> 0 then
              bindE (mod_bterm oid (\<lambda>bt. bt\<lparr>next_bterm := n_bterms n\<rparr>) b)
                (mod_bterm (n_bterms n) (\<lambda>tail. tail\<lparr>prev_bterm := oid\<rparr>))
            else mod_bterm oid (\<lambda>bt. bt\<lparr>next_bterm := 0\<rparr>) b)
       (mod_bterm oid (\<lambda>bt. bt\<lparr>prev_bterm := 0\<rparr>))"

definition unlink_bterm :: "nat \<Rightarrow> bterm_obj \<Rightarrow> net_obj \<Rightarrow> netlist \<Rightarrow> netlist result" where
  \<comment> \<open>the part of \<open>disconnectNet\<close> that takes the terminal out of the list of its net\<close>
  "unlink_bterm oid bterm net b =
     (if n_bterms net = oid then
        bindE (mod_net (bt_net bterm) (\<lambda>n. n\<lparr>n_bterms := next_bterm bterm\<rparr>) b) (\<lambda>b.
        if next_bterm bterm \<noteq> 0 then mod_bterm (next_bterm bterm) (\<lambda>t. t\<lparr>prev_bterm := 0\<rparr>) b else Inr b)
      else
        bindE (if next_bterm bterm \<noteq> 0
               then mod_bterm (next_bterm bterm) (\<lambda>n. n\<lparr>prev_bterm := prev_bterm bterm\<rparr>) b else Inr b) (\<lambda>b.
        if prev_bterm bterm \<noteq> 0
        then mod_bterm (prev_bterm bterm) (\<lambda>p. p\<lparr>next_bterm := next_bterm bterm\<rparr>) b else Inr b))"

definition connectNet :: "nat \<Rightarrow> nat \<Rightarrow> netlist \<Rightarrow> netlist result" where
  "connectNet oid net b =
     bindE (mod_bterm oid (\<lambda>bt. bt\<lparr>bt_net := net\<rparr>) b) (\<lambda>b.
     bindE (getPtr (net_tbl b) net) (\<lambda>n.
     bindE (link_bterm oid n b)
       (mod_net net (\<lambda>n. n\<lparr>n_bterms := oid\<rparr>))))"

definition disconnectNet :: "nat \<Rightarrow> netlist \<Rightarrow> netlist result" where
  "disconnectNet oid b =
     bindE (getPtr (bterm_tbl b) oid) (\<lambda>bterm.
     bindE (getPtr (net_tbl b) (bt_net bterm)) (\<lambda>net.
     bindE (unlink_bterm oid bterm net b)
       (mod_bterm oid (\<lambda>bt. bt\<lparr>bt_net := 0\<rparr>))))"

definition dbBTerm_connect :: "nat \<Rightarrow> nat \<Rightarrow> netlist \<Rightarrow> netlist result" where
  "dbBTerm_connect oid net b =
     bindE (write_journal (log_bterm_connect (of_nat oid) (of_nat net)) b) (\<lambda>b.
     bindE (getPtr (bterm_tbl b) oid) (\<lambda>bterm.
     bindE (if bt_net bterm \<noteq> 0 then disconnectNet oid b else Inr b)
       (connectNet oid net)))"

definition dbBTerm_disconnect :: "nat \<Rightarrow> netlist \<Rightarrow> netlist result" where
  "dbBTerm_disconnect oid b =
     bindE (getPtr (bterm_tbl b) oid) (\<lambda>bterm.
       if bt_net bterm \<noteq> 0 then bindE (write_journal (log_bterm_disconnect (of_nat oid)) b) (disconnectNet oid) else Inr b)"

definition dbBTerm_create :: "nat \<Rightarrow> string \<Rightarrow> netlist \<Rightarrow> (nat \<times> netlist) result" where
  "dbBTerm_create net nm b =
     bindE (name_hasMember nm (bterm_hash b, bterm_tbl b)) (\<lambda>mem.
       if mem then Inr (0, b)
       else
         bindE (write_journal (log_bterm_create (of_nat net) (cstring nm)) b) (\<lambda>b.
         bindE (dbTable_create \<lparr>entry_key = nm, next_entry = 0, bt_net = 0, next_bterm = 0, prev_bterm = 0\<rparr> (bterm_tbl b)) (\<lambda>(oid, t).
         bindE (name_insert oid (bterm_hash b, t)) (\<lambda>(h, t).
         bindE (connectNet oid net (b\<lparr>bterm_hash := h, bterm_tbl := t\<rparr>)) (\<lambda>b. Inr (oid, b))))))"

definition dbBTerm_destroy :: "nat \<Rightarrow> netlist \<Rightarrow> netlist result" where
  "dbBTerm_destroy oid b =
     bindE (getPtr (bterm_tbl b) oid) (\<lambda>bterm.
     bindE (if bt_net bterm \<noteq> 0 then disconnectNet oid b else Inr b) (\<lambda>b.
     bindE (write_journal (log_bterm_destroy (of_nat oid)) b) (\<lambda>b.
     bindE (name_remove oid (bterm_hash b, bterm_tbl b)) (\<lambda>(h, t).
     bindE (dbTable_destroy oid t) (\<lambda>t.
       Inr (b\<lparr>bterm_hash := h, bterm_tbl := t\<rparr>))))))"

subsection \<open>Nets\<close>

definition dbNet_create :: "string \<Rightarrow> bool \<Rightarrow> netlist \<Rightarrow> (nat \<times> netlist) result" where
  "dbNet_create nm skipExistingCheck b =
     bindE (if skipExistingCheck then Inr False else name_hasMember nm (net_hash b, net_tbl b)) (\<lambda>mem.
       if mem then Inr (0, b)
       else
         bindE (write_journal (log_net_create (cstring nm)) b) (\<lambda>b.
         bindE (dbTable_create \<lparr>entry_key = nm, next_entry = 0, n_iterms = 0, n_bterms = 0\<rparr> (net_tbl b)) (\<lambda>(oid, t).
         bindE (name_insert oid (net_hash b, t)) (\<lambda>(h, t).
           Inr (oid, b\<lparr>net_hash := h, net_tbl := t\<rparr>)))))"

fun disconnect_iterms :: "nat \<Rightarrow> nat \<Rightarrow> netlist \<Rightarrow> netlist result" where
  \<comment> \<open>the loop over the terminals of the net, from the cursor \<open>iitr\<close>, with a bound on its rounds\<close>
  "disconnect_iterms fuel iitr b =
     (if iitr = 0 then Inr b
      else case fuel of
        0 \<Rightarrow> Inl NoReturn
      | Suc fuel \<Rightarrow>
          bindE (getPtr (iterm_tbl b) iitr) (\<lambda>iterm.
          bindE (dbITerm_disconnect iitr b) (disconnect_iterms fuel (next_net_iterm iterm))))"

declare disconnect_iterms.simps [simp del]

fun destroy_bterms :: "nat \<Rightarrow> nat \<Rightarrow> netlist \<Rightarrow> netlist result" where
  "destroy_bterms fuel bitr b =
     (if bitr = 0 then Inr b
      else case fuel of
        0 \<Rightarrow> Inl NoReturn
      | Suc fuel \<Rightarrow>
          bindE (getPtr (bterm_tbl b) bitr) (\<lambda>bterm.
          bindE (dbBTerm_destroy bitr b) (destroy_bterms fuel (next_bterm bterm))))"

declare destroy_bterms.simps [simp del]

definition dbNet_destroy :: "nat \<Rightarrow> netlist \<Rightarrow> netlist result" where
  "dbNet_destroy oid b =
     bindE (getPtr (net_tbl b) oid) (\<lambda>net.
     bindE (disconnect_iterms (chain_fuel (iterm_tbl b)) (n_iterms net) b) (\<lambda>b.
     bindE (getPtr (net_tbl b) oid) (\<lambda>net.
     bindE (destroy_bterms (chain_fuel (bterm_tbl b)) (n_bterms net) b) (\<lambda>b.
     bindE (write_journal (log_net_destroy (of_nat oid)) b) (\<lambda>b.
     bindE (name_remove oid (net_hash b, net_tbl b)) (\<lambda>(h, t).
     bindE (dbTable_destroy oid t) (\<lambda>t.
       Inr (b\<lparr>net_hash := h, net_tbl := t\<rparr>))))))))"

subsection \<open>Instances\<close>

definition dbInstHdr_create :: "lib_master \<Rightarrow> netlist \<Rightarrow> (nat \<times> netlist) result" where
  "dbInstHdr_create master b =
     (if \<not> m_frozen master then Inr (0, b)
      else bindE (id_hasMember (m_id master) (inst_hdr_hash b, inst_hdr_tbl b)) (\<lambda>mem.
        if mem then Inr (0, b)
        else
          bindE (dbTable_create \<lparr>entry_key = m_id master, next_entry = 0, h_lib = m_lib master, h_master = m_oid master,
                   h_mterms = map mt_oid (m_mterms master), inst_cnt = 0\<rparr> (inst_hdr_tbl b)) (\<lambda>(oid, t).
          bindE (id_insert oid (inst_hdr_hash b, t)) (\<lambda>(h, t).
            Inr (oid, b\<lparr>inst_hdr_hash := h, inst_hdr_tbl := t\<rparr>)))))"

definition dbInstHdr_destroy :: "nat \<Rightarrow> netlist \<Rightarrow> netlist result" where
  "dbInstHdr_destroy oid b =
     bindE (getPtr (inst_hdr_tbl b) oid) (\<lambda>hdr.
       if inst_cnt hdr \<noteq> 0 then Inl Abort
       else bindE (id_remove oid (inst_hdr_hash b, inst_hdr_tbl b)) (\<lambda>(h, t).
            bindE (dbTable_destroy oid t) (\<lambda>t. Inr (b\<lparr>inst_hdr_hash := h, inst_hdr_tbl := t\<rparr>))))"

definition need_hdr :: "lib_master \<Rightarrow> netlist \<Rightarrow> (nat \<times> netlist) result" where
  \<comment> \<open>the header of a master, a new one if there is none\<close>
  "need_hdr master b =
     bindE (id_find (m_id master) (inst_hdr_hash b, inst_hdr_tbl b)) (\<lambda>hdr.
       if hdr = 0
       then bindE (dbInstHdr_create master b) (\<lambda>(hdr, b). if hdr = 0 then Inl Abort else Inr (hdr, b))
       else Inr (hdr, b))"

definition drop_hdr :: "32 word \<Rightarrow> netlist \<Rightarrow> netlist result" where
  \<comment> \<open>an instance leaves the header of its master, which goes with its last instance\<close>
  "drop_hdr k b =
     bindE (id_find k (inst_hdr_hash b, inst_hdr_tbl b)) (\<lambda>hdr.
     if hdr = 0 then Inl NullDeref else
     bindE (mod_hdr hdr (\<lambda>h. h\<lparr>inst_cnt := inst_cnt h - 1\<rparr>) b) (\<lambda>b.
     bindE (getPtr (inst_hdr_tbl b) hdr) (\<lambda>h.
       if inst_cnt h = 0 then dbInstHdr_destroy hdr b else Inr b)))"

definition getMaster :: "libs \<Rightarrow> nat \<Rightarrow> netlist \<Rightarrow> lib_master result" where
  "getMaster libs oid b =
     bindE (getPtr (inst_tbl b) oid) (\<lambda>inst.
     bindE (getPtr (inst_hdr_tbl b) (i_inst_hdr inst)) (\<lambda>hdr.
       case libs (h_lib hdr) (h_master hdr) of None \<Rightarrow> Inl Abort | Some m \<Rightarrow> Inr m))"

definition create_iterm :: "nat \<Rightarrow> nat \<Rightarrow> netlist \<Rightarrow> netlist result" where
  "create_iterm inst i b =
     bindE (dbTable_create \<lparr>it_net = 0, it_inst = inst, it_mterm_idx = i, next_net_iterm = 0, prev_net_iterm = 0\<rparr> (iterm_tbl b)) (\<lambda>(oid, t).
     mod_inst inst (\<lambda>x. x\<lparr>i_iterms := (i_iterms x)[i := oid]\<rparr>) (b\<lparr>iterm_tbl := t\<rparr>))"

definition dbInst_create :: "lib_master \<Rightarrow> string \<Rightarrow> netlist \<Rightarrow> (nat \<times> netlist) result" where
  "dbInst_create master nm b =
     bindE (need_hdr master b) (\<lambda>(hdr, b).
     bindE (name_hasMember nm (inst_hash b, inst_tbl b)) (\<lambda>mem.
       if mem then Inr (0, b)
       else
         bindE (write_journal (log_inst_create (of_nat (m_lib master)) (of_nat (m_oid master)) (cstring nm)) b) (\<lambda>b.
         bindE (dbTable_create \<lparr>entry_key = nm, next_entry = 0, i_inst_hdr = hdr, i_iterms = []\<rparr> (inst_tbl b)) (\<lambda>(oid, t).
         bindE (name_insert oid (inst_hash b, t)) (\<lambda>(h, t).
         bindE (mod_hdr hdr (\<lambda>x. x\<lparr>inst_cnt := inst_cnt x + 1\<rparr>) (b\<lparr>inst_hash := h, inst_tbl := t\<rparr>)) (\<lambda>b.
         bindE (getPtr (inst_hdr_tbl b) hdr) (\<lambda>x.
           let mterm_cnt = length (h_mterms x) in
           bindE (mod_inst oid (\<lambda>x. x\<lparr>i_iterms := replicate mterm_cnt 0\<rparr>) b) (\<lambda>b.
           bindE (foldE (create_iterm oid) [0..<mterm_cnt] b) (\<lambda>b. Inr (oid, b))))))))))"

definition destroy_iterm :: "nat \<Rightarrow> netlist \<Rightarrow> netlist result" where
  "destroy_iterm oid b =
     bindE (dbITerm_disconnect oid b) (\<lambda>b. bindE (dbTable_destroy oid (iterm_tbl b)) (\<lambda>t. Inr (b\<lparr>iterm_tbl := t\<rparr>)))"

definition dbInst_destroy :: "libs \<Rightarrow> nat \<Rightarrow> netlist \<Rightarrow> netlist result" where
  "dbInst_destroy libs oid b =
     bindE (getPtr (inst_tbl b) oid) (\<lambda>inst.
     bindE (foldE destroy_iterm (i_iterms inst) b) (\<lambda>b.
     bindE (write_journal (log_inst_destroy (of_nat oid)) b) (\<lambda>b.
     bindE (getMaster libs oid b) (\<lambda>master.
     bindE (drop_hdr (m_id master) b) (\<lambda>b.
     bindE (name_remove oid (inst_hash b, inst_tbl b)) (\<lambda>(h, t).
     bindE (dbTable_destroy oid t) (\<lambda>t.
       Inr (b\<lparr>inst_hash := h, inst_tbl := t\<rparr>))))))))"

text \<open>
  \<open>swapMaster\<close> sorts the terminals of the masters by name (\<open>sortMTerm\<close>) and those of the instance by index
  (\<open>sortITerm\<close>); the names of a master and the indices of an instance differ, so there is one sorted order.
\<close>

definition idx_map :: "lib_mterm list \<Rightarrow> lib_mterm list \<Rightarrow> nat list option" where
  \<comment> \<open>from the terminals of the old master to those of the new one, None if they are not equivalent\<close>
  "idx_map new_terms old_terms =
     (if length old_terms \<noteq> length new_terms then None
      else
        let ps = zip (sort_key mt_name new_terms) (sort_key mt_name old_terms) in
        if list_all (\<lambda>(t1, t2). mt_name t1 = mt_name t2) ps
        then Some (fold (\<lambda>(t1, t2) m. m[mt_order_id t2 := mt_order_id t1]) ps (replicate (length old_terms) 0))
        else None)"

definition iterm_idx :: "netlist \<Rightarrow> nat \<Rightarrow> nat" where
  \<comment> \<open>the key of \<open>sortITerm\<close>\<close>
  "iterm_idx b it = (case getPtr (iterm_tbl b) it of Inr iterm \<Rightarrow> it_mterm_idx iterm | Inl f \<Rightarrow> 0)"

definition dbInst_swapMaster :: "libs \<Rightarrow> nat \<Rightarrow> lib_master \<Rightarrow> netlist \<Rightarrow> (bool \<times> netlist) result" where
  "dbInst_swapMaster libs oid new_master b =
     bindE (getMaster libs oid b) (\<lambda>old_master.
     bindE (write_journal (log_swapMaster (of_nat oid) (of_nat (m_lib old_master)) (of_nat (m_oid old_master))
              (of_nat (m_lib new_master)) (of_nat (m_oid new_master))) b) (\<lambda>b.
       case idx_map (m_mterms new_master) (m_mterms old_master) of
         None \<Rightarrow> Inr (False, b)
       | Some im \<Rightarrow>
           bindE (drop_hdr (m_id old_master) b) (\<lambda>b.
           bindE (need_hdr new_master b) (\<lambda>(hdr, b).
           bindE (mod_hdr hdr (\<lambda>x. x\<lparr>inst_cnt := inst_cnt x + 1\<rparr>) b) (\<lambda>b.
           bindE (mod_inst oid (\<lambda>x. x\<lparr>i_inst_hdr := hdr\<rparr>) b) (\<lambda>b.
           bindE (getPtr (inst_tbl b) oid) (\<lambda>inst.
           bindE (foldE (\<lambda>it. mod_iterm it (\<lambda>x. x\<lparr>it_mterm_idx := im ! it_mterm_idx x\<rparr>)) (i_iterms inst) b) (\<lambda>b.
           bindE (mod_inst oid (\<lambda>x. x\<lparr>i_iterms := sort_key (iterm_idx b) (i_iterms x)\<rparr>) b) (\<lambda>b.
             Inr (True, b))))))))))"

subsection \<open>Looking at the netlist\<close>

fun walk_iterms :: "nat \<Rightarrow> nat \<Rightarrow> netlist \<Rightarrow> nat list result" where
  \<comment> \<open>\<open>dbNetITermItr\<close> from a cursor to the end\<close>
  "walk_iterms fuel iitr b =
     (if iitr = 0 then Inr []
      else case fuel of
        0 \<Rightarrow> Inl NoReturn
      | Suc fuel \<Rightarrow> bindE (getPtr (iterm_tbl b) iitr) (\<lambda>iterm.
          bindE (walk_iterms fuel (next_net_iterm iterm) b) (\<lambda>is. Inr (iitr # is))))"

declare walk_iterms.simps [simp del]

fun walk_bterms :: "nat \<Rightarrow> nat \<Rightarrow> netlist \<Rightarrow> nat list result" where
  "walk_bterms fuel bitr b =
     (if bitr = 0 then Inr []
      else case fuel of
        0 \<Rightarrow> Inl NoReturn
      | Suc fuel \<Rightarrow> bindE (getPtr (bterm_tbl b) bitr) (\<lambda>bterm.
          bindE (walk_bterms fuel (next_bterm bterm) b) (\<lambda>is. Inr (bitr # is))))"

declare walk_bterms.simps [simp del]

definition net_getITerms :: "nat \<Rightarrow> netlist \<Rightarrow> nat list result" where
  "net_getITerms net b = bindE (getPtr (net_tbl b) net) (\<lambda>n. walk_iterms (chain_fuel (iterm_tbl b)) (n_iterms n) b)"

definition net_getBTerms :: "nat \<Rightarrow> netlist \<Rightarrow> nat list result" where
  "net_getBTerms net b = bindE (getPtr (net_tbl b) net) (\<lambda>n. walk_bterms (chain_fuel (bterm_tbl b)) (n_bterms n) b)"

definition findNet :: "string \<Rightarrow> netlist \<Rightarrow> nat result" where
  "findNet nm b = name_find nm (net_hash b, net_tbl b)"

definition findInst :: "string \<Rightarrow> netlist \<Rightarrow> nat result" where
  "findInst nm b = name_find nm (inst_hash b, inst_tbl b)"

definition findBTerm :: "string \<Rightarrow> netlist \<Rightarrow> nat result" where
  "findBTerm nm b = name_find nm (bterm_hash b, bterm_tbl b)"

definition inst_getITerm :: "nat \<Rightarrow> nat \<Rightarrow> netlist \<Rightarrow> nat result" where
  \<comment> \<open>of an instance and the \<open>_order_id\<close> of a terminal of its master\<close>
  "inst_getITerm oid k b =
     bindE (getPtr (inst_tbl b) oid) (\<lambda>inst.
       if k < length (i_iterms inst)
       then bindE (getPtr (iterm_tbl b) (i_iterms inst ! k)) (\<lambda>_. Inr (i_iterms inst ! k)) else Inl OutOfBounds)"

subsection \<open>ECO\<close>

definition discard :: "('a \<times> netlist) result \<Rightarrow> netlist result" where
  "discard r = bindE r (\<lambda>(_, b). Inr b)"

definition apply_change :: "libs \<Rightarrow> change \<Rightarrow> netlist \<Rightarrow> netlist result" where
  \<comment> \<open>what \<open>redo\<close> calls; other changes are to fields that are not part of the netlist\<close>
  "apply_change libs c b =
     (let master = (\<lambda>l m. case libs (unat l) (unat m) of None \<Rightarrow> Inl Abort | Some x \<Rightarrow> Inr x) in
      case c of
        OnNet (NetCreate nm) \<Rightarrow> discard (dbNet_create (std_string nm) False b)
      | OnNet (NetDestroy n) \<Rightarrow> dbNet_destroy (unat n) b
      | OnInst (InstCreate l m nm) \<Rightarrow> bindE (master l m) (\<lambda>m. discard (dbInst_create m (std_string nm) b))
      | OnInst (InstDestroy i) \<Rightarrow> dbInst_destroy libs (unat i) b
      | OnInst (InstSwap i l m) \<Rightarrow> bindE (master l m) (\<lambda>m. discard (dbInst_swapMaster libs (unat i) m b))
      | OnTerm (BTermCreate n nm) \<Rightarrow> discard (dbBTerm_create (unat n) (std_string nm) b)
      | OnTerm (BTermDestroy t) \<Rightarrow> dbBTerm_destroy (unat t) b
      | OnTerm (BTermConnect t n) \<Rightarrow> dbBTerm_connect (unat t) (unat n) b
      | OnTerm (BTermDisconnect t) \<Rightarrow> dbBTerm_disconnect (unat t) b
      | OnTerm (ITermConnect t n) \<Rightarrow> dbITerm_connect (unat t) (unat n) b
      | OnTerm (ITermDisconnect t) \<Rightarrow> dbITerm_disconnect (unat t) b
      | _ \<Rightarrow> Inr b)"

definition beginEco :: "netlist \<Rightarrow> netlist" where
  "beginEco b = b\<lparr>journal := Some new_journal\<rparr>"

definition endEco :: "netlist \<Rightarrow> netlist" where
  "endEco b = b\<lparr>journal := None, journal_pending := journal b\<rparr>"

definition commitEco :: "libs \<Rightarrow> nat \<Rightarrow> netlist \<Rightarrow> netlist result" where
  \<comment> \<open>with the number of corners of the block\<close>
  "commitEco libs cornerCnt b =
     (case journal_pending b of
        None \<Rightarrow> Inr b
      | Some j \<Rightarrow>
          bindE (redo cornerCnt j) (\<lambda>cs.
          bindE (foldE (apply_change libs) cs b) (\<lambda>b. Inr (b\<lparr>journal_pending := None\<rparr>))))"

end
