(* ===== verification/Odb_Net_Index.thy ===== *)
theory Odb_Net_Index
  imports Odb_Net Odb_Hash_Props
begin

section \<open>Tables with an index\<close>

text \<open>
  A table all of whose objects are in the index, with distinct keys (\<open>index_ok\<close>), seen without the links of
  the hash table (\<open>view\<close>): assignments to other fields, creation and destruction of an object together with its
  entry in the index, and lookups.
\<close>

definition view :: "('k, 'b) entry_scheme dbTable \<Rightarrow> nat \<Rightarrow> ('k, 'b) entry_scheme option" where
  "view t x = map_option (next_entry_update (\<lambda>_. 0)) (objs t x)"

definition index_ok :: "('k \<Rightarrow> 32 word) \<Rightarrow> dbHashTable \<Rightarrow> ('k, 'b) entry_scheme dbTable \<Rightarrow> bool" where
  "index_ok hash h t \<longleftrightarrow> hash_ok hash (h, t) (ids t)
     \<and> (\<forall>x y a b. view t x = Some a \<and> view t y = Some b \<and> entry_key a = entry_key b \<longrightarrow> x = y)"

lemma view_Some: "view t x = Some a \<Longrightarrow> \<exists>n. objs t x = Some (a\<lparr>next_entry := n\<rparr>)"
proof -
  assume "view t x = Some a"
  then obtain b where b: "objs t x = Some b" "a = b\<lparr>next_entry := 0\<rparr>" by (auto simp: view_def)
  then have "a\<lparr>next_entry := next_entry b\<rparr> = b" by simp
  then show ?thesis using b(1) by metis
qed

lemma dom_view [simp]: "dom (view t) = ids t"
  using dom_objs [of t] by (auto simp: view_def dom_def)

lemma view_ids: "x \<in> ids t \<longleftrightarrow> (\<exists>a. view t x = Some a)"
  using dom_view [of t] by (auto simp: dom_def)

lemma view_0: "view t 0 = None"
  using view_ids [of 0 t] by (auto simp: ids_def)

lemma view_key: "map_option entry_key (view t x) = map_option entry_key (objs t x)"
  by (simp add: view_def option.map_comp comp_def)

lemma same_view: "same_but_links t t' \<Longrightarrow> view t' = view t"
  by (simp add: same_but_links_def view_def fun_eq_iff)

lemma key_of_view: "key_of (h, t) x = map_option entry_key (view t x)"
  by (simp add: key_of_def view_key)

lemma index_okD:
  assumes "index_ok hash h t"
  shows "table_ok t" "cap t \<le> 2 ^ 31" "hash_ok hash (h, t) (ids t)" "pages_ok t"
    "view t x = Some a \<Longrightarrow> view t y = Some b \<Longrightarrow> entry_key a = entry_key b \<Longrightarrow> x = y"
proof -
  show h: "hash_ok hash (h, t) (ids t)" using assms by (simp add: index_ok_def)
  show t: "table_ok t" "cap t \<le> 2 ^ 31" using hash_okD [OF h] by simp_all
  show "pages_ok t" by (rule table_okD [OF t(1)])
  show "view t x = Some a \<Longrightarrow> view t y = Some b \<Longrightarrow> entry_key a = entry_key b \<Longrightarrow> x = y"
    using assms unfolding index_ok_def by blast
qed

lemma index_deref: "index_ok hash h t \<Longrightarrow> getPtr t x = (case objs t x of Some a \<Rightarrow> Inr a | None \<Rightarrow> Inl Abort)"
  by (rule getPtr_objs [OF index_okD(4)])

lemma deref_view:
  assumes "index_ok hash h t" "view t x = Some a"
  shows "\<exists>n. getPtr t x = Inr (a\<lparr>next_entry := n\<rparr>)"
  using view_Some [OF assms(2)] index_deref [OF assms(1), of x] by auto

subsection \<open>Assignments\<close>

definition keeps_entry :: "(('k, 'b) entry_scheme \<Rightarrow> ('k, 'b) entry_scheme) \<Rightarrow> bool" where
  \<comment> \<open>an assignment to fields that the index does not use\<close>
  "keeps_entry f \<longleftrightarrow> (\<forall>a n. entry_key (f a) = entry_key a \<and> next_entry (f a) = next_entry a
     \<and> f (a\<lparr>next_entry := n\<rparr>) = (f a)\<lparr>next_entry := n\<rparr>)"

lemma table_deref: "table_ok t \<Longrightarrow> getPtr t x = (case objs t x of Some a \<Rightarrow> Inr a | None \<Rightarrow> Inl Abort)"
  by (rule getPtr_objs [OF table_okD(1)])

lemma assign_plain:
  assumes "table_ok t" "objs t x = Some a"
  shows "assign x f t = Inr (update_obj x f t)" "table_ok (update_obj x f t)" "objs (update_obj x f t) = (objs t)(x \<mapsto> f a)"
    "cap (update_obj x f t) = cap t"
  using update_obj_ok [OF assms, of f] getPtr_Some [OF assms] by (simp_all add: assign_def)

lemma buckets_fields:
  assumes "buckets_ok hash tbl m cs" "\<And>x. map_option entry_key (m' x) = map_option entry_key (m x)"
    "\<And>x. map_option next_entry (m' x) = map_option next_entry (m x)"
  shows "buckets_ok hash tbl m' cs"
proof -
  have c: "chain m' q xs = chain m q xs" for q xs
  proof (induction xs arbitrary: q)
    case (Cons x xs)
    then show ?case using assms(3) [of x] by (cases "m x"; cases "m' x") auto
  qed simp
  have k: "m' x = Some a \<Longrightarrow> \<exists>b. m x = Some b \<and> entry_key b = entry_key a" for x a
    using assms(2) [of x] by (cases "m x") auto
  have "bucket hash (entry_key a) (length tbl) = i" if "i < length tbl" "x \<in> set (cs ! i)" "m' x = Some a" for i x a
    using buckets_okD(5) [OF assms(1) that(1,2)] k [OF that(3)] by auto
  then show ?thesis using buckets_okD [OF assms(1)] by (simp add: buckets_ok_def c)
qed

lemma index_assign:
  assumes "index_ok hash h t" "view t x = Some a" "keeps_entry f"
  shows "assign x f t = Inr (update_obj x f t)" "index_ok hash h (update_obj x f t)"
    "view (update_obj x f t) = (view t)(x \<mapsto> f a)" "cap (update_obj x f t) = cap t"
proof -
  note t = index_okD [OF assms(1)]
  obtain n where o: "objs t x = Some (a\<lparr>next_entry := n\<rparr>)" using view_Some [OF assms(2)] by blast
  note u = assign_plain [OF t(1) o, of f]
  show "assign x f t = Inr (update_obj x f t)" "cap (update_obj x f t) = cap t" by (fact u(1), fact u(4))
  have a: "next_entry a = 0" using assms(2) by (auto simp: view_def)
  then have "(f (a\<lparr>next_entry := n\<rparr>))\<lparr>next_entry := 0\<rparr> = f a"
    using assms(3) unfolding keeps_entry_def by (metis (no_types, lifting) entry.surjective entry.update_convs(2))
  then show v: "view (update_obj x f t) = (view t)(x \<mapsto> f a)" by (auto simp: view_def u(3) fun_eq_iff)
  have "dom (objs (update_obj x f t)) = insert x (dom (objs t))" by (simp only: u(3) dom_fun_upd option.distinct if_False)
  also have "\<dots> = dom (objs t)" using o by (intro insert_absorb domI)
  finally have "dom (objs (update_obj x f t)) = dom (objs t)" .
  then have i: "ids (update_obj x f t) = ids t" by (simp only: dom_objs)
  have key: "map_option entry_key (objs (update_obj x f t) y) = map_option entry_key (objs t y)"
    "map_option next_entry (objs (update_obj x f t) y) = map_option next_entry (objs t y)" for y
    using assms(3) o by (simp_all add: u(3) keeps_entry_def)
  have "hash_ok hash (h, update_obj x f t) (ids t)"
    using hash_okD [OF t(3)] buckets_fields [of hash "hash_tbl h" "objs t" _ "objs (update_obj x f t)"] key u(2,4) i
    by (fastforce simp: hash_ok_def)
  moreover have "y = z" if "view (update_obj x f t) y = Some c" "view (update_obj x f t) z = Some d" "entry_key c = entry_key d" for y z c d
  proof -
    have k: "map_option entry_key (view (update_obj x f t) w) = map_option entry_key (view t w)" for w by (simp add: view_key key)
    have "\<exists>c'. view t y = Some c' \<and> entry_key c' = entry_key c" "\<exists>d'. view t z = Some d' \<and> entry_key d' = entry_key d"
      using k [of y, symmetric] k [of z, symmetric] that(1,2) by auto
    then show ?thesis using index_okD(5) [OF assms(1), of y _ z] that(3) by metis
  qed
  ultimately show "index_ok hash h (update_obj x f t)" unfolding index_ok_def i by blast
qed

subsection \<open>Creation, destruction and lookup\<close>

definition room :: "'a dbTable \<Rightarrow> bool" where
  \<comment> \<open>for another page\<close>
  "room t \<longleftrightarrow> cap t + page_size t \<le> 2 ^ 31"

definition same_pages :: "'a dbTable \<Rightarrow> 'a dbTable \<Rightarrow> bool" where
  "same_pages t t' \<longleftrightarrow> page_cnt t' = page_cnt t \<and> page_mask t' = page_mask t"

lemma same_pages_cap: "same_pages t t' \<Longrightarrow> cap t' = cap t \<and> page_size t' = page_size t"
  by (simp add: same_pages_def cap_def page_size_def)

lemma same_pages_trans: "same_pages t t' \<Longrightarrow> same_pages t' t'' \<Longrightarrow> same_pages t t''"
  by (simp add: same_pages_def)

lemma pushQ_pages: "pushQ e t = Inr t' \<Longrightarrow> same_pages t t'"
  by (auto simp: pushQ_def same_pages_def Let_def split: if_splits)

lemma pushes_pages: "foldE pushQ es t = Inr t' \<Longrightarrow> same_pages t t'"
proof (induction es arbitrary: t)
  case Nil
  then show ?case by (simp add: same_pages_def)
next
  case (Cons e es)
  then show ?case using pushQ_pages same_pages_trans by fastforce
qed

lemma popQ_pages: "popQ t = Inr (e, t') \<Longrightarrow> same_pages t t'"
  by (auto simp: popQ_def same_pages_def Let_def split: if_splits)

lemma find_pages: "findBottom t = Inr t' \<Longrightarrow> same_pages t t'" "findTop t = Inr t' \<Longrightarrow> same_pages t t'"
  by (auto simp: findBottom_def findTop_def same_pages_def Let_def split: if_splits option.splits)

lemma destroy_cap: "dbTable_destroy e t = Inr t' \<Longrightarrow> cap t' = cap t \<and> page_size t' = page_size t"
proof -
  assume "dbTable_destroy e t = Inr t'"
  then obtain t1 t2 where r: "pushQ e (set_slot e (Free 0 0) (count_alloc (\<lambda>n. n - 1) e (t\<lparr>alloc_cnt := alloc_cnt t - 1\<rparr>))) = Inr t1"
    "(if e = bottom_idx t1 then findBottom t1 else Inr t1) = Inr t2" "(if e = top_idx t2 then findTop t2 else Inr t2) = Inr t'"
    by (auto simp: dbTable_destroy_def Let_def split: if_splits)
  have "same_pages t t1" using pushQ_pages [OF r(1)] by (simp add: same_pages_def)
  moreover have "same_pages t1 t2" using r(2) find_pages by (auto simp: same_pages_def split: if_splits)
  moreover have "same_pages t2 t'" using r(3) find_pages by (auto simp: same_pages_def split: if_splits)
  ultimately show ?thesis using same_pages_trans same_pages_cap by blast
qed

lemma newPage_cap: "newPage t = Inr t' \<Longrightarrow> cap t' = cap t + page_size t \<and> page_size t' = page_size t"
proof -
  assume n: "newPage t = Inr t'"
  define sz where "sz = (if page_tbl_size t = 0 then 1 else if page_tbl_size t = page_cnt t then page_tbl_size t * 2 else page_tbl_size t)"
  define t1 where "t1 = t\<lparr>page_tbl_size := sz, pages := pages t @ [\<lparr>objects = replicate (page_size t) (Free 0 0), alloccnt = 0\<rparr>]\<rparr>"
  have "\<exists>es. foldE pushQ es t1 = Inr t'"
    using n unfolding newPage_def Let_def foldE_map sz_def [symmetric] t1_def [symmetric] by blast
  then have "same_pages t1 t'" using pushes_pages by blast
  then show ?thesis by (simp add: same_pages_def cap_def page_size_def t1_def algebra_simps)
qed

lemma create_cap:
  assumes "dbTable_create x t = Inr (e, t')"
  shows "cap t' \<le> cap t + page_size t" "page_size t' = page_size t" "room t \<Longrightarrow> cap t' \<le> 2 ^ 31"
proof -
  let ?t = "t\<lparr>alloc_cnt := alloc_cnt t + 1\<rparr>"
  obtain t1 t2 where r: "(if free_list t = 0 then newPage ?t else Inr ?t) = Inr t1" "popQ t1 = Inr (e, t2)" "t' = put_obj e x t2"
    using assms(1) by (auto simp: dbTable_create_put)
  have p: "cap ?t = cap t" "page_size ?t = page_size t" by (simp_all add: cap_def page_size_def)
  have "cap t1 \<le> cap t + page_size t \<and> page_size t1 = page_size t" using r(1) newPage_cap [of ?t t1] p by (auto split: if_splits)
  moreover have "cap t2 = cap t1 \<and> page_size t2 = page_size t1" using popQ_pages [OF r(2)] same_pages_cap by blast
  moreover have "cap t' = cap t2 \<and> page_size t' = page_size t2" unfolding r(3) put_obj_def by (auto simp: Let_def page_size_def)
  ultimately show "cap t' \<le> cap t + page_size t" "page_size t' = page_size t" by simp_all
  then show "room t \<Longrightarrow> cap t' \<le> 2 ^ 31" by (simp add: room_def)
qed

lemma index_lookup:
  assumes "index_ok hash h t"
  shows "view t x = Some a \<Longrightarrow> hash_find hash (entry_key a) (h, t) = Inr x"
    "(\<And>x a. view t x = Some a \<Longrightarrow> entry_key a \<noteq> k) \<Longrightarrow> hash_find hash k (h, t) = Inr 0"
proof -
  have v: "\<exists>a. view t y = Some a \<and> entry_key a = k" if "map_option entry_key (objs t y) = Some k" for y k
    using that by (simp add: view_key [symmetric])
  have f: "\<exists>y. hash_find hash k (h, t) = Inr y \<and> (y = 0 \<and> (\<forall>z \<in> ids t. map_option entry_key (view t z) \<noteq> Some k)
      \<or> (\<exists>a. view t y = Some a \<and> entry_key a = k))" for k
    using hash_find_result [OF index_okD(3) [OF assms], of k] v unfolding view_key by blast
  show "hash_find hash (entry_key a) (h, t) = Inr x" if "view t x = Some a"
  proof -
    have "x \<in> ids t" using that view_ids by blast
    then show ?thesis using f [of "entry_key a"] that index_okD(5) [OF assms] by fastforce
  qed
  show "hash_find hash k (h, t) = Inr 0" if "\<And>x a. view t x = Some a \<Longrightarrow> entry_key a \<noteq> k"
    using f [of k] that by blast
qed

lemma index_member:
  assumes "index_ok hash h t"
  shows "hash_hasMember hash k (h, t) = Inr (\<exists>x a. view t x = Some a \<and> entry_key a = k)"
proof (cases "\<exists>x a. view t x = Some a \<and> entry_key a = k")
  case True
  then obtain x a where "view t x = Some a" "entry_key a = k" by blast
  then have "hash_find hash k (h, t) = Inr x" using index_lookup(1) [OF assms, of x a] by simp
  moreover have "x \<noteq> 0" using \<open>view t x = Some a\<close> view_0 [of t] by (cases x) auto
  ultimately have "hash_find hash k (h, t) = Inr x" "x \<noteq> 0" .
  then show ?thesis using True by (simp add: hash_hasMember_def)
next
  case False
  then show ?thesis using index_lookup(2) [OF assms, of k] by (simp add: hash_hasMember_def)
qed

lemma ids_objs: "objs t' = (objs t)(e \<mapsto> x) \<Longrightarrow> ids t' = insert e (ids t)"
  using dom_objs [of t'] by simp

lemma index_create:
  assumes "index_ok hash h t" "\<And>x b. view t x = Some b \<Longrightarrow> entry_key b \<noteq> entry_key a" "next_entry a = 0"
    and "room t"
  shows "\<exists>e t1 h' t'. dbTable_create a t = Inr (e, t1) \<and> hash_insert hash e (h, t1) = Inr (h', t') \<and> index_ok hash h' t'
     \<and> view t' = (view t)(e \<mapsto> a) \<and> view t e = None \<and> e \<noteq> 0 \<and> page_size t' = page_size t \<and> cap t' \<le> cap t + page_size t"
proof -
  note t = index_okD [OF assms(1)]
  obtain e t1 where c: "dbTable_create a t = Inr (e, t1)" "table_ok t1" "objs t1 = (objs t)(e \<mapsto> a)" "e \<notin> ids t" "e \<noteq> 0"
    using create_result [OF t(1)] by blast
  have cap: "cap t1 \<le> 2 ^ 31" by (rule create_cap(3) [OF c(1) assms(4)])
  have "hash_ok hash (h, t1) (ids t)" using c(2-4) cap by (intro hash_ok_other [OF t(3)]) auto
  then obtain h' t' where i: "hash_insert hash e (h, t1) = Inr (h', t')" "hash_ok hash (h', t') (insert e (ids t))" "same_but_links t1 t'"
    using hash_insert_result [of hash h t1 "ids t" e a] c(3,4) by fastforce
  have v1: "view t1 = (view t)(e \<mapsto> a)" using assms(3) by (auto simp: view_def c(3) fun_eq_iff)
  have v: "view t' = (view t)(e \<mapsto> a)" using same_view [OF i(3)] v1 by simp
  have ids: "ids t' = insert e (ids t)" using dom_view [of t'] by (simp add: v)
  have ve: "view t e = None" using c(4) view_ids [of e t] by (cases "view t e") auto
  have "index_ok hash h' t'"
    using i(2) assms(2) ve index_okD(5) [OF assms(1)] unfolding index_ok_def ids v by (auto split: if_splits) metis+
  moreover have "page_size t' = page_size t" "cap t' \<le> cap t + page_size t"
    using create_cap(1,2) [OF c(1)] i(3) by (simp_all add: same_but_links_def)
  ultimately show ?thesis using c(1,5) i(1) v ve by blast
qed

lemma index_destroy:
  assumes "index_ok hash h t" "view t e = Some a"
  shows "\<exists>h' t1 t'. hash_remove hash e (h, t) = Inr (h', t1) \<and> dbTable_destroy e t1 = Inr t' \<and> index_ok hash h' t'
     \<and> view t' = (view t)(e := None) \<and> cap t' = cap t \<and> page_size t' = page_size t"
proof -
  note t = index_okD [OF assms(1)]
  have e: "e \<in> ids t" using assms(2) view_ids by blast
  obtain h' t1 where r: "hash_remove hash e (h, t) = Inr (h', t1)" "hash_ok hash (h', t1) (ids t - {e})" "same_but_links t t1"
    using hash_remove_result [OF t(3) e] by blast
  have i1: "ids t1 = ids t" by (rule same_ids [OF r(3)])
  have t1: "table_ok t1" using hash_okD(1) [OF r(2)] .
  obtain t' where d: "dbTable_destroy e t1 = Inr t'" "table_ok t'" "objs t' = (objs t1)(e := None)"
    using destroy_result [OF t1, of e] e i1 by auto
  have v: "view t' = (view t)(e := None)" using same_view [OF r(3)] by (auto simp: view_def d(3) fun_eq_iff)
  have ids: "ids t' = ids t - {e}" using dom_view [of t'] by (simp add: v)
  have cap: "cap t' = cap t" "page_size t' = page_size t" using destroy_cap [OF d(1)] r(3) by (simp_all add: same_but_links_def)
  have "hash_ok hash (h', t') (ids t - {e})" using d t(2) cap by (intro hash_ok_other [OF r(2)]) auto
  then have "index_ok hash h' t'" using index_okD(5) [OF assms(1)] unfolding index_ok_def ids v by (auto split: if_splits)
  then show ?thesis using r(1) d(1) v cap by blast
qed

end
