(* ===== verification/Odb_Net_Links.thy ===== *)
theory Odb_Net_Links
  imports Main
begin

section \<open>Lists of terminals\<close>

text \<open>
  A net is the head of a doubly linked list through its terminals, once for the terminals of instances and
  once for those of the block. The locale \<open>term_links\<close> has the fields of such a list; its lemmas follow the
  lists of all nets through the assignments that link and unlink a terminal.
\<close>

fun dseg :: "('a \<Rightarrow> nat) \<Rightarrow> ('a \<Rightarrow> nat) \<Rightarrow> (nat \<Rightarrow> 'a option) \<Rightarrow> nat \<Rightarrow> nat \<Rightarrow> nat list \<Rightarrow> nat \<Rightarrow> bool" where
  \<comment> \<open>from \<open>q\<close> the links run through the list to \<open>r\<close>; \<open>p\<close> comes before\<close>
  "dseg nx pv T p q [] r \<longleftrightarrow> q = r"
| "dseg nx pv T p q (x # xs) r \<longleftrightarrow> q = x \<and> x \<noteq> 0 \<and> (\<exists>a. T x = Some a \<and> pv a = p \<and> dseg nx pv T x (nx a) xs r)"

lemma dseg_append: "dseg nx pv T p q (xs @ ys) r \<longleftrightarrow> (\<exists>s. dseg nx pv T p q xs s \<and> dseg nx pv T (last (p # xs)) s ys r)"
  by (induction xs arbitrary: p q) (auto split: if_splits)

lemma dseg_cong:
  assumes "\<And>x. x \<in> set xs \<Longrightarrow> map_option nx (T' x) = map_option nx (T x) \<and> map_option pv (T' x) = map_option pv (T x)"
  shows "dseg nx pv T' p q xs r \<longleftrightarrow> dseg nx pv T p q xs r"
  using assms
proof (induction xs arbitrary: p q)
  case (Cons x xs)
  then show ?case by (cases "T x"; cases "T' x") fastforce+
qed simp

lemma dseg_same: "dseg nx pv T p q xs r \<Longrightarrow> (\<And>x. x \<in> set xs \<Longrightarrow> T' x = T x) \<Longrightarrow> dseg nx pv T' p q xs r"
  using dseg_cong [of xs nx T' T pv] by simp

lemma dseg_mem: "dseg nx pv T p q xs r \<Longrightarrow> x \<in> set xs \<Longrightarrow> x \<noteq> 0 \<and> (\<exists>a. T x = Some a)"
  by (induction xs arbitrary: p q) auto

lemma dseg_head: "dseg nx pv T p q xs 0 \<Longrightarrow> q = (case xs of [] \<Rightarrow> 0 | x # _ \<Rightarrow> x)"
  by (cases xs) auto

definition listed :: "('n \<Rightarrow> nat) \<Rightarrow> ('a \<Rightarrow> nat) \<Rightarrow> ('a \<Rightarrow> nat) \<Rightarrow> ('a \<Rightarrow> nat) \<Rightarrow> (nat \<Rightarrow> 'n option) \<Rightarrow> (nat \<Rightarrow> 'a option)
    \<Rightarrow> (nat \<Rightarrow> nat list) \<Rightarrow> bool" where
  \<comment> \<open>\<open>L n\<close> are the terminals of net \<open>n\<close>, in the order of their links\<close>
  "listed head nx pv own N T L \<longleftrightarrow> N 0 = None \<and> T 0 = None
     \<and> (\<forall>n a. N n = Some a \<longrightarrow> dseg nx pv T 0 (head a) (L n) 0 \<and> distinct (L n) \<and> set (L n) = {i. \<exists>t. T i = Some t \<and> own t = n})
     \<and> (\<forall>i t. T i = Some t \<longrightarrow> own t = 0 \<or> N (own t) \<noteq> None)"

lemma listedD:
  assumes "listed head nx pv own N T L"
  shows "N 0 = None" "T 0 = None" "N n = Some a \<Longrightarrow> dseg nx pv T 0 (head a) (L n) 0" "N n = Some a \<Longrightarrow> distinct (L n)"
    "N n = Some a \<Longrightarrow> i \<in> set (L n) \<longleftrightarrow> (\<exists>t. T i = Some t \<and> own t = n)" "T i = Some t \<Longrightarrow> own t = 0 \<or> (\<exists>a. N (own t) = Some a)"
  using assms unfolding listed_def by auto

lemma listedI:
  assumes "N 0 = None" "T 0 = None"
    and "\<And>n a. N n = Some a \<Longrightarrow> dseg nx pv T 0 (head a) (L n) 0 \<and> distinct (L n)"
    and "\<And>n a i. N n = Some a \<Longrightarrow> i \<in> set (L n) \<longleftrightarrow> (\<exists>t. T i = Some t \<and> own t = n)"
    and "\<And>i t. T i = Some t \<Longrightarrow> own t \<noteq> 0 \<Longrightarrow> \<exists>a. N (own t) = Some a"
  shows "listed head nx pv own N T L"
proof -
  have "own t = 0 \<or> N (own t) \<noteq> None" if "T i = Some t" for i t using assms(5) [OF that] by auto
  then show ?thesis using assms(1-4) unfolding listed_def by (simp add: set_eq_iff)
qed

lemma listed_cong:
  assumes "listed head nx pv own N T L" "\<And>n. map_option head (N' n) = map_option head (N n)"
    and "\<And>i. map_option nx (T' i) = map_option nx (T i)" "\<And>i. map_option pv (T' i) = map_option pv (T i)"
    "\<And>i. map_option own (T' i) = map_option own (T i)"
  shows "listed head nx pv own N' T' L"
proof -
  note l = listedD [OF assms(1)]
  have N: "N' n = Some a \<Longrightarrow> \<exists>b. N n = Some b \<and> head b = head a" "N n = Some a \<Longrightarrow> \<exists>b. N' n = Some b" for n a
    using assms(2) [of n] by (cases "N n"; auto)+
  have T: "T' i = Some t \<Longrightarrow> \<exists>u. T i = Some u \<and> own u = own t" "T i = Some t \<Longrightarrow> \<exists>u. T' i = Some u \<and> own u = own t" for i t
    using assms(5) [of i] by (cases "T i"; cases "T' i"; auto)+
  show ?thesis
  proof (rule listedI)
    show "N' 0 = None" using N(1) [of 0] l(1) by (cases "N' 0") auto
    show "T' 0 = None" using T(1) [of 0] l(2) by (cases "T' 0") auto
    fix n a assume "N' n = Some a"
    then obtain b where b: "N n = Some b" "head b = head a" using N(1) by blast
    show "dseg nx pv T' 0 (head a) (L n) 0 \<and> distinct (L n)"
      using l(3,4) [OF b(1)] dseg_cong [of "L n" nx T' T pv] assms(3,4) b(2) by auto
    show "i \<in> set (L n) \<longleftrightarrow> (\<exists>t. T' i = Some t \<and> own t = n)" for i using l(5) [OF b(1)] T [of i] by metis
  next
    fix i t assume "T' i = Some t" "own t \<noteq> 0"
    then show "\<exists>a. N' (own t) = Some a" using T(1) [of i t] l(6) [of i] N(2) by metis
  qed
qed

text \<open>Nets and terminals that come and go.\<close>

lemma listed_new_net:
  assumes "listed head nx pv own N T L" "N n = None" "n \<noteq> 0" "head a = 0"
  shows "listed head nx pv own (N(n \<mapsto> a)) T (L(n := []))"
proof -
  note l = listedD [OF assms(1)]
  have no: "own t \<noteq> n" if "T i = Some t" for i t using l(6) [OF that] assms(2,3) by auto
  show ?thesis
  proof (rule listedI)
    fix i t assume "T i = Some t" "own t \<noteq> 0"
    then show "\<exists>b. (N(n \<mapsto> a)) (own t) = Some b" using l(6) [of i t] by auto
  qed (use assms l no in \<open>auto split: if_splits\<close>)
qed

lemma listed_gone_net:
  assumes "listed head nx pv own N T L" "N n = Some a" "L n = []"
  shows "listed head nx pv own (N(n := None)) T L"
proof -
  note l = listedD [OF assms(1)]
  have no: "own t \<noteq> n" if "T i = Some t" for i t using l(5) [OF assms(2), of i] assms(3) that by auto
  show ?thesis
  proof (rule listedI)
    fix i t assume "T i = Some t" "own t \<noteq> 0"
    then show "\<exists>b. (N(n := None)) (own t) = Some b" using l(6) [of i t] no [of i t] by auto
  qed (use l no in \<open>auto split: if_splits\<close>)
qed

lemma listed_new_term:
  assumes "listed head nx pv own N T L" "T i = None" "i \<noteq> 0" "own t = 0"
  shows "listed head nx pv own N (T(i \<mapsto> t)) L"
proof -
  note l = listedD [OF assms(1)]
  have i: "i \<notin> set (L n)" if "N n = Some a" for n a using l(5) [OF that, of i] assms(2) by auto
  show ?thesis
  proof (rule listedI)
    fix n a assume n: "N n = Some a"
    show "dseg nx pv (T(i \<mapsto> t)) 0 (head a) (L n) 0 \<and> distinct (L n)"
    proof
      show "dseg nx pv (T(i \<mapsto> t)) 0 (head a) (L n) 0" by (rule dseg_same [OF l(3) [OF n]]) (use i [OF n] in auto)
    qed (rule l(4) [OF n])
    show "x \<in> set (L n) \<longleftrightarrow> (\<exists>u. (T(i \<mapsto> t)) x = Some u \<and> own u = n)" for x
    proof (cases "x = i")
      case True
      have "n \<noteq> 0" using n l(1) by (cases n) auto
      then show ?thesis using True i [OF n] assms(4) by simp
    qed (use l(5) [OF n, of x] in auto)
  next
    fix x u assume "(T(i \<mapsto> t)) x = Some u" "own u \<noteq> 0"
    then show "\<exists>a. N (own u) = Some a" using l(6) [of x u] assms(4) by (auto split: if_splits)
  qed (use l(1,2) assms(3) in auto)
qed

lemma listed_gone_term:
  assumes "listed head nx pv own N T L" "T i = Some t" "own t = 0"
  shows "listed head nx pv own N (T(i := None)) L"
proof -
  note l = listedD [OF assms(1)]
  have i: "i \<notin> set (L n)" if "N n = Some a" for n a using l(5) [OF that, of i] assms(2,3) that l(1) by auto
  show ?thesis
  proof (rule listedI)
    fix n a assume n: "N n = Some a"
    show "dseg nx pv (T(i := None)) 0 (head a) (L n) 0 \<and> distinct (L n)"
    proof
      show "dseg nx pv (T(i := None)) 0 (head a) (L n) 0" by (rule dseg_same [OF l(3) [OF n]]) (use i [OF n] in auto)
    qed (rule l(4) [OF n])
    show "x \<in> set (L n) \<longleftrightarrow> (\<exists>u. (T(i := None)) x = Some u \<and> own u = n)" for x
      using l(5) [OF n, of x] i [OF n] by (cases "x = i") auto
  next
    fix x u assume "(T(i := None)) x = Some u" "own u \<noteq> 0"
    then show "\<exists>a. N (own u) = Some a" using l(6) [of x u] by (auto split: if_splits)
  qed (use l in auto)
qed

subsection \<open>Linking and unlinking\<close>

definition upd :: "nat \<Rightarrow> ('a \<Rightarrow> 'a) \<Rightarrow> (nat \<Rightarrow> 'a option) \<Rightarrow> nat \<Rightarrow> 'a option" where
  \<comment> \<open>an assignment through a pointer, if it is not null\<close>
  "upd i f T = (if i = 0 then T else T(i := map_option f (T i)))"

lemma upd_other: "x \<noteq> i \<Longrightarrow> upd i f T x = T x"
  by (simp add: upd_def)

lemma upd_at: "i \<noteq> 0 \<Longrightarrow> upd i f T i = map_option f (T i)"
  by (simp add: upd_def)

locale term_links =
  fixes head :: "'n \<Rightarrow> nat" and set_head :: "nat \<Rightarrow> 'n \<Rightarrow> 'n"
    and nx pv own :: "'a \<Rightarrow> nat" and set_nx set_pv set_own :: "nat \<Rightarrow> 'a \<Rightarrow> 'a"
  assumes head_set: "head (set_head v n) = v"
    and nx_set: "nx (set_nx v a) = v" "nx (set_pv v a) = nx a" "nx (set_own v a) = nx a"
    and pv_set: "pv (set_nx v a) = pv a" "pv (set_pv v a) = v" "pv (set_own v a) = pv a"
    and own_set: "own (set_nx v a) = own a" "own (set_pv v a) = own a" "own (set_own v a) = v"
begin

definition unlinked :: "nat \<Rightarrow> 'a \<Rightarrow> (nat \<Rightarrow> 'a option) \<Rightarrow> nat \<Rightarrow> 'a option" where
  "unlinked i t T = upd i (set_own 0) (upd (pv t) (set_nx (nx t)) (upd (nx t) (set_pv (pv t)) T))"

definition linked :: "nat \<Rightarrow> nat \<Rightarrow> nat \<Rightarrow> (nat \<Rightarrow> 'a option) \<Rightarrow> nat \<Rightarrow> 'a option" where
  "linked i n h T = upd h (set_pv i) (upd i (\<lambda>t. set_pv 0 (set_nx h (set_own n t))) T)"

lemma upd_own: "map_option own (upd i (set_nx v) T x) = map_option own (T x)" "map_option own (upd i (set_pv v) T x) = map_option own (T x)"
  by (simp_all add: upd_def own_set option.map_comp comp_def)

lemma unlink_split:
  assumes "dseg nx pv T 0 q (ys @ i # zs) 0" "distinct (ys @ i # zs)" "T i = Some t"
  shows "pv t = last (0 # ys)" "dseg nx pv T 0 q ys i" "dseg nx pv T i (nx t) zs 0" "nx t = (case zs of [] \<Rightarrow> 0 | z # _ \<Rightarrow> z)"
proof -
  have "dseg nx pv T 0 q ys i \<and> dseg nx pv T (last (0 # ys)) i (i # zs) 0" using assms(1) by (auto simp: dseg_append)
  then show "pv t = last (0 # ys)" "dseg nx pv T 0 q ys i" and z: "dseg nx pv T i (nx t) zs 0" using assms(3) by auto
  from dseg_head [OF z] show "nx t = (case zs of [] \<Rightarrow> 0 | z # _ \<Rightarrow> z)" .
qed

lemma unlink_dseg:
  assumes "dseg nx pv T 0 q (ys @ i # zs) 0" "distinct (ys @ i # zs)" "T i = Some t" "0 \<notin> set ys"
  shows "dseg nx pv (upd (pv t) (set_nx (nx t)) (upd (nx t) (set_pv (pv t)) T)) 0 (if ys = [] then nx t else q) (ys @ zs) 0"
proof -
  let ?T1 = "upd (nx t) (set_pv (pv t)) T" let ?T2 = "upd (pv t) (set_nx (nx t)) ?T1"
  note s = unlink_split [OF assms(1-3)]
  have ys: "\<forall>x \<in> set ys. x \<noteq> nx t"
  proof
    fix x assume x: "x \<in> set ys"
    then have "x \<noteq> 0" using assms(4) by metis
    then show "x \<noteq> nx t" using s(4) assms(2) x by (cases zs) auto
  qed
  have pv: "pv t \<notin> set zs" if "pv t \<noteq> 0" using s(1) assms(2) that by (cases ys rule: rev_cases) auto
  have "dseg nx pv ?T2 (pv t) (nx t) zs 0"
  proof (cases zs)
    case (Cons z zs')
    obtain u where u: "T z = Some u" "z \<noteq> 0" "dseg nx pv T z (nx u) zs' 0" using s(3) Cons by auto
    have z: "nx t = z" using s(4) Cons by simp
    have p: "pv t = 0 \<or> pv t \<noteq> z" using pv Cons by auto
    then have "?T2 z = Some (set_pv (pv t) u)" using z u(1,2) by (auto simp: upd_def)
    moreover have "dseg nx pv ?T2 z (nx u) zs' 0"
      by (rule dseg_same [OF u(3)]) (use z assms(2) pv Cons in \<open>auto simp: upd_def\<close>)
    ultimately show ?thesis using z u(2) Cons by (simp add: nx_set pv_set)
  qed (use s(3) in simp)
  moreover have "dseg nx pv ?T2 0 (if ys = [] then nx t else q) ys (nx t)"
  proof (cases ys rule: rev_cases)
    case (snoc ys' y)
    have y: "pv t = y" "y \<noteq> 0" "y \<noteq> nx t" using s(1) assms(4) ys snoc by auto
    obtain u where u: "dseg nx pv T 0 q ys' y" "T y = Some u" "pv u = last (0 # ys')" "nx u = i"
      using s(2) snoc by (auto simp: dseg_append)
    have "?T2 y = Some (set_nx (nx t) u)" using y u(2) by (simp add: upd_def)
    moreover have "dseg nx pv ?T2 0 q ys' y"
      by (rule dseg_same [OF u(1)]) (use y ys assms(2) snoc in \<open>auto simp: upd_def\<close>)
    ultimately show ?thesis using y(2) u(3) snoc by (simp add: dseg_append nx_set pv_set)
  qed simp
  ultimately show ?thesis using s(1) by (auto simp: dseg_append)
qed

lemma listed_unlink:
  assumes "listed head nx pv own N T L" "T i = Some t" "own t = n" "n \<noteq> 0" "N n = Some a"
  shows "listed head nx pv own (if head a = i then N(n \<mapsto> set_head (nx t) a) else N) (unlinked i t T) (L(n := remove1 i (L n)))"
    "unlinked i t T i = Some (set_own 0 t)"
proof -
  note l = listedD [OF assms(1)]
  let ?T2 = "upd (pv t) (set_nx (nx t)) (upd (nx t) (set_pv (pv t)) T)"
  have "i \<in> set (L n)" using l(5) [OF assms(5)] assms(2,3) by blast
  then obtain ys zs where L: "L n = ys @ i # zs" by (meson split_list)
  have d: "distinct (ys @ i # zs)" using l(4) [OF assms(5)] L by simp
  have seg: "dseg nx pv T 0 (head a) (ys @ i # zs) 0" using l(3) [OF assms(5)] L by simp
  have i0: "i \<noteq> 0" using assms(2) l(2) by (cases i) auto
  have ys0: "0 \<notin> set ys" using dseg_mem [OF seg] by auto
  note s = unlink_split [OF seg d assms(2)]
  have h: "head a = i \<longleftrightarrow> ys = []" using dseg_head [OF seg] d by (cases ys) auto
  have r: "remove1 i (L n) = ys @ zs" using L d by (simp add: remove1_append)
  have sub: "x \<in> set (L n)" if "x \<in> {pv t, nx t}" "x \<noteq> 0" for x
    using s(1,4) that L by (auto split: if_splits list.splits)
  have i: "?T2 i = T i" using s(1,4) d by (auto simp: upd_def split: if_splits list.splits)
  show "unlinked i t T i = Some (set_own 0 t)" using i i0 assms(2) by (simp add: unlinked_def upd_def)
  have own: "map_option own (?T2 x) = map_option own (T x)" for x by (simp add: upd_own)
  have u: "unlinked i t T x = ?T2 x" if "x \<noteq> i" for x using that by (simp add: unlinked_def upd_other)
  have ui: "unlinked i t T i = Some (set_own 0 t)" using i i0 assms(2) by (simp add: unlinked_def upd_at)
  have o': "(\<exists>v. unlinked i t T x = Some v \<and> own v = m) \<longleftrightarrow> (if x = i then m = 0 else \<exists>v. T x = Some v \<and> own v = m)" for x m
  proof (cases "x = i")
    case False
    then show ?thesis using own [of x] u [of x] by (cases "T x"; cases "?T2 x") auto
  qed (use ui in \<open>auto simp: own_set\<close>)
  let ?N = "if head a = i then N(n \<mapsto> set_head (nx t) a) else N"
  have N: "\<exists>c. N m = Some c \<and> head b = (if m = n \<and> ys = [] then nx t else head c)" if "?N m = Some b" for m b
    using that assms(5) h by (auto simp: head_set split: if_splits)
  show "listed head nx pv own ?N (unlinked i t T) (L(n := remove1 i (L n)))"
  proof (rule listedI)
    show "?N 0 = None" using l(1) assms(4) by auto
    show "unlinked i t T 0 = None" using l(2) i0 by (auto simp: unlinked_def upd_def)
    fix m b assume m: "?N m = Some b"
    obtain c where c: "N m = Some c" "head b = (if m = n \<and> ys = [] then nx t else head c)" using N [OF m] by blast
    have m0: "m \<noteq> 0" using c(1) l(1) by (cases m) auto
    show "dseg nx pv (unlinked i t T) 0 (head b) ((L(n := remove1 i (L n))) m) 0 \<and> distinct ((L(n := remove1 i (L n))) m)"
    proof (cases "m = n")
      case True
      have "dseg nx pv (unlinked i t T) 0 (if ys = [] then nx t else head a) (ys @ zs) 0"
      proof (rule dseg_same [OF unlink_dseg [OF seg d assms(2) ys0]])
        fix x assume "x \<in> set (ys @ zs)"
        then have "x \<noteq> i" using d by auto
        then show "unlinked i t T x = ?T2 x" by (rule u)
      qed
      then show ?thesis using True c r d assms(5) by auto
    next
      case False
      have "unlinked i t T x = T x" if "x \<in> set (L m)" for x
      proof -
        have "x \<notin> set (L n)" "x \<noteq> 0" using l(5) [OF c(1), of x] l(5) [OF assms(5), of x] that False l(2) by auto
        then have "x \<noteq> i" "x \<notin> {pv t, nx t}" using sub [of x] L by auto
        then show ?thesis by (simp add: u upd_other)
      qed
      then show ?thesis using False l(3,4) [OF c(1)] c(2) dseg_same [of nx pv T 0 "head b" "L m" 0] by auto
    qed
    show "x \<in> set ((L(n := remove1 i (L n))) m) \<longleftrightarrow> (\<exists>v. unlinked i t T x = Some v \<and> own v = m)" for x
      unfolding o' using l(5) [OF c(1), of x] m0 d r L assms(2,3) by auto
  next
    fix x v assume v: "unlinked i t T x = Some v" "own v \<noteq> 0"
    then have "\<exists>w. T x = Some w \<and> own w = own v" using o' [of x "own v"] by (auto split: if_splits)
    then show "\<exists>b. ?N (own v) = Some b" using l(6) [of x] v(2) by auto
  qed
qed

lemma listed_link:
  assumes "listed head nx pv own N T L" "T i = Some t" "own t = 0" "N n = Some a"
  shows "listed head nx pv own (N(n \<mapsto> set_head i a)) (linked i n (head a) T) (L(n := i # L n))"
proof -
  note l = listedD [OF assms(1)]
  let ?h = "head a" and ?t = "set_pv 0 (set_nx (head a) (set_own n t))"
  have i0: "i \<noteq> 0" using assms(2) l(2) by (cases i) auto
  have n0: "n \<noteq> 0" using assms(4) l(1) by (cases n) auto
  have seg: "dseg nx pv T 0 ?h (L n) 0" by (rule l(3) [OF assms(4)])
  have h: "?h = (case L n of [] \<Rightarrow> 0 | x # _ \<Rightarrow> x)" by (rule dseg_head [OF seg])
  have i: "i \<notin> set (L m)" if "N m = Some b" for m b using l(5) [OF that, of i] assms(2,3) that l(1) by auto
  have hi: "?h \<noteq> i" using h i [OF assms(4)] i0 by (auto split: list.splits)
  have ti: "linked i n ?h T i = Some ?t" using hi i0 assms(2) by (simp add: linked_def upd_def)
  have tx: "linked i n ?h T x = upd ?h (set_pv i) T x" if "x \<noteq> i" for x using that by (simp add: linked_def upd_def)
  have o': "(\<exists>v. linked i n ?h T x = Some v \<and> own v = m) \<longleftrightarrow> (if x = i then m = n else \<exists>v. T x = Some v \<and> own v = m)" for x m
  proof (cases "x = i")
    case False
    then show ?thesis using upd_own(2) [of ?h i T x] tx [OF False] by (cases "T x"; cases "upd ?h (set_pv i) T x") auto
  qed (use ti in \<open>auto simp: own_set\<close>)
  show ?thesis
  proof (rule listedI)
    show "(N(n \<mapsto> set_head i a)) 0 = None" using l(1) n0 by simp
    show "linked i n ?h T 0 = None" using l(2) i0 by (auto simp: linked_def upd_def)
    fix m b assume m: "(N(n \<mapsto> set_head i a)) m = Some b"
    show "dseg nx pv (linked i n ?h T) 0 (head b) ((L(n := i # L n)) m) 0 \<and> distinct ((L(n := i # L n)) m)"
    proof (cases "m = n")
      case True
      have "dseg nx pv (linked i n ?h T) i ?h (L n) 0"
      proof (cases "L n")
        case (Cons x xs)
        obtain u where u: "T x = Some u" "x \<noteq> 0" "dseg nx pv T x (nx u) xs 0" using seg Cons by auto
        have x: "?h = x" "x \<noteq> i" using h hi Cons by auto
        have "dseg nx pv (linked i n ?h T) x (nx u) xs 0"
        proof (rule dseg_same [OF u(3)])
          fix y assume "y \<in> set xs"
          then have "y \<noteq> i" "y \<noteq> ?h" using x(1) i [OF assms(4)] l(4) [OF assms(4)] Cons by auto
          then show "linked i n ?h T y = T y" by (simp add: tx upd_other)
        qed
        moreover have "linked i n ?h T x = Some (set_pv i u)" using x u(1,2) tx [OF x(2)] by (simp add: upd_def)
        ultimately show ?thesis using x(1) u(2) Cons by (simp add: nx_set pv_set)
      qed (use h in simp)
      then show ?thesis using True m ti i0 i [OF assms(4)] l(4) [OF assms(4)] by (auto simp: head_set nx_set pv_set)
    next
      case False
      then have c: "N m = Some b" using m by simp
      have "linked i n ?h T x = T x" if "x \<in> set (L m)" for x
      proof -
        have "x \<notin> set (L n)" using l(5) [OF c, of x] l(5) [OF assms(4), of x] that False by auto
        moreover have "x \<noteq> 0" using l(2) l(5) [OF c, of x] that by (cases x) auto
        ultimately have "x \<noteq> ?h" using h by (cases "L n") auto
        moreover have "x \<noteq> i" using i [OF c] that by auto
        ultimately show ?thesis by (simp add: tx upd_other)
      qed
      then show ?thesis using False l(3,4) [OF c] dseg_same [of nx pv T 0 "head b" "L m" 0] by auto
    qed
    show "x \<in> set ((L(n := i # L n)) m) \<longleftrightarrow> (\<exists>v. linked i n ?h T x = Some v \<and> own v = m)" for x
    proof (cases "m = n")
      case True
      then show ?thesis unfolding o' using l(5) [OF assms(4), of x] by auto
    next
      case False
      then show ?thesis unfolding o' using m l(5) [of m b x] i [of m b] by auto
    qed
  next
    fix x v assume v: "linked i n ?h T x = Some v" "own v \<noteq> 0"
    then have "(if x = i then own v = n else \<exists>w. T x = Some w \<and> own w = own v)" using o' [of x "own v"] by auto
    then show "\<exists>b. (N(n \<mapsto> set_head i a)) (own v) = Some b" using l(6) [of x] v(2) by (auto split: if_splits)
  qed
qed

lemma listed_ends:
  assumes "listed head nx pv own N T L" "T i = Some t" "own t \<noteq> 0"
  obtains a where "N (own t) = Some a" "head a = i \<longleftrightarrow> pv t = 0" "nx t \<noteq> 0 \<Longrightarrow> \<exists>u. T (nx t) = Some u"
    "pv t \<noteq> 0 \<Longrightarrow> \<exists>u. T (pv t) = Some u" "i \<noteq> nx t" "i \<noteq> pv t" "i \<noteq> 0" "pv t \<noteq> 0 \<Longrightarrow> pv t \<noteq> nx t"
proof -
  note l = listedD [OF assms(1)]
  obtain a where a: "N (own t) = Some a" using l(6) [OF assms(2)] assms(3) by auto
  have "i \<in> set (L (own t))" using l(5) [OF a] assms(2) by blast
  then obtain ys zs where L: "L (own t) = ys @ i # zs" by (meson split_list)
  have d: "distinct (ys @ i # zs)" using l(4) [OF a] L by simp
  have seg: "dseg nx pv T 0 (head a) (ys @ i # zs) 0" using l(3) [OF a] L by simp
  have m: "x \<noteq> 0 \<and> (\<exists>u. T x = Some u)" if "x \<in> set (ys @ i # zs)" for x using dseg_mem [OF seg that] .
  note s = unlink_split [OF seg d assms(2)]
  have "head a = i \<longleftrightarrow> ys = []" using dseg_head [OF seg] d by (cases ys) auto
  moreover have "ys = [] \<longleftrightarrow> pv t = 0" using s(1) m by (cases ys rule: rev_cases) auto
  ultimately have "head a = i \<longleftrightarrow> pv t = 0" by simp
  moreover have "\<exists>u. T (nx t) = Some u" if "nx t \<noteq> 0" using s(4) m that by (cases zs) auto
  moreover have "\<exists>u. T (pv t) = Some u" if "pv t \<noteq> 0" using s(1) m that by (cases ys rule: rev_cases) auto
  moreover have "i \<noteq> nx t" using s(4) d m [of i] by (cases zs) auto
  moreover have "i \<noteq> pv t" using s(1) d m [of i] by (cases ys rule: rev_cases) auto
  moreover have "pv t \<noteq> nx t" if "pv t \<noteq> 0" using s(1,4) d that by (cases ys rule: rev_cases; cases zs) auto
  ultimately show ?thesis using that [OF a] m [of i] by auto
qed

end

end
