(* ===== verification/Odb_Net_Facts.thy ===== *)
theory Odb_Net_Facts
  imports Odb_Net_Index Odb_Net_Links Odb_Journal_Props
begin

section \<open>Steps on a netlist\<close>

text \<open>
  What a netlist means (\<open>nstate\<close>): its tables as maps, without the links of the indexes. \<open>st b s\<close> says that the
  tables and indexes of \<open>b\<close> are in order and mean \<open>s\<close>; each elementary step has a rule for \<open>ends\<close>, which says
  that it does not fail and what holds afterwards.
\<close>

subsection \<open>Steps that do not fail\<close>

definition ends :: "'a result \<Rightarrow> ('a \<Rightarrow> bool) \<Rightarrow> bool" where
  "ends m Q \<longleftrightarrow> (\<exists>x. m = Inr x \<and> Q x)"

lemma ends_Inr [simp]: "ends (Inr x) Q = Q x"
  by (simp add: ends_def)

lemma ends_Inl [simp]: "\<not> ends (Inl f) Q"
  by (simp add: ends_def)

lemma ends_bind: "ends m P \<Longrightarrow> (\<And>x. P x \<Longrightarrow> ends (f x) Q) \<Longrightarrow> ends (bindE m f) Q"
  by (auto simp: ends_def)

lemma ends_mono: "ends m P \<Longrightarrow> (\<And>x. P x \<Longrightarrow> Q x) \<Longrightarrow> ends m Q"
  by (auto simp: ends_def)

lemma ends_eq: "ends m Q \<Longrightarrow> m = Inr x \<Longrightarrow> Q x"
  by (simp add: ends_def)

lemma ends_conj: "ends m P \<Longrightarrow> ends m Q \<Longrightarrow> ends m (\<lambda>x. P x \<and> Q x)"
  by (auto simp: ends_def)

subsection \<open>The meaning of a netlist\<close>

record nstate =
  s_nets :: "nat \<Rightarrow> net_obj option"
  s_iterms :: "nat \<Rightarrow> iterm_obj option"
  s_bterms :: "nat \<Rightarrow> bterm_obj option"
  s_insts :: "nat \<Rightarrow> inst_obj option"
  s_hdrs :: "nat \<Rightarrow> hdr_obj option"
  c_nets :: nat
  c_iterms :: nat
  c_bterms :: nat
  c_insts :: nat
  c_hdrs :: nat
  s_journal :: "dbJournal option"
  s_pending :: "dbJournal option"

definition state_of :: "netlist \<Rightarrow> nstate" where
  "state_of b =
     \<lparr>s_nets = view (net_tbl b), s_iterms = objs (iterm_tbl b), s_bterms = view (bterm_tbl b), s_insts = view (inst_tbl b),
      s_hdrs = view (inst_hdr_tbl b),
      c_nets = cap (net_tbl b), c_iterms = cap (iterm_tbl b), c_bterms = cap (bterm_tbl b), c_insts = cap (inst_tbl b),
      c_hdrs = cap (inst_hdr_tbl b),
      s_journal = journal b, s_pending = journal_pending b\<rparr>"

definition tables_ok :: "netlist \<Rightarrow> bool" where
  "tables_ok b \<longleftrightarrow> index_ok hash_string (net_hash b) (net_tbl b) \<and> index_ok hash_string (inst_hash b) (inst_tbl b)
     \<and> index_ok hash_string (bterm_hash b) (bterm_tbl b) \<and> index_ok hash_int (inst_hdr_hash b) (inst_hdr_tbl b)
     \<and> table_ok (iterm_tbl b) \<and> cap (iterm_tbl b) \<le> 2 ^ 31
     \<and> page_size (net_tbl b) = 128 \<and> page_size (iterm_tbl b) = 128 \<and> page_size (bterm_tbl b) = 128 \<and> page_size (inst_tbl b) = 128
     \<and> page_size (inst_hdr_tbl b) = 128 \<and> (\<forall>j. journal b = Some j \<longrightarrow> \<not> start_action j)"

definition st :: "netlist \<Rightarrow> nstate \<Rightarrow> bool" where
  "st b s \<longleftrightarrow> tables_ok b \<and> state_of b = s"

lemma stD: "st b s \<Longrightarrow> tables_ok b" "st b s \<Longrightarrow> state_of b = s"
  by (simp_all add: st_def)

lemma tables_okD:
  assumes "tables_ok b"
  shows "index_ok hash_string (net_hash b) (net_tbl b)" "index_ok hash_string (inst_hash b) (inst_tbl b)"
    "index_ok hash_string (bterm_hash b) (bterm_tbl b)" "index_ok hash_int (inst_hdr_hash b) (inst_hdr_tbl b)"
    "table_ok (iterm_tbl b)" "cap (iterm_tbl b) \<le> 2 ^ 31" "journal b = Some j \<Longrightarrow> \<not> start_action j"
    "page_size (net_tbl b) = 128" "page_size (iterm_tbl b) = 128" "page_size (bterm_tbl b) = 128" "page_size (inst_tbl b) = 128"
    "page_size (inst_hdr_tbl b) = 128"
  using assms by (auto simp: tables_ok_def)

lemma state_sel [simp]:
  "s_nets (state_of b) = view (net_tbl b)" "s_iterms (state_of b) = objs (iterm_tbl b)" "s_bterms (state_of b) = view (bterm_tbl b)"
  "s_insts (state_of b) = view (inst_tbl b)" "s_hdrs (state_of b) = view (inst_hdr_tbl b)" "s_journal (state_of b) = journal b"
  "s_pending (state_of b) = journal_pending b"
  by (simp_all add: state_of_def)

subsection \<open>Reading\<close>

named_theorems steps "rules for the elementary steps"

lemma get_iterm [steps]: "st b s \<Longrightarrow> s_iterms s i = Some t \<Longrightarrow> ends (getPtr (iterm_tbl b) i) (\<lambda>x. x = t)"
  using getPtr_Some [of "iterm_tbl b" i t] by (auto simp: st_def tables_ok_def)

lemma get_net [steps]: "st b s \<Longrightarrow> s_nets s n = Some a \<Longrightarrow> ends (getPtr (net_tbl b) n) (\<lambda>x. x\<lparr>next_entry := 0\<rparr> = a)"
  using deref_view [OF tables_okD(1) [OF stD(1)], of b s n a] by (auto simp: st_def view_def)

lemma get_bterm [steps]: "st b s \<Longrightarrow> s_bterms s n = Some a \<Longrightarrow> ends (getPtr (bterm_tbl b) n) (\<lambda>x. x\<lparr>next_entry := 0\<rparr> = a)"
  using deref_view [OF tables_okD(3) [OF stD(1)], of b s n a] by (auto simp: st_def view_def)

lemma get_inst [steps]: "st b s \<Longrightarrow> s_insts s n = Some a \<Longrightarrow> ends (getPtr (inst_tbl b) n) (\<lambda>x. x\<lparr>next_entry := 0\<rparr> = a)"
  using deref_view [OF tables_okD(2) [OF stD(1)], of b s n a] by (auto simp: st_def view_def)

lemma get_hdr [steps]: "st b s \<Longrightarrow> s_hdrs s n = Some a \<Longrightarrow> ends (getPtr (inst_hdr_tbl b) n) (\<lambda>x. x\<lparr>next_entry := 0\<rparr> = a)"
  using deref_view [OF tables_okD(4) [OF stD(1)], of b s n a] by (auto simp: st_def view_def)

lemma entry_fields:
  "x\<lparr>next_entry := 0\<rparr> = a \<Longrightarrow> n_iterms x = n_iterms a" "x\<lparr>next_entry := 0\<rparr> = a \<Longrightarrow> n_bterms x = n_bterms a"
  "y\<lparr>next_entry := 0\<rparr> = c \<Longrightarrow> bt_net y = bt_net c" "y\<lparr>next_entry := 0\<rparr> = c \<Longrightarrow> next_bterm y = next_bterm c"
  "y\<lparr>next_entry := 0\<rparr> = c \<Longrightarrow> prev_bterm y = prev_bterm c"
  "z\<lparr>next_entry := 0\<rparr> = d \<Longrightarrow> i_inst_hdr z = i_inst_hdr d" "z\<lparr>next_entry := 0\<rparr> = d \<Longrightarrow> i_iterms z = i_iterms d"
  "w\<lparr>next_entry := 0\<rparr> = e \<Longrightarrow> h_lib w = h_lib e" "w\<lparr>next_entry := 0\<rparr> = e \<Longrightarrow> h_master w = h_master e"
  "w\<lparr>next_entry := 0\<rparr> = e \<Longrightarrow> h_mterms w = h_mterms e" "w\<lparr>next_entry := 0\<rparr> = e \<Longrightarrow> inst_cnt w = inst_cnt e"
  by auto

subsection \<open>Writing\<close>

lemma mod_iterm_ends [steps]:
  assumes "st b s" "s_iterms s i = Some t"
  shows "ends (mod_iterm i f b) (\<lambda>b'. st b' (s\<lparr>s_iterms := (s_iterms s)(i \<mapsto> f t)\<rparr>))"
proof -
  have o: "objs (iterm_tbl b) i = Some t" using assms by (auto simp: st_def)
  note u = assign_plain [OF tables_okD(5) [OF stD(1) [OF assms(1)]] o, of f]
  show ?thesis using assms(1) u by (auto simp: mod_iterm_def st_def tables_ok_def state_of_def)
qed

lemma mod_net_ends [steps]:
  assumes "st b s" "s_nets s n = Some a" "keeps_entry f"
  shows "ends (mod_net n f b) (\<lambda>b'. st b' (s\<lparr>s_nets := (s_nets s)(n \<mapsto> f a)\<rparr>))"
proof -
  have "view (net_tbl b) n = Some a" using assms(1,2) by (auto simp: st_def)
  note u = index_assign [OF tables_okD(1) [OF stD(1) [OF assms(1)]] this assms(3)]
  show ?thesis using assms(1) u by (auto simp: mod_net_def st_def tables_ok_def state_of_def)
qed

lemma mod_bterm_ends [steps]:
  assumes "st b s" "s_bterms s n = Some a" "keeps_entry f"
  shows "ends (mod_bterm n f b) (\<lambda>b'. st b' (s\<lparr>s_bterms := (s_bterms s)(n \<mapsto> f a)\<rparr>))"
proof -
  have "view (bterm_tbl b) n = Some a" using assms(1,2) by (auto simp: st_def)
  note u = index_assign [OF tables_okD(3) [OF stD(1) [OF assms(1)]] this assms(3)]
  show ?thesis using assms(1) u by (auto simp: mod_bterm_def st_def tables_ok_def state_of_def)
qed

lemma mod_inst_ends [steps]:
  assumes "st b s" "s_insts s n = Some a" "keeps_entry f"
  shows "ends (mod_inst n f b) (\<lambda>b'. st b' (s\<lparr>s_insts := (s_insts s)(n \<mapsto> f a)\<rparr>))"
proof -
  have "view (inst_tbl b) n = Some a" using assms(1,2) by (auto simp: st_def)
  note u = index_assign [OF tables_okD(2) [OF stD(1) [OF assms(1)]] this assms(3)]
  show ?thesis using assms(1) u by (auto simp: mod_inst_def st_def tables_ok_def state_of_def)
qed

lemma mod_hdr_ends [steps]:
  assumes "st b s" "s_hdrs s n = Some a" "keeps_entry f"
  shows "ends (mod_hdr n f b) (\<lambda>b'. st b' (s\<lparr>s_hdrs := (s_hdrs s)(n \<mapsto> f a)\<rparr>))"
proof -
  have "view (inst_hdr_tbl b) n = Some a" using assms(1,2) by (auto simp: st_def)
  note u = index_assign [OF tables_okD(4) [OF stD(1) [OF assms(1)]] this assms(3)]
  show ?thesis using assms(1) u by (auto simp: mod_hdr_def st_def tables_ok_def state_of_def)
qed

lemma keeps_entry_fields [simp]:
  "keeps_entry (n_iterms_update g)" "keeps_entry (n_bterms_update g)"
  "keeps_entry (bt_net_update g)" "keeps_entry (next_bterm_update g)" "keeps_entry (prev_bterm_update g)"
  "keeps_entry (i_inst_hdr_update h)" "keeps_entry (i_iterms_update h')" "keeps_entry (inst_cnt_update k)"
  by (simp_all add: keeps_entry_def)

subsection \<open>The journal\<close>

definition recorded :: "change list \<Rightarrow> dbJournal option \<Rightarrow> dbJournal option \<Rightarrow> bool" where
  \<comment> \<open>these changes were written, if there is a journal\<close>
  "recorded cs j j' \<longleftrightarrow> (case j of None \<Rightarrow> j' = None | Some j \<Rightarrow> (\<exists>j1. j' = Some j1 \<and> (\<forall>n. history n j cs n j1)))"

lemma history_append: "history n j cs n1 j1 \<Longrightarrow> history n1 j1 ds n2 j2 \<Longrightarrow> history n j (cs @ ds) n2 j2"
  by (induction rule: history.induct) (auto intro: history_Cons)

lemma recorded_nothing [simp]: "recorded [] j j"
  by (auto simp: recorded_def history_Nil split: option.split)

lemma recorded_append: "recorded cs j j1 \<Longrightarrow> recorded ds j1 j2 \<Longrightarrow> recorded (cs @ ds) j j2"
  by (auto simp: recorded_def split: option.splits intro: history_append)

definition after :: "nstate \<Rightarrow> change list \<Rightarrow> netlist \<Rightarrow> bool" where
  \<comment> \<open>a netlist that means \<open>s\<close> but for its journal, to which these changes were added\<close>
  "after s cs b \<longleftrightarrow> (\<exists>j. st b (s\<lparr>s_journal := j\<rparr>) \<and> recorded cs (s_journal s) j)"

lemma after_st: "st b s \<Longrightarrow> after s [] b"
  by (auto simp: after_def intro!: exI [of _ "s_journal s"])

lemma after_step:
  assumes "after s cs b" "\<And>j. st b (s\<lparr>s_journal := j\<rparr>) \<Longrightarrow> ends m (\<lambda>b'. st b' (s'\<lparr>s_journal := j\<rparr>))" "s_journal s' = s_journal s"
  shows "ends m (after s' cs)"
proof -
  obtain j where j: "st b (s\<lparr>s_journal := j\<rparr>)" "recorded cs (s_journal s) j" using assms(1) by (auto simp: after_def)
  show ?thesis by (rule ends_mono [OF assms(2) [OF j(1)]]) (use j(2) assms(3) in \<open>auto simp: after_def\<close>)
qed

lemma after_get:
  assumes "after s cs b" "\<And>j. st b (s\<lparr>s_journal := j\<rparr>) \<Longrightarrow> ends m Q"
  shows "ends m Q"
  using assms by (auto simp: after_def)

lemma idle_action:
  assumes "\<not> start_action j"
  shows "\<exists>j'. log_action a vs j = Inr j' \<and> \<not> start_action j'"
proof -
  have "start_action (fold pushParam vs k) = start_action k" for k by (simp add: pushParams)
  then show ?thesis using assms by (simp add: log_action_def beginAction_def endAction_def)
qed

lemma write_ends:
  assumes "st b s" "\<And>n. edit n w c" "w = log_action a vs" "\<And>n. corners_after (Some c) n = n"
  shows "ends (write_journal w b) (after s [c])"
proof (cases "journal b")
  case None
  then show ?thesis using assms(1) by (auto simp: write_journal_def after_def st_def recorded_def)
next
  case (Some j)
  have "\<not> start_action j" by (rule tables_okD(7) [OF stD(1) [OF assms(1)] Some])
  then obtain j1 where j1: "w j = Inr j1" "\<not> start_action j1" using idle_action unfolding assms(3) by blast
  have "history n j [c] n j1" for n
    using history_Cons [OF assms(2) j1(1), of n "[]" n j1] history_Nil assms(4) by simp
  moreover have "st (b\<lparr>journal := Some j1\<rparr>) (s\<lparr>s_journal := Some j1\<rparr>)"
    using assms(1) j1(2) by (auto simp: st_def tables_ok_def state_of_def)
  moreover have "s_journal s = Some j" using assms(1) Some by (auto simp: st_def)
  ultimately show ?thesis using Some j1(1) by (auto simp: write_journal_def after_def recorded_def)
qed

lemma after_write:
  assumes "after s cs b" "\<And>s. st b s \<Longrightarrow> ends (write_journal w b) (after s [c])"
  shows "ends (write_journal w b) (after s (cs @ [c]))"
proof -
  obtain j where j: "st b (s\<lparr>s_journal := j\<rparr>)" "recorded cs (s_journal s) j" using assms(1) by (auto simp: after_def)
  show ?thesis by (rule ends_mono [OF assms(2) [OF j(1)]]) (use j(2) recorded_append in \<open>auto simp: after_def\<close>)
qed

lemma after_writes:
  assumes "after s cs b"
  shows "ends (write_journal (log_iterm_connect t n) b) (after s (cs @ [OnTerm (ITermConnect t n)]))"
    "ends (write_journal (log_iterm_disconnect t) b) (after s (cs @ [OnTerm (ITermDisconnect t)]))"
    "ends (write_journal (log_bterm_connect t n) b) (after s (cs @ [OnTerm (BTermConnect t n)]))"
    "ends (write_journal (log_bterm_disconnect t) b) (after s (cs @ [OnTerm (BTermDisconnect t)]))"
    "string_ok nm \<Longrightarrow> ends (write_journal (log_bterm_create n nm) b) (after s (cs @ [OnTerm (BTermCreate n nm)]))"
    "ends (write_journal (log_bterm_destroy t) b) (after s (cs @ [OnTerm (BTermDestroy t)]))"
    "string_ok nm \<Longrightarrow> ends (write_journal (log_net_create nm) b) (after s (cs @ [OnNet (NetCreate nm)]))"
    "ends (write_journal (log_net_destroy n) b) (after s (cs @ [OnNet (NetDestroy n)]))"
    "string_ok nm \<Longrightarrow> ends (write_journal (log_inst_create l m nm) b) (after s (cs @ [OnInst (InstCreate l m nm)]))"
    "ends (write_journal (log_inst_destroy i) b) (after s (cs @ [OnInst (InstDestroy i)]))"
    "ends (write_journal (log_swapMaster i ol om l m) b) (after s (cs @ [OnInst (InstSwap i l m)]))"
  by (rule after_write [OF assms], erule write_ends, (rule edit.intros, assumption?), simp only: writer_defs, simp add: corners_after_def)+

lemma after_reads:
  assumes "after s cs b"
  shows "s_iterms s i = Some t \<Longrightarrow> ends (getPtr (iterm_tbl b) i) (\<lambda>x. x = t)"
    "s_nets s n = Some a \<Longrightarrow> ends (getPtr (net_tbl b) n) (\<lambda>x. x\<lparr>next_entry := 0\<rparr> = a)"
    "s_bterms s i = Some u \<Longrightarrow> ends (getPtr (bterm_tbl b) i) (\<lambda>x. x\<lparr>next_entry := 0\<rparr> = u)"
    "s_insts s i = Some y \<Longrightarrow> ends (getPtr (inst_tbl b) i) (\<lambda>x. x\<lparr>next_entry := 0\<rparr> = y)"
    "s_hdrs s i = Some z \<Longrightarrow> ends (getPtr (inst_hdr_tbl b) i) (\<lambda>x. x\<lparr>next_entry := 0\<rparr> = z)"
  by (rule after_get [OF assms], erule get_iterm get_net get_bterm get_inst get_hdr, simp)+

lemma swap_iterms: "s\<lparr>s_journal := j, s_iterms := x\<rparr> = s\<lparr>s_iterms := x, s_journal := j\<rparr>" by simp
lemma swap_nets: "s\<lparr>s_journal := j, s_nets := x\<rparr> = s\<lparr>s_nets := x, s_journal := j\<rparr>" by simp
lemma swap_bterms: "s\<lparr>s_journal := j, s_bterms := x\<rparr> = s\<lparr>s_bterms := x, s_journal := j\<rparr>" by simp
lemma swap_insts: "s\<lparr>s_journal := j, s_insts := x\<rparr> = s\<lparr>s_insts := x, s_journal := j\<rparr>" by simp
lemma swap_hdrs: "s\<lparr>s_journal := j, s_hdrs := x\<rparr> = s\<lparr>s_hdrs := x, s_journal := j\<rparr>" by simp

lemma after_mods:
  assumes "after s cs b"
  shows "s_iterms s i = Some t \<Longrightarrow> ends (mod_iterm i f b) (after (s\<lparr>s_iterms := (s_iterms s)(i \<mapsto> f t)\<rparr>) cs)"
    "s_nets s n = Some a \<Longrightarrow> keeps_entry f1 \<Longrightarrow> ends (mod_net n f1 b) (after (s\<lparr>s_nets := (s_nets s)(n \<mapsto> f1 a)\<rparr>) cs)"
    "s_bterms s i = Some u \<Longrightarrow> keeps_entry f2 \<Longrightarrow> ends (mod_bterm i f2 b) (after (s\<lparr>s_bterms := (s_bterms s)(i \<mapsto> f2 u)\<rparr>) cs)"
    "s_insts s i = Some y \<Longrightarrow> keeps_entry f3 \<Longrightarrow> ends (mod_inst i f3 b) (after (s\<lparr>s_insts := (s_insts s)(i \<mapsto> f3 y)\<rparr>) cs)"
    "s_hdrs s i = Some z \<Longrightarrow> keeps_entry f4 \<Longrightarrow> ends (mod_hdr i f4 b) (after (s\<lparr>s_hdrs := (s_hdrs s)(i \<mapsto> f4 z)\<rparr>) cs)"
proof -
  show "ends (mod_iterm i f b) (after (s\<lparr>s_iterms := (s_iterms s)(i \<mapsto> f t)\<rparr>) cs)" if "s_iterms s i = Some t"
  proof (rule after_step [OF assms])
    fix j assume "st b (s\<lparr>s_journal := j\<rparr>)"
    from mod_iterm_ends [OF this, of i t f] show "ends (mod_iterm i f b) (\<lambda>b'. st b' (s\<lparr>s_iterms := (s_iterms s)(i \<mapsto> f t), s_journal := j\<rparr>))"
      using that by (simp add: swap_iterms)
  qed simp
  show "ends (mod_net n f1 b) (after (s\<lparr>s_nets := (s_nets s)(n \<mapsto> f1 a)\<rparr>) cs)" if "s_nets s n = Some a" "keeps_entry f1"
  proof (rule after_step [OF assms])
    fix j assume "st b (s\<lparr>s_journal := j\<rparr>)"
    from mod_net_ends [OF this, of n a f1] show "ends (mod_net n f1 b) (\<lambda>b'. st b' (s\<lparr>s_nets := (s_nets s)(n \<mapsto> f1 a), s_journal := j\<rparr>))"
      using that by (simp add: swap_nets)
  qed simp
  show "ends (mod_bterm i f2 b) (after (s\<lparr>s_bterms := (s_bterms s)(i \<mapsto> f2 u)\<rparr>) cs)" if "s_bterms s i = Some u" "keeps_entry f2"
  proof (rule after_step [OF assms])
    fix j assume "st b (s\<lparr>s_journal := j\<rparr>)"
    from mod_bterm_ends [OF this, of i u f2] show "ends (mod_bterm i f2 b) (\<lambda>b'. st b' (s\<lparr>s_bterms := (s_bterms s)(i \<mapsto> f2 u), s_journal := j\<rparr>))"
      using that by (simp add: swap_bterms)
  qed simp
  show "ends (mod_inst i f3 b) (after (s\<lparr>s_insts := (s_insts s)(i \<mapsto> f3 y)\<rparr>) cs)" if "s_insts s i = Some y" "keeps_entry f3"
  proof (rule after_step [OF assms])
    fix j assume "st b (s\<lparr>s_journal := j\<rparr>)"
    from mod_inst_ends [OF this, of i y f3] show "ends (mod_inst i f3 b) (\<lambda>b'. st b' (s\<lparr>s_insts := (s_insts s)(i \<mapsto> f3 y), s_journal := j\<rparr>))"
      using that by (simp add: swap_insts)
  qed simp
  show "ends (mod_hdr i f4 b) (after (s\<lparr>s_hdrs := (s_hdrs s)(i \<mapsto> f4 z)\<rparr>) cs)" if "s_hdrs s i = Some z" "keeps_entry f4"
  proof (rule after_step [OF assms])
    fix j assume "st b (s\<lparr>s_journal := j\<rparr>)"
    from mod_hdr_ends [OF this, of i z f4] show "ends (mod_hdr i f4 b) (\<lambda>b'. st b' (s\<lparr>s_hdrs := (s_hdrs s)(i \<mapsto> f4 z), s_journal := j\<rparr>))"
      using that by (simp add: swap_hdrs)
  qed simp
qed

end
