(* ===== verification/Odb_Net_Terms.thy ===== *)
theory Odb_Net_Terms
  imports Odb_Net_Facts
begin

section \<open>Connecting terminals\<close>

text \<open>
  The terminals of instances and those of the block both form lists that satisfy \<open>term_links\<close>; connecting puts
  a terminal in front of the list of its net, disconnecting takes it out.
\<close>

interpretation iterms: term_links n_iterms "\<lambda>v n. n\<lparr>n_iterms := v\<rparr>" next_net_iterm prev_net_iterm it_net
  "\<lambda>v t. t\<lparr>next_net_iterm := v\<rparr>" "\<lambda>v t. t\<lparr>prev_net_iterm := v\<rparr>" "\<lambda>v t. t\<lparr>it_net := v\<rparr>"
  by unfold_locales simp_all

interpretation bterms: term_links n_bterms "\<lambda>v n. n\<lparr>n_bterms := v\<rparr>" next_bterm prev_bterm bt_net
  "\<lambda>v t. t\<lparr>next_bterm := v\<rparr>" "\<lambda>v t. t\<lparr>prev_bterm := v\<rparr>" "\<lambda>v t. t\<lparr>bt_net := v\<rparr>"
  by unfold_locales simp_all

abbreviation iterms_listed :: "nstate \<Rightarrow> (nat \<Rightarrow> nat list) \<Rightarrow> bool" where
  "iterms_listed s L \<equiv> listed n_iterms next_net_iterm prev_net_iterm it_net (s_nets s) (s_iterms s) L"

abbreviation bterms_listed :: "nstate \<Rightarrow> (nat \<Rightarrow> nat list) \<Rightarrow> bool" where
  "bterms_listed s L \<equiv> listed n_bterms next_bterm prev_bterm bt_net (s_nets s) (s_bterms s) L"

definition iterm_unlinked :: "nat \<Rightarrow> nstate \<Rightarrow> nstate" where
  \<comment> \<open>the effect of \<open>disconnect\<close>\<close>
  "iterm_unlinked i s = (case s_iterms s i of None \<Rightarrow> s | Some t \<Rightarrow>
     if it_net t = 0 then s
     else s\<lparr>s_iterms := iterms.unlinked i t (s_iterms s),
            s_nets := (case s_nets s (it_net t) of None \<Rightarrow> s_nets s
              | Some a \<Rightarrow> if n_iterms a = i then (s_nets s)(it_net t \<mapsto> a\<lparr>n_iterms := next_net_iterm t\<rparr>) else s_nets s)\<rparr>)"

definition iterm_linked :: "nat \<Rightarrow> nat \<Rightarrow> nstate \<Rightarrow> nstate" where
  "iterm_linked i n s = (case s_nets s n of None \<Rightarrow> s | Some a \<Rightarrow>
     s\<lparr>s_iterms := iterms.linked i n (n_iterms a) (s_iterms s), s_nets := (s_nets s)(n \<mapsto> a\<lparr>n_iterms := i\<rparr>)\<rparr>)"

definition bterm_unlinked :: "nat \<Rightarrow> nstate \<Rightarrow> nstate" where
  "bterm_unlinked i s = (case s_bterms s i of None \<Rightarrow> s | Some t \<Rightarrow>
     if bt_net t = 0 then s
     else s\<lparr>s_bterms := bterms.unlinked i t (s_bterms s),
            s_nets := (case s_nets s (bt_net t) of None \<Rightarrow> s_nets s
              | Some a \<Rightarrow> if n_bterms a = i then (s_nets s)(bt_net t \<mapsto> a\<lparr>n_bterms := next_bterm t\<rparr>) else s_nets s)\<rparr>)"

definition bterm_linked :: "nat \<Rightarrow> nat \<Rightarrow> nstate \<Rightarrow> nstate" where
  "bterm_linked i n s = (case s_nets s n of None \<Rightarrow> s | Some a \<Rightarrow>
     s\<lparr>s_bterms := bterms.linked i n (n_bterms a) (s_bterms s), s_nets := (s_nets s)(n \<mapsto> a\<lparr>n_bterms := i\<rparr>)\<rparr>)"

text \<open>Assignments through pointers that may be null.\<close>

lemma mod_iterm_upd:
  assumes "after s cs b" "i \<noteq> 0 \<Longrightarrow> \<exists>t. s_iterms s i = Some t"
  shows "ends (if i \<noteq> 0 then mod_iterm i f b else Inr b) (after (s\<lparr>s_iterms := upd i f (s_iterms s)\<rparr>) cs)"
proof (cases "i = 0")
  case True
  then show ?thesis using assms(1) by (simp add: upd_def)
next
  case False
  then obtain t where "s_iterms s i = Some t" using assms(2) by blast
  then show ?thesis using after_mods(1) [OF assms(1), of i t f] False by (simp add: upd_def)
qed

lemma mod_bterm_upd:
  assumes "after s cs b" "i \<noteq> 0 \<Longrightarrow> \<exists>t. s_bterms s i = Some t" "keeps_entry f"
  shows "ends (if i \<noteq> 0 then mod_bterm i f b else Inr b) (after (s\<lparr>s_bterms := upd i f (s_bterms s)\<rparr>) cs)"
proof (cases "i = 0")
  case True
  then show ?thesis using assms(1) by (simp add: upd_def)
next
  case False
  then obtain t where "s_bterms s i = Some t" using assms(2) by blast
  then show ?thesis using after_mods(3) [OF assms(1) _ assms(3), of i t] False by (simp add: upd_def)
qed

lemma upd_Some: "(\<exists>t. T x = Some t) \<Longrightarrow> \<exists>t. upd i f T x = Some t"
  by (auto simp: upd_def)

lemma upd_0 [simp]: "upd 0 f T = T"
  by (simp add: upd_def)

subsection \<open>Terminals of instances\<close>

lemma unlink_iterm_ends:
  assumes "after s cs b" "iterms_listed s L" "s_iterms s i = Some t" "it_net t \<noteq> 0" "s_nets s (it_net t) = Some a"
    and "n_iterms net = n_iterms a"
  shows "ends (bindE (unlink_iterm i t net b) (mod_iterm i (\<lambda>it. it\<lparr>it_net := 0\<rparr>))) (after (iterm_unlinked i s) cs)"
proof -
  obtain h: "n_iterms a = i \<longleftrightarrow> prev_net_iterm t = 0"
    and nx: "next_net_iterm t \<noteq> 0 \<Longrightarrow> \<exists>u. s_iterms s (next_net_iterm t) = Some u"
    and pv: "prev_net_iterm t \<noteq> 0 \<Longrightarrow> \<exists>u. s_iterms s (prev_net_iterm t) = Some u"
    and i: "i \<noteq> next_net_iterm t" "i \<noteq> prev_net_iterm t" "i \<noteq> 0"
    using iterms.listed_ends [OF assms(2,3,4)] assms(5) by (metis option.inject)
  let ?T1 = "upd (next_net_iterm t) (\<lambda>u. u\<lparr>prev_net_iterm := prev_net_iterm t\<rparr>) (s_iterms s)"
  let ?T2 = "upd (prev_net_iterm t) (\<lambda>u. u\<lparr>next_net_iterm := next_net_iterm t\<rparr>) ?T1"
  let ?N = "if n_iterms a = i then (s_nets s)(it_net t \<mapsto> a\<lparr>n_iterms := next_net_iterm t\<rparr>) else s_nets s"
  have "ends (unlink_iterm i t net b) (after (s\<lparr>s_nets := ?N, s_iterms := ?T2\<rparr>) cs)"
  proof (cases "n_iterms a = i")
    case True
    have p: "prev_net_iterm t = 0" using True h by simp
    show ?thesis
      unfolding unlink_iterm_def assms(6) if_P [OF True]
    proof (rule ends_bind [OF after_mods(2) [OF assms(1,5)]])
      fix b1 assume b1: "after (s\<lparr>s_nets := (s_nets s)(it_net t \<mapsto> a\<lparr>n_iterms := next_net_iterm t\<rparr>)\<rparr>) cs b1"
      show "ends (if next_net_iterm t \<noteq> 0 then mod_iterm (next_net_iterm t) (\<lambda>t. t\<lparr>prev_net_iterm := 0\<rparr>) b1 else Inr b1)
          (after (s\<lparr>s_nets := (s_nets s)(it_net t \<mapsto> a\<lparr>n_iterms := next_net_iterm t\<rparr>), s_iterms := ?T2\<rparr>) cs)"
        using mod_iterm_upd [OF b1, of "next_net_iterm t" "\<lambda>t. t\<lparr>prev_net_iterm := 0\<rparr>"] nx p by simp
    qed simp
  next
    case False
    show ?thesis
      unfolding unlink_iterm_def assms(6) if_not_P [OF False]
    proof (rule ends_bind [OF mod_iterm_upd [OF assms(1)]])
      fix b1 assume b1: "after (s\<lparr>s_iterms := ?T1\<rparr>) cs b1"
      show "ends (if prev_net_iterm t \<noteq> 0 then mod_iterm (prev_net_iterm t) (\<lambda>p. p\<lparr>next_net_iterm := next_net_iterm t\<rparr>) b1 else Inr b1)
          (after (s\<lparr>s_nets := s_nets s, s_iterms := ?T2\<rparr>) cs)"
        using mod_iterm_upd [OF b1, of "prev_net_iterm t"] upd_Some [where T = "s_iterms s" and x = "prev_net_iterm t"] pv by simp
    qed (rule nx)
  qed
  then show ?thesis
  proof (rule ends_bind)
    fix b1 assume b1: "after (s\<lparr>s_nets := ?N, s_iterms := ?T2\<rparr>) cs b1"
    have "\<exists>u. ?T2 i = Some u" using assms(3) by (intro upd_Some) blast
    then obtain u where u: "?T2 i = Some u" ..
    have "iterms.unlinked i t (s_iterms s) = ?T2(i \<mapsto> u\<lparr>it_net := 0\<rparr>)"
      using i(3) u by (simp add: iterms.unlinked_def upd_def [of i])
    then have "iterm_unlinked i s = s\<lparr>s_nets := ?N, s_iterms := ?T2(i \<mapsto> u\<lparr>it_net := 0\<rparr>)\<rparr>"
      using assms(3-5) by (simp add: iterm_unlinked_def)
    then show "ends (mod_iterm i (\<lambda>it. it\<lparr>it_net := 0\<rparr>) b1) (after (iterm_unlinked i s) cs)"
      using after_mods(1) [OF b1, of i u "\<lambda>it. it\<lparr>it_net := 0\<rparr>"] u by simp
  qed
qed

lemma iterm_disconnect_ends:
  assumes "after s cs b" "iterms_listed s L" "s_iterms s i = Some t"
  shows "ends (dbITerm_disconnect i b) (after (iterm_unlinked i s) (cs @ (if it_net t = 0 then [] else [OnTerm (ITermDisconnect (of_nat i))])))"
proof (cases "it_net t = 0")
  case True
  then show ?thesis unfolding dbITerm_disconnect_def
    by (intro ends_bind [OF after_reads(1) [OF assms(1,3)]]) (use assms(1,3) in \<open>simp add: iterm_unlinked_def\<close>)
next
  case False
  obtain a where a: "s_nets s (it_net t) = Some a" using iterms.listed_ends [OF assms(2,3) False] by metis
  show ?thesis unfolding dbITerm_disconnect_def
  proof (rule ends_bind [OF after_reads(1) [OF assms(1,3)]], simp only: False if_False, rule ends_bind [OF after_reads(2) [OF assms(1) a]],
      rule ends_bind [OF after_writes(2) [OF assms(1)]])
    fix net b1 assume "net\<lparr>next_entry := 0\<rparr> = a" and b1: "after s (cs @ [OnTerm (ITermDisconnect (of_nat i))]) b1"
    then have "n_iterms net = n_iterms a" by auto
    from unlink_iterm_ends [OF b1 assms(2,3) False a this]
    show "ends (bindE (unlink_iterm i t net b1) (mod_iterm i (\<lambda>it. it\<lparr>it_net := 0\<rparr>)))
        (after (iterm_unlinked i s) (cs @ [OnTerm (ITermDisconnect (of_nat i))]))" .
  qed
qed

lemma iterm_unlinked_listed:
  assumes "iterms_listed s L" "s_iterms s i = Some t"
  shows "iterms_listed (iterm_unlinked i s) (if it_net t = 0 then L else L(it_net t := remove1 i (L (it_net t))))"
    "s_iterms (iterm_unlinked i s) i = Some (t\<lparr>it_net := 0\<rparr>)"
proof -
  show "iterms_listed (iterm_unlinked i s) (if it_net t = 0 then L else L(it_net t := remove1 i (L (it_net t))))"
  proof (cases "it_net t = 0")
    case False
    obtain a where a: "s_nets s (it_net t) = Some a" using iterms.listed_ends [OF assms False] by metis
    from iterms.listed_unlink(1) [OF assms refl False a] show ?thesis using assms(2) False a by (simp add: iterm_unlinked_def)
  qed (use assms in \<open>simp add: iterm_unlinked_def\<close>)
  show "s_iterms (iterm_unlinked i s) i = Some (t\<lparr>it_net := 0\<rparr>)"
  proof (cases "it_net t = 0")
    case False
    obtain a where a: "s_nets s (it_net t) = Some a" using iterms.listed_ends [OF assms False] by metis
    from iterms.listed_unlink(2) [OF assms refl False a] show ?thesis using assms(2) False by (simp add: iterm_unlinked_def)
  qed (use assms(2) in \<open>simp add: iterm_unlinked_def\<close>)
qed

lemma link_iterm_ends:
  assumes "after s cs b" "s_iterms s i = Some t" "n_iterms a \<noteq> 0 \<Longrightarrow> \<exists>u. s_iterms s (n_iterms a) = Some u" "n_iterms net = n_iterms a"
    and "i \<noteq> 0"
  shows "ends (link_iterm i net b) (after (s\<lparr>s_iterms := upd (n_iterms a) (\<lambda>t. t\<lparr>prev_net_iterm := i\<rparr>)
      (upd i (\<lambda>t. t\<lparr>next_net_iterm := n_iterms a, prev_net_iterm := 0\<rparr>) (s_iterms s))\<rparr>) cs)"
proof (cases "n_iterms a = 0")
  case True
  then show ?thesis unfolding link_iterm_def assms(4)
    using after_mods(1) [OF assms(1,2), of "\<lambda>t. t\<lparr>next_net_iterm := 0, prev_net_iterm := 0\<rparr>"] assms(2,5) by (simp add: upd_def)
next
  case False
  let ?f = "\<lambda>t. t\<lparr>next_net_iterm := n_iterms a, prev_net_iterm := 0\<rparr>"
  show ?thesis unfolding link_iterm_def assms(4) if_P [OF False]
  proof (rule ends_bind [OF after_mods(1) [OF assms(1,2)]])
    fix b1 assume "after (s\<lparr>s_iterms := (s_iterms s)(i \<mapsto> ?f t)\<rparr>) cs b1"
    then have b1: "after (s\<lparr>s_iterms := upd i ?f (s_iterms s)\<rparr>) cs b1" using assms(2,5) by (simp add: upd_def)
    have "\<exists>u. upd i ?f (s_iterms s) (n_iterms a) = Some u" by (rule upd_Some) (rule assms(3) [OF False])
    then show "ends (mod_iterm (n_iterms a) (\<lambda>t. t\<lparr>prev_net_iterm := i\<rparr>) b1)
        (after (s\<lparr>s_iterms := upd (n_iterms a) (\<lambda>t. t\<lparr>prev_net_iterm := i\<rparr>) (upd i ?f (s_iterms s))\<rparr>) cs)"
      using mod_iterm_upd [OF b1, of "n_iterms a"] False by simp
  qed
qed

text \<open>Connecting a terminal that is on no net.\<close>

definition iterm_connect_free :: "nat \<Rightarrow> nat \<Rightarrow> netlist \<Rightarrow> netlist result" where
  "iterm_connect_free i net b =
     bindE (write_journal (log_iterm_connect (of_nat i) (of_nat net)) b) (\<lambda>b.
     bindE (mod_iterm i (\<lambda>it. it\<lparr>it_net := net\<rparr>) b) (\<lambda>b.
     bindE (getPtr (net_tbl b) net) (\<lambda>n.
     bindE (link_iterm i n b) (mod_net net (\<lambda>n. n\<lparr>n_iterms := i\<rparr>)))))"

lemma iterm_connect_free_ends:
  assumes "after s cs b" "iterms_listed s L" "s_iterms s i = Some t" "it_net t = 0" "s_nets s n = Some a"
  shows "ends (iterm_connect_free i n b) (after (iterm_linked i n s) (cs @ [OnTerm (ITermConnect (of_nat i) (of_nat n))]))"
proof -
  note l = listedD [OF assms(2)]
  have i0: "i \<noteq> 0" using assms(3) l(2) by (cases i) auto
  have h: "n_iterms a = (case L n of [] \<Rightarrow> 0 | x # _ \<Rightarrow> x)" by (rule dseg_head [OF l(3) [OF assms(5)]])
  have ha: "\<exists>u. s_iterms s (n_iterms a) = Some u" if "n_iterms a \<noteq> 0"
    using h that l(5) [OF assms(5), of "n_iterms a"] by (cases "L n") auto
  let ?s1 = "s\<lparr>s_iterms := (s_iterms s)(i \<mapsto> t\<lparr>it_net := n\<rparr>)\<rparr>"
  show "ends (iterm_connect_free i n b) (after (iterm_linked i n s) (cs @ [OnTerm (ITermConnect (of_nat i) (of_nat n))]))"
    unfolding iterm_connect_free_def
  proof (rule ends_bind [OF after_writes(1) [OF assms(1)]], rule ends_bind [OF after_mods(1) [OF _ assms(3)]], assumption)
    let ?cs = "cs @ [OnTerm (ITermConnect (of_nat i) (of_nat n))]"
    fix b1 assume b1: "after ?s1 ?cs b1"
    have n: "s_nets ?s1 n = Some a" using assms(5) by simp
    show "ends (bindE (getPtr (net_tbl b1) n) (\<lambda>x. bindE (link_iterm i x b1) (mod_net n (\<lambda>n. n\<lparr>n_iterms := i\<rparr>)))) (after (iterm_linked i n s) ?cs)"
    proof (rule ends_bind [OF after_reads(2) [OF b1 n]])
      fix x assume "x\<lparr>next_entry := 0\<rparr> = a"
      then have x: "n_iterms x = n_iterms a" by auto
      have t: "s_iterms ?s1 i = Some (t\<lparr>it_net := n\<rparr>)" by simp
      have u: "\<exists>u. s_iterms ?s1 (n_iterms a) = Some u" if "n_iterms a \<noteq> 0" using ha [OF that] by auto
      show "ends (bindE (link_iterm i x b1) (mod_net n (\<lambda>n. n\<lparr>n_iterms := i\<rparr>))) (after (iterm_linked i n s) ?cs)"
      proof (rule ends_bind [OF link_iterm_ends [OF b1 t u x i0]], assumption)
        fix b2 assume b2: "after (?s1\<lparr>s_iterms := upd (n_iterms a) (\<lambda>t. t\<lparr>prev_net_iterm := i\<rparr>)
          (upd i (\<lambda>t. t\<lparr>next_net_iterm := n_iterms a, prev_net_iterm := 0\<rparr>) (s_iterms ?s1))\<rparr>) ?cs b2"
        show "ends (mod_net n (\<lambda>n. n\<lparr>n_iterms := i\<rparr>) b2) (after (iterm_linked i n s) ?cs)"
          using after_mods(2) [OF b2, of n a "\<lambda>n. n\<lparr>n_iterms := i\<rparr>"] assms(3,5) i0
          by (simp add: iterm_linked_def iterms.linked_def upd_def)
      qed
    qed
  qed
qed

lemma iterm_linked_listed:
  assumes "iterms_listed s L" "s_iterms s i = Some t" "it_net t = 0" "s_nets s n = Some a"
  shows "iterms_listed (iterm_linked i n s) (L(n := i # L n))"
  using iterms.listed_link [OF assms] assms(4) by (simp add: iterm_linked_def)

lemma dbITerm_connect_split:
  "dbITerm_connect i n b = bindE (getPtr (iterm_tbl b) i) (\<lambda>iterm.
     if it_net iterm = n then Inr b
     else bindE (if it_net iterm \<noteq> 0 then dbITerm_disconnect i b else Inr b) (iterm_connect_free i n))"
  unfolding dbITerm_connect_def iterm_connect_free_def [abs_def] by (rule refl)

definition iterm_connected :: "nat \<Rightarrow> nat \<Rightarrow> nstate \<Rightarrow> nstate" where
  "iterm_connected i n s = (case s_iterms s i of None \<Rightarrow> s | Some t \<Rightarrow> if it_net t = n then s else iterm_linked i n (iterm_unlinked i s))"

definition moved :: "nat \<Rightarrow> nat \<Rightarrow> nat \<Rightarrow> (nat \<Rightarrow> nat list) \<Rightarrow> nat \<Rightarrow> nat list" where
  \<comment> \<open>the lists after a terminal moves from net \<open>m\<close>, if any, to net \<open>n\<close>\<close>
  "moved i m n L = (let L' = (if m = 0 then L else L(m := remove1 i (L m))) in L'(n := i # L' n))"

lemma iterm_unlinked_nets:
  assumes "s_nets s n = Some a"
  shows "\<exists>a'. s_nets (iterm_unlinked i s) n = Some a' \<and> n_bterms a' = n_bterms a \<and> entry_key a' = entry_key a"
  using assms by (auto simp: iterm_unlinked_def split: option.split)

lemma iterm_connect_ends:
  assumes "after s cs b" "iterms_listed s L" "s_iterms s i = Some t" "s_nets s n = Some a"
  shows "ends (dbITerm_connect i n b) (after (iterm_connected i n s) (cs @ (if it_net t = n then []
      else (if it_net t = 0 then [] else [OnTerm (ITermDisconnect (of_nat i))]) @ [OnTerm (ITermConnect (of_nat i) (of_nat n))])))"
    "iterms_listed (iterm_connected i n s) (if it_net t = n then L else moved i (it_net t) n L)"
proof -
  let ?ds = "if it_net t = 0 then [] else [OnTerm (ITermDisconnect (of_nat i))]"
  obtain a' where a': "s_nets (iterm_unlinked i s) n = Some a'" using iterm_unlinked_nets [OF assms(4)] by blast
  note u = iterm_unlinked_listed [OF assms(2,3)]
  have t: "it_net (t\<lparr>it_net := 0\<rparr>) = 0" by simp
  have d: "ends (if it_net t \<noteq> 0 then dbITerm_disconnect i b else Inr b) (after (iterm_unlinked i s) (cs @ ?ds))"
    using iterm_disconnect_ends [OF assms(1-3)] assms(1,3) by (cases "it_net t = 0") (simp_all add: iterm_unlinked_def)
  show "ends (dbITerm_connect i n b) (after (iterm_connected i n s) (cs @ (if it_net t = n then [] else ?ds @ [OnTerm (ITermConnect (of_nat i) (of_nat n))])))"
    unfolding dbITerm_connect_split
  proof (rule ends_bind [OF after_reads(1) [OF assms(1,3)]])
    fix x assume x: "x = t"
    show "ends (if it_net x = n then Inr b else bindE (if it_net x \<noteq> 0 then dbITerm_disconnect i b else Inr b) (iterm_connect_free i n))
        (after (iterm_connected i n s) (cs @ (if it_net t = n then [] else ?ds @ [OnTerm (ITermConnect (of_nat i) (of_nat n))])))"
    proof (cases "it_net t = n")
      case True
      then show ?thesis using assms(1,3) x by (simp add: iterm_connected_def)
    next
      case False
      have "ends (bindE (if it_net t \<noteq> 0 then dbITerm_disconnect i b else Inr b) (iterm_connect_free i n))
          (after (iterm_linked i n (iterm_unlinked i s)) ((cs @ ?ds) @ [OnTerm (ITermConnect (of_nat i) (of_nat n))]))"
        by (rule ends_bind [OF d iterm_connect_free_ends(1) [OF _ u(1) u(2) t a']])
      then show ?thesis using False assms(3) x by (simp add: iterm_connected_def)
    qed
  qed
  show "iterms_listed (iterm_connected i n s) (if it_net t = n then L else moved i (it_net t) n L)"
  proof (cases "it_net t = n")
    case False
    then show ?thesis using iterm_linked_listed [OF u(1,2) t a'] assms(3) by (simp add: iterm_connected_def moved_def Let_def)
  qed (use assms(2,3) in \<open>simp add: iterm_connected_def\<close>)
qed

end
