(* ===== verification/Odb_Net_Bterms.thy ===== *)
theory Odb_Net_Bterms
  imports Odb_Net_Terms
begin

section \<open>Connecting the terminals of the block\<close>

text \<open>
  The same as in \<open>Odb_Net_Terms\<close> for \<open>connectNet\<close>, \<open>disconnectNet\<close> and what calls them.
\<close>

lemma unlink_bterm_ends:
  assumes "after s cs b" "bterms_listed s L" "s_bterms s i = Some t" "bt_net t \<noteq> 0" "s_nets s (bt_net t) = Some a"
    and "n_bterms net = n_bterms a"
  shows "ends (bindE (unlink_bterm i t net b) (mod_bterm i (\<lambda>it. it\<lparr>bt_net := 0\<rparr>))) (after (bterm_unlinked i s) cs)"
proof -
  obtain h: "n_bterms a = i \<longleftrightarrow> prev_bterm t = 0"
    and nx: "next_bterm t \<noteq> 0 \<Longrightarrow> \<exists>u. s_bterms s (next_bterm t) = Some u"
    and pv: "prev_bterm t \<noteq> 0 \<Longrightarrow> \<exists>u. s_bterms s (prev_bterm t) = Some u"
    and i: "i \<noteq> next_bterm t" "i \<noteq> prev_bterm t" "i \<noteq> 0"
    using bterms.listed_ends [OF assms(2,3,4)] assms(5) by (metis option.inject)
  let ?T1 = "upd (next_bterm t) (\<lambda>u. u\<lparr>prev_bterm := prev_bterm t\<rparr>) (s_bterms s)"
  let ?T2 = "upd (prev_bterm t) (\<lambda>u. u\<lparr>next_bterm := next_bterm t\<rparr>) ?T1"
  let ?N = "if n_bterms a = i then (s_nets s)(bt_net t \<mapsto> a\<lparr>n_bterms := next_bterm t\<rparr>) else s_nets s"
  have "ends (unlink_bterm i t net b) (after (s\<lparr>s_nets := ?N, s_bterms := ?T2\<rparr>) cs)"
  proof (cases "n_bterms a = i")
    case True
    have p: "prev_bterm t = 0" using True h by simp
    show ?thesis
      unfolding unlink_bterm_def assms(6) if_P [OF True]
    proof (rule ends_bind [OF after_mods(2) [OF assms(1,5)]])
      fix b1 assume b1: "after (s\<lparr>s_nets := (s_nets s)(bt_net t \<mapsto> a\<lparr>n_bterms := next_bterm t\<rparr>)\<rparr>) cs b1"
      show "ends (if next_bterm t \<noteq> 0 then mod_bterm (next_bterm t) (\<lambda>t. t\<lparr>prev_bterm := 0\<rparr>) b1 else Inr b1)
          (after (s\<lparr>s_nets := (s_nets s)(bt_net t \<mapsto> a\<lparr>n_bterms := next_bterm t\<rparr>), s_bterms := ?T2\<rparr>) cs)"
        using mod_bterm_upd [OF b1, of "next_bterm t" "\<lambda>t. t\<lparr>prev_bterm := 0\<rparr>"] nx p by simp
    qed simp
  next
    case False
    show ?thesis
      unfolding unlink_bterm_def assms(6) if_not_P [OF False]
    proof (rule ends_bind [OF mod_bterm_upd [OF assms(1)]])
      fix b1 assume b1: "after (s\<lparr>s_bterms := ?T1\<rparr>) cs b1"
      show "ends (if prev_bterm t \<noteq> 0 then mod_bterm (prev_bterm t) (\<lambda>p. p\<lparr>next_bterm := next_bterm t\<rparr>) b1 else Inr b1)
          (after (s\<lparr>s_nets := s_nets s, s_bterms := ?T2\<rparr>) cs)"
        using mod_bterm_upd [OF b1, of "prev_bterm t"] upd_Some [where T = "s_bterms s" and x = "prev_bterm t"] pv by simp
    qed (auto intro: nx)
  qed
  then show ?thesis
  proof (rule ends_bind)
    fix b1 assume b1: "after (s\<lparr>s_nets := ?N, s_bterms := ?T2\<rparr>) cs b1"
    have "\<exists>u. ?T2 i = Some u" using assms(3) by (intro upd_Some) blast
    then obtain u where u: "?T2 i = Some u" ..
    have "bterms.unlinked i t (s_bterms s) = ?T2(i \<mapsto> u\<lparr>bt_net := 0\<rparr>)"
      using i(3) u by (simp add: bterms.unlinked_def upd_def [of i])
    then have "bterm_unlinked i s = s\<lparr>s_nets := ?N, s_bterms := ?T2(i \<mapsto> u\<lparr>bt_net := 0\<rparr>)\<rparr>"
      using assms(3-5) by (simp add: bterm_unlinked_def)
    then show "ends (mod_bterm i (\<lambda>it. it\<lparr>bt_net := 0\<rparr>) b1) (after (bterm_unlinked i s) cs)"
      using after_mods(3) [OF b1, of i u "\<lambda>it. it\<lparr>bt_net := 0\<rparr>"] u by simp
  qed
qed

lemma bterm_unlinked_listed:
  assumes "bterms_listed s L" "s_bterms s i = Some t"
  shows "bterms_listed (bterm_unlinked i s) (if bt_net t = 0 then L else L(bt_net t := remove1 i (L (bt_net t))))"
    "s_bterms (bterm_unlinked i s) i = Some (t\<lparr>bt_net := 0\<rparr>)"
proof -
  show "bterms_listed (bterm_unlinked i s) (if bt_net t = 0 then L else L(bt_net t := remove1 i (L (bt_net t))))"
  proof (cases "bt_net t = 0")
    case False
    obtain a where a: "s_nets s (bt_net t) = Some a" using bterms.listed_ends [OF assms False] by metis
    from bterms.listed_unlink(1) [OF assms refl False a] show ?thesis using assms(2) False a by (simp add: bterm_unlinked_def)
  qed (use assms in \<open>simp add: bterm_unlinked_def\<close>)
  show "s_bterms (bterm_unlinked i s) i = Some (t\<lparr>bt_net := 0\<rparr>)"
  proof (cases "bt_net t = 0")
    case False
    obtain a where a: "s_nets s (bt_net t) = Some a" using bterms.listed_ends [OF assms False] by metis
    from bterms.listed_unlink(2) [OF assms refl False a] show ?thesis using assms(2) False by (simp add: bterm_unlinked_def)
  qed (use assms(2) in \<open>simp add: bterm_unlinked_def\<close>)
qed

lemma bterm_linked_listed:
  assumes "bterms_listed s L" "s_bterms s i = Some t" "bt_net t = 0" "s_nets s n = Some a"
  shows "bterms_listed (bterm_linked i n s) (L(n := i # L n))"
  using bterms.listed_link [OF assms] assms(4) by (simp add: bterm_linked_def)

lemma bterm_unlinked_nets:
  assumes "s_nets s n = Some a"
  shows "\<exists>a'. s_nets (bterm_unlinked i s) n = Some a' \<and> n_iterms a' = n_iterms a \<and> entry_key a' = entry_key a"
  using assms by (auto simp: bterm_unlinked_def split: option.split)



text \<open>Disconnecting a terminal that is on a net, as \<open>disconnectNet\<close> does it.\<close>

lemma disconnectNet_ends:
  assumes "after s cs b" "bterms_listed s L" "s_bterms s i = Some t" "bt_net t \<noteq> 0"
  shows "ends (disconnectNet i b) (after (bterm_unlinked i s) cs)"
proof -
  obtain a where a: "s_nets s (bt_net t) = Some a" using bterms.listed_ends [OF assms(2,3,4)] by metis
  show ?thesis unfolding disconnectNet_def
  proof (rule ends_bind [OF after_reads(3) [OF assms(1,3)]])
    fix x assume "x\<lparr>next_entry := 0\<rparr> = t"
    then have x: "bt_net x = bt_net t" "next_bterm x = next_bterm t" "prev_bterm x = prev_bterm t" by auto
    show "ends (bindE (getPtr (net_tbl b) (bt_net x)) (\<lambda>net. bindE (unlink_bterm i x net b) (mod_bterm i (\<lambda>bt. bt\<lparr>bt_net := 0\<rparr>))))
        (after (bterm_unlinked i s) cs)"
      unfolding x(1)
    proof (rule ends_bind [OF after_reads(2) [OF assms(1) a]])
      fix net assume "net\<lparr>next_entry := 0\<rparr> = a"
      then have "n_bterms net = n_bterms a" by auto
      from unlink_bterm_ends [OF assms(1-4) a this]
      show "ends (bindE (unlink_bterm i x net b) (mod_bterm i (\<lambda>bt. bt\<lparr>bt_net := 0\<rparr>))) (after (bterm_unlinked i s) cs)"
        by (simp only: unlink_bterm_def x)
    qed
  qed
qed

lemma bterm_unlinked_free: "s_bterms s i = Some t \<Longrightarrow> bt_net t = 0 \<Longrightarrow> bterm_unlinked i s = s"
  by (simp add: bterm_unlinked_def)

lemma disconnectNet_cond_ends:
  assumes "after s cs b" "bterms_listed s L" "s_bterms s i = Some t"
  shows "ends (if bt_net t \<noteq> 0 then disconnectNet i b else Inr b) (after (bterm_unlinked i s) cs)"
  using disconnectNet_ends [OF assms] assms(1,3) by (simp add: bterm_unlinked_free)

lemma bterm_disconnect_ends:
  assumes "after s cs b" "bterms_listed s L" "s_bterms s i = Some t"
  shows "ends (dbBTerm_disconnect i b) (after (bterm_unlinked i s) (cs @ (if bt_net t = 0 then [] else [OnTerm (BTermDisconnect (of_nat i))])))"
  unfolding dbBTerm_disconnect_def
proof (rule ends_bind [OF after_reads(3) [OF assms(1,3)]])
  fix x assume "x\<lparr>next_entry := 0\<rparr> = t"
  then have x: "bt_net x = bt_net t" by auto
  show "ends (if bt_net x \<noteq> 0 then bindE (write_journal (log_bterm_disconnect (of_nat i)) b) (disconnectNet i) else Inr b)
      (after (bterm_unlinked i s) (cs @ (if bt_net t = 0 then [] else [OnTerm (BTermDisconnect (of_nat i))])))"
    unfolding x using assms(1) bterm_unlinked_free [OF assms(3)] ends_bind [OF after_writes(4) [OF assms(1)] disconnectNet_ends [OF _ assms(2,3)]]
    by simp
qed

lemma link_bterm_ends:
  assumes "after s cs b" "s_bterms s i = Some t" "n_bterms a \<noteq> 0 \<Longrightarrow> \<exists>u. s_bterms s (n_bterms a) = Some u" "n_bterms net = n_bterms a"
    and "i \<noteq> 0" "n_bterms a \<noteq> i"
  shows "ends (link_bterm i net b) (after (s\<lparr>s_bterms := upd (n_bterms a) (\<lambda>t. t\<lparr>prev_bterm := i\<rparr>)
      (upd i (\<lambda>t. t\<lparr>next_bterm := n_bterms a, prev_bterm := 0\<rparr>) (s_bterms s))\<rparr>) cs)"
proof -
  let ?T = "upd (n_bterms a) (\<lambda>t. t\<lparr>prev_bterm := i\<rparr>) ((s_bterms s)(i \<mapsto> t\<lparr>next_bterm := n_bterms a\<rparr>))"
  show ?thesis unfolding link_bterm_def assms(4)
  proof (rule ends_bind)
    show "ends (if n_bterms a \<noteq> 0 then bindE (mod_bterm i (\<lambda>bt. bt\<lparr>next_bterm := n_bterms a\<rparr>) b)
        (mod_bterm (n_bterms a) (\<lambda>tail. tail\<lparr>prev_bterm := i\<rparr>)) else mod_bterm i (\<lambda>bt. bt\<lparr>next_bterm := 0\<rparr>) b) (after (s\<lparr>s_bterms := ?T\<rparr>) cs)"
    proof (cases "n_bterms a = 0")
      case True
      then show ?thesis using after_mods(3) [OF assms(1,2), of "\<lambda>t. t\<lparr>next_bterm := 0\<rparr>"] by simp
    next
      case False
      show ?thesis unfolding if_P [OF False]
      proof (rule ends_bind [OF after_mods(3) [OF assms(1,2)]])
        fix b1 assume b1: "after (s\<lparr>s_bterms := (s_bterms s)(i \<mapsto> t\<lparr>next_bterm := n_bterms a\<rparr>)\<rparr>) cs b1"
        show "ends (mod_bterm (n_bterms a) (\<lambda>tail. tail\<lparr>prev_bterm := i\<rparr>) b1) (after (s\<lparr>s_bterms := ?T\<rparr>) cs)"
          using mod_bterm_upd [OF b1, of "n_bterms a" "\<lambda>tail. tail\<lparr>prev_bterm := i\<rparr>"] False assms(3) by simp
      qed simp
    qed
    fix b1 assume b1: "after (s\<lparr>s_bterms := ?T\<rparr>) cs b1"
    have i: "?T i = Some (t\<lparr>next_bterm := n_bterms a\<rparr>)" using assms(6) by (simp add: upd_def)
    have "?T(i \<mapsto> t\<lparr>next_bterm := n_bterms a, prev_bterm := 0\<rparr>) = upd (n_bterms a) (\<lambda>t. t\<lparr>prev_bterm := i\<rparr>)
        (upd i (\<lambda>t. t\<lparr>next_bterm := n_bterms a, prev_bterm := 0\<rparr>) (s_bterms s))"
      using assms(2,5,6) by (auto simp: upd_def fun_eq_iff)
    then show "ends (mod_bterm i (\<lambda>bt. bt\<lparr>prev_bterm := 0\<rparr>) b1) (after (s\<lparr>s_bterms := upd (n_bterms a) (\<lambda>t. t\<lparr>prev_bterm := i\<rparr>)
      (upd i (\<lambda>t. t\<lparr>next_bterm := n_bterms a, prev_bterm := 0\<rparr>) (s_bterms s))\<rparr>) cs)"
      using after_mods(3) [OF b1, of i _ "\<lambda>bt. bt\<lparr>prev_bterm := 0\<rparr>"] i by simp
  qed
qed

lemma connectNet_ends:
  assumes "after s cs b" "bterms_listed s L" "s_bterms s i = Some t" "bt_net t = 0" "s_nets s n = Some a"
  shows "ends (connectNet i n b) (after (bterm_linked i n s) cs)"
proof -
  note l = listedD [OF assms(2)]
  have i0: "i \<noteq> 0" using assms(3) l(2) by (cases i) auto
  have n0: "n \<noteq> 0" using assms(5) l(1) by (cases n) auto
  have h: "n_bterms a = (case L n of [] \<Rightarrow> 0 | x # _ \<Rightarrow> x)" by (rule dseg_head [OF l(3) [OF assms(5)]])
  have ha: "\<exists>u. s_bterms s (n_bterms a) = Some u" if "n_bterms a \<noteq> 0"
    using h that l(5) [OF assms(5), of "n_bterms a"] by (cases "L n") auto
  have hi: "n_bterms a \<noteq> i"
    using h i0 l(5) [OF assms(5), of i] assms(3,4) n0 by (cases "L n") auto
  let ?s1 = "s\<lparr>s_bterms := (s_bterms s)(i \<mapsto> t\<lparr>bt_net := n\<rparr>)\<rparr>"
  show ?thesis unfolding connectNet_def
  proof (rule ends_bind [OF after_mods(3) [OF assms(1,3)]])
    fix b1 assume b1: "after ?s1 cs b1"
    have n: "s_nets ?s1 n = Some a" using assms(5) by simp
    show "ends (bindE (getPtr (net_tbl b1) n) (\<lambda>x. bindE (link_bterm i x b1) (mod_net n (\<lambda>n. n\<lparr>n_bterms := i\<rparr>)))) (after (bterm_linked i n s) cs)"
    proof (rule ends_bind [OF after_reads(2) [OF b1 n]])
      fix x assume "x\<lparr>next_entry := 0\<rparr> = a"
      then have x: "n_bterms x = n_bterms a" by auto
      have t: "s_bterms ?s1 i = Some (t\<lparr>bt_net := n\<rparr>)" by simp
      have u: "\<exists>u. s_bterms ?s1 (n_bterms a) = Some u" if "n_bterms a \<noteq> 0" using ha [OF that] by auto
      show "ends (bindE (link_bterm i x b1) (mod_net n (\<lambda>n. n\<lparr>n_bterms := i\<rparr>))) (after (bterm_linked i n s) cs)"
      proof (rule ends_bind [OF link_bterm_ends [OF b1 t u x i0 hi]], assumption)
        fix b2 assume b2: "after (?s1\<lparr>s_bterms := upd (n_bterms a) (\<lambda>t. t\<lparr>prev_bterm := i\<rparr>)
          (upd i (\<lambda>t. t\<lparr>next_bterm := n_bterms a, prev_bterm := 0\<rparr>) (s_bterms ?s1))\<rparr>) cs b2"
        show "ends (mod_net n (\<lambda>n. n\<lparr>n_bterms := i\<rparr>) b2) (after (bterm_linked i n s) cs)"
          using after_mods(2) [OF b2, of n a "\<lambda>n. n\<lparr>n_bterms := i\<rparr>"] assms(3,5) i0
          by (simp add: bterm_linked_def bterms.linked_def upd_def)
      qed
    qed
  qed simp
qed

lemma bterm_connect_ends:
  assumes "after s cs b" "bterms_listed s L" "s_bterms s i = Some t" "s_nets s n = Some a"
  shows "ends (dbBTerm_connect i n b) (after (bterm_linked i n (bterm_unlinked i s)) (cs @ [OnTerm (BTermConnect (of_nat i) (of_nat n))]))"
    "bterms_listed (bterm_linked i n (bterm_unlinked i s)) (moved i (bt_net t) n L)"
proof -
  obtain a' where a': "s_nets (bterm_unlinked i s) n = Some a'" using bterm_unlinked_nets [OF assms(4)] by blast
  note u = bterm_unlinked_listed [OF assms(2,3)]
  have t: "bt_net (t\<lparr>bt_net := 0\<rparr>) = 0" by simp
  show "ends (dbBTerm_connect i n b) (after (bterm_linked i n (bterm_unlinked i s)) (cs @ [OnTerm (BTermConnect (of_nat i) (of_nat n))]))"
    unfolding dbBTerm_connect_def
  proof (rule ends_bind [OF after_writes(3) [OF assms(1)]], rule ends_bind [OF after_reads(3) [OF _ assms(3)]], assumption)
    let ?cs = "cs @ [OnTerm (BTermConnect (of_nat i) (of_nat n))]"
    fix b1 x assume b1: "after s ?cs b1" and "x\<lparr>next_entry := 0\<rparr> = t"
    then have x: "bt_net x = bt_net t" by auto
    show "ends (bindE (if bt_net x \<noteq> 0 then disconnectNet i b1 else Inr b1) (connectNet i n)) (after (bterm_linked i n (bterm_unlinked i s)) ?cs)"
      unfolding x by (rule ends_bind [OF disconnectNet_cond_ends [OF b1 assms(2,3)] connectNet_ends [OF _ u(1) u(2) t a']])
  qed
  show "bterms_listed (bterm_linked i n (bterm_unlinked i s)) (moved i (bt_net t) n L)"
    using bterm_linked_listed [OF u(1,2) t a'] by (simp add: moved_def Let_def)
qed

end
