(* ===== verification/Odb_Net_Objects.thy ===== *)
theory Odb_Net_Objects
  imports Odb_Net_Bterms
begin

section \<open>Objects that come and go\<close>

text \<open>Lookups, creation and destruction in the tables of a netlist, with their indexes, as rules for \<open>ends\<close>.\<close>

lemma small_id: "table_ok t \<Longrightarrow> cap t \<le> 2 ^ 31 \<Longrightarrow> objs t i = Some a \<Longrightarrow> 0 < i \<and> i < 2 ^ 31"
proof -
  assume t: "table_ok t" "cap t \<le> 2 ^ 31" "objs t i = Some a"
  have "i \<in> dom (objs t)" using t(3) by blast
  then have "i \<in> ids t" by simp
  then show ?thesis using t(2) by (auto simp: ids_def)
qed

lemma small_view: "index_ok hash h t \<Longrightarrow> view t i = Some a \<Longrightarrow> 0 < i \<and> i < 2 ^ 31"
  using small_id [of t i] index_okD(1,2) [of hash h t] view_Some [of t i a] by blast

lemma st_small:
  assumes "st b s"
  shows "s_iterms s i = Some t \<Longrightarrow> 0 < i \<and> i < 2 ^ 31" "s_nets s i = Some a \<Longrightarrow> 0 < i \<and> i < 2 ^ 31"
    "s_bterms s i = Some u \<Longrightarrow> 0 < i \<and> i < 2 ^ 31" "s_insts s i = Some y \<Longrightarrow> 0 < i \<and> i < 2 ^ 31"
    "s_hdrs s i = Some z \<Longrightarrow> 0 < i \<and> i < 2 ^ 31"
  using small_id [OF tables_okD(5,6) [OF stD(1) [OF assms]], of i] small_view [OF tables_okD(1) [OF stD(1) [OF assms]], of i]
    small_view [OF tables_okD(2) [OF stD(1) [OF assms]], of i] small_view [OF tables_okD(3) [OF stD(1) [OF assms]], of i]
    small_view [OF tables_okD(4) [OF stD(1) [OF assms]], of i] stD(2) [OF assms] by auto

lemma unat_id: "0 < i \<and> i < 2 ^ 31 \<Longrightarrow> unat (of_nat i :: 32 word) = i"
  by (simp add: unat_of_nat take_bit_nat_eq_self)

lemma after_obtain:
  assumes "after s cs b"
  obtains j where "st b (s\<lparr>s_journal := j\<rparr>)" "recorded cs (s_journal s) j"
  using assms by (auto simp: after_def)

lemma after_small:
  assumes "after s cs b"
  shows "s_iterms s i = Some t \<Longrightarrow> 0 < i \<and> i < 2 ^ 31" "s_nets s i = Some a \<Longrightarrow> 0 < i \<and> i < 2 ^ 31"
    "s_bterms s i = Some u \<Longrightarrow> 0 < i \<and> i < 2 ^ 31" "s_insts s i = Some y \<Longrightarrow> 0 < i \<and> i < 2 ^ 31"
    "s_hdrs s i = Some z \<Longrightarrow> 0 < i \<and> i < 2 ^ 31"
  by (rule after_obtain [OF assms], use st_small [of b _ i] in fastforce)+

lemma after_tables: "after s cs b \<Longrightarrow> tables_ok b"
  by (auto simp: after_def st_def)

lemma after_index:
  assumes "after s cs b"
  shows "index_ok hash_string (net_hash b) (net_tbl b)" "view (net_tbl b) = s_nets s"
    "index_ok hash_string (inst_hash b) (inst_tbl b)" "view (inst_tbl b) = s_insts s"
    "index_ok hash_string (bterm_hash b) (bterm_tbl b)" "view (bterm_tbl b) = s_bterms s"
    "index_ok hash_int (inst_hdr_hash b) (inst_hdr_tbl b)" "view (inst_hdr_tbl b) = s_hdrs s"
    "table_ok (iterm_tbl b)" "objs (iterm_tbl b) = s_iterms s"
    "cap (net_tbl b) = c_nets s" "cap (inst_tbl b) = c_insts s" "cap (bterm_tbl b) = c_bterms s" "cap (inst_hdr_tbl b) = c_hdrs s"
    "cap (iterm_tbl b) = c_iterms s" "page_size (net_tbl b) = 128" "page_size (inst_tbl b) = 128" "page_size (bterm_tbl b) = 128"
    "page_size (inst_hdr_tbl b) = 128" "page_size (iterm_tbl b) = 128"
proof -
  obtain j where j: "tables_ok b" and e: "state_of b = s\<lparr>s_journal := j\<rparr>" using assms by (auto simp: after_def st_def)
  have "s_nets (state_of b) = s_nets s" "s_iterms (state_of b) = s_iterms s" "s_bterms (state_of b) = s_bterms s"
    "s_insts (state_of b) = s_insts s" "s_hdrs (state_of b) = s_hdrs s" "c_nets (state_of b) = c_nets s" "c_iterms (state_of b) = c_iterms s"
    "c_bterms (state_of b) = c_bterms s" "c_insts (state_of b) = c_insts s" "c_hdrs (state_of b) = c_hdrs s"
    unfolding e by simp_all
  then show "view (net_tbl b) = s_nets s" "view (inst_tbl b) = s_insts s" "view (bterm_tbl b) = s_bterms s" "view (inst_hdr_tbl b) = s_hdrs s"
    "objs (iterm_tbl b) = s_iterms s" "cap (net_tbl b) = c_nets s" "cap (inst_tbl b) = c_insts s" "cap (bterm_tbl b) = c_bterms s"
    "cap (inst_hdr_tbl b) = c_hdrs s" "cap (iterm_tbl b) = c_iterms s" by (simp_all add: state_of_def)
qed (use tables_okD [OF after_tables [OF assms]] in auto)

lemma after_caps: "after s cs b \<Longrightarrow> c_iterms s \<le> 2 ^ 31"
  using after_index(15) [of s cs b] tables_okD(6) [OF after_tables [of s cs b]] by simp

subsection \<open>Lookups\<close>

definition has_key :: "(nat \<Rightarrow> ('k, 'b) entry_scheme option) \<Rightarrow> 'k \<Rightarrow> bool" where
  "has_key V k \<longleftrightarrow> (\<exists>x a. V x = Some a \<and> entry_key a = k)"

lemma after_members:
  assumes "after s cs b"
  shows "name_hasMember nm (net_hash b, net_tbl b) = Inr (has_key (s_nets s) nm)"
    "name_hasMember nm (inst_hash b, inst_tbl b) = Inr (has_key (s_insts s) nm)"
    "name_hasMember nm (bterm_hash b, bterm_tbl b) = Inr (has_key (s_bterms s) nm)"
    "id_hasMember k (inst_hdr_hash b, inst_hdr_tbl b) = Inr (has_key (s_hdrs s) k)"
  using index_member [OF after_index(1) [OF assms]] index_member [OF after_index(3) [OF assms]]
    index_member [OF after_index(5) [OF assms]] index_member [OF after_index(7) [OF assms]]
  by (simp_all add: name_hasMember_def id_hasMember_def has_key_def after_index [OF assms])

lemma after_finds:
  assumes "after s cs b"
  shows "s_hdrs s x = Some a \<Longrightarrow> entry_key a = k \<Longrightarrow> id_find k (inst_hdr_hash b, inst_hdr_tbl b) = Inr x"
    "\<not> has_key (s_hdrs s) k \<Longrightarrow> id_find k (inst_hdr_hash b, inst_hdr_tbl b) = Inr 0"
  using index_lookup [OF after_index(7) [OF assms]] by (auto simp: id_find_def has_key_def after_index [OF assms])

subsection \<open>Creation\<close>

lemma replaced:
  assumes "after s cs b"
  shows "index_ok hash_string h nt \<Longrightarrow> page_size nt = 128 \<Longrightarrow> after (s\<lparr>s_nets := view nt, c_nets := cap nt\<rparr>) cs (b\<lparr>net_hash := h, net_tbl := nt\<rparr>)"
    "index_ok hash_string h bt \<Longrightarrow> page_size bt = 128 \<Longrightarrow> after (s\<lparr>s_bterms := view bt, c_bterms := cap bt\<rparr>) cs (b\<lparr>bterm_hash := h, bterm_tbl := bt\<rparr>)"
    "index_ok hash_string h it \<Longrightarrow> page_size it = 128 \<Longrightarrow> after (s\<lparr>s_insts := view it, c_insts := cap it\<rparr>) cs (b\<lparr>inst_hash := h, inst_tbl := it\<rparr>)"
    "index_ok hash_int h ht \<Longrightarrow> page_size ht = 128 \<Longrightarrow> after (s\<lparr>s_hdrs := view ht, c_hdrs := cap ht\<rparr>) cs (b\<lparr>inst_hdr_hash := h, inst_hdr_tbl := ht\<rparr>)"
    "table_ok tt \<Longrightarrow> cap tt \<le> 2 ^ 31 \<Longrightarrow> page_size tt = 128 \<Longrightarrow> after (s\<lparr>s_iterms := objs tt, c_iterms := cap tt\<rparr>) cs (b\<lparr>iterm_tbl := tt\<rparr>)"
proof -
  obtain j where j: "tables_ok b" "state_of b = s\<lparr>s_journal := j\<rparr>" "recorded cs (s_journal s) j"
    using assms by (auto simp: after_def st_def)
  have st: "after s' cs b'" if "tables_ok b'" "state_of b' = s'\<lparr>s_journal := j\<rparr>" "s_journal s' = s_journal s" for s' b'
    using that j(3) by (auto simp: after_def st_def)
  show "after (s\<lparr>s_nets := view nt, c_nets := cap nt\<rparr>) cs (b\<lparr>net_hash := h, net_tbl := nt\<rparr>)" if "index_ok hash_string h nt" "page_size nt = 128"
  proof (rule st)
    have "state_of (b\<lparr>net_hash := h, net_tbl := nt\<rparr>) = (state_of b)\<lparr>s_nets := view nt, c_nets := cap nt\<rparr>" by (simp add: state_of_def)
    then show "state_of (b\<lparr>net_hash := h, net_tbl := nt\<rparr>) = (s\<lparr>s_nets := view nt, c_nets := cap nt\<rparr>)\<lparr>s_journal := j\<rparr>" by (simp add: j(2))
  qed (use that j(1) in \<open>simp_all add: tables_ok_def\<close>)
  show "after (s\<lparr>s_bterms := view bt, c_bterms := cap bt\<rparr>) cs (b\<lparr>bterm_hash := h, bterm_tbl := bt\<rparr>)" if "index_ok hash_string h bt" "page_size bt = 128"
  proof (rule st)
    have "state_of (b\<lparr>bterm_hash := h, bterm_tbl := bt\<rparr>) = (state_of b)\<lparr>s_bterms := view bt, c_bterms := cap bt\<rparr>" by (simp add: state_of_def)
    then show "state_of (b\<lparr>bterm_hash := h, bterm_tbl := bt\<rparr>) = (s\<lparr>s_bterms := view bt, c_bterms := cap bt\<rparr>)\<lparr>s_journal := j\<rparr>" by (simp add: j(2))
  qed (use that j(1) in \<open>simp_all add: tables_ok_def\<close>)
  show "after (s\<lparr>s_insts := view it, c_insts := cap it\<rparr>) cs (b\<lparr>inst_hash := h, inst_tbl := it\<rparr>)" if "index_ok hash_string h it" "page_size it = 128"
  proof (rule st)
    have "state_of (b\<lparr>inst_hash := h, inst_tbl := it\<rparr>) = (state_of b)\<lparr>s_insts := view it, c_insts := cap it\<rparr>" by (simp add: state_of_def)
    then show "state_of (b\<lparr>inst_hash := h, inst_tbl := it\<rparr>) = (s\<lparr>s_insts := view it, c_insts := cap it\<rparr>)\<lparr>s_journal := j\<rparr>" by (simp add: j(2))
  qed (use that j(1) in \<open>simp_all add: tables_ok_def\<close>)
  show "after (s\<lparr>s_hdrs := view ht, c_hdrs := cap ht\<rparr>) cs (b\<lparr>inst_hdr_hash := h, inst_hdr_tbl := ht\<rparr>)" if "index_ok hash_int h ht" "page_size ht = 128"
  proof (rule st)
    have "state_of (b\<lparr>inst_hdr_hash := h, inst_hdr_tbl := ht\<rparr>) = (state_of b)\<lparr>s_hdrs := view ht, c_hdrs := cap ht\<rparr>" by (simp add: state_of_def)
    then show "state_of (b\<lparr>inst_hdr_hash := h, inst_hdr_tbl := ht\<rparr>) = (s\<lparr>s_hdrs := view ht, c_hdrs := cap ht\<rparr>)\<lparr>s_journal := j\<rparr>" by (simp add: j(2))
  qed (use that j(1) in \<open>simp_all add: tables_ok_def\<close>)
  show "after (s\<lparr>s_iterms := objs tt, c_iterms := cap tt\<rparr>) cs (b\<lparr>iterm_tbl := tt\<rparr>)" if "table_ok tt" "cap tt \<le> 2 ^ 31" "page_size tt = 128"
  proof (rule st)
    have "state_of (b\<lparr>iterm_tbl := tt\<rparr>) = (state_of b)\<lparr>s_iterms := objs tt, c_iterms := cap tt\<rparr>" by (simp add: state_of_def)
    then show "state_of (b\<lparr>iterm_tbl := tt\<rparr>) = (s\<lparr>s_iterms := objs tt, c_iterms := cap tt\<rparr>)\<lparr>s_journal := j\<rparr>" by (simp add: j(2))
  qed (use that j(1) in \<open>simp_all add: tables_ok_def\<close>)
qed

lemma new_net:
  assumes "after s cs b" "\<not> has_key (s_nets s) (entry_key a)" "next_entry a = 0" "c_nets s + 128 \<le> 2 ^ 31"
  shows "ends (dbTable_create a (net_tbl b)) (\<lambda>(e, t). ends (name_insert e (net_hash b, t)) (\<lambda>(h, t). s_nets s e = None \<and> e \<noteq> 0
     \<and> (\<exists>c \<le> c_nets s + 128. after (s\<lparr>s_nets := (s_nets s)(e \<mapsto> a), c_nets := c\<rparr>) cs (b\<lparr>net_hash := h, net_tbl := t\<rparr>))))"
proof -
  have r: "room (net_tbl b)" using assms(4) by (simp add: room_def after_index [OF assms(1)])
  obtain e t1 h' t' where c: "dbTable_create a (net_tbl b) = Inr (e, t1)" "hash_insert hash_string e (net_hash b, t1) = Inr (h', t')"
      "index_ok hash_string h' t'" "view t' = (view (net_tbl b))(e \<mapsto> a)" "view (net_tbl b) e = None" "e \<noteq> 0"
      "page_size t' = page_size (net_tbl b)" "cap t' \<le> cap (net_tbl b) + page_size (net_tbl b)"
    using index_create [OF after_index(1) [OF assms(1)] _ assms(3) r] assms(2) by (auto simp: has_key_def after_index [OF assms(1)])
  from replaced(1) [OF assms(1) c(3)] c show ?thesis using after_index [OF assms(1)] by (auto simp: name_insert_def intro!: exI [of _ "cap t'"])
qed

lemma new_bterm:
  assumes "after s cs b" "\<not> has_key (s_bterms s) (entry_key a)" "next_entry a = 0" "c_bterms s + 128 \<le> 2 ^ 31"
  shows "ends (dbTable_create a (bterm_tbl b)) (\<lambda>(e, t). ends (name_insert e (bterm_hash b, t)) (\<lambda>(h, t). s_bterms s e = None \<and> e \<noteq> 0
     \<and> (\<exists>c \<le> c_bterms s + 128. after (s\<lparr>s_bterms := (s_bterms s)(e \<mapsto> a), c_bterms := c\<rparr>) cs (b\<lparr>bterm_hash := h, bterm_tbl := t\<rparr>))))"
proof -
  have r: "room (bterm_tbl b)" using assms(4) by (simp add: room_def after_index [OF assms(1)])
  obtain e t1 h' t' where c: "dbTable_create a (bterm_tbl b) = Inr (e, t1)" "hash_insert hash_string e (bterm_hash b, t1) = Inr (h', t')"
      "index_ok hash_string h' t'" "view t' = (view (bterm_tbl b))(e \<mapsto> a)" "view (bterm_tbl b) e = None" "e \<noteq> 0"
      "page_size t' = page_size (bterm_tbl b)" "cap t' \<le> cap (bterm_tbl b) + page_size (bterm_tbl b)"
    using index_create [OF after_index(5) [OF assms(1)] _ assms(3) r] assms(2) by (auto simp: has_key_def after_index [OF assms(1)])
  from replaced(2) [OF assms(1) c(3)] c show ?thesis using after_index [OF assms(1)] by (auto simp: name_insert_def intro!: exI [of _ "cap t'"])
qed

lemma new_inst:
  assumes "after s cs b" "\<not> has_key (s_insts s) (entry_key a)" "next_entry a = 0" "c_insts s + 128 \<le> 2 ^ 31"
  shows "ends (dbTable_create a (inst_tbl b)) (\<lambda>(e, t). ends (name_insert e (inst_hash b, t)) (\<lambda>(h, t). s_insts s e = None \<and> e \<noteq> 0
     \<and> (\<exists>c \<le> c_insts s + 128. after (s\<lparr>s_insts := (s_insts s)(e \<mapsto> a), c_insts := c\<rparr>) cs (b\<lparr>inst_hash := h, inst_tbl := t\<rparr>))))"
proof -
  have r: "room (inst_tbl b)" using assms(4) by (simp add: room_def after_index [OF assms(1)])
  obtain e t1 h' t' where c: "dbTable_create a (inst_tbl b) = Inr (e, t1)" "hash_insert hash_string e (inst_hash b, t1) = Inr (h', t')"
      "index_ok hash_string h' t'" "view t' = (view (inst_tbl b))(e \<mapsto> a)" "view (inst_tbl b) e = None" "e \<noteq> 0"
      "page_size t' = page_size (inst_tbl b)" "cap t' \<le> cap (inst_tbl b) + page_size (inst_tbl b)"
    using index_create [OF after_index(3) [OF assms(1)] _ assms(3) r] assms(2) by (auto simp: has_key_def after_index [OF assms(1)])
  from replaced(3) [OF assms(1) c(3)] c show ?thesis using after_index [OF assms(1)] by (auto simp: name_insert_def intro!: exI [of _ "cap t'"])
qed

lemma new_hdr:
  assumes "after s cs b" "\<not> has_key (s_hdrs s) (entry_key a)" "next_entry a = 0" "c_hdrs s + 128 \<le> 2 ^ 31"
  shows "ends (dbTable_create a (inst_hdr_tbl b)) (\<lambda>(e, t). ends (id_insert e (inst_hdr_hash b, t)) (\<lambda>(h, t). s_hdrs s e = None \<and> e \<noteq> 0
     \<and> (\<exists>c \<le> c_hdrs s + 128. after (s\<lparr>s_hdrs := (s_hdrs s)(e \<mapsto> a), c_hdrs := c\<rparr>) cs (b\<lparr>inst_hdr_hash := h, inst_hdr_tbl := t\<rparr>))))"
proof -
  have r: "room (inst_hdr_tbl b)" using assms(4) by (simp add: room_def after_index [OF assms(1)])
  obtain e t1 h' t' where c: "dbTable_create a (inst_hdr_tbl b) = Inr (e, t1)" "hash_insert hash_int e (inst_hdr_hash b, t1) = Inr (h', t')"
      "index_ok hash_int h' t'" "view t' = (view (inst_hdr_tbl b))(e \<mapsto> a)" "view (inst_hdr_tbl b) e = None" "e \<noteq> 0"
      "page_size t' = page_size (inst_hdr_tbl b)" "cap t' \<le> cap (inst_hdr_tbl b) + page_size (inst_hdr_tbl b)"
    using index_create [OF after_index(7) [OF assms(1)] _ assms(3) r] assms(2) by (auto simp: has_key_def after_index [OF assms(1)])
  from replaced(4) [OF assms(1) c(3)] c show ?thesis using after_index [OF assms(1)] by (auto simp: id_insert_def intro!: exI [of _ "cap t'"])
qed

lemma new_iterm:
  assumes "after s cs b" "c_iterms s + 128 \<le> 2 ^ 31"
  shows "ends (dbTable_create t (iterm_tbl b)) (\<lambda>(e, tbl). s_iterms s e = None \<and> e \<noteq> 0
     \<and> (\<exists>c \<le> c_iterms s + 128. after (s\<lparr>s_iterms := (s_iterms s)(e \<mapsto> t), c_iterms := c\<rparr>) cs (b\<lparr>iterm_tbl := tbl\<rparr>)))"
proof -
  obtain e t' where c: "dbTable_create t (iterm_tbl b) = Inr (e, t')" "table_ok t'" "objs t' = (objs (iterm_tbl b))(e \<mapsto> t)" "e \<notin> ids (iterm_tbl b)" "e \<noteq> 0"
    using create_result [OF after_index(9) [OF assms(1)]] by blast
  note cap = create_cap [OF c(1)]
  have "e \<notin> dom (objs (iterm_tbl b))" using c(4) by simp
  then have "s_iterms s e = None" by (auto simp: after_index [OF assms(1)])
  then show ?thesis using replaced(5) [OF assms(1) c(2)] c cap after_index [OF assms(1)] assms(2) by (auto intro!: exI [of _ "cap t'"])
qed

subsection \<open>Destruction\<close>

lemma gone_net:
  assumes "after s cs b" "s_nets s n = Some a"
  shows "ends (name_remove n (net_hash b, net_tbl b)) (\<lambda>(h, t). ends (dbTable_destroy n t) (\<lambda>t.
     after (s\<lparr>s_nets := (s_nets s)(n := None)\<rparr>) cs (b\<lparr>net_hash := h, net_tbl := t\<rparr>)))"
proof -
  have "view (net_tbl b) n = Some a" using assms(2) by (simp add: after_index [OF assms(1)])
  from index_destroy [OF after_index(1) [OF assms(1)] this] obtain h' t1 t' where
    d: "hash_remove hash_string n (net_hash b, net_tbl b) = Inr (h', t1)" "dbTable_destroy n t1 = Inr t'" "index_ok hash_string h' t'"
       "view t' = (view (net_tbl b))(n := None)" "cap t' = cap (net_tbl b)" "page_size t' = page_size (net_tbl b)" by blast
  from replaced(1) [OF assms(1) d(3)] d show ?thesis using after_index [OF assms(1)] by (simp add: name_remove_def)
qed

lemma gone_bterm:
  assumes "after s cs b" "s_bterms s n = Some a"
  shows "ends (name_remove n (bterm_hash b, bterm_tbl b)) (\<lambda>(h, t). ends (dbTable_destroy n t) (\<lambda>t.
     after (s\<lparr>s_bterms := (s_bterms s)(n := None)\<rparr>) cs (b\<lparr>bterm_hash := h, bterm_tbl := t\<rparr>)))"
proof -
  have "view (bterm_tbl b) n = Some a" using assms(2) by (simp add: after_index [OF assms(1)])
  from index_destroy [OF after_index(5) [OF assms(1)] this] obtain h' t1 t' where
    d: "hash_remove hash_string n (bterm_hash b, bterm_tbl b) = Inr (h', t1)" "dbTable_destroy n t1 = Inr t'" "index_ok hash_string h' t'"
       "view t' = (view (bterm_tbl b))(n := None)" "cap t' = cap (bterm_tbl b)" "page_size t' = page_size (bterm_tbl b)" by blast
  from replaced(2) [OF assms(1) d(3)] d show ?thesis using after_index [OF assms(1)] by (simp add: name_remove_def)
qed

lemma gone_inst:
  assumes "after s cs b" "s_insts s n = Some a"
  shows "ends (name_remove n (inst_hash b, inst_tbl b)) (\<lambda>(h, t). ends (dbTable_destroy n t) (\<lambda>t.
     after (s\<lparr>s_insts := (s_insts s)(n := None)\<rparr>) cs (b\<lparr>inst_hash := h, inst_tbl := t\<rparr>)))"
proof -
  have "view (inst_tbl b) n = Some a" using assms(2) by (simp add: after_index [OF assms(1)])
  from index_destroy [OF after_index(3) [OF assms(1)] this] obtain h' t1 t' where
    d: "hash_remove hash_string n (inst_hash b, inst_tbl b) = Inr (h', t1)" "dbTable_destroy n t1 = Inr t'" "index_ok hash_string h' t'"
       "view t' = (view (inst_tbl b))(n := None)" "cap t' = cap (inst_tbl b)" "page_size t' = page_size (inst_tbl b)" by blast
  from replaced(3) [OF assms(1) d(3)] d show ?thesis using after_index [OF assms(1)] by (simp add: name_remove_def)
qed

lemma gone_hdr:
  assumes "after s cs b" "s_hdrs s n = Some a"
  shows "ends (id_remove n (inst_hdr_hash b, inst_hdr_tbl b)) (\<lambda>(h, t). ends (dbTable_destroy n t) (\<lambda>t.
     after (s\<lparr>s_hdrs := (s_hdrs s)(n := None)\<rparr>) cs (b\<lparr>inst_hdr_hash := h, inst_hdr_tbl := t\<rparr>)))"
proof -
  have "view (inst_hdr_tbl b) n = Some a" using assms(2) by (simp add: after_index [OF assms(1)])
  from index_destroy [OF after_index(7) [OF assms(1)] this] obtain h' t1 t' where
    d: "hash_remove hash_int n (inst_hdr_hash b, inst_hdr_tbl b) = Inr (h', t1)" "dbTable_destroy n t1 = Inr t'" "index_ok hash_int h' t'"
       "view t' = (view (inst_hdr_tbl b))(n := None)" "cap t' = cap (inst_hdr_tbl b)" "page_size t' = page_size (inst_hdr_tbl b)" by blast
  from replaced(4) [OF assms(1) d(3)] d show ?thesis using after_index [OF assms(1)] by (simp add: id_remove_def)
qed

lemma gone_iterm:
  assumes "after s cs b" "s_iterms s n = Some a"
  shows "ends (dbTable_destroy n (iterm_tbl b)) (\<lambda>t. after (s\<lparr>s_iterms := (s_iterms s)(n := None)\<rparr>) cs (b\<lparr>iterm_tbl := t\<rparr>))"
proof -
  have "n \<in> dom (objs (iterm_tbl b))" using assms(2) by (simp add: after_index [OF assms(1)] domI)
  then obtain t' where d: "dbTable_destroy n (iterm_tbl b) = Inr t'" "table_ok t'" "objs t' = (objs (iterm_tbl b))(n := None)"
    using destroy_result [OF after_index(9) [OF assms(1)], of n] by auto
  show ?thesis using replaced(5) [OF assms(1) d(2)] d destroy_cap [OF d(1)] after_index [OF assms(1)] after_caps [OF assms(1)] by simp
qed

end
