(* ===== verification/Odb_Net_Ops.thy ===== *)
theory Odb_Net_Ops
  imports Odb_Net_Objects
begin

section \<open>Terminals and nets\<close>

text \<open>
  The operations on nets and block terminals on the meaning of a netlist: what each leaves alone
  (\<open>same_objects\<close>), the walks over the terminals of a net, creation and destruction.
\<close>

subsection \<open>What stays\<close>

definition same_objects :: "nstate \<Rightarrow> nstate \<Rightarrow> bool" where
  \<comment> \<open>but for the nets of terminals and the links\<close>
  "same_objects s s' \<longleftrightarrow> (\<forall>x. map_option entry_key (s_nets s' x) = map_option entry_key (s_nets s x))
     \<and> (\<forall>x. map_option entry_key (s_bterms s' x) = map_option entry_key (s_bterms s x))
     \<and> (\<forall>x. map_option it_inst (s_iterms s' x) = map_option it_inst (s_iterms s x))
     \<and> (\<forall>x. map_option it_mterm_idx (s_iterms s' x) = map_option it_mterm_idx (s_iterms s x))
     \<and> s_insts s' = s_insts s \<and> s_hdrs s' = s_hdrs s \<and> c_nets s' = c_nets s \<and> c_iterms s' = c_iterms s \<and> c_bterms s' = c_bterms s
     \<and> c_insts s' = c_insts s \<and> c_hdrs s' = c_hdrs s \<and> s_journal s' = s_journal s \<and> s_pending s' = s_pending s"

lemma same_objects_refl [simp]: "same_objects s s"
  by (simp add: same_objects_def)

lemma same_objects_trans: "same_objects s s' \<Longrightarrow> same_objects s' s'' \<Longrightarrow> same_objects s s''"
  by (simp add: same_objects_def)

lemma same_objectsD:
  assumes "same_objects s s'"
  shows "s_insts s' = s_insts s" "s_hdrs s' = s_hdrs s" "c_nets s' = c_nets s" "c_iterms s' = c_iterms s" "c_bterms s' = c_bterms s"
    "c_insts s' = c_insts s" "c_hdrs s' = c_hdrs s" "s_journal s' = s_journal s" "s_pending s' = s_pending s"
    "s_nets s x = Some a \<Longrightarrow> \<exists>a'. s_nets s' x = Some a' \<and> entry_key a' = entry_key a"
    "s_bterms s x = Some u \<Longrightarrow> \<exists>u'. s_bterms s' x = Some u' \<and> entry_key u' = entry_key u"
    "s_iterms s x = Some t \<Longrightarrow> \<exists>t'. s_iterms s' x = Some t' \<and> it_inst t' = it_inst t \<and> it_mterm_idx t' = it_mterm_idx t"
proof -
  note d = assms [unfolded same_objects_def]
  show "s_insts s' = s_insts s" "s_hdrs s' = s_hdrs s" "c_nets s' = c_nets s" "c_iterms s' = c_iterms s" "c_bterms s' = c_bterms s"
    "c_insts s' = c_insts s" "c_hdrs s' = c_hdrs s" "s_journal s' = s_journal s" "s_pending s' = s_pending s" using d by simp_all
  have m: "map_option entry_key (s_nets s' x) = map_option entry_key (s_nets s x)"
    "map_option entry_key (s_bterms s' x) = map_option entry_key (s_bterms s x)"
    "map_option it_inst (s_iterms s' x) = map_option it_inst (s_iterms s x)"
    "map_option it_mterm_idx (s_iterms s' x) = map_option it_mterm_idx (s_iterms s x)" using d by blast+
  show "\<exists>a'. s_nets s' x = Some a' \<and> entry_key a' = entry_key a" if "s_nets s x = Some a" using m(1) that by auto
  show "\<exists>u'. s_bterms s' x = Some u' \<and> entry_key u' = entry_key u" if "s_bterms s x = Some u" using m(2) that by auto
  show "\<exists>t'. s_iterms s' x = Some t' \<and> it_inst t' = it_inst t \<and> it_mterm_idx t' = it_mterm_idx t" if "s_iterms s x = Some t"
    using m(3,4) that by auto
qed

lemma same_objects_sym: "same_objects s s' \<Longrightarrow> same_objects s' s"
  by (simp add: same_objects_def)

lemma has_key_map: "has_key V k \<longleftrightarrow> (\<exists>x. map_option entry_key (V x) = Some k)"
  by (auto simp: has_key_def)

lemma has_key_same: "(\<And>x. map_option entry_key (V' x) = map_option entry_key (V x)) \<Longrightarrow> has_key V' k = has_key V k"
  by (simp add: has_key_map)

lemma same_has_key:
  assumes "same_objects s s'"
  shows "has_key (s_nets s') k = has_key (s_nets s) k" "has_key (s_bterms s') k = has_key (s_bterms s) k"
  using assms by (auto simp: same_objects_def intro!: has_key_same)

lemma upd_keeps: "(\<And>t. g (f t) = g t) \<Longrightarrow> map_option g (upd i f T x) = map_option g (T x)"
  by (simp add: upd_def option.map_comp comp_def)

lemma unlinked_same:
  "same_objects s (iterm_unlinked i s)" "same_objects s (bterm_unlinked i s)"
  "s_bterms (iterm_unlinked i s) = s_bterms s" "s_iterms (bterm_unlinked i s) = s_iterms s"
  "map_option n_bterms (s_nets (iterm_unlinked i s) x) = map_option n_bterms (s_nets s x)"
  "map_option n_iterms (s_nets (bterm_unlinked i s) x) = map_option n_iterms (s_nets s x)"
  by (simp_all add: same_objects_def iterm_unlinked_def bterm_unlinked_def iterms.unlinked_def bterms.unlinked_def upd_keeps split: option.split)

lemma linked_same:
  "same_objects s (iterm_linked i n s)" "same_objects s (bterm_linked i n s)"
  "s_bterms (iterm_linked i n s) = s_bterms s" "s_iterms (bterm_linked i n s) = s_iterms s"
  "map_option n_bterms (s_nets (iterm_linked i n s) x) = map_option n_bterms (s_nets s x)"
  "map_option n_iterms (s_nets (bterm_linked i n s) x) = map_option n_iterms (s_nets s x)"
  by (simp_all add: same_objects_def iterm_linked_def bterm_linked_def iterms.linked_def bterms.linked_def upd_keeps split: option.split)

lemma bterms_listed_iterm:
  assumes "bterms_listed s L"
  shows "bterms_listed (iterm_unlinked i s) L" "bterms_listed (iterm_linked i n s) L"
  by (rule listed_cong [OF assms], simp_all add: unlinked_same linked_same)+

lemma iterms_listed_bterm:
  assumes "iterms_listed s L"
  shows "iterms_listed (bterm_unlinked i s) L" "iterms_listed (bterm_linked i n s) L"
  by (rule listed_cong [OF assms], simp_all add: unlinked_same linked_same)+

subsection \<open>Walks\<close>

lemma dseg_short: "dseg nx pv (objs t) p q xs r \<Longrightarrow> distinct xs \<Longrightarrow> length xs < chain_fuel t"
proof -
  assume d: "dseg nx pv (objs t) p q xs r" "distinct xs"
  have "set xs \<subseteq> ids t" using dseg_mem [OF d(1)] dom_objs [of t] by blast
  also have "ids t \<subseteq> {..<cap t}" by (auto simp: ids_def)
  finally have "card (set xs) \<le> cap t" using card_mono [of "{..<cap t}"] by simp
  then show ?thesis using d(2) by (simp add: distinct_card chain_fuel_def cap_def)
qed

lemma dseg_short_view: "dseg nx pv (view t) p q xs r \<Longrightarrow> distinct xs \<Longrightarrow> length xs < chain_fuel t"
proof -
  assume d: "dseg nx pv (view t) p q xs r" "distinct xs"
  have "set xs \<subseteq> ids t" using dseg_mem [OF d(1)] dom_view [of t] by blast
  also have "ids t \<subseteq> {..<cap t}" by (auto simp: ids_def)
  finally have "card (set xs) \<le> cap t" using card_mono [of "{..<cap t}"] by simp
  then show ?thesis using d(2) by (simp add: distinct_card chain_fuel_def cap_def)
qed

lemma walk_iterms_dseg:
  "after s cs b \<Longrightarrow> dseg next_net_iterm prev_net_iterm (s_iterms s) p q xs 0 \<Longrightarrow> length xs \<le> fuel \<Longrightarrow> walk_iterms fuel q b = Inr xs"
proof (induction xs arbitrary: p q fuel)
  case (Cons x xs)
  then obtain f where f: "fuel = Suc f" "length xs \<le> f" by (cases fuel) auto
  obtain t where t: "q = x" "x \<noteq> 0" "s_iterms s x = Some t" "dseg next_net_iterm prev_net_iterm (s_iterms s) x (next_net_iterm t) xs 0"
    using Cons.prems(2) by auto
  have "getPtr (iterm_tbl b) x = Inr t" using after_reads(1) [OF Cons.prems(1) t(3)] by (simp add: ends_def)
  then show ?case using Cons.IH [OF Cons.prems(1) t(4) f(2)] t f by (simp add: walk_iterms.simps [of "Suc f"])
qed (simp add: walk_iterms.simps)

lemma walk_bterms_dseg:
  "after s cs b \<Longrightarrow> dseg next_bterm prev_bterm (s_bterms s) p q xs 0 \<Longrightarrow> length xs \<le> fuel \<Longrightarrow> walk_bterms fuel q b = Inr xs"
proof (induction xs arbitrary: p q fuel)
  case (Cons x xs)
  then obtain f where f: "fuel = Suc f" "length xs \<le> f" by (cases fuel) auto
  obtain t where t: "q = x" "x \<noteq> 0" "s_bterms s x = Some t" "dseg next_bterm prev_bterm (s_bterms s) x (next_bterm t) xs 0"
    using Cons.prems(2) by auto
  obtain u where "getPtr (bterm_tbl b) x = Inr u" "u\<lparr>next_entry := 0\<rparr> = t" using after_reads(3) [OF Cons.prems(1) t(3)] by (auto simp: ends_def)
  moreover from this have "next_bterm u = next_bterm t" by auto
  ultimately show ?case using Cons.IH [OF Cons.prems(1) t(4) f(2)] t f by (simp add: walk_bterms.simps [of "Suc f"])
qed (simp add: walk_bterms.simps)

lemma getITerms_listed:
  assumes "after s cs b" "iterms_listed s L" "s_nets s n = Some a"
  shows "net_getITerms n b = Inr (L n)"
proof -
  note l = listedD [OF assms(2)]
  obtain x where x: "getPtr (net_tbl b) n = Inr x" "x\<lparr>next_entry := 0\<rparr> = a" using after_reads(2) [OF assms(1,3)] by (auto simp: ends_def)
  have n: "n_iterms x = n_iterms a" using x(2) by auto
  have "length (L n) \<le> chain_fuel (iterm_tbl b)"
    using dseg_short [of _ _ "iterm_tbl b" _ _ "L n"] l(3,4) [OF assms(3)] after_index(10) [OF assms(1)] by fastforce
  from walk_iterms_dseg [OF assms(1) l(3) [OF assms(3)] this] show ?thesis by (simp add: net_getITerms_def x(1) n)
qed

lemma getBTerms_listed:
  assumes "after s cs b" "bterms_listed s L" "s_nets s n = Some a"
  shows "net_getBTerms n b = Inr (L n)"
proof -
  note l = listedD [OF assms(2)]
  obtain x where x: "getPtr (net_tbl b) n = Inr x" "x\<lparr>next_entry := 0\<rparr> = a" using after_reads(2) [OF assms(1,3)] by (auto simp: ends_def)
  have n: "n_bterms x = n_bterms a" using x(2) by auto
  have "length (L n) \<le> chain_fuel (bterm_tbl b)"
    using dseg_short_view [of _ _ "bterm_tbl b" _ _ "L n"] l(3,4) [OF assms(3)] after_index(6) [OF assms(1)] by fastforce
  from walk_bterms_dseg [OF assms(1) l(3) [OF assms(3)] this] show ?thesis by (simp add: net_getBTerms_def x(1) n)
qed

subsection \<open>Terminals of the block\<close>

definition bterm_gone :: "nat \<Rightarrow> nstate \<Rightarrow> nstate" where
  "bterm_gone i s = (let s' = bterm_unlinked i s in s'\<lparr>s_bterms := (s_bterms s')(i := None)\<rparr>)"

lemma bterm_destroy_ends:
  assumes "after s cs b" "bterms_listed s L" "s_bterms s i = Some t"
  shows "ends (dbBTerm_destroy i b) (after (bterm_gone i s) (cs @ [OnTerm (BTermDestroy (of_nat i))]))"
    "bterms_listed (bterm_gone i s) (if bt_net t = 0 then L else L(bt_net t := remove1 i (L (bt_net t))))"
proof -
  let ?cs = "cs @ [OnTerm (BTermDestroy (of_nat i))]"
  note u = bterm_unlinked_listed [OF assms(2,3)]
  show "ends (dbBTerm_destroy i b) (after (bterm_gone i s) ?cs)"
    unfolding dbBTerm_destroy_def
  proof (rule ends_bind [OF after_reads(3) [OF assms(1,3)]])
    fix x assume "x\<lparr>next_entry := 0\<rparr> = t"
    then have x: "bt_net x = bt_net t" by auto
    show "ends (bindE (if bt_net x \<noteq> 0 then disconnectNet i b else Inr b) (\<lambda>b. bindE (write_journal (log_bterm_destroy (of_nat i)) b) (\<lambda>b.
        bindE (name_remove i (bterm_hash b, bterm_tbl b)) (\<lambda>(h, t). bindE (dbTable_destroy i t) (\<lambda>t. Inr (b\<lparr>bterm_hash := h, bterm_tbl := t\<rparr>))))))
        (after (bterm_gone i s) ?cs)"
      unfolding x
    proof (rule ends_bind [OF disconnectNet_cond_ends [OF assms]], rule ends_bind [OF after_writes(6)], assumption)
      fix b1 assume b1: "after (bterm_unlinked i s) ?cs b1"
      show "ends (bindE (name_remove i (bterm_hash b1, bterm_tbl b1)) (\<lambda>(h, t). bindE (dbTable_destroy i t) (\<lambda>t. Inr (b1\<lparr>bterm_hash := h, bterm_tbl := t\<rparr>))))
          (after (bterm_gone i s) ?cs)"
        using gone_bterm [OF b1 u(2)] by (force simp: ends_def bterm_gone_def Let_def)
    qed
  qed
  show "bterms_listed (bterm_gone i s) (if bt_net t = 0 then L else L(bt_net t := remove1 i (L (bt_net t))))"
    using listed_gone_term [OF u(1,2)] by (simp add: bterm_gone_def Let_def)
qed

lemma bterm_create_ends:
  assumes "after s cs b" "bterms_listed s L" "s_nets s n = Some a" "c_bterms s + 128 \<le> 2 ^ 31" "string_ok (cstring nm)"
  shows "ends (dbBTerm_create n nm b) (\<lambda>(e, b').
     if has_key (s_bterms s) nm then e = 0 \<and> b' = b
     else e \<noteq> 0 \<and> s_bterms s e = None \<and> (\<exists>s'. s' = bterm_linked e n (s\<lparr>s_bterms := (s_bterms s)(e \<mapsto>
            \<lparr>entry_key = nm, next_entry = 0, bt_net = 0, next_bterm = 0, prev_bterm = 0\<rparr>), c_bterms := c_bterms s'\<rparr>)
        \<and> c_bterms s' \<le> c_bterms s + 128 \<and> bterms_listed s' (L(n := e # L n))
        \<and> after s' (cs @ [OnTerm (BTermCreate (of_nat n) (cstring nm))]) b'))"
proof (cases "has_key (s_bterms s) nm")
  case True
  then show ?thesis by (simp add: dbBTerm_create_def after_members [OF assms(1)])
next
  case False
  let ?cs = "cs @ [OnTerm (BTermCreate (of_nat n) (cstring nm))]"
  let ?t = "\<lparr>entry_key = nm, next_entry = 0, bt_net = 0, next_bterm = 0, prev_bterm = 0\<rparr>"
  let ?Q = "\<lambda>(e, b'). e \<noteq> 0 \<and> s_bterms s e = None \<and> (\<exists>s'. s' = bterm_linked e n (s\<lparr>s_bterms := (s_bterms s)(e \<mapsto> ?t), c_bterms := c_bterms s'\<rparr>)
        \<and> c_bterms s' \<le> c_bterms s + 128 \<and> bterms_listed s' (L(n := e # L n)) \<and> after s' ?cs b')"
  have "ends (bindE (write_journal (log_bterm_create (of_nat n) (cstring nm)) b) (\<lambda>b.
         bindE (dbTable_create ?t (bterm_tbl b)) (\<lambda>(oid, t).
         bindE (name_insert oid (bterm_hash b, t)) (\<lambda>(h, t).
         bindE (connectNet oid n (b\<lparr>bterm_hash := h, bterm_tbl := t\<rparr>)) (\<lambda>b. Inr (oid, b)))))) ?Q"
  proof (rule ends_bind [OF after_writes(5) [OF assms(1,5)]])
    fix b1 assume b1: "after s ?cs b1"
    have k: "\<not> has_key (s_bterms s) (entry_key ?t)" using False by simp
    show "ends (bindE (dbTable_create ?t (bterm_tbl b1)) (\<lambda>(oid, t). bindE (name_insert oid (bterm_hash b1, t)) (\<lambda>(h, t).
         bindE (connectNet oid n (b1\<lparr>bterm_hash := h, bterm_tbl := t\<rparr>)) (\<lambda>b. Inr (oid, b))))) ?Q"
    proof (rule ends_bind [OF new_bterm [OF b1 k _ assms(4)]], simp, clarify, rule ends_bind, assumption, clarify, rule ends_bind)
      fix e t h t' c
      assume e: "s_bterms s e = None" "0 < e" and c: "c \<le> c_bterms s + 128"
        and b2: "after (s\<lparr>s_bterms := (s_bterms s)(e \<mapsto> ?t), c_bterms := c\<rparr>) ?cs (b1\<lparr>bterm_hash := h, bterm_tbl := t'\<rparr>)"
      let ?s = "s\<lparr>s_bterms := (s_bterms s)(e \<mapsto> ?t), c_bterms := c\<rparr>"
      have l: "bterms_listed ?s L" using listed_new_term [OF assms(2) e(1)] e(2) by simp
      have n: "s_nets ?s n = Some a" using assms(3) by simp
      have t: "s_bterms ?s e = Some ?t" "bt_net ?t = 0" by simp_all
      show "ends (connectNet e n (b1\<lparr>bterm_hash := h, bterm_tbl := t'\<rparr>)) (after (bterm_linked e n ?s) ?cs)"
        by (rule connectNet_ends [OF b2 l t n])
      have c': "c_bterms (bterm_linked e n ?s) = c" using same_objectsD(5) [OF linked_same(2)] by simp
      fix b3 assume "after (bterm_linked e n ?s) ?cs b3"
      then show "ends (Inr (e, b3)) ?Q"
        using bterm_linked_listed [OF l t n] e c c' by (auto intro!: exI [of _ "bterm_linked e n ?s"])
    qed
  qed
  then show ?thesis using False by (simp add: dbBTerm_create_def after_members [OF assms(1)])
qed

subsection \<open>Nets\<close>

definition new_net_obj :: "string \<Rightarrow> net_obj" where
  "new_net_obj nm = \<lparr>entry_key = nm, next_entry = 0, n_iterms = 0, n_bterms = 0\<rparr>"

lemma net_create_ends:
  assumes "after s cs b" "c_nets s + 128 \<le> 2 ^ 31" "string_ok (cstring nm)" "skip \<longrightarrow> \<not> has_key (s_nets s) nm"
  shows "ends (dbNet_create nm skip b) (\<lambda>(e, b').
     if has_key (s_nets s) nm then e = 0 \<and> b' = b
     else e \<noteq> 0 \<and> s_nets s e = None \<and> (\<exists>c \<le> c_nets s + 128.
        after (s\<lparr>s_nets := (s_nets s)(e \<mapsto> new_net_obj nm), c_nets := c\<rparr>) (cs @ [OnNet (NetCreate (cstring nm))]) b'))"
proof (cases "has_key (s_nets s) nm")
  case True
  then show ?thesis using assms(4) by (auto simp: dbNet_create_def after_members [OF assms(1)])
next
  case False
  let ?cs = "cs @ [OnNet (NetCreate (cstring nm))]"
  let ?Q = "\<lambda>(e, b'). e \<noteq> 0 \<and> s_nets s e = None \<and> (\<exists>c \<le> c_nets s + 128.
        after (s\<lparr>s_nets := (s_nets s)(e \<mapsto> new_net_obj nm), c_nets := c\<rparr>) ?cs b')"
  have "ends (bindE (write_journal (log_net_create (cstring nm)) b) (\<lambda>b.
         bindE (dbTable_create (new_net_obj nm) (net_tbl b)) (\<lambda>(oid, t).
         bindE (name_insert oid (net_hash b, t)) (\<lambda>(h, t). Inr (oid, b\<lparr>net_hash := h, net_tbl := t\<rparr>))))) ?Q"
  proof (rule ends_bind [OF after_writes(7) [OF assms(1,3)]])
    fix b1 assume b1: "after s ?cs b1"
    have k: "\<not> has_key (s_nets s) (entry_key (new_net_obj nm))" "next_entry (new_net_obj nm) = 0" using False by (simp_all add: new_net_obj_def)
    show "ends (bindE (dbTable_create (new_net_obj nm) (net_tbl b1)) (\<lambda>(oid, t).
         bindE (name_insert oid (net_hash b1, t)) (\<lambda>(h, t). Inr (oid, b1\<lparr>net_hash := h, net_tbl := t\<rparr>)))) ?Q"
      by (rule ends_bind [OF new_net [OF b1 k assms(2)]], clarify, rule ends_bind, assumption) auto
  qed
  then show ?thesis using False assms(4) by (cases skip) (auto simp: dbNet_create_def after_members [OF assms(1)] new_net_obj_def)
qed

abbreviation unlink_iterms :: "nat list \<Rightarrow> nstate \<Rightarrow> nstate" where
  "unlink_iterms zs s \<equiv> fold iterm_unlinked zs s"

abbreviation bterms_gone :: "nat list \<Rightarrow> nstate \<Rightarrow> nstate" where
  "bterms_gone zs s \<equiv> fold bterm_gone zs s"

lemma disconnect_iterms_ends:
  assumes "after s cs b" "iterms_listed s L" "s_nets s n = Some a" "L n = zs" "length zs \<le> fuel"
  shows "ends (disconnect_iterms fuel (n_iterms a) b) (after (unlink_iterms zs s) (cs @ map (\<lambda>i. OnTerm (ITermDisconnect (of_nat i))) zs))"
    "iterms_listed (unlink_iterms zs s) (L(n := []))"
proof -
  have "ends (disconnect_iterms fuel (n_iterms a) b) (after (unlink_iterms zs s) (cs @ map (\<lambda>i. OnTerm (ITermDisconnect (of_nat i))) zs))
    \<and> iterms_listed (unlink_iterms zs s) (L(n := []))"
    using assms
  proof (induction zs arbitrary: s cs b L a fuel)
    case Nil
    have "n_iterms a = 0" using dseg_head [OF listedD(3) [OF Nil(2,3)]] Nil(4) by simp
    then show ?case using Nil by (simp add: disconnect_iterms.simps fun_upd_idem)
  next
    case (Cons z zs)
    note l = listedD [OF Cons.prems(2)]
    have n0: "n \<noteq> 0" using l(1) Cons.prems(3) by (cases n) auto
    obtain t where t: "n_iterms a = z" "z \<noteq> 0" "s_iterms s z = Some t"
      using l(3) [OF Cons.prems(3)] Cons.prems(4) by auto
    have own: "it_net t = n" using l(5) [OF Cons.prems(3), of z] Cons.prems(4) t(3) by simp
    obtain f where f: "fuel = Suc f" "length zs \<le> f" using Cons.prems(5) by (cases fuel) auto
    note u = iterm_unlinked_listed [OF Cons.prems(2) t(3)]
    have l': "iterms_listed (iterm_unlinked z s) (L(n := zs))" using u(1) own n0 Cons.prems(4) by simp
    have a': "s_nets (iterm_unlinked z s) n = Some (a\<lparr>n_iterms := next_net_iterm t\<rparr>)"
      using t own n0 Cons.prems(3) by (simp add: iterm_unlinked_def)
    have hn: "n_iterms (a\<lparr>n_iterms := next_net_iterm t\<rparr>) = next_net_iterm t" by simp
    have IH: "ends (disconnect_iterms f (next_net_iterm t) b1) (after (unlink_iterms zs (iterm_unlinked z s))
          (cs1 @ map (\<lambda>i. OnTerm (ITermDisconnect (of_nat i))) zs))
        \<and> iterms_listed (unlink_iterms zs (iterm_unlinked z s)) (L(n := []))"
      if "after (iterm_unlinked z s) cs1 b1" for cs1 b1
      using Cons.IH [OF that l' a' fun_upd_same f(2)] unfolding fun_upd_upd hn .
    have d: "ends (dbITerm_disconnect z b) (after (iterm_unlinked z s) (cs @ [OnTerm (ITermDisconnect (of_nat z))]))"
      using iterm_disconnect_ends [OF Cons.prems(1,2) t(3)] own n0 by simp
    then obtain b1 where b1: "after (iterm_unlinked z s) (cs @ [OnTerm (ITermDisconnect (of_nat z))]) b1" by (auto simp: ends_def)
    have "ends (bindE (getPtr (iterm_tbl b) z) (\<lambda>iterm. bindE (dbITerm_disconnect z b) (disconnect_iterms f (next_net_iterm iterm))))
        (after (unlink_iterms (z # zs) s) (cs @ map (\<lambda>i. OnTerm (ITermDisconnect (of_nat i))) (z # zs)))"
    proof (rule ends_bind [OF after_reads(1) [OF Cons.prems(1) t(3)]], rule ends_bind [OF d])
      fix x b2 assume "x = t" "after (iterm_unlinked z s) (cs @ [OnTerm (ITermDisconnect (of_nat z))]) b2"
      then show "ends (disconnect_iterms f (next_net_iterm x) b2)
          (after (unlink_iterms (z # zs) s) (cs @ map (\<lambda>i. OnTerm (ITermDisconnect (of_nat i))) (z # zs)))" using IH by fastforce
    qed
    then have "ends (disconnect_iterms fuel (n_iterms a) b) (after (unlink_iterms (z # zs) s) (cs @ map (\<lambda>i. OnTerm (ITermDisconnect (of_nat i))) (z # zs)))"
      using t(1,2) f(1) by (simp add: disconnect_iterms.simps [of "Suc f"])
    then show ?case using IH [OF b1] unfolding fold_simps by (rule_tac conjI) (assumption, elim conjE, assumption)
  qed
  then show "ends (disconnect_iterms fuel (n_iterms a) b) (after (unlink_iterms zs s) (cs @ map (\<lambda>i. OnTerm (ITermDisconnect (of_nat i))) zs))"
    "iterms_listed (unlink_iterms zs s) (L(n := []))" by simp_all
qed

lemma bterm_gone_nets: "s_nets (bterm_gone i s) = s_nets (bterm_unlinked i s)"
  by (simp add: bterm_gone_def Let_def)

lemma destroy_bterms_ends:
  assumes "after s cs b" "bterms_listed s L" "s_nets s n = Some a" "L n = zs" "length zs \<le> fuel"
  shows "ends (destroy_bterms fuel (n_bterms a) b) (after (bterms_gone zs s) (cs @ map (\<lambda>i. OnTerm (BTermDestroy (of_nat i))) zs))"
    "bterms_listed (bterms_gone zs s) (L(n := []))"
proof -
  have "ends (destroy_bterms fuel (n_bterms a) b) (after (bterms_gone zs s) (cs @ map (\<lambda>i. OnTerm (BTermDestroy (of_nat i))) zs))
    \<and> bterms_listed (bterms_gone zs s) (L(n := []))"
    using assms
  proof (induction zs arbitrary: s cs b L a fuel)
    case Nil
    have "n_bterms a = 0" using dseg_head [OF listedD(3) [OF Nil(2,3)]] Nil(4) by simp
    then show ?case using Nil by (simp add: destroy_bterms.simps fun_upd_idem)
  next
    case (Cons z zs)
    note l = listedD [OF Cons.prems(2)]
    have n0: "n \<noteq> 0" using l(1) Cons.prems(3) by (cases n) auto
    obtain t where t: "n_bterms a = z" "z \<noteq> 0" "s_bterms s z = Some t"
      using l(3) [OF Cons.prems(3)] Cons.prems(4) by auto
    have own: "bt_net t = n" using l(5) [OF Cons.prems(3), of z] Cons.prems(4) t(3) by simp
    obtain f where f: "fuel = Suc f" "length zs \<le> f" using Cons.prems(5) by (cases fuel) auto
    note d = bterm_destroy_ends [OF Cons.prems(1,2) t(3)]
    have l': "bterms_listed (bterm_gone z s) (L(n := zs))" using d(2) own n0 Cons.prems(4) by simp
    have a': "s_nets (bterm_gone z s) n = Some (a\<lparr>n_bterms := next_bterm t\<rparr>)"
      using t own n0 Cons.prems(3) by (simp add: bterm_gone_nets bterm_unlinked_def)
    have hn: "n_bterms (a\<lparr>n_bterms := next_bterm t\<rparr>) = next_bterm t" by simp
    have IH: "ends (destroy_bterms f (next_bterm t) b1) (after (bterms_gone zs (bterm_gone z s))
          (cs1 @ map (\<lambda>i. OnTerm (BTermDestroy (of_nat i))) zs))
        \<and> bterms_listed (bterms_gone zs (bterm_gone z s)) (L(n := []))"
      if "after (bterm_gone z s) cs1 b1" for cs1 b1
      using Cons.IH [OF that l' a' fun_upd_same f(2)] unfolding fun_upd_upd hn .
    obtain b1 where b1: "after (bterm_gone z s) (cs @ [OnTerm (BTermDestroy (of_nat z))]) b1" using d(1) by (auto simp: ends_def)
    have "ends (bindE (getPtr (bterm_tbl b) z) (\<lambda>bterm. bindE (dbBTerm_destroy z b) (destroy_bterms f (next_bterm bterm))))
        (after (bterms_gone (z # zs) s) (cs @ map (\<lambda>i. OnTerm (BTermDestroy (of_nat i))) (z # zs)))"
    proof (rule ends_bind [OF after_reads(3) [OF Cons.prems(1) t(3)]])
      fix x assume "x\<lparr>next_entry := 0\<rparr> = t"
      then have x: "next_bterm x = next_bterm t" by auto
      show "ends (bindE (dbBTerm_destroy z b) (destroy_bterms f (next_bterm x)))
        (after (bterms_gone (z # zs) s) (cs @ map (\<lambda>i. OnTerm (BTermDestroy (of_nat i))) (z # zs)))"
        unfolding x by (rule ends_bind [OF d(1)]) (use IH in fastforce)
    qed
    then have "ends (destroy_bterms fuel (n_bterms a) b) (after (bterms_gone (z # zs) s) (cs @ map (\<lambda>i. OnTerm (BTermDestroy (of_nat i))) (z # zs)))"
      using t(1,2) f(1) by (simp add: destroy_bterms.simps [of "Suc f"])
    then show ?case using IH [OF b1] unfolding fold_simps by (rule_tac conjI) (assumption, elim conjE, assumption)
  qed
  then show "ends (destroy_bterms fuel (n_bterms a) b) (after (bterms_gone zs s) (cs @ map (\<lambda>i. OnTerm (BTermDestroy (of_nat i))) zs))"
    "bterms_listed (bterms_gone zs s) (L(n := []))" by simp_all
qed

lemma unlink_iterms_same:
  "same_objects s (unlink_iterms zs s)" "s_bterms (unlink_iterms zs s) = s_bterms s"
  "map_option n_bterms (s_nets (unlink_iterms zs s) x) = map_option n_bterms (s_nets s x)"
proof -
  show "same_objects s (unlink_iterms zs s)"
  proof (induction zs arbitrary: s)
    case (Cons z zs)
    show ?case using same_objects_trans [OF unlinked_same(1) Cons.IH] by simp
  qed simp
  show "s_bterms (unlink_iterms zs s) = s_bterms s" by (induction zs arbitrary: s) (simp_all add: unlinked_same)
  show "map_option n_bterms (s_nets (unlink_iterms zs s) x) = map_option n_bterms (s_nets s x)"
    by (induction zs arbitrary: s) (simp_all add: unlinked_same)
qed

definition same_but_bterms :: "nstate \<Rightarrow> nstate \<Rightarrow> bool" where
  "same_but_bterms s s' \<longleftrightarrow> (\<forall>x. map_option entry_key (s_nets s' x) = map_option entry_key (s_nets s x))
     \<and> (\<forall>x. map_option n_iterms (s_nets s' x) = map_option n_iterms (s_nets s x)) \<and> s_iterms s' = s_iterms s
     \<and> s_insts s' = s_insts s \<and> s_hdrs s' = s_hdrs s \<and> c_nets s' = c_nets s \<and> c_iterms s' = c_iterms s
     \<and> c_insts s' = c_insts s \<and> c_hdrs s' = c_hdrs s \<and> s_journal s' = s_journal s \<and> s_pending s' = s_pending s"

lemma same_but_bterms_trans: "same_but_bterms s s' \<Longrightarrow> same_but_bterms s' s'' \<Longrightarrow> same_but_bterms s s''"
  by (simp add: same_but_bterms_def)

lemma bterm_gone_same: "same_but_bterms s (bterm_gone i s)"
  using unlinked_same(2) [of s i] unlinked_same(4,6) [of i s] by (simp add: same_but_bterms_def bterm_gone_def Let_def same_objects_def)

lemma bterms_gone_same: "same_but_bterms s (bterms_gone zs s)"
proof (induction zs arbitrary: s)
  case (Cons z zs)
  show ?case using same_but_bterms_trans [OF bterm_gone_same Cons.IH] by simp
qed (simp add: same_but_bterms_def)

definition net_gone :: "(nat \<Rightarrow> nat list) \<Rightarrow> (nat \<Rightarrow> nat list) \<Rightarrow> nat \<Rightarrow> nstate \<Rightarrow> nstate" where
  "net_gone Li Lb n s = (let s' = bterms_gone (Lb n) (unlink_iterms (Li n) s) in s'\<lparr>s_nets := (s_nets s')(n := None)\<rparr>)"

definition net_destroy_changes :: "(nat \<Rightarrow> nat list) \<Rightarrow> (nat \<Rightarrow> nat list) \<Rightarrow> nat \<Rightarrow> change list" where
  "net_destroy_changes Li Lb n = map (\<lambda>i. OnTerm (ITermDisconnect (of_nat i))) (Li n)
     @ map (\<lambda>i. OnTerm (BTermDestroy (of_nat i))) (Lb n) @ [OnNet (NetDestroy (of_nat n))]"

lemma iterms_listed_bterms_gone: "iterms_listed s L \<Longrightarrow> iterms_listed (bterms_gone zs s) L"
  using bterms_gone_same [of s zs] by (auto simp: same_but_bterms_def intro: listed_cong)

lemma bterms_listed_unlink_iterms: "bterms_listed s L \<Longrightarrow> bterms_listed (unlink_iterms zs s) L"
  by (erule listed_cong) (simp_all add: unlink_iterms_same)

lemma net_destroy_ends:
  assumes "after s cs b" "iterms_listed s Li" "bterms_listed s Lb" "s_nets s n = Some a"
  shows "ends (dbNet_destroy n b) (after (net_gone Li Lb n s) (cs @ net_destroy_changes Li Lb n))"
    "iterms_listed (net_gone Li Lb n s) (Li(n := []))" "bterms_listed (net_gone Li Lb n s) (Lb(n := []))"
proof -
  let ?s1 = "unlink_iterms (Li n) s" let ?s2 = "bterms_gone (Lb n) ?s1"
  let ?c1 = "cs @ map (\<lambda>i. OnTerm (ITermDisconnect (of_nat i))) (Li n)"
  let ?c2 = "?c1 @ map (\<lambda>i. OnTerm (BTermDestroy (of_nat i))) (Lb n)"
  let ?c3 = "?c2 @ [OnNet (NetDestroy (of_nat n))]"
  have len: "length (Li n) \<le> chain_fuel (iterm_tbl b)"
    using dseg_short [of _ _ "iterm_tbl b" _ _ "Li n"] listedD(3,4) [OF assms(2,4)] after_index(10) [OF assms(1)] by fastforce
  note d = disconnect_iterms_ends [OF assms(1,2,4) refl len]
  obtain a1 where a1: "s_nets ?s1 n = Some a1" using same_objectsD(10) [OF unlink_iterms_same(1) assms(4)] by blast
  have l1: "bterms_listed ?s1 Lb" by (rule bterms_listed_unlink_iterms [OF assms(3)])
  have e: "ends (destroy_bterms (chain_fuel (bterm_tbl b1)) (n_bterms a1) b1) (after ?s2 ?c2)" "bterms_listed ?s2 (Lb(n := []))" if "after ?s1 ?c1 b1" for b1
  proof -
    have "length (Lb n) \<le> chain_fuel (bterm_tbl b1)"
      using dseg_short_view [of _ _ "bterm_tbl b1" _ _ "Lb n"] listedD(3,4) [OF l1 a1] after_index(6) [OF that] by fastforce
    from destroy_bterms_ends [OF that l1 a1 refl this]
    show "ends (destroy_bterms (chain_fuel (bterm_tbl b1)) (n_bterms a1) b1) (after ?s2 ?c2)" "bterms_listed ?s2 (Lb(n := []))" .
  qed
  obtain a2 where a2: "s_nets ?s2 n = Some a2"
    using bterms_gone_same [of ?s1 "Lb n"] a1 by (cases "s_nets ?s2 n") (auto simp: same_but_bterms_def dest: spec [of _ n])
  show "ends (dbNet_destroy n b) (after (net_gone Li Lb n s) (cs @ net_destroy_changes Li Lb n))"
    unfolding dbNet_destroy_def
  proof (rule ends_bind [OF after_reads(2) [OF assms(1,4)]])
    fix net assume "net\<lparr>next_entry := 0\<rparr> = a"
    then have net: "n_iterms net = n_iterms a" by auto
    show "ends (bindE (disconnect_iterms (chain_fuel (iterm_tbl b)) (n_iterms net) b) (\<lambda>b. bindE (getPtr (net_tbl b) n) (\<lambda>net.
       bindE (destroy_bterms (chain_fuel (bterm_tbl b)) (n_bterms net) b) (\<lambda>b. bindE (write_journal (log_net_destroy (of_nat n)) b) (\<lambda>b.
       bindE (name_remove n (net_hash b, net_tbl b)) (\<lambda>(h, t). bindE (dbTable_destroy n t) (\<lambda>t. Inr (b\<lparr>net_hash := h, net_tbl := t\<rparr>))))))))
       (after (net_gone Li Lb n s) (cs @ net_destroy_changes Li Lb n))"
      unfolding net
    proof (rule ends_bind [OF d(1)], rule ends_bind [OF after_reads(2) [OF _ a1]], assumption)
      fix b1 net1 assume b1: "after ?s1 ?c1 b1" and "net1\<lparr>next_entry := 0\<rparr> = a1"
      then have net1: "n_bterms net1 = n_bterms a1" by auto
      show "ends (bindE (destroy_bterms (chain_fuel (bterm_tbl b1)) (n_bterms net1) b1) (\<lambda>b. bindE (write_journal (log_net_destroy (of_nat n)) b) (\<lambda>b.
         bindE (name_remove n (net_hash b, net_tbl b)) (\<lambda>(h, t). bindE (dbTable_destroy n t) (\<lambda>t. Inr (b\<lparr>net_hash := h, net_tbl := t\<rparr>))))))
         (after (net_gone Li Lb n s) (cs @ net_destroy_changes Li Lb n))"
        unfolding net1
      proof (rule ends_bind [OF e(1) [OF b1]], rule ends_bind [OF after_writes(8)], assumption)
        fix b2 assume "after ?s2 ?c3 b2"
        from gone_net [OF this a2] show "ends (bindE (name_remove n (net_hash b2, net_tbl b2)) (\<lambda>(h, t).
          bindE (dbTable_destroy n t) (\<lambda>t. Inr (b2\<lparr>net_hash := h, net_tbl := t\<rparr>)))) (after (net_gone Li Lb n s) (cs @ net_destroy_changes Li Lb n))"
          by (force simp: ends_def net_gone_def Let_def net_destroy_changes_def)
      qed
    qed
  qed
  obtain b1 where b1: "after ?s1 ?c1 b1" using d(1) by (auto simp: ends_def)
  show "iterms_listed (net_gone Li Lb n s) (Li(n := []))"
    using listed_gone_net [OF iterms_listed_bterms_gone [OF d(2)] a2] by (simp add: net_gone_def Let_def)
  show "bterms_listed (net_gone Li Lb n s) (Lb(n := []))"
    using listed_gone_net [OF e(2) [OF b1] a2] by (simp add: net_gone_def Let_def)
qed

end
