(* ===== verification/Odb_Net_Insts.thy ===== *)
theory Odb_Net_Insts
  imports Odb_Net_Ops
begin

section \<open>Instances\<close>

text \<open>
  Creation and destruction of instances on the meaning of a netlist: the header of the master is looked up or
  made, counts the instances and goes with the last one; the terminals of an instance are its own.
\<close>

subsection \<open>Libraries and headers\<close>

definition libs_ok :: "libs \<Rightarrow> bool" where
  \<comment> \<open>a master is found under its library and its own id, of 32 bits; its number is its own; the terminals of a frozen master
      have different names and are numbered in their order (\<open>dbMaster::setFrozen\<close>)\<close>
  "libs_ok libs \<longleftrightarrow> (\<forall>l i m. libs l i = Some m \<longrightarrow> m_lib m = l \<and> m_oid m = i \<and> l < 2 ^ 32 \<and> i < 2 ^ 32 \<and> (m_frozen m \<longrightarrow>
         distinct (map mt_name (m_mterms m)) \<and> map mt_order_id (m_mterms m) = [0..<length (m_mterms m)]))
     \<and> (\<forall>l i m l' i' m'. libs l i = Some m \<and> libs l' i' = Some m' \<and> m_id m = m_id m' \<longrightarrow> m = m')"

definition in_libs :: "libs \<Rightarrow> lib_master \<Rightarrow> bool" where
  "in_libs libs m \<longleftrightarrow> libs (m_lib m) (m_oid m) = Some m"

definition hdr_of :: "libs \<Rightarrow> lib_master \<Rightarrow> hdr_obj \<Rightarrow> bool" where
  \<comment> \<open>a header of this master\<close>
  "hdr_of libs m hr \<longleftrightarrow> libs (h_lib hr) (h_master hr) = Some m \<and> m_frozen m \<and> m_id m = entry_key hr \<and> h_mterms hr = map mt_oid (m_mterms m)"

definition new_hdr_obj :: "lib_master \<Rightarrow> hdr_obj" where
  "new_hdr_obj m = \<lparr>entry_key = m_id m, next_entry = 0, h_lib = m_lib m, h_master = m_oid m,
     h_mterms = map mt_oid (m_mterms m), inst_cnt = 0\<rparr>"

lemma hdr_of_new: "in_libs libs m \<Longrightarrow> m_frozen m \<Longrightarrow> hdr_of libs m (new_hdr_obj m)"
  by (simp add: in_libs_def hdr_of_def new_hdr_obj_def)

lemma hdr_of_id: "libs_ok libs \<Longrightarrow> hdr_of libs m hr \<Longrightarrow> in_libs libs m' \<Longrightarrow> entry_key hr = m_id m' \<Longrightarrow> m = m'"
  unfolding libs_ok_def hdr_of_def in_libs_def by metis

definition has_inst :: "nstate \<Rightarrow> nat \<Rightarrow> nat set" where
  \<comment> \<open>the instances that use a header\<close>
  "has_inst s h = {x. \<exists>y. s_insts s x = Some y \<and> i_inst_hdr y = h}"

definition hdrs_ok :: "libs \<Rightarrow> nstate \<Rightarrow> bool" where
  "hdrs_ok libs s \<longleftrightarrow>
     (\<forall>x y. s_insts s x = Some y \<longrightarrow> (\<exists>hr. s_hdrs s (i_inst_hdr y) = Some hr \<and> length (h_mterms hr) = length (i_iterms y)))
   \<and> (\<forall>h hr. s_hdrs s h = Some hr \<longrightarrow> (\<exists>m. hdr_of libs m hr) \<and> inst_cnt hr = int (card (has_inst s h)))"

definition inst_iterms_ok :: "nstate \<Rightarrow> bool" where
  \<comment> \<open>an instance and its terminals name each other\<close>
  "inst_iterms_ok s \<longleftrightarrow>
     (\<forall>x y k. s_insts s x = Some y \<longrightarrow> k < length (i_iterms y) \<longrightarrow>
        (\<exists>t. s_iterms s (i_iterms y ! k) = Some t \<and> it_inst t = x \<and> it_mterm_idx t = k))
   \<and> (\<forall>i t. s_iterms s i = Some t \<longrightarrow>
        (\<exists>y. s_insts s (it_inst t) = Some y \<and> it_mterm_idx t < length (i_iterms y) \<and> i_iterms y ! it_mterm_idx t = i))"

lemma hdrs_okD:
  assumes "hdrs_ok libs s"
  shows "s_insts s x = Some y \<Longrightarrow> \<exists>hr. s_hdrs s (i_inst_hdr y) = Some hr \<and> length (h_mterms hr) = length (i_iterms y)"
    "s_hdrs s h = Some hr \<Longrightarrow> \<exists>m. hdr_of libs m hr" "s_hdrs s h = Some hr \<Longrightarrow> inst_cnt hr = int (card (has_inst s h))"
  using assms unfolding hdrs_ok_def by blast+

lemma inst_iterms_okD:
  assumes "inst_iterms_ok s"
  shows "s_insts s x = Some y \<Longrightarrow> k < length (i_iterms y) \<Longrightarrow> \<exists>t. s_iterms s (i_iterms y ! k) = Some t \<and> it_inst t = x \<and> it_mterm_idx t = k"
    "s_iterms s i = Some t \<Longrightarrow> \<exists>y. s_insts s (it_inst t) = Some y \<and> it_mterm_idx t < length (i_iterms y) \<and> i_iterms y ! it_mterm_idx t = i"
  using assms unfolding inst_iterms_ok_def by blast+

lemma inst_iterms_distinct: "inst_iterms_ok s \<Longrightarrow> s_insts s x = Some y \<Longrightarrow> distinct (i_iterms y)"
  unfolding distinct_conv_nth using inst_iterms_okD(1) [of s x y] by (metis option.inject)

lemma hdrs_ok_cong: "s_insts s' = s_insts s \<Longrightarrow> s_hdrs s' = s_hdrs s \<Longrightarrow> hdrs_ok libs s' = hdrs_ok libs s"
  by (simp add: hdrs_ok_def has_inst_def)

lemma same_insts_ok:
  assumes "same_objects s s'"
  shows "hdrs_ok libs s \<Longrightarrow> hdrs_ok libs s'" "inst_iterms_ok s \<Longrightarrow> inst_iterms_ok s'"
proof -
  note d = same_objectsD [OF assms] note e = same_objectsD [OF same_objects_sym [OF assms]]
  show "hdrs_ok libs s \<Longrightarrow> hdrs_ok libs s'" using hdrs_ok_cong d(1,2) by blast
  show "inst_iterms_ok s'" if i: "inst_iterms_ok s"
    unfolding inst_iterms_ok_def d(1)
  proof (intro conjI allI impI)
    fix x y k assume "s_insts s x = Some y" "k < length (i_iterms y)"
    then show "\<exists>t. s_iterms s' (i_iterms y ! k) = Some t \<and> it_inst t = x \<and> it_mterm_idx t = k"
      using inst_iterms_okD(1) [OF i] d(12) by metis
  next
    fix i t assume "s_iterms s' i = Some t"
    then show "\<exists>y. s_insts s (it_inst t) = Some y \<and> it_mterm_idx t < length (i_iterms y) \<and> i_iterms y ! it_mterm_idx t = i"
      using inst_iterms_okD(2) [OF that, of i] e(12) [of i t] by metis
  qed
qed

lemma has_inst_finite: "after s cs b \<Longrightarrow> finite (has_inst s h)"
proof -
  assume a: "after s cs b"
  have "has_inst s h \<subseteq> dom (s_insts s)" by (auto simp: has_inst_def)
  also have "dom (s_insts s) = ids (inst_tbl b)" using dom_view [of "inst_tbl b"] after_index(4) [OF a] by simp
  finally show ?thesis by (rule finite_subset) simp
qed

subsection \<open>The header of a master\<close>

definition hdr_room :: "lib_master \<Rightarrow> nstate \<Rightarrow> bool" where
  \<comment> \<open>the master has a header, or one can be made\<close>
  "hdr_room m s \<longleftrightarrow> has_key (s_hdrs s) (m_id m) \<or> (m_frozen m \<and> c_hdrs s + 128 \<le> 2 ^ 31)"

definition with_hdr :: "lib_master \<Rightarrow> nat \<Rightarrow> nstate \<Rightarrow> nstate \<Rightarrow> bool" where
  "with_hdr m h s s' \<longleftrightarrow> (if has_key (s_hdrs s) (m_id m) then s' = s \<and> (\<exists>hr. s_hdrs s h = Some hr \<and> entry_key hr = m_id m)
     else m_frozen m \<and> h \<noteq> 0 \<and> s_hdrs s h = None \<and> (\<exists>c \<le> c_hdrs s + 128. s' = s\<lparr>s_hdrs := (s_hdrs s)(h \<mapsto> new_hdr_obj m), c_hdrs := c\<rparr>))"

lemma need_hdr_ends:
  assumes "after s cs b" "hdr_room m s"
  shows "ends (need_hdr m b) (\<lambda>(h, b'). \<exists>s'. with_hdr m h s s' \<and> after s' cs b')"
proof (cases "has_key (s_hdrs s) (m_id m)")
  case True
  then obtain h hr where h: "s_hdrs s h = Some hr" "entry_key hr = m_id m" by (auto simp: has_key_def)
  have "h \<noteq> 0" using after_small(5) [OF assms(1) h(1)] by simp
  then show ?thesis using h after_finds(1) [OF assms(1) h] assms(1) True by (auto simp: need_hdr_def with_hdr_def)
next
  case False
  have r: "m_frozen m" "c_hdrs s + 128 \<le> 2 ^ 31" using assms(2) False by (simp_all add: hdr_room_def)
  have k: "\<not> has_key (s_hdrs s) (entry_key (new_hdr_obj m))" "next_entry (new_hdr_obj m) = 0" using False by (simp_all add: new_hdr_obj_def)
  have "ends (bindE (dbTable_create (new_hdr_obj m) (inst_hdr_tbl b)) (\<lambda>(oid, t).
      bindE (id_insert oid (inst_hdr_hash b, t)) (\<lambda>(h, t). Inr (oid, b\<lparr>inst_hdr_hash := h, inst_hdr_tbl := t\<rparr>))))
    (\<lambda>(h, b'). h \<noteq> 0 \<and> (\<exists>s'. with_hdr m h s s' \<and> after s' cs b'))"
  proof (rule ends_bind [OF new_hdr [OF assms(1) k r(2)]], clarify, rule ends_bind, assumption, clarify)
    fix e h t c assume e: "s_hdrs s e = None" "0 < e" "c \<le> c_hdrs s + 128"
      and a: "after (s\<lparr>s_hdrs := (s_hdrs s)(e \<mapsto> new_hdr_obj m), c_hdrs := c\<rparr>) cs (b\<lparr>inst_hdr_hash := h, inst_hdr_tbl := t\<rparr>)"
    have "with_hdr m e s (s\<lparr>s_hdrs := (s_hdrs s)(e \<mapsto> new_hdr_obj m), c_hdrs := c\<rparr>)"
      using e False r(1) by (auto simp: with_hdr_def)
    then show "ends (Inr (e, b\<lparr>inst_hdr_hash := h, inst_hdr_tbl := t\<rparr>)) (\<lambda>(h, b'). h \<noteq> 0 \<and> (\<exists>s'. with_hdr m h s s' \<and> after s' cs b'))"
      using a e(2) by auto
  qed
  then have "ends (dbInstHdr_create m b) (\<lambda>(h, b'). h \<noteq> 0 \<and> (\<exists>s'. with_hdr m h s s' \<and> after s' cs b'))"
    using False r(1) by (simp add: dbInstHdr_create_def after_members [OF assms(1)] new_hdr_obj_def)
  then show ?thesis using after_finds(2) [OF assms(1) False] by (auto simp: need_hdr_def ends_def)
qed

definition hdr_dropped :: "nat \<Rightarrow> nstate \<Rightarrow> nstate" where
  "hdr_dropped h s = (case s_hdrs s h of None \<Rightarrow> s | Some hr \<Rightarrow>
     s\<lparr>s_hdrs := (s_hdrs s)(h := if inst_cnt hr = 1 then None else Some (hr\<lparr>inst_cnt := inst_cnt hr - 1\<rparr>))\<rparr>)"

lemma drop_hdr_ends:
  assumes "after s cs b" "s_hdrs s h = Some hr" "entry_key hr = k"
  shows "ends (drop_hdr k b) (after (hdr_dropped h s) cs)"
proof -
  have h0: "h \<noteq> 0" using after_small(5) [OF assms(1,2)] by simp
  let ?hr = "hr\<lparr>inst_cnt := inst_cnt hr - 1\<rparr>" let ?s1 = "s\<lparr>s_hdrs := (s_hdrs s)(h \<mapsto> ?hr)\<rparr>"
  have "ends (bindE (mod_hdr h (\<lambda>h. h\<lparr>inst_cnt := inst_cnt h - 1\<rparr>) b) (\<lambda>b. bindE (getPtr (inst_hdr_tbl b) h) (\<lambda>x.
       if inst_cnt x = 0 then dbInstHdr_destroy h b else Inr b))) (after (hdr_dropped h s) cs)"
  proof (rule ends_bind [OF after_mods(5) [OF assms(1,2)]])
    fix b1 assume b1: "after ?s1 cs b1"
    have h1: "s_hdrs ?s1 h = Some ?hr" by simp
    show "ends (bindE (getPtr (inst_hdr_tbl b1) h) (\<lambda>x. if inst_cnt x = 0 then dbInstHdr_destroy h b1 else Inr b1)) (after (hdr_dropped h s) cs)"
    proof (rule ends_bind [OF after_reads(5) [OF b1 h1]])
      fix x assume "x\<lparr>next_entry := 0\<rparr> = ?hr"
      then have "inst_cnt (x\<lparr>next_entry := 0\<rparr>) = inst_cnt ?hr" by (rule arg_cong)
      then have x: "inst_cnt x = inst_cnt hr - 1" by simp
      show "ends (if inst_cnt x = 0 then dbInstHdr_destroy h b1 else Inr b1) (after (hdr_dropped h s) cs)"
      proof (cases "inst_cnt hr = 1")
        case True
        have d: "ends (bindE (id_remove h (inst_hdr_hash b1, inst_hdr_tbl b1)) (\<lambda>(hs, t).
            bindE (dbTable_destroy h t) (\<lambda>t. Inr (b1\<lparr>inst_hdr_hash := hs, inst_hdr_tbl := t\<rparr>)))) (after (hdr_dropped h s) cs)"
          using gone_hdr [OF b1 h1] assms(2) True by (force simp: ends_def hdr_dropped_def)
        have "ends (dbInstHdr_destroy h b1) (after (hdr_dropped h s) cs)"
          unfolding dbInstHdr_destroy_def
        proof (rule ends_bind [OF after_reads(5) [OF b1 h1]])
          fix x' assume "x'\<lparr>next_entry := 0\<rparr> = ?hr"
          then have "inst_cnt (x'\<lparr>next_entry := 0\<rparr>) = inst_cnt ?hr" by (rule arg_cong)
          then have "inst_cnt x' = 0" using True by simp
          then show "ends (if inst_cnt x' \<noteq> 0 then Inl Abort else bindE (id_remove h (inst_hdr_hash b1, inst_hdr_tbl b1)) (\<lambda>(hs, t).
            bindE (dbTable_destroy h t) (\<lambda>t. Inr (b1\<lparr>inst_hdr_hash := hs, inst_hdr_tbl := t\<rparr>)))) (after (hdr_dropped h s) cs)"
            using d by simp
        qed
        then show ?thesis using x True by simp
      next
        case False
        then show ?thesis using x b1 assms(2) by (simp add: hdr_dropped_def)
      qed
    qed
  qed (simp add: keeps_entry_def)
  then show ?thesis using after_finds(1) [OF assms] h0 by (simp add: drop_hdr_def)
qed

subsection \<open>Creation\<close>

definition new_iterm_obj :: "nat \<Rightarrow> nat \<Rightarrow> iterm_obj" where
  "new_iterm_obj x k = \<lparr>it_net = 0, it_inst = x, it_mterm_idx = k, next_net_iterm = 0, prev_net_iterm = 0\<rparr>"

text \<open>\<open>with_iterms x k js s s'\<close>: the instance \<open>x\<close> got the new terminals \<open>js\<close> from index \<open>k\<close> on.\<close>

definition with_iterms :: "nat \<Rightarrow> nat \<Rightarrow> nat list \<Rightarrow> nstate \<Rightarrow> nstate \<Rightarrow> bool" where
  "with_iterms x k js s s' \<longleftrightarrow> distinct js \<and> 0 \<notin> set js \<and> (\<forall>i \<in> set js. s_iterms s i = None)
     \<and> (\<forall>i < length js. s_iterms s' (js ! i) = Some (new_iterm_obj x (k + i)))
     \<and> (\<forall>i. i \<notin> set js \<longrightarrow> s_iterms s' i = s_iterms s i)
     \<and> c_iterms s' \<le> c_iterms s + 128 * length js
     \<and> (\<forall>L. iterms_listed s L \<longrightarrow> iterms_listed s' L)
     \<and> s' = s\<lparr>s_iterms := s_iterms s', c_iterms := c_iterms s',
             s_insts := (s_insts s)(x := map_option (\<lambda>y. y\<lparr>i_iterms := take k (i_iterms y) @ js @ drop (k + length js) (i_iterms y)\<rparr>) (s_insts s x))\<rparr>"

lemma with_iterms_nil: "s_insts s x = Some y \<Longrightarrow> with_iterms x k [] s s"
  by (simp add: with_iterms_def fun_upd_idem)

lemma with_iterms_Cons:
  assumes "s_iterms s e = None" "e \<noteq> 0" "c \<le> c_iterms s + 128" "s_insts s x = Some y" "k < length (i_iterms y)"
    and "s1 = s\<lparr>s_iterms := (s_iterms s)(e \<mapsto> new_iterm_obj x k), c_iterms := c, s_insts := (s_insts s)(x \<mapsto> y\<lparr>i_iterms := (i_iterms y)[k := e]\<rparr>)\<rparr>"
    and "with_iterms x (Suc k) js s1 s'"
  shows "with_iterms x k (e # js) s s'"
proof -
  note w = assms(7) [unfolded with_iterms_def]
  have e: "e \<notin> set js" using w assms(6) by auto
  have s': "s_iterms s' e = Some (new_iterm_obj x k)" using w e assms(6) by simp
  have l: "iterms_listed s' L" if "iterms_listed s L" for L
  proof -
    have "iterms_listed s1 L" using listed_new_term [OF that assms(1,2)] assms(6) by (simp add: new_iterm_obj_def)
    then show ?thesis using w by blast
  qed
  have i: "take (Suc k) ((i_iterms y)[k := e]) @ js @ drop (Suc k + length js) ((i_iterms y)[k := e])
      = take k (i_iterms y) @ (e # js) @ drop (k + length (e # js)) (i_iterms y)"
    using assms(5) by (simp add: take_Suc_conv_app_nth)
  have "s' = s1\<lparr>s_iterms := s_iterms s', c_iterms := c_iterms s',
      s_insts := (s_insts s1)(x := map_option (\<lambda>y. y\<lparr>i_iterms := take (Suc k) (i_iterms y) @ js @ drop (Suc k + length js) (i_iterms y)\<rparr>) (s_insts s1 x))\<rparr>"
    using w by blast
  also have "\<dots> = s\<lparr>s_iterms := s_iterms s', c_iterms := c_iterms s',
      s_insts := (s_insts s)(x := map_option (\<lambda>y. y\<lparr>i_iterms := take k (i_iterms y) @ (e # js) @ drop (k + length (e # js)) (i_iterms y)\<rparr>) (s_insts s x))\<rparr>"
    using i by (simp add: assms(4,6))
  finally have eq: "s' = s\<lparr>s_iterms := s_iterms s', c_iterms := c_iterms s',
      s_insts := (s_insts s)(x := map_option (\<lambda>y. y\<lparr>i_iterms := take k (i_iterms y) @ (e # js) @ drop (k + length (e # js)) (i_iterms y)\<rparr>) (s_insts s x))\<rparr>" .
  have old: "s_iterms s j = None" if "j \<in> set js" for j using w that assms(6) by (auto split: if_splits)
  have new: "s_iterms s' ((e # js) ! i) = Some (new_iterm_obj x (k + i))" if "i < length (e # js)" for i
    using w s' that by (cases i) auto
  have others: "s_iterms s' j = s_iterms s j" if "j \<notin> set (e # js)" for j using w that assms(6) by auto
  have "c_iterms s' \<le> c_iterms s + 128 * length (e # js)" using w assms(3,6) by simp
  then show ?thesis unfolding with_iterms_def
    using w e assms(1,2) old new others l eq by (intro conjI) (auto simp del: nth_Cons_Suc)
qed

lemma create_iterms_ends:
  assumes "after s cs b" "s_insts s x = Some y" "k + n = length (i_iterms y)" "c_iterms s + 128 * n \<le> 2 ^ 31"
  shows "ends (foldE (create_iterm x) [k..<k + n] b) (\<lambda>b'. \<exists>js s'. length js = n \<and> with_iterms x k js s s' \<and> after s' cs b')"
  using assms
proof (induction n arbitrary: s b k y)
  case 0
  then show ?case using with_iterms_nil [OF 0(2)] by fastforce
next
  case (Suc n)
  have u: "[k..<k + Suc n] = k # [Suc k..<Suc k + n]" by (simp add: upt_conv_Cons)
  let ?Q = "\<lambda>b'. \<exists>js s'. length js = Suc n \<and> with_iterms x k js s s' \<and> after s' cs b'"
  have cap: "c_iterms s + 128 \<le> 2 ^ 31" using Suc.prems(4) by simp
  let ?y = "\<lambda>e. y\<lparr>i_iterms := (i_iterms y)[k := e]\<rparr>"
  let ?s1 = "\<lambda>e c. s\<lparr>s_iterms := (s_iterms s)(e \<mapsto> new_iterm_obj x k), c_iterms := c, s_insts := (s_insts s)(x \<mapsto> ?y e)\<rparr>"
  have c: "ends (create_iterm x k b) (\<lambda>b'. \<exists>e c. s_iterms s e = None \<and> e \<noteq> 0 \<and> c \<le> c_iterms s + 128 \<and> after (?s1 e c) cs b')"
    unfolding create_iterm_def new_iterm_obj_def [symmetric]
  proof (rule ends_bind [OF new_iterm [OF Suc.prems(1) cap]], clarify)
    fix e t c assume e: "s_iterms s e = None" "0 < e" "c \<le> c_iterms s + 128"
      and a: "after (s\<lparr>s_iterms := (s_iterms s)(e \<mapsto> new_iterm_obj x k), c_iterms := c\<rparr>) cs (b\<lparr>iterm_tbl := t\<rparr>)"
    have "keeps_entry (\<lambda>x. x\<lparr>i_iterms := (i_iterms x)[k := e]\<rparr>)" by (simp add: keeps_entry_def)
    from after_mods(4) [OF a _ this, of x y]
    have "ends (mod_inst x (\<lambda>x. x\<lparr>i_iterms := (i_iterms x)[k := e]\<rparr>) (b\<lparr>iterm_tbl := t\<rparr>)) (after (?s1 e c) cs)"
      using Suc.prems(2) by simp
    then show "ends (mod_inst x (\<lambda>x. x\<lparr>i_iterms := (i_iterms x)[k := e]\<rparr>) (b\<lparr>iterm_tbl := t\<rparr>))
        (\<lambda>b'. \<exists>e c. s_iterms s e = None \<and> e \<noteq> 0 \<and> c \<le> c_iterms s + 128 \<and> after (?s1 e c) cs b')"
      by (rule ends_mono) (use e in blast)
  qed
  have "ends (bindE (create_iterm x k b) (foldE (create_iterm x) [Suc k..<Suc k + n])) ?Q"
  proof (rule ends_bind [OF c], elim exE conjE)
    fix b1 e c assume e: "s_iterms s e = None" "e \<noteq> 0" "c \<le> c_iterms s + 128" and b1: "after (?s1 e c) cs b1"
    have y: "s_insts (?s1 e c) x = Some (?y e)" "Suc k + n = length (i_iterms (?y e))" "c_iterms (?s1 e c) + 128 * n \<le> 2 ^ 31"
      using e(3) Suc.prems(3,4) by simp_all
    show "ends (foldE (create_iterm x) [Suc k..<Suc k + n] b1) ?Q"
    proof (rule ends_mono [OF Suc.IH [OF b1 y]], elim exE conjE)
      fix b2 js s2 assume "length js = n" "with_iterms x (Suc k) js (?s1 e c) s2" "after s2 cs b2"
      then show "?Q b2" using with_iterms_Cons [OF e Suc.prems(2) _ refl, of k js s2] Suc.prems(3)
        by (intro exI [of _ "e # js"] exI [of _ s2]) simp
    qed
  qed
  then show ?case unfolding u by simp
qed

lemma with_hdr_ok:
  assumes "with_hdr m h s s1" "hdrs_ok libs s" "libs_ok libs" "in_libs libs m"
  shows "\<exists>hr. s_hdrs s1 h = Some hr \<and> hdr_of libs m hr" "hdrs_ok libs s1" "s_insts s1 = s_insts s" "s_iterms s1 = s_iterms s"
    "s_nets s1 = s_nets s" "s_bterms s1 = s_bterms s" "c_insts s1 = c_insts s" "c_iterms s1 = c_iterms s" "s_journal s1 = s_journal s"
proof -
  show "s_insts s1 = s_insts s" "s_iterms s1 = s_iterms s" "s_nets s1 = s_nets s" "s_bterms s1 = s_bterms s" "c_insts s1 = c_insts s"
    "c_iterms s1 = c_iterms s" "s_journal s1 = s_journal s"
    using assms(1) by (auto simp: with_hdr_def split: if_splits)
  show "\<exists>hr. s_hdrs s1 h = Some hr \<and> hdr_of libs m hr"
  proof (cases "has_key (s_hdrs s) (m_id m)")
    case True
    then obtain hr where hr: "s1 = s" "s_hdrs s h = Some hr" "entry_key hr = m_id m" using assms(1) by (auto simp: with_hdr_def)
    then show ?thesis using hdrs_okD(2) [OF assms(2) hr(2)] hdr_of_id [OF assms(3) _ assms(4) hr(3)] by auto
  next
    case False
    then have "s_hdrs s1 = (s_hdrs s)(h \<mapsto> new_hdr_obj m)" "m_frozen m" using assms(1) by (auto simp: with_hdr_def)
    then show ?thesis using hdr_of_new [OF assms(4)] by simp
  qed
  show "hdrs_ok libs s1"
  proof (cases "has_key (s_hdrs s) (m_id m)")
    case True
    then show ?thesis using assms(1,2) by (simp add: with_hdr_def)
  next
    case False
    then have h: "s_hdrs s1 = (s_hdrs s)(h \<mapsto> new_hdr_obj m)" "s_hdrs s h = None" "m_frozen m" using assms(1) by (auto simp: with_hdr_def)
    have no: "has_inst s h = {}" using hdrs_okD(1) [OF assms(2)] h(2) by (fastforce simp: has_inst_def)
    have i: "has_inst s1 x = has_inst s x" for x using \<open>s_insts s1 = s_insts s\<close> by (simp add: has_inst_def)
    show ?thesis unfolding hdrs_ok_def
    proof (intro conjI allI impI)
      fix x y assume "s_insts s1 x = Some y"
      then show "\<exists>hr. s_hdrs s1 (i_inst_hdr y) = Some hr \<and> length (h_mterms hr) = length (i_iterms y)"
        using hdrs_okD(1) [OF assms(2), of x y] h \<open>s_insts s1 = s_insts s\<close> by (cases "i_inst_hdr y = h") auto
    next
      fix x hr assume "s_hdrs s1 x = Some hr"
      then show "\<exists>m. hdr_of libs m hr" "inst_cnt hr = int (card (has_inst s1 x))"
        using hdrs_okD(2,3) [OF assms(2), of x hr] h hdr_of_new [OF assms(4)] i no
        by (auto split: if_splits simp: new_hdr_obj_def)
    qed
  qed
qed

definition inst_made :: "lib_master \<Rightarrow> string \<Rightarrow> nat \<Rightarrow> nstate \<Rightarrow> nstate \<Rightarrow> bool" where
  "inst_made m nm e s s' \<longleftrightarrow> (\<exists>h s1 hr c js. with_hdr m h s s1 \<and> s_hdrs s1 h = Some hr \<and> s_insts s e = None \<and> e \<noteq> 0 \<and> c \<le> c_insts s + 128
     \<and> length js = length (h_mterms hr)
     \<and> with_iterms e 0 js (s1\<lparr>c_insts := c, s_hdrs := (s_hdrs s1)(h \<mapsto> hr\<lparr>inst_cnt := inst_cnt hr + 1\<rparr>),
         s_insts := (s_insts s)(e \<mapsto> \<lparr>entry_key = nm, next_entry = 0, i_inst_hdr = h, i_iterms = replicate (length js) 0\<rparr>)\<rparr>) s')"

lemma inst_create_ends:
  assumes "after s cs b" "hdrs_ok libs s" "libs_ok libs" "in_libs libs m" "hdr_room m s" "c_insts s + 128 \<le> 2 ^ 31"
    and "c_iterms s + 128 * length (m_mterms m) \<le> 2 ^ 31" "string_ok (cstring nm)"
  shows "ends (dbInst_create m nm b) (\<lambda>(e, b').
     if has_key (s_insts s) nm then e = 0 \<and> (\<exists>h s1. with_hdr m h s s1 \<and> after s1 cs b')
     else e \<noteq> 0 \<and> (\<exists>s'. inst_made m nm e s s'
       \<and> after s' (cs @ [OnInst (InstCreate (of_nat (m_lib m)) (of_nat (m_oid m)) (cstring nm))]) b'))" (is "ends _ ?Q")
  unfolding dbInst_create_def
proof (rule ends_bind [OF need_hdr_ends [OF assms(1,5)]], clarify)
  fix h b1 s1 assume w: "with_hdr m h s s1" and b1: "after s1 cs b1"
  note k = with_hdr_ok [OF w assms(2-4)]
  let ?cs = "cs @ [OnInst (InstCreate (of_nat (m_lib m)) (of_nat (m_oid m)) (cstring nm))]"
  let ?x = "\<lparr>entry_key = nm, next_entry = 0, i_inst_hdr = h, i_iterms = []\<rparr>"
  let ?body = "bindE (write_journal (log_inst_create (of_nat (m_lib m)) (of_nat (m_oid m)) (cstring nm)) b1) (\<lambda>b.
         bindE (dbTable_create ?x (inst_tbl b)) (\<lambda>(oid, t).
         bindE (name_insert oid (inst_hash b, t)) (\<lambda>(hs, t).
         bindE (mod_hdr h (\<lambda>x. x\<lparr>inst_cnt := inst_cnt x + 1\<rparr>) (b\<lparr>inst_hash := hs, inst_tbl := t\<rparr>)) (\<lambda>b.
         bindE (getPtr (inst_hdr_tbl b) h) (\<lambda>x.
           let mterm_cnt = length (h_mterms x) in
           bindE (mod_inst oid (\<lambda>x. x\<lparr>i_iterms := replicate mterm_cnt 0\<rparr>) b) (\<lambda>b.
           bindE (foldE (create_iterm oid) [0..<mterm_cnt] b) (\<lambda>b. Inr (oid, b))))))))"
  show "ends (bindE (name_hasMember nm (inst_hash b1, inst_tbl b1)) (\<lambda>mem. if mem then Inr (0, b1) else ?body)) ?Q"
  proof (cases "has_key (s_insts s) nm")
    case True
    then show ?thesis using w b1 k(3) by (auto simp: after_members [OF b1])
  next
    case False
    obtain hr where hr: "s_hdrs s1 h = Some hr" "hdr_of libs m hr" using k(1) by blast
    have len: "length (h_mterms hr) = length (m_mterms m)" using hr(2) by (simp add: hdr_of_def)
    let ?n = "length (h_mterms hr)" let ?hr = "hr\<lparr>inst_cnt := inst_cnt hr + 1\<rparr>"
    have "ends ?body ?Q"
    proof (rule ends_bind [OF after_writes(9) [OF b1 assms(8)]])
      fix b2 assume b2: "after s1 ?cs b2"
      have nk: "\<not> has_key (s_insts s1) (entry_key ?x)" "c_insts s1 + 128 \<le> 2 ^ 31" using False k assms(6) by simp_all
      show "ends (bindE (dbTable_create ?x (inst_tbl b2)) (\<lambda>(oid, t).
         bindE (name_insert oid (inst_hash b2, t)) (\<lambda>(hs, t).
         bindE (mod_hdr h (\<lambda>x. x\<lparr>inst_cnt := inst_cnt x + 1\<rparr>) (b2\<lparr>inst_hash := hs, inst_tbl := t\<rparr>)) (\<lambda>b.
         bindE (getPtr (inst_hdr_tbl b) h) (\<lambda>x.
           let mterm_cnt = length (h_mterms x) in
           bindE (mod_inst oid (\<lambda>x. x\<lparr>i_iterms := replicate mterm_cnt 0\<rparr>) b) (\<lambda>b.
           bindE (foldE (create_iterm oid) [0..<mterm_cnt] b) (\<lambda>b. Inr (oid, b)))))))) ?Q"
      proof (rule ends_bind [OF new_inst [OF b2 nk(1) _ nk(2)]], simp, clarify, rule ends_bind, assumption, clarify)
        fix e t hs t' c
        assume e: "s_insts s1 e = None" "0 < e" and c: "c \<le> c_insts s1 + 128"
          and b3: "after (s1\<lparr>s_insts := (s_insts s1)(e \<mapsto> ?x), c_insts := c\<rparr>) ?cs (b2\<lparr>inst_hash := hs, inst_tbl := t'\<rparr>)"
        let ?s3 = "s1\<lparr>s_insts := (s_insts s1)(e \<mapsto> ?x), c_insts := c\<rparr>"
        let ?s4 = "?s3\<lparr>s_hdrs := (s_hdrs s1)(h \<mapsto> ?hr)\<rparr>"
        let ?y = "?x\<lparr>i_iterms := replicate ?n 0\<rparr>" let ?s5 = "?s4\<lparr>s_insts := (s_insts s1)(e \<mapsto> ?y)\<rparr>"
        have kh: "keeps_entry (\<lambda>x. x\<lparr>inst_cnt := inst_cnt x + 1\<rparr>)" by (simp add: keeps_entry_def)
        have h3: "s_hdrs ?s3 h = Some hr" using hr(1) by simp
        show "ends (bindE (mod_hdr h (\<lambda>x. x\<lparr>inst_cnt := inst_cnt x + 1\<rparr>) (b2\<lparr>inst_hash := hs, inst_tbl := t'\<rparr>)) (\<lambda>b.
           bindE (getPtr (inst_hdr_tbl b) h) (\<lambda>x. let mterm_cnt = length (h_mterms x) in
           bindE (mod_inst e (\<lambda>x. x\<lparr>i_iterms := replicate mterm_cnt 0\<rparr>) b) (\<lambda>b.
           bindE (foldE (create_iterm e) [0..<mterm_cnt] b) (\<lambda>b. Inr (e, b)))))) ?Q"
        proof (rule ends_bind [OF after_mods(5) [OF b3 h3 kh]])
          fix b4 assume "after (?s3\<lparr>s_hdrs := (s_hdrs ?s3)(h \<mapsto> hr\<lparr>inst_cnt := inst_cnt hr + 1\<rparr>)\<rparr>) ?cs b4"
          then have b4: "after ?s4 ?cs b4" by simp
          have h4: "s_hdrs ?s4 h = Some ?hr" by simp
          show "ends (bindE (getPtr (inst_hdr_tbl b4) h) (\<lambda>x. let mterm_cnt = length (h_mterms x) in
             bindE (mod_inst e (\<lambda>x. x\<lparr>i_iterms := replicate mterm_cnt 0\<rparr>) b4) (\<lambda>b.
             bindE (foldE (create_iterm e) [0..<mterm_cnt] b) (\<lambda>b. Inr (e, b))))) ?Q"
          proof (rule ends_bind [OF after_reads(5) [OF b4 h4]])
            fix x assume "x\<lparr>next_entry := 0\<rparr> = ?hr"
            then have "h_mterms (x\<lparr>next_entry := 0\<rparr>) = h_mterms ?hr" by (rule arg_cong)
            then have x: "length (h_mterms x) = ?n" by simp
            have i4: "s_insts ?s4 e = Some ?x" by simp
            have ki: "keeps_entry (\<lambda>x. x\<lparr>i_iterms := replicate ?n 0\<rparr>)" by (simp add: keeps_entry_def)
            show "ends (let mterm_cnt = length (h_mterms x) in bindE (mod_inst e (\<lambda>x. x\<lparr>i_iterms := replicate mterm_cnt 0\<rparr>) b4) (\<lambda>b.
               bindE (foldE (create_iterm e) [0..<mterm_cnt] b) (\<lambda>b. Inr (e, b)))) ?Q"
              unfolding x Let_def
            proof (rule ends_bind [OF after_mods(4) [OF b4 i4 ki]])
              fix b5 assume "after (?s4\<lparr>s_insts := (s_insts ?s4)(e \<mapsto> ?x\<lparr>i_iterms := replicate ?n 0\<rparr>)\<rparr>) ?cs b5"
              then have b5: "after ?s5 ?cs b5" by simp
              have i5: "s_insts ?s5 e = Some ?y" "0 + ?n = length (i_iterms ?y)" "c_iterms ?s5 + 128 * ?n \<le> 2 ^ 31"
                using assms(7) k(8) len by simp_all
              have "ends (foldE (create_iterm e) [0..<?n] b5) (\<lambda>b'. \<exists>js s'. length js = ?n \<and> with_iterms e 0 js ?s5 s' \<and> after s' ?cs b')"
                using create_iterms_ends [OF b5 i5] by simp
              then show "ends (bindE (foldE (create_iterm e) [0..<?n] b5) (\<lambda>b. Inr (e, b))) ?Q"
              proof (rule ends_bind, elim exE conjE)
                fix b6 js s6 assume l: "length js = ?n" and v: "with_iterms e 0 js ?s5 s6" and b6: "after s6 ?cs b6"
                have "inst_made m nm e s s6" unfolding inst_made_def
                  by (rule exI [of _ h], rule exI [of _ s1], rule exI [of _ hr], rule exI [of _ c], rule exI [of _ js]) (use w hr(1) e c k l v in simp)
                then show "ends (Inr (e, b6)) ?Q" using False e(2) b6 by auto
              qed
            qed
          qed
        qed
      qed
    qed
    then show ?thesis using False k(3) by (simp add: after_members [OF b1])
  qed
qed

lemma with_iterms_sel:
  assumes "with_iterms x k js s s'"
  shows "s_nets s' = s_nets s" "s_bterms s' = s_bterms s" "s_hdrs s' = s_hdrs s" "s_journal s' = s_journal s"
    "s_insts s' = (s_insts s)(x := map_option (\<lambda>y. y\<lparr>i_iterms := take k (i_iterms y) @ js @ drop (k + length js) (i_iterms y)\<rparr>) (s_insts s x))"
    "i < length js \<Longrightarrow> s_iterms s' (js ! i) = Some (new_iterm_obj x (k + i))" "i \<notin> set js \<Longrightarrow> s_iterms s' i = s_iterms s i"
    "i \<in> set js \<Longrightarrow> s_iterms s i = None" "iterms_listed s L \<Longrightarrow> iterms_listed s' L" "c_iterms s' \<le> c_iterms s + 128 * length js"
    "c_insts s' = c_insts s"
proof -
  note w = assms [unfolded with_iterms_def]
  obtain T c I where eq: "s' = s\<lparr>s_iterms := T, c_iterms := c, s_insts := I\<rparr>"
      "I = (s_insts s)(x := map_option (\<lambda>y. y\<lparr>i_iterms := take k (i_iterms y) @ js @ drop (k + length js) (i_iterms y)\<rparr>) (s_insts s x))"
    using w by blast
  show "s_nets s' = s_nets s" "s_bterms s' = s_bterms s" "s_hdrs s' = s_hdrs s" "s_journal s' = s_journal s" "c_insts s' = c_insts s"
    "s_insts s' = (s_insts s)(x := map_option (\<lambda>y. y\<lparr>i_iterms := take k (i_iterms y) @ js @ drop (k + length js) (i_iterms y)\<rparr>) (s_insts s x))"
    using eq by simp_all
qed (use assms in \<open>simp_all add: with_iterms_def\<close>)

lemma hdr_counted_ok:
  assumes "hdrs_ok libs s" "s_hdrs s h = Some hr" "s_insts s x = None" "finite (has_inst s h)"
    and "i_inst_hdr y = h" "length (i_iterms y) = length (h_mterms hr)"
    and "s_insts s' = (s_insts s)(x \<mapsto> y)" "s_hdrs s' = (s_hdrs s)(h \<mapsto> hr\<lparr>inst_cnt := inst_cnt hr + 1\<rparr>)"
  shows "hdrs_ok libs s'"
proof -
  have cnt: "has_inst s' v = (if v = h then insert x (has_inst s v) else has_inst s v)" for v
    using assms(3,5) by (auto simp: has_inst_def assms(7))
  have notin: "x \<notin> has_inst s v" for v using assms(3) by (simp add: has_inst_def)
  show ?thesis unfolding hdrs_ok_def
  proof (intro conjI allI impI)
    fix v w assume v: "s_insts s' v = Some w"
    show "\<exists>hr. s_hdrs s' (i_inst_hdr w) = Some hr \<and> length (h_mterms hr) = length (i_iterms w)"
    proof (cases "v = x")
      case True
      then show ?thesis using v assms(5-8) by auto
    next
      case False
      then have "s_insts s v = Some w" using v assms(7) by simp
      from hdrs_okD(1) [OF assms(1) this] show ?thesis using assms(2,8) by auto
    qed
  next
    fix v r assume r: "s_hdrs s' v = Some r"
    show "\<exists>m. hdr_of libs m r"
      using r assms(2,8) hdrs_okD(2) [OF assms(1), of v] by (auto simp: hdr_of_def split: if_splits)
    show "inst_cnt r = int (card (has_inst s' v))"
      using r assms(2,4,8) hdrs_okD(3) [OF assms(1), of v] cnt [of v] notin by (auto split: if_splits)
  qed
qed

lemma inst_made_ok:
  assumes "inst_made m nm e s s'" "after s cs b" "hdrs_ok libs s" "inst_iterms_ok s" "libs_ok libs" "in_libs libs m" "\<not> has_key (s_insts s) nm"
  shows "hdrs_ok libs s'" "inst_iterms_ok s'" "iterms_listed s Li \<Longrightarrow> iterms_listed s' Li" "bterms_listed s Lb \<Longrightarrow> bterms_listed s' Lb"
    "s_nets s' = s_nets s" "s_bterms s' = s_bterms s" "s_journal s' = s_journal s"
    "\<exists>y. s_insts s' = (s_insts s)(e \<mapsto> y) \<and> entry_key y = nm \<and> length (i_iterms y) = length (m_mterms m)" "s_insts s e = None"
proof -
  obtain h s1 hr c js where w: "with_hdr m h s s1" and hr: "s_hdrs s1 h = Some hr" and e: "s_insts s e = None" "e \<noteq> 0"
    and len: "length js = length (h_mterms hr)"
    and v0: "with_iterms e 0 js (s1\<lparr>c_insts := c, s_hdrs := (s_hdrs s1)(h \<mapsto> hr\<lparr>inst_cnt := inst_cnt hr + 1\<rparr>),
         s_insts := (s_insts s)(e \<mapsto> \<lparr>entry_key = nm, next_entry = 0, i_inst_hdr = h, i_iterms = replicate (length js) 0\<rparr>)\<rparr>) s'"
    using assms(1) unfolding inst_made_def by blast
  note k = with_hdr_ok [OF w assms(3,5,6)]
  let ?hr = "hr\<lparr>inst_cnt := inst_cnt hr + 1\<rparr>" let ?y = "\<lparr>entry_key = nm, next_entry = 0, i_inst_hdr = h, i_iterms = js\<rparr>"
  note v = with_iterms_sel [OF v0, simplified]
  have I: "s_insts s' = (s_insts s)(e \<mapsto> ?y)" using v(5) by simp
  have H: "s_hdrs s' = (s_hdrs s1)(h \<mapsto> ?hr)" by (rule v(3))
  obtain m' where m': "hdr_of libs m' hr" using hdrs_okD(2) [OF k(2) hr] ..
  have hm: "hdr_of libs m hr" using k(1) hr by simp
  show "s_insts s e = None" by (rule e(1))
  show "\<exists>y. s_insts s' = (s_insts s)(e \<mapsto> y) \<and> entry_key y = nm \<and> length (i_iterms y) = length (m_mterms m)"
    using I hm len by (intro exI [of _ ?y]) (simp add: hdr_of_def)
  show nb: "s_nets s' = s_nets s" "s_bterms s' = s_bterms s" "s_journal s' = s_journal s" using v(1,2,4) k by simp_all
  show "iterms_listed s' Li" if "iterms_listed s Li" using that v(9) k by simp
  show "bterms_listed s' Lb" if "bterms_listed s Lb" using that nb by simp
  have "hdrs_ok libs s1" "s_insts s1 e = None" using k(2,3) e(1) by simp_all
  moreover have "finite (has_inst s1 h)" using has_inst_finite [OF assms(2), of h] k(3) by (simp add: has_inst_def)
  ultimately show "hdrs_ok libs s'"
    using hdr_counted_ok [OF k(2) hr, of e ?y s'] len I H k(3) by simp
  have old: "i \<notin> set js" if "s_iterms s i = Some t" for i t using v(8) [of i] that k(4) by auto
  show "inst_iterms_ok s'" unfolding inst_iterms_ok_def I
  proof (intro conjI allI impI)
    fix x y n assume x: "((s_insts s)(e \<mapsto> ?y)) x = Some y" "n < length (i_iterms y)"
    show "\<exists>t. s_iterms s' (i_iterms y ! n) = Some t \<and> it_inst t = x \<and> it_mterm_idx t = n"
    proof (cases "x = e")
      case True
      then show ?thesis using x v(6) [of n] by (auto simp: new_iterm_obj_def)
    next
      case False
      then obtain t where t: "s_iterms s (i_iterms y ! n) = Some t" "it_inst t = x" "it_mterm_idx t = n"
        using x inst_iterms_okD(1) [OF assms(4), of x y n] by auto
      then show ?thesis using v(7) [OF old [OF t(1)]] k(4) by simp
    qed
  next
    fix i t assume i: "s_iterms s' i = Some t"
    show "\<exists>y. ((s_insts s)(e \<mapsto> ?y)) (it_inst t) = Some y \<and> it_mterm_idx t < length (i_iterms y) \<and> i_iterms y ! it_mterm_idx t = i"
    proof (cases "i \<in> set js")
      case True
      then obtain n where "n < length js" "js ! n = i" by (auto simp: in_set_conv_nth)
      then show ?thesis using v(6) [of n] i by (auto simp: new_iterm_obj_def)
    next
      case False
      then have "s_iterms s i = Some t" using i v(7) k(4) by simp
      then show ?thesis using inst_iterms_okD(2) [OF assms(4)] e(1) by fastforce
    qed
  qed
qed

subsection \<open>Destruction\<close>

definition iterm_gone :: "nat \<Rightarrow> nstate \<Rightarrow> nstate" where
  "iterm_gone i s = (let s' = iterm_unlinked i s in s'\<lparr>s_iterms := (s_iterms s')(i := None)\<rparr>)"

definition iterm_gone_change :: "nstate \<Rightarrow> nat \<Rightarrow> change list" where
  "iterm_gone_change s i = (case s_iterms s i of Some t \<Rightarrow> if it_net t = 0 then [] else [OnTerm (ITermDisconnect (of_nat i))] | None \<Rightarrow> [])"

definition iterm_gone_lists :: "nstate \<Rightarrow> nat \<Rightarrow> (nat \<Rightarrow> nat list) \<Rightarrow> nat \<Rightarrow> nat list" where
  "iterm_gone_lists s i L = (case s_iterms s i of Some t \<Rightarrow> if it_net t = 0 then L else L(it_net t := remove1 i (L (it_net t))) | None \<Rightarrow> L)"

lemma destroy_iterm_ends:
  assumes "after s cs b" "iterms_listed s L" "s_iterms s i = Some t"
  shows "ends (destroy_iterm i b) (after (iterm_gone i s) (cs @ iterm_gone_change s i))"
    "iterms_listed (iterm_gone i s) (iterm_gone_lists s i L)"
proof -
  note u = iterm_unlinked_listed [OF assms(2,3)]
  show "ends (destroy_iterm i b) (after (iterm_gone i s) (cs @ iterm_gone_change s i))"
    unfolding destroy_iterm_def
  proof (rule ends_bind [OF iterm_disconnect_ends [OF assms]])
    fix b1 assume "after (iterm_unlinked i s) (cs @ (if it_net t = 0 then [] else [OnTerm (ITermDisconnect (of_nat i))])) b1"
    then have b1: "after (iterm_unlinked i s) (cs @ iterm_gone_change s i) b1" using assms(3) by (simp add: iterm_gone_change_def)
    from gone_iterm [OF this u(2)]
    show "ends (bindE (dbTable_destroy i (iterm_tbl b1)) (\<lambda>t. Inr (b1\<lparr>iterm_tbl := t\<rparr>))) (after (iterm_gone i s) (cs @ iterm_gone_change s i))"
      by (auto simp: ends_def iterm_gone_def Let_def)
  qed
  show "iterms_listed (iterm_gone i s) (iterm_gone_lists s i L)"
    using listed_gone_term [OF u(1,2)] assms(3) by (simp add: iterm_gone_def Let_def iterm_gone_lists_def)
qed

abbreviation iterms_gone :: "nat list \<Rightarrow> nstate \<Rightarrow> nstate" where
  "iterms_gone js s \<equiv> fold iterm_gone js s"

definition iterms_gone_changes :: "nstate \<Rightarrow> nat list \<Rightarrow> change list" where
  "iterms_gone_changes s js = concat (map (iterm_gone_change s) js)"

lemma iterm_unlinked_own:
  "x \<noteq> i \<Longrightarrow> map_option it_net (s_iterms (iterm_unlinked i s) x) = map_option it_net (s_iterms s x)"
proof -
  assume x: "x \<noteq> i"
  then have "iterms.unlinked i t (s_iterms s) x = upd (prev_net_iterm t) (\<lambda>u. u\<lparr>next_net_iterm := next_net_iterm t\<rparr>)
      (upd (next_net_iterm t) (\<lambda>u. u\<lparr>prev_net_iterm := prev_net_iterm t\<rparr>) (s_iterms s)) x" for t
    by (simp add: iterms.unlinked_def upd_other)
  then show ?thesis by (simp add: iterm_unlinked_def upd_keeps split: option.split)
qed

definition rest_same :: "nat set \<Rightarrow> nstate \<Rightarrow> nstate \<Rightarrow> bool" where
  \<comment> \<open>these terminals of instances are gone; all else is there but for the links of terminals\<close>
  "rest_same X s s' \<longleftrightarrow> (\<forall>x. map_option entry_key (s_nets s' x) = map_option entry_key (s_nets s x))
     \<and> (\<forall>x. map_option n_bterms (s_nets s' x) = map_option n_bterms (s_nets s x))
     \<and> (\<forall>x \<in> X. s_iterms s' x = None)
     \<and> (\<forall>x. x \<notin> X \<longrightarrow> map_option it_inst (s_iterms s' x) = map_option it_inst (s_iterms s x)
           \<and> map_option it_mterm_idx (s_iterms s' x) = map_option it_mterm_idx (s_iterms s x)
           \<and> map_option it_net (s_iterms s' x) = map_option it_net (s_iterms s x))
     \<and> s_bterms s' = s_bterms s \<and> s_insts s' = s_insts s \<and> s_hdrs s' = s_hdrs s \<and> s_journal s' = s_journal s"

lemma rest_sameD:
  assumes "rest_same X s s'" "x \<notin> X"
  shows "map_option it_inst (s_iterms s' x) = map_option it_inst (s_iterms s x)"
    "map_option it_mterm_idx (s_iterms s' x) = map_option it_mterm_idx (s_iterms s x)"
    "map_option it_net (s_iterms s' x) = map_option it_net (s_iterms s x)"
  using assms by (simp_all add: rest_same_def)

lemma rest_same_refl [simp]: "rest_same {} s s"
  by (simp add: rest_same_def)

lemma rest_same_trans: "rest_same X s s' \<Longrightarrow> rest_same Y s' s'' \<Longrightarrow> Y \<inter> X = {} \<Longrightarrow> rest_same (X \<union> Y) s s''"
proof -
  assume a: "rest_same X s s'" "rest_same Y s' s''" "Y \<inter> X = {}"
  have "s_iterms s'' x = None" if "x \<in> X" for x
  proof -
    have "map_option it_net (s_iterms s'' x) = map_option it_net (s_iterms s' x)" "s_iterms s' x = None"
      using a that unfolding rest_same_def by blast+
    then show ?thesis by simp
  qed
  then show ?thesis using a(1,2) unfolding rest_same_def by (auto simp del: map_option_eq_Some)
qed

lemma iterm_gone_same: "rest_same {i} s (iterm_gone i s)"
  using unlinked_same(1) [of s i] unlinked_same(3,5) [of i s] iterm_unlinked_own [of _ i s]
  by (simp add: rest_same_def iterm_gone_def Let_def same_objects_def)

lemma destroy_iterms_ends:
  assumes "after s cs b" "iterms_listed s L" "distinct js" "\<forall>i \<in> set js. \<exists>t. s_iterms s i = Some t"
  shows "ends (foldE destroy_iterm js b) (after (iterms_gone js s) (cs @ iterms_gone_changes s js))"
    "\<exists>L'. iterms_listed (iterms_gone js s) L'" "rest_same (set js) s (iterms_gone js s)"
proof -
  have "ends (foldE destroy_iterm js b) (after (iterms_gone js s) (cs @ iterms_gone_changes s js))
     \<and> (\<exists>L'. iterms_listed (iterms_gone js s) L') \<and> rest_same (set js) s (iterms_gone js s)"
    using assms
  proof (induction js arbitrary: s cs b L)
    case Nil
    then show ?case by (auto simp: iterms_gone_changes_def)
  next
    case (Cons j js)
    obtain t where t: "s_iterms s j = Some t" using Cons.prems(4) by auto
    note d = destroy_iterm_ends [OF Cons.prems(1,2) t]
    have dj: "distinct js" "j \<notin> set js" using Cons.prems(3) by simp_all
    have o: "map_option it_net (s_iterms (iterm_gone j s) i) = map_option it_net (s_iterms s i)" if "i \<in> set js" for i
      using iterm_gone_same [of j s] that dj(2) by (auto simp: rest_same_def)
    have ex: "\<forall>i \<in> set js. \<exists>t. s_iterms (iterm_gone j s) i = Some t"
    proof
      fix i assume i: "i \<in> set js"
      then obtain u where "s_iterms s i = Some u" using Cons.prems(4) by auto
      then show "\<exists>t. s_iterms (iterm_gone j s) i = Some t" using o [OF i] by auto
    qed
    have ch: "iterm_gone_change (iterm_gone j s) i = iterm_gone_change s i" if "i \<in> set js" for i
      using o [OF that] by (cases "s_iterms (iterm_gone j s) i"; cases "s_iterms s i") (auto simp: iterm_gone_change_def)
    have chs: "iterms_gone_changes (iterm_gone j s) js = iterms_gone_changes s js"
      using ch by (simp add: iterms_gone_changes_def cong: map_cong)
    have IH: "ends (foldE destroy_iterm js b1) (after (iterms_gone js (iterm_gone j s)) (cs1 @ iterms_gone_changes s js))
       \<and> (\<exists>L'. iterms_listed (iterms_gone js (iterm_gone j s)) L') \<and> rest_same (set js) (iterm_gone j s) (iterms_gone js (iterm_gone j s))"
      if "after (iterm_gone j s) cs1 b1" for cs1 b1
      using Cons.IH [OF that d(2) dj(1) ex] unfolding chs .
    obtain b1 where b1: "after (iterm_gone j s) (cs @ iterm_gone_change s j) b1" using d(1) by (auto simp: ends_def)
    have "ends (bindE (destroy_iterm j b) (foldE destroy_iterm js)) (after (iterms_gone (j # js) s) (cs @ iterms_gone_changes s (j # js)))"
    proof (rule ends_bind [OF d(1)])
      fix b2 assume "after (iterm_gone j s) (cs @ iterm_gone_change s j) b2"
      from IH [OF this] show "ends (foldE destroy_iterm js b2) (after (iterms_gone (j # js) s) (cs @ iterms_gone_changes s (j # js)))"
        by (simp add: iterms_gone_changes_def)
    qed
    moreover have "rest_same (set (j # js)) s (iterms_gone (j # js) s)"
      using rest_same_trans [OF iterm_gone_same [of j s]] IH [OF b1] dj(2) by simp
    ultimately show ?case using IH [OF b1] by simp
  qed
  then show "ends (foldE destroy_iterm js b) (after (iterms_gone js s) (cs @ iterms_gone_changes s js))"
    "\<exists>L'. iterms_listed (iterms_gone js s) L'" "rest_same (set js) s (iterms_gone js s)" by simp_all
qed

lemma getMaster_ends:
  assumes "after s cs b" "s_insts s x = Some y" "s_hdrs s (i_inst_hdr y) = Some hr" "hdr_of libs m hr"
  shows "ends (getMaster libs x b) (\<lambda>m'. m' = m)"
  unfolding getMaster_def
proof (rule ends_bind [OF after_reads(4) [OF assms(1,2)]])
  fix z assume "z\<lparr>next_entry := 0\<rparr> = y"
  then have "i_inst_hdr (z\<lparr>next_entry := 0\<rparr>) = i_inst_hdr y" by (rule arg_cong)
  then have z: "i_inst_hdr z = i_inst_hdr y" by simp
  show "ends (bindE (getPtr (inst_hdr_tbl b) (i_inst_hdr z)) (\<lambda>hdr. case libs (h_lib hdr) (h_master hdr) of None \<Rightarrow> Inl Abort | Some m \<Rightarrow> Inr m)) (\<lambda>m'. m' = m)"
    unfolding z
  proof (rule ends_bind [OF after_reads(5) [OF assms(1,3)]])
    fix h assume h: "h\<lparr>next_entry := 0\<rparr> = hr"
    have "h_lib (h\<lparr>next_entry := 0\<rparr>) = h_lib hr" "h_master (h\<lparr>next_entry := 0\<rparr>) = h_master hr" unfolding h by simp_all
    then show "ends (case libs (h_lib h) (h_master h) of None \<Rightarrow> Inl Abort | Some m \<Rightarrow> Inr m) (\<lambda>m'. m' = m)"
      using assms(4) by (simp add: hdr_of_def)
  qed
qed

definition inst_gone :: "nat \<Rightarrow> nstate \<Rightarrow> nstate" where
  "inst_gone x s = (case s_insts s x of None \<Rightarrow> s | Some y \<Rightarrow>
     let s' = hdr_dropped (i_inst_hdr y) (iterms_gone (i_iterms y) s) in s'\<lparr>s_insts := (s_insts s')(x := None)\<rparr>)"

lemma hdr_dropped_sel [simp]:
  "s_nets (hdr_dropped h s) = s_nets s" "s_iterms (hdr_dropped h s) = s_iterms s" "s_bterms (hdr_dropped h s) = s_bterms s"
  "s_insts (hdr_dropped h s) = s_insts s" "s_journal (hdr_dropped h s) = s_journal s"
  by (simp_all add: hdr_dropped_def split: option.split)

definition inst_destroy_changes :: "nstate \<Rightarrow> nat \<Rightarrow> inst_obj \<Rightarrow> change list" where
  "inst_destroy_changes s x y = iterms_gone_changes s (i_iterms y) @ [OnInst (InstDestroy (of_nat x))]"

lemma inst_destroy_ends:
  assumes "after s cs b" "iterms_listed s Li" "hdrs_ok libs s" "inst_iterms_ok s" "s_insts s x = Some y"
  shows "ends (dbInst_destroy libs x b) (after (inst_gone x s) (cs @ inst_destroy_changes s x y))"
    "\<exists>L'. iterms_listed (inst_gone x s) L'" "rest_same (set (i_iterms y)) s (iterms_gone (i_iterms y) s)"
proof -
  let ?cs = "cs @ inst_destroy_changes s x y" let ?s1 = "iterms_gone (i_iterms y) s" let ?s2 = "hdr_dropped (i_inst_hdr y) ?s1"
  have dist: "distinct (i_iterms y)" by (rule inst_iterms_distinct [OF assms(4,5)])
  have ex: "\<forall>i \<in> set (i_iterms y). \<exists>t. s_iterms s i = Some t"
    using inst_iterms_okD(1) [OF assms(4,5)] by (metis in_set_conv_nth)
  note d = destroy_iterms_ends [OF assms(1,2) dist ex]
  show "rest_same (set (i_iterms y)) s (iterms_gone (i_iterms y) s)" by (rule d(3))
  have s1: "s_insts ?s1 = s_insts s" "s_hdrs ?s1 = s_hdrs s" using d(3) by (simp_all add: rest_same_def)
  obtain hr where hr: "s_hdrs s (i_inst_hdr y) = Some hr" using hdrs_okD(1) [OF assms(3,5)] by blast
  obtain m where m: "hdr_of libs m hr" using hdrs_okD(2) [OF assms(3) hr] ..
  have key: "entry_key hr = m_id m" using m by (simp add: hdr_of_def)
  have i1: "s_insts ?s1 x = Some y" "s_hdrs ?s1 (i_inst_hdr y) = Some hr" using s1 assms(5) hr by simp_all
  have g: "inst_gone x s = ?s2\<lparr>s_insts := (s_insts ?s2)(x := None)\<rparr>" using assms(5) by (simp add: inst_gone_def Let_def)
  show "ends (dbInst_destroy libs x b) (after (inst_gone x s) ?cs)" unfolding dbInst_destroy_def
  proof (rule ends_bind [OF after_reads(4) [OF assms(1,5)]])
    fix z assume "z\<lparr>next_entry := 0\<rparr> = y"
    then have "i_iterms (z\<lparr>next_entry := 0\<rparr>) = i_iterms y" by (rule arg_cong)
    then have z: "i_iterms z = i_iterms y" by simp
    show "ends (bindE (foldE destroy_iterm (i_iterms z) b) (\<lambda>b. bindE (write_journal (log_inst_destroy (of_nat x)) b) (\<lambda>b.
       bindE (getMaster libs x b) (\<lambda>master. bindE (drop_hdr (m_id master) b) (\<lambda>b. bindE (name_remove x (inst_hash b, inst_tbl b)) (\<lambda>(h, t).
       bindE (dbTable_destroy x t) (\<lambda>t. Inr (b\<lparr>inst_hash := h, inst_tbl := t\<rparr>)))))))) (after (inst_gone x s) ?cs)"
      unfolding z
    proof (rule ends_bind [OF d(1)], rule ends_bind [OF after_writes(10)], assumption)
      fix b1 assume "after ?s1 ((cs @ iterms_gone_changes s (i_iterms y)) @ [OnInst (InstDestroy (of_nat x))]) b1"
      then have b1: "after ?s1 ?cs b1" by (simp add: inst_destroy_changes_def)
      show "ends (bindE (getMaster libs x b1) (\<lambda>master. bindE (drop_hdr (m_id master) b1) (\<lambda>b. bindE (name_remove x (inst_hash b, inst_tbl b)) (\<lambda>(h, t).
       bindE (dbTable_destroy x t) (\<lambda>t. Inr (b\<lparr>inst_hash := h, inst_tbl := t\<rparr>)))))) (after (inst_gone x s) ?cs)"
      proof (rule ends_bind [OF getMaster_ends [OF b1 i1 m]], hypsubst, rule ends_bind [OF drop_hdr_ends [OF b1 i1(2) key]])
        fix b2 assume b2: "after ?s2 ?cs b2"
        have i2: "s_insts ?s2 x = Some y" using i1(1) by simp
        from gone_inst [OF b2 i2] show "ends (bindE (name_remove x (inst_hash b2, inst_tbl b2)) (\<lambda>(h, t).
          bindE (dbTable_destroy x t) (\<lambda>t. Inr (b2\<lparr>inst_hash := h, inst_tbl := t\<rparr>)))) (after (inst_gone x s) ?cs)"
          unfolding g by (force simp: ends_def)
      qed
    qed
  qed
  show "\<exists>L'. iterms_listed (inst_gone x s) L'" using d(2) by (simp add: g)
qed

lemma hdr_dropped_ok:
  assumes "hdrs_ok libs s" "s_insts s x = Some y" "\<And>h. finite (has_inst s h)"
    and "s_insts s' = (s_insts s)(x := None)" "s_hdrs s' = s_hdrs (hdr_dropped (i_inst_hdr y) s)"
  shows "hdrs_ok libs s'"
proof -
  obtain hr where hr: "s_hdrs s (i_inst_hdr y) = Some hr" using hdrs_okD(1) [OF assms(1,2)] by blast
  have H: "s_hdrs s' = (s_hdrs s)(i_inst_hdr y := if inst_cnt hr = 1 then None else Some (hr\<lparr>inst_cnt := inst_cnt hr - 1\<rparr>))"
    using hr by (simp add: assms(5) hdr_dropped_def)
  have cnt: "has_inst s' h = has_inst s h - (if h = i_inst_hdr y then {x} else {})" for h
    using assms(2) by (auto simp: has_inst_def assms(4))
  have mem: "x \<in> has_inst s (i_inst_hdr y)" using assms(2) by (simp add: has_inst_def)
  have c: "inst_cnt hr = int (card (has_inst s (i_inst_hdr y)))" by (rule hdrs_okD(3) [OF assms(1) hr])
  show ?thesis unfolding hdrs_ok_def
  proof (intro conjI allI impI)
    fix v w assume "s_insts s' v = Some w"
    then have v: "v \<noteq> x" "s_insts s v = Some w" using assms(4) by (auto split: if_splits)
    have "inst_cnt hr \<noteq> 1" if "i_inst_hdr w = i_inst_hdr y"
    proof
      assume "inst_cnt hr = 1"
      then have "card (has_inst s (i_inst_hdr y)) = 1" using c by simp
      moreover have "v \<in> has_inst s (i_inst_hdr y)" using v(2) that by (simp add: has_inst_def)
      ultimately show False using mem v(1) by (metis card_1_singletonE singletonD)
    qed
    then show "\<exists>hr. s_hdrs s' (i_inst_hdr w) = Some hr \<and> length (h_mterms hr) = length (i_iterms w)"
      using hdrs_okD(1) [OF assms(1) v(2)] hr by (auto simp: H)
  next
    fix h r assume h: "s_hdrs s' h = Some r"
    show "\<exists>m. hdr_of libs m r"
      using h hdrs_okD(2) [OF assms(1), of h] hdrs_okD(2) [OF assms(1) hr] by (auto simp: H hdr_of_def split: if_splits)
    show "inst_cnt r = int (card (has_inst s' h))"
    proof (cases "h = i_inst_hdr y")
      case True
      have "0 < card (has_inst s (i_inst_hdr y))" using mem assms(3) card_gt_0_iff by blast
      then show ?thesis using h True c mem assms(3) by (auto simp: H cnt split: if_splits)
    next
      case False
      then show ?thesis using h hdrs_okD(3) [OF assms(1), of h r] by (simp add: H cnt)
    qed
  qed
qed

lemma inst_gone_ok:
  assumes "after s cs b" "iterms_listed s Li" "hdrs_ok libs s" "inst_iterms_ok s" "s_insts s x = Some y"
  shows "hdrs_ok libs (inst_gone x s)" "inst_iterms_ok (inst_gone x s)" "bterms_listed s Lb \<Longrightarrow> bterms_listed (inst_gone x s) Lb"
    "s_insts (inst_gone x s) = (s_insts s)(x := None)" "s_journal (inst_gone x s) = s_journal s"
proof -
  let ?s1 = "iterms_gone (i_iterms y) s" let ?s2 = "hdr_dropped (i_inst_hdr y) ?s1"
  note r = inst_destroy_ends(3) [OF assms]
  have s1: "s_insts ?s1 = s_insts s" "s_hdrs ?s1 = s_hdrs s" "s_bterms ?s1 = s_bterms s" "s_journal ?s1 = s_journal s"
    using r by (simp_all add: rest_same_def)
  obtain hr where hr: "s_hdrs s (i_inst_hdr y) = Some hr" using hdrs_okD(1) [OF assms(3,5)] by blast
  have g: "inst_gone x s = ?s2\<lparr>s_insts := (s_insts ?s2)(x := None)\<rparr>" using assms(5) by (simp add: inst_gone_def Let_def)
  show I: "s_insts (inst_gone x s) = (s_insts s)(x := None)" "s_journal (inst_gone x s) = s_journal s" by (simp_all add: g s1)
  have T: "s_iterms (inst_gone x s) = s_iterms ?s1" "s_nets (inst_gone x s) = s_nets ?s1" "s_bterms (inst_gone x s) = s_bterms s" by (simp_all add: g s1)
  have "s_hdrs (inst_gone x s) = s_hdrs (hdr_dropped (i_inst_hdr y) s)" using hr by (simp add: g hdr_dropped_def s1)
  from hdr_dropped_ok [OF assms(3,5) has_inst_finite [OF assms(1)] I(1) this] show "hdrs_ok libs (inst_gone x s)" .
  have own: "i \<in> set (i_iterms y) \<longleftrightarrow> it_inst t = x" if t: "s_iterms s i = Some t" for i t
    using inst_iterms_okD(1) [OF assms(4,5)] inst_iterms_okD(2) [OF assms(4) t] t assms(5)
    by (metis in_set_conv_nth option.inject)
  have keep: "\<exists>t'. s_iterms ?s1 i = Some t' \<and> it_inst t' = it_inst t \<and> it_mterm_idx t' = it_mterm_idx t"
    if "s_iterms s i = Some t" "it_inst t \<noteq> x" for i t
    using r own [OF that(1)] that by (fastforce simp: rest_same_def)
  have older: "\<exists>t. s_iterms s i = Some t \<and> it_inst t' = it_inst t \<and> it_mterm_idx t' = it_mterm_idx t \<and> it_inst t \<noteq> x"
    if "s_iterms ?s1 i = Some t'" for i t'
  proof -
    have i: "i \<notin> set (i_iterms y)" using r that by (auto simp: rest_same_def)
    then have "map_option it_inst (s_iterms s i) = Some (it_inst t')" "map_option it_mterm_idx (s_iterms s i) = Some (it_mterm_idx t')"
      unfolding rest_sameD [OF r i, symmetric] that by simp_all
    then show ?thesis using own [of i] i by auto
  qed
  show "inst_iterms_ok (inst_gone x s)" unfolding inst_iterms_ok_def T I
  proof (intro conjI allI impI)
    fix v w k assume "((s_insts s)(x := None)) v = Some w" and k: "k < length (i_iterms w)"
    then have v: "v \<noteq> x" "s_insts s v = Some w" by (auto split: if_splits)
    obtain t where "s_iterms s (i_iterms w ! k) = Some t" "it_inst t = v" "it_mterm_idx t = k" using inst_iterms_okD(1) [OF assms(4) v(2) k] by blast
    then show "\<exists>t. s_iterms ?s1 (i_iterms w ! k) = Some t \<and> it_inst t = v \<and> it_mterm_idx t = k" using keep v(1) by blast
  next
    fix i t' assume "s_iterms ?s1 i = Some t'"
    then obtain t where t: "s_iterms s i = Some t" "it_inst t' = it_inst t" "it_mterm_idx t' = it_mterm_idx t" "it_inst t \<noteq> x" using older by blast
    then show "\<exists>y. ((s_insts s)(x := None)) (it_inst t') = Some y \<and> it_mterm_idx t' < length (i_iterms y) \<and> i_iterms y ! it_mterm_idx t' = i"
      using inst_iterms_okD(2) [OF assms(4) t(1)] by simp
  qed
  show "bterms_listed (inst_gone x s) Lb" if "bterms_listed s Lb"
    unfolding T by (rule listed_cong [OF that]) (use r in \<open>simp_all add: rest_same_def\<close>)
qed

end
