(* ===== verification/Odb_Net_Swap.thy ===== *)
theory Odb_Net_Swap
  imports Odb_Net_Insts
begin

section \<open>Changing the master of an instance\<close>

text \<open>
  \<open>swapMaster\<close> renumbers the terminals of the instance from the old master to the new one, matching them by
  name, and sorts them by their new numbers; the instance moves from the header of the old master to that of
  the new one.
\<close>

subsection \<open>The renumbering\<close>

lemma fold_list_update:
  assumes "distinct (map g ps)" "\<forall>p \<in> set ps. g p < length m"
  shows "length (fold (\<lambda>p m. m[g p := f p]) ps m) = length m"
    "p \<in> set ps \<Longrightarrow> fold (\<lambda>p m. m[g p := f p]) ps m ! g p = f p"
    "i \<notin> g ` set ps \<Longrightarrow> fold (\<lambda>p m. m[g p := f p]) ps m ! i = m ! i"
proof -
  have "length (fold (\<lambda>p m. m[g p := f p]) ps m) = length m
    \<and> (\<forall>p \<in> set ps. fold (\<lambda>p m. m[g p := f p]) ps m ! g p = f p)
    \<and> (\<forall>i. i \<notin> g ` set ps \<longrightarrow> fold (\<lambda>p m. m[g p := f p]) ps m ! i = m ! i)"
    using assms
  proof (induction ps arbitrary: m)
    case (Cons q ps)
    have q: "g q < length m" "g q \<notin> g ` set ps" "distinct (map g ps)" using Cons.prems by auto
    have "\<forall>p \<in> set ps. g p < length (m[g q := f q])" using Cons.prems(2) by simp
    note IH = Cons.IH [OF q(3) this]
    show ?case using IH q(1,2) by auto
  qed simp
  then show "length (fold (\<lambda>p m. m[g p := f p]) ps m) = length m"
    "p \<in> set ps \<Longrightarrow> fold (\<lambda>p m. m[g p := f p]) ps m ! g p = f p"
    "i \<notin> g ` set ps \<Longrightarrow> fold (\<lambda>p m. m[g p := f p]) ps m ! i = m ! i" by blast+
qed

definition terms_ok :: "lib_mterm list \<Rightarrow> bool" where
  "terms_ok ts \<longleftrightarrow> distinct (map mt_name ts) \<and> map mt_order_id ts = [0..<length ts]"

lemma terms_okD:
  assumes "terms_ok ts"
  shows "distinct ts" "t \<in> set ts \<Longrightarrow> mt_order_id t < length ts" "t \<in> set ts \<Longrightarrow> ts ! mt_order_id t = t"
    "distinct (map mt_order_id (sort_key mt_name ts))" "set (map mt_order_id ts) = {..<length ts}"
proof -
  note ok = assms [unfolded terms_ok_def]
  show d: "distinct ts" using ok by (simp add: distinct_map)
  have n: "mt_order_id (ts ! i) = i" if "i < length ts" for i using ok that by (metis add_0 nth_map nth_upt)
  show "t \<in> set ts \<Longrightarrow> mt_order_id t < length ts" "t \<in> set ts \<Longrightarrow> ts ! mt_order_id t = t" using n by (auto simp: in_set_conv_nth)
  have "distinct (map mt_order_id ts)" using ok by simp
  then show "distinct (map mt_order_id (sort_key mt_name ts))" by (simp add: distinct_map)
  show "set (map mt_order_id ts) = {..<length ts}" using ok by (simp add: atLeast0LessThan del: set_map)
qed

lemma idx_map_some:
  assumes "idx_map new old = Some im" "terms_ok new" "terms_ok old"
  shows "length new = length old" "length im = length old" "\<And>k. k < length old \<Longrightarrow> im ! k < length old"
    "\<And>k. k < length old \<Longrightarrow> mt_name (new ! (im ! k)) = mt_name (old ! k)" "distinct im"
proof -
  let ?n = "length old" let ?ps = "zip (sort_key mt_name new) (sort_key mt_name old)"
  show len: "length new = length old" using assms(1) by (auto simp: idx_map_def split: if_splits)
  let ?g = "\<lambda>p. mt_order_id (snd p)" let ?f = "\<lambda>p. mt_order_id (fst p)"
  have names: "\<And>t1 t2. (t1, t2) \<in> set ?ps \<Longrightarrow> mt_name t1 = mt_name t2"
    and im: "im = fold (\<lambda>p m. m[?g p := ?f p]) ?ps (replicate ?n 0)"
    using assms(1) len by (auto simp: idx_map_def Let_def list_all_iff case_prod_unfold split: if_splits)
  note o = terms_okD [OF assms(3)] note w = terms_okD [OF assms(2)]
  have "map ?g ?ps = map mt_order_id (map snd ?ps)" unfolding map_map comp_def ..
  moreover have "map snd ?ps = sort_key mt_name old" using len by simp
  ultimately have mg: "map ?g ?ps = map mt_order_id (sort_key mt_name old)" by (simp only:)
  have dg: "distinct (map ?g ?ps)" unfolding mg by (rule o(4))
  have mem: "fst p \<in> set new" "snd p \<in> set old" if "p \<in> set ?ps" for p
  proof -
    have "(fst p, snd p) \<in> set ?ps" using that by simp
    from set_zip_leftD [OF this] set_zip_rightD [OF this] show "fst p \<in> set new" "snd p \<in> set old" by simp_all
  qed
  have lt: "?g p < length (replicate ?n (0::nat))" if "p \<in> set ?ps" for p using o(2) [OF mem(2) [OF that]] by simp
  then have lts: "\<forall>p \<in> set ?ps. ?g p < length (replicate ?n (0::nat))" by blast
  have r: "length im = length (replicate ?n 0)" using fold_list_update(1) [OF dg lts, of ?f] unfolding im by simp
  have r2: "p \<in> set ?ps \<Longrightarrow> im ! ?g p = ?f p" for p using fold_list_update(2) [OF dg lts, of p ?f] unfolding im by simp
  show "length im = length old" using r by simp
  have ex: "\<exists>p \<in> set ?ps. ?g p = k \<and> snd p = old ! k" if "k < ?n" for k
  proof -
    have "k \<in> set (map ?g ?ps)" unfolding mg using that o(5) by simp
    then obtain p where p: "p \<in> set ?ps" "?g p = k" by auto
    then show ?thesis using o(3) [OF mem(2) [OF p(1)]] by auto
  qed
  have at: "im ! k < ?n \<and> mt_name (new ! (im ! k)) = mt_name (old ! k)" if k: "k < ?n" for k
  proof -
    obtain p where p: "p \<in> set ?ps" "?g p = k" "snd p = old ! k" using ex [OF k] by blast
    have "im ! k = ?f p" using r2 [OF p(1)] p(2) by simp
    moreover have "?f p < ?n" "new ! ?f p = fst p" using w(2,3) [OF mem(1) [OF p(1)]] len by simp_all
    moreover have "mt_name (fst p) = mt_name (snd p)" using names [of "fst p" "snd p"] p(1) by simp
    ultimately show ?thesis using p(3) by simp
  qed
  then show "im ! k < length old" "mt_name (new ! (im ! k)) = mt_name (old ! k)" if "k < length old" for k using that by blast+
  have d: "distinct (map mt_name old)" using assms(3) by (simp add: terms_ok_def)
  show "distinct im" unfolding distinct_conv_nth
  proof (intro allI impI notI)
    fix i j assume ij: "i < length im" "j < length im" "i \<noteq> j" "im ! i = im ! j"
    then have "mt_name (old ! i) = mt_name (old ! j)" using at [of i] at [of j] r by simp
    then show False using ij d r nth_eq_iff_index_eq [OF d, of i j] by simp
  qed
qed

lemma sorted_by_index:
  assumes "distinct (map f xs)" "set (map f xs) = {..<length xs}"
  shows "k < length xs \<Longrightarrow> f (sort_key f xs ! k) = k"
proof -
  have "map f (sort_key f xs) = [0..<length xs]"
  proof (rule sorted_distinct_set_unique)
    show "sorted (map f (sort_key f xs))" by (rule sorted_sort_key)
    show "distinct (map f (sort_key f xs))" using assms(1) by (simp add: distinct_map)
    show "set (map f (sort_key f xs)) = set [0..<length xs]" using assms(2) by (simp add: atLeast0LessThan)
  qed simp_all
  then show "k < length xs \<Longrightarrow> f (sort_key f xs ! k) = k" by (metis add_0 length_map length_sort nth_map nth_upt)
qed


lemma sort_key_same: "(\<And>x. x \<in> set xs \<Longrightarrow> f x = g x) \<Longrightarrow> sort_key f xs = sort_key g xs"
proof -
  have insort: "insort_key f x xs = insort_key g x xs" if "\<And>y. y \<in> insert x (set xs) \<Longrightarrow> f y = g y" for x xs
    using that by (induction xs) auto
  show "(\<And>x. x \<in> set xs \<Longrightarrow> f x = g x) \<Longrightarrow> sort_key f xs = sort_key g xs"
    by (induction xs) (auto intro!: insort)
qed

subsection \<open>The terminals of the instance\<close>

definition renumbered :: "nat list \<Rightarrow> nat list \<Rightarrow> nstate \<Rightarrow> nstate" where
  "renumbered im js s = s\<lparr>s_iterms := \<lambda>i. if i \<in> set js then map_option (\<lambda>t. t\<lparr>it_mterm_idx := im ! it_mterm_idx t\<rparr>) (s_iterms s i) else s_iterms s i\<rparr>"

lemma renumbered_sel [simp]:
  "s_nets (renumbered im js s) = s_nets s" "s_bterms (renumbered im js s) = s_bterms s" "s_insts (renumbered im js s) = s_insts s"
  "s_hdrs (renumbered im js s) = s_hdrs s" "s_journal (renumbered im js s) = s_journal s"
  "i \<notin> set js \<Longrightarrow> s_iterms (renumbered im js s) i = s_iterms s i"
  "i \<in> set js \<Longrightarrow> s_iterms (renumbered im js s) i = map_option (\<lambda>t. t\<lparr>it_mterm_idx := im ! it_mterm_idx t\<rparr>) (s_iterms s i)"
  by (simp_all add: renumbered_def)

lemma renumber_ends:
  assumes "after s cs b" "distinct js" "\<forall>i \<in> set js. \<exists>t. s_iterms s i = Some t"
  shows "ends (foldE (\<lambda>it. mod_iterm it (\<lambda>x. x\<lparr>it_mterm_idx := im ! it_mterm_idx x\<rparr>)) js b) (after (renumbered im js s) cs)"
  using assms
proof (induction js arbitrary: s b)
  case Nil
  then show ?case by (simp add: renumbered_def)
next
  case (Cons j js)
  let ?f = "\<lambda>x. x\<lparr>it_mterm_idx := im ! it_mterm_idx x\<rparr>"
  obtain t where t: "s_iterms s j = Some t" using Cons.prems(3) by auto
  let ?s1 = "s\<lparr>s_iterms := (s_iterms s)(j \<mapsto> ?f t)\<rparr>"
  have d: "distinct js" "j \<notin> set js" using Cons.prems(2) by simp_all
  have ex: "\<forall>i \<in> set js. \<exists>u. s_iterms ?s1 i = Some u" using Cons.prems(3) by simp
  have eq: "renumbered im js ?s1 = renumbered im (j # js) s"
    unfolding renumbered_def using t d(2) by (auto intro!: arg_cong [of _ _ "\<lambda>x. s\<lparr>s_iterms := x\<rparr>"] ext)
  have "ends (bindE (mod_iterm j ?f b) (foldE (\<lambda>it. mod_iterm it ?f) js)) (after (renumbered im (j # js) s) cs)"
  proof (rule ends_bind [OF after_mods(1) [OF Cons.prems(1) t, of ?f]])
    fix b1 assume "after ?s1 cs b1"
    from Cons.IH [OF this d(1) ex] show "ends (foldE (\<lambda>it. mod_iterm it ?f) js b1) (after (renumbered im (j # js) s) cs)" unfolding eq .
  qed
  then show ?case by simp
qed

lemma iterm_idx_after: "after s cs b \<Longrightarrow> s_iterms s i = Some t \<Longrightarrow> iterm_idx b i = it_mterm_idx t"
  using table_deref [OF after_index(9), of s cs b i] after_index(10) [of s cs b] by (simp add: iterm_idx_def)

subsection \<open>The operation\<close>

definition state_idx :: "nstate \<Rightarrow> nat \<Rightarrow> nat" where
  "state_idx s i = (case s_iterms s i of Some t \<Rightarrow> it_mterm_idx t | None \<Rightarrow> 0)"

text \<open>\<open>s2\<close> is the state after the old header lost the instance and the new one was found; \<open>hr\<close> is the new one.\<close>

definition swapped :: "nat list \<Rightarrow> nat \<Rightarrow> inst_obj \<Rightarrow> nat \<Rightarrow> hdr_obj \<Rightarrow> nstate \<Rightarrow> nstate" where
  "swapped im x y h hr s2 =
     (let s' = renumbered im (i_iterms y) s2 in
      s2\<lparr>s_hdrs := (s_hdrs s2)(h \<mapsto> hr\<lparr>inst_cnt := inst_cnt hr + 1\<rparr>), s_iterms := s_iterms s',
         s_insts := (s_insts s2)(x \<mapsto> y\<lparr>i_inst_hdr := h, i_iterms := sort_key (state_idx s') (i_iterms y)\<rparr>)\<rparr>)"

definition swap_change :: "nat \<Rightarrow> lib_master \<Rightarrow> change" where
  "swap_change x m = OnInst (InstSwap (of_nat x) (of_nat (m_lib m)) (of_nat (m_oid m)))"

lemma swap_ends:
  assumes "after s cs b" "hdrs_ok libs s" "inst_iterms_ok s" "s_insts s x = Some y" "s_hdrs s (i_inst_hdr y) = Some hd0" "hdr_of libs old hd0"
    and "libs_ok libs" "in_libs libs m" "hdr_room m (hdr_dropped (i_inst_hdr y) s)"
  shows "ends (dbInst_swapMaster libs x m b) (\<lambda>(fin, b').
     case idx_map (m_mterms m) (m_mterms old) of
       None \<Rightarrow> \<not> fin \<and> after s (cs @ [swap_change x m]) b'
     | Some im \<Rightarrow> fin \<and> (\<exists>h s2 hr. with_hdr m h (hdr_dropped (i_inst_hdr y) s) s2 \<and> s_hdrs s2 h = Some hr
           \<and> after (swapped im x y h hr s2) (cs @ [swap_change x m]) b'))" (is "ends _ ?Q")
proof -
  let ?cs = "cs @ [swap_change x m]" let ?s1 = "hdr_dropped (i_inst_hdr y) s"
  have dist: "distinct (i_iterms y)" by (rule inst_iterms_distinct [OF assms(3,4)])
  have key: "entry_key hd0 = m_id old" using assms(6) by (simp add: hdr_of_def)
  have ex: "\<forall>i \<in> set (i_iterms y). \<exists>t. s_iterms s i = Some t"
    using inst_iterms_okD(1) [OF assms(3,4)] by (metis in_set_conv_nth)
  show ?thesis unfolding dbInst_swapMaster_def
  proof (rule ends_bind [OF getMaster_ends [OF assms(1,4-6)]], hypsubst, rule ends_bind [OF after_writes(11) [OF assms(1)]])
    fix b1 assume "after s (cs @ [OnInst (InstSwap (of_nat x) (of_nat (m_lib m)) (of_nat (m_oid m)))]) b1"
    then have b1: "after s ?cs b1" by (simp add: swap_change_def)
    show "ends (case idx_map (m_mterms m) (m_mterms old) of None \<Rightarrow> Inr (False, b1) | Some im \<Rightarrow>
           bindE (drop_hdr (m_id old) b1) (\<lambda>b. bindE (need_hdr m b) (\<lambda>(hdr, b).
           bindE (mod_hdr hdr (\<lambda>x. x\<lparr>inst_cnt := inst_cnt x + 1\<rparr>) b) (\<lambda>b. bindE (mod_inst x (\<lambda>x. x\<lparr>i_inst_hdr := hdr\<rparr>) b) (\<lambda>b.
           bindE (getPtr (inst_tbl b) x) (\<lambda>inst.
           bindE (foldE (\<lambda>it. mod_iterm it (\<lambda>x. x\<lparr>it_mterm_idx := im ! it_mterm_idx x\<rparr>)) (i_iterms inst) b) (\<lambda>b.
           bindE (mod_inst x (\<lambda>x. x\<lparr>i_iterms := sort_key (iterm_idx b) (i_iterms x)\<rparr>) b) (\<lambda>b. Inr (True, b))))))))) ?Q"
    proof (cases "idx_map (m_mterms m) (m_mterms old)")
      case None
      then show ?thesis using b1 by simp
    next
      case (Some im)
      have "ends (bindE (drop_hdr (m_id old) b1) (\<lambda>b. bindE (need_hdr m b) (\<lambda>(hdr, b).
           bindE (mod_hdr hdr (\<lambda>x. x\<lparr>inst_cnt := inst_cnt x + 1\<rparr>) b) (\<lambda>b. bindE (mod_inst x (\<lambda>x. x\<lparr>i_inst_hdr := hdr\<rparr>) b) (\<lambda>b.
           bindE (getPtr (inst_tbl b) x) (\<lambda>inst.
           bindE (foldE (\<lambda>it. mod_iterm it (\<lambda>x. x\<lparr>it_mterm_idx := im ! it_mterm_idx x\<rparr>)) (i_iterms inst) b) (\<lambda>b.
           bindE (mod_inst x (\<lambda>x. x\<lparr>i_iterms := sort_key (iterm_idx b) (i_iterms x)\<rparr>) b) (\<lambda>b. Inr (True, b))))))))) ?Q"
      proof (rule ends_bind [OF drop_hdr_ends [OF b1 assms(5) key]], rule ends_bind [OF need_hdr_ends [OF _ assms(9)]], assumption, clarify)
        fix h b2 s2 assume w: "with_hdr m h ?s1 s2" and b2: "after s2 ?cs b2"
        have s2: "s_insts s2 = s_insts s" "s_iterms s2 = s_iterms s" using w by (auto simp: with_hdr_def split: if_splits)
        obtain hr where hr: "s_hdrs s2 h = Some hr" using w by (auto simp: with_hdr_def split: if_splits)
        have y2: "s_insts s2 x = Some y" using s2(1) assms(4) by simp
        let ?s3 = "s2\<lparr>s_hdrs := (s_hdrs s2)(h \<mapsto> hr\<lparr>inst_cnt := inst_cnt hr + 1\<rparr>)\<rparr>"
        let ?y = "y\<lparr>i_inst_hdr := h\<rparr>" let ?s4 = "?s3\<lparr>s_insts := (s_insts s2)(x \<mapsto> ?y)\<rparr>"
        let ?s5 = "renumbered im (i_iterms y) ?s4"
        show "ends (bindE (mod_hdr h (\<lambda>x. x\<lparr>inst_cnt := inst_cnt x + 1\<rparr>) b2) (\<lambda>b. bindE (mod_inst x (\<lambda>x. x\<lparr>i_inst_hdr := h\<rparr>) b) (\<lambda>b.
           bindE (getPtr (inst_tbl b) x) (\<lambda>inst.
           bindE (foldE (\<lambda>it. mod_iterm it (\<lambda>x. x\<lparr>it_mterm_idx := im ! it_mterm_idx x\<rparr>)) (i_iterms inst) b) (\<lambda>b.
           bindE (mod_inst x (\<lambda>x. x\<lparr>i_iterms := sort_key (iterm_idx b) (i_iterms x)\<rparr>) b) (\<lambda>b. Inr (True, b))))))) ?Q"
        proof (rule ends_bind [OF after_mods(5) [OF b2 hr]], simp add: keeps_entry_def, rule ends_bind [OF after_mods(4)], assumption)
          show "s_insts ?s3 x = Some y" using y2 by simp
          show "keeps_entry (\<lambda>x. x\<lparr>i_inst_hdr := h\<rparr>)" by (simp add: keeps_entry_def)
          fix b4 assume "after (?s3\<lparr>s_insts := (s_insts ?s3)(x \<mapsto> ?y)\<rparr>) ?cs b4"
          then have b4: "after ?s4 ?cs b4" by simp
          have y4: "s_insts ?s4 x = Some ?y" by simp
          show "ends (bindE (getPtr (inst_tbl b4) x) (\<lambda>inst.
             bindE (foldE (\<lambda>it. mod_iterm it (\<lambda>x. x\<lparr>it_mterm_idx := im ! it_mterm_idx x\<rparr>)) (i_iterms inst) b4) (\<lambda>b.
             bindE (mod_inst x (\<lambda>x. x\<lparr>i_iterms := sort_key (iterm_idx b) (i_iterms x)\<rparr>) b) (\<lambda>b. Inr (True, b))))) ?Q"
          proof (rule ends_bind [OF after_reads(4) [OF b4 y4]])
            fix z assume "z\<lparr>next_entry := 0\<rparr> = ?y"
            then have "i_iterms (z\<lparr>next_entry := 0\<rparr>) = i_iterms ?y" by (rule arg_cong)
            then have z: "i_iterms z = i_iterms y" by simp
            have ex4: "\<forall>i \<in> set (i_iterms y). \<exists>t. s_iterms ?s4 i = Some t" using ex s2(2) by simp
            show "ends (bindE (foldE (\<lambda>it. mod_iterm it (\<lambda>x. x\<lparr>it_mterm_idx := im ! it_mterm_idx x\<rparr>)) (i_iterms z) b4) (\<lambda>b.
               bindE (mod_inst x (\<lambda>x. x\<lparr>i_iterms := sort_key (iterm_idx b) (i_iterms x)\<rparr>) b) (\<lambda>b. Inr (True, b)))) ?Q"
              unfolding z
            proof (rule ends_bind [OF renumber_ends [OF b4 dist ex4]])
              fix b5 assume b5: "after ?s5 ?cs b5"
              have "iterm_idx b5 i = state_idx ?s5 i" if i: "i \<in> set (i_iterms y)" for i
              proof -
                obtain u where u: "s_iterms ?s4 i = Some u" using ex4 i by blast
                have "s_iterms ?s5 i = Some (u\<lparr>it_mterm_idx := im ! it_mterm_idx u\<rparr>)" using u i by simp
                then show ?thesis using iterm_idx_after [OF b5] by (simp add: state_idx_def)
              qed
              then have so: "sort_key (iterm_idx b5) (i_iterms y) = sort_key (state_idx ?s5) (i_iterms y)" by (rule sort_key_same)
              have ki: "keeps_entry (\<lambda>x. x\<lparr>i_iterms := sort_key (iterm_idx b5) (i_iterms x)\<rparr>)" by (simp add: keeps_entry_def)
              have y5: "s_insts ?s5 x = Some ?y" by simp
              have st: "state_idx ?s5 = state_idx (renumbered im (i_iterms y) s2)" by (simp add: state_idx_def renumbered_def fun_eq_iff)
              note so2 = so [unfolded st]
              have "ends (mod_inst x (\<lambda>x. x\<lparr>i_iterms := sort_key (iterm_idx b5) (i_iterms x)\<rparr>) b5) (after (swapped im x y h hr s2) ?cs)"
                by (rule ends_mono [OF after_mods(4) [OF b5 y5 ki]])
                  (simp add: so2 swapped_def renumbered_def Let_def cong: if_cong)
              then show "ends (bindE (mod_inst x (\<lambda>x. x\<lparr>i_iterms := sort_key (iterm_idx b5) (i_iterms x)\<rparr>) b5) (\<lambda>b. Inr (True, b))) ?Q"
                by (rule ends_bind) (use Some w hr in auto)
            qed
          qed
        qed
      qed
      then show ?thesis using Some by simp
    qed
  qed
qed

subsection \<open>The invariant\<close>

lemma with_hdr_insts: "with_hdr m h s s' \<Longrightarrow> with_hdr m h (s\<lparr>s_insts := I\<rparr>) (s'\<lparr>s_insts := I\<rparr>)"
  by (auto simp: with_hdr_def split: if_splits)

lemma swapped_order:
  assumes "inst_iterms_ok s" "s_insts s x = Some y" "s_iterms s2 = s_iterms s" "length im = length (i_iterms y)" "distinct im"
    and "\<forall>k < length im. im ! k < length im"
  defines "g \<equiv> state_idx (renumbered im (i_iterms y) s2)"
  shows "k < length (i_iterms y) \<Longrightarrow> \<exists>t. s_iterms s (i_iterms y ! k) = Some t \<and> it_inst t = x \<and> it_mterm_idx t = k \<and> g (i_iterms y ! k) = im ! k"
    "k < length (i_iterms y) \<Longrightarrow> g (sort_key g (i_iterms y) ! k) = k"
    "k < length (i_iterms y) \<Longrightarrow> sort_key g (i_iterms y) ! (im ! k) = i_iterms y ! k"
proof -
  let ?js = "i_iterms y"
  have at: "\<exists>t. s_iterms s (?js ! k) = Some t \<and> it_inst t = x \<and> it_mterm_idx t = k \<and> g (?js ! k) = im ! k" if k: "k < length ?js" for k
  proof -
    obtain t where t: "s_iterms s (?js ! k) = Some t" "it_inst t = x" "it_mterm_idx t = k" using inst_iterms_okD(1) [OF assms(1,2) k] by blast
    then show ?thesis using k by (simp add: g_def state_idx_def assms(3))
  qed
  then show "k < length (i_iterms y) \<Longrightarrow> \<exists>t. s_iterms s (i_iterms y ! k) = Some t \<and> it_inst t = x \<and> it_mterm_idx t = k \<and> g (i_iterms y ! k) = im ! k" .
  have mg: "map g ?js = im"
  proof (rule nth_equalityI)
    show "map g ?js ! k = im ! k" if "k < length (map g ?js)" for k using at [of k] that by auto
  qed (use assms(4) in simp)
  have si: "set im = {..<length ?js}"
  proof (rule card_subset_eq)
    show "set im \<subseteq> {..<length ?js}" using assms(4,6) by (fastforce simp: in_set_conv_nth)
    show "card (set im) = card {..<length ?js}" using distinct_card [OF assms(5)] assms(4) by simp
  qed simp
  have so: "g (sort_key g ?js ! k) = k" if "k < length ?js" for k using sorted_by_index [of g ?js k] mg assms(5) si that by simp
  then show "k < length (i_iterms y) \<Longrightarrow> g (sort_key g (i_iterms y) ! k) = k" .
  show "sort_key g ?js ! (im ! k) = ?js ! k" if k: "k < length ?js"
  proof -
    have m: "im ! k < length ?js" using assms(4,6) k by simp
    have "inj_on g (set ?js)" using mg assms(5) by (metis distinct_map)
    moreover have "sort_key g ?js ! (im ! k) \<in> set ?js" using m nth_mem [of "im ! k" "sort_key g ?js"] by simp
    moreover have "g (sort_key g ?js ! (im ! k)) = g (?js ! k)" using so [OF m] at [OF k] by auto
    ultimately show ?thesis using nth_mem [OF k] by (metis inj_onD)
  qed
qed

lemma swapped_ok:
  assumes "after s cs b" "hdrs_ok libs s" "inst_iterms_ok s" "s_insts s x = Some y" "s_hdrs s (i_inst_hdr y) = Some hd0" "hdr_of libs old hd0"
    and "libs_ok libs" "in_libs libs m" "m_frozen m" "idx_map (m_mterms m) (m_mterms old) = Some im"
    and "with_hdr m h (hdr_dropped (i_inst_hdr y) s) s2" "s_hdrs s2 h = Some hr"
  shows "hdrs_ok libs (swapped im x y h hr s2)" "inst_iterms_ok (swapped im x y h hr s2)"
    "iterms_listed s Li \<Longrightarrow> iterms_listed (swapped im x y h hr s2) Li" "bterms_listed s Lb \<Longrightarrow> bterms_listed (swapped im x y h hr s2) Lb"
    "s_journal (swapped im x y h hr s2) = s_journal s"
proof -
  let ?s' = "swapped im x y h hr s2" let ?I = "(s_insts s)(x := None)" let ?s1 = "hdr_dropped (i_inst_hdr y) s"
  have s2: "s_insts s2 = s_insts s" "s_iterms s2 = s_iterms s" "s_nets s2 = s_nets s" "s_bterms s2 = s_bterms s" "s_journal s2 = s_journal s"
    using assms(11) by (auto simp: with_hdr_def split: if_splits)
  have terms: "terms_ok (m_mterms m)" "terms_ok (m_mterms old)"
    using assms(6-9) unfolding libs_ok_def in_libs_def hdr_of_def terms_ok_def by blast+
  note im = idx_map_some [OF assms(10) terms]
  have len: "length (m_mterms old) = length (i_iterms y)"
    using hdrs_okD(1) [OF assms(2,4)] assms(5,6) by (auto simp: hdr_of_def)
  have "hdrs_ok libs (?s1\<lparr>s_insts := ?I\<rparr>)"
    by (rule hdr_dropped_ok [OF assms(2,4) has_inst_finite [OF assms(1)]]) simp_all
  note w = with_hdr_ok [OF with_hdr_insts [OF assms(11), of ?I] this assms(7,8)]
  have hm: "hdr_of libs m hr" using w(1) assms(12) by simp
  have lh: "length (h_mterms hr) = length (i_iterms y)" using hm im(1) len by (simp add: hdr_of_def)
  let ?y = "y\<lparr>i_inst_hdr := h, i_iterms := sort_key (state_idx (renumbered im (i_iterms y) s2)) (i_iterms y)\<rparr>"
  have I: "s_insts ?s' = (s_insts s)(x \<mapsto> ?y)" by (simp add: swapped_def Let_def s2)
  have fin: "finite (has_inst (s2\<lparr>s_insts := ?I\<rparr>) h)"
    by (rule finite_subset [OF _ has_inst_finite [OF assms(1), of h]]) (auto simp: has_inst_def split: if_splits)
  show "hdrs_ok libs ?s'"
    by (rule hdr_counted_ok [OF w(2) _ _ fin, of hr x ?y]) (use assms(12) lh I in \<open>simp_all add: swapped_def Let_def\<close>)
  show "s_journal ?s' = s_journal s" by (simp add: swapped_def Let_def s2)
  have N: "s_nets ?s' = s_nets s" "s_bterms ?s' = s_bterms s" by (simp_all add: swapped_def Let_def s2)
  have T: "s_iterms ?s' = s_iterms (renumbered im (i_iterms y) s)" by (simp add: swapped_def Let_def s2 renumbered_def cong: if_cong)
  show "bterms_listed ?s' Lb" if "bterms_listed s Lb" using that N by simp
  show "iterms_listed ?s' Li" if "iterms_listed s Li"
    unfolding T N by (rule listed_cong [OF that]) (simp_all add: renumbered_def option.map_comp comp_def)
  have dist: "distinct (i_iterms y)" by (rule inst_iterms_distinct [OF assms(3,4)])
  let ?g = "state_idx (renumbered im (i_iterms y) s2)" let ?js = "i_iterms y"
  have li: "length im = length ?js" "\<forall>k < length im. im ! k < length im" using im(2,3) len by simp_all
  note at = swapped_order(1) [OF assms(3,4) s2(2) li(1) im(5) li(2)] note so = swapped_order(2) [OF assms(3,4) s2(2) li(1) im(5) li(2)]
  have new: "\<exists>t. s_iterms ?s' i = Some t \<and> it_inst t = x \<and> it_mterm_idx t = ?g i" if "i \<in> set ?js" for i
  proof -
    obtain k where k: "k < length ?js" "?js ! k = i" using \<open>i \<in> set ?js\<close> by (auto simp: in_set_conv_nth)
    obtain t where t: "s_iterms s i = Some t" "it_inst t = x" "it_mterm_idx t = k" "?g i = im ! k" using at [OF k(1)] k(2) by auto
    then show ?thesis using that by (simp add: T)
  qed
  have own: "i \<in> set ?js \<longleftrightarrow> it_inst t = x" if t: "s_iterms s i = Some t" for i t
    using inst_iterms_okD(1) [OF assms(3,4)] inst_iterms_okD(2) [OF assms(3) t] t assms(4)
    by (metis in_set_conv_nth option.inject)
  show "inst_iterms_ok ?s'" unfolding inst_iterms_ok_def I
  proof (intro conjI allI impI)
    fix v w k assume v: "((s_insts s)(x \<mapsto> ?y)) v = Some w" and k: "k < length (i_iterms w)"
    show "\<exists>t. s_iterms ?s' (i_iterms w ! k) = Some t \<and> it_inst t = v \<and> it_mterm_idx t = k"
    proof (cases "v = x")
      case True
      then have w: "w = ?y" using v by simp
      then have k': "k < length ?js" using k by simp
      have "sort_key ?g ?js ! k \<in> set ?js" using k' nth_mem [of k "sort_key ?g ?js"] by simp
      from new [OF this] show ?thesis using so [OF k'] True w by simp
    next
      case False
      then have v': "s_insts s v = Some w" using v by simp
      obtain t where t: "s_iterms s (i_iterms w ! k) = Some t" "it_inst t = v" "it_mterm_idx t = k" using inst_iterms_okD(1) [OF assms(3) v' k] by blast
      then show ?thesis using own [OF t(1)] False by (simp add: T)
    qed
  next
    fix i t assume i: "s_iterms ?s' i = Some t"
    show "\<exists>y. ((s_insts s)(x \<mapsto> ?y)) (it_inst t) = Some y \<and> it_mterm_idx t < length (i_iterms y) \<and> i_iterms y ! it_mterm_idx t = i"
    proof (cases "i \<in> set ?js")
      case True
      from new [OF True] i have t: "it_inst t = x" "it_mterm_idx t = ?g i" by auto
      have "i \<in> set (sort_key ?g ?js)" using True by simp
      then obtain k where k: "k < length ?js" "sort_key ?g ?js ! k = i" by (metis in_set_conv_nth length_sort)
      then show ?thesis using t so [OF k(1)] by simp
    next
      case False
      then have s: "s_iterms s i = Some t" using i by (simp add: T)
      then show ?thesis using inst_iterms_okD(2) [OF assms(3) s] own [OF s] False by simp
    qed
  qed
qed

subsection \<open>Equivalent masters\<close>

lemma idx_map_none:
  assumes "terms_ok new" "terms_ok old"
  shows "idx_map new old \<noteq> None \<longleftrightarrow> mt_name ` set new = mt_name ` set old"
proof -
  have srt: "map mt_name (sort_key mt_name ts) = sorted_list_of_set (mt_name ` set ts)" if "terms_ok ts" for ts
  proof (rule sorted_distinct_set_unique)
    show "sorted (map mt_name (sort_key mt_name ts))" by (rule sorted_sort_key)
    show "distinct (map mt_name (sort_key mt_name ts))" using that by (simp add: terms_ok_def distinct_map)
  qed simp_all
  have len: "card (mt_name ` set ts) = length ts" if "terms_ok ts" for ts
    using distinct_card [of "map mt_name ts"] that by (simp add: terms_ok_def)
  have names: "list_all (\<lambda>(t1, t2). mt_name t1 = mt_name t2) (zip as bs) \<longleftrightarrow> map mt_name as = map mt_name bs"
    if "length as = length bs" for as bs
    using that by (induction as bs rule: list_induct2) simp_all
  have "idx_map new old \<noteq> None \<longleftrightarrow> length old = length new \<and> map mt_name (sort_key mt_name new) = map mt_name (sort_key mt_name old)"
    by (auto simp: idx_map_def Let_def names)
  also have "\<dots> \<longleftrightarrow> mt_name ` set new = mt_name ` set old"
    unfolding srt [OF assms(1)] srt [OF assms(2)]
    using len [OF assms(1)] len [OF assms(2)] by (metis List.finite_set finite_imageI sorted_list_of_set.set_sorted_key_list_of_set)
  finally show ?thesis .
qed

end
