(* ===== verification/Odb_Net_Invariant.thy ===== *)
theory Odb_Net_Invariant
  imports Odb_Net_Swap
begin

section \<open>Consistency of the netlist\<close>

text \<open>
  The invariant of a netlist: tables and indexes are in order, the terminals of every net are linked in two
  lists that hold exactly the terminals that name the net, instances and their terminals name each other, and
  every header counts the instances of its master. Every operation keeps it and does not fail.
\<close>

definition net_inv :: "libs \<Rightarrow> nstate \<Rightarrow> bool" where
  "net_inv libs s \<longleftrightarrow> (\<exists>L. iterms_listed s L) \<and> (\<exists>L. bterms_listed s L) \<and> hdrs_ok libs s \<and> inst_iterms_ok s"

definition netlist_ok :: "libs \<Rightarrow> netlist \<Rightarrow> bool" where
  "netlist_ok libs b \<longleftrightarrow> tables_ok b \<and> net_inv libs (state_of b)"

lemma invI: "iterms_listed s Li \<Longrightarrow> bterms_listed s Lb \<Longrightarrow> hdrs_ok libs s \<Longrightarrow> inst_iterms_ok s \<Longrightarrow> net_inv libs s"
  unfolding net_inv_def by blast

lemma invE:
  assumes "net_inv libs s"
  obtains Li Lb where "iterms_listed s Li" "bterms_listed s Lb" "hdrs_ok libs s" "inst_iterms_ok s"
  using assms unfolding net_inv_def by blast

lemma inv_journal: "net_inv libs (s\<lparr>s_journal := j\<rparr>) = net_inv libs s"
  by (simp add: net_inv_def hdrs_ok_def has_inst_def inst_iterms_ok_def)

lemma netlist_after: "netlist_ok libs b \<Longrightarrow> after (state_of b) [] b"
  by (rule after_st) (simp add: netlist_ok_def st_def)

lemma after_netlist:
  assumes "after s cs b" "net_inv libs s"
  shows "netlist_ok libs b" "recorded cs (s_journal s) (journal b)" "state_of b = s\<lparr>s_journal := journal b\<rparr>"
proof -
  obtain j where j: "st b (s\<lparr>s_journal := j\<rparr>)" "recorded cs (s_journal s) j" by (rule after_obtain [OF assms(1)])
  have "journal b = s_journal (state_of b)" by simp
  also have "\<dots> = j" unfolding stD(2) [OF j(1)] by simp
  finally have jb: "journal b = j" .
  show "recorded cs (s_journal s) (journal b)" using j(2) by (simp add: jb)
  show "state_of b = s\<lparr>s_journal := journal b\<rparr>" using stD(2) [OF j(1)] by (simp add: jb)
  show "netlist_ok libs b" unfolding netlist_ok_def stD(2) [OF j(1)] using stD(1) [OF j(1)] assms(2) by (simp add: inv_journal)
qed

subsection \<open>Operations\<close>

datatype nl_op = NetNew string bool | NetDel nat | InstNew lib_master string | InstDel nat | BTermNew nat string | BTermDel nat
  | BTermConn nat nat | BTermDisc nat | ITermConn nat nat | ITermDisc nat | Swap nat lib_master

fun run_op :: "libs \<Rightarrow> nl_op \<Rightarrow> netlist \<Rightarrow> netlist result" where
  "run_op libs (NetNew nm skip) b = discard (dbNet_create nm skip b)"
| "run_op libs (NetDel n) b = dbNet_destroy n b"
| "run_op libs (InstNew m nm) b = discard (dbInst_create m nm b)"
| "run_op libs (InstDel x) b = dbInst_destroy libs x b"
| "run_op libs (BTermNew n nm) b = discard (dbBTerm_create n nm b)"
| "run_op libs (BTermDel t) b = dbBTerm_destroy t b"
| "run_op libs (BTermConn t n) b = dbBTerm_connect t n b"
| "run_op libs (BTermDisc t) b = dbBTerm_disconnect t b"
| "run_op libs (ITermConn t n) b = dbITerm_connect t n b"
| "run_op libs (ITermDisc t) b = dbITerm_disconnect t b"
| "run_op libs (Swap x m) b = discard (dbInst_swapMaster libs x m b)"

definition has_room :: "nat \<Rightarrow> netlist \<Rightarrow> bool" where
  \<comment> \<open>for \<open>k\<close> more pages in every table\<close>
  "has_room k b \<longleftrightarrow> cap (net_tbl b) + 128 * k \<le> 2 ^ 31 \<and> cap (iterm_tbl b) + 128 * k \<le> 2 ^ 31 \<and> cap (bterm_tbl b) + 128 * k \<le> 2 ^ 31
     \<and> cap (inst_tbl b) + 128 * k \<le> 2 ^ 31 \<and> cap (inst_hdr_tbl b) + 128 * k \<le> 2 ^ 31"

definition name_used :: "string \<Rightarrow> ((string, 'b) entry_scheme dbTable) \<Rightarrow> bool" where
  "name_used nm t \<longleftrightarrow> has_key (view t) nm"

fun op_ok :: "libs \<Rightarrow> nl_op \<Rightarrow> netlist \<Rightarrow> bool" where
  \<comment> \<open>The calls that the theorems are about. The pointers exist, the masters are frozen masters of the libraries,
      names have less than \<open>2 ^ 31\<close> bytes and ids stay below \<open>2 ^ 31\<close>. Two legal calls are left out, both with a
      name that is in use: \<open>dbNet::create\<close> with \<open>skipExistingCheck\<close> (dbNet.cpp:2902), which makes a second
      net of the name that \<open>redo\<close> does not make, and \<open>dbInst::create\<close> with a master that has no header yet
      (dbInst.cpp:1345), which leaves the header but records nothing.\<close>
  "op_ok libs (NetNew nm skip) b \<longleftrightarrow> length nm < 2 ^ 31 \<and> has_room 1 b \<and> (skip \<longrightarrow> \<not> name_used nm (net_tbl b))"
| "op_ok libs (NetDel n) b \<longleftrightarrow> n \<in> ids (net_tbl b)"
| "op_ok libs (InstNew m nm) b \<longleftrightarrow> length nm < 2 ^ 31 \<and> in_libs libs m \<and> m_frozen m \<and> has_room (1 + length (m_mterms m)) b
     \<and> (name_used nm (inst_tbl b) \<longrightarrow> has_key (view (inst_hdr_tbl b)) (m_id m))"
| "op_ok libs (InstDel x) b \<longleftrightarrow> x \<in> ids (inst_tbl b)"
| "op_ok libs (BTermNew n nm) b \<longleftrightarrow> length nm < 2 ^ 31 \<and> n \<in> ids (net_tbl b) \<and> has_room 1 b"
| "op_ok libs (BTermDel t) b \<longleftrightarrow> t \<in> ids (bterm_tbl b)"
| "op_ok libs (BTermConn t n) b \<longleftrightarrow> t \<in> ids (bterm_tbl b) \<and> n \<in> ids (net_tbl b)"
| "op_ok libs (BTermDisc t) b \<longleftrightarrow> t \<in> ids (bterm_tbl b)"
| "op_ok libs (ITermConn t n) b \<longleftrightarrow> t \<in> ids (iterm_tbl b) \<and> n \<in> ids (net_tbl b)"
| "op_ok libs (ITermDisc t) b \<longleftrightarrow> t \<in> ids (iterm_tbl b)"
| "op_ok libs (Swap x m) b \<longleftrightarrow> x \<in> ids (inst_tbl b) \<and> in_libs libs m \<and> m_frozen m \<and> has_room 1 b"

lemma string_ok_cstring: "string_ok (cstring nm) \<longleftrightarrow> length nm < 2 ^ 31"
  by (simp add: string_ok_def cstring_def)

lemma ids_iterms: "i \<in> ids (iterm_tbl b) \<longleftrightarrow> (\<exists>t. s_iterms (state_of b) i = Some t)"
  using dom_objs [of "iterm_tbl b"] by (auto simp: dom_def)

lemma ids_state:
  "n \<in> ids (net_tbl b) \<longleftrightarrow> (\<exists>a. s_nets (state_of b) n = Some a)" "n \<in> ids (bterm_tbl b) \<longleftrightarrow> (\<exists>u. s_bterms (state_of b) n = Some u)"
  "n \<in> ids (inst_tbl b) \<longleftrightarrow> (\<exists>y. s_insts (state_of b) n = Some y)" "n \<in> ids (inst_hdr_tbl b) \<longleftrightarrow> (\<exists>h. s_hdrs (state_of b) n = Some h)"
  by (simp_all add: view_ids)

lemma room_state:
  "has_room k b \<longleftrightarrow> c_nets (state_of b) + 128 * k \<le> 2 ^ 31 \<and> c_iterms (state_of b) + 128 * k \<le> 2 ^ 31
     \<and> c_bterms (state_of b) + 128 * k \<le> 2 ^ 31 \<and> c_insts (state_of b) + 128 * k \<le> 2 ^ 31 \<and> c_hdrs (state_of b) + 128 * k \<le> 2 ^ 31"
  by (simp add: has_room_def state_of_def)

subsection \<open>Every operation keeps the invariant\<close>

lemma ends_discard: "ends m (\<lambda>(e, b). Q b) \<Longrightarrow> ends (discard m) Q"
  by (force simp: ends_def discard_def)

definition keeps_inv :: "libs \<Rightarrow> nstate \<Rightarrow> change list \<Rightarrow> netlist \<Rightarrow> bool" where
  \<comment> \<open>a netlist in order, these changes after \<open>s\<close>\<close>
  "keeps_inv libs s cs b \<longleftrightarrow> (\<exists>s'. after s' cs b \<and> net_inv libs s' \<and> s_journal s' = s_journal s)"

lemma inv_same:
  assumes "same_objects s s'" "iterms_listed s' Li" "bterms_listed s' Lb" "hdrs_ok libs s" "inst_iterms_ok s"
  shows "net_inv libs s'" "s_journal s' = s_journal s"
  by (rule invI [OF assms(2,3) same_insts_ok(1) [OF assms(1,4)] same_insts_ok(2) [OF assms(1,5)]]) (rule same_objectsD(8) [OF assms(1)])

lemma iterm_disconnect_inv:
  assumes "after s cs b" "net_inv libs s" "s_iterms s i = Some t"
  shows "ends (dbITerm_disconnect i b) (keeps_inv libs s (cs @ iterm_gone_change s i))"
proof -
  obtain Li Lb where l: "iterms_listed s Li" "bterms_listed s Lb" "hdrs_ok libs s" "inst_iterms_ok s" by (rule invE [OF assms(2)])
  note k = inv_same [OF unlinked_same(1) iterm_unlinked_listed(1) [OF l(1) assms(3)] bterms_listed_iterm(1) [OF l(2)] l(3,4)]
  from iterm_disconnect_ends [OF assms(1) l(1) assms(3)] show ?thesis
    by (rule ends_mono) (use k assms(3) in \<open>auto simp: keeps_inv_def iterm_gone_change_def\<close>)
qed

lemma iterm_connect_inv:
  assumes "after s cs b" "net_inv libs s" "s_iterms s i = Some t" "s_nets s n = Some a"
  shows "ends (dbITerm_connect i n b) (keeps_inv libs s (cs @ (if it_net t = n then []
      else iterm_gone_change s i @ [OnTerm (ITermConnect (of_nat i) (of_nat n))])))"
proof -
  obtain Li Lb where l: "iterms_listed s Li" "bterms_listed s Lb" "hdrs_ok libs s" "inst_iterms_ok s" by (rule invE [OF assms(2)])
  have so: "same_objects s (iterm_connected i n s)"
    using assms(3) same_objects_trans [OF unlinked_same(1) linked_same(1)] by (simp add: iterm_connected_def)
  have lb: "bterms_listed (iterm_connected i n s) Lb"
    using assms(3) l(2) bterms_listed_iterm(2) [OF bterms_listed_iterm(1) [OF l(2)]] by (simp add: iterm_connected_def)
  note c = iterm_connect_ends [OF assms(1) l(1) assms(3,4)]
  note k = inv_same [OF so c(2) lb l(3,4)]
  from c(1) show ?thesis
    by (rule ends_mono) (use k assms(3) in \<open>auto simp: keeps_inv_def iterm_gone_change_def\<close>)
qed

lemma bterm_disconnect_inv:
  assumes "after s cs b" "net_inv libs s" "s_bterms s i = Some t"
  shows "ends (dbBTerm_disconnect i b) (keeps_inv libs s (cs @ (if bt_net t = 0 then [] else [OnTerm (BTermDisconnect (of_nat i))])))"
proof -
  obtain Li Lb where l: "iterms_listed s Li" "bterms_listed s Lb" "hdrs_ok libs s" "inst_iterms_ok s" by (rule invE [OF assms(2)])
  note k = inv_same [OF unlinked_same(2) iterms_listed_bterm(1) [OF l(1)] bterm_unlinked_listed(1) [OF l(2) assms(3)] l(3,4)]
  from bterm_disconnect_ends [OF assms(1) l(2) assms(3)] show ?thesis
    by (rule ends_mono) (use k in \<open>auto simp: keeps_inv_def\<close>)
qed

lemma bterm_connect_inv:
  assumes "after s cs b" "net_inv libs s" "s_bterms s i = Some t" "s_nets s n = Some a"
  shows "ends (dbBTerm_connect i n b) (keeps_inv libs s (cs @ [OnTerm (BTermConnect (of_nat i) (of_nat n))]))"
proof -
  obtain Li Lb where l: "iterms_listed s Li" "bterms_listed s Lb" "hdrs_ok libs s" "inst_iterms_ok s" by (rule invE [OF assms(2)])
  note c = bterm_connect_ends [OF assms(1) l(2) assms(3,4)]
  note k = inv_same [OF same_objects_trans [OF unlinked_same(2) linked_same(2)]
      iterms_listed_bterm(2) [OF iterms_listed_bterm(1) [OF l(1)]] c(2) l(3,4)]
  from c(1) show ?thesis by (rule ends_mono) (use k in \<open>auto simp: keeps_inv_def\<close>)
qed

lemma same_but_bterms_ok:
  assumes "same_but_bterms s s'"
  shows "hdrs_ok libs s \<Longrightarrow> hdrs_ok libs s'" "inst_iterms_ok s \<Longrightarrow> inst_iterms_ok s'" "s_journal s' = s_journal s"
  using assms by (simp_all add: same_but_bterms_def hdrs_ok_def has_inst_def inst_iterms_ok_def)

lemma bterm_destroy_inv:
  assumes "after s cs b" "net_inv libs s" "s_bterms s i = Some t"
  shows "ends (dbBTerm_destroy i b) (keeps_inv libs s (cs @ [OnTerm (BTermDestroy (of_nat i))]))"
proof -
  obtain Li Lb where l: "iterms_listed s Li" "bterms_listed s Lb" "hdrs_ok libs s" "inst_iterms_ok s" by (rule invE [OF assms(2)])
  note d = bterm_destroy_ends [OF assms(1) l(2) assms(3)] note o = same_but_bterms_ok [OF bterm_gone_same [of s i]]
  have "iterms_listed (bterm_gone i s) Li" using iterms_listed_bterms_gone [OF l(1), of "[i]"] by simp
  from invI [OF this d(2) o(1) [OF l(3)] o(2) [OF l(4)]] have "net_inv libs (bterm_gone i s)" .
  with d(1) show ?thesis by (elim ends_mono) (use o(3) in \<open>auto simp: keeps_inv_def\<close>)
qed

lemma bterm_create_inv:
  assumes "after s cs b" "net_inv libs s" "s_nets s n = Some a" "c_bterms s + 128 \<le> 2 ^ 31" "string_ok (cstring nm)"
  shows "ends (dbBTerm_create n nm b) (\<lambda>(e, b'). if has_key (s_bterms s) nm then e = 0 \<and> b' = b
     else keeps_inv libs s (cs @ [OnTerm (BTermCreate (of_nat n) (cstring nm))]) b')"
proof -
  obtain Li Lb where l: "iterms_listed s Li" "bterms_listed s Lb" "hdrs_ok libs s" "inst_iterms_ok s" by (rule invE [OF assms(2)])
  show ?thesis
  proof (rule ends_mono [OF bterm_create_ends [OF assms(1) l(2) assms(3-5)]], clarify)
    fix e b' assume c: "if has_key (s_bterms s) nm then e = 0 \<and> b' = b
     else e \<noteq> 0 \<and> s_bterms s e = None \<and> (\<exists>s'. s' = bterm_linked e n (s\<lparr>s_bterms := (s_bterms s)(e \<mapsto>
            \<lparr>entry_key = nm, next_entry = 0, bt_net = 0, next_bterm = 0, prev_bterm = 0\<rparr>), c_bterms := c_bterms s'\<rparr>)
        \<and> c_bterms s' \<le> c_bterms s + 128 \<and> bterms_listed s' (Lb(n := e # Lb n))
        \<and> after s' (cs @ [OnTerm (BTermCreate (of_nat n) (cstring nm))]) b')"
    show "if has_key (s_bterms s) nm then e = 0 \<and> b' = b else keeps_inv libs s (cs @ [OnTerm (BTermCreate (of_nat n) (cstring nm))]) b'"
    proof (cases "has_key (s_bterms s) nm")
      case False
      then obtain s' T c' where s': "s' = bterm_linked e n (s\<lparr>s_bterms := T, c_bterms := c'\<rparr>)" "bterms_listed s' (Lb(n := e # Lb n))"
        "after s' (cs @ [OnTerm (BTermCreate (of_nat n) (cstring nm))]) b'" using c by auto
      let ?s = "s\<lparr>s_bterms := T, c_bterms := c'\<rparr>"
      have o: "hdrs_ok libs ?s" "inst_iterms_ok ?s" "iterms_listed ?s Li" using l by (simp_all add: hdrs_ok_def has_inst_def inst_iterms_ok_def)
      have "iterms_listed s' Li" unfolding s'(1) by (rule iterms_listed_bterm(2) [OF o(3)])
      moreover have "same_objects ?s s'" unfolding s'(1) by (rule linked_same(2))
      ultimately have "net_inv libs s'" "s_journal s' = s_journal ?s" using inv_same [of ?s s'] s'(2) o(1,2) by blast+
      then show ?thesis using s'(3) False by (auto simp: keeps_inv_def)
    qed (use c in simp)
  qed
qed

lemma net_create_inv:
  assumes "after s cs b" "net_inv libs s" "c_nets s + 128 \<le> 2 ^ 31" "string_ok (cstring nm)" "skip \<longrightarrow> \<not> has_key (s_nets s) nm"
  shows "ends (dbNet_create nm skip b) (\<lambda>(e, b'). if has_key (s_nets s) nm then e = 0 \<and> b' = b
     else keeps_inv libs s (cs @ [OnNet (NetCreate (cstring nm))]) b')"
proof -
  obtain Li Lb where l: "iterms_listed s Li" "bterms_listed s Lb" "hdrs_ok libs s" "inst_iterms_ok s" by (rule invE [OF assms(2)])
  show ?thesis
  proof (rule ends_mono [OF net_create_ends [OF assms(1,3-5)]], clarify)
    fix e b' assume c: "if has_key (s_nets s) nm then e = 0 \<and> b' = b
     else e \<noteq> 0 \<and> s_nets s e = None \<and> (\<exists>c \<le> c_nets s + 128.
        after (s\<lparr>s_nets := (s_nets s)(e \<mapsto> new_net_obj nm), c_nets := c\<rparr>) (cs @ [OnNet (NetCreate (cstring nm))]) b')"
    show "if has_key (s_nets s) nm then e = 0 \<and> b' = b else keeps_inv libs s (cs @ [OnNet (NetCreate (cstring nm))]) b'"
    proof (cases "has_key (s_nets s) nm")
      case False
      then obtain c' where a: "e \<noteq> 0" "s_nets s e = None"
        "after (s\<lparr>s_nets := (s_nets s)(e \<mapsto> new_net_obj nm), c_nets := c'\<rparr>) (cs @ [OnNet (NetCreate (cstring nm))]) b'" using c by auto
      let ?s = "s\<lparr>s_nets := (s_nets s)(e \<mapsto> new_net_obj nm), c_nets := c'\<rparr>"
      have "iterms_listed ?s (Li(e := []))" "bterms_listed ?s (Lb(e := []))"
        using listed_new_net [OF l(1) a(2,1)] listed_new_net [OF l(2) a(2,1)] by (simp_all add: new_net_obj_def)
      moreover have "hdrs_ok libs ?s" "inst_iterms_ok ?s" using l by (simp_all add: hdrs_ok_def has_inst_def inst_iterms_ok_def)
      ultimately have "net_inv libs ?s" by (rule invI)
      then show ?thesis using a(3) False by (auto simp: keeps_inv_def)
    qed (use c in simp)
  qed
qed

lemma net_destroy_inv:
  assumes "after s cs b" "net_inv libs s" "s_nets s n = Some a"
  shows "\<exists>Li Lb. iterms_listed s Li \<and> bterms_listed s Lb \<and> ends (dbNet_destroy n b) (keeps_inv libs s (cs @ net_destroy_changes Li Lb n))"
proof -
  obtain Li Lb where l: "iterms_listed s Li" "bterms_listed s Lb" "hdrs_ok libs s" "inst_iterms_ok s" by (rule invE [OF assms(2)])
  note d = net_destroy_ends [OF assms(1) l(1,2) assms(3)]
  let ?s1 = "bterms_gone (Lb n) (unlink_iterms (Li n) s)"
  note o1 = same_insts_ok [OF unlink_iterms_same(1) [of s "Li n"]]
  note o2 = same_but_bterms_ok [OF bterms_gone_same [of "unlink_iterms (Li n) s" "Lb n"]]
  have "hdrs_ok libs ?s1" "inst_iterms_ok ?s1" using o1 o2 l(3,4) by blast+
  then have "hdrs_ok libs (net_gone Li Lb n s)" "inst_iterms_ok (net_gone Li Lb n s)"
    by (simp_all add: net_gone_def Let_def hdrs_ok_def has_inst_def inst_iterms_ok_def)
  from invI [OF d(2,3) this] have "net_inv libs (net_gone Li Lb n s)" .
  moreover have "s_journal (net_gone Li Lb n s) = s_journal s"
    using o2(3) same_objectsD(8) [OF unlink_iterms_same(1) [of s "Li n"]] by (simp add: net_gone_def Let_def)
  ultimately have "ends (dbNet_destroy n b) (keeps_inv libs s (cs @ net_destroy_changes Li Lb n))"
    by (intro ends_mono [OF d(1)]) (auto simp: keeps_inv_def)
  then show ?thesis using l by blast
qed

lemma inst_create_inv:
  assumes "after s cs b" "net_inv libs s" "libs_ok libs" "in_libs libs m" "hdr_room m s" "c_insts s + 128 \<le> 2 ^ 31"
    and "c_iterms s + 128 * length (m_mterms m) \<le> 2 ^ 31" "string_ok (cstring nm)" "has_key (s_insts s) nm \<longrightarrow> has_key (s_hdrs s) (m_id m)"
  shows "ends (dbInst_create m nm b) (\<lambda>(e, b'). if has_key (s_insts s) nm then e = 0 \<and> after s cs b'
     else keeps_inv libs s (cs @ [OnInst (InstCreate (of_nat (m_lib m)) (of_nat (m_oid m)) (cstring nm))]) b')"
proof -
  obtain Li Lb where l: "iterms_listed s Li" "bterms_listed s Lb" "hdrs_ok libs s" "inst_iterms_ok s" by (rule invE [OF assms(2)])
  let ?cs = "cs @ [OnInst (InstCreate (of_nat (m_lib m)) (of_nat (m_oid m)) (cstring nm))]"
  show ?thesis
  proof (rule ends_mono [OF inst_create_ends [OF assms(1) l(3) assms(3-8)]], clarify)
    fix e b' assume c: "if has_key (s_insts s) nm then e = 0 \<and> (\<exists>h s1. with_hdr m h s s1 \<and> after s1 cs b')
     else e \<noteq> 0 \<and> (\<exists>s'. inst_made m nm e s s' \<and> after s' ?cs b')"
    show "if has_key (s_insts s) nm then e = 0 \<and> after s cs b' else keeps_inv libs s ?cs b'"
    proof (cases "has_key (s_insts s) nm")
      case True
      then show ?thesis using c assms(9) by (auto simp: with_hdr_def)
    next
      case False
      then obtain s' where s': "inst_made m nm e s s'" "after s' ?cs b'" using c by auto
      note o = inst_made_ok [OF s'(1) assms(1) l(3,4) assms(3,4) False]
      from invI [OF o(3) [OF l(1)] o(4) [OF l(2)] o(1,2)] have "net_inv libs s'" .
      then show ?thesis using False s'(2) o(7) by (auto simp: keeps_inv_def)
    qed
  qed
qed

lemma inst_destroy_inv:
  assumes "after s cs b" "net_inv libs s" "s_insts s x = Some y"
  shows "ends (dbInst_destroy libs x b) (keeps_inv libs s (cs @ inst_destroy_changes s x y))"
proof -
  obtain Li Lb where l: "iterms_listed s Li" "bterms_listed s Lb" "hdrs_ok libs s" "inst_iterms_ok s" by (rule invE [OF assms(2)])
  note d = inst_destroy_ends [OF assms(1) l(1,3,4) assms(3)] note g = inst_gone_ok [OF assms(1) l(1,3,4) assms(3)]
  obtain L' where "iterms_listed (inst_gone x s) L'" using d(2) by blast
  from invI [OF this g(3) [OF l(2)] g(1,2)] have "net_inv libs (inst_gone x s)" .
  with d(1) show ?thesis by (elim ends_mono) (use g(5) in \<open>auto simp: keeps_inv_def\<close>)
qed

lemma hdr_dropped_caps [simp]: "c_hdrs (hdr_dropped h s) = c_hdrs s"
  by (simp add: hdr_dropped_def split: option.split)

lemma swap_inv:
  assumes "after s cs b" "net_inv libs s" "s_insts s x = Some y" "libs_ok libs" "in_libs libs m" "m_frozen m" "c_hdrs s + 128 \<le> 2 ^ 31"
  shows "ends (dbInst_swapMaster libs x m b) (\<lambda>(fin, b'). keeps_inv libs s (cs @ [swap_change x m]) b')"
proof -
  obtain Li Lb where l: "iterms_listed s Li" "bterms_listed s Lb" "hdrs_ok libs s" "inst_iterms_ok s" by (rule invE [OF assms(2)])
  obtain hd0 where h: "s_hdrs s (i_inst_hdr y) = Some hd0" using hdrs_okD(1) [OF l(3) assms(3)] by blast
  obtain old where old: "hdr_of libs old hd0" using hdrs_okD(2) [OF l(3) h] ..
  have "hdr_room m (hdr_dropped (i_inst_hdr y) s)" using assms(6,7) by (simp add: hdr_room_def)
  note e = swap_ends [OF assms(1) l(3,4) assms(3) h old assms(4,5) this]
  show ?thesis
  proof (rule ends_mono [OF e], clarify)
    fix fin b' assume c: "case idx_map (m_mterms m) (m_mterms old) of
       None \<Rightarrow> \<not> fin \<and> after s (cs @ [swap_change x m]) b'
     | Some im \<Rightarrow> fin \<and> (\<exists>h s2 hr. with_hdr m h (hdr_dropped (i_inst_hdr y) s) s2 \<and> s_hdrs s2 h = Some hr
           \<and> after (swapped im x y h hr s2) (cs @ [swap_change x m]) b')"
    show "keeps_inv libs s (cs @ [swap_change x m]) b'"
    proof (cases "idx_map (m_mterms m) (m_mterms old)")
      case None
      then show ?thesis using c assms(2) by (auto simp: keeps_inv_def)
    next
      case (Some im)
      then obtain g s2 hr where w: "with_hdr m g (hdr_dropped (i_inst_hdr y) s) s2" "s_hdrs s2 g = Some hr"
        "after (swapped im x y g hr s2) (cs @ [swap_change x m]) b'" using c by auto
      note k = swapped_ok [OF assms(1) l(3,4) assms(3) h old assms(4-6) Some w(1,2)]
      from invI [OF k(3) [OF l(1)] k(4) [OF l(2)] k(1,2)] have "net_inv libs (swapped im x y g hr s2)" .
      then show ?thesis using w(3) k(5) by (auto simp: keeps_inv_def)
    qed
  qed
qed

end
