(* ===== verification/Odb_Net_Commute.thy ===== *)
theory Odb_Net_Commute
  imports Odb_Net_Invariant
begin

section \<open>Instances are destroyed piece by piece\<close>

text \<open>
  \<open>dbInst::destroy\<close> disconnects and frees the terminals of the instance one after the other. It might as well
  disconnect all of them first: freeing a slot of a table commutes with assignments to other objects. The same
  holds for the terminals of a net that is destroyed.
\<close>

subsection \<open>Freeing a slot and assignments to other objects\<close>

lemma page_order: "p\<lparr>objects := os, alloccnt := n\<rparr> = p\<lparr>alloccnt := n, objects := os\<rparr>"
  by simp

lemma set_slot_swap:
  assumes "pages_ok t" "x \<noteq> y"
  shows "set_slot x s (set_slot y s' t) = set_slot y s' (set_slot x s t)"
proof -
  let ?p = "id_page t x" let ?q = "id_page t y" let ?i = "id_offset t x" let ?j = "id_offset t y"
  have d: "?p = ?q \<Longrightarrow> ?i \<noteq> ?j" using slot_id_split [OF assms(1)] assms(2) by metis
  have "(pages t)[?q := (pages t ! ?q)\<lparr>objects := (objects (pages t ! ?q))[?j := s']\<rparr>,
      ?p := ((pages t)[?q := (pages t ! ?q)\<lparr>objects := (objects (pages t ! ?q))[?j := s']\<rparr>] ! ?p)\<lparr>objects :=
        (objects ((pages t)[?q := (pages t ! ?q)\<lparr>objects := (objects (pages t ! ?q))[?j := s']\<rparr>] ! ?p))[?i := s]\<rparr>]
    = (pages t)[?p := (pages t ! ?p)\<lparr>objects := (objects (pages t ! ?p))[?i := s]\<rparr>,
      ?q := ((pages t)[?p := (pages t ! ?p)\<lparr>objects := (objects (pages t ! ?p))[?i := s]\<rparr>] ! ?q)\<lparr>objects :=
        (objects ((pages t)[?p := (pages t ! ?p)\<lparr>objects := (objects (pages t ! ?p))[?i := s]\<rparr>] ! ?q))[?j := s']\<rparr>]"
  proof (cases "?p = ?q")
    case True
    then show ?thesis using list_update_swap [OF d [OF True], of "objects (pages t ! ?q)" s s']
      by (cases "?q < page_cnt t") (simp_all add: list_update_beyond)
  qed (simp add: list_update_swap)
  then show ?thesis by (simp add: set_slot_def id_page_def id_offset_def)
qed

lemma count_alloc_set_slot: "count_alloc f e (set_slot x s t) = set_slot x s (count_alloc f e t)"
proof (cases "id_page t x = id_page t e")
  case True
  then show ?thesis
    by (cases "id_page t e < page_cnt t") (simp_all add: set_slot_def count_alloc_def id_page_def id_offset_def list_update_beyond page_order)
qed (simp add: set_slot_def count_alloc_def id_page_def id_offset_def list_update_swap)

lemma slot_at_other:
  assumes "pages_ok t" "y \<noteq> x"
  shows "slot_at (set_slot x s t) y = slot_at t y"
proof (cases "x < cap t")
  case True
  then show ?thesis using slot_at_set_slot [OF assms(1) True] assms(2) by simp
next
  case False
  then have "\<not> id_page t x < page_cnt t" using in_cap [OF assms(1)] by simp
  then show ?thesis by (simp add: set_slot_def list_update_beyond slot_at_def id_page_def id_offset_def)
qed

definition mapE :: "('a \<Rightarrow> 'b) \<Rightarrow> 'a result \<Rightarrow> 'b result" where
  "mapE f m = bindE m (\<lambda>x. Inr (f x))"

lemma mapE_simps [simp]: "mapE f (Inr x) = Inr (f x)" "mapE f (Inl e) = Inl e"
  by (simp_all add: mapE_def)

lemma getFreeObj_other: "pages_ok t \<Longrightarrow> y \<noteq> x \<Longrightarrow> getFreeObj (set_slot x s t) y = getFreeObj t y"
  by (simp add: getFreeObj_def slot_at_other)

lemma pushQ_other:
  assumes "pages_ok t" "e \<noteq> x" "free_list t \<noteq> x"
  shows "pushQ e (set_slot x s t) = mapE (set_slot x s) (pushQ e t)"
proof -
  have swap: "set_slot y s' (set_slot x s t') = set_slot x s (set_slot y s' t')" if "y \<noteq> x" "pages_ok t'" for y s' t'
    using set_slot_swap [OF that(2,1)] .
  have fl: "set_slot x s t'\<lparr>free_list := q\<rparr> = (set_slot x s t')\<lparr>free_list := q\<rparr>" for t' q by simp
  have field: "(set_slot x s t')\<lparr>free_list := q\<rparr> = set_slot x s (t'\<lparr>free_list := q\<rparr>)" for t' q
    by (simp add: set_slot_def id_page_def id_offset_def)
  show ?thesis
  proof (cases "free_list t = 0")
    case True
    then show ?thesis using assms by (simp add: pushQ_def swap field)
  next
    case False
    let ?t = "set_slot e (Free (free_list t) 0) t"
    have ok: "pages_ok ?t" using assms(1) by simp
    have g: "getFreeObj (set_slot e (Free (free_list t) 0) (set_slot x s t)) (free_list t) = getFreeObj ?t (free_list t)"
      using getFreeObj_other [OF ok assms(3)] swap [OF assms(2,1)] by simp
    show ?thesis
    proof (cases "getFreeObj ?t (free_list t)")
      case (Inr np)
      obtain n p where np: "np = (n, p)" by (cases np)
      show ?thesis using False g Inr np swap [OF assms(2,1)] swap [OF assms(3) ok] by (simp add: pushQ_def Let_def field)
    next
      case (Inl f)
      then show ?thesis using False g by (simp add: pushQ_def Let_def)
    qed
  qed
qed

lemma is_obj_set:
  assumes "is_obj (slot_at t x)"
  shows "is_obj (objects (pages (set_slot x (Obj a) t) ! p) ! i) = is_obj (objects (pages t ! p) ! i)"
  using assms by (cases "id_offset t x = i"; cases "i < length (objects (pages t ! p))") (auto simp: pages_set_slot slot_at_def list_update_beyond)

lemma first_obj_set:
  assumes "is_obj (slot_at t x)"
  shows "first_obj (pages (set_slot x (Obj a) t) ! p) is = first_obj (pages t ! p) is"
  unfolding first_obj_def is_obj_set [OF assms] ..

lemma ends_set:
  assumes "is_obj (slot_at t x)"
  shows "findBottom (set_slot x (Obj a) t) = mapE (set_slot x (Obj a)) (findBottom t)"
    "findTop (set_slot x (Obj a) t) = mapE (set_slot x (Obj a)) (findTop t)"
proof -
  have v: "valid_page (pages (set_slot x (Obj a) t) ! p) = valid_page (pages t ! p)" for p by (simp add: valid_page_def)
  have f: "(set_slot x (Obj a) t)\<lparr>bottom_idx := n\<rparr> = set_slot x (Obj a) (t\<lparr>bottom_idx := n\<rparr>)"
    "(set_slot x (Obj a) t)\<lparr>top_idx := n\<rparr> = set_slot x (Obj a) (t\<lparr>top_idx := n\<rparr>)" for n
    by (simp_all add: set_slot_def id_page_def id_offset_def)
  show "findBottom (set_slot x (Obj a) t) = mapE (set_slot x (Obj a)) (findBottom t)"
    unfolding findBottom_def Let_def by (auto simp: v first_obj_set [OF assms] f split: option.splits)
  show "findTop (set_slot x (Obj a) t) = mapE (set_slot x (Obj a)) (findTop t)"
    unfolding findTop_def Let_def by (auto simp: v first_obj_set [OF assms] f split: option.splits)
qed

lemma destroy_other:
  assumes "table_ok t" "e \<in> ids t" "x \<in> ids t" "e \<noteq> x"
  shows "dbTable_destroy e (set_slot x (Obj a) t) = mapE (set_slot x (Obj a)) (dbTable_destroy e t)"
proof -
  let ?P = "set_slot x (Obj a)"
  define t2 where "t2 = set_slot e (Free 0 0) (count_alloc (\<lambda>n. n - 1) e (t\<lparr>alloc_cnt := alloc_cnt t - 1\<rparr>))"
  have ok: "pages_ok t" "slots_ok t" "counts_ok t" using assms(1) by (simp_all add: table_ok_def slots_ok_def)
  have ok2: "pages_ok t2" using ok(1) by (simp add: t2_def)
  have x: "is_obj (slot_at t x)" "x < cap t" "0 < x" and e: "is_obj (slot_at t e)" "0 < e" using assms(2,3) by (simp_all add: ids_def)
  obtain fl where fl: "dll (slot_at t) 0 (free_list t) fl" using ok(2) by (auto simp: slots_ok_def)
  have "free_list t \<noteq> x"
  proof
    assume f: "free_list t = x"
    obtain n ys where "slot_at t x = Free n 0" using dll_head [OF fl] f x(3) by auto
    then show False using x(1) by simp
  qed
  then have fx: "free_list t2 \<noteq> x" by (simp add: t2_def)
  have fld: "(?P t)\<lparr>alloc_cnt := n\<rparr> = ?P (t\<lparr>alloc_cnt := n\<rparr>)" for n by (simp add: set_slot_def id_page_def id_offset_def)
  have "set_slot e (Free 0 0) (count_alloc (\<lambda>n. n - 1) e ((?P t)\<lparr>alloc_cnt := alloc_cnt (?P t) - 1\<rparr>)) = ?P t2"
    using ok(1) assms(4) by (simp add: fld count_alloc_set_slot t2_def set_slot_swap)
  moreover obtain t3 where t3: "pushQ e t2 = Inr t3" "ids t3 = ids t - {e}"
    using freed_ok [OF ok(2,3) assms(2)] unfolding t2_def by blast
  have x3: "is_obj (slot_at t3 x)" using t3(2) assms(3,4) by (auto simp: ids_def)
  have p: "pushQ e (?P t2) = Inr (?P t3)" using pushQ_other [OF ok2 assms(4) fx] t3(1) by simp
  have fb: "findBottom (?P t3) = mapE ?P (findBottom t3)" by (rule ends_set(1) [OF x3])
  have ft: "findTop (?P u) = mapE ?P (findTop u)" if "slot_at u = slot_at t3" for u by (rule ends_set(2)) (simp add: that x3)
  have b: "slot_at u = slot_at t3" if "findBottom t3 = Inr u" for u
    using that by (auto simp: findBottom_def Let_def split: if_splits option.splits)
  have tail: "bindE (if e = bottom_idx (?P t3) then findBottom (?P t3) else Inr (?P t3)) (\<lambda>t. if e = top_idx t then findTop t else Inr t)
      = mapE ?P (bindE (if e = bottom_idx t3 then findBottom t3 else Inr t3) (\<lambda>t. if e = top_idx t then findTop t else Inr t))"
    using fb ft b by (cases "findBottom t3") auto
  have "is_obj (slot_at (?P t) e)" using slot_at_other [OF ok(1) assms(4)] e(1) by simp
  ultimately show ?thesis
    unfolding dbTable_destroy_def Let_def using e p tail t3(1) unfolding t2_def [symmetric] by simp
qed

subsection \<open>Freeing a terminal and steps at other terminals\<close>

definition free_iterm :: "nat \<Rightarrow> netlist \<Rightarrow> netlist result" where
  "free_iterm i b = bindE (dbTable_destroy i (iterm_tbl b)) (\<lambda>t. Inr (b\<lparr>iterm_tbl := t\<rparr>))"

lemma destroy_iterm_parts: "destroy_iterm i b = bindE (dbITerm_disconnect i b) (free_iterm i)"
  unfolding destroy_iterm_def free_iterm_def [abs_def] ..

definition passes :: "nat \<Rightarrow> (netlist \<Rightarrow> netlist result) \<Rightarrow> bool" where
  \<comment> \<open>it does not matter if the terminal is freed before or after this step\<close>
  "passes i g \<longleftrightarrow> (\<forall>b. table_ok (iterm_tbl b) \<longrightarrow> i \<in> ids (iterm_tbl b) \<longrightarrow>
     bindE (free_iterm i b) g = bindE (g b) (free_iterm i)
     \<and> (\<forall>b'. g b = Inr b' \<longrightarrow> table_ok (iterm_tbl b') \<and> ids (iterm_tbl b') = ids (iterm_tbl b)))"

lemma free_iterm_frees:
  assumes "table_ok (iterm_tbl b)" "i \<in> ids (iterm_tbl b)"
  shows "\<exists>t. free_iterm i b = Inr (b\<lparr>iterm_tbl := t\<rparr>) \<and> dbTable_destroy i (iterm_tbl b) = Inr t \<and> table_ok t
     \<and> objs t = (objs (iterm_tbl b))(i := None)"
  using destroy_result [OF assms] by (auto simp: free_iterm_def)

lemma passes_bind:
  assumes "passes i g" "passes i h"
  shows "passes i (\<lambda>b. bindE (g b) h)"
  unfolding passes_def
proof (intro allI impI)
  fix b :: netlist assume b: "table_ok (iterm_tbl b)" "i \<in> ids (iterm_tbl b)"
  have g: "bindE (free_iterm i b) g = bindE (g b) (free_iterm i)"
    "\<And>b'. g b = Inr b' \<Longrightarrow> table_ok (iterm_tbl b') \<and> ids (iterm_tbl b') = ids (iterm_tbl b)"
    using assms(1) b unfolding passes_def by blast+
  have "bindE (free_iterm i b) (\<lambda>b. bindE (g b) h) = bindE (bindE (free_iterm i b) g) h" by (cases "free_iterm i b") simp_all
  also have "\<dots> = bindE (bindE (g b) (free_iterm i)) h" unfolding g(1) ..
  also have "\<dots> = bindE (bindE (g b) h) (free_iterm i)"
  proof (cases "g b")
    case (Inr b1)
    have "bindE (free_iterm i b1) h = bindE (h b1) (free_iterm i)" using assms(2) g(2) [OF Inr] b(2) unfolding passes_def by auto
    then show ?thesis using Inr by simp
  qed simp
  finally show "bindE (free_iterm i b) (\<lambda>b. bindE (g b) h) = bindE (bindE (g b) h) (free_iterm i)
    \<and> (\<forall>b'. bindE (g b) h = Inr b' \<longrightarrow> table_ok (iterm_tbl b') \<and> ids (iterm_tbl b') = ids (iterm_tbl b))"
  proof (intro conjI allI impI)
    fix b' assume "bindE (g b) h = Inr b'"
    then obtain b1 where b1: "g b = Inr b1" "h b1 = Inr b'" by auto
    have "table_ok (iterm_tbl b') \<and> ids (iterm_tbl b') = ids (iterm_tbl b1)" using assms(2) g(2) [OF b1(1)] b(2) b1(2) unfolding passes_def by auto
    then show "table_ok (iterm_tbl b')" "ids (iterm_tbl b') = ids (iterm_tbl b)" using g(2) [OF b1(1)] by simp_all
  qed
qed

lemma passes_Inr: "passes i (\<lambda>b. Inr b)"
  unfolding passes_def by (auto simp: bindE_def split: sum.split)

lemma passes_other:
  \<comment> \<open>a step that leaves the terminals alone\<close>
  assumes "\<And>b t. g (b\<lparr>iterm_tbl := t\<rparr>) = mapE (\<lambda>b. b\<lparr>iterm_tbl := t\<rparr>) (g b)" "\<And>b b'. g b = Inr b' \<Longrightarrow> iterm_tbl b' = iterm_tbl b"
  shows "passes i g"
  unfolding passes_def
proof (intro allI impI conjI)
  fix b :: netlist assume b: "table_ok (iterm_tbl b)" "i \<in> ids (iterm_tbl b)"
  obtain t where t: "free_iterm i b = Inr (b\<lparr>iterm_tbl := t\<rparr>)" "dbTable_destroy i (iterm_tbl b) = Inr t" using free_iterm_frees [OF b] by blast
  show "bindE (free_iterm i b) g = bindE (g b) (free_iterm i)"
    using assms(1) [of t b] assms(2) [of b] t by (cases "g b") (simp_all add: free_iterm_def)
next
  fix b b' :: netlist assume b: "table_ok (iterm_tbl b)" "i \<in> ids (iterm_tbl b)" "g b = Inr b'"
  then show "table_ok (iterm_tbl b')" "ids (iterm_tbl b') = ids (iterm_tbl b)" using assms(2) [OF b(3)] by simp_all
qed

lemma passes_mod_net: "passes i (mod_net n f)"
  by (rule passes_other) (auto simp: mod_net_def mapE_def bindE_def split: sum.splits)

lemma passes_write: "passes i (write_journal w)"
  by (rule passes_other) (auto simp: write_journal_def mapE_def bindE_def split: sum.splits option.splits)

lemma passes_mod_iterm:
  assumes "k \<noteq> i"
  shows "passes i (mod_iterm k f)"
  unfolding passes_def
proof (intro allI impI)
  fix b :: netlist assume b: "table_ok (iterm_tbl b)" "i \<in> ids (iterm_tbl b)"
  obtain t where t: "free_iterm i b = Inr (b\<lparr>iterm_tbl := t\<rparr>)" "dbTable_destroy i (iterm_tbl b) = Inr t" "table_ok t"
    "objs t = (objs (iterm_tbl b))(i := None)" using free_iterm_frees [OF b] by blast
  show "bindE (free_iterm i b) (mod_iterm k f) = bindE (mod_iterm k f b) (free_iterm i)
     \<and> (\<forall>b'. mod_iterm k f b = Inr b' \<longrightarrow> table_ok (iterm_tbl b') \<and> ids (iterm_tbl b') = ids (iterm_tbl b))"
  proof (cases "objs (iterm_tbl b) k")
    case None
    then have "getPtr (iterm_tbl b) k = Inl Abort" "getPtr t k = Inl Abort" using table_deref [OF b(1)] table_deref [OF t(3)] t(4) by simp_all
    then show ?thesis by (simp add: t(1) mod_iterm_def assign_def)
  next
    case (Some a)
    have k: "k \<in> ids (iterm_tbl b)" using Some dom_objs [of "iterm_tbl b"] by blast
    have "objs t k = Some a" using t(4) Some assms by simp
    note p = assign_plain [OF b(1) Some, of f] and q = assign_plain [OF t(3) this, of f]
    have u: "update_obj k f (iterm_tbl b) = set_slot k (Obj (f a)) (iterm_tbl b)" "update_obj k f t = set_slot k (Obj (f a)) t"
      using Some \<open>objs t k = Some a\<close> by (auto simp: update_obj_def objs_def split: if_splits slot.splits)
    have d: "dbTable_destroy i (update_obj k f (iterm_tbl b)) = Inr (update_obj k f t)"
      using destroy_other [OF b k assms [symmetric], of "f a"] t(2) by (simp add: u)
    have "ids (update_obj k f (iterm_tbl b)) = ids (iterm_tbl b)"
      using dom_objs [of "update_obj k f (iterm_tbl b)"] dom_objs [of "iterm_tbl b"] insert_absorb [OF k] unfolding p(3) by simp
    then show ?thesis using p q d by (simp add: t(2) mod_iterm_def free_iterm_def)
  qed
qed

lemma passes_if: "(c \<Longrightarrow> passes i g) \<Longrightarrow> passes i h \<Longrightarrow> passes i (\<lambda>b. if c then g b else h b)"
  by (cases c) simp_all

lemma near_terminals:
  assumes "iterms_listed s L" "s_iterms s j = Some t" "it_net t \<noteq> 0"
  shows "next_net_iterm t \<noteq> 0 \<Longrightarrow> \<exists>u. s_iterms s (next_net_iterm t) = Some u \<and> it_net u \<noteq> 0"
    "prev_net_iterm t \<noteq> 0 \<Longrightarrow> \<exists>u. s_iterms s (prev_net_iterm t) = Some u \<and> it_net u \<noteq> 0"
proof -
  note l = listedD [OF assms(1)]
  obtain a where a: "s_nets s (it_net t) = Some a" using l(6) [OF assms(2)] assms(3) by auto
  have "j \<in> set (L (it_net t))" using l(5) [OF a] assms(2) by blast
  then obtain ys zs where L: "L (it_net t) = ys @ j # zs" by (meson split_list)
  have "dseg next_net_iterm prev_net_iterm (s_iterms s) 0 (n_iterms a) (ys @ j # zs) 0" "distinct (ys @ j # zs)"
    using l(3,4) [OF a] L by simp_all
  note sp = iterms.unlink_split [OF this assms(2)]
  have m: "\<exists>u. s_iterms s x = Some u \<and> it_net u \<noteq> 0" if "x \<in> set (ys @ zs)" for x
    using l(5) [OF a, of x] L that assms(3) by auto
  show "next_net_iterm t \<noteq> 0 \<Longrightarrow> \<exists>u. s_iterms s (next_net_iterm t) = Some u \<and> it_net u \<noteq> 0"
    using sp(4) m by (cases zs) auto
  show "prev_net_iterm t \<noteq> 0 \<Longrightarrow> \<exists>u. s_iterms s (prev_net_iterm t) = Some u \<and> it_net u \<noteq> 0"
    using sp(1) m by (cases ys rule: rev_cases) auto
qed

lemma passes_disconnect:
  assumes "after s cs b" "iterms_listed s L" "s_iterms s i = Some u" "it_net u = 0" "s_iterms s j = Some t" "j \<noteq> i"
  shows "bindE (free_iterm i b) (dbITerm_disconnect j) = bindE (dbITerm_disconnect j b) (free_iterm i)"
proof -
  have b: "table_ok (iterm_tbl b)" "objs (iterm_tbl b) = s_iterms s" using after_index(9,10) [OF assms(1)] by simp_all
  have i: "i \<in> ids (iterm_tbl b)" using dom_objs [of "iterm_tbl b"] b(2) assms(3) by auto
  obtain tb where tb: "free_iterm i b = Inr (b\<lparr>iterm_tbl := tb\<rparr>)" "table_ok tb" "objs tb = (objs (iterm_tbl b))(i := None)"
    using free_iterm_frees [OF b(1) i] by blast
  have g: "getPtr (iterm_tbl b) j = Inr t" "getPtr tb j = Inr t"
    using table_deref [OF b(1)] table_deref [OF tb(2)] tb(3) b(2) assms(5,6) by simp_all
  show ?thesis
  proof (cases "it_net t = 0")
    case True
    then show ?thesis by (simp add: tb(1) g dbITerm_disconnect_def)
  next
    case False
    have n: "next_net_iterm t \<noteq> i" "prev_net_iterm t \<noteq> i"
      using near_terminals [OF assms(2,5) False] assms(3,4) listedD(2) [OF assms(2)] by (cases "i = 0"; auto)+
    let ?G = "\<lambda>net b. bindE (write_journal (log_iterm_disconnect (of_nat j)) b) (\<lambda>b.
         bindE (unlink_iterm j t net b) (\<lambda>b. mod_iterm j (\<lambda>it. it\<lparr>it_net := 0\<rparr>) b))"
    have "passes i (unlink_iterm j t net)" for net
      unfolding unlink_iterm_def [abs_def] using n assms(6)
      by (intro passes_if passes_bind passes_mod_net passes_mod_iterm passes_Inr) simp_all
    then have "passes i (?G net)" for net using assms(6)
      by (intro passes_bind passes_write) (auto intro!: passes_bind passes_mod_iterm)
    then have G: "bindE (free_iterm i b) (?G net) = bindE (?G net b) (free_iterm i)" for net
      using b(1) i unfolding passes_def by blast
    show ?thesis
    proof (cases "getPtr (net_tbl b) (it_net t)")
      case (Inr net)
      then show ?thesis using G [of net] False by (simp add: tb(1) g dbITerm_disconnect_def)
    qed (use False in \<open>simp add: tb(1) g dbITerm_disconnect_def\<close>)
  qed
qed

subsection \<open>All terminals of an instance\<close>

lemma unlinked_other:
  "j \<noteq> i \<Longrightarrow> \<exists>u. s_iterms s j = Some u \<and> it_net u = 0 \<Longrightarrow> \<exists>u. s_iterms (iterm_unlinked i s) j = Some u \<and> it_net u = 0"
  using iterm_unlinked_own [of j i s] by (cases "s_iterms (iterm_unlinked i s) j") auto

lemma disconnect_step:
  assumes "after s cs b" "iterms_listed s L" "s_iterms s j = Some t"
  obtains b1 cs1 L1 where "dbITerm_disconnect j b = Inr b1" "after (iterm_unlinked j s) cs1 b1" "iterms_listed (iterm_unlinked j s) L1"
  using iterm_disconnect_ends [OF assms] iterm_unlinked_listed(1) [OF assms(2,3)] by (auto simp: ends_def)

lemma unlinked_exists: "\<exists>t. s_iterms s i = Some t \<Longrightarrow> \<exists>t. s_iterms (iterm_unlinked j s) i = Some t"
  by (auto simp: iterm_unlinked_def iterms.unlinked_def split: option.split intro!: upd_Some)

lemma passes_disconnects:
  assumes "after s cs b" "iterms_listed s L" "s_iterms s i = Some u" "it_net u = 0" "i \<notin> set js" "\<forall>j \<in> set js. \<exists>t. s_iterms s j = Some t"
  shows "bindE (free_iterm i b) (foldE dbITerm_disconnect js) = bindE (foldE dbITerm_disconnect js b) (free_iterm i)"
  using assms
proof (induction js arbitrary: s cs b L u)
  case Nil
  have "table_ok (iterm_tbl b)" "i \<in> ids (iterm_tbl b)"
    using after_index(9,10) [OF Nil(1)] dom_objs [of "iterm_tbl b"] Nil(3) by auto
  from free_iterm_frees [OF this] show ?case by auto
next
  case (Cons j js)
  obtain t where t: "s_iterms s j = Some t" using Cons.prems(6) by auto
  have ij: "j \<noteq> i" "i \<notin> set js" using Cons.prems(5) by auto
  obtain b1 cs1 L1 where d: "dbITerm_disconnect j b = Inr b1" "after (iterm_unlinked j s) cs1 b1" "iterms_listed (iterm_unlinked j s) L1"
    by (rule disconnect_step [OF Cons.prems(1,2) t])
  obtain u1 where u1: "s_iterms (iterm_unlinked j s) i = Some u1" "it_net u1 = 0"
    using unlinked_other [of i j s] ij(1) Cons.prems(3,4) by auto
  have ex: "\<forall>k \<in> set js. \<exists>t. s_iterms (iterm_unlinked j s) k = Some t" using unlinked_exists Cons.prems(6) by auto
  note IH = Cons.IH [OF d(2,3) u1 ij(2) ex]
  have "bindE (free_iterm i b) (foldE dbITerm_disconnect (j # js)) = bindE (bindE (free_iterm i b) (dbITerm_disconnect j)) (foldE dbITerm_disconnect js)"
    by (cases "free_iterm i b") simp_all
  also have "\<dots> = bindE (free_iterm i b1) (foldE dbITerm_disconnect js)"
    unfolding passes_disconnect [OF Cons.prems(1-4) t ij(1)] d(1) by simp
  finally have "bindE (free_iterm i b) (foldE dbITerm_disconnect (j # js)) = bindE (foldE dbITerm_disconnect js b1) (free_iterm i)" unfolding IH .
  moreover have "foldE dbITerm_disconnect (j # js) b = foldE dbITerm_disconnect js b1" by (simp only: foldE.simps d(1) bindE_simps)
  ultimately show ?case by (simp only:)
qed

lemma disconnects_keep_free:
  assumes "after s cs b" "iterms_listed s L" "s_iterms s i = Some u" "it_net u = 0" "i \<notin> set js" "\<forall>j \<in> set js. \<exists>t. s_iterms s j = Some t"
    and "foldE dbITerm_disconnect js b = Inr b'"
  shows "dbITerm_disconnect i b' = Inr b'"
  using assms
proof (induction js arbitrary: s cs b L u)
  case Nil
  then show ?case using after_reads(1) [OF Nil(1,3)] by (auto simp: ends_def dbITerm_disconnect_def)
next
  case (Cons j js)
  obtain t where t: "s_iterms s j = Some t" using Cons.prems(6) by auto
  have ij: "i \<noteq> j" "i \<notin> set js" using Cons.prems(5) by auto
  obtain b1 cs1 L1 where d: "dbITerm_disconnect j b = Inr b1" "after (iterm_unlinked j s) cs1 b1" "iterms_listed (iterm_unlinked j s) L1"
    by (rule disconnect_step [OF Cons.prems(1,2) t])
  obtain u1 where u1: "s_iterms (iterm_unlinked j s) i = Some u1" "it_net u1 = 0"
    using unlinked_other [OF ij(1), of s] Cons.prems(3,4) by auto
  have ex: "\<forall>k \<in> set js. \<exists>t. s_iterms (iterm_unlinked j s) k = Some t" using unlinked_exists Cons.prems(6) by auto
  have "foldE dbITerm_disconnect js b1 = Inr b'" using Cons.prems(7) d(1) by simp
  from Cons.IH [OF d(2,3) u1 ij(2) ex this] show ?case .
qed

text \<open>First disconnecting all of them, then freeing them.\<close>

lemma destroy_iterms_split:
  assumes "after s cs b" "iterms_listed s L" "distinct js" "\<forall>i \<in> set js. \<exists>t. s_iterms s i = Some t"
  shows "foldE destroy_iterm js b = bindE (foldE dbITerm_disconnect js b) (foldE destroy_iterm js)"
  using assms
proof (induction js arbitrary: s cs b L)
  case (Cons j js)
  obtain t where t: "s_iterms s j = Some t" using Cons.prems(4) by auto
  have dj: "distinct js" "j \<notin> set js" using Cons.prems(3) by simp_all
  obtain b1 cs1 L1 where d: "dbITerm_disconnect j b = Inr b1" "after (iterm_unlinked j s) cs1 b1" "iterms_listed (iterm_unlinked j s) L1"
    by (rule disconnect_step [OF Cons.prems(1,2) t])
  have u: "s_iterms (iterm_unlinked j s) j = Some (t\<lparr>it_net := 0\<rparr>)" "it_net (t\<lparr>it_net := 0\<rparr>) = 0"
    using iterm_unlinked_listed(2) [OF Cons.prems(2) t] by simp_all
  have ex1: "\<forall>k \<in> set js. \<exists>t. s_iterms (iterm_unlinked j s) k = Some t" using unlinked_exists Cons.prems(4) by auto
  obtain b2 where b2: "free_iterm j b1 = Inr b2" "after (iterm_gone j s) (cs @ iterm_gone_change s j) b2"
    using destroy_iterm_ends(1) [OF Cons.prems(1,2) t] d(1) by (auto simp: ends_def destroy_iterm_parts)
  have ex2: "\<forall>k \<in> set js. \<exists>t. s_iterms (iterm_gone j s) k = Some t" using ex1 dj(2) by (auto simp: iterm_gone_def Let_def)
  note IH = Cons.IH [OF b2(2) destroy_iterm_ends(2) [OF Cons.prems(1,2) t] dj(1) ex2]
  note p = passes_disconnects [OF d(2,3) u dj(2) ex1]
  have "foldE destroy_iterm (j # js) b = foldE destroy_iterm js b2" using d(1) b2(1) by (simp add: destroy_iterm_parts)
  also have "\<dots> = bindE (foldE dbITerm_disconnect js b2) (foldE destroy_iterm js)" by (rule IH)
  also have "foldE dbITerm_disconnect js b2 = bindE (foldE dbITerm_disconnect js b1) (free_iterm j)" using p b2(1) by simp
  also have "bindE (bindE (foldE dbITerm_disconnect js b1) (free_iterm j)) (foldE destroy_iterm js)
      = bindE (foldE dbITerm_disconnect js b1) (foldE destroy_iterm (j # js))"
  proof (cases "foldE dbITerm_disconnect js b1")
    case (Inr b3)
    have "dbITerm_disconnect j b3 = Inr b3" by (rule disconnects_keep_free [OF d(2,3) u dj(2) ex1 Inr])
    then show ?thesis using Inr by (simp add: destroy_iterm_parts)
  qed simp
  finally have "foldE destroy_iterm (j # js) b = bindE (foldE dbITerm_disconnect js b1) (foldE destroy_iterm (j # js))" .
  moreover have "foldE dbITerm_disconnect (j # js) b = foldE dbITerm_disconnect js b1" by (simp only: foldE.simps d(1) bindE_simps)
  ultimately show ?case by (simp only:)
qed simp

subsection \<open>An instance\<close>

lemma disconnect_insts: "dbITerm_disconnect i b = Inr b' \<Longrightarrow> inst_tbl b' = inst_tbl b"
proof -
  have m: "mod_net n f b = Inr b' \<Longrightarrow> inst_tbl b' = inst_tbl b" "mod_iterm k g b = Inr b' \<Longrightarrow> inst_tbl b' = inst_tbl b"
    "write_journal w b = Inr b' \<Longrightarrow> inst_tbl b' = inst_tbl b" for n f k g w b b'
    by (auto simp: mod_net_def mod_iterm_def write_journal_def split: option.splits)
  show "dbITerm_disconnect i b = Inr b' \<Longrightarrow> inst_tbl b' = inst_tbl b"
    by (auto simp: dbITerm_disconnect_def unlink_iterm_def split: if_splits dest!: m)
qed

lemma disconnects_insts: "foldE dbITerm_disconnect js b = Inr b' \<Longrightarrow> inst_tbl b' = inst_tbl b"
  by (induction js arbitrary: b) (auto dest: disconnect_insts)

lemma inst_destroy_split:
  assumes "after s cs b" "iterms_listed s L" "inst_iterms_ok s" "s_insts s x = Some y"
  shows "dbInst_destroy libs x b = bindE (foldE dbITerm_disconnect (i_iterms y) b) (dbInst_destroy libs x)"
proof -
  have dist: "distinct (i_iterms y)" by (rule inst_iterms_distinct [OF assms(3,4)])
  have ex: "\<forall>i \<in> set (i_iterms y). \<exists>t. s_iterms s i = Some t"
    using inst_iterms_okD(1) [OF assms(3,4)] by (metis in_set_conv_nth)
  obtain z where z: "getPtr (inst_tbl b) x = Inr z" "z\<lparr>next_entry := 0\<rparr> = y" using after_reads(4) [OF assms(1,4)] by (auto simp: ends_def)
  have "i_iterms (z\<lparr>next_entry := 0\<rparr>) = i_iterms y" unfolding z(2) ..
  then have i: "i_iterms z = i_iterms y" by simp
  note sp = destroy_iterms_split [OF assms(1,2) dist ex]
  show ?thesis
  proof (cases "foldE dbITerm_disconnect (i_iterms y) b")
    case (Inr b1)
    have "foldE destroy_iterm (i_iterms y) b = foldE destroy_iterm (i_iterms y) b1" using sp Inr by simp
    then show ?thesis using Inr z(1) i disconnects_insts [OF Inr] by (simp add: dbInst_destroy_def)
  next
    case (Inl f)
    have "foldE destroy_iterm (i_iterms y) b = Inl f" using sp Inl by simp
    then show ?thesis using Inl z(1) i by (simp add: dbInst_destroy_def)
  qed
qed

subsection \<open>A net\<close>

lemma disconnect_iterms_fold:
  assumes "after s cs b" "iterms_listed s L" "s_nets s n = Some a" "L n = zs" "length zs \<le> fuel"
  shows "disconnect_iterms fuel (n_iterms a) b = foldE dbITerm_disconnect zs b"
  using assms
proof (induction zs arbitrary: s cs b L a fuel)
  case Nil
  have "n_iterms a = 0" using dseg_head [OF listedD(3) [OF Nil(2,3)]] Nil(4) by simp
  then show ?case by (simp add: disconnect_iterms.simps)
next
  case (Cons z zs)
  note l = listedD [OF Cons.prems(2)]
  have n0: "n \<noteq> 0" using l(1) Cons.prems(3) by (cases n) auto
  obtain t where t: "n_iterms a = z" "z \<noteq> 0" "s_iterms s z = Some t" using l(3) [OF Cons.prems(3)] Cons.prems(4) by auto
  have own: "it_net t = n" using l(5) [OF Cons.prems(3), of z] Cons.prems(4) t(3) by simp
  obtain f where f: "fuel = Suc f" "length zs \<le> f" using Cons.prems(5) by (cases fuel) auto
  have l': "iterms_listed (iterm_unlinked z s) (L(n := zs))" using iterm_unlinked_listed(1) [OF Cons.prems(2) t(3)] own n0 Cons.prems(4) by simp
  have a': "s_nets (iterm_unlinked z s) n = Some (a\<lparr>n_iterms := next_net_iterm t\<rparr>)" using t own n0 Cons.prems(3) by (simp add: iterm_unlinked_def)
  have g: "getPtr (iterm_tbl b) z = Inr t" using after_reads(1) [OF Cons.prems(1) t(3)] by (auto simp: ends_def)
  obtain b1 cs1 L1 where d: "dbITerm_disconnect z b = Inr b1" "after (iterm_unlinked z s) cs1 b1"
    using iterm_disconnect_ends [OF Cons.prems(1,2) t(3)] by (auto simp: ends_def)
  have "disconnect_iterms f (next_net_iterm t) b1 = foldE dbITerm_disconnect zs b1"
    using Cons.IH [OF d(2) l' a' fun_upd_same f(2)] by simp
  then show ?case using t(1,2) f(1) g d(1) by (simp add: disconnect_iterms.simps [of "Suc f"])
qed

lemma destroy_bterms_fold:
  assumes "after s cs b" "bterms_listed s L" "s_nets s n = Some a" "L n = zs" "length zs \<le> fuel"
  shows "destroy_bterms fuel (n_bterms a) b = foldE dbBTerm_destroy zs b"
  using assms
proof (induction zs arbitrary: s cs b L a fuel)
  case Nil
  have "n_bterms a = 0" using dseg_head [OF listedD(3) [OF Nil(2,3)]] Nil(4) by simp
  then show ?case by (simp add: destroy_bterms.simps)
next
  case (Cons z zs)
  note l = listedD [OF Cons.prems(2)]
  have n0: "n \<noteq> 0" using l(1) Cons.prems(3) by (cases n) auto
  obtain t where t: "n_bterms a = z" "z \<noteq> 0" "s_bterms s z = Some t" using l(3) [OF Cons.prems(3)] Cons.prems(4) by auto
  have own: "bt_net t = n" using l(5) [OF Cons.prems(3), of z] Cons.prems(4) t(3) by simp
  obtain f where f: "fuel = Suc f" "length zs \<le> f" using Cons.prems(5) by (cases fuel) auto
  note e = bterm_destroy_ends [OF Cons.prems(1,2) t(3)]
  have l': "bterms_listed (bterm_gone z s) (L(n := zs))" using e(2) own n0 Cons.prems(4) by simp
  have a': "s_nets (bterm_gone z s) n = Some (a\<lparr>n_bterms := next_bterm t\<rparr>)"
    using t own n0 Cons.prems(3) by (simp add: bterm_gone_nets bterm_unlinked_def)
  obtain u where g: "getPtr (bterm_tbl b) z = Inr u" "u\<lparr>next_entry := 0\<rparr> = t" using after_reads(3) [OF Cons.prems(1) t(3)] by (auto simp: ends_def)
  have u: "next_bterm u = next_bterm t" by (rule entry_fields(4) [OF g(2)])
  obtain b1 where d: "dbBTerm_destroy z b = Inr b1" "after (bterm_gone z s) (cs @ [OnTerm (BTermDestroy (of_nat z))]) b1"
    using e(1) by (auto simp: ends_def)
  have "destroy_bterms f (next_bterm t) b1 = foldE dbBTerm_destroy zs b1"
    using Cons.IH [OF d(2) l' a' fun_upd_same f(2)] by simp
  then show ?case using t(1,2) f(1) g(1) u d(1) by (simp add: destroy_bterms.simps [of "Suc f"])
qed

lemma net_destroy_split:
  assumes "after s cs b" "iterms_listed s Li" "bterms_listed s Lb" "s_nets s n = Some a"
  shows "dbNet_destroy n b = bindE (foldE dbITerm_disconnect (Li n) b) (\<lambda>b. bindE (foldE dbBTerm_destroy (Lb n) b) (dbNet_destroy n))"
proof -
  let ?s1 = "unlink_iterms (Li n) s" let ?s2 = "bterms_gone (Lb n) ?s1"
  have len: "length (Li n) \<le> chain_fuel (iterm_tbl b)"
    using dseg_short [of _ _ "iterm_tbl b" _ _ "Li n"] listedD(3,4) [OF assms(2,4)] after_index(10) [OF assms(1)] by fastforce
  note d = disconnect_iterms_ends [OF assms(1,2,4) refl len] and df = disconnect_iterms_fold [OF assms(1,2,4) refl len]
  obtain cs1 b1 where b1: "foldE dbITerm_disconnect (Li n) b = Inr b1" "after ?s1 cs1 b1" using d(1) unfolding df by (auto simp: ends_def)
  obtain a1 where a1: "s_nets ?s1 n = Some a1" using same_objectsD(10) [OF unlink_iterms_same(1) assms(4)] by blast
  have l1: "bterms_listed ?s1 Lb" by (rule bterms_listed_unlink_iterms [OF assms(3)])
  have len1: "length (Lb n) \<le> chain_fuel (bterm_tbl b1)"
    using dseg_short_view [of _ _ "bterm_tbl b1" _ _ "Lb n"] listedD(3,4) [OF l1 a1] after_index(6) [OF b1(2)] by fastforce
  note e = destroy_bterms_ends [OF b1(2) l1 a1 refl len1] and ef = destroy_bterms_fold [OF b1(2) l1 a1 refl len1]
  obtain cs2 b2 where b2: "foldE dbBTerm_destroy (Lb n) b1 = Inr b2" "after ?s2 cs2 b2" using e(1) unfolding ef by (auto simp: ends_def)
  obtain a2 where a2: "s_nets ?s2 n = Some a2"
    using bterms_gone_same [of ?s1 "Lb n"] a1 by (cases "s_nets ?s2 n") (auto simp: same_but_bterms_def dest: spec [of _ n])
  have i2: "iterms_listed ?s2 (Li(n := []))" using iterms_listed_bterms_gone [OF d(2)] .
  have "n_iterms a2 = 0" "n_bterms a2 = 0"
    using dseg_head [OF listedD(3) [OF i2 a2]] dseg_head [OF listedD(3) [OF e(2) a2]] by simp_all
  moreover obtain n0 where n0: "getPtr (net_tbl b) n = Inr n0" "n_iterms n0 = n_iterms a" using after_reads(2) [OF assms(1,4)] by (auto simp: ends_def)
  obtain n1 where n1: "getPtr (net_tbl b1) n = Inr n1" "n_bterms n1 = n_bterms a1" using after_reads(2) [OF b1(2) a1] by (auto simp: ends_def)
  obtain n2 where n2: "getPtr (net_tbl b2) n = Inr n2" "n_iterms n2 = n_iterms a2" "n_bterms n2 = n_bterms a2" using after_reads(2) [OF b2(2) a2] by (auto simp: ends_def)
  ultimately show ?thesis
    using b1(1) b2(1) df ef n0 n1 n2
    by (simp add: dbNet_destroy_def disconnect_iterms.simps [of _ 0] destroy_bterms.simps [of _ 0])
qed

end
