(* ===== verification/Odb_Net_Replay.thy ===== *)
theory Odb_Net_Replay
  imports Odb_Net_Commute
begin

section \<open>Making the recorded changes again\<close>

text \<open>
  The operations look at the journal only to write to it, so they do the same on a block without one
  (\<open>off\<close>). The changes that an operation records, made on such a block, give the block that the operation
  leaves, with the same objects under the same ids and the same free lists and indexes.
\<close>

subsection \<open>A block without a journal\<close>

definition off :: "dbJournal option \<Rightarrow> netlist \<Rightarrow> netlist" where
  "off p b = b\<lparr>journal := None, journal_pending := p\<rparr>"

lemma off_sel [simp]:
  "net_tbl (off p b) = net_tbl b" "net_hash (off p b) = net_hash b" "inst_tbl (off p b) = inst_tbl b" "inst_hash (off p b) = inst_hash b"
  "inst_hdr_tbl (off p b) = inst_hdr_tbl b" "inst_hdr_hash (off p b) = inst_hdr_hash b" "iterm_tbl (off p b) = iterm_tbl b"
  "bterm_tbl (off p b) = bterm_tbl b" "bterm_hash (off p b) = bterm_hash b" "journal (off p b) = None" "journal_pending (off p b) = p"
  by (simp_all add: off_def)

lemma off_update [simp]:
  "(off p b)\<lparr>net_tbl := nt\<rparr> = off p (b\<lparr>net_tbl := nt\<rparr>)" "(off p b)\<lparr>net_hash := h\<rparr> = off p (b\<lparr>net_hash := h\<rparr>)"
  "(off p b)\<lparr>inst_tbl := it\<rparr> = off p (b\<lparr>inst_tbl := it\<rparr>)" "(off p b)\<lparr>inst_hash := h\<rparr> = off p (b\<lparr>inst_hash := h\<rparr>)"
  "(off p b)\<lparr>inst_hdr_tbl := ht\<rparr> = off p (b\<lparr>inst_hdr_tbl := ht\<rparr>)" "(off p b)\<lparr>inst_hdr_hash := h\<rparr> = off p (b\<lparr>inst_hdr_hash := h\<rparr>)"
  "(off p b)\<lparr>iterm_tbl := tt\<rparr> = off p (b\<lparr>iterm_tbl := tt\<rparr>)"
  "(off p b)\<lparr>bterm_tbl := bt\<rparr> = off p (b\<lparr>bterm_tbl := bt\<rparr>)" "(off p b)\<lparr>bterm_hash := h\<rparr> = off p (b\<lparr>bterm_hash := h\<rparr>)"
  "off p (b\<lparr>journal := j\<rparr>) = off p b" "off p (b\<lparr>journal_pending := j\<rparr>) = off p b"
  by (simp_all add: off_def)

named_theorems blind "operations do the same without a journal"

lemma write_blind [blind]: "write_journal w b = Inr b' \<Longrightarrow> write_journal w' (off p b) = Inr (off p b')"
  by (auto simp: write_journal_def split: option.splits)

lemma mods_blind [blind]:
  "mod_net n f b = Inr b' \<Longrightarrow> mod_net n f (off p b) = Inr (off p b')"
  "mod_iterm i g b = Inr b' \<Longrightarrow> mod_iterm i g (off p b) = Inr (off p b')"
  "mod_bterm i h b = Inr b' \<Longrightarrow> mod_bterm i h (off p b) = Inr (off p b')"
  "mod_inst i k b = Inr b' \<Longrightarrow> mod_inst i k (off p b) = Inr (off p b')"
  "mod_hdr i l b = Inr b' \<Longrightarrow> mod_hdr i l (off p b) = Inr (off p b')"
  by (auto simp: mod_net_def mod_iterm_def mod_bterm_def mod_inst_def mod_hdr_def)

lemma links_blind [blind]:
  "unlink_iterm i t net b = Inr b' \<Longrightarrow> unlink_iterm i t net (off p b) = Inr (off p b')"
  "link_iterm i net b = Inr b' \<Longrightarrow> link_iterm i net (off p b) = Inr (off p b')"
  "unlink_bterm i u net b = Inr b' \<Longrightarrow> unlink_bterm i u net (off p b) = Inr (off p b')"
  "link_bterm i net b = Inr b' \<Longrightarrow> link_bterm i net (off p b) = Inr (off p b')"
  by (auto simp: unlink_iterm_def link_iterm_def unlink_bterm_def link_bterm_def blind split: if_splits)

lemma iterms_blind [blind]:
  "dbITerm_disconnect i b = Inr b' \<Longrightarrow> dbITerm_disconnect i (off p b) = Inr (off p b')"
  by (auto simp: dbITerm_disconnect_def blind split: if_splits)

lemma iterm_connect_blind [blind]:
  "dbITerm_connect i n b = Inr b' \<Longrightarrow> dbITerm_connect i n (off p b) = Inr (off p b')"
  by (auto simp: dbITerm_connect_def blind split: if_splits)

lemma bterm_links_blind [blind]:
  "connectNet i n b = Inr b' \<Longrightarrow> connectNet i n (off p b) = Inr (off p b')"
  "disconnectNet i b = Inr b' \<Longrightarrow> disconnectNet i (off p b) = Inr (off p b')"
  by (auto simp: connectNet_def disconnectNet_def blind)

lemma bterms_blind [blind]:
  "dbBTerm_connect i n b = Inr b' \<Longrightarrow> dbBTerm_connect i n (off p b) = Inr (off p b')"
  "dbBTerm_disconnect i b = Inr b' \<Longrightarrow> dbBTerm_disconnect i (off p b) = Inr (off p b')"
  "dbBTerm_destroy i b = Inr b' \<Longrightarrow> dbBTerm_destroy i (off p b) = Inr (off p b')"
  by (auto simp: dbBTerm_connect_def dbBTerm_disconnect_def dbBTerm_destroy_def blind split: if_splits)

lemma bterm_create_blind [blind]:
  "dbBTerm_create n nm b = Inr (e, b') \<Longrightarrow> dbBTerm_create n nm (off p b) = Inr (e, off p b')"
  by (auto simp: dbBTerm_create_def blind split: if_splits)

lemma net_create_blind [blind]:
  "dbNet_create nm skip b = Inr (e, b') \<Longrightarrow> dbNet_create nm skip (off p b) = Inr (e, off p b')"
  by (auto simp: dbNet_create_def blind split: if_splits)

lemma foldE_blind:
  assumes "\<And>x b b'. x \<in> set xs \<Longrightarrow> f x b = Inr b' \<Longrightarrow> f x (off p b) = Inr (off p b')"
  shows "foldE f xs b = Inr b' \<Longrightarrow> foldE f xs (off p b) = Inr (off p b')"
  using assms by (induction xs arbitrary: b) auto

lemma disconnects_blind [blind]: "foldE dbITerm_disconnect xs b = Inr b' \<Longrightarrow> foldE dbITerm_disconnect xs (off p b) = Inr (off p b')"
  by (rule foldE_blind) (rule blind)

lemma destroys_blind [blind]: "foldE destroy_iterm xs b = Inr b' \<Longrightarrow> foldE destroy_iterm xs (off p b) = Inr (off p b')"
  by (rule foldE_blind) (auto simp: destroy_iterm_def blind)

lemma loops_blind [blind]:
  "disconnect_iterms k i b = Inr b' \<Longrightarrow> disconnect_iterms k i (off p b) = Inr (off p b')"
  "destroy_bterms k i b = Inr b' \<Longrightarrow> destroy_bterms k i (off p b) = Inr (off p b')"
proof -
  show "disconnect_iterms k i b = Inr b' \<Longrightarrow> disconnect_iterms k i (off p b) = Inr (off p b')"
    by (induction k arbitrary: i b) (auto simp: disconnect_iterms.simps blind split: if_splits)
  show "destroy_bterms k i b = Inr b' \<Longrightarrow> destroy_bterms k i (off p b) = Inr (off p b')"
    by (induction k arbitrary: i b) (auto simp: destroy_bterms.simps blind split: if_splits)
qed

lemma net_destroy_blind [blind]:
  assumes "dbNet_destroy n b = Inr b'"
  shows "dbNet_destroy n (off p b) = Inr (off p b')"
proof -
  obtain net b1 net1 b2 b3 h t t1 where s: "getPtr (net_tbl b) n = Inr net" "disconnect_iterms (chain_fuel (iterm_tbl b)) (n_iterms net) b = Inr b1"
    "getPtr (net_tbl b1) n = Inr net1" "destroy_bterms (chain_fuel (bterm_tbl b1)) (n_bterms net1) b1 = Inr b2"
    "write_journal (log_net_destroy (of_nat n)) b2 = Inr b3" "name_remove n (net_hash b3, net_tbl b3) = Inr (h, t)"
    "dbTable_destroy n t = Inr t1" "b' = b3\<lparr>net_hash := h, net_tbl := t1\<rparr>"
    using assms by (auto simp: dbNet_destroy_def)
  show ?thesis
    using loops_blind(1) [OF s(2), of p] loops_blind(2) [OF s(4), of p] write_blind [OF s(5), of _ p] s(1,3,6-8) by (simp add: dbNet_destroy_def)
qed

lemma hdrs_blind [blind]:
  "dbInstHdr_create m b = Inr (e, b') \<Longrightarrow> dbInstHdr_create m (off p b) = Inr (e, off p b')"
  "dbInstHdr_destroy x b = Inr b' \<Longrightarrow> dbInstHdr_destroy x (off p b) = Inr (off p b')"
  by (auto simp: dbInstHdr_create_def dbInstHdr_destroy_def split: if_splits)

lemma need_hdr_blind [blind]:
  "need_hdr m b = Inr (e, b') \<Longrightarrow> need_hdr m (off p b) = Inr (e, off p b')"
  "drop_hdr k b = Inr b' \<Longrightarrow> drop_hdr k (off p b) = Inr (off p b')"
  by (auto simp: need_hdr_def drop_hdr_def blind split: if_splits)

lemma getMaster_off [simp]: "getMaster libs x (off p b) = getMaster libs x b" "iterm_idx (off p b) = iterm_idx b"
  by (simp_all add: getMaster_def iterm_idx_def fun_eq_iff)

lemma create_iterms_blind [blind]:
  "foldE (create_iterm x) ks b = Inr b' \<Longrightarrow> foldE (create_iterm x) ks (off p b) = Inr (off p b')"
  by (rule foldE_blind) (auto simp: create_iterm_def blind)

lemma inst_create_blind [blind]:
  assumes "dbInst_create m nm b = Inr (e, b')"
  shows "dbInst_create m nm (off p b) = Inr (e, off p b')"
proof -
  obtain h b1 mem where s: "need_hdr m b = Inr (h, b1)" "name_hasMember nm (inst_hash b1, inst_tbl b1) = Inr mem"
    and r: "(if mem then Inr (0, b1)
       else
         bindE (write_journal (log_inst_create (of_nat (m_lib m)) (of_nat (m_oid m)) (cstring nm)) b1) (\<lambda>b.
         bindE (dbTable_create \<lparr>entry_key = nm, next_entry = 0, i_inst_hdr = h, i_iterms = []\<rparr> (inst_tbl b)) (\<lambda>(oid, t).
         bindE (name_insert oid (inst_hash b, t)) (\<lambda>(hs, t).
         bindE (mod_hdr h (\<lambda>x. x\<lparr>inst_cnt := inst_cnt x + 1\<rparr>) (b\<lparr>inst_hash := hs, inst_tbl := t\<rparr>)) (\<lambda>b.
         bindE (getPtr (inst_hdr_tbl b) h) (\<lambda>x.
           let mterm_cnt = length (h_mterms x) in
           bindE (mod_inst oid (\<lambda>x. x\<lparr>i_iterms := replicate mterm_cnt 0\<rparr>) b) (\<lambda>b.
           bindE (foldE (create_iterm oid) [0..<mterm_cnt] b) (\<lambda>b. Inr (oid, b))))))))) = Inr (e, b')"
    using assms by (auto simp: dbInst_create_def)
  show ?thesis
  proof (cases mem)
    case True
    then show ?thesis using r s need_hdr_blind(1) [OF s(1), of p] by (simp add: dbInst_create_def)
  next
    case False
    then show ?thesis using r s need_hdr_blind(1) [OF s(1), of p] by (auto simp: dbInst_create_def Let_def blind)
  qed
qed

lemma inst_destroy_blind [blind]: "dbInst_destroy libs x b = Inr b' \<Longrightarrow> dbInst_destroy libs x (off p b) = Inr (off p b')"
  by (auto simp: dbInst_destroy_def blind)

lemma renumber_blind [blind]:
  "foldE (\<lambda>it. mod_iterm it f) js b = Inr b' \<Longrightarrow> foldE (\<lambda>it. mod_iterm it f) js (off p b) = Inr (off p b')"
  by (rule foldE_blind) (rule blind)

lemma swap_blind [blind]:
  "dbInst_swapMaster libs x m b = Inr (e, b') \<Longrightarrow> dbInst_swapMaster libs x m (off p b) = Inr (e, off p b')"
  by (auto simp: dbInst_swapMaster_def blind split: option.splits)

subsection \<open>Changes\<close>

definition replays :: "libs \<Rightarrow> dbJournal option \<Rightarrow> change list \<Rightarrow> netlist \<Rightarrow> netlist \<Rightarrow> bool" where
  "replays libs p cs b b' \<longleftrightarrow> foldE (apply_change libs) cs (off p b) = Inr (off p b')"

lemma replays_nothing [simp]: "replays libs p [] b b"
  by (simp add: replays_def)

lemma replays_append: "replays libs p cs b b1 \<Longrightarrow> replays libs p ds b1 b2 \<Longrightarrow> replays libs p (cs @ ds) b b2"
  by (simp add: replays_def foldE_append)

lemma replays_one: "(\<And>b. apply_change libs c b = f b) \<Longrightarrow> f (off p b) = Inr (off p b') \<Longrightarrow> replays libs p [c] b b'"
  by (simp add: replays_def)

lemma replays_map:
  assumes "\<And>z b. z \<in> set zs \<Longrightarrow> apply_change libs (g z) b = f z b"
  shows "foldE f zs (off p b) = Inr (off p b') \<Longrightarrow> replays libs p (map g zs) b b'"
proof -
  have "foldE (apply_change libs) (map g zs) c = foldE f zs c" for c
    using assms
  proof (induction zs arbitrary: c)
    case (Cons z zs)
    have "foldE (apply_change libs) (map g zs) = foldE f zs" using Cons by (intro ext) simp
    then show ?case using Cons.prems by simp
  qed simp
  then show "foldE f zs (off p b) = Inr (off p b') \<Longrightarrow> replays libs p (map g zs) b b'" by (simp add: replays_def)
qed

lemma std_cstring: "std_string (cstring nm) = nm"
proof -
  have c: "char_of (unat (of_char c :: 8 word)) = c" for c
  proof -
    have "unat (of_char c :: 8 word) = (of_char c :: nat)"
    proof -
      have "(of_char c :: 8 word) = of_nat (of_char c)" by (simp add: of_char_def)
      moreover have "(of_char c :: nat) < 256" by simp
      ultimately show ?thesis by (simp add: unat_of_nat take_bit_nat_eq_self)
    qed
    then show ?thesis by simp
  qed
  show ?thesis unfolding std_string_def cstring_def by (simp add: comp_def c)
qed

lemma unat_32: "i < 2 ^ 32 \<Longrightarrow> unat (of_nat i :: 32 word) = i"
  by (simp add: unat_of_nat take_bit_nat_eq_self)

lemma apply_changes:
  "apply_change libs (OnNet (NetCreate (cstring nm))) b = discard (dbNet_create nm False b)"
  "n < 2 ^ 32 \<Longrightarrow> apply_change libs (OnNet (NetDestroy (of_nat n))) b = dbNet_destroy n b"
  "l < 2 ^ 32 \<Longrightarrow> k < 2 ^ 32 \<Longrightarrow> libs l k = Some m \<Longrightarrow>
     apply_change libs (OnInst (InstCreate (of_nat l) (of_nat k) (cstring nm))) b = discard (dbInst_create m nm b)"
  "n < 2 ^ 32 \<Longrightarrow> apply_change libs (OnInst (InstDestroy (of_nat n))) b = dbInst_destroy libs n b"
  "n < 2 ^ 32 \<Longrightarrow> l < 2 ^ 32 \<Longrightarrow> k < 2 ^ 32 \<Longrightarrow> libs l k = Some m \<Longrightarrow>
     apply_change libs (OnInst (InstSwap (of_nat n) (of_nat l) (of_nat k))) b = discard (dbInst_swapMaster libs n m b)"
  "n < 2 ^ 32 \<Longrightarrow> apply_change libs (OnTerm (BTermCreate (of_nat n) (cstring nm))) b = discard (dbBTerm_create n nm b)"
  "n < 2 ^ 32 \<Longrightarrow> apply_change libs (OnTerm (BTermDestroy (of_nat n))) b = dbBTerm_destroy n b"
  "n < 2 ^ 32 \<Longrightarrow> k < 2 ^ 32 \<Longrightarrow> apply_change libs (OnTerm (BTermConnect (of_nat n) (of_nat k))) b = dbBTerm_connect n k b"
  "n < 2 ^ 32 \<Longrightarrow> apply_change libs (OnTerm (BTermDisconnect (of_nat n))) b = dbBTerm_disconnect n b"
  "n < 2 ^ 32 \<Longrightarrow> k < 2 ^ 32 \<Longrightarrow> apply_change libs (OnTerm (ITermConnect (of_nat n) (of_nat k))) b = dbITerm_connect n k b"
  "n < 2 ^ 32 \<Longrightarrow> apply_change libs (OnTerm (ITermDisconnect (of_nat n))) b = dbITerm_disconnect n b"
  by (simp_all add: apply_change_def Let_def unat_32 std_cstring)

lemma small32: "0 < i \<and> i < 2 ^ 31 \<Longrightarrow> i < (2 ^ 32 :: nat)"
  by simp

lemma discard_off: "op b = Inr (e, b') \<Longrightarrow> discard (op b) = Inr b'"
  by (simp add: discard_def)

subsection \<open>Terminals of instances\<close>

lemma replays_disconnect:
  assumes "after s cs b" "s_iterms s i = Some t" "dbITerm_disconnect i b = Inr b'"
  shows "replays libs p (iterm_gone_change s i) b b'"
proof (cases "it_net t = 0")
  case True
  then have "b' = b" using after_reads(1) [OF assms(1,2)] assms(3) by (auto simp: ends_def dbITerm_disconnect_def)
  then show ?thesis using True assms(2) by (simp add: iterm_gone_change_def)
next
  case False
  note i = small32 [OF after_small(1) [OF assms(1,2)]]
  have "replays libs p [OnTerm (ITermDisconnect (of_nat i))] b b'"
    by (rule replays_one [OF apply_changes(11) [OF i]]) (rule iterms_blind [OF assms(3)])
  then show ?thesis using False assms(2) by (simp add: iterm_gone_change_def)
qed

lemma replays_disconnects:
  assumes "after s cs b" "iterms_listed s L" "distinct js" "\<forall>i \<in> set js. \<exists>t. s_iterms s i = Some t" "foldE dbITerm_disconnect js b = Inr b'"
  shows "replays libs p (iterms_gone_changes s js) b b'"
  using assms
proof (induction js arbitrary: s cs b L)
  case Nil
  then show ?case by (simp add: iterms_gone_changes_def)
next
  case (Cons j js)
  obtain t where t: "s_iterms s j = Some t" using Cons.prems(4) by auto
  obtain b1 cs1 L1 where d: "dbITerm_disconnect j b = Inr b1" "after (iterm_unlinked j s) cs1 b1" "iterms_listed (iterm_unlinked j s) L1"
    by (rule disconnect_step [OF Cons.prems(1,2) t])
  have ex: "\<forall>k \<in> set js. \<exists>t. s_iterms (iterm_unlinked j s) k = Some t" using unlinked_exists Cons.prems(4) by auto
  have dj: "distinct js" "foldE dbITerm_disconnect js b1 = Inr b'" using Cons.prems(3,5) d(1) by simp_all
  have "iterm_gone_change (iterm_unlinked j s) k = iterm_gone_change s k" if "k \<in> set js" for k
  proof -
    have "k \<noteq> j" using that Cons.prems(3) by auto
    from iterm_unlinked_own [OF this, of s] show ?thesis
      by (cases "s_iterms (iterm_unlinked j s) k"; cases "s_iterms s k") (auto simp: iterm_gone_change_def)
  qed
  then have "iterms_gone_changes (iterm_unlinked j s) js = iterms_gone_changes s js" by (simp add: iterms_gone_changes_def cong: map_cong)
  then have "replays libs p (iterms_gone_changes s js) b1 b'" using Cons.IH [OF d(2,3) dj(1) ex dj(2)] by simp
  from replays_append [OF replays_disconnect [OF Cons.prems(1) t d(1)] this]
  show ?case by (simp add: iterms_gone_changes_def)
qed

lemma replays_connect:
  assumes "after s cs b" "iterms_listed s L" "s_iterms s i = Some t" "s_nets s n = Some a" "dbITerm_connect i n b = Inr b'"
  shows "replays libs p (if it_net t = n then [] else iterm_gone_change s i @ [OnTerm (ITermConnect (of_nat i) (of_nat n))]) b b'"
proof -
  have g: "getPtr (iterm_tbl b) i = Inr t" using after_reads(1) [OF assms(1,3)] by (auto simp: ends_def)
  show ?thesis
  proof (cases "it_net t = n")
    case True
    then show ?thesis using assms(5) g by (simp add: dbITerm_connect_def)
  next
    case False
    have n0: "n \<noteq> 0" using after_small(2) [OF assms(1,4)] by simp
    obtain b1 cs1 L1 where d: "dbITerm_disconnect i b = Inr b1" "after (iterm_unlinked i s) cs1 b1" "iterms_listed (iterm_unlinked i s) L1"
      by (rule disconnect_step [OF assms(1-3)])
    have "s_iterms (iterm_unlinked i s) i = Some (t\<lparr>it_net := 0\<rparr>)" by (rule iterm_unlinked_listed(2) [OF assms(2,3)])
    then have g1: "getPtr (iterm_tbl b1) i = Inr (t\<lparr>it_net := 0\<rparr>)" using after_reads(1) [OF d(2)] by (auto simp: ends_def)
    have "(if it_net t \<noteq> 0 then dbITerm_disconnect i b else Inr b) = Inr b1"
      using d(1) g by (auto simp: dbITerm_disconnect_def)
    then have "iterm_connect_free i n b1 = Inr b'" using assms(5) g False by (simp add: dbITerm_connect_split)
    then have "dbITerm_connect i n b1 = Inr b'" using g1 n0 by (simp add: dbITerm_connect_split)
    then have "dbITerm_connect i n (off p b1) = Inr (off p b')" by (rule blind)
    then have "replays libs p [OnTerm (ITermConnect (of_nat i) (of_nat n))] b1 b'"
      by (intro replays_one [OF apply_changes(10)] small32 after_small(1) [OF assms(1,3)] after_small(2) [OF assms(1,4)])
    with replays_append [OF replays_disconnect [OF assms(1,3) d(1)]] False show ?thesis by simp
  qed
qed

subsection \<open>Operations\<close>

lemma netdestroy_small:
  assumes "after s cs b" "iterms_listed s Li" "bterms_listed s Lb" "s_nets s n = Some a"
  shows "z \<in> set (Li n) \<Longrightarrow> z < 2 ^ 32" "z \<in> set (Lb n) \<Longrightarrow> z < 2 ^ 32"
  using small32 [OF after_small(1) [OF assms(1)], of z] small32 [OF after_small(3) [OF assms(1)], of z]
    listedD(5) [OF assms(2,4), of z] listedD(5) [OF assms(3,4), of z] by blast+

lemma bterm_destroys_blind [blind]: "foldE dbBTerm_destroy xs b = Inr b' \<Longrightarrow> foldE dbBTerm_destroy xs (off p b) = Inr (off p b')"
  by (rule foldE_blind) (rule bterms_blind)

lemma replays_net_destroy:
  assumes "after s cs b" "iterms_listed s Li" "bterms_listed s Lb" "s_nets s n = Some a" "dbNet_destroy n b = Inr b'"
  shows "replays libs p (net_destroy_changes Li Lb n) b b'"
proof -
  obtain b1 b2 where b: "foldE dbITerm_disconnect (Li n) b = Inr b1" "foldE dbBTerm_destroy (Lb n) b1 = Inr b2" "dbNet_destroy n b2 = Inr b'"
    using assms(5) unfolding net_destroy_split [OF assms(1-4)] by auto
  note z = netdestroy_small [OF assms(1-4)]
  have "replays libs p (map (\<lambda>i. OnTerm (ITermDisconnect (of_nat i))) (Li n)) b b1"
    by (rule replays_map [OF apply_changes(11) [OF z(1)]]) (simp_all add: disconnects_blind [OF b(1)])
  moreover have "replays libs p (map (\<lambda>i. OnTerm (BTermDestroy (of_nat i))) (Lb n)) b1 b2"
    by (rule replays_map [OF apply_changes(7) [OF z(2)]]) (simp_all add: bterm_destroys_blind [OF b(2)])
  moreover have "replays libs p [OnNet (NetDestroy (of_nat n))] b2 b'"
    by (rule replays_one [OF apply_changes(2) [OF small32 [OF after_small(2) [OF assms(1,4)]]]]) (rule net_destroy_blind [OF b(3)])
  ultimately show ?thesis unfolding net_destroy_changes_def by (intro replays_append)
qed

lemma replays_inst_destroy:
  assumes "after s cs b" "iterms_listed s L" "inst_iterms_ok s" "s_insts s x = Some y" "dbInst_destroy libs x b = Inr b'"
  shows "replays libs p (inst_destroy_changes s x y) b b'"
proof -
  obtain b1 where b: "foldE dbITerm_disconnect (i_iterms y) b = Inr b1" "dbInst_destroy libs x b1 = Inr b'"
    using assms(5) unfolding inst_destroy_split [OF assms(1-4)] by auto
  have ex: "\<forall>i \<in> set (i_iterms y). \<exists>t. s_iterms s i = Some t"
    using inst_iterms_okD(1) [OF assms(3,4)] by (metis in_set_conv_nth)
  have "replays libs p (iterms_gone_changes s (i_iterms y)) b b1"
    by (rule replays_disconnects [OF assms(1,2) inst_iterms_distinct [OF assms(3,4)] ex b(1)])
  moreover have "replays libs p [OnInst (InstDestroy (of_nat x))] b1 b'"
    by (rule replays_one [OF apply_changes(4) [OF small32 [OF after_small(4) [OF assms(1,4)]]]]) (rule inst_destroy_blind [OF b(2)])
  ultimately show ?thesis unfolding inst_destroy_changes_def by (rule replays_append)
qed

definition replay_inv :: "libs \<Rightarrow> dbJournal option \<Rightarrow> netlist \<Rightarrow> netlist \<Rightarrow> bool" where
  \<comment> \<open>consistent afterwards, with changes in the journal that lead there\<close>
  "replay_inv libs p b b' \<longleftrightarrow> (\<exists>cs. keeps_inv libs (state_of b) cs b' \<and> replays libs p cs b b')"

lemma replay_invI: "ends m (keeps_inv libs (state_of b) cs) \<Longrightarrow> (\<And>b'. m = Inr b' \<Longrightarrow> replays libs p cs b b') \<Longrightarrow> ends m (replay_inv libs p b)"
  unfolding ends_def replay_inv_def by blast

lemma replay_inv_same: "netlist_ok libs b \<Longrightarrow> replay_inv libs p b b"
  unfolding replay_inv_def keeps_inv_def using netlist_after [of libs b] by (auto simp: netlist_ok_def intro!: exI [of _ "[]"])

lemma replay_inv_discard:
  assumes "ends (op b) (\<lambda>(e, b'). if c then b' = b else keeps_inv libs (state_of b) cs b')" "netlist_ok libs b"
    and "\<And>e b'. op b = Inr (e, b') \<Longrightarrow> replays libs p cs b b'"
  shows "ends (discard (op b)) (replay_inv libs p b)"
  using assms replay_inv_same [OF assms(2), of p] by (force simp: ends_def discard_def replay_inv_def split: if_splits)

lemma replays_discard:
  assumes "\<And>b. apply_change libs c b = discard (f b)" "f (off p b) = Inr (e, off p b')"
  shows "replays libs p [c] b b'"
  using assms by (intro replays_one [of libs c "\<lambda>b. discard (f b)"]) (simp_all add: discard_def)

lemma net_create_unskipped:
  assumes "after s cs b" "\<not> has_key (s_nets s) nm"
  shows "dbNet_create nm skip b = dbNet_create nm False b"
  using assms(2) by (simp add: dbNet_create_def after_members [OF assms(1)])

lemma inst_create_none:
  assumes "after s cs b" "has_key (s_insts s) nm" "has_key (s_hdrs s) (m_id m)"
  shows "dbInst_create m nm b = Inr (0, b)"
proof -
  obtain h hr where h: "s_hdrs s h = Some hr" "entry_key hr = m_id m" using assms(3) by (auto simp: has_key_def)
  have "need_hdr m b = Inr (h, b)" using after_finds(1) [OF assms(1) h] after_small(5) [OF assms(1) h(1)] by (simp add: need_hdr_def)
  then show ?thesis using assms(2) by (simp add: dbInst_create_def after_members [OF assms(1)])
qed

lemma run_op_replays:
  assumes "libs_ok libs" "netlist_ok libs b" "op_ok libs op b"
  shows "ends (run_op libs op b) (replay_inv libs p b)"
proof -
  let ?s = "state_of b"
  note a = netlist_after [OF assms(2)]
  have i: "net_inv libs ?s" using assms(2) by (simp add: netlist_ok_def)
  obtain Li Lb where l: "iterms_listed ?s Li" "bterms_listed ?s Lb" "hdrs_ok libs ?s" "inst_iterms_ok ?s" by (rule invE [OF i])
  note sm = small32 [OF after_small(1) [OF a]] small32 [OF after_small(2) [OF a]] small32 [OF after_small(3) [OF a]] small32 [OF after_small(4) [OF a]]
  show ?thesis
  proof (cases op)
    case (NetNew nm skip)
    have c: "c_nets ?s + 128 \<le> 2 ^ 31" "string_ok (cstring nm)" "skip \<longrightarrow> \<not> has_key (s_nets ?s) nm"
      using assms(3) NetNew by (simp_all add: room_state string_ok_cstring name_used_def)
    show ?thesis unfolding NetNew run_op.simps
    proof (cases "has_key (s_nets ?s) nm")
      case True
      then show "ends (discard (dbNet_create nm skip b)) (replay_inv libs p b)"
        using net_create_inv [OF a i c] replay_inv_same [OF assms(2)] by (auto simp: ends_def discard_def)
    next
      case False
      show "ends (discard (dbNet_create nm skip b)) (replay_inv libs p b)"
      proof (rule replay_inv_discard [OF _ assms(2)])
        show "ends (dbNet_create nm skip b) (\<lambda>(e, b'). if False then b' = b else keeps_inv libs ?s ([] @ [OnNet (NetCreate (cstring nm))]) b')"
          by (rule ends_mono [OF net_create_inv [OF a i c]]) (use False in auto)
        fix e b' assume "dbNet_create nm skip b = Inr (e, b')"
        then have "dbNet_create nm False b = Inr (e, b')" using net_create_unskipped [OF a False, of skip] by simp
        then show "replays libs p ([] @ [OnNet (NetCreate (cstring nm))]) b b'"
          using replays_discard [OF apply_changes(1) net_create_blind] by simp
      qed
    qed
  next
    case (NetDel n)
    then obtain x where x: "s_nets ?s n = Some x" using assms(3) by (auto simp: ids_state)
    obtain Mi Mb where m: "iterms_listed ?s Mi" "bterms_listed ?s Mb" "ends (dbNet_destroy n b) (keeps_inv libs ?s ([] @ net_destroy_changes Mi Mb n))"
      using net_destroy_inv [OF a i x] by blast
    show ?thesis unfolding NetDel run_op.simps
      by (rule replay_invI [OF m(3)]) (use replays_net_destroy [OF a m(1,2) x] in simp)
  next
    case (InstNew m nm)
    have c: "in_libs libs m" "hdr_room m ?s" "c_insts ?s + 128 \<le> 2 ^ 31" "c_iterms ?s + 128 * length (m_mterms m) \<le> 2 ^ 31"
      "string_ok (cstring nm)" "has_key (s_insts ?s) nm \<longrightarrow> has_key (s_hdrs ?s) (m_id m)"
      using assms(3) InstNew by (simp_all add: room_state string_ok_cstring name_used_def hdr_room_def)
    have ml: "m_lib m < 2 ^ 32" "m_oid m < 2 ^ 32" "libs (m_lib m) (m_oid m) = Some m"
      using assms(1) c(1) unfolding libs_ok_def in_libs_def by blast+
    show ?thesis unfolding InstNew run_op.simps
    proof (cases "has_key (s_insts ?s) nm")
      case True
      then show "ends (discard (dbInst_create m nm b)) (replay_inv libs p b)"
        using inst_create_none [OF a True] c(6) replay_inv_same [OF assms(2)] by (simp add: discard_def)
    next
      case False
      show "ends (discard (dbInst_create m nm b)) (replay_inv libs p b)"
      proof (rule replay_inv_discard [OF _ assms(2)])
        show "ends (dbInst_create m nm b) (\<lambda>(e, b'). if False then b' = b
            else keeps_inv libs ?s ([] @ [OnInst (InstCreate (of_nat (m_lib m)) (of_nat (m_oid m)) (cstring nm))]) b')"
          by (rule ends_mono [OF inst_create_inv [OF a i assms(1) c]]) (use False in auto)
        fix e b' assume "dbInst_create m nm b = Inr (e, b')"
        then show "replays libs p ([] @ [OnInst (InstCreate (of_nat (m_lib m)) (of_nat (m_oid m)) (cstring nm))]) b b'"
          using replays_discard [OF apply_changes(3) [of "m_lib m" "m_oid m" libs m, OF ml] inst_create_blind] by simp
      qed
    qed
  next
    case (InstDel x)
    then obtain y where y: "s_insts ?s x = Some y" using assms(3) by (auto simp: ids_state)
    show ?thesis unfolding InstDel run_op.simps
      by (rule replay_invI [OF inst_destroy_inv [OF a i y]]) (use replays_inst_destroy [OF a l(1,4) y] in simp)
  next
    case (BTermNew n nm)
    obtain x where n: "s_nets ?s n = Some x" using assms(3) BTermNew by (auto simp: ids_state)
    have c: "c_bterms ?s + 128 \<le> 2 ^ 31" "string_ok (cstring nm)" using assms(3) BTermNew by (simp_all add: room_state string_ok_cstring)
    show ?thesis unfolding BTermNew run_op.simps
    proof (cases "has_key (s_bterms ?s) nm")
      case True
      then show "ends (discard (dbBTerm_create n nm b)) (replay_inv libs p b)"
        using bterm_create_inv [OF a i n c] replay_inv_same [OF assms(2)] by (auto simp: ends_def discard_def)
    next
      case False
      show "ends (discard (dbBTerm_create n nm b)) (replay_inv libs p b)"
      proof (rule replay_inv_discard [OF _ assms(2)])
        show "ends (dbBTerm_create n nm b) (\<lambda>(e, b'). if False then b' = b
            else keeps_inv libs ?s ([] @ [OnTerm (BTermCreate (of_nat n) (cstring nm))]) b')"
          by (rule ends_mono [OF bterm_create_inv [OF a i n c]]) (use False in auto)
        fix e b' assume "dbBTerm_create n nm b = Inr (e, b')"
        then show "replays libs p ([] @ [OnTerm (BTermCreate (of_nat n) (cstring nm))]) b b'"
          using replays_discard [OF apply_changes(6) [OF sm(2) [OF n]] bterm_create_blind] by simp
      qed
    qed
  next
    case (BTermDel t)
    then obtain u where u: "s_bterms ?s t = Some u" using assms(3) by (auto simp: ids_state)
    show ?thesis unfolding BTermDel run_op.simps
      by (rule replay_invI [OF bterm_destroy_inv [OF a i u]]) (use replays_one [OF apply_changes(7) [OF sm(3) [OF u]] bterms_blind(3)] in simp)
  next
    case (BTermConn t n)
    then obtain u x where u: "s_bterms ?s t = Some u" and x: "s_nets ?s n = Some x" using assms(3) by (auto simp: ids_state)
    show ?thesis unfolding BTermConn run_op.simps
      by (rule replay_invI [OF bterm_connect_inv [OF a i u x]]) (use replays_one [OF apply_changes(8) [OF sm(3) [OF u] sm(2) [OF x]] bterms_blind(1)] in simp)
  next
    case (BTermDisc t)
    then obtain u where u: "s_bterms ?s t = Some u" using assms(3) by (auto simp: ids_state)
    have same: "b' = b" if "bt_net u = 0" "dbBTerm_disconnect t b = Inr b'" for b'
      using after_reads(3) [OF a u] that by (auto simp: ends_def dbBTerm_disconnect_def)
    show ?thesis unfolding BTermDisc run_op.simps
      by (rule replay_invI [OF bterm_disconnect_inv [OF a i u]]) (use replays_one [OF apply_changes(9) [OF sm(3) [OF u]] bterms_blind(2)] same in auto)
  next
    case (ITermConn t n)
    then have "t \<in> ids (iterm_tbl b)" "n \<in> ids (net_tbl b)" using assms(3) by simp_all
    then obtain u x where u: "s_iterms ?s t = Some u" "s_nets ?s n = Some x" unfolding ids_iterms ids_state by blast
    show ?thesis unfolding ITermConn run_op.simps
      by (rule replay_invI [OF iterm_connect_inv [OF a i u]]) (use replays_connect [OF a l(1) u] in simp)
  next
    case (ITermDisc t)
    then have "t \<in> ids (iterm_tbl b)" using assms(3) by simp
    then obtain u where u: "s_iterms ?s t = Some u" unfolding ids_iterms by blast
    show ?thesis unfolding ITermDisc run_op.simps
      by (rule replay_invI [OF iterm_disconnect_inv [OF a i u]]) (use replays_disconnect [OF a u] in simp)
  next
    case (Swap x m)
    then obtain y where y: "s_insts ?s x = Some y" using assms(3) by (auto simp: ids_state)
    have c: "in_libs libs m" "m_frozen m" "c_hdrs ?s + 128 \<le> 2 ^ 31" using assms(3) Swap by (simp_all add: room_state)
    have ml: "m_lib m < 2 ^ 32" "m_oid m < 2 ^ 32" "libs (m_lib m) (m_oid m) = Some m"
      using assms(1) c(1) unfolding libs_ok_def in_libs_def by blast+
    show ?thesis unfolding Swap run_op.simps
    proof (rule replay_inv_discard [OF _ assms(2)])
      show "ends (dbInst_swapMaster libs x m b) (\<lambda>(e, b'). if False then b' = b else keeps_inv libs ?s ([] @ [swap_change x m]) b')"
        by (rule ends_mono [OF swap_inv [OF a i y assms(1) c]]) auto
      fix e b' assume "dbInst_swapMaster libs x m b = Inr (e, b')"
      then show "replays libs p ([] @ [swap_change x m]) b b'"
        using replays_discard [OF apply_changes(5) [of x "m_lib m" "m_oid m" libs m, OF sm(4) [OF y] ml] swap_blind] by (simp add: swap_change_def)
    qed
  qed
qed

subsection \<open>Sequences of operations\<close>

fun ops_ok :: "libs \<Rightarrow> nl_op list \<Rightarrow> netlist \<Rightarrow> bool" where
  \<comment> \<open>each one on the netlist that those before it leave\<close>
  "ops_ok libs [] b = True"
| "ops_ok libs (op # ops) b = (op_ok libs op b \<and> (case run_op libs op b of Inr b' \<Rightarrow> ops_ok libs ops b' | Inl f \<Rightarrow> True))"

lemma run_ops_replay:
  assumes "libs_ok libs" "netlist_ok libs b" "ops_ok libs ops b"
  shows "\<exists>b' cs. foldE (run_op libs) ops b = Inr b' \<and> netlist_ok libs b' \<and> recorded cs (journal b) (journal b') \<and> replays libs p cs b b'"
  using assms(2,3)
proof (induction ops arbitrary: b)
  case Nil
  then show ?case by (intro exI [of _ b] exI [of _ "[]"]) simp
next
  case (Cons op ops)
  have "op_ok libs op b" using Cons.prems(2) by simp
  then obtain b1 cs where b1: "run_op libs op b = Inr b1" "keeps_inv libs (state_of b) cs b1" "replays libs p cs b b1"
    using run_op_replays [OF assms(1) Cons.prems(1), of op p] by (auto simp: ends_def replay_inv_def)
  obtain s' where s': "after s' cs b1" "net_inv libs s'" "s_journal s' = journal b" using b1(2) by (auto simp: keeps_inv_def)
  note n = after_netlist [OF s'(1,2)]
  have "ops_ok libs ops b1" using Cons.prems(2) b1(1) by simp
  then obtain b' ds where b': "foldE (run_op libs) ops b1 = Inr b'" "netlist_ok libs b'" "recorded ds (journal b1) (journal b')" "replays libs p ds b1 b'"
    using Cons.IH [OF n(1)] by blast
  have "recorded (cs @ ds) (journal b) (journal b')" using recorded_append [OF n(2) b'(3)] s'(3) by simp
  then show ?case using b1(1) b'(1,2) replays_append [OF b1(3) b'(4)] by (intro exI [of _ b'] exI [of _ "cs @ ds"]) simp
qed

lemma begin_eco_ok: "netlist_ok libs b \<Longrightarrow> netlist_ok libs (beginEco b)"
proof -
  assume b: "netlist_ok libs b"
  have "state_of (beginEco b) = (state_of b)\<lparr>s_journal := Some new_journal\<rparr>" by (simp add: beginEco_def state_of_def)
  moreover have "tables_ok (beginEco b)" using b by (simp add: netlist_ok_def tables_ok_def beginEco_def new_journal_def)
  ultimately show ?thesis using b by (simp add: netlist_ok_def inv_journal)
qed

end
