(* ===== verification/Odb_Net_Props.thy ===== *)
theory Odb_Net_Props
  imports Odb_Net_Invariant
begin

section \<open>Properties of the netlist\<close>

text \<open>Every operation on a consistent netlist runs to its end and leaves a consistent netlist.\<close>

subsection \<open>Consistency\<close>

lemma run_op_ends:
  assumes "libs_ok libs" "netlist_ok libs b" "op_ok libs op b"
  shows "ends (run_op libs op b) (\<lambda>b'. \<exists>cs. keeps_inv libs (state_of b) cs b')"
proof -
  let ?s = "state_of b"
  note a = netlist_after [OF assms(2)]
  have i: "net_inv libs ?s" using assms(2) by (simp add: netlist_ok_def)
  have keep: "\<exists>cs. keeps_inv libs ?s cs b'" if "after ?s [] b'" for b' unfolding keeps_inv_def using that i by blast
  show ?thesis
  proof (cases op)
    case (NetNew nm skip)
    have "c_nets ?s + 128 \<le> 2 ^ 31" "string_ok (cstring nm)" "skip \<longrightarrow> \<not> has_key (s_nets ?s) nm"
      using assms(3) NetNew by (simp_all add: room_state string_ok_cstring name_used_def)
    from net_create_inv [OF a i this] show ?thesis unfolding NetNew run_op.simps
      by (intro ends_discard) (use keep a in \<open>auto elim!: ends_mono split: if_splits\<close>)
  next
    case (NetDel n)
    then obtain x where "s_nets ?s n = Some x" using assms(3) by (auto simp: ids_state)
    from net_destroy_inv [OF a i this] show ?thesis unfolding NetDel run_op.simps by (auto elim!: ends_mono)
  next
    case (InstNew m nm)
    have m: "in_libs libs m" "hdr_room m ?s" "c_insts ?s + 128 \<le> 2 ^ 31" "c_iterms ?s + 128 * length (m_mterms m) \<le> 2 ^ 31"
      "string_ok (cstring nm)" "has_key (s_insts ?s) nm \<longrightarrow> has_key (s_hdrs ?s) (m_id m)"
      using assms(3) InstNew by (simp_all add: room_state string_ok_cstring name_used_def hdr_room_def)
    from inst_create_inv [OF a i assms(1) m] show ?thesis unfolding InstNew run_op.simps
      by (intro ends_discard) (use keep in \<open>auto elim!: ends_mono split: if_splits\<close>)
  next
    case (InstDel x)
    then obtain y where "s_insts ?s x = Some y" using assms(3) by (auto simp: ids_state)
    from inst_destroy_inv [OF a i this] show ?thesis unfolding InstDel run_op.simps by (auto elim!: ends_mono)
  next
    case (BTermNew n nm)
    obtain x where n: "s_nets ?s n = Some x" using assms(3) BTermNew by (auto simp: ids_state)
    have "c_bterms ?s + 128 \<le> 2 ^ 31" "string_ok (cstring nm)" using assms(3) BTermNew by (simp_all add: room_state string_ok_cstring)
    from bterm_create_inv [OF a i n this] show ?thesis unfolding BTermNew run_op.simps
      by (intro ends_discard) (use keep a in \<open>auto elim!: ends_mono split: if_splits\<close>)
  next
    case (BTermDel t)
    then obtain u where "s_bterms ?s t = Some u" using assms(3) by (auto simp: ids_state)
    from bterm_destroy_inv [OF a i this] show ?thesis unfolding BTermDel run_op.simps by (auto elim!: ends_mono)
  next
    case (BTermConn t n)
    then obtain u x where "s_bterms ?s t = Some u" "s_nets ?s n = Some x" using assms(3) by (auto simp: ids_state)
    from bterm_connect_inv [OF a i this] show ?thesis unfolding BTermConn run_op.simps by (auto elim!: ends_mono)
  next
    case (BTermDisc t)
    then obtain u where "s_bterms ?s t = Some u" using assms(3) by (auto simp: ids_state)
    from bterm_disconnect_inv [OF a i this] show ?thesis unfolding BTermDisc run_op.simps by (auto elim!: ends_mono)
  next
    case (ITermConn t n)
    then have "t \<in> ids (iterm_tbl b)" "n \<in> ids (net_tbl b)" using assms(3) by simp_all
    then obtain u x where "s_iterms ?s t = Some u" "s_nets ?s n = Some x" unfolding ids_iterms ids_state by blast
    from iterm_connect_inv [OF a i this] show ?thesis unfolding ITermConn run_op.simps by (auto elim!: ends_mono)
  next
    case (ITermDisc t)
    then have "t \<in> ids (iterm_tbl b)" using assms(3) by simp
    then obtain u where "s_iterms ?s t = Some u" unfolding ids_iterms by blast
    from iterm_disconnect_inv [OF a i this] show ?thesis unfolding ITermDisc run_op.simps by (auto elim!: ends_mono)
  next
    case (Swap x m)
    then obtain y where y: "s_insts ?s x = Some y" using assms(3) by (auto simp: ids_state)
    have "in_libs libs m" "m_frozen m" "c_hdrs ?s + 128 \<le> 2 ^ 31" using assms(3) Swap by (simp_all add: room_state)
    from swap_inv [OF a i y assms(1) this] show ?thesis unfolding Swap run_op.simps
      by (intro ends_discard) (auto elim!: ends_mono)
  qed
qed

lemma keeps_inv_ok: "keeps_inv libs s cs b \<Longrightarrow> netlist_ok libs b"
  using after_netlist(1) by (auto simp: keeps_inv_def)

subsection \<open>The empty netlist\<close>

lemma new_index_ok: "index_ok hash dbHashTable_new (dbTable_new 128 7)"
proof -
  let ?t = "dbTable_new 128 7 :: ('a, 'b) entry_scheme dbTable"
  have t: "table_ok ?t" "objs ?t = Map.empty" using new_table_ok(1) [of 7] new_table_ok(2) [of 7] by simp_all
  have "dom (objs ?t) = {}" by (simp add: t(2))
  then have "ids ?t = {}" by simp
  moreover have "cap ?t \<le> 2 ^ 31" by (simp add: cap_def dbTable_new_def)
  ultimately show ?thesis using t by (simp add: index_ok_def hash_ok_def dbHashTable_new_def load_ok_def view_def)
qed

lemma new_view: "view (dbTable_new 128 7) = Map.empty"
proof
  fix x
  show "view (dbTable_new 128 7) x = None" by (simp add: view_def new_table_ok(2) [of 7, simplified])
qed

lemma netlist_new_ok: "netlist_ok libs netlist_new"
proof -
  have i: "table_ok (dbTable_new 128 7 :: iterm_obj dbTable)" "objs (dbTable_new 128 7 :: iterm_obj dbTable) = Map.empty"
    using new_table_ok(1) [of 7] new_table_ok(2) [of 7] by simp_all
  have "tables_ok netlist_new"
    unfolding tables_ok_def netlist_new_def netlist.simps
    by (intro conjI new_index_ok i(1)) (simp_all add: page_size_def cap_def dbTable_new_def)
  moreover have "net_inv libs (state_of netlist_new)"
    by (simp add: net_inv_def state_of_def netlist_new_def new_view i(2) listed_def hdrs_ok_def inst_iterms_ok_def)
  ultimately show ?thesis by (simp add: netlist_ok_def)
qed

subsection \<open>A netlist with an instance and a net\<close>

definition inverter :: lib_master where
  "inverter = \<lparr>m_id = 1, m_lib = 1, m_oid = 1, m_frozen = True,
     m_mterms = [\<lparr>mt_oid = 1, mt_name = ''A'', mt_order_id = 0\<rparr>, \<lparr>mt_oid = 2, mt_name = ''Z'', mt_order_id = 1\<rparr>]\<rparr>"

definition inverter_x2 :: lib_master where
  "inverter_x2 = \<lparr>m_id = 2, m_lib = 1, m_oid = 2, m_frozen = True,
     m_mterms = [\<lparr>mt_oid = 1, mt_name = ''Z'', mt_order_id = 0\<rparr>, \<lparr>mt_oid = 2, mt_name = ''A'', mt_order_id = 1\<rparr>]\<rparr>"

definition one_lib :: libs where
  "one_lib l m = (if l = 1 \<and> m = 1 then Some inverter else if l = 1 \<and> m = 2 then Some inverter_x2 else None)"

lemma one_lib_ok: "libs_ok one_lib" "in_libs one_lib inverter"
  by (simp_all add: libs_ok_def in_libs_def one_lib_def inverter_def inverter_x2_def)

lemma one_lib_x2: "in_libs one_lib inverter_x2" "m_frozen inverter_x2" "mt_name ` set (m_mterms inverter_x2) = mt_name ` set (m_mterms inverter)"
  by (auto simp: in_libs_def one_lib_def inverter_def inverter_x2_def)

lemma inst_made_caps:
  assumes "inst_made m nm e s s'"
  shows "c_nets s' = c_nets s" "c_bterms s' = c_bterms s" "c_hdrs s' \<le> c_hdrs s + 128" "c_insts s' \<le> c_insts s + 128"
    "\<exists>y hr. s_insts s' e = Some y \<and> s_hdrs s' (i_inst_hdr y) = Some hr \<and> c_iterms s' \<le> c_iterms s + 128 * length (h_mterms hr) \<and> entry_key hr = m_id m"
proof -
  obtain h s1 hr c js where w: "with_hdr m h s s1" "s_hdrs s1 h = Some hr" and c: "c \<le> c_insts s + 128" "length js = length (h_mterms hr)"
    and v: "with_iterms e 0 js (s1\<lparr>c_insts := c, s_hdrs := (s_hdrs s1)(h \<mapsto> hr\<lparr>inst_cnt := inst_cnt hr + 1\<rparr>),
         s_insts := (s_insts s)(e \<mapsto> \<lparr>entry_key = nm, next_entry = 0, i_inst_hdr = h, i_iterms = replicate (length js) 0\<rparr>)\<rparr>) s'"
    using assms unfolding inst_made_def by blast
  have s1: "c_nets s1 = c_nets s" "c_bterms s1 = c_bterms s" "c_hdrs s1 \<le> c_hdrs s + 128" "c_iterms s1 = c_iterms s"
    using w(1) by (auto simp: with_hdr_def split: if_splits)
  have v2: "c_nets s' = c_nets s1" "c_bterms s' = c_bterms s1" "c_hdrs s' = c_hdrs s1"
    using v by (auto simp: with_iterms_def dest: arg_cong [of s' _ c_nets] arg_cong [of s' _ c_bterms] arg_cong [of s' _ c_hdrs])
  show "c_nets s' = c_nets s" "c_bterms s' = c_bterms s" "c_hdrs s' \<le> c_hdrs s + 128" using v2 s1 by simp_all
  show "c_insts s' \<le> c_insts s + 128" using with_iterms_sel(11) [OF v] c(1) by simp
  have k: "entry_key hr = m_id m" using w by (auto simp: with_hdr_def new_hdr_obj_def split: if_splits)
  have "s_hdrs s' h = Some (hr\<lparr>inst_cnt := inst_cnt hr + 1\<rparr>)" using with_iterms_sel(3) [OF v] by simp
  then show "\<exists>y hr. s_insts s' e = Some y \<and> s_hdrs s' (i_inst_hdr y) = Some hr \<and> c_iterms s' \<le> c_iterms s + 128 * length (h_mterms hr) \<and> entry_key hr = m_id m"
    using with_iterms_sel(5,10) [OF v] s1(4) c(2) k by simp
qed

lemma sample_netlist: "\<exists>b n i t x. netlist_ok one_lib b \<and> n \<in> ids (net_tbl b) \<and> getPtr (iterm_tbl b) i = Inr t \<and> it_net t = 0 \<and> i \<in> ids (iterm_tbl b)
   \<and> net_getITerms n b = Inr [] \<and> journal b = None \<and> x \<in> ids (inst_tbl b) \<and> getMaster one_lib x b = Inr inverter \<and> has_room 1 b"
proof -
  let ?s = "state_of netlist_new"
  note a = netlist_after [OF netlist_new_ok [of one_lib]]
  have inv: "net_inv one_lib ?s" using netlist_new_ok by (simp add: netlist_ok_def)
  obtain Li Lb where l: "iterms_listed ?s Li" "bterms_listed ?s Lb" "hdrs_ok one_lib ?s" "inst_iterms_ok ?s" by (rule invE [OF inv])
  have no: "s_insts ?s = Map.empty" "s_nets ?s = Map.empty" "s_hdrs ?s = Map.empty" by (simp_all add: state_of_def netlist_new_def new_view)
  have room: "c_insts ?s + 128 \<le> 2 ^ 31" "c_iterms ?s + 128 * length (m_mterms inverter) \<le> 2 ^ 31" "hdr_room inverter ?s" "c_nets ?s + 128 \<le> 2 ^ 31"
    by (simp_all add: state_of_def netlist_new_def cap_def dbTable_new_def inverter_def hdr_room_def)
  have nm: "string_ok (cstring ''u1'')" "string_ok (cstring ''n1'')" "\<not> has_key (s_insts ?s) ''u1''"
    unfolding no by (simp_all add: string_ok_cstring has_key_def)
  obtain e s1 b1 cs1 where i: "inst_made inverter ''u1'' e ?s s1" and b1: "after s1 cs1 b1"
    using inst_create_ends [OF a l(3) one_lib_ok room(3,1,2) nm(1)] nm(3) by (auto simp: ends_def)
  note o = inst_made_ok [OF i a l(3,4) one_lib_ok nm(3)]
  obtain y where y: "s_insts s1 e = Some y" "length (i_iterms y) = 2" using o(8) by (auto simp: inverter_def)
  obtain t where t: "s_iterms s1 (i_iterms y ! 0) = Some t" using inst_iterms_okD(1) [OF o(2) y(1), of 0] y(2) by auto
  have n1: "s_nets s1 = Map.empty" using o(5) no(2) by simp
  have own: "it_net t = 0" using listedD(6) [OF o(3) [OF l(1)] t] n1 by simp
  note caps = inst_made_caps [OF i]
  have c1: "c_nets s1 + 128 \<le> 2 ^ 31" using caps(1) room(4) by simp
  obtain hr where hr: "s_hdrs s1 (i_inst_hdr y) = Some hr" "c_iterms s1 \<le> c_iterms ?s + 128 * length (h_mterms hr)" "entry_key hr = m_id inverter"
    using caps(5) y(1) by auto
  obtain m where m: "hdr_of one_lib m hr" using hdrs_okD(2) [OF o(1) hr(1)] ..
  have hm: "hdr_of one_lib inverter hr" using m hdr_of_id [OF one_lib_ok(1) m one_lib_ok(2) hr(3)] by simp
  have nk: "False \<longrightarrow> \<not> has_key (s_nets s1) ''n1''" "\<not> has_key (s_nets s1) ''n1''" by (simp_all add: n1 has_key_def)
  obtain n b2 c cs2 where n: "n \<noteq> 0" "s_nets s1 n = None" "c \<le> c_nets s1 + 128" and b2: "after (s1\<lparr>s_nets := (s_nets s1)(n \<mapsto> new_net_obj ''n1''), c_nets := c\<rparr>) cs2 b2"
    using net_create_ends [OF b1 c1 nm(2) nk(1)] nk(2) by (auto simp: ends_def)
  let ?s2 = "s1\<lparr>s_nets := (s_nets s1)(n \<mapsto> new_net_obj ''n1''), c_nets := c\<rparr>"
  have l2: "iterms_listed ?s2 (Li(n := []))" "bterms_listed ?s2 (Lb(n := []))"
    using listed_new_net [OF o(3) [OF l(1)] n(2,1)] listed_new_net [OF o(4) [OF l(2)] n(2,1)] by (simp_all add: new_net_obj_def)
  have "hdrs_ok one_lib ?s2" "inst_iterms_ok ?s2" using o(1,2) by (simp_all add: hdrs_ok_def has_inst_def inst_iterms_ok_def)
  from invI [OF l2 this] have inv2: "net_inv one_lib ?s2" .
  have nn: "s_nets ?s2 n = Some (new_net_obj ''n1'')" by simp
  have "view (net_tbl b2) n = Some (new_net_obj ''n1'')" using after_index(2) [OF b2] by simp
  then have nid: "n \<in> ids (net_tbl b2)" by (simp add: view_ids)
  have it: "getPtr (iterm_tbl b2) (i_iterms y ! 0) = Inr t"
    using table_deref [OF after_index(9) [OF b2], of "i_iterms y ! 0"] after_index(10) [OF b2] t by simp
  have iid: "i_iterms y ! 0 \<in> ids (iterm_tbl b2)" using dom_objs [of "iterm_tbl b2"] after_index(10) [OF b2] t by auto
  have j: "journal b2 = None"
    using after_netlist(2) [OF b2 inv2] o(7) by (auto simp: recorded_def netlist_new_def)
  have xid: "e \<in> ids (inst_tbl b2)" using y(1) after_index(4) [OF b2] by (simp add: view_ids)
  have mst: "getMaster one_lib e b2 = Inr inverter" using getMaster_ends [OF b2, of e y hr one_lib inverter] y(1) hr(1) hm by (auto simp: ends_def)
  have "length (h_mterms hr) = 2" using hm by (simp add: hdr_of_def inverter_def)
  moreover have "c_insts ?s = 0" "c_iterms ?s = 0" "c_hdrs ?s = 0" "c_bterms ?s = 0" "c_nets ?s = 0"
    by (simp_all add: state_of_def netlist_new_def cap_def dbTable_new_def)
  ultimately have hroom: "has_room 1 b2" using caps(1-4) hr(2) n(3) by (simp add: has_room_def after_index [OF b2])
  show ?thesis
    using after_netlist(1) [OF b2 inv2] nid it own xid mst hroom iid getITerms_listed [OF b2 l2(1) nn] j by (intro exI conjI) simp_all
qed

subsection \<open>The properties\<close>

text \<open>
  C6: every operation on nets, instances and terminals keeps the netlist consistent and does not fail, when its
  pointers exist and the ids do not run out: the free lists and indexes of the five tables stay in order,
  the two lists of every net hold exactly its terminals, an instance and its terminals name each other, and a
  header counts its instances and is there as long as it has any. The calls are those that \<open>op_ok\<close> admits; of the
  legal ones it leaves out \<open>dbNet::create\<close> with \<open>skipExistingCheck\<close> and a name in use, which makes two nets of one name, and
  \<open>dbInst::create\<close> with a name in use and a master without a header, which leaves a header without instances.
\<close>
theorem netlist_consistent:
  assumes "libs_ok libs" "netlist_ok libs b" "op_ok libs op b"
  shows "\<exists>b'. run_op libs op b = Inr b' \<and> netlist_ok libs b'"
  using run_op_ends [OF assms] keeps_inv_ok by (auto simp: ends_def)

definition no_libs :: libs where
  "no_libs l m = None"

theorem netlist_consistent_witness: "\<exists>b. run_op no_libs (NetNew ''clk'' False) netlist_new = Inr b \<and> netlist_ok no_libs b"
proof (rule netlist_consistent)
  show "op_ok no_libs (NetNew ''clk'' False) netlist_new" by (simp add: has_room_def netlist_new_def cap_def dbTable_new_def)
qed (simp_all add: netlist_new_ok libs_ok_def no_libs_def)

text \<open>
  C40: walking the terminals of a net finds exactly the terminals that name it as their net, each once, and the
  walk ends.
\<close>
theorem net_terminals:
  assumes "netlist_ok libs b" "n \<in> ids (net_tbl b)"
  shows "\<exists>xs ys. net_getITerms n b = Inr xs \<and> distinct xs \<and> set xs = {i. \<exists>t. getPtr (iterm_tbl b) i = Inr t \<and> it_net t = n}
     \<and> net_getBTerms n b = Inr ys \<and> distinct ys \<and> set ys = {i. \<exists>t. getPtr (bterm_tbl b) i = Inr t \<and> bt_net t = n}"
proof -
  note a = netlist_after [OF assms(1)]
  obtain x where x: "s_nets (state_of b) n = Some x" using assms(2) by (auto simp: ids_state)
  have "net_inv libs (state_of b)" using assms(1) by (simp add: netlist_ok_def)
  then obtain Li Lb where l: "iterms_listed (state_of b) Li" "bterms_listed (state_of b) Lb" by (rule invE)
  have n: "n \<noteq> 0" using after_small(2) [OF a x] by simp
  have i: "getPtr (iterm_tbl b) i = Inr t \<longleftrightarrow> s_iterms (state_of b) i = Some t" for i t
    using table_deref [OF after_index(9) [OF a], of i] by (auto split: option.splits)
  have "(\<exists>t. getPtr (bterm_tbl b) i = Inr t \<and> bt_net t = n) \<longleftrightarrow> (\<exists>t. s_bterms (state_of b) i = Some t \<and> bt_net t = n)" for i
    using index_deref [OF after_index(5) [OF a], of i] by (auto simp: view_def split: option.splits)
  then have t: "i \<in> set (Li n) \<longleftrightarrow> (\<exists>t. getPtr (iterm_tbl b) i = Inr t \<and> it_net t = n)"
    "i \<in> set (Lb n) \<longleftrightarrow> (\<exists>t. getPtr (bterm_tbl b) i = Inr t \<and> bt_net t = n)" for i
    using listedD(5) [OF l(1) x] listedD(5) [OF l(2) x] i by simp_all
  show ?thesis
    using getITerms_listed [OF a l(1) x] getBTerms_listed [OF a l(2) x] listedD(4) [OF l(1) x] listedD(4) [OF l(2) x] t
    by (intro exI [of _ "Li n"] exI [of _ "Lb n"]) auto
qed

theorem net_terminals_witness: "\<exists>b n xs. netlist_ok one_lib b \<and> net_getITerms n b = Inr xs \<and> distinct xs"
proof -
  obtain b n where "netlist_ok one_lib b" "n \<in> ids (net_tbl b)" using sample_netlist by blast
  with net_terminals [OF this] show ?thesis by blast
qed

text \<open>
  C39: connecting a terminal of an instance puts it in front of the terminals of its new net and takes it out of
  those of its old one, in which the others keep their order; no other net changes, nor do the terminals of
  the block. A terminal that is on the net already stays where it is.
\<close>
theorem iterm_connect_effect:
  assumes "netlist_ok libs b" "n \<in> ids (net_tbl b)" "getPtr (iterm_tbl b) i = Inr t"
  shows "\<exists>b'. dbITerm_connect i n b = Inr b' \<and> ids (net_tbl b') = ids (net_tbl b)
     \<and> (\<forall>m \<in> ids (net_tbl b). net_getBTerms m b' = net_getBTerms m b \<and> net_getITerms m b' =
         (if it_net t = n then net_getITerms m b
          else if m = n then bindE (net_getITerms m b) (\<lambda>js. Inr (i # js))
          else if m = it_net t then bindE (net_getITerms m b) (\<lambda>js. Inr (remove1 i js))
          else net_getITerms m b))"
proof -
  let ?s = "state_of b"
  note a = netlist_after [OF assms(1)]
  obtain x where x: "s_nets ?s n = Some x" using assms(2) by (auto simp: ids_state)
  have t: "s_iterms ?s i = Some t" using assms(3) table_deref [OF after_index(9) [OF a], of i] by (auto split: option.splits)
  have "net_inv libs ?s" using assms(1) by (simp add: netlist_ok_def)
  then obtain Li Lb where l: "iterms_listed ?s Li" "bterms_listed ?s Lb" by (rule invE)
  note c = iterm_connect_ends [OF a l(1) t x]
  obtain b' where b': "dbITerm_connect i n b = Inr b'" and a': "after (iterm_connected i n ?s) ([] @ (if it_net t = n then []
      else (if it_net t = 0 then [] else [OnTerm (ITermDisconnect (of_nat i))]) @ [OnTerm (ITermConnect (of_nat i) (of_nat n))])) b'"
    using c(1) unfolding ends_def by blast
  have so: "same_objects ?s (iterm_connected i n ?s)"
    using t same_objects_trans [OF unlinked_same(1) linked_same(1)] by (simp add: iterm_connected_def)
  have lb: "bterms_listed (iterm_connected i n ?s) Lb"
    using t l(2) bterms_listed_iterm(2) [OF bterms_listed_iterm(1) [OF l(2)]] by (simp add: iterm_connected_def)
  have v: "view (net_tbl b') = s_nets (iterm_connected i n ?s)" by (rule after_index(2) [OF a'])
  have net: "\<exists>y. s_nets (iterm_connected i n ?s) m = Some y" if "s_nets ?s m = Some y" for m y
    using same_objectsD(10) [OF so that] by blast
  have "map_option entry_key (view (net_tbl b') m) = map_option entry_key (view (net_tbl b) m)" for m
    using so unfolding v same_objects_def by simp
  then have "view (net_tbl b') m = None \<longleftrightarrow> view (net_tbl b) m = None" for m by (metis option.map_disc_iff)
  then have ids: "ids (net_tbl b') = ids (net_tbl b)" using dom_view [of "net_tbl b'"] dom_view [of "net_tbl b"] by (simp add: dom_def)
  have "net_getBTerms m b' = net_getBTerms m b \<and> net_getITerms m b' =
         (if it_net t = n then net_getITerms m b else if m = n then bindE (net_getITerms m b) (\<lambda>js. Inr (i # js))
          else if m = it_net t then bindE (net_getITerms m b) (\<lambda>js. Inr (remove1 i js)) else net_getITerms m b)"
    if "m \<in> ids (net_tbl b)" for m
  proof -
    obtain y where y: "s_nets ?s m = Some y" using \<open>m \<in> ids (net_tbl b)\<close> by (auto simp: ids_state)
    obtain y' where y': "s_nets (iterm_connected i n ?s) m = Some y'" using net [OF y] by blast
    have m0: "m \<noteq> 0" using after_small(2) [OF a y] by simp
    show ?thesis
      using getITerms_listed [OF a l(1) y] getBTerms_listed [OF a l(2) y] getITerms_listed [OF a' c(2) y'] getBTerms_listed [OF a' lb y'] m0
      by (auto simp: moved_def Let_def)
  qed
  then show ?thesis using b' ids by blast
qed

theorem iterm_connect_effect_witness: "\<exists>b n i b'. dbITerm_connect i n b = Inr b' \<and> net_getITerms n b = Inr [] \<and> net_getITerms n b' = Inr [i]"
proof -
  obtain b n i t where b: "netlist_ok one_lib b" "n \<in> ids (net_tbl b)" "getPtr (iterm_tbl b) i = Inr t"
    and t: "it_net t = 0" "net_getITerms n b = Inr []" using sample_netlist by blast
  have n: "n \<noteq> 0" using b(2) by (auto simp: ids_def)
  obtain b' where b': "dbITerm_connect i n b = Inr b'" "\<forall>m \<in> ids (net_tbl b). net_getBTerms m b' = net_getBTerms m b \<and> net_getITerms m b' =
         (if it_net t = n then net_getITerms m b else if m = n then bindE (net_getITerms m b) (\<lambda>js. Inr (i # js))
          else if m = it_net t then bindE (net_getITerms m b) (\<lambda>js. Inr (remove1 i js)) else net_getITerms m b)"
    using iterm_connect_effect [OF b] by blast
  have "net_getITerms n b' = Inr [i]" using bspec [OF b'(2) b(2)] t n by simp
  with b'(1) t(2) show ?thesis by blast
qed

subsection \<open>A new master\<close>

lemma inst_getITerm_after:
  assumes "after s cs b" "s_insts s x = Some y" "k < length (i_iterms y)" "s_iterms s (i_iterms y ! k) = Some t"
  shows "inst_getITerm x k b = Inr (i_iterms y ! k)"
proof -
  obtain z where z: "getPtr (inst_tbl b) x = Inr z" "z\<lparr>next_entry := 0\<rparr> = y" using after_reads(4) [OF assms(1,2)] by (auto simp: ends_def)
  have "i_iterms (z\<lparr>next_entry := 0\<rparr>) = i_iterms y" unfolding z(2) ..
  then have "i_iterms z = i_iterms y" by simp
  then show ?thesis using z(1) assms(3) after_reads(1) [OF assms(1,4)] by (auto simp: inst_getITerm_def ends_def)
qed

text \<open>
  C38: the master of an instance can be exchanged if and only if the terminals of the two masters have the same
  names. Then the instance has the new master, every terminal of the new master is the terminal of the
  instance that the one of the same name was before, and the terminals on every net stay as they are.
\<close>
theorem swapMaster_keeps_terminals:
  assumes "libs_ok libs" "netlist_ok libs b" "has_room 1 b" "in_libs libs m" "m_frozen m" "x \<in> ids (inst_tbl b)"
  shows "\<exists>old b' fin. getMaster libs x b = Inr old \<and> dbInst_swapMaster libs x m b = Inr (fin, b')
     \<and> fin = (mt_name ` set (m_mterms m) = mt_name ` set (m_mterms old))
     \<and> getMaster libs x b' = Inr (if fin then m else old)
     \<and> (\<forall>t \<in> set (m_mterms old). \<exists>t' \<in> set (m_mterms (if fin then m else old)). mt_name t' = mt_name t
          \<and> (\<exists>i. inst_getITerm x (mt_order_id t) b = Inr i \<and> inst_getITerm x (mt_order_id t') b' = Inr i))
     \<and> (\<forall>n \<in> ids (net_tbl b). net_getITerms n b' = net_getITerms n b)"
proof -
  let ?s = "state_of b"
  note a = netlist_after [OF assms(2)]
  have inv: "net_inv libs ?s" using assms(2) by (simp add: netlist_ok_def)
  obtain Li Lb where l: "iterms_listed ?s Li" "bterms_listed ?s Lb" "hdrs_ok libs ?s" "inst_iterms_ok ?s" by (rule invE [OF inv])
  obtain y where y: "s_insts ?s x = Some y" using assms(6) by (auto simp: ids_state)
  obtain hd0 where h: "s_hdrs ?s (i_inst_hdr y) = Some hd0" "length (h_mterms hd0) = length (i_iterms y)" using hdrs_okD(1) [OF l(3) y] by blast
  obtain old where old: "hdr_of libs old hd0" using hdrs_okD(2) [OF l(3) h(1)] ..
  have terms: "terms_ok (m_mterms m)" "terms_ok (m_mterms old)"
    using assms(1,4,5) old unfolding libs_ok_def in_libs_def hdr_of_def terms_ok_def by blast+
  have len: "length (m_mterms old) = length (i_iterms y)" using old h(2) by (auto simp: hdr_of_def)
  have room: "hdr_room m (hdr_dropped (i_inst_hdr y) ?s)" using assms(3,5) by (simp add: hdr_room_def room_state)
  have om: "getMaster libs x b = Inr old" using getMaster_ends [OF a y h(1) old] by (auto simp: ends_def)
  obtain fin b' where b': "dbInst_swapMaster libs x m b = Inr (fin, b')" and c: "case idx_map (m_mterms m) (m_mterms old) of
       None \<Rightarrow> \<not> fin \<and> after ?s ([] @ [swap_change x m]) b'
     | Some im \<Rightarrow> fin \<and> (\<exists>h s2 hr. with_hdr m h (hdr_dropped (i_inst_hdr y) ?s) s2 \<and> s_hdrs s2 h = Some hr
           \<and> after (swapped im x y h hr s2) ([] @ [swap_change x m]) b')"
    using swap_ends [OF a l(3,4) y h(1) old assms(1,4) room] by (auto simp: ends_def)
  have itm: "inst_getITerm x k b = Inr (i_iterms y ! k)" if "k < length (i_iterms y)" for k
    using inst_getITerm_after [OF a y that] inst_iterms_okD(1) [OF l(4) y that] by blast
  have ord: "mt_order_id t < length (i_iterms y)" if "t \<in> set (m_mterms old)" for t using terms_okD(2) [OF terms(2) that] len by simp
  have nets: "\<forall>n \<in> ids (net_tbl b). net_getITerms n b' = net_getITerms n b"
    if "after s' cs' b'" "iterms_listed s' Li" "s_nets s' = s_nets ?s" for s' cs'
    using getITerms_listed [OF a l(1)] getITerms_listed [OF that(1,2)] that(3) by (auto simp: ids_state)
  show ?thesis
  proof (cases "idx_map (m_mterms m) (m_mterms old)")
    case None
    then have f: "\<not> fin" and a': "after ?s [swap_change x m] b'" using c by simp_all
    have "fin = (mt_name ` set (m_mterms m) = mt_name ` set (m_mterms old))" using idx_map_none [OF terms] None f by simp
    moreover have "getMaster libs x b' = Inr old" using getMaster_ends [OF a' y h(1) old] by (auto simp: ends_def)
    moreover have "inst_getITerm x k b' = Inr (i_iterms y ! k)" if "k < length (i_iterms y)" for k
      using inst_getITerm_after [OF a' y that] inst_iterms_okD(1) [OF l(4) y that] by blast
    then have "\<exists>i. inst_getITerm x (mt_order_id t) b = Inr i \<and> inst_getITerm x (mt_order_id t) b' = Inr i" if "t \<in> set (m_mterms old)" for t
      using itm ord [OF that] by simp
    then have "\<forall>t \<in> set (m_mterms old). \<exists>t' \<in> set (m_mterms old). mt_name t' = mt_name t
          \<and> (\<exists>i. inst_getITerm x (mt_order_id t) b = Inr i \<and> inst_getITerm x (mt_order_id t') b' = Inr i)" by blast
    ultimately show ?thesis using om b' nets [OF a' l(1) refl] f by simp
  next
    case (Some im)
    obtain g s2 hr where f: fin and w: "with_hdr m g (hdr_dropped (i_inst_hdr y) ?s) s2" "s_hdrs s2 g = Some hr"
      and a': "after (swapped im x y g hr s2) [swap_change x m] b'" using c Some by auto
    let ?s' = "swapped im x y g hr s2"
    note im = idx_map_some [OF Some terms]
    note k = swapped_ok [OF a l(3,4) y h(1) old assms(1,4,5) Some w]
    have s2: "s_iterms s2 = s_iterms ?s" "s_nets s2 = s_nets ?s" using w(1) by (auto simp: with_hdr_def split: if_splits)
    have li: "length im = length (i_iterms y)" "\<forall>k < length im. im ! k < length im" using im(2,3) len by simp_all
    note o = swapped_order [OF l(4) y s2(1) li(1) im(5) li(2)]
    let ?js = "sort_key (state_idx (renumbered im (i_iterms y) s2)) (i_iterms y)" let ?y = "y\<lparr>i_inst_hdr := g, i_iterms := ?js\<rparr>"
    have y': "s_insts ?s' x = Some ?y" by (simp add: swapped_def Let_def)
    obtain hr2 where h2: "s_hdrs ?s' g = Some hr2" "length (h_mterms hr2) = length (i_iterms ?y)" using hdrs_okD(1) [OF k(1) y'] by auto
    have "hdr_of libs m hr"
    proof -
      let ?I = "(s_insts ?s)(x := None)"
      have "hdrs_ok libs ((hdr_dropped (i_inst_hdr y) ?s)\<lparr>s_insts := ?I\<rparr>)"
        by (rule hdr_dropped_ok [OF l(3) y has_inst_finite [OF a]]) simp_all
      from with_hdr_ok(1) [OF with_hdr_insts [OF w(1), of ?I] this assms(1,4)] show ?thesis using w(2) by simp
    qed
    then have "hdr_of libs m hr2" using h2(1) by (auto simp: swapped_def Let_def hdr_of_def)
    then have nm: "getMaster libs x b' = Inr m" using getMaster_ends [OF a' y', of hr2 libs m] h2(1) by (auto simp: ends_def)
    have itm': "inst_getITerm x k b' = Inr (?js ! k)" if "k < length (i_iterms y)" for k
      using inst_getITerm_after [OF a' y', of k] inst_iterms_okD(1) [OF k(2) y', of k] that by auto
    have "\<exists>t' \<in> set (m_mterms m). mt_name t' = mt_name t \<and> (\<exists>i. inst_getITerm x (mt_order_id t) b = Inr i \<and> inst_getITerm x (mt_order_id t') b' = Inr i)"
      if t: "t \<in> set (m_mterms old)" for t
    proof -
      let ?k = "mt_order_id t" let ?t = "m_mterms m ! (im ! ?k)"
      have k: "?k < length (m_mterms old)" "m_mterms old ! ?k = t" using terms_okD(2,3) [OF terms(2) t] .
      have j: "im ! ?k < length (m_mterms m)" using im(3) [OF k(1)] im(1) by simp
      have o': "mt_order_id ?t = im ! ?k" using terms(1) j unfolding terms_ok_def by (metis add_0 nth_map nth_upt)
      have "mt_name ?t = mt_name t" using im(4) [OF k(1)] k(2) by simp
      moreover have "inst_getITerm x (mt_order_id ?t) b' = Inr (i_iterms y ! ?k)"
        unfolding o' using itm' [of "im ! ?k"] o(3) [of ?k] j im(1) len ord [OF t] by simp
      ultimately show ?thesis using nth_mem [OF j] itm [OF ord [OF t]] by blast
    qed
    moreover have "fin = (mt_name ` set (m_mterms m) = mt_name ` set (m_mterms old))" using idx_map_none [OF terms] Some f by simp
    moreover have "s_nets ?s' = s_nets ?s" by (simp add: swapped_def Let_def s2)
    ultimately show ?thesis using om b' nm nets [OF a' k(3) [OF l(1)]] f by simp
  qed
qed

theorem swapMaster_keeps_terminals_witness: "\<exists>b x b'. dbInst_swapMaster one_lib x inverter_x2 b = Inr (True, b') \<and> getMaster one_lib x b' = Inr inverter_x2"
proof -
  obtain b x where b: "netlist_ok one_lib b" "has_room 1 b" "x \<in> ids (inst_tbl b)" and m: "getMaster one_lib x b = Inr inverter"
    using sample_netlist by blast
  from swapMaster_keeps_terminals [OF one_lib_ok(1) b(1,2) one_lib_x2(1,2) b(3)] m one_lib_x2(3) show ?thesis by fastforce
qed

end
