(* ===== verification/Odb_Net_Eco.thy ===== *)
theory Odb_Net_Eco
  imports Odb_Net_Replay Odb_Net_Props
begin

section \<open>Engineering change orders\<close>

text \<open>Between \<open>beginEco\<close> and \<open>endEco\<close> the operations are recorded; \<open>commitEco\<close> makes them on another copy of the block.\<close>

text \<open>
  C5: \<open>commitEco\<close> reproduces an edit. Operations on nets, instances and terminals between \<open>beginEco\<close> and
  \<open>endEco\<close>, which may destroy nets and instances that are connected and exchange masters, are recorded so
  that committing the journal on the block as it was before makes no assertion fail and leaves exactly the
  edited block: the same objects under the same ids, the same lists of terminals, indexes and free lists.
  The operations are those that \<open>op_ok\<close> admits where they are called: the objects exist, masters are frozen, names and
  ids stay below \<open>2 ^ 31\<close>. It excludes two calls that the code admits and for which the replay does fail: \<open>dbNet::create\<close> with
  \<open>skipExistingCheck\<close> and a name in use (redo creates without that flag, and finds the name), and \<open>dbInst::create\<close> with a name in use
  and a master without a header (it returns null, but the new header stays and is not in the journal).
\<close>
theorem eco_replay:
  assumes "libs_ok libs" "netlist_ok libs b" "ops_ok libs ops (beginEco b)"
  shows "\<exists>b'. foldE (run_op libs) ops (beginEco b) = Inr b'
     \<and> commitEco libs cornerCnt (b\<lparr>journal := None, journal_pending := journal_pending (endEco b')\<rparr>) = Inr ((endEco b')\<lparr>journal_pending := None\<rparr>)"
proof -
  obtain b0 cs0 where b0: "foldE (run_op libs) ops (beginEco b) = Inr b0" "recorded cs0 (journal (beginEco b)) (journal b0)"
    using run_ops_replay [OF assms(1) begin_eco_ok [OF assms(2)] assms(3)] by blast
  obtain cs where r: "recorded cs (journal (beginEco b)) (journal b0)" "replays libs (journal b0) cs (beginEco b) b0"
    using run_ops_replay [OF assms(1) begin_eco_ok [OF assms(2)] assms(3), of "journal b0"] b0(1) by auto
  obtain j where j: "journal b0 = Some j" "history cornerCnt new_journal cs cornerCnt j"
    using r(1) by (auto simp: recorded_def beginEco_def)
  have "b\<lparr>journal := None, journal_pending := journal_pending (endEco b0)\<rparr> = off (journal b0) (beginEco b)"
    by (simp add: off_def beginEco_def endEco_def)
  moreover have "commitEco libs cornerCnt (off (journal b0) (beginEco b)) = Inr ((endEco b0)\<lparr>journal_pending := None\<rparr>)"
    using r(2) redo_history [OF j(2)] by (simp add: commitEco_def j(1) replays_def) (simp add: off_def endEco_def)
  ultimately show ?thesis using b0(1) by simp
qed

lemma connect_insts: "dbITerm_connect i n b = Inr b' \<Longrightarrow> inst_tbl b' = inst_tbl b"
proof -
  have m: "mod_net n f b = Inr b' \<Longrightarrow> inst_tbl b' = inst_tbl b" "mod_iterm k g b = Inr b' \<Longrightarrow> inst_tbl b' = inst_tbl b"
    "write_journal w b = Inr b' \<Longrightarrow> inst_tbl b' = inst_tbl b" for n f k g w b b'
    by (auto simp: mod_net_def mod_iterm_def write_journal_def split: option.splits)
  show "dbITerm_connect i n b = Inr b' \<Longrightarrow> inst_tbl b' = inst_tbl b"
    by (auto simp: dbITerm_connect_def link_iterm_def split: if_splits dest!: m disconnect_insts)
qed

text \<open>A terminal of an instance is connected, then the instance is destroyed.\<close>

theorem eco_replay_witness:
  "\<exists>b n i x b'. foldE (run_op one_lib) [ITermConn i n, InstDel x] (beginEco b) = Inr b'
     \<and> commitEco one_lib 1 (b\<lparr>journal := None, journal_pending := journal b'\<rparr>) = Inr (b'\<lparr>journal := None, journal_pending := None\<rparr>)"
proof -
  obtain b n i x where b: "netlist_ok one_lib b" "n \<in> ids (net_tbl b)" "i \<in> ids (iterm_tbl b)" "x \<in> ids (inst_tbl b)"
    using sample_netlist by blast
  have "ops_ok one_lib [ITermConn i n, InstDel x] (beginEco b)"
    using b(2-4) connect_insts [of i n "beginEco b"] by (auto simp: beginEco_def split: sum.split)
  from eco_replay [OF one_lib_ok(1) b(1) this, of 1] show ?thesis by (fastforce simp: endEco_def)
qed

end
