(* ===== verification/Odb_Enums.thy ===== *)
theory Odb_Enums
  imports Odb_Types Odb_Wire
begin

section \<open>The other enumerations of OpenDB\<close>

text \<open>
  The rest of \<open>odb/src/db/dbTypes.cpp\<close>: the enumerations that the placer does not read, as in \<open>Odb_Types\<close>. Some
  constructors from a name have no default and leave the value uninitialised when the name is unknown; they
  give None then, and the locale \<open>name_table\<close> says what they owe. Two enumerations do not read all that they
  print: a box owner prints \<open>TECH_VIA\<close> and reads \<open>TECH VIA\<close>, and the source types \<open>NONE\<close> and \<open>TEST\<close> are not read.
\<close>

locale name_table =
  fixes parse :: "string \<Rightarrow> 'a option"
    and shown :: "'a \<Rightarrow> string"
  assumes read_any_case: "strcasecmp s (shown v) \<Longrightarrow> parse s = Some v"
    and read_other: "(\<And>v. \<not> strcasecmp s (shown v)) \<Longrightarrow> parse s = None"
begin

lemma read_shown: "parse (shown v) = Some v"
  by (rule read_any_case) simp

lemma read_iff: "parse s = Some v \<longleftrightarrow> strcasecmp s (shown v)"
proof
  assume p: "parse s = Some v"
  then obtain w where "strcasecmp s (shown w)" using read_other [of s] by fastforce
  with read_any_case [OF this] p show "strcasecmp s (shown v)" by simp
qed (rule read_any_case)

end

lemma first_match_unread:
  "list_all (\<lambda>(n, v). v \<noteq> None \<and> n = shown (the v)) tab \<Longrightarrow> (\<And>v. \<not> strcasecmp s (shown v)) \<Longrightarrow> first_match s tab None = None"
  by (induction tab) auto

subsection \<open>\<open>dbTechLayerType\<close>\<close>

fun layertype_getString :: "dbTechLayerType \<Rightarrow> string" where
  "layertype_getString LT_NONE = ''NONE''"
| "layertype_getString LT_ROUTING = ''ROUTING''"
| "layertype_getString LT_CUT = ''CUT''"
| "layertype_getString LT_MASTERSLICE = ''MASTERSLICE''"
| "layertype_getString LT_OVERLAP = ''OVERLAP''"
| "layertype_getString LT_IMPLANT = ''IMPLANT''"

definition layertype_of_string :: "string \<Rightarrow> dbTechLayerType" where
  "layertype_of_string s = first_match s
     [(''ROUTING'', LT_ROUTING), (''CUT'', LT_CUT), (''MASTERSLICE'', LT_MASTERSLICE),
      (''OVERLAP'', LT_OVERLAP), (''IMPLANT'', LT_IMPLANT)]
     LT_NONE"

definition layertype_default :: dbTechLayerType where
  "layertype_default = LT_ROUTING"

subsection \<open>\<open>dbTechLayerDir\<close>\<close>

datatype dbTechLayerDir =
    LD_NONE | LD_HORIZONTAL | LD_VERTICAL

fun layerdir_getString :: "dbTechLayerDir \<Rightarrow> string" where
  "layerdir_getString LD_NONE = ''NONE''"
| "layerdir_getString LD_HORIZONTAL = ''HORIZONTAL''"
| "layerdir_getString LD_VERTICAL = ''VERTICAL''"

definition layerdir_of_string :: "string \<Rightarrow> dbTechLayerDir" where
  "layerdir_of_string s = first_match s
     [(''NONE'', LD_NONE), (''HORIZONTAL'', LD_HORIZONTAL), (''VERTICAL'', LD_VERTICAL)]
     LD_NONE"

definition layerdir_default :: dbTechLayerDir where
  "layerdir_default = LD_NONE"

subsection \<open>\<open>dbTechLayerMinStepType\<close>\<close>

datatype dbTechLayerMinStepType =
    MS_INSIDE_CORNER | MS_OUTSIDE_CORNER | MS_STEP

fun minstep_getString :: "dbTechLayerMinStepType \<Rightarrow> string" where
  "minstep_getString MS_INSIDE_CORNER = ''INSIDECORNER''"
| "minstep_getString MS_OUTSIDE_CORNER = ''OUTSIDECORNER''"
| "minstep_getString MS_STEP = ''STEP''"

definition minstep_of_string :: "string \<Rightarrow> dbTechLayerMinStepType" where
  "minstep_of_string s = first_match s
     [(''INSIDECORNER'', MS_INSIDE_CORNER), (''OUTSIDECORNER'', MS_OUTSIDE_CORNER),
      (''STEP'', MS_STEP)]
     MS_OUTSIDE_CORNER"

definition minstep_default :: dbTechLayerMinStepType where
  "minstep_default = MS_OUTSIDE_CORNER"

subsection \<open>\<open>dbBoxOwner\<close>\<close>

datatype dbBoxOwner =
    BO_UNKNOWN | BO_BLOCK | BO_INST | BO_BTERM | BO_VIA | BO_OBSTRUCTION | BO_SWIRE | BO_BLOCKAGE |
    BO_MASTER | BO_MPIN | BO_TECH_VIA | BO_REGION | BO_BPIN

fun boxowner_getString :: "dbBoxOwner \<Rightarrow> string" where
  "boxowner_getString BO_UNKNOWN = ''UNKNOWN''"
| "boxowner_getString BO_BLOCK = ''BLOCK''"
| "boxowner_getString BO_INST = ''INST''"
| "boxowner_getString BO_BTERM = ''BTERM''"
| "boxowner_getString BO_VIA = ''VIA''"
| "boxowner_getString BO_OBSTRUCTION = ''OBSTRUCTION''"
| "boxowner_getString BO_SWIRE = ''SWIRE''"
| "boxowner_getString BO_BLOCKAGE = ''BLOCKAGE''"
| "boxowner_getString BO_MASTER = ''MASTER''"
| "boxowner_getString BO_MPIN = ''MPIN''"
| "boxowner_getString BO_TECH_VIA = ''TECH_VIA''"
| "boxowner_getString BO_REGION = ''REGION''"
| "boxowner_getString BO_BPIN = ''BPIN''"

definition boxowner_of_string :: "string \<Rightarrow> dbBoxOwner option" where
  "boxowner_of_string s = first_match s
     [(''UNKNOWN'', Some BO_UNKNOWN), (''BLOCK'', Some BO_BLOCK), (''INST'', Some BO_INST),
      (''BTERM'', Some BO_BTERM), (''BPIN'', Some BO_BPIN), (''BPIN'', Some BO_BPIN),
      (''VIA'', Some BO_VIA), (''OBSTRUCTION'', Some BO_OBSTRUCTION),
      (''BLOCKAGE'', Some BO_BLOCKAGE), (''MASTER'', Some BO_MASTER), (''MPIN'', Some BO_MPIN),
      (''TECH VIA'', Some BO_TECH_VIA), (''SWIRE'', Some BO_SWIRE), (''REGION'', Some BO_REGION)]
     None"

definition boxowner_default :: dbBoxOwner where
  "boxowner_default = BO_BLOCK"

subsection \<open>\<open>dbWireType\<close>\<close>

fun wiretype_getString :: "dbWireType \<Rightarrow> string" where
  "wiretype_getString WIRE_NONE = ''NONE''"
| "wiretype_getString WIRE_COVER = ''COVER''"
| "wiretype_getString WIRE_FIXED = ''FIXED''"
| "wiretype_getString WIRE_ROUTED = ''ROUTED''"
| "wiretype_getString WIRE_SHIELD = ''SHIELD''"
| "wiretype_getString WIRE_NOSHIELD = ''NOSHIELD''"

definition wiretype_of_string :: "string \<Rightarrow> dbWireType" where
  "wiretype_of_string s = first_match s
     [(''NONE'', WIRE_NONE), (''COVER'', WIRE_COVER), (''FIXED'', WIRE_FIXED),
      (''ROUTED'', WIRE_ROUTED), (''SHIELD'', WIRE_SHIELD), (''NOSHIELD'', WIRE_NOSHIELD)]
     WIRE_NONE"

definition wiretype_default :: dbWireType where
  "wiretype_default = WIRE_NONE"

subsection \<open>\<open>dbWireShapeType\<close>\<close>

datatype dbWireShapeType =
    WS_NONE | WS_RING | WS_PADRING | WS_BLOCKRING | WS_STRIPE | WS_FOLLOWPIN | WS_IOWIRE |
    WS_COREWIRE | WS_BLOCKWIRE | WS_BLOCKAGEWIRE | WS_FILLWIRE | WS_DRCFILL

fun wireshape_getString :: "dbWireShapeType \<Rightarrow> string" where
  "wireshape_getString WS_NONE = ''NONE''"
| "wireshape_getString WS_RING = ''RING''"
| "wireshape_getString WS_PADRING = ''PADRING''"
| "wireshape_getString WS_BLOCKRING = ''BLOCKRING''"
| "wireshape_getString WS_STRIPE = ''STRIPE''"
| "wireshape_getString WS_FOLLOWPIN = ''FOLLOWPIN''"
| "wireshape_getString WS_IOWIRE = ''IOWIRE''"
| "wireshape_getString WS_COREWIRE = ''COREWIRE''"
| "wireshape_getString WS_BLOCKWIRE = ''BLOCKWIRE''"
| "wireshape_getString WS_BLOCKAGEWIRE = ''BLOCKAGEWIRE''"
| "wireshape_getString WS_FILLWIRE = ''FILLWIRE''"
| "wireshape_getString WS_DRCFILL = ''DRCFILL''"

definition wireshape_of_string :: "string \<Rightarrow> dbWireShapeType option" where
  "wireshape_of_string s = first_match s
     [(''NONE'', Some WS_NONE), (''RING'', Some WS_RING), (''PADRING'', Some WS_PADRING),
      (''BLOCKRING'', Some WS_BLOCKRING), (''STRIPE'', Some WS_STRIPE),
      (''FOLLOWPIN'', Some WS_FOLLOWPIN), (''IOWIRE'', Some WS_IOWIRE),
      (''COREWIRE'', Some WS_COREWIRE), (''BLOCKWIRE'', Some WS_BLOCKWIRE),
      (''BLOCKAGEWIRE'', Some WS_BLOCKAGEWIRE), (''FILLWIRE'', Some WS_FILLWIRE),
      (''DRCFILL'', Some WS_DRCFILL)]
     None"

definition wireshape_default :: dbWireShapeType where
  "wireshape_default = WS_NONE"

subsection \<open>\<open>dbSiteClass\<close>\<close>

datatype dbSiteClass =
    SC_NONE | SC_PAD | SC_CORE

fun siteclass_getString :: "dbSiteClass \<Rightarrow> string" where
  "siteclass_getString SC_NONE = ''NONE''"
| "siteclass_getString SC_PAD = ''PAD''"
| "siteclass_getString SC_CORE = ''CORE''"

definition siteclass_of_string :: "string \<Rightarrow> dbSiteClass option" where
  "siteclass_of_string s = first_match s
     [(''NONE'', Some SC_NONE), (''PAD'', Some SC_PAD), (''CORE'', Some SC_CORE)]
     None"

definition siteclass_default :: dbSiteClass where
  "siteclass_default = SC_NONE"

subsection \<open>\<open>dbOnOffType\<close>\<close>

datatype dbOnOffType =
    OO_OFF | OO_ON

fun onoff_getString :: "dbOnOffType \<Rightarrow> string" where
  "onoff_getString OO_OFF = ''OFF''"
| "onoff_getString OO_ON = ''ON''"

definition onoff_of_string :: "string \<Rightarrow> dbOnOffType" where
  "onoff_of_string s = first_match s
     [(''ON'', OO_ON), (''OFF'', OO_OFF)]
     OO_OFF"

definition onoff_default :: dbOnOffType where
  "onoff_default = OO_OFF"

definition onoff_of_int :: "int \<Rightarrow> dbOnOffType" where
  "onoff_of_int innum = (if innum = 0 then OO_OFF else OO_ON)"

definition onoff_of_bool :: "bool \<Rightarrow> dbOnOffType" where
  "onoff_of_bool insw = (if insw then OO_ON else OO_OFF)"

definition onoff_getAsInt :: "dbOnOffType \<Rightarrow> int" where
  "onoff_getAsInt t = (if t = OO_ON then 1 else 0)"

definition onoff_isSet :: "dbOnOffType \<Rightarrow> bool" where
  "onoff_isSet t \<longleftrightarrow> t = OO_ON"

lemma onoff_numbers:
  "onoff_of_int (onoff_getAsInt t) = t" "onoff_of_bool (onoff_isSet t) = t" "onoff_isSet (onoff_of_int n) \<longleftrightarrow> n \<noteq> 0"
  by (cases t; simp add: onoff_of_int_def onoff_getAsInt_def onoff_of_bool_def onoff_isSet_def)+

subsection \<open>\<open>dbClMeasureType\<close>\<close>

datatype dbClMeasureType =
    CM_EUCLIDEAN | CM_MAXXY

fun clmeasure_getString :: "dbClMeasureType \<Rightarrow> string" where
  "clmeasure_getString CM_EUCLIDEAN = ''EUCLIDEAN''"
| "clmeasure_getString CM_MAXXY = ''MAXXY''"

definition clmeasure_of_string :: "string \<Rightarrow> dbClMeasureType" where
  "clmeasure_of_string s = first_match s
     [(''MAXXY'', CM_MAXXY), (''EUCLIDEAN'', CM_EUCLIDEAN)]
     CM_EUCLIDEAN"

subsection \<open>\<open>dbRowDir\<close>\<close>

fun rowdir_getString :: "dbRowDir \<Rightarrow> string" where
  "rowdir_getString HORIZONTAL = ''HORIZONTAL''"
| "rowdir_getString VERTICAL = ''VERTICAL''"

definition rowdir_of_string :: "string \<Rightarrow> dbRowDir" where
  "rowdir_of_string s = first_match s
     [(''HORIZONTAL'', HORIZONTAL)]
     VERTICAL"

definition rowdir_default :: dbRowDir where
  "rowdir_default = HORIZONTAL"

subsection \<open>\<open>dbRegionType\<close>\<close>

datatype dbRegionType =
    RGT_INCLUSIVE | RGT_EXCLUSIVE | RGT_SUGGESTED

fun regiontype_getString :: "dbRegionType \<Rightarrow> string" where
  "regiontype_getString RGT_INCLUSIVE = ''INCLUSIVE''"
| "regiontype_getString RGT_EXCLUSIVE = ''EXCLUSIVE''"
| "regiontype_getString RGT_SUGGESTED = ''SUGGESTED''"

subsection \<open>\<open>dbSourceType\<close>\<close>

fun sourcetype_getString :: "dbSourceType \<Rightarrow> string" where
  "sourcetype_getString SRC_NONE = ''NONE''"
| "sourcetype_getString SRC_NETLIST = ''NETLIST''"
| "sourcetype_getString SRC_DIST = ''DIST''"
| "sourcetype_getString SRC_USER = ''USER''"
| "sourcetype_getString SRC_TIMING = ''TIMING''"
| "sourcetype_getString SRC_TEST = ''TEST''"

definition sourcetype_of_string :: "string \<Rightarrow> dbSourceType" where
  "sourcetype_of_string s = first_match s
     [(''NETLIST'', SRC_NETLIST), (''DIST'', SRC_DIST), (''USER'', SRC_USER),
      (''TIMING'', SRC_TIMING)]
     SRC_NETLIST"

subsection \<open>\<open>dbJournalEntryType\<close>\<close>

datatype dbJournalEntryType =
    JET_NONE | JET_OWNER | JET_ADD | JET_DESTROY

fun journalentry_getString :: "dbJournalEntryType \<Rightarrow> string" where
  "journalentry_getString JET_NONE = ''NONE''"
| "journalentry_getString JET_OWNER = ''OWNER''"
| "journalentry_getString JET_ADD = ''ADD''"
| "journalentry_getString JET_DESTROY = ''DESTROY''"

subsection \<open>\<open>dbDirection\<close>\<close>

datatype dbDirection =
    DIR_NONE | DIR_NORTH | DIR_EAST | DIR_SOUTH | DIR_WEST | DIR_UP | DIR_DOWN

fun direction_getString :: "dbDirection \<Rightarrow> string" where
  "direction_getString DIR_NONE = ''NONE''"
| "direction_getString DIR_NORTH = ''NORTH''"
| "direction_getString DIR_EAST = ''EAST''"
| "direction_getString DIR_SOUTH = ''SOUTH''"
| "direction_getString DIR_WEST = ''WEST''"
| "direction_getString DIR_UP = ''UP''"
| "direction_getString DIR_DOWN = ''DOWN''"

subsection \<open>\<open>dbMTermShapeType\<close>\<close>

datatype dbMTermShapeType =
    MSH_NONE | MSH_RING | MSH_FEEDTHRU | MSH_ABUTMENT

fun mtermshape_getString :: "dbMTermShapeType \<Rightarrow> string" where
  "mtermshape_getString MSH_NONE = ''NONE''"
| "mtermshape_getString MSH_RING = ''RING''"
| "mtermshape_getString MSH_FEEDTHRU = ''FEEDTHRU''"
| "mtermshape_getString MSH_ABUTMENT = ''ABUTMENT''"

definition mtermshape_of_string :: "string \<Rightarrow> dbMTermShapeType" where
  "mtermshape_of_string s = first_match s
     [(''NONE'', MSH_NONE), (''RING'', MSH_RING), (''ABUTMENT'', MSH_ABUTMENT),
      (''FEEDTHRU'', MSH_FEEDTHRU)]
     MSH_NONE"

definition mtermshape_default :: dbMTermShapeType where
  "mtermshape_default = MSH_NONE"

subsection \<open>\<open>dbAccessType\<close>\<close>

datatype dbAccessType =
    AC_OnGrid | AC_HalfGrid | AC_Center | AC_EncOpt | AC_NearbyGrid

fun accesstype_getString :: "dbAccessType \<Rightarrow> string" where
  "accesstype_getString AC_OnGrid = ''OnGrid''"
| "accesstype_getString AC_HalfGrid = ''HalfGrid''"
| "accesstype_getString AC_Center = ''Center''"
| "accesstype_getString AC_EncOpt = ''EncOpt''"
| "accesstype_getString AC_NearbyGrid = ''NearbyGrid''"

definition accesstype_of_string :: "string \<Rightarrow> dbAccessType" where
  "accesstype_of_string s = first_match s
     [(''OnGrid'', AC_OnGrid), (''HalfGrid'', AC_HalfGrid), (''Center'', AC_Center),
      (''EncOpt'', AC_EncOpt), (''NearbyGrid'', AC_NearbyGrid)]
     AC_OnGrid"

definition accesstype_default :: dbAccessType where
  "accesstype_default = AC_OnGrid"

subsection \<open>Names\<close>

lemma layertype_parse_any_case: "strcasecmp s (layertype_getString v) \<Longrightarrow> layertype_of_string s = v"
  unfolding layertype_of_string_def by (subst first_match_any_case, assumption)
    (cases v; simp add: strcasecmp_def tolower_def)

lemma layertype_parse_other: "(\<And>v. \<not> strcasecmp s (layertype_getString v)) \<Longrightarrow> layertype_of_string s = LT_NONE"
  unfolding layertype_of_string_def
  by (rule first_match_none [where shown = layertype_getString]) simp_all

interpretation layertype_codec: name_codec layertype_of_string layertype_getString LT_NONE
  by unfold_locales (rule layertype_parse_any_case layertype_parse_other; assumption)+

lemma layerdir_parse_any_case: "strcasecmp s (layerdir_getString v) \<Longrightarrow> layerdir_of_string s = v"
  unfolding layerdir_of_string_def by (subst first_match_any_case, assumption)
    (cases v; simp add: strcasecmp_def tolower_def)

lemma layerdir_parse_other: "(\<And>v. \<not> strcasecmp s (layerdir_getString v)) \<Longrightarrow> layerdir_of_string s = LD_NONE"
  unfolding layerdir_of_string_def
  by (rule first_match_none [where shown = layerdir_getString]) simp_all

interpretation layerdir_codec: name_codec layerdir_of_string layerdir_getString LD_NONE
  by unfold_locales (rule layerdir_parse_any_case layerdir_parse_other; assumption)+

lemma minstep_parse_any_case: "strcasecmp s (minstep_getString v) \<Longrightarrow> minstep_of_string s = v"
  unfolding minstep_of_string_def by (subst first_match_any_case, assumption)
    (cases v; simp add: strcasecmp_def tolower_def)

lemma minstep_parse_other: "(\<And>v. \<not> strcasecmp s (minstep_getString v)) \<Longrightarrow> minstep_of_string s = MS_OUTSIDE_CORNER"
  unfolding minstep_of_string_def
  by (rule first_match_none [where shown = minstep_getString]) simp_all

interpretation minstep_codec: name_codec minstep_of_string minstep_getString MS_OUTSIDE_CORNER
  by unfold_locales (rule minstep_parse_any_case minstep_parse_other; assumption)+

lemma wiretype_parse_any_case: "strcasecmp s (wiretype_getString v) \<Longrightarrow> wiretype_of_string s = v"
  unfolding wiretype_of_string_def by (subst first_match_any_case, assumption)
    (cases v; simp add: strcasecmp_def tolower_def)

lemma wiretype_parse_other: "(\<And>v. \<not> strcasecmp s (wiretype_getString v)) \<Longrightarrow> wiretype_of_string s = WIRE_NONE"
  unfolding wiretype_of_string_def
  by (rule first_match_none [where shown = wiretype_getString]) simp_all

interpretation wiretype_codec: name_codec wiretype_of_string wiretype_getString WIRE_NONE
  by unfold_locales (rule wiretype_parse_any_case wiretype_parse_other; assumption)+

lemma wireshape_read_any_case: "strcasecmp s (wireshape_getString v) \<Longrightarrow> wireshape_of_string s = Some v"
  unfolding wireshape_of_string_def by (subst first_match_any_case, assumption)
    (cases v; simp add: strcasecmp_def tolower_def)

lemma wireshape_read_other: "(\<And>v. \<not> strcasecmp s (wireshape_getString v)) \<Longrightarrow> wireshape_of_string s = None"
  unfolding wireshape_of_string_def by (rule first_match_unread [where shown = wireshape_getString]) simp_all

interpretation wireshape_names: name_table wireshape_of_string wireshape_getString
  by unfold_locales (rule wireshape_read_any_case wireshape_read_other; assumption)+

lemma siteclass_read_any_case: "strcasecmp s (siteclass_getString v) \<Longrightarrow> siteclass_of_string s = Some v"
  unfolding siteclass_of_string_def by (subst first_match_any_case, assumption)
    (cases v; simp add: strcasecmp_def tolower_def)

lemma siteclass_read_other: "(\<And>v. \<not> strcasecmp s (siteclass_getString v)) \<Longrightarrow> siteclass_of_string s = None"
  unfolding siteclass_of_string_def by (rule first_match_unread [where shown = siteclass_getString]) simp_all

interpretation siteclass_names: name_table siteclass_of_string siteclass_getString
  by unfold_locales (rule siteclass_read_any_case siteclass_read_other; assumption)+

lemma onoff_parse_any_case: "strcasecmp s (onoff_getString v) \<Longrightarrow> onoff_of_string s = v"
  unfolding onoff_of_string_def by (subst first_match_any_case, assumption)
    (cases v; simp add: strcasecmp_def tolower_def)

lemma onoff_parse_other: "(\<And>v. \<not> strcasecmp s (onoff_getString v)) \<Longrightarrow> onoff_of_string s = OO_OFF"
  unfolding onoff_of_string_def
  by (rule first_match_none [where shown = onoff_getString]) simp_all

interpretation onoff_codec: name_codec onoff_of_string onoff_getString OO_OFF
  by unfold_locales (rule onoff_parse_any_case onoff_parse_other; assumption)+

lemma clmeasure_parse_any_case: "strcasecmp s (clmeasure_getString v) \<Longrightarrow> clmeasure_of_string s = v"
  unfolding clmeasure_of_string_def by (subst first_match_any_case, assumption)
    (cases v; simp add: strcasecmp_def tolower_def)

lemma clmeasure_parse_other: "(\<And>v. \<not> strcasecmp s (clmeasure_getString v)) \<Longrightarrow> clmeasure_of_string s = CM_EUCLIDEAN"
  unfolding clmeasure_of_string_def
  by (rule first_match_none [where shown = clmeasure_getString]) simp_all

interpretation clmeasure_codec: name_codec clmeasure_of_string clmeasure_getString CM_EUCLIDEAN
  by unfold_locales (rule clmeasure_parse_any_case clmeasure_parse_other; assumption)+

lemma rowdir_parse_any_case: "strcasecmp s (rowdir_getString v) \<Longrightarrow> rowdir_of_string s = v"
  unfolding rowdir_of_string_def by (subst first_match_any_case, assumption)
    (cases v; simp add: strcasecmp_def tolower_def)

lemma rowdir_parse_other: "(\<And>v. \<not> strcasecmp s (rowdir_getString v)) \<Longrightarrow> rowdir_of_string s = VERTICAL"
  unfolding rowdir_of_string_def
  by (rule first_match_none [where shown = rowdir_getString]) simp_all

interpretation rowdir_codec: name_codec rowdir_of_string rowdir_getString VERTICAL
  by unfold_locales (rule rowdir_parse_any_case rowdir_parse_other; assumption)+

lemma mtermshape_parse_any_case: "strcasecmp s (mtermshape_getString v) \<Longrightarrow> mtermshape_of_string s = v"
  unfolding mtermshape_of_string_def by (subst first_match_any_case, assumption)
    (cases v; simp add: strcasecmp_def tolower_def)

lemma mtermshape_parse_other: "(\<And>v. \<not> strcasecmp s (mtermshape_getString v)) \<Longrightarrow> mtermshape_of_string s = MSH_NONE"
  unfolding mtermshape_of_string_def
  by (rule first_match_none [where shown = mtermshape_getString]) simp_all

interpretation mtermshape_codec: name_codec mtermshape_of_string mtermshape_getString MSH_NONE
  by unfold_locales (rule mtermshape_parse_any_case mtermshape_parse_other; assumption)+

lemma accesstype_parse_any_case: "strcasecmp s (accesstype_getString v) \<Longrightarrow> accesstype_of_string s = v"
  unfolding accesstype_of_string_def by (subst first_match_any_case, assumption)
    (cases v; simp add: strcasecmp_def tolower_def)

lemma accesstype_parse_other: "(\<And>v. \<not> strcasecmp s (accesstype_getString v)) \<Longrightarrow> accesstype_of_string s = AC_OnGrid"
  unfolding accesstype_of_string_def
  by (rule first_match_none [where shown = accesstype_getString]) simp_all

interpretation accesstype_codec: name_codec accesstype_of_string accesstype_getString AC_OnGrid
  by unfold_locales (rule accesstype_parse_any_case accesstype_parse_other; assumption)+

text \<open>A printed box owner is read as it was, but for \<open>TECH_VIA\<close>; two source types become \<open>NETLIST\<close>.\<close>

lemma boxowner_read: "strcasecmp s (boxowner_getString v) \<Longrightarrow> boxowner_of_string s = (if v = BO_TECH_VIA then None else Some v)"
  unfolding boxowner_of_string_def by (subst first_match_any_case, assumption)
    (cases v; simp add: strcasecmp_def tolower_def)

lemma sourcetype_read:
  "strcasecmp s (sourcetype_getString v) \<Longrightarrow> sourcetype_of_string s = (if v \<in> {SRC_NONE, SRC_TEST} then SRC_NETLIST else v)"
  unfolding sourcetype_of_string_def by (subst first_match_any_case, assumption)
    (cases v; simp add: strcasecmp_def tolower_def)

end
