(* ===== verification/Tap_Rows.thy ===== *)
theory Tap_Rows
  imports Cxx_Library Odb_Design Odb_Table_Props "HOL-Library.Product_Lexorder"
begin

section \<open>Cutting the rows around macros\<close>

text \<open>
  The first part of \<open>tap/src/tapcell.cpp\<close>: the rows of the block are cut where the macros and a halo
  around them cover them, and are then arranged by their positions. The rows are the objects of the table
  \<open>_row_tbl\<close> of the block (\<open>Odb_Table\<close>), a pointer to a row is its id. A row is the one of
  \<open>Odb_Design\<close> with its name; it carries the size of its site. The map from rows to blockages is ordered by
  the addresses of the rows: that order is the argument \<open>ptr_order\<close>, a permutation.
\<close>

record tap_row = dbRow +
  r_name :: string

record dbSite =
  s_width :: int
  s_height :: int

definition getSite :: "tap_row \<Rightarrow> dbSite" where
  "getSite r = \<lparr>s_width = site_w r, s_height = site_h r\<rparr>"

definition row_bbox :: "tap_row \<Rightarrow> Rect" where
  \<comment> \<open>\<open>dbRow::getBBox\<close>\<close>
  "row_bbox r = row_getBBox (dbRow.truncate r)"

definition row_create ::
    "string \<Rightarrow> dbSite \<Rightarrow> int \<Rightarrow> int \<Rightarrow> dbOrientType \<Rightarrow> dbRowDir \<Rightarrow> int \<Rightarrow> int \<Rightarrow> tap_row dbTable
     \<Rightarrow> tap_row dbTable result" where
  \<comment> \<open>\<open>dbRow::create\<close>\<close>
  "row_create name site origin_x origin_y orient direction num_sites spacing t =
     bindE (dbTable_create
       \<lparr>row_x = origin_x, row_y = origin_y, row_orient = orient, row_dir = direction, row_site_cnt = num_sites,
        row_spacing = spacing, site_w = s_width site, site_h = s_height site, r_name = name\<rparr> t)
       (\<lambda>(oid, t). Inr t)"

text \<open>
  \<open>makeSiteLoc\<close> divides in \<open>double\<close> and rounds down or up. The operands are integers of 32 bits, so the rounded
  quotient is an integer only if the exact one is, and \<open>floor\<close> and \<open>ceil\<close> are those of the exact quotient. A
  site of width 0 gives an infinite quotient, whose conversion to \<open>int\<close> is undefined.
\<close>

definition makeSiteLoc :: "int \<Rightarrow> int \<Rightarrow> bool \<Rightarrow> int \<Rightarrow> int result" where
  "makeSiteLoc x site_width at_left_from_macro offset =
     (if site_width = 0 then Inl DivZero
      else
        let site_x1 = (if at_left_from_macro then (x - offset) div site_width
                       else - ((offset - x) div site_width))
        in Inr (site_x1 * site_width + offset))"

definition buildRow ::
    "string \<Rightarrow> dbSite \<Rightarrow> int \<Rightarrow> int \<Rightarrow> int \<Rightarrow> dbOrientType \<Rightarrow> dbRowDir \<Rightarrow> int \<Rightarrow> tap_row dbTable
     \<Rightarrow> tap_row dbTable result" where
  "buildRow name site start_x end_x y orient direction min_row_width t =
     (let site_width = s_width site in
      if site_width = 0 then Inl DivZero
      else
        let new_row_num_sites = (end_x - start_x) sdiv site_width;
            new_row_width = new_row_num_sites * site_width
        in if new_row_num_sites > 0 \<and> new_row_width \<ge> min_row_width
           then row_create name site start_x y orient direction new_row_num_sites site_width t
           else Inr t)"

definition overlaps_row :: "Rect \<Rightarrow> tap_row \<Rightarrow> int \<Rightarrow> int \<Rightarrow> bool" where
  "overlaps_row blockage row halo_x halo_y =
     (let rowBB = row_bbox row;
          blockage_lly = yMin blockage - halo_y;
          blockage_ury = yMax blockage + halo_y;
          row_lly = yMin rowBB;
          row_ury = yMax rowBB
      in if blockage_lly \<ge> row_ury \<or> row_lly \<ge> blockage_ury then False
         else
           let blockage_llx = xMin blockage - halo_x;
               blockage_urx = xMax blockage + halo_x;
               row_llx = xMin rowBB;
               row_urx = xMax rowBB
           in if blockage_llx \<ge> row_urx \<or> row_llx \<ge> blockage_urx then False else True)"

definition findBlockages :: "dbBlock \<Rightarrow> Rect list" where
  \<comment> \<open>the boxes of the placed macros\<close>
  "findBlockages b =
     map i_bbox (filter (\<lambda>i. mt_isBlock (m_type (b_masters b ! i_master i)) \<and> inst_isPlaced i) (b_insts b))"

text \<open>
  \<open>cutRow\<close>: before every blockage, from left to right, a row from the current start to the last site in front
  of the halo; the next start is the first site behind the halo, counted from the previous start. The
  state of the loop is the start, the number of the next row and the table.
\<close>

definition sub_row_name :: "string \<Rightarrow> nat \<Rightarrow> string" where
  "sub_row_name row_name row_sub_idx = row_name @ ''_'' @ to_string row_sub_idx"

definition cut_at ::
    "tap_row \<Rightarrow> int \<Rightarrow> int \<Rightarrow> int \<times> int \<Rightarrow> int \<times> nat \<times> tap_row dbTable \<Rightarrow> (int \<times> nat \<times> tap_row dbTable) result" where
  "cut_at row min_width halo_x blockage acc =
     (case acc of (start_origin_x, row_sub_idx, t) \<Rightarrow>
      bindE (makeSiteLoc (fst blockage - halo_x) (s_width (getSite row)) True start_origin_x) (\<lambda>new_row_end_x.
      bindE (buildRow (sub_row_name (r_name row) row_sub_idx) (getSite row) start_origin_x new_row_end_x
               (yMin (row_bbox row)) (row_orient row) (row_dir row) min_width t) (\<lambda>t.
      bindE (makeSiteLoc (snd blockage + halo_x) (s_width (getSite row)) False start_origin_x) (\<lambda>start_origin_x.
      Inr (start_origin_x, row_sub_idx + 1, t)))))"

definition cutRow :: "nat \<Rightarrow> Rect list \<Rightarrow> int \<Rightarrow> int \<Rightarrow> tap_row dbTable \<Rightarrow> tap_row dbTable result" where
  "cutRow row row_blockages min_row_width halo_x t =
     bindE (getPtr t row) (\<lambda>r.
     let row_bb = row_bbox r;
         curr_min_row_width = min_row_width + 2 * s_width (getSite r);
         row_blockage_xs = sort (map (\<lambda>b. (xMin b, xMax b)) row_blockages)
     in bindE (foldE (cut_at r curr_min_row_width halo_x) row_blockage_xs (xMin row_bb, 1, t))
          (\<lambda>(start_origin_x, row_sub_idx, t).
        bindE (buildRow (sub_row_name (r_name r) row_sub_idx) (getSite r) start_origin_x (xMax row_bb)
                 (yMin row_bb) (row_orient r) (row_dir r) curr_min_row_width t) (\<lambda>t.
        dbTable_destroy row t)))"

definition blocked_rows ::
    "Rect list \<Rightarrow> int \<Rightarrow> int \<Rightarrow> tap_row dbTable \<Rightarrow> (nat \<times> Rect list) list result" where
  \<comment> \<open>the first loop of \<open>cutRows\<close>: the map \<open>row_blockages\<close>\<close>
  "blocked_rows blockages halo_x halo_y t =
     foldE (\<lambda>blockage. foldE (\<lambda>row m. bindE (getPtr t row) (\<lambda>r.
         Inr (if overlaps_row blockage r halo_x halo_y then map_mod row [] (\<lambda>bs. bs @ [blockage]) m else m)))
       (getObjects t)) blockages []"

definition cutRows ::
    "(nat list \<Rightarrow> nat list) \<Rightarrow> dbMaster option \<Rightarrow> Rect list \<Rightarrow> int \<Rightarrow> int \<Rightarrow> tap_row dbTable
     \<Rightarrow> tap_row dbTable result" where
  "cutRows ptr_order endcap_master blockages halo_x halo_y t =
     (let min_row_width = (case endcap_master of None \<Rightarrow> 0 | Some m \<Rightarrow> 2 * m_width m) in
      bindE (blocked_rows blockages halo_x halo_y t) (\<lambda>row_blockages.
        foldE (\<lambda>row. cutRow row (the (map_of row_blockages row)) min_row_width halo_x)
          (ptr_order (map fst row_blockages)) t))"

text \<open>
  \<open>organizeRows\<close>: the rows by the lower edge of their boxes, bottom to top, and in each of these by the left
  edge. Of several rows with the same corner only the first is kept. The rows do not change from here
  on, so the result holds the rows instead of the pointers.
\<close>

definition rows_by_y :: "tap_row dbTable \<Rightarrow> (int \<times> tap_row list) list result" where
  \<comment> \<open>\<open>rows_dict\<close>\<close>
  "rows_by_y t =
     foldE (\<lambda>row m. bindE (getPtr t row) (\<lambda>r. Inr (map_mod (yMin (row_bbox r)) [] (\<lambda>rs. rs @ [r]) m))) (getObjects t) []"

definition rows_by_x :: "tap_row list \<Rightarrow> tap_row list" where
  \<comment> \<open>the values of \<open>in_row_dict\<close>\<close>
  "rows_by_x rs = map snd (fold (\<lambda>r. map_insert (xMin (row_bbox r)) r) rs [])"

definition organizeRows :: "tap_row dbTable \<Rightarrow> tap_row list list result" where
  "organizeRows t = bindE (rows_by_y t) (\<lambda>rows_dict. Inr (map (\<lambda>(k, rs). rows_by_x rs) rows_dict))"

end
