(* ===== verification/Tap_Cut_Facts.thy ===== *)
theory Tap_Cut_Facts
  imports Tap_Rows
begin

section \<open>The parts of a cut row\<close>

text \<open>
  The result of \<open>cutRow\<close> without the table: the starts and ends of the parts lie on the grid of sites of the
  row, and the loop that counts each start from the previous one finds the same points as rounding to that
  grid. What is shown of the parts is used for the rows of the table in \<open>Tap_Cut_Props\<close>.
\<close>

subsection \<open>Rows of whole sites\<close>

definition site_row :: "tap_row \<Rightarrow> bool" where
  \<comment> \<open>a horizontal row of adjacent sites\<close>
  "site_row r \<longleftrightarrow> row_dir r = HORIZONTAL \<and> row_orient r \<in> {R0, MX, MY, R180} \<and> row_spacing r = site_w r
     \<and> 0 < row_site_cnt r \<and> 0 < site_w r \<and> site_w r \<le> INT_MAX \<and> 0 < site_h r \<and> site_h r \<le> INT_MAX"

lemma s32_u32: "0 \<le> x \<Longrightarrow> x \<le> INT_MAX \<Longrightarrow> s32 (u32 x) = x"
  by (simp add: u32_def s32_def)

lemma row_bbox_site_row:
  assumes "site_row r"
  shows "row_bbox r = Rect (row_x r) (row_y r) (row_x r + row_site_cnt r * site_w r) (row_y r + site_h r)"
proof -
  have r: "row_dir r = HORIZONTAL" "row_spacing r = site_w r" "0 < row_site_cnt r" "0 < site_w r" "site_w r \<le> INT_MAX"
    "0 < site_h r" "site_h r \<le> INT_MAX" "row_orient r \<in> {R0, MX, MY, R180}"
    using assms by (auto simp: site_row_def)
  let ?box = "transform_apply_rect (transform_of_orient (row_orient r)) (rect_init 0 0 (site_w r) (site_h r))"
  have box: "rect_dx ?box = u32 (site_w r)" "rect_dy ?box = u32 (site_h r)"
    using r by (auto simp: transform_apply_rect_def transform_apply_def transform_of_orient_def rect_init_def rect_ll_def
        rect_ur_def rect_dx_def rect_dy_def Let_def)
  have c: "0 < row_site_cnt r * site_w r" using r by simp
  have "row_bbox r = rect_init (row_x r) (row_y r) (row_x r + row_site_cnt r * site_w r) (row_y r + site_h r)"
    unfolding row_bbox_def row_getBBox_def using r(1-7) by (simp add: dbRow.defs box s32_u32 Let_def algebra_simps)
  then show ?thesis using c r(6) by (simp add: rect_init_def)
qed

subsection \<open>Rounding to the sites of a row\<close>

definition site_below :: "int \<Rightarrow> int \<Rightarrow> int \<Rightarrow> int" where
  "site_below w org v = (v - org) div w * w + org"

definition site_above :: "int \<Rightarrow> int \<Rightarrow> int \<Rightarrow> int" where
  "site_above w org v = - ((org - v) div w) * w + org"

lemma makeSiteLoc_eq:
  "w \<noteq> 0 \<Longrightarrow> makeSiteLoc x w left off = Inr (if left then site_below w off x else site_above w off x)"
  by (simp add: makeSiteLoc_def site_below_def site_above_def)

lemma site_below_props:
  assumes "0 < w"
  shows "site_below w org v \<le> v" "v < site_below w org v + w" "w dvd site_below w org v - org"
    "w dvd a - org \<Longrightarrow> a \<le> v \<Longrightarrow> a \<le> site_below w org v"
proof -
  have *: "site_below w org v = v - (v - org) mod w"
    using div_mult_mod_eq [of "v - org" w] by (simp add: site_below_def algebra_simps)
  show 1: "site_below w org v \<le> v" "v < site_below w org v + w" unfolding * using assms by simp_all
  show 2: "w dvd site_below w org v - org" by (simp add: site_below_def)
  show "a \<le> site_below w org v" if "w dvd a - org" "a \<le> v"
  proof (rule ccontr)
    assume n: "\<not> a \<le> site_below w org v"
    have "w dvd a - site_below w org v" using dvd_diff [OF that(1) 2] by simp
    then have "w \<le> a - site_below w org v" using n zdvd_imp_le [of w "a - site_below w org v"] by simp
    then show False using that(2) 1(2) by simp
  qed
qed

lemma site_above_below: "site_above w org v = - site_below w (- org) (- v)"
  by (simp add: site_above_def site_below_def)

lemma site_above_props:
  assumes "0 < w"
  shows "v \<le> site_above w org v" "site_above w org v < v + w" "w dvd site_above w org v - org"
    "w dvd a - org \<Longrightarrow> v \<le> a \<Longrightarrow> site_above w org v \<le> a"
proof -
  note b = site_below_props [OF assms, where org = "- org" and v = "- v"]
  show "v \<le> site_above w org v" "site_above w org v < v + w" using b(1,2) unfolding site_above_below by linarith+
  show "w dvd site_above w org v - org" using b(3) by (simp add: site_above_below dvd_diff_commute add.commute)
  show "site_above w org v \<le> a" if "w dvd a - org" "v \<le> a"
    using site_below_props(4) [OF assms, where a = "- a" and org = "- org" and v = "- v"] that by (simp add: site_above_below dvd_diff_commute)
qed

text \<open>The grid is the same from any of its points.\<close>

lemma site_shift:
  assumes "w \<noteq> 0" "w dvd s - org"
  shows "site_below w s v = site_below w org v" "site_above w s v = site_above w org v"
proof -
  from assms(2) obtain k where k: "s = org + w * k" by (metis add.commute diff_add_cancel dvdE)
  have a: "(v - s) div w = (v - org) div w - k" "(s - v) div w = (org - v) div w + k"
    using div_mult_self1 [OF assms(1), of "v - org" "- k"] div_mult_self1 [OF assms(1), of "org - v" k]
    by (simp_all add: k algebra_simps)
  show "site_below w s v = site_below w org v" "site_above w s v = site_above w org v"
    unfolding site_below_def site_above_def a unfolding k by (simp_all add: algebra_simps)
qed

subsection \<open>The parts\<close>

type_synonym part = "nat \<times> int \<times> int"

fun parts :: "int \<Rightarrow> int \<Rightarrow> int \<Rightarrow> int \<Rightarrow> nat \<Rightarrow> (int \<times> int) list \<Rightarrow> int \<Rightarrow> part list" where
  \<comment> \<open>number, start and end of the parts from start \<open>s\<close> on\<close>
  "parts w org halo s k [] stop = [(k, s, stop)]"
| "parts w org halo s k ((x0, x1) # xs) stop =
     (k, s, site_below w org (x0 - halo)) # parts w org halo (site_above w org (x1 + halo)) (k + 1) xs stop"

definition part_row :: "tap_row \<Rightarrow> part \<Rightarrow> tap_row" where
  "part_row r p = (case p of (k, s, e) \<Rightarrow>
     r\<lparr>row_x := s, row_site_cnt := (e - s) sdiv site_w r, row_spacing := site_w r, r_name := sub_row_name (r_name r) k\<rparr>)"

definition part_kept :: "int \<Rightarrow> int \<Rightarrow> part \<Rightarrow> bool" where
  "part_kept w min_width p = (case p of (k, s, e) \<Rightarrow> (e - s) sdiv w > 0 \<and> (e - s) sdiv w * w \<ge> min_width)"

definition sorted_edges :: "Rect list \<Rightarrow> (int \<times> int) list" where
  "sorted_edges bs = sort (map (\<lambda>b. (xMin b, xMax b)) bs)"

definition cut_parts :: "tap_row \<Rightarrow> int \<Rightarrow> Rect list \<Rightarrow> part list" where
  "cut_parts r halo bs =
     parts (site_w r) (row_x r) halo (row_x r) 1 (sorted_edges bs) (row_x r + row_site_cnt r * site_w r)"

definition cut_rows_of :: "tap_row \<Rightarrow> int \<Rightarrow> int \<Rightarrow> Rect list \<Rightarrow> tap_row list" where
  "cut_rows_of r min_width halo bs = map (part_row r) (filter (part_kept (site_w r) min_width) (cut_parts r halo bs))"

lemma length_parts [simp]: "length (parts w org halo s k xs stop) = Suc (length xs)"
  by (induction w org halo s k xs stop rule: parts.induct) auto

lemma nth_parts:
  "i \<le> length xs \<Longrightarrow> parts w org halo s k xs stop ! i
     = (k + i, if i = 0 then s else site_above w org (snd (xs ! (i - 1)) + halo),
        if i = length xs then stop else site_below w org (fst (xs ! i) - halo))"
proof (induction w org halo s k xs stop arbitrary: i rule: parts.induct)
  case (2 w org halo s k x0 x1 xs stop)
  show ?case
  proof (cases i)
    case (Suc j)
    then show ?thesis using "2.IH" [of j] "2.prems" by (cases j) simp_all
  qed simp
qed simp

lemma parts_cases:
  assumes "p \<in> set (parts w org halo s k xs stop)"
  obtains i where "i \<le> length xs"
    "p = (k + i, if i = 0 then s else site_above w org (snd (xs ! (i - 1)) + halo),
          if i = length xs then stop else site_below w org (fst (xs ! i) - halo))"
  using assms nth_parts [of _ xs w org halo s k stop] unfolding in_set_conv_nth by (metis length_parts less_Suc_eq_le)

subsection \<open>Where the parts lie\<close>

definition meets :: "tap_row \<Rightarrow> int \<Rightarrow> Rect \<Rightarrow> bool" where
  \<comment> \<open>the part of \<open>overlaps_row\<close> about the x coordinates, of a row of whole sites\<close>
  "meets r halo b \<longleftrightarrow> xMin b - halo < row_x r + row_site_cnt r * site_w r \<and> row_x r < xMax b + halo"

definition edges_agree :: "Rect list \<Rightarrow> bool" where
  \<comment> \<open>no blockage starts later and ends earlier than another\<close>
  "edges_agree bs \<longleftrightarrow> (\<forall>b \<in> set bs. \<forall>c \<in> set bs. xMin b < xMin c \<longrightarrow> xMax b \<le> xMax c)"

lemma set_sorted_edges [simp]: "set (sorted_edges bs) = (\<lambda>b. (xMin b, xMax b)) ` set bs"
  by (simp add: sorted_edges_def)

lemma length_sorted_edges [simp]: "length (sorted_edges bs) = length bs"
  by (simp add: sorted_edges_def)

lemma nth_sorted_edges:
  assumes "i < length bs"
  obtains b where "b \<in> set bs" "sorted_edges bs ! i = (xMin b, xMax b)"
  using nth_mem [of i "sorted_edges bs"] assms by auto

lemma sorted_edges_le: "i \<le> j \<Longrightarrow> j < length bs \<Longrightarrow> sorted_edges bs ! i \<le> sorted_edges bs ! j"
  by (simp add: sorted_edges_def sorted_nth_mono)

lemma sorted_edges_fst: "i \<le> j \<Longrightarrow> j < length bs \<Longrightarrow> fst (sorted_edges bs ! i) \<le> fst (sorted_edges bs ! j)"
  using sorted_edges_le [of i j bs] by (auto simp: less_eq_prod_def)

lemma sorted_edges_snd:
  assumes "edges_agree bs" "i \<le> j" "j < length bs"
  shows "snd (sorted_edges bs ! i) \<le> snd (sorted_edges bs ! j)"
proof -
  obtain b where b: "b \<in> set bs" "sorted_edges bs ! i = (xMin b, xMax b)" using nth_sorted_edges [of i bs] assms(2,3) by auto
  obtain c where c: "c \<in> set bs" "sorted_edges bs ! j = (xMin c, xMax c)" using nth_sorted_edges [of j bs] assms(3) by auto
  show ?thesis using sorted_edges_le [OF assms(2,3)] assms(1) b c by (auto simp: edges_agree_def)
qed

lemma cut_parts_cases:
  assumes "p \<in> set (cut_parts r halo bs)"
  obtains i where "i \<le> length bs"
    "p = (1 + i, if i = 0 then row_x r else site_above (site_w r) (row_x r) (snd (sorted_edges bs ! (i - 1)) + halo),
          if i = length bs then row_x r + row_site_cnt r * site_w r
          else site_below (site_w r) (row_x r) (fst (sorted_edges bs ! i) - halo))"
  using assms unfolding cut_parts_def by (auto elim: parts_cases)

lemma cut_parts_on_sites:
  assumes "site_row r" "\<forall>b \<in> set bs. meets r halo b" "(k, s, e) \<in> set (cut_parts r halo bs)"
  shows "site_w r dvd s - row_x r" "site_w r dvd e - s" "row_x r \<le> s" "e \<le> row_x r + row_site_cnt r * site_w r"
proof -
  let ?stop = "row_x r + row_site_cnt r * site_w r"
  have w: "0 < site_w r" and n: "0 < row_site_cnt r" using assms(1) by (auto simp: site_row_def)
  obtain i where i: "i \<le> length bs"
    "s = (if i = 0 then row_x r else site_above (site_w r) (row_x r) (snd (sorted_edges bs ! (i - 1)) + halo))"
    "e = (if i = length bs then ?stop else site_below (site_w r) (row_x r) (fst (sorted_edges bs ! i) - halo))"
    using assms(3) by (elim cut_parts_cases) auto
  show s: "site_w r dvd s - row_x r" using i(2) site_above_props(3) [OF w] by simp
  have e: "site_w r dvd e - row_x r" using i(3) site_below_props(3) [OF w] by simp
  show "site_w r dvd e - s" using dvd_diff [OF e s] by simp
  show "row_x r \<le> s"
  proof (cases i)
    case (Suc j)
    obtain b where b: "b \<in> set bs" "sorted_edges bs ! j = (xMin b, xMax b)" using nth_sorted_edges [of j bs] i(1) Suc by auto
    have "row_x r < xMax b + halo" using b(1) assms(2) by (auto simp: meets_def)
    then show ?thesis using site_above_props(1) [OF w, of "xMax b + halo" "row_x r"] i(2) Suc b(2) by simp
  qed (use i(2) in simp)
  show "e \<le> ?stop"
  proof (cases "i = length bs")
    case False
    obtain b where b: "b \<in> set bs" "sorted_edges bs ! i = (xMin b, xMax b)" using nth_sorted_edges [of i bs] i(1) False by auto
    have "xMin b - halo < ?stop" using b(1) assms(2) by (auto simp: meets_def)
    then show ?thesis using site_below_props(1) [OF w, of "row_x r" "xMin b - halo"] i(3) False b(2) by simp
  qed (use i(3) in simp)
qed

text \<open>Behind a blockage that ends last so far, the next part starts behind all of them.\<close>

lemma cut_parts_clear:
  assumes "site_row r" "edges_agree bs" "(k, s, e) \<in> set (cut_parts r halo bs)" "b \<in> set bs"
  shows "e \<le> xMin b - halo \<or> xMax b + halo \<le> s"
proof -
  have w: "0 < site_w r" using assms(1) by (auto simp: site_row_def)
  obtain i where i: "i \<le> length bs"
    "s = (if i = 0 then row_x r else site_above (site_w r) (row_x r) (snd (sorted_edges bs ! (i - 1)) + halo))"
    "e = (if i = length bs then row_x r + row_site_cnt r * site_w r
          else site_below (site_w r) (row_x r) (fst (sorted_edges bs ! i) - halo))"
    using assms(3) by (elim cut_parts_cases) auto
  obtain j where j: "j < length bs" "sorted_edges bs ! j = (xMin b, xMax b)"
    using assms(4) by (metis (no_types, lifting) imageI in_set_conv_nth length_sorted_edges set_sorted_edges)
  show ?thesis
  proof (cases "j < i")
    case True
    then have "snd (sorted_edges bs ! j) \<le> snd (sorted_edges bs ! (i - 1))" using i(1) by (intro sorted_edges_snd [OF assms(2)]) auto
    then show ?thesis using site_above_props(1) [OF w, of "snd (sorted_edges bs ! (i - 1)) + halo" "row_x r"] i(2) j(2) True by simp
  next
    case False
    then have "fst (sorted_edges bs ! i) \<le> fst (sorted_edges bs ! j)" using j(1) by (intro sorted_edges_fst) auto
    then show ?thesis using site_below_props(1) [OF w, of "row_x r" "fst (sorted_edges bs ! i) - halo"] i(3) j False by simp
  qed
qed

lemma cut_parts_apart:
  assumes "site_row r" "edges_agree bs" "\<forall>b \<in> set bs. xMin b \<le> xMax b" "0 \<le> halo"
    and "(k, s, e) \<in> set (cut_parts r halo bs)" "(k', s', e') \<in> set (cut_parts r halo bs)" "k < k'"
  shows "e \<le> s'"
proof -
  have w: "0 < site_w r" using assms(1) by (auto simp: site_row_def)
  obtain i where i: "k = 1 + i" "i \<le> length bs"
    "e = (if i = length bs then row_x r + row_site_cnt r * site_w r
          else site_below (site_w r) (row_x r) (fst (sorted_edges bs ! i) - halo))"
    using assms(5) by (elim cut_parts_cases) auto
  obtain j where j: "k' = 1 + j" "j \<le> length bs"
    "s' = (if j = 0 then row_x r else site_above (site_w r) (row_x r) (snd (sorted_edges bs ! (j - 1)) + halo))"
    using assms(6) by (elim cut_parts_cases) auto
  have l: "i < j" "i < length bs" using assms(7) i(1) j(1,2) by auto
  obtain b where b: "b \<in> set bs" "sorted_edges bs ! i = (xMin b, xMax b)" using nth_sorted_edges [OF l(2)] by auto
  have "e \<le> xMin b - halo" using site_below_props(1) [OF w, of "row_x r" "xMin b - halo"] i(3) l(2) b(2) by simp
  also have "\<dots> \<le> snd (sorted_edges bs ! i) + halo" using assms(3,4) b by force
  also have "\<dots> \<le> snd (sorted_edges bs ! (j - 1)) + halo" using sorted_edges_snd [OF assms(2), of i "j - 1"] l(1) j(2) by simp
  also have "\<dots> \<le> s'" using site_above_props(1) [OF w, of "snd (sorted_edges bs ! (j - 1)) + halo" "row_x r"] j(3) l(1) by simp
  finally show ?thesis .
qed

text \<open>Sites that no blockage meets lie together in one part.\<close>

lemma cut_parts_cover:
  assumes "site_row r" "\<forall>b \<in> set bs. xMin b \<le> xMax b" "0 \<le> halo"
    and "site_w r dvd a - row_x r" "site_w r dvd c - row_x r" "row_x r \<le> a" "a < c" "c \<le> row_x r + row_site_cnt r * site_w r"
    and "\<forall>b \<in> set bs. c \<le> xMin b - halo \<or> xMax b + halo \<le> a"
  shows "\<exists>k s e. (k, s, e) \<in> set (cut_parts r halo bs) \<and> s \<le> a \<and> c \<le> e"
proof -
  let ?xs = "sorted_edges bs"
  have w: "0 < site_w r" using assms(1) by (auto simp: site_row_def)
  define P where "P = {i. i < length bs \<and> snd (?xs ! i) + halo \<le> a}"
  define i where "i = (if P = {} then 0 else Suc (Max P))"
  have fin: "finite P" unfolding P_def by simp
  have sub: "P \<subseteq> {..<length bs}" by (auto simp: P_def)
  have il: "i \<le> length bs" using subsetD [OF sub Max_in [OF fin]] by (simp add: i_def Suc_le_eq)
  have edge: "c \<le> fst (?xs ! j) - halo \<or> snd (?xs ! j) + halo \<le> a" if "j < length bs" for j
  proof -
    note j = that
    obtain b where b: "b \<in> set bs" "?xs ! j = (xMin b, xMax b)" by (rule nth_sorted_edges [OF j])
    show ?thesis using bspec [OF assms(9) b(1)] by (simp add: b(2))
  qed
  define s where "s = (if i = 0 then row_x r else site_above (site_w r) (row_x r) (snd (?xs ! (i - 1)) + halo))"
  define e where "e = (if i = length bs then row_x r + row_site_cnt r * site_w r
          else site_below (site_w r) (row_x r) (fst (?xs ! i) - halo))"
  have m: "(1 + i, s, e) \<in> set (cut_parts r halo bs)"
    using nth_mem [of i "cut_parts r halo bs"] il
    by (simp add: cut_parts_def nth_parts s_def e_def)
  have "s \<le> a"
  proof (cases "P = {}")
    case False
    have "\<forall>j \<in> P. snd (?xs ! j) + halo \<le> a" by (simp add: P_def)
    then have "snd (?xs ! Max P) + halo \<le> a" using Max_in [OF fin False] by blast
    then show ?thesis using site_above_props(4) [OF w assms(4)] False by (simp add: s_def i_def)
  qed (use assms(6) in \<open>simp add: s_def i_def\<close>)
  moreover have "c \<le> e"
  proof (cases "i = length bs")
    case False
    then have "i < length bs" using il by simp
    have "i \<notin> P"
    proof
      assume h: "i \<in> P"
      then have "i \<le> Max P" using fin by simp
      then show False using h by (auto simp: i_def split: if_splits)
    qed
    then have "c \<le> fst (?xs ! i) - halo" using edge \<open>i < length bs\<close> by (auto simp: P_def)
    then show ?thesis using site_below_props(4) [OF w assms(5)] False by (simp add: e_def)
  qed (use assms(8) in \<open>simp add: e_def\<close>)
  ultimately show ?thesis using m by blast
qed

section \<open>Cutting rows in the table\<close>

text \<open>
  \<open>cutRow\<close> and \<open>cutRows\<close> as changes of the row table. \<open>exchanged t R N t'\<close> says that the objects with the
  ids \<open>R\<close> are gone and that exactly the rows \<open>N\<close> came in addition, under ids that were not in use or became
  free; all other objects are as before.
\<close>

definition exchanged :: "tap_row dbTable \<Rightarrow> nat set \<Rightarrow> tap_row set \<Rightarrow> tap_row dbTable \<Rightarrow> bool" where
  "exchanged t R N t' \<longleftrightarrow> table_ok t' \<and> (\<forall>oid \<in> ids t - R. objs t' oid = objs t oid)
     \<and> {r. \<exists>oid. oid \<notin> ids t - R \<and> objs t' oid = Some r} = N"

lemma exchangedD:
  assumes "exchanged t R N t'"
  shows "table_ok t'" "oid \<in> ids t \<Longrightarrow> oid \<notin> R \<Longrightarrow> objs t' oid = objs t oid"
    "objs t' oid = Some r \<Longrightarrow> (oid \<in> ids t \<and> oid \<notin> R \<and> objs t oid = Some r) \<or> r \<in> N"
    "r \<in> N \<Longrightarrow> \<exists>oid. objs t' oid = Some r \<and> oid \<notin> ids t - R"
  using assms unfolding exchanged_def by (auto dest: bspec)

lemma mem_ids: "oid \<in> ids t \<longleftrightarrow> (\<exists>r. objs t oid = Some r)"
  unfolding dom_objs [symmetric] by (simp add: dom_def del: dom_objs)

lemma exchanged_ids: "exchanged t R N t' \<Longrightarrow> ids t - R \<subseteq> ids t'"
  using exchangedD(2) [of t R N t'] by (fastforce simp: mem_ids)

lemma exchanged_refl: "table_ok t \<Longrightarrow> exchanged t {} {} t"
  by (auto simp: exchanged_def mem_ids)

lemma exchanged_trans:
  assumes "exchanged t R N t'" "exchanged t' S M t''" "S \<subseteq> ids t - R"
  shows "exchanged t (R \<union> S) (N \<union> M) t''"
  unfolding exchanged_def
proof (intro conjI)
  show "table_ok t''" using assms(2) by (rule exchangedD)
  note sub = exchanged_ids [OF assms(1)]
  show "\<forall>oid \<in> ids t - (R \<union> S). objs t'' oid = objs t oid"
    using exchangedD(2) [OF assms(1)] exchangedD(2) [OF assms(2)] sub by (metis DiffD1 DiffD2 DiffI Un_iff subsetD)
  show "{r. \<exists>oid. oid \<notin> ids t - (R \<union> S) \<and> objs t'' oid = Some r} = N \<union> M"
  proof (intro set_eqI iffI)
    fix r assume "r \<in> {r. \<exists>oid. oid \<notin> ids t - (R \<union> S) \<and> objs t'' oid = Some r}"
    then obtain oid where o1: "oid \<notin> ids t - (R \<union> S)" "objs t'' oid = Some r" by blast
    from exchangedD(3) [OF assms(2) o1(2)] exchangedD(3) [OF assms(1), of oid r] o1(1)
    show "r \<in> N \<union> M" by blast
  next
    fix r assume "r \<in> N \<union> M"
    then show "r \<in> {r. \<exists>oid. oid \<notin> ids t - (R \<union> S) \<and> objs t'' oid = Some r}"
    proof
      assume "r \<in> N"
      then obtain oid where o1: "objs t' oid = Some r" "oid \<notin> ids t - R" using exchangedD(4) [OF assms(1)] by blast
      then have "oid \<in> ids t'" "oid \<notin> S" using assms(3) by (auto simp: mem_ids)
      then show ?thesis using exchangedD(2) [OF assms(2)] o1 by auto
    next
      assume "r \<in> M"
      then obtain oid where "objs t'' oid = Some r" "oid \<notin> ids t' - S" using exchangedD(4) [OF assms(2)] by blast
      then show ?thesis using sub by blast
    qed
  qed
qed

lemma row_create_exchanged:
  assumes "table_ok t"
  shows "\<exists>t'. row_create name site x y ori dir n sp t = Inr t' \<and> exchanged t {}
     {\<lparr>row_x = x, row_y = y, row_orient = ori, row_dir = dir, row_site_cnt = n, row_spacing = sp, site_w = s_width site,
       site_h = s_height site, r_name = name\<rparr>} t'"
proof -
  let ?r = "\<lparr>row_x = x, row_y = y, row_orient = ori, row_dir = dir, row_site_cnt = n, row_spacing = sp, site_w = s_width site,
       site_h = s_height site, r_name = name\<rparr>"
  obtain e t' where c: "dbTable_create ?r t = Inr (e, t')" "table_ok t'" "objs t' = (objs t)(e \<mapsto> ?r)" "e \<notin> ids t"
    using create_result [OF assms] by blast
  then have "exchanged t {} {?r} t'" by (auto simp: exchanged_def mem_ids split: if_splits)
  then show ?thesis using c(1) by (simp add: row_create_def)
qed

lemma destroy_exchanged:
  assumes "table_ok t" "oid \<in> ids t"
  shows "\<exists>t'. dbTable_destroy oid t = Inr t' \<and> exchanged t {oid} {} t'"
  using destroy_result [OF assms] by (auto simp: exchanged_def mem_ids split: if_splits)

subsection \<open>One row\<close>

lemma buildRow_part:
  assumes "table_ok t" "site_row r" "row_y r = y"
  shows "\<exists>t'. buildRow (sub_row_name (r_name r) k) (getSite r) s e y (row_orient r) (row_dir r) min_width t = Inr t'
     \<and> exchanged t {} (set (map (part_row r) (filter (part_kept (site_w r) min_width) [(k, s, e)]))) t'"
proof (cases "part_kept (site_w r) min_width (k, s, e)")
  case True
  have "part_row r (k, s, e) = \<lparr>row_x = s, row_y = y, row_orient = row_orient r, row_dir = row_dir r,
      row_site_cnt = (e - s) sdiv site_w r, row_spacing = site_w r, site_w = s_width (getSite r), site_h = s_height (getSite r),
      r_name = sub_row_name (r_name r) k\<rparr>"
    by (simp add: part_row_def getSite_def assms(3) flip: assms(3))
  with row_create_exchanged [OF assms(1), of "sub_row_name (r_name r) k" "getSite r" s y "row_orient r" "row_dir r"
      "(e - s) sdiv site_w r" "site_w r"]
  obtain t' where "row_create (sub_row_name (r_name r) k) (getSite r) s y (row_orient r) (row_dir r)
      ((e - s) sdiv site_w r) (site_w r) t = Inr t'" "exchanged t {} {part_row r (k, s, e)} t'" by auto
  then show ?thesis
    using True assms(2) by (auto simp: buildRow_def part_kept_def site_row_def Let_def getSite_def)
next
  case False
  then show ?thesis
    using exchanged_refl [OF assms(1)] assms(2) by (auto simp: buildRow_def part_kept_def getSite_def site_row_def Let_def)
qed

lemma cut_at_parts:
  assumes "table_ok t" "site_row r" "site_w r dvd s - row_x r"
  shows "\<exists>s' k' t'. foldE (cut_at r min_width halo) xs (s, k, t) = Inr (s', k', t')
     \<and> (\<exists>t''. buildRow (sub_row_name (r_name r) k') (getSite r) s' stop (row_y r) (row_orient r) (row_dir r) min_width t' = Inr t''
     \<and> exchanged t {} (set (map (part_row r) (filter (part_kept (site_w r) min_width)
          (parts (site_w r) (row_x r) halo s k xs stop)))) t'')"
  using assms(1,3)
proof (induction xs arbitrary: s k t)
  case Nil
  show ?case using buildRow_part [OF Nil.prems(1) assms(2) refl, of k s stop min_width] by auto
next
  case (Cons x xs)
  obtain x0 x1 where x: "x = (x0, x1)" by fastforce
  have w: "0 < site_w r" using assms(2) by (simp add: site_row_def)
  let ?e = "site_below (site_w r) (row_x r) (x0 - halo)" and ?s = "site_above (site_w r) (row_x r) (x1 + halo)"
  obtain t1 where t1: "buildRow (sub_row_name (r_name r) k) (getSite r) s ?e (row_y r) (row_orient r) (row_dir r) min_width t = Inr t1"
    "exchanged t {} (set (map (part_row r) (filter (part_kept (site_w r) min_width) [(k, s, ?e)]))) t1"
    using buildRow_part [OF Cons.prems(1) assms(2) refl] by blast
  have step: "cut_at r min_width halo x (s, k, t) = Inr (?s, k + 1, t1)"
    using t1(1) w row_bbox_site_row [OF assms(2)]
    by (simp add: cut_at_def x makeSiteLoc_eq getSite_def site_shift [OF _ Cons.prems(2)])
  obtain s' k' t' t'' where r: "foldE (cut_at r min_width halo) xs (?s, k + 1, t1) = Inr (s', k', t')"
    "buildRow (sub_row_name (r_name r) k') (getSite r) s' stop (row_y r) (row_orient r) (row_dir r) min_width t' = Inr t''"
    "exchanged t1 {} (set (map (part_row r) (filter (part_kept (site_w r) min_width)
          (parts (site_w r) (row_x r) halo ?s (k + 1) xs stop)))) t''"
    using Cons.IH [OF exchangedD(1) [OF t1(2)] site_above_props(3) [OF w]] by blast
  have "exchanged t {} (set (map (part_row r) (filter (part_kept (site_w r) min_width)
          (parts (site_w r) (row_x r) halo s k (x # xs) stop)))) t''"
    using exchanged_trans [OF t1(2) r(3)] by (simp add: x image_Un Un_assoc split: if_splits)
  then show ?case using step r(1,2) by (simp del: parts.simps)
qed

lemma cutRow_exchanged:
  assumes "table_ok t" "objs t oid = Some r" "site_row r"
  shows "\<exists>t'. cutRow oid bs min_width halo t = Inr t'
     \<and> exchanged t {oid} (set (cut_rows_of r (min_width + 2 * site_w r) halo bs)) t'"
proof -
  let ?m = "min_width + 2 * site_w r"
  have ok: "pages_ok t" using assms(1) by (rule table_okD)
  have g: "getPtr t oid = Inr r" using getPtr_objs [OF ok, of oid] assms(2) by simp
  obtain s' k' t1 t2 where f: "foldE (cut_at r ?m halo) (sorted_edges bs) (row_x r, 1, t) = Inr (s', k', t1)"
    "buildRow (sub_row_name (r_name r) k') (getSite r) s' (row_x r + row_site_cnt r * site_w r) (row_y r) (row_orient r) (row_dir r) ?m t1 = Inr t2"
    "exchanged t {} (set (cut_rows_of r ?m halo bs)) t2"
    using cut_at_parts [OF assms(1,3), of "row_x r" ?m halo "sorted_edges bs" 1 "row_x r + row_site_cnt r * site_w r"]
    unfolding cut_rows_of_def cut_parts_def by auto
  have o2: "oid \<in> ids t" "oid \<in> ids t2"
    using assms(2) exchanged_ids [OF f(3)] mem_ids [of oid t] by auto
  obtain t3 where d: "dbTable_destroy oid t2 = Inr t3" "exchanged t2 {oid} {} t3"
    using destroy_exchanged [OF exchangedD(1) [OF f(3)] o2(2)] by blast
  have "exchanged t ({} \<union> {oid}) (set (cut_rows_of r ?m halo bs) \<union> {}) t3"
    by (rule exchanged_trans [OF f(3) d(2)]) (use o2(1) in simp)
  moreover have "cutRow oid bs min_width halo t = Inr t3"
    using f(1,2) d(1) row_bbox_site_row [OF assms(3)] by (simp add: cutRow_def g getSite_def sorted_edges_def Let_def)
  ultimately show ?thesis by simp
qed

end
