(* ===== verification/Tap_Cut_Props.thy ===== *)
theory Tap_Cut_Props
  imports Tap_Cut_Facts
begin

section \<open>Properties of cutting rows\<close>

text \<open>
  \<open>cutRows\<close> replaces the rows that a blockage with its halo overlaps by their parts. The parts lie on the
  sites of the old row. If no blockage of a row starts later and ends earlier than another one, the parts are
  clear of all blockages; otherwise the start of the next row moves back to the left (\<open>cutRows_nested\<close>).
\<close>

subsection \<open>The map from rows to blockages\<close>

abbreviation row_at :: "tap_row dbTable \<Rightarrow> nat \<Rightarrow> tap_row" where
  "row_at t oid \<equiv> the (objs t oid)"

lemma getPtr_row: "table_ok t \<Longrightarrow> oid \<in> ids t \<Longrightarrow> getPtr t oid = Inr (row_at t oid)"
  using getPtr_objs [OF table_okD(1), of t oid] by (auto simp: mem_ids)

lemma block_rows_step:
  assumes "table_ok t" "set L \<subseteq> ids t" "distinct L" "keys_sorted m"
  shows "\<exists>m'. foldE (\<lambda>row m. bindE (getPtr t row) (\<lambda>r. Inr (if overlaps_row b r hx hy then map_mod row [] (\<lambda>bs. bs @ [b]) m else m))) L m
       = Inr m' \<and> keys_sorted m'
     \<and> (\<forall>oid. map_of m' oid = (if oid \<in> set L \<and> overlaps_row b (row_at t oid) hx hy
          then Some ((case map_of m oid of None \<Rightarrow> [] | Some bs \<Rightarrow> bs) @ [b]) else map_of m oid))"
  using assms(2-)
proof (induction L arbitrary: m)
  case (Cons x L)
  let ?m = "if overlaps_row b (row_at t x) hx hy then map_mod x [] (\<lambda>bs. bs @ [b]) m else m"
  have g: "getPtr t x = Inr (row_at t x)" using getPtr_row [OF assms(1)] Cons.prems(1) by simp
  have s: "keys_sorted ?m" using Cons.prems(3) by (simp add: keys_sorted_mod)
  obtain m' where m': "foldE (\<lambda>row m. bindE (getPtr t row) (\<lambda>r. Inr (if overlaps_row b r hx hy then map_mod row [] (\<lambda>bs. bs @ [b]) m else m))) L ?m
       = Inr m'" "keys_sorted m'"
    "\<forall>oid. map_of m' oid = (if oid \<in> set L \<and> overlaps_row b (row_at t oid) hx hy
          then Some ((case map_of ?m oid of None \<Rightarrow> [] | Some bs \<Rightarrow> bs) @ [b]) else map_of ?m oid)"
    using Cons.IH [OF _ _ s] Cons.prems(1,2) by auto
  have "map_of m' oid = (if oid \<in> set (x # L) \<and> overlaps_row b (row_at t oid) hx hy
          then Some ((case map_of m oid of None \<Rightarrow> [] | Some bs \<Rightarrow> bs) @ [b]) else map_of m oid)" for oid
    using m'(3) Cons.prems(2) by (cases "oid = x") (auto simp: map_of_mod [OF Cons.prems(3)])
  then show ?case using m'(1,2) g by auto
qed simp

definition blockers :: "Rect list \<Rightarrow> int \<Rightarrow> int \<Rightarrow> tap_row \<Rightarrow> Rect list" where
  "blockers bs hx hy r = filter (\<lambda>b. overlaps_row b r hx hy) bs"

lemma block_rows_loop:
  assumes "table_ok t" "keys_sorted m"
  shows "\<exists>m'. foldE (\<lambda>b. foldE (\<lambda>row m. bindE (getPtr t row) (\<lambda>r.
         Inr (if overlaps_row b r hx hy then map_mod row [] (\<lambda>bs. bs @ [b]) m else m))) (getObjects t)) bs m = Inr m' \<and> keys_sorted m'
     \<and> (\<forall>oid. map_of m' oid = (if oid \<in> ids t \<and> blockers bs hx hy (row_at t oid) \<noteq> []
          then Some ((case map_of m oid of None \<Rightarrow> [] | Some l \<Rightarrow> l) @ blockers bs hx hy (row_at t oid)) else map_of m oid))"
  using assms(2)
proof (induction bs arbitrary: m)
  case (Cons b bs)
  have L: "set (getObjects t) = ids t" "distinct (getObjects t)" by (simp_all add: getObjects_result [OF assms(1)])
  obtain m1 where m1: "foldE (\<lambda>row m. bindE (getPtr t row) (\<lambda>r.
         Inr (if overlaps_row b r hx hy then map_mod row [] (\<lambda>bs. bs @ [b]) m else m))) (getObjects t) m = Inr m1" "keys_sorted m1"
    "\<forall>oid. map_of m1 oid = (if oid \<in> ids t \<and> overlaps_row b (row_at t oid) hx hy
          then Some ((case map_of m oid of None \<Rightarrow> [] | Some bs \<Rightarrow> bs) @ [b]) else map_of m oid)"
    using block_rows_step [OF assms(1) eq_refl [OF L(1)] L(2) Cons.prems, of b hx hy] unfolding L(1) by blast
  obtain m' where m': "foldE (\<lambda>b. foldE (\<lambda>row m. bindE (getPtr t row) (\<lambda>r.
         Inr (if overlaps_row b r hx hy then map_mod row [] (\<lambda>bs. bs @ [b]) m else m))) (getObjects t)) bs m1 = Inr m'" "keys_sorted m'"
    "\<forall>oid. map_of m' oid = (if oid \<in> ids t \<and> blockers bs hx hy (row_at t oid) \<noteq> []
          then Some ((case map_of m1 oid of None \<Rightarrow> [] | Some l \<Rightarrow> l) @ blockers bs hx hy (row_at t oid)) else map_of m1 oid)"
    using Cons.IH [OF m1(2)] by blast
  have "map_of m' oid = (if oid \<in> ids t \<and> blockers (b # bs) hx hy (row_at t oid) \<noteq> []
          then Some ((case map_of m oid of None \<Rightarrow> [] | Some l \<Rightarrow> l) @ blockers (b # bs) hx hy (row_at t oid)) else map_of m oid)" for oid
    using m1(3) m'(3) by (auto simp: blockers_def)
  then show ?case using m'(1,2) m1(1) by auto
qed (simp add: blockers_def)

lemma blocked_rows_result:
  assumes "table_ok t"
  shows "\<exists>m. blocked_rows bs hx hy t = Inr m \<and> keys_sorted m
     \<and> fst ` set m = {oid \<in> ids t. blockers bs hx hy (row_at t oid) \<noteq> []}
     \<and> (\<forall>oid \<in> fst ` set m. the (map_of m oid) = blockers bs hx hy (row_at t oid))"
proof -
  obtain m where m: "blocked_rows bs hx hy t = Inr m" "keys_sorted m"
    "\<forall>oid. map_of m oid = (if oid \<in> ids t \<and> blockers bs hx hy (row_at t oid) \<noteq> []
          then Some (blockers bs hx hy (row_at t oid)) else None)"
    using block_rows_loop [OF assms, of "[]" hx hy bs] by (auto simp: blocked_rows_def)
  moreover have d: "fst ` set m = {oid \<in> ids t. blockers bs hx hy (row_at t oid) \<noteq> []}"
    unfolding dom_map_of_conv_image_fst [symmetric] dom_def using m(3) by auto
  ultimately show ?thesis by auto
qed

subsection \<open>All rows\<close>

lemma cut_loop:
  assumes "\<forall>r \<in> ran (objs t). site_row r" "exchanged t R N t1" "set L \<subseteq> ids t - R" "distinct L"
  shows "\<exists>t'. foldE (\<lambda>row. cutRow row (f row) mw halo) L t1 = Inr t'
     \<and> exchanged t (R \<union> set L) (N \<union> (\<Union>oid \<in> set L. set (cut_rows_of (row_at t oid) (mw + 2 * site_w (row_at t oid)) halo (f oid)))) t'"
  using assms(2-)
proof (induction L arbitrary: R N t1)
  case (Cons x L)
  have x: "x \<in> ids t" "x \<notin> R" using Cons.prems(2) by auto
  then have o1: "objs t1 x = Some (row_at t x)" using exchangedD(2) [OF Cons.prems(1) x] by (auto simp: mem_ids)
  have "site_row (row_at t x)" using x(1) assms(1) by (auto simp: mem_ids ran_def)
  from cutRow_exchanged [OF exchangedD(1) [OF Cons.prems(1)] o1 this]
  obtain t2 where t2: "cutRow x (f x) mw halo t1 = Inr t2"
    "exchanged t1 {x} (set (cut_rows_of (row_at t x) (mw + 2 * site_w (row_at t x)) halo (f x))) t2" by blast
  have e: "exchanged t (R \<union> {x}) (N \<union> set (cut_rows_of (row_at t x) (mw + 2 * site_w (row_at t x)) halo (f x))) t2"
    using x by (intro exchanged_trans [OF Cons.prems(1) t2(2)]) simp
  show ?case using Cons.IH [OF e] Cons.prems(2,3) t2(1) by (auto simp: Un_assoc insert_commute)
qed simp

definition blocked_ids :: "Rect list \<Rightarrow> int \<Rightarrow> int \<Rightarrow> tap_row dbTable \<Rightarrow> nat set" where
  "blocked_ids bs hx hy t = {oid \<in> ids t. blockers bs hx hy (row_at t oid) \<noteq> []}"

definition min_width_of :: "dbMaster option \<Rightarrow> int" where
  "min_width_of endcap = (case endcap of None \<Rightarrow> 0 | Some m \<Rightarrow> 2 * m_width m)"

definition new_rows :: "dbMaster option \<Rightarrow> Rect list \<Rightarrow> int \<Rightarrow> int \<Rightarrow> tap_row \<Rightarrow> tap_row list" where
  "new_rows endcap bs hx hy r =
     cut_rows_of r (min_width_of endcap + 2 * site_w r) hx (blockers bs hx hy r)"

lemma cutRows_exchanged:
  assumes "table_ok t" "\<forall>r \<in> ran (objs t). site_row r" "\<And>xs. mset (ptr_order xs) = mset xs"
  shows "\<exists>t'. cutRows ptr_order endcap bs hx hy t = Inr t'
     \<and> exchanged t (blocked_ids bs hx hy t) (\<Union>oid \<in> blocked_ids bs hx hy t. set (new_rows endcap bs hx hy (row_at t oid))) t'"
proof -
  obtain m where m: "blocked_rows bs hx hy t = Inr m" "keys_sorted m"
     "fst ` set m = blocked_ids bs hx hy t"
     "\<forall>oid \<in> fst ` set m. the (map_of m oid) = blockers bs hx hy (row_at t oid)"
    using blocked_rows_result [OF assms(1)] unfolding blocked_ids_def by blast
  let ?L = "ptr_order (map fst m)"
  have L: "set ?L = blocked_ids bs hx hy t" "distinct ?L"
    using mset_eq_setD [OF assms(3), of "map fst m"] m(3) mset_eq_imp_distinct_iff [OF assms(3), of "map fst m"] keys_distinct [OF m(2)]
    by auto
  obtain t' where t': "foldE (\<lambda>row. cutRow row (the (map_of m row)) (min_width_of endcap) hx) ?L t = Inr t'"
    "exchanged t (set ?L) (\<Union>oid \<in> set ?L. set (cut_rows_of (row_at t oid) (min_width_of endcap + 2 * site_w (row_at t oid)) hx
        (the (map_of m oid)))) t'"
    using cut_loop [OF assms(2) exchanged_refl [OF assms(1)], of ?L "\<lambda>oid. the (map_of m oid)" "min_width_of endcap" hx] L
    by (auto simp: blocked_ids_def)
  have "(\<Union>oid \<in> set ?L. set (cut_rows_of (row_at t oid) (min_width_of endcap + 2 * site_w (row_at t oid)) hx (the (map_of m oid))))
      = (\<Union>oid \<in> blocked_ids bs hx hy t. set (new_rows endcap bs hx hy (row_at t oid)))"
    unfolding L(1) by (intro SUP_cong refl) (use m(3,4) in \<open>simp add: new_rows_def\<close>)
  then show ?thesis using t' L(1) m(1) by (simp add: cutRows_def min_width_of_def Let_def)
qed

subsection \<open>Parts of a row\<close>

definition part_of :: "tap_row \<Rightarrow> tap_row \<Rightarrow> bool" where
  \<comment> \<open>\<open>r'\<close> is a row of sites of \<open>r\<close>\<close>
  "part_of r r' \<longleftrightarrow> row_y r' = row_y r \<and> row_orient r' = row_orient r \<and> row_dir r' = row_dir r
     \<and> site_w r' = site_w r \<and> site_h r' = site_h r \<and> row_spacing r' = site_w r \<and> 0 < row_site_cnt r'
     \<and> site_w r dvd row_x r' - row_x r \<and> row_x r \<le> row_x r'
     \<and> row_x r' + row_site_cnt r' * site_w r \<le> row_x r + row_site_cnt r * site_w r
     \<and> (\<exists>k. r_name r' = sub_row_name (r_name r) k)"

lemma overlaps_site_row:
  "site_row r \<Longrightarrow> overlaps_row b r hx hy \<longleftrightarrow> meets r hx b \<and> yMin b - hy < row_y r + site_h r \<and> row_y r < yMax b + hy"
  by (auto simp: overlaps_row_def row_bbox_site_row meets_def Let_def)

lemma blockers_meet: "site_row r \<Longrightarrow> \<forall>b \<in> set (blockers bs hx hy r). meets r hx b"
  by (simp add: blockers_def overlaps_site_row)

lemma part_site_row: "site_row r \<Longrightarrow> part_of r r' \<Longrightarrow> site_row r'"
  by (auto simp: site_row_def part_of_def)

lemma part_overlaps:
  assumes "site_row r" "part_of r r'" "overlaps_row b r' hx hy"
  shows "overlaps_row b r hx hy"
  using assms part_site_row [OF assms(1,2)] by (auto simp: overlaps_site_row meets_def part_of_def)

lemma sdiv_pos_dvd:
  assumes "0 < w" "w dvd d"
  shows "(d sdiv w) * w = (d :: int)" "0 < d sdiv w \<longleftrightarrow> 0 < d"
proof -
  obtain q where q: "d = q * w" using assms(2) by (metis dvdE mult.commute)
  then have "d sdiv w = q" using sdiv_mult_cancel [of w q] assms(1) by simp
  then show "(d sdiv w) * w = d" "0 < d sdiv w \<longleftrightarrow> 0 < d" using q assms(1) by (simp_all add: zero_less_mult_iff)
qed

lemma new_rows_part:
  assumes "site_row r"
  shows "r' \<in> set (new_rows endcap bs hx hy r) \<longleftrightarrow>
    (\<exists>k s e. (k, s, e) \<in> set (cut_parts r hx (blockers bs hx hy r)) \<and> s < e \<and> min_width_of endcap + 2 * site_w r \<le> e - s
       \<and> r' = part_row r (k, s, e) \<and> row_x r' = s \<and> row_site_cnt r' * site_w r = e - s)"
    (is "?l \<longleftrightarrow> ?r")
proof -
  have w: "0 < site_w r" using assms by (simp add: site_row_def)
  note d = cut_parts_on_sites [OF assms blockers_meet [OF assms, of bs hx hy]]
  show ?thesis
  proof
    assume ?l
    then obtain k s e where p: "(k, s, e) \<in> set (cut_parts r hx (blockers bs hx hy r))"
        "part_kept (site_w r) (min_width_of endcap + 2 * site_w r) (k, s, e)" "r' = part_row r (k, s, e)"
      by (auto simp: new_rows_def cut_rows_of_def)
    then show ?r using sdiv_pos_dvd [OF w d(2) [OF p(1)]]
      by (intro exI [of _ k] exI [of _ s] exI [of _ e]) (auto simp: part_kept_def part_row_def)
  next
    assume ?r
    then obtain k s e where p: "(k, s, e) \<in> set (cut_parts r hx (blockers bs hx hy r))" "s < e"
        "min_width_of endcap + 2 * site_w r \<le> e - s" "r' = part_row r (k, s, e)" by blast
    then show ?l using sdiv_pos_dvd [OF w d(2) [OF p(1)]]
      by (auto simp: new_rows_def cut_rows_of_def part_kept_def intro!: image_eqI [of _ _ "(k, s, e)"])
  qed
qed

lemma new_rows_part_of:
  assumes "site_row r" "r' \<in> set (new_rows endcap bs hx hy r)"
  shows "part_of r r' \<and> min_width_of endcap + 2 * site_w r \<le> row_site_cnt r' * site_w r"
proof -
  obtain k s e where p: "(k, s, e) \<in> set (cut_parts r hx (blockers bs hx hy r))" "s < e" "min_width_of endcap + 2 * site_w r \<le> e - s"
      "r' = part_row r (k, s, e)" "row_x r' = s" "row_site_cnt r' * site_w r = e - s"
    using assms(2) unfolding new_rows_part [OF assms(1)] by blast
  have w: "0 < site_w r" using assms by (simp add: site_row_def)
  have "0 < row_site_cnt r' * site_w r" using p(2,6) by simp
  then have "0 < row_site_cnt r'" using w by (simp add: zero_less_mult_iff)
  moreover note cut_parts_on_sites [OF assms(1) blockers_meet [OF assms(1)] p(1)]
  ultimately show ?thesis using p(3-6) unfolding part_of_def by (auto simp: part_row_def)
qed

lemma new_rows_clear:
  assumes "site_row r" "edges_agree (blockers bs hx hy r)" "r' \<in> set (new_rows endcap bs hx hy r)" "b \<in> set bs"
  shows "\<not> overlaps_row b r' hx hy"
proof
  assume o1: "overlaps_row b r' hx hy"
  have p': "part_of r r'" using new_rows_part_of [OF assms(1,3)] by simp
  have "b \<in> set (blockers bs hx hy r)" using part_overlaps [OF assms(1) p' o1] assms(4) by (simp add: blockers_def)
  moreover obtain k s e where p: "(k, s, e) \<in> set (cut_parts r hx (blockers bs hx hy r))"
      "r' = part_row r (k, s, e)" "row_x r' = s" "row_site_cnt r' * site_w r = e - s"
    using assms(3) unfolding new_rows_part [OF assms(1)] by blast
  ultimately have "e \<le> xMin b - hx \<or> xMax b + hx \<le> s" using cut_parts_clear [OF assms(1,2) p(1)] by blast
  then show False
    using o1 p p' unfolding overlaps_site_row [OF part_site_row [OF assms(1) p']] by (auto simp: meets_def part_of_def)
qed

lemma new_rows_cover:
  assumes "site_row r" "\<forall>b \<in> set bs. xMin b \<le> xMax b" "0 \<le> hx"
    and "site_w r dvd a - row_x r" "site_w r dvd c - row_x r" "row_x r \<le> a" "a < c" "c \<le> row_x r + row_site_cnt r * site_w r"
    and "\<forall>b \<in> set bs. overlaps_row b r hx hy \<longrightarrow> c \<le> xMin b - hx \<or> xMax b + hx \<le> a"
    and "min_width_of endcap + 2 * site_w r \<le> c - a"
  shows "\<exists>r' \<in> set (new_rows endcap bs hx hy r). row_x r' \<le> a \<and> c \<le> row_x r' + row_site_cnt r' * site_w r'"
proof -
  have "\<forall>b \<in> set (blockers bs hx hy r). xMin b \<le> xMax b" "\<forall>b \<in> set (blockers bs hx hy r). c \<le> xMin b - hx \<or> xMax b + hx \<le> a"
    using assms(2,9) by (auto simp: blockers_def)
  from cut_parts_cover [OF assms(1) this(1) assms(3-8) this(2)]
  obtain k s e where p: "(k, s, e) \<in> set (cut_parts r hx (blockers bs hx hy r))" "s \<le> a" "c \<le> e" by blast
  have w: "0 < site_w r" using assms(1) by (simp add: site_row_def)
  note d = cut_parts_on_sites(2) [OF assms(1) blockers_meet [OF assms(1)] p(1)]
  have "part_row r (k, s, e) \<in> set (new_rows endcap bs hx hy r)"
    unfolding new_rows_part [OF assms(1)] using p assms(7,10) sdiv_pos_dvd(1) [OF w d]
    by (intro exI [of _ k] exI [of _ s] exI [of _ e]) (auto simp: part_row_def)
  moreover have "row_x (part_row r (k, s, e)) = s" "row_site_cnt (part_row r (k, s, e)) * site_w (part_row r (k, s, e)) = e - s"
    using sdiv_pos_dvd(1) [OF w d] by (simp_all add: part_row_def)
  ultimately show ?thesis using p(2,3) by (intro bexI [of _ "part_row r (k, s, e)"]) auto
qed

definition apart :: "tap_row \<Rightarrow> tap_row \<Rightarrow> bool" where
  "apart r s \<longleftrightarrow> xMax (row_bbox r) \<le> xMin (row_bbox s) \<or> xMax (row_bbox s) \<le> xMin (row_bbox r)
     \<or> yMax (row_bbox r) \<le> yMin (row_bbox s) \<or> yMax (row_bbox s) \<le> yMin (row_bbox r)"

lemma apart_sym: "apart r s \<longleftrightarrow> apart s r"
  by (auto simp: apart_def)

lemma part_apart:
  assumes "site_row r" "part_of r r'" "apart r s"
  shows "apart r' s"
  using assms part_site_row [OF assms(1,2)] by (auto simp: apart_def row_bbox_site_row part_of_def)

lemma new_rows_apart:
  assumes "site_row r" "edges_agree (blockers bs hx hy r)" "\<forall>b \<in> set bs. xMin b \<le> xMax b" "0 \<le> hx"
    and "r1 \<in> set (new_rows endcap bs hx hy r)" "r2 \<in> set (new_rows endcap bs hx hy r)" "r1 \<noteq> r2"
  shows "apart r1 r2"
proof -
  have b: "\<forall>b \<in> set (blockers bs hx hy r). xMin b \<le> xMax b" using assms(3) by (auto simp: blockers_def)
  obtain k s e where p: "(k, s, e) \<in> set (cut_parts r hx (blockers bs hx hy r))"
      "r1 = part_row r (k, s, e)" "row_x r1 = s" "row_site_cnt r1 * site_w r = e - s"
    using assms(5) unfolding new_rows_part [OF assms(1)] by blast
  obtain k' s' e' where p': "(k', s', e') \<in> set (cut_parts r hx (blockers bs hx hy r))"
      "r2 = part_row r (k', s', e')" "row_x r2 = s'" "row_site_cnt r2 * site_w r = e' - s'"
    using assms(6) unfolding new_rows_part [OF assms(1)] by blast
  have "k \<noteq> k'"
  proof
    assume "k = k'"
    then have "(k, s, e) = (k', s', e')" using p(1) p'(1) by (elim cut_parts_cases) auto
    then show False using assms(7) p(2) p'(2) by simp
  qed
  then have "e \<le> s' \<or> e' \<le> s"
    using cut_parts_apart [OF assms(1,2) b assms(4) p(1) p'(1)] cut_parts_apart [OF assms(1,2) b assms(4) p'(1) p(1)] by linarith
  moreover have "part_of r r1" "part_of r r2" using new_rows_part_of [OF assms(1)] assms(5,6) by blast+
  moreover from this have "site_row r1" "site_row r2" using part_site_row [OF assms(1)] by blast+
  ultimately show ?thesis using p(3,4) p'(3,4) by (auto simp: apart_def row_bbox_site_row part_of_def)
qed

lemma ran_objs: "r \<in> ran (objs t) \<longleftrightarrow> (\<exists>oid \<in> ids t. row_at t oid = r)"
  by (force simp: ran_def mem_ids)

lemma not_blocked: "oid \<in> ids t \<Longrightarrow> oid \<notin> blocked_ids bs hx hy t \<longleftrightarrow> (\<forall>b \<in> set bs. \<not> overlaps_row b (row_at t oid) hx hy)"
  by (auto simp: blocked_ids_def blockers_def filter_empty_conv)

lemma rows_after_cut:
  assumes "exchanged t (blocked_ids bs hx hy t) (\<Union>oid \<in> blocked_ids bs hx hy t. set (new_rows endcap bs hx hy (row_at t oid))) t'"
    and "r' \<in> ran (objs t')"
  obtains "r' \<in> ran (objs t)" "\<forall>b \<in> set bs. \<not> overlaps_row b r' hx hy"
  | r where "r \<in> ran (objs t)" "r' \<in> set (new_rows endcap bs hx hy r)" "\<exists>b \<in> set bs. overlaps_row b r hx hy"
proof -
  obtain oid where o1: "objs t' oid = Some r'" using assms(2) by (auto simp: ran_def)
  from exchangedD(3) [OF assms(1) o1] show thesis
  proof
    assume h: "oid \<in> ids t \<and> oid \<notin> blocked_ids bs hx hy t \<and> objs t oid = Some r'"
    then show thesis using not_blocked [of oid t bs hx hy] that(1) by (auto simp: ran_def)
  next
    assume "r' \<in> (\<Union>oid \<in> blocked_ids bs hx hy t. set (new_rows endcap bs hx hy (row_at t oid)))"
    then obtain i where i: "i \<in> blocked_ids bs hx hy t" "r' \<in> set (new_rows endcap bs hx hy (row_at t i))" by blast
    then have "i \<in> ids t" by (simp add: blocked_ids_def)
    then show thesis using that(2) [of "row_at t i"] i not_blocked [of i t bs hx hy] by (auto simp: ran_objs)
  qed
qed

subsection \<open>The table after the cuts\<close>

lemma cutRows_cleared:
  assumes "table_ok t" "\<forall>r \<in> ran (objs t). site_row r \<and> edges_agree (blockers bs hx hy r)"
    and "\<forall>xs. mset (ptr_order xs) = mset xs" "\<forall>b \<in> set bs. xMin b \<le> xMax b" "0 \<le> hx"
  shows "\<exists>t'. cutRows ptr_order endcap bs hx hy t = Inr t' \<and> table_ok t'
     \<and> (\<forall>r' \<in> ran (objs t'). site_row r' \<and> (\<forall>b \<in> set bs. \<not> overlaps_row b r' hx hy)
          \<and> (r' \<in> ran (objs t) \<or> (\<exists>r \<in> ran (objs t). part_of r r' \<and> min_width_of endcap + 2 * site_w r \<le> row_site_cnt r' * site_w r)))
     \<and> (\<forall>oid \<in> ids t. (\<forall>b \<in> set bs. \<not> overlaps_row b (row_at t oid) hx hy) \<longrightarrow> objs t' oid = objs t oid)
     \<and> ((\<forall>r \<in> ran (objs t). \<forall>s \<in> ran (objs t). r \<noteq> s \<longrightarrow> apart r s)
          \<longrightarrow> (\<forall>r \<in> ran (objs t'). \<forall>s \<in> ran (objs t'). r \<noteq> s \<longrightarrow> apart r s))"
proof -
  have sr: "site_row r" and ea: "edges_agree (blockers bs hx hy r)" if "r \<in> ran (objs t)" for r using assms(2) that by auto
  obtain t' where t': "cutRows ptr_order endcap bs hx hy t = Inr t'"
     "exchanged t (blocked_ids bs hx hy t) (\<Union>oid \<in> blocked_ids bs hx hy t. set (new_rows endcap bs hx hy (row_at t oid))) t'"
    using cutRows_exchanged [OF assms(1)] sr assms(3) by blast
  have rows: "site_row r' \<and> (\<forall>b \<in> set bs. \<not> overlaps_row b r' hx hy)
       \<and> (r' \<in> ran (objs t) \<or> (\<exists>r \<in> ran (objs t). part_of r r' \<and> min_width_of endcap + 2 * site_w r \<le> row_site_cnt r' * site_w r))"
    if h: "r' \<in> ran (objs t')" for r'
    using t'(2) h
  proof (cases rule: rows_after_cut)
    case (2 r)
    then show ?thesis using new_rows_part_of [OF sr [OF 2(1)] 2(2)] new_rows_clear [OF sr [OF 2(1)] ea [OF 2(1)] 2(2)]
      part_site_row [OF sr [OF 2(1)]] by blast
  qed (use sr in auto)
  have two: "apart r s" if old: "\<forall>r \<in> ran (objs t). \<forall>s \<in> ran (objs t). r \<noteq> s \<longrightarrow> apart r s"
    "r \<in> ran (objs t')" "s \<in> ran (objs t')" "r \<noteq> s" for r s
  proof -
    have part: "\<exists>q \<in> ran (objs t). (p = q \<and> (\<forall>b \<in> set bs. \<not> overlaps_row b q hx hy)
         \<or> p \<in> set (new_rows endcap bs hx hy q) \<and> (\<exists>b \<in> set bs. overlaps_row b q hx hy))" if "p \<in> ran (objs t')" for p
      using t'(2) that by (cases rule: rows_after_cut) blast+
    have sub: "apart q z \<Longrightarrow> q \<in> ran (objs t) \<Longrightarrow> p = q \<or> p \<in> set (new_rows endcap bs hx hy q) \<Longrightarrow> apart p z" for p q z
      using part_apart [OF sr] new_rows_part_of [OF sr] by blast
    obtain q1 where q1: "q1 \<in> ran (objs t)" "r = q1 \<and> (\<forall>b \<in> set bs. \<not> overlaps_row b q1 hx hy)
        \<or> r \<in> set (new_rows endcap bs hx hy q1) \<and> (\<exists>b \<in> set bs. overlaps_row b q1 hx hy)" using part [OF \<open>r \<in> ran (objs t')\<close>] by blast
    obtain q2 where q2: "q2 \<in> ran (objs t)" "s = q2 \<and> (\<forall>b \<in> set bs. \<not> overlaps_row b q2 hx hy)
        \<or> s \<in> set (new_rows endcap bs hx hy q2) \<and> (\<exists>b \<in> set bs. overlaps_row b q2 hx hy)" using part [OF \<open>s \<in> ran (objs t')\<close>] by blast
    show ?thesis
    proof (cases "q1 = q2")
      case True
      then show ?thesis using q1 q2 \<open>r \<noteq> s\<close> new_rows_apart [OF sr [OF q1(1)] ea [OF q1(1)] assms(4,5)] by blast
    next
      case False
      then have "apart q1 q2" using old q1(1) q2(1) by blast
      then have "apart r q2" using sub q1 by blast
      then show ?thesis using sub [of q2 r s] q2 apart_sym by blast
    qed
  qed
  have kept: "\<forall>oid \<in> ids t. (\<forall>b \<in> set bs. \<not> overlaps_row b (row_at t oid) hx hy) \<longrightarrow> objs t' oid = objs t oid"
    using exchangedD(2) [OF t'(2)] not_blocked [of _ t bs hx hy] by blast
  show ?thesis
    using t'(1) exchangedD(1) [OF t'(2)] rows two kept by (intro exI [of _ t'] conjI) blast+
qed

lemma cutRows_kept:
  assumes "table_ok t" "\<forall>r \<in> ran (objs t). site_row r" "\<forall>xs. mset (ptr_order xs) = mset xs"
    and "\<forall>b \<in> set bs. xMin b \<le> xMax b" "0 \<le> hx" "r \<in> ran (objs t)"
    and "site_w r dvd a - row_x r" "site_w r dvd c - row_x r" "row_x r \<le> a" "a < c" "c \<le> row_x r + row_site_cnt r * site_w r"
    and "\<forall>b \<in> set bs. overlaps_row b r hx hy \<longrightarrow> c \<le> xMin b - hx \<or> xMax b + hx \<le> a"
    and "min_width_of endcap + 2 * site_w r \<le> c - a"
  shows "\<exists>t'. cutRows ptr_order endcap bs hx hy t = Inr t'
     \<and> (\<exists>r' \<in> ran (objs t'). (r' = r \<or> part_of r r') \<and> row_x r' \<le> a \<and> c \<le> row_x r' + row_site_cnt r' * site_w r')"
proof -
  obtain t' where t': "cutRows ptr_order endcap bs hx hy t = Inr t'"
     "exchanged t (blocked_ids bs hx hy t) (\<Union>oid \<in> blocked_ids bs hx hy t. set (new_rows endcap bs hx hy (row_at t oid))) t'"
    using cutRows_exchanged [OF assms(1,2)] assms(3) by blast
  obtain oid where o1: "oid \<in> ids t" "row_at t oid = r" using assms(6) by (auto simp: ran_objs)
  have sr: "site_row r" using assms(2,6) by blast
  show ?thesis
  proof (cases "oid \<in> blocked_ids bs hx hy t")
    case True
    obtain r' where r': "r' \<in> set (new_rows endcap bs hx hy r)" "row_x r' \<le> a" "c \<le> row_x r' + row_site_cnt r' * site_w r'"
      using new_rows_cover [OF sr assms(4,5,7-13)] by blast
    then have "r' \<in> (\<Union>oid \<in> blocked_ids bs hx hy t. set (new_rows endcap bs hx hy (row_at t oid)))" using True o1(2) by blast
    then have "r' \<in> ran (objs t')" using exchangedD(4) [OF t'(2)] by (auto simp: ran_def)
    then show ?thesis using t'(1) r' new_rows_part_of [OF sr r'(1)] by blast
  next
    case False
    then have "objs t' oid = Some r" using exchangedD(2) [OF t'(2) o1(1)] o1 by (auto simp: mem_ids)
    then have "r \<in> ran (objs t')" by (auto simp: ran_def)
    then show ?thesis using t'(1) assms(9,11) by blast
  qed
qed

subsection \<open>Properties\<close>

definition clear_of :: "Rect \<Rightarrow> int \<Rightarrow> int \<Rightarrow> tap_row \<Rightarrow> bool" where
  \<comment> \<open>the row is left, right, below or above of the box with its halo\<close>
  "clear_of b hx hy r \<longleftrightarrow>
     row_x r + row_site_cnt r * site_w r \<le> xMin b - hx \<or> xMax b + hx \<le> row_x r
   \<or> row_y r + site_h r \<le> yMin b - hy \<or> yMax b + hy \<le> row_y r"

lemma clear_of_iff: "site_row r \<Longrightarrow> clear_of b hx hy r \<longleftrightarrow> \<not> overlaps_row b r hx hy"
  by (auto simp: clear_of_def overlaps_site_row meets_def)

lemma blockers_clear: "site_row r \<Longrightarrow> blockers bs hx hy r = filter (\<lambda>b. \<not> clear_of b hx hy r) bs"
  by (simp add: blockers_def clear_of_iff)

text \<open>
  C9: Cutting the rows never faults, and afterwards no row meets a macro or its halo. The rows that no blockage
  overlaps stay as they are under the same pointers; every other row is gone, and the rows that replace it lie on
  its sites within its extent, with its orientation, each at least two sites wider than two endcaps. If no two
  rows overlapped before, none do afterwards. The rows are horizontal rows of adjacent sites, and
  among the blockages of one row none starts later and ends earlier than another; without that the parts can
  reach into a halo (\<open>cutRows_nested\<close>). The order of the addresses does not matter.
\<close>

theorem cutRows_clear:
  assumes "table_ok t" "\<forall>r \<in> ran (objs t). site_row r \<and> edges_agree (filter (\<lambda>b. \<not> clear_of b hx hy r) bs)"
    and "\<forall>xs. mset (ptr_order xs) = mset xs" "\<forall>b \<in> set bs. xMin b \<le> xMax b" "0 \<le> hx"
  shows "\<exists>t'. cutRows ptr_order endcap bs hx hy t = Inr t' \<and> table_ok t'
     \<and> (\<forall>r' \<in> ran (objs t'). site_row r' \<and> (\<forall>b \<in> set bs. clear_of b hx hy r')
          \<and> (r' \<in> ran (objs t) \<or> (\<exists>r \<in> ran (objs t). part_of r r' \<and> min_width_of endcap + 2 * site_w r \<le> row_site_cnt r' * site_w r)))
     \<and> (\<forall>oid r. objs t oid = Some r \<longrightarrow> (\<forall>b \<in> set bs. clear_of b hx hy r) \<longrightarrow> objs t' oid = Some r)
     \<and> ((\<forall>r \<in> ran (objs t). \<forall>s \<in> ran (objs t). r \<noteq> s \<longrightarrow> apart r s)
          \<longrightarrow> (\<forall>r \<in> ran (objs t'). \<forall>s \<in> ran (objs t'). r \<noteq> s \<longrightarrow> apart r s))"
proof -
  have "\<forall>r \<in> ran (objs t). site_row r \<and> edges_agree (blockers bs hx hy r)" using assms(2) blockers_clear by metis
  from cutRows_cleared [OF assms(1) this assms(3-5), of endcap]
  obtain t' where t': "cutRows ptr_order endcap bs hx hy t = Inr t'" "table_ok t'"
    "\<forall>r' \<in> ran (objs t'). site_row r' \<and> (\<forall>b \<in> set bs. \<not> overlaps_row b r' hx hy)
          \<and> (r' \<in> ran (objs t) \<or> (\<exists>r \<in> ran (objs t). part_of r r' \<and> min_width_of endcap + 2 * site_w r \<le> row_site_cnt r' * site_w r))"
    "\<forall>oid \<in> ids t. (\<forall>b \<in> set bs. \<not> overlaps_row b (row_at t oid) hx hy) \<longrightarrow> objs t' oid = objs t oid"
    "(\<forall>r \<in> ran (objs t). \<forall>s \<in> ran (objs t). r \<noteq> s \<longrightarrow> apart r s)
          \<longrightarrow> (\<forall>r \<in> ran (objs t'). \<forall>s \<in> ran (objs t'). r \<noteq> s \<longrightarrow> apart r s)" by blast
  have "objs t' oid = Some r" if "objs t oid = Some r" "\<forall>b \<in> set bs. clear_of b hx hy r" for oid r
  proof -
    have "site_row r" using assms(2) ranI [of "objs t", OF that(1)] by blast
    then show ?thesis using t'(4) that clear_of_iff [of r] by (auto simp: mem_ids)
  qed
  then show ?thesis using t'(1,2,3,5) clear_of_iff by (intro exI [of _ t'] conjI) blast+
qed

text \<open>
  C18: Cutting the rows loses no usable sites: any run of sites of a row that is clear of all blockages with their
  halos, and wide enough for two endcaps and two sites, lies in one row of the result, on the same sites and
  with the same orientation. This holds for any arrangement of the blockages.
\<close>

theorem cutRows_complete:
  assumes "table_ok t" "\<forall>r \<in> ran (objs t). site_row r" "\<forall>xs. mset (ptr_order xs) = mset xs"
    and "\<forall>b \<in> set bs. xMin b \<le> xMax b" "0 \<le> hx" "r \<in> ran (objs t)"
    and "site_w r dvd a - row_x r" "site_w r dvd c - row_x r" "row_x r \<le> a" "a < c" "c \<le> row_x r + row_site_cnt r * site_w r"
    and "\<forall>b \<in> set bs. c \<le> xMin b - hx \<or> xMax b + hx \<le> a \<or> row_y r + site_h r \<le> yMin b - hy \<or> yMax b + hy \<le> row_y r"
    and "min_width_of endcap + 2 * site_w r \<le> c - a"
  shows "\<exists>t'. cutRows ptr_order endcap bs hx hy t = Inr t'
     \<and> (\<exists>r' \<in> ran (objs t'). (r' = r \<or> part_of r r') \<and> row_x r' \<le> a \<and> c \<le> row_x r' + row_site_cnt r' * site_w r')"
proof -
  have "site_row r" using assms(2,6) by blast
  then have "\<forall>b \<in> set bs. overlaps_row b r hx hy \<longrightarrow> c \<le> xMin b - hx \<or> xMax b + hx \<le> a"
    using assms(12) by (fastforce simp: overlaps_site_row)
  from cutRows_kept [OF assms(1-11) this assms(13)] show ?thesis .
qed

subsection \<open>An example\<close>

definition demo_tap_row :: tap_row where
  "demo_tap_row = \<lparr>row_x = 0, row_y = 0, row_orient = R0, row_dir = HORIZONTAL, row_site_cnt = 100, row_spacing = 10, site_w = 10,
     site_h = 100, r_name = ''ROW_0''\<rparr>"

lemma demo_site_row: "site_row demo_tap_row"
  by (simp add: site_row_def demo_tap_row_def)

lemma demo_row_table: "\<exists>t. table_ok t \<and> ran (objs t) = {demo_tap_row}"
proof -
  have n: "table_ok (dbTable_new 128 7 :: tap_row dbTable)" "objs (dbTable_new 128 7 :: tap_row dbTable) = Map.empty"
    using new_table_ok [of 7] by simp_all
  obtain e t where "table_ok t" "objs t = [e \<mapsto> demo_tap_row]" using create_result [OF n(1), of demo_tap_row] n(2) by auto
  then show ?thesis by auto
qed

theorem cutRows_clear_witness:
  "\<exists>t t'. ran (objs t) = {demo_tap_row} \<and> cutRows (\<lambda>xs. xs) None [Rect 300 0 500 300] 10 10 t = Inr t'
     \<and> (\<forall>r' \<in> ran (objs t'). clear_of (Rect 300 0 500 300) 10 10 r')"
proof -
  obtain t where t: "table_ok t" "ran (objs t) = {demo_tap_row}" using demo_row_table by blast
  have "edges_agree (filter (\<lambda>b. \<not> clear_of b 10 10 demo_tap_row) [Rect 300 0 500 300])" by (simp add: edges_agree_def)
  then show ?thesis
    using cutRows_clear [OF t(1), where bs = "[Rect 300 0 500 300]" and hx = 10 and hy = 10 and ptr_order = "\<lambda>xs. xs" and endcap = None] t(2) demo_site_row by auto
qed

theorem cutRows_complete_witness:
  "\<exists>t t'. ran (objs t) = {demo_tap_row} \<and> cutRows (\<lambda>xs. xs) None [Rect 300 0 500 300] 10 10 t = Inr t'
     \<and> (\<exists>r' \<in> ran (objs t'). row_x r' \<le> 510 \<and> 1000 \<le> row_x r' + row_site_cnt r' * site_w r')"
proof -
  obtain t where t: "table_ok t" "ran (objs t) = {demo_tap_row}" using demo_row_table by blast
  show ?thesis
    using cutRows_complete [OF t(1), where ptr_order = "\<lambda>xs. xs" and bs = "[Rect 300 0 500 300]" and hx = 10 and hy = 10 and r = demo_tap_row and a = 510 and c = 1000 and endcap = None] t(2) demo_site_row
    by (auto simp: demo_tap_row_def min_width_of_def)
qed

text \<open>
  Two macros within the halo of one row, the second inside the extent of the first: after the first the next row would
  start at 810, after the second it starts at 410, inside the halo of the first.
\<close>

lemma cutRows_nested:
  "\<exists>t t' r'. ran (objs t) = {demo_tap_row} \<and> cutRows (\<lambda>xs. xs) None [Rect 200 150 800 400, Rect 300 (- 300) 400 (- 50)] 10 60 t = Inr t'
     \<and> r' \<in> ran (objs t') \<and> row_x r' = 410 \<and> overlaps_row (Rect 200 150 800 400) r' 10 60"
proof -
  obtain t where t: "table_ok t" "ran (objs t) = {demo_tap_row}" using demo_row_table by blast
  let ?bs = "[Rect 200 150 800 400, Rect 300 (- 300) 400 (- 50)]"
  obtain t' where t': "cutRows (\<lambda>xs. xs) None ?bs 10 60 t = Inr t'"
     "exchanged t (blocked_ids ?bs 10 60 t) (\<Union>oid \<in> blocked_ids ?bs 10 60 t. set (new_rows None ?bs 10 60 (row_at t oid))) t'"
    using cutRows_exchanged [OF t(1), of "\<lambda>xs. xs" None ?bs 10 60] t(2) demo_site_row by auto
  obtain oid where o1: "oid \<in> ids t" "row_at t oid = demo_tap_row" using t(2) ran_objs [of demo_tap_row t] by auto
  have bl: "blockers ?bs 10 60 demo_tap_row = ?bs"
    unfolding blockers_def overlaps_site_row [OF demo_site_row] by (simp add: meets_def demo_tap_row_def)
  let ?r = "part_row demo_tap_row (3, 410, 1000)"
  have "(3, 410, 1000) \<in> set (cut_parts demo_tap_row 10 ?bs)"
    by (simp add: cut_parts_def sorted_edges_def site_above_def site_below_def demo_tap_row_def)
  moreover have "part_kept (site_w demo_tap_row) (min_width_of None + 2 * site_w demo_tap_row) (3, 410, 1000)"
    by (simp add: part_kept_def signed_divide_int_def demo_tap_row_def min_width_of_def)
  ultimately have n: "?r \<in> set (new_rows None ?bs 10 60 demo_tap_row)"
    unfolding new_rows_def cut_rows_of_def bl set_map set_filter by blast
  have "oid \<in> blocked_ids ?bs 10 60 t" unfolding blocked_ids_def using o1(1) bl unfolding o1(2) [symmetric] by simp
  then have "?r \<in> (\<Union>oid \<in> blocked_ids ?bs 10 60 t. set (new_rows None ?bs 10 60 (row_at t oid)))"
    by (rule UN_I) (use n in \<open>simp only: o1(2)\<close>)
  from exchangedD(4) [OF t'(2) this] have "?r \<in> ran (objs t')" by (blast intro: ranI)
  moreover have "site_row ?r" using new_rows_part_of [OF demo_site_row n] part_site_row [OF demo_site_row] by blast
  then have "overlaps_row (Rect 200 150 800 400) ?r 10 60"
    by (simp add: overlaps_site_row meets_def part_row_def demo_tap_row_def signed_divide_int_def)
  moreover have "row_x ?r = 410" by (simp add: part_row_def)
  ultimately show ?thesis using t'(1) t(2) by blast
qed

end
