(* ===== verification/Tap_Cells.thy ===== *)
theory Tap_Cells
  imports Tap_Rows
begin

section \<open>Tap cells: state and queries\<close>

text \<open>
  The class \<open>Tapcell\<close> of \<open>tap/src/tapcell.cpp\<close> and its queries. The record \<open>Tapcell\<close> holds the members of the class, \<open>tap_db\<close>
  adds what it reads and writes of the database: the block of \<open>Odb_Design\<close> with its masters and
  instances, the table of the rows, and by the index of a master its name and its symmetries. The rows are in the table, the list \<open>b_rows\<close> of the block is not used.
\<close>

record FilledSites =
  fs_yMin :: int
  fs_xMin :: int
  fs_xMax :: int

record Tapcell =
  phy_idx :: nat
  filled_sites :: "FilledSites list"
  tap_prefix :: string
  endcap_prefix :: string

record tap_db = Tapcell +
  blk :: dbBlock
  row_tbl :: "tap_row dbTable"
  master_names :: "string list"
  symmetries :: "(bool \<times> bool) list"

definition tap_reset :: "'a Tapcell_scheme \<Rightarrow> 'a Tapcell_scheme" where
  \<comment> \<open>\<open>reset\<close>\<close>
  "tap_reset st = st\<lparr>phy_idx := 0, filled_sites := [], tap_prefix := [], endcap_prefix := []\<rparr>"

definition setTapPrefix :: "string \<Rightarrow> 'a Tapcell_scheme \<Rightarrow> 'a Tapcell_scheme" where
  "setTapPrefix p st = st\<lparr>tap_prefix := p\<rparr>"

definition setEndcapPrefix :: "string \<Rightarrow> 'a Tapcell_scheme \<Rightarrow> 'a Tapcell_scheme" where
  "setEndcapPrefix p st = st\<lparr>endcap_prefix := p\<rparr>"

subsection \<open>Masters\<close>

definition findMaster :: "tap_db \<Rightarrow> string \<Rightarrow> nat option" where
  \<comment> \<open>\<open>dbDatabase::findMaster\<close>: the first in the order of the libraries\<close>
  "findMaster st name = find (\<lambda>i. master_names st ! i = name) [0..<length (master_names st)]"

definition needMaster :: "nat \<Rightarrow> string \<Rightarrow> tap_db \<Rightarrow> nat result" where
  \<comment> \<open>a lookup that reports message \<open>n\<close> when there is no such master\<close>
  "needMaster n name st = (case findMaster st name of None \<Rightarrow> Inl (LoggedError n) | Some m \<Rightarrow> Inr m)"

definition master_w :: "tap_db \<Rightarrow> nat \<Rightarrow> int" where
  "master_w st m = m_width (b_masters (blk st) ! m)"

definition master_h :: "tap_db \<Rightarrow> nat \<Rightarrow> int" where
  "master_h st m = m_height (b_masters (blk st) ! m)"

definition checkSymmetry :: "tap_db \<Rightarrow> nat \<Rightarrow> dbOrientType \<Rightarrow> bool" where
  "checkSymmetry st master ori =
     (case symmetries st ! master of (symmetry_x, symmetry_y) \<Rightarrow>
      case ori of
        R0 \<Rightarrow> True
      | MX \<Rightarrow> symmetry_x
      | MY \<Rightarrow> symmetry_y
      | R180 \<Rightarrow> symmetry_x \<and> symmetry_y
      | _ \<Rightarrow> False)"

subsection \<open>Instances\<close>

definition makeInstance :: "nat \<Rightarrow> dbOrientType \<Rightarrow> int \<Rightarrow> int \<Rightarrow> string \<Rightarrow> tap_db \<Rightarrow> tap_db result" where
  "makeInstance master orientation x y prefix st =
     (if x < 0 \<or> y < 0 then Inr st
      else
        let name = prefix @ to_string (phy_idx st) in
        case inst_create (blk st) master name of
          None \<Rightarrow> Inl (LoggedError 33)
        | Some (b, i) \<Rightarrow>
            (let m = b_masters b ! master;
                 b = upd_inst i (\<lambda>inst. (setLocation m x y (setOrient m orientation inst))\<lparr>i_status := PS_LOCKED, i_source := SRC_DIST\<rparr>) b;
                 inst_bb = i_bbox (inst_of b i);
                 filled = \<lparr>fs_yMin = yMin inst_bb, fs_xMin = xMin inst_bb, fs_xMax = xMax inst_bb\<rparr>
             in Inr (st\<lparr>blk := b, filled_sites := filled_sites st @ [filled], phy_idx := phy_idx st + 1\<rparr>)))"

subsection \<open>Filled sites\<close>

type_synonym placement = "int \<times> int"

definition checkIfFilled :: "int \<Rightarrow> int \<Rightarrow> dbOrientType \<Rightarrow> placement list \<Rightarrow> bool" where
  "checkIfFilled x width orient row_insts =
     (let (x_start, x_end) = (if orient = MY \<or> orient = R180 then (x - width, x) else (x, x + width)) in
      case find (\<lambda>p. x_end > fst p \<and> x_start < snd p) row_insts of
        Some p \<Rightarrow> (let left_x = fst p - width; right_x = snd p in left_x + right_x > 0)
      | None \<Rightarrow> False)"

text \<open>
  \<open>findRowFills\<close> collects the cells by their lower edge, sorts them and merges neighbours. The merged list is
  given to \<open>insert\<close> under a key that the map has already. A placement is a vector of two
  coordinates, here a pair; the list of a key is never empty.
\<close>

fun merge_placements :: "placement option \<Rightarrow> placement list \<Rightarrow> placement list \<Rightarrow> placement list" where
  \<comment> \<open>the loop over the placements of a line: \<open>prev_x\<close>, \<open>merged_placements\<close>\<close>
  "merge_placements prev_x merged [] = (case prev_x of None \<Rightarrow> merged | Some p \<Rightarrow> merged @ [p])"
| "merge_placements prev_x merged (xs # rest) =
     (let xs = (min (fst xs) (snd xs), max (fst xs) (snd xs)) in
      case prev_x of
        None \<Rightarrow> merge_placements (Some xs) merged rest
      | Some p \<Rightarrow>
          if fst xs = snd p then merge_placements (Some (fst p, snd xs)) merged rest
          else merge_placements (Some xs) (merged @ [p]) rest)"

definition findRowFills :: "tap_db \<Rightarrow> (int \<times> placement list) list" where
  "findRowFills st =
     (let row_fills = fold (\<lambda>pl. map_mod (fs_yMin pl) [] (\<lambda>l. l @ [(fs_xMin pl, fs_xMax pl)])) (filled_sites st) []
      in fold (\<lambda>y row_fills.
           let row_fills = map_mod y [] sort row_fills;
               merged_placements = merge_placements None [] (the (map_of row_fills y))
           in map_insert y merged_placements row_fills) (map fst row_fills) row_fills)"

definition row_fill_check :: "(int \<times> placement list) list \<Rightarrow> int \<Rightarrow> placement list" where
  \<comment> \<open>\<open>row_fills[row_y]\<close>, or the empty list\<close>
  "row_fill_check row_fills line_y = (case map_of row_fills line_y of Some l \<Rightarrow> l | None \<Rightarrow> [])"

subsection \<open>Where the rows were cut\<close>

abbreviation row_xMin :: "tap_row \<Rightarrow> int" where "row_xMin r \<equiv> xMin (row_bbox r)"
abbreviation row_xMax :: "tap_row \<Rightarrow> int" where "row_xMax r \<equiv> xMax (row_bbox r)"
abbreviation row_yMin :: "tap_row \<Rightarrow> int" where "row_yMin r \<equiv> yMin (row_bbox r)"

datatype LocationType = AboveMacro | BelowMacro | NotMacro

definition isXInRow :: "int \<Rightarrow> tap_row list \<Rightarrow> bool" where
  "isXInRow x subrow = list_ex (\<lambda>row. x \<ge> row_xMin row \<and> x \<le> row_xMax row) subrow"

definition getLocationType :: "int \<Rightarrow> tap_row list \<Rightarrow> tap_row list \<Rightarrow> LocationType" where
  "getLocationType x rows_above rows_below =
     (let in_above = isXInRow x rows_above; in_below = isXInRow x rows_below in
      if in_above \<and> \<not> in_below then AboveMacro
      else if \<not> in_above \<and> in_below then BelowMacro
      else NotMacro)"

fun pickCornerMaster :: "LocationType \<Rightarrow> dbOrientType \<Rightarrow> nat \<Rightarrow> nat \<Rightarrow> nat \<Rightarrow> nat" where
  "pickCornerMaster BelowMacro ori nwin nwout endcap = (if ori = MX then nwin else nwout)"
| "pickCornerMaster AboveMacro ori nwin nwout endcap = (if ori = R0 then nwin else nwout)"
| "pickCornerMaster NotMacro ori nwin nwout endcap = endcap"

text \<open>The smallest and the largest x of the rows; the limits of \<open>int\<close> stand for no value yet.\<close>

definition getMinMaxX :: "tap_row list list \<Rightarrow> int \<times> int" where
  "getMinMaxX rows =
     fold (\<lambda>row (min_x, max_x).
         (if min_x = INT_MIN then row_xMin row else min min_x (row_xMin row),
          if max_x = INT_MAX then row_xMax row else max max_x (row_xMax row)))
       (concat rows) (INT_MIN, INT_MAX)"

type_synonym outlines = "((int \<times> int) \<times> int list) list"

fun outline_subrows :: "int \<Rightarrow> int \<Rightarrow> bool \<Rightarrow> int \<Rightarrow> tap_row list \<Rightarrow> outlines \<Rightarrow> int \<times> outlines" where
  \<comment> \<open>the loop over the rows of one line; the result is \<open>xMax_pos\<close> and the map\<close>
  "outline_subrows min_x cur_row is_first xMax_pos [] m = (xMax_pos, m)"
| "outline_subrows min_x cur_row is_first xMax_pos (row # rest) m =
     (let xMin_pos = (if is_first \<and> row_xMin row = min_x then - 1 else row_xMin row);
          m = (if xMax_pos \<noteq> xMin_pos then map_mod (xMax_pos, xMin_pos) [] (\<lambda>l. l @ [cur_row]) m else m)
      in outline_subrows min_x cur_row False (row_xMax row) rest m)"

definition row_cuts :: "tap_row list list \<Rightarrow> outlines" where
  \<comment> \<open>the first loop of \<open>getMacroOutlines\<close>: the lines in which each gap occurs\<close>
  "row_cuts rows =
     (let (min_x, max_x) = getMinMaxX rows in
      fold (\<lambda>(cur_row, subrows) m.
          let (xMax_pos, m) = outline_subrows min_x (int cur_row) True (- 1) subrows m
          in if xMax_pos \<noteq> max_x then map_mod (xMax_pos, - 1) [] (\<lambda>l. l @ [int cur_row]) m else m)
        (enumerate 0 rows) [])"

fun split_runs :: "int list \<Rightarrow> int list" where
  \<comment> \<open>the loop over \<open>all_rows\<close> from index 1 up to the last but one\<close>
  "split_runs (a # b # rest) = (if a + 1 = b then split_runs (b # rest) else a # b # split_runs (b # rest))"
| "split_runs _ = []"

definition run_ends :: "int list \<Rightarrow> int list" where
  \<comment> \<open>\<open>new_rows\<close>: the first and the last line of every run\<close>
  "run_ends all_rows = [hd all_rows] @ split_runs (tl all_rows) @ [last all_rows]"

definition getMacroOutlines :: "tap_row list list \<Rightarrow> outlines" where
  "getMacroOutlines rows = map (\<lambda>(k, all_rows). (k, run_ends all_rows)) (row_cuts rows)"

fun pairs_of :: "int list \<Rightarrow> (int \<times> int) list" where
  \<comment> \<open>\<open>outline[i]\<close> and \<open>outline[i + 1]\<close> for even \<open>i\<close>\<close>
  "pairs_of (a # b # rest) = (a, b) # pairs_of rest"
| "pairs_of _ = []"

end
