(* ===== verification/Tap_Organize.thy ===== *)
theory Tap_Organize
  imports Tap_Cut_Props Tap_Cells
begin

section \<open>The rows in order\<close>

text \<open>
  What \<open>organizeRows\<close> returns: the rows of the table by their lower edges and then by their left edges, one
  row for every corner. The tools that place cells walk over this arrangement.
\<close>

definition rows_of :: "tap_row dbTable \<Rightarrow> tap_row list" where
  "rows_of t = map (row_at t) (getObjects t)"

lemma set_rows_of: "table_ok t \<Longrightarrow> set (rows_of t) = ran (objs t)"
  by (auto simp: rows_of_def getObjects_result ran_objs)

lemma rows_by_y_group:
  assumes "table_ok t"
  shows "rows_by_y t = Inr (group_by row_yMin (rows_of t))"
proof -
  have "foldE (\<lambda>row m. bindE (getPtr t row) (\<lambda>r. Inr (map_mod (row_yMin r) [] (\<lambda>rs. rs @ [r]) m))) L m
      = Inr (fold (\<lambda>r. map_mod (row_yMin r) [] (\<lambda>l. l @ [r])) (map (row_at t) L) m)" if "set L \<subseteq> ids t" for L m
    using that by (induction L arbitrary: m) (auto simp: getPtr_row [OF assms])
  then show ?thesis by (simp add: rows_by_y_def group_by_def rows_of_def getObjects_result [OF assms])
qed

lemma insert_loop:
  assumes "keys_sorted m"
  shows "keys_sorted (fold (\<lambda>r. map_insert (f r) r) rs m)
     \<and> map_of (fold (\<lambda>r. map_insert (f r) r) rs m) k
       = (case map_of m k of Some v \<Rightarrow> Some v | None \<Rightarrow> find (\<lambda>r. f r = k) rs)"
  using assms
proof (induction rs arbitrary: m)
  case (Cons r rs)
  from Cons.IH [OF keys_sorted_insert [OF Cons.prems]] show ?case
    by (auto simp: map_of_insert [OF Cons.prems] split: option.splits)
qed (auto split: option.splits)

lemma rows_by_x_result:
  shows "sorted_wrt (<) (map row_xMin (rows_by_x rs))" "set (rows_by_x rs) \<subseteq> set rs"
    "r \<in> set rs \<Longrightarrow> \<exists>r' \<in> set (rows_by_x rs). row_xMin r' = row_xMin r"
proof -
  let ?m = "fold (\<lambda>r. map_insert (row_xMin r) r) rs []"
  have s: "keys_sorted ?m" using insert_loop [of "[]" row_xMin rs] by simp
  have m: "(k, v) \<in> set ?m \<longleftrightarrow> find (\<lambda>r. row_xMin r = k) rs = Some v" for k v
    using map_of_sorted_mem [OF s, of k v] insert_loop [of "[]" row_xMin rs k] by simp
  have e: "p \<in> set ?m \<Longrightarrow> row_xMin (snd p) = fst p \<and> snd p \<in> set rs" for p
    using m [of "fst p" "snd p"] by (auto simp: find_Some_iff)
  have "map row_xMin (rows_by_x rs) = map fst ?m" using e by (simp add: rows_by_x_def)
  then show "sorted_wrt (<) (map row_xMin (rows_by_x rs))" using s by (simp add: keys_sorted_def)
  show "set (rows_by_x rs) \<subseteq> set rs" using e by (auto simp: rows_by_x_def)
  show "\<exists>r' \<in> set (rows_by_x rs). row_xMin r' = row_xMin r" if "r \<in> set rs"
  proof -
    have "find (\<lambda>q. row_xMin q = row_xMin r) rs \<noteq> None" using that by (auto simp: find_None_iff)
    then obtain v where v: "find (\<lambda>q. row_xMin q = row_xMin r) rs = Some v" by blast
    then have "(row_xMin r, v) \<in> set ?m" using m by simp
    then show ?thesis using e by (force simp: rows_by_x_def)
  qed
qed

definition arranged :: "tap_row list list \<Rightarrow> bool" where
  \<comment> \<open>bottom to top, in each line left to right\<close>
  "arranged rows \<longleftrightarrow> [] \<notin> set rows \<and> (\<forall>rs \<in> set rows. sorted_wrt (<) (map row_xMin rs) \<and> (\<forall>r \<in> set rs. row_yMin r = row_yMin (hd rs)))
     \<and> sorted_wrt (<) (map (\<lambda>rs. row_yMin (hd rs)) rows)"

lemma organizeRows_eq:
  "table_ok t \<Longrightarrow> organizeRows t = Inr (map (\<lambda>(k, rs). rows_by_x rs) (group_by row_yMin (rows_of t)))"
  by (simp add: organizeRows_def rows_by_y_group)

text \<open>
  The rows are arranged bottom to top by their lower edges and left to right within each line; the rows of a
  line have one lower edge and no line is empty. Only rows of the block occur, and every row of the block
  has a row with its corner there; if no two rows have the same corner, the arrangement holds exactly the rows of the block.
\<close>

theorem organizeRows_arranges:
  assumes "table_ok t"
  shows "\<exists>rows. organizeRows t = Inr rows \<and> arranged rows \<and> set (concat rows) \<subseteq> ran (objs t)
     \<and> (\<forall>r \<in> ran (objs t). \<exists>r' \<in> set (concat rows). row_xMin r' = row_xMin r \<and> row_yMin r' = row_yMin r)
     \<and> (inj_on (\<lambda>r. (row_xMin r, row_yMin r)) (ran (objs t)) \<longrightarrow> set (concat rows) = ran (objs t))"
proof -
  let ?g = "group_by row_yMin (rows_of t)"
  let ?rows = "map (\<lambda>(k, rs). rows_by_x rs) ?g"
  have g: "(k, rs) \<in> set ?g \<Longrightarrow> rs = filter (\<lambda>r. row_yMin r = k) (rows_of t) \<and> rs \<noteq> []" for k rs
    by (auto simp: group_by_mem filter_empty_conv)
  have ne: "rows_by_x rs \<noteq> [] \<and> set (rows_by_x rs) \<subseteq> {r \<in> set (rows_of t). row_yMin r = k}" if "(k, rs) \<in> set ?g" for k rs
  proof -
    note m = that
    obtain r where "r \<in> set rs" using conjunct2 [OF g [OF m]] by (meson last_in_set)
    then have "rows_by_x rs \<noteq> []" using rows_by_x_result(3) [of r rs] by auto
    then show ?thesis using g [OF m] rows_by_x_result(2) [of rs] by auto
  qed
  have h: "row_yMin (hd (rows_by_x rs)) = k" if "(k, rs) \<in> set ?g" for k rs
    using ne [OF that] hd_in_set [of "rows_by_x rs"] by blast
  have e: "map (\<lambda>rs. row_yMin (hd rs)) ?rows = map fst ?g" using h by (auto simp: comp_def)
  have "sorted_wrt (<) (map (\<lambda>rs. row_yMin (hd rs)) ?rows)"
    unfolding e using group_by_sorted [of row_yMin "rows_of t"] unfolding keys_sorted_def .
  moreover have "\<forall>rs \<in> set ?rows. sorted_wrt (<) (map row_xMin rs) \<and> (\<forall>r \<in> set rs. row_yMin r = row_yMin (hd rs))"
    using ne h rows_by_x_result(1) by fastforce
  moreover have "[] \<notin> set ?rows" by (auto dest: ne)
  ultimately have a: "arranged ?rows" unfolding arranged_def by blast
  have s: "set (concat ?rows) \<subseteq> ran (objs t)" using ne set_rows_of [OF assms] by fastforce
  have c: "\<exists>r' \<in> set (concat ?rows). row_xMin r' = row_xMin r \<and> row_yMin r' = row_yMin r" if "r \<in> ran (objs t)" for r
  proof -
    let ?rs = "filter (\<lambda>q. row_yMin q = row_yMin r) (rows_of t)"
    have r: "r \<in> set (rows_of t)" using that set_rows_of [OF assms] by simp
    then have m: "(row_yMin r, ?rs) \<in> set ?g" by (simp add: group_by_mem)
    obtain r' where r': "r' \<in> set (rows_by_x ?rs)" "row_xMin r' = row_xMin r" using rows_by_x_result(3) [of r ?rs] r by auto
    have "row_yMin r' = row_yMin r" using ne [OF m] r'(1) by blast
    then show ?thesis using r' m by force
  qed
  have "set (concat ?rows) = ran (objs t)" if i: "inj_on (\<lambda>r. (row_xMin r, row_yMin r)) (ran (objs t))"
  proof (rule subset_antisym [OF s subsetI])
    fix r assume r: "r \<in> ran (objs t)"
    then obtain r' where r': "r' \<in> set (concat ?rows)" "row_xMin r' = row_xMin r" "row_yMin r' = row_yMin r" using c by blast
    then have "r' = r" using inj_onD [OF i _ subsetD [OF s r'(1)] r] by simp
    then show "r \<in> set (concat ?rows)" using r'(1) by simp
  qed
  then show ?thesis using a s c organizeRows_eq [OF assms] by blast
qed

theorem organizeRows_arranges_witness: "\<exists>t rows. ran (objs t) = {demo_tap_row} \<and> organizeRows t = Inr rows \<and> set (concat rows) = {demo_tap_row}"
proof -
  obtain t where t: "table_ok t" "ran (objs t) = {demo_tap_row}" using demo_row_table by blast
  show ?thesis using organizeRows_arranges [OF t(1)] t(2) by auto
qed

end
