(* ===== verification/Tap_Insert.thy ===== *)
theory Tap_Insert
  imports Tap_Organize
begin

section \<open>Inserting tap cells and endcaps\<close>

text \<open>
  The second part of \<open>tap/src/tapcell.cpp\<close>: \<open>insertEndcaps\<close>, \<open>insertAtTopBottom\<close>, \<open>insertAroundMacros\<close>,
  \<open>insertTapcells\<close> and \<open>run\<close>. The rows are those that \<open>organizeRows\<close> returns, a master is its index, a null pointer to a
  master is \<open>None\<close>. The counts that the functions report are the differences of \<open>phy_idx\<close>.
\<close>

subsection \<open>Endcaps\<close>

definition corner_masters :: "string \<Rightarrow> string \<Rightarrow> tap_db \<Rightarrow> (nat \<times> nat) option result" where
  \<comment> \<open>\<open>do_corners\<close> with the two masters\<close>
  "corner_masters nwin_master nwout_master st =
     (if nwin_master \<noteq> [] \<and> nwout_master \<noteq> [] then
        if nwin_master = ''INVALID'' \<or> nwout_master = ''INVALID'' then Inr None
        else bindE (needMaster 12 nwin_master st) (\<lambda>a. bindE (needMaster 13 nwout_master st) (\<lambda>b. Inr (Some (a, b))))
      else Inr None)"

definition endcap_pair :: "tap_row list list \<Rightarrow> nat \<Rightarrow> (nat \<times> nat) option \<Rightarrow> nat \<Rightarrow> tap_row \<Rightarrow> nat \<times> nat" where
  \<comment> \<open>\<open>left_master\<close> and \<open>right_master\<close>\<close>
  "endcap_pair rows endcap_master corners cur_row subrow =
     (case corners of
        None \<Rightarrow> (endcap_master, endcap_master)
      | Some (nwin, nwout) \<Rightarrow>
          (let pick = (\<lambda>loc. pickCornerMaster loc (row_orient subrow) nwin nwout endcap_master) in
           if int cur_row = int (length rows) - 1 then (pick BelowMacro, pick BelowMacro)
           else if cur_row = 0 then (pick AboveMacro, pick AboveMacro)
           else
             let rows_above = rows ! (cur_row + 1); rows_below = rows ! (cur_row - 1)
             in (pick (getLocationType (row_xMin subrow) rows_above rows_below),
                 pick (getLocationType (row_xMax subrow) rows_above rows_below))))"

definition mirrored :: "dbOrientType \<Rightarrow> dbOrientType" where
  \<comment> \<open>\<open>right_ori\<close>\<close>
  "mirrored row_ori = (if row_ori = MX then R180 else if row_ori = R0 then MY else row_ori)"

definition endcap_row :: "tap_row list list \<Rightarrow> nat \<Rightarrow> (nat \<times> nat) option \<Rightarrow> nat \<Rightarrow> tap_row \<Rightarrow> tap_db \<Rightarrow> tap_db result" where
  "endcap_row rows endcap_master corners cur_row subrow st =
     (if \<not> checkSymmetry st endcap_master (row_orient subrow) then Inr st
      else
        let row_bb = row_bbox subrow; row_ori = row_orient subrow;
            llx = xMin row_bb; urx = xMax row_bb;
            (left_master, right_master) = endcap_pair rows endcap_master corners cur_row subrow
        in if master_w st left_master > u32 (urx - llx) then Inr st
           else
             let lly = yMin row_bb in
             bindE (makeInstance left_master row_ori llx lly (endcap_prefix st) st) (\<lambda>st.
               let loc_2_x = urx - master_w st right_master;
                   loc_2_y = yMax row_bb - master_h st right_master
               in if llx = loc_2_x \<and> lly = loc_2_y then Inr st
                  else makeInstance right_master (mirrored row_ori) loc_2_x loc_2_y (endcap_prefix st) st))"

definition insertEndcaps :: "tap_row list list \<Rightarrow> nat \<Rightarrow> string \<Rightarrow> string \<Rightarrow> tap_db \<Rightarrow> tap_db result" where
  "insertEndcaps rows endcap_master nwin_master nwout_master st =
     bindE (corner_masters nwin_master nwout_master st) (\<lambda>corners.
       foldE (\<lambda>(cur_row, subrows). foldE (endcap_row rows endcap_master corners cur_row) subrows) (enumerate 0 rows) st)"

subsection \<open>Tap cells\<close>

text \<open>
  The loop over a row. Each position is rounded to a site before a cell is placed, so that a pitch below a site
  comes back to the same site: a step that does not advance is the fault \<open>NoReturn\<close>. (The code then makes
  cells at this place until a name is in use or a coordinate overflows.)
\<close>

function tap_positions :: "int \<Rightarrow> int \<Rightarrow> int \<Rightarrow> int \<Rightarrow> int \<Rightarrow> (int \<Rightarrow> tap_db \<Rightarrow> tap_db result) \<Rightarrow> tap_db \<Rightarrow> tap_db result" where
  \<comment> \<open>\<open>body\<close> is what is done at a position\<close>
  "tap_positions site_width llx urx pitch x body st =
     (if x < urx then
        bindE (makeSiteLoc x site_width True llx) (\<lambda>x'.
        bindE (body x' st) (\<lambda>st.
          if x' + pitch \<le> x then Inl NoReturn
          else tap_positions site_width llx urx pitch (x' + pitch) body st))
      else Inr st)"
  by pat_completeness auto
termination
  by (relation "measure (\<lambda>(site_width, llx, urx, pitch, x, body, st). nat (urx - x))") auto

declare tap_positions.simps [simp del]

definition tap_at :: "tap_row \<Rightarrow> nat \<Rightarrow> placement list \<Rightarrow> int \<Rightarrow> tap_db \<Rightarrow> tap_db result" where
  "tap_at row tapcell_master fills x st =
     (let ori = row_orient row in
      if checkIfFilled x (master_w st tapcell_master) ori fills then Inr st
      else makeInstance tapcell_master ori x (row_yMin row) (tap_prefix st) st)"

definition tap_offset_pitch :: "int \<Rightarrow> nat \<Rightarrow> nat \<Rightarrow> bool \<Rightarrow> int \<times> int" where
  \<comment> \<open>\<open>offset\<close> and \<open>pitch\<close> of a line\<close>
  "tap_offset_pitch dist n row_idx gaps_above_below =
     (let offset = (if row_idx mod 2 = 0 then dist else 2 * dist) in
      if row_idx = 0 \<or> row_idx = n - 1 \<or> gaps_above_below then (dist, dist) else (offset, 2 * dist))"

definition tap_row_cells ::
    "nat \<Rightarrow> int \<Rightarrow> nat \<Rightarrow> nat \<Rightarrow> bool \<Rightarrow> placement list \<Rightarrow> tap_row \<Rightarrow> tap_db \<Rightarrow> tap_db result" where
  "tap_row_cells tapcell_master dist n row_idx gaps_above_below fills row st =
     (if \<not> checkSymmetry st tapcell_master (row_orient row) then Inr st
      else
        let (offset, pitch) = tap_offset_pitch dist n row_idx gaps_above_below;
            llx = row_xMin row; urx = row_xMax row
        in tap_positions (s_width (getSite row)) llx urx pitch (llx + offset) (tap_at row tapcell_master fills) st)"

definition rows_with_macros :: "tap_row list list \<Rightarrow> int list" where
  \<comment> \<open>the lines below and above the macros; a set that loses each line when it is met\<close>
  "rows_with_macros rows =
     concat (map (\<lambda>(k, outline). concat (map (\<lambda>(bot_row, top_row).
         (if bot_row - 1 \<ge> 0 then [bot_row - 1] else [])
         @ (if top_row + 1 \<le> int (length rows) then [top_row + 1] else [])) (pairs_of outline)))
       (getMacroOutlines rows))"

definition insertTapcells :: "tap_row list list \<Rightarrow> nat \<Rightarrow> int \<Rightarrow> tap_db \<Rightarrow> tap_db result" where
  "insertTapcells rows tapcell_master dist st =
     (let row_fills = findRowFills st; with_macros = rows_with_macros rows in
      foldE (\<lambda>(row_idx, subrows) st.
          if subrows = [] then Inl OutOfBounds
          else
            let fills = row_fill_check row_fills (row_yMin (subrows ! 0));
                gaps_above_below = (int row_idx \<in> set with_macros)
            in foldE (tap_row_cells tapcell_master dist (length rows) row_idx gaps_above_below fills) subrows st)
        (enumerate 0 rows) st)"

subsection \<open>Boundary cells\<close>

text \<open>
  \<open>insertAtTopBottomHelper\<close> fills a stretch of a row: as many ties as fit, then cells of the third and of the second
  master. The count of the third master goes down until the second one divides the rest. The remainders
  repeat after as many steps as the second master is wide, so a loop that has not ended by then does not end.
\<close>

fun tb3_count :: "nat \<Rightarrow> int \<Rightarrow> int \<Rightarrow> int \<Rightarrow> int \<Rightarrow> int result" where
  \<comment> \<open>\<open>tb3tiecount\<close>, from the count and \<open>remaining_distance\<close>\<close>
  "tb3_count fuel w2 w3 tb3 remaining =
     (if w2 = 0 then Inl DivZero
      else if remaining smod w2 \<noteq> 0 \<and> remaining \<ge> 0 then
        (case fuel of
           0 \<Rightarrow> Inl NoReturn
         | Suc fuel \<Rightarrow> tb3_count fuel w2 w3 (tb3 - 1) (remaining + w3))
      else Inr tb3)"

declare tb3_count.simps [simp del]

definition tie_count :: "int \<Rightarrow> int \<Rightarrow> int \<Rightarrow> int" where
  \<comment> \<open>\<open>tbtiecount\<close> for a length, with room left for one cell of the second master\<close>
  "tie_count len tie_width w2 =
     (let tbtiecount = len sdiv tie_width;
          remaining_distance = len - tbtiecount * tie_width
      in if remaining_distance \<noteq> 0 \<and> remaining_distance < w2 then tbtiecount - 1 else tbtiecount)"

definition boundary_cell ::
    "nat \<Rightarrow> dbOrientType \<Rightarrow> int \<Rightarrow> placement list \<Rightarrow> string \<Rightarrow> int \<Rightarrow> tap_db \<Rightarrow> tap_db result" where
  "boundary_cell master ori lly fills prefix x st =
     (if checkSymmetry st master ori \<and> \<not> checkIfFilled x (master_w st master) ori fills
      then makeInstance master ori x lly prefix st else Inr st)"

primrec boundary_cells ::
    "nat \<Rightarrow> dbOrientType \<Rightarrow> int \<Rightarrow> placement list \<Rightarrow> string \<Rightarrow> int \<Rightarrow> nat \<Rightarrow> int \<Rightarrow> tap_db \<Rightarrow> (int \<times> tap_db) result" where
  \<comment> \<open>\<open>n\<close> cells from \<open>x\<close> on, and the position after them\<close>
  "boundary_cells master ori lly fills prefix width 0 x st = Inr (x, st)"
| "boundary_cells master ori lly fills prefix width (Suc n) x st =
     bindE (boundary_cell master ori lly fills prefix x st)
       (boundary_cells master ori lly fills prefix width n (x + width))"

function fill_with_2s ::
    "nat \<Rightarrow> dbOrientType \<Rightarrow> int \<Rightarrow> placement list \<Rightarrow> string \<Rightarrow> int \<Rightarrow> int \<Rightarrow> int \<Rightarrow> tap_db \<Rightarrow> tap_db result" where
  \<comment> \<open>the last loop: cells while \<open>x < x_end\<close>\<close>
  "fill_with_2s master ori lly fills prefix width x_end x st =
     (if x < x_end then
        bindE (boundary_cell master ori lly fills prefix x st) (\<lambda>st.
          if width \<le> 0 then Inl NoReturn else fill_with_2s master ori lly fills prefix width x_end (x + width) st)
      else Inr st)"
  by pat_completeness auto
termination
  by (relation "measure (\<lambda>(master, ori, lly, fills, prefix, width, x_end, x, st). nat (x_end - x))") auto

declare fill_with_2s.simps [simp del]

record boundary_masters =
  nwintie :: nat
  nwin2 :: nat
  nwin3 :: nat
  nwouttie :: nat
  nwout2 :: nat
  nwout3 :: nat

definition boundary_choice :: "bool \<Rightarrow> bool \<Rightarrow> dbOrientType \<Rightarrow> boundary_masters \<Rightarrow> nat \<times> nat \<times> nat" where
  \<comment> \<open>\<open>master\<close>, \<open>tb2_master\<close> and \<open>tb3_master\<close>; \<open>is_top\<close> is \<open>top_bottom == 1\<close>\<close>
  "boundary_choice is_top is_macro ori ms =
     (let inside = (if is_top then (ori = R0 \<and> is_macro) \<or> (ori = MX \<and> \<not> is_macro)
                    else (ori = MX \<and> is_macro) \<or> (ori = R0 \<and> \<not> is_macro))
      in if inside then (nwintie ms, nwin2 ms, nwin3 ms) else (nwouttie ms, nwout2 ms, nwout3 ms))"

definition insertAtTopBottomHelper ::
    "bool \<Rightarrow> bool \<Rightarrow> dbOrientType \<Rightarrow> int \<Rightarrow> int \<Rightarrow> int \<Rightarrow> boundary_masters \<Rightarrow> placement list \<Rightarrow> string \<Rightarrow> tap_db \<Rightarrow> tap_db result" where
  "insertAtTopBottomHelper is_top is_macro ori x_start x_end lly ms fills prefix st =
     (let (master, tb2_master, tb3_master) = boundary_choice is_top is_macro ori ms;
          tbtiewidth = master_w st master; w2 = master_w st tb2_master; w3 = master_w st tb3_master
      in if tbtiewidth = 0 then Inl DivZero
         else
           bindE (boundary_cells master ori lly fills prefix tbtiewidth (nat (tie_count (x_end - x_start) tbtiewidth w2)) x_start st)
             (\<lambda>(x, st).
           if w3 = 0 then Inl DivZero
           else
             let tb3tiecount = (x_end - x) sdiv w3 in
             bindE (tb3_count (nat w2) w2 w3 tb3tiecount (x_end - x - tb3tiecount * w3)) (\<lambda>tb3tiecount.
             bindE (boundary_cells tb3_master ori lly fills prefix w3 (nat tb3tiecount) x st) (\<lambda>(x, st).
             fill_with_2s tb2_master ori lly fills prefix w2 x_end x st))))"

definition insertAtTopBottom :: "tap_row list list \<Rightarrow> string list \<Rightarrow> nat option \<Rightarrow> string \<Rightarrow> tap_db \<Rightarrow> tap_db result" where
  "insertAtTopBottom rows masters endcap_master prefix st =
     (let name = (\<lambda>i. if length masters = 6 then masters ! i else []) in
      bindE (needMaster 18 (name 0) st) (\<lambda>nwintie.
      bindE (needMaster 19 (name 1) st) (\<lambda>nwin2.
      bindE (needMaster 20 (name 2) st) (\<lambda>nwin3.
      bindE (needMaster 21 (name 3) st) (\<lambda>nwouttie.
      bindE (needMaster 22 (name 4) st) (\<lambda>nwout2.
      bindE (needMaster 23 (name 5) st) (\<lambda>nwout3.
      let ms = \<lparr>nwintie = nwintie, nwin2 = nwin2, nwin3 = nwin3, nwouttie = nwouttie, nwout2 = nwout2, nwout3 = nwout3\<rparr>
      in if rows = [] then Inl OutOfBounds
         else
           let row_fills = findRowFills st in
           foldE (\<lambda>(cur_row, subrows). foldE (\<lambda>subrow st.
               case endcap_master of
                 None \<Rightarrow> Inl NullDeref
               | Some m \<Rightarrow>
                   insertAtTopBottomHelper (cur_row = 1) False (row_orient subrow)
                     (row_xMin subrow + master_w st m) (row_xMax subrow - master_w st m) (row_yMin subrow) ms
                     (row_fill_check row_fills (row_yMin subrow)) prefix st) subrows)
             [(0 :: nat, hd rows), (1, last rows)] st)))))))"

subsection \<open>Around macros\<close>

text \<open>
  The cells above or below one macro: the stretch between the cuts, then the two corners. The code for the
  row above and the code for the row below are the same up to the choice of the masters.
\<close>

definition corner_cell :: "nat \<Rightarrow> dbOrientType \<Rightarrow> int \<Rightarrow> int \<Rightarrow> placement list \<Rightarrow> string \<Rightarrow> tap_db \<Rightarrow> tap_db result" where
  "corner_cell incnr_master ori x y fills prefix st =
     (if checkSymmetry st incnr_master ori \<and> \<not> checkIfFilled x (master_w st incnr_master) ori fills
      then makeInstance incnr_master ori x y prefix st else Inr st)"

definition corner_choice :: "bool \<Rightarrow> dbOrientType \<Rightarrow> nat \<Rightarrow> nat \<Rightarrow> nat \<times> dbOrientType" where
  \<comment> \<open>\<open>incnr_master\<close> and \<open>west_ori\<close>\<close>
  "corner_choice is_top ori incnr_nwin incnr_nwout =
     (if is_top then (if ori = R0 then (incnr_nwin, MY) else (incnr_nwout, R180))
      else (if ori = MX then (incnr_nwin, R180) else (incnr_nwout, MY)))"

definition around_line ::
    "bool \<Rightarrow> tap_row list \<Rightarrow> int \<times> int \<Rightarrow> int \<Rightarrow> boundary_masters \<Rightarrow> nat \<Rightarrow> nat \<Rightarrow> (int \<times> placement list) list \<Rightarrow> string
     \<Rightarrow> tap_db \<Rightarrow> tap_db result" where
  "around_line is_top line x_start_end corner_cell_width ms incnr_nwin incnr_nwout row_fills prefix st =
     (if line = [] then Inl OutOfBounds
      else
        let first_row = hd line; ori = row_orient first_row; y = row_yMin first_row;
            fills = row_fill_check row_fills y;
            (x_start, x_end) = x_start_end;
            row_start = (if x_start = - 1 then row_xMin first_row + corner_cell_width else x_start);
            row_end = (if x_end = - 1 then row_xMax (last line) - corner_cell_width else x_end);
            (incnr_master, west_ori) = corner_choice is_top ori incnr_nwin incnr_nwout
        in bindE (insertAtTopBottomHelper is_top True ori row_start row_end y ms fills prefix st) (\<lambda>st.
           bindE (corner_cell incnr_master ori x_end y fills prefix st) (\<lambda>st.
           corner_cell incnr_master west_ori (x_start - master_w st incnr_master) y fills prefix st)))"

definition around_macro ::
    "tap_row list list \<Rightarrow> nat option \<Rightarrow> boundary_masters \<Rightarrow> nat \<Rightarrow> nat \<Rightarrow> string \<Rightarrow> int \<times> int \<Rightarrow> int \<times> int \<Rightarrow> tap_db \<Rightarrow> tap_db result" where
  "around_macro rows corner_master ms incnr_nwin incnr_nwout prefix x_start_end bot_top st =
     (let row_fills = findRowFills st;
          bot_row = fst bot_top - 1; top_row = snd bot_top + 1
      in case corner_master of
           None \<Rightarrow> Inl NullDeref
         | Some m \<Rightarrow>
             bindE (if top_row < int (length rows) - 1
                    then around_line True (rows ! nat top_row) x_start_end (master_w st m) ms incnr_nwin incnr_nwout row_fills prefix st
                    else Inr st) (\<lambda>st.
             if bot_row \<ge> 1
             then around_line False (rows ! nat bot_row) x_start_end (master_w st m) ms incnr_nwin incnr_nwout row_fills prefix st
             else Inr st))"

definition insertAroundMacros :: "tap_row list list \<Rightarrow> string list \<Rightarrow> nat option \<Rightarrow> string \<Rightarrow> tap_db \<Rightarrow> tap_db result" where
  "insertAroundMacros rows masters corner_master prefix st =
     (let name = (\<lambda>i. if length masters = 8 then masters ! i else []) in
      bindE (needMaster 24 (name 3) st) (\<lambda>nwintie.
      bindE (needMaster 25 (name 1) st) (\<lambda>nwin2.
      bindE (needMaster 26 (name 2) st) (\<lambda>nwin3.
      bindE (needMaster 27 (name 7) st) (\<lambda>nwouttie.
      bindE (needMaster 28 (name 5) st) (\<lambda>nwout2.
      bindE (needMaster 29 (name 6) st) (\<lambda>nwout3.
      bindE (needMaster 30 (name 0) st) (\<lambda>incnr_nwin.
      bindE (needMaster 31 (name 4) st) (\<lambda>incnr_nwout.
      let ms = \<lparr>nwintie = nwintie, nwin2 = nwin2, nwin3 = nwin3, nwouttie = nwouttie, nwout2 = nwout2, nwout3 = nwout3\<rparr>
      in foldE (\<lambda>(x_start_end, outline).
             foldE (around_macro rows corner_master ms incnr_nwin incnr_nwout prefix x_start_end) (pairs_of outline))
           (getMacroOutlines rows) st)))))))))"

subsection \<open>The tool\<close>

record tap_args =
  a_endcap_master :: "nat option"
  a_halo_x :: int
  a_halo_y :: int
  a_cnrcap_nwin :: string
  a_cnrcap_nwout :: string
  a_add_boundary_cell :: bool
  a_tap_nwintie :: string
  a_tap_nwin2 :: string
  a_tap_nwin3 :: string
  a_tap_nwouttie :: string
  a_tap_nwout2 :: string
  a_tap_nwout3 :: string
  a_incnrcap_nwin :: string
  a_incnrcap_nwout :: string
  a_tapcell_master :: "nat option"
  a_dist :: int

definition add_boundary :: "tap_args \<Rightarrow> tap_row list list \<Rightarrow> tap_db \<Rightarrow> tap_db result" where
  \<comment> \<open>the branch of \<open>run\<close> for \<open>add_boundary_cell\<close>\<close>
  "add_boundary a rows st =
     (let tap_nw_masters = [a_tap_nwintie a, a_tap_nwin2 a, a_tap_nwin3 a, a_tap_nwouttie a, a_tap_nwout2 a, a_tap_nwout3 a];
          tap_macro_masters = [a_incnrcap_nwin a, a_tap_nwin2 a, a_tap_nwin3 a, a_tap_nwintie a,
                               a_incnrcap_nwout a, a_tap_nwout2 a, a_tap_nwout3 a, a_tap_nwouttie a]
      in bindE (insertAtTopBottom rows tap_nw_masters (findMaster st (a_cnrcap_nwin a)) (endcap_prefix st) st) (\<lambda>st.
         insertAroundMacros rows tap_macro_masters (findMaster st (a_cnrcap_nwin a)) (endcap_prefix st) st))"

definition tap_run :: "(nat list \<Rightarrow> nat list) \<Rightarrow> tap_args \<Rightarrow> tap_db \<Rightarrow> tap_db result" where
  \<comment> \<open>\<open>Tapcell::run\<close>\<close>
  "tap_run ptr_order a st =
     (let blockages = findBlockages (blk st);
          endcap = map_option (\<lambda>m. b_masters (blk st) ! m) (a_endcap_master a)
      in bindE (cutRows ptr_order endcap blockages (a_halo_x a) (a_halo_y a) (row_tbl st)) (\<lambda>t.
         let st = st\<lparr>row_tbl := t\<rparr> in
         bindE (organizeRows t) (\<lambda>rows.
         bindE (case a_endcap_master a of None \<Rightarrow> Inr st
                | Some m \<Rightarrow> insertEndcaps rows m (a_cnrcap_nwin a) (a_cnrcap_nwout a) st) (\<lambda>st.
         bindE (if a_add_boundary_cell a then add_boundary a rows st else Inr st) (\<lambda>st.
         bindE (case a_tapcell_master a of None \<Rightarrow> Inr st
                | Some m \<Rightarrow> insertTapcells rows m (a_dist a) st) (\<lambda>st.
         Inr (st\<lparr>filled_sites := []\<rparr>)))))))"

end
