(* ===== verification/Tap_Endcaps.thy ===== *)
theory Tap_Endcaps
  imports Tap_Insert Tap_Cut_Props
begin

section \<open>What inserting cells does to the database\<close>

text \<open>
  All insertions go through \<open>makeInstance\<close>. \<open>make_all\<close> makes the cells of a list one after the other, and
  \<open>inserted\<close> says what the database is afterwards: the old instances followed by one locked instance for each cell with
  a position in the first quadrant, named with the running number, and their boxes in \<open>filled_sites\<close>.
\<close>

record tap_cell =
  c_master :: nat
  c_ori :: dbOrientType
  c_x :: int
  c_y :: int
  c_prefix :: string

definition insert_cell :: "tap_cell \<Rightarrow> tap_db \<Rightarrow> tap_db result" where
  "insert_cell c = makeInstance (c_master c) (c_ori c) (c_x c) (c_y c) (c_prefix c)"

definition make_all :: "tap_cell list \<Rightarrow> tap_db \<Rightarrow> tap_db result" where
  "make_all cs = foldE insert_cell cs"

lemma make_all_simps [simp]:
  "make_all [] st = Inr st"
  "make_all (c # cs) st = bindE (insert_cell c st) (make_all cs)"
  by (simp_all add: make_all_def)

lemma make_all_append: "make_all (cs @ ds) st = bindE (make_all cs st) (make_all ds)"
  by (simp add: make_all_def foldE_append)

subsection \<open>The new instances\<close>

definition tap_inst :: "dbMaster list \<Rightarrow> nat \<Rightarrow> tap_cell \<Rightarrow> dbInst" where
  "tap_inst Ms k c =
     (let m = Ms ! c_master c in
      (setLocation m (c_x c) (c_y c) (setOrient m (c_ori c)
        \<lparr>i_name = c_prefix c @ to_string k, i_master = c_master c, i_x = 0, i_y = 0, i_orient = R0, i_status = PS_NONE, i_source = SRC_NONE,
         i_bbox = rect_init 0 0 (m_width m) (m_height m), i_iterms = replicate (length (m_mterms m)) None\<rparr>))\<lparr>i_status := PS_LOCKED, i_source := SRC_DIST\<rparr>)"

fun cell_insts :: "dbMaster list \<Rightarrow> nat \<Rightarrow> tap_cell list \<Rightarrow> dbInst list" where
  "cell_insts Ms k [] = []"
| "cell_insts Ms k (c # cs) = tap_inst Ms k c # cell_insts Ms (Suc k) cs"

lemma cell_insts_append: "cell_insts Ms k (cs @ ds) = cell_insts Ms k cs @ cell_insts Ms (k + length cs) ds"
  by (induction cs arbitrary: k) auto

lemma length_cell_insts [simp]: "length (cell_insts Ms k cs) = length cs"
  by (induction cs arbitrary: k) auto

lemma nth_cell_insts: "i < length cs \<Longrightarrow> cell_insts Ms k cs ! i = tap_inst Ms (k + i) (cs ! i)"
  by (induction cs arbitrary: k i) (auto simp: nth_Cons split: nat.splits)

definition box_fill :: "Rect \<Rightarrow> FilledSites" where
  "box_fill r = \<lparr>fs_yMin = yMin r, fs_xMin = xMin r, fs_xMax = xMax r\<rparr>"

lemma cell_inst_sel [simp]:
  "i_name (tap_inst Ms k c) = c_prefix c @ to_string k" "i_master (tap_inst Ms k c) = c_master c"
  "i_orient (tap_inst Ms k c) = c_ori c" "i_status (tap_inst Ms k c) = PS_LOCKED" "i_source (tap_inst Ms k c) = SRC_DIST"
  by (simp_all add: tap_inst_def Let_def)

text \<open>The box of a new instance of a master whose origin is its lower left corner.\<close>

definition plain_master :: "dbMaster \<Rightarrow> bool" where
  "plain_master m \<longleftrightarrow> m_x m = 0 \<and> m_y m = 0 \<and> 0 < m_width m \<and> 0 < m_height m"

definition upright :: "dbOrientType \<Rightarrow> bool" where
  "upright ori \<longleftrightarrow> ori \<in> {R0, MX, MY, R180}"

lemma cell_inst_box:
  assumes "plain_master (Ms ! c_master c)" "upright (c_ori c)"
  shows "i_bbox (tap_inst Ms k c)
    = Rect (c_x c) (c_y c) (c_x c + m_width (Ms ! c_master c)) (c_y c + m_height (Ms ! c_master c))"
proof -
  let ?m = "Ms ! c_master c"
  let ?b = "\<lparr>i_name = c_prefix c @ to_string k, i_master = c_master c, i_x = 0, i_y = 0, i_orient = R0, i_status = PS_NONE, i_source = SRC_NONE,
         i_bbox = rect_init 0 0 (m_width ?m) (m_height ?m), i_iterms = replicate (length (m_mterms ?m)) None\<rparr>"
  have b: "inst_wf ?m ?b"
    using assms(1)
    by (auto simp: inst_wf_def plain_master_def getTransform_def getPlacementBoundary_def transform_apply_rect_def transform_apply_def
        transform_of_offset_def rect_init_def rect_ll_def rect_ur_def Let_def)
  define i where "i = setLocation ?m (c_x c) (c_y c) (setOrient ?m (c_ori c) ?b)"
  have w: "inst_wf ?m i" unfolding i_def by (intro setLocation_wf setOrient_wf b)
  have l: "xMin (i_bbox i) = c_x c" "yMin (i_bbox i) = c_y c"
    using getLocation_setLocation [OF setOrient_wf [OF b]] by (simp_all add: i_def getLocation_def)
  have "i_orient i = c_ori c" by (simp add: i_def)
  then have "xMax (transform_apply_rect (getTransform i) (getPlacementBoundary ?m))
      = xMin (transform_apply_rect (getTransform i) (getPlacementBoundary ?m)) + m_width ?m
     \<and> yMax (transform_apply_rect (getTransform i) (getPlacementBoundary ?m))
      = yMin (transform_apply_rect (getTransform i) (getPlacementBoundary ?m)) + m_height ?m"
    using assms
    by (auto simp: upright_def plain_master_def getTransform_def getPlacementBoundary_def transform_apply_rect_def transform_apply_def
        transform_of_offset_def rect_init_def rect_ll_def rect_ur_def Let_def)
  then have "i_bbox i = Rect (c_x c) (c_y c) (c_x c + m_width ?m) (c_y c + m_height ?m)"
    using w l unfolding inst_wf_def by (intro Rect.expand) simp
  then show ?thesis by (simp add: tap_inst_def Let_def i_def)
qed

subsection \<open>The database afterwards\<close>

definition in_quadrant :: "tap_cell \<Rightarrow> bool" where
  "in_quadrant c \<longleftrightarrow> 0 \<le> c_x c \<and> 0 \<le> c_y c"

definition inserted :: "tap_db \<Rightarrow> tap_cell list \<Rightarrow> tap_db \<Rightarrow> bool" where
  "inserted st cs st' \<longleftrightarrow>
     (\<exists>hdrs. st' = st\<lparr>
        blk := (blk st)\<lparr>b_inst_hdrs := hdrs, b_insts := b_insts (blk st) @ cell_insts (b_masters (blk st)) (phy_idx st) cs\<rparr>,
        filled_sites := filled_sites st @ map (\<lambda>i. box_fill (i_bbox i)) (cell_insts (b_masters (blk st)) (phy_idx st) cs),
        phy_idx := phy_idx st + length cs\<rparr>)
     \<and> (\<forall>c \<in> set cs. in_quadrant c)
     \<and> (distinct (map i_name (b_insts (blk st))) \<longrightarrow> distinct (map i_name (b_insts (blk st'))))"

lemma insertedE:
  assumes "inserted st cs st'"
  obtains hdrs where "st' = st\<lparr>
        blk := (blk st)\<lparr>b_inst_hdrs := hdrs, b_insts := b_insts (blk st) @ cell_insts (b_masters (blk st)) (phy_idx st) cs\<rparr>,
        filled_sites := filled_sites st @ map (\<lambda>i. box_fill (i_bbox i)) (cell_insts (b_masters (blk st)) (phy_idx st) cs),
        phy_idx := phy_idx st + length cs\<rparr>"
    "\<forall>c \<in> set cs. in_quadrant c" "distinct (map i_name (b_insts (blk st))) \<longrightarrow> distinct (map i_name (b_insts (blk st')))"
  using assms unfolding inserted_def by blast

lemma inserted_sel:
  assumes "inserted st cs st'"
  shows "b_masters (blk st') = b_masters (blk st)" "symmetries st' = symmetries st" "master_names st' = master_names st"
    "row_tbl st' = row_tbl st" "tap_prefix st' = tap_prefix st" "endcap_prefix st' = endcap_prefix st"
    "phy_idx st' = phy_idx st + length cs"
    "b_insts (blk st') = b_insts (blk st) @ cell_insts (b_masters (blk st)) (phy_idx st) cs"
    "filled_sites st' = filled_sites st @ map (\<lambda>i. box_fill (i_bbox i)) (cell_insts (b_masters (blk st)) (phy_idx st) cs)"
  by (rule insertedE [OF assms]; simp)+

lemma inserted_nil: "inserted st [] st"
  unfolding inserted_def by (intro conjI exI [of _ "b_inst_hdrs (blk st)"]) auto

lemma inserted_trans:
  assumes "inserted st cs st'" "inserted st' ds st''"
  shows "inserted st (cs @ ds) st''"
proof -
  obtain h1 where 1: "st' = st\<lparr>
        blk := (blk st)\<lparr>b_inst_hdrs := h1, b_insts := b_insts (blk st) @ cell_insts (b_masters (blk st)) (phy_idx st) cs\<rparr>,
        filled_sites := filled_sites st @ map (\<lambda>i. box_fill (i_bbox i)) (cell_insts (b_masters (blk st)) (phy_idx st) cs),
        phy_idx := phy_idx st + length cs\<rparr>"
    using assms(1) by (rule insertedE)
  obtain h2 where 2: "st'' = st'\<lparr>
        blk := (blk st')\<lparr>b_inst_hdrs := h2, b_insts := b_insts (blk st') @ cell_insts (b_masters (blk st')) (phy_idx st') ds\<rparr>,
        filled_sites := filled_sites st' @ map (\<lambda>i. box_fill (i_bbox i)) (cell_insts (b_masters (blk st')) (phy_idx st') ds),
        phy_idx := phy_idx st' + length ds\<rparr>"
    using assms(2) by (rule insertedE)
  have "\<exists>hdrs. st'' = st\<lparr>
        blk := (blk st)\<lparr>b_inst_hdrs := hdrs, b_insts := b_insts (blk st) @ cell_insts (b_masters (blk st)) (phy_idx st) (cs @ ds)\<rparr>,
        filled_sites := filled_sites st @ map (\<lambda>i. box_fill (i_bbox i)) (cell_insts (b_masters (blk st)) (phy_idx st) (cs @ ds)),
        phy_idx := phy_idx st + length (cs @ ds)\<rparr>"
    unfolding 2 unfolding 1 by (intro exI [of _ h2]) (simp add: cell_insts_append)
  then show ?thesis using assms unfolding inserted_def by auto
qed

lemma insert_cell_inserted:
  assumes "insert_cell c st = Inr st'"
  shows "inserted st (filter in_quadrant [c]) st'"
proof (cases "in_quadrant c")
  case False
  then show ?thesis using assms inserted_nil by (auto simp: insert_cell_def makeInstance_def in_quadrant_def split: if_splits)
next
  case True
  let ?name = "c_prefix c @ to_string (phy_idx st)"
  obtain b i where c: "inst_create (blk st) (c_master c) ?name = Some (b, i)"
    using assms True by (auto simp: insert_cell_def makeInstance_def in_quadrant_def Let_def split: option.splits)
  let ?m = "b_masters (blk st) ! c_master c"
  obtain hdrs where b: "b = (blk st)\<lparr>b_inst_hdrs := hdrs, b_insts := b_insts (blk st) @
        [\<lparr>i_name = ?name, i_master = c_master c, i_x = 0, i_y = 0, i_orient = R0, i_status = PS_NONE, i_source = SRC_NONE,
          i_bbox = rect_init 0 0 (m_width ?m) (m_height ?m), i_iterms = replicate (length (m_mterms ?m)) None\<rparr>]\<rparr>"
      "i = length (b_insts (blk st))" and n: "?name \<notin> i_name ` set (b_insts (blk st))"
    using c by (rule inst_create_Some)
  have "st' = st\<lparr>
        blk := (blk st)\<lparr>b_inst_hdrs := hdrs, b_insts := b_insts (blk st) @ cell_insts (b_masters (blk st)) (phy_idx st) [c]\<rparr>,
        filled_sites := filled_sites st @ map (\<lambda>i. box_fill (i_bbox i)) (cell_insts (b_masters (blk st)) (phy_idx st) [c]),
        phy_idx := phy_idx st + length [c]\<rparr>"
    using assms c True
    by (simp add: insert_cell_def makeInstance_def in_quadrant_def Let_def b upd_inst_def inst_of_def tap_inst_def box_fill_def)
  then show ?thesis using True n unfolding inserted_def b(2)
    by (intro conjI exI [of _ hdrs]) auto
qed

lemma make_all_inserted:
  assumes "make_all cs st = Inr st'"
  shows "inserted st (filter in_quadrant cs) st'"
  using assms
proof (induction cs arbitrary: st)
  case Nil
  then show ?case using inserted_nil by simp
next
  case (Cons c cs)
  then obtain st1 where "insert_cell c st = Inr st1" "make_all cs st1 = Inr st'" by auto
  then show ?case using inserted_trans [OF insert_cell_inserted Cons.IH, of c st st1] by (auto split: if_splits)
qed

text \<open>The masters and symmetries, which no insertion changes.\<close>

definition same_env :: "tap_db \<Rightarrow> tap_db \<Rightarrow> bool" where
  "same_env st st' \<longleftrightarrow> b_masters (blk st') = b_masters (blk st) \<and> symmetries st' = symmetries st \<and> master_names st' = master_names st
     \<and> tap_prefix st' = tap_prefix st \<and> endcap_prefix st' = endcap_prefix st"

lemma same_env_refl [simp]: "same_env st st"
  by (simp add: same_env_def)

lemma same_env_trans: "same_env st st' \<Longrightarrow> same_env st' st'' \<Longrightarrow> same_env st st''"
  by (simp add: same_env_def)

lemma inserted_env: "inserted st cs st' \<Longrightarrow> same_env st st'"
  by (simp add: same_env_def inserted_sel)

lemma env_funs:
  "same_env st st' \<Longrightarrow> master_w st' = master_w st" "same_env st st' \<Longrightarrow> master_h st' = master_h st"
  "same_env st st' \<Longrightarrow> checkSymmetry st' = checkSymmetry st" "same_env st st' \<Longrightarrow> findMaster st' = findMaster st"
  "same_env st st' \<Longrightarrow> needMaster n nm st' = needMaster n nm st"
  "same_env st st' \<Longrightarrow> endcap_prefix st' = endcap_prefix st" "same_env st st' \<Longrightarrow> tap_prefix st' = tap_prefix st"
  by (auto simp: fun_eq_iff master_w_def master_h_def checkSymmetry_def findMaster_def needMaster_def same_env_def)

text \<open>A loop whose steps make cells that depend on the element only makes the cells of all elements.\<close>

lemma make_loop:
  assumes "same_env e st" "\<And>x st. x \<in> set xs \<Longrightarrow> same_env e st \<Longrightarrow> f x st = make_all (plan x) st"
  shows "foldE f xs st = make_all (concat (map plan xs)) st"
  using assms
proof (induction xs arbitrary: st)
  case (Cons x xs)
  have f: "f x st = make_all (plan x) st" using Cons.prems by simp
  show ?case
  proof (cases "make_all (plan x) st")
    case (Inr st1)
    have "same_env e st1" using same_env_trans [OF Cons.prems(1) inserted_env [OF make_all_inserted [OF Inr]]] .
    then have "foldE f xs st1 = make_all (concat (map plan xs)) st1" using Cons.IH Cons.prems(2) by simp
    then show ?thesis using f Inr by (simp add: make_all_append)
  qed (simp add: f make_all_append)
qed simp

section \<open>The endcaps of the rows\<close>

text \<open>
  What \<open>insertEndcaps\<close> leaves in the database: the endcaps of a row are planned from the row alone (\<open>endcap_plan\<close>),
  inserting them is making the planned cells, and the boxes of the new instances touch the ends of the rows.
\<close>

subsection \<open>The planned cells\<close>

definition endcap_plan :: "tap_db \<Rightarrow> tap_row list list \<Rightarrow> nat \<Rightarrow> (nat \<times> nat) option \<Rightarrow> nat \<Rightarrow> tap_row \<Rightarrow> tap_cell list" where
  "endcap_plan e rows m corners cur_row r =
     (let (lm, rm) = endcap_pair rows m corners cur_row r;
          lc = \<lparr>c_master = lm, c_ori = row_orient r, c_x = row_xMin r, c_y = row_yMin r, c_prefix = endcap_prefix e\<rparr>;
          rc = \<lparr>c_master = rm, c_ori = mirrored (row_orient r), c_x = row_xMax r - master_w e rm, c_y = yMax (row_bbox r) - master_h e rm,
                c_prefix = endcap_prefix e\<rparr>
      in if \<not> checkSymmetry e m (row_orient r) \<or> u32 (row_xMax r - row_xMin r) < master_w e lm then []
         else if c_x rc = c_x lc \<and> c_y rc = c_y lc then [lc] else [lc, rc])"

lemma make_all_Nil: "bindE x (make_all []) = x"
  by (cases x) auto

lemma endcap_row_plan:
  assumes "same_env e st"
  shows "endcap_row rows m corners k r st = make_all (endcap_plan e rows m corners k r) st"
proof -
  obtain lm rm where p: "endcap_pair rows m corners k r = (lm, rm)" by fastforce
  let ?lc = "\<lparr>c_master = lm, c_ori = row_orient r, c_x = row_xMin r, c_y = row_yMin r, c_prefix = endcap_prefix e\<rparr>"
  note env = env_funs [OF assms]
  show ?thesis
  proof (cases "\<not> checkSymmetry e m (row_orient r) \<or> u32 (row_xMax r - row_xMin r) < master_w e lm")
    case True
    then show ?thesis by (auto simp: endcap_row_def endcap_plan_def p env)
  next
    case False
    have l: "endcap_row rows m corners k r st = bindE (insert_cell ?lc st) (\<lambda>st1.
        let x = row_xMax r - master_w st1 rm; y = yMax (row_bbox r) - master_h st1 rm
        in if row_xMin r = x \<and> row_yMin r = y then Inr st1
           else makeInstance rm (mirrored (row_orient r)) x y (endcap_prefix st1) st1)"
      using False by (simp add: endcap_row_def p env insert_cell_def Let_def)
    show ?thesis
    proof (cases "insert_cell ?lc st")
      case (Inr st1)
      have "same_env e st1" using same_env_trans [OF assms inserted_env [OF insert_cell_inserted [OF Inr]]] .
      note env1 = env_funs [OF this]
      show ?thesis
        using False unfolding l endcap_plan_def p
        by (simp add: Inr env1 Let_def) (auto simp: insert_cell_def make_all_Nil)
    qed (use False in \<open>simp add: l endcap_plan_def p Let_def\<close>)
  qed
qed

definition endcap_plans :: "tap_db \<Rightarrow> tap_row list list \<Rightarrow> nat \<Rightarrow> (nat \<times> nat) option \<Rightarrow> tap_cell list" where
  "endcap_plans e rows m corners = concat (map (\<lambda>(k, rs). concat (map (endcap_plan e rows m corners k) rs)) (enumerate 0 rows))"

lemma insertEndcaps_plan:
  assumes "corner_masters nwin nwout st = Inr corners"
  shows "insertEndcaps rows m nwin nwout st = make_all (endcap_plans st rows m corners) st"
proof -
  have "foldE (endcap_row rows m corners k) rs st1 = make_all (concat (map (endcap_plan st rows m corners k) rs)) st1"
    if "same_env st st1" for k rs st1
    using that by (intro make_loop [of st]) (simp_all add: endcap_row_plan)
  then have "foldE (\<lambda>(cur_row, subrows). foldE (endcap_row rows m corners cur_row) subrows) (enumerate 0 rows) st
      = make_all (endcap_plans st rows m corners) st"
    unfolding endcap_plans_def by (intro make_loop [of st]) auto
  then show ?thesis by (simp add: insertEndcaps_def assms)
qed

lemma corner_masters_valid:
  assumes "corner_masters nwin nwout st = Inr corners" "m < length (master_names st)"
    and "endcap_pair rows m corners k r = (lm, rm)"
  shows "lm < length (master_names st) \<and> rm < length (master_names st)" "corners = None \<Longrightarrow> lm = m \<and> rm = m"
proof -
  have f: "needMaster n name st = Inr i \<Longrightarrow> i < length (master_names st)" for n name i
    by (auto simp: needMaster_def findMaster_def find_Some_iff split: option.splits)
  have pick: "pickCornerMaster loc ori a b m < length (master_names st)"
    if "a < length (master_names st)" "b < length (master_names st)" for loc ori a b
    using that assms(2) by (cases loc) auto
  show "lm < length (master_names st) \<and> rm < length (master_names st)"
  proof (cases corners)
    case (Some ab)
    obtain a b where ab: "ab = (a, b)" by fastforce
    have "a < length (master_names st)" "b < length (master_names st)"
      using assms(1) f by (auto simp: corner_masters_def Some ab split: if_splits)
    then show ?thesis using assms(3) pick by (auto simp: endcap_pair_def Some ab Let_def split: if_splits)
  qed (use assms in \<open>auto simp: endcap_pair_def\<close>)
  show "corners = None \<Longrightarrow> lm = m \<and> rm = m" using assms(3) by (simp add: endcap_pair_def)
qed

subsection \<open>The boxes\<close>

definition about_y :: "dbOrientType \<Rightarrow> dbOrientType" where
  \<comment> \<open>the mirror image of an upright row or of one that is mirrored about the x axis; others stay as they are\<close>
  "about_y ori = (case ori of R0 \<Rightarrow> MY | MX \<Rightarrow> R180 | _ \<Rightarrow> ori)"

lemma mirrored_about_y: "mirrored = about_y"
  by (simp add: fun_eq_iff mirrored_def about_y_def split: dbOrientType.split)

definition admits :: "bool \<times> bool \<Rightarrow> dbOrientType \<Rightarrow> bool" where
  \<comment> \<open>a master with these symmetries about the x axis and about the y axis may have the orientation\<close>
  "admits axes ori \<longleftrightarrow> ori = R0 \<or> ori = MX \<and> fst axes \<or> ori = MY \<and> snd axes \<or> ori = R180 \<and> fst axes \<and> snd axes"

lemma checkSymmetry_admits: "checkSymmetry st m ori \<longleftrightarrow> admits (symmetries st ! m) ori"
  by (cases ori) (auto simp: checkSymmetry_def admits_def split: prod.split)

definition at_end :: "tap_row \<Rightarrow> dbInst \<Rightarrow> bool" where
  \<comment> \<open>at the left end of the row and as it, or at the right end and mirrored\<close>
  "at_end r i \<longleftrightarrow>
     i_orient i = row_orient r \<and> xMin (i_bbox i) = row_xMin r \<and> yMin (i_bbox i) = row_yMin r
   \<or> i_orient i = about_y (row_orient r) \<and> xMax (i_bbox i) = row_xMax r \<and> yMax (i_bbox i) = yMax (row_bbox r)"

definition caps_of :: "tap_db \<Rightarrow> nat \<Rightarrow> tap_row \<Rightarrow> (dbOrientType \<times> Rect) list" where
  \<comment> \<open>orientations and boxes of the caps that a row should get: none if the master may not be turned that way or does not
      fit, one if it covers the row, otherwise one at each end\<close>
  "caps_of st m r =
     (let w = master_w st m; h = master_h st m; bb = row_bbox r;
          left = Rect (xMin bb) (yMin bb) (xMin bb + w) (yMin bb + h);
          right = Rect (xMax bb - w) (yMax bb - h) (xMax bb) (yMax bb)
      in if admits (symmetries st ! m) (row_orient r) \<and> w \<le> xMax bb - xMin bb
         then (row_orient r, left) # (if right = left then [] else [(about_y (row_orient r), right)])
         else [])"

definition cap_rows_ok :: "tap_row list list \<Rightarrow> bool" where
  \<comment> \<open>rows of whole sites in the first quadrant\<close>
  "cap_rows_ok rows \<longleftrightarrow> (\<forall>r \<in> set (concat rows). site_row r \<and> 0 \<le> row_x r \<and> 0 \<le> row_y r \<and> row_site_cnt r * site_w r < 4294967296)"

lemma cap_row_box:
  assumes "cap_rows_ok rows" "r \<in> set (concat rows)"
  shows "0 \<le> row_xMin r" "0 \<le> row_yMin r" "u32 (row_xMax r - row_xMin r) = row_xMax r - row_xMin r"
    "upright (row_orient r)" "upright (mirrored (row_orient r))" "row_xMin r \<le> row_xMax r"
proof -
  have r: "site_row r" "0 \<le> row_x r" "0 \<le> row_y r" "row_site_cnt r * site_w r < 4294967296"
    using assms by (auto simp: cap_rows_ok_def)
  have w: "0 \<le> row_site_cnt r * site_w r" using r(1) by (simp add: site_row_def)
  note b = row_bbox_site_row [OF r(1)]
  show "0 \<le> row_xMin r" "0 \<le> row_yMin r" "u32 (row_xMax r - row_xMin r) = row_xMax r - row_xMin r" "row_xMin r \<le> row_xMax r"
    using r(2-4) w by (simp_all add: b u32_id)
  show "upright (row_orient r)" "upright (mirrored (row_orient r))"
    using r(1) by (auto simp: site_row_def upright_def mirrored_def)
qed

lemma endcap_plan_cell:
  assumes "c \<in> set (endcap_plans e rows m corners)"
  shows "\<exists>k. \<exists>r \<in> set (concat rows). c \<in> set (endcap_plan e rows m corners k r)"
proof -
  obtain k rs where "(k, rs) \<in> set (enumerate 0 rows)" "c \<in> set (concat (map (endcap_plan e rows m corners k) rs))"
    using assms by (auto simp: endcap_plans_def)
  moreover from this(1) have "rs \<in> set rows" by (auto simp: in_set_enumerate_eq)
  ultimately show ?thesis by auto
qed

lemma endcap_plans_plain:
  "endcap_plans e rows m None = concat (map (endcap_plan e rows m None 0) (concat rows))"
proof -
  define f where "f = endcap_plan e rows m None 0"
  have k: "endcap_plan e rows m None k = f" for k
    by (simp add: f_def fun_eq_iff endcap_plan_def endcap_pair_def)
  have "map (\<lambda>(k, rs). g rs) (enumerate n xs) = map g xs" for g :: "tap_row list \<Rightarrow> tap_cell list" and n xs
    by (induction xs arbitrary: n) auto
  then have "map (\<lambda>(k, rs). concat (map f rs)) (enumerate 0 rows) = map (\<lambda>rs. concat (map f rs)) rows" .
  moreover have "concat (map (\<lambda>rs. concat (map f rs)) xss) = concat (map f (concat xss))" for xss
    by (induction xss) auto
  ultimately show ?thesis unfolding endcap_plans_def k by simp
qed

lemma cell_inst_at_end:
  assumes "plain_master (b_masters (blk e) ! c_master c)" "c \<in> set (endcap_plan e rows m corners k r)"
    and "cap_rows_ok rows" "r \<in> set (concat rows)"
  shows "at_end r (tap_inst (b_masters (blk e)) n c)"
proof -
  note b = cap_row_box [OF assms(3,4)]
  have "upright (c_ori c)" using assms(2) b(4,5) by (auto simp: endcap_plan_def Let_def split: prod.splits if_splits)
  note box = cell_inst_box [OF assms(1) this, of n]
  show ?thesis
    using assms(2) by (auto simp: at_end_def box mirrored_about_y endcap_plan_def Let_def master_w_def master_h_def split: prod.splits if_splits)
qed

lemma endcap_plan_caps:
  assumes "cap_rows_ok rows" "r \<in> set (concat rows)"
  shows "map (\<lambda>c. (c_ori c, Rect (c_x c) (c_y c) (c_x c + master_w e (c_master c)) (c_y c + master_h e (c_master c))))
      (endcap_plan e rows m None k r) = caps_of e m r"
  using cap_row_box [OF assms]
  by (auto simp: endcap_plan_def endcap_pair_def caps_of_def mirrored_about_y checkSymmetry_admits Let_def)

lemma endcap_plan_quadrant:
  assumes "cap_rows_ok rows" "r \<in> set (concat rows)"
    and "c \<in> set (endcap_plan e rows m None k r)" "master_h e m \<le> yMax (row_bbox r)"
  shows "c_master c = m \<and> in_quadrant c \<and> upright (c_ori c)"
proof -
  note b = cap_row_box [OF assms(1,2)]
  have w: "master_w e m \<le> row_xMax r" and c: "c_master c = m"
    "c_x c = row_xMin r \<and> c_y c = row_yMin r \<and> c_ori c = row_orient r
     \<or> c_x c = row_xMax r - master_w e m \<and> c_y c = yMax (row_bbox r) - master_h e m \<and> c_ori c = mirrored (row_orient r)"
    using assms(3) b(1,3) by (auto simp: endcap_plan_def endcap_pair_def Let_def split: if_splits)
  from c(2) show ?thesis using w c(1) b(1,2,4,5) assms(4) by (auto simp: in_quadrant_def)
qed

lemma map_cell_insts:
  assumes "\<forall>c \<in> set cs. plain_master (Ms ! c_master c) \<and> upright (c_ori c)"
  shows "map (\<lambda>i. (i_orient i, i_bbox i)) (cell_insts Ms k cs)
    = map (\<lambda>c. (c_ori c, Rect (c_x c) (c_y c) (c_x c + m_width (Ms ! c_master c)) (c_y c + m_height (Ms ! c_master c)))) cs"
  using assms by (induction cs arbitrary: k) (simp_all add: cell_inst_box)

lemma cell_insts_mem: "i \<in> set (cell_insts Ms k cs) \<Longrightarrow> \<exists>n. \<exists>c \<in> set cs. i = tap_inst Ms n c"
  using nth_mem by (fastforce simp: in_set_conv_nth nth_cell_insts)

subsection \<open>The property\<close>


definition demo_tap_db :: tap_db where
  "demo_tap_db =
     \<lparr>phy_idx = 0, filled_sites = [], tap_prefix = ''TAP_'', endcap_prefix = ''PHY_'',
      blk = \<lparr>b_masters = [\<lparr>m_type = MT_ENDCAP, m_x = 0, m_y = 0, m_width = 20, m_height = 100, m_obstructions = [], m_mterms = []\<rparr>],
             b_inst_hdrs = [], b_insts = [], b_rows = [], b_regions = [], b_nets = [], b_die_area = rect_init 0 0 2000 2000\<rparr>,
      row_tbl = dbTable_new 128 7, master_names = [''ENDCAP''], symmetries = [(True, True)]\<rparr>"

lemma demo_endcaps:
  "map_sum id (\<lambda>st. map (\<lambda>i. (i_name i, i_bbox i)) (b_insts (blk st))) (insertEndcaps [[demo_tap_row]] 0 [] [] demo_tap_db)
   = Inr [(''PHY_0'', Rect 0 0 20 100), (''PHY_1'', Rect 980 0 1000 100)]"
  by code_simp


end
