(* ===== verification/Spec2Isabelle.thy ===== *)
theory Spec2Isabelle
  imports Dpl_Filler_Props Dpl_Mirror_Props Odb_Hash_Props Odb_Wire_Props Odb_Journal_Props Odb_Net_Eco Odb_Enums Tap_Endcaps Tap_Organize
begin

section \<open>A verification of the placement database, the detailed placer and the tap cell tool of OpenROAD\<close>

text \<open>
  OpenROAD is a chain of tools around one database, OpenDB (\<open>src/odb\<close>). This development covers the
  data structures on which the database rests and two tools on top of it: the detailed placer
  (\<open>src/dpl\<close>), which reads the design from the database, puts every movable cell on legal sites and
  writes the locations back, and the tap cell tool (\<open>src/tap\<close>), which cuts the rows around macros and
  inserts endcaps and tap cells before the placement.

  \<^bold>\<open>Storage (odb).\<close> \<open>Odb_Table\<close> models \<open>dbTable.hpp\<close>, the pages and the free list in which every
  database object is allocated; \<open>Odb_Hash\<close> the indexes by name and number, \<open>dbHashTable.hpp\<close> and
  \<open>dbIntHashTable.hpp\<close>, whose buckets are linked through the objects of a table. Both refine a finite
  map: \<open>Odb_Table_Facts\<close> and \<open>_Ops\<close> treat the doubly linked free list, \<open>Odb_Hash_Facts\<close> and \<open>_Ops\<close> the
  chains, and the two \<open>_Props\<close> theories state the refinement, the iteration order, the load and the
  lookup by name. The interface of an index is the locale \<open>key_index\<close>, which both hash tables interpret.

  \<^bold>\<open>Geometry and design objects (odb).\<close> \<open>Odb_Geom\<close> is \<open>geom.h\<close>, \<open>Odb_Types\<close> the enumerations of
  \<open>dbTypes.cpp\<close> that the placer reads with the locale \<open>name_codec\<close> for parsing and printing, \<open>Odb_Enums\<close> the others, \<open>Odb_Transform\<close> the orientations and
  transforms, \<open>Odb_Design\<close> the masters, instances, rows, regions, nets and the block as far as the placer
  uses them. \<open>Odb_Props\<close> holds their properties.

  \<^bold>\<open>Routed wires (odb).\<close> \<open>Odb_Wire\<close> models \<open>dbWireCodec.cpp\<close> and \<open>dbWireOpcode.h\<close>: an encoder that turns
  calls into opcodes with operands, a decoder that reads them one element at a time, and the walk back
  \<open>getPrevPoint\<close>. \<open>Odb_Wire_Walk\<close> shows that the walk ends and what it finds, \<open>Odb_Wire_Codec\<close>, \<open>_Sim\<close> and
  \<open>_Run\<close> are a simulation between encoder and decoder, command by command, \<open>Odb_Wire_Track\<close> follows the
  junctions, \<open>Odb_Wire_Props\<close> states the round trip.

  \<^bold>\<open>Journal (odb).\<close> \<open>Odb_Journal_Log\<close> models the typed byte log of \<open>dbJournalLog.cpp\<close>, \<open>Odb_Journal\<close> the
  writers, one for each kind of change that the database records, \<open>Odb_Journal_Redo\<close> the reading of the log
  by \<open>redo\<close> and \<open>undo\<close> of \<open>dbJournal.cpp\<close>. \<open>Odb_Journal_Facts\<close> has the reading rules, \<open>Odb_Journal_Props\<close>
  histories of edits and what \<open>redo\<close> and \<open>undo\<close> make of them.

  \<^bold>\<open>Netlist (odb).\<close> \<open>Odb_Net\<close> models the connectivity of a block: \<open>dbNet.cpp\<close>, \<open>dbInst.cpp\<close>, \<open>dbInstHdr.cpp\<close>,
  \<open>dbITerm.cpp\<close>, \<open>dbBTerm.cpp\<close> and the ECO of \<open>dbDatabase.cpp\<close>. The record \<open>netlist\<close> holds five object tables with
  the indexes over them and the journal, so this component runs on top of tables, hash tables and journal.
  \<open>Odb_Net_Index\<close> treats a table with an index as one map, \<open>Odb_Net_Links\<close> the doubly linked lists of terminals
  (locale \<open>term_links\<close>, interpreted for both kinds of terminals), \<open>Odb_Net_Facts\<close> gives every step a rule for
  \<open>ends\<close> (it does not fail and this holds afterwards) over the meaning \<open>nstate\<close> of a netlist, \<open>_Terms\<close>, \<open>_Bterms\<close>,
  \<open>_Objects\<close>, \<open>_Ops\<close>, \<open>_Insts\<close> and \<open>_Swap\<close> the operations, \<open>Odb_Net_Invariant\<close> the invariant, \<open>Odb_Net_Props\<close> its
  properties. \<open>Odb_Net_Commute\<close> shows that terminals of an instance that is destroyed might all be disconnected first,
  \<open>Odb_Net_Replay\<close> that the recorded changes, made on a block without a journal, do what the operations did, and
  \<open>Odb_Net_Eco\<close> that \<open>commitEco\<close> therefore reproduces an edit.

  \<^bold>\<open>Detailed placer (dpl).\<close> The record \<open>Opendp\<close> of \<open>Dpl_State\<close> holds the fields of the class. The
  operations follow the files: \<open>Dpl_Import\<close> is \<open>dbToOpendp.cpp\<close>, \<open>Dpl_Grid\<close> is \<open>Grid.cpp\<close>, \<open>Dpl_Search\<close>,
  \<open>Dpl_Moves\<close> and \<open>Dpl_Place\<close> are \<open>Place.cpp\<close> (reading, moving, driving) with the run of \<open>Opendp.cpp\<close>,
  \<open>Dpl_Check\<close> is \<open>CheckPlacement.cpp\<close>, \<open>Dpl_Filler\<close> is \<open>FillerPlacement.cpp\<close> and \<open>Dpl_Mirror\<close> is \<open>OptMirror.cpp\<close>.
  The proofs rest on one invariant of the grid (\<open>grid_ok\<close> in \<open>Dpl_Legal\<close>): a placed cell owns exactly the
  pixels of its padded footprint. \<open>Dpl_Steps\<close> reduces every operation to steps of three kinds, so that the
  invariants follow by rule induction; \<open>Dpl_Legality\<close>, \<open>Dpl_Improve\<close>, \<open>Dpl_Run\<close> and \<open>Dpl_Groups\<close> apply this to
  the operations, \<open>Dpl_Import_Facts\<close> provides the start of a run, \<open>Dpl_Writeback\<close> its effect on the
  database. \<open>Dpl_Correct\<close>, \<open>Dpl_Move_Props\<close>, \<open>Dpl_State_Props\<close>, \<open>Dpl_Import_Props\<close>, \<open>Dpl_Check_Props\<close>,
  \<open>Dpl_Run_Props\<close>, \<open>Dpl_Filler_Props\<close> and \<open>Dpl_Mirror_Props\<close> hold the properties, \<open>Dpl_Example\<close> the concrete
  designs on which they are applied. Two assertions are not faults of the model: the lookups of the master of a
  cell in \<open>isMultiRow\<close> and \<open>topPower\<close>; \<open>masters_known\<close> says that they hold, the import establishes it, no operation changes it,
  and the properties that exclude faults assume it.

  \<^bold>\<open>Tap cells (tap).\<close> \<open>Tap_Rows\<close> models the first half of \<open>tapcell.cpp\<close>: the rows, which are objects of a table of
  \<open>Odb_Table\<close>, are cut around macros and their halos (\<open>cutRows\<close>) and arranged by position (\<open>organizeRows\<close>). \<open>Tap_Cells\<close> holds
  the members of the class, on top of the block of \<open>Odb_Design\<close>, and the queries, \<open>Tap_Insert\<close> the functions that insert
  endcaps, boundary cells and tap cells, up to \<open>Tapcell::run\<close>. \<open>Tap_Cut_Facts\<close> computes the parts of one row and
  what happens to the table, \<open>Tap_Cut_Props\<close> states that the rows are clear of the macros afterwards and
  that no usable site is lost. \<open>Tap_Organize\<close> shows the order of the arrangement, \<open>Tap_Endcaps\<close> what inserting cells does
  to the database and that every row gets its endcaps.
\<close>

text \<open>
  \<^bold>\<open>Reading the model.\<close> A pointer to an object is its index, its id or, for a pixel, its pair of
  coordinates; the null pointer is None or 0 as in the source. Code that may fail returns a \<open>fault\<close> or a
  value: \<open>LoggedError n\<close> and \<open>Critical n\<close> are the messages with number \<open>n\<close> of the tool, \<open>Abort\<close> a failed assertion (the model is that
  of a build with assertions), \<open>NullDeref\<close>, \<open>OutOfBounds\<close> and \<open>NoReturn\<close> are what their names say.
  Coordinates are unbounded integers, except where the code narrows, multiplies or wraps: areas,
  lengths of boxes, cross products, hash functions, the opcodes and the bytes of the journal with the ids in it are kept
  at their width. The ids of the object tables are natural numbers, which stands for tables of less than \<open>2 ^ 32\<close> slots. Quotients that the code computes in \<open>double\<close> and rounds, and the utilisation of pixels,
  are exact rationals.

  \<^bold>\<open>Bounds.\<close> Loops are recursion with a termination proof where the code always ends. Where it need not
  end there is a bound, with a proof that it is not reached: a walk along a bucket is cut after
  \<open>chain_fuel\<close> entries (\<open>index_refines_map\<close> shows that nothing is cut in a reachable state), the walk of
  \<open>getPrevPoint\<close> after \<open>4 * length + 4\<close> rounds, which is enough when every junction refers back, as all
  encoded wires do; reading a whole wire after one round per opcode. \<open>undo\<close> takes its bound as an argument;
  its property holds for each positive one.

  \<^bold>\<open>Parameters.\<close> \<open>std::sort\<close> is an argument with the contract \<open>std_sort\<close> of \<open>Cxx_Library\<close>, since the order of
  equivalent elements is open; the numbers of \<open>rand()\<close> are an argument without any hypothesis. The order of
  the addresses of the rows, in which \<open>cutRows\<close> visits them, is an argument of which only is known that it permutes.

  \<^bold>\<open>Not modelled.\<close> In the modelled files: printed reports and debug messages, stream operators and
  difference reports, callbacks, \<open>Oct::getPoints\<close> (a square root in floating point), the dump of wires,
  journal writers under \<open>FULL_ECO\<close> and
  \<open>TMG_SI\<close> (not defined in any build file), and the database methods that \<open>redo\<close> calls
  for parasitics and flags; \<open>redo\<close> yields the list of calls, and \<open>commitEco\<close> makes those that change the netlist.
  Of the tap cell tool \<open>removeCells\<close> and \<open>clear\<close> are left out.
  In the netlist, boxes, wires, pins, regions, modules, groups, hierarchical instances and properties are left out. The fields of the design objects that the placer never touches are left out. Outside:
  graphics and Tcl glue, the LEF and DEF readers and writers, persistence, and the other tools of the flow
  (routers, global placement, clock trees, resizing, extraction, pins, macros, power grid, floorplan, timing), each a
  program of its own over the same database.
\<close>

end
